(* ===== verification/Prelude.thy ===== *)
theory Prelude
  imports Main "HOL-Library.Word"
begin

text \<open>
  Shared vocabulary of the development: the C integer types as words, the
  collections of facts the component theories extend, and generic lemmas on
  word arithmetic without wrap-around, on arrays updated in place (lists), on
  the loops that shift and copy array elements, on sorted association lists
  and on little-endian byte images.
\<close>

unbundle bit_operations_syntax

section \<open>C integer types\<close>

type_synonym u8 = "8 word"
type_synonym u16 = "16 word"
type_synonym u32 = "32 word"
type_synonym u64 = "64 word"

named_theorems word_nowrap \<open>word operations that do not wrap, read as natural numbers\<close>
named_theorems array_simps \<open>loops over arrays in closed form\<close>

lemma unat_plus_one [word_nowrap]:
  fixes c :: "'a::len word"
  assumes "unat c + 1 < 2 ^ LENGTH('a)"
  shows "unat (c + 1) = unat c + 1"
  using assms unat_add_lem[of c 1] by (simp add: unat_word_ariths)

lemma unat_pred [word_nowrap]:
  fixes c :: "'a::len word"
  assumes "0 < unat c"
  shows "unat (c - 1) = unat c - 1"
  using assms by (metis unat_minus_one unat_0 less_irrefl)

lemma unat_of_nat_small [word_nowrap]:
  "n < 2 ^ LENGTH('a::len) \<Longrightarrow> unat (of_nat n :: 'a word) = n"
  by (simp add: unat_of_nat take_bit_nat_eq_self)

lemma sint_small_u32 [word_nowrap]:
  fixes c :: u32
  assumes "unat c < 2147483648"
  shows "sint c = int (unat c)"
proof -
  have "int (unat c) < int 2147483648" using assms by (rule of_nat_less_iff [THEN iffD2])
  then have "uint c < 2147483648" by simp
  moreover have "- 2147483648 \<le> uint c" using uint_ge_0 [of c] by linarith
  ultimately have "signed_take_bit 31 (uint c) = uint c"
    by (intro signed_take_bit_int_eq_self) simp_all
  then show ?thesis by (simp add: sint_uint)
qed


section \<open>Arrays updated in place\<close>

text \<open>
  A C array is a list of its declared length. The three loops below are the
  loops the sources use on arrays: copying a run between two arrays, moving a
  run one slot up (from the top downwards) to open a hole, and moving a run one
  slot down to close one.
\<close>

fun array_copy :: "'a list \<Rightarrow> nat \<Rightarrow> 'a list \<Rightarrow> nat \<Rightarrow> nat \<Rightarrow> 'a list" where
  "array_copy dst d src s 0 = dst"
| "array_copy dst d src s (Suc n) = array_copy (dst[d := src ! s]) (Suc d) src (Suc s) n"

fun shift_up :: "nat \<Rightarrow> nat \<Rightarrow> 'a list \<Rightarrow> 'a list" where
  "shift_up 0 pos xs = xs"
| "shift_up (Suc i) pos xs = (if pos < Suc i then shift_up i pos (xs[Suc i := xs ! i]) else xs)"

fun shift_down :: "nat \<Rightarrow> nat \<Rightarrow> 'a list \<Rightarrow> 'a list" where
  "shift_down pos 0 xs = xs"
| "shift_down pos (Suc n) xs = shift_down (Suc pos) n (xs[pos := xs ! Suc pos])"

lemma length_array_copy [simp]: "length (array_copy dst d src s n) = length dst"
  by (induction dst d src s n rule: array_copy.induct) auto

lemma length_shift_up [simp]: "length (shift_up i pos xs) = length xs"
  by (induction i pos xs rule: shift_up.induct) auto

lemma length_shift_down [simp]: "length (shift_down pos n xs) = length xs"
  by (induction pos n xs rule: shift_down.induct) auto

lemma nth_array_copy:
  "\<lbrakk>d + n \<le> length dst; i < length dst\<rbrakk> \<Longrightarrow>
   array_copy dst d src s n ! i = (if d \<le> i \<and> i < d + n then src ! (s + (i - d)) else dst ! i)"
proof (induction n arbitrary: dst d s)
  case (Suc n)
  then show ?case by (auto simp: nth_list_update not_less_eq_eq Suc_diff_le less_Suc_eq_le
      intro!: arg_cong[of _ _ "(!) src"])
qed auto

lemma array_copy_take [array_simps]:
  assumes "d + n \<le> length dst" and "s + n \<le> length src"
  shows "array_copy dst d src s n = take d dst @ take n (drop s src) @ drop (d + n) dst"
  using assms by (intro nth_equalityI) (auto simp: nth_array_copy nth_append)

lemma nth_shift_up:
  "\<lbrakk>n < length xs; i < length xs\<rbrakk> \<Longrightarrow>
   shift_up n pos xs ! i = (if pos < i \<and> i \<le> n then xs ! (i - 1) else xs ! i)"
proof (induction n arbitrary: xs)
  case (Suc n)
  then show ?case by (auto simp: nth_list_update le_Suc_eq)
qed simp

lemma shift_up_insert [array_simps]:
  assumes "pos \<le> n" and "n < length xs"
  shows "(shift_up n pos xs)[pos := x] = take pos xs @ x # take (n - pos) (drop pos xs) @ drop (Suc n) xs"
  using assms
  by (intro nth_equalityI)
    (auto simp: nth_shift_up nth_list_update nth_append nth_Cons' min_def
      intro!: arg_cong[of _ _ "(!) xs"])

lemma nth_shift_down:
  "\<lbrakk>pos + n < length xs; i < length xs\<rbrakk> \<Longrightarrow>
   shift_down pos n xs ! i = (if pos \<le> i \<and> i < pos + n then xs ! Suc i else xs ! i)"
proof (induction n arbitrary: xs pos)
  case (Suc n)
  then show ?case by (auto simp: nth_list_update)
qed auto

lemma take_shift_down [array_simps]:
  assumes "pos + n < length xs"
  shows "take (pos + n) (shift_down pos n xs) = take pos xs @ take n (drop (Suc pos) xs)"
  using assms by (intro nth_equalityI) (auto simp: nth_shift_down nth_append)

section \<open>Sorted association lists\<close>

text \<open>
  The abstract content of an ordered index: a list of key/value pairs in
  strictly ascending key order. \<open>kv_upd\<close> and \<open>kv_del\<close> are the
  reference operations; \<open>map_of\<close> reads the list as a finite map.
\<close>

abbreviation kv_sorted :: "('k::linorder \<times> 'v) list \<Rightarrow> bool" where
  "kv_sorted kvs \<equiv> sorted_wrt (<) (map fst kvs)"

fun kv_upd :: "'k::linorder \<Rightarrow> 'v \<Rightarrow> ('k \<times> 'v) list \<Rightarrow> ('k \<times> 'v) list" where
  "kv_upd k v [] = [(k, v)]"
| "kv_upd k v ((a, b) # kvs) =
     (if k < a then (k, v) # (a, b) # kvs
      else if k = a then (k, v) # kvs
      else (a, b) # kv_upd k v kvs)"

definition kv_del :: "'k \<Rightarrow> ('k \<times> 'v) list \<Rightarrow> ('k \<times> 'v) list" where
  "kv_del k kvs = filter (\<lambda>p. fst p \<noteq> k) kvs"

lemma map_of_kv_upd [simp]: "map_of (kv_upd k v kvs) = (map_of kvs)(k \<mapsto> v)"
  by (induction k v kvs rule: kv_upd.induct) (auto simp: fun_eq_iff)

lemma map_of_kv_del [simp]: "map_of (kv_del k kvs) = (map_of kvs)(k := None)"
  by (induction kvs) (auto simp: kv_del_def fun_eq_iff)

lemma fst_set_kv_upd: "fst ` set (kv_upd k v kvs) = insert k (fst ` set kvs)"
  by (induction k v kvs rule: kv_upd.induct) auto

lemma kv_sorted_kv_del: "kv_sorted kvs \<Longrightarrow> kv_sorted (kv_del k kvs)"
  unfolding kv_del_def sorted_wrt_map by (rule sorted_wrt_filter)

lemma kv_sorted_kv_upd: "kv_sorted kvs \<Longrightarrow> kv_sorted (kv_upd k v kvs)"
proof (induction k v kvs rule: kv_upd.induct)
  case (2 k v a b kvs)
  have "\<forall>x \<in> set (map fst (kv_upd k v kvs)). x = k \<or> x \<in> fst ` set kvs"
    using fst_set_kv_upd[of k v kvs] by auto
  with 2 show ?case by fastforce
qed simp

lemma kv_upd_middle:
  assumes "\<forall>p \<in> set as. fst p < k" and "\<forall>p \<in> set cs. k < fst p"
  shows "kv_upd k v (as @ bs @ cs) = as @ kv_upd k v bs @ cs"
proof -
  have right: "kv_upd k v (bs @ cs) = kv_upd k v bs @ cs"
    using assms(2)
  proof (induction bs)
    case Nil then show ?case by (cases cs) auto
  qed auto
  show ?thesis using assms(1) by (induction as) (auto simp: right)
qed

lemma kv_upd_present:
  assumes "\<forall>p \<in> set as. fst p < k"
  shows "kv_upd k v (as @ (k, b) # cs) = as @ (k, v) # cs"
  using assms by (induction as) auto

lemma kv_upd_absent:
  assumes "\<forall>p \<in> set as. fst p < k" and "\<forall>p \<in> set cs. k < fst p"
  shows "kv_upd k v (as @ cs) = as @ (k, v) # cs"
  using kv_upd_middle[OF assms, of v "[]"] by simp

lemma kv_del_append [simp]: "kv_del k (as @ bs) = kv_del k as @ kv_del k bs"
  by (simp add: kv_del_def)

lemma kv_del_notin: "k \<notin> fst ` set kvs \<Longrightarrow> kv_del k kvs = kvs"
  unfolding kv_del_def by (rule filter_True) force

section \<open>Little-endian byte images\<close>

fun le_bytes :: "nat \<Rightarrow> 'a::len word \<Rightarrow> u8 list" where
  "le_bytes 0 w = []"
| "le_bytes (Suc n) w = ucast w # le_bytes n (drop_bit 8 w)"

fun le_word :: "u8 list \<Rightarrow> 'a::len word" where
  "le_word [] = 0"
| "le_word (b # bs) = ucast b OR push_bit 8 (le_word bs)"

lemma length_le_bytes [simp]: "length (le_bytes n w) = n"
  by (induction n arbitrary: w) auto

lemma le_word_le_bytes_mask: "le_word (le_bytes n (w :: 'a::len word)) = (take_bit (8 * n) w :: 'a word)"
proof (induction n arbitrary: w)
  case (Suc n)
  show ?case
  proof (rule bit_word_eqI)
    fix k assume k: "k < LENGTH('a)"
    show "bit (le_word (le_bytes (Suc n) w) :: 'a word) k = bit (take_bit (8 * Suc n) w) k"
      using k by (cases "k < 8") (auto simp: Suc bit_simps)
  qed
qed simp

lemma le_word_le_bytes [simp]:
  "8 * n = LENGTH('a::len) \<Longrightarrow> (le_word (le_bytes n w) :: 'a word) = w"
  by (simp add: le_word_le_bytes_mask take_bit_word_eq_self)

definition le_array :: "u64 list \<Rightarrow> u8 list" where
  "le_array ws = concat (map (le_bytes 8) ws)"

fun le_unarray :: "nat \<Rightarrow> u8 list \<Rightarrow> u64 list" where
  "le_unarray 0 bs = []"
| "le_unarray (Suc n) bs = le_word (take 8 bs) # le_unarray n (drop 8 bs)"

lemma length_le_array [simp]: "length (le_array ws) = 8 * length ws"
  by (induction ws) (auto simp: le_array_def)

lemma length_le_unarray [simp]: "length (le_unarray n bs) = n"
  by (induction n arbitrary: bs) auto

lemma le_unarray_le_array: "le_unarray (length ws) (le_array ws @ rest) = ws"
  by (induction ws) (auto simp: le_array_def)

end
