(* ===== verification/Kstring.thy ===== *)
theory Kstring
  imports Prelude
begin

text \<open>
  The memory and string routines of \<open>sys/src/lib/string.c\<close> over the
  32-bit byte-addressed memory: \<open>rep movsl\<close> and \<open>rep stosl\<close> as loops of
  little-endian dword moves, byte tails, and the unbounded string loops as
  \<open>partial_function (option)\<close> (\<open>None\<close>: no terminator is ever met).
\<close>

section \<open>Memory\<close>

type_synonym mem = "u32 \<Rightarrow> u8"

definition load32 :: "u32 \<Rightarrow> mem \<Rightarrow> u32" where
  "load32 a m = le_word [m a, m (a + 1), m (a + 2), m (a + 3)]"

definition store32 :: "u32 \<Rightarrow> u32 \<Rightarrow> mem \<Rightarrow> mem" where
  "store32 a w m = m(a := ucast w, a + 1 := ucast (drop_bit 8 w),
     a + 2 := ucast (drop_bit 16 w), a + 3 := ucast (drop_bit 24 w))"

fun mkrn_copy32 :: "u32 \<Rightarrow> u32 \<Rightarrow> nat \<Rightarrow> mem \<Rightarrow> mem" where
  "mkrn_copy32 d s 0 m = m"
| "mkrn_copy32 d s (Suc n) m = mkrn_copy32 (d + 4) (s + 4) n (store32 d (load32 s m) m)"

text \<open>The byte tail \<open>for (i = from; i < n; i++) pD[i] = pS[i]\<close>; the third
  argument is \<open>i\<close>, the fourth the number of rounds left.\<close>

fun copy_tail :: "u32 \<Rightarrow> u32 \<Rightarrow> nat \<Rightarrow> nat \<Rightarrow> mem \<Rightarrow> mem" where
  "copy_tail d s i 0 m = m"
| "copy_tail d s i (Suc left) m = copy_tail d s (Suc i) left (m(d + of_nat i := m (s + of_nat i)))"

definition mkrn_memcpy :: "u32 \<Rightarrow> u32 \<Rightarrow> u32 \<Rightarrow> mem \<Rightarrow> mem" where
  "mkrn_memcpy d s n m =
     (let nD = drop_bit 2 n;
          m1 = (if nD \<noteq> 0 then mkrn_copy32 d s (unat nD) m else m);
          i = unat (n AND NOT 3)
      in copy_tail d s i (unat n - i) m1)"

fun copy_back :: "u32 \<Rightarrow> u32 \<Rightarrow> nat \<Rightarrow> mem \<Rightarrow> mem" where
  "copy_back d s 0 m = m"
| "copy_back d s (Suc i) m = copy_back d s i (m(d + of_nat i := m (s + of_nat i)))"

definition mkrn_memmove :: "u32 \<Rightarrow> u32 \<Rightarrow> u32 \<Rightarrow> mem \<Rightarrow> mem" where
  "mkrn_memmove d s n m =
     (if d < s then
        (let nD = drop_bit 2 n;
             m1 = (if nD \<noteq> 0 then mkrn_copy32 d s (unat nD) m else m);
             i = unat (n AND NOT 3)
         in copy_tail d s i (unat n - i) m1)
      else if d > s then copy_back d s (unat n) m
      else m)"

fun mkrn_fill32 :: "u32 \<Rightarrow> nat \<Rightarrow> u32 \<Rightarrow> mem \<Rightarrow> mem" where
  "mkrn_fill32 d 0 c m = m"
| "mkrn_fill32 d (Suc n) c m = mkrn_fill32 (d + 4) n c (store32 d c m)"

fun fill_tail :: "u32 \<Rightarrow> u8 \<Rightarrow> nat \<Rightarrow> nat \<Rightarrow> mem \<Rightarrow> mem" where
  "fill_tail p v i 0 m = m"
| "fill_tail p v i (Suc left) m = fill_tail p v (Suc i) left (m(p + of_nat i := v))"

definition mkrn_memset :: "u32 \<Rightarrow> u32 \<Rightarrow> u32 \<Rightarrow> mem \<Rightarrow> mem" where
  "mkrn_memset p c n m =
     (let v = (ucast c :: u8); nD = drop_bit 2 n;
          m1 = (if nD \<noteq> 0 then
                  (let pat = (ucast v :: u32); pat = pat OR push_bit 8 pat; pat = pat OR push_bit 16 pat
                   in mkrn_fill32 p (unat nD) pat m)
                else m);
          i = unat (n AND NOT 3)
      in fill_tail p v i (unat n - i) m1)"

section \<open>Strings\<close>

partial_function (option) strlen_loop :: "u32 \<Rightarrow> u32 \<Rightarrow> mem \<Rightarrow> u32 option" where
  "strlen_loop p len m = (if m p \<noteq> 0 then strlen_loop (p + 1) (len + 1) m else Some len)"

definition mkrn_strlen :: "u32 \<Rightarrow> mem \<Rightarrow> u32 option" where
  "mkrn_strlen p m = strlen_loop p 0 m"

partial_function (option) mkrn_strcpy :: "u32 \<Rightarrow> u32 \<Rightarrow> mem \<Rightarrow> mem option" where
  "mkrn_strcpy d s m =
     (if m s \<noteq> 0 then mkrn_strcpy (d + 1) (s + 1) (m(d := m s)) else Some (m(d := 0)))"

fun strncpy_pad :: "u32 \<Rightarrow> nat \<Rightarrow> mem \<Rightarrow> mem" where
  "strncpy_pad d 0 m = m"
| "strncpy_pad d (Suc n) m = strncpy_pad (d + 1) n (m(d := 0))"

fun strncpy_loop :: "u32 \<Rightarrow> u32 \<Rightarrow> nat \<Rightarrow> mem \<Rightarrow> mem" where
  "strncpy_loop d s 0 m = m"
| "strncpy_loop d s (Suc n) m =
     (if m s \<noteq> 0 then strncpy_loop (d + 1) (s + 1) n (m(d := m s)) else strncpy_pad d (Suc n) m)"

definition mkrn_strncpy :: "u32 \<Rightarrow> u32 \<Rightarrow> u32 \<Rightarrow> mem \<Rightarrow> mem" where
  "mkrn_strncpy d s n m = strncpy_loop d s (unat n) m"

text \<open>Plain \<open>char\<close> is signed on i386: \<open>strcmp\<close> subtracts signed bytes,
  \<open>strncmp\<close> unsigned ones.\<close>

partial_function (option) mkrn_strcmp :: "u32 \<Rightarrow> u32 \<Rightarrow> mem \<Rightarrow> int option" where
  "mkrn_strcmp a b m =
     (if m a \<noteq> 0 \<and> m b \<noteq> 0 \<and> m a = m b then mkrn_strcmp (a + 1) (b + 1) m
      else Some (sint (m a) - sint (m b)))"

fun strncmp_loop :: "u32 \<Rightarrow> u32 \<Rightarrow> nat \<Rightarrow> mem \<Rightarrow> int" where
  "strncmp_loop a b 0 m = 0"
| "strncmp_loop a b (Suc n) m =
     (if m a \<noteq> 0 \<and> m b \<noteq> 0 \<and> m a = m b then strncmp_loop (a + 1) (b + 1) n m
      else uint (m a) - uint (m b))"

definition mkrn_strncmp :: "u32 \<Rightarrow> u32 \<Rightarrow> u32 \<Rightarrow> mem \<Rightarrow> int" where
  "mkrn_strncmp a b n m = strncmp_loop a b (unat n) m"

partial_function (option) strend :: "u32 \<Rightarrow> mem \<Rightarrow> u32 option" where
  "strend p m = (if m p \<noteq> 0 then strend (p + 1) m else Some p)"

definition mkrn_strcat :: "u32 \<Rightarrow> u32 \<Rightarrow> mem \<Rightarrow> mem option" where
  "mkrn_strcat d s m = (case strend d m of None \<Rightarrow> None | Some e \<Rightarrow> mkrn_strcpy e s m)"

section \<open>Copies\<close>

text \<open>The reference: \<open>n\<close> bytes at \<open>d\<close> replaced by the bytes at \<open>s\<close> of the
  memory before the call. Addresses are modulo \<open>2 ^ 32\<close>.\<close>

definition copied :: "u32 \<Rightarrow> u32 \<Rightarrow> nat \<Rightarrow> mem \<Rightarrow> mem" where
  "copied d s n m = (\<lambda>a. if unat (a - d) < n then m (s + (a - d)) else m a)"

lemma copied_0 [simp]: "copied d s 0 m = m"
  by (simp add: copied_def)

lemma u8_high_bits: "\<not> bit (w :: u8) (8 + k)" "\<not> bit (w :: u8) (16 + k)" "\<not> bit (w :: u8) (24 + k)"
  using bit_imp_le_length[of w] by fastforce+

lemma store_load: "store32 d (load32 s m) m' = m'(d := m s, d + 1 := m (s + 1), d + 2 := m (s + 2), d + 3 := m (s + 3))"
proof -
  have "ucast (load32 s m) = m s" "ucast (drop_bit 8 (load32 s m)) = m (s + 1)"
    "ucast (drop_bit 16 (load32 s m)) = m (s + 2)" "ucast (drop_bit 24 (load32 s m)) = m (s + 3)"
    by (auto intro!: bit_word_eqI simp: load32_def bit_simps u8_high_bits)
  then show ?thesis by (simp add: store32_def)
qed

lemma unat_add_offset: "unat (x :: u32) + k < 4294967296 \<Longrightarrow> unat (x + of_nat k) = unat x + k"
  by (simp add: unat_word_ariths unat_of_nat)

lemma copied_source:
  "unat (s - d) + i < 4294967296 \<Longrightarrow> j \<le> i \<Longrightarrow> copied d s j m (s + of_nat i) = m (s + of_nat i)"
proof -
  assume a: "unat (s - d) + i < 4294967296" "j \<le> i"
  have "s + of_nat i - d = (s - d) + of_nat i" by simp
  then have "unat (s + of_nat i - d) = unat (s - d) + i" using unat_add_offset[OF a(1)] by (simp only:)
  then show ?thesis using a(2) by (simp add: copied_def)
qed

lemma copied_step:
  assumes "i < 4294967296"
  shows "(copied d s i m)(d + of_nat i := m (s + of_nat i)) = copied d s (Suc i) m"
proof
  fix a
  have eq: "(unat (a - d) = i) = (a = d + of_nat i)"
    using assms by (auto simp: unat_of_nat)
  show "((copied d s i m)(d + of_nat i := m (s + of_nat i))) a = copied d s (Suc i) m a"
    using eq by (auto simp: copied_def less_Suc_eq)
qed

lemma copy_tail_copied:
  assumes "unat (s - d) + (i + left) \<le> 4294967296"
  shows "copy_tail d s i left (copied d s i m) = copied d s (i + left) m"
  using assms
proof (induction left arbitrary: i)
  case (Suc left)
  then have "copied d s i m (s + of_nat i) = m (s + of_nat i)" by (intro copied_source) auto
  then show ?case using Suc.IH[of "Suc i"] Suc.prems copied_step[of i d s m] by simp
qed simp

lemma copied_step4:
  assumes "unat (s - d) + (i + 4) \<le> 4294967296"
  shows "store32 (d + of_nat i) (load32 (s + of_nat i) (copied d s i m)) (copied d s i m) = copied d s (i + 4) m"
proof -
  have src: "copied d s i m (s + of_nat (i + k)) = m (s + of_nat (i + k))" if "k < 4" for k
    using assms that by (intro copied_source) auto
  have st: "(copied d s (i + k) m)(d + of_nat (i + k) := m (s + of_nat (i + k))) = copied d s (i + Suc k) m"
    if "k < 4" for k using assms that copied_step[of "i + k" d s m] by simp
  have off: "x + of_nat i = x + of_nat (i + 0)" "x + of_nat i + 1 = x + of_nat (i + 1)"
    "x + of_nat i + 2 = x + of_nat (i + 2)" "x + of_nat i + 3 = x + of_nat (i + 3)" for x :: u32 by simp_all
  have "store32 (d + of_nat i) (load32 (s + of_nat i) (copied d s i m)) (copied d s i m) =
      (copied d s (i + 0) m)(d + of_nat (i + 0) := m (s + of_nat (i + 0)), d + of_nat (i + 1) := m (s + of_nat (i + 1)),
        d + of_nat (i + 2) := m (s + of_nat (i + 2)), d + of_nat (i + 3) := m (s + of_nat (i + 3)))"
    unfolding store_load off(2-4) using src[of 0] src[of 1] src[of 2] src[of 3] by simp
  also have "\<dots> = copied d s (i + 4) m"
    using st[of 0] st[of 1] st[of 2] st[of 3] by (simp del: of_nat_add fun_upd_apply add: numeral_eq_Suc)
  finally show ?thesis .
qed

lemma copy32_copied:
  assumes "unat (s - d) + (i + 4 * n) \<le> 4294967296"
  shows "mkrn_copy32 (d + of_nat i) (s + of_nat i) n (copied d s i m) = copied d s (i + 4 * n) m"
  using assms
proof (induction n arbitrary: i)
  case (Suc n)
  have "store32 (d + of_nat i) (load32 (s + of_nat i) (copied d s i m)) (copied d s i m) = copied d s (i + 4) m"
    using Suc.prems by (intro copied_step4) simp
  moreover have "d + of_nat i + 4 = d + of_nat (i + 4)" "s + of_nat i + 4 = s + of_nat (i + 4)" by simp_all
  ultimately show ?case using Suc.IH[of "i + 4"] Suc.prems by (simp add: add.assoc)
qed simp

lemma word_align4: "unat (n AND NOT 3 :: u32) = 4 * unat (drop_bit 2 n)" "4 * unat (drop_bit 2 n) \<le> unat n"
proof -
  have "n AND NOT 3 = push_bit 2 (drop_bit 2 n)"
  proof -
    have m: "3 = (mask 2 :: u32)" by (simp add: mask_eq_exp_minus_1)
    show ?thesis unfolding m by (intro bit_word_eqI) (auto simp: bit_simps not_less dest!: le_Suc_ex)
  qed
  moreover have u: "unat (drop_bit 2 n) = unat n div 4" by (simp only: unat_drop_bit_eq) (simp add: drop_bit_eq_div)
  then have "4 * unat (drop_bit 2 n) < 4294967296" using unsigned_less[of n, where ?'a = nat] by simp
  ultimately show "unat (n AND NOT 3) = 4 * unat (drop_bit 2 n)"
    by (simp add: push_bit_eq_mult unat_word_ariths)
  show "4 * unat (drop_bit 2 n) \<le> unat n" using u by simp
qed

lemma forward_copy:
  assumes "unat (s - d) + unat (n :: u32) \<le> 4294967296"
  shows "(let nD = drop_bit 2 n;
             m1 = (if nD \<noteq> 0 then mkrn_copy32 d s (unat nD) m else m);
             i = unat (n AND NOT 3)
         in copy_tail d s i (unat n - i) m1) = copied d s (unat n) m"
proof -
  define q where "q = unat (drop_bit 2 n)"
  have q: "4 * q \<le> unat n" "unat (n AND NOT 3) = 4 * q" using word_align4[of n] by (auto simp: q_def)
  have "mkrn_copy32 d s q m = copied d s (4 * q) m" using copy32_copied[of s d 0 q m] assms q by simp
  moreover have "q = 0" if "drop_bit 2 n = 0" using that by (simp add: q_def)
  ultimately have "(if drop_bit 2 n \<noteq> 0 then mkrn_copy32 d s q m else m) = copied d s (4 * q) m" by auto
  then show ?thesis unfolding Let_def q(2) q_def[symmetric]
    using copy_tail_copied[of s d "4 * q" "unat n - 4 * q" m] assms q(1) by (simp only:) simp
qed

lemma copy_back_copied:
  assumes "unat (d - s) + n \<le> 4294967296" "i \<le> n"
    "m' = (\<lambda>a. if i \<le> unat (a - d) \<and> unat (a - d) < n then m (s + (a - d)) else m a)"
  shows "copy_back d s i m' = copied d s n m"
  using assms(2,3)
proof (induction i arbitrary: m')
  case 0
  then show ?case by (simp add: copied_def)
next
  case (Suc i)
  have i: "i < 4294967296" using Suc.prems(1) assms(1) by simp
  have "m' (s + of_nat i) = m (s + of_nat i)"
  proof -
    have "\<not> (Suc i \<le> unat (s + of_nat i - d) \<and> unat (s + of_nat i - d) < n)"
    proof
      define k where "k = unat (s + of_nat i - d)"
      assume a: "Suc i \<le> unat (s + of_nat i - d) \<and> unat (s + of_nat i - d) < n"
      have "d + of_nat k = s + of_nat i" by (simp add: k_def)
      then have "of_nat i = (d - s) + of_nat k" by (simp add: algebra_simps)
      then have "unat (of_nat i :: u32) = unat (d - s) + k"
        using a assms(1) unat_add_offset[of "d - s" k] by (simp add: k_def)
      then show False using a i by (simp add: unat_of_nat k_def)
    qed
    then show ?thesis unfolding Suc.prems(2) by (rule if_not_P)
  qed
  then have "m'(d + of_nat i := m' (s + of_nat i)) =
      (\<lambda>a. if i \<le> unat (a - d) \<and> unat (a - d) < n then m (s + (a - d)) else m a)"
  proof (intro ext)
    fix a assume src: "m' (s + of_nat i) = m (s + of_nat i)"
    show "(m'(d + of_nat i := m' (s + of_nat i))) a =
        (if i \<le> unat (a - d) \<and> unat (a - d) < n then m (s + (a - d)) else m a)"
    proof (cases "a = d + of_nat i")
      case True
      then show ?thesis using src i Suc.prems(1) by (simp add: unat_of_nat)
    next
      case False
      then have "unat (a - d) \<noteq> i" by auto
      then have "(Suc i \<le> unat (a - d)) = (i \<le> unat (a - d))" by linarith
      then show ?thesis using False by (simp add: Suc.prems(2))
    qed
  qed
  then show ?case using Suc.IH Suc.prems(1) by simp
qed

lemma memmove_copied:
  assumes "unat d + unat n \<le> 4294967296" "unat s + unat n \<le> 4294967296"
  shows "mkrn_memmove d s n m = copied d s (unat n) m"
proof -
  consider "d < s" | "s < d" | "d = s" by fastforce
  then show ?thesis
  proof cases
    case 1
    then have "unat (s - d) = unat s - unat d" by (intro unat_sub) simp
    then have "unat (s - d) + unat n \<le> 4294967296" using assms by simp
    then show ?thesis using forward_copy[of s d n m] 1 by (simp only: mkrn_memmove_def if_True)
  next
    case 2
    then have "unat (d - s) = unat d - unat s" by (intro unat_sub) simp
    then have "unat (d - s) + unat n \<le> 4294967296" using assms by simp
    then have "copy_back d s (unat n) m = copied d s (unat n) m" by (rule copy_back_copied) (auto simp: fun_eq_iff)
    then show ?thesis using 2 by (simp add: mkrn_memmove_def less_not_sym)
  next
    case 3
    then show ?thesis by (auto simp: mkrn_memmove_def copied_def)
  qed
qed

section \<open>Fills\<close>

definition filled :: "u32 \<Rightarrow> u8 \<Rightarrow> nat \<Rightarrow> mem \<Rightarrow> mem" where
  "filled p v n m = (\<lambda>a. if unat (a - p) < n then v else m a)"

lemma filled_step:
  assumes "i < 4294967296"
  shows "(filled p v i m)(p + of_nat i := v) = filled p v (Suc i) m"
proof
  fix a
  have "(unat (a - p) = i) = (a = p + of_nat i)" using assms by (auto simp: unat_of_nat)
  then show "((filled p v i m)(p + of_nat i := v)) a = filled p v (Suc i) m a"
    by (auto simp: filled_def less_Suc_eq)
qed

lemma fill_tail_filled:
  "i + left \<le> 4294967296 \<Longrightarrow> fill_tail p v i left (filled p v i m) = filled p v (i + left) m"
proof (induction left arbitrary: i)
  case (Suc left)
  then show ?case using filled_step[of i p v m] Suc.IH[of "Suc i"] by simp
qed simp

lemma fill_pattern:
  assumes "pat = (ucast (v :: u8) :: u32) OR push_bit 8 (ucast v)" "w = pat OR push_bit 16 pat"
  shows "store32 p w m = m(p := v, p + 1 := v, p + 2 := v, p + 3 := v)"
proof -
  have "ucast w = v" "ucast (drop_bit 8 w) = v" "ucast (drop_bit 16 w) = v" "ucast (drop_bit 24 w) = v"
    unfolding assms by (auto intro!: bit_word_eqI simp: bit_simps u8_high_bits)
  then show ?thesis by (simp add: store32_def)
qed

lemma fill32_filled:
  assumes "pat = (ucast (v :: u8) :: u32) OR push_bit 8 (ucast v)" "w = pat OR push_bit 16 pat"
    "i + 4 * n \<le> 4294967296"
  shows "mkrn_fill32 (p + of_nat i) n w (filled p v i m) = filled p v (i + 4 * n) m"
  using assms(3)
proof (induction n arbitrary: i)
  case (Suc n)
  have st: "(filled p v (i + k) m)(p + of_nat (i + k) := v) = filled p v (i + Suc k) m" if "k < 4" for k
    using Suc.prems that filled_step[of "i + k" p v m] by simp
  have off: "p + of_nat i + 1 = p + of_nat (i + 1)" "p + of_nat i + 2 = p + of_nat (i + 2)"
    "p + of_nat i + 3 = p + of_nat (i + 3)" "p + of_nat i + 4 = p + of_nat (i + 4)" by simp_all
  have "store32 (p + of_nat i) w (filled p v i m) = filled p v (i + 4) m"
    unfolding fill_pattern[OF assms(1,2)] off using st[of 0] st[of 1] st[of 2] st[of 3]
    by (simp del: of_nat_add fun_upd_apply add: numeral_eq_Suc)
  then show ?case using Suc.IH[of "i + 4"] Suc.prems off(4) by (simp add: add.assoc)
qed simp

lemma memset_filled:
  "mkrn_memset p c n m = filled p (ucast c) (unat n) m"
proof -
  define q where "q = unat (drop_bit 2 n)"
  define v where "v = (ucast c :: u8)"
  define w where "w = (let pat = (ucast v :: u32); pat = pat OR push_bit 8 pat in pat OR push_bit 16 pat)"
  have n: "unat n < 4294967296" using unsigned_less[of n, where ?'a = nat] by simp
  have q: "4 * q \<le> unat n" "unat (n AND NOT 3) = 4 * q" using word_align4[of n] by (auto simp: q_def)
  have "mkrn_fill32 p q w m = filled p v (4 * q) m"
    using fill32_filled[OF refl refl, of 0 q p v m] n q(1) by (simp add: w_def Let_def filled_def)
  moreover have "q = 0" if "drop_bit 2 n = 0" using that by (simp add: q_def)
  ultimately have "(if drop_bit 2 n \<noteq> 0 then mkrn_fill32 p q w m else m) = filled p v (4 * q) m"
    by (auto simp: filled_def)
  moreover have "mkrn_memset p c n m = fill_tail p v (4 * q) (unat n - 4 * q) (if drop_bit 2 n \<noteq> 0 then mkrn_fill32 p q w m else m)"
    unfolding mkrn_memset_def Let_def q(2) q_def[symmetric] v_def[symmetric] w_def ..
  ultimately show ?thesis
    using fill_tail_filled[of "4 * q" "unat n - 4 * q" p v m] n q(1) by (simp only: v_def) simp
qed

section \<open>Strings\<close>

text \<open>\<open>str_at m p cs\<close>: the bytes \<open>cs\<close>, none of them zero, stand at \<open>p\<close> and
  a terminator follows.\<close>

definition str_at :: "mem \<Rightarrow> u32 \<Rightarrow> u8 list \<Rightarrow> bool" where
  "str_at m p cs \<longleftrightarrow> (\<forall>i < length cs. m (p + of_nat i) = cs ! i \<and> cs ! i \<noteq> 0) \<and> m (p + of_nat (length cs)) = 0"

lemma str_at_Nil: "str_at m p [] = (m p = 0)"
  by (simp add: str_at_def)

lemma str_at_Cons: "str_at m p (c # cs) = (m p = c \<and> c \<noteq> 0 \<and> str_at m (p + 1) cs)"
  unfolding str_at_def by (auto simp: nth_Cons add.assoc less_Suc_eq_0_disj split: nat.splits)

lemmas str_at_simps = str_at_Nil str_at_Cons

lemma strlen_str: "str_at m p cs \<Longrightarrow> strlen_loop p len m = Some (len + of_nat (length cs))"
  by (induction cs arbitrary: p len; subst strlen_loop.simps) (auto simp: str_at_simps add.assoc)

lemma strend_str: "str_at m p cs \<Longrightarrow> strend p m = Some (p + of_nat (length cs))"
  by (induction cs arbitrary: p; subst strend.simps) (auto simp: str_at_simps add.assoc)

lemma strcmp_str:
  "str_at m a xs \<Longrightarrow> str_at m b ys \<Longrightarrow> \<exists>r. mkrn_strcmp a b m = Some r \<and> (r = 0 \<longleftrightarrow> xs = ys)"
proof (induction xs arbitrary: a b ys)
  case Nil
  have s0: "sint (w :: u8) = 0 \<longleftrightarrow> w = 0" for w using signed_word_eqI[of w 0] by auto
  show ?case using Nil s0 by (cases ys; subst mkrn_strcmp.simps) (auto simp: str_at_simps)
next
  case (Cons x xs)
  have s0: "sint (w :: u8) = 0 \<longleftrightarrow> w = 0" for w using signed_word_eqI[of w 0] by auto
  show ?case
  proof (cases ys)
    case Nil
    then show ?thesis using Cons s0 by (subst mkrn_strcmp.simps) (auto simp: str_at_simps)
  next
    case (Cons y ys')
    have "sint x - sint y = 0 \<longleftrightarrow> x = y" using signed_word_eqI[of x y] by auto
    then show ?thesis using Cons.prems Cons.IH[of "a + 1" "b + 1" ys'] \<open>ys = y # ys'\<close>
      by (subst mkrn_strcmp.simps) (auto simp: str_at_simps)
  qed
qed

lemma strncmp_str:
  "str_at m a xs \<Longrightarrow> str_at m b ys \<Longrightarrow> strncmp_loop a b n m = 0 \<longleftrightarrow> take n xs = take n ys"
proof (induction n arbitrary: a b xs ys)
  case (Suc n)
  have u0: "uint (w :: u8) = 0 \<longleftrightarrow> w = 0" for w using unsigned_word_eqI[of w 0, where ?'a = int] by auto
  have ue: "uint (v :: u8) - uint w = 0 \<longleftrightarrow> v = w" for v w using unsigned_word_eqI[of v w, where ?'a = int] by auto
  show ?case using Suc u0 ue by (cases xs; cases ys) (auto simp: str_at_simps)
qed simp

lemma strcpy_loop:
  assumes "str_at m s cs" "unat (s - d) + Suc (length cs) \<le> 4294967296" "i \<le> length cs"
  shows "mkrn_strcpy (d + of_nat i) (s + of_nat i) (copied d s i m) = Some (copied d s (Suc (length cs)) m)"
  using assms(3)
proof (induction "length cs - i" arbitrary: i)
  case 0
  then have i: "i = length cs" by simp
  have "copied d s i m (s + of_nat i) = m (s + of_nat i)" using assms(2) i by (intro copied_source) auto
  moreover have "m (s + of_nat i) = 0" using assms(1) i by (simp add: str_at_def)
  ultimately show ?case using copied_step[of i d s m] assms(2) i by (subst mkrn_strcpy.simps) simp
next
  case (Suc k)
  then have i: "i < length cs" by simp
  have "copied d s i m (s + of_nat i) = m (s + of_nat i)" using assms(2) i by (intro copied_source) auto
  moreover have "m (s + of_nat i) \<noteq> 0" using assms(1) i by (simp add: str_at_def)
  moreover have "d + of_nat i + 1 = d + of_nat (Suc i)" "s + of_nat i + 1 = s + of_nat (Suc i)" by simp_all
  moreover have "mkrn_strcpy (d + of_nat (Suc i)) (s + of_nat (Suc i)) (copied d s (Suc i) m) =
      Some (copied d s (Suc (length cs)) m)" using Suc i by (intro Suc.hyps) auto
  ultimately show ?case using copied_step[of i d s m] assms(2) i by (subst mkrn_strcpy.simps) (simp only: if_True not_False_eq_True)
qed

lemma strcpy_str:
  "str_at m s cs \<Longrightarrow> unat (s - d) + Suc (length cs) \<le> 4294967296 \<Longrightarrow>
   mkrn_strcpy d s m = Some (copied d s (Suc (length cs)) m)"
  using strcpy_loop[of m s cs d 0] by simp

lemma copied_dest:
  "i < n \<Longrightarrow> n \<le> 4294967296 \<Longrightarrow> copied d s n m (d + of_nat i) = m (s + of_nat i)"
  by (simp add: copied_def unat_of_nat)

lemma copied_str:
  assumes "str_at m s cs" "length cs < 4294967296"
  shows "str_at (copied d s (Suc (length cs)) m) d cs"
  using assms by (auto simp: str_at_def copied_dest)

text \<open>The reference for \<open>strncpy\<close>: the string, cut at \<open>n\<close> bytes or padded with
  zeros to \<open>n\<close> bytes.\<close>

definition ncopied :: "u32 \<Rightarrow> u8 list \<Rightarrow> nat \<Rightarrow> mem \<Rightarrow> mem" where
  "ncopied d cs n m = (\<lambda>a. let i = unat (a - d) in
     if i < n then (if i < length cs then cs ! i else 0) else m a)"

lemma ncopied_step:
  assumes "i < 4294967296" "b = (if i < length cs then cs ! i else 0)"
  shows "(ncopied d cs i m)(d + of_nat i := b) = ncopied d cs (Suc i) m"
proof
  fix a
  have "(unat (a - d) = i) = (a = d + of_nat i)" using assms(1) by (auto simp: unat_of_nat)
  then show "((ncopied d cs i m)(d + of_nat i := b)) a = ncopied d cs (Suc i) m a"
    using assms by (auto simp: ncopied_def less_Suc_eq Let_def unat_of_nat)
qed

lemma strncpy_pad_ncopied:
  assumes "i + n \<le> 4294967296" "length cs \<le> i"
  shows "strncpy_pad (d + of_nat i) n (ncopied d cs i m) = ncopied d cs (i + n) m"
  using assms
proof (induction n arbitrary: i)
  case (Suc n)
  have "(ncopied d cs i m)(d + of_nat i := 0) = ncopied d cs (Suc i) m"
    using Suc.prems by (intro ncopied_step) auto
  moreover have "d + of_nat i + 1 = d + of_nat (Suc i)" by simp
  ultimately show ?case using Suc.IH[of "Suc i"] Suc.prems by (simp only: strncpy_pad.simps) simp
qed simp

lemma strncpy_loop_ncopied:
  assumes "str_at m s cs" "unat (s - d) + Suc (length cs) \<le> 4294967296" "i + n \<le> 4294967296" "i \<le> length cs"
  shows "strncpy_loop (d + of_nat i) (s + of_nat i) n (ncopied d cs i m) = ncopied d cs (i + n) m"
  using assms(3,4)
proof (induction n arbitrary: i)
  case (Suc n)
  have "unat (s + of_nat i - d) = unat (s - d) + i"
    using unat_add_offset[of "s - d" i] assms(2) Suc.prems(2) by (simp add: algebra_simps)
  then have src: "ncopied d cs i m (s + of_nat i) = m (s + of_nat i)" by (simp add: ncopied_def)
  show ?case
  proof (cases "i < length cs")
    case True
    then have c: "m (s + of_nat i) = cs ! i" "cs ! i \<noteq> 0" using assms(1) by (auto simp: str_at_def)
    have "(ncopied d cs i m)(d + of_nat i := cs ! i) = ncopied d cs (Suc i) m"
      using Suc.prems True by (intro ncopied_step) auto
    moreover have "d + of_nat i + 1 = d + of_nat (Suc i)" "s + of_nat i + 1 = s + of_nat (Suc i)" by simp_all
    ultimately show ?thesis using Suc.IH[of "Suc i"] Suc.prems True src c
      by (simp only: strncpy_loop.simps if_True not_False_eq_True) simp
  next
    case False
    then have i: "i = length cs" using Suc.prems by simp
    then have "m (s + of_nat i) = 0" using assms(1) by (simp add: str_at_def)
    then show ?thesis using strncpy_pad_ncopied[of i "Suc n" cs d m] Suc.prems src i by simp
  qed
qed simp

lemma ncopied_0 [simp]: "ncopied d cs 0 m = m"
  by (simp add: ncopied_def Let_def)

section \<open>Properties\<close>

text \<open>C5. \<open>memmove\<close> is correct for every overlap: when neither region wraps
  around the address space, the destination holds afterwards the bytes the
  source held before, and no other byte changes.\<close>

theorem memmove_correct:
  assumes "unat d + unat n \<le> 2 ^ 32" "unat s + unat n \<le> 2 ^ 32"
  shows "mkrn_memmove d s n m a = (if unat (a - d) < unat n then m (s + (a - d)) else m a)"
  using memmove_copied[of d n s m] assms by (simp add: copied_def)

theorem memmove_correct_witness:
  "mkrn_memmove 102 100 9 (\<lambda>a. ucast a) 105 = (103 :: u8) \<and> mkrn_memmove 100 102 9 (\<lambda>a. ucast a) 111 = (111 :: u8)"
  using memmove_correct[of 102 9 100 "\<lambda>a. ucast a" 105] memmove_correct[of 100 9 102 "\<lambda>a. ucast a" 111] by simp

text \<open>\<open>memcpy\<close>, whose copy runs forward by dwords, is correct whenever the
  destination does not start inside the source above its first byte (in
  particular for disjoint regions, and for a destination below the source).\<close>

theorem memcpy_correct:
  assumes "unat (s - d) + unat n \<le> 2 ^ 32"
  shows "mkrn_memcpy d s n m a = (if unat (a - d) < unat n then m (s + (a - d)) else m a)"
  using forward_copy[of s d n m] assms by (simp add: mkrn_memcpy_def copied_def)

theorem memcpy_correct_witness:
  "mkrn_memcpy 200 100 7 (\<lambda>a. ucast a) 206 = (106 :: u8) \<and> mkrn_memcpy 200 100 7 (\<lambda>a. ucast a) 207 = (207 :: u8)"
  using memcpy_correct[of 100 200 7 "\<lambda>a. ucast a" 206] memcpy_correct[of 100 200 7 "\<lambda>a. ucast a" 207] by simp

text \<open>\<open>memset\<close> by dwords and a byte tail sets exactly the \<open>n\<close> bytes at
  \<open>p\<close> to the low byte of \<open>c\<close>, for every address, length and value.\<close>

theorem memset_correct:
  "mkrn_memset p c n m a = (if unat (a - p) < unat n then ucast c else m a)"
  by (simp add: memset_filled filled_def)

text \<open>The string routines on terminated strings: \<open>strlen\<close> returns and
  gives the length, \<open>strcmp\<close> returns and gives 0 exactly on equal strings,
  \<open>strncmp\<close> gives 0 exactly when the first \<open>n\<close> bytes agree.\<close>

theorem string_queries_correct:
  assumes "str_at m a xs" "str_at m b ys" "length xs < 2 ^ 32"
  shows "\<exists>len r. mkrn_strlen a m = Some len \<and> unat len = length xs \<and>
    mkrn_strcmp a b m = Some r \<and> (r = 0 \<longleftrightarrow> xs = ys) \<and>
    (mkrn_strncmp a b n m = 0 \<longleftrightarrow> take (unat n) xs = take (unat n) ys)"
  using strlen_str[OF assms(1), of 0] strcmp_str[OF assms(1,2)] strncmp_str[OF assms(1,2), of "unat n"] assms(3)
  by (auto simp: mkrn_strlen_def mkrn_strncmp_def unat_of_nat)

theorem string_queries_correct_witness:
  "\<exists>m a b len r. mkrn_strlen a m = Some len \<and> unat len = 2 \<and> mkrn_strcmp a b m = Some r \<and> r \<noteq> 0 \<and>
     mkrn_strncmp a b 1 m = 0"
proof -
  define m :: mem where "m = (\<lambda>_. 0)(10 := 65, 11 := 66, 20 := 65)"
  have "str_at m 10 [65, 66]" "str_at m 20 [65]" by (simp_all add: str_at_simps m_def)
  from string_queries_correct[OF this, of 1] show ?thesis by fastforce
qed

text \<open>\<open>strcpy\<close> and \<open>strcat\<close> return and leave the copied and the
  concatenated string at the destination, when the destination does not
  overlap the source from above; \<open>strncpy\<close> writes exactly \<open>n\<close> bytes: the
  string cut at \<open>n\<close> bytes, padded with zeros.\<close>

theorem string_copies_correct:
  assumes "str_at m s cs" "unat (s - d) + Suc (length cs) \<le> 2 ^ 32"
  shows "(\<exists>m'. mkrn_strcpy d s m = Some m' \<and> str_at m' d cs \<and> (\<forall>a. unat (a - d) > length cs \<longrightarrow> m' a = m a)) \<and>
    mkrn_strncpy d s n m = (\<lambda>a. let i = unat (a - d) in
       if i < unat n then (if i < length cs then cs ! i else 0) else m a) \<and>
    (\<forall>e xs. str_at m e xs \<and> d = e + of_nat (length xs) \<and> length xs + length cs < 2 ^ 32 \<longrightarrow>
       (\<exists>m'. mkrn_strcat e s m = Some m' \<and> str_at m' e (xs @ cs)))"
proof (intro conjI allI impI)
  have cp: "mkrn_strcpy d s m = Some (copied d s (Suc (length cs)) m)" using assms by (intro strcpy_str) auto
  have st: "str_at (copied d s (Suc (length cs)) m) d cs" using assms by (intro copied_str) auto
  show "\<exists>m'. mkrn_strcpy d s m = Some m' \<and> str_at m' d cs \<and> (\<forall>a. unat (a - d) > length cs \<longrightarrow> m' a = m a)"
    using cp st by (auto simp: copied_def)
  show "mkrn_strncpy d s n m = (\<lambda>a. let i = unat (a - d) in
       if i < unat n then (if i < length cs then cs ! i else 0) else m a)"
    using strncpy_loop_ncopied[of m s cs d 0 "unat n"] assms unsigned_less[of n, where ?'a = nat]
    by (simp add: mkrn_strncpy_def ncopied_def)
  fix e xs assume x: "str_at m e xs \<and> d = e + of_nat (length xs) \<and> length xs + length cs < 2 ^ 32"
  have "str_at (copied d s (Suc (length cs)) m) e (xs @ cs)"
  proof -
    have "copied d s (Suc (length cs)) m (e + of_nat i) = m (e + of_nat i)" if "i < length xs" for i
    proof -
      define k where "k = unat (e + of_nat i - d)"
      have "\<not> k < Suc (length cs)"
      proof
        assume k: "k < Suc (length cs)"
        have "of_nat (length xs + k) = (of_nat i :: u32)" using x by (simp add: k_def)
        then have "unat (of_nat (length xs + k) :: u32) = unat (of_nat i :: u32)" by simp
        then show False using x that k by (simp only: unat_of_nat) simp
      qed
      then show ?thesis by (simp add: copied_def k_def)
    qed
    moreover have B: "copied d s (Suc (length cs)) m (e + of_nat i) = (cs @ [0]) ! (i - length xs)"
      if "length xs \<le> i" "i \<le> length xs + length cs" for i
    proof -
      have e: "e + of_nat i = d + of_nat (i - length xs)" using x that by (simp add: of_nat_diff)
      have "i - length xs < length cs \<or> i - length xs = length cs" using that by linarith
      then show ?thesis unfolding e using st by (auto simp: str_at_def nth_append)
    qed
    ultimately show ?thesis using x assms(1) B[of "length xs + length cs"]
      by (auto simp: str_at_def nth_append add.assoc)
  qed
  then show "\<exists>m'. mkrn_strcat e s m = Some m' \<and> str_at m' e (xs @ cs)"
    using x cp strend_str[of m e xs] by (simp add: mkrn_strcat_def)
qed

theorem string_copies_correct_witness:
  "\<exists>m m'. mkrn_strcat 20 10 m = Some m' \<and> str_at m' 20 [67, 65, 66]"
proof -
  define m :: mem where "m = (\<lambda>_. 0)(10 := 65, 11 := 66, 20 := 67)"
  have s: "str_at m 10 [65, 66]" "str_at m 20 [67]" by (simp_all add: str_at_simps m_def)
  have "unat ((10 :: u32) - 21) + Suc (length [65, 66 :: u8]) \<le> 2 ^ 32" by simp
  from string_copies_correct[OF s(1) this, of 0] s(2) show ?thesis by fastforce
qed

end
