(* ===== verification/Kstrtox.thy ===== *)
theory Kstrtox
  imports Prelude
begin

text \<open>
  Integer parsing of \<open>sys/src/lib/kstrtox.c\<close>. A C string is the list of its
  bytes before the terminator; reading at the end gives 0. Results are
  \<open>Inl\<close> of the negative error code or \<open>Inr\<close> of the value stored. \<open>long\<close> and
  \<open>size_t\<close> are 32 bits wide on the target.
\<close>

section \<open>Model\<close>

definition M4K_EINVAL :: int where "M4K_EINVAL = 0x4D00000D"
definition M4K_ERANGE :: int where "M4K_ERANGE = 0x4D000018"
definition M4K_KSTRTOX_OVERFLOW :: u32 where "M4K_KSTRTOX_OVERFLOW = push_bit 31 1"

definition peek :: "u8 list \<Rightarrow> nat \<Rightarrow> u8" where
  "peek s i = (if i < length s then s ! i else 0)"

definition m4k_isdigit :: "u8 \<Rightarrow> bool" where
  "m4k_isdigit c \<longleftrightarrow> 48 \<le> c \<and> c \<le> 57"

definition m4k_tolower :: "u8 \<Rightarrow> u8" where
  "m4k_tolower c = (if 65 \<le> c \<and> c \<le> 90 then c - 65 + 97 else c)"

definition m4k_isxdigit :: "u8 \<Rightarrow> bool" where
  "m4k_isxdigit c \<longleftrightarrow> m4k_isdigit c \<or> (97 \<le> m4k_tolower c \<and> m4k_tolower c \<le> 102)"

definition mkrn_fixup_radix :: "u8 list \<Rightarrow> u32 \<Rightarrow> u8 list \<times> u32" where
  "mkrn_fixup_radix s base =
     (let base1 =
        (if base = 0 then
           (if peek s 0 = 48 then
              (if m4k_tolower (peek s 1) = 120 \<and> m4k_isxdigit (peek s 2) then 16 else 8)
            else 10)
         else base)
      in if base1 = 16 \<and> peek s 0 = 48 \<and> m4k_tolower (peek s 1) = 120 then (drop 2 s, base1)
         else (s, base1))"

text \<open>The value of a digit character, \<open>None\<close> where the loop breaks.\<close>

definition digit_val :: "u8 \<Rightarrow> u32 \<Rightarrow> u32 option" where
  "digit_val c base =
     (let lc = m4k_tolower c;
          v = (if 48 \<le> c \<and> c \<le> 57 then Some (ucast (c - 48) :: u32)
               else if 97 \<le> lc \<and> lc \<le> 102 then Some (ucast (lc - 97) + 10) else None)
      in case v of None \<Rightarrow> None | Some val \<Rightarrow> if val \<ge> base then None else Some val)"

text \<open>The loop: the remaining string, the value so far and \<open>rv\<close>; the result is
  the value, \<open>rv\<close> and the overflow flag.\<close>

fun parse_loop :: "u8 list \<Rightarrow> u32 \<Rightarrow> u32 \<Rightarrow> u64 \<Rightarrow> u32 \<Rightarrow> u64 \<times> u32 \<times> bool" where
  "parse_loop [] base max_chars res rv = (res, rv, False)"
| "parse_loop (c # s) base max_chars res rv =
     (if rv \<ge> max_chars then (res, rv, False)
      else case digit_val c base of
        None \<Rightarrow> (res, rv, False)
      | Some val \<Rightarrow>
          if res AND push_bit 59 (- 1) \<noteq> 0 then (- 1, rv, True)
          else parse_loop s base max_chars (res * ucast base + ucast val) (rv + 1))"

definition mkrn_parse_integer :: "u8 list \<Rightarrow> u32 \<Rightarrow> u32 \<Rightarrow> u64 \<times> u32" where
  "mkrn_parse_integer s base max_chars =
     (case parse_loop s base max_chars 0 0 of
        (res, rv, overflow) \<Rightarrow> (res, rv OR (if overflow then M4K_KSTRTOX_OVERFLOW else 0)))"

definition mkrn_kstrtoull_impl :: "u8 list \<Rightarrow> u32 \<Rightarrow> int + u64" where
  "mkrn_kstrtoull_impl s base =
     (let (s1, base1) = mkrn_fixup_radix s base;
          (v, rv) = mkrn_parse_integer s1 base1 (- 1)
      in if rv AND M4K_KSTRTOX_OVERFLOW \<noteq> 0 then Inl (- M4K_ERANGE)
         else if rv = 0 then Inl (- M4K_EINVAL)
         else let s2 = drop (unat (rv AND NOT M4K_KSTRTOX_OVERFLOW)) s1;
                  s3 = (if peek s2 0 = 10 then drop 1 s2 else s2)
              in if peek s3 0 \<noteq> 0 then Inl (- M4K_EINVAL) else Inr v)"

definition mkrn_kstrtoull :: "u8 list \<Rightarrow> u32 \<Rightarrow> int + u64" where
  "mkrn_kstrtoull s base = mkrn_kstrtoull_impl (if peek s 0 = 43 then drop 1 s else s) base"

definition mkrn_kstrtoll :: "u8 list \<Rightarrow> u32 \<Rightarrow> int + u64" where
  "mkrn_kstrtoll s base =
     (if peek s 0 = 45 then
        (case mkrn_kstrtoull_impl (drop 1 s) base of
           Inl e \<Rightarrow> Inl e
         | Inr tmp \<Rightarrow> if sint (- tmp) > 0 then Inl (- M4K_ERANGE) else Inr (- tmp))
      else
        (case mkrn_kstrtoull s base of
           Inl e \<Rightarrow> Inl e
         | Inr tmp \<Rightarrow> if tmp > 0x7FFFFFFFFFFFFFFF then Inl (- M4K_ERANGE) else Inr tmp))"

definition mkrn_kstrtoul :: "u8 list \<Rightarrow> u32 \<Rightarrow> int + u32" where
  "mkrn_kstrtoul s base = (case mkrn_kstrtoull_impl s base of
     Inl e \<Rightarrow> Inl e
   | Inr tmp \<Rightarrow> if tmp \<noteq> ucast (ucast tmp :: u32) then Inl (- M4K_ERANGE) else Inr (ucast tmp))"

definition mkrn_kstrtol :: "u8 list \<Rightarrow> u32 \<Rightarrow> int + u32" where
  "mkrn_kstrtol s base = (case mkrn_kstrtoll s base of
     Inl e \<Rightarrow> Inl e
   | Inr tmp \<Rightarrow> if tmp \<noteq> scast (ucast tmp :: u32) then Inl (- M4K_ERANGE) else Inr (ucast tmp))"

definition mkrn_kstrtouint :: "u8 list \<Rightarrow> u32 \<Rightarrow> int + u32" where
  "mkrn_kstrtouint s base = (case mkrn_kstrtoull_impl s base of
     Inl e \<Rightarrow> Inl e
   | Inr tmp \<Rightarrow> if tmp \<noteq> ucast (ucast tmp :: u32) then Inl (- M4K_ERANGE) else Inr (ucast tmp))"

definition mkrn_kstrtoint :: "u8 list \<Rightarrow> u32 \<Rightarrow> int + u32" where
  "mkrn_kstrtoint s base = (case mkrn_kstrtoll s base of
     Inl e \<Rightarrow> Inl e
   | Inr tmp \<Rightarrow> if tmp \<noteq> scast (ucast tmp :: u32) then Inl (- M4K_ERANGE) else Inr (ucast tmp))"

section \<open>The loop\<close>

text \<open>The mathematical value of a digit list, most significant first.\<close>

fun num_val :: "nat \<Rightarrow> nat \<Rightarrow> u32 list \<Rightarrow> nat" where
  "num_val b acc [] = acc"
| "num_val b acc (v # vs) = num_val b (acc * b + unat v) vs"

lemma num_val_ge: "num_val b acc vs \<ge> acc" if "1 \<le> b"
proof (induction vs arbitrary: acc)
  case (Cons v vs)
  have "acc \<le> acc * b" using that by (cases b) auto
  then have "acc \<le> acc * b + unat v" by (rule trans_le_add1)
  then show ?case using Cons[of "acc * b + unat v"] by simp
qed simp

lemma high_bits_zero: "(res :: u64) AND push_bit 59 (- 1) = 0 \<longleftrightarrow> unat res < 2 ^ 59"
proof -
  have "res AND push_bit 59 (- 1) = push_bit 59 (drop_bit 59 res)"
    by (intro bit_word_eqI) (auto simp: bit_simps)
  also have "push_bit 59 (drop_bit 59 res) = 0 \<longleftrightarrow> drop_bit 59 res = 0"
  proof
    assume "push_bit 59 (drop_bit 59 res) = 0"
    then have "drop_bit 59 (push_bit 59 (drop_bit 59 res)) = 0" by simp
    moreover have "drop_bit 59 (push_bit 59 (drop_bit 59 res)) = drop_bit 59 res"
      by (intro bit_word_eqI) (auto simp: bit_simps dest: bit_imp_le_length)
    ultimately show "drop_bit 59 res = 0" by simp
  qed simp
  also have "\<dots> \<longleftrightarrow> unat (drop_bit 59 res) = 0" by (simp only: unsigned_eq_0_iff)
  also have "\<dots> \<longleftrightarrow> unat res div 2 ^ 59 = 0" by (simp only: unat_drop_bit_eq) (simp add: drop_bit_eq_div)
  also have "\<dots> \<longleftrightarrow> unat res < 2 ^ 59" by (simp add: div_eq_0_iff)
  finally show ?thesis .
qed

lemma unat_ucast_u64: "unat (ucast (w :: u32) :: u64) = unat w"
  using unsigned_less[of w, where ?'a = nat] by (simp add: unsigned_ucast_eq take_bit_nat_eq_self)

lemma digit_val_bound: "digit_val c base = Some v \<Longrightarrow> v < base"
  by (auto simp: digit_val_def Let_def split: option.splits if_splits)

lemma step_no_wrap:
  assumes "unat (res :: u64) < 2 ^ 59" "unat (base :: u32) \<le> 16" "v < base"
  shows "unat (res * ucast base + ucast v) = unat res * unat base + unat v"
    "unat res * unat base + unat v < 2 ^ 63"
proof -
  have v: "unat v < unat base" using assms(3) by (simp add: word_less_nat_alt)
  have "unat res * unat base + unat v < unat res * unat base + unat base" using v by simp
  also have "\<dots> = Suc (unat res) * unat base" by simp
  also have "\<dots> \<le> 2 ^ 59 * 16" using assms(1,2) by (intro mult_le_mono) auto
  finally show b: "unat res * unat base + unat v < 2 ^ 63" by simp
  have "unat (ucast base :: u64) = unat base" "unat (ucast v :: u64) = unat v"
    by (rule unat_ucast_u64)+
  then show "unat (res * ucast base + ucast v) = unat res * unat base + unat v"
    using b by (simp add: unat_word_ariths)
qed

text \<open>The digits at the front of a string.\<close>

fun digits :: "u8 list \<Rightarrow> u32 \<Rightarrow> u32 list" where
  "digits [] base = []"
| "digits (c # s) base = (case digit_val c base of None \<Rightarrow> [] | Some v \<Rightarrow> v # digits s base)"

lemma length_digits: "length (digits s base) \<le> length s"
  by (induction s) (auto split: option.splits)

lemma num_val_overflow:
  assumes "2 ^ 59 \<le> acc" "1 \<le> unat (base :: u32)" "digits s base \<noteq> []"
  shows "2 ^ 59 * unat base \<le> num_val (unat base) acc (digits s base)"
proof -
  obtain v vs where vs: "digits s base = v # vs" using assms(3) by (cases "digits s base") auto
  have "2 ^ 59 * unat base \<le> acc * unat base" using assms(1) by (intro mult_le_mono1)
  also have "\<dots> \<le> acc * unat base + unat v" by simp
  also have "\<dots> \<le> num_val (unat base) (acc * unat base + unat v) vs" using assms(2) by (rule num_val_ge)
  finally show ?thesis by (simp add: vs)
qed

lemma rv_less_max: "unat rv + length s < 4294967295 \<Longrightarrow> \<not> (- 1 :: u32) \<le> rv"
  by (simp add: word_le_nat_alt unsigned_minus_1_eq_mask mask_eq_exp_minus_1)

lemma parse_loop_ok:
  assumes "1 \<le> unat base" "unat base \<le> 16" "unat rv + length s < 4294967295" "unat res < 2 ^ 63"
    "digits s base = [] \<or> num_val (unat base) (unat res) (digits s base) < 2 ^ 59 * unat base"
  shows "parse_loop s base (- 1) res rv =
    (of_nat (num_val (unat base) (unat res) (digits s base)), rv + of_nat (length (digits s base)), False)"
  using assms(3-5)
proof (induction s arbitrary: res rv)
  case (Cons c s)
  note rv = rv_less_max[OF Cons.prems(1)]
  show ?case
  proof (cases "digit_val c base")
    case None
    then show ?thesis using rv by simp
  next
    case (Some v)
    then have lt: "num_val (unat base) (unat res) (digits (c # s) base) < 2 ^ 59 * unat base" using Cons.prems(3) by simp
    then have res: "unat res < 2 ^ 59"
      using num_val_overflow[OF _ assms(1), of "unat res" "c # s"] Some by (auto simp: not_less[symmetric])
    note nw = step_no_wrap[OF res assms(2) digit_val_bound[OF Some]]
    have "unat (rv + 1) = unat rv + 1" using Cons.prems(1) by (intro unat_plus_one) simp
    then have "parse_loop s base (- 1) (res * ucast base + ucast v) (rv + 1) =
      (of_nat (num_val (unat base) (unat res * unat base + unat v) (digits s base)), rv + 1 + of_nat (length (digits s base)), False)"
      using Cons.IH[of "rv + 1" "res * ucast base + ucast v"] Cons.prems(1) nw lt Some by simp
    then show ?thesis using rv Some res high_bits_zero[of res] by (simp add: add.assoc)
  qed
qed simp

lemma parse_loop_overflow:
  assumes "1 \<le> unat base" "unat base \<le> 16" "unat rv + length s < 4294967295"
    "digits s base \<noteq> []" "2 ^ 59 * unat base \<le> num_val (unat base) (unat res) (digits s base)"
  shows "\<exists>rv'. parse_loop s base (- 1) res rv = (- 1, rv', True)"
  using assms(3-5)
proof (induction s arbitrary: res rv)
  case (Cons c s)
  note rv = rv_less_max[OF Cons.prems(1)]
  obtain v where v: "digit_val c base = Some v" using Cons.prems(2) by (auto split: option.splits)
  show ?case
  proof (cases "unat res < 2 ^ 59")
    case False
    then show ?thesis using rv v high_bits_zero[of res] by simp
  next
    case True
    note nw = step_no_wrap[OF True assms(2) digit_val_bound[OF v]]
    have "unat v < unat base" using digit_val_bound[OF v] by (simp add: word_less_nat_alt)
    then have "unat res * unat base + unat v < Suc (unat res) * unat base" by simp
    also have "\<dots> \<le> 2 ^ 59 * unat base" using True by (intro mult_le_mono1) simp
    finally have "digits s base \<noteq> []" using Cons.prems(3) v by auto
    moreover have "unat (rv + 1) = unat rv + 1" using Cons.prems(1) by (intro unat_plus_one) simp
    ultimately have "\<exists>rv'. parse_loop s base (- 1) (res * ucast base + ucast v) (rv + 1) = (- 1, rv', True)"
      using Cons.IH[of "rv + 1" "res * ucast base + ucast v"] Cons.prems(1,3) nw v by simp
    then show ?thesis using rv v True high_bits_zero[of res] by simp
  qed
qed simp

section \<open>Properties\<close>

text \<open>An intermediate form, behind the detection of the radix and with the digits of the
  code: the digits at the front as a mathematical number, out of range from
  \<open>2 ^ 59 * base\<close> on. The reference below does without either.\<close>

definition end_ok :: "u8 list \<Rightarrow> bool" where
  "end_ok s \<longleftrightarrow> peek (if peek s 0 = 10 then drop 1 s else s) 0 = 0"

definition parse_ref :: "u8 list \<Rightarrow> u32 \<Rightarrow> int + nat" where
  "parse_ref s base =
     (let ds = digits s base; v = num_val (unat base) 0 ds in
      if ds = [] then Inl (- M4K_EINVAL)
      else if 2 ^ 59 * unat base \<le> v then Inl (- M4K_ERANGE)
      else if end_ok (drop (length ds) s) then Inr v else Inl (- M4K_EINVAL))"

lemma bit_overflow: "bit M4K_KSTRTOX_OVERFLOW n \<longleftrightarrow> n = 31"
proof -
  have e: "M4K_KSTRTOX_OVERFLOW = 2 ^ 31" by (simp add: M4K_KSTRTOX_OVERFLOW_def)
  show ?thesis unfolding e bit_exp_iff by auto
qed

lemma overflow_bit: "(x :: u32) AND M4K_KSTRTOX_OVERFLOW = 0 \<longleftrightarrow> unat x < 2147483648"
proof -
  have u: "unat x < 4294967296" using unsigned_less[of x, where ?'a = nat] by simp
  have "x AND M4K_KSTRTOX_OVERFLOW = 0 \<longleftrightarrow> \<not> bit x 31"
  proof
    assume "x AND M4K_KSTRTOX_OVERFLOW = 0"
    then have "bit (x AND M4K_KSTRTOX_OVERFLOW) 31 = bit (0 :: u32) 31" by simp
    then show "\<not> bit x 31" by (simp add: bit_and_iff bit_overflow)
  qed (auto intro!: bit_word_eqI simp: bit_and_iff bit_overflow)
  also have "bit x 31 = odd (unat x div 2147483648)"
    using bit_unsigned_iff[of x 31, where ?'a = nat] by (simp add: bit_iff_odd)
  also have "(\<not> odd (unat x div 2147483648)) = (unat x < 2147483648)"
  proof (cases "unat x < 2147483648")
    case False
    then have "unat x div 2147483648 = 1" using u by (intro div_nat_eqI) auto
    then show ?thesis using False by simp
  qed simp
  finally show ?thesis .
qed

lemma overflow_bit_clear: "unat (x :: u32) < 2147483648 \<Longrightarrow> x AND NOT M4K_KSTRTOX_OVERFLOW = x"
proof -
  assume "unat x < 2147483648"
  then have "x AND M4K_KSTRTOX_OVERFLOW = 0" by (simp add: overflow_bit)
  then show ?thesis by (auto simp: bit_eq_iff bit_simps)
qed

lemma kstrtoull_impl_ref:
  assumes "mkrn_fixup_radix s base = (s1, base1)" "2 \<le> unat base1" "unat base1 \<le> 16" "length s < 2 ^ 31"
  shows "mkrn_kstrtoull_impl s base = map_sum id of_nat (parse_ref s1 base1)"
proof -
  define ds v where "ds = digits s1 base1" and "v = num_val (unat base1) 0 ds"
  have l: "length s1 < 2 ^ 31" using assms(1,4) by (auto simp: mkrn_fixup_radix_def Let_def split: if_splits)
  have dl: "length ds < 2147483648" using length_digits[of s1 base1] l by (simp add: ds_def)
  have b1: "1 \<le> unat base1" "unat (0 :: u32) + length s1 < 4294967295" using assms(2) l by auto
  have impl: "mkrn_kstrtoull_impl s base = (case mkrn_parse_integer s1 base1 (- 1) of (v, rv) \<Rightarrow>
      if rv AND M4K_KSTRTOX_OVERFLOW \<noteq> 0 then Inl (- M4K_ERANGE)
      else if rv = 0 then Inl (- M4K_EINVAL)
      else if end_ok (drop (unat (rv AND NOT M4K_KSTRTOX_OVERFLOW)) s1) then Inr v else Inl (- M4K_EINVAL))"
    unfolding mkrn_kstrtoull_impl_def assms(1) Let_def prod.case end_ok_def by (simp split: prod.splits)
  have ref: "parse_ref s1 base1 = (if ds = [] then Inl (- M4K_EINVAL)
      else if 2 ^ 59 * unat base1 \<le> v then Inl (- M4K_ERANGE)
      else if end_ok (drop (length ds) s1) then Inr v else Inl (- M4K_EINVAL))"
    unfolding parse_ref_def Let_def ds_def v_def ..
  show ?thesis
  proof (cases "ds \<noteq> [] \<and> 2 ^ 59 * unat base1 \<le> v")
    case True
    then obtain rv where "parse_loop s1 base1 (- 1) 0 0 = (- 1, rv, True)"
      using parse_loop_overflow[OF b1(1) assms(3) b1(2), of 0] by (auto simp: ds_def v_def)
    then have pi: "mkrn_parse_integer s1 base1 (- 1) = (- 1, rv OR M4K_KSTRTOX_OVERFLOW)"
      by (simp add: mkrn_parse_integer_def)
    have "(rv OR M4K_KSTRTOX_OVERFLOW) AND M4K_KSTRTOX_OVERFLOW \<noteq> 0"
    proof
      assume "(rv OR M4K_KSTRTOX_OVERFLOW) AND M4K_KSTRTOX_OVERFLOW = 0"
      then have "bit ((rv OR M4K_KSTRTOX_OVERFLOW) AND M4K_KSTRTOX_OVERFLOW) 31 = bit (0 :: u32) 31" by simp
      then show False by (simp add: bit_simps bit_overflow)
    qed
    then show ?thesis using True unfolding impl pi ref by simp
  next
    case False
    then have "parse_loop s1 base1 (- 1) 0 0 = (of_nat v, of_nat (length ds), False)"
      using parse_loop_ok[OF b1(1) assms(3) b1(2), of 0] by (auto simp: ds_def v_def)
    then have pi: "mkrn_parse_integer s1 base1 (- 1) = (of_nat v, of_nat (length ds))"
      by (simp add: mkrn_parse_integer_def)
    have u: "unat (of_nat (length ds) :: u32) = length ds" using dl by (simp add: unat_of_nat)
    then have "(of_nat (length ds) :: u32) = 0 \<longleftrightarrow> ds = []"
      using unsigned_eq_0_iff[of "of_nat (length ds) :: u32", where ?'a = nat] by (simp only: length_0_conv)
    moreover have "of_nat (length ds) AND M4K_KSTRTOX_OVERFLOW = 0"
      "of_nat (length ds) AND NOT M4K_KSTRTOX_OVERFLOW = of_nat (length ds)"
      using overflow_bit[of "of_nat (length ds)"] overflow_bit_clear[of "of_nat (length ds)"] dl u by metis+
    ultimately show ?thesis using False u unfolding impl pi ref by auto
  qed
qed

text \<open>A reference for the whole parser, on strings of characters. It shares
  nothing with the model: a digit is a character of a table, the radix comes
  from the written prefix (\<open>0x\<close> or \<open>0X\<close> before a hexadecimal digit is 16, another
  leading \<open>0\<close> is 8, the rest is 10), and the value is a natural number.\<close>

definition digit_chars :: "(char \<times> nat) list" where
  "digit_chars = zip ''0123456789abcdef'' [0..<16] @ zip ''ABCDEF'' [10..<16]"

definition char_digit :: "nat \<Rightarrow> char \<Rightarrow> nat option" where
  "char_digit b c = (case map_of digit_chars c of
     Some v \<Rightarrow> if v < b then Some v else None
   | None \<Rightarrow> None)"

definition hex_prefix :: "string \<Rightarrow> bool" where
  "hex_prefix s \<longleftrightarrow> take 2 s \<in> {''0x'', ''0X''}"

definition radix_ref :: "nat \<Rightarrow> string \<Rightarrow> nat \<times> string" where
  "radix_ref b s =
     (if b = 0 then
        if hex_prefix s \<and> 2 < length s \<and> char_digit 16 (s ! 2) \<noteq> None then (16, drop 2 s)
        else if take 1 s = ''0'' then (8, s) else (10, s)
      else if b = 16 \<and> hex_prefix s then (16, drop 2 s) else (b, s))"

definition number_ref :: "nat \<Rightarrow> string \<Rightarrow> int + nat" where
  "number_ref b s =
     (let ds = takeWhile (\<lambda>c. char_digit b c \<noteq> None) s;
          v = foldl (\<lambda>acc c. acc * b + the (char_digit b c)) 0 ds
      in if ds = [] then Inl (- M4K_EINVAL)
         else if 2 ^ 59 * b \<le> v then Inl (- M4K_ERANGE)
         else if drop (length ds) s \<in> {[], [CHR 0x0A]} then Inr v
         else Inl (- M4K_EINVAL))"

definition kstr_ref :: "string \<Rightarrow> nat \<Rightarrow> int + nat" where
  "kstr_ref s b = (case radix_ref b s of (b1, t) \<Rightarrow> number_ref b1 t)"

definition cstring :: "string \<Rightarrow> u8 list" where
  "cstring s = map of_char s"

text \<open>The value of a digit character before the test against the base.\<close>

definition digit_raw :: "u8 \<Rightarrow> u32 option" where
  "digit_raw c = (let lc = m4k_tolower c in
     if 48 \<le> c \<and> c \<le> 57 then Some (ucast (c - 48) :: u32)
               else if 97 \<le> lc \<and> lc \<le> 102 then Some (ucast (lc - 97) + 10) else None)"


lemma unat_of_char: "unat (of_char c :: u8) = of_char c"
proof -
  have "(of_char c :: u8) = of_nat (of_char c)" by (simp only: of_nat_of_char)
  then have "unat (of_char c :: u8) = of_char c mod 256" by (simp only: unat_of_nat) (simp add: take_bit_eq_mod)
  then show ?thesis by simp
qed

lemma u8_char_eq: "(of_char c :: u8) = of_char d \<longleftrightarrow> c = d"
  using unat_of_char by (metis of_char_eq_iff)

lemma digit_raw_some:
  assumes "digit_raw (of_char c) = Some v"
  shows "c \<in> set (map fst digit_chars)"
proof -
  define n where "n = (of_char c :: nat)"
  have u: "unat (of_char c :: u8) = n" by (simp add: n_def unat_of_char)
  have c: "c = char_of n" by (simp add: n_def)
  have "n \<in> {48..57} \<union> {65..70} \<union> {97..102}"
    using assms u by (auto simp: digit_raw_def m4k_tolower_def Let_def word_le_nat_alt unat_word_ariths split: if_splits)
  then have "n \<in> {48,49,50,51,52,53,54,55,56,57,65,66,67,68,69,70,97,98,99,100,101,102}" by simp presburger
  then show ?thesis unfolding c by (elim insertE emptyE; simp add: digit_chars_def upt_rec char_of_eq_iff take_bit_eq_mod)
qed

lemma digit_raw_char: "digit_raw (of_char c) = map_option of_nat (map_of digit_chars c)"
proof (cases "c \<in> set (map fst digit_chars)")
  case True
  then have "c \<in> set ''0123456789abcdefABCDEF''" by (simp add: digit_chars_def upt_rec) 
  then show ?thesis
    apply (simp only: list.set)
    apply (elim insertE emptyE)
    apply (simp_all add: digit_raw_def digit_chars_def m4k_tolower_def upt_rec word_le_nat_alt)
    done
next
  case False
  then have "map_of digit_chars c = None" by (simp add: map_of_eq_None_iff)
  then show ?thesis using digit_raw_some[of c] False by (cases "digit_raw (of_char c)") auto
qed


lemma digit_val_char: "digit_val (of_char c) b = map_option of_nat (char_digit (unat b) c)"
proof -
  have "digit_val w b = (case digit_raw w of None \<Rightarrow> None | Some val \<Rightarrow> if val \<ge> b then None else Some val)" for w
    by (simp add: digit_val_def digit_raw_def Let_def)
  moreover have "(of_nat v :: u32) \<ge> b \<longleftrightarrow> \<not> v < unat b" if "map_of digit_chars c = Some v" for v
  proof -
    have "v < 16" using map_of_SomeD[OF that] by (auto simp: digit_chars_def set_zip upt_rec)
    then show ?thesis by (simp add: word_le_nat_alt unat_of_nat not_less)
  qed
  ultimately show ?thesis
    by (auto simp: char_digit_def digit_raw_char split: option.splits)
qed

lemma char_digit_small: "char_digit b c = Some v \<Longrightarrow> unat (of_nat v :: u32) = v"
proof -
  assume "char_digit b c = Some v"
  then have "map_of digit_chars c = Some v" by (auto simp: char_digit_def split: option.splits if_splits)
  from map_of_SomeD[OF this] have "v < 16" by (auto simp: digit_chars_def upt_rec)
  then show ?thesis by (simp add: unat_of_nat)
qed

lemma digits_cstring:
  "digits (cstring s) b = map (\<lambda>c. of_nat (the (char_digit (unat b) c))) (takeWhile (\<lambda>c. char_digit (unat b) c \<noteq> None) s)"
  by (induction s) (auto simp: cstring_def digit_val_char split: option.splits)

lemma num_val_cstring:
  "\<forall>c \<in> set s. char_digit b c \<noteq> None \<Longrightarrow>
   num_val b acc (map (\<lambda>c. of_nat (the (char_digit b c))) s) = foldl (\<lambda>acc c. acc * b + the (char_digit b c)) acc s"
  by (induction s arbitrary: acc) (auto simp: char_digit_small)

lemma end_ok_cstring:
  assumes "CHR 0x00 \<notin> set s"
  shows "end_ok (cstring s) \<longleftrightarrow> s \<in> {[], [CHR 0x0A]}"
proof -
  have n: "of_char c = (10 :: u8) \<longleftrightarrow> c = CHR 0x0A" "of_char c = (0 :: u8) \<longleftrightarrow> c = CHR 0x00" for c
    using u8_char_eq[of c "CHR 0x0A"] u8_char_eq[of c "CHR 0x00"] by simp_all
  show ?thesis using assms
    by (cases s; cases "tl s") (auto simp: end_ok_def peek_def cstring_def n)
qed

lemma parse_ref_cstring:
  assumes "CHR 0x00 \<notin> set s"
  shows "parse_ref (cstring s) b = number_ref (unat b) s"
proof -
  let ?t = "takeWhile (\<lambda>c. char_digit (unat b) c \<noteq> None) s"
  have "drop (length ?t) (cstring s) = cstring (drop (length ?t) s)" by (simp add: cstring_def drop_map)
  moreover have "CHR 0x00 \<notin> set (drop (length ?t) s)" using assms set_drop_subset by fastforce
  moreover have "num_val (unat b) 0 (digits (cstring s) b) = foldl (\<lambda>acc c. acc * unat b + the (char_digit (unat b) c)) 0 ?t"
    unfolding digits_cstring by (rule num_val_cstring) (auto dest: set_takeWhileD)
  ultimately show ?thesis
    by (simp add: parse_ref_def number_ref_def Let_def digits_cstring end_ok_cstring)
qed

lemma m4k_isxdigit_char: "m4k_isxdigit (of_char c) \<longleftrightarrow> char_digit 16 c \<noteq> None"
proof -
  have "m4k_isxdigit w \<longleftrightarrow> digit_raw w \<noteq> None" for w
    by (simp add: m4k_isxdigit_def m4k_isdigit_def digit_raw_def Let_def)
  moreover have "v < 16" if "map_of digit_chars c = Some v" for v
    using map_of_SomeD[OF that] by (auto simp: digit_chars_def upt_rec)
  ultimately show ?thesis by (auto simp: digit_raw_char char_digit_def split: option.splits)
qed

lemma m4k_tolower_x: "m4k_tolower (of_char c) = 120 \<longleftrightarrow> c \<in> {CHR ''x'', CHR ''X''}"
proof -
  have "m4k_tolower w = 120 \<longleftrightarrow> w = 120 \<or> w = 88" for w :: u8
    by (auto simp: m4k_tolower_def word_le_nat_alt unat_word_ariths word_unat_eq_iff)
  then show ?thesis using u8_char_eq[of c "CHR ''x''"] u8_char_eq[of c "CHR ''X''"] by simp
qed

lemma fixup_radix_cstring:
  "mkrn_fixup_radix (cstring s) b = (case radix_ref (unat b) s of (b1, t) \<Rightarrow> (cstring t, of_nat b1))"
proof -
  have z: "(of_char c :: u8) = 48 \<longleftrightarrow> c = CHR ''0''" for c using u8_char_eq[of c "CHR ''0''"] by simp
  have w: "unat b = 16 \<longleftrightarrow> b = 16" "unat b = 0 \<longleftrightarrow> b = 0" by (auto simp: word_unat_eq_iff)
  have t1: "peek (cstring s) 0 = 48 \<longleftrightarrow> take 1 s = ''0''"
    by (cases s) (auto simp: peek_def cstring_def z)
  have hx: "take 1 s = ''0'' \<and> m4k_tolower (peek (cstring s) 1) = 120 \<longleftrightarrow> hex_prefix s"
    by (cases s; cases "tl s") (auto simp: peek_def cstring_def m4k_tolower_x hex_prefix_def m4k_tolower_def[of 0])
  have xd: "m4k_isxdigit (peek (cstring s) 2) \<longleftrightarrow> 2 < length s \<and> char_digit 16 (s ! 2) \<noteq> None"
    by (auto simp: peek_def cstring_def m4k_isxdigit_char) (simp add: m4k_isxdigit_def m4k_isdigit_def m4k_tolower_def)
  show ?thesis
    using w hx unfolding mkrn_fixup_radix_def radix_ref_def Let_def t1 xd
    by (auto simp: cstring_def drop_map)
qed

lemma radix_ref_base:
  assumes "radix_ref b s = (b1, t)" "b = 0 \<or> 2 \<le> b \<and> b \<le> 16"
  shows "2 \<le> b1" "b1 \<le> 16" "set t \<subseteq> set s" "length t \<le> length s"
  using assms set_drop_subset[of 2 s] by (auto simp: radix_ref_def split: if_splits)

lemma number_ref_bound: "number_ref b s = Inr v \<Longrightarrow> v < 2 ^ 59 * b"
  by (auto simp: number_ref_def Let_def split: if_splits)

lemma kstrtoull_impl_cstring:
  assumes "base = 0 \<or> 2 \<le> unat base \<and> unat base \<le> 16" "CHR 0x00 \<notin> set s" "length s < 2 ^ 31"
  shows "mkrn_kstrtoull_impl (cstring s) base = map_sum id of_nat (kstr_ref s (unat base))"
    "kstr_ref s (unat base) = Inr v \<Longrightarrow> v < 2 ^ 63"
proof -
  obtain b1 t where r: "radix_ref (unat base) s = (b1, t)" by fastforce
  have b: "2 \<le> b1" "b1 \<le> 16" "set t \<subseteq> set s" using radix_ref_base[OF r] assms(1) by auto
  have nz: "CHR 0x00 \<notin> set t" using b(3) assms(2) by blast
  have u: "unat (of_nat b1 :: u32) = b1" using b(2) by (simp add: unat_of_nat)
  have "mkrn_fixup_radix (cstring s) base = (cstring t, of_nat b1)" by (simp add: fixup_radix_cstring r)
  from kstrtoull_impl_ref[OF this] show "mkrn_kstrtoull_impl (cstring s) base = map_sum id of_nat (kstr_ref s (unat base))"
    using b assms(3) u parse_ref_cstring[OF nz, of "of_nat b1"] by (auto simp: kstr_ref_def r cstring_def)
  assume "kstr_ref s (unat base) = Inr v"
  then have "v < 2 ^ 59 * b1" using number_ref_bound by (simp add: kstr_ref_def r)
  also have "\<dots> \<le> 2 ^ 59 * 16" using b(2) by (intro mult_le_mono) auto
  finally show "v < 2 ^ 63" by simp
qed

text \<open>C6. For base 0 and bases 2 to 16, and C strings of fewer than \<open>2 ^ 31\<close>
  bytes, the unsigned parser computes a reference that is written on
  characters and natural numbers and shares no definition with the code. With
  base 0 the radix is 16 for a prefix \<open>0x\<close> or \<open>0X\<close> that a hexadecimal digit
  follows, 8 for any other leading \<open>0\<close> and 10 otherwise; the hexadecimal
  prefix is skipped, for base 16 too. The parser then reads the longest run
  of digits, fails with \<open>-EINVAL\<close> on none, with \<open>-ERANGE\<close> on a value of
  \<open>2 ^ 59 * base\<close> or more, with \<open>-EINVAL\<close> on anything but one newline
  after it, and otherwise returns the exact value: the arithmetic never wraps.
  The public entry first drops one plus sign.\<close>

theorem kstrtoull_exact:
  assumes "base = 0 \<or> 2 \<le> unat base \<and> unat base \<le> 16" "CHR 0x00 \<notin> set s" "length s < 2 ^ 31"
  shows "(case kstr_ref s (unat base) of
      Inl e \<Rightarrow> mkrn_kstrtoull_impl (cstring s) base = Inl e
    | Inr v \<Rightarrow> v < 2 ^ 63 \<and> mkrn_kstrtoull_impl (cstring s) base = Inr (of_nat v)) \<and>
    mkrn_kstrtoull (cstring s) base = mkrn_kstrtoull_impl (cstring (if take 1 s = ''+'' then tl s else s)) base"
proof -
  have "peek (cstring s) 0 = 43 \<longleftrightarrow> take 1 s = ''+''"
    using u8_char_eq[of "hd s" "CHR ''+''"] by (cases s) (auto simp: peek_def cstring_def)
  then have "mkrn_kstrtoull (cstring s) base = mkrn_kstrtoull_impl (cstring (if take 1 s = ''+'' then tl s else s)) base"
    by (cases s) (auto simp: mkrn_kstrtoull_def cstring_def)
  then show ?thesis using kstrtoull_impl_cstring[OF assms] by (auto split: sum.splits)
qed

theorem kstrtoull_exact_witness:
  "mkrn_kstrtoull_impl (cstring ''0x1F'') 0 = Inr 31 \<and> mkrn_kstrtoull_impl (cstring ''017'') 0 = Inr 15 \<and>
   mkrn_kstrtoull_impl (cstring ''0x1F'') 10 = Inl (- M4K_EINVAL) \<and> mkrn_kstrtoull_impl (cstring ''18446744073709551616'') 0 = Inl (- M4K_ERANGE)"
proof -
  have "kstr_ref ''0x1F'' 0 = Inr 31" "kstr_ref ''017'' 0 = Inr 15" "kstr_ref ''0x1F'' 10 = Inl (- M4K_EINVAL)"
    "kstr_ref ''18446744073709551616'' 0 = Inl (- M4K_ERANGE)"
    by (simp_all add: kstr_ref_def radix_ref_def hex_prefix_def number_ref_def char_digit_def digit_chars_def
      upt_rec Let_def)
  with kstrtoull_exact[of 0 "''0x1F''"] kstrtoull_exact[of 0 "''017''"] kstrtoull_exact[of 10 "''0x1F''"]
    kstrtoull_exact[of 0 "''18446744073709551616''"]
  show ?thesis by simp
qed

text \<open>The decimal digits of a number, most significant first.\<close>

fun dec_digits :: "nat \<Rightarrow> u8 list" where
  "dec_digits n = (if n < 10 then [of_nat (48 + n)] else dec_digits (n div 10) @ [of_nat (48 + n mod 10)])"

declare dec_digits.simps [simp del]

lemma digit_val_dec: "k < 10 \<Longrightarrow> digit_val (of_nat (48 + k)) 10 = Some (of_nat k)"
proof -
  assume "k < 10"
  then have "k \<in> {0, 1, 2, 3, 4, 5, 6, 7, 8, 9}" by auto
  then show ?thesis by (elim insertE emptyE) (simp_all add: digit_val_def word_le_nat_alt)
qed

lemma digits_append:
  "list_all (\<lambda>c. digit_val c b \<noteq> None) s \<Longrightarrow> digits (s @ t) b = map (\<lambda>c. the (digit_val c b)) s @ digits t b"
  by (induction s) auto

lemma num_val_append: "num_val b acc (xs @ ys) = num_val b (num_val b acc xs) ys"
  by (induction xs arbitrary: acc) auto

lemma dec_digits_digits: "list_all (\<lambda>c. digit_val c 10 \<noteq> None) (dec_digits n)"
proof (induction n rule: dec_digits.induct)
  case (1 n)
  then show ?case by (subst dec_digits.simps) (simp add: digit_val_dec del: of_nat_add)
qed

lemma dec_digits_val: "num_val 10 0 (map (\<lambda>c. the (digit_val c 10)) (dec_digits n)) = n"
proof (induction n rule: dec_digits.induct)
  case (1 n)
  have u: "k < 10 \<Longrightarrow> unat (of_nat k :: u32) = k" for k by (simp add: unat_of_nat)
  show ?case
  proof (cases "n < 10")
    case True
    then show ?thesis by (subst dec_digits.simps) (simp add: digit_val_dec u del: of_nat_add)
  next
    case False
    then show ?thesis using 1
      by (subst dec_digits.simps) (simp add: digit_val_dec u num_val_append del: of_nat_add)
  qed
qed

lemma dec_digits_len: "n < 10 ^ Suc k \<Longrightarrow> length (dec_digits n) \<le> Suc k"
proof (induction k arbitrary: n)
  case 0
  then show ?case by (subst dec_digits.simps) simp
next
  case (Suc k)
  then have "n div 10 < 10 ^ Suc k" by (simp add: div_less_iff_less_mult mult.commute)
  from Suc.IH[OF this] show ?case by (subst dec_digits.simps) simp
qed

lemma dec_digits_head: "\<exists>c cs. dec_digits n = c # cs \<and> digit_val c 10 \<noteq> None"
  using dec_digits_digits[of n] by (cases "dec_digits n") (auto simp: dec_digits.simps[of n] split: if_splits)

lemma kstrtoull_impl_dec:
  assumes "n < 10 * 2 ^ 59" "nl = [] \<or> nl = [10]"
  shows "mkrn_kstrtoull_impl (dec_digits n @ nl) 10 = Inr (of_nat n)"
proof -
  let ?s = "dec_digits n @ nl"
  have f: "mkrn_fixup_radix ?s 10 = (?s, 10)" by (simp add: mkrn_fixup_radix_def)
  have "digits nl 10 = []" using assms(2) by (auto simp: digit_val_def m4k_tolower_def word_le_nat_alt)
  then have d: "digits ?s 10 = map (\<lambda>c. the (digit_val c 10)) (dec_digits n)"
    using digits_append[OF dec_digits_digits, of n nl] by simp
  have "dec_digits n \<noteq> []" using dec_digits_head[of n] by auto
  moreover have "end_ok nl" using assms(2) by (auto simp: end_ok_def peek_def)
  ultimately have "parse_ref ?s 10 = Inr n"
    using assms(1) by (simp add: parse_ref_def Let_def d dec_digits_val)
  moreover have "length ?s < 2 ^ 31"
    using dec_digits_len[of n 19] assms by auto
  ultimately show ?thesis using kstrtoull_impl_ref[OF f] by simp
qed

text \<open>Printing a number in decimal and parsing it back gives the number,
  for every number below \<open>10 * 2 ^ 59\<close>, with or without a trailing newline.\<close>

theorem kstrtoull_dec_roundtrip:
  assumes "n < 10 * 2 ^ 59" "nl = [] \<or> nl = [10]"
  shows "mkrn_kstrtoull (dec_digits n @ nl) 10 = Inr (of_nat n)"
proof -
  have "peek (dec_digits n @ nl) 0 \<noteq> 43"
    using dec_digits_head[of n] by (auto simp: peek_def digit_val_def m4k_tolower_def Let_def)
  then show ?thesis using kstrtoull_impl_dec[OF assms] by (simp add: mkrn_kstrtoull_def)
qed

theorem kstrtoull_dec_roundtrip_witness: "mkrn_kstrtoull (dec_digits 4096 @ [10]) 10 = Inr 4096"
  using kstrtoull_dec_roundtrip[of 4096 "[10]"] by simp

lemma sint_of_int_small: "- (2 ^ 63) \<le> i \<Longrightarrow> i < 2 ^ 63 \<Longrightarrow> sint (of_int i :: u64) = i"
  by (simp add: signed_of_int signed_take_bit_int_eq_self_iff)

lemma trunc_u64_u32:
  assumes "- (2 ^ 63) \<le> i" "i < 2 ^ 63"
  shows "(of_int i :: u64) = scast (ucast (of_int i :: u64) :: u32) \<longleftrightarrow> - (2 ^ 31) \<le> i \<and> i < 2 ^ 31"
    "ucast (of_int i :: u64) = (of_int i :: u32)"
proof -
  show uc: "ucast (of_int i :: u64) = (of_int i :: u32)"
    by (intro bit_word_eqI) (auto simp: bit_simps)
  have "scast (ucast (of_int i :: u64) :: u32) = (of_int (signed_take_bit 31 i) :: u64)"
    unfolding uc by (simp add: signed_of_int)
  moreover have "sint (of_int (signed_take_bit 31 i) :: u64) = signed_take_bit 31 i"
    using signed_take_bit_int_greater_eq_minus_exp[of 31 i] signed_take_bit_int_less_exp[of 31 i]
    by (intro sint_of_int_small) auto
  moreover have "sint (of_int i :: u64) = i" using assms by (rule sint_of_int_small)
  ultimately have "(of_int i :: u64) = scast (ucast (of_int i :: u64) :: u32) \<longleftrightarrow> i = signed_take_bit 31 i" by metis
  then show "(of_int i :: u64) = scast (ucast (of_int i :: u64) :: u32) \<longleftrightarrow> - (2 ^ 31) \<le> i \<and> i < 2 ^ 31"
    using signed_take_bit_int_eq_self_iff[of 31 i] by auto
qed

definition int_text :: "int \<Rightarrow> u8 list" where
  "int_text i = (if i < 0 then 45 # dec_digits (nat (- i)) else dec_digits (nat i))"

text \<open>\<open>kstrtoint\<close> accepts the decimal form of an integer exactly when it
  fits in 32 bits, and then returns it: out-of-range numbers give
  \<open>-ERANGE\<close>, never a truncated value.\<close>

theorem kstrtoint_exact:
  assumes "\<bar>i\<bar> < 10 * 2 ^ 59"
  shows "mkrn_kstrtoint (int_text i) 10 =
    (if - (2 ^ 31) \<le> i \<and> i < 2 ^ 31 then Inr (of_int i) else Inl (- M4K_ERANGE))"
proof -
  define n where "n = nat \<bar>i\<bar>"
  have n: "n < 10 * 2 ^ 59" using assms by (simp add: n_def)
  have u: "unat (of_nat n :: u64) = n" using n by (simp add: unat_of_nat)
  have ll: "mkrn_kstrtoll (int_text i) 10 = Inr (of_int i)"
  proof (cases "i < 0")
    case True
    then have "int_text i = 45 # dec_digits n" "i = - int n" by (simp_all add: int_text_def n_def)
    moreover have "\<not> sint (- (of_nat n :: u64)) > 0"
    proof -
      have "- (of_nat n :: u64) = of_int (- int n)" by simp
      then have "sint (- (of_nat n :: u64)) = - int n"
        using n sint_of_int_small[of "- int n"] by (simp only:) simp
      then show ?thesis by simp
    qed
    ultimately show ?thesis using kstrtoull_impl_dec[OF n, of "[]"] by (simp add: mkrn_kstrtoll_def peek_def)
  next
    case False
    then have t: "int_text i = dec_digits n" "i = int n" by (simp_all add: int_text_def n_def)
    have "peek (dec_digits n) 0 \<noteq> 45" "peek (dec_digits n) 0 \<noteq> 43"
      using dec_digits_head[of n] by (auto simp: peek_def digit_val_def m4k_tolower_def Let_def)
    moreover have "\<not> (of_nat n :: u64) > 0x7FFFFFFFFFFFFFFF" using n u by (simp add: word_less_nat_alt)
    ultimately show ?thesis using kstrtoull_impl_dec[OF n, of "[]"] t
      by (simp add: mkrn_kstrtoll_def mkrn_kstrtoull_def)
  qed
  have "- (2 ^ 63) \<le> i" "i < 2 ^ 63" using assms by auto
  from trunc_u64_u32[OF this] show ?thesis using ll by (simp add: mkrn_kstrtoint_def)
qed

theorem kstrtoint_exact_witness:
  "mkrn_kstrtoint (int_text (- 2147483648)) 10 = Inr 0x80000000 \<and>
   mkrn_kstrtoint (int_text 2147483648) 10 = Inl (- M4K_ERANGE)"
  using kstrtoint_exact[of "- 2147483648"] kstrtoint_exact[of 2147483648] by simp

end
