(* ===== verification/Buddy.thy ===== *)
theory Buddy
  imports Prelude
begin

text \<open>
  The binary buddy page allocator of \<open>sys/src/mm/memory.c\<close>. Page frame numbers
  and counters are natural numbers below \<open>2 ^ 32\<close>; the range arithmetic of
  \<open>buddy_free_range\<close>, which can wrap, is written modulo \<open>2 ^ 32\<close>. The
  doubly-linked free lists live in the free pages themselves: \<open>fp_next\<close> and
  \<open>fp_prev\<close> are the two words at the start of each page.
\<close>

section \<open>Model\<close>

record bzone =
  free_head :: "nat \<Rightarrow> nat"
  free_count :: "nat \<Rightarrow> nat"
  base_pfn :: nat
  nr_pages :: nat
  nr_free :: nat
  order_map :: "nat \<Rightarrow> nat"
  fp_next :: "nat \<Rightarrow> nat"
  fp_prev :: "nat \<Rightarrow> nat"

definition M4K_BUDDY_MAX_ORDER :: nat where "M4K_BUDDY_MAX_ORDER = 11"
definition M4K_PFN_NONE :: nat where "M4K_PFN_NONE = 0xFFFFFFFF"
definition M4K_MAX_PFNS :: nat where "M4K_MAX_PFNS = 131072"

definition buddy_of :: "nat \<Rightarrow> nat \<Rightarrow> nat" where
  "buddy_of pfn order = pfn XOR 2 ^ order"

definition buddy_list_add :: "nat \<Rightarrow> nat \<Rightarrow> bzone \<Rightarrow> bzone" where
  "buddy_list_add order pfn z =
     (let head = free_head z order;
          z1 = z\<lparr>fp_prev := (fp_prev z)(pfn := M4K_PFN_NONE), fp_next := (fp_next z)(pfn := head)\<rparr>;
          z2 = (if head \<noteq> M4K_PFN_NONE then z1\<lparr>fp_prev := (fp_prev z1)(head := pfn)\<rparr> else z1)
      in z2\<lparr>free_head := (free_head z2)(order := pfn),
            free_count := (free_count z2)(order := free_count z2 order + 1),
            order_map := (order_map z2)(pfn - base_pfn z2 := order)\<rparr>)"

definition buddy_list_del :: "nat \<Rightarrow> nat \<Rightarrow> bzone \<Rightarrow> bzone" where
  "buddy_list_del order pfn z =
     (let nx = fp_next z pfn; pv = fp_prev z pfn;
          z1 = (if pv \<noteq> M4K_PFN_NONE then z\<lparr>fp_next := (fp_next z)(pv := nx)\<rparr>
                else z\<lparr>free_head := (free_head z)(order := nx)\<rparr>);
          z2 = (if fp_next z1 pfn \<noteq> M4K_PFN_NONE
                then z1\<lparr>fp_prev := (fp_prev z1)(fp_next z1 pfn := fp_prev z1 pfn)\<rparr> else z1)
      in z2\<lparr>free_count := (free_count z2)(order := free_count z2 order - 1),
            order_map := (order_map z2)(pfn - base_pfn z2 := 255)\<rparr>)"

function buddy_free_block :: "nat \<Rightarrow> nat \<Rightarrow> bzone \<Rightarrow> bzone" where
  "buddy_free_block order pfn z =
     (let bpfn = buddy_of pfn order in
      if order < M4K_BUDDY_MAX_ORDER - 1 \<and>
         \<not> (bpfn < base_pfn z \<or> bpfn \<ge> base_pfn z + nr_pages z) \<and>
         order_map z (bpfn - base_pfn z) = order
      then let z1 = buddy_list_del order bpfn z;
               z2 = z1\<lparr>nr_free := nr_free z1 - 2 ^ order\<rparr>
           in buddy_free_block (order + 1) (if bpfn < pfn then bpfn else pfn) z2
      else buddy_list_add order pfn (z\<lparr>nr_free := nr_free z + 2 ^ order\<rparr>))"
  by pat_completeness auto
termination
  by (relation "measure (\<lambda>(order, pfn, z). M4K_BUDDY_MAX_ORDER - order)") (auto simp: M4K_BUDDY_MAX_ORDER_def)

declare buddy_free_block.simps [simp del]

definition sub32 :: "nat \<Rightarrow> nat \<Rightarrow> nat" where
  "sub32 a b = nat ((int a - int b) mod 2 ^ 32)"

definition add32 :: "nat \<Rightarrow> nat \<Rightarrow> nat" where
  "add32 a b = (a + b) mod 2 ^ 32"

lemma sub32_add32: "s \<le> sub32 a b \<Longrightarrow> sub32 a (add32 b s) = sub32 a b - s"
proof -
  assume s: "s \<le> sub32 a b"
  define d where "d = (int a - int b) mod 2 ^ 32"
  have "0 \<le> d" "d < 2 ^ 32" by (simp_all add: d_def)
  have "(int a - int (add32 b s)) mod 2 ^ 32 = (int a - (int b + int s)) mod 2 ^ 32"
    by (simp add: add32_def zmod_int mod_diff_right_eq)
  also have "\<dots> = (d - int s) mod 2 ^ 32" by (simp add: d_def mod_diff_left_eq algebra_simps)
  also have "\<dots> = d - int s" using s \<open>d < 2 ^ 32\<close> by (intro mod_pos_pos_trivial) (auto simp: sub32_def d_def)
  finally show ?thesis using s by (simp add: sub32_def d_def nat_diff_distrib)
qed

lemma sub32_step: "2 ^ k \<le> sub32 a b \<Longrightarrow> sub32 a (add32 b (2 ^ k)) < sub32 a b"
proof -
  assume "2 ^ k \<le> sub32 a b"
  moreover have "0 < (2 :: nat) ^ k" by simp
  ultimately show ?thesis unfolding sub32_add32[OF \<open>2 ^ k \<le> sub32 a b\<close>] by linarith
qed

text \<open>The inner loop of \<open>buddy_free_range\<close> for one order.\<close>

function free_run :: "nat \<Rightarrow> nat \<Rightarrow> nat \<Rightarrow> bzone \<Rightarrow> nat \<times> bzone" where
  "free_run order first stop z =
     (if sub32 stop first \<ge> 2 ^ order \<and> first AND (2 ^ order - 1) = 0
      then free_run order (add32 first (2 ^ order)) stop (buddy_free_block order first z)
      else (first, z))"
  by pat_completeness auto
termination
  by (relation "measure (\<lambda>(order, first, stop, z). sub32 stop first)")
    (simp_all add: sub32_step)

declare free_run.simps [simp del]

fun free_orders :: "nat \<Rightarrow> nat \<Rightarrow> nat \<Rightarrow> bzone \<Rightarrow> bzone" where
  "free_orders 0 first stop z = z"
| "free_orders (Suc order) first stop z =
     (let (first1, z1) = free_run order first stop z in free_orders order first1 stop z1)"

definition buddy_free_range :: "nat \<Rightarrow> nat \<Rightarrow> bzone \<Rightarrow> bzone" where
  "buddy_free_range first_pfn nr z =
     (let stop = add32 first_pfn nr;
          first1 = (if first_pfn < base_pfn z then base_pfn z else first_pfn);
          stop1 = (if stop > base_pfn z + nr_pages z then base_pfn z + nr_pages z else stop)
      in free_orders M4K_BUDDY_MAX_ORDER first1 stop1 z)"

function first_order :: "nat \<Rightarrow> bzone \<Rightarrow> nat" where
  "first_order cur z =
     (if cur < M4K_BUDDY_MAX_ORDER \<and> free_head z cur = M4K_PFN_NONE then first_order (cur + 1) z else cur)"
  by pat_completeness auto
termination
  by (relation "measure (\<lambda>(cur, z). M4K_BUDDY_MAX_ORDER - cur)") auto

declare first_order.simps [simp del]

text \<open>The split loop: \<open>left\<close> is \<open>cur - order\<close>.\<close>

fun split_down :: "nat \<Rightarrow> nat \<Rightarrow> nat \<Rightarrow> bzone \<Rightarrow> bzone" where
  "split_down order 0 pfn z = z"
| "split_down order (Suc left) pfn z =
     (let cur = order + left; half = pfn + 2 ^ cur;
          z1 = z\<lparr>nr_free := nr_free z + 2 ^ cur\<rparr>
      in split_down order left pfn (buddy_list_add cur half z1))"

definition buddy_alloc :: "nat \<Rightarrow> bzone \<Rightarrow> nat \<times> bzone" where
  "buddy_alloc order z =
     (if order \<ge> M4K_BUDDY_MAX_ORDER then (M4K_PFN_NONE, z)
      else let cur = first_order order z in
        if cur = M4K_BUDDY_MAX_ORDER then (M4K_PFN_NONE, z)
        else let pfn = free_head z cur;
                 z1 = buddy_list_del cur pfn z;
                 z2 = z1\<lparr>nr_free := nr_free z1 - 2 ^ cur\<rparr>
             in (pfn, split_down order (cur - order) pfn z2))"

section \<open>Linked lists\<close>

text \<open>\<open>seg\<close>: from head \<open>h\<close>, entered from \<open>p\<close>, the pages \<open>xs\<close> are linked in
  order; \<open>l\<close> is the last of them and \<open>t\<close> what follows it.\<close>

fun seg :: "(nat \<Rightarrow> nat) \<Rightarrow> (nat \<Rightarrow> nat) \<Rightarrow> nat \<Rightarrow> nat \<Rightarrow> nat list \<Rightarrow> nat \<Rightarrow> nat \<Rightarrow> bool" where
  "seg nx pv p h [] l t = (h = t \<and> l = p)"
| "seg nx pv p h (x # xs) l t = (h = x \<and> x \<noteq> M4K_PFN_NONE \<and> pv x = p \<and> seg nx pv x (nx x) xs l t)"

definition chain :: "bzone \<Rightarrow> nat \<Rightarrow> nat list \<Rightarrow> bool" where
  "chain z h xs \<longleftrightarrow> (\<exists>l. seg (fp_next z) (fp_prev z) M4K_PFN_NONE h xs l M4K_PFN_NONE)"

lemma seg_append: "seg nx pv p h (xs @ ys) l t \<longleftrightarrow> (\<exists>m k. seg nx pv p h xs m k \<and> seg nx pv m k ys l t)"
  by (induction xs arbitrary: p h) auto

lemma seg_frame:
  "seg nx pv p h xs l t \<Longrightarrow> (\<And>x. x \<in> set xs \<Longrightarrow> nx' x = nx x \<and> pv' x = pv x) \<Longrightarrow> seg nx' pv' p h xs l t"
  by (induction xs arbitrary: p h) auto

lemma seg_last: "seg nx pv p h xs l t \<Longrightarrow> l = (if xs = [] then p else last xs)"
  by (induction xs arbitrary: p h) auto

lemma seg_head: "seg nx pv p h xs l t \<Longrightarrow> h = (if xs = [] then t else hd xs)"
  by (cases xs) auto

lemma seg_none: "seg nx pv p h xs l t \<Longrightarrow> M4K_PFN_NONE \<notin> set xs"
  by (induction xs arbitrary: p h) auto

lemma seg_set_next:
  "seg nx pv p h xs l t \<Longrightarrow> distinct xs \<Longrightarrow> xs \<noteq> [] \<Longrightarrow> seg (nx(last xs := t')) pv p h xs l t'"
proof (induction xs arbitrary: p h)
  case (Cons x xs)
  then show ?case
  proof (cases "xs = []")
    case False
    then have "last xs \<noteq> x" using Cons.prems(2) by auto
    with Cons False show ?thesis by simp
  qed simp
qed simp

lemma seg_set_prev:
  "seg nx pv p h xs l t \<Longrightarrow> distinct xs \<Longrightarrow> xs \<noteq> [] \<Longrightarrow> seg nx (pv(hd xs := p')) p' h xs l t"
  by (cases xs) (auto elim!: seg_frame)

lemma chain_add:
  assumes "chain z h xs" "pfn \<notin> set xs" "pfn \<noteq> M4K_PFN_NONE" "distinct xs" "h = free_head z order"
  shows "chain (buddy_list_add order pfn z) pfn (pfn # xs)"
proof -
  obtain l where l: "seg (fp_next z) (fp_prev z) M4K_PFN_NONE h xs l M4K_PFN_NONE" using assms(1) by (auto simp: chain_def)
  show ?thesis
  proof (cases xs)
    case Nil
    then show ?thesis using l assms(3,5) by (auto simp: chain_def buddy_list_add_def Let_def)
  next
    case (Cons y ys)
    then have h: "h = y" "h \<noteq> M4K_PFN_NONE" "y \<noteq> pfn" using l assms(2) by auto
    have "seg (fp_next z) ((fp_prev z)(y := pfn)) pfn h xs l M4K_PFN_NONE"
      using seg_set_prev[OF l assms(4)] Cons by simp
    then have "seg ((fp_next z)(pfn := h)) ((fp_prev z)(pfn := M4K_PFN_NONE, y := pfn)) pfn h xs l M4K_PFN_NONE"
      by (rule seg_frame) (use assms(2) in auto)
    then show ?thesis using h assms(3,5) by (auto simp: chain_def buddy_list_add_def Let_def)
  qed
qed

lemma chain_del:
  assumes "chain z (free_head z order) (xs @ pfn # ys)" "distinct (xs @ pfn # ys)"
  shows "chain (buddy_list_del order pfn z) (free_head (buddy_list_del order pfn z) order) (xs @ ys)"
proof -
  let ?N = M4K_PFN_NONE and ?nx = "fp_next z" and ?pv = "fp_prev z"
  obtain l m where s1: "seg ?nx ?pv ?N (free_head z order) xs m pfn" and pv: "?pv pfn = m" and pn: "pfn \<noteq> ?N"
    and s2: "seg ?nx ?pv pfn (?nx pfn) ys l ?N"
    using assms(1) by (auto simp: chain_def seg_append)
  have dist: "distinct xs" "distinct ys" "pfn \<notin> set xs" "pfn \<notin> set ys" "set xs \<inter> set ys = {}" using assms(2) by auto
  have nN: "?N \<notin> set xs" "?N \<notin> set ys" using seg_none[OF s1] seg_none[OF s2] by auto
  define nx' where "nx' = (if m \<noteq> ?N then ?nx(m := ?nx pfn) else ?nx)"
  define h' where "h' = (if m \<noteq> ?N then free_head z order else ?nx pfn)"
  define pv' where "pv' = (if ?nx pfn \<noteq> ?N then ?pv(?nx pfn := m) else ?pv)"
  have mxs: "m = (if xs = [] then ?N else last xs)" using seg_last[OF s1] .
  have hys: "?nx pfn = (if ys = [] then ?N else hd ys)" using seg_head[OF s2] .
  have mN: "m \<noteq> ?N \<longleftrightarrow> xs \<noteq> []" using mxs nN(1) by (metis last_in_set)
  have hN: "?nx pfn \<noteq> ?N \<longleftrightarrow> ys \<noteq> []" using hys nN(2) by (metis list.set_sel(1))
  have "seg nx' pv' ?N h' xs m (?nx pfn)"
  proof (cases "xs = []")
    case True
    then show ?thesis using mxs by (simp add: h'_def)
  next
    case False
    have "seg (?nx(last xs := ?nx pfn)) ?pv ?N (free_head z order) xs m (?nx pfn)"
      using s1 dist(1) False by (rule seg_set_next)
    moreover have "hd ys \<notin> set xs" if "ys \<noteq> []" using dist(5) that list.set_sel(1)[OF that] by auto
    ultimately show ?thesis using False mN hN mxs hys
      by (auto simp: nx'_def h'_def pv'_def elim!: seg_frame)
  qed
  moreover have "\<exists>l. seg nx' pv' m (?nx pfn) ys l ?N"
  proof (cases "ys = []")
    case True
    then show ?thesis using hys by auto
  next
    case False
    have "seg ?nx (?pv(hd ys := m)) m (?nx pfn) ys l ?N" using s2 dist(2) False by (rule seg_set_prev)
    moreover have "m \<notin> set ys" using mxs nN(2) dist(5) by (metis disjoint_iff last_in_set)
    ultimately have "seg nx' pv' m (?nx pfn) ys l ?N" using False hN hys by (auto simp: nx'_def pv'_def elim!: seg_frame)
    then show ?thesis ..
  qed
  ultimately have "\<exists>l. seg nx' pv' ?N h' (xs @ ys) l ?N" unfolding seg_append by blast
  moreover have "m \<noteq> pfn" using mxs dist(3) pn last_in_set[of xs] by (cases "xs = []") auto
  then have "fp_next (buddy_list_del order pfn z) = nx'" "fp_prev (buddy_list_del order pfn z) = pv'"
    "free_head (buddy_list_del order pfn z) order = h'"
    by (auto simp: buddy_list_del_def Let_def pv nx'_def pv'_def h'_def)
  ultimately show ?thesis unfolding chain_def by auto
qed

section \<open>The invariant\<close>

text \<open>\<open>L k\<close> is the list of free blocks of order \<open>k\<close>.\<close>

definition block :: "nat \<Rightarrow> nat \<Rightarrow> nat set" where
  "block k p = {p..<p + 2 ^ k}"

definition pages :: "(nat \<Rightarrow> nat list) \<Rightarrow> nat set" where
  "pages L = (\<Union>k<11. \<Union>p \<in> set (L k). block k p)"

definition placed :: "bzone \<Rightarrow> nat \<Rightarrow> nat \<Rightarrow> bool" where
  "placed z k p \<longleftrightarrow> 2 ^ k dvd p \<and> base_pfn z \<le> p \<and> p + 2 ^ k \<le> base_pfn z + nr_pages z"

definition binv :: "bzone \<Rightarrow> (nat \<Rightarrow> nat list) \<Rightarrow> bool" where
  "binv z L \<longleftrightarrow> base_pfn z + nr_pages z \<le> M4K_MAX_PFNS \<and>
     nr_free z = (\<Sum>k<11. 2 ^ k * length (L k)) \<and>
     (\<forall>k<11. chain z (free_head z k) (L k) \<and> distinct (L k) \<and> free_count z k = length (L k)) \<and>
     (\<forall>k<11. \<forall>p \<in> set (L k). placed z k p) \<and>
     (\<forall>k<11. \<forall>p. base_pfn z \<le> p \<longrightarrow> p < base_pfn z + nr_pages z \<longrightarrow>
        (order_map z (p - base_pfn z) = k \<longleftrightarrow> p \<in> set (L k))) \<and>
     (\<forall>k<11. \<forall>k2<11. \<forall>p \<in> set (L k). \<forall>p' \<in> set (L k2).
        (k, p) \<noteq> (k2, p') \<longrightarrow> block k p \<inter> block k2 p' = {})"

text \<open>\<open>fully_merged L\<close>: no free block below the top order has a free buddy of its own
  order.\<close>

definition fully_merged :: "(nat \<Rightarrow> nat list) \<Rightarrow> bool" where
  "fully_merged L \<longleftrightarrow> (\<forall>k<10. \<forall>p \<in> set (L k). buddy_of p k \<notin> set (L k))"

lemma buddy_of_buddy_of [simp]: "buddy_of (buddy_of p k) k = p"
  by (simp add: buddy_of_def xor.assoc)

lemma buddy_of_neq: "buddy_of p k \<noteq> p"
proof
  assume "buddy_of p k = p"
  then have "p XOR (p XOR 2 ^ k) = p XOR p" by (simp add: buddy_of_def)
  then have "(2 :: nat) ^ k = 0" by (simp flip: xor.assoc)
  then show False by simp
qed

lemma fully_merged_add:
  assumes "fully_merged L" "10 \<le> k \<or> buddy_of p k \<notin> set (L k)"
  shows "fully_merged (L(k := p # L k))"
proof -
  have "buddy_of q k \<noteq> p" if "k < 10" "q \<in> set (L k)" for q
  proof
    assume "buddy_of q k = p"
    then have "buddy_of p k = q" using buddy_of_buddy_of[of q k] by simp
    then show False using assms(2) that by simp
  qed
  then show ?thesis using assms buddy_of_neq by (auto simp: fully_merged_def)
qed

lemma fully_merged_del: "fully_merged L \<Longrightarrow> fully_merged (L(k := remove1 p (L k)))"
  using set_remove1_subset[of p "L k"] by (auto simp: fully_merged_def)

lemma block_self [simp]: "p \<in> block k p"
  by (simp add: block_def)

lemma pages_upd:
  "k < 11 \<Longrightarrow> pages (L(k := xs)) = (\<Union>p \<in> set xs. block k p) \<union> (\<Union>i \<in> {..<11} - {k}. \<Union>p \<in> set (L i). block i p)"
proof -
  assume "k < 11"
  then have e: "{..<11} = insert k ({..<11} - {k})" by auto
  show ?thesis unfolding pages_def by (subst e) (auto split: if_splits)
qed

lemma sum_upd:
  assumes "k < 11"
  shows "(\<Sum>i<11. 2 ^ i * length ((L(k := xs)) i)) = 2 ^ k * length xs + (\<Sum>i \<in> {..<11} - {k}. 2 ^ i * length (L i))"
  using assms by (simp add: sum.remove[of "{..<11}" k])

lemma seg_frame_chain:
  "chain z h xs \<Longrightarrow> (\<And>x. x \<in> set xs \<Longrightarrow> fp_next z' x = fp_next z x \<and> fp_prev z' x = fp_prev z x) \<Longrightarrow> chain z' h xs"
  unfolding chain_def by (blast intro: seg_frame)

lemma list_add_fields [simp]:
  "base_pfn (buddy_list_add k p z) = base_pfn z" "nr_pages (buddy_list_add k p z) = nr_pages z"
  "nr_free (buddy_list_add k p z) = nr_free z"
  "order_map (buddy_list_add k p z) = (order_map z)(p - base_pfn z := k)"
  "free_count (buddy_list_add k p z) = (free_count z)(k := free_count z k + 1)"
  "free_head (buddy_list_add k p z) = (free_head z)(k := p)"
  by (simp_all add: buddy_list_add_def Let_def)

lemma list_del_fields [simp]:
  "base_pfn (buddy_list_del k p z) = base_pfn z" "nr_pages (buddy_list_del k p z) = nr_pages z"
  "nr_free (buddy_list_del k p z) = nr_free z"
  "order_map (buddy_list_del k p z) = (order_map z)(p - base_pfn z := 255)"
  "free_count (buddy_list_del k p z) = (free_count z)(k := free_count z k - 1)"
  "i \<noteq> k \<Longrightarrow> free_head (buddy_list_del k p z) i = free_head z i"
  by (simp_all add: buddy_list_del_def Let_def)

lemma list_add_frame:
  "x \<noteq> p \<Longrightarrow> x \<noteq> free_head z k \<Longrightarrow>
   fp_next (buddy_list_add k p z) x = fp_next z x \<and> fp_prev (buddy_list_add k p z) x = fp_prev z x"
  by (simp add: buddy_list_add_def Let_def)

lemma list_del_frame:
  "x \<noteq> fp_prev z p \<or> fp_prev z p = M4K_PFN_NONE \<Longrightarrow> x \<noteq> fp_next z p \<or> fp_next z p = M4K_PFN_NONE \<Longrightarrow> fp_prev z p \<noteq> p \<Longrightarrow>
   fp_next (buddy_list_del k p z) x = fp_next z x \<and> fp_prev (buddy_list_del k p z) x = fp_prev z x"
  by (auto simp: buddy_list_del_def Let_def)

lemma pages_insert: "k < 11 \<Longrightarrow> pages (L(k := p # L k)) = block k p \<union> pages L"
  using pages_upd[of k L "p # L k"] pages_upd[of k L "L k"] by auto

lemma pages_mem: "i < 11 \<Longrightarrow> q \<in> set (L i) \<Longrightarrow> block i q \<subseteq> pages L"
  by (auto simp: pages_def)

lemma placed_bounds: "placed z k p \<Longrightarrow> base_pfn z \<le> p \<and> p < base_pfn z + nr_pages z"
proof -
  assume "placed z k p"
  moreover have "0 < (2 :: nat) ^ k" by simp
  ultimately show ?thesis unfolding placed_def by linarith
qed

lemma binv_map:
  "binv z L \<Longrightarrow> k < 11 \<Longrightarrow> base_pfn z \<le> p \<Longrightarrow> p < base_pfn z + nr_pages z \<Longrightarrow>
   order_map z (p - base_pfn z) = k \<longleftrightarrow> p \<in> set (L k)"
  unfolding binv_def by blast

lemma binv_add:
  assumes inv: "binv z L" and k: "k < 11" and pl: "placed z k p" and fresh: "block k p \<inter> pages L = {}"
  shows "binv (buddy_list_add k p (z\<lparr>nr_free := nr_free z + 2 ^ k\<rparr>)) (L(k := p # L k))"
proof -
  let ?z = "z\<lparr>nr_free := nr_free z + 2 ^ k\<rparr>" and ?L = "L(k := p # L k)"
  have bz: "base_pfn z + nr_pages z \<le> M4K_MAX_PFNS" using inv by (simp add: binv_def)
  have p: "base_pfn z \<le> p" "p < base_pfn z + nr_pages z" using placed_bounds[OF pl] by auto
  have pn: "p \<noteq> M4K_PFN_NONE" using bz p by (simp add: M4K_MAX_PFNS_def M4K_PFN_NONE_def)
  have nin: "p \<notin> set (L i)" if "i < 11" for i
    using fresh pages_mem[of i p L] that block_self[of p i] block_self[of p k] by blast
  have ch: "chain (buddy_list_add k p ?z) (free_head (buddy_list_add k p ?z) i) (?L i)" if i: "i < 11" for i
  proof (cases "i = k")
    case True
    have "chain ?z (free_head z k) (L k)" using inv k by (auto simp: binv_def chain_def)
    then have "chain (buddy_list_add k p ?z) p (p # L k)"
      using nin[OF k] pn inv k by (intro chain_add) (auto simp: binv_def)
    then show ?thesis using True by simp
  next
    case False
    have ci: "chain z (free_head z i) (L i)" using inv i by (simp add: binv_def)
    have hd: "x \<noteq> free_head z k" if "x \<in> set (L i)" for x
    proof
      assume "x = free_head z k"
      moreover have "chain z (free_head z k) (L k)" using inv k by (simp add: binv_def)
      ultimately have "x \<in> set (L k) \<or> x = M4K_PFN_NONE" by (cases "L k") (auto simp: chain_def)
      moreover have "x \<noteq> M4K_PFN_NONE" using ci seg_none that by (auto simp: chain_def)
      ultimately have "block i x \<inter> block k x = {}" using inv i k that False by (auto simp: binv_def)
      then show False using block_self by blast
    qed
    have "fp_next (buddy_list_add k p ?z) x = fp_next z x \<and> fp_prev (buddy_list_add k p ?z) x = fp_prev z x"
      if "x \<in> set (L i)" for x using list_add_frame[of x p ?z k] hd[OF that] nin[OF i] that by auto
    with ci have "chain (buddy_list_add k p ?z) (free_head z i) (L i)" by (rule seg_frame_chain)
    then show ?thesis using False by simp
  qed
  show ?thesis
    unfolding binv_def
  proof (intro conjI allI impI ballI)
    show "nr_free (buddy_list_add k p ?z) = (\<Sum>i<11. 2 ^ i * length (?L i))"
      using inv k sum_upd[of k L "p # L k"] sum_upd[of k L "L k"] by (simp add: binv_def)
  next
    fix i assume i: "i < (11 :: nat)"
    show "distinct (?L i)" using inv i nin by (auto simp: binv_def)
    show "free_count (buddy_list_add k p ?z) i = length (?L i)" using inv i by (auto simp: binv_def)
    fix q assume q: "q \<in> set (?L i)"
    show "placed (buddy_list_add k p ?z) i q" using q inv i pl by (auto simp: binv_def placed_def split: if_splits)
  next
    fix i q assume i: "i < (11 :: nat)" and "base_pfn (buddy_list_add k p ?z) \<le> q"
      "q < base_pfn (buddy_list_add k p ?z) + nr_pages (buddy_list_add k p ?z)"
    then have q: "base_pfn z \<le> q" "q < base_pfn z + nr_pages z" by auto
    have om: "order_map z (q - base_pfn z) = i \<longleftrightarrow> q \<in> set (L i)" using inv i q by (simp add: binv_def)
    show "(order_map (buddy_list_add k p ?z) (q - base_pfn (buddy_list_add k p ?z)) = i) = (q \<in> set (?L i))"
    proof (cases "q = p")
      case True
      then show ?thesis using nin[OF i] by auto
    next
      case False
      then have "q - base_pfn z \<noteq> p - base_pfn z" using q p by simp
      then show ?thesis using om False by auto
    qed
  next
    fix i j q r assume ij: "i < (11 :: nat)" "j < (11 :: nat)" and q: "q \<in> set (?L i)" and r: "r \<in> set (?L j)" and ne: "(i, q) \<noteq> (j, r)"
    have old: "block i q \<inter> block j r = {}" if "q \<in> set (L i)" "r \<in> set (L j)"
      using inv ij that ne unfolding binv_def by blast
    have new: "block k p \<inter> block i' q' = {}" if "q' \<in> set (L i')" "i' < 11" for i' q'
      using fresh that by (auto simp: pages_def)
    show "block i q \<inter> block j r = {}"
      using q r ij old new ne by (auto split: if_splits)
  qed (use bz ch in auto)
qed

lemma binv_unique:
  "binv z L \<Longrightarrow> i < 11 \<Longrightarrow> j < 11 \<Longrightarrow> p \<in> set (L i) \<Longrightarrow> p \<in> set (L j) \<Longrightarrow> i = j"
  using block_self[of p i] block_self[of p j] unfolding binv_def by blast

lemma seg_links:
  "seg nx pv p h xs l t \<Longrightarrow> x \<in> set xs \<Longrightarrow> (pv x = p \<or> pv x \<in> set xs) \<and> (nx x = t \<or> nx x \<in> set xs)"
proof (induction xs arbitrary: p h)
  case (Cons y ys)
  then show ?case by (cases ys) auto
qed simp

lemma seg_prev_ne: "seg nx pv p h xs l t \<Longrightarrow> distinct xs \<Longrightarrow> x \<in> set xs \<Longrightarrow> p \<notin> set xs \<Longrightarrow> pv x \<noteq> x"
proof (induction xs arbitrary: p h)
  case (Cons y ys)
  then show ?case by (cases "x = y") auto
qed simp

lemma binv_del:
  assumes inv: "binv z L" and k: "k < 11" and p: "p \<in> set (L k)"
  defines "z1 \<equiv> (buddy_list_del k p z)\<lparr>nr_free := nr_free z - 2 ^ k\<rparr>" and "L1 \<equiv> L(k := remove1 p (L k))"
  shows "binv z1 L1" and "pages L = block k p \<union> pages L1" and "block k p \<inter> pages L1 = {}"
proof -
  obtain xs ys where xy: "L k = xs @ p # ys" using p by (meson split_list)
  have dist: "distinct (L k)" using inv k by (simp add: binv_def)
  then have L1k: "L1 k = xs @ ys" by (simp add: L1_def xy remove1_append)
  have bnd: "base_pfn z \<le> p" "p < base_pfn z + nr_pages z"
    using inv k p placed_bounds[of z k p] by (auto simp: binv_def)
  have ck: "chain z (free_head z k) (L k)" using inv k by (simp add: binv_def)
  then obtain l where sl: "seg (fp_next z) (fp_prev z) M4K_PFN_NONE (free_head z k) (L k) l M4K_PFN_NONE"
    by (auto simp: chain_def)
  have pvp: "fp_prev z p \<noteq> p" using seg_prev_ne[OF sl dist p] seg_none[OF sl] by simp
  have ch: "chain z1 (free_head z1 i) (L1 i)" if i: "i < 11" for i
  proof (cases "i = k")
    case True
    have "chain (buddy_list_del k p z) (free_head (buddy_list_del k p z) k) (xs @ ys)"
      using ck dist unfolding xy by (rule chain_del)
    then show ?thesis using True L1k by (simp add: z1_def chain_def)
  next
    case False
    have c: "chain z (free_head z i) (L i)" using inv i by (simp add: binv_def)
    have nk: "x \<notin> set (L k)" if "x \<in> set (L i)" for x using binv_unique[OF inv i k that] False by auto
    have "chain (buddy_list_del k p z) (free_head z i) (L i)"
      using c
    proof (rule seg_frame_chain)
      fix x assume x: "x \<in> set (L i)"
      then show "fp_next (buddy_list_del k p z) x = fp_next z x \<and> fp_prev (buddy_list_del k p z) x = fp_prev z x"
        using seg_links[OF sl p] nk[OF x] pvp by (intro list_del_frame) auto
    qed
    then show ?thesis using False by (simp add: z1_def chain_def L1_def)
  qed
  have sub: "set (L1 i) \<subseteq> set (L i)" for i
    using set_remove1_subset[of p "L k"] by (auto simp: L1_def)
  have pn: "p \<notin> set (L1 i)" if "i < 11" for i
    using binv_unique[OF inv that k _ p] sub[of i] dist by (auto simp: L1_def)
  show "binv z1 L1"
    unfolding binv_def
  proof (intro conjI allI impI ballI)
    have "L1 = L(k := xs @ ys)" using L1k by (simp add: L1_def)
    then have "(\<Sum>i<11. 2 ^ i * length (L1 i)) = 2 ^ k * length (xs @ ys) + (\<Sum>i \<in> {..<11} - {k}. 2 ^ i * length (L i))"
      by (simp only: sum_upd[OF k])
    moreover have "(\<Sum>i<11. 2 ^ i * length (L i)) = 2 ^ k * length (L k) + (\<Sum>i \<in> {..<11} - {k}. 2 ^ i * length (L i))"
      using sum_upd[OF k, of L "L k"] by (simp only: fun_upd_triv)
    ultimately show "nr_free z1 = (\<Sum>i<11. 2 ^ i * length (L1 i))"
      using inv xy by (simp add: binv_def z1_def)
  next
    fix i assume i: "i < (11 :: nat)"
    show "distinct (L1 i)" using inv i by (auto simp: binv_def L1_def)
    show "free_count z1 i = length (L1 i)" using inv i xy L1k by (auto simp: binv_def z1_def L1_def)
    fix q assume q: "q \<in> set (L1 i)"
    then have "placed z i q" using inv i sub[of i] by (auto simp: binv_def)
    then show "placed z1 i q" by (simp add: placed_def z1_def)
  next
    fix i q assume i: "i < (11 :: nat)" and "base_pfn z1 \<le> q" "q < base_pfn z1 + nr_pages z1"
    then have q: "base_pfn z \<le> q" "q < base_pfn z + nr_pages z" by (auto simp: z1_def)
    have om: "order_map z (q - base_pfn z) = i \<longleftrightarrow> q \<in> set (L i)" using inv i q by (simp add: binv_def)
    show "(order_map z1 (q - base_pfn z1) = i) = (q \<in> set (L1 i))"
    proof (cases "q = p")
      case True
      then show ?thesis using pn[OF i] i by (simp add: z1_def)
    next
      case False
      then have "q - base_pfn z \<noteq> p - base_pfn z" using q bnd by simp
      then show ?thesis using om False by (simp add: z1_def L1_def)
    qed
  next
    fix i j q r assume "i < (11 :: nat)" "j < (11 :: nat)" "q \<in> set (L1 i)" "r \<in> set (L1 j)" "(i, q) \<noteq> (j, r)"
    then show "block i q \<inter> block j r = {}" using inv sub unfolding binv_def by blast
  qed (use inv ch in \<open>auto simp: binv_def z1_def\<close>)
  have "set (L k) = insert p (set (L1 k))" by (auto simp: L1k xy)
  then show "pages L = block k p \<union> pages L1"
    using pages_upd[OF k, of L "L k"] pages_upd[OF k, of L "L1 k"] by (auto simp: L1_def)
  have "block k p \<inter> block i q = {}" if "i < 11" "q \<in> set (L1 i)" for i q
  proof -
    have "(k, p) \<noteq> (i, q)" using pn that by auto
    then show ?thesis using inv k p that sub unfolding binv_def by blast
  qed
  then show "block k p \<inter> pages L1 = {}" by (auto simp: pages_def)
qed

section \<open>Buddies\<close>

lemma buddy_of_eq: "2 ^ k dvd p \<Longrightarrow> buddy_of p k = (if even (p div 2 ^ k) then p + 2 ^ k else p - 2 ^ k)"
proof -
  assume "2 ^ k dvd p"
  then obtain q where q: "p = 2 ^ k * q" by (auto elim: dvdE)
  have "p XOR 2 ^ k = push_bit k q XOR push_bit k 1" by (simp add: q push_bit_eq_mult mult.commute)
  also have "\<dots> = push_bit k (q XOR 1)" by (simp only: push_bit_xor)
  also have "\<dots> = 2 ^ k * (q XOR 1)" by (simp add: push_bit_eq_mult mult.commute)
  also have "q XOR 1 = (if even q then q + 1 else q - 1)" using xor_one_eq[of q] by auto
  finally show ?thesis by (simp add: buddy_of_def q algebra_simps)
qed

lemma buddy_merge:
  assumes "2 ^ k dvd p" "b = buddy_of p k"
  shows "2 ^ k dvd b" "2 ^ Suc k dvd min b p" "block (Suc k) (min b p) = block k p \<union> block k b" "b \<noteq> p"
    "min b p + 2 ^ Suc k = max b p + 2 ^ k"
proof -
  obtain q where q: "p = 2 ^ k * q" using assms(1) by (auto elim: dvdE)
  have pos: "0 < (2 :: nat) ^ k" by simp
  have all: "2 ^ k dvd b \<and> 2 ^ Suc k dvd min b p \<and> block (Suc k) (min b p) = block k p \<union> block k b \<and> b \<noteq> p \<and>
      min b p + 2 ^ Suc k = max b p + 2 ^ k"
  proof (cases "even q")
    case True
    then have b: "b = p + 2 ^ k" using assms buddy_of_eq[of k p] q by simp
    moreover have "2 ^ Suc k dvd p" using True q by auto
    ultimately show ?thesis using assms(1) pos by (auto simp: block_def min_def)
  next
    case False
    then obtain r where r: "q = Suc (2 * r)" by (auto elim: oddE)
    then have b: "b = p - 2 ^ k" "2 ^ k \<le> p" using assms buddy_of_eq[of k p] q False by auto
    then have "b = 2 ^ Suc k * r" using q r by (simp add: algebra_simps)
    moreover have "p = b + 2 ^ k" using b by simp
    ultimately show ?thesis using pos by (auto simp: block_def min_def)
  qed
  then show "2 ^ k dvd b" "2 ^ Suc k dvd min b p" "block (Suc k) (min b p) = block k p \<union> block k b" "b \<noteq> p"
    "min b p + 2 ^ Suc k = max b p + 2 ^ k" by auto
qed

definition same_zone :: "bzone \<Rightarrow> bzone \<Rightarrow> bool" where
  "same_zone z z' \<longleftrightarrow> base_pfn z' = base_pfn z \<and> nr_pages z' = nr_pages z"

lemma same_zone_placed: "same_zone z z' \<Longrightarrow> placed z' k p = placed z k p"
  by (simp add: same_zone_def placed_def)

lemma free_block_ok:
  assumes "binv z L" "k < 11" "placed z k p" "block k p \<inter> pages L = {}"
  shows "\<exists>L'. binv (buddy_free_block k p z) L' \<and> pages L' = pages L \<union> block k p \<and>
    same_zone z (buddy_free_block k p z) \<and>
    (\<exists>j q. k \<le> j \<and> j < 11 \<and> q \<in> set (L' j) \<and> block k p \<subseteq> block j q \<and> (j < 10 \<longrightarrow> buddy_of q j \<notin> set (L' j))) \<and>
    (fully_merged L \<longrightarrow> fully_merged L')"
  using assms
proof (induction k p z arbitrary: L rule: buddy_free_block.induct)
  case (1 k p z)
  define b where "b = buddy_of p k"
  show ?case
  proof (cases "k < M4K_BUDDY_MAX_ORDER - 1 \<and> \<not> (b < base_pfn z \<or> b \<ge> base_pfn z + nr_pages z) \<and>
      order_map z (b - base_pfn z) = k")
    case False
    then have e: "buddy_free_block k p z = buddy_list_add k p (z\<lparr>nr_free := nr_free z + 2 ^ k\<rparr>)"
      by (subst buddy_free_block.simps) (unfold Let_def b_def[symmetric], rule if_not_P)
    have "same_zone z (buddy_free_block k p z)" by (simp add: e same_zone_def)
    moreover have "pages (L(k := p # L k)) = pages L \<union> block k p" using pages_insert[OF 1(3), of L p] by blast
    moreover have nb: "10 \<le> k \<or> b \<notin> set (L k)"
    proof (rule disjCI)
      assume "\<not> b \<notin> set (L k)"
      then have "placed z k b" "order_map z (b - base_pfn z) = k"
        using 1(2,3) placed_bounds[of z k b] binv_map[OF 1(2,3), of b] by (auto simp: binv_def)
      then show "10 \<le> k" using False placed_bounds[of z k b] by (auto simp: M4K_BUDDY_MAX_ORDER_def)
    qed
    moreover have "fully_merged L \<longrightarrow> fully_merged (L(k := p # L k))" using nb fully_merged_add[of L k p] by (auto simp: b_def)
    moreover have "\<exists>j q. k \<le> j \<and> j < 11 \<and> q \<in> set ((L(k := p # L k)) j) \<and> block k p \<subseteq> block j q \<and>
        (j < 10 \<longrightarrow> buddy_of q j \<notin> set ((L(k := p # L k)) j))"
      using 1(3) nb buddy_of_neq[of p k] by (intro exI[of _ k] exI[of _ p]) (auto simp: b_def)
    ultimately show ?thesis using binv_add[OF 1(2-5)] unfolding e by blast
  next
    case True
    then have bL: "b \<in> set (L k)" using binv_map[OF 1(2,3), of b] by auto
    have k: "Suc k < 11" using True by (simp add: M4K_BUDDY_MAX_ORDER_def)
    define z2 where "z2 = (buddy_list_del k b z)\<lparr>nr_free := nr_free z - 2 ^ k\<rparr>"
    define L1 where "L1 = L(k := remove1 b (L k))"
    note del = binv_del[OF 1(2,3) bL, folded z2_def L1_def]
    have al: "2 ^ k dvd p" using 1(4) by (simp add: placed_def)
    note mg = buddy_merge[OF al b_def]
    have pb: "placed z k b" using 1(2,3) bL by (auto simp: binv_def)
    have sz: "same_zone z z2" by (simp add: same_zone_def z2_def)
    have "placed z (Suc k) (min b p)"
    proof -
      have "min b p + 2 ^ Suc k \<le> base_pfn z + nr_pages z"
        using mg(5) pb 1(4) by (auto simp: placed_def max_def split: if_splits)
      then show ?thesis using mg(2) pb 1(4) by (simp add: placed_def)
    qed
    then have pl: "placed z2 (Suc k) (min b p)" using same_zone_placed[OF sz] by simp
    have fresh: "block (Suc k) (min b p) \<inter> pages L1 = {}" using mg(3) del(2,3) 1(5) by auto
    have rec: "buddy_free_block k p z = buddy_free_block (Suc k) (min b p) z2"
      using True by (subst buddy_free_block.simps) (simp add: Let_def b_def z2_def min_def)
    have "(if b < p then b else p) = min b p" by (simp add: min_def)
    then obtain L' where "binv (buddy_free_block (Suc k) (min b p) z2) L'"
      "pages L' = pages L1 \<union> block (Suc k) (min b p)" "same_zone z2 (buddy_free_block (Suc k) (min b p) z2)"
      "\<exists>j q. Suc k \<le> j \<and> j < 11 \<and> q \<in> set (L' j) \<and> block (Suc k) (min b p) \<subseteq> block j q \<and>
         (j < 10 \<longrightarrow> buddy_of q j \<notin> set (L' j))"
      "fully_merged L1 \<longrightarrow> fully_merged L'"
      using 1(1)[OF b_def True refl refl, of L1] del(1) k pl fresh by (auto simp: z2_def)
    moreover have "pages L1 \<union> block (Suc k) (min b p) = pages L \<union> block k p" using mg(3) del(2) by auto
    moreover have "\<exists>j q. k \<le> j \<and> j < 11 \<and> q \<in> set (L' j) \<and> block k p \<subseteq> block j q \<and> (j < 10 \<longrightarrow> buddy_of q j \<notin> set (L' j))"
      using calculation(4) mg(3) by (metis Suc_leD Un_subset_iff)
    moreover have "fully_merged L \<longrightarrow> fully_merged L1" using fully_merged_del by (auto simp: L1_def)
    ultimately show ?thesis unfolding rec using sz by (auto simp: same_zone_def)
  qed
qed

section \<open>Ranges\<close>

lemma sub32_small: "a \<le> b \<Longrightarrow> b < 2 ^ 32 \<Longrightarrow> sub32 b a = b - a"
  by (simp add: sub32_def nat_diff_distrib)

lemma add32_small: "a + b < 2 ^ 32 \<Longrightarrow> add32 a b = a + b"
  by (simp add: add32_def)

lemma and_mask_aligned: "(p :: nat) AND (2 ^ k - 1) = 0 \<longleftrightarrow> 2 ^ k dvd p"
  using take_bit_eq_mask[of k p] take_bit_eq_0_iff[of k p] by (simp add: mask_eq_exp_minus_1)

lemma range_split: "(a :: nat) + 2 ^ k \<le> e \<Longrightarrow> {a..<e} = block k a \<union> {a + 2 ^ k..<e}"
  by (auto simp: block_def)

lemma free_run_ok:
  assumes "binv z L" "k < 11" "base_pfn z \<le> a" "a \<le> e" "e \<le> base_pfn z + nr_pages z" "{a..<e} \<inter> pages L = {}"
  shows "\<exists>a' z' L'. free_run k a e z = (a', z') \<and> binv z' L' \<and> a \<le> a' \<and> a' \<le> e \<and>
    pages L' = pages L \<union> {a..<a'} \<and> same_zone z z' \<and> \<not> (a' + 2 ^ k \<le> e \<and> 2 ^ k dvd a') \<and>
    (fully_merged L \<longrightarrow> fully_merged L')"
  using assms
proof (induction "e - a" arbitrary: a z L rule: less_induct)
  case less
  have "e \<le> M4K_MAX_PFNS" using less.prems(1,5) by (simp add: binv_def)
  then have e: "e < 2 ^ 32" by (simp add: M4K_MAX_PFNS_def)
  have s: "sub32 e a = e - a" using less.prems(4) e by (rule sub32_small)
  show ?case
  proof (cases "2 ^ k \<le> e - a \<and> 2 ^ k dvd a")
    case False
    then have "free_run k a e z = (a, z)"
      by (subst free_run.simps) (auto simp: s and_mask_aligned simp del: One_nat_def)
    then show ?thesis using less.prems False by (auto simp: same_zone_def)
  next
    case True
    have le: "a + 2 ^ k \<le> e" using True less.prems(4) by linarith
    have ad: "add32 a (2 ^ k) = a + 2 ^ k" using le e by (intro add32_small) linarith
    have "placed z k a" using True less.prems(3,5) le by (simp add: placed_def)
    moreover have "block k a \<inter> pages L = {}" using less.prems(6) range_split[OF le] by auto
    ultimately obtain L1 where L1: "binv (buddy_free_block k a z) L1" "pages L1 = pages L \<union> block k a"
      "same_zone z (buddy_free_block k a z)" "fully_merged L \<longrightarrow> fully_merged L1" using free_block_ok[OF less.prems(1,2)] by blast
    have lt: "e - (a + 2 ^ k) < e - a"
    proof -
      have "0 < (2 :: nat) ^ k" by simp
      then show ?thesis using le by linarith
    qed
    have "{a + 2 ^ k..<e} \<inter> pages L1 = {}"
      using L1(2) less.prems(6) range_split[OF le] by (auto simp: block_def)
    then obtain a' z' L' where r: "free_run k (a + 2 ^ k) e (buddy_free_block k a z) = (a', z')" "binv z' L'"
      "a + 2 ^ k \<le> a'" "a' \<le> e" "pages L' = pages L1 \<union> {a + 2 ^ k..<a'}" "same_zone (buddy_free_block k a z) z'"
      "\<not> (a' + 2 ^ k \<le> e \<and> 2 ^ k dvd a')" "fully_merged L1 \<longrightarrow> fully_merged L'"
      using less.hyps[OF lt L1(1) less.prems(2)] L1(3) less.prems(3,5) le by (auto simp: same_zone_def)
    have "free_run k a e z = (a', z')"
      using True r(1) ad by (subst free_run.simps) (simp add: s and_mask_aligned del: One_nat_def)
    moreover have "pages L' = pages L \<union> {a..<a'}" using r(3,5) L1(2) range_split[OF r(3)] by auto
    moreover have "same_zone z z'" using r(6) L1(3) by (simp add: same_zone_def)
    ultimately show ?thesis using r(2,3,4,7,8) L1(4) by (intro exI[of _ a'] exI[of _ z'] exI[of _ L']) auto
  qed
qed

lemma free_orders_ok:
  assumes "binv z L" "k \<le> 11" "base_pfn z \<le> a" "a \<le> e" "e \<le> base_pfn z + nr_pages z" "{a..<e} \<inter> pages L = {}"
    "0 < k \<or> a = e"
  shows "\<exists>L'. binv (free_orders k a e z) L' \<and> pages L' = pages L \<union> {a..<e} \<and> same_zone z (free_orders k a e z) \<and>
    (fully_merged L \<longrightarrow> fully_merged L')"
  using assms
proof (induction k arbitrary: a z L)
  case 0
  then show ?case by (auto simp: same_zone_def)
next
  case (Suc k)
  obtain a' z' L' where r: "free_run k a e z = (a', z')" "binv z' L'" "a \<le> a'" "a' \<le> e"
    "pages L' = pages L \<union> {a..<a'}" "same_zone z z'" "\<not> (a' + 2 ^ k \<le> e \<and> 2 ^ k dvd a')"
    "fully_merged L \<longrightarrow> fully_merged L'"
    using free_run_ok[OF Suc.prems(1) _ Suc.prems(3-6), of k] Suc.prems(2) by auto
  have last: "0 < k \<or> a' = e" using r(4,7) by (cases k) auto
  have "{a'..<e} \<subseteq> {a..<e}" "{a'..<e} \<inter> {a..<a'} = {}" using r(3) by auto
  then have fr: "{a'..<e} \<inter> pages L' = {}" using Suc.prems(6) r(5) by blast
  have "k \<le> 11" "base_pfn z' \<le> a'" "e \<le> base_pfn z' + nr_pages z'"
    using Suc.prems(2,3,5) r(3,6) by (auto simp: same_zone_def)
  from Suc.IH[OF r(2) this(1,2) r(4) this(3) fr last] obtain L'' where
    "binv (free_orders k a' e z') L''" "pages L'' = pages L' \<union> {a'..<e}" "same_zone z' (free_orders k a' e z')"
    "fully_merged L' \<longrightarrow> fully_merged L''" by blast
  moreover have "pages L' \<union> {a'..<e} = pages L \<union> {a..<e}" using r(3,4,5) by auto
  ultimately show ?case using r(1,6,8) by (auto simp: same_zone_def)
qed

lemma free_range_ok:
  assumes "binv z L" "base_pfn z \<le> a" "a + n \<le> base_pfn z + nr_pages z" "{a..<a + n} \<inter> pages L = {}"
  shows "\<exists>L'. binv (buddy_free_range a n z) L' \<and> pages L' = pages L \<union> {a..<a + n} \<and> same_zone z (buddy_free_range a n z) \<and>
    (fully_merged L \<longrightarrow> fully_merged L')"
proof -
  have "a + n < 2 ^ 32" using assms(1,3) by (simp add: binv_def M4K_MAX_PFNS_def)
  then have "buddy_free_range a n z = free_orders 11 a (a + n) z"
    using assms(2,3) by (simp add: buddy_free_range_def Let_def add32_small M4K_BUDDY_MAX_ORDER_def del: free_orders.simps)
  then show ?thesis using free_orders_ok[OF assms(1) _ assms(2) _ assms(3,4), of 11] by simp
qed

section \<open>Allocation\<close>

lemma binv_head: "binv z L \<Longrightarrow> k < 11 \<Longrightarrow> free_head z k = (if L k = [] then M4K_PFN_NONE else hd (L k))"
  using seg_head by (fastforce simp: binv_def chain_def)

lemma binv_head_none: "binv z L \<Longrightarrow> k < 11 \<Longrightarrow> free_head z k = M4K_PFN_NONE \<longleftrightarrow> L k = []"
proof -
  assume inv: "binv z L" and k: "k < 11"
  obtain l where "seg (fp_next z) (fp_prev z) M4K_PFN_NONE (free_head z k) (L k) l M4K_PFN_NONE"
    using inv k by (auto simp: binv_def chain_def)
  then show ?thesis by (cases "L k") auto
qed

lemma first_order_spec:
  assumes "k \<le> 11"
  shows "k \<le> first_order k z \<and> first_order k z \<le> 11 \<and>
    (first_order k z < 11 \<longrightarrow> free_head z (first_order k z) \<noteq> M4K_PFN_NONE) \<and>
    (\<forall>i. k \<le> i \<longrightarrow> i < first_order k z \<longrightarrow> free_head z i = M4K_PFN_NONE)"
  using assms
proof (induction k z rule: first_order.induct)
  case (1 k z)
  show ?case
  proof (cases "k < M4K_BUDDY_MAX_ORDER \<and> free_head z k = M4K_PFN_NONE")
    case True
    then have e: "first_order k z = first_order (k + 1) z" by (subst first_order.simps) simp
    have ih: "k + 1 \<le> first_order (k + 1) z \<and> first_order (k + 1) z \<le> 11 \<and>
      (first_order (k + 1) z < 11 \<longrightarrow> free_head z (first_order (k + 1) z) \<noteq> M4K_PFN_NONE) \<and>
      (\<forall>i. k + 1 \<le> i \<longrightarrow> i < first_order (k + 1) z \<longrightarrow> free_head z i = M4K_PFN_NONE)"
      using True by (intro 1(1)) (auto simp: M4K_BUDDY_MAX_ORDER_def)
    then show ?thesis unfolding e using True by (metis Suc_eq_plus1 Suc_le_eq add_leD1 le_neq_implies_less)
  next
    case False
    then have "first_order k z = k" by (subst first_order.simps) auto
    then show ?thesis using False 1(2) by (auto simp: M4K_BUDDY_MAX_ORDER_def)
  qed
qed

lemma split_down_ok:
  assumes "binv z L" "k + n < 11" "placed z (k + n) p" "block (k + n) p \<inter> pages L = {}"
  shows "\<exists>L'. binv (split_down k n p z) L' \<and> pages L' = pages L \<union> (block (k + n) p - block k p) \<and>
    same_zone z (split_down k n p z) \<and> placed z k p \<and> (fully_merged L \<longrightarrow> fully_merged L')"
  using assms
proof (induction n arbitrary: z L)
  case 0
  then show ?case by (auto simp: same_zone_def)
next
  case (Suc n)
  let ?c = "k + n"
  define z1 where "z1 = buddy_list_add ?c (p + 2 ^ ?c) (z\<lparr>nr_free := nr_free z + 2 ^ ?c\<rparr>)"
  define L1 where "L1 = L(?c := (p + 2 ^ ?c) # L ?c)"
  have al: "2 ^ Suc ?c dvd p" using Suc.prems(3) by (simp add: placed_def)
  then have al': "2 ^ ?c dvd p" by (meson dvd_trans le_imp_power_dvd le_SucI order_refl)
  have ph: "placed z ?c (p + 2 ^ ?c)" "placed z ?c p" using Suc.prems(3) al' by (auto simp: placed_def)
  have bl: "block (Suc ?c) p = block ?c p \<union> block ?c (p + 2 ^ ?c)" "block ?c p \<inter> block ?c (p + 2 ^ ?c) = {}"
    by (auto simp: block_def)
  have fr: "block ?c (p + 2 ^ ?c) \<inter> pages L = {}" "block ?c p \<inter> pages L = {}" using Suc.prems(4) bl by auto
  have "?c < 11" using Suc.prems(2) by simp
  note inv1 = binv_add[OF Suc.prems(1) this ph(1) fr(1), folded z1_def L1_def]
  have pg: "pages L1 = block ?c (p + 2 ^ ?c) \<union> pages L" unfolding L1_def using \<open>?c < 11\<close> by (rule pages_insert)
  have sz: "same_zone z z1" by (simp add: same_zone_def z1_def)
  have "block ?c p \<inter> pages L1 = {}" using bl(2) fr(2) pg by blast
  from Suc.IH[OF inv1 \<open>?c < 11\<close> _ this] ph(2) same_zone_placed[OF sz]
  obtain L' where "binv (split_down k n p z1) L'" "pages L' = pages L1 \<union> (block ?c p - block k p)"
    "same_zone z1 (split_down k n p z1)" "placed z k p" "fully_merged L1 \<longrightarrow> fully_merged L'" by auto
  moreover have "fully_merged L \<longrightarrow> fully_merged L1"
  proof -
    have "buddy_of (p + 2 ^ ?c) ?c = p"
    proof -
      have "even (p div 2 ^ ?c)" using al by (auto elim!: dvdE)
      then have "p + 2 ^ ?c = buddy_of p ?c" using buddy_of_eq[OF al'] by simp
      then show ?thesis by simp
    qed
    moreover have "p \<notin> set (L ?c)" using fr(2) pages_mem[OF \<open>?c < 11\<close>, of p L] block_self[of p ?c] by blast
    ultimately show ?thesis using fully_merged_add[of L ?c "p + 2 ^ ?c"] by (simp add: L1_def)
  qed
  moreover have "block k p \<subseteq> block ?c p" by (auto simp: block_def intro: order.strict_trans2 power_increasing)
  then have "pages L1 \<union> (block ?c p - block k p) = pages L \<union> (block (Suc ?c) p - block k p)"
    using pg bl by blast
  moreover have "split_down k (Suc n) p z = split_down k n p z1" by (simp add: z1_def Let_def)
  ultimately show ?case using sz by (auto simp: same_zone_def)
qed

lemma buddy_alloc_ok:
  assumes inv: "binv z L" and k: "k < 11"
  shows "if \<forall>i. k \<le> i \<longrightarrow> i < 11 \<longrightarrow> L i = [] then buddy_alloc k z = (M4K_PFN_NONE, z)
    else \<exists>p z' L'. buddy_alloc k z = (p, z') \<and> p \<noteq> M4K_PFN_NONE \<and> placed z k p \<and> block k p \<subseteq> pages L \<and>
      binv z' L' \<and> pages L' = pages L - block k p \<and> same_zone z z' \<and> (fully_merged L \<longrightarrow> fully_merged L')"
proof -
  define c where "c = first_order k z"
  have fo: "k \<le> c" "c \<le> 11" "c < 11 \<Longrightarrow> free_head z c \<noteq> M4K_PFN_NONE" "\<forall>i. k \<le> i \<longrightarrow> i < c \<longrightarrow> free_head z i = M4K_PFN_NONE"
    using first_order_spec[of k z] k by (auto simp: c_def)
  have nil: "L i = []" if "k \<le> i" "i < c" for i using fo(2,4) that binv_head_none[OF inv, of i] by auto
  show ?thesis
  proof (cases "c = 11")
    case True
    then have "buddy_alloc k z = (M4K_PFN_NONE, z)" using k by (simp add: buddy_alloc_def M4K_BUDDY_MAX_ORDER_def flip: c_def)
    then show ?thesis using nil True by auto
  next
    case False
    then have c: "c < 11" using fo(2) by simp
    then have ne: "L c \<noteq> []" using fo(3) binv_head_none[OF inv] by auto
    define p where "p = free_head z c"
    have p: "p \<in> set (L c)" "p \<noteq> M4K_PFN_NONE" using binv_head[OF inv c] ne fo(3)[OF c] by (auto simp: p_def)
    define z2 where "z2 = (buddy_list_del c p z)\<lparr>nr_free := nr_free z - 2 ^ c\<rparr>"
    define L1 where "L1 = L(c := remove1 p (L c))"
    note del = binv_del[OF inv c p(1), folded z2_def L1_def]
    have pl: "placed z c p" using inv c p(1) by (auto simp: binv_def)
    have sz: "same_zone z z2" by (simp add: same_zone_def z2_def)
    have kc: "k + (c - k) = c" using fo(1) by simp
    obtain L' where L': "binv (split_down k (c - k) p z2) L'" "pages L' = pages L1 \<union> (block c p - block k p)"
      "same_zone z2 (split_down k (c - k) p z2)" "placed z2 k p" "fully_merged L1 \<longrightarrow> fully_merged L'"
      using split_down_ok[OF del(1), of k "c - k" p] kc c pl del(3) same_zone_placed[OF sz] by auto
    have sub: "block k p \<subseteq> block c p" using fo(1) by (auto simp: block_def intro: order.strict_trans2 power_increasing)
    have "pages L' = pages L - block k p" using L'(2) del(2,3) sub by blast
    moreover have "buddy_alloc k z = (p, split_down k (c - k) p z2)"
      using k False c by (simp add: buddy_alloc_def M4K_BUDDY_MAX_ORDER_def Let_def z2_def p_def flip: c_def)
    moreover have "same_zone z (split_down k (c - k) p z2)" "placed z k p" using sz L'(3,4) same_zone_placed[OF sz] by (auto simp: same_zone_def)
    moreover have "block k p \<subseteq> pages L" using sub del(2) by blast
    moreover have "\<not> (\<forall>i. k \<le> i \<longrightarrow> i < 11 \<longrightarrow> L i = [])" using fo(1) c ne by blast
    moreover have "fully_merged L \<longrightarrow> fully_merged L'" using L'(5) fully_merged_del[of L c p] by (auto simp: L1_def)
    ultimately show ?thesis using L'(1) p(2) by auto
  qed
qed

end
