(* ===== verification/PageAlloc.thy ===== *)
theory PageAlloc
  imports Buddy
begin

text \<open>
  The page layer of \<open>sys/src/mm/memory.c\<close> above the buddy zone: memory
  regions, the boot-time initialisation that seeds the zone, page
  allocation and freeing with their memory counters, and the properties of
  the buddy allocator.
\<close>

section \<open>Model\<close>

record mem_region =
  rg_start :: u32
  rg_size :: u32
  rg_type :: u32

record mstate =
  zone :: bzone
  mem_regions :: "mem_region list"
  total_mem :: u32
  free_mem :: u32
  used_mem :: u32

definition MAX_MEMORY_REGIONS :: nat where "MAX_MEMORY_REGIONS = 64"
definition M4K_MEM_TYPE_FREE :: u32 where "M4K_MEM_TYPE_FREE = 1"
definition M4K_MEM_TYPE_RESERVED :: u32 where "M4K_MEM_TYPE_RESERVED = 2"
definition M4K_PAGE_SIZE :: u32 where "M4K_PAGE_SIZE = 4096"

text \<open>The region list is the pool of at most 64 entries, newest first.\<close>

definition memory_add_region :: "u32 \<Rightarrow> u32 \<Rightarrow> u32 \<Rightarrow> mstate \<Rightarrow> mstate" where
  "memory_add_region start sz ty s =
     (if length (mem_regions s) \<ge> MAX_MEMORY_REGIONS then s
      else s\<lparr>mem_regions := \<lparr>rg_start = start, rg_size = sz, rg_type = ty\<rparr> # mem_regions s,
             total_mem := total_mem s + sz,
             free_mem := (if ty = M4K_MEM_TYPE_FREE then free_mem s + sz else free_mem s)\<rparr>)"

text \<open>What the multiboot loader passes: its flags, the two coarse sizes in KB,
  and the entries of the memory map (address, length, type).\<close>

record mb_info =
  mb_has_mem :: bool
  mb_has_mmap :: bool
  mb_lower :: u32
  mb_upper :: u32
  mb_mmap :: "(u64 \<times> u64 \<times> u32) list"

definition add_coarse :: "mb_info \<Rightarrow> mstate \<Rightarrow> mstate" where
  "add_coarse mb s =
     (if \<not> mb_has_mmap mb \<and> mb_has_mem mb then
        let s1 = (if mb_lower mb > 0 then memory_add_region 0 (mb_lower mb * 1024) M4K_MEM_TYPE_FREE s else s)
        in if mb_upper mb > 0 then memory_add_region 0x100000 (mb_upper mb * 1024) M4K_MEM_TYPE_FREE s1 else s1
      else s)"

fun add_mmap :: "(u64 \<times> u64 \<times> u32) list \<Rightarrow> mstate \<Rightarrow> mstate" where
  "add_mmap [] s = s"
| "add_mmap ((a, l, t) # es) s =
     add_mmap es (memory_add_region (ucast a) (ucast l)
       (if t = 1 then M4K_MEM_TYPE_FREE else M4K_MEM_TYPE_RESERVED) s)"

definition add_regions :: "mb_info \<Rightarrow> mstate \<Rightarrow> mstate" where
  "add_regions mb s =
     (let s1 = add_coarse mb s;
          s2 = (if mb_has_mmap mb then add_mmap (mb_mmap mb) s1 else s1)
      in memory_add_region 0x3000000 0x1000000 M4K_MEM_TYPE_RESERVED
           (memory_add_region 0xC0000000 0x400000 M4K_MEM_TYPE_RESERVED s2))"

definition zone_start_of :: "u32 \<Rightarrow> u32" where
  "zone_start_of heap_end =
     (if heap_end > 0x4000000 then (heap_end + M4K_PAGE_SIZE - 1) AND NOT (M4K_PAGE_SIZE - 1) else 0x4000000)"

definition zone_end_of :: "u32 \<Rightarrow> u32 \<Rightarrow> u32" where
  "zone_end_of tot zs =
     (let ze = (if tot > 512 * 1024 * 1024 then 512 * 1024 * 1024 else tot)
      in if ze < zs then zs else ze)"

definition empty_zone :: "u32 \<Rightarrow> u32 \<Rightarrow> bzone \<Rightarrow> bzone" where
  "empty_zone zs ze z =
     z\<lparr>base_pfn := unat (drop_bit 12 zs), nr_pages := unat (drop_bit 12 (ze - zs)), nr_free := 0,
       free_head := (\<lambda>_. M4K_PFN_NONE), free_count := (\<lambda>_. 0), order_map := (\<lambda>_. 255)\<rparr>"

text \<open>The page window of a region inside the zone.\<close>

definition region_window :: "u32 \<Rightarrow> u32 \<Rightarrow> mem_region \<Rightarrow> nat \<times> nat" where
  "region_window zs ze r =
     (let s = drop_bit 12 (rg_start r); e = drop_bit 12 (rg_start r + rg_size r);
          e1 = (if e > drop_bit 12 ze then drop_bit 12 ze else e);
          s1 = (if s < drop_bit 12 zs then drop_bit 12 zs else s)
      in (unat s1, unat e1))"

fun seed_regions :: "u32 \<Rightarrow> u32 \<Rightarrow> mem_region list \<Rightarrow> bzone \<Rightarrow> bzone" where
  "seed_regions zs ze [] z = z"
| "seed_regions zs ze (r # rs) z =
     seed_regions zs ze rs
       (if rg_type r = M4K_MEM_TYPE_FREE then
          (let (s, e) = region_window zs ze r in if s < e then buddy_free_range s (e - s) z else z)
        else z)"

definition mkrn_memory_init :: "mb_info \<Rightarrow> u32 \<Rightarrow> mstate \<Rightarrow> mstate" where
  "mkrn_memory_init mb heap_end s =
     (let s1 = add_regions mb s;
          zs = zone_start_of heap_end;
          ze = zone_end_of (total_mem s1) zs;
          z = seed_regions zs ze (mem_regions s1) (empty_zone zs ze (zone s1));
          fm = of_nat (nr_free z) * M4K_PAGE_SIZE
      in s1\<lparr>zone := z, free_mem := fm, used_mem := total_mem s1 - fm\<rparr>)"

text \<open>The order loop of \<open>allocate_pages\<close>; \<open>None\<close> is a shift count of 32 or more.\<close>

function order_loop :: "nat \<Rightarrow> u32 \<Rightarrow> nat option" where
  "order_loop order pgs =
     (if order \<ge> 32 then None
      else if 2 ^ order < unat pgs then order_loop (order + 1) pgs else Some order)"
  by pat_completeness auto
termination
  by (relation "measure (\<lambda>(order, pgs). 32 - order)") auto

declare order_loop.simps [simp del]

definition allocate_pages :: "u32 \<Rightarrow> mstate \<Rightarrow> (u32 \<times> mstate) option" where
  "allocate_pages pgs s =
     (if pgs = 0 then Some (0, s)
      else case order_loop 0 pgs of
        None \<Rightarrow> None
      | Some order \<Rightarrow>
          (let (pfn, z1) = buddy_alloc order (zone s) in
           if pfn = M4K_PFN_NONE then Some (0, s\<lparr>zone := z1\<rparr>)
           else let got = 2 ^ order;
                    s1 = (if got > unat pgs
                          then s\<lparr>zone := buddy_free_range (pfn + unat pgs) (got - unat pgs) z1,
                                 free_mem := free_mem s + of_nat (got - unat pgs) * M4K_PAGE_SIZE\<rparr>
                          else s\<lparr>zone := z1\<rparr>)
                in Some (push_bit 12 (of_nat pfn),
                     s1\<lparr>free_mem := free_mem s1 - pgs * M4K_PAGE_SIZE,
                        used_mem := used_mem s1 + pgs * M4K_PAGE_SIZE\<rparr>)))"

definition free_pages :: "u32 \<Rightarrow> u32 \<Rightarrow> mstate \<Rightarrow> mstate" where
  "free_pages addr pgs s =
     (if pgs = 0 then s
      else s\<lparr>zone := buddy_free_range (unat (drop_bit 12 addr)) (unat pgs) (zone s),
             free_mem := free_mem s + pgs * M4K_PAGE_SIZE,
             used_mem := used_mem s - pgs * M4K_PAGE_SIZE\<rparr>)"

definition mkrn_memory_alloc_page :: "u32 \<Rightarrow> mstate \<Rightarrow> (u32 \<times> mstate) option" where
  "mkrn_memory_alloc_page pgs s = allocate_pages pgs s"

definition mkrn_memory_free_page :: "u32 \<Rightarrow> u32 \<Rightarrow> mstate \<Rightarrow> mstate" where
  "mkrn_memory_free_page addr pgs s = free_pages addr pgs s"

section \<open>Page allocation\<close>

lemma order_loop_ok:
  assumes "unat pgs \<le> 2 ^ 31" "k < 32" "k = 0 \<or> 2 ^ (k - 1) < unat pgs"
  shows "\<exists>r. order_loop k pgs = Some r \<and> r < 32 \<and> unat pgs \<le> 2 ^ r \<and> (r = 0 \<or> 2 ^ (r - 1) < unat pgs)"
  using assms
proof (induction "32 - k" arbitrary: k rule: less_induct)
  case less
  show ?case
  proof (cases "2 ^ k < unat pgs")
    case True
    then have "(2 :: nat) ^ k < 2 ^ 31" using less.prems(1) by linarith
    then have "k < 31" by (rule power_less_imp_less_exp[rotated]) simp
    then have "\<exists>r. order_loop (Suc k) pgs = Some r \<and> r < 32 \<and> unat pgs \<le> 2 ^ r \<and> (r = 0 \<or> 2 ^ (r - 1) < unat pgs)"
      using less.hyps[of "Suc k"] less.prems(1) True by simp
    then show ?thesis using True less.prems(2) by (subst order_loop.simps) simp
  next
    case False
    then show ?thesis using less.prems by (subst order_loop.simps) auto
  qed
qed

lemma pages_card: "binv z L \<Longrightarrow> nr_free z = card (pages L)"
proof -
  assume inv: "binv z L"
  have "card (pages L) = (\<Sum>k<11. card (\<Union>p \<in> set (L k). block k p))"
    unfolding pages_def
  proof (rule card_UN_disjoint)
    show "\<forall>i \<in> {..<11}. finite (\<Union>p \<in> set (L i). block i p)" by (auto simp: block_def)
    show "\<forall>i \<in> {..<11}. \<forall>j \<in> {..<11}. i \<noteq> j \<longrightarrow> (\<Union>p \<in> set (L i). block i p) \<inter> (\<Union>p \<in> set (L j). block j p) = {}"
    proof (intro ballI impI)
      fix i j :: nat assume ij: "i \<in> {..<11}" "j \<in> {..<11}" "i \<noteq> j"
      then have "block i p \<inter> block j q = {}" if "p \<in> set (L i)" "q \<in> set (L j)" for p q
        using inv that unfolding binv_def by blast
      then show "(\<Union>p \<in> set (L i). block i p) \<inter> (\<Union>p \<in> set (L j). block j p) = {}" by blast
    qed
  qed simp
  also have "\<dots> = (\<Sum>k<11. 2 ^ k * length (L k))"
  proof (rule sum.cong)
    fix k assume k: "k \<in> {..<11 :: nat}"
    have "card (\<Union>p \<in> set (L k). block k p) = (\<Sum>p \<in> set (L k). card (block k p))"
    proof (rule card_UN_disjoint)
      show "\<forall>p \<in> set (L k). \<forall>q \<in> set (L k). p \<noteq> q \<longrightarrow> block k p \<inter> block k q = {}"
        using inv k unfolding binv_def by blast
    qed (auto simp: block_def)
    also have "\<dots> = 2 ^ k * card (set (L k))" by (simp add: block_def)
    also have "card (set (L k)) = length (L k)" using inv k by (simp add: binv_def distinct_card)
    finally show "card (\<Union>p \<in> set (L k). block k p) = 2 ^ k * length (L k)" .
  qed simp
  finally show ?thesis using inv by (simp add: binv_def)
qed

lemma finite_pages: "finite (pages L)"
  by (simp add: pages_def block_def)

lemma pfn_addr:
  assumes "0 < pfn" "pfn < M4K_MAX_PFNS"
  shows "(push_bit 12 (of_nat pfn) :: u32) \<noteq> 0" "unat (drop_bit 12 (push_bit 12 (of_nat pfn) :: u32)) = pfn"
proof -
  have u: "unat (of_nat pfn :: u32) = pfn" using assms(2) by (simp add: unat_of_nat M4K_MAX_PFNS_def)
  have "unat (push_bit 12 (of_nat pfn) :: u32) = pfn * 4096"
    using assms(2) u by (simp add: push_bit_eq_mult unat_word_ariths M4K_MAX_PFNS_def mult.commute)
  then show "unat (drop_bit 12 (push_bit 12 (of_nat pfn) :: u32)) = pfn"
    by (simp only: unat_drop_bit_eq) (simp add: drop_bit_eq_div)
  show "(push_bit 12 (of_nat pfn) :: u32) \<noteq> 0"
    using \<open>unat (push_bit 12 (of_nat pfn) :: u32) = pfn * 4096\<close> assms(1) by auto
qed

text \<open>The order that \<open>allocate_pages\<close> asks for.\<close>

definition order_for :: "u32 \<Rightarrow> nat" where
  "order_for pgs = the (order_loop 0 pgs)"

lemma order_for_ok:
  assumes "0 < unat pgs" "unat pgs \<le> 1024"
  shows "order_loop 0 pgs = Some (order_for pgs)" "order_for pgs < 11" "unat pgs \<le> 2 ^ order_for pgs"
proof -
  obtain r where r: "order_loop 0 pgs = Some r" "unat pgs \<le> 2 ^ r" "r = 0 \<or> 2 ^ (r - 1) < unat pgs"
    using order_loop_ok[of pgs 0] assms by auto
  have "(2 :: nat) ^ (r - 1) < 2 ^ 10 \<or> r = 0" using r(3) assms(2) by auto
  then have "r < 11" using power_less_imp_less_exp[of "2 :: nat" "r - 1" 10] by auto
  then show "order_loop 0 pgs = Some (order_for pgs)" "order_for pgs < 11" "unat pgs \<le> 2 ^ order_for pgs"
    using r by (simp_all add: order_for_def)
qed

lemma allocate_pages_ok:
  assumes inv: "binv (zone s) L" and n: "0 < unat pgs" "unat pgs \<le> 1024" and b: "0 < base_pfn (zone s)"
  shows "if \<forall>i. order_for pgs \<le> i \<longrightarrow> i < 11 \<longrightarrow> L i = [] then allocate_pages pgs s = Some (0, s)
    else \<exists>pfn s' L'. allocate_pages pgs s = Some (push_bit 12 (of_nat pfn), s') \<and> placed (zone s) (order_for pgs) pfn \<and>
        {pfn..<pfn + unat pgs} \<subseteq> pages L \<and> binv (zone s') L' \<and> pages L' = pages L - {pfn..<pfn + unat pgs} \<and>
        same_zone (zone s) (zone s') \<and> (fully_merged L \<longrightarrow> fully_merged L') \<and>
        free_mem s' = free_mem s + of_nat (2 ^ order_for pgs - unat pgs) * M4K_PAGE_SIZE - pgs * M4K_PAGE_SIZE \<and>
        used_mem s' = used_mem s + pgs * M4K_PAGE_SIZE"
proof -
  define k where "k = order_for pgs"
  note ord = order_for_ok[OF n, folded k_def]
  have nz: "pgs \<noteq> 0" using n(1) by auto
  note al = buddy_alloc_ok[OF inv ord(2)]
  show ?thesis
  proof (cases "\<forall>i. k \<le> i \<longrightarrow> i < 11 \<longrightarrow> L i = []")
    case True
    then show ?thesis using al ord(1) nz by (simp add: allocate_pages_def flip: k_def)
  next
    case False
    then obtain p z1 L1 where a: "buddy_alloc k (zone s) = (p, z1)" "p \<noteq> M4K_PFN_NONE" "placed (zone s) k p"
      "block k p \<subseteq> pages L" "binv z1 L1" "pages L1 = pages L - block k p" "same_zone (zone s) z1"
      "fully_merged L \<longrightarrow> fully_merged L1"
      using al unfolding if_not_P[OF False] by blast
    let ?n = "unat pgs"
    have bl: "block k p = {p..<p + ?n} \<union> {p + ?n..<p + 2 ^ k}" using ord(3) by (auto simp: block_def)
    obtain s1 where s1: "allocate_pages pgs s = Some (push_bit 12 (of_nat p),
        s1\<lparr>free_mem := free_mem s1 - pgs * M4K_PAGE_SIZE, used_mem := used_mem s1 + pgs * M4K_PAGE_SIZE\<rparr>)"
      and s1d: "s1 = (if 2 ^ k > ?n then s\<lparr>zone := buddy_free_range (p + ?n) (2 ^ k - ?n) z1,
                   free_mem := free_mem s + of_nat (2 ^ k - ?n) * M4K_PAGE_SIZE\<rparr> else s\<lparr>zone := z1\<rparr>)"
      using a(1,2) ord(1) nz by (simp add: allocate_pages_def Let_def)
    have "\<exists>L'. binv (zone s1) L' \<and> pages L' = pages L - {p..<p + ?n} \<and> same_zone (zone s) (zone s1) \<and>
        free_mem s1 = free_mem s + of_nat (2 ^ k - ?n) * M4K_PAGE_SIZE \<and> used_mem s1 = used_mem s \<and>
        (fully_merged L \<longrightarrow> fully_merged L')"
    proof (cases "2 ^ k > ?n")
      case True
      have "p + ?n + (2 ^ k - ?n) = p + 2 ^ k" using True by simp
      then obtain L2 where L2: "binv (buddy_free_range (p + ?n) (2 ^ k - ?n) z1) L2"
        "pages L2 = pages L1 \<union> {p + ?n..<p + 2 ^ k}" "same_zone z1 (buddy_free_range (p + ?n) (2 ^ k - ?n) z1)"
        "fully_merged L1 \<longrightarrow> fully_merged L2"
        using free_range_ok[OF a(5), of "p + ?n" "2 ^ k - ?n"] a(3,6,7) bl by (auto simp: placed_def same_zone_def)
      moreover have "pages L2 = pages L - {p..<p + ?n}" using L2(2) a(4,6) bl by auto
      ultimately show ?thesis using True s1d a(7,8) by (auto simp: same_zone_def)
    next
      case False
      then have "2 ^ k = ?n" using ord(3) by simp
      then show ?thesis using False s1d a(5,6,7,8) bl by auto
    qed
    then obtain L' where "binv (zone s1) L'" "pages L' = pages L - {p..<p + ?n}" "same_zone (zone s) (zone s1)"
      "free_mem s1 = free_mem s + of_nat (2 ^ k - ?n) * M4K_PAGE_SIZE" "used_mem s1 = used_mem s" "fully_merged L \<longrightarrow> fully_merged L'" by blast
    moreover have "{p..<p + ?n} \<subseteq> pages L" using a(4) bl by blast
    ultimately show ?thesis using False s1 a(3) unfolding k_def[symmetric]
      by (simp only: if_False) (intro exI[of _ p] exI[of _ "s1\<lparr>free_mem := free_mem s1 - pgs * M4K_PAGE_SIZE, used_mem := used_mem s1 + pgs * M4K_PAGE_SIZE\<rparr>"] exI[of _ L'], simp)
  qed
qed

lemma allocate_pages_success:
  assumes "binv (zone s) L" "0 < unat pgs" "unat pgs \<le> 1024" "0 < base_pfn (zone s)"
    "allocate_pages pgs s = Some (addr, s')" "addr \<noteq> 0"
  obtains pfn L' where "addr = push_bit 12 (of_nat pfn)" "placed (zone s) (order_for pgs) pfn"
    "{pfn..<pfn + unat pgs} \<subseteq> pages L" "binv (zone s') L'" "pages L' = pages L - {pfn..<pfn + unat pgs}"
    "same_zone (zone s) (zone s')"
    "free_mem s' = free_mem s + of_nat (2 ^ order_for pgs - unat pgs) * M4K_PAGE_SIZE - pgs * M4K_PAGE_SIZE"
proof -
  have "\<not> (\<forall>i. order_for pgs \<le> i \<longrightarrow> i < 11 \<longrightarrow> L i = [])"
  proof
    assume h: "\<forall>i. order_for pgs \<le> i \<longrightarrow> i < 11 \<longrightarrow> L i = []"
    from allocate_pages_ok[OF assms(1-4), unfolded if_P[OF h]] assms(5,6) show False by simp
  qed
  from allocate_pages_ok[OF assms(1-4), unfolded if_not_P[OF this]] assms(5) show ?thesis by (auto intro: that)
qed

lemma free_pages_ok:
  assumes "binv (zone s) L" "0 < pfn" "base_pfn (zone s) \<le> pfn" "pfn + unat pgs \<le> base_pfn (zone s) + nr_pages (zone s)"
    "0 < unat pgs" "{pfn..<pfn + unat pgs} \<inter> pages L = {}"
  shows "\<exists>L'. binv (zone (free_pages (push_bit 12 (of_nat pfn)) pgs s)) L' \<and>
    pages L' = pages L \<union> {pfn..<pfn + unat pgs} \<and>
    same_zone (zone s) (zone (free_pages (push_bit 12 (of_nat pfn)) pgs s)) \<and> (fully_merged L \<longrightarrow> fully_merged L')"
proof -
  have "pfn < M4K_MAX_PFNS" using assms(1,4,5) by (simp add: binv_def)
  then have "unat (drop_bit 12 (push_bit 12 (of_nat pfn) :: u32)) = pfn" using assms(2) by (rule pfn_addr(2)[rotated])
  moreover have "pgs \<noteq> 0" using assms(5) by auto
  ultimately show ?thesis using free_range_ok[OF assms(1,3,4,6)] by (auto simp: free_pages_def)
qed

section \<open>Initialisation\<close>

lemma empty_zone_inv:
  assumes "base_pfn z0 + nr_pages z0 \<le> M4K_MAX_PFNS" "z0 = empty_zone zs ze z"
  shows "binv z0 (\<lambda>_. [])"
  using assms by (auto simp: binv_def chain_def empty_zone_def)

lemma fully_merged_empty [simp]: "fully_merged (\<lambda>_. [])"
  by (simp add: fully_merged_def)

lemma pages_empty [simp]: "pages (\<lambda>_. []) = {}"
  by (simp add: pages_def)

definition window :: "u32 \<Rightarrow> u32 \<Rightarrow> mem_region \<Rightarrow> nat set" where
  "window zs ze r = (if rg_type r = M4K_MEM_TYPE_FREE
     then {fst (region_window zs ze r)..<snd (region_window zs ze r)} else {})"

lemma seed_regions_ok:
  assumes "binv z L" "\<forall>r \<in> set rs. window zs ze r \<subseteq> {base_pfn z..<base_pfn z + nr_pages z}"
    "\<forall>r \<in> set rs. window zs ze r \<inter> pages L = {}"
    "\<forall>i < length rs. \<forall>j < i. window zs ze (rs ! i) \<inter> window zs ze (rs ! j) = {}"
  shows "\<exists>L'. binv (seed_regions zs ze rs z) L' \<and> pages L' = pages L \<union> (\<Union>r \<in> set rs. window zs ze r) \<and>
    same_zone z (seed_regions zs ze rs z) \<and> (fully_merged L \<longrightarrow> fully_merged L')"
  using assms
proof (induction rs arbitrary: z L)
  case Nil
  then show ?case by (auto simp: same_zone_def)
next
  case (Cons r rs)
  obtain a e where w: "region_window zs ze r = (a, e)" by fastforce
  define z1 where "z1 = (if rg_type r = M4K_MEM_TYPE_FREE then (if a < e then buddy_free_range a (e - a) z else z) else z)"
  have "\<exists>L1. binv z1 L1 \<and> pages L1 = pages L \<union> window zs ze r \<and> same_zone z z1 \<and> (fully_merged L \<longrightarrow> fully_merged L1)"
  proof (cases "rg_type r = M4K_MEM_TYPE_FREE \<and> a < e")
    case True
    then have wd: "window zs ze r = {a..<e}" by (simp add: window_def w)
    then have "base_pfn z \<le> a" "e \<le> base_pfn z + nr_pages z" using Cons.prems(2) True by auto
    then show ?thesis using free_range_ok[OF Cons.prems(1), of a "e - a"] Cons.prems(3) True wd by (auto simp: z1_def)
  next
    case False
    then have "window zs ze r = {}" by (auto simp: window_def w)
    then show ?thesis using False Cons.prems(1) by (auto simp: z1_def same_zone_def)
  qed
  then obtain L1 where L1: "binv z1 L1" "pages L1 = pages L \<union> window zs ze r" "same_zone z z1"
    "fully_merged L \<longrightarrow> fully_merged L1" by blast
  have "window zs ze q \<inter> window zs ze r = {}" if q: "q \<in> set rs" for q
  proof -
    obtain i where "i < length rs" "q = rs ! i" using q by (auto simp: in_set_conv_nth)
    then show ?thesis using Cons.prems(4)[rule_format, of "Suc i" 0] by simp
  qed
  then have "\<forall>q \<in> set rs. window zs ze q \<inter> pages L1 = {}" using L1(2) Cons.prems(3) by auto
  moreover have "\<forall>q \<in> set rs. window zs ze q \<subseteq> {base_pfn z1..<base_pfn z1 + nr_pages z1}"
    using Cons.prems(2) L1(3) by (simp add: same_zone_def)
  moreover have "\<forall>i < length rs. \<forall>j < i. window zs ze (rs ! i) \<inter> window zs ze (rs ! j) = {}"
    using Cons.prems(4) by (metis Suc_less_eq length_Cons nth_Cons_Suc)
  ultimately obtain L' where "binv (seed_regions zs ze rs z1) L'"
    "pages L' = pages L1 \<union> (\<Union>r \<in> set rs. window zs ze r)" "same_zone z1 (seed_regions zs ze rs z1)"
    "fully_merged L1 \<longrightarrow> fully_merged L'"
    using Cons.IH[OF L1(1)] by blast
  moreover have "seed_regions zs ze (r # rs) z = seed_regions zs ze rs z1" by (simp add: w z1_def)
  ultimately show ?case using L1 by (auto simp: same_zone_def)
qed

lemma page_aligned:
  "unat ((x :: u32) AND NOT 4095) = 4096 * (unat x div 4096)"
proof -
  have m: "4095 = (mask 12 :: u32)" by (simp add: mask_eq_exp_minus_1)
  have "x AND NOT 4095 = push_bit 12 (drop_bit 12 x)"
    unfolding m by (intro bit_word_eqI) (auto simp: bit_simps not_less dest!: le_Suc_ex)
  moreover have u: "unat (drop_bit 12 x) = unat x div 4096" by (simp only: unat_drop_bit_eq) (simp add: drop_bit_eq_div)
  moreover have "4096 * (unat x div 4096) < 4294967296" using unsigned_less[of x, where ?'a = nat] by simp
  ultimately show ?thesis by (simp add: push_bit_eq_mult unat_word_ariths)
qed

lemma zone_start_ok:
  assumes "heap_end \<le> 0x20000000" "zs = zone_start_of heap_end"
  shows "4096 dvd unat zs" "unat zs \<le> 0x20000000" "unat heap_end \<le> unat zs" "0x4000000 \<le> unat zs"
proof -
  have h: "unat heap_end \<le> 536870912" using assms(1) by (simp add: word_le_nat_alt)
  have "4096 dvd unat zs \<and> unat zs \<le> 0x20000000 \<and> unat heap_end \<le> unat zs \<and> 0x4000000 \<le> unat zs"
  proof (cases "heap_end > 0x4000000")
    case True
    have "unat (heap_end + 4095) = unat heap_end + 4095" using h by (simp add: unat_word_ariths)
    then have "unat zs = 4096 * ((unat heap_end + 4095) div 4096)"
      using True assms(2) page_aligned[of "heap_end + 4095"] by (simp add: zone_start_of_def M4K_PAGE_SIZE_def add.commute)
    moreover have "unat heap_end > 67108864" using True by (simp add: word_less_nat_alt)
    ultimately show ?thesis using h by auto
  next
    case False
    then have "zs = 0x4000000" using assms(2) by (simp add: zone_start_of_def)
    then show ?thesis using False by (simp add: word_le_nat_alt not_less)
  qed
  then show "4096 dvd unat zs" "unat zs \<le> 0x20000000" "unat heap_end \<le> unat zs" "0x4000000 \<le> unat zs" by auto
qed

lemma zone_end_ok:
  assumes "unat zs \<le> 0x20000000" "ze = zone_end_of tot zs"
  shows "zs \<le> ze" "unat ze \<le> 0x20000000"
proof -
  have "zs \<le> ze \<and> ze \<le> 0x20000000"
    using assms by (auto simp: zone_end_of_def Let_def word_le_nat_alt word_less_nat_alt)
  then show "zs \<le> ze" "unat ze \<le> 0x20000000" by (simp_all add: word_le_nat_alt)
qed

lemma u32_pfn: "unat (drop_bit 12 (x :: u32)) = unat x div 4096"
  by (simp only: unat_drop_bit_eq) (simp add: drop_bit_eq_div)

lemma init_zone_ok:
  assumes "heap_end \<le> 0x20000000" "zs = zone_start_of heap_end" "ze = zone_end_of tot zs"
    "z0 = empty_zone zs ze z"
  shows "base_pfn z0 = unat zs div 4096" "base_pfn z0 + nr_pages z0 = unat ze div 4096"
    "base_pfn z0 + nr_pages z0 \<le> M4K_MAX_PFNS" "0x4000 \<le> base_pfn z0"
    "window zs ze r \<subseteq> {base_pfn z0..<base_pfn z0 + nr_pages z0}"
proof -
  note zs = zone_start_ok[OF assms(1,2)]
  note ze = zone_end_ok[OF zs(2) assms(3)]
  obtain q where q: "unat zs = 4096 * q" using zs(1) by (auto elim: dvdE)
  have "unat (ze - zs) = unat ze - unat zs" using ze(1) by (rule unat_sub)
  then have n: "nr_pages z0 = (unat ze - unat zs) div 4096" using assms(4) by (simp add: empty_zone_def u32_pfn)
  show b: "base_pfn z0 = unat zs div 4096" using assms(4) by (simp add: empty_zone_def u32_pfn)
  have "unat zs \<le> unat ze" using ze(1) by (simp add: word_le_nat_alt)
  then show e: "base_pfn z0 + nr_pages z0 = unat ze div 4096" unfolding b n q by simp
  show "base_pfn z0 + nr_pages z0 \<le> M4K_MAX_PFNS" unfolding e using ze(2) by (simp add: M4K_MAX_PFNS_def)
  show "0x4000 \<le> base_pfn z0" unfolding b using zs(4) by simp
  show "window zs ze r \<subseteq> {base_pfn z0..<base_pfn z0 + nr_pages z0}"
    unfolding e unfolding b window_def region_window_def Let_def
    by (auto simp: u32_pfn word_less_nat_alt not_less split: if_splits)
qed

section \<open>Properties\<close>

lemma memory_init_ok:
  assumes "heap_end \<le> 0x20000000" "s1 = add_regions mb s" "zs = zone_start_of heap_end" "ze = zone_end_of (total_mem s1) zs"
    "\<forall>i < length (mem_regions s1). \<forall>j < i. window zs ze (mem_regions s1 ! i) \<inter> window zs ze (mem_regions s1 ! j) = {}"
  shows "\<exists>L. binv (zone (mkrn_memory_init mb heap_end s)) L \<and>
    pages L = (\<Union>r \<in> set (mem_regions s1). window zs ze r) \<and>
    0x4000 \<le> base_pfn (zone (mkrn_memory_init mb heap_end s)) \<and>
    pages L \<subseteq> {unat zs div 4096..<unat ze div 4096} \<and> fully_merged L"
proof -
  define z0 where "z0 = empty_zone zs ze (zone s1)"
  note iz = init_zone_ok[OF assms(1,3,4) z0_def]
  have "binv z0 (\<lambda>_. [])" using empty_zone_inv[OF iz(3) z0_def] .
  from seed_regions_ok[OF this, of "mem_regions s1" zs ze] iz(5) assms(5)
  obtain L where L: "binv (seed_regions zs ze (mem_regions s1) z0) L" "pages L = (\<Union>r \<in> set (mem_regions s1). window zs ze r)"
    "same_zone z0 (seed_regions zs ze (mem_regions s1) z0)" "fully_merged L" by auto
  have "zone (mkrn_memory_init mb heap_end s) = seed_regions zs ze (mem_regions s1) z0"
    using assms(2-4) by (simp add: mkrn_memory_init_def Let_def z0_def)
  moreover have "pages L \<subseteq> {unat zs div 4096..<unat ze div 4096}" using L(2) iz(1,2,5) by auto
  ultimately show ?thesis using L iz(4) by (intro exI[of _ L]) (simp add: same_zone_def)
qed

text \<open>A machine with 127 MB of memory above 1 MB, for the witnesses.\<close>

definition boot_mb :: mb_info where
  "boot_mb = \<lparr>mb_has_mem = True, mb_has_mmap = True, mb_lower = 640, mb_upper = 0,
     mb_mmap = [(0, 0x9FC00, 1), (0x100000, 0x7F00000, 1)]\<rparr>"

definition mstate0 :: mstate where
  "mstate0 = \<lparr>zone = \<lparr>free_head = (\<lambda>_. 0), free_count = (\<lambda>_. 0), base_pfn = 0, nr_pages = 0, nr_free = 0,
      order_map = (\<lambda>_. 0), fp_next = (\<lambda>_. 0), fp_prev = (\<lambda>_. 0)\<rparr>,
     mem_regions = [], total_mem = 0, free_mem = 0, used_mem = 0\<rparr>"

lemma boot_regions:
  "mem_regions (add_regions boot_mb mstate0) =
     [\<lparr>rg_start = 0x3000000, rg_size = 0x1000000, rg_type = 2\<rparr>,
      \<lparr>rg_start = 0xC0000000, rg_size = 0x400000, rg_type = 2\<rparr>,
      \<lparr>rg_start = 0x100000, rg_size = 0x7F00000, rg_type = 1\<rparr>,
      \<lparr>rg_start = 0, rg_size = 0x9FC00, rg_type = 1\<rparr>]"
  "total_mem (add_regions boot_mb mstate0) = 0x939FC00"
  by (simp_all add: add_regions_def add_coarse_def boot_mb_def mstate0_def memory_add_region_def Let_def
    MAX_MEMORY_REGIONS_def M4K_MEM_TYPE_FREE_def M4K_MEM_TYPE_RESERVED_def)

lemma boot_zone:
  "zone_start_of 0x1000000 = 0x4000000" "zone_end_of 0x939FC00 0x4000000 = 0x939FC00"
  by (simp_all add: zone_start_of_def zone_end_of_def)

lemma boot_windows:
  "window 0x4000000 0x939FC00 \<lparr>rg_start = 0x3000000, rg_size = 0x1000000, rg_type = 2\<rparr> = {}"
  "window 0x4000000 0x939FC00 \<lparr>rg_start = 0xC0000000, rg_size = 0x400000, rg_type = 2\<rparr> = {}"
  "window 0x4000000 0x939FC00 \<lparr>rg_start = 0x100000, rg_size = 0x7F00000, rg_type = 1\<rparr> = {0x4000..<0x8000}"
  "window 0x4000000 0x939FC00 \<lparr>rg_start = 0, rg_size = 0x9FC00, rg_type = 1\<rparr> = {}"
  by (simp_all add: window_def region_window_def M4K_MEM_TYPE_FREE_def Let_def)

lemma boot_init_hyp:
  "i < length (mem_regions (add_regions boot_mb mstate0)) \<Longrightarrow> j < i \<Longrightarrow>
   window 0x4000000 0x939FC00 (mem_regions (add_regions boot_mb mstate0) ! i) \<inter>
   window 0x4000000 0x939FC00 (mem_regions (add_regions boot_mb mstate0) ! j) = {}"
proof -
  assume "i < length (mem_regions (add_regions boot_mb mstate0))" "j < i"
  then have "(i, j) \<in> {(1, 0), (2, 0), (2, 1), (3, 0), (3, 1), (3, 2)}" by (auto simp: boot_regions)
  then show ?thesis by (elim insertE emptyE) (simp_all add: boot_regions boot_windows)
qed

lemma boot_state:
  "\<exists>L. binv (zone (mkrn_memory_init boot_mb 0x1000000 mstate0)) L \<and> pages L = {0x4000..<0x8000} \<and>
     0 < base_pfn (zone (mkrn_memory_init boot_mb 0x1000000 mstate0)) \<and> fully_merged L"
proof -
  have "\<forall>i < length (mem_regions (add_regions boot_mb mstate0)). \<forall>j < i.
      window 0x4000000 0x939FC00 (mem_regions (add_regions boot_mb mstate0) ! i) \<inter>
      window 0x4000000 0x939FC00 (mem_regions (add_regions boot_mb mstate0) ! j) = {}"
    using boot_init_hyp by blast
  with memory_init_ok[OF _ refl refl refl, of "0x1000000" boot_mb mstate0]
  show ?thesis by (auto simp: boot_zone boot_regions boot_windows)
qed

text \<open>A small zone with one free block of order 4.\<close>

definition small_zone :: bzone where
  "small_zone = buddy_list_add 4 0x4010
     ((empty_zone 0x4000000 0x8000000 (zone mstate0))\<lparr>nr_free := 16\<rparr>)"

definition small_state :: mstate where
  "small_state = mstate0\<lparr>zone := small_zone\<rparr>"

lemma small_inv: "binv (zone small_state) ((\<lambda>_. [])(4 := [0x4010]))" "0 < base_pfn (zone small_state)"
proof -
  define z0 where "z0 = empty_zone 0x4000000 0x8000000 (zone mstate0)"
  have b: "base_pfn z0 = 0x4000" "nr_pages z0 = 0x4000" "nr_free z0 = 0" by (simp_all add: z0_def empty_zone_def)
  then have i: "binv z0 (\<lambda>_. [])" by (intro empty_zone_inv[OF _ z0_def]) (simp add: M4K_MAX_PFNS_def)
  have "placed z0 4 0x4010" by (simp add: placed_def b)
  from binv_add[OF i _ this] show "binv (zone small_state) ((\<lambda>_. [])(4 := [0x4010]))"
    by (simp add: small_state_def small_zone_def b flip: z0_def)
  show "0 < base_pfn (zone small_state)" by (simp add: small_state_def small_zone_def b flip: z0_def)
qed

lemma small_alloc: "\<exists>addr s'. allocate_pages 3 small_state = Some (addr, s') \<and> addr \<noteq> 0"
proof -
  have o2: "order_for 3 = 2" by (simp add: order_for_def order_loop.simps)
  have "\<not> (\<forall>i. order_for 3 \<le> i \<longrightarrow> i < 11 \<longrightarrow> ((\<lambda>_. [])(4 := [0x4010 :: nat])) i = [])"
    by (auto simp: o2 intro!: exI[of _ 4])
  from allocate_pages_ok[OF small_inv(1) _ _ small_inv(2), of 3, unfolded if_not_P[OF this]]
  obtain pfn s' where "allocate_pages 3 small_state = Some (push_bit 12 (of_nat pfn), s')"
    "placed (zone small_state) (order_for 3) pfn" by auto
  moreover have "0 < pfn" "pfn < M4K_MAX_PFNS"
    using placed_bounds[OF calculation(2)] small_inv by (auto simp: binv_def)
  ultimately show ?thesis using pfn_addr(1) by blast
qed

text \<open>C7. Page allocation: on a zone whose free lists satisfy the allocator
  invariant, a request for 1 to 1024 pages either fails with the state
  unchanged, exactly when every order from the requested one on is empty,
  or returns the address of a run of pages that were all free, aligned to
  the rounded-up power of two, and afterwards exactly those pages are no
  longer free and the invariant holds again; the splits leave no free block
  beside its free buddy when there was none before.\<close>

theorem allocate_pages_correct:
  assumes "binv (zone s) L" "0 < unat pgs" "unat pgs \<le> 1024" "0 < base_pfn (zone s)"
  shows "if \<forall>i. order_for pgs \<le> i \<longrightarrow> i < 11 \<longrightarrow> L i = [] then allocate_pages pgs s = Some (0, s)
    else \<exists>pfn s' L'. allocate_pages pgs s = Some (push_bit 12 (of_nat pfn), s') \<and> 2 ^ order_for pgs dvd pfn \<and>
        {pfn..<pfn + unat pgs} \<subseteq> pages L \<and> binv (zone s') L' \<and> pages L' = pages L - {pfn..<pfn + unat pgs} \<and>
        (fully_merged L \<longrightarrow> fully_merged L')"
proof (cases "\<forall>i. order_for pgs \<le> i \<longrightarrow> i < 11 \<longrightarrow> L i = []")
  case True
  then show ?thesis using allocate_pages_ok[OF assms] by simp
next
  case False
  from allocate_pages_ok[OF assms, unfolded if_not_P[OF this]] show ?thesis
    unfolding if_not_P[OF False] placed_def by blast
qed

theorem allocate_pages_correct_witness:
  "\<exists>pfn s' L'. allocate_pages 3 small_state = Some (push_bit 12 (of_nat pfn), s') \<and> 4 dvd pfn \<and>
     binv (zone s') L' \<and> pages L' = block 4 0x4010 - {pfn..<pfn + 3}"
proof -
  have o2: "order_for 3 = 2" by (simp add: order_for_def order_loop.simps)
  have ne: "\<not> (\<forall>i. order_for 3 \<le> i \<longrightarrow> i < 11 \<longrightarrow> ((\<lambda>_. [])(4 := [0x4010 :: nat])) i = [])"
    by (auto simp: o2 intro!: exI[of _ 4])
  have "pages ((\<lambda>_. [])(4 := [0x4010])) = block 4 0x4010"
    using pages_insert[of 4 "\<lambda>_. []"] by simp
  with allocate_pages_correct[OF small_inv(1) _ _ small_inv(2), of 3, unfolded if_not_P[OF ne]] o2 show ?thesis by auto
qed

text \<open>Freeing what an allocation returned gives back exactly the pages it
  took: the set of free pages is what it was before, whatever splits and
  merges happened in between, and the invariant holds.\<close>

theorem alloc_free_pages_roundtrip:
  assumes "binv (zone s) L" "0 < unat pgs" "unat pgs \<le> 1024" "0 < base_pfn (zone s)"
    "allocate_pages pgs s = Some (addr, s')" "addr \<noteq> 0"
  shows "\<exists>L'. binv (zone (free_pages addr pgs s')) L' \<and> pages L' = pages L"
proof -
  obtain pfn L1 where a: "addr = push_bit 12 (of_nat pfn)" "placed (zone s) (order_for pgs) pfn"
    "{pfn..<pfn + unat pgs} \<subseteq> pages L" "binv (zone s') L1" "pages L1 = pages L - {pfn..<pfn + unat pgs}"
    "same_zone (zone s) (zone s')" by (rule allocate_pages_success[OF assms])
  have "base_pfn (zone s') \<le> pfn" "pfn + unat pgs \<le> base_pfn (zone s') + nr_pages (zone s')" "0 < pfn"
    using a(2,6) assms(4) order_for_ok(3)[OF assms(2,3)] by (auto simp: placed_def same_zone_def)
  from free_pages_ok[OF a(4) this(3,1,2) assms(2)] a(1,3,5) show ?thesis by auto
qed

theorem alloc_free_pages_roundtrip_witness:
  "\<exists>addr s' L'. allocate_pages 3 small_state = Some (addr, s') \<and> addr \<noteq> 0 \<and>
     binv (zone (free_pages addr 3 s')) L' \<and> pages L' = block 4 0x4010"
proof -
  obtain addr s' where a: "allocate_pages 3 small_state = Some (addr, s')" "addr \<noteq> 0" using small_alloc by blast
  have "pages ((\<lambda>_. [])(4 := [0x4010])) = block 4 0x4010"
    using pages_insert[of 4 "\<lambda>_. []"] by simp
  with alloc_free_pages_roundtrip[OF small_inv(1) _ _ small_inv(2) a] a show ?thesis by auto
qed

text \<open>C8. The buddy system: freeing an aligned block of order \<open>k\<close> inside the zone
  whose pages are not free adds exactly its pages to the free set and keeps
  the invariant: blocks aligned, inside the zone and disjoint, every free
  list well linked in both directions and mirrored by the order map, and
  \<open>nr_free\<close> equal to the number of free pages. It merges: the freed pages end
  up inside one free block whose own buddy, below the top order, is not free,
  and if no free block stood beside its free buddy before, none does after.\<close>

theorem buddy_free_block_correct:
  assumes "binv z L" "k < 11" "placed z k p" "block k p \<inter> pages L = {}"
  shows "\<exists>L'. binv (buddy_free_block k p z) L' \<and> pages L' = pages L \<union> block k p \<and>
    nr_free (buddy_free_block k p z) = nr_free z + 2 ^ k \<and>
    (\<exists>j q. k \<le> j \<and> j < 11 \<and> q \<in> set (L' j) \<and> block k p \<subseteq> block j q \<and> (j < 10 \<longrightarrow> buddy_of q j \<notin> set (L' j))) \<and>
    (fully_merged L \<longrightarrow> fully_merged L')"
proof -
  obtain L' where L': "binv (buddy_free_block k p z) L'" "pages L' = pages L \<union> block k p"
    "\<exists>j q. k \<le> j \<and> j < 11 \<and> q \<in> set (L' j) \<and> block k p \<subseteq> block j q \<and> (j < 10 \<longrightarrow> buddy_of q j \<notin> set (L' j))"
    "fully_merged L \<longrightarrow> fully_merged L'"
    using free_block_ok[OF assms] by blast
  have "card (pages L \<union> block k p) = card (pages L) + 2 ^ k"
    using assms(4) finite_pages by (subst card_Un_disjoint) (auto simp: block_def)
  then show ?thesis using L' pages_card[OF L'(1)] pages_card[OF assms(1)] by auto
qed

text \<open>The witness frees the buddy of the free block of the small zone: the two
  become one free block of order 5.\<close>

theorem buddy_free_block_correct_witness:
  "\<exists>L'. binv (buddy_free_block 4 0x4000 small_zone) L' \<and> pages L' = block 4 0x4010 \<union> block 4 0x4000 \<and> fully_merged L'"
proof -
  have i: "binv small_zone ((\<lambda>_. [])(4 := [0x4010]))" using small_inv(1) by (simp add: small_state_def)
  have b: "base_pfn small_zone = 0x4000" "nr_pages small_zone = 0x4000" by (simp_all add: small_zone_def empty_zone_def)
  have p: "pages ((\<lambda>_. [])(4 := [0x4010])) = block 4 0x4010" using pages_insert[of 4 "\<lambda>_. []"] by simp
  have "fully_merged ((\<lambda>_. [])(4 := [0x4010]))" by (auto simp: fully_merged_def buddy_of_neq)
  moreover have "placed small_zone 4 0x4000" by (simp add: placed_def b)
  moreover have "block 4 0x4000 \<inter> block 4 0x4010 = {}" by (auto simp: block_def)
  ultimately show ?thesis using buddy_free_block_correct[OF i, of 4 "0x4000"] p by auto
qed

text \<open>Boot: with the kernel heap below 512 MB and free regions whose
  windows do not overlap, the initialised zone satisfies the invariant, its
  free pages are exactly the pages of the free regions inside the zone
  window, and no page below 64 MB (kernel image, heap, ramdisk and
  application window) is ever free.\<close>

theorem memory_init_correct:
  assumes "heap_end \<le> 0x20000000" "s1 = add_regions mb s" "zs = zone_start_of heap_end" "ze = zone_end_of (total_mem s1) zs"
    "\<forall>i < length (mem_regions s1). \<forall>j < i. window zs ze (mem_regions s1 ! i) \<inter> window zs ze (mem_regions s1 ! j) = {}"
  shows "\<exists>L. binv (zone (mkrn_memory_init mb heap_end s)) L \<and>
    pages L = (\<Union>r \<in> set (mem_regions s1). window zs ze r) \<and> (\<forall>p \<in> pages L. unat heap_end \<le> 4096 * p \<and> 0x4000 \<le> p)"
proof -
  obtain L where L: "binv (zone (mkrn_memory_init mb heap_end s)) L" "pages L = (\<Union>r \<in> set (mem_regions s1). window zs ze r)"
    "pages L \<subseteq> {unat zs div 4096..<unat ze div 4096}" using memory_init_ok[OF assms] by blast
  note zs = zone_start_ok[OF assms(1,3)]
  obtain q where q: "unat zs = 4096 * q" using zs(1) by (auto elim: dvdE)
  have "unat heap_end \<le> 4096 * p \<and> 0x4000 \<le> p" if "p \<in> pages L" for p
  proof -
    have "q \<le> p" using L(3) that q by auto
    then show ?thesis using zs(3,4) q by auto
  qed
  with L show ?thesis by blast
qed

theorem memory_init_correct_witness:
  "\<exists>L. binv (zone (mkrn_memory_init boot_mb 0x1000000 mstate0)) L \<and> pages L = {0x4000..<0x8000}"
proof -
  have "\<forall>i < length (mem_regions (add_regions boot_mb mstate0)). \<forall>j < i.
      window 0x4000000 0x939FC00 (mem_regions (add_regions boot_mb mstate0) ! i) \<inter>
      window 0x4000000 0x939FC00 (mem_regions (add_regions boot_mb mstate0) ! j) = {}"
    using boot_init_hyp by blast
  with memory_init_correct[OF _ refl refl refl, of "0x1000000" boot_mb mstate0]
  show ?thesis by (auto simp: boot_zone boot_regions boot_windows)
qed

text \<open>The counter drift of \<open>allocate_pages\<close>: a successful allocation of 3
  pages removes 3 pages from the buddy's free set but lowers the free-memory
  counter by only 2 pages, because the tail handed back to the buddy is added
  to a counter from which it was never subtracted; after the matching free
  the counter is one page above where it started.\<close>

theorem allocate_pages_counter_drift:
  assumes "binv (zone s) L" "0 < base_pfn (zone s)" "allocate_pages 3 s = Some (addr, s')" "addr \<noteq> 0"
  shows "nr_free (zone s) = nr_free (zone s') + 3 \<and> free_mem s' = free_mem s - 2 * M4K_PAGE_SIZE \<and>
    free_mem (free_pages addr 3 s') = free_mem s + M4K_PAGE_SIZE"
proof -
  have n: "0 < unat (3 :: u32)" "unat (3 :: u32) \<le> 1024" by simp_all
  have o2: "order_for 3 = 2" by (simp add: order_for_def order_loop.simps)
  obtain pfn L1 where a: "{pfn..<pfn + 3} \<subseteq> pages L" "binv (zone s') L1" "pages L1 = pages L - {pfn..<pfn + 3}"
    "free_mem s' = free_mem s + of_nat (2 ^ order_for 3 - 3) * M4K_PAGE_SIZE - 3 * M4K_PAGE_SIZE"
    by (rule allocate_pages_success[OF assms(1) n assms(2-4)]) simp
  have f: "free_mem s' = free_mem s - 2 * M4K_PAGE_SIZE" using a(4) o2 by (simp add: M4K_PAGE_SIZE_def)
  have "card {pfn..<pfn + 3} \<le> card (pages L)" using a(1) finite_pages by (rule card_mono[rotated])
  then have "card (pages L) = card (pages L1) + 3"
    unfolding a(3) using card_Diff_subset[OF _ a(1)] by simp
  then show ?thesis using pages_card[OF assms(1)] pages_card[OF a(2)] f
    by (simp add: free_pages_def M4K_PAGE_SIZE_def)
qed

theorem allocate_pages_counter_drift_witness:
  "\<exists>addr s'. allocate_pages 3 small_state = Some (addr, s') \<and>
     nr_free (zone small_state) = nr_free (zone s') + 3 \<and> free_mem s' = - 2 * M4K_PAGE_SIZE"
proof -
  obtain addr s' where a: "allocate_pages 3 small_state = Some (addr, s')" "addr \<noteq> 0" using small_alloc by blast
  from allocate_pages_counter_drift[OF small_inv a] a show ?thesis
    by (auto simp: small_state_def mstate0_def)
qed

text \<open>A range that ends below the zone makes the unsigned difference wrap: the
  loop then frees blocks of the zone that were never in the range.\<close>

lemma free_range_below_zone:
  "base_pfn z = 0x4000 \<Longrightarrow> nr_pages z = 0x4000 \<Longrightarrow>
   buddy_free_range 0 1 z = (let (a, z1) = free_run 10 0x4400 1 (buddy_free_block 10 0x4000 z) in free_orders 10 a 1 z1)"
proof -
  assume "base_pfn z = 0x4000" "nr_pages z = 0x4000"
  then have "buddy_free_range 0 1 z = free_orders (Suc 10) 0x4000 1 z"
    by (simp add: buddy_free_range_def M4K_BUDDY_MAX_ORDER_def add32_def del: free_orders.simps)
  moreover have "free_run 10 0x4000 1 z = free_run 10 0x4400 1 (buddy_free_block 10 0x4000 z)"
    by (subst free_run.simps) (simp add: sub32_def add32_def)
  ultimately show ?thesis by (simp only: free_orders.simps(2))
qed

end
