(* ===== verification/Heap.thy ===== *)
theory Heap
  imports PageAlloc Kstring "HOL-Library.Monad_Syntax"
begin

text \<open>
  The kernel heap of \<^verbatim>\<open>src/sys/src/mm/memory.c\<close> (\<open>mkrn_alloc\<close>, \<open>mkrn_free\<close>) and
  \<open>mkrn_strdup\<close>, which is built on it. Every block carries a 20-byte header in
  front of its data; headers form a doubly linked list. The headers are an
  explicit store indexed by address (\<open>hdr\<close>), the links are addresses and 0 is
  \<^verbatim>\<open>NULL\<close>; the two memory counters are those of the page allocator, whose state
  the record extends.
\<close>

section \<open>Blocks and the two operations\<close>

record mkrn_mem_block =
  mb_start :: u32
  mb_size :: u32
  mb_used :: u8
  mb_next :: u32
  mb_prev :: u32

record kheap = mstate +
  hdr :: "u32 \<Rightarrow> mkrn_mem_block"
  u32KernelHeapStart :: u32
  u32KernelHeapEnd :: u32
  pKernelHeapBlocks :: u32

definition SIZEOF_BLOCK :: u32 where "SIZEOF_BLOCK = 20"

abbreviation upd_hdr :: "u32 \<Rightarrow> (mkrn_mem_block \<Rightarrow> mkrn_mem_block) \<Rightarrow> kheap \<Rightarrow> kheap" where
  "upd_hdr a f s \<equiv> s\<lparr>hdr := (hdr s)(a := f (hdr s a))\<rparr>"

text \<open>\<open>if (p) p->prev = q\<close>.\<close>

definition set_prev :: "u32 \<Rightarrow> u32 \<Rightarrow> kheap \<Rightarrow> kheap" where
  "set_prev p q s = (if p \<noteq> 0 then upd_hdr p (mb_prev_update (\<lambda>_. q)) s else s)"

partial_function (option) first_fit :: "u32 \<Rightarrow> u32 \<Rightarrow> kheap \<Rightarrow> u32 option" where
  "first_fit sz p s =
     (if p = 0 then Some 0
      else if mb_used (hdr s p) = 0 \<and> mb_size (hdr s p) \<ge> sz then Some p
      else first_fit sz (mb_next (hdr s p)) s)"

definition split_block :: "u32 \<Rightarrow> u32 \<Rightarrow> kheap \<Rightarrow> kheap" where
  "split_block sz p s =
     (if mb_size (hdr s p) > sz + SIZEOF_BLOCK + 8
      then let b = hdr s p;
               n = p + SIZEOF_BLOCK + sz;
               s1 = upd_hdr n (\<lambda>_. \<lparr>mb_start = mb_start b + SIZEOF_BLOCK + sz,
                                    mb_size = mb_size b - SIZEOF_BLOCK - sz,
                                    mb_used = 0, mb_next = mb_next b, mb_prev = p\<rparr>) s;
               s2 = set_prev (mb_next b) n s1
           in upd_hdr p (\<lambda>r. r\<lparr>mb_size := sz, mb_next := n\<rparr>) s2
      else s)"

definition take_block :: "u32 \<Rightarrow> u32 \<Rightarrow> kheap \<Rightarrow> kheap" where
  "take_block sz p s =
     (let s1 = upd_hdr p (mb_used_update (\<lambda>_. 1)) (split_block sz p s)
      in s1\<lparr>used_mem := used_mem s1 + sz, free_mem := free_mem s1 - sz\<rparr>)"

definition carve_block :: "u32 \<Rightarrow> kheap \<Rightarrow> u32 \<times> kheap" where
  "carve_block sz s =
     (if u32KernelHeapStart s + SIZEOF_BLOCK + sz \<le> u32KernelHeapEnd s
      then let p = u32KernelHeapStart s;
               s1 = upd_hdr p (\<lambda>_. \<lparr>mb_start = p + SIZEOF_BLOCK, mb_size = sz, mb_used = 1,
                                    mb_next = pKernelHeapBlocks s, mb_prev = 0\<rparr>) s;
               s2 = set_prev (pKernelHeapBlocks s) p s1
           in (p + SIZEOF_BLOCK,
               s2\<lparr>pKernelHeapBlocks := p, u32KernelHeapStart := p + (SIZEOF_BLOCK + sz),
                  used_mem := used_mem s2 + sz, free_mem := free_mem s2 - sz\<rparr>)
      else (0, s))"

definition mkrn_alloc :: "u32 \<Rightarrow> kheap \<Rightarrow> (u32 \<times> kheap) option" where
  "mkrn_alloc sz0 s =
     (if sz0 = 0 then Some (0, s)
      else let sz = (sz0 + 7) AND NOT 7 in
        case first_fit sz (pKernelHeapBlocks s) s of
          None \<Rightarrow> None
        | Some p \<Rightarrow> if p \<noteq> 0 then Some (p + SIZEOF_BLOCK, take_block sz p s) else Some (carve_block sz s))"

partial_function (option) find_used :: "u32 \<Rightarrow> u32 \<Rightarrow> kheap \<Rightarrow> u32 option" where
  "find_used ptr p s =
     (if p = 0 then Some 0
      else if mb_start (hdr s p) = ptr \<and> mb_used (hdr s p) \<noteq> 0 then Some p
      else find_used ptr (mb_next (hdr s p)) s)"

text \<open>The body both merges share: block \<open>a\<close> swallows the block \<open>b\<close> behind it in the list.\<close>

definition absorb :: "u32 \<Rightarrow> u32 \<Rightarrow> kheap \<Rightarrow> kheap" where
  "absorb a b s =
     (let s1 = upd_hdr a (\<lambda>r. r\<lparr>mb_size := mb_size r + (SIZEOF_BLOCK + mb_size (hdr s b)),
                                mb_next := mb_next (hdr s b)\<rparr>) s
      in set_prev (mb_next (hdr s1 a)) a s1)"

partial_function (option) merge_right :: "u32 \<Rightarrow> kheap \<Rightarrow> kheap option" where
  "merge_right p s =
     (let n = mb_next (hdr s p) in
      if n \<noteq> 0 \<and> mb_used (hdr s n) = 0 then merge_right p (absorb p n s) else Some s)"

definition merge_left :: "u32 \<Rightarrow> kheap \<Rightarrow> kheap" where
  "merge_left p s =
     (let q = mb_prev (hdr s p) in
      if q \<noteq> 0 \<and> mb_used (hdr s q) = 0 then absorb q p s else s)"

definition mkrn_free :: "u32 \<Rightarrow> kheap \<Rightarrow> kheap option" where
  "mkrn_free ptr s =
     (if ptr = 0 then Some s
      else let p0 = ptr - SIZEOF_BLOCK;
               p1 = (if mb_start (hdr s p0) \<noteq> ptr \<or> mb_used (hdr s p0) = 0 then pKernelHeapBlocks s else p0)
      in do {
        p \<leftarrow> find_used ptr p1 s;
        if p = 0 then Some s
        else let s1 = upd_hdr p (mb_used_update (\<lambda>_. 0)) s;
                 s2 = s1\<lparr>used_mem := used_mem s1 - mb_size (hdr s1 p), free_mem := free_mem s1 + mb_size (hdr s1 p)\<rparr>
          in do {
            s3 \<leftarrow> merge_right p s2;
            Some (merge_left p s3)
          }
      })"

definition mkrn_memory_alloc :: "u32 \<Rightarrow> kheap \<Rightarrow> (u32 \<times> kheap) option" where
  "mkrn_memory_alloc sz s = mkrn_alloc sz s"

definition mkrn_memory_free :: "u32 \<Rightarrow> kheap \<Rightarrow> kheap option" where
  "mkrn_memory_free ptr s = mkrn_free ptr s"

text \<open>\<open>mkrn_strdup\<close> on the byte memory and the heap together.\<close>

definition mkrn_strdup :: "u32 \<Rightarrow> mem \<Rightarrow> kheap \<Rightarrow> (u32 \<times> mem \<times> kheap) option" where
  "mkrn_strdup pS m s =
     (if pS = 0 then Some (0, m, s)
      else do {
        l \<leftarrow> mkrn_strlen pS m;
        (p, s1) \<leftarrow> mkrn_alloc (l + 1) s;
        Some (p, if p \<noteq> 0 then mkrn_memcpy p pS (l + 1) m else m, s1)
      })"


section \<open>The block list\<close>

text \<open>\<open>hseg h q p xs r\<close>: following the links from \<open>p\<close>, whose predecessor is \<open>q\<close>, visits
  the headers \<open>xs\<close> and arrives at \<open>r\<close>; every back link is right.\<close>

fun hseg :: "(u32 \<Rightarrow> mkrn_mem_block) \<Rightarrow> u32 \<Rightarrow> u32 \<Rightarrow> u32 list \<Rightarrow> u32 \<Rightarrow> bool" where
  "hseg h q p [] r = (p = r)"
| "hseg h q p (a # as) r = (p = a \<and> a \<noteq> 0 \<and> mb_prev (h a) = q \<and> hseg h a (mb_next (h a)) as r)"

abbreviation is_free :: "(u32 \<Rightarrow> mkrn_mem_block) \<Rightarrow> u32 \<Rightarrow> bool" where
  "is_free h a \<equiv> mb_used (h a) = 0"

definition block_end :: "(u32 \<Rightarrow> mkrn_mem_block) \<Rightarrow> u32 \<Rightarrow> nat" where
  "block_end h a = unat a + 20 + unat (mb_size (h a))"

definition apart :: "(u32 \<Rightarrow> mkrn_mem_block) \<Rightarrow> u32 \<Rightarrow> u32 \<Rightarrow> bool" where
  "apart h a b = (block_end h a \<le> unat b \<or> block_end h b \<le> unat a)"

definition heap_wf :: "kheap \<Rightarrow> u32 list \<Rightarrow> bool" where
  "heap_wf s bs \<longleftrightarrow>
     hseg (hdr s) 0 (pKernelHeapBlocks s) bs 0 \<and>
     sorted_wrt (apart (hdr s)) bs \<and>
     (\<forall>a\<in>set bs. mb_start (hdr s a) = a + SIZEOF_BLOCK \<and> block_end (hdr s) a \<le> unat (u32KernelHeapStart s)) \<and>
     u32KernelHeapStart s \<noteq> 0 \<and> u32KernelHeapStart s \<le> u32KernelHeapEnd s"

definition coalesced :: "(u32 \<Rightarrow> mkrn_mem_block) \<Rightarrow> u32 list \<Rightarrow> bool" where
  "coalesced h = successively (\<lambda>a b. \<not> (is_free h a \<and> is_free h b))"

definition heap_ok :: "kheap \<Rightarrow> u32 list \<Rightarrow> bool" where
  "heap_ok s bs \<longleftrightarrow> heap_wf s bs \<and> coalesced (hdr s) bs"

text \<open>What the clients hold: the data pointers handed out, with their sizes.\<close>

definition live :: "kheap \<Rightarrow> u32 list \<Rightarrow> (u32 \<times> u32) set" where
  "live s bs = (\<lambda>a. (a + SIZEOF_BLOCK, mb_size (hdr s a))) ` {a \<in> set bs. \<not> is_free (hdr s) a}"

lemma hseg_append: "hseg h q p (xs @ ys) r \<longleftrightarrow> (\<exists>m. hseg h q p xs m \<and> hseg h (last (q # xs)) m ys r)"
  by (induction xs arbitrary: q p) auto

lemma hseg_cong:
  "(\<And>a. a \<in> set xs \<Longrightarrow> mb_next (h' a) = mb_next (h a) \<and> mb_prev (h' a) = mb_prev (h a)) \<Longrightarrow>
   hseg h' q p xs r = hseg h q p xs r"
  by (induction xs arbitrary: q p) auto

lemma hseg_relink:
  assumes "hseg h q m ys 0" and "m \<noteq> 0 \<Longrightarrow> mb_prev (h' m) = q' \<and> mb_next (h' m) = mb_next (h m)"
    and "\<And>a. a \<in> set ys \<Longrightarrow> a \<noteq> m \<Longrightarrow> h' a = h a" and "distinct ys"
  shows "hseg h' q' m ys 0"
proof (cases ys)
  case (Cons a as)
  then have "h' b = h b" if "b \<in> set as" for b using that assms(1,4) assms(3)[of b] by auto
  then have "hseg h' a (mb_next (h a)) as 0 = hseg h a (mb_next (h a)) as 0"
    by (intro hseg_cong) simp
  then show ?thesis using assms Cons by auto
qed (use assms in simp)

lemma hseg_nonnull: "hseg h q p xs r \<Longrightarrow> a \<in> set xs \<Longrightarrow> a \<noteq> 0"
  by (induction xs arbitrary: q p) auto

lemma hseg_head: "hseg h q p xs 0 \<Longrightarrow> p \<noteq> 0 \<Longrightarrow> p \<in> set xs"
  by (cases xs) auto

lemma apart_distinct: "sorted_wrt (apart h) xs \<Longrightarrow> distinct xs"
  by (induction xs) (auto simp: apart_def block_end_def)

lemma apart_sym: "apart h a b = apart h b a"
  by (auto simp: apart_def)

lemma apart_cong:
  "(\<And>c. c \<in> set zs \<Longrightarrow> block_end h' c = block_end h c) \<Longrightarrow> sorted_wrt (apart h') zs = sorted_wrt (apart h) zs"
  by (induction zs) (simp_all add: apart_def)

lemma heap_wf_block:
  assumes "heap_wf s (xs @ a # ys)"
  shows "a \<noteq> 0" "mb_prev (hdr s a) = last (0 # xs)" "hseg (hdr s) 0 (pKernelHeapBlocks s) xs a"
    "hseg (hdr s) a (mb_next (hdr s a)) ys 0" "block_end (hdr s) a \<le> unat (u32KernelHeapStart s)"
    "mb_start (hdr s a) = a + SIZEOF_BLOCK" "distinct (xs @ a # ys)"
  using assms apart_distinct[of "hdr s" "xs @ a # ys"] by (auto simp: heap_wf_def hseg_append)

lemma u32_bound: "unat (x :: u32) < 4294967296"
  using unsigned_less[of x, where ?'a = nat] by simp

lemmas heap_start_bound = u32_bound[of "u32KernelHeapStart s" for s]


section \<open>Merging two neighbours\<close>

lemma hdr_absorb:
  "hdr (absorb a b s) c =
     (let r = (if c = a then (hdr s a)\<lparr>mb_size := mb_size (hdr s a) + (20 + mb_size (hdr s b)), mb_next := mb_next (hdr s b)\<rparr>
               else hdr s c)
      in if c = mb_next (hdr s b) \<and> c \<noteq> 0 then r\<lparr>mb_prev := a\<rparr> else r)"
  by (simp add: absorb_def set_prev_def Let_def SIZEOF_BLOCK_def)

lemma absorb_frame [simp]:
  "pKernelHeapBlocks (absorb a b s) = pKernelHeapBlocks s" "u32KernelHeapStart (absorb a b s) = u32KernelHeapStart s"
  "u32KernelHeapEnd (absorb a b s) = u32KernelHeapEnd s" "mb_used (hdr (absorb a b s) c) = mb_used (hdr s c)"
  "mb_start (hdr (absorb a b s) c) = mb_start (hdr s c)"
  by (simp_all add: absorb_def set_prev_def Let_def)

lemma absorb_size: "c \<noteq> a \<Longrightarrow> mb_size (hdr (absorb a b s) c) = mb_size (hdr s c)"
  by (simp add: hdr_absorb Let_def)

lemma absorb_end:
  assumes "heap_wf s bs" "b \<in> set bs" "unat b = block_end (hdr s) a"
  shows "block_end (hdr (absorb a b s)) a = block_end (hdr s) b"
proof -
  have "block_end (hdr s) b \<le> unat (u32KernelHeapStart s)" using assms by (simp add: heap_wf_def)
  then have "unat a + 20 + unat (mb_size (hdr s a)) + 20 + unat (mb_size (hdr s b)) < 4294967296"
    using assms(3) heap_start_bound[of s] unfolding block_end_def by linarith
  then have "unat (mb_size (hdr s a) + (20 + mb_size (hdr s b))) = unat (mb_size (hdr s a)) + (20 + unat (mb_size (hdr s b)))"
    by (simp add: unat_word_ariths)
  then show ?thesis using assms(3) by (auto simp: block_end_def hdr_absorb Let_def)
qed

lemma absorb_seg:
  assumes wf: "heap_wf s (xs @ a # b # ys)"
  shows "hseg (hdr (absorb a b s)) 0 (pKernelHeapBlocks s) (xs @ a # ys) 0"
proof -
  let ?h = "hdr s" and ?h' = "hdr (absorb a b s)"
  let ?m = "mb_next (?h b)"
  note A = heap_wf_block[OF wf]
  have B: "hseg ?h b ?m ys 0" "mb_next (?h a) = b" using A(4) by auto
  have m: "?m = 0 \<or> ?m \<in> set ys" using hseg_head[OF B(1)] by blast
  have "hseg ?h' 0 (pKernelHeapBlocks s) xs a"
    using A(3) A(7) m by (subst hseg_cong[where h = ?h]) (auto simp: hdr_absorb Let_def)
  moreover have "mb_prev (?h' a) = last (0 # xs)" "mb_next (?h' a) = ?m"
    using A(1,2,7) m by (auto simp: hdr_absorb Let_def)
  moreover have "hseg ?h' a ?m ys 0"
    using B(1) A(7) m by (rule_tac hseg_relink[where h = ?h and q = b]) (auto simp: hdr_absorb Let_def)
  ultimately show ?thesis using A(1) by (auto simp: hseg_append)
qed

lemma absorb_block_end: "c \<noteq> a \<Longrightarrow> block_end (hdr (absorb a b s)) c = block_end (hdr s) c"
  by (simp add: block_end_def absorb_size)

lemma absorb_wf:
  assumes wf: "heap_wf s (xs @ a # b # ys)" and adj: "unat b = block_end (hdr s) a"
  shows "heap_wf (absorb a b s) (xs @ a # ys)"
proof -
  let ?h = "hdr s" and ?h' = "hdr (absorb a b s)"
  note A = heap_wf_block[OF wf]
  have e: "block_end ?h' a = block_end ?h b" by (rule absorb_end[OF wf _ adj]) simp
  have e': "block_end ?h' c = block_end ?h c" if "c \<in> set xs \<union> set ys" for c
    using that A(7) by (intro absorb_block_end) auto
  have "apart ?h a c" "apart ?h b c" if "c \<in> set xs \<union> set ys" for c
    using that wf unfolding heap_wf_def sorted_wrt_append apart_def by auto
  then have ap: "apart ?h' a c" if "c \<in> set xs \<union> set ys" for c
    using that adj unfolding apart_def e e'[OF that] by (force simp: block_end_def)
  have "sorted_wrt (apart ?h') (xs @ ys)"
    using wf e' by (subst apart_cong[where h = ?h]) (auto simp: heap_wf_def sorted_wrt_append)
  then have "sorted_wrt (apart ?h') (xs @ a # ys)"
    using ap unfolding sorted_wrt_append apart_def by auto
  moreover have "\<forall>c\<in>set (xs @ a # ys). block_end ?h' c \<le> unat (u32KernelHeapStart s)"
    using wf e e' by (auto simp: heap_wf_def)
  ultimately show ?thesis using absorb_seg[OF wf] wf by (auto simp: heap_wf_def)
qed

lemma absorb_live:
  assumes "distinct (xs @ a # b # ys)" "is_free (hdr s) a" "is_free (hdr s) b"
  shows "live (absorb a b s) (xs @ a # ys) = live s (xs @ a # b # ys)"
proof -
  have "{c \<in> set (xs @ a # ys). \<not> is_free (hdr s) c} = {c \<in> set (xs @ a # b # ys). \<not> is_free (hdr s) c}"
    using assms by auto
  moreover have "mb_size (hdr (absorb a b s) c) = mb_size (hdr s c)" if "\<not> is_free (hdr s) c" for c
    using that assms by (intro absorb_size) auto
  ultimately show ?thesis by (auto simp: live_def)
qed

lemma coalesced_absorb: "coalesced (hdr (absorb a b s)) = coalesced (hdr s)"
  by (simp add: coalesced_def)


section \<open>Allocation\<close>

lemma round8:
  fixes w :: u32
  assumes "unat w + 7 < 4294967296"
  shows "unat w \<le> unat ((w + 7) AND NOT 7)" "unat ((w + 7) AND NOT 7) \<le> unat w + 7"
proof -
  have u: "unat (w + 7) = unat w + 7" using assms by (simp add: unat_word_ariths)
  have "(w + 7) AND NOT 7 = (w + 7) AND NOT (mask 3)" by (simp add: mask_eq_decr_exp)
  also have "\<dots> = push_bit 3 (drop_bit 3 (w + 7))" by (rule bit_word_eqI) (auto simp: bit_simps)
  finally have "unat ((w + 7) AND NOT 7) = unat (push_bit 3 (drop_bit 3 (w + 7)))" by (rule arg_cong)
  also have "\<dots> = take_bit 32 (push_bit 3 (drop_bit 3 (unat w + 7)))"
    by (simp only: unsigned_push_bit_eq unsigned_drop_bit_eq u) (use assms in \<open>simp add: take_bit_nat_eq_self\<close>)
  also have "\<dots> = 8 * ((unat w + 7) div 8)"
    using assms by (simp add: push_bit_eq_mult drop_bit_eq_div take_bit_eq_mod)
  finally show "unat w \<le> unat ((w + 7) AND NOT 7)" "unat ((w + 7) AND NOT 7) \<le> unat w + 7" by presburger+
qed

lemma first_fit_seg:
  "hseg (hdr s) q p bs 0 \<Longrightarrow>
     \<exists>a. first_fit sz p s = Some a \<and>
       (if a = 0 then \<forall>b\<in>set bs. is_free (hdr s) b \<longrightarrow> mb_size (hdr s b) < sz
        else a \<in> set bs \<and> is_free (hdr s) a \<and> sz \<le> mb_size (hdr s a))"
proof (induction bs arbitrary: q p)
  case Nil
  then show ?case by (simp add: first_fit.simps)
next
  case (Cons b bs)
  then have p: "p = b" "b \<noteq> 0" by simp_all
  show ?case
  proof (cases "is_free (hdr s) b \<and> sz \<le> mb_size (hdr s b)")
    case True
    then show ?thesis using p by (simp add: first_fit.simps)
  next
    case False
    obtain a where "first_fit sz (mb_next (hdr s b)) s = Some a"
      "if a = 0 then \<forall>b\<in>set bs. is_free (hdr s) b \<longrightarrow> mb_size (hdr s b) < sz
       else a \<in> set bs \<and> is_free (hdr s) a \<and> sz \<le> mb_size (hdr s a)"
      using Cons.IH[of b "mb_next (hdr s b)"] Cons.prems by auto
    then show ?thesis using False p by (subst first_fit.simps) (auto split: if_splits)
  qed
qed

text \<open>Taking a block without splitting it only marks it as used.\<close>

lemma coalesced_Nil [simp]: "coalesced h []"
  by (simp add: coalesced_def)

lemma coalesced_append:
  "coalesced h (xs @ p # ys) \<longleftrightarrow>
     coalesced h xs \<and> coalesced h ys \<and> (xs \<noteq> [] \<longrightarrow> \<not> (is_free h (last xs) \<and> is_free h p)) \<and>
     (ys \<noteq> [] \<longrightarrow> \<not> (is_free h p \<and> is_free h (hd ys)))"
  by (auto simp: coalesced_def successively_append_iff successively_Cons)

lemma coalesced_cong:
  "(\<And>c. c \<in> set zs \<Longrightarrow> mb_used (h' c) = mb_used (h c)) \<Longrightarrow> coalesced h' zs = coalesced h zs"
  unfolding coalesced_def by (rule successively_cong) auto

lemma coalesced_mono:
  "coalesced h zs \<Longrightarrow> (\<And>c. c \<in> set zs \<Longrightarrow> is_free h' c \<Longrightarrow> is_free h c) \<Longrightarrow> coalesced h' zs"
  unfolding coalesced_def by (erule successively_mono) auto

lemma mark_wf:
  assumes "heap_wf s bs"
  shows "heap_wf (upd_hdr p (mb_used_update (\<lambda>_. v)) s) bs"
proof -
  let ?h = "hdr s" and ?h' = "(hdr s)(p := (hdr s p)\<lparr>mb_used := v\<rparr>)"
  have "hseg ?h' 0 (pKernelHeapBlocks s) bs 0 = hseg ?h 0 (pKernelHeapBlocks s) bs 0"
    by (intro hseg_cong) simp
  moreover have e: "block_end ?h' c = block_end ?h c" for c by (simp add: block_end_def)
  then have "apart ?h' = apart ?h" by (simp add: apart_def fun_eq_iff)
  ultimately show ?thesis using assms by (auto simp: heap_wf_def block_end_def)
qed

lemma heap_wf_counters [simp]:
  "heap_wf (s\<lparr>used_mem := u, free_mem := f\<rparr>) bs = heap_wf s bs" "live (s\<lparr>used_mem := u, free_mem := f\<rparr>) bs = live s bs"
  by (simp_all add: heap_wf_def live_def)

lemma take_whole:
  assumes ok: "heap_ok s (xs @ p # ys)" and small: "\<not> mb_size (hdr s p) > sz + SIZEOF_BLOCK + 8"
  shows "heap_ok (take_block sz p s) (xs @ p # ys) \<and>
         live (take_block sz p s) (xs @ p # ys) = insert (p + SIZEOF_BLOCK, mb_size (hdr s p)) (live s (xs @ p # ys))"
proof -
  have s1: "split_block sz p s = s" using small by (simp add: split_block_def)
  have d: "distinct (xs @ p # ys)" using ok heap_wf_block(7)[of s xs p ys] by (simp add: heap_ok_def)
  have "coalesced (hdr (upd_hdr p (mb_used_update (\<lambda>_. 1)) s)) (xs @ p # ys)"
    by (rule coalesced_mono[where h = "hdr s"]) (use ok in \<open>auto simp: heap_ok_def split: if_splits\<close>)
  then have "heap_ok (take_block sz p s) (xs @ p # ys)"
    using ok mark_wf by (simp add: take_block_def s1 heap_ok_def Let_def)
  moreover have "live (take_block sz p s) (xs @ p # ys) = insert (p + SIZEOF_BLOCK, mb_size (hdr s p)) (live s (xs @ p # ys))"
    using d by (auto simp: take_block_def s1 live_def Let_def)
  ultimately show ?thesis ..
qed

text \<open>Splitting a block inserts the header of the remainder behind it.\<close>

definition rest_of :: "u32 \<Rightarrow> u32 \<Rightarrow> u32" where
  "rest_of sz p = p + SIZEOF_BLOCK + sz"

lemma take_split_hdr:
  assumes big: "mb_size (hdr s p) > sz + SIZEOF_BLOCK + 8" and n: "n = rest_of sz p" "n \<noteq> p"
    and m: "m = mb_next (hdr s p)" "m \<noteq> p" "m \<noteq> n"
  shows "hdr (take_block sz p s) c =
     (if c = p then (hdr s p)\<lparr>mb_size := sz, mb_next := n, mb_used := 1\<rparr>
      else if c = n then \<lparr>mb_start = mb_start (hdr s p) + SIZEOF_BLOCK + sz, mb_size = mb_size (hdr s p) - SIZEOF_BLOCK - sz,
                          mb_used = 0, mb_next = m, mb_prev = p\<rparr>
      else if c = m \<and> m \<noteq> 0 then (hdr s m)\<lparr>mb_prev := n\<rparr> else hdr s c)"
  using assms by (simp add: take_block_def split_block_def set_prev_def Let_def rest_of_def)

lemma take_block_frame [simp]:
  "pKernelHeapBlocks (take_block sz p s) = pKernelHeapBlocks s"
  "u32KernelHeapStart (take_block sz p s) = u32KernelHeapStart s"
  "u32KernelHeapEnd (take_block sz p s) = u32KernelHeapEnd s"
  by (simp_all add: take_block_def split_block_def set_prev_def Let_def)

lemma rest_facts:
  assumes wf: "heap_wf s (xs @ p # ys)" and big: "mb_size (hdr s p) > sz + SIZEOF_BLOCK + 8"
    and nw: "unat sz + 28 < 4294967296"
  shows "unat (rest_of sz p) = unat p + 20 + unat sz" "rest_of sz p \<notin> set (xs @ p # ys)" "rest_of sz p \<noteq> 0"
    "unat (mb_size (hdr s p) - SIZEOF_BLOCK - sz) + 20 + unat sz = unat (mb_size (hdr s p))"
proof -
  have b: "unat sz + 28 < unat (mb_size (hdr s p))"
    using big nw by (simp add: SIZEOF_BLOCK_def word_less_nat_alt unat_word_ariths)
  have e: "unat p + 20 + unat (mb_size (hdr s p)) < 4294967296"
    using heap_wf_block(5)[OF wf] heap_start_bound[of s] by (simp add: block_end_def)
  then show u: "unat (rest_of sz p) = unat p + 20 + unat sz"
    using b by (simp add: rest_of_def SIZEOF_BLOCK_def unat_word_ariths)
  then show "rest_of sz p \<noteq> 0" by auto
  have "apart (hdr s) c p \<or> c = p" if "c \<in> set (xs @ p # ys)" for c
    using that wf unfolding heap_wf_def sorted_wrt_append apart_def by auto
  then show "rest_of sz p \<notin> set (xs @ p # ys)"
    using u b by (force simp: apart_def block_end_def)
  show "unat (mb_size (hdr s p) - SIZEOF_BLOCK - sz) + 20 + unat sz = unat (mb_size (hdr s p))"
    using b by (simp add: SIZEOF_BLOCK_def unat_sub word_le_nat_alt)
qed

lemma take_split:
  assumes ok: "heap_ok s (xs @ p # ys)" and fr: "is_free (hdr s) p"
    and big: "mb_size (hdr s p) > sz + SIZEOF_BLOCK + 8" and nw: "unat sz + 28 < 4294967296"
  shows "heap_ok (take_block sz p s) (xs @ p # rest_of sz p # ys) \<and>
         live (take_block sz p s) (xs @ p # rest_of sz p # ys) = insert (p + SIZEOF_BLOCK, sz) (live s (xs @ p # ys))"
proof -
  let ?n = "rest_of sz p" and ?m = "mb_next (hdr s p)" and ?h = "hdr s" and ?h' = "hdr (take_block sz p s)"
  have wf: "heap_wf s (xs @ p # ys)" using ok by (simp add: heap_ok_def)
  note A = heap_wf_block[OF wf] and R = rest_facts[OF wf big nw]
  have m: "?m = 0 \<or> ?m \<in> set ys" using hseg_head[OF A(4)] by blast
  have mn: "?n \<noteq> p" "?m \<noteq> p" "?m \<noteq> ?n" using m A R by auto
  note H = take_split_hdr[OF big refl mn(1) refl mn(2,3)]
  have e: "block_end ?h' c = block_end ?h c" if "c \<in> set xs \<union> set ys" for c
    using that A(7) R(2) by (auto simp: H block_end_def)
  have ep: "block_end ?h' p = unat ?n" "block_end ?h' ?n = block_end ?h p"
    using R(1,4) mn by (simp_all add: H block_end_def)
  have "hseg ?h' 0 (pKernelHeapBlocks s) xs p"
    using A(3,7) m R(2) by (subst hseg_cong[where h = ?h]) (auto simp: H)
  moreover have "hseg ?h' ?n ?m ys 0"
    using A(4,7) m R(2) by (rule_tac hseg_relink[where h = ?h and q = p]) (auto simp: H)
  ultimately have sg: "hseg ?h' 0 (pKernelHeapBlocks s) (xs @ p # ?n # ys) 0"
    using A(1,2) R(3) mn by (auto simp: hseg_append H)
  have "apart ?h c p" if "c \<in> set xs \<union> set ys" for c
    using that wf unfolding heap_wf_def sorted_wrt_append apart_def by auto
  then have ap: "apart ?h' c p" "apart ?h' c ?n" if "c \<in> set xs \<union> set ys" for c
    using that ep R(1,4) unfolding apart_def e[OF that] ep by (force simp: block_end_def)+
  have "sorted_wrt (apart ?h') (xs @ ys)"
    using wf e by (subst apart_cong[where h = ?h]) (auto simp: heap_wf_def sorted_wrt_append)
  moreover have "apart ?h' p ?n" by (simp add: apart_def ep)
  ultimately have so: "sorted_wrt (apart ?h') (xs @ p # ?n # ys)"
    using ap unfolding sorted_wrt_append apart_def by auto
  have st: "\<forall>c\<in>set (xs @ p # ?n # ys). mb_start (?h' c) = c + SIZEOF_BLOCK \<and> block_end ?h' c \<le> unat (u32KernelHeapStart s)"
    using wf e ep A(5,6,7) R(1,2,4) by (auto simp: H heap_wf_def rest_of_def algebra_simps block_end_def)
  have U: "mb_used (?h' c) = (if c = p then 1 else if c = ?n then 0 else mb_used (?h c))" for c by (simp add: H)
  have "coalesced ?h' xs = coalesced ?h xs" "coalesced ?h' ys = coalesced ?h ys"
    using A(7) R(2) by (auto simp: U intro!: coalesced_cong)
  moreover have "ys \<noteq> [] \<Longrightarrow> hd ys \<noteq> ?n" using R(2) by (cases ys) auto
  ultimately have "coalesced ?h' (xs @ p # ?n # ys)"
    using ok fr R(2) coalesced_append[of ?h' "[]" ?n ys]
    by (auto simp: heap_ok_def coalesced_append U split: if_splits)
  moreover have "live (take_block sz p s) (xs @ p # ?n # ys) = insert (p + SIZEOF_BLOCK, sz) (live s (xs @ p # ys))"
    using fr A(7) R(2) mn by (auto simp: live_def H image_iff)
  ultimately show ?thesis using sg so st wf by (auto simp: heap_ok_def heap_wf_def)
qed

text \<open>When no block fits, a new one is carved off the unused heap and put in front.\<close>

lemma carve_ok:
  assumes ok: "heap_ok s bs" and room: "u32KernelHeapStart s + SIZEOF_BLOCK + sz \<le> u32KernelHeapEnd s"
    and nw: "unat sz + 20 + unat (u32KernelHeapEnd s) < 4294967296"
  shows "\<exists>s'. carve_block sz s = (u32KernelHeapStart s + SIZEOF_BLOCK, s') \<and>
           heap_ok s' (u32KernelHeapStart s # bs) \<and>
           live s' (u32KernelHeapStart s # bs) = insert (u32KernelHeapStart s + SIZEOF_BLOCK, sz) (live s bs)"
proof -
  let ?p = "u32KernelHeapStart s" and ?m = "pKernelHeapBlocks s" and ?h = "hdr s"
  obtain s' where c: "carve_block sz s = (?p + SIZEOF_BLOCK, s')" and
    h': "hdr s' = (if ?m \<noteq> 0 then (?h(?p := \<lparr>mb_start = ?p + SIZEOF_BLOCK, mb_size = sz, mb_used = 1, mb_next = ?m, mb_prev = 0\<rparr>))
            (?m := (?h(?p := \<lparr>mb_start = ?p + SIZEOF_BLOCK, mb_size = sz, mb_used = 1, mb_next = ?m, mb_prev = 0\<rparr>)) ?m\<lparr>mb_prev := ?p\<rparr>)
           else ?h(?p := \<lparr>mb_start = ?p + SIZEOF_BLOCK, mb_size = sz, mb_used = 1, mb_next = ?m, mb_prev = 0\<rparr>))"
    and f: "pKernelHeapBlocks s' = ?p" "u32KernelHeapStart s' = ?p + (SIZEOF_BLOCK + sz)" "u32KernelHeapEnd s' = u32KernelHeapEnd s"
    using room by (simp add: carve_block_def set_prev_def Let_def)
  have wf: "heap_wf s bs" using ok by (simp add: heap_ok_def)
  then have sg: "hseg ?h 0 ?m bs 0" and d: "distinct bs" and
    below: "\<And>c. c \<in> set bs \<Longrightarrow> block_end ?h c \<le> unat ?p" and p0: "?p \<noteq> 0"
    by (auto simp: heap_wf_def dest: apart_distinct)
  have pn: "?p \<notin> set bs" using below by (force simp: block_end_def)
  have m: "?m = 0 \<or> ?m \<in> set bs" using hseg_head[OF sg] by blast
  have u: "unat (?p + (SIZEOF_BLOCK + sz)) = unat ?p + 20 + unat sz"
    using nw wf by (simp add: heap_wf_def SIZEOF_BLOCK_def word_le_nat_alt unat_word_ariths)
  have e: "block_end (hdr s') c = block_end ?h c" "mb_start (hdr s' c) = mb_start (?h c)" "mb_used (hdr s' c) = mb_used (?h c)"
     "mb_size (hdr s' c) = mb_size (?h c)" if "c \<in> set bs" for c
    using that pn m by (auto simp: h' block_end_def)
  have ep: "block_end (hdr s') ?p = unat ?p + 20 + unat sz" "mb_used (hdr s' ?p) = 1" "mb_start (hdr s' ?p) = ?p + SIZEOF_BLOCK"
    "mb_size (hdr s' ?p) = sz"
    using pn m by (auto simp: h' block_end_def)
  have "hseg (hdr s') ?p ?m bs 0"
    using sg d m pn by (rule_tac hseg_relink[where h = ?h and q = 0]) (auto simp: h')
  then have "hseg (hdr s') 0 ?p (?p # bs) 0" using p0 pn m by (auto simp: h')
  moreover have "sorted_wrt (apart (hdr s')) (?p # bs)"
    using wf below e(1) apart_cong[of bs "hdr s'" ?h] by (auto simp: heap_wf_def apart_def)
  moreover have "?p + (SIZEOF_BLOCK + sz) \<noteq> 0" "?p + (SIZEOF_BLOCK + sz) \<le> u32KernelHeapEnd s"
    using u room by (auto simp: add.assoc)
  moreover have "\<forall>c\<in>set (?p # bs). mb_start (hdr s' c) = c + SIZEOF_BLOCK \<and> block_end (hdr s') c \<le> unat ?p + 20 + unat sz"
    using wf below e ep by (force simp: heap_wf_def)
  ultimately have "heap_wf s' (?p # bs)" using u by (simp add: heap_wf_def f)
  moreover have "coalesced (hdr s') (?p # bs)"
    using ok coalesced_cong[of bs "hdr s'" ?h] e ep coalesced_append[of "hdr s'" "[]" ?p bs] by (auto simp: heap_ok_def)
  moreover have "live s' (?p # bs) = insert (?p + SIZEOF_BLOCK, sz) (live s bs)"
    using e ep by (auto simp: live_def image_iff)
  ultimately show ?thesis using c by (auto simp: heap_ok_def)
qed

lemma alloc_cases:
  assumes ok: "heap_ok s bs" and nz: "sz \<noteq> 0" and nw: "unat sz + 35 + unat (u32KernelHeapEnd s) < 4294967296"
  obtains (failed) "mkrn_alloc sz s = Some (0, s)"
      "\<forall>a\<in>set bs. is_free (hdr s) a \<longrightarrow> unat (mb_size (hdr s a)) < unat sz + 7"
      "unat (u32KernelHeapEnd s) < unat (u32KernelHeapStart s) + 20 + (unat sz + 7)"
    | (given) p n s' bs' where "mkrn_alloc sz s = Some (p, s')" "p \<noteq> 0" "heap_ok s' bs'" "unat sz \<le> unat n"
      "live s' bs' = insert (p, n) (live s bs)" "p \<notin> fst ` live s bs"
proof -
  define r where "r = (sz + 7) AND NOT 7"
  have alloc: "mkrn_alloc sz s = (case first_fit r (pKernelHeapBlocks s) s of None \<Rightarrow> None
      | Some p \<Rightarrow> if p \<noteq> 0 then Some (p + SIZEOF_BLOCK, take_block r p s) else Some (carve_block r s))"
    unfolding mkrn_alloc_def Let_def r_def by (simp only: nz if_False)
  have r: "unat sz \<le> unat r" "unat r \<le> unat sz + 7" using round8[of sz] nw by (simp_all only: r_def)
  have wf: "heap_wf s bs" using ok by (simp add: heap_ok_def)
  then have "hseg (hdr s) 0 (pKernelHeapBlocks s) bs 0" by (simp add: heap_wf_def)
  from first_fit_seg[OF this] obtain a where a: "first_fit r (pKernelHeapBlocks s) s = Some a"
    "if a = 0 then \<forall>b\<in>set bs. is_free (hdr s) b \<longrightarrow> mb_size (hdr s b) < r
     else a \<in> set bs \<and> is_free (hdr s) a \<and> r \<le> mb_size (hdr s a)" by blast
  have ptr: "c + SIZEOF_BLOCK \<noteq> 0" if "unat c + 20 \<le> unat (u32KernelHeapEnd s)" for c
  proof -
    have "unat (c + SIZEOF_BLOCK) = unat c + 20" using that nw by (simp add: SIZEOF_BLOCK_def unat_word_ariths)
    then show ?thesis by auto
  qed
  have le: "unat (u32KernelHeapStart s) \<le> unat (u32KernelHeapEnd s)" using wf by (simp add: heap_wf_def word_le_nat_alt)
  show thesis
  proof (cases "a = 0")
    case True
    show thesis
    proof (cases "u32KernelHeapStart s + SIZEOF_BLOCK + r \<le> u32KernelHeapEnd s")
      case room: True
      have "unat r + 20 + unat (u32KernelHeapEnd s) < 4294967296" using r nw by simp
      from carve_ok[OF ok room this] obtain s' where s': "carve_block r s = (u32KernelHeapStart s + SIZEOF_BLOCK, s')"
        "heap_ok s' (u32KernelHeapStart s # bs)"
        "live s' (u32KernelHeapStart s # bs) = insert (u32KernelHeapStart s + SIZEOF_BLOCK, r) (live s bs)" by blast
      have u: "unat (u32KernelHeapStart s + SIZEOF_BLOCK + r) = unat (u32KernelHeapStart s) + 20 + unat r"
        using r nw le by (simp add: SIZEOF_BLOCK_def unat_word_ariths)
      have "u32KernelHeapStart s + SIZEOF_BLOCK \<noteq> 0" using room u by (intro ptr) (simp add: word_le_nat_alt)
      moreover have "u32KernelHeapStart s + SIZEOF_BLOCK \<notin> fst ` live s bs"
        using wf by (force simp: live_def heap_wf_def block_end_def)
      ultimately show thesis using s' r a(1) True by (intro given) (simp_all add: alloc)
    next
      case False
      have "unat (u32KernelHeapStart s + SIZEOF_BLOCK + r) = unat (u32KernelHeapStart s) + 20 + unat r"
        using r nw le by (simp add: SIZEOF_BLOCK_def unat_word_ariths)
      then have "unat (u32KernelHeapEnd s) < unat (u32KernelHeapStart s) + 20 + (unat sz + 7)"
        using False r by (simp add: word_le_nat_alt)
      moreover have "\<forall>b\<in>set bs. is_free (hdr s) b \<longrightarrow> unat (mb_size (hdr s b)) < unat sz + 7"
        using a(2) True r by (auto simp: word_less_nat_alt)
      ultimately show thesis using False a(1) True by (intro failed) (simp_all add: alloc carve_block_def)
    qed
  next
    case False
    then have fr: "a \<in> set bs" "is_free (hdr s) a" "r \<le> mb_size (hdr s a)" using a(2) by auto
    obtain xs ys where bs: "bs = xs @ a # ys" using fr(1) by (auto simp: in_set_conv_decomp)
    have "block_end (hdr s) a \<le> unat (u32KernelHeapEnd s)" using wf fr(1) le by (force simp: heap_wf_def)
    then have p: "a + SIZEOF_BLOCK \<noteq> 0" by (intro ptr) (simp add: block_end_def)
    have new: "a + SIZEOF_BLOCK \<notin> fst ` live s bs" using fr(2) by (auto simp: live_def)
    have e: "mkrn_alloc sz s = Some (a + SIZEOF_BLOCK, take_block r a s)" using a(1) False by (simp add: alloc)
    have nw': "unat r + 28 < 4294967296" using r nw by simp
    show thesis
    proof (cases "mb_size (hdr s a) > r + SIZEOF_BLOCK + 8")
      case True
      have "heap_ok (take_block r a s) (xs @ a # rest_of r a # ys)"
        "live (take_block r a s) (xs @ a # rest_of r a # ys) = insert (a + SIZEOF_BLOCK, r) (live s bs)"
        using take_split[OF ok[unfolded bs] fr(2) True nw'] by (simp_all add: bs)
      from given[OF e p this(1) r(1) this(2) new] show thesis .
    next
      case small: False
      have "heap_ok (take_block r a s) bs"
        "live (take_block r a s) bs = insert (a + SIZEOF_BLOCK, mb_size (hdr s a)) (live s bs)"
        using take_whole[OF ok[unfolded bs] small] by (simp_all add: bs)
      moreover have "unat sz \<le> unat (mb_size (hdr s a))" using fr(3) r by (simp add: word_le_nat_alt)
      ultimately show thesis using given[OF e p _ _ _ new] by blast
    qed
  qed
qed


section \<open>Freeing\<close>

text \<open>
  A free neighbour in the list is merged whatever its address, so merging is
  only right when the free neighbours of the block in the list are also its
  neighbours in memory.
\<close>

definition merge_safe :: "(u32 \<Rightarrow> mkrn_mem_block) \<Rightarrow> u32 \<Rightarrow> u32 list \<Rightarrow> bool" where
  "merge_safe h p =
     successively (\<lambda>a b. (a = p \<and> is_free h b \<or> b = p \<and> is_free h a) \<longrightarrow> unat b = block_end h a)"

lemma merge_safe_append:
  assumes "distinct (xs @ p # ys)"
  shows "merge_safe h p (xs @ p # ys) \<longleftrightarrow>
     (xs \<noteq> [] \<longrightarrow> is_free h (last xs) \<longrightarrow> unat p = block_end h (last xs)) \<and>
     (ys \<noteq> [] \<longrightarrow> is_free h (hd ys) \<longrightarrow> unat (hd ys) = block_end h p)"
proof -
  have "successively (\<lambda>a b. (a = p \<and> is_free h b \<or> b = p \<and> is_free h a) \<longrightarrow> unat b = block_end h a) zs"
    if "p \<notin> set zs" for zs using that by (induction zs rule: induct_list012) auto
  then show ?thesis using assms
    by (auto simp: merge_safe_def successively_append_iff successively_Cons)
qed

lemma find_used_none:
  "hseg (hdr s) q p bs 0 \<Longrightarrow> (\<And>c. c \<in> set bs \<Longrightarrow> mb_start (hdr s c) = ptr \<Longrightarrow> is_free (hdr s) c) \<Longrightarrow>
   find_used ptr p s = Some 0"
proof (induction bs arbitrary: q p)
  case (Cons b bs)
  then have "find_used ptr (mb_next (hdr s b)) s = Some 0" by (intro Cons.IH[of b]) auto
  then show ?case using Cons.prems by (subst find_used.simps) auto
qed (simp add: find_used.simps)

text \<open>With the list coalesced before, one step to the right and one to the left suffice.\<close>

lemma merge_right_step:
  assumes wf: "heap_wf s (xs @ p # ys)" and fr: "is_free (hdr s) p" and co: "coalesced (hdr s) ys"
    and adj: "ys \<noteq> [] \<Longrightarrow> is_free (hdr s) (hd ys) \<Longrightarrow> unat (hd ys) = block_end (hdr s) p"
  shows "\<exists>s' ys'. merge_right p s = Some s' \<and> heap_wf s' (xs @ p # ys') \<and> live s' (xs @ p # ys') = live s (xs @ p # ys) \<and>
    coalesced (hdr s') (p # ys') \<and> (\<forall>c. mb_used (hdr s' c) = mb_used (hdr s c)) \<and>
    (\<forall>c. c \<noteq> p \<longrightarrow> block_end (hdr s') c = block_end (hdr s) c)"
proof (cases "ys \<noteq> [] \<and> is_free (hdr s) (hd ys)")
  case True
  then obtain n zs where ys: "ys = n # zs" and n: "is_free (hdr s) n" "unat n = block_end (hdr s) p"
    using adj by (cases ys) auto
  let ?s = "absorb p n s"
  have W: "heap_wf ?s (xs @ p # zs)" using absorb_wf[OF wf[unfolded ys] n(2)] .
  have nn: "mb_next (hdr s p) = n" "n \<noteq> 0" using heap_wf_block(4)[OF wf] ys by auto
  have used: "zs \<noteq> [] \<longrightarrow> \<not> is_free (hdr s) (hd zs)" using co n(1) coalesced_append[of "hdr s" "[]" n zs] ys by simp
  have "mb_next (hdr ?s p) = 0 \<or> \<not> is_free (hdr s) (mb_next (hdr ?s p))"
    using heap_wf_block(4)[OF W] used by (cases zs) auto
  then have "merge_right p ?s = Some ?s" by (subst merge_right.simps) (auto simp: Let_def)
  then have "merge_right p s = Some ?s" using nn n(1) by (subst merge_right.simps) (simp add: Let_def)
  moreover have "coalesced (hdr ?s) (p # zs)"
    using co ys used coalesced_append[of "hdr s" "[]" n zs] coalesced_append[of "hdr s" "[]" p zs] by (simp add: coalesced_absorb)
  moreover have "live ?s (xs @ p # zs) = live s (xs @ p # ys)"
    using absorb_live[of xs p n zs s] heap_wf_block(7)[OF wf] fr n(1) ys by simp
  ultimately show ?thesis using W absorb_block_end by (metis absorb_frame(4))
next
  case False
  then have "mb_next (hdr s p) = 0 \<or> \<not> is_free (hdr s) (mb_next (hdr s p))"
    using heap_wf_block(4)[OF wf] by (cases ys) auto
  then have "merge_right p s = Some s" by (subst merge_right.simps) (auto simp: Let_def)
  moreover have "coalesced (hdr s) (p # ys)" using False co coalesced_append[of "hdr s" "[]" p ys] by auto
  ultimately show ?thesis using wf by blast
qed

lemma merge_left_step:
  assumes wf: "heap_wf s (xs @ p # ys)" and fr: "is_free (hdr s) p" and co: "coalesced (hdr s) xs" "coalesced (hdr s) (p # ys)"
    and adj: "xs \<noteq> [] \<Longrightarrow> is_free (hdr s) (last xs) \<Longrightarrow> unat p = block_end (hdr s) (last xs)"
  shows "\<exists>bs'. heap_ok (merge_left p s) bs' \<and> live (merge_left p s) bs' = live s (xs @ p # ys)"
proof (cases "xs \<noteq> [] \<and> is_free (hdr s) (last xs)")
  case True
  then obtain zs q where xs: "xs = zs @ [q]" and q: "is_free (hdr s) q" "unat p = block_end (hdr s) q"
    using adj by (cases xs rule: rev_cases) auto
  have wf': "heap_wf s (zs @ q # p # ys)" using wf xs by simp
  have "merge_left p s = absorb q p s"
    using heap_wf_block(1)[OF wf'] heap_wf_block(2)[OF wf] xs q(1) by (simp add: merge_left_def)
  moreover have "heap_wf (absorb q p s) (zs @ q # ys)" by (rule absorb_wf[OF wf' q(2)])
  moreover have "coalesced (hdr s) (zs @ q # ys)"
    using co fr q(1) xs coalesced_append[of "hdr s" "[]" p ys] coalesced_append[of "hdr s" zs q "[]"]
      coalesced_append[of "hdr s" zs q ys] by auto
  moreover have "live (absorb q p s) (zs @ q # ys) = live s (xs @ p # ys)"
    using absorb_live[of zs q p ys s] heap_wf_block(7)[OF wf'] fr q(1) xs by simp
  ultimately show ?thesis by (auto simp: heap_ok_def coalesced_absorb)
next
  case False
  then have "merge_left p s = s"
    using heap_wf_block(2)[OF wf] by (auto simp: merge_left_def Let_def)
  moreover have "coalesced (hdr s) (xs @ p # ys)"
    using False co coalesced_append[of "hdr s" "[]" p ys] by (auto simp: coalesced_append)
  ultimately show ?thesis using wf by (auto simp: heap_ok_def)
qed

lemma live_decomp:
  assumes "heap_wf s bs" "(ptr, n) \<in> live s bs"
  obtains a xs ys where "bs = xs @ a # ys" "ptr = a + SIZEOF_BLOCK" "n = mb_size (hdr s a)" "\<not> is_free (hdr s) a"
    "ptr \<noteq> 0" "find_used ptr a s = Some a" "ptr - SIZEOF_BLOCK = a" "mb_start (hdr s a) = ptr"
proof -
  obtain a where a: "a \<in> set bs" "ptr = a + SIZEOF_BLOCK" "n = mb_size (hdr s a)" "\<not> is_free (hdr s) a"
    using assms(2) by (auto simp: live_def)
  obtain xs ys where bs: "bs = xs @ a # ys" using a(1) by (auto simp: in_set_conv_decomp)
  note B = heap_wf_block[OF assms(1)[unfolded bs]]
  have "unat (a + SIZEOF_BLOCK) = unat a + 20"
    using B(5) heap_start_bound[of s] by (simp add: block_end_def SIZEOF_BLOCK_def unat_word_ariths)
  then have "ptr \<noteq> 0" using a(2) by auto
  moreover have "find_used ptr a s = Some a" using B(1,6) a by (subst find_used.simps) simp
  ultimately show thesis using that[OF bs a(2,3,4)] B(6) a(2) by simp
qed

lemma free_ok:
  assumes ok: "heap_ok s bs" and l: "(ptr, n) \<in> live s bs" and safe: "merge_safe (hdr s) (ptr - SIZEOF_BLOCK) bs"
  shows "\<exists>s' bs'. mkrn_free ptr s = Some s' \<and> heap_ok s' bs' \<and> live s' bs' = live s bs - {(ptr, n)} \<and>
           is_free (hdr s') (ptr - SIZEOF_BLOCK)"
proof -
  have wf: "heap_wf s bs" using ok by (simp add: heap_ok_def)
  obtain a xs ys where bs: "bs = xs @ a # ys" and a: "ptr = a + SIZEOF_BLOCK" "n = mb_size (hdr s a)" "\<not> is_free (hdr s) a"
    "ptr \<noteq> 0" "find_used ptr a s = Some a" "ptr - SIZEOF_BLOCK = a" "mb_start (hdr s a) = ptr"
    using live_decomp[OF wf l] by metis
  have d: "distinct (xs @ a # ys)" using heap_wf_block(7) wf bs by blast
  define t where "t = (upd_hdr a (mb_used_update (\<lambda>_. 0)) s)
    \<lparr>used_mem := used_mem s - mb_size (hdr s a), free_mem := free_mem s + mb_size (hdr s a)\<rparr>"
  have ht: "hdr t = (hdr s)(a := (hdr s a)\<lparr>mb_used := 0\<rparr>)" by (simp add: t_def)
  have fa: "is_free (hdr t) a" by (simp add: ht)
  have wt: "heap_wf t (xs @ a # ys)" using mark_wf[OF wf[unfolded bs]] by (simp add: t_def)
  have et: "block_end (hdr t) c = block_end (hdr s) c" for c by (simp add: ht block_end_def)
  have "coalesced (hdr t) zs = coalesced (hdr s) zs" if "a \<notin> set zs" for zs
    using that by (intro coalesced_cong) (auto simp: ht)
  then have co: "coalesced (hdr t) xs" "coalesced (hdr t) ys"
    using ok d by (simp_all add: heap_ok_def bs coalesced_append)
  have lt: "live t (xs @ a # ys) = live s bs - {(ptr, n)}"
    using d a by (auto simp: live_def ht bs)
  have ut: "mb_used (hdr t c) = (if c = a then 0 else mb_used (hdr s c))" for c by (simp add: ht)
  have ne: "xs \<noteq> [] \<Longrightarrow> last xs \<noteq> a" "ys \<noteq> [] \<Longrightarrow> hd ys \<noteq> a" using d by (cases xs rule: rev_cases; cases ys; auto)+
  have adj: "ys \<noteq> [] \<Longrightarrow> is_free (hdr t) (hd ys) \<Longrightarrow> unat (hd ys) = block_end (hdr t) a"
    "xs \<noteq> [] \<Longrightarrow> is_free (hdr t) (last xs) \<Longrightarrow> unat a = block_end (hdr t) (last xs)"
    using safe merge_safe_append[OF d, of "hdr s"] ne by (simp_all add: a(6) bs et ut)
  from merge_right_step[OF wt fa co(2) adj(1)] obtain u ys' where
    u: "merge_right a t = Some u" "heap_wf u (xs @ a # ys')" "live u (xs @ a # ys') = live t (xs @ a # ys)"
      "coalesced (hdr u) (a # ys')" "\<And>c. mb_used (hdr u c) = mb_used (hdr t c)"
      "\<And>c. c \<noteq> a \<Longrightarrow> block_end (hdr u) c = block_end (hdr t) c" by blast
  from ne(1) have "\<exists>bs'. heap_ok (merge_left a u) bs' \<and> live (merge_left a u) bs' = live u (xs @ a # ys')"
    using u co(1) coalesced_cong[of xs "hdr u" "hdr t"] adj(2) fa by (intro merge_left_step) auto
  moreover have "mkrn_free ptr s = Some (merge_left a u)"
    using a u(1) heap_wf_block(1)[OF wt] by (simp add: mkrn_free_def Let_def t_def)
  moreover have "is_free (hdr (merge_left a u)) a" using u(5) by (simp add: merge_left_def ut Let_def)
  ultimately show ?thesis using u(3) lt a(6) by metis
qed

lemma live_apart:
  assumes wf: "heap_wf s bs" and l: "(p, n) \<in> live s bs" "(q, k) \<in> live s bs" "p \<noteq> q"
  shows "unat p + unat n \<le> unat q \<or> unat q + unat k \<le> unat p"
proof -
  have ptr: "unat (c + SIZEOF_BLOCK) = unat c + 20 \<and> block_end (hdr s) c = unat (c + SIZEOF_BLOCK) + unat (mb_size (hdr s c))"
    if "c \<in> set bs" for c
  proof -
    have "block_end (hdr s) c \<le> unat (u32KernelHeapStart s)" using wf that by (simp add: heap_wf_def)
    then show ?thesis using heap_start_bound[of s] by (simp add: block_end_def SIZEOF_BLOCK_def unat_word_ariths)
  qed
  obtain a b where ab: "a \<in> set bs" "b \<in> set bs" "p = a + SIZEOF_BLOCK" "n = mb_size (hdr s a)" "q = b + SIZEOF_BLOCK" "k = mb_size (hdr s b)"
    using l by (auto simp: live_def)
  then have "apart (hdr s) a b"
    using wf l(3) apart_sym by (auto simp: heap_wf_def sorted_wrt_iff_nth_less in_set_conv_nth) (metis nat_neq_iff)
  then show ?thesis using ab ptr[of a] ptr[of b] by (auto simp: apart_def)
qed

lemma live_inside:
  assumes "heap_wf s bs" "(p, n) \<in> live s bs"
  shows "unat p + unat n \<le> unat (u32KernelHeapEnd s)" "20 \<le> unat p"
proof -
  obtain a where a: "a \<in> set bs" "p = a + SIZEOF_BLOCK" "n = mb_size (hdr s a)" using assms(2) by (auto simp: live_def)
  have "block_end (hdr s) a \<le> unat (u32KernelHeapStart s)" using assms(1) a(1) by (simp add: heap_wf_def)
  moreover have "u32KernelHeapStart s \<le> u32KernelHeapEnd s" using assms(1) by (simp add: heap_wf_def)
  ultimately show "unat p + unat n \<le> unat (u32KernelHeapEnd s)" "20 \<le> unat p"
    using a(2,3) heap_start_bound[of s] by (simp_all add: block_end_def SIZEOF_BLOCK_def unat_word_ariths word_le_nat_alt)
qed


section \<open>Properties\<close>

definition boot_heap :: "mstate \<Rightarrow> kheap" where
  "boot_heap ms = mstate.extend ms
     \<lparr>hdr = (\<lambda>_. \<lparr>mb_start = 0, mb_size = 0, mb_used = 0, mb_next = 0, mb_prev = 0\<rparr>),
      u32KernelHeapStart = 0x500000, u32KernelHeapEnd = 0x900000, pKernelHeapBlocks = 0\<rparr>"

lemma boot_heap_ok: "heap_ok (boot_heap ms) []"
  by (simp add: boot_heap_def mstate.defs heap_ok_def heap_wf_def)

text \<open>C9. For every size the 32-bit arithmetic can carry past the end of the heap,
  that is with \<open>size + 35 + heap end < 2 ^ 32\<close>, an allocation returns. Size 0 gives
  the null pointer and changes nothing. Otherwise the allocation either reports
  that neither a free block nor the unused heap has room and changes nothing, or
  hands out a new block of at least the size asked for, inside the heap and
  disjoint from every live block; the other live blocks and the invariant of the
  block list are kept. Larger sizes wrap in the code and are left out here:
  \<open>heap_alloc_wraps\<close> shows that they are granted wrongly.\<close>

theorem heap_alloc_correct:
  assumes "heap_ok s bs" "unat sz + 35 + unat (u32KernelHeapEnd s) < 4294967296"
  shows "\<exists>p s' bs'. mkrn_alloc sz s = Some (p, s') \<and> heap_ok s' bs' \<and>
    (if sz = 0 then p = 0 \<and> s' = s
     else if p = 0 then s' = s \<and> (\<forall>a\<in>set bs. is_free (hdr s) a \<longrightarrow> unat (mb_size (hdr s a)) < unat sz + 7) \<and>
       unat (u32KernelHeapEnd s) < unat (u32KernelHeapStart s) + 20 + (unat sz + 7)
     else \<exists>n. unat sz \<le> unat n \<and> live s' bs' = insert (p, n) (live s bs) \<and> unat p + unat n \<le> unat (u32KernelHeapEnd s') \<and>
       (\<forall>(q, k)\<in>live s bs. unat p + unat n \<le> unat q \<or> unat q + unat k \<le> unat p))"
proof (cases "sz = 0")
  case True
  then show ?thesis using assms(1) by (auto simp: mkrn_alloc_def)
next
  case False
  from assms(1) False assms(2) show ?thesis
  proof (cases rule: alloc_cases)
    case failed
    then show ?thesis using assms(1) False by auto
  next
    case (given p n s' bs')
    have "heap_wf s' bs'" using given(3) by (simp add: heap_ok_def)
    then have "unat p + unat n \<le> unat q \<or> unat q + unat k \<le> unat p" if "(q, k) \<in> live s bs" for q k
      using that given(5,6) by (intro live_apart) force+
    moreover have "unat p + unat n \<le> unat (u32KernelHeapEnd s')"
      using \<open>heap_wf s' bs'\<close> given(5) by (intro live_inside) auto
    ultimately show ?thesis using given False by (intro exI[of _ p] exI[of _ s'] exI[of _ bs']) auto
  qed
qed

text \<open>C10. Freeing a live pointer whose free list neighbours are its neighbours in memory
  returns, takes exactly that block out of the live set and leaves the block list
  well formed with no two free blocks side by side; freeing it again changes nothing.\<close>

theorem heap_free_correct:
  assumes "heap_ok s bs" "(ptr, n) \<in> live s bs" "merge_safe (hdr s) (ptr - SIZEOF_BLOCK) bs"
  shows "\<exists>s' bs'. mkrn_free ptr s = Some s' \<and> heap_ok s' bs' \<and> live s' bs' = live s bs - {(ptr, n)} \<and>
    mkrn_free ptr s' = Some s'"
proof -
  obtain s' bs' where s': "mkrn_free ptr s = Some s'" "heap_ok s' bs'" "live s' bs' = live s bs - {(ptr, n)}"
    "is_free (hdr s') (ptr - SIZEOF_BLOCK)" using free_ok[OF assms] by blast
  have "find_used ptr (pKernelHeapBlocks s') s' = Some 0"
    using s'(2,4) by (intro find_used_none[where q = 0 and bs = bs']) (auto simp: heap_ok_def heap_wf_def)
  then have "mkrn_free ptr s' = Some s'" using s'(4) by (simp add: mkrn_free_def Let_def)
  then show ?thesis using s' by blast
qed

text \<open>The code merges list neighbours without comparing addresses, and carved blocks
  stand in the list in descending order of their addresses: freeing two neighbours
  in ascending order merges the higher with the lower one, so the merged block
  reaches over the live block behind it, and the next allocation hands it out.\<close>

theorem heap_merge_overlaps:
  "\<exists>a b c d s. do {
     (a, s) \<leftarrow> mkrn_alloc 8 (boot_heap ms);
     (b, s) \<leftarrow> mkrn_alloc 8 s;
     (c, s) \<leftarrow> mkrn_alloc 8 s;
     s \<leftarrow> mkrn_free a s;
     s \<leftarrow> mkrn_free b s;
     (d, s) \<leftarrow> mkrn_alloc 32 s;
     Some (a, b, c, d, s)
   } = Some (a, b, c, d, s) \<and> mb_used (hdr s (c - SIZEOF_BLOCK)) = 1 \<and> mb_used (hdr s (d - SIZEOF_BLOCK)) = 1 \<and>
     d < c \<and> c < d + 32"
  by (simp add: mkrn_alloc_def mkrn_free_def boot_heap_def mstate.defs carve_block_def take_block_def split_block_def
      SIZEOF_BLOCK_def set_prev_def absorb_def merge_left_def Let_def first_fit.simps find_used.simps merge_right.simps)

text \<open>Sizes near the top of the 32-bit range wrap: rounding up yields an empty
  block, and the room test of the unused heap accepts a block larger than the heap
  and moves the start of the unused heap down over blocks already handed out.\<close>

theorem heap_alloc_wraps:
  "\<exists>p s' q s''. mkrn_alloc 0xFFFFFFFF (boot_heap ms) = Some (p, s') \<and> p \<noteq> 0 \<and> mb_size (hdr s' (p - SIZEOF_BLOCK)) = 0 \<and>
     mkrn_alloc 0xFFFFF000 (boot_heap ms) = Some (q, s'') \<and> q \<noteq> 0 \<and>
     u32KernelHeapStart s'' < u32KernelHeapStart (boot_heap ms)"
  by (simp add: mkrn_alloc_def boot_heap_def mstate.defs carve_block_def SIZEOF_BLOCK_def set_prev_def Let_def first_fit.simps)

text \<open>Taking a whole block adds the size asked for to the counter of used memory;
  freeing subtracts the size of the block.\<close>

theorem heap_counter_drift:
  "\<exists>s. do {
     (a, s) \<leftarrow> mkrn_alloc 40 (boot_heap ms);
     s \<leftarrow> mkrn_free a s;
     (a, s) \<leftarrow> mkrn_alloc 16 s;
     mkrn_free a s
   } = Some s \<and> used_mem s = used_mem ms - 24"
  by (simp add: mkrn_alloc_def mkrn_free_def boot_heap_def mstate.defs carve_block_def take_block_def split_block_def
      SIZEOF_BLOCK_def set_prev_def merge_left_def Let_def first_fit.simps find_used.simps merge_right.simps)

theorem heap_alloc_correct_witness:
  "\<forall>ms. \<exists>p s' bs'. mkrn_alloc 8 (boot_heap ms) = Some (p, s') \<and> heap_ok s' bs' \<and> p \<noteq> 0"
proof
  fix ms
  have e: "u32KernelHeapEnd (boot_heap ms) = 0x900000" "u32KernelHeapStart (boot_heap ms) = 0x500000"
    by (simp_all add: boot_heap_def mstate.defs)
  show "\<exists>p s' bs'. mkrn_alloc 8 (boot_heap ms) = Some (p, s') \<and> heap_ok s' bs' \<and> p \<noteq> 0"
    using heap_alloc_correct[OF boot_heap_ok[of ms], of 8] by (auto simp: e split: if_splits)
qed

theorem heap_free_correct_witness:
  "\<forall>ms. \<exists>s s'. mkrn_alloc 8 (boot_heap ms) = Some (0x500014, s) \<and> mkrn_free 0x500014 s = Some s' \<and> mkrn_free 0x500014 s' = Some s'"
proof
  fix ms
  let ?s = "boot_heap ms"
  have e: "u32KernelHeapEnd ?s = 0x900000" "u32KernelHeapStart ?s = 0x500000" "pKernelHeapBlocks ?s = 0"
    by (simp_all add: boot_heap_def mstate.defs)
  obtain s where s: "carve_block 8 ?s = (0x500014, s)" "heap_ok s [0x500000]" "live s [0x500000] = {(0x500014, 8)}"
    using carve_ok[OF boot_heap_ok[of ms], of 8] by (auto simp: e SIZEOF_BLOCK_def live_def)
  have "mkrn_alloc 8 ?s = Some (0x500014, s)" using s(1) by (simp add: mkrn_alloc_def e first_fit.simps)
  then show "\<exists>s s'. mkrn_alloc 8 ?s = Some (0x500014, s) \<and> mkrn_free 0x500014 s = Some s' \<and> mkrn_free 0x500014 s' = Some s'"
    using heap_free_correct[OF s(2), of "0x500014" 8] s(3) by (auto simp: merge_safe_def)
qed

lemma unat_diff_cases:
  fixes x y :: u32
  shows "unat (x - y) = (if unat y \<le> unat x then unat x - unat y else 4294967296 + unat x - unat y)"
  using unat_sub_if'[of x y] by (auto split: if_splits)

lemma disjoint_offset:
  fixes p q :: u32
  assumes "unat p + l < unat q \<or> unat q + l < unat p" "i \<le> l" "unat q + l < 4294967296" "unat p + l < 4294967296"
  shows "l < unat (q + of_nat i - p)"
proof -
  have "unat (q + of_nat i) = unat q + i" using assms by (simp add: unat_word_ariths unat_of_nat)
  then show ?thesis using assms unfolding unat_diff_cases by auto
qed

lemma disjoint_copy:
  fixes p q :: u32
  assumes "unat p + l < unat q \<or> unat q + l < unat p" "unat q + l < 4294967296"
  shows "unat (q - p) + (l + 1) \<le> 4294967296"
  using assms unfolding unat_diff_cases by auto

text \<open>\<open>mkrn_strdup\<close> of a string in a live block: either the heap is exhausted and
  nothing changes, or the result is a fresh live block with a copy of the string,
  the original is intact and no other byte of memory changes.\<close>

theorem strdup_correct:
  assumes ok: "heap_ok s bs" and str: "str_at m pS cs" and src: "(q, k) \<in> live s bs" "unat q \<le> unat pS"
    "unat pS + length cs < unat q + unat k" and nw: "length cs + 36 + unat (u32KernelHeapEnd s) < 4294967296"
  shows "\<exists>p m' s' bs'. mkrn_strdup pS m s = Some (p, m', s') \<and> heap_ok s' bs' \<and>
    (if p = 0 then m' = m \<and> s' = s
     else str_at m' p cs \<and> str_at m' pS cs \<and> (\<exists>n. length cs < unat n \<and> live s' bs' = insert (p, n) (live s bs)) \<and>
       (\<forall>a. m' a \<noteq> m a \<longrightarrow> unat (a - p) \<le> length cs))"
proof -
  have wf: "heap_wf s bs" using ok by (simp add: heap_ok_def)
  let ?l = "of_nat (length cs) :: u32"
  have l: "unat (?l + 1) = length cs + 1" using nw by (simp add: unat_word_ariths unat_of_nat)
  have p0: "pS \<noteq> 0" using live_inside(2)[OF wf src(1)] src(2) by auto
  have len: "mkrn_strlen pS m = Some ?l" using strlen_str[OF str, of 0] by (simp add: mkrn_strlen_def)
  have nz: "?l + 1 \<noteq> 0" using l by (metis unat_0 add_eq_0_iff_both_eq_0 one_neq_zero)
  have nw': "unat (?l + 1) + 35 + unat (u32KernelHeapEnd s) < 4294967296" using l nw by simp
  from ok nz nw' show ?thesis
  proof (cases rule: alloc_cases)
    case failed
    then show ?thesis using len p0 ok by (auto simp: mkrn_strdup_def)
  next
    case (given p n s' bs')
    have wf': "heap_wf s' bs'" using given(3) by (simp add: heap_ok_def)
    have "unat p + unat n \<le> unat q \<or> unat q + unat k \<le> unat p"
      using given(5,6) src(1) by (intro live_apart[OF wf']) force+
    moreover have "unat p + unat n \<le> unat (u32KernelHeapEnd s')" using given(5) by (intro live_inside(1)[OF wf']) auto
    moreover have "unat q + unat k \<le> unat (u32KernelHeapEnd s)" by (rule live_inside(1)[OF wf src(1)])
    ultimately have dis: "unat p + length cs < unat pS \<or> unat pS + length cs < unat p"
      using src given(4) l by linarith
    have bound: "unat pS + length cs < 4294967296" "unat p + length cs < 4294967296"
      using src(3) live_inside(1)[OF wf src(1)] live_inside(1)[OF wf', of p n] given(4,5) l
        u32_bound[of "u32KernelHeapEnd s"] u32_bound[of "u32KernelHeapEnd s'"] by auto
    have out: "unat (pS + of_nat i - p) > length cs" if "i \<le> length cs" for i
      by (rule disjoint_offset[OF dis that bound])
    have "unat (pS - p) + unat (?l + 1) \<le> 4294967296" using disjoint_copy[OF dis bound(1)] l by simp
    then have mc: "mkrn_memcpy p pS (?l + 1) m = copied p pS (Suc (length cs)) m"
      using forward_copy[of pS p "?l + 1" m] l by (simp add: mkrn_memcpy_def)
    have "str_at (copied p pS (Suc (length cs)) m) p cs" using str nw by (intro copied_str) auto
    moreover have "copied p pS (Suc (length cs)) m (pS + of_nat i) = m (pS + of_nat i)" if "i \<le> length cs" for i
      using out[OF that] by (simp add: copied_def)
    then have "str_at (copied p pS (Suc (length cs)) m) pS cs" using str by (simp add: str_at_def)
    moreover have "\<exists>k. length cs < unat k \<and> live s' bs' = insert (p, k) (live s bs)" using given(4,5) l by (intro exI[of _ n]) simp
    ultimately show ?thesis using given(1-3) len p0 mc
      by (intro exI[of _ p] exI[of _ "copied p pS (Suc (length cs)) m"] exI[of _ s'] exI[of _ bs'])
         (auto simp: mkrn_strdup_def copied_def)
  qed
qed

end
