(* ===== verification/Queue.thy ===== *)
theory Queue
  imports Prelude
begin

text \<open>
  Bounded FIFO queues. The kernel keeps two rings: the scheduler's ready queue
  (\<open>sys/src/kernel/process.c\<close>) and the pipe buffers (\<open>sys/src/fs/vfs.c\<close>). The
  locale \<open>bounded_queue\<close> states what their clients rely on, and proves once that
  any sequence of operations behaves like the same sequence on a plain list.
  The ready queue is modelled and shown to be an instance here; the pipe in
  the theory of the pipes.
\<close>

section \<open>Operation sequences\<close>

datatype 'a qop = Enq 'a | Deq

datatype 'a qres = Accepted | Refused | Got 'a | Empty

text \<open>Running a sequence of operations on an implementation, and on a list of at
  most \<open>cap\<close> elements.\<close>

fun run_queue :: "('a \<Rightarrow> 's \<Rightarrow> 's option) \<Rightarrow> ('s \<Rightarrow> ('a \<times> 's) option) \<Rightarrow> 'a qop list \<Rightarrow> 's \<Rightarrow> 'a qres list \<times> 's" where
  "run_queue enq deq [] s = ([], s)"
| "run_queue enq deq (Enq x # ops) s =
     (case enq x s of
        None \<Rightarrow> (let (rs, s') = run_queue enq deq ops s in (Refused # rs, s'))
      | Some s1 \<Rightarrow> (let (rs, s') = run_queue enq deq ops s1 in (Accepted # rs, s')))"
| "run_queue enq deq (Deq # ops) s =
     (case deq s of
        None \<Rightarrow> (let (rs, s') = run_queue enq deq ops s in (Empty # rs, s'))
      | Some (x, s1) \<Rightarrow> (let (rs, s') = run_queue enq deq ops s1 in (Got x # rs, s')))"

definition list_enq :: "nat \<Rightarrow> 'a \<Rightarrow> 'a list \<Rightarrow> 'a list option" where
  "list_enq cap x xs = (if length xs < cap then Some (xs @ [x]) else None)"

definition list_deq :: "'a list \<Rightarrow> ('a \<times> 'a list) option" where
  "list_deq xs = (case xs of [] \<Rightarrow> None | x # ys \<Rightarrow> Some (x, ys))"

fun op_elem :: "('a \<Rightarrow> bool) \<Rightarrow> 'a qop \<Rightarrow> bool" where
  "op_elem P (Enq x) = P x"
| "op_elem P Deq = True"

section \<open>The contract\<close>

locale bounded_queue =
  fixes inv :: "'s \<Rightarrow> bool" and contents :: "'s \<Rightarrow> 'a list" and cap :: nat and elem :: "'a \<Rightarrow> bool"
    and enq :: "'a \<Rightarrow> 's \<Rightarrow> 's option" and deq :: "'s \<Rightarrow> ('a \<times> 's) option"
  assumes bounded: "inv s \<Longrightarrow> length (contents s) \<le> cap"
    and enq_full: "\<lbrakk>inv s; elem x; length (contents s) = cap\<rbrakk> \<Longrightarrow> enq x s = None"
    and enq_room: "\<lbrakk>inv s; elem x; length (contents s) < cap\<rbrakk> \<Longrightarrow>
      \<exists>s'. enq x s = Some s' \<and> inv s' \<and> contents s' = contents s @ [x]"
    and deq_empty: "\<lbrakk>inv s; contents s = []\<rbrakk> \<Longrightarrow> deq s = None"
    and deq_first: "\<lbrakk>inv s; contents s = x # xs\<rbrakk> \<Longrightarrow>
      \<exists>s'. deq s = Some (x, s') \<and> inv s' \<and> contents s' = xs"
begin

lemma enq_sim:
  assumes "inv s" and "elem x"
  shows "(case enq x s of None \<Rightarrow> list_enq cap x (contents s) = None
          | Some s' \<Rightarrow> inv s' \<and> list_enq cap x (contents s) = Some (contents s'))"
proof (cases "length (contents s) < cap")
  case True
  then show ?thesis using enq_room[OF assms True] by (auto simp: list_enq_def)
next
  case False
  then show ?thesis using bounded[OF assms(1)] enq_full[OF assms] by (simp add: list_enq_def)
qed

lemma deq_sim:
  assumes "inv s"
  shows "(case deq s of None \<Rightarrow> list_deq (contents s) = None
          | Some (x, s') \<Rightarrow> inv s' \<and> list_deq (contents s) = Some (x, contents s'))"
proof (cases "contents s")
  case Nil
  then show ?thesis using deq_empty[OF assms] by (simp add: list_deq_def)
next
  case (Cons x xs)
  then show ?thesis using deq_first[OF assms Cons] by (auto simp: list_deq_def)
qed

lemma run_refines:
  assumes "inv s" and "list_all (op_elem elem) ops"
  shows "\<exists>rs s'. run_queue enq deq ops s = (rs, s') \<and> inv s' \<and>
           run_queue (list_enq cap) list_deq ops (contents s) = (rs, contents s')"
  using assms
proof (induction ops arbitrary: s)
  case (Cons opn ops)
  show ?case
  proof (cases opn)
    case (Enq x)
    show ?thesis
    proof (cases "enq x s")
      case None
      then show ?thesis using Cons.IH[OF Cons.prems(1)] Cons.prems enq_sim[of s x] Enq by auto
    next
      case (Some s1)
      then have "inv s1" and "list_enq cap x (contents s) = Some (contents s1)"
        using enq_sim[of s x] Cons.prems Enq by auto
      then show ?thesis using Cons.IH[of s1] Cons.prems Enq Some by auto
    qed
  next
    case Deq
    show ?thesis
    proof (cases "deq s")
      case None
      then show ?thesis using Cons.IH[OF Cons.prems(1)] Cons.prems deq_sim[of s] Deq by auto
    next
      case (Some p)
      then obtain x s1 where p: "p = (x, s1)" by (cases p)
      then have "inv s1" and "list_deq (contents s) = Some (x, contents s1)"
        using deq_sim[of s] Cons.prems Some by auto
      then show ?thesis using Cons.IH[of s1] Cons.prems Deq Some p by auto
    qed
  qed
qed simp

end

section \<open>The ready queue\<close>

record ready_queue =
  slots :: "u32 list"
  head :: nat
  count :: nat

definition READY_QUEUE_SIZE :: nat where "READY_QUEUE_SIZE = 64"

definition ready_enqueue :: "u32 \<Rightarrow> ready_queue \<Rightarrow> int \<times> ready_queue" where
  "ready_enqueue p q =
     (if p = 0 then (-1, q)
      else if READY_QUEUE_SIZE \<le> count q then (-1, q)
      else (0, q\<lparr>slots := (slots q)[(head q + count q) mod READY_QUEUE_SIZE := p],
                 count := count q + 1\<rparr>))"

definition ready_dequeue :: "ready_queue \<Rightarrow> u32 \<times> ready_queue" where
  "ready_dequeue q =
     (if count q = 0 then (0, q)
      else (slots q ! head q,
            q\<lparr>head := (head q + 1) mod READY_QUEUE_SIZE, count := count q - 1\<rparr>))"

fun close_hole :: "nat \<Rightarrow> nat \<Rightarrow> ready_queue \<Rightarrow> ready_queue" where
  "close_hole j 0 q = q"
| "close_hole j (Suc n) q =
     close_hole (Suc j) n
       (q\<lparr>slots := (slots q)[(head q + j) mod READY_QUEUE_SIZE :=
                               slots q ! ((head q + j + 1) mod READY_QUEUE_SIZE)]\<rparr>)"

fun remove_from :: "nat \<Rightarrow> nat \<Rightarrow> u32 \<Rightarrow> ready_queue \<Rightarrow> ready_queue" where
  "remove_from i 0 p q = q"
| "remove_from i (Suc n) p q =
     (if slots q ! ((head q + i) mod READY_QUEUE_SIZE) = p
      then (close_hole i (count q - 1 - i) q)\<lparr>count := count q - 1\<rparr>
      else remove_from (Suc i) n p q)"

definition ready_remove :: "u32 \<Rightarrow> ready_queue \<Rightarrow> ready_queue" where
  "ready_remove p q = remove_from 0 (count q) p q"

definition rq_inv :: "ready_queue \<Rightarrow> bool" where
  "rq_inv q \<longleftrightarrow> length (slots q) = READY_QUEUE_SIZE \<and> head q < READY_QUEUE_SIZE \<and>
                count q \<le> READY_QUEUE_SIZE"

definition queued :: "ready_queue \<Rightarrow> u32 list" where
  "queued q = map (\<lambda>i. slots q ! ((head q + i) mod READY_QUEUE_SIZE)) [0..<count q]"

lemma size_pos [simp]: "0 < READY_QUEUE_SIZE" by (simp add: READY_QUEUE_SIZE_def)

lemma length_queued [simp]: "length (queued q) = count q"
  by (simp add: queued_def)

lemma nth_queued: "i < count q \<Longrightarrow> queued q ! i = slots q ! ((head q + i) mod READY_QUEUE_SIZE)"
  by (simp add: queued_def)

lemma ring_slot_eq_iff:
  fixes h i j n :: nat
  assumes "i < n" and "j < n"
  shows "(h + i) mod n = (h + j) mod n \<longleftrightarrow> i = j"
proof
  assume "(h + i) mod n = (h + j) mod n"
  then obtain a b where "h + i + n * a = h + j + n * b" by (auto simp: nat_mod_eq_iff)
  then have "i + n * a = j + n * b" by simp
  then have "i mod n = j mod n" by (auto simp: nat_mod_eq_iff)
  then show "i = j" using assms by simp
qed simp

lemma rq_slot_lt [simp]: "rq_inv q \<Longrightarrow> x mod READY_QUEUE_SIZE < length (slots q)"
  by (simp add: rq_inv_def)

lemma ready_enqueue_full: "count q = READY_QUEUE_SIZE \<Longrightarrow> ready_enqueue p q = (-1, q)"
  by (simp add: ready_enqueue_def)

lemma ready_enqueue_room:
  assumes "rq_inv q" and "p \<noteq> 0" and "count q < READY_QUEUE_SIZE"
  shows "\<exists>q'. ready_enqueue p q = (0, q') \<and> rq_inv q' \<and> queued q' = queued q @ [p]"
proof -
  let ?q = "q\<lparr>slots := (slots q)[(head q + count q) mod READY_QUEUE_SIZE := p], count := count q + 1\<rparr>"
  have "queued ?q = queued q @ [p]"
  proof (rule nth_equalityI)
    fix i assume "i < length (queued ?q)"
    then have i: "i < Suc (count q)" by simp
    then have "(head q + i) mod READY_QUEUE_SIZE = (head q + count q) mod READY_QUEUE_SIZE \<longleftrightarrow> i = count q"
      using assms(3) by (intro ring_slot_eq_iff) auto
    then show "queued ?q ! i = (queued q @ [p]) ! i"
      using i assms(1) by (auto simp: nth_queued nth_append nth_list_update less_Suc_eq)
  qed simp
  then show ?thesis using assms by (auto simp: ready_enqueue_def rq_inv_def)
qed

lemma ready_dequeue_empty: "count q = 0 \<Longrightarrow> ready_dequeue q = (0, q)"
  by (simp add: ready_dequeue_def)

lemma ready_dequeue_first:
  assumes "rq_inv q" and "queued q = p # ps"
  shows "\<exists>q'. ready_dequeue q = (p, q') \<and> rq_inv q' \<and> queued q' = ps"
proof -
  let ?q = "q\<lparr>head := (head q + 1) mod READY_QUEUE_SIZE, count := count q - 1\<rparr>"
  have c: "count q = Suc (length ps)" using assms(2) by (metis length_Cons length_queued)
  have "head q < READY_QUEUE_SIZE" using assms(1) by (simp add: rq_inv_def)
  moreover have "p = queued q ! 0" using assms(2) by simp
  ultimately have p: "p = slots q ! head q" using c by (simp add: nth_queued)
  have "queued ?q = ps"
  proof (rule nth_equalityI)
    fix i assume "i < length (queued ?q)"
    then have i: "i < length ps" using c by simp
    have "ps ! i = queued q ! Suc i" using assms(2) by simp
    then show "queued ?q ! i = ps ! i" using i c by (simp add: nth_queued mod_add_left_eq)
  qed (use c in simp)
  then show ?thesis using p c assms(1) by (auto simp: ready_dequeue_def rq_inv_def)
qed

text \<open>Removal closes the hole and keeps the order of the others.\<close>

lemma close_hole_keeps [simp]:
  "head (close_hole j n q) = head q" "count (close_hole j n q) = count q"
  "length (slots (close_hole j n q)) = length (slots q)"
  by (induction j n q rule: close_hole.induct) auto

lemma nth_close_hole:
  assumes "length (slots q) = READY_QUEUE_SIZE" and "j + n < READY_QUEUE_SIZE" and "i < READY_QUEUE_SIZE"
  shows "slots (close_hole j n q) ! ((head q + i) mod READY_QUEUE_SIZE) =
         (if j \<le> i \<and> i < j + n then slots q ! ((head q + i + 1) mod READY_QUEUE_SIZE)
          else slots q ! ((head q + i) mod READY_QUEUE_SIZE))"
  using assms
proof (induction j n q arbitrary: i rule: close_hole.induct)
  case (2 j n q)
  have slot: "(head q + a) mod READY_QUEUE_SIZE = (head q + j) mod READY_QUEUE_SIZE \<longleftrightarrow> a = j"
    if "a < READY_QUEUE_SIZE" for a using that 2(3) by (intro ring_slot_eq_iff) auto
  have "Suc i < READY_QUEUE_SIZE" if "i < j + Suc n" using that 2(3) by simp
  then show ?case using 2 slot[of i] slot[of "Suc i"] by (auto simp: nth_list_update)
qed auto

lemma queued_close_hole:
  assumes "rq_inv q" and "i < count q"
  shows "queued ((close_hole i (count q - 1 - i) q)\<lparr>count := count q - 1\<rparr>) = take i (queued q) @ drop (Suc i) (queued q)"
  using assms
  by (intro nth_equalityI) (auto simp: nth_queued nth_close_hole rq_inv_def nth_append)

lemma remove_from_queued:
  assumes "rq_inv q" and "i + n = count q" and "p \<notin> set (take i (queued q))"
  shows "rq_inv (remove_from i n p q) \<and> queued (remove_from i n p q) = remove1 p (queued q)"
  using assms
proof (induction i n p q rule: remove_from.induct)
  case (1 i p q)
  then show ?case by (simp add: remove1_idem)
next
  case (2 i n p q)
  have i: "i < count q" using 2(3) by simp
  have split: "queued q = take i (queued q) @ queued q ! i # drop (Suc i) (queued q)"
    using i by (simp add: id_take_nth_drop)
  show ?case
  proof (cases "queued q ! i = p")
    case True
    have "remove1 p (queued q) = take i (queued q) @ drop (Suc i) (queued q)"
      using 2(4) True by (subst split) (simp add: remove1_append)
    then show ?thesis using queued_close_hole[OF 2(2) i] True i 2(2) by (auto simp: nth_queued rq_inv_def)
  next
    case False
    then have "p \<notin> set (take (Suc i) (queued q))" using 2(4) i by (simp add: take_Suc_conv_app_nth)
    then show ?thesis using 2 False i by (simp add: nth_queued)
  qed
qed

lemma ready_remove_queued:
  assumes "rq_inv q"
  shows "rq_inv (ready_remove p q)" and "queued (ready_remove p q) = remove1 p (queued q)"
  using remove_from_queued[of q 0 "count q" p] assms by (auto simp: ready_remove_def)

section \<open>The ready queue meets the contract\<close>

definition rq_enq :: "u32 \<Rightarrow> ready_queue \<Rightarrow> ready_queue option" where
  "rq_enq p q = (case ready_enqueue p q of (r, q') \<Rightarrow> if r = 0 then Some q' else None)"

definition rq_deq :: "ready_queue \<Rightarrow> (u32 \<times> ready_queue) option" where
  "rq_deq q = (case ready_dequeue q of (p, q') \<Rightarrow> if p = 0 then None else Some (p, q'))"

definition rq_ok :: "ready_queue \<Rightarrow> bool" where
  "rq_ok q \<longleftrightarrow> rq_inv q \<and> 0 \<notin> set (queued q)"

interpretation rq: bounded_queue rq_ok queued READY_QUEUE_SIZE "\<lambda>p. p \<noteq> 0" rq_enq rq_deq
proof
  show "length (queued q) \<le> READY_QUEUE_SIZE" if "rq_ok q" for q
    using that by (simp add: rq_ok_def rq_inv_def)
  show "rq_enq p q = None" if "rq_ok q" "p \<noteq> 0" "length (queued q) = READY_QUEUE_SIZE" for q p
    using that by (simp add: rq_enq_def ready_enqueue_full)
  show "\<exists>q'. rq_enq p q = Some q' \<and> rq_ok q' \<and> queued q' = queued q @ [p]"
    if "rq_ok q" "p \<noteq> 0" "length (queued q) < READY_QUEUE_SIZE" for q p
    using that ready_enqueue_room[of q p] by (auto simp: rq_enq_def rq_ok_def)
  show "rq_deq q = None" if "rq_ok q" "queued q = []" for q
  proof -
    have "count q = 0" using that(2) by (metis length_queued list.size(3))
    then show ?thesis by (simp add: rq_deq_def ready_dequeue_empty)
  qed
  show "\<exists>q'. rq_deq q = Some (p, q') \<and> rq_ok q' \<and> queued q' = ps" if "rq_ok q" "queued q = p # ps" for q p ps
    using that ready_dequeue_first[of q p ps] by (auto simp: rq_deq_def rq_ok_def)
qed

section \<open>Properties\<close>

text \<open>C11. The ready queue is a FIFO of 64 process pointers: from any state of the
  ring, any interleaving of enqueues (of non-null pointers) and dequeues returns
  exactly what the same interleaving returns on a plain list bounded by 64,
  refusals and empty reads included, and leaves the ring with that list's contents;
  and removing a process deletes its first occurrence and nothing else.\<close>

theorem ready_queue_fifo:
  assumes "rq_ok q" and "list_all (op_elem (\<lambda>p. p \<noteq> 0)) ops"
  shows "(\<exists>rs q'. run_queue rq_enq rq_deq ops q = (rs, q') \<and> rq_ok q' \<and>
            run_queue (list_enq READY_QUEUE_SIZE) list_deq ops (queued q) = (rs, queued q')) \<and>
         rq_ok (ready_remove p q) \<and> queued (ready_remove p q) = remove1 p (queued q)"
proof -
  have "set (queued (ready_remove p q)) \<subseteq> set (queued q)"
    using assms(1) ready_remove_queued[of q p] by (simp add: rq_ok_def set_remove1_subset)
  then show ?thesis
    using rq.run_refines[OF assms] ready_remove_queued[of q p] assms(1) by (auto simp: rq_ok_def)
qed

definition rq_example :: ready_queue where
  "rq_example = \<lparr>slots = replicate 64 7, head = 63, count = 2\<rparr>"

lemma rq_example_ok: "rq_ok rq_example"
  by (simp add: rq_example_def rq_ok_def rq_inv_def queued_def READY_QUEUE_SIZE_def image_def)

theorem ready_queue_fifo_witness:
  "(\<exists>rs q'. run_queue rq_enq rq_deq [Enq 5, Deq, Deq, Deq, Deq] rq_example = (rs, q') \<and> rq_ok q' \<and>
      run_queue (list_enq READY_QUEUE_SIZE) list_deq [Enq 5, Deq, Deq, Deq, Deq] (queued rq_example) = (rs, queued q')) \<and>
   rq_ok (ready_remove 7 rq_example) \<and> queued (ready_remove 7 rq_example) = remove1 7 (queued rq_example)"
  by (rule ready_queue_fifo[OF rq_example_ok]) simp

end
