(* ===== verification/Namespace.thy ===== *)
theory Namespace
  imports Kstring "HOL-Library.Sublist"
begin

text \<open>
  Per-process mount namespaces (\<open>sys/src/kernel/namespace.c\<close>): a table of at most
  16 pairs of paths kept in fixed character arrays. A character array is a list of
  bytes of its declared length, a C string argument is the list of its characters
  without the terminator, and a null pointer is \<open>None\<close>. The result \<open>None\<close> of the
  resolver stands for the reads outside an object the source performs.
\<close>

section \<open>Strings in character arrays\<close>

definition cstr :: "u8 list \<Rightarrow> u8 list" where
  "cstr a = takeWhile (\<lambda>c. c \<noteq> 0) a"

text \<open>\<open>mkrn_strncpy\<close> and \<open>mkrn_strcat\<close> seen on the array they write to.\<close>

definition strncpy_arr :: "u8 list \<Rightarrow> u8 list \<Rightarrow> nat \<Rightarrow> u8 list" where
  "strncpy_arr a s n = take n (s @ replicate n 0) @ drop n a"

definition strcat_arr :: "u8 list \<Rightarrow> u8 list \<Rightarrow> u8 list" where
  "strcat_arr a s = take (length (cstr a)) a @ s @ [0] @ drop (length (cstr a) + length s + 1) a"

section \<open>The namespace table\<close>

definition M4K_NS_ENTRIES :: nat where "M4K_NS_ENTRIES = 16"
definition M4K_NS_PATH_MAX :: nat where "M4K_NS_PATH_MAX = 256"

record ns_entry =
  mnt_path :: "u8 list"
  target_path :: "u8 list"
  mnt_flags :: u32

record namespace =
  entries :: "ns_entry list"
  entry_count :: nat

definition mkrn_ns_init :: namespace where
  "mkrn_ns_init =
     \<lparr>entries = replicate M4K_NS_ENTRIES
        \<lparr>mnt_path = replicate M4K_NS_PATH_MAX 0, target_path = replicate M4K_NS_PATH_MAX 0, mnt_flags = 0\<rparr>,
      entry_count = 0\<rparr>"

definition mkrn_ns_set :: "u8 list option \<Rightarrow> u8 list option \<Rightarrow> u32 \<Rightarrow> namespace \<Rightarrow> int \<times> namespace" where
  "mkrn_ns_set path target flags ns =
     (case (path, target) of
        (Some p, Some t) \<Rightarrow>
          if M4K_NS_ENTRIES \<le> entry_count ns then (-1, ns)
          else
            let e = entries ns ! entry_count ns;
                m = (strncpy_arr (mnt_path e) p (M4K_NS_PATH_MAX - 1))[M4K_NS_PATH_MAX - 1 := 0];
                g = (strncpy_arr (target_path e) t (M4K_NS_PATH_MAX - 1))[M4K_NS_PATH_MAX - 1 := 0]
            in (0, ns\<lparr>entries := (entries ns)[entry_count ns := \<lparr>mnt_path = m, target_path = g, mnt_flags = flags\<rparr>],
                      entry_count := entry_count ns + 1\<rparr>)
      | _ \<Rightarrow> (-1, ns))"

text \<open>The tail of the path is first copied into a local buffer of 256 bytes of
  which only the first is initialised: a tail of 255 characters or more leaves it
  without a terminator. A tail after an empty target path reads the byte before
  \<open>out\<close>.\<close>

definition join_target :: "u8 list \<Rightarrow> u8 list \<Rightarrow> u8 list \<Rightarrow> nat \<Rightarrow> (int \<times> u8 list) option" where
  "join_target target tail out out_sz =
     (if 255 \<le> length tail then None
      else
        let out1 = (strncpy_arr out target (out_sz - 1))[out_sz - 1 := 0];
            olen = length (cstr out1)
        in if tail \<noteq> [] \<and> olen + length tail + 1 < out_sz
           then if olen = 0 then None
                else let out2 = (if out1 ! (olen - 1) = 47 then out1[olen - 1 := 0] else out1)
                     in Some (0, strcat_arr out2 tail)
           else Some (0, out1))"

fun resolve_entries :: "ns_entry list \<Rightarrow> u8 list \<Rightarrow> u8 list \<Rightarrow> nat \<Rightarrow> (int \<times> u8 list) option" where
  "resolve_entries [] path out out_sz = Some (-1, out)"
| "resolve_entries (e # es) path out out_sz =
     (let mnt = cstr (mnt_path e); mlen = length mnt
      in if take mlen path \<noteq> mnt then resolve_entries es path out out_sz
         else if mlen < length path \<and> path ! mlen = 47
              then join_target (cstr (target_path e)) (drop mlen path) out out_sz
         else if mlen = length path then join_target (cstr (target_path e)) [] out out_sz
         else resolve_entries es path out out_sz)"

definition mkrn_ns_resolve :: "u8 list option \<Rightarrow> u8 list option \<Rightarrow> nat \<Rightarrow> namespace \<Rightarrow> (int \<times> u8 list option) option" where
  "mkrn_ns_resolve path out out_sz ns =
     (case (path, out) of
        (Some p, Some b) \<Rightarrow>
          if out_sz = 0 then Some (-1, out)
          else map_option (map_prod id Some) (resolve_entries (take (entry_count ns) (entries ns)) p b out_sz)
      | _ \<Rightarrow> Some (-1, out))"

definition mkrn_ns_copy :: "namespace \<Rightarrow> namespace \<Rightarrow> namespace" where
  "mkrn_ns_copy dst src = src"

section \<open>Lemmas on character arrays\<close>

definition is_cstr :: "u8 list \<Rightarrow> bool" where "is_cstr s \<longleftrightarrow> 0 \<notin> set s"

lemma cstr_append_nul [simp]: "is_cstr s \<Longrightarrow> cstr (s @ 0 # t) = s"
  by (auto simp: is_cstr_def cstr_def takeWhile_append2 intro: takeWhile_append2 [THEN trans])

lemma is_cstr_take [simp]: "is_cstr s \<Longrightarrow> is_cstr (take n s)"
  by (auto simp: is_cstr_def dest: in_set_takeD)

lemma is_cstr_drop [simp]: "is_cstr s \<Longrightarrow> is_cstr (drop n s)"
  by (auto simp: is_cstr_def dest: in_set_dropD)

lemma is_cstr_cstr [simp]: "is_cstr (cstr a)"
  by (auto simp: is_cstr_def cstr_def dest: set_takeWhileD)

lemma strncpy_terminated:
  assumes "n < length a" and "is_cstr s"
  shows "cstr ((strncpy_arr a s n)[n := 0]) = take n s" and "length ((strncpy_arr a s n)[n := 0]) = length a"
proof -
  have split: "(strncpy_arr a s n)[n := 0] = take n (s @ replicate n 0) @ 0 # drop (Suc n) a"
  proof -
    let ?x = "take n (s @ replicate n 0)"
    have "length ?x = n" by simp
    then have "(?x @ a ! n # drop (Suc n) a)[n := 0] = ?x @ 0 # drop (Suc n) a"
      using list_update_length[of ?x "a ! n" "drop (Suc n) a" 0] by simp
    then show ?thesis using assms(1) by (simp add: strncpy_arr_def Cons_nth_drop_Suc)
  qed
  show "length ((strncpy_arr a s n)[n := 0]) = length a" using assms(1) by (simp add: strncpy_arr_def)
  show "cstr ((strncpy_arr a s n)[n := 0]) = take n s"
  proof (cases "n \<le> length s")
    case True
    then show ?thesis using assms(2) by (simp add: split)
  next
    case False
    then obtain k where k: "n - length s = Suc k" by (metis Suc_diff_Suc not_less)
    have "min (n - length s) n = Suc k" using k by simp
    then show ?thesis using assms(2) False by (simp add: split)
  qed
qed

text \<open>The array view agrees with the routine of \<open>string.c\<close> on memory.\<close>

definition bytes_at :: "u32 \<Rightarrow> nat \<Rightarrow> mem \<Rightarrow> u8 list" where
  "bytes_at a n m = map (\<lambda>i. m (a + of_nat i)) [0..<n]"

lemma nth_strncpy_arr:
  assumes "n \<le> length a" and "i < length a"
  shows "strncpy_arr a s n ! i = (if i < n then if i < length s then s ! i else 0 else a ! i)"
proof -
  have "length (take n (s @ replicate n 0)) = n" by simp
  then show ?thesis using assms by (auto simp: strncpy_arr_def nth_append)
qed

lemma length_strncpy_arr [simp]: "n \<le> length a \<Longrightarrow> length (strncpy_arr a s n) = length a"
  by (simp add: strncpy_arr_def)

lemma strncpy_arr_refines:
  assumes "str_at m s cs" and "unat (s - d) + Suc (length cs) \<le> 2 ^ 32" and "unat n \<le> len" and "len < 2 ^ 32"
  shows "bytes_at d len (mkrn_strncpy d s n m) = strncpy_arr (bytes_at d len m) cs (unat n)"
proof -
  have "mkrn_strncpy d s n m = ncopied d cs (unat n) m"
    using strncpy_loop_ncopied[of m s cs d 0 "unat n"] assms unsigned_less[of n, where ?'a = nat]
    by (simp add: mkrn_strncpy_def ncopied_def)
  moreover have "bytes_at d len (ncopied d cs (unat n) m) = strncpy_arr (bytes_at d len m) cs (unat n)"
    using assms(3,4)
    by (intro nth_equalityI)
      (auto simp: bytes_at_def nth_strncpy_arr ncopied_def unat_of_nat Let_def)
  ultimately show ?thesis by simp
qed

lemma strcat_terminated:
  assumes "cstr a = x" and "is_cstr s" and "length x + length s < length a"
  shows "cstr (strcat_arr a s) = x @ s" and "length (strcat_arr a s) = length a"
proof -
  obtain t where a: "a = x @ t" using assms(1) by (metis cstr_def takeWhile_dropWhile_id)
  have "take (length x) a = x" by (simp add: a)
  moreover have "is_cstr (x @ s)" using assms(1,2) is_cstr_cstr[of a] by (auto simp: is_cstr_def)
  ultimately show "cstr (strcat_arr a s) = x @ s"
    using cstr_append_nul[of "x @ s"] assms(1) by (simp add: strcat_arr_def)
  show "length (strcat_arr a s) = length a" using assms by (simp add: strcat_arr_def)
qed

lemma cstr_cut_last:
  assumes "cstr a = x @ [c]" and "length x < length a"
  shows "cstr (a[length x := 0]) = x"
proof -
  obtain t where a: "a = (x @ [c]) @ t" using assms(1) by (metis cstr_def takeWhile_dropWhile_id)
  have "take (length x) a = x" by (simp add: a)
  then have "a[length x := 0] = x @ 0 # drop (Suc (length x)) a"
    using assms(2) by (metis upd_conv_take_nth_drop)
  moreover have "is_cstr x" using assms(1) is_cstr_cstr[of a] by (auto simp: is_cstr_def)
  ultimately show ?thesis by simp
qed

section \<open>What the table means\<close>

definition ns_ok :: "namespace \<Rightarrow> bool" where
  "ns_ok ns \<longleftrightarrow> length (entries ns) = M4K_NS_ENTRIES \<and> entry_count ns \<le> M4K_NS_ENTRIES \<and>
     (\<forall>e \<in> set (entries ns). length (mnt_path e) = M4K_NS_PATH_MAX \<and> length (target_path e) = M4K_NS_PATH_MAX)"

definition ns_abs :: "namespace \<Rightarrow> (u8 list \<times> u8 list) list" where
  "ns_abs ns = map (\<lambda>e. (cstr (mnt_path e), cstr (target_path e))) (take (entry_count ns) (entries ns))"

definition covers :: "u8 list \<Rightarrow> u8 list \<Rightarrow> bool" where
  "covers mnt path \<longleftrightarrow> (\<exists>tail. path = mnt @ tail \<and> (tail = [] \<or> hd tail = 47))"

definition splice_path :: "u8 list \<Rightarrow> u8 list \<Rightarrow> u8 list" where
  "splice_path target tail =
     (if tail = [] then target else (if last target = 47 then butlast target else target) @ tail)"

lemma ns_init_ok: "ns_ok mkrn_ns_init" and ns_init_abs: "ns_abs mkrn_ns_init = []"
  by (auto simp: ns_ok_def ns_abs_def mkrn_ns_init_def)

lemma ns_set_full: "entry_count ns = M4K_NS_ENTRIES \<Longrightarrow> mkrn_ns_set path target flags ns = (-1, ns)"
  by (auto simp: mkrn_ns_set_def split: option.split)

lemma ns_set_abs:
  assumes "ns_ok ns" and "entry_count ns < M4K_NS_ENTRIES" and "is_cstr p" and "is_cstr t"
  shows "\<exists>ns'. mkrn_ns_set (Some p) (Some t) flags ns = (0, ns') \<and> ns_ok ns' \<and>
           ns_abs ns' = ns_abs ns @ [(take 255 p, take 255 t)]"
proof -
  let ?e = "entries ns ! entry_count ns"
  let ?m = "(strncpy_arr (mnt_path ?e) p 255)[255 := 0]"
  let ?g = "(strncpy_arr (target_path ?e) t 255)[255 := 0]"
  let ?n = "\<lparr>mnt_path = ?m, target_path = ?g, mnt_flags = flags\<rparr>"
  have i: "entry_count ns < length (entries ns)" using assms by (simp add: ns_ok_def)
  then have "?e \<in> set (entries ns)" by simp
  then have len: "length (mnt_path ?e) = 256" "length (target_path ?e) = 256"
    using assms(1) by (auto simp: ns_ok_def M4K_NS_PATH_MAX_def)
  have m: "cstr ?m = take 255 p" "length ?m = 256"
    using strncpy_terminated[of 255 "mnt_path ?e" p] assms(3) len by simp_all
  have g: "cstr ?g = take 255 t" "length ?g = 256"
    using strncpy_terminated[of 255 "target_path ?e" t] assms(4) len by simp_all
  have "take (Suc (entry_count ns)) ((entries ns)[entry_count ns := ?n]) = take (entry_count ns) (entries ns) @ [?n]"
    using i by (simp add: take_Suc_conv_app_nth)
  moreover have "set ((entries ns)[entry_count ns := ?n]) \<subseteq> insert ?n (set (entries ns))"
    by (rule set_update_subset_insert)
  ultimately show ?thesis
    using assms m g by (fastforce simp: mkrn_ns_set_def ns_ok_def ns_abs_def M4K_NS_PATH_MAX_def Let_def)
qed

lemma join_target_splice:
  assumes "is_cstr target" and "target \<noteq> []" and "is_cstr tail" and "length tail < 255"
    and "length target + length tail + 1 < out_sz" and "out_sz \<le> length out"
  shows "\<exists>out'. join_target target tail out out_sz = Some (0, out') \<and>
           cstr out' = splice_path target tail \<and> length out' = length out"
proof -
  define out1 where "out1 = (strncpy_arr out target (out_sz - 1))[out_sz - 1 := 0]"
  have o1: "cstr out1 = target" "length out1 = length out"
    using strncpy_terminated[of "out_sz - 1" out target] assms by (auto simp: out1_def)
  show ?thesis
  proof (cases "tail = []")
    case True
    then show ?thesis using o1 by (simp add: join_target_def splice_path_def out1_def Let_def)
  next
    case False
    define t where "t = (if last target = 47 then butlast target else target)"
    define out2 where "out2 = (if out1 ! (length target - 1) = 47 then out1[length target - 1 := 0] else out1)"
    obtain x c where xc: "target = x @ [c]" using assms(2) by (cases target rule: rev_cases) auto
    obtain r where r: "out1 = (x @ [c]) @ r" using o1(1) xc by (metis cstr_def takeWhile_dropWhile_id)
    have c: "out1 ! (length target - 1) = c" using r xc by (simp add: nth_append)
    have "length x < length out1" using r by simp
    then have o2: "cstr out2 = t" "length out2 = length out"
      using cstr_cut_last[of out1 x c] o1 c xc by (auto simp: out2_def t_def)
    have "length t + length tail < length out2" using assms(5,6) o2(2) by (auto simp: t_def)
    then have "cstr (strcat_arr out2 tail) = t @ tail" "length (strcat_arr out2 tail) = length out"
      using strcat_terminated[OF o2(1) assms(3)] o2(2) by simp_all
    moreover have "join_target target tail out out_sz = Some (0, strcat_arr out2 tail)"
      using False assms(2,4,5) unfolding join_target_def Let_def out1_def[symmetric] out2_def o1(1) by simp
    ultimately show ?thesis using False by (simp add: splice_path_def t_def)
  qed
qed

lemma covers_iff:
  "covers mnt path \<longleftrightarrow> take (length mnt) path = mnt \<and>
     (length mnt < length path \<and> path ! length mnt = 47 \<or> length mnt = length path)"
proof
  assume "covers mnt path"
  then obtain tail where "path = mnt @ tail" "tail = [] \<or> hd tail = 47" by (auto simp: covers_def)
  then show "take (length mnt) path = mnt \<and>
     (length mnt < length path \<and> path ! length mnt = 47 \<or> length mnt = length path)"
    by (cases tail) auto
next
  assume h: "take (length mnt) path = mnt \<and>
     (length mnt < length path \<and> path ! length mnt = 47 \<or> length mnt = length path)"
  then have "path = mnt @ drop (length mnt) path" by (metis append_take_drop_id)
  moreover have "drop (length mnt) path = [] \<or> hd (drop (length mnt) path) = 47"
    using h by (elim conjE disjE) (simp_all add: hd_drop_conv_nth)
  ultimately show "covers mnt path" unfolding covers_def by blast
qed

lemma resolve_entries_find:
  assumes "is_cstr path" and "length path < 255" and "out_sz \<le> length out"
    and "\<forall>e \<in> set es. cstr (target_path e) \<noteq> [] \<and> length (cstr (target_path e)) + length path + 1 < out_sz"
  shows "case find (\<lambda>(m, t). covers m path) (map (\<lambda>e. (cstr (mnt_path e), cstr (target_path e))) es) of
      None \<Rightarrow> resolve_entries es path out out_sz = Some (-1, out)
    | Some (m, t) \<Rightarrow> \<exists>out'. resolve_entries es path out out_sz = Some (0, out') \<and>
         cstr out' = splice_path t (drop (length m) path) \<and> length out' = length out"
  using assms(4)
proof (induction es)
  case (Cons e es)
  let ?m = "cstr (mnt_path e)" and ?t = "cstr (target_path e)"
  show ?case
  proof (cases "covers ?m path")
    case True
    have j: "\<exists>out'. join_target ?t (drop (length ?m) path) out out_sz = Some (0, out') \<and>
        cstr out' = splice_path ?t (drop (length ?m) path) \<and> length out' = length out"
      using Cons.prems assms(1-3) by (intro join_target_splice) auto
    have "resolve_entries (e # es) path out out_sz = join_target ?t (drop (length ?m) path) out out_sz"
      using True[unfolded covers_iff] by (elim conjE disjE) (simp_all add: Let_def)
    then show ?thesis using True j by (simp del: resolve_entries.simps)
  next
    case False
    then have "resolve_entries (e # es) path out out_sz = resolve_entries es path out out_sz"
      by (auto simp: covers_iff Let_def)
    then show ?thesis using Cons False by (simp del: resolve_entries.simps split: option.splits prod.splits)
  qed
qed simp

section \<open>Properties\<close>

text \<open>The namespace table is an ordered list of mount pairs: setting an
  entry appends the pair, cut at 255 characters, until the table has 16, and
  fails without effect afterwards; resolving a path picks the first mount point
  that covers whole components of it and writes the target followed by the rest
  of the path (one slash between them) to the buffer, and returns -1 with the
  buffer untouched when no mount point covers it.\<close>

theorem namespace_correct:
  assumes "ns_ok ns" and "is_cstr p" and "is_cstr t" and "is_cstr path" and "length path < 255"
    and "out_sz \<le> length out" and "0 < out_sz"
    and "\<forall>(m, t) \<in> set (ns_abs ns). t \<noteq> [] \<and> length t + length path + 1 < out_sz"
  shows "(if entry_count ns = M4K_NS_ENTRIES then mkrn_ns_set (Some p) (Some t) flags ns = (-1, ns)
          else \<exists>ns'. mkrn_ns_set (Some p) (Some t) flags ns = (0, ns') \<and> ns_ok ns' \<and>
                 ns_abs ns' = ns_abs ns @ [(take 255 p, take 255 t)]) \<and>
         (case find (\<lambda>(m, t). covers m path) (ns_abs ns) of
            None \<Rightarrow> mkrn_ns_resolve (Some path) (Some out) out_sz ns = Some (-1, Some out)
          | Some (m, t) \<Rightarrow> \<exists>out'. mkrn_ns_resolve (Some path) (Some out) out_sz ns = Some (0, Some out') \<and>
               cstr out' = splice_path t (drop (length m) path) \<and> length out' = length out)"
proof
  show "if entry_count ns = M4K_NS_ENTRIES then mkrn_ns_set (Some p) (Some t) flags ns = (-1, ns)
          else \<exists>ns'. mkrn_ns_set (Some p) (Some t) flags ns = (0, ns') \<and> ns_ok ns' \<and>
                 ns_abs ns' = ns_abs ns @ [(take 255 p, take 255 t)]"
    using ns_set_full ns_set_abs[OF assms(1) _ assms(2,3)] assms(1) by (auto simp: ns_ok_def)
  have "\<forall>e \<in> set (take (entry_count ns) (entries ns)).
      cstr (target_path e) \<noteq> [] \<and> length (cstr (target_path e)) + length path + 1 < out_sz"
    using assms(8) by (auto simp: ns_abs_def)
  from resolve_entries_find[OF assms(4-6) this]
  show "case find (\<lambda>(m, t). covers m path) (ns_abs ns) of
            None \<Rightarrow> mkrn_ns_resolve (Some path) (Some out) out_sz ns = Some (-1, Some out)
          | Some (m, t) \<Rightarrow> \<exists>out'. mkrn_ns_resolve (Some path) (Some out) out_sz ns = Some (0, Some out') \<and>
               cstr out' = splice_path t (drop (length m) path) \<and> length out' = length out"
    using assms(7) by (auto simp: ns_abs_def mkrn_ns_resolve_def split: option.splits)
qed

text \<open>A namespace that mounts \<open>/a\<close> (47, 97) on \<open>/b/\<close> (47, 98, 47).\<close>

definition ns_example :: namespace where
  "ns_example = snd (mkrn_ns_set (Some [47, 97]) (Some [47, 98, 47]) 0 mkrn_ns_init)"

lemma ns_init_count: "entry_count mkrn_ns_init < M4K_NS_ENTRIES"
  by (simp add: mkrn_ns_init_def M4K_NS_ENTRIES_def)

lemma ns_example_facts: "ns_ok ns_example" "ns_abs ns_example = [([47, 97], [47, 98, 47])]"
  using ns_set_abs[OF ns_init_ok ns_init_count, of "[47, 97]" "[47, 98, 47]" 0]
  by (auto simp: ns_example_def ns_init_abs is_cstr_def)

theorem namespace_correct_witness:
  "\<exists>out'. mkrn_ns_resolve (Some [47, 97, 47, 99]) (Some (replicate 64 1)) 64 ns_example = Some (0, Some out') \<and>
     cstr out' = [47, 98, 47, 99]"
proof -
  have c: "covers [47, 97] [47, 97, 47, 99]" by (simp add: covers_iff)
  show ?thesis
    using namespace_correct[OF ns_example_facts(1), of "[]" "[]" "[47, 97, 47, 99]" 64 "replicate 64 1" 0]
    by (auto simp: ns_example_facts(2) c is_cstr_def splice_path_def)
qed

end
