(* ===== verification/Process.thy ===== *)
theory Process
  imports Queue Namespace Kstrtox PageAlloc
begin

text \<open>
  Processes and the scheduler (\<open>sys/src/kernel/process.c\<close>, \<open>signal.c\<close>). Process
  control blocks are records in a store indexed by their address; a null pointer is
  the address 0. The registry \<open>all_procs\<close>, a list linked through \<open>next\<close> in the
  source, is the list of the addresses in link order. The machine around the
  scheduler is explicit: \<open>esp0\<close> is the TSS kernel stack, \<open>ram\<close> the memory the
  stacks live in, \<open>pmem\<close> the page allocator, \<open>heap_freed\<close> the blocks handed back
  to the kernel heap, and the uptime and PIT frequency are arguments. Messages on
  the console are left out.
\<close>

section \<open>State\<close>

record rlimit =
  rlim_cur :: u64
  rlim_max :: u64

record proc =
  pid :: u32
  ppid :: u32
  uid :: u32
  euid :: u32
  gid :: u32
  egid :: u32
  group_count :: u32
  group_list :: "u32 list"
  rlimits :: "rlimit list"
  priority :: u32
  thread_esp :: u32
  kernel_stack :: u32
  user_stack_base :: u32
  user_frame :: "u32 list"
  sleep_ticks :: u32
  last_resume_ms :: u32
  exit_status :: u32
  pending_signals :: u32
  state_tags :: u64
  mem_kb :: u32
  proc_name :: "u8 list"
  proc_cwd :: "u8 list"
  envp :: u32
  proc_ns :: namespace

record kproc =
  procs :: "u32 \<Rightarrow> proc"
  all_procs :: "u32 list"
  all_procs_count :: u32
  ready :: ready_queue
  current :: u32
  g_current_process :: u32
  scheduler_enabled :: bool
  process_count :: u32
  next_pid :: u32
  u32TimerWaiters :: u32
  g_switch_esp :: u32
  esp0 :: u32
  ram :: mem
  pmem :: mstate
  heap_freed :: "u32 list"

definition M4K_EPERM :: int where "M4K_EPERM = 0x4D000001"
definition M4K_UID_ROOT :: u32 where "M4K_UID_ROOT = 0"
definition M4K_GID_ROOT :: u32 where "M4K_GID_ROOT = 0"
definition M4K_GID_PRIME :: u32 where "M4K_GID_PRIME = 1001"
definition M4K_RLIMIT_NLIMITS :: int where "M4K_RLIMIT_NLIMITS = 6"
definition M4K_STACK_SIZE :: u32 where "M4K_STACK_SIZE = 65536"

definition M4K_SCHED_READY :: u64 where "M4K_SCHED_READY = 0x00000001"
definition M4K_SCHED_RUNNING :: u64 where "M4K_SCHED_RUNNING = 0x00000002"
definition M4K_SCHED_SLEEPING :: u64 where "M4K_SCHED_SLEEPING = 0x00000004"
definition M4K_WAIT_TIMER :: u64 where "M4K_WAIT_TIMER = 0x00000400"
definition M4K_STOPPED :: u64 where "M4K_STOPPED = 0x00020000"
definition M4K_TERMINATE :: u64 where "M4K_TERMINATE = 0x00040000"
definition M4K_ZOMBIE :: u64 where "M4K_ZOMBIE = 0x01000000"
definition M4K_IDLE :: u64 where "M4K_IDLE = 0x02000000"
definition M4K_STATE_SCHED_MASK :: u64 where "M4K_STATE_SCHED_MASK = 0x00000007"
definition M4K_STATE_RESERVED :: u64 where "M4K_STATE_RESERVED = NOT 0x0307FF07"

definition has :: "u64 \<Rightarrow> u64 \<Rightarrow> bool" where "has t m \<longleftrightarrow> t AND m \<noteq> 0"
definition clr :: "u64 \<Rightarrow> u64 \<Rightarrow> u64" where "clr m t = t AND NOT m"
definition put :: "u64 \<Rightarrow> u64 \<Rightarrow> u64" where "put m t = t OR m"

definition tags :: "kproc \<Rightarrow> u32 \<Rightarrow> u64" where
  "tags s p = state_tags (procs s p)"

definition upd :: "u32 \<Rightarrow> (proc \<Rightarrow> proc) \<Rightarrow> kproc \<Rightarrow> kproc" where
  "upd p f s = s\<lparr>procs := (procs s)(p := f (procs s p))\<rparr>"

definition upd_tags :: "u32 \<Rightarrow> (u64 \<Rightarrow> u64) \<Rightarrow> kproc \<Rightarrow> kproc" where
  "upd_tags p f = upd p (\<lambda>r. r\<lparr>state_tags := f (state_tags r)\<rparr>)"

section \<open>Ready queue and registry\<close>

definition mkrn_process_enqueue_ready :: "u32 \<Rightarrow> kproc \<Rightarrow> int \<times> kproc" where
  "mkrn_process_enqueue_ready p s =
     (let (r, q) = ready_enqueue p (ready s) in (r, s\<lparr>ready := q\<rparr>))"

definition dequeue :: "kproc \<Rightarrow> u32 \<times> kproc" where
  "dequeue s = (let (p, q) = ready_dequeue (ready s) in (p, s\<lparr>ready := q\<rparr>))"

definition proc_registry_add :: "u32 \<Rightarrow> kproc \<Rightarrow> kproc" where
  "proc_registry_add p s =
     (if p = 0 then s else s\<lparr>all_procs := p # all_procs s, all_procs_count := all_procs_count s + 1\<rparr>)"

definition proc_registry_remove :: "u32 \<Rightarrow> kproc \<Rightarrow> kproc" where
  "proc_registry_remove p s =
     (if p \<in> set (all_procs s)
      then s\<lparr>all_procs := remove1 p (all_procs s), all_procs_count := all_procs_count s - 1\<rparr>
      else s)"

definition stack_pages :: u32 where
  "stack_pages = drop_bit 12 (M4K_STACK_SIZE + 0xFFF)"

definition mkrn_free_at :: "u32 \<Rightarrow> kproc \<Rightarrow> kproc" where
  "mkrn_free_at a s = s\<lparr>heap_freed := a # heap_freed s\<rparr>"

text \<open>A stack goes back to the buddy zone or to the kernel heap by its address.\<close>

definition free_stack :: "u32 \<Rightarrow> kproc \<Rightarrow> kproc" where
  "free_stack base s =
     (if base \<ge> 0x3000000 then s\<lparr>pmem := mkrn_memory_free_page base stack_pages (pmem s)\<rparr>
      else mkrn_free_at base s)"

definition proc_free_zombie :: "u32 \<Rightarrow> kproc \<Rightarrow> kproc" where
  "proc_free_zombie p s =
     (let r = procs s p;
          s1 = (if user_stack_base r \<noteq> 0 then free_stack (user_stack_base r) s else s);
          s2 = (if kernel_stack r \<noteq> 0 then free_stack (kernel_stack r - M4K_STACK_SIZE) s1 else s1)
      in mkrn_free_at p (proc_registry_remove p s2))"

section \<open>Queries\<close>

definition mkrn_process_is_ready :: "u32 \<Rightarrow> kproc \<Rightarrow> bool" where
  "mkrn_process_is_ready x s = list_ex (\<lambda>p. pid (procs s p) = x) (queued (ready s))"

definition mkrn_process_find :: "u32 \<Rightarrow> kproc \<Rightarrow> u32" where
  "mkrn_process_find x s =
     (case find (\<lambda>p. pid (procs s p) = x) (all_procs s) of
        Some p \<Rightarrow> p
      | None \<Rightarrow> if current s \<noteq> 0 \<and> pid (procs s (current s)) = x then current s else 0)"

definition mkrn_process_get_tags :: "u32 \<Rightarrow> kproc \<Rightarrow> u32" where
  "mkrn_process_get_tags x s =
     (let p = mkrn_process_find x s in if p \<noteq> 0 then ucast (tags s p) else 0)"

definition mkrn_process_get_thread_esp :: "u32 \<Rightarrow> kproc \<Rightarrow> u32" where
  "mkrn_process_get_thread_esp x s =
     (let p = mkrn_process_find x s in if p \<noteq> 0 then thread_esp (procs s p) else 0)"

definition next_pid_op :: "kproc \<Rightarrow> u32 \<times> kproc" where
  "next_pid_op s = (next_pid s, s\<lparr>next_pid := next_pid s + 1\<rparr>)"

definition mkrn_process_get_pids :: "nat \<Rightarrow> kproc \<Rightarrow> u32 list" where
  "mkrn_process_get_pids lim s =
     (let ps = map (\<lambda>p. pid (procs s p)) (take lim (all_procs s));
          c = pid (procs s (current s))
      in if current s \<noteq> 0 \<and> length ps < lim \<and> c \<notin> set ps then ps @ [c] else ps)"

definition mkrn_process_get_pid :: "kproc \<Rightarrow> u32" where
  "mkrn_process_get_pid s = (if current s \<noteq> 0 then pid (procs s (current s)) else 0)"

definition mkrn_process_get_ppid :: "kproc \<Rightarrow> u32" where
  "mkrn_process_get_ppid s = (if current s \<noteq> 0 then ppid (procs s (current s)) else 0)"

definition mkrn_process_get_uid :: "kproc \<Rightarrow> u32" where
  "mkrn_process_get_uid s = (if current s \<noteq> 0 then uid (procs s (current s)) else 0)"

definition mkrn_process_get_euid :: "kproc \<Rightarrow> u32" where
  "mkrn_process_get_euid s = (if current s \<noteq> 0 then euid (procs s (current s)) else 0)"

definition mkrn_process_get_gid :: "kproc \<Rightarrow> u32" where
  "mkrn_process_get_gid s = (if current s \<noteq> 0 then gid (procs s (current s)) else 0)"

definition mkrn_process_get_egid :: "kproc \<Rightarrow> u32" where
  "mkrn_process_get_egid s = (if current s \<noteq> 0 then egid (procs s (current s)) else 0)"

section \<open>Credentials and limits\<close>

definition is_prime_member :: "kproc \<Rightarrow> bool" where
  "is_prime_member s =
     (if current s = 0 then False
      else let c = procs s (current s) in
        if egid c = M4K_GID_PRIME then True
        else list_ex (\<lambda>g. g = M4K_GID_PRIME) (take (unat (group_count c)) (group_list c)))"

definition mkrn_process_set_uid :: "u32 \<Rightarrow> kproc \<Rightarrow> int \<times> kproc" where
  "mkrn_process_set_uid x s =
     (if current s = 0 then (- M4K_EPERM, s)
      else let c = procs s (current s) in
        if euid c = M4K_UID_ROOT then (0, upd (current s) (\<lambda>r. r\<lparr>uid := x, euid := x\<rparr>) s)
        else if x = 0 \<and> is_prime_member s then (0, upd (current s) (\<lambda>r. r\<lparr>euid := x\<rparr>) s)
        else if x = uid c \<or> x = euid c then (0, upd (current s) (\<lambda>r. r\<lparr>euid := x\<rparr>) s)
        else (- M4K_EPERM, s))"

definition mkrn_process_set_gid :: "u32 \<Rightarrow> kproc \<Rightarrow> int \<times> kproc" where
  "mkrn_process_set_gid x s =
     (if current s = 0 then (- M4K_EPERM, s)
      else let c = procs s (current s) in
        if egid c = M4K_GID_ROOT then (0, upd (current s) (\<lambda>r. r\<lparr>gid := x, egid := x\<rparr>) s)
        else if x = gid c \<or> x = egid c then (0, upd (current s) (\<lambda>r. r\<lparr>egid := x\<rparr>) s)
        else (- M4K_EPERM, s))"

text \<open>The caller's array is \<open>None\<close> for a null pointer; the groups written to it are
  the second component.\<close>

definition mkrn_process_get_groups :: "bool \<Rightarrow> int \<Rightarrow> kproc \<Rightarrow> int \<times> u32 list" where
  "mkrn_process_get_groups has_list n0 s =
     (if current s = 0 then (- M4K_EPERM, [])
      else let c = procs s (current s); n = sint (group_count c) in
        if \<not> has_list \<or> n0 \<le> 0 then (n, [])
        else let m = (if n0 < n then n0 else n) in (m, take (nat m) (group_list c)))"

definition mkrn_process_set_groups :: "int \<Rightarrow> u32 list \<Rightarrow> kproc \<Rightarrow> int \<times> kproc" where
  "mkrn_process_set_groups n0 gs s =
     (if current s = 0 then (- M4K_EPERM, s)
      else if euid (procs s (current s)) \<noteq> M4K_UID_ROOT then (- M4K_EPERM, s)
      else let n = (if n0 < 0 then 0 else if n0 > 16 then 16 else nat n0)
           in (0, upd (current s)
                (\<lambda>r. r\<lparr>group_count := of_nat n,
                       group_list := array_copy (group_list r) 0 gs 0 n\<rparr>) s))"

definition mkrn_process_set_rlimit :: "int \<Rightarrow> rlimit option \<Rightarrow> kproc \<Rightarrow> int \<times> kproc" where
  "mkrn_process_set_rlimit resource rlp s =
     (if current s = 0 then (- M4K_EINVAL, s)
      else case rlp of
        None \<Rightarrow> (- M4K_EINVAL, s)
      | Some l \<Rightarrow>
          if resource < 0 \<or> resource \<ge> M4K_RLIMIT_NLIMITS then (- M4K_EINVAL, s)
          else let c = procs s (current s); i = nat resource in
            if euid c \<noteq> M4K_UID_ROOT \<and> rlim_max l > rlim_max (rlimits c ! i) then (- M4K_EPERM, s)
            else (0, upd (current s)
                   (\<lambda>r. r\<lparr>rlimits := (rlimits r)[i := \<lparr>rlim_cur = rlim_cur l, rlim_max = rlim_max l\<rparr>]\<rparr>) s))"

definition mkrn_process_get_rlimit :: "int \<Rightarrow> bool \<Rightarrow> kproc \<Rightarrow> int \<times> rlimit option" where
  "mkrn_process_get_rlimit resource has_rlp s =
     (if current s = 0 \<or> \<not> has_rlp then (- M4K_EINVAL, None)
      else if resource < 0 \<or> resource \<ge> M4K_RLIMIT_NLIMITS then (- M4K_EINVAL, None)
      else (0, Some (rlimits (procs s (current s)) ! nat resource)))"

section \<open>Signals\<close>

definition M4K_SIGABRT :: int where "M4K_SIGABRT = 1"
definition M4K_SIGKILL :: int where "M4K_SIGKILL = 2"
definition M4K_SIGTERM :: int where "M4K_SIGTERM = 3"
definition M4K_SIGSTOP :: int where "M4K_SIGSTOP = 4"
definition M4K_SIGCONT :: int where "M4K_SIGCONT = 5"
definition M4K_SIGTRAP :: int where "M4K_SIGTRAP = 6"
definition M4K_SIGCHLD :: int where "M4K_SIGCHLD = 7"
definition M4K_SIGPIPE :: int where "M4K_SIGPIPE = 8"
definition M4K_NSIG :: int where "M4K_NSIG = 11"

definition mkrn_signal_is_fatal :: "int \<Rightarrow> bool" where
  "mkrn_signal_is_fatal sig \<longleftrightarrow> sig = M4K_SIGKILL \<or> sig = M4K_SIGABRT"

definition mkrn_signal_is_stop :: "int \<Rightarrow> bool" where
  "mkrn_signal_is_stop sig \<longleftrightarrow> sig = M4K_SIGSTOP"

definition mkrn_signal_is_cont :: "int \<Rightarrow> bool" where
  "mkrn_signal_is_cont sig \<longleftrightarrow> sig = M4K_SIGCONT"

definition mkrn_signal_can_mask :: "int \<Rightarrow> bool" where
  "mkrn_signal_can_mask sig \<longleftrightarrow> \<not> (sig = M4K_SIGKILL \<or> sig = M4K_SIGSTOP \<or> sig = M4K_SIGCONT \<or> sig = M4K_SIGTRAP)"

definition mkrn_signal_default_action :: "int \<Rightarrow> int" where
  "mkrn_signal_default_action sig =
     (if sig = M4K_SIGABRT \<or> sig = M4K_SIGKILL \<or> sig = M4K_SIGPIPE \<or> sig = M4K_SIGTERM then 1
      else if sig = M4K_SIGSTOP then 2
      else if sig = M4K_SIGCONT then 3
      else 0)"

text \<open>Dropping a process from the set of timer waiters.\<close>

definition drop_waiter :: "u32 \<Rightarrow> kproc \<Rightarrow> kproc" where
  "drop_waiter p s =
     (if has (tags s p) M4K_WAIT_TIMER
      then let s1 = upd_tags p (clr M4K_WAIT_TIMER) s
           in if u32TimerWaiters s1 > 0 then s1\<lparr>u32TimerWaiters := u32TimerWaiters s1 - 1\<rparr> else s1
      else s)"

definition mkrn_process_terminate :: "u32 \<Rightarrow> kproc \<Rightarrow> kproc" where
  "mkrn_process_terminate x s =
     (let t = mkrn_process_find x s in
      if t = 0 then s
      else
        let s1 = upd_tags t (put M4K_TERMINATE \<circ> clr M4K_SCHED_SLEEPING) s;
            s2 = drop_waiter t s1;
            s3 = (if \<not> has (tags s2 t) M4K_STATE_SCHED_MASK then upd_tags t (put M4K_SCHED_READY) s2 else s2)
        in if \<not> mkrn_process_is_ready (pid (procs s3 t)) s3 then snd (mkrn_process_enqueue_ready t s3) else s3)"

definition mkrn_signal_deliver :: "u32 \<Rightarrow> int \<Rightarrow> kproc \<Rightarrow> kproc" where
  "mkrn_signal_deliver p sig s =
     (if p = 0 \<or> sig \<le> 0 \<or> sig \<ge> M4K_NSIG then s
      else if pid (procs s p) = 1 \<and> sig = M4K_SIGKILL then s
      else
        let s1 = upd p (\<lambda>r. r\<lparr>pending_signals := pending_signals r OR push_bit (nat sig) 1\<rparr>) s
        in if mkrn_signal_is_fatal sig
           then let s2 = upd p (\<lambda>r. r\<lparr>exit_status := word_of_int sig\<rparr>) s1
                in mkrn_process_terminate (pid (procs s2 p)) s2
           else if mkrn_signal_is_stop sig then upd_tags p (clr M4K_SCHED_READY \<circ> put M4K_STOPPED) s1
           else if mkrn_signal_is_cont sig
           then let s2 = upd_tags p (clr M4K_STOPPED) s1
                in if \<not> has (tags s2 p) M4K_STATE_SCHED_MASK then upd_tags p (put M4K_SCHED_READY) s2 else s2
           else s1)"

definition mkrn_kill :: "u32 \<Rightarrow> int \<Rightarrow> kproc \<Rightarrow> int \<times> kproc" where
  "mkrn_kill x sig s =
     (if sig \<le> 0 \<or> sig \<ge> M4K_NSIG then (-1, s)
      else let t = mkrn_process_find x s in
        if t = 0 then (-1, s)
        else if x = 1 \<and> sig = M4K_SIGKILL then (0, s)
        else (0, mkrn_signal_deliver t sig s))"

definition mkrn_process_has_pending_signal :: "u32 \<Rightarrow> kproc \<Rightarrow> bool" where
  "mkrn_process_has_pending_signal p s = (p \<noteq> 0 \<and> pending_signals (procs s p) \<noteq> 0)"

definition mkrn_setns :: "u8 list option \<Rightarrow> u8 list option \<Rightarrow> u32 \<Rightarrow> kproc \<Rightarrow> int \<times> kproc" where
  "mkrn_setns path target flags s =
     (if current s = 0 \<or> path = None \<or> target = None then (-1, s)
      else let (r, n) = mkrn_ns_set path target flags (proc_ns (procs s (current s)))
           in (r, upd (current s) (\<lambda>c. c\<lparr>proc_ns := n\<rparr>) s))"

section \<open>Scheduling\<close>

definition mkrn_process_reparent_children :: "u32 \<Rightarrow> kproc \<Rightarrow> kproc" where
  "mkrn_process_reparent_children par s =
     (if par = 0 then s
      else foldl (\<lambda>t p. if ppid (procs t p) = pid (procs t par) \<and> p \<noteq> par
                         then upd p (\<lambda>r. r\<lparr>ppid := 1\<rparr>) t else t) s (all_procs s))"

definition mkrn_process_reap :: "u32 \<Rightarrow> kproc \<Rightarrow> kproc" where
  "mkrn_process_reap p s =
     (let s1 = upd_tags p (put M4K_ZOMBIE \<circ> clr (M4K_SCHED_RUNNING OR M4K_SCHED_READY OR
                 M4K_SCHED_SLEEPING OR M4K_STOPPED OR M4K_TERMINATE)) s;
          s2 = s1\<lparr>ready := ready_remove p (ready s1)\<rparr>;
          pp = ppid (procs s2 p);
          s3 = (if mkrn_process_find pp s2 \<noteq> 0 then snd (mkrn_kill pp M4K_SIGCHLD s2) else s2);
          s4 = s3\<lparr>process_count := process_count s3 - 1\<rparr>
      in mkrn_process_reparent_children p s4)"

lemma upd_simps [simp]:
  "procs (upd p f s) = (procs s)(p := f (procs s p))" "all_procs (upd p f s) = all_procs s"
  "ready (upd p f s) = ready s" "current (upd p f s) = current s"
  "scheduler_enabled (upd p f s) = scheduler_enabled s" "u32TimerWaiters (upd p f s) = u32TimerWaiters s"
  "pmem (upd p f s) = pmem s" "ram (upd p f s) = ram s" "heap_freed (upd p f s) = heap_freed s"
  "g_current_process (upd p f s) = g_current_process s" "process_count (upd p f s) = process_count s"
  "next_pid (upd p f s) = next_pid s" "all_procs_count (upd p f s) = all_procs_count s"
  "g_switch_esp (upd p f s) = g_switch_esp s" "esp0 (upd p f s) = esp0 s"
  by (simp_all add: upd_def)

lemma upd_tags_simps [simp]:
  "procs (upd_tags p f s) = (procs s)(p := (procs s p)\<lparr>state_tags := f (tags s p)\<rparr>)"
  "all_procs (upd_tags p f s) = all_procs s"
  "ready (upd_tags p f s) = ready s" "current (upd_tags p f s) = current s"
  "scheduler_enabled (upd_tags p f s) = scheduler_enabled s"
  "u32TimerWaiters (upd_tags p f s) = u32TimerWaiters s"
  "pmem (upd_tags p f s) = pmem s" "ram (upd_tags p f s) = ram s" "heap_freed (upd_tags p f s) = heap_freed s"
  "g_current_process (upd_tags p f s) = g_current_process s" "process_count (upd_tags p f s) = process_count s"
  "next_pid (upd_tags p f s) = next_pid s" "all_procs_count (upd_tags p f s) = all_procs_count s"
  "g_switch_esp (upd_tags p f s) = g_switch_esp s" "esp0 (upd_tags p f s) = esp0 s"
  by (simp_all add: upd_tags_def tags_def)

lemma reparent_keeps [simp]:
  "all_procs (mkrn_process_reparent_children par s) = all_procs s"
  "ready (mkrn_process_reparent_children par s) = ready s"
  "current (mkrn_process_reparent_children par s) = current s"
  "scheduler_enabled (mkrn_process_reparent_children par s) = scheduler_enabled s"
  "u32TimerWaiters (mkrn_process_reparent_children par s) = u32TimerWaiters s"
  "tags (mkrn_process_reparent_children par s) = tags s"
proof -
  have "all_procs t' = all_procs t \<and> ready t' = ready t \<and> current t' = current t \<and>
        scheduler_enabled t' = scheduler_enabled t \<and> u32TimerWaiters t' = u32TimerWaiters t \<and> tags t' = tags t"
    if "t' = foldl (\<lambda>t p. if ppid (procs t p) = pid (procs t par) \<and> p \<noteq> par
                         then upd p (\<lambda>r. r\<lparr>ppid := 1\<rparr>) t else t) t ps" for t t' ps
    using that by (induction ps arbitrary: t) (auto simp: tags_def fun_eq_iff)
  from this[OF refl, of s "all_procs s"] show
    "all_procs (mkrn_process_reparent_children par s) = all_procs s"
    "ready (mkrn_process_reparent_children par s) = ready s"
    "current (mkrn_process_reparent_children par s) = current s"
    "scheduler_enabled (mkrn_process_reparent_children par s) = scheduler_enabled s"
    "u32TimerWaiters (mkrn_process_reparent_children par s) = u32TimerWaiters s"
    "tags (mkrn_process_reparent_children par s) = tags s"
    by (simp_all add: mkrn_process_reparent_children_def)
qed

lemma sigchld_deliver:
  "mkrn_signal_deliver p M4K_SIGCHLD s =
     (if p = 0 then s else upd p (\<lambda>r. r\<lparr>pending_signals := pending_signals r OR push_bit 7 1\<rparr>) s)"
  by (simp add: mkrn_signal_deliver_def M4K_SIGCHLD_def M4K_SIGKILL_def M4K_SIGABRT_def M4K_SIGSTOP_def
      M4K_SIGCONT_def M4K_NSIG_def mkrn_signal_is_fatal_def mkrn_signal_is_stop_def mkrn_signal_is_cont_def)

lemma sigchld_keeps [simp]:
  "all_procs (snd (mkrn_kill x M4K_SIGCHLD s)) = all_procs s"
  "ready (snd (mkrn_kill x M4K_SIGCHLD s)) = ready s"
  "current (snd (mkrn_kill x M4K_SIGCHLD s)) = current s"
  "scheduler_enabled (snd (mkrn_kill x M4K_SIGCHLD s)) = scheduler_enabled s"
  "u32TimerWaiters (snd (mkrn_kill x M4K_SIGCHLD s)) = u32TimerWaiters s"
  "tags (snd (mkrn_kill x M4K_SIGCHLD s)) = tags s"
  by (auto simp: mkrn_kill_def sigchld_deliver Let_def tags_def fun_eq_iff)

lemma count_ready_remove: "count (ready_remove p q) \<le> count q"
proof -
  have "count (remove_from i n p q) \<le> count q" for i n
    by (induction i n p q rule: remove_from.induct) auto
  then show ?thesis by (simp add: ready_remove_def)
qed

lemma count_ready_dequeue:
  "ready_dequeue q = (p, q') \<Longrightarrow> p \<noteq> 0 \<Longrightarrow> Suc (count q') = count q"
  by (auto simp: ready_dequeue_def split: if_splits)

lemma count_ready_enqueue: "ready_enqueue p q = (r, q') \<Longrightarrow> count q' \<le> Suc (count q)"
  by (auto simp: ready_enqueue_def split: if_splits)

lemma reap_keeps [simp]:
  "all_procs (mkrn_process_reap p s) = all_procs s"
  "ready (mkrn_process_reap p s) = ready_remove p (ready s)"
  "current (mkrn_process_reap p s) = current s"
  "scheduler_enabled (mkrn_process_reap p s) = scheduler_enabled s"
  "u32TimerWaiters (mkrn_process_reap p s) = u32TimerWaiters s"
  by (simp_all add: mkrn_process_reap_def Let_def)

definition runnable :: "u64 \<Rightarrow> bool" where
  "runnable t \<longleftrightarrow> \<not> has t M4K_STOPPED \<and> has t M4K_SCHED_READY"

function pick_loop :: "nat \<Rightarrow> kproc \<Rightarrow> u32 \<times> kproc" where
  "pick_loop scanned s =
     (if scanned < count (ready s) + 1 then
        let (cand, s1) = dequeue s in
        if cand = 0 then (0, s1)
        else if has (tags s1 cand) M4K_TERMINATE then pick_loop scanned (mkrn_process_reap cand s1)
        else if runnable (tags s1 cand) then (cand, s1)
        else pick_loop (scanned + 1) (snd (mkrn_process_enqueue_ready cand s1))
      else (0, s))"
  by pat_completeness auto
termination
proof (relation "measure (\<lambda>(scanned, s). count (ready s) + 1 - scanned)", goal_cases)
  case (2 scanned s x cand s1)
  then have "ready_dequeue (ready s) = (cand, ready s1)" by (auto simp: dequeue_def split: prod.splits)
  then have "Suc (count (ready s1)) = count (ready s)" using 2 by (simp add: count_ready_dequeue)
  then show ?case using 2(1) count_ready_remove[of cand "ready s1"] by simp
next
  case (3 scanned s x cand s1)
  then have "ready_dequeue (ready s) = (cand, ready s1)" by (auto simp: dequeue_def split: prod.splits)
  then have "Suc (count (ready s1)) = count (ready s)" using 3 by (simp add: count_ready_dequeue)
  moreover obtain r q where "ready_enqueue cand (ready s1) = (r, q)" by fastforce
  moreover have "count q \<le> Suc (count (ready s1))" using calculation(2) by (rule count_ready_enqueue)
  ultimately show ?case using 3(1) by (simp add: mkrn_process_enqueue_ready_def)
qed simp

declare pick_loop.simps [simp del]

definition set_running :: "u32 \<Rightarrow> kproc \<Rightarrow> kproc" where
  "set_running p s =
     upd_tags p (put M4K_SCHED_RUNNING \<circ> clr (M4K_SCHED_READY OR M4K_SCHED_SLEEPING))
       (s\<lparr>current := p, g_current_process := p\<rparr>)"

definition mkrn_process_switch_pick :: "u32 \<Rightarrow> kproc \<Rightarrow> u32 \<times> kproc" where
  "mkrn_process_switch_pick now s =
     (if \<not> scheduler_enabled s \<or> current s = 0 then (0, s)
      else
        let s1 = upd (current s) (\<lambda>r. r\<lparr>thread_esp := g_switch_esp s\<rparr>) s;
            s2 = (if has (tags s1 (current s1)) M4K_SCHED_RUNNING
                  then snd (mkrn_process_enqueue_ready (current s1)
                         (upd_tags (current s1) (put M4K_SCHED_READY \<circ> clr M4K_SCHED_RUNNING) s1))
                  else s1);
            (nxt, s3) = pick_loop 0 s2
        in if nxt = 0 then (0, s3)
           else let s4 = upd nxt (\<lambda>r. r\<lparr>last_resume_ms := now\<rparr>) (set_running nxt s3)
                in (nxt, s4\<lparr>g_switch_esp := thread_esp (procs s4 nxt),
                            esp0 := kernel_stack (procs s4 nxt)\<rparr>))"

text \<open>\<open>esp\<close> is the stack pointer the trampoline stores after its four pushes.\<close>

definition mkrn_process_yield :: "u32 \<Rightarrow> u32 \<Rightarrow> kproc \<Rightarrow> u32 \<times> kproc" where
  "mkrn_process_yield esp now s = mkrn_process_switch_pick now (s\<lparr>g_switch_esp := esp\<rparr>)"

definition SYSCALL_YIELD_QUANTUM_MS :: u32 where "SYSCALL_YIELD_QUANTUM_MS = 1"

definition mkrn_process_syscall_yield :: "u32 \<Rightarrow> u32 \<Rightarrow> kproc \<Rightarrow> u32 \<times> kproc" where
  "mkrn_process_syscall_yield esp now s =
     (if \<not> scheduler_enabled s \<or> current s = 0 then (0, s)
      else
        let s1 = (if last_resume_ms (procs s (current s)) = 0
                  then upd (current s) (\<lambda>r. r\<lparr>last_resume_ms := now\<rparr>) s else s)
        in if now - last_resume_ms (procs s1 (current s1)) < SYSCALL_YIELD_QUANTUM_MS then (0, s1)
           else mkrn_process_yield esp now (upd (current s1) (\<lambda>r. r\<lparr>last_resume_ms := now\<rparr>) s1))"

definition mkrn_sched_start :: "kproc \<Rightarrow> kproc" where
  "mkrn_sched_start s = s\<lparr>scheduler_enabled := True\<rparr>"

definition mkrn_process_block :: "u32 \<Rightarrow> u32 \<Rightarrow> kproc \<Rightarrow> u32 \<times> kproc" where
  "mkrn_process_block esp now s =
     (if current s = 0 then (0, s)
      else mkrn_process_yield esp now
             (upd_tags (current s) (put M4K_SCHED_SLEEPING \<circ> clr M4K_SCHED_RUNNING) s))"

definition mkrn_process_wakeup :: "u32 \<Rightarrow> kproc \<Rightarrow> kproc" where
  "mkrn_process_wakeup p s =
     (if p = 0 then s
      else if has (tags s p) M4K_SCHED_SLEEPING
      then let s1 = drop_waiter p s;
               s2 = upd_tags p (put M4K_SCHED_READY \<circ> clr M4K_SCHED_SLEEPING) s1;
               (r, s3) = mkrn_process_enqueue_ready p s2
           in if r \<noteq> 0 then upd_tags p (put M4K_SCHED_SLEEPING \<circ> clr M4K_SCHED_READY) s3 else s3
      else s)"

definition ms_to_ticks :: "u32 \<Rightarrow> u32 \<Rightarrow> u32" where
  "ms_to_ticks freq0 ms =
     (let freq = (if freq0 = 0 then 1000 else freq0);
          q = ms div 1000;
          r = ms mod 1000;
          t = q * freq + (r * freq + 500) div 1000
      in if t = 0 then 1 else t)"

text \<open>The last statement of \<open>mkrn_process_sleep\<close>, run when the process is resumed.\<close>

definition sleep_resume :: "kproc \<Rightarrow> kproc" where
  "sleep_resume s = upd_tags (current s) (clr M4K_WAIT_TIMER) s"

definition mkrn_process_sleep :: "u32 \<Rightarrow> u32 \<Rightarrow> u32 \<Rightarrow> u32 \<Rightarrow> kproc \<Rightarrow> u32 \<times> kproc" where
  "mkrn_process_sleep freq esp now ms s =
     (if current s = 0 \<or> \<not> scheduler_enabled s then (0, s)
      else if ms = 0 then mkrn_process_yield esp now s
      else
        let ms' = (if ms > 10000 then 10000 else ms);
            s1 = upd (current s) (\<lambda>r. r\<lparr>sleep_ticks := ms_to_ticks freq ms'\<rparr>) s;
            s2 = upd_tags (current s) (put (M4K_SCHED_SLEEPING OR M4K_WAIT_TIMER) \<circ> clr M4K_SCHED_RUNNING) s1;
            s3 = s2\<lparr>u32TimerWaiters := u32TimerWaiters s2 + 1\<rparr>;
            (nxt, s4) = mkrn_process_yield esp now s3
        in if nxt = 0 then (0, sleep_resume s4) else (nxt, s4))"

definition tick_one :: "u32 \<Rightarrow> kproc \<Rightarrow> kproc" where
  "tick_one p s =
     (if has (tags s p) M4K_SCHED_SLEEPING \<and> has (tags s p) M4K_WAIT_TIMER \<and> sleep_ticks (procs s p) \<noteq> 0
      then let s1 = upd p (\<lambda>r. r\<lparr>sleep_ticks := sleep_ticks r - 1\<rparr>) s
           in if sleep_ticks (procs s1 p) = 0
              then let s2 = mkrn_process_wakeup p s1
                   in if has (tags s2 p) M4K_SCHED_SLEEPING
                      then let s3 = upd_tags p (put M4K_WAIT_TIMER) (upd p (\<lambda>r. r\<lparr>sleep_ticks := 1\<rparr>) s2)
                           in s3\<lparr>u32TimerWaiters := u32TimerWaiters s3 + 1\<rparr>
                      else s2
              else s1
      else s)"

definition mkrn_process_timer_tick :: "kproc \<Rightarrow> kproc" where
  "mkrn_process_timer_tick s =
     (if \<not> scheduler_enabled s then s
      else if u32TimerWaiters s = 0 then s
      else foldl (\<lambda>t p. tick_one p t) s (all_procs s))"

text \<open>\<open>None\<close> is the panic of a switch without a process; otherwise the result is the
  process that starts running.\<close>

definition mkrn_process_switch_first :: "kproc \<Rightarrow> (u32 \<times> kproc) option" where
  "mkrn_process_switch_first s =
     (if current s = 0 then None
      else let p = current s;
               s1 = upd_tags p (\<lambda>_. M4K_SCHED_RUNNING) s
           in Some (p, s1\<lparr>scheduler_enabled := True, esp0 := kernel_stack (procs s1 p)\<rparr>))"

function mkrn_process_dequeue_live :: "kproc \<Rightarrow> u32 \<times> kproc" where
  "mkrn_process_dequeue_live s =
     (let (p, s1) = dequeue s in
      if p = 0 then (0, s1)
      else if has (tags s1 p) M4K_TERMINATE then mkrn_process_dequeue_live (mkrn_process_reap p s1)
      else (p, s1))"
  by pat_completeness auto
termination
proof (relation "measure (\<lambda>s. count (ready s))", goal_cases)
  case (2 s x p s1)
  then have "ready_dequeue (ready s) = (p, ready s1)" by (auto simp: dequeue_def split: prod.splits)
  then have "Suc (count (ready s1)) = count (ready s)" using 2 by (simp add: count_ready_dequeue)
  then show ?case using count_ready_remove[of p "ready s1"] by simp
qed simp

declare mkrn_process_dequeue_live.simps [simp del]

text \<open>One probe of the ready queue by an exiting process: dispatch the next live
  task, or stay parked (result 0).\<close>

definition exit_probe :: "kproc \<Rightarrow> u32 \<times> kproc" where
  "exit_probe s =
     (let (nxt, s1) = mkrn_process_dequeue_live s
      in if nxt = 0 then (0, s1)
         else let s2 = set_running nxt s1 in (nxt, s2\<lparr>esp0 := kernel_stack (procs s2 nxt)\<rparr>))"

definition mkrn_process_exit :: "int \<Rightarrow> kproc \<Rightarrow> u32 \<times> kproc" where
  "mkrn_process_exit status s =
     (if current s = 0 then (0, s)
      else exit_probe (mkrn_process_reap (current s)
             (upd (current s) (\<lambda>r. r\<lparr>exit_status := word_of_int status\<rparr>) s)))"

section \<open>Initialisation and process information\<close>

text \<open>\<open>idle\<close> is the block \<open>mkrn_execve_create_idle\<close> returned; \<open>None\<close> is the panic.\<close>

definition mkrn_process_init :: "u32 \<Rightarrow> kproc \<Rightarrow> kproc option" where
  "mkrn_process_init idle s =
     (let s1 = s\<lparr>next_pid := 1, process_count := 0, ready := (ready s)\<lparr>head := 0, count := 0\<rparr>, all_procs := [],
                 all_procs_count := 0, u32TimerWaiters := 0\<rparr>
      in if idle = 0 then None
         else Some (proc_registry_add idle
                (s1\<lparr>current := idle, g_current_process := idle, process_count := 1, next_pid := 2\<rparr>)))"

record procinfo =
  info_pid :: u32
  info_ppid :: u32
  info_state :: u32
  info_mem_kb :: u32
  info_name :: "u8 list"

definition tag_to_state :: "u64 \<Rightarrow> u32" where
  "tag_to_state t =
     (if has t M4K_ZOMBIE then 3
      else if has t M4K_SCHED_READY then 1
      else if has t M4K_SCHED_RUNNING then 0
      else if has t M4K_SCHED_SLEEPING then 2
      else 2)"

definition info_of :: "proc \<Rightarrow> procinfo" where
  "info_of r =
     \<lparr>info_pid = pid r, info_ppid = ppid r, info_state = tag_to_state (state_tags r), info_mem_kb = mem_kb r,
      info_name = (strncpy_arr (replicate 32 0) (cstr (proc_name r)) 31)[31 := 0]\<rparr>"

definition mkrn_process_fill_info :: "bool \<Rightarrow> nat \<Rightarrow> kproc \<Rightarrow> procinfo list" where
  "mkrn_process_fill_info has_buf lim s =
     (if \<not> has_buf \<or> lim = 0 then []
      else let cur = (if current s \<noteq> 0 then [info_of (procs s (current s))] else [])
           in cur @ map (\<lambda>p. info_of (procs s p))
                (take (lim - length cur) (filter (\<lambda>p. p \<noteq> current s) (all_procs s))))"

end
