(* ===== verification/Fork.thy ===== *)
theory Fork
  imports Process
begin

text \<open>
  \<open>fork_status\<close> and \<open>waitpid\<close> (\<open>sys/src/kernel/process.c\<close>). The address the kernel
  heap returns for the new control block (0 when it is exhausted) and the link
  address of the resume trampoline are arguments; the two stacks come from the page
  allocator of the state. The outer \<open>option\<close> is \<open>None\<close> where the source would not
  return. A blocking wait is one pass of its loop at a time: the result says
  whether the call returns or yields and goes round again.
\<close>

section \<open>Fork\<close>

definition RFPROC :: u32 where "RFPROC = 0x0001"
definition RFNAMEG :: u32 where "RFNAMEG = 0x0004"
definition RFENVG :: u32 where "RFENVG = 0x0008"

definition copy_name :: "nat \<Rightarrow> u8 list \<Rightarrow> u8 list" where
  "copy_name n src = (strncpy_arr (replicate n 0) (cstr src) (n - 1))[n - 1 := 0]"

text \<open>The control block of the child before its stacks are known.\<close>

definition fork_pcb :: "u64 \<Rightarrow> u32 \<Rightarrow> u32 \<Rightarrow> proc \<Rightarrow> proc" where
  "fork_pcb inherit_mask flags new_pid par =
     (let t = state_tags par AND inherit_mask in
      \<lparr>pid = new_pid, ppid = pid par, uid = uid par, euid = euid par, gid = gid par, egid = egid par,
       group_count = group_count par,
       group_list = array_copy (replicate 16 0) 0 (group_list par) 0 (unat (group_count par)),
       rlimits = map (\<lambda>l. \<lparr>rlim_cur = rlim_cur l, rlim_max = rlim_max l\<rparr>) (take 6 (rlimits par)),
       priority = priority par, thread_esp = 0, kernel_stack = 0, user_stack_base = 0,
       user_frame = user_frame par, sleep_ticks = 0, last_resume_ms = 0, exit_status = 0, pending_signals = 0,
       state_tags = (if \<not> has t M4K_STATE_SCHED_MASK then put M4K_SCHED_READY t else t),
       mem_kb = mem_kb par, proc_name = copy_name 32 (proc_name par), proc_cwd = copy_name 256 (proc_cwd par),
       envp = (if flags AND RFENVG \<noteq> 0 then envp par else 0),
       proc_ns = (if flags AND RFNAMEG \<noteq> 0 then mkrn_ns_copy mkrn_ns_init (proc_ns par) else mkrn_ns_init)\<rparr>)"

text \<open>Rebasing the saved frame pointers of the copied stack.\<close>

partial_function (option) rebase_chain :: "u32 \<Rightarrow> u32 \<Rightarrow> u32 \<Rightarrow> mem \<Rightarrow> mem option" where
  "rebase_chain orig_base new_base p m =
     (if p \<ge> new_base \<and> p < new_base + M4K_STACK_SIZE then
        let v = load32 p m in
        if v < orig_base \<or> v \<ge> orig_base + M4K_STACK_SIZE then Some m
        else let v' = new_base + (v - orig_base)
             in rebase_chain orig_base new_base v' (store32 p v' m)
      else Some m)"

text \<open>The child's user stack: its base (0 when the parent has none or no pages are
  left), the rebased user stack and frame pointers, and the new memory.\<close>

definition fork_user_stack :: "u32 \<Rightarrow> u32 \<Rightarrow> u32 \<Rightarrow> kproc \<Rightarrow> (u32 \<times> u32 \<times> u32 \<times> kproc) option" where
  "fork_user_stack base uesp uebp s =
     (if base = 0 then Some (0, uesp, uebp, s)
      else case mkrn_memory_alloc_page stack_pages (pmem s) of
        None \<Rightarrow> None
      | Some (ustack, mm) \<Rightarrow>
          let s1 = s\<lparr>pmem := mm\<rparr> in
          if ustack = 0 then Some (0, uesp, uebp, s1)
          else
            let m = mkrn_memcpy ustack base M4K_STACK_SIZE (ram s1);
                uesp' = ustack + (uesp - base);
                uebp' = ustack + (uebp - base)
            in map_option (\<lambda>m'. (ustack, uesp', uebp', s1\<lparr>ram := m'\<rparr>)) (rebase_chain base ustack uebp' m))"

text \<open>Pushing words downwards from a stack pointer.\<close>

fun push_words :: "u32 list \<Rightarrow> u32 \<Rightarrow> mem \<Rightarrow> u32 \<times> mem" where
  "push_words [] f m = (f, m)"
| "push_words (w # ws) f m = push_words ws (f - 4) (store32 (f - 4) w m)"

definition resume_frame :: "u32 \<Rightarrow> u32 list \<Rightarrow> u32 \<Rightarrow> u32 \<Rightarrow> u32 list" where
  "resume_frame tramp uf uesp uebp =
     [uf ! 4, uesp, uf ! 2, uf ! 1, uf ! 0, uebp, 0, 0, 0, 0, 0, 0, tramp, 0, 0, 0, 0]"

text \<open>Entering the child into the registry and the ready queue, or backing out.\<close>

definition fork_publish :: "u32 \<Rightarrow> kproc \<Rightarrow> int \<times> kproc" where
  "fork_publish child s =
     (let s1 = proc_registry_add child (s\<lparr>process_count := process_count s + 1\<rparr>) in
      if count (ready s1) \<ge> READY_QUEUE_SIZE then
        let s2 = proc_registry_remove child s1;
            s3 = s2\<lparr>process_count := process_count s2 - 1\<rparr>;
            r = procs s3 child;
            s4 = s3\<lparr>pmem := mkrn_memory_free_page (kernel_stack r - M4K_STACK_SIZE) stack_pages (pmem s3)\<rparr>;
            s5 = (if user_stack_base r \<noteq> 0
                  then s4\<lparr>pmem := mkrn_memory_free_page (user_stack_base r) stack_pages (pmem s4)\<rparr> else s4)
        in (-1, mkrn_free_at child s5)
      else (sint (pid (procs s1 child)), snd (mkrn_process_enqueue_ready child s1)))"

definition fork_begin :: "u32 \<Rightarrow> u64 \<Rightarrow> u32 \<Rightarrow> kproc \<Rightarrow> kproc" where
  "fork_begin pcb inherit_mask flags s =
     (let par = procs s (current s); (n, s1) = next_pid_op s
      in upd pcb (\<lambda>_. fork_pcb inherit_mask flags n par) s1)"

text \<open>Recording the user stack in the control block and laying out the block the
  scheduler pops when the child first runs.\<close>

definition fork_frame :: "u32 \<Rightarrow> u32 \<Rightarrow> u32 \<Rightarrow> u32 list \<Rightarrow> u32 \<Rightarrow> u32 \<Rightarrow> u32 \<Rightarrow> kproc \<Rightarrow> kproc" where
  "fork_frame pcb tramp ktop uf ustack uesp uebp s =
     (let s1 = (if ustack \<noteq> 0
                then upd pcb (\<lambda>r. r\<lparr>user_stack_base := ustack,
                                   mem_kb := mem_kb r + drop_bit 10 M4K_STACK_SIZE\<rparr>) s
                else s);
          (f, m) = push_words (resume_frame tramp uf uesp uebp) ktop (ram s1)
      in upd pcb (\<lambda>r. r\<lparr>thread_esp := f\<rparr>) (s1\<lparr>ram := m\<rparr>))"

definition mkrn_fork_status :: "u32 \<Rightarrow> u32 \<Rightarrow> u64 \<Rightarrow> u32 \<Rightarrow> kproc \<Rightarrow> (int \<times> kproc) option" where
  "mkrn_fork_status pcb tramp inherit_mask flags s =
     (if flags AND RFPROC = 0 then Some (-1, s)
      else if has inherit_mask (M4K_ZOMBIE OR M4K_IDLE OR M4K_STATE_RESERVED) then Some (-1, s)
      else if current s = 0 then Some (-1, s)
      else if pcb = 0 then Some (-1, s)
      else
        let par = procs s (current s);
            s2 = fork_begin pcb inherit_mask flags s
        in case mkrn_memory_alloc_page stack_pages (pmem s2) of
             None \<Rightarrow> None
           | Some (kstack, mm) \<Rightarrow>
               let s3 = s2\<lparr>pmem := mm\<rparr> in
               if kstack = 0 then Some (-1, mkrn_free_at pcb s3)
               else
                 let uf = user_frame par;
                     ktop = kstack + M4K_STACK_SIZE;
                     s4 = upd pcb (\<lambda>r. r\<lparr>kernel_stack := ktop\<rparr>) s3
                 in case fork_user_stack (user_stack_base par) (uf ! 3) (uf ! 5) s4 of
                      None \<Rightarrow> None
                    | Some (ustack, uesp, uebp, s5) \<Rightarrow>
                        Some (fork_publish pcb (fork_frame pcb tramp ktop uf ustack uesp uebp s5)))"

section \<open>Wait\<close>

definition M4K_WNOHANG :: u32 where "M4K_WNOHANG = 1"

definition my_child :: "u32 \<Rightarrow> kproc \<Rightarrow> u32 \<Rightarrow> bool" where
  "my_child x s p \<longleftrightarrow> ppid (procs s p) = mkrn_process_get_pid s \<and> p \<noteq> current s \<and>
     (x = -1 \<or> x = pid (procs s p))"

fun scan_children :: "u32 \<Rightarrow> kproc \<Rightarrow> u32 \<Rightarrow> u32 list \<Rightarrow> u32" where
  "scan_children x s child [] = child"
| "scan_children x s child (p # ps) =
     (if my_child x s p then (if has (tags s p) M4K_ZOMBIE then p else scan_children x s p ps)
      else scan_children x s child ps)"

datatype wait_result = Returned int "u32 option" | Yields

definition wait_status :: "u32 \<Rightarrow> u32" where
  "wait_status exit_val = (if exit_val < 11 then exit_val else push_bit 8 (exit_val AND 0xFF))"

text \<open>One pass of the loop. \<open>Returned r st\<close>: the call returns \<open>r\<close> and stores \<open>st\<close>
  through the status pointer when it is not null.\<close>

definition waitpid_pass :: "u32 \<Rightarrow> bool \<Rightarrow> u32 \<Rightarrow> kproc \<Rightarrow> wait_result \<times> kproc" where
  "waitpid_pass x has_status options s =
     (let child = scan_children x s 0 (all_procs s) in
      if child = 0 then (if options AND M4K_WNOHANG \<noteq> 0 then (Returned 0 None, s) else (Yields, s))
      else if \<not> has (tags s child) M4K_ZOMBIE
      then (if options AND M4K_WNOHANG \<noteq> 0 then (Returned 0 None, s) else (Yields, s))
      else let ev = exit_status (procs s child)
           in (Returned (sint (pid (procs s child))) (if has_status then Some (wait_status ev) else None),
               proc_free_zombie child s))"

definition mkrn_waitpid :: "u32 \<Rightarrow> bool \<Rightarrow> u32 \<Rightarrow> kproc \<Rightarrow> wait_result \<times> kproc" where
  "mkrn_waitpid x has_status options s =
     (if \<not> list_ex (my_child x s) (all_procs s) then (Returned (-1) None, s)
      else waitpid_pass x has_status options s)"

end
