(* ===== verification/SchedInv.thy ===== *)
theory SchedInv
  imports Fork
begin

text \<open>
  Safety of the scheduler as a state machine. \<open>kstep\<close> is one kernel operation
  (a yield, a wakeup, a timer tick, a signal, an exit, a fork, a wait, a change of
  credentials) on the process state; the invariant is stated on what the scheduler
  shares: the registry, the current process, the ready queue as a list, and the
  state tags. Every operation has a lemma that it keeps the invariant, and the
  properties of reachable states follow by induction over the steps.
\<close>

section \<open>State tags\<close>

named_theorems tag_simps \<open>tests on state tags after updates\<close>

lemmas tag_consts = M4K_SCHED_READY_def M4K_SCHED_RUNNING_def M4K_SCHED_SLEEPING_def M4K_WAIT_TIMER_def
  M4K_STOPPED_def M4K_TERMINATE_def M4K_ZOMBIE_def

definition single :: "u64 \<Rightarrow> bool" where "single b \<longleftrightarrow> (\<exists>k. b = push_bit k 1)"

lemma single_consts [tag_simps]:
  "single M4K_SCHED_READY" "single M4K_SCHED_RUNNING" "single M4K_SCHED_SLEEPING" "single M4K_WAIT_TIMER"
  "single M4K_STOPPED" "single M4K_TERMINATE" "single M4K_ZOMBIE"
proof -
  have "single (push_bit k 1)" for k by (auto simp: single_def)
  from this[of 0] this[of 1] this[of 2] this[of 10] this[of 17] this[of 18] this[of 24]
  show "single M4K_SCHED_READY" "single M4K_SCHED_RUNNING" "single M4K_SCHED_SLEEPING" "single M4K_WAIT_TIMER"
    "single M4K_STOPPED" "single M4K_TERMINATE" "single M4K_ZOMBIE" by (simp_all add: tag_consts)
qed

lemma has_put [tag_simps]: "has (put a t) b \<longleftrightarrow> has t b \<or> has a b"
  by (simp add: has_def put_def bit.conj_disj_distrib2 or_eq_0_iff)

lemma has_or [tag_simps]: "has (a OR c) b \<longleftrightarrow> has a b \<or> has c b"
  by (simp add: has_def bit.conj_disj_distrib2 or_eq_0_iff)

lemma has_clr [tag_simps]: "single b \<Longrightarrow> has (clr a t) b \<longleftrightarrow> has t b \<and> \<not> has a b"
proof -
  assume "single b"
  then obtain k where b: "b = push_bit k 1" by (auto simp: single_def)
  have bit: "x AND b \<noteq> 0 \<longleftrightarrow> bit x k" for x :: u64
    by (simp add: b bit_iff_and_push_bit_not_eq_0)
  show ?thesis unfolding has_def clr_def bit
    by (auto simp: bit_and_iff bit_not_iff possible_bit_word dest: bit_imp_le_length)
qed

lemma has_mask [tag_simps]:
  "has t M4K_STATE_SCHED_MASK \<longleftrightarrow> has t M4K_SCHED_READY \<or> has t M4K_SCHED_RUNNING \<or> has t M4K_SCHED_SLEEPING"
proof -
  have m: "M4K_STATE_SCHED_MASK = M4K_SCHED_READY OR M4K_SCHED_RUNNING OR M4K_SCHED_SLEEPING"
    by (simp add: M4K_STATE_SCHED_MASK_def tag_consts)
  show ?thesis unfolding has_def m bit.conj_disj_distrib or_eq_0_iff by blast
qed

lemma has_pairs [tag_simps]:
  "has M4K_SCHED_READY M4K_SCHED_READY" "\<not> has M4K_SCHED_READY M4K_SCHED_RUNNING"
  "\<not> has M4K_SCHED_READY M4K_SCHED_SLEEPING" "\<not> has M4K_SCHED_READY M4K_WAIT_TIMER"
  "\<not> has M4K_SCHED_READY M4K_STOPPED" "\<not> has M4K_SCHED_READY M4K_TERMINATE" "\<not> has M4K_SCHED_READY M4K_ZOMBIE"
  "\<not> has M4K_SCHED_RUNNING M4K_SCHED_READY" "has M4K_SCHED_RUNNING M4K_SCHED_RUNNING"
  "\<not> has M4K_SCHED_RUNNING M4K_SCHED_SLEEPING" "\<not> has M4K_SCHED_RUNNING M4K_WAIT_TIMER"
  "\<not> has M4K_SCHED_RUNNING M4K_STOPPED" "\<not> has M4K_SCHED_RUNNING M4K_TERMINATE" "\<not> has M4K_SCHED_RUNNING M4K_ZOMBIE"
  "\<not> has M4K_SCHED_SLEEPING M4K_SCHED_READY" "\<not> has M4K_SCHED_SLEEPING M4K_SCHED_RUNNING"
  "has M4K_SCHED_SLEEPING M4K_SCHED_SLEEPING" "\<not> has M4K_SCHED_SLEEPING M4K_WAIT_TIMER"
  "\<not> has M4K_SCHED_SLEEPING M4K_STOPPED" "\<not> has M4K_SCHED_SLEEPING M4K_TERMINATE" "\<not> has M4K_SCHED_SLEEPING M4K_ZOMBIE"
  "\<not> has M4K_WAIT_TIMER M4K_SCHED_READY" "\<not> has M4K_WAIT_TIMER M4K_SCHED_RUNNING"
  "\<not> has M4K_WAIT_TIMER M4K_SCHED_SLEEPING" "has M4K_WAIT_TIMER M4K_WAIT_TIMER"
  "\<not> has M4K_WAIT_TIMER M4K_STOPPED" "\<not> has M4K_WAIT_TIMER M4K_TERMINATE" "\<not> has M4K_WAIT_TIMER M4K_ZOMBIE"
  "\<not> has M4K_STOPPED M4K_SCHED_READY" "\<not> has M4K_STOPPED M4K_SCHED_RUNNING"
  "\<not> has M4K_STOPPED M4K_SCHED_SLEEPING" "\<not> has M4K_STOPPED M4K_WAIT_TIMER"
  "has M4K_STOPPED M4K_STOPPED" "\<not> has M4K_STOPPED M4K_TERMINATE" "\<not> has M4K_STOPPED M4K_ZOMBIE"
  "\<not> has M4K_TERMINATE M4K_SCHED_READY" "\<not> has M4K_TERMINATE M4K_SCHED_RUNNING"
  "\<not> has M4K_TERMINATE M4K_SCHED_SLEEPING" "\<not> has M4K_TERMINATE M4K_WAIT_TIMER"
  "\<not> has M4K_TERMINATE M4K_STOPPED" "has M4K_TERMINATE M4K_TERMINATE" "\<not> has M4K_TERMINATE M4K_ZOMBIE"
  "\<not> has M4K_ZOMBIE M4K_SCHED_READY" "\<not> has M4K_ZOMBIE M4K_SCHED_RUNNING"
  "\<not> has M4K_ZOMBIE M4K_SCHED_SLEEPING" "\<not> has M4K_ZOMBIE M4K_WAIT_TIMER"
  "\<not> has M4K_ZOMBIE M4K_STOPPED" "\<not> has M4K_ZOMBIE M4K_TERMINATE" "has M4K_ZOMBIE M4K_ZOMBIE"
  by (simp_all add: has_def tag_consts)

lemma tags_upd: "tags (upd p f s) = (tags s)(p := state_tags (f (procs s p)))"
  by (auto simp: tags_def)

lemma tags_upd_tags [simp]: "tags (upd_tags p f s) = (tags s)(p := f (tags s p))"
  by (auto simp: tags_def)

lemma tags_other_fields [simp]:
  "tags (s\<lparr>ready := q\<rparr>) = tags s" "tags (s\<lparr>current := c\<rparr>) = tags s" "tags (s\<lparr>g_current_process := c\<rparr>) = tags s"
  "tags (s\<lparr>process_count := n\<rparr>) = tags s" "tags (s\<lparr>u32TimerWaiters := w\<rparr>) = tags s"
  "tags (s\<lparr>g_switch_esp := e\<rparr>) = tags s" "tags (s\<lparr>esp0 := e\<rparr>) = tags s" "tags (s\<lparr>pmem := mm\<rparr>) = tags s"
  "tags (s\<lparr>ram := m\<rparr>) = tags s" "tags (s\<lparr>heap_freed := h\<rparr>) = tags s" "tags (s\<lparr>all_procs := ps\<rparr>) = tags s"
  "tags (s\<lparr>all_procs_count := n\<rparr>) = tags s" "tags (s\<lparr>next_pid := n\<rparr>) = tags s"
  by (auto simp: tags_def)

text \<open>Updates of other fields of a control block leave its tags alone.\<close>

lemma tags_upd_same: "(\<And>r. state_tags (f r) = state_tags r) \<Longrightarrow> tags (upd p f s) = tags s"
  by (auto simp: tags_def)

section \<open>The invariant\<close>

text \<open>\<open>pinv c n t\<close>: a registered process with tags \<open>t\<close>, queued \<open>n\<close> times; \<open>c\<close> says
  that it is the current one. A process is queued at most once, and not at all
  while it runs or sleeps; one more entry is possible once it is marked for
  termination. A zombie is not queued and has left every scheduling state but
  possibly \<open>READY\<close>, which \<open>SIGCONT\<close> sets.\<close>

definition pinv :: "bool \<Rightarrow> nat \<Rightarrow> u64 \<Rightarrow> bool" where
  "pinv c n t \<longleftrightarrow>
     (if has t M4K_ZOMBIE
      then n = 0 \<and> \<not> has t M4K_SCHED_SLEEPING \<and> \<not> has t M4K_SCHED_RUNNING \<and> \<not> has t M4K_TERMINATE
      else n \<le> (if has t M4K_TERMINATE then 2 else 1) \<and>
           (has t M4K_SCHED_SLEEPING \<or> c \<and> has t M4K_SCHED_RUNNING \<longrightarrow> n \<le> (if has t M4K_TERMINATE then 1 else 0))) \<and>
     (has t M4K_WAIT_TIMER \<longrightarrow> has t M4K_SCHED_SLEEPING \<and> \<not> has t M4K_TERMINATE) \<and>
     (has t M4K_SCHED_SLEEPING \<longrightarrow> \<not> has t M4K_SCHED_RUNNING)"

definition sinv :: "u32 list \<Rightarrow> u32 \<Rightarrow> u32 list \<Rightarrow> (u32 \<Rightarrow> u64) \<Rightarrow> bool" where
  "sinv reg cur q t \<longleftrightarrow> distinct reg \<and> 0 \<notin> set reg \<and> cur \<in> set reg \<and> set q \<subseteq> set reg \<and>
     (\<forall>p \<in> set reg. pinv (p = cur) (count_list q p) (t p))"

text \<open>The number of registered processes that wait for the timer, which the
  counter \<open>u32TimerWaiters\<close> is to equal.\<close>

definition waiters :: "u32 list \<Rightarrow> (u32 \<Rightarrow> u64) \<Rightarrow> nat" where
  "waiters reg t = length (filter (\<lambda>p. has (t p) M4K_WAIT_TIMER) reg)"

definition kinv :: "kproc \<Rightarrow> bool" where
  "kinv s \<longleftrightarrow> rq_inv (ready s) \<and> g_current_process s = current s \<and>
     sinv (all_procs s) (current s) (queued (ready s)) (tags s) \<and>
     unat (u32TimerWaiters s) = waiters (all_procs s) (tags s)"

lemma sinv_tags:
  "\<lbrakk>sinv reg cur q t; pinv (p = cur) (count_list q p) v\<rbrakk> \<Longrightarrow> sinv reg cur q (t(p := v))"
  by (auto simp: sinv_def)

lemma sinv_enq:
  "\<lbrakk>sinv reg cur q t; p \<in> set reg; pinv (p = cur) (Suc (count_list q p)) (t p)\<rbrakk> \<Longrightarrow> sinv reg cur (q @ [p]) t"
  by (auto simp: sinv_def)

lemma pinv_less: "\<lbrakk>pinv c n t; m \<le> n\<rbrakk> \<Longrightarrow> pinv c m t"
  by (auto simp: pinv_def split: if_splits)

lemma pinv_not_cur: "pinv c n t \<Longrightarrow> pinv False n t"
  by (auto simp: pinv_def)

lemma pinv_zombie: "pinv c n t \<Longrightarrow> has t M4K_ZOMBIE \<Longrightarrow> n = 0"
  by (simp add: pinv_def)

lemma pinv_live:
  "pinv c n t \<Longrightarrow> \<not> has t M4K_TERMINATE \<Longrightarrow>
   n \<le> 1 \<and> (has t M4K_SCHED_SLEEPING \<or> c \<and> has t M4K_SCHED_RUNNING \<longrightarrow> n = 0)"
  by (auto simp: pinv_def split: if_splits)

lemma pinv_timer: "pinv c n t \<Longrightarrow> has t M4K_WAIT_TIMER \<Longrightarrow> has t M4K_SCHED_SLEEPING \<and> n = 0"
  by (auto simp: pinv_def split: if_splits)

lemma sinv_deq: "sinv reg cur (p # q) t \<Longrightarrow> sinv reg cur q t"
  by (auto simp: sinv_def intro: pinv_less)

lemma count_list_remove1: "count_list (remove1 p q) x = (if x = p then count_list q x - 1 else count_list q x)"
  by (induction q) (auto simp: count_list_0_iff Suc_diff_1)

lemma sinv_remove1: "sinv reg cur q t \<Longrightarrow> sinv reg cur (remove1 p q) t"
  using set_remove1_subset[of p q] by (auto simp: sinv_def count_list_remove1 intro: pinv_less)

lemma sinv_cur:
  assumes "sinv reg cur q t" and "c \<in> set reg" and "pinv True (count_list q c) (t c)"
  shows "sinv reg c q t"
proof -
  have "pinv (p = c) (count_list q p) (t p)" if "p \<in> set reg" for p
    using assms that pinv_not_cur[of "p = cur" "count_list q p" "t p"] by (cases "p = c") (auto simp: sinv_def)
  then show ?thesis using assms by (auto simp: sinv_def)
qed

lemma sinv_pinv: "\<lbrakk>sinv reg cur q t; p \<in> set reg\<rbrakk> \<Longrightarrow> pinv (p = cur) (count_list q p) (t p)"
  by (simp add: sinv_def)

lemma kinv_nonzero: "kinv s \<Longrightarrow> p \<in> set (all_procs s) \<Longrightarrow> p \<noteq> 0"
  by (auto simp: kinv_def sinv_def)

lemma kinv_current: "kinv s \<Longrightarrow> current s \<in> set (all_procs s)"
  by (simp add: kinv_def sinv_def)

lemma kinv_pinv: "kinv s \<Longrightarrow> p \<in> set (all_procs s) \<Longrightarrow> pinv (p = current s) (count_list (queued (ready s)) p) (tags s p)"
  by (simp add: kinv_def sinv_def)

lemma waiters_same: "has v M4K_WAIT_TIMER = has (t p) M4K_WAIT_TIMER \<Longrightarrow> waiters reg (t(p := v)) = waiters reg t"
  by (auto simp: waiters_def intro!: arg_cong[of _ _ length] filter_cong)

lemma waiters_simps [simp]:
  "waiters [] t = 0"
  "waiters (a # reg) t = (if has (t a) M4K_WAIT_TIMER then Suc (waiters reg t) else waiters reg t)"
  by (simp_all add: waiters_def)

lemma waiters_other: "p \<notin> set reg \<Longrightarrow> waiters reg (t(p := v)) = waiters reg t"
  by (induction reg) auto

lemma waiters_drop:
  "\<lbrakk>distinct reg; p \<in> set reg; has (t p) M4K_WAIT_TIMER; \<not> has v M4K_WAIT_TIMER\<rbrakk> \<Longrightarrow>
   Suc (waiters reg (t(p := v))) = waiters reg t"
proof (induction reg)
  case (Cons a reg)
  then show ?case by (cases "a = p") (use waiters_other[of p reg t v] in \<open>auto simp: fun_upd_def\<close>)
qed simp

lemma waiters_gain:
  assumes "distinct reg" and "p \<in> set reg" and "\<not> has (t p) M4K_WAIT_TIMER" and "has v M4K_WAIT_TIMER"
  shows "waiters reg (t(p := v)) = Suc (waiters reg t)"
  using waiters_drop[of reg p "t(p := v)" "t p"] assms by simp

lemma waiters_bound: "\<lbrakk>distinct reg; 0 \<notin> set reg\<rbrakk> \<Longrightarrow> waiters reg t < 2 ^ 32"
proof -
  assume d: "distinct reg" "0 \<notin> set reg"
  have "waiters reg t \<le> length reg" by (simp add: waiters_def)
  also have "length reg = card (set reg)" using d by (simp add: distinct_card)
  also have "\<dots> < card (UNIV :: u32 set)" using d(2) by (intro psubset_card_mono) auto
  finally show ?thesis by (simp add: card_word)
qed

section \<open>Building blocks\<close>

lemma enqueue_full_or_room:
  assumes "rq_inv (ready s)" and "p \<noteq> 0"
  obtains (full) "mkrn_process_enqueue_ready p s = (-1, s)"
  | (room) q where "mkrn_process_enqueue_ready p s = (0, s\<lparr>ready := q\<rparr>)" "rq_inv q"
      "queued q = queued (ready s) @ [p]"
proof (cases "count (ready s) < READY_QUEUE_SIZE")
  case True
  then show ?thesis using ready_enqueue_room[OF assms True] that(2) by (auto simp: mkrn_process_enqueue_ready_def)
next
  case False
  then show ?thesis using that(1) assms by (simp add: mkrn_process_enqueue_ready_def ready_enqueue_def)
qed

lemma dequeue_empty: "queued (ready s) = [] \<Longrightarrow> dequeue s = (0, s)"
  using length_queued[of "ready s"] by (simp add: dequeue_def ready_dequeue_empty)

lemma dequeue_first:
  assumes "rq_inv (ready s)" and "queued (ready s) = p # ps"
  obtains q where "dequeue s = (p, s\<lparr>ready := q\<rparr>)" "rq_inv q" "queued q = ps"
  using ready_dequeue_first[OF assms] by (auto simp: dequeue_def)

lemma kinv_upd_tags:
  assumes "kinv s" and "pinv (p = current s) (count_list (queued (ready s)) p) (f (tags s p))"
    and "has (f (tags s p)) M4K_WAIT_TIMER = has (tags s p) M4K_WAIT_TIMER"
  shows "kinv (upd_tags p f s)"
  using assms by (auto simp: kinv_def sinv_tags waiters_same)

lemma kinv_upd:
  assumes "kinv s" and "\<And>r. state_tags (f r) = state_tags r"
  shows "kinv (upd p f s)"
  using assms by (simp add: kinv_def tags_upd_same)

lemma kinv_enq:
  assumes "kinv s" and "p \<in> set (all_procs s)"
    and "pinv (p = current s) (Suc (count_list (queued (ready s)) p)) (tags s p)"
  shows "kinv (snd (mkrn_process_enqueue_ready p s))"
proof -
  have "rq_inv (ready s)" "p \<noteq> 0" using assms kinv_nonzero by (auto simp: kinv_def)
  then show ?thesis
  proof (cases rule: enqueue_full_or_room)
    case (room q)
    then show ?thesis using assms sinv_enq by (auto simp: kinv_def)
  qed (use assms in simp)
qed

lemma enqueue_keeps [simp]:
  "all_procs (snd (mkrn_process_enqueue_ready p s)) = all_procs s"
  "current (snd (mkrn_process_enqueue_ready p s)) = current s"
  "scheduler_enabled (snd (mkrn_process_enqueue_ready p s)) = scheduler_enabled s"
  "procs (snd (mkrn_process_enqueue_ready p s)) = procs s"
  "tags (snd (mkrn_process_enqueue_ready p s)) = tags s"
  by (simp_all add: mkrn_process_enqueue_ready_def split: prod.split)

lemma drop_waiter_keeps [simp]:
  "all_procs (drop_waiter p s) = all_procs s" "current (drop_waiter p s) = current s"
  "ready (drop_waiter p s) = ready s" "scheduler_enabled (drop_waiter p s) = scheduler_enabled s"
  "tags (drop_waiter p s) = (tags s)(p := clr M4K_WAIT_TIMER (tags s p))"
proof -
  have "clr M4K_WAIT_TIMER t = t" if "\<not> has t M4K_WAIT_TIMER" for t
  proof -
    have "t = (t AND M4K_WAIT_TIMER) OR (t AND NOT M4K_WAIT_TIMER)"
      by (metis bit.conj_disj_distrib bit.disj_cancel_right and.right_neutral)
    then show ?thesis using that by (simp add: clr_def has_def)
  qed
  then show "tags (drop_waiter p s) = (tags s)(p := clr M4K_WAIT_TIMER (tags s p))"
    by (auto simp: drop_waiter_def Let_def)
qed (auto simp: drop_waiter_def Let_def)

lemma kinv_drop_waiter:
  assumes "kinv s" and "p \<in> set (all_procs s)"
  shows "kinv (drop_waiter p s)"
proof (cases "has (tags s p) M4K_WAIT_TIMER")
  case True
  let ?t = "(tags s)(p := clr M4K_WAIT_TIMER (tags s p))"
  have d: "distinct (all_procs s)" using assms by (simp add: kinv_def sinv_def)
  have "Suc (waiters (all_procs s) ?t) = waiters (all_procs s) (tags s)"
    using d assms(2) True by (intro waiters_drop) (auto simp: tag_simps)
  then have w: "Suc (waiters (all_procs s) ?t) = unat (u32TimerWaiters s)" using assms(1) by (simp add: kinv_def)
  then have "0 < u32TimerWaiters s" by (simp add: word_less_nat_alt)
  moreover have "unat (u32TimerWaiters s - 1) = waiters (all_procs s) ?t" using w by (simp add: unat_pred)
  moreover have "sinv (all_procs s) (current s) (queued (ready s)) ?t"
    using assms kinv_pinv[OF assms] by (intro sinv_tags) (auto simp: kinv_def pinv_def tag_simps)
  ultimately show ?thesis using assms(1) True by (simp add: drop_waiter_def Let_def kinv_def)
qed (use assms in \<open>simp add: drop_waiter_def\<close>)

section \<open>Wakeups and timer ticks\<close>

lemma kinv_wakeup:
  assumes "kinv s" and "p \<in> set (all_procs s)"
  shows "kinv (mkrn_process_wakeup p s)"
proof (cases "has (tags s p) M4K_SCHED_SLEEPING")
  case True
  note p0 = kinv_pinv[OF assms]
  define s1 where "s1 = drop_waiter p s"
  define s2 where "s2 = upd_tags p (put M4K_SCHED_READY \<circ> clr M4K_SCHED_SLEEPING) s1"
  have k1: "kinv s1" unfolding s1_def using assms by (rule kinv_drop_waiter)
  have k2: "kinv s2" unfolding s2_def
    using k1 p0 True by (intro kinv_upd_tags) (auto simp: s1_def pinv_def tag_simps split: if_splits)
  have "kinv (snd (mkrn_process_enqueue_ready p s2))"
    using k2 p0 True assms(2)
    by (intro kinv_enq) (auto simp: s1_def s2_def pinv_def tag_simps split: if_splits)
  moreover have "kinv (upd_tags p (put M4K_SCHED_SLEEPING \<circ> clr M4K_SCHED_READY) s2)"
    using k2 p0 True by (intro kinv_upd_tags) (auto simp: s1_def s2_def pinv_def tag_simps split: if_splits)
  moreover have q: "rq_inv (ready s2)" "p \<noteq> 0" using k2 assms kinv_nonzero by (auto simp: kinv_def)
  moreover have "mkrn_process_wakeup p s = (case mkrn_process_enqueue_ready p s2 of
      (r, s3) \<Rightarrow> if r \<noteq> 0 then upd_tags p (put M4K_SCHED_SLEEPING \<circ> clr M4K_SCHED_READY) s3 else s3)"
    using True calculation(4) by (simp add: mkrn_process_wakeup_def s1_def s2_def Let_def)
  ultimately show ?thesis by (cases rule: enqueue_full_or_room[OF q]) auto
qed (use assms in \<open>auto simp: mkrn_process_wakeup_def\<close>)

lemma kinv_gain:
  assumes "kinv s" and "p \<in> set (all_procs s)"
    and "pinv (p = current s) (count_list (queued (ready s)) p) (f (tags s p))"
    and "\<not> has (tags s p) M4K_WAIT_TIMER" and "has (f (tags s p)) M4K_WAIT_TIMER"
  shows "kinv ((upd_tags p f s)\<lparr>u32TimerWaiters := u32TimerWaiters s + 1\<rparr>)"
proof -
  let ?t = "(tags s)(p := f (tags s p))"
  have d: "distinct (all_procs s)" "0 \<notin> set (all_procs s)" using assms(1) by (auto simp: kinv_def sinv_def)
  have w: "waiters (all_procs s) ?t = Suc (waiters (all_procs s) (tags s))"
    using d assms by (intro waiters_gain) auto
  then have "unat (u32TimerWaiters s) + 1 < 2 ^ LENGTH(32)"
    using waiters_bound[OF d, of ?t] assms(1) by (simp add: kinv_def)
  then have "unat (u32TimerWaiters s + 1) = Suc (unat (u32TimerWaiters s))" by (simp add: unat_plus_one)
  then show ?thesis using assms w by (auto simp: kinv_def sinv_tags)
qed

lemma wakeup_keeps [simp]:
  "all_procs (mkrn_process_wakeup p s) = all_procs s" "current (mkrn_process_wakeup p s) = current s"
  "scheduler_enabled (mkrn_process_wakeup p s) = scheduler_enabled s"
  by (auto simp: mkrn_process_wakeup_def mkrn_process_enqueue_ready_def Let_def split: prod.splits)

lemma wakeup_clears_timer:
  assumes "p \<noteq> 0" and "has (tags s p) M4K_SCHED_SLEEPING"
  shows "\<not> has (tags (mkrn_process_wakeup p s) p) M4K_WAIT_TIMER"
  using assms by (auto simp: mkrn_process_wakeup_def mkrn_process_enqueue_ready_def Let_def tag_simps split: prod.splits)

lemma tick_one_keeps [simp]:
  "all_procs (tick_one p s) = all_procs s" "current (tick_one p s) = current s"
  "scheduler_enabled (tick_one p s) = scheduler_enabled s"
  by (auto simp: tick_one_def Let_def)

lemma kinv_tick_one:
  assumes "kinv s" and "p \<in> set (all_procs s)"
  shows "kinv (tick_one p s)"
proof -
  define s1 where "s1 = upd p (\<lambda>r. r\<lparr>sleep_ticks := sleep_ticks r - 1\<rparr>) s"
  define s2 where "s2 = mkrn_process_wakeup p s1"
  define s3 where "s3 = upd p (\<lambda>r. r\<lparr>sleep_ticks := 1\<rparr>) s2"
  have k1: "kinv s1" unfolding s1_def using assms(1) by (intro kinv_upd) auto
  have k2: "kinv s2" unfolding s2_def using k1 assms(2) by (intro kinv_wakeup) (auto simp: s1_def)
  have k3: "kinv s3" unfolding s3_def using k2 by (intro kinv_upd) auto
  have t1: "tags s1 = tags s" by (auto simp: s1_def tags_upd_same)
  have t3: "tags s3 = tags s2" by (auto simp: s3_def tags_upd_same)
  have r3: "ready s3 = ready s2" "current s3 = current s2" "all_procs s3 = all_procs s2"
    "u32TimerWaiters s3 = u32TimerWaiters s2" by (auto simp: s3_def)
  have k4: "kinv ((upd_tags p (put M4K_WAIT_TIMER) s3)\<lparr>u32TimerWaiters := u32TimerWaiters s3 + 1\<rparr>)"
    if sl: "has (tags s p) M4K_SCHED_SLEEPING" "has (tags s2 p) M4K_SCHED_SLEEPING" "\<not> has (tags s2 p) M4K_TERMINATE"
  proof (rule kinv_gain)
    have m: "p \<in> set (all_procs s2)" using assms(2) by (simp add: s2_def s1_def)
    show "\<not> has (tags s3 p) M4K_WAIT_TIMER"
      using wakeup_clears_timer[of p s1] kinv_nonzero[OF assms] sl t1 t3 by (simp add: s2_def)
    show "pinv (p = current s3) (count_list (queued (ready s3)) p) (put M4K_WAIT_TIMER (tags s3 p))"
      using kinv_pinv[OF k2 m] sl by (auto simp: t3 r3 pinv_def tag_simps)
  qed (use k3 assms(2) in \<open>auto simp: tag_simps s3_def s2_def s1_def\<close>)
  have tm: "\<not> has (tags s2 p) M4K_TERMINATE" if "has (tags s p) M4K_WAIT_TIMER"
    using that kinv_pinv[OF assms] t1
    by (auto simp: s2_def pinv_def mkrn_process_wakeup_def mkrn_process_enqueue_ready_def Let_def tag_simps
        split: prod.splits)
  have "tick_one p s = (if has (tags s p) M4K_SCHED_SLEEPING \<and> has (tags s p) M4K_WAIT_TIMER \<and> sleep_ticks (procs s p) \<noteq> 0
     then if sleep_ticks (procs s1 p) = 0
          then if has (tags s2 p) M4K_SCHED_SLEEPING
               then (upd_tags p (put M4K_WAIT_TIMER) s3)\<lparr>u32TimerWaiters := u32TimerWaiters s3 + 1\<rparr> else s2
          else s1
     else s)" by (simp add: tick_one_def Let_def s1_def[symmetric] s2_def[symmetric] s3_def[symmetric])
  then show ?thesis using assms(1) k1 k2 k4 tm by auto
qed

lemma kinv_timer_tick:
  assumes "kinv s"
  shows "kinv (mkrn_process_timer_tick s)"
proof -
  have "kinv (foldl (\<lambda>t p. tick_one p t) t ps)" if "kinv t" "set ps \<subseteq> set (all_procs t)" for t ps
    using that by (induction ps arbitrary: t) (auto simp: kinv_tick_one)
  then show ?thesis using assms by (simp add: mkrn_process_timer_tick_def)
qed

section \<open>Signals\<close>

lemma find_Some_set: "find P xs = Some x \<Longrightarrow> x \<in> set xs \<and> P x"
  by (induction xs) (auto split: if_splits)

lemma find_registered:
  assumes "kinv s" and "mkrn_process_find x s \<noteq> 0"
  shows "mkrn_process_find x s \<in> set (all_procs s)" and "pid (procs s (mkrn_process_find x s)) = x"
  using assms kinv_current[OF assms(1)]
  by (auto simp: mkrn_process_find_def split: option.splits if_splits dest: find_Some_set)

lemma find_upd:
  assumes "\<And>r. pid (f r) = pid r"
  shows "mkrn_process_find x (upd p f s) = mkrn_process_find x s"
proof -
  have "(\<lambda>a. pid (((procs s)(p := f (procs s p))) a) = x) = (\<lambda>a. pid (procs s a) = x)"
    using assms by (auto simp: fun_eq_iff)
  then show ?thesis using assms by (simp add: mkrn_process_find_def split: option.split)
qed

lemma not_ready_not_queued: "\<not> mkrn_process_is_ready (pid (procs s p)) s \<Longrightarrow> count_list (queued (ready s)) p = 0"
  by (auto simp: mkrn_process_is_ready_def list_ex_iff count_list_0_iff)

lemma drop_waiter_commute:
  "drop_waiter p (upd_tags p (put M4K_TERMINATE \<circ> clr M4K_SCHED_SLEEPING) s) =
   upd_tags p (put M4K_TERMINATE \<circ> clr M4K_SCHED_SLEEPING) (drop_waiter p s)"
proof -
  have "clr M4K_WAIT_TIMER (put M4K_TERMINATE (clr M4K_SCHED_SLEEPING x)) =
        put M4K_TERMINATE (clr M4K_SCHED_SLEEPING (clr M4K_WAIT_TIMER x))" for x
  proof -
    have "M4K_TERMINATE AND NOT M4K_WAIT_TIMER = M4K_TERMINATE" by (simp add: tag_consts)
    then show ?thesis unfolding clr_def put_def bit.conj_disj_distrib2 by (simp add: ac_simps)
  qed
  then show ?thesis by (auto simp: drop_waiter_def Let_def tag_simps upd_tags_def upd_def fun_eq_iff tags_def)
qed

lemma kinv_terminate:
  assumes "kinv s" and "\<not> has (tags s (mkrn_process_find x s)) M4K_ZOMBIE"
  shows "kinv (mkrn_process_terminate x s)"
proof (cases "mkrn_process_find x s = 0")
  case False
  define t where "t = mkrn_process_find x s"
  have t: "t \<in> set (all_procs s)" using find_registered(1)[OF assms(1) False] by (simp add: t_def)
  define s2 where "s2 = drop_waiter t (upd_tags t (put M4K_TERMINATE \<circ> clr M4K_SCHED_SLEEPING) s)"
  define s3 where "s3 = (if \<not> has (tags s2 t) M4K_STATE_SCHED_MASK then upd_tags t (put M4K_SCHED_READY) s2 else s2)"
  note p0 = kinv_pinv[OF assms(1) t]
  have z: "\<not> has (tags s t) M4K_ZOMBIE" using assms(2) by (simp add: t_def)
  have k1: "kinv (drop_waiter t s)" using assms(1) t by (rule kinv_drop_waiter)
  have k2: "kinv s2" unfolding s2_def drop_waiter_commute
    using k1 p0 z by (intro kinv_upd_tags) (auto simp: pinv_def tag_simps split: if_splits)
  have k3: "kinv s3" unfolding s3_def
    using k2 p0 z by (auto intro!: kinv_upd_tags simp: s2_def pinv_def tag_simps split: if_splits)
  have "kinv (snd (mkrn_process_enqueue_ready t s3))" if "\<not> mkrn_process_is_ready (pid (procs s3 t)) s3"
    using k3 t p0 z not_ready_not_queued[OF that]
    by (intro kinv_enq) (auto simp: s3_def s2_def pinv_def tag_simps)
  moreover have "mkrn_process_terminate x s =
      (if \<not> mkrn_process_is_ready (pid (procs s3 t)) s3 then snd (mkrn_process_enqueue_ready t s3) else s3)"
    using False unfolding mkrn_process_terminate_def Let_def t_def[symmetric] s2_def[symmetric] s3_def[symmetric]
    by (simp add: t_def)
  ultimately show ?thesis using k3 by simp
qed (use assms in \<open>simp add: mkrn_process_terminate_def\<close>)

lemma terminate_keeps [simp]:
  "all_procs (mkrn_process_terminate x s) = all_procs s" "current (mkrn_process_terminate x s) = current s"
  "scheduler_enabled (mkrn_process_terminate x s) = scheduler_enabled s"
  by (simp_all add: mkrn_process_terminate_def Let_def)

lemma kinv_deliver:
  assumes "kinv s" and "p = mkrn_process_find x s" and "p \<noteq> 0"
    and "mkrn_signal_is_fatal sig \<Longrightarrow> \<not> has (tags s p) M4K_ZOMBIE"
  shows "kinv (mkrn_signal_deliver p sig s)"
proof -
  define s1 where "s1 = upd p (\<lambda>r. r\<lparr>pending_signals := pending_signals r OR push_bit (nat sig) 1\<rparr>) s"
  define s2 where "s2 = upd p (\<lambda>r. r\<lparr>exit_status := word_of_int sig\<rparr>) s1"
  have k1: "kinv s1" unfolding s1_def using assms(1) by (intro kinv_upd) auto
  have k2: "kinv s2" unfolding s2_def using k1 by (intro kinv_upd) auto
  have t1: "tags s1 = tags s" by (simp add: s1_def tags_upd_same)
  have t2: "tags s2 = tags s" by (simp add: s2_def tags_upd_same t1)
  have reg: "p \<in> set (all_procs s)" "pid (procs s p) = x" using find_registered[OF assms(1)] assms by auto
  then have reg1: "p \<in> set (all_procs s1)" by (simp add: s1_def)
  have "pid (procs s2 p) = x" using reg by (simp add: s2_def s1_def)
  moreover have "mkrn_process_find x s2 = p" using assms(2) by (simp add: s2_def s1_def find_upd)
  ultimately have "kinv (mkrn_process_terminate (pid (procs s2 p)) s2)" if "mkrn_signal_is_fatal sig"
    using kinv_terminate[OF k2] assms(4)[OF that] t2 by simp
  moreover note p1 = kinv_pinv[OF k1 reg1]
  have "kinv (upd_tags p (clr M4K_SCHED_READY \<circ> put M4K_STOPPED) s1)"
    using k1 p1 by (intro kinv_upd_tags) (auto simp: pinv_def tag_simps split: if_splits)
  moreover define s3 where "s3 = upd_tags p (clr M4K_STOPPED) s1"
  have k3: "kinv s3" unfolding s3_def
    using k1 p1 by (intro kinv_upd_tags) (auto simp: pinv_def tag_simps split: if_splits)
  moreover have "kinv (upd_tags p (put M4K_SCHED_READY) s3)"
    using k3 p1 by (intro kinv_upd_tags) (auto simp: s3_def pinv_def tag_simps split: if_splits)
  ultimately show ?thesis using k1 assms(1)
    unfolding mkrn_signal_deliver_def Let_def s1_def[symmetric] s2_def[symmetric] s3_def[symmetric] by auto
qed

lemma kinv_kill:
  assumes "kinv s" and "mkrn_signal_is_fatal sig \<Longrightarrow> \<not> has (tags s (mkrn_process_find x s)) M4K_ZOMBIE"
  shows "kinv (snd (mkrn_kill x sig s))"
  using assms kinv_deliver[OF assms(1) refl, of x sig] by (auto simp: mkrn_kill_def Let_def)

section \<open>Reaping and picking\<close>

lemma reparent_tags_only: "g_current_process (mkrn_process_reparent_children par s) = g_current_process s"
proof -
  have "g_current_process (foldl (\<lambda>t p. if ppid (procs t p) = pid (procs t par) \<and> p \<noteq> par
                         then upd p (\<lambda>r. r\<lparr>ppid := 1\<rparr>) t else t) t ps) = g_current_process t" for t ps
    by (induction ps arbitrary: t) auto
  then show ?thesis by (simp add: mkrn_process_reparent_children_def)
qed

lemma kinv_same_view:
  assumes "kinv s" and "ready s' = ready s" and "g_current_process s' = g_current_process s"
    and "current s' = current s" and "all_procs s' = all_procs s" and "tags s' = tags s"
    and "u32TimerWaiters s' = u32TimerWaiters s"
  shows "kinv s'"
  using assms by (simp add: kinv_def)

lemma kinv_reparent: "kinv s \<Longrightarrow> kinv (mkrn_process_reparent_children par s)"
  by (rule kinv_same_view) (auto simp: reparent_tags_only)

abbreviation reap_mask :: u64 where
  "reap_mask \<equiv> M4K_SCHED_RUNNING OR M4K_SCHED_READY OR M4K_SCHED_SLEEPING OR M4K_STOPPED OR M4K_TERMINATE"

text \<open>Reaping is safe for a process with at most one entry in the queue that does
  not wait for the timer.\<close>

lemma kinv_reap:
  assumes "kinv s" and "p \<in> set (all_procs s)" and "count_list (queued (ready s)) p \<le> 1"
    and "\<not> has (tags s p) M4K_WAIT_TIMER"
  shows "kinv (mkrn_process_reap p s)"
proof -
  define s0 where "s0 = s\<lparr>ready := ready_remove p (ready s)\<rparr>"
  define s2 where "s2 = upd_tags p (put M4K_ZOMBIE \<circ> clr reap_mask) s0"
  have rq: "rq_inv (ready s)" using assms(1) by (simp add: kinv_def)
  have k0: "kinv s0" using assms(1) ready_remove_queued[OF rq, of p]
    by (auto simp: s0_def kinv_def sinv_remove1)
  have "count_list (queued (ready s0)) p = 0"
    using ready_remove_queued[OF rq, of p] assms(3) by (simp add: s0_def count_list_remove1)
  then have k2: "kinv s2" unfolding s2_def
    using k0 assms(4) by (intro kinv_upd_tags) (auto simp: s0_def pinv_def tag_simps)
  have "s2 = (upd_tags p (put M4K_ZOMBIE \<circ> clr reap_mask) s)\<lparr>ready := ready_remove p (ready s)\<rparr>"
    by (simp add: s2_def s0_def upd_tags_def upd_def)
  moreover have "kinv (snd (mkrn_kill (ppid (procs s2 p)) M4K_SIGCHLD s2))"
    using k2 by (rule kinv_kill) (simp add: mkrn_signal_is_fatal_def M4K_SIGCHLD_def M4K_SIGKILL_def M4K_SIGABRT_def)
  ultimately show ?thesis
    using k2 by (auto simp: mkrn_process_reap_def Let_def intro!: kinv_reparent intro: kinv_same_view)
qed

lemma reap_tags:
  "tags (mkrn_process_reap p s) = (tags s)(p := put M4K_ZOMBIE (clr reap_mask (tags s p)))"
  by (simp add: mkrn_process_reap_def Let_def)

text \<open>What the scheduler takes off the queue: a live task with no further entry.\<close>

definition fresh_pick :: "kproc \<Rightarrow> u32 \<Rightarrow> bool" where
  "fresh_pick s p \<longleftrightarrow> p \<in> set (all_procs s) \<and> count_list (queued (ready s)) p = 0 \<and>
     \<not> has (tags s p) M4K_TERMINATE \<and> \<not> has (tags s p) M4K_ZOMBIE \<and> \<not> has (tags s p) M4K_WAIT_TIMER"

lemma kinv_dequeue:
  assumes "kinv s" and "dequeue s = (p, s1)" and "p \<noteq> 0"
  shows "kinv s1" and "p \<in> set (all_procs s)" and "tags s1 = tags s" and "all_procs s1 = all_procs s"
    and "current s1 = current s" and "scheduler_enabled s1 = scheduler_enabled s"
    and "count_list (queued (ready s)) p = Suc (count_list (queued (ready s1)) p)"
    and "queued (ready s) = p # queued (ready s1)"
proof -
  have rq: "rq_inv (ready s)" using assms(1) by (simp add: kinv_def)
  obtain c ps where q: "queued (ready s) = c # ps"
    using assms(2,3) dequeue_empty[of s] by (cases "queued (ready s)") auto
  obtain q' where d: "dequeue s = (c, s\<lparr>ready := q'\<rparr>)" "rq_inv q'" "queued q' = ps"
    using dequeue_first[OF rq q] .
  then have e: "c = p" "s1 = s\<lparr>ready := q'\<rparr>" using assms(2) by auto
  show "kinv s1" using assms(1) d q e sinv_deq[of "all_procs s" "current s" c ps] by (auto simp: kinv_def)
  show "p \<in> set (all_procs s)" using assms(1) q e by (auto simp: kinv_def sinv_def)
  show "tags s1 = tags s" "all_procs s1 = all_procs s" "current s1 = current s"
    "scheduler_enabled s1 = scheduler_enabled s" using e by simp_all
  show "count_list (queued (ready s)) p = Suc (count_list (queued (ready s1)) p)"
    "queued (ready s) = p # queued (ready s1)" using q e d by simp_all
qed

lemma dequeue_live_pick:
  assumes "kinv s" and "dequeue s = (p, s1)" and "p \<noteq> 0" and "\<not> has (tags s1 p) M4K_TERMINATE"
  shows "fresh_pick s1 p"
  using kinv_dequeue[OF assms(1-3)] kinv_pinv[OF assms(1), of p] assms(4)
  by (auto simp: fresh_pick_def pinv_def split: if_splits)

lemma dequeue_terminated:
  assumes "kinv s" and "dequeue s = (p, s1)" and "p \<noteq> 0" and "has (tags s1 p) M4K_TERMINATE"
  shows "kinv (mkrn_process_reap p s1)"
  using kinv_dequeue[OF assms(1-3)] kinv_pinv[OF assms(1), of p] assms(4)
  by (intro kinv_reap) (auto simp: pinv_def split: if_splits)

lemma dequeue_rotate:
  assumes "kinv s" and "dequeue s = (p, s1)" and "p \<noteq> 0"
  shows "kinv (snd (mkrn_process_enqueue_ready p s1))"
  using kinv_dequeue[OF assms] kinv_pinv[OF assms(1), of p] by (intro kinv_enq) auto

lemma dequeue_null: "\<lbrakk>kinv s; dequeue s = (0, s1)\<rbrakk> \<Longrightarrow> s1 = s"
proof -
  assume k: "kinv s" and d: "dequeue s = (0, s1)"
  show ?thesis
  proof (cases "queued (ready s)")
    case Nil
    then show ?thesis using d dequeue_empty[of s] by simp
  next
    case (Cons c ps)
    moreover have "rq_inv (ready s)" using k by (simp add: kinv_def)
    ultimately obtain q where "dequeue s = (c, s\<lparr>ready := q\<rparr>)" using dequeue_first by metis
    then have "c = 0" using d by simp
    then show ?thesis using k Cons by (auto simp: kinv_def sinv_def)
  qed
qed

lemma kinv_pick_loop:
  assumes "kinv s" and "pick_loop n s = (c, s')"
  shows "kinv s' \<and> all_procs s' = all_procs s \<and> current s' = current s \<and>
         scheduler_enabled s' = scheduler_enabled s \<and> (c \<noteq> 0 \<longrightarrow> fresh_pick s' c \<and> runnable (tags s' c))"
  using assms
proof (induction n s arbitrary: c s' rule: pick_loop.induct)
  case (1 n s)
  show ?case
  proof (cases "n < count (ready s) + 1")
    case False
    then show ?thesis using "1.prems" by (auto simp: pick_loop.simps)
  next
    case True
    obtain p s1 where d: "dequeue s = (p, s1)" by fastforce
    note un = "1.prems"(2)[unfolded pick_loop.simps[of n s] if_P[OF True] d Let_def prod.case]
    show ?thesis
    proof (cases "p = 0")
      case True
      then show ?thesis using un dequeue_null[OF "1.prems"(1)] d "1.prems"(1) by auto
    next
      case False
      note eff = kinv_dequeue[OF "1.prems"(1) d False]
      consider (marked) "has (tags s1 p) M4K_TERMINATE" | (run) "\<not> has (tags s1 p) M4K_TERMINATE" "runnable (tags s1 p)"
        | (skip) "\<not> has (tags s1 p) M4K_TERMINATE" "\<not> runnable (tags s1 p)" by blast
      then show ?thesis
      proof cases
        case marked
        then have "pick_loop n (mkrn_process_reap p s1) = (c, s')" using un False by simp
        from "1.IH"(1)[OF True refl d[symmetric] False marked dequeue_terminated[OF "1.prems"(1) d False marked] this]
        show ?thesis using eff by simp
      next
        case run
        then have "c = p" "s' = s1" using un False by auto
        then show ?thesis using dequeue_live_pick[OF "1.prems"(1) d False run(1)] run eff by auto
      next
        case skip
        then have "pick_loop (n + 1) (snd (mkrn_process_enqueue_ready p s1)) = (c, s')" using un False by simp
        from "1.IH"(2)[OF True refl d[symmetric] False skip dequeue_rotate[OF "1.prems"(1) d False] this]
        show ?thesis using eff by simp
      qed
    qed
  qed
qed

lemma kinv_set_running:
  assumes "kinv s" and "fresh_pick s p"
  shows "kinv (set_running p s)"
proof -
  let ?v = "put M4K_SCHED_RUNNING (clr (M4K_SCHED_READY OR M4K_SCHED_SLEEPING) (tags s p))"
  have p: "pinv True 0 ?v" using assms(2) by (auto simp: fresh_pick_def pinv_def tag_simps)
  have "sinv (all_procs s) (current s) (queued (ready s)) ((tags s)(p := ?v))"
    using assms p pinv_not_cur[OF p] by (cases "p = current s") (auto simp: kinv_def fresh_pick_def intro!: sinv_tags)
  then have "sinv (all_procs s) p (queued (ready s)) ((tags s)(p := ?v))"
    by (rule sinv_cur) (use assms p in \<open>simp_all add: fresh_pick_def\<close>)
  moreover have "waiters (all_procs s) ((tags s)(p := ?v)) = waiters (all_procs s) (tags s)"
    using assms(2) by (intro waiters_same) (auto simp: fresh_pick_def tag_simps)
  ultimately show ?thesis using assms(1) by (simp add: set_running_def kinv_def)
qed

lemma kinv_switch_pick:
  assumes "kinv s" and "mkrn_process_switch_pick now s = (c, s')"
  shows "kinv s' \<and> all_procs s' = all_procs s \<and> (c \<noteq> 0 \<longrightarrow> current s' = c)"
proof (cases "scheduler_enabled s \<and> current s \<noteq> 0")
  case True
  define s1 where "s1 = upd (current s) (\<lambda>r. r\<lparr>thread_esp := g_switch_esp s\<rparr>) s"
  define s1' where "s1' = upd_tags (current s1) (put M4K_SCHED_READY \<circ> clr M4K_SCHED_RUNNING) s1"
  define s2 where "s2 = (if has (tags s1 (current s1)) M4K_SCHED_RUNNING
     then snd (mkrn_process_enqueue_ready (current s1) s1') else s1)"
  obtain n s3 where pl: "pick_loop 0 s2 = (n, s3)" by fastforce
  have k1: "kinv s1" unfolding s1_def using assms(1) by (intro kinv_upd) auto
  note p1 = kinv_pinv[OF k1 kinv_current[OF k1]]
  have k2: "kinv s2"
  proof (cases "has (tags s1 (current s1)) M4K_SCHED_RUNNING")
    case True
    have "kinv s1'" unfolding s1'_def
      using k1 p1 True by (intro kinv_upd_tags) (auto simp: pinv_def tag_simps split: if_splits)
    then have "kinv (snd (mkrn_process_enqueue_ready (current s1) s1'))"
      using p1 True kinv_current[OF k1] by (intro kinv_enq) (auto simp: s1'_def pinv_def tag_simps split: if_splits)
    then show ?thesis using True by (simp add: s2_def)
  qed (use k1 in \<open>simp add: s2_def\<close>)
  have reg: "all_procs s2 = all_procs s" by (simp add: s2_def s1'_def s1_def)
  note k3 = kinv_pick_loop[OF k2 pl]
  define s4 where "s4 = upd n (\<lambda>r. r\<lparr>last_resume_ms := now\<rparr>) (set_running n s3)"
  have k4: "kinv s4 \<and> all_procs s4 = all_procs s3 \<and> current s4 = n" if "n \<noteq> 0"
    unfolding s4_def using k3 that kinv_set_running[of s3 n]
    by (auto intro!: kinv_upd simp: set_running_def)
  have "mkrn_process_switch_pick now s = (if n = 0 then (0, s3)
      else (n, s4\<lparr>g_switch_esp := thread_esp (procs s4 n), esp0 := kernel_stack (procs s4 n)\<rparr>))"
    using True pl unfolding mkrn_process_switch_pick_def Let_def s1_def[symmetric] s1'_def[symmetric]
      s2_def[symmetric] by (simp add: s4_def)
  then show ?thesis using assms(2) k3 k4 reg by (auto split: if_splits intro: kinv_same_view)
qed (use assms in \<open>auto simp: mkrn_process_switch_pick_def\<close>)

section \<open>Yielding, blocking and sleeping\<close>

lemma kinv_fields [simp]:
  "kinv (s\<lparr>g_switch_esp := e\<rparr>) = kinv s" "kinv (s\<lparr>esp0 := e\<rparr>) = kinv s" "kinv (s\<lparr>process_count := n\<rparr>) = kinv s"
  "kinv (s\<lparr>pmem := mm\<rparr>) = kinv s" "kinv (s\<lparr>ram := m\<rparr>) = kinv s" "kinv (s\<lparr>heap_freed := h\<rparr>) = kinv s"
  "kinv (s\<lparr>next_pid := n\<rparr>) = kinv s" "kinv (s\<lparr>scheduler_enabled := b\<rparr>) = kinv s"
  by (simp_all add: kinv_def tags_def[abs_def])

definition running :: "kproc \<Rightarrow> bool" where
  "running s \<longleftrightarrow> has (tags s (current s)) M4K_SCHED_RUNNING"

lemma kinv_yield:
  assumes "kinv s"
  shows "kinv (snd (mkrn_process_yield esp now s))"
  using assms kinv_switch_pick[of "s\<lparr>g_switch_esp := esp\<rparr>" now]
  by (cases "mkrn_process_switch_pick now (s\<lparr>g_switch_esp := esp\<rparr>)") (auto simp: mkrn_process_yield_def)

lemma kinv_syscall_yield: "kinv s \<Longrightarrow> kinv (snd (mkrn_process_syscall_yield esp now s))"
  by (auto simp: mkrn_process_syscall_yield_def Let_def intro!: kinv_yield kinv_upd)

lemma kinv_block:
  assumes "kinv s" and "running s"
  shows "kinv (snd (mkrn_process_block esp now s))"
proof -
  have "kinv (upd_tags (current s) (put M4K_SCHED_SLEEPING \<circ> clr M4K_SCHED_RUNNING) s)"
    using assms kinv_pinv[OF assms(1) kinv_current[OF assms(1)]]
    by (intro kinv_upd_tags) (auto simp: running_def pinv_def tag_simps split: if_splits)
  then show ?thesis using assms(1) by (auto simp: mkrn_process_block_def intro: kinv_yield)
qed

lemma kinv_sleep:
  assumes "kinv s" and "running s" and "\<not> has (tags s (current s)) M4K_TERMINATE"
    and "fst (mkrn_process_sleep freq esp now ms s) \<noteq> 0"
  shows "kinv (snd (mkrn_process_sleep freq esp now ms s))"
proof (cases "ms = 0")
  case False
  have en: "current s \<noteq> 0" "scheduler_enabled s" using assms(4) by (auto simp: mkrn_process_sleep_def split: if_splits)
  define s1 where "s1 = upd (current s) (\<lambda>r. r\<lparr>sleep_ticks := ms_to_ticks freq (if ms > 10000 then 10000 else ms)\<rparr>) s"
  define s3 where "s3 = (upd_tags (current s) (put (M4K_SCHED_SLEEPING OR M4K_WAIT_TIMER) \<circ> clr M4K_SCHED_RUNNING) s1)
      \<lparr>u32TimerWaiters := u32TimerWaiters s1 + 1\<rparr>"
  have k1: "kinv s1" unfolding s1_def using assms(1) by (intro kinv_upd) auto
  have t1: "tags s1 = tags s" "current s1 = current s" "ready s1 = ready s" "all_procs s1 = all_procs s"
    by (auto simp: s1_def tags_upd_same)
  have "kinv s3" unfolding s3_def
    using k1 assms(2,3) kinv_pinv[OF assms(1) kinv_current[OF assms(1)]] kinv_current[OF assms(1)]
    by (intro kinv_gain) (auto simp: t1 running_def pinv_def tag_simps split: if_splits)
  then have "kinv (snd (mkrn_process_yield esp now s3))" by (rule kinv_yield)
  moreover have "mkrn_process_sleep freq esp now ms s =
      (case mkrn_process_yield esp now s3 of (n, s4) \<Rightarrow> if n = 0 then (0, sleep_resume s4) else (n, s4))"
    using False en unfolding mkrn_process_sleep_def Let_def s1_def[symmetric] by (simp add: s3_def)
  ultimately show ?thesis using assms(4) by (auto split: prod.splits if_splits)
qed (use assms in \<open>auto simp: mkrn_process_sleep_def intro: kinv_yield\<close>)

lemma kinv_sleep_resume:
  assumes "kinv s" and "running s"
  shows "kinv (sleep_resume s)"
proof -
  note p = kinv_pinv[OF assms(1) kinv_current[OF assms(1)]]
  have "\<not> has (tags s (current s)) M4K_WAIT_TIMER" using assms(2) p by (auto simp: running_def pinv_def)
  then show ?thesis unfolding sleep_resume_def
    using assms(1) p by (intro kinv_upd_tags) (auto simp: pinv_def tag_simps split: if_splits)
qed

section \<open>Exit, wait and fork\<close>

lemma kinv_dequeue_live:
  assumes "kinv s" and "mkrn_process_dequeue_live s = (c, s')"
  shows "kinv s' \<and> (c \<noteq> 0 \<longrightarrow> fresh_pick s' c)"
  using assms
proof (induction s arbitrary: c s' rule: mkrn_process_dequeue_live.induct)
  case (1 s)
  obtain p s1 where d: "dequeue s = (p, s1)" by fastforce
  note un = "1.prems"(2)[unfolded mkrn_process_dequeue_live.simps[of s] d Let_def prod.case]
  show ?case
  proof (cases "p = 0")
    case True
    then show ?thesis using un dequeue_null[OF "1.prems"(1)] d "1.prems"(1) by auto
  next
    case False
    note eff = kinv_dequeue[OF "1.prems"(1) d False]
    show ?thesis
    proof (cases "has (tags s1 p) M4K_TERMINATE")
      case True
      then have "mkrn_process_dequeue_live (mkrn_process_reap p s1) = (c, s')" using un False by simp
      from "1.IH"[OF d[symmetric] refl False True dequeue_terminated[OF "1.prems"(1) d False True] this]
      show ?thesis .
    next
      case live: False
      then show ?thesis using un False dequeue_live_pick[OF "1.prems"(1) d False live] eff by auto
    qed
  qed
qed

lemma kinv_exit_probe:
  assumes "kinv s"
  shows "kinv (snd (exit_probe s))"
proof -
  obtain c s1 where d: "mkrn_process_dequeue_live s = (c, s1)" by fastforce
  then show ?thesis using kinv_dequeue_live[OF assms d] kinv_set_running[of s1 c]
    by (simp add: exit_probe_def Let_def)
qed

lemma kinv_exit:
  assumes "kinv s" and "running s"
  shows "kinv (snd (mkrn_process_exit status s))"
proof -
  define s1 where "s1 = upd (current s) (\<lambda>r. r\<lparr>exit_status := word_of_int status\<rparr>) s"
  have k1: "kinv s1" unfolding s1_def using assms(1) by (intro kinv_upd) auto
  have t1: "tags s1 = tags s" "current s1 = current s" "ready s1 = ready s" "all_procs s1 = all_procs s"
    by (auto simp: s1_def tags_upd_same)
  have "kinv (mkrn_process_reap (current s1) s1)"
    using k1 kinv_current[OF k1] kinv_pinv[OF k1 kinv_current[OF k1]] assms(2)
    by (intro kinv_reap) (auto simp: t1 running_def pinv_def split: if_splits)
  then show ?thesis using assms(1) kinv_exit_probe t1(2)
    unfolding mkrn_process_exit_def s1_def[symmetric] by simp
qed

lemma free_stack_keeps [simp]:
  "all_procs (free_stack b s) = all_procs s" "kinv (free_stack b s) = kinv s" "tags (free_stack b s) = tags s"
  "ready (free_stack b s) = ready s" "current (free_stack b s) = current s" "procs (free_stack b s) = procs s"
  by (simp_all add: free_stack_def mkrn_free_at_def)

lemma kinv_registry_remove:
  assumes "kinv s" and "p \<noteq> current s" and "count_list (queued (ready s)) p = 0"
    and "\<not> has (tags s p) M4K_WAIT_TIMER"
  shows "kinv (proc_registry_remove p s)"
proof -
  have d: "distinct (all_procs s)" using assms(1) by (simp add: kinv_def sinv_def)
  have "waiters (remove1 p reg) t = waiters reg t" if "\<not> has (t p) M4K_WAIT_TIMER" for reg t
    using that by (induction reg) auto
  then show ?thesis using assms d
    by (auto simp: proc_registry_remove_def kinv_def sinv_def count_list_0_iff set_remove1_eq distinct_remove1)
qed

lemma kinv_free_zombie:
  assumes "kinv s" and "p \<in> set (all_procs s)" and "p \<noteq> current s" and "has (tags s p) M4K_ZOMBIE"
  shows "kinv (proc_free_zombie p s)"
proof -
  define s2 where "s2 = (let r = procs s p;
          s1 = (if user_stack_base r \<noteq> 0 then free_stack (user_stack_base r) s else s)
      in if kernel_stack r \<noteq> 0 then free_stack (kernel_stack r - M4K_STACK_SIZE) s1 else s1)"
  have v: "kinv s2" "current s2 = current s" "ready s2 = ready s" "tags s2 = tags s"
    using assms(1) by (auto simp: s2_def Let_def)
  have "kinv (proc_registry_remove p s2)"
    using v assms kinv_pinv[OF assms(1,2)] by (intro kinv_registry_remove) (auto simp: pinv_def)
  then show ?thesis by (simp add: proc_free_zombie_def mkrn_free_at_def s2_def Let_def)
qed

lemma scan_children_result:
  "scan_children x s c ps = c \<or> scan_children x s c ps \<in> set ps \<and> my_child x s (scan_children x s c ps)"
  by (induction ps arbitrary: c) (auto, metis+)

lemma kinv_waitpid_pass: "kinv s \<Longrightarrow> kinv (snd (waitpid_pass x st opts s))"
  using scan_children_result[of x s 0 "all_procs s"]
  by (auto simp: waitpid_pass_def Let_def my_child_def intro!: kinv_free_zombie)

lemma kinv_waitpid: "kinv s \<Longrightarrow> kinv (snd (mkrn_waitpid x st opts s))"
  by (simp add: mkrn_waitpid_def kinv_waitpid_pass)

lemma kinv_upd_unregistered:
  assumes "kinv s" and "p \<notin> set (all_procs s)"
  shows "kinv (upd p f s)"
proof -
  have "sinv (all_procs s) (current s) (queued (ready s)) (tags (upd p f s))"
    using assms by (auto simp: kinv_def sinv_def tags_upd)
  moreover have "waiters (all_procs s) (tags (upd p f s)) = waiters (all_procs s) (tags s)"
    using assms(2) by (simp add: tags_upd waiters_other)
  ultimately show ?thesis using assms(1) by (simp add: kinv_def)
qed

lemma kinv_registry_add:
  assumes "kinv s" and "p \<notin> set (all_procs s)" and "p \<noteq> 0" and "pinv False 0 (tags s p)"
    and "\<not> has (tags s p) M4K_WAIT_TIMER"
  shows "kinv (proc_registry_add p s)"
proof -
  have "count_list (queued (ready s)) p = 0" "current s \<noteq> p"
    using assms(1,2) by (auto simp: kinv_def sinv_def count_list_0_iff)
  then show ?thesis using assms by (auto simp: proc_registry_add_def kinv_def sinv_def)
qed

lemma registry_add_remove:
  "\<lbrakk>p \<notin> set (all_procs s); p \<noteq> 0\<rbrakk> \<Longrightarrow> proc_registry_remove p (proc_registry_add p s) = s"
  by (simp add: proc_registry_add_def proc_registry_remove_def)

lemma kinv_fork_publish:
  assumes "kinv s" and "p \<notin> set (all_procs s)" and "p \<noteq> 0" and "pinv False 1 (tags s p)"
    and "\<not> has (tags s p) M4K_WAIT_TIMER"
  shows "kinv (snd (fork_publish p s))"
proof -
  define s1 where "s1 = proc_registry_add p (s\<lparr>process_count := process_count s + 1\<rparr>)"
  have k1: "kinv s1" unfolding s1_def
    using assms pinv_less[OF assms(4), of 0] by (intro kinv_registry_add) auto
  have v: "ready s1 = ready s" "current s1 = current s" "tags s1 = tags s" "p \<in> set (all_procs s1)"
    using assms(3) by (auto simp: s1_def proc_registry_add_def)
  have "count_list (queued (ready s)) p = 0" "current s \<noteq> p"
    using assms(1,2) by (auto simp: kinv_def sinv_def count_list_0_iff)
  then have "kinv (snd (mkrn_process_enqueue_ready p s1))" using k1 assms(4) v by (intro kinv_enq) auto
  moreover have "kinv (proc_registry_remove p s1)"
    using assms by (simp add: s1_def registry_add_remove)
  ultimately show ?thesis
    unfolding fork_publish_def Let_def s1_def[symmetric] by (simp add: mkrn_free_at_def)
qed

lemma kinv_fork_user_stack:
  assumes "fork_user_stack b x y s = Some (u, v, w, s')" and "kinv s"
  shows "kinv s' \<and> all_procs s' = all_procs s \<and> tags s' = tags s"
  using assms by (auto simp: fork_user_stack_def Let_def split: if_splits option.splits)

lemma fork_tags:
  assumes "pinv c n t" and "has t M4K_SCHED_RUNNING" and "\<not> has im (M4K_ZOMBIE OR M4K_IDLE OR M4K_STATE_RESERVED)"
    and "v = state_tags (fork_pcb im flags k r)" and "state_tags r = t"
  shows "pinv False 1 v" and "\<not> has v M4K_WAIT_TIMER"
proof -
  have sub: "has (t AND im) b \<Longrightarrow> has t b" for b by (auto simp: has_def and.assoc and.left_commute[of t])
  have z: "\<not> has (t AND im) M4K_ZOMBIE"
  proof
    assume "has (t AND im) M4K_ZOMBIE"
    then have "has im M4K_ZOMBIE" by (auto simp: has_def and.assoc)
    then show False using assms(3) by (auto simp: has_def bit.conj_disj_distrib or_eq_0_iff)
  qed
  have "\<not> has t M4K_SCHED_SLEEPING" "\<not> has t M4K_WAIT_TIMER" using assms(1,2) by (auto simp: pinv_def)
  then have "\<not> has (t AND im) M4K_SCHED_SLEEPING" "\<not> has (t AND im) M4K_WAIT_TIMER" using sub by blast+
  then show "pinv False 1 v" "\<not> has v M4K_WAIT_TIMER"
    using z assms(4,5) by (auto simp: fork_pcb_def Let_def pinv_def tag_simps)
qed

lemma kinv_fork_frame:
  assumes "kinv s" and "p \<notin> set (all_procs s)"
  shows "kinv (fork_frame p tr ktop uf us sp bp s)" and "all_procs (fork_frame p tr ktop uf us sp bp s) = all_procs s"
    and "tags (fork_frame p tr ktop uf us sp bp s) = tags s"
  using assms
  by (auto simp: fork_frame_def Let_def tags_upd_same split: prod.split intro!: kinv_upd_unregistered)

lemma kinv_fork:
  assumes "kinv s" and "running s" and "p \<notin> set (all_procs s)" and "mkrn_fork_status p tr im flags s = Some (r, s')"
  shows "kinv s'"
proof (cases "flags AND RFPROC = 0 \<or> has im (M4K_ZOMBIE OR M4K_IDLE OR M4K_STATE_RESERVED) \<or> current s = 0 \<or> p = 0")
  case True
  then show ?thesis using assms(1,4) by (auto simp: mkrn_fork_status_def split: if_splits)
next
  case False
  define s2 where "s2 = fork_begin p im flags s"
  have b: "s2 = upd p (\<lambda>_. fork_pcb im flags (next_pid s) (procs s (current s))) (s\<lparr>next_pid := next_pid s + 1\<rparr>)"
    by (simp add: s2_def fork_begin_def next_pid_op_def)
  have k2: "kinv s2" unfolding b using assms(1,3) by (intro kinv_upd_unregistered) auto
  have un2: "p \<notin> set (all_procs s2)" using assms(3) by (simp add: b)
  have m: "\<not> has im (M4K_ZOMBIE OR M4K_IDLE OR M4K_STATE_RESERVED)" using False by blast
  have t2: "pinv False 1 (tags s2 p)" "\<not> has (tags s2 p) M4K_WAIT_TIMER"
    using fork_tags[OF kinv_pinv[OF assms(1) kinv_current[OF assms(1)]] assms(2)[unfolded running_def] m refl]
    by (simp_all add: b tags_def)
  define s4 where "s4 kst mm = upd p (\<lambda>r. r\<lparr>kernel_stack := kst + M4K_STACK_SIZE\<rparr>) (s2\<lparr>pmem := mm\<rparr>)" for kst mm
  have k4: "kinv (s4 kst mm)" "all_procs (s4 kst mm) = all_procs s2" "tags (s4 kst mm) = tags s2" for kst mm
    using k2 un2 by (auto simp: s4_def tags_upd_same intro!: kinv_upd_unregistered)
  have fin: "kinv (snd (fork_publish p (fork_frame p tr ktop uf us sp bp s5)))"
    if "fork_user_stack x y z (s4 kst mm) = Some (us, sp, bp, s5)" for ktop uf us sp bp s5 x y z kst mm
  proof -
    note k5 = kinv_fork_user_stack[OF that k4(1)]
    then have "p \<notin> set (all_procs s5)" using un2 k4(2) by simp
    note k6 = kinv_fork_frame[OF conjunct1[OF k5] this, of tr ktop uf us sp bp]
    show ?thesis by (rule kinv_fork_publish) (use k6 k5 k4 un2 t2 False in auto)
  qed
  then show ?thesis
    using assms(4) False k2
    by (auto simp: mkrn_fork_status_def Let_def s2_def[symmetric] s4_def[symmetric] mkrn_free_at_def
        split: if_splits option.splits dest!: arg_cong[of _ _ snd])
qed

section \<open>The state machine\<close>

text \<open>One kernel operation. An operation of the running process requires that it
  carries the \<open>RUNNING\<close> tag, that is, that the last switch gave it the processor;
  a parked exiting process only probes the queue. Three steps carry a further
  condition, without which the invariant fails in the source: a fatal signal is
  not sent to a zombie, a process marked for termination does not start a timed
  sleep, and a timed sleep finds another task to run.\<close>

inductive kstep :: "kproc \<Rightarrow> kproc \<Rightarrow> bool" where
  Yield: "kstep s (snd (mkrn_process_yield esp now s))"
| SyscallYield: "kstep s (snd (mkrn_process_syscall_yield esp now s))"
| Block: "running s \<Longrightarrow> kstep s (snd (mkrn_process_block esp now s))"
| Sleep: "\<lbrakk>running s; \<not> has (tags s (current s)) M4K_TERMINATE; fst (mkrn_process_sleep freq esp now ms s) \<noteq> 0\<rbrakk> \<Longrightarrow>
    kstep s (snd (mkrn_process_sleep freq esp now ms s))"
| SleepResume: "running s \<Longrightarrow> kstep s (sleep_resume s)"
| Tick: "kstep s (mkrn_process_timer_tick s)"
| Wakeup: "p \<in> set (all_procs s) \<Longrightarrow> kstep s (mkrn_process_wakeup p s)"
| Kill: "(mkrn_signal_is_fatal sig \<Longrightarrow> \<not> has (tags s (mkrn_process_find x s)) M4K_ZOMBIE) \<Longrightarrow>
    kstep s (snd (mkrn_kill x sig s))"
| Exit: "running s \<Longrightarrow> kstep s (snd (mkrn_process_exit status s))"
| ExitProbe: "has (tags s (current s)) M4K_ZOMBIE \<Longrightarrow> kstep s (snd (exit_probe s))"
| Fork: "\<lbrakk>running s; p \<notin> set (all_procs s); mkrn_fork_status p tr im flags s = Some (r, s')\<rbrakk> \<Longrightarrow> kstep s s'"
| Wait: "kstep s (snd (mkrn_waitpid x st opts s))"
| WaitPass: "kstep s (snd (waitpid_pass x st opts s))"
| SetUid: "kstep s (snd (mkrn_process_set_uid x s))"
| SetGid: "kstep s (snd (mkrn_process_set_gid x s))"
| SetGroups: "kstep s (snd (mkrn_process_set_groups n gs s))"
| SetRlimit: "kstep s (snd (mkrn_process_set_rlimit res l s))"
| SetNs: "kstep s (snd (mkrn_setns path target flags s))"

lemma kinv_credentials:
  assumes "kinv s"
  shows "kinv (snd (mkrn_process_set_uid x s))" and "kinv (snd (mkrn_process_set_gid x s))"
    and "kinv (snd (mkrn_process_set_groups n gs s))" and "kinv (snd (mkrn_process_set_rlimit res l s))"
    and "kinv (snd (mkrn_setns path target flags s))"
  using assms
  by (auto simp: mkrn_process_set_uid_def mkrn_process_set_gid_def mkrn_process_set_groups_def
      mkrn_process_set_rlimit_def mkrn_setns_def Let_def split: option.split prod.split intro!: kinv_upd)

lemma kinv_step: "kstep s s' \<Longrightarrow> kinv s \<Longrightarrow> kinv s'"
  by (induction rule: kstep.induct)
    (simp_all add: kinv_yield kinv_syscall_yield kinv_block kinv_sleep kinv_sleep_resume kinv_timer_tick
      kinv_wakeup kinv_kill kinv_exit kinv_exit_probe kinv_fork kinv_waitpid kinv_waitpid_pass kinv_credentials)

lemma kinv_reachable: "kstep\<^sup>*\<^sup>* s s' \<Longrightarrow> kinv s \<Longrightarrow> kinv s'"
  by (induction rule: rtranclp_induct) (auto intro: kinv_step)

text \<open>Boot: the process tables are set up around the idle process, which the first
  switch starts.\<close>

definition boot :: "u32 \<Rightarrow> kproc \<Rightarrow> kproc option" where
  "boot idle s = (case mkrn_process_init idle s of None \<Rightarrow> None
     | Some s1 \<Rightarrow> map_option snd (mkrn_process_switch_first s1))"

lemma kinv_boot:
  assumes "boot idle k = Some s" and "length (slots (ready k)) = READY_QUEUE_SIZE"
  shows "kinv s" and "running s"
proof -
  have i: "idle \<noteq> 0" using assms(1) by (auto simp: boot_def mkrn_process_init_def Let_def split: if_splits)
  have v: "ready s = (ready k)\<lparr>head := 0, count := 0\<rparr>" "g_current_process s = idle" "current s = idle"
    "all_procs s = [idle]" "u32TimerWaiters s = 0" "tags s idle = M4K_SCHED_RUNNING"
    using assms(1) i
    by (auto simp: boot_def mkrn_process_init_def mkrn_process_switch_first_def proc_registry_add_def Let_def tags_def)
  show "running s" using v by (simp add: running_def tag_simps)
  have "rq_inv (ready s)" using assms(2) by (simp add: v rq_inv_def)
  moreover have "queued (ready s) = []" by (simp add: v queued_def)
  ultimately show "kinv s" using i by (auto simp: kinv_def sinv_def v pinv_def tag_simps)
qed

section \<open>Properties\<close>

definition proc0 :: proc where
  "proc0 = \<lparr>pid = 1, ppid = 0, uid = 0, euid = 0, gid = 0, egid = 0, group_count = 0,
     group_list = replicate 16 0, rlimits = replicate 6 \<lparr>rlim_cur = 0, rlim_max = 0\<rparr>, priority = 2,
     thread_esp = 0, kernel_stack = 0, user_stack_base = 0, user_frame = replicate 6 0, sleep_ticks = 0,
     last_resume_ms = 0, exit_status = 0, pending_signals = 0, state_tags = 0, mem_kb = 0,
     proc_name = replicate 32 0, proc_cwd = replicate 256 0, envp = 0, proc_ns = mkrn_ns_init\<rparr>"

definition kproc0 :: kproc where
  "kproc0 = \<lparr>procs = (\<lambda>_. proc0), all_procs = [], all_procs_count = 0,
     ready = \<lparr>slots = replicate 64 0, head = 0, count = 0\<rparr>, current = 0, g_current_process = 0,
     scheduler_enabled = False, process_count = 0, next_pid = 0, u32TimerWaiters = 0, g_switch_esp = 0,
     esp0 = 0, ram = (\<lambda>_. 0), pmem = small_state, heap_freed = []\<rparr>"

lemma boot_example: "\<exists>s. boot 0x1000 kproc0 = Some s"
  by (simp add: boot_def mkrn_process_init_def mkrn_process_switch_first_def proc_registry_add_def Let_def)

lemma slots_example: "length (slots (ready kproc0)) = READY_QUEUE_SIZE"
  by (simp add: kproc0_def READY_QUEUE_SIZE_def)

text \<open>The counter that lets the timer interrupt skip its scan is exact: in every
  reachable state \<open>u32TimerWaiters\<close> is the number of registered processes that
  carry \<open>WAIT_TIMER\<close>, and these are asleep and not queued.\<close>

theorem timer_waiters_exact:
  assumes "boot idle k = Some s0" and "length (slots (ready k)) = READY_QUEUE_SIZE" and "kstep\<^sup>*\<^sup>* s0 s"
  shows "unat (u32TimerWaiters s) = card {p \<in> set (all_procs s). has (tags s p) M4K_WAIT_TIMER} \<and>
    (\<forall>p \<in> set (all_procs s). has (tags s p) M4K_WAIT_TIMER \<longrightarrow>
       has (tags s p) M4K_SCHED_SLEEPING \<and> p \<notin> set (queued (ready s)))"
proof
  have k: "kinv s" using kinv_reachable[OF assms(3) kinv_boot(1)[OF assms(1,2)]] .
  then have "distinct (all_procs s)" by (simp add: kinv_def sinv_def)
  then show "unat (u32TimerWaiters s) = card {p \<in> set (all_procs s). has (tags s p) M4K_WAIT_TIMER}"
    using k distinct_card[of "filter (\<lambda>p. has (tags s p) M4K_WAIT_TIMER) (all_procs s)"]
    by (simp add: kinv_def waiters_def)
  show "\<forall>p \<in> set (all_procs s). has (tags s p) M4K_WAIT_TIMER \<longrightarrow>
       has (tags s p) M4K_SCHED_SLEEPING \<and> p \<notin> set (queued (ready s))"
    using pinv_timer[OF kinv_pinv[OF k]] by (auto simp: count_list_0_iff)
qed

theorem timer_waiters_exact_witness:
  "\<exists>s0 s. boot 0x1000 kproc0 = Some s0 \<and> s = mkrn_process_timer_tick s0 \<and>
     unat (u32TimerWaiters s) = card {p \<in> set (all_procs s). has (tags s p) M4K_WAIT_TIMER}"
proof -
  obtain s0 where b: "boot 0x1000 kproc0 = Some s0" using boot_example by blast
  have "kstep\<^sup>*\<^sup>* s0 (mkrn_process_timer_tick s0)" using Tick by blast
  from timer_waiters_exact[OF b slots_example this] b show ?thesis by blast
qed

lemma is_ready_upd: "(\<And>r. pid (f r) = pid r) \<Longrightarrow> mkrn_process_is_ready x (upd p f s) = mkrn_process_is_ready x s"
  by (simp add: mkrn_process_is_ready_def list_ex_iff) (metis (no_types))

lemma is_ready_upd_tags: "mkrn_process_is_ready x (upd_tags p f s) = mkrn_process_is_ready x s"
  by (simp add: upd_tags_def is_ready_upd)

lemma is_ready_drop_waiter: "mkrn_process_is_ready x (drop_waiter p s) = mkrn_process_is_ready x s"
proof -
  have "mkrn_process_is_ready x (t\<lparr>u32TimerWaiters := w\<rparr>) = mkrn_process_is_ready x t" for t w
    by (simp add: mkrn_process_is_ready_def)
  then show ?thesis by (simp add: drop_waiter_def Let_def is_ready_upd_tags)
qed

lemma terminate_requeues:
  assumes "t = mkrn_process_find x s" and "t \<noteq> 0" and "pid (procs s t) = x" and "\<not> mkrn_process_is_ready x s"
  shows "ready (mkrn_process_terminate x s) = snd (ready_enqueue t (ready s))"
    and "has (tags (mkrn_process_terminate x s) t) M4K_ZOMBIE = has (tags s t) M4K_ZOMBIE"
proof -
  define s2 where "s2 = drop_waiter t (upd_tags t (put M4K_TERMINATE \<circ> clr M4K_SCHED_SLEEPING) s)"
  define s3 where "s3 = (if \<not> has (tags s2 t) M4K_STATE_SCHED_MASK then upd_tags t (put M4K_SCHED_READY) s2 else s2)"
  have "pid (procs s3 t) = x" using assms(3)
    by (auto simp: s3_def s2_def drop_waiter_def Let_def)
  moreover have "mkrn_process_is_ready x s3 = mkrn_process_is_ready x s"
    by (simp add: s3_def s2_def is_ready_upd_tags is_ready_drop_waiter)
  moreover have "mkrn_process_terminate x s =
      (if \<not> mkrn_process_is_ready (pid (procs s3 t)) s3 then snd (mkrn_process_enqueue_ready t s3) else s3)"
    using assms(2) unfolding mkrn_process_terminate_def Let_def assms(1)[symmetric] s2_def[symmetric] s3_def[symmetric]
    by simp
  ultimately have "mkrn_process_terminate x s = snd (mkrn_process_enqueue_ready t s3)" using assms(4) by simp
  moreover have "ready s3 = ready s" "has (tags s3 t) M4K_ZOMBIE = has (tags s t) M4K_ZOMBIE"
    by (simp_all add: s3_def s2_def tag_simps)
  ultimately show "ready (mkrn_process_terminate x s) = snd (ready_enqueue t (ready s))"
    "has (tags (mkrn_process_terminate x s) t) M4K_ZOMBIE = has (tags s t) M4K_ZOMBIE"
    by (simp_all add: mkrn_process_enqueue_ready_def split: prod.split)
qed

text \<open>Killing a zombie breaks that safety: a fatal signal to a zombie that is
  not process 1 puts it back into the ready queue, marked runnable, and when its
  parent then collects it, its control block is freed and unregistered while the queue
  still points to it.\<close>

theorem kill_zombie_dangles:
  assumes "kinv s" and "t = mkrn_process_find x s" and "t \<noteq> 0" and "has (tags s t) M4K_ZOMBIE" and "x \<noteq> 1"
    and "mkrn_signal_is_fatal sig" and "count (ready s) < READY_QUEUE_SIZE"
    and "\<not> mkrn_process_is_ready x s" and "s1 = snd (mkrn_kill x sig s)"
  shows "has (tags s1 t) M4K_ZOMBIE \<and> t \<in> set (queued (ready s1)) \<and>
    t \<in> set (queued (ready (proc_free_zombie t s1))) \<and> t \<notin> set (all_procs (proc_free_zombie t s1)) \<and>
    t \<in> set (heap_freed (proc_free_zombie t s1))"
proof -
  have reg: "t \<in> set (all_procs s)" "pid (procs s t) = x" using find_registered[OF assms(1)] assms(2,3) by auto
  have sg: "0 < sig" "sig < M4K_NSIG"
    using assms(6) by (auto simp: mkrn_signal_is_fatal_def M4K_SIGKILL_def M4K_SIGABRT_def M4K_NSIG_def)
  define s2 where "s2 = upd t (\<lambda>r. r\<lparr>exit_status := word_of_int sig\<rparr>)
    (upd t (\<lambda>r. r\<lparr>pending_signals := pending_signals r OR push_bit (nat sig) 1\<rparr>) s)"
  have v: "pid (procs s2 t) = x" "ready s2 = ready s" "tags s2 = tags s" "all_procs s2 = all_procs s"
    "mkrn_process_find x s2 = t" "\<not> mkrn_process_is_ready x s2"
    using reg assms(2,8) by (auto simp: s2_def tags_upd_same find_upd is_ready_upd)
  have s1: "s1 = mkrn_process_terminate x s2"
    using assms(3,5,6) reg(2) sg v(1)
    by (simp add: assms(9) mkrn_kill_def assms(2)[symmetric] Let_def mkrn_signal_deliver_def s2_def)
  note tr = terminate_requeues[OF v(5)[symmetric] assms(3) v(1) v(6)]
  have "rq_inv (ready s)" using assms(1) by (simp add: kinv_def)
  then obtain q where q: "ready_enqueue t (ready s) = (0, q)" "queued q = queued (ready s) @ [t]"
    using ready_enqueue_room[OF _ assms(3,7)] by blast
  then have "t \<in> set (queued (ready s1))" using tr(1) v(2) by (simp add: s1)
  moreover have "has (tags s1 t) M4K_ZOMBIE" using tr(2) v(3) assms(4) by (simp add: s1)
  moreover have "distinct (all_procs s1)" "t \<in> set (all_procs s1)"
    using assms(1) reg v(4) by (auto simp: s1 kinv_def sinv_def)
  then have "t \<notin> set (all_procs (proc_free_zombie t s1))"
    by (simp add: proc_free_zombie_def mkrn_free_at_def Let_def proc_registry_remove_def)
  moreover have "ready (proc_free_zombie t s1) = ready s1" "t \<in> set (heap_freed (proc_free_zombie t s1))"
    by (simp_all add: proc_free_zombie_def mkrn_free_at_def Let_def proc_registry_remove_def)
  ultimately show ?thesis by simp
qed

text \<open>A child 5 of process 1 that has exited.\<close>

definition kproc_zombie :: kproc where
  "kproc_zombie = kproc0\<lparr>all_procs := [0x2000, 0x1000], current := 0x1000, g_current_process := 0x1000,
     procs := (\<lambda>_. proc0)(0x1000 := proc0\<lparr>state_tags := M4K_SCHED_RUNNING\<rparr>,
                          0x2000 := proc0\<lparr>pid := 5, ppid := 1, state_tags := M4K_ZOMBIE\<rparr>)\<rparr>"

lemma kproc_zombie_facts:
  "kinv kproc_zombie" "mkrn_process_find 5 kproc_zombie = 0x2000" "has (tags kproc_zombie 0x2000) M4K_ZOMBIE"
  "count (ready kproc_zombie) < READY_QUEUE_SIZE" "\<not> mkrn_process_is_ready 5 kproc_zombie"
proof -
  have q: "queued (ready kproc_zombie) = []" "rq_inv (ready kproc_zombie)"
    by (simp_all add: kproc_zombie_def kproc0_def queued_def rq_inv_def READY_QUEUE_SIZE_def)
  have t: "tags kproc_zombie 0x1000 = M4K_SCHED_RUNNING" "tags kproc_zombie 0x2000 = M4K_ZOMBIE"
    by (simp_all add: kproc_zombie_def tags_def)
  show "has (tags kproc_zombie 0x2000) M4K_ZOMBIE" by (simp add: t tag_simps)
  show "mkrn_process_find 5 kproc_zombie = 0x2000" by (simp add: mkrn_process_find_def kproc_zombie_def)
  show "\<not> mkrn_process_is_ready 5 kproc_zombie" by (simp add: mkrn_process_is_ready_def q)
  show "count (ready kproc_zombie) < READY_QUEUE_SIZE" by (simp add: kproc_zombie_def kproc0_def)
  have f: "all_procs kproc_zombie = [0x2000, 0x1000]" "current kproc_zombie = 0x1000"
    "g_current_process kproc_zombie = 0x1000" "u32TimerWaiters kproc_zombie = 0"
    by (simp_all add: kproc_zombie_def kproc0_def)
  show "kinv kproc_zombie" by (simp add: kinv_def q f sinv_def pinv_def t tag_simps)
qed

theorem kill_zombie_dangles_witness:
  "\<exists>s1. mkrn_kill 5 M4K_SIGKILL kproc_zombie = (0, s1) \<and> 0x2000 \<in> set (queued (ready (proc_free_zombie 0x2000 s1))) \<and>
     0x2000 \<notin> set (all_procs (proc_free_zombie 0x2000 s1))"
proof -
  have fatal: "mkrn_signal_is_fatal M4K_SIGKILL" by (simp add: mkrn_signal_is_fatal_def)
  obtain r s1 where k: "mkrn_kill 5 M4K_SIGKILL kproc_zombie = (r, s1)" by fastforce
  then have "r = 0" by (auto simp: mkrn_kill_def Let_def kproc_zombie_facts(2) M4K_SIGKILL_def M4K_NSIG_def)
  with k kill_zombie_dangles[OF kproc_zombie_facts(1) kproc_zombie_facts(2)[symmetric] _ kproc_zombie_facts(3)
      _ fatal kproc_zombie_facts(4,5), of s1] show ?thesis by simp
qed



end
