(* ===== verification/SchedSpec.thy ===== *)
theory SchedSpec
  imports SchedInv
begin

text \<open>
  What the scheduler does, on top of its safety: which task a switch picks and what
  it leaves in the queue, that every runnable task gets the processor after as many
  yields as its place in the queue says, and that a timed sleep ends at exactly its
  tick.
\<close>

section \<open>Picking\<close>

lemma enqueue_room:
  assumes "rq_inv (ready s)" and "p \<noteq> 0" and "count (ready s) < READY_QUEUE_SIZE"
  obtains q where "mkrn_process_enqueue_ready p s = (0, s\<lparr>ready := q\<rparr>)" "rq_inv q" "queued q = queued (ready s) @ [p]"
  using ready_enqueue_room[OF assms] by (auto simp: mkrn_process_enqueue_ready_def)

text \<open>The loop passes over the tasks that are not runnable, moving each to the back.\<close>

lemma pick_loop_skips:
  assumes "rq_inv (ready s)" and "queued (ready s) = xs @ c # ys" and "0 \<notin> set (queued (ready s))"
    and "\<forall>x \<in> set xs. \<not> has (tags s x) M4K_TERMINATE \<and> \<not> runnable (tags s x)"
    and "\<not> has (tags s c) M4K_TERMINATE" and "runnable (tags s c)" and "n + length xs \<le> count (ready s)"
  shows "\<exists>q. pick_loop n s = (c, s\<lparr>ready := q\<rparr>) \<and> rq_inv q \<and> queued q = ys @ xs"
  using assms
proof (induction xs arbitrary: n s ys)
  case Nil
  obtain q where d: "dequeue s = (c, s\<lparr>ready := q\<rparr>)" "rq_inv q" "queued q = ys"
    using dequeue_first[OF Nil.prems(1)] Nil.prems(2) by auto
  moreover have "c \<noteq> 0" using Nil.prems(2,3) by auto
  ultimately have "pick_loop n s = (c, s\<lparr>ready := q\<rparr>)"
    using Nil.prems by (simp add: pick_loop.simps)
  then show ?case using d by auto
next
  case (Cons x xs)
  obtain q where d: "dequeue s = (x, s\<lparr>ready := q\<rparr>)" "rq_inv q" "queued q = xs @ c # ys"
    using dequeue_first[OF Cons.prems(1)] Cons.prems(2) by auto
  have x: "x \<noteq> 0" using Cons.prems(2,3) by auto
  have len: "count (ready s) = Suc (count q)"
    using arg_cong[OF Cons.prems(2), of length] arg_cong[OF d(3), of length] by simp
  then have "count q < READY_QUEUE_SIZE" using Cons.prems(1) by (simp add: rq_inv_def)
  then obtain q' where e: "mkrn_process_enqueue_ready x (s\<lparr>ready := q\<rparr>) = (0, s\<lparr>ready := q'\<rparr>)" "rq_inv q'"
    "queued q' = xs @ c # (ys @ [x])"
    using enqueue_room[of "s\<lparr>ready := q\<rparr>" x] x d by auto
  have "pick_loop n s = pick_loop (n + 1) (s\<lparr>ready := q'\<rparr>)"
    using d x e Cons.prems by (subst pick_loop.simps) simp
  moreover have "count q' = count (ready s)"
    using arg_cong[OF Cons.prems(2), of length] arg_cong[OF e(3), of length] by simp
  then have "\<exists>r. pick_loop (n + 1) (s\<lparr>ready := q'\<rparr>) = (c, s\<lparr>ready := q'\<rparr>\<lparr>ready := r\<rparr>) \<and> rq_inv r \<and>
      queued r = (ys @ [x]) @ xs"
    using Cons.prems e by (intro Cons.IH) auto
  ultimately show ?case by auto
qed

text \<open>With no runnable task the loop goes round once more than there are tasks.\<close>

lemma pick_loop_none:
  assumes "rq_inv (ready s)" and "0 \<notin> set (queued (ready s))"
    and "\<forall>x \<in> set (queued (ready s)). \<not> has (tags s x) M4K_TERMINATE \<and> \<not> runnable (tags s x)"
  shows "\<exists>q. pick_loop n s = (0, s\<lparr>ready := q\<rparr>) \<and> rq_inv q \<and> queued q = rotate (Suc (count (ready s)) - n) (queued (ready s))"
  using assms
proof (induction "Suc (count (ready s)) - n" arbitrary: n s)
  case 0
  then show ?case by (auto simp: pick_loop.simps intro!: exI[of _ "ready s"])
next
  case (Suc k)
  show ?case
  proof (cases "queued (ready s)")
    case Nil
    then show ?thesis using Suc.prems Suc.hyps(2) dequeue_empty[OF Nil]
      by (auto simp: pick_loop.simps intro!: exI[of _ "ready s"])
  next
    case (Cons x xs)
    obtain q where d: "dequeue s = (x, s\<lparr>ready := q\<rparr>)" "rq_inv q" "queued q = xs"
      using dequeue_first[OF Suc.prems(1) Cons] .
    have x: "x \<noteq> 0" using Cons Suc.prems(2) by auto
    have len: "count (ready s) = Suc (count q)"
      using arg_cong[OF Cons, of length] arg_cong[OF d(3), of length] by simp
    then have "count q < READY_QUEUE_SIZE" using Suc.prems(1) by (simp add: rq_inv_def)
    then obtain q' where e: "mkrn_process_enqueue_ready x (s\<lparr>ready := q\<rparr>) = (0, s\<lparr>ready := q'\<rparr>)" "rq_inv q'"
      "queued q' = rotate1 (queued (ready s))"
      using enqueue_room[of "s\<lparr>ready := q\<rparr>" x] x d Cons by auto
    have cnt: "count q' = count (ready s)" using arg_cong[OF e(3), of length] by simp
    have "n < count (ready s) + 1" using Suc.hyps(2) by linarith
    then have "pick_loop n s = pick_loop (Suc n) (s\<lparr>ready := q'\<rparr>)"
      using d x e Suc.prems Cons by (subst pick_loop.simps) simp
    moreover have "\<exists>r. pick_loop (Suc n) (s\<lparr>ready := q'\<rparr>) = (0, s\<lparr>ready := q'\<rparr>\<lparr>ready := r\<rparr>) \<and> rq_inv r \<and>
        queued r = rotate (Suc (count q') - Suc n) (queued q')"
      using Suc.prems Suc.hyps(1)[of "s\<lparr>ready := q'\<rparr>" "Suc n"] Suc.hyps(2) e cnt by auto
    moreover have "rotate (Suc (count (ready s)) - n) (queued (ready s)) = rotate k (rotate1 (queued (ready s)))"
      using Suc.hyps(2)[symmetric] by (simp add: rotate1_rotate_swap rotate_Suc)
    moreover have "count (ready s) - n = k" using Suc.hyps(2) by linarith
    ultimately show ?thesis using e(3) cnt by (simp del: rotate_Suc)
  qed
qed

text \<open>The queue the loop sees: the running task goes to the back first.\<close>

definition requeued :: "kproc \<Rightarrow> u32 list" where
  "requeued s = queued (ready s) @
     (if running s \<and> count (ready s) < READY_QUEUE_SIZE then [current s] else [])"

definition ready_tags :: "kproc \<Rightarrow> u32 \<Rightarrow> u64" where
  "ready_tags s = (if running s
     then (tags s)(current s := put M4K_SCHED_READY (clr M4K_SCHED_RUNNING (tags s (current s)))) else tags s)"

lemma switch_requeues:
  assumes "kinv s" and "scheduler_enabled s"
  obtains s2 where "rq_inv (ready s2)" "queued (ready s2) = requeued s" "tags s2 = ready_tags s"
    "0 \<notin> set (requeued s)" "all_procs s2 = all_procs s" "scheduler_enabled s2"
    "mkrn_process_switch_pick now s = (case pick_loop 0 s2 of (n, s3) \<Rightarrow>
       if n = 0 then (0, s3)
       else let s4 = upd n (\<lambda>r. r\<lparr>last_resume_ms := now\<rparr>) (set_running n s3)
            in (n, s4\<lparr>g_switch_esp := thread_esp (procs s4 n), esp0 := kernel_stack (procs s4 n)\<rparr>))"
proof -
  have cur: "current s \<noteq> 0" "rq_inv (ready s)" "0 \<notin> set (queued (ready s))"
    using kinv_nonzero[OF assms(1) kinv_current[OF assms(1)]] assms(1) by (auto simp: kinv_def sinv_def)
  define s1 where "s1 = upd (current s) (\<lambda>r. r\<lparr>thread_esp := g_switch_esp s\<rparr>) s"
  define s1' where "s1' = upd_tags (current s1) (put M4K_SCHED_READY \<circ> clr M4K_SCHED_RUNNING) s1"
  define s2 where "s2 = (if has (tags s1 (current s1)) M4K_SCHED_RUNNING
     then snd (mkrn_process_enqueue_ready (current s1) s1') else s1)"
  have t1: "tags s1 = tags s" "current s1 = current s" "ready s1 = ready s" by (auto simp: s1_def tags_upd_same)
  have t1': "ready s1' = ready s" "tags s1' = ready_tags s" if "running s"
    using that by (simp_all add: s1'_def t1 ready_tags_def)
  have "mkrn_process_switch_pick now s = (case pick_loop 0 s2 of (n, s3) \<Rightarrow>
       if n = 0 then (0, s3)
       else let s4 = upd n (\<lambda>r. r\<lparr>last_resume_ms := now\<rparr>) (set_running n s3)
            in (n, s4\<lparr>g_switch_esp := thread_esp (procs s4 n), esp0 := kernel_stack (procs s4 n)\<rparr>))"
    using assms(2) cur(1) unfolding mkrn_process_switch_pick_def Let_def s1_def[symmetric] s1'_def[symmetric]
      s2_def[symmetric] by simp
  moreover have "rq_inv (ready s2) \<and> queued (ready s2) = requeued s \<and> tags s2 = ready_tags s \<and> all_procs s2 = all_procs s \<and>
      scheduler_enabled s2"
  proof (cases "running s")
    case run: True
    then have s2: "s2 = snd (mkrn_process_enqueue_ready (current s) s1')" by (simp add: s2_def t1 running_def)
    show ?thesis
    proof (cases "count (ready s) < READY_QUEUE_SIZE")
      case True
      obtain q where "mkrn_process_enqueue_ready (current s) s1' = (0, s1'\<lparr>ready := q\<rparr>)" "rq_inv q"
          "queued q = queued (ready s) @ [current s]"
        using enqueue_room[of s1' "current s"] cur True t1'(1)[OF run] by auto
      then show ?thesis using s2 True run t1'(2)[OF run] using assms(2) by (simp add: requeued_def s1'_def s1_def)
    next
      case False
      then show ?thesis using s2 run cur t1'[OF run] assms(2)
        by (simp add: mkrn_process_enqueue_ready_def ready_enqueue_def requeued_def s1'_def s1_def)
    qed
  next
    case False
    then show ?thesis using cur t1 assms(2) by (simp add: s2_def running_def requeued_def ready_tags_def s1_def)
  qed
  moreover have "0 \<notin> set (requeued s)" using cur by (auto simp: requeued_def)
  ultimately show ?thesis using that by blast
qed

lemma set_running_view [simp]:
  "tags (set_running p s) = (tags s)(p := put M4K_SCHED_RUNNING (clr (M4K_SCHED_READY OR M4K_SCHED_SLEEPING) (tags s p)))"
  "current (set_running p s) = p" "ready (set_running p s) = ready s" "all_procs (set_running p s) = all_procs s"
  "scheduler_enabled (set_running p s) = scheduler_enabled s"
  by (simp_all add: set_running_def)

lemma switch_pick_some:
  assumes "kinv s" and "scheduler_enabled s" and "requeued s = xs @ c # ys"
    and "\<forall>x \<in> set xs. \<not> has (ready_tags s x) M4K_TERMINATE \<and> \<not> runnable (ready_tags s x)"
    and "\<not> has (ready_tags s c) M4K_TERMINATE" and "runnable (ready_tags s c)"
  shows "\<exists>s'. mkrn_process_switch_pick now s = (c, s') \<and> current s' = c \<and> queued (ready s') = ys @ xs \<and>
     tags s' = (ready_tags s)(c := put M4K_SCHED_RUNNING (clr (M4K_SCHED_READY OR M4K_SCHED_SLEEPING) (ready_tags s c))) \<and>
     g_switch_esp s' = thread_esp (procs s' c) \<and> esp0 s' = kernel_stack (procs s' c) \<and>
     rq_inv (ready s') \<and> all_procs s' = all_procs s \<and> scheduler_enabled s'"
proof -
  obtain s2 where s2: "rq_inv (ready s2)" "queued (ready s2) = requeued s" "tags s2 = ready_tags s"
    "0 \<notin> set (requeued s)" "all_procs s2 = all_procs s" "scheduler_enabled s2"
    "mkrn_process_switch_pick now s = (case pick_loop 0 s2 of (n, s3) \<Rightarrow>
       if n = 0 then (0, s3)
       else let s4 = upd n (\<lambda>r. r\<lparr>last_resume_ms := now\<rparr>) (set_running n s3)
            in (n, s4\<lparr>g_switch_esp := thread_esp (procs s4 n), esp0 := kernel_stack (procs s4 n)\<rparr>))"
    by (rule switch_requeues[OF assms(1,2)])
  have "count (ready s2) = length xs + Suc (length ys)" using arg_cong[OF s2(2), of length] assms(3) by simp
  then obtain q where q: "pick_loop 0 s2 = (c, s2\<lparr>ready := q\<rparr>)" "rq_inv q" "queued q = ys @ xs"
    using pick_loop_skips[of s2 xs c ys 0] s2 assms(3-6) by auto
  have "c \<noteq> 0" using s2(4) assms(3) by auto
  then show ?thesis using s2 q by (simp add: Let_def tags_upd_same)
qed

lemma switch_pick_none:
  assumes "kinv s" and "scheduler_enabled s"
    and "\<forall>x \<in> set (requeued s). \<not> has (ready_tags s x) M4K_TERMINATE \<and> \<not> runnable (ready_tags s x)"
  shows "\<exists>s'. mkrn_process_switch_pick now s = (0, s') \<and> queued (ready s') = rotate1 (requeued s) \<and>
     tags s' = ready_tags s"
proof -
  obtain s2 where s2: "rq_inv (ready s2)" "queued (ready s2) = requeued s" "tags s2 = ready_tags s"
    "0 \<notin> set (requeued s)" "all_procs s2 = all_procs s" "scheduler_enabled s2"
    "mkrn_process_switch_pick now s = (case pick_loop 0 s2 of (n, s3) \<Rightarrow>
       if n = 0 then (0, s3)
       else let s4 = upd n (\<lambda>r. r\<lparr>last_resume_ms := now\<rparr>) (set_running n s3)
            in (n, s4\<lparr>g_switch_esp := thread_esp (procs s4 n), esp0 := kernel_stack (procs s4 n)\<rparr>))"
    by (rule switch_requeues[OF assms(1,2)])
  obtain q where "pick_loop 0 s2 = (0, s2\<lparr>ready := q\<rparr>)" "queued q = rotate (Suc (count (ready s2))) (queued (ready s2))"
    using pick_loop_none[of s2 0] s2 assms(3) by auto
  moreover have "rotate (Suc (count (ready s2))) (queued (ready s2)) = rotate1 (queued (ready s2))"
    using rotate_id[of "count (ready s2)" "queued (ready s2)"] by (simp add: rotate_Suc)
  ultimately show ?thesis using s2 by simp
qed

section \<open>Round robin\<close>

definition all_live :: "kproc \<Rightarrow> bool" where
  "all_live s \<longleftrightarrow> kinv s \<and> scheduler_enabled s \<and> running s \<and> count (ready s) < READY_QUEUE_SIZE \<and>
     \<not> has (tags s (current s)) M4K_STOPPED \<and> \<not> has (tags s (current s)) M4K_TERMINATE \<and>
     (\<forall>p \<in> set (queued (ready s)). runnable (tags s p) \<and> \<not> has (tags s p) M4K_TERMINATE)"

lemma yield_round_robin:
  assumes "all_live s" and "queued (ready s) = p # ps"
  shows "all_live (snd (mkrn_process_yield esp now s)) \<and> current (snd (mkrn_process_yield esp now s)) = p \<and>
    queued (ready (snd (mkrn_process_yield esp now s))) = ps @ [current s]"
proof -
  define t where "t = s\<lparr>g_switch_esp := esp\<rparr>"
  have t: "kinv t" "scheduler_enabled t" "requeued t = [] @ p # (ps @ [current s])"
    "running t" "current t = current s" "ready t = ready s" "tags t = tags s" "all_procs t = all_procs s"
    using assms by (auto simp: t_def all_live_def requeued_def running_def)
  have nq: "current s \<notin> set (queued (ready s))"
    using pinv_live[OF kinv_pinv[OF t(1) kinv_current[OF t(1)]]] assms(1) t
    by (auto simp: all_live_def running_def count_list_0_iff)
  then have rt: "ready_tags t x = tags s x" if "x \<in> set (queued (ready s))" for x
    using that t by (auto simp: ready_tags_def)
  have p: "p \<in> set (queued (ready s))" using assms(2) by simp
  obtain s' where s': "mkrn_process_switch_pick now t = (p, s')" "current s' = p" "queued (ready s') = ps @ [current s]"
    "tags s' = (ready_tags t)(p := put M4K_SCHED_RUNNING (clr (M4K_SCHED_READY OR M4K_SCHED_SLEEPING) (ready_tags t p)))" "scheduler_enabled s'"
    using switch_pick_some[OF t(1-3), of now] rt[OF p] p assms(1) by (auto simp: all_live_def)
  have k: "kinv s'" using kinv_switch_pick[OF t(1) s'(1)] by blast
  have reg: "p \<in> set (all_procs s)" using assms p by (auto simp: all_live_def kinv_def sinv_def)
  have "count_list (queued (ready s)) p \<le> 1"
    using pinv_live[OF kinv_pinv[of s p]] reg p assms(1) by (auto simp: all_live_def)
  then have np: "p \<notin> set ps" using assms(2) by (auto simp: count_list_0_iff)
  have pc: "p \<noteq> current s" using p nq by auto
  have tg: "tags s' x = tags s x" if "x \<in> set ps" for x
    using that rt[of x] np nq assms(2) by (auto simp: s'(4))
  have tc: "tags s' (current s) = put M4K_SCHED_READY (clr M4K_SCHED_RUNNING (tags s (current s)))"
    using pc t by (simp add: s'(4) ready_tags_def)
  have tp: "tags s' p = put M4K_SCHED_RUNNING (clr (M4K_SCHED_READY OR M4K_SCHED_SLEEPING) (tags s p))"
    using rt[OF p] by (simp add: s'(4))
  have "count (ready s') = count (ready s)" using s'(3) assms(2) by (metis length_append_singleton length_Cons length_queued)
  then have "all_live s'"
    using assms k s'(2,3,5) tg tc tp by (auto simp: all_live_def running_def runnable_def tag_simps)
  then show ?thesis using s' by (simp add: mkrn_process_yield_def t_def)
qed

lemma yields_reach:
  assumes "all_live s" and "i < count (ready s)"
  shows "current (((\<lambda>t. snd (mkrn_process_yield esp now t)) ^^ Suc i) s) = queued (ready s) ! i"
  using assms
proof (induction i arbitrary: s)
  case 0
  then obtain p ps where q: "queued (ready s) = p # ps" by (metis length_queued list.exhaust list.size(3) less_numeral_extra(3))
  then show ?case using yield_round_robin[OF 0(1) q] by simp
next
  case (Suc i)
  then obtain p ps where q: "queued (ready s) = p # ps" by (metis length_queued list.exhaust list.size(3) not_less_zero)
  let ?s = "snd (mkrn_process_yield esp now s)"
  note y = yield_round_robin[OF Suc.prems(1) q, of esp now]
  have len: "count (ready s) = Suc (length ps)" using q by (metis length_Cons length_queued)
  have "count (ready ?s) = Suc (length ps)" using y by (metis length_append_singleton length_queued)
  then have "i < count (ready ?s)" using Suc.prems(2) len by simp
  then have "current (((\<lambda>t. snd (mkrn_process_yield esp now t)) ^^ Suc i) ?s) = (ps @ [current s]) ! i"
    using Suc.IH[of ?s] y by simp
  moreover have "(ps @ [current s]) ! i = (p # ps) ! Suc i" using Suc.prems(2) len by (simp add: nth_append)
  ultimately show ?case using q by (simp only: funpow_Suc_right o_apply)
qed

section \<open>Timed sleep\<close>

text \<open>With room for every waiter, a tick never fails to queue a task it wakes.\<close>

definition room_to_wake :: "kproc \<Rightarrow> bool" where
  "room_to_wake s \<longleftrightarrow> kinv s \<and> count (ready s) + waiters (all_procs s) (tags s) \<le> READY_QUEUE_SIZE"

definition asleep :: "kproc \<Rightarrow> u32 \<Rightarrow> bool" where
  "asleep s p \<longleftrightarrow> has (tags s p) M4K_SCHED_SLEEPING \<and> has (tags s p) M4K_WAIT_TIMER"

definition woken :: "kproc \<Rightarrow> u32 \<Rightarrow> bool" where
  "woken s p \<longleftrightarrow> p \<in> set (queued (ready s)) \<and> has (tags s p) M4K_SCHED_READY \<and>
     \<not> has (tags s p) M4K_SCHED_SLEEPING \<and> \<not> has (tags s p) M4K_WAIT_TIMER"

lemma wakeup_room:
  assumes "room_to_wake s" and "p \<in> set (all_procs s)" and "asleep s p"
  shows "room_to_wake (mkrn_process_wakeup p s)" and "woken (mkrn_process_wakeup p s) p"
    and "queued (ready (mkrn_process_wakeup p s)) = queued (ready s) @ [p]"
    and "procs (mkrn_process_wakeup p s) = (procs s)(p := (procs s p)\<lparr>state_tags := tags (mkrn_process_wakeup p s) p\<rparr>)"
proof -
  define s1 where "s1 = drop_waiter p s"
  define s2 where "s2 = upd_tags p (put M4K_SCHED_READY \<circ> clr M4K_SCHED_SLEEPING) s1"
  have k: "kinv s" "p \<noteq> 0" "distinct (all_procs s)" "rq_inv (ready s)"
    using assms kinv_nonzero by (auto simp: room_to_wake_def kinv_def sinv_def)
  let ?v = "put M4K_SCHED_READY (clr M4K_SCHED_SLEEPING (clr M4K_WAIT_TIMER (tags s p)))"
  have v2: "ready s2 = ready s" "tags s2 = (tags s)(p := ?v)" "all_procs s2 = all_procs s" by (auto simp: s2_def s1_def)
  have w: "Suc (waiters (all_procs s) ((tags s)(p := ?v))) = waiters (all_procs s) (tags s)"
    using k(3) assms by (intro waiters_drop) (auto simp: asleep_def tag_simps)
  then have "count (ready s) < READY_QUEUE_SIZE" using assms(1) by (simp add: room_to_wake_def)
  then obtain q where q: "mkrn_process_enqueue_ready p s2 = (0, s2\<lparr>ready := q\<rparr>)" "rq_inv q"
    "queued q = queued (ready s) @ [p]" using enqueue_room[of s2 p] k v2 by auto
  have e: "mkrn_process_wakeup p s = s2\<lparr>ready := q\<rparr>"
    using assms(3) k(2) q(1) by (simp add: mkrn_process_wakeup_def asleep_def Let_def s1_def s2_def)
  have "count q = Suc (count (ready s))" using q(3) by (metis length_append_singleton length_queued)
  then show "room_to_wake (mkrn_process_wakeup p s)"
    using assms w kinv_wakeup[OF k(1) assms(2)] by (simp add: room_to_wake_def e v2)
  show "woken (mkrn_process_wakeup p s) p" by (auto simp: woken_def e v2 q tag_simps)
  show "queued (ready (mkrn_process_wakeup p s)) = queued (ready s) @ [p]" by (simp add: e q)
  show "procs (mkrn_process_wakeup p s) = (procs s)(p := (procs s p)\<lparr>state_tags := tags (mkrn_process_wakeup p s) p\<rparr>)"
    by (auto simp: e s2_def s1_def drop_waiter_def Let_def tags_def fun_eq_iff)
qed

lemma asleep_upd: "(\<And>r. state_tags (f r) = state_tags r) \<Longrightarrow> asleep (upd q f s) p = asleep s p"
  by (simp add: asleep_def tags_upd_same)

lemma room_upd: "(\<And>r. state_tags (f r) = state_tags r) \<Longrightarrow> room_to_wake s \<Longrightarrow> room_to_wake (upd q f s)"
  by (simp add: room_to_wake_def tags_upd_same kinv_upd)

lemma tick_one_cases:
  assumes "room_to_wake s" and "p \<in> set (all_procs s)"
  obtains (idle) "\<not> (asleep s p \<and> sleep_ticks (procs s p) \<noteq> 0)" "tick_one p s = s"
  | (count) "asleep s p" "sleep_ticks (procs s p) \<noteq> 0" "sleep_ticks (procs s p) - 1 \<noteq> 0"
      "tick_one p s = upd p (\<lambda>r. r\<lparr>sleep_ticks := sleep_ticks r - 1\<rparr>) s"
  | (wake) "asleep s p" "sleep_ticks (procs s p) - 1 = 0" "sleep_ticks (procs s p) \<noteq> 0"
      "tick_one p s = mkrn_process_wakeup p (upd p (\<lambda>r. r\<lparr>sleep_ticks := sleep_ticks r - 1\<rparr>) s)"
proof (cases "asleep s p \<and> sleep_ticks (procs s p) \<noteq> 0")
  case True
  define s1 where "s1 = upd p (\<lambda>r. r\<lparr>sleep_ticks := sleep_ticks r - 1\<rparr>) s"
  have "woken (mkrn_process_wakeup p s1) p"
    unfolding s1_def using assms True by (intro wakeup_room room_upd) (auto simp: asleep_upd)
  then have "\<not> has (tags (mkrn_process_wakeup p s1) p) M4K_SCHED_SLEEPING" by (simp add: woken_def)
  then have "tick_one p s = (if sleep_ticks (procs s p) - 1 = 0 then mkrn_process_wakeup p s1 else s1)"
    using True unfolding tick_one_def Let_def s1_def[symmetric] by (simp add: asleep_def s1_def)
  then show ?thesis using True that(2,3) by (auto simp: s1_def split: if_splits)
next
  case False
  then have "tick_one p s = s" unfolding tick_one_def asleep_def by auto
  then show ?thesis using False that(1) by blast
qed

lemma tick_one_room:
  assumes "room_to_wake s" and "q \<in> set (all_procs s)"
  shows "room_to_wake (tick_one q s)" and "set (queued (ready s)) \<subseteq> set (queued (ready (tick_one q s)))"
    and "p \<noteq> q \<Longrightarrow> procs (tick_one q s) p = procs s p"
proof -
  let ?s1 = "upd q (\<lambda>r. r\<lparr>sleep_ticks := sleep_ticks r - 1\<rparr>) s"
  have r1: "room_to_wake ?s1" "asleep ?s1 q = asleep s q" using assms by (auto simp: asleep_upd intro: room_upd)
  show "room_to_wake (tick_one q s)"
    by (cases rule: tick_one_cases[OF assms]) (use assms r1 in \<open>simp_all add: wakeup_room(1)\<close>)
  show "set (queued (ready s)) \<subseteq> set (queued (ready (tick_one q s)))"
    by (cases rule: tick_one_cases[OF assms]) (use assms r1 in \<open>simp_all add: wakeup_room(3)\<close>, blast)
  show "procs (tick_one q s) p = procs s p" if "p \<noteq> q"
    by (cases rule: tick_one_cases[OF assms]) (use assms r1 that in \<open>simp_all add: wakeup_room(4)\<close>)
qed

lemma ticks_others:
  assumes "room_to_wake s" and "set qs \<subseteq> set (all_procs s)" and "p \<notin> set qs"
  shows "room_to_wake (foldl (\<lambda>t q. tick_one q t) s qs) \<and> all_procs (foldl (\<lambda>t q. tick_one q t) s qs) = all_procs s \<and>
    scheduler_enabled (foldl (\<lambda>t q. tick_one q t) s qs) = scheduler_enabled s \<and>
    procs (foldl (\<lambda>t q. tick_one q t) s qs) p = procs s p \<and>
    set (queued (ready s)) \<subseteq> set (queued (ready (foldl (\<lambda>t q. tick_one q t) s qs)))"
  using assms
proof (induction qs arbitrary: s)
  case (Cons q qs)
  have q: "q \<in> set (all_procs s)" "p \<noteq> q" using Cons.prems by auto
  note t = tick_one_room[OF Cons.prems(1) q(1)]
  show ?case using Cons.IH[of "tick_one q s"] Cons.prems t(1,2) t(3)[OF q(2)] by auto
qed simp

lemma timer_tick_sleeper:
  assumes "room_to_wake s" and "scheduler_enabled s" and "p \<in> set (all_procs s)" and "asleep s p"
    and "sleep_ticks (procs s p) \<noteq> 0"
  shows "room_to_wake (mkrn_process_timer_tick s) \<and> scheduler_enabled (mkrn_process_timer_tick s) \<and>
    all_procs (mkrn_process_timer_tick s) = all_procs s \<and>
    (if sleep_ticks (procs s p) = 1 then woken (mkrn_process_timer_tick s) p
     else asleep (mkrn_process_timer_tick s) p \<and>
          sleep_ticks (procs (mkrn_process_timer_tick s) p) = sleep_ticks (procs s p) - 1)"
proof -
  have k: "kinv s" "distinct (all_procs s)" using assms(1) by (auto simp: room_to_wake_def kinv_def sinv_def)
  obtain as bs where ab: "all_procs s = as @ p # bs" using assms(3) by (meson split_list)
  then have d: "p \<notin> set as" "p \<notin> set bs" using k(2) by auto
  have "u32TimerWaiters s \<noteq> 0"
  proof
    assume "u32TimerWaiters s = 0"
    then have "waiters (all_procs s) (tags s) = 0" using k(1) by (simp add: kinv_def)
    then show False using assms(3,4) by (auto simp: waiters_def asleep_def filter_empty_conv)
  qed
  then have e: "mkrn_process_timer_tick s =
      foldl (\<lambda>t q. tick_one q t) (tick_one p (foldl (\<lambda>t q. tick_one q t) s as)) bs"
    using assms(2) by (simp add: mkrn_process_timer_tick_def ab)
  define s1 where "s1 = foldl (\<lambda>t q. tick_one q t) s as"
  define s2 where "s2 = tick_one p s1"
  define s3 where "s3 = foldl (\<lambda>t q. tick_one q t) s2 bs"
  have o1: "room_to_wake s1" "all_procs s1 = all_procs s" "scheduler_enabled s1" "procs s1 p = procs s p"
    using ticks_others[OF assms(1) _ d(1)] ab assms(2) by (auto simp: s1_def)
  have p1: "p \<in> set (all_procs s1)" "asleep s1 p" using o1 assms(3,4) by (auto simp: asleep_def tags_def)
  have r2: "room_to_wake s2" "all_procs s2 = all_procs s" "scheduler_enabled s2"
    using tick_one_room(1)[OF o1(1) p1(1)] o1 by (auto simp: s2_def)
  have o3: "room_to_wake s3" "all_procs s3 = all_procs s" "scheduler_enabled s3" "procs s3 p = procs s2 p"
    "set (queued (ready s2)) \<subseteq> set (queued (ready s3))"
    using ticks_others[OF r2(1) _ d(2)] ab r2 by (auto simp: s3_def)
  have keep: "asleep s3 p = asleep s2 p" "woken s2 p \<Longrightarrow> woken s3 p"
    using o3(4,5) by (auto simp: asleep_def woken_def tags_def)
  have eff: "if sleep_ticks (procs s p) = 1 then woken s2 p
     else asleep s2 p \<and> sleep_ticks (procs s2 p) = sleep_ticks (procs s p) - 1"
    using o1(1) p1(1)
  proof (cases rule: tick_one_cases)
    case idle
    then show ?thesis using p1(2) o1(4) assms(5) by simp
  next
    case count
    then show ?thesis using p1(2) o1(4) by (auto simp: s2_def asleep_upd)
  next
    case wake
    have "woken s2 p" unfolding s2_def wake(4)
      using o1(1) p1 by (intro wakeup_room(2) room_upd) (auto simp: asleep_upd)
    then show ?thesis using wake(2) o1(4) by simp
  qed
  then show ?thesis using e keep o3 by (simp add: s1_def[symmetric] s2_def[symmetric] s3_def[symmetric] split: if_splits)
qed

lemma sleep_countdown:
  assumes "room_to_wake s" and "scheduler_enabled s" and "p \<in> set (all_procs s)" and "asleep s p"
    and "unat (sleep_ticks (procs s p)) = Suc n"
  shows "(\<forall>k \<le> n. asleep ((mkrn_process_timer_tick ^^ k) s) p) \<and> woken ((mkrn_process_timer_tick ^^ Suc n) s) p"
  using assms
proof (induction n arbitrary: s)
  case 0
  then have "sleep_ticks (procs s p) = 1" by (metis One_nat_def unat_1 word_unat_eq_iff)
  then show ?case using timer_tick_sleeper[OF 0(1-4)] 0(4) by simp
next
  case (Suc n)
  let ?s = "mkrn_process_timer_tick s"
  have nz: "sleep_ticks (procs s p) \<noteq> 0" "sleep_ticks (procs s p) \<noteq> 1" using Suc.prems(5) by auto
  note t = timer_tick_sleeper[OF Suc.prems(1-4) nz(1)]
  have "unat (sleep_ticks (procs ?s p)) = Suc n" using t nz Suc.prems(5) by (simp add: unat_pred)
  then have ih: "(\<forall>k \<le> n. asleep ((mkrn_process_timer_tick ^^ k) ?s) p) \<and> woken ((mkrn_process_timer_tick ^^ Suc n) ?s) p"
    using Suc.IH[of ?s] t nz Suc.prems(3) by simp
  have "asleep ((mkrn_process_timer_tick ^^ k) s) p" if "k \<le> Suc n" for k
    using that ih Suc.prems(4) by (cases k) (auto simp: funpow_Suc_right simp del: funpow.simps(2))
  then show ?case using ih by (simp add: funpow_Suc_right del: funpow.simps(2))
qed

section \<open>Credentials\<close>

datatype cred_op = SetUid u32 | SetGid u32 | SetGroups int "u32 list" | SetRlimit int "rlimit option"

fun cred_step :: "cred_op \<Rightarrow> kproc \<Rightarrow> kproc" where
  "cred_step (SetUid x) s = snd (mkrn_process_set_uid x s)"
| "cred_step (SetGid x) s = snd (mkrn_process_set_gid x s)"
| "cred_step (SetGroups n gs) s = snd (mkrn_process_set_groups n gs s)"
| "cred_step (SetRlimit r l) s = snd (mkrn_process_set_rlimit r l s)"

text \<open>A process without root's user or group and outside the prime group.\<close>

definition unprivileged :: "proc \<Rightarrow> bool" where
  "unprivileged c \<longleftrightarrow> uid c \<noteq> M4K_UID_ROOT \<and> euid c \<noteq> M4K_UID_ROOT \<and>
     gid c \<notin> {M4K_GID_ROOT, M4K_GID_PRIME} \<and> egid c \<notin> {M4K_GID_ROOT, M4K_GID_PRIME} \<and>
     M4K_GID_PRIME \<notin> set (take (unat (group_count c)) (group_list c))"

definition cred_le :: "proc \<Rightarrow> proc \<Rightarrow> bool" where
  "cred_le c d \<longleftrightarrow> uid d = uid c \<and> gid d = gid c \<and> euid d \<in> {uid c, euid c} \<and> egid d \<in> {gid c, egid c} \<and>
     group_list d = group_list c \<and> group_count d = group_count c"

lemma not_prime: "unprivileged (procs s (current s)) \<Longrightarrow> \<not> is_prime_member s"
  by (auto simp: unprivileged_def is_prime_member_def Let_def list_ex_iff)

lemma cred_step_le:
  assumes "unprivileged (procs s (current s))"
  shows "unprivileged (procs (cred_step opn s) (current s)) \<and> cred_le (procs s (current s)) (procs (cred_step opn s) (current s)) \<and>
    current (cred_step opn s) = current s"
proof (cases opn)
  case (SetUid x)
  then show ?thesis using assms not_prime[OF assms]
    by (auto simp: mkrn_process_set_uid_def unprivileged_def cred_le_def Let_def)
next
  case (SetGid x)
  then show ?thesis using assms by (auto simp: mkrn_process_set_gid_def unprivileged_def cred_le_def Let_def)
next
  case (SetGroups n gs)
  then show ?thesis using assms by (auto simp: mkrn_process_set_groups_def unprivileged_def cred_le_def)
next
  case (SetRlimit r l)
  then show ?thesis using assms
    by (auto simp: mkrn_process_set_rlimit_def unprivileged_def cred_le_def Let_def split: option.split)
qed

lemma cred_steps_le:
  assumes "unprivileged (procs s (current s))"
  shows "unprivileged (procs (fold cred_step ops s) (current s)) \<and>
    cred_le (procs s (current s)) (procs (fold cred_step ops s) (current s)) \<and> current (fold cred_step ops s) = current s"
  using assms
proof (induction ops arbitrary: s)
  case (Cons opn ops)
  note st = cred_step_le[OF Cons.prems, of opn]
  show ?case using Cons.IH[of "cred_step opn s"] st by (auto simp: cred_le_def)
qed (simp add: cred_le_def)

section \<open>Waiting\<close>

abbreviation dead_child :: "u32 \<Rightarrow> kproc \<Rightarrow> u32 \<Rightarrow> bool" where
  "dead_child x s p \<equiv> my_child x s p \<and> has (tags s p) M4K_ZOMBIE"

lemma scan_children_find:
  "case find (dead_child x s) ps of
     Some p \<Rightarrow> scan_children x s c ps = p
   | None \<Rightarrow> (if list_ex (my_child x s) ps then scan_children x s c ps \<in> set ps \<and> \<not> has (tags s (scan_children x s c ps)) M4K_ZOMBIE
             else scan_children x s c ps = c)"
proof (induction ps arbitrary: c)
  case (Cons p ps)
  show ?case using Cons[of p] Cons[of c] by (auto split: option.splits if_splits)
qed simp

section \<open>Properties\<close>

text \<open>The scheduler's choice: when no queued task is marked for termination, a
  switch puts the running task at the back (if there is room), picks the first task
  in queue order that is ready and not stopped, moves the tasks it passed over to
  the back in their order, makes the chosen one the current running process and
  loads its stacks; if no task is runnable it reports none and the queue is
  rotated by one.\<close>

theorem switch_pick_correct:
  assumes "kinv s" and "scheduler_enabled s" and "\<forall>p \<in> set (requeued s). \<not> has (ready_tags s p) M4K_TERMINATE"
  shows "case find (\<lambda>p. runnable (ready_tags s p)) (requeued s) of
      None \<Rightarrow> \<exists>s'. mkrn_process_switch_pick now s = (0, s') \<and> queued (ready s') = rotate1 (requeued s) \<and> tags s' = ready_tags s
    | Some c \<Rightarrow> \<exists>s' xs ys. requeued s = xs @ c # ys \<and> (\<forall>x \<in> set xs. \<not> runnable (ready_tags s x)) \<and>
        mkrn_process_switch_pick now s = (c, s') \<and> current s' = c \<and> queued (ready s') = ys @ xs \<and> running s' \<and>
        (\<forall>p. p \<noteq> c \<longrightarrow> tags s' p = ready_tags s p) \<and>
        g_switch_esp s' = thread_esp (procs s' c) \<and> esp0 s' = kernel_stack (procs s' c)"
proof (cases "find (\<lambda>p. runnable (ready_tags s p)) (requeued s)")
  case None
  then have "\<forall>x \<in> set (requeued s). \<not> runnable (ready_tags s x)" by (simp add: find_None_iff)
  then show ?thesis using switch_pick_none[OF assms(1,2)] assms(3) None by simp
next
  case (Some c)
  obtain xs ys where q: "requeued s = xs @ c # ys" "\<forall>x \<in> set xs. \<not> runnable (ready_tags s x)" "runnable (ready_tags s c)"
  proof -
    have "\<exists>xs ys. zs = xs @ c # ys \<and> (\<forall>x \<in> set xs. \<not> P x) \<and> P c" if "find P zs = Some c" for P and zs :: "u32 list"
      using that by (induction zs) (auto split: if_splits, metis append_Nil empty_iff list.set(1), metis append_Cons set_ConsD)
    from this[OF Some] show ?thesis using that by blast
  qed
  then show ?thesis using switch_pick_some[OF assms(1,2) q(1)] Some assms(3)
    by (fastforce simp: running_def tag_simps)
qed

text \<open>Two live processes, one running and one queued.\<close>

definition kproc_two :: kproc where
  "kproc_two = kproc0\<lparr>all_procs := [0x2000, 0x1000], current := 0x1000, g_current_process := 0x1000,
     scheduler_enabled := True, ready := \<lparr>slots = (replicate 64 0)[0 := 0x2000], head = 0, count = 1\<rparr>,
     procs := (\<lambda>_. proc0)(0x1000 := proc0\<lparr>state_tags := M4K_SCHED_RUNNING\<rparr>,
                          0x2000 := proc0\<lparr>pid := 2, ppid := 1, state_tags := M4K_SCHED_READY\<rparr>)\<rparr>"

lemma kproc_two_view:
  "queued (ready kproc_two) = [0x2000]" "rq_inv (ready kproc_two)" "count (ready kproc_two) = 1"
  "tags kproc_two 0x1000 = M4K_SCHED_RUNNING" "tags kproc_two 0x2000 = M4K_SCHED_READY"
  "all_procs kproc_two = [0x2000, 0x1000]" "current kproc_two = 0x1000" "scheduler_enabled kproc_two"
  "g_current_process kproc_two = 0x1000" "u32TimerWaiters kproc_two = 0"
  by (simp_all add: kproc_two_def kproc0_def queued_def rq_inv_def READY_QUEUE_SIZE_def tags_def)

lemma kproc_two_live: "all_live kproc_two"
proof -
  have "kinv kproc_two" by (simp add: kinv_def sinv_def pinv_def kproc_two_view tag_simps)
  then show ?thesis
    by (simp add: all_live_def kproc_two_view running_def runnable_def tag_simps READY_QUEUE_SIZE_def)
qed

theorem switch_pick_correct_witness:
  "\<exists>s'. mkrn_process_switch_pick 7 kproc_two = (0x2000, s') \<and> queued (ready s') = [0x1000]"
proof -
  have r: "requeued kproc_two = [0x2000, 0x1000]"
    by (simp add: requeued_def kproc_two_view running_def tag_simps READY_QUEUE_SIZE_def)
  have t: "ready_tags kproc_two 0x2000 = M4K_SCHED_READY"
    "ready_tags kproc_two 0x1000 = put M4K_SCHED_READY (clr M4K_SCHED_RUNNING M4K_SCHED_RUNNING)"
    by (simp_all add: ready_tags_def kproc_two_view running_def tag_simps)
  have k: "kinv kproc_two" using kproc_two_live by (simp add: all_live_def)
  have f: "find (\<lambda>p. runnable (ready_tags kproc_two p)) (requeued kproc_two) = Some 0x2000"
    by (simp add: r t runnable_def tag_simps)
  have n: "\<forall>p \<in> set (requeued kproc_two). \<not> has (ready_tags kproc_two p) M4K_TERMINATE" by (simp add: r t tag_simps)
  from switch_pick_correct[OF k kproc_two_view(8) n, of 7, unfolded f option.case]
  obtain s' xs ys where "[0x2000, 0x1000] = xs @ 0x2000 # ys" "mkrn_process_switch_pick 7 kproc_two = (0x2000, s')"
    "queued (ready s') = ys @ xs" unfolding r by blast
  moreover then have "xs = []" "ys = [0x1000]" by (auto simp: Cons_eq_append_conv)
  ultimately show ?thesis by auto
qed

text \<open>C13. Progress: while every task is live and runnable, the task at position \<open>i\<close>
  of the ready queue has the processor after exactly \<open>i + 1\<close> yields.\<close>

theorem round_robin_progress:
  assumes "all_live s" and "i < count (ready s)"
  shows "current (((\<lambda>t. snd (mkrn_process_yield esp now t)) ^^ (i + 1)) s) = queued (ready s) ! i"
  using yields_reach[OF assms] by simp

theorem round_robin_progress_witness:
  "current (((\<lambda>t. snd (mkrn_process_yield 0x800 9 t)) ^^ (0 + 1)) kproc_two) = 0x2000"
  using round_robin_progress[OF kproc_two_live, of 0 "0x800" 9] by (simp add: kproc_two_view)

text \<open>C14. A timed sleep ends: a sleeper with \<open>n\<close> ticks left, with room in the ready
  queue for all sleepers, is still asleep after each of the next \<open>n - 1\<close> timer ticks
  and is ready and queued after the \<open>n\<close>-th.\<close>

theorem timed_sleep_ends:
  assumes "room_to_wake s" and "scheduler_enabled s" and "p \<in> set (all_procs s)" and "asleep s p"
    and "n = unat (sleep_ticks (procs s p))" and "0 < n"
  shows "(\<forall>k < n. asleep ((mkrn_process_timer_tick ^^ k) s) p) \<and> woken ((mkrn_process_timer_tick ^^ n) s) p"
proof -
  obtain m where "n = Suc m" using assms(6) by (cases n) auto
  then show ?thesis using sleep_countdown[OF assms(1-4)] assms(5) by (auto simp: less_Suc_eq_le)
qed

definition kproc_sleep :: kproc where
  "kproc_sleep = kproc0\<lparr>all_procs := [0x2000, 0x1000], current := 0x1000, g_current_process := 0x1000,
     scheduler_enabled := True, u32TimerWaiters := 1,
     procs := (\<lambda>_. proc0)(0x1000 := proc0\<lparr>state_tags := M4K_SCHED_RUNNING\<rparr>,
                          0x2000 := proc0\<lparr>pid := 2, sleep_ticks := 3, state_tags := M4K_SCHED_SLEEPING OR M4K_WAIT_TIMER\<rparr>)\<rparr>"

theorem timed_sleep_ends_witness: "woken ((mkrn_process_timer_tick ^^ 3) kproc_sleep) 0x2000"
proof -
  have v: "queued (ready kproc_sleep) = []" "rq_inv (ready kproc_sleep)" "count (ready kproc_sleep) = 0"
    "tags kproc_sleep 0x1000 = M4K_SCHED_RUNNING" "tags kproc_sleep 0x2000 = M4K_SCHED_SLEEPING OR M4K_WAIT_TIMER"
    "all_procs kproc_sleep = [0x2000, 0x1000]" "current kproc_sleep = 0x1000" "scheduler_enabled kproc_sleep"
    "g_current_process kproc_sleep = 0x1000" "u32TimerWaiters kproc_sleep = 1" "sleep_ticks (procs kproc_sleep 0x2000) = 3"
    by (simp_all add: kproc_sleep_def kproc0_def queued_def rq_inv_def READY_QUEUE_SIZE_def tags_def)
  have "room_to_wake kproc_sleep"
    by (simp add: room_to_wake_def kinv_def sinv_def pinv_def v tag_simps READY_QUEUE_SIZE_def)
  moreover have "asleep kproc_sleep 0x2000" by (simp add: asleep_def v tag_simps)
  ultimately show ?thesis using timed_sleep_ends[of kproc_sleep "0x2000" 3] v by simp
qed

text \<open>The conversion of a sleep time to timer ticks does not wrap: for a time
  of at most 10 seconds and any frequency the timer hardware allows, the result is
  the rounded product of the two, and at least one tick.\<close>

theorem ms_to_ticks_exact:
  assumes "unat ms \<le> 10000" and "0 < unat freq" and "unat freq \<le> 1193182"
  shows "unat (ms_to_ticks freq ms) = max 1 ((unat ms * unat freq + 500) div 1000)"
proof -
  let ?m = "unat ms" and ?f = "unat freq"
  define q where "q = ?m div 1000"
  define r where "r = ?m mod 1000"
  have mq: "?m = 1000 * q + r" "r < 1000" "q \<le> 10" using assms(1) by (auto simp: q_def r_def)
  have bq: "q * ?f \<le> 10 * 1193182" and br: "r * ?f \<le> 1000 * 1193182"
    using mq assms(3) by (intro mult_le_mono; simp)+
  have e: "q * ?f + (r * ?f + 500) div 1000 = (?m * ?f + 500) div 1000"
  proof -
    have "?m * ?f + 500 = r * ?f + 500 + 1000 * (q * ?f)" by (simp add: mq(1) algebra_simps)
    then show ?thesis by simp
  qed
  have "unat (ms div 1000) = q" "unat (ms mod 1000) = r" by (simp_all add: q_def r_def unat_div unat_mod)
  moreover have "unat (ms div 1000 * freq) = q * ?f" "unat (ms mod 1000 * freq) = r * ?f"
    using calculation bq br by (simp_all add: unat_word_ariths)
  moreover have "unat (ms mod 1000 * freq + 500) = r * ?f + 500"
    using calculation br by (simp add: unat_word_ariths)
  ultimately have t: "unat (ms div 1000 * freq + (ms mod 1000 * freq + 500) div 1000) = (?m * ?f + 500) div 1000"
    using bq br e by (simp add: unat_word_ariths unat_div)
  have "freq \<noteq> 0" using assms(2) by auto
  moreover define w where "w = ms div 1000 * freq + (ms mod 1000 * freq + 500) div 1000"
  moreover have "unat w \<noteq> 0" if "w \<noteq> 0" using that by (simp add: unsigned_eq_0_iff)
  ultimately show ?thesis using t by (cases "w = 0") (auto simp: ms_to_ticks_def Let_def max_def)
qed

theorem ms_to_ticks_exact_witness: "unat (ms_to_ticks 100 9999) = 1000"
  using ms_to_ticks_exact[of 9999 100] by simp

text \<open>C15. No escalation: a process outside root and the prime group keeps its real
  ids and its groups under any sequence of calls that change credentials or limits,
  and its effective ids only ever move between its real and effective ids, so it
  never becomes privileged; and a single \<open>setuid\<close> succeeds exactly for root, for a
  prime member asking for 0, and for the process's own ids.\<close>

theorem no_escalation:
  assumes "current s \<noteq> 0" and "unprivileged (procs s (current s))"
  shows "unprivileged (procs (fold cred_step ops s) (current s)) \<and>
    cred_le (procs s (current s)) (procs (fold cred_step ops s) (current s)) \<and>
    (\<forall>t. current t \<noteq> 0 \<longrightarrow> (fst (mkrn_process_set_uid x t) = 0 \<longleftrightarrow>
       euid (procs t (current t)) = M4K_UID_ROOT \<or> x = 0 \<and> is_prime_member t \<or>
       x \<in> {uid (procs t (current t)), euid (procs t (current t))}))"
  using cred_steps_le[OF assms(2)] by (auto simp: mkrn_process_set_uid_def Let_def M4K_EPERM_def)

theorem no_escalation_witness:
  "\<exists>s. unprivileged (procs (fold cred_step [SetGid 1001, SetUid 0] s) (current s)) \<and> current s \<noteq> 0"
proof -
  define s where "s = kproc_two\<lparr>procs := \<lambda>_. proc0\<lparr>uid := 500, euid := 500, gid := 500, egid := 500\<rparr>\<rparr>"
  have "current s \<noteq> 0" "unprivileged (procs s (current s))"
    by (simp_all add: s_def kproc_two_view unprivileged_def M4K_UID_ROOT_def M4K_GID_ROOT_def M4K_GID_PRIME_def proc0_def)
  from no_escalation[OF this] this show ?thesis by blast
qed

text \<open>C16. Waiting: \<open>waitpid\<close> fails with -1 exactly when the caller has no matching
  child; otherwise it collects the first matching zombie in registry order, returning
  its pid and status and freeing and unregistering only it; with no zombie among them
  it returns 0 under \<open>WNOHANG\<close> and yields without it, changing nothing.\<close>

theorem waitpid_correct:
  assumes "kinv s"
  shows "mkrn_waitpid x st opts s =
    (if \<not> list_ex (my_child x s) (all_procs s) then (Returned (-1) None, s)
     else case find (dead_child x s) (all_procs s) of
        Some p \<Rightarrow> (Returned (sint (pid (procs s p))) (if st then Some (wait_status (exit_status (procs s p))) else None),
                   proc_free_zombie p s)
      | None \<Rightarrow> (if opts AND M4K_WNOHANG \<noteq> 0 then Returned 0 None else Yields, s)) \<and>
    (\<forall>p \<in> set (all_procs s). set (all_procs (proc_free_zombie p s)) = set (all_procs s) - {p} \<and>
       p \<in> set (heap_freed (proc_free_zombie p s)))"
proof
  have d: "distinct (all_procs s)" "0 \<notin> set (all_procs s)" using assms by (auto simp: kinv_def sinv_def)
  then show "\<forall>p \<in> set (all_procs s). set (all_procs (proc_free_zombie p s)) = set (all_procs s) - {p} \<and>
       p \<in> set (heap_freed (proc_free_zombie p s))"
    by (auto simp: proc_free_zombie_def mkrn_free_at_def Let_def proc_registry_remove_def)
  show "mkrn_waitpid x st opts s =
    (if \<not> list_ex (my_child x s) (all_procs s) then (Returned (-1) None, s)
     else case find (dead_child x s) (all_procs s) of
        Some p \<Rightarrow> (Returned (sint (pid (procs s p))) (if st then Some (wait_status (exit_status (procs s p))) else None),
                   proc_free_zombie p s)
      | None \<Rightarrow> (if opts AND M4K_WNOHANG \<noteq> 0 then Returned 0 None else Yields, s))"
    using scan_children_find[of x s "all_procs s" 0] d(2)
    by (auto simp: mkrn_waitpid_def waitpid_pass_def Let_def split: option.splits dest: find_Some_set)
qed

theorem waitpid_correct_witness:
  "fst (mkrn_waitpid (-1) True 0 kproc_zombie) = Returned 5 (Some 0)"
proof -
  have "all_procs kproc_zombie = [0x2000, 0x1000]" "dead_child (-1) kproc_zombie 0x2000"
    using kproc_zombie_facts(3) by (simp_all add: my_child_def kproc_zombie_def mkrn_process_get_pid_def proc0_def)
  moreover have "pid (procs kproc_zombie 0x2000) = 5" "exit_status (procs kproc_zombie 0x2000) = 0"
    by (simp_all add: kproc_zombie_def proc0_def)
  ultimately show ?thesis using waitpid_correct[OF kproc_zombie_facts(1), of "-1" True 0]
    by (simp add: wait_status_def)
qed

end
