(* ===== verification/ForkSpec.thy ===== *)
theory ForkSpec
  imports SchedInv
begin

text \<open>
  Correctness of \<open>fork\<close>: the relocation of the frame-pointer chain in the child's
  copy of the user stack, the block the scheduler pops when the child first runs,
  what a successful fork changes, and that a fork that finds the ready queue full
  undoes itself, the pages of both stacks included.
\<close>

section \<open>Words in memory\<close>

lemma load_store_same: "load32 a (store32 a w m) = w"
proof -
  have d: "a + 1 \<noteq> a" "a + 2 \<noteq> a" "a + 3 \<noteq> a" "a + 2 \<noteq> a + 1" "a + 3 \<noteq> a + 1" "a + 3 \<noteq> a + 2" by simp_all
  have "load32 a (store32 a w m) = le_word [ucast w, ucast (drop_bit 8 w), ucast (drop_bit 16 w), ucast (drop_bit 24 w)]"
    using d by (simp add: load32_def store32_def)
  also have "\<dots> = le_word (le_bytes 4 w)" by (simp add: numeral_eq_Suc)
  also have "\<dots> = w" by simp
  finally show ?thesis .
qed

lemma store_other: "4 \<le> unat (x - a) \<Longrightarrow> store32 a w m x = m x"
proof -
  assume "4 \<le> unat (x - a)"
  then have "x - a \<noteq> 0" "x - a \<noteq> 1" "x - a \<noteq> 2" "x - a \<noteq> 3" by auto
  then have "x \<noteq> a" "x \<noteq> a + 1" "x \<noteq> a + 2" "x \<noteq> a + 3" by auto
  then show ?thesis by (simp add: store32_def)
qed

lemma load_cong: "(\<And>j. j < 4 \<Longrightarrow> m (a + of_nat j) = m' (a + of_nat j)) \<Longrightarrow> load32 a m = load32 a m'"
proof -
  assume h: "\<And>j. j < 4 \<Longrightarrow> m (a + of_nat j) = m' (a + of_nat j)"
  from h[of 0] h[of 1] h[of 2] h[of 3] show ?thesis by (simp add: load32_def)
qed

section \<open>The resume block\<close>

lemma unat_minus_4:
  fixes x :: u32
  assumes "4 \<le> unat x"
  shows "unat (x - 4) = unat x - 4" and "4 \<le> unat (3 - x)"
proof -
  show "unat (x - 4) = unat x - 4" using assms unat_sub[of 4 x] by (simp add: word_le_nat_alt)
  show "4 \<le> unat (3 - x)"
  proof (rule ccontr)
    assume "\<not> 4 \<le> unat (3 - x)"
    moreover define n where "n = unat (3 - x)"
    ultimately have "n = 0 \<or> n = 1 \<or> n = 2 \<or> n = 3" by linarith
    moreover have "3 - x = of_nat n" by (simp add: n_def)
    ultimately have "3 - x = 0 \<or> 3 - x = 1 \<or> 3 - x = 2 \<or> 3 - x = 3" by (elim disjE) simp_all
    then have "x = 3 \<or> x = 2 \<or> x = 1 \<or> x = 0" by (auto simp: algebra_simps)
    then show False using assms by auto
  qed
qed

lemma unat_neg: "\<lbrakk>0 < k; k < 4294967296\<rbrakk> \<Longrightarrow> unat (- (of_nat k :: u32)) = 4294967296 - k"
proof -
  assume k: "0 < k" "k < 4294967296"
  have "of_nat (4294967296 - k) = (of_nat 4294967296 - of_nat k :: u32)" using k by (intro of_nat_diff) simp
  then have "- (of_nat k :: u32) = of_nat (4294967296 - k)" by simp
  moreover have "unat (of_nat (4294967296 - k) :: u32) = 4294967296 - k" using k by (intro unat_of_nat_small) simp
  ultimately show ?thesis by (simp only:)
qed

lemma push_words_keeps:
  "4 * length ws \<le> unat (f - 1 - a) \<Longrightarrow> snd (push_words ws f m) a = m a"
proof (induction ws f m rule: push_words.induct)
  case (2 w ws f m)
  define x where "x = f - 1 - a"
  have x: "4 + 4 * length ws \<le> unat x" using 2(2) by (simp add: x_def)
  have e: "f - 4 - 1 - a = x - 4" "a - (f - 4) = 3 - x" by (simp_all add: x_def)
  have "4 * length ws \<le> unat (f - 4 - 1 - a)" unfolding e using x unat_minus_4(1)[of x] by simp
  moreover have "store32 (f - 4) w m a = m a" using x unat_minus_4(2)[of x] by (intro store_other) (simp add: e)
  ultimately show ?case using 2(1) by simp
qed simp

lemma push_words_fst: "fst (push_words ws f m) = f - 4 * of_nat (length ws)"
  by (induction ws f m rule: push_words.induct) (simp_all add: algebra_simps)

lemma push_words_load:
  assumes "4 * length ws + 4 \<le> 4294967296" and "i < length ws"
  shows "load32 (f - 4 * of_nat (Suc i)) (snd (push_words ws f m)) = ws ! i"
  using assms
proof (induction ws f m arbitrary: i rule: push_words.induct)
  case (2 w ws f m)
  show ?case
  proof (cases i)
    case 0
    have "snd (push_words ws (f - 4) (store32 (f - 4) w m)) (f - 4 + of_nat j) = store32 (f - 4) w m (f - 4 + of_nat j)"
      if "j < 4" for j
    proof (rule push_words_keeps)
      have e: "f - 4 - 1 - (f - 4 + of_nat j) = - of_nat (Suc j)" by simp
      have "unat (- (of_nat (Suc j) :: u32)) = 4294967296 - Suc j" using that by (intro unat_neg) auto
      then show "4 * length ws \<le> unat (f - 4 - 1 - (f - 4 + of_nat j))" unfolding e using that 2(2) by simp
    qed
    then have "load32 (f - 4) (snd (push_words ws (f - 4) (store32 (f - 4) w m))) = load32 (f - 4) (store32 (f - 4) w m)"
      by (rule load_cong)
    then show ?thesis using 0 by (simp add: load_store_same)
  next
    case (Suc k)
    have e: "f - 4 * of_nat (Suc i) = f - 4 - 4 * of_nat (Suc k)" using Suc by simp
    have "load32 (f - 4 - 4 * of_nat (Suc k)) (snd (push_words ws (f - 4) (store32 (f - 4) w m))) = ws ! k"
      using 2(2,3) Suc by (intro 2(1)) auto
    then show ?thesis unfolding push_words.simps Suc nth_Cons_Suc e[unfolded Suc] .
  qed
qed simp

section \<open>The frame-pointer chain\<close>

text \<open>\<open>linked loc tgt os m\<close>: in the stack at \<open>loc\<close>, the words at the offsets \<open>os\<close> form
  a chain of saved frame pointers, from the innermost outwards, into a stack at
  \<open>tgt\<close>: each holds the address of the next, at least a word above it.\<close>

fun linked :: "u32 \<Rightarrow> u32 \<Rightarrow> nat list \<Rightarrow> mem \<Rightarrow> bool" where
  "linked loc tgt [] m = False"
| "linked loc tgt [x] m = True"
| "linked loc tgt (x # y # os) m =
     (load32 (loc + of_nat x) m = tgt + of_nat y \<and> x + 4 \<le> y \<and> linked loc tgt (y # os) m)"

definition outside :: "u32 \<Rightarrow> u32 \<Rightarrow> bool" where
  "outside base v \<longleftrightarrow> v < base \<or> v \<ge> base + M4K_STACK_SIZE"

definition stack_fits :: "u32 \<Rightarrow> bool" where
  "stack_fits b \<longleftrightarrow> unat b + 65536 < 4294967296"

lemma stack_addr:
  assumes "stack_fits b" and "x < 65536"
  shows "unat (b + of_nat x) = unat b + x" "b + of_nat x \<ge> b" "b + of_nat x < b + M4K_STACK_SIZE"
proof -
  have s: "unat (b + 65536) = unat b + 65536"
    using assms(1) by (simp add: stack_fits_def unat_word_ariths)
  show u: "unat (b + of_nat x) = unat b + x" using assms by (intro unat_add_offset) (simp add: stack_fits_def)
  show "b + of_nat x \<ge> b" "b + of_nat x < b + M4K_STACK_SIZE"
    using u s assms(2) by (simp_all add: word_le_nat_alt word_less_nat_alt M4K_STACK_SIZE_def)
qed

lemma load_store_above:
  assumes "stack_fits b" and "x + 4 \<le> y" and "y + 4 \<le> 65536"
  shows "load32 (b + of_nat y) (store32 (b + of_nat x) w m) = load32 (b + of_nat y) m"
proof (rule load_cong)
  fix j :: nat assume "j < 4"
  then have e: "b + of_nat y + of_nat j - (b + of_nat x) = of_nat (y - x + j)" using assms(2) by (simp add: of_nat_diff)
  have "unat (of_nat (y - x + j) :: u32) = y - x + j" using assms(3) \<open>j < 4\<close> by (intro unat_of_nat_small) simp
  then have "4 \<le> unat (b + of_nat y + of_nat j - (b + of_nat x))" unfolding e using assms(2) by linarith
  then show "store32 (b + of_nat x) w m (b + of_nat y + of_nat j) = m (b + of_nat y + of_nat j)" by (rule store_other)
qed

lemma far_below:
  fixes b :: u32
  assumes "x + 4 \<le> y" and "y < 65536" and "j < 4"
  shows "4 \<le> unat (b + of_nat x + of_nat j - (b + of_nat y))"
proof -
  have "b + of_nat x + of_nat j - (b + of_nat y) = - of_nat (y - x - j)" using assms(1,3) by (simp add: of_nat_diff)
  moreover have "unat (- (of_nat (y - x - j) :: u32)) = 4294967296 - (y - x - j)" using assms by (intro unat_neg) auto
  moreover have "4 \<le> 4294967296 - (y - x - j)" using assms(2) by simp
  ultimately show ?thesis by (simp only:)
qed

lemma linked_sorted: "linked loc tgt (x # os) m \<Longrightarrow> y \<in> set os \<Longrightarrow> x + 4 \<le> y"
  by (induction os arbitrary: x) fastforce+

lemma linked_store_below:
  assumes "stack_fits b" and "linked b tgt os m" and "\<forall>y \<in> set os. x + 4 \<le> y \<and> y + 4 \<le> 65536"
  shows "linked b tgt os (store32 (b + of_nat x) w m)"
  using assms
  by (induction b tgt os m rule: linked.induct) (auto simp: load_store_above)

lemma rebase_linked:
  assumes "stack_fits base" and "stack_fits new" and "linked new base os m" and "\<forall>x \<in> set os. x + 4 \<le> 65536"
    and "outside base (load32 (new + of_nat (last os)) m)"
  shows "\<exists>m'. rebase_chain base new (new + of_nat (hd os)) m = Some m' \<and> linked new new os m' \<and>
    load32 (new + of_nat (last os)) m' = load32 (new + of_nat (last os)) m \<and>
    (\<forall>a. (\<forall>x \<in> set (butlast os). 4 \<le> unat (a - (new + of_nat x))) \<longrightarrow> m' a = m a)"
  using assms(3-5)
proof (induction os arbitrary: m rule: induct_list012)
  case (2 x)
  then show ?case using stack_addr[OF assms(2), of x] by (subst rebase_chain.simps) (auto simp: Let_def outside_def)
next
  case (3 x y os)
  define m1 where "m1 = store32 (new + of_nat x) (new + of_nat y) m"
  have sorted: "\<forall>z \<in> set (y # os). x + 4 \<le> z" using linked_sorted[OF 3(3)] by blast
  have bnd: "\<forall>z \<in> set (y # os). x + 4 \<le> z \<and> z + 4 \<le> 65536" using sorted 3(4) by auto
  have l1: "linked new base (y # os) m1" unfolding m1_def
    using 3(3) by (intro linked_store_below[OF assms(2) _ bnd]) simp
  have last: "load32 (new + of_nat (last (y # os))) m1 = load32 (new + of_nat (last (y # os))) m"
    unfolding m1_def using bnd last_in_set[of "y # os"] by (intro load_store_above[OF assms(2)]) auto
  obtain m' where m': "rebase_chain base new (new + of_nat y) m1 = Some m'" "linked new new (y # os) m'"
    "load32 (new + of_nat (last (y # os))) m' = load32 (new + of_nat (last (y # os))) m1"
    "\<forall>a. (\<forall>z \<in> set (butlast (y # os)). 4 \<le> unat (a - (new + of_nat z))) \<longrightarrow> m' a = m1 a"
    using 3(2)[OF l1] 3(4,5) last by auto
  have v: "load32 (new + of_nat x) m = base + of_nat y" using 3(3) by simp
  have "rebase_chain base new (new + of_nat x) m = rebase_chain base new (new + of_nat y) m1"
    using stack_addr[OF assms(2), of x] stack_addr[OF assms(1), of y] 3(4) v
    by (subst rebase_chain.simps) (auto simp: Let_def m1_def not_less not_le)
  moreover have "load32 (new + of_nat x) m' = new + of_nat y"
  proof -
    have "m' (new + of_nat x + of_nat j) = m1 (new + of_nat x + of_nat j)" if "j < 4" for j
    proof -
      have "4 \<le> unat (new + of_nat x + of_nat j - (new + of_nat z))" if "z \<in> set (butlast (y # os))" for z
        using bnd in_set_butlastD[OF that] \<open>j < 4\<close> by (intro far_below) auto
      then show ?thesis using m'(4) by blast
    qed
    then have "load32 (new + of_nat x) m' = load32 (new + of_nat x) m1" by (rule load_cong)
    then show ?thesis by (simp add: m1_def load_store_same)
  qed
  moreover have "m' a = m a" if "\<forall>z \<in> set (butlast (x # y # os)). 4 \<le> unat (a - (new + of_nat z))" for a
    using that m'(4) by (simp add: m1_def store_other)
  ultimately show ?case using m' last sorted by auto
qed simp

lemma linked_cong:
  "(\<And>x. x \<in> set os \<Longrightarrow> load32 (loc + of_nat x) m = load32 (loc' + of_nat x) m') \<Longrightarrow>
   linked loc tgt os m = linked loc' tgt os m'"
  by (induction os rule: induct_list012) auto

lemma copied_load:
  assumes "x + 4 \<le> n" and "n < 4294967296"
  shows "load32 (d + of_nat x) (copied d s n m) = load32 (s + of_nat x) m"
proof -
  have "copied d s n m (d + of_nat x + of_nat j) = m (s + of_nat x + of_nat j)" if "j < 4" for j
  proof -
    have "d + of_nat x + of_nat j - d = of_nat (x + j)" by simp
    moreover have "unat (of_nat (x + j) :: u32) = x + j" using assms that by (intro unat_of_nat_small) simp
    ultimately show ?thesis using assms that by (simp add: copied_def add.assoc)
  qed
  from this[of 0] this[of 1] this[of 2] this[of 3] show ?thesis by (simp add: load32_def)
qed

section \<open>Pages\<close>

lemma stack_pages_16: "unat stack_pages = 16"
  by (simp add: stack_pages_def M4K_STACK_SIZE_def)

lemma alloc_stack:
  assumes "binv (zone mm) L" and "0 < base_pfn (zone mm)"
  shows "\<exists>a mm'. mkrn_memory_alloc_page stack_pages mm = Some (a, mm') \<and> (a = 0 \<longrightarrow> mm' = mm)"
proof -
  have n: "0 < unat stack_pages" "unat stack_pages \<le> 1024" by (simp_all add: stack_pages_16)
  have z: "push_bit 12 (of_nat pfn) \<noteq> (0 :: u32)" if "placed (zone mm) (order_for stack_pages) pfn" for pfn
  proof -
    have "0 < pfn" "pfn < M4K_MAX_PFNS"
      using placed_bounds[OF that] that assms n order_for_ok(3)[OF n] by (auto simp: placed_def binv_def)
    then show ?thesis using pfn_addr(1) by blast
  qed
  show ?thesis
  proof (cases "\<forall>i. order_for stack_pages \<le> i \<longrightarrow> i < 11 \<longrightarrow> L i = []")
    case True
    then show ?thesis using allocate_pages_ok[OF assms(1) n assms(2), unfolded if_P[OF True]]
      by (simp add: mkrn_memory_alloc_page_def)
  next
    case False
    then show ?thesis using allocate_pages_ok[OF assms(1) n assms(2), unfolded if_not_P[OF False]] z
      by (auto simp: mkrn_memory_alloc_page_def)
  qed
qed

lemma free_stack_pages:
  assumes "binv (zone mm) L" and "0 < base_pfn (zone mm)" and "mkrn_memory_alloc_page stack_pages mm = Some (a, mm1)" and "a \<noteq> 0"
  obtains pfn L1 where "binv (zone mm1) L1" "pages L1 = pages L - {pfn..<pfn + 16}" "{pfn..<pfn + 16} \<subseteq> pages L"
    "same_zone (zone mm) (zone mm1)"
    "\<And>m2 L2. \<lbrakk>binv (zone m2) L2; same_zone (zone mm) (zone m2); {pfn..<pfn + 16} \<inter> pages L2 = {}\<rbrakk> \<Longrightarrow>
       \<exists>L3. binv (zone (mkrn_memory_free_page a stack_pages m2)) L3 \<and> pages L3 = pages L2 \<union> {pfn..<pfn + 16} \<and>
         same_zone (zone m2) (zone (mkrn_memory_free_page a stack_pages m2))"
proof -
  have n: "0 < unat stack_pages" "unat stack_pages \<le> 1024" by (simp_all add: stack_pages_16)
  have al: "allocate_pages stack_pages mm = Some (a, mm1)" using assms(3) by (simp add: mkrn_memory_alloc_page_def)
  obtain pfn L1 where r: "a = push_bit 12 (of_nat pfn)" "placed (zone mm) (order_for stack_pages) pfn"
    "{pfn..<pfn + unat stack_pages} \<subseteq> pages L" "binv (zone mm1) L1"
    "pages L1 = pages L - {pfn..<pfn + unat stack_pages}" "same_zone (zone mm) (zone mm1)"
    by (rule allocate_pages_success[OF assms(1) n assms(2) al assms(4)])
  have fits: "base_pfn (zone mm) \<le> pfn" "pfn + unat stack_pages \<le> base_pfn (zone mm) + nr_pages (zone mm)" "0 < pfn"
    using r(2) assms(2) order_for_ok(3)[OF n] by (auto simp: placed_def)
  have "\<exists>L3. binv (zone (mkrn_memory_free_page a stack_pages m2)) L3 \<and> pages L3 = pages L2 \<union> {pfn..<pfn + 16} \<and>
         same_zone (zone m2) (zone (mkrn_memory_free_page a stack_pages m2))"
    if "binv (zone m2) L2" "same_zone (zone mm) (zone m2)" "{pfn..<pfn + 16} \<inter> pages L2 = {}" for m2 L2
    using free_pages_ok[of m2 L2 pfn stack_pages] that fits
    by (auto simp: mkrn_memory_free_page_def r(1) stack_pages_16 same_zone_def)
  then show ?thesis using that r stack_pages_16 by auto
qed

section \<open>Fork\<close>

abbreviation fork_ok :: "u32 \<Rightarrow> u64 \<Rightarrow> u32 \<Rightarrow> kproc \<Rightarrow> bool" where
  "fork_ok pcb im flags s \<equiv> flags AND RFPROC \<noteq> 0 \<and> \<not> has im (M4K_ZOMBIE OR M4K_IDLE OR M4K_STATE_RESERVED) \<and>
     current s \<noteq> 0 \<and> pcb \<noteq> 0 \<and> pcb \<notin> set (all_procs s)"

text \<open>The state in which the child's user stack is made.\<close>

definition fork_mid :: "u32 \<Rightarrow> u64 \<Rightarrow> u32 \<Rightarrow> u32 \<Rightarrow> mstate \<Rightarrow> kproc \<Rightarrow> kproc" where
  "fork_mid pcb im flags kst mm s =
     upd pcb (\<lambda>r. r\<lparr>kernel_stack := kst + M4K_STACK_SIZE\<rparr>) ((fork_begin pcb im flags s)\<lparr>pmem := mm\<rparr>)"

lemma fork_begin_simps [simp]:
  "all_procs (fork_begin p im f s) = all_procs s" "ready (fork_begin p im f s) = ready s"
  "pmem (fork_begin p im f s) = pmem s" "ram (fork_begin p im f s) = ram s"
  "process_count (fork_begin p im f s) = process_count s" "next_pid (fork_begin p im f s) = next_pid s + 1"
  "all_procs_count (fork_begin p im f s) = all_procs_count s"
  "procs (fork_begin p im f s) = (procs s)(p := fork_pcb im f (next_pid s) (procs s (current s)))"
  by (simp_all add: fork_begin_def next_pid_op_def)

lemma fork_unfold:
  assumes "fork_ok pcb im flags s" and "mkrn_memory_alloc_page stack_pages (pmem s) = Some (kst, mm)" and "kst \<noteq> 0"
    and "uf = user_frame (procs s (current s))"
    and "fork_user_stack (user_stack_base (procs s (current s))) (uf ! 3) (uf ! 5) (fork_mid pcb im flags kst mm s) = Some (u, sp, bp, s5)"
  shows "mkrn_fork_status pcb tr im flags s =
    Some (fork_publish pcb (fork_frame pcb tr (kst + M4K_STACK_SIZE) uf u sp bp s5))"
  using assms by (simp add: mkrn_fork_status_def Let_def fork_mid_def)

lemma fork_user_stack_keeps:
  assumes "fork_user_stack b x y s = Some (u, sp, bp, s')"
  shows "procs s' = procs s" "all_procs s' = all_procs s" "ready s' = ready s" "process_count s' = process_count s"
    "next_pid s' = next_pid s" "all_procs_count s' = all_procs_count s"
    "(u = 0 \<and> pmem s' = pmem s) \<or> mkrn_memory_alloc_page stack_pages (pmem s) = Some (u, pmem s')"
  using assms by (auto simp: fork_user_stack_def Let_def split: if_splits option.splits)

lemma fork_frame_simps:
  "all_procs (fork_frame p tr kt uf u sp bp s) = all_procs s" "ready (fork_frame p tr kt uf u sp bp s) = ready s"
  "process_count (fork_frame p tr kt uf u sp bp s) = process_count s" "next_pid (fork_frame p tr kt uf u sp bp s) = next_pid s"
  "pmem (fork_frame p tr kt uf u sp bp s) = pmem s" "all_procs_count (fork_frame p tr kt uf u sp bp s) = all_procs_count s"
  "ram (fork_frame p tr kt uf u sp bp s) = snd (push_words (resume_frame tr uf sp bp) kt (ram s))"
  "procs (fork_frame p tr kt uf u sp bp s) = (procs s)(p := (if u \<noteq> 0
       then (procs s p)\<lparr>user_stack_base := u, mem_kb := mem_kb (procs s p) + drop_bit 10 M4K_STACK_SIZE\<rparr> else procs s p)
         \<lparr>thread_esp := kt - 68\<rparr>)"
proof -
  have "fst (push_words (resume_frame tr uf sp bp) kt m) = kt - 68" for m
    by (simp add: push_words_fst resume_frame_def)
  then show "procs (fork_frame p tr kt uf u sp bp s) = (procs s)(p := (if u \<noteq> 0
       then (procs s p)\<lparr>user_stack_base := u, mem_kb := mem_kb (procs s p) + drop_bit 10 M4K_STACK_SIZE\<rparr> else procs s p)
         \<lparr>thread_esp := kt - 68\<rparr>)"
    by (simp add: fork_frame_def Let_def split: prod.split) (metis fst_conv)
qed (auto simp: fork_frame_def Let_def split: prod.split)

lemma resume_frame_loads:
  assumes "i < 17"
  shows "load32 (kt - 68 + 4 * of_nat i) (snd (push_words (resume_frame tr uf sp bp) kt m)) =
    [0, 0, 0, 0, tr, 0, 0, 0, 0, 0, 0, bp, uf ! 0, uf ! 1, uf ! 2, sp, uf ! 4] ! i"
proof -
  have l: "length (resume_frame tr uf sp bp) = 17" by (simp add: resume_frame_def)
  have "kt - 68 + 4 * of_nat i = kt - 4 * of_nat (Suc (16 - i))" using assms by (simp add: of_nat_diff algebra_simps)
  moreover have "load32 (kt - 4 * of_nat (Suc (16 - i))) (snd (push_words (resume_frame tr uf sp bp) kt m)) =
      resume_frame tr uf sp bp ! (16 - i)" using l by (intro push_words_load) auto
  moreover have "resume_frame tr uf sp bp ! (16 - i) = rev (resume_frame tr uf sp bp) ! i"
    using assms by (simp add: rev_nth l)
  moreover have "rev (resume_frame tr uf sp bp) = [0, 0, 0, 0, tr, 0, 0, 0, 0, 0, 0, bp, uf ! 0, uf ! 1, uf ! 2, sp, uf ! 4]"
    by (simp add: resume_frame_def)
  ultimately show ?thesis by metis
qed

lemma fork_tags_schedulable: "has (state_tags (fork_pcb im flags n r)) M4K_STATE_SCHED_MASK"
  by (simp add: fork_pcb_def Let_def tag_simps)

section \<open>Properties\<close>

text \<open>C17. A fork with room in the ready queue returns the next pid; the child is
  registered and queued behind the others, has the parent's ids and a scheduling
  class, and its kernel stack holds, at the stack pointer the scheduler will load,
  the words that the resume path pops: the scheduler's registers, the trampoline,
  zeroed registers (so that fork returns 0 in the child), the user frame pointer and
  the interrupt frame of the parent with the child's user stack pointer. No other
  control block and no memory outside that block changes.\<close>

theorem fork_child_correct:
  assumes "rq_inv (ready s)" and "fork_ok pcb im flags s" and "count (ready s) < READY_QUEUE_SIZE"
    and "mkrn_memory_alloc_page stack_pages (pmem s) = Some (kst, mm)" and "kst \<noteq> 0"
    and "par = procs s (current s)" and "uf = user_frame par"
    and "fork_user_stack (user_stack_base par) (uf ! 3) (uf ! 5) (fork_mid pcb im flags kst mm s) = Some (u, sp, bp, s5)"
  shows "\<exists>s' c. mkrn_fork_status pcb tr im flags s = Some (sint (next_pid s), s') \<and> c = procs s' pcb \<and>
    all_procs s' = pcb # all_procs s \<and> queued (ready s') = queued (ready s) @ [pcb] \<and>
    process_count s' = process_count s + 1 \<and> next_pid s' = next_pid s + 1 \<and> (\<forall>p. p \<noteq> pcb \<longrightarrow> procs s' p = procs s p) \<and>
    pid c = next_pid s \<and> ppid c = pid par \<and> uid c = uid par \<and> euid c = euid par \<and> gid c = gid par \<and> egid c = egid par \<and>
    has (state_tags c) M4K_STATE_SCHED_MASK \<and> user_stack_base c = u \<and> kernel_stack c = kst + M4K_STACK_SIZE \<and>
    thread_esp c = kernel_stack c - 68 \<and>
    (\<forall>i < 17. load32 (thread_esp c + 4 * of_nat i) (ram s') =
       [0, 0, 0, 0, tr, 0, 0, 0, 0, 0, 0, bp, uf ! 0, uf ! 1, uf ! 2, sp, uf ! 4] ! i) \<and>
    (\<forall>a. 68 \<le> unat (kernel_stack c - 1 - a) \<longrightarrow> ram s' a = ram s5 a)"
proof -
  define s7 where "s7 = fork_frame pcb tr (kst + M4K_STACK_SIZE) uf u sp bp s5"
  have un: "mkrn_fork_status pcb tr im flags s = Some (fork_publish pcb s7)"
    using fork_unfold[OF assms(2,4,5) assms(7)[unfolded assms(6)]] assms(6-8) by (simp add: s7_def)
  note k5 = fork_user_stack_keeps[OF assms(8)]
  have u0: "u = 0 \<Longrightarrow> user_stack_base (procs s5 pcb) = 0" using k5(1) by (simp add: fork_mid_def fork_pcb_def Let_def)
  have v: "ready s7 = ready s" "all_procs s7 = all_procs s" "process_count s7 = process_count s" "next_pid s7 = next_pid s + 1"
    using k5 by (simp_all add: s7_def fork_frame_simps fork_mid_def)
  have pr: "procs s7 p = procs s p" if "p \<noteq> pcb" for p
    using that k5(1) by (simp add: s7_def fork_frame_simps fork_mid_def)
  have ram: "ram s7 = snd (push_words (resume_frame tr uf sp bp) (kst + M4K_STACK_SIZE) (ram s5))"
    by (simp add: s7_def fork_frame_simps)
  have c: "pid (procs s7 pcb) = next_pid s" "ppid (procs s7 pcb) = pid par" "uid (procs s7 pcb) = uid par"
    "euid (procs s7 pcb) = euid par" "gid (procs s7 pcb) = gid par" "egid (procs s7 pcb) = egid par"
    "user_stack_base (procs s7 pcb) = u" "kernel_stack (procs s7 pcb) = kst + M4K_STACK_SIZE"
    "thread_esp (procs s7 pcb) = kst + M4K_STACK_SIZE - 68"
    "state_tags (procs s7 pcb) = state_tags (fork_pcb im flags (next_pid s) par)"
    using k5(1) u0 assms(6) by (simp_all add: s7_def fork_frame_simps fork_mid_def) (simp_all add: fork_pcb_def Let_def)
  define s8 where "s8 = proc_registry_add pcb (s7\<lparr>process_count := process_count s7 + 1\<rparr>)"
  have v8: "ready s8 = ready s" "procs s8 = procs s7" "ram s8 = ram s7" "all_procs s8 = pcb # all_procs s"
    "process_count s8 = process_count s + 1" "next_pid s8 = next_pid s + 1"
    using v assms(2) by (simp_all add: s8_def proc_registry_add_def)
  obtain q where q: "ready_enqueue pcb (ready s) = (0, q)" "queued q = queued (ready s) @ [pcb]"
    using ready_enqueue_room[OF assms(1) _ assms(3)] assms(2) by blast
  have "fork_publish pcb s7 = (sint (next_pid s), s8\<lparr>ready := q\<rparr>)"
    using assms(3) v8 q(1) c(1) unfolding fork_publish_def Let_def s8_def[symmetric]
    by (simp add: mkrn_process_enqueue_ready_def)
  moreover have "ram s7 a = ram s5 a" if "68 \<le> unat (kst + M4K_STACK_SIZE - 1 - a)" for a
    unfolding ram using that by (intro push_words_keeps) (simp add: resume_frame_def)
  ultimately show ?thesis
    using un v8 q(2) c pr resume_frame_loads[of _ "kst + M4K_STACK_SIZE" tr uf sp bp "ram s5"] fork_tags_schedulable ram
    by (intro exI[of _ "s8\<lparr>ready := q\<rparr>"] exI[of _ "procs s7 pcb"]) simp
qed

lemma small_stack: "\<exists>mm. mkrn_memory_alloc_page stack_pages small_state = Some (0x4010000, mm)"
proof -
  have n: "0 < unat stack_pages" "unat stack_pages \<le> 1024" by (simp_all add: stack_pages_16)
  have "order_for stack_pages = 4"
    by (simp add: order_for_def order_loop.simps stack_pages_def M4K_STACK_SIZE_def)
  then have "\<not> (\<forall>i. order_for stack_pages \<le> i \<longrightarrow> i < 11 \<longrightarrow> ((\<lambda>_. [])(4 := [0x4010 :: nat])) i = [])"
    by (auto intro!: exI[of _ 4])
  from allocate_pages_ok[OF small_inv(1) n small_inv(2), unfolded if_not_P[OF this]]
  obtain pfn mm where a: "allocate_pages stack_pages small_state = Some (push_bit 12 (of_nat pfn), mm)"
    "{pfn..<pfn + 16} \<subseteq> pages ((\<lambda>_. [])(4 := [0x4010]))" by (auto simp: stack_pages_16)
  have "pages ((\<lambda>_. [])(4 := [0x4010])) = {0x4010..<0x4020}"
    using pages_insert[of 4 "\<lambda>_. []"] by (simp add: block_def)
  then have "pfn = 0x4010" using a(2) by auto
  then show ?thesis using a(1) by (simp add: mkrn_memory_alloc_page_def)
qed

theorem fork_child_correct_witness:
  "\<exists>s'. mkrn_fork_status 0x5000 0xC0DE 0 1 kproc_zombie = Some (0, s') \<and> all_procs s' = [0x5000, 0x2000, 0x1000] \<and>
     load32 (thread_esp (procs s' 0x5000) + 16) (ram s') = 0xC0DE"
proof -
  obtain mm where mm: "mkrn_memory_alloc_page stack_pages (pmem kproc_zombie) = Some (0x4010000, mm)"
    using small_stack by (auto simp: kproc_zombie_def kproc0_def)
  have rq: "rq_inv (ready kproc_zombie)" using kproc_zombie_facts(1) by (simp add: kinv_def)
  have ok: "fork_ok 0x5000 0 1 kproc_zombie" by (simp add: RFPROC_def has_def kproc_zombie_def)
  let ?uf = "user_frame (procs kproc_zombie (current kproc_zombie))"
  have us: "fork_user_stack (user_stack_base (procs kproc_zombie (current kproc_zombie))) (?uf ! 3) (?uf ! 5)
      (fork_mid 0x5000 0 1 0x4010000 mm kproc_zombie) = Some (0, ?uf ! 3, ?uf ! 5, fork_mid 0x5000 0 1 0x4010000 mm kproc_zombie)"
    by (simp add: fork_user_stack_def kproc_zombie_def proc0_def)
  from fork_child_correct[OF rq ok kproc_zombie_facts(4) mm _ refl refl us, of "0xC0DE"]
  obtain s' c where r: "mkrn_fork_status 0x5000 0xC0DE 0 1 kproc_zombie = Some (sint (next_pid kproc_zombie), s')"
    "c = procs s' 0x5000" "all_procs s' = 0x5000 # all_procs kproc_zombie"
    "\<forall>i < 17. load32 (thread_esp c + 4 * of_nat i) (ram s') =
       [0, 0, 0, 0, 0xC0DE, 0, 0, 0, 0, 0, 0, ?uf ! 5, ?uf ! 0, ?uf ! 1, ?uf ! 2, ?uf ! 3, ?uf ! 4] ! i" by auto
  have "load32 (thread_esp c + 16) (ram s') = 0xC0DE" using r(4)[rule_format, of 4] by simp
  then show ?thesis using r(1-3) by (simp add: kproc_zombie_def kproc0_def)
qed

text \<open>A fork that finds the ready queue full fails and undoes itself: the
  registry, the queue and the process count are as before, every other control block
  is untouched, the child's block goes back to the heap, and the free pages are
  exactly those before the call, with the allocator's invariant, whether or not a
  user stack had been copied.\<close>

theorem fork_queue_full_undone:
  assumes "fork_ok pcb im flags s" and "count (ready s) = READY_QUEUE_SIZE"
    and "binv (zone (pmem s)) L" and "0 < base_pfn (zone (pmem s))"
    and "mkrn_memory_alloc_page stack_pages (pmem s) = Some (kst, mm)" and "kst \<noteq> 0"
    and "par = procs s (current s)" and "uf = user_frame par"
    and "fork_user_stack (user_stack_base par) (uf ! 3) (uf ! 5) (fork_mid pcb im flags kst mm s) = Some (u, sp, bp, s5)"
  shows "\<exists>s' L'. mkrn_fork_status pcb tr im flags s = Some (-1, s') \<and> all_procs s' = all_procs s \<and> ready s' = ready s \<and>
    process_count s' = process_count s \<and> (\<forall>p. p \<noteq> pcb \<longrightarrow> procs s' p = procs s p) \<and> pcb \<in> set (heap_freed s') \<and>
    binv (zone (pmem s')) L' \<and> pages L' = pages L"
proof -
  define s7 where "s7 = fork_frame pcb tr (kst + M4K_STACK_SIZE) uf u sp bp s5"
  have un: "mkrn_fork_status pcb tr im flags s = Some (fork_publish pcb s7)"
    using fork_unfold[OF assms(1,5,6) assms(8)[unfolded assms(7)]] assms(7-9) by (simp add: s7_def)
  note k5 = fork_user_stack_keeps[OF assms(9)]
  have u0: "u = 0 \<Longrightarrow> user_stack_base (procs s5 pcb) = 0" using k5(1) by (simp add: fork_mid_def fork_pcb_def Let_def)
  have v: "ready s7 = ready s" "all_procs s7 = all_procs s" "process_count s7 = process_count s" "pmem s7 = pmem s5"
    using k5 by (simp_all add: s7_def fork_frame_simps fork_mid_def)
  have pr: "procs s7 p = procs s p" if "p \<noteq> pcb" for p
    using that k5(1) by (simp add: s7_def fork_frame_simps fork_mid_def)
  have c: "user_stack_base (procs s7 pcb) = u" "kernel_stack (procs s7 pcb) - M4K_STACK_SIZE = kst"
    using k5(1) u0 by (simp_all add: s7_def fork_frame_simps fork_mid_def)
  define m1 where "m1 = mkrn_memory_free_page kst stack_pages (pmem s5)"
  define m2 where "m2 = (if u \<noteq> 0 then mkrn_memory_free_page u stack_pages m1 else m1)"
  obtain s' where s': "fork_publish pcb s7 = (-1, s')" "all_procs s' = all_procs s" "ready s' = ready s"
    "process_count s' = process_count s" "procs s' = procs s7" "pcb \<in> set (heap_freed s')" "pmem s' = m2"
    using assms(1,2) v c by (auto simp: fork_publish_def proc_registry_add_def proc_registry_remove_def Let_def
        mkrn_free_at_def m1_def m2_def)
  obtain kp LK where K: "binv (zone mm) LK" "pages LK = pages L - {kp..<kp + 16}" "{kp..<kp + 16} \<subseteq> pages L"
    "same_zone (zone (pmem s)) (zone mm)"
    "\<And>mz Lz. \<lbrakk>binv (zone mz) Lz; same_zone (zone (pmem s)) (zone mz); {kp..<kp + 16} \<inter> pages Lz = {}\<rbrakk> \<Longrightarrow>
       \<exists>L3. binv (zone (mkrn_memory_free_page kst stack_pages mz)) L3 \<and> pages L3 = pages Lz \<union> {kp..<kp + 16} \<and>
         same_zone (zone mz) (zone (mkrn_memory_free_page kst stack_pages mz))"
    by (rule free_stack_pages[OF assms(3-6)]) blast
  have "\<exists>L'. binv (zone m2) L' \<and> pages L' = pages L"
  proof (cases "u = 0")
    case True
    then have "pmem s5 = mm" using k5(7) alloc_stack[OF K(1)] K(4) assms(4) by (auto simp: fork_mid_def same_zone_def)
    then show ?thesis using K(5)[OF K(1,4)] K(2,3) True by (auto simp: m1_def m2_def)
  next
    case False
    then have al: "mkrn_memory_alloc_page stack_pages mm = Some (u, pmem s5)" using k5(7) by (simp add: fork_mid_def)
    have b: "0 < base_pfn (zone mm)" using K(4) assms(4) by (simp add: same_zone_def)
    obtain up LU where U: "binv (zone (pmem s5)) LU" "pages LU = pages LK - {up..<up + 16}" "{up..<up + 16} \<subseteq> pages LK"
      "same_zone (zone mm) (zone (pmem s5))"
      "\<And>mz Lz. \<lbrakk>binv (zone mz) Lz; same_zone (zone mm) (zone mz); {up..<up + 16} \<inter> pages Lz = {}\<rbrakk> \<Longrightarrow>
         \<exists>L3. binv (zone (mkrn_memory_free_page u stack_pages mz)) L3 \<and> pages L3 = pages Lz \<union> {up..<up + 16} \<and>
           same_zone (zone mz) (zone (mkrn_memory_free_page u stack_pages mz))"
      by (rule free_stack_pages[OF K(1) b al False]) blast
    have "same_zone (zone (pmem s)) (zone (pmem s5))" using K(4) U(4) by (simp add: same_zone_def)
    then obtain L1 where L1: "binv (zone m1) L1" "pages L1 = pages LU \<union> {kp..<kp + 16}" "same_zone (zone (pmem s5)) (zone m1)"
      using K(5)[OF U(1)] U(2) K(2) by (auto simp: m1_def)
    have "same_zone (zone mm) (zone m1)" using L1(3) U(4) by (simp add: same_zone_def)
    moreover have "{up..<up + 16} \<inter> pages L1 = {}" using L1(2) U(2,3) K(2) by auto
    ultimately obtain L3 where "binv (zone m2) L3" "pages L3 = pages L1 \<union> {up..<up + 16}"
      using U(5)[OF L1(1)] False by (auto simp: m2_def)
    moreover have "pages L1 \<union> {up..<up + 16} = pages L" using L1(2) U(2,3) K(2,3) by blast
    ultimately show ?thesis by auto
  qed
  then show ?thesis using un s' pr by auto
qed

theorem fork_queue_full_undone_witness:
  "\<exists>s s' L'. count (ready s) = 64 \<and> mkrn_fork_status 0x5000 0xC0DE 0 1 s = Some (-1, s') \<and> all_procs s' = all_procs s \<and>
     binv (zone (pmem s')) L' \<and> pages L' = {0x4010..<0x4020}"
proof -
  define s where "s = kproc_zombie\<lparr>ready := \<lparr>slots = replicate 64 0x1000, head = 0, count = 64\<rparr>\<rparr>"
  have p: "pmem s = small_state" by (simp add: s_def kproc_zombie_def kproc0_def)
  obtain mm where mm: "mkrn_memory_alloc_page stack_pages (pmem s) = Some (0x4010000, mm)" using small_stack p by auto
  have ok: "fork_ok 0x5000 0 1 s" by (simp add: RFPROC_def has_def kproc_zombie_def s_def)
  have cnt: "count (ready s) = READY_QUEUE_SIZE" by (simp add: s_def READY_QUEUE_SIZE_def)
  let ?uf = "user_frame (procs s (current s))"
  have us: "fork_user_stack (user_stack_base (procs s (current s))) (?uf ! 3) (?uf ! 5)
      (fork_mid 0x5000 0 1 0x4010000 mm s) = Some (0, ?uf ! 3, ?uf ! 5, fork_mid 0x5000 0 1 0x4010000 mm s)"
    by (simp add: fork_user_stack_def kproc_zombie_def proc0_def s_def)
  have "pages ((\<lambda>_. [])(4 := [0x4010])) = {0x4010..<0x4020}"
    using pages_insert[of 4 "\<lambda>_. []"] by (simp add: block_def)
  moreover note fork_queue_full_undone[OF ok cnt _ _ mm _ refl refl us, of "(\<lambda>_. [])(4 := [0x4010])" "0xC0DE"]
  ultimately show ?thesis using small_inv cnt p by (fastforce simp: READY_QUEUE_SIZE_def)
qed

text \<open>C18. The child's user stack is a copy of the parent's in which the chain of
  saved frame pointers points into the copy: for a chain that ascends through the
  parent's stack and ends outside it, the copy returns, links the same frames at the
  same offsets, has every other byte as the parent's stack, and leaves all memory
  outside it alone; the child's stack and frame pointers are the parent's,
  relocated.\<close>

theorem fork_stack_relocated:
  assumes "base \<noteq> 0" and "mkrn_memory_alloc_page stack_pages (pmem s) = Some (u, mm)" and "u \<noteq> 0"
    and "stack_fits base" and "stack_fits u" and "unat (base - u) + 65536 \<le> 2 ^ 32"
    and "linked base base os (ram s)" and "\<forall>x \<in> set os. x + 4 \<le> 65536"
    and "outside base (load32 (base + of_nat (last os)) (ram s))"
  shows "\<exists>m. fork_user_stack base uesp (base + of_nat (hd os)) s =
      Some (u, u + (uesp - base), u + of_nat (hd os), s\<lparr>pmem := mm, ram := m\<rparr>) \<and> linked u u os m \<and>
    (\<forall>i < 65536. (\<forall>x \<in> set (butlast os). i < x \<or> x + 4 \<le> i) \<longrightarrow> m (u + of_nat i) = ram s (base + of_nat i)) \<and>
    (\<forall>a. 65536 \<le> unat (a - u) \<longrightarrow> m a = ram s a)"
proof -
  define c where "c = copied u base 65536 (ram s)"
  have cp: "mkrn_memcpy u base M4K_STACK_SIZE (ram s) = c"
    using forward_copy[of base u M4K_STACK_SIZE "ram s"] assms(6) by (simp add: mkrn_memcpy_def c_def M4K_STACK_SIZE_def)
  have ld: "load32 (u + of_nat x) c = load32 (base + of_nat x) (ram s)" if "x \<in> set os" for x
    unfolding c_def using assms(8) that by (intro copied_load) auto
  have ne: "os \<noteq> []" using assms(7) by (cases os) auto
  have lk: "linked u base os c" using assms(7) linked_cong[of os u c base "ram s" base] ld by simp
  have "outside base (load32 (u + of_nat (last os)) c)" using assms(9) ld ne by simp
  from rebase_linked[OF assms(4,5) lk assms(8) this]
  obtain m where m: "rebase_chain base u (u + of_nat (hd os)) c = Some m" "linked u u os m"
    "\<forall>a. (\<forall>x \<in> set (butlast os). 4 \<le> unat (a - (u + of_nat x))) \<longrightarrow> m a = c a" by blast
  have far: "4 \<le> unat (u + of_nat i - (u + of_nat x))"
    if "i < x \<or> x + 4 \<le> i" "i < 65536 \<or> x + 4 \<le> i" "i < 4294967296" "x < 65536" for i x
  proof (cases "i < x")
    case True
    have "u + of_nat i - (u + of_nat x) = - of_nat (x - i)" using True by (simp add: of_nat_diff)
    moreover have "unat (- (of_nat (x - i) :: u32)) = 4294967296 - (x - i)" using True that by (intro unat_neg) auto
    moreover have "4 \<le> 4294967296 - (x - i)" using that by simp
    ultimately show ?thesis by (simp only:)
  next
    case False
    then have i: "x + 4 \<le> i" using that by blast
    then have "u + of_nat i - (u + of_nat x) = of_nat (i - x)" by (simp add: of_nat_diff)
    moreover have "unat (of_nat (i - x) :: u32) = i - x" using that by (intro unat_of_nat_small) simp
    moreover have "4 \<le> i - x" using i by simp
    ultimately show ?thesis by (simp only:)
  qed
  have ca: "c (u + of_nat i) = ram s (base + of_nat i)" if "i < 65536" for i
    using that by (simp add: c_def copied_def unat_of_nat_small)
  have inb: "x < 65536" if "x \<in> set (butlast os)" for x using in_set_butlastD[OF that] assms(8) by auto
  have "m (u + of_nat i) = ram s (base + of_nat i)" if "i < 65536" "\<forall>x \<in> set (butlast os). i < x \<or> x + 4 \<le> i" for i
    using m(3) far[of i] inb that ca by auto
  moreover have "m a = ram s a" if a: "65536 \<le> unat (a - u)" for a
  proof -
    have "a = u + of_nat (unat (a - u))" by simp
    moreover have "x + 4 \<le> unat (a - u)" if "x \<in> set (butlast os)" for x
      using in_set_butlastD[OF that] assms(8) a by fastforce
    moreover have "unat (a - u) < 4294967296" using unsigned_less[of "a - u", where ?'a = nat] by simp
    ultimately have "4 \<le> unat (a - (u + of_nat x))" if "x \<in> set (butlast os)" for x
      using far[of "unat (a - u)" x] inb[OF that] that by simp
    then have "m a = c a" using m(3) by blast
    then show ?thesis using a by (simp add: c_def copied_def)
  qed
  ultimately show ?thesis using m(1,2) assms(1-3) cp
    by (intro exI[of _ m]) (simp add: fork_user_stack_def Let_def)
qed

theorem fork_stack_relocated_witness:
  "\<exists>s mm m. fork_user_stack 0x1000000 0x1000080 0x1000100 s = Some (0x4010000, 0x4010080, 0x4010100, s\<lparr>pmem := mm, ram := m\<rparr>) \<and>
     load32 0x1000100 (ram s) = 0x1000200 \<and> linked 0x4010000 0x4010000 [0x100, 0x200] m"
proof -
  define s where "s = kproc_zombie\<lparr>ram := store32 0x1000100 0x1000200 (\<lambda>_. 0)\<rparr>"
  obtain mm where mm: "mkrn_memory_alloc_page stack_pages (pmem s) = Some (0x4010000, mm)"
    using small_stack by (auto simp: s_def kproc_zombie_def kproc0_def)
  have l: "linked 0x1000000 0x1000000 [0x100, 0x200] (ram s)" by (simp add: s_def load_store_same)
  have o: "outside 0x1000000 (load32 (0x1000000 + of_nat (last [0x100, 0x200])) (ram s))"
    by (simp add: s_def outside_def load32_def store32_def M4K_STACK_SIZE_def)
  have f: "stack_fits 0x1000000" "stack_fits 0x4010000" by (simp_all add: stack_fits_def)
  obtain m where "fork_user_stack 0x1000000 0x1000080 (0x1000000 + of_nat (hd [0x100, 0x200])) s =
      Some (0x4010000, 0x4010000 + (0x1000080 - 0x1000000), 0x4010000 + of_nat (hd [0x100, 0x200]), s\<lparr>pmem := mm, ram := m\<rparr>)"
    "linked 0x4010000 0x4010000 [0x100, 0x200] m"
    using fork_stack_relocated[OF _ mm _ f _ l _ o, of "0x1000080"] by auto
  then show ?thesis by (intro exI[of _ s] exI[of _ mm] exI[of _ m]) (simp add: s_def load_store_same)
qed

end
