(* ===== verification/YafsDev.thy ===== *)
theory YafsDev
  imports Prelude
begin

text \<open>
  The block device under YAFS (the ramdisk at a fixed address, with its
  bump allocator) and the on-disk B+tree node: its C struct, its byte image
  in a 4096-byte block, and the node-level read and write of
  \<open>sys/src/fs/yafs/core/yafs/btree.c\<close>. The union of the two payload
  structs is one array of 64-bit slots: \<open>values[i]\<close> of a leaf and
  \<open>children[i]\<close> of an internal node are the same storage, slots 249 and
  250 are \<open>next_leaf\<close> and \<open>prev_leaf\<close> of a leaf and slot 249 is
  \<open>children[249]\<close> of an internal node.
\<close>

section \<open>The ramdisk\<close>

record ydev =
  ramdisk :: "u64 \<Rightarrow> u8 list"
  next_free_block :: u64
  total_allocated :: u64

definition RAMDISK_BLOCKS :: u64 where
  "RAMDISK_BLOCKS = 4096"

definition YAFS_BTREE_BLOCK_SIZE :: nat where
  "YAFS_BTREE_BLOCK_SIZE = 4096"

text \<open>An error return of the device is \<open>None\<close>.\<close>

definition mkrn_yafs_dev_read :: "u64 \<Rightarrow> ydev \<Rightarrow> u8 list option" where
  "mkrn_yafs_dev_read lba d = (if lba \<ge> RAMDISK_BLOCKS then None else Some (ramdisk d lba))"

definition mkrn_yafs_dev_write :: "u64 \<Rightarrow> u8 list \<Rightarrow> ydev \<Rightarrow> ydev option" where
  "mkrn_yafs_dev_write lba buf d =
     (if lba \<ge> RAMDISK_BLOCKS then None else Some (d\<lparr>ramdisk := (ramdisk d)(lba := buf)\<rparr>))"

definition mkrn_yafs_dev_alloc_block :: "ydev \<Rightarrow> u64 \<times> ydev" where
  "mkrn_yafs_dev_alloc_block d =
     (if next_free_block d \<ge> RAMDISK_BLOCKS then (0, d)
      else let blk = next_free_block d in
        (blk, d\<lparr>next_free_block := blk + 1,
                ramdisk := (ramdisk d)(blk := replicate YAFS_BTREE_BLOCK_SIZE 0),
                total_allocated := total_allocated d + 1\<rparr>))"

text \<open>Freeing only adjusts the statistics: a freed block is never handed out again.\<close>

definition mkrn_yafs_dev_free_block :: "u64 \<Rightarrow> ydev \<Rightarrow> ydev" where
  "mkrn_yafs_dev_free_block lba d =
     (if total_allocated d > 0 then d\<lparr>total_allocated := total_allocated d - 1\<rparr> else d)"

section \<open>B+tree nodes\<close>

definition YAFS_NODE_MAGIC :: u64 where
  "YAFS_NODE_MAGIC = 0x59414B55"

definition YAFS_NODE_LEAF :: u16 where
  "YAFS_NODE_LEAF = 1"

definition YAFS_BTREE_MAX_KEYS :: nat where
  "YAFS_BTREE_MAX_KEYS = 248"

record yafs_node =
  magic :: u64
  checksum :: u32
  nflags :: u16
  level :: u16
  entry_count :: u32
  parent_lba :: u64
  hpad :: "u8 list"
  nkeys :: "u64 list"
  slots :: "u64 list"
  npad :: "u8 list"

abbreviation is_leaf :: "yafs_node \<Rightarrow> bool" where
  "is_leaf n \<equiv> nflags n AND YAFS_NODE_LEAF \<noteq> 0"

abbreviation cnt :: "yafs_node \<Rightarrow> nat" where
  "cnt n \<equiv> unat (entry_count n)"

definition node_bytes :: "yafs_node \<Rightarrow> u8 list" where
  "node_bytes n =
     le_bytes 8 (magic n) @ le_bytes 4 (checksum n) @ le_bytes 2 (nflags n) @
     le_bytes 2 (level n) @ le_bytes 4 (entry_count n) @ le_bytes 8 (parent_lba n) @
     hpad n @ le_array (nkeys n) @ le_array (slots n) @ npad n"

definition node_of_bytes :: "u8 list \<Rightarrow> yafs_node" where
  "node_of_bytes bs =
     \<lparr>magic = le_word (take 8 bs),
      checksum = le_word (take 4 (drop 8 bs)),
      nflags = le_word (take 2 (drop 12 bs)),
      level = le_word (take 2 (drop 14 bs)),
      entry_count = le_word (take 4 (drop 16 bs)),
      parent_lba = le_word (take 8 (drop 20 bs)),
      hpad = take 4 (drop 28 bs),
      nkeys = le_unarray 249 (drop 32 bs),
      slots = le_unarray 251 (drop 2024 bs),
      npad = drop 4032 bs\<rparr>"

text \<open>The declared array lengths of the struct.\<close>

definition node_shape :: "yafs_node \<Rightarrow> bool" where
  "node_shape n \<longleftrightarrow> length (hpad n) = 4 \<and> length (nkeys n) = 249 \<and>
     length (slots n) = 251 \<and> length (npad n) = 64"

definition node_init :: "u16 \<Rightarrow> u16 \<Rightarrow> yafs_node" where
  "node_init flags lvl =
     \<lparr>magic = YAFS_NODE_MAGIC, checksum = 0, nflags = flags, level = lvl,
      entry_count = 0, parent_lba = 0, hpad = replicate 4 0,
      nkeys = replicate 249 0, slots = replicate 251 0, npad = replicate 64 0\<rparr>"

definition mkrn_yafs_node_checksum :: "yafs_node \<Rightarrow> yafs_node" where
  "mkrn_yafs_node_checksum n = n\<lparr>checksum := 0\<rparr>"

definition mkrn_yafs_node_verify :: "yafs_node \<Rightarrow> int" where
  "mkrn_yafs_node_verify n = (if magic n \<noteq> YAFS_NODE_MAGIC then -1 else 0)"

definition mkrn_yafs_node_read :: "u64 \<Rightarrow> ydev \<Rightarrow> yafs_node option" where
  "mkrn_yafs_node_read lba d = map_option node_of_bytes (mkrn_yafs_dev_read lba d)"

definition mkrn_yafs_node_write :: "yafs_node \<Rightarrow> ydev \<Rightarrow> u64 \<times> ydev" where
  "mkrn_yafs_node_write n d =
     (let (lba, d1) = mkrn_yafs_dev_alloc_block d in
      if lba = 0 then (0, d1)
      else case mkrn_yafs_dev_write lba (node_bytes (mkrn_yafs_node_checksum n)) d1 of
             None \<Rightarrow> (0, mkrn_yafs_dev_free_block lba d1)
           | Some d2 \<Rightarrow> (lba, d2))"

section \<open>Round trip of the node image\<close>

lemma node_shape_upd [simp]:
  "node_shape (n\<lparr>magic := a\<rparr>) = node_shape n"
  "node_shape (n\<lparr>checksum := b\<rparr>) = node_shape n"
  "node_shape (n\<lparr>nflags := c\<rparr>) = node_shape n"
  "node_shape (n\<lparr>level := c\<rparr>) = node_shape n"
  "node_shape (n\<lparr>entry_count := b\<rparr>) = node_shape n"
  by (simp_all add: node_shape_def)

lemma node_shape_init [simp]: "node_shape (node_init f l)"
  by (simp add: node_shape_def node_init_def)

lemma node_of_bytes_node_bytes:
  assumes "node_shape n"
  shows "node_of_bytes (node_bytes n) = n"
proof -
  have ks: "le_unarray 249 (le_array (nkeys n) @ rest) = nkeys n" for rest
    using assms le_unarray_le_array[of "nkeys n" rest] by (simp add: node_shape_def)
  have ss: "le_unarray 251 (le_array (slots n) @ rest) = slots n" for rest
    using assms le_unarray_le_array[of "slots n" rest] by (simp add: node_shape_def)
  show ?thesis
    using assms by (simp add: node_of_bytes_def node_bytes_def node_shape_def ks ss)
qed

lemma length_node_bytes: "node_shape n \<Longrightarrow> length (node_bytes n) = YAFS_BTREE_BLOCK_SIZE"
  by (simp add: node_bytes_def node_shape_def YAFS_BTREE_BLOCK_SIZE_def)

lemma node_shape_of_bytes [simp]:
  "length bs = YAFS_BTREE_BLOCK_SIZE \<Longrightarrow> node_shape (node_of_bytes bs)"
  by (simp add: node_of_bytes_def node_shape_def YAFS_BTREE_BLOCK_SIZE_def)

end
