(* ===== verification/Btree.thy ===== *)
theory Btree
  imports YafsDev
begin

text \<open>
  The disk-resident, copy-on-write B+tree of
  \<open>sys/src/fs/yafs/core/yafs/btree.c\<close>: binary search in a node, insertion
  with leaf and internal splits, lookup, deletion, range walk and leaf
  search. The recursion of insertion and of the walk follows block addresses
  read from the disk, so both take fuel; \<open>None\<close> is a recursion deeper than
  the fuel. Lookup and deletion bound their own depth (64 and 32).
\<close>

section \<open>Node-level operations\<close>

function key_search_loop :: "u64 list \<Rightarrow> u64 \<Rightarrow> int \<Rightarrow> int \<Rightarrow> bool \<times> int" where
  "key_search_loop keys key lo hi =
     (if lo \<le> hi then
        (let mid = lo + (hi - lo) div 2 in
         if keys ! nat mid = key then (True, mid)
         else if keys ! nat mid < key then key_search_loop keys key (mid + 1) hi
         else key_search_loop keys key lo (mid - 1))
      else (False, lo))"
  by pat_completeness auto
termination
  by (relation "measure (\<lambda>(ks, k, lo, hi). nat (hi - lo + 1))") auto

declare key_search_loop.simps [simp del]

definition key_search :: "u64 list \<Rightarrow> u32 \<Rightarrow> u64 \<Rightarrow> bool \<times> int" where
  "key_search keys count key = key_search_loop keys key 0 (sint count - 1)"

text \<open>The descent: an exact hit on a separator belongs to the right subtree.\<close>

definition child_index :: "yafs_node \<Rightarrow> u64 \<Rightarrow> nat" where
  "child_index n key =
     (let (exact, pos) = key_search (nkeys n) (entry_count n) key
      in nat (if exact then pos + 1 else pos))"

definition leaf_insert_at :: "yafs_node \<Rightarrow> nat \<Rightarrow> nat \<Rightarrow> u64 \<Rightarrow> u64 \<Rightarrow> yafs_node" where
  "leaf_insert_at n count pos key val =
     n\<lparr>nkeys := (shift_up count pos (nkeys n))[pos := key],
       slots := (shift_up count pos (slots n))[pos := val]\<rparr>"

definition internal_insert_at :: "yafs_node \<Rightarrow> nat \<Rightarrow> nat \<Rightarrow> u64 \<Rightarrow> u64 \<Rightarrow> yafs_node" where
  "internal_insert_at n count pos key child =
     n\<lparr>nkeys := (shift_up count pos (nkeys n))[pos := key],
       slots := (shift_up (Suc count) (Suc pos) (slots n))[Suc pos := child]\<rparr>"

section \<open>Insertion\<close>

text \<open>What \<open>btree_insert_node\<close> returns: the new block (0 on failure) and its
  three out parameters.\<close>

record ins_out =
  io_lba :: u64
  io_split_key :: u64
  io_split_lba :: u64
  io_inserted :: bool

definition ins_fail :: ins_out where
  "ins_fail = \<lparr>io_lba = 0, io_split_key = 0, io_split_lba = 0, io_inserted = False\<rparr>"

text \<open>Writing the two halves of a split, right half first.\<close>

definition write_split :: "yafs_node \<Rightarrow> yafs_node \<Rightarrow> u64 \<Rightarrow> bool \<Rightarrow> ydev \<Rightarrow> ins_out \<times> ydev" where
  "write_split left right sk ins d =
     (let (rl, d1) = mkrn_yafs_node_write right d in
      if rl = 0 then (ins_fail, d1)
      else let (ll, d2) = mkrn_yafs_node_write left d1 in
        if ll = 0 then (ins_fail, mkrn_yafs_dev_free_block rl d2)
        else (\<lparr>io_lba = ll, io_split_key = sk, io_split_lba = rl, io_inserted = ins\<rparr>, d2))"

definition write_whole :: "yafs_node \<Rightarrow> bool \<Rightarrow> ydev \<Rightarrow> ins_out \<times> ydev" where
  "write_whole n ins d =
     (let (nl, d1) = mkrn_yafs_node_write n d in
      if nl = 0 then (ins_fail, d1)
      else (\<lparr>io_lba = nl, io_split_key = 0, io_split_lba = 0, io_inserted = ins\<rparr>, d1))"

definition leaf_right :: "yafs_node \<Rightarrow> yafs_node" where
  "leaf_right n =
     (let mid = YAFS_BTREE_MAX_KEYS div 2; moved = cnt n - mid; r = node_init YAFS_NODE_LEAF 0
      in r\<lparr>nkeys := array_copy (nkeys r) 0 (nkeys n) mid moved,
           slots := array_copy (slots r) 0 (slots n) mid moved,
           entry_count := entry_count n - of_nat mid\<rparr>)"

definition btree_insert_leaf :: "yafs_node \<Rightarrow> u64 \<Rightarrow> u64 \<Rightarrow> ydev \<Rightarrow> ins_out \<times> ydev" where
  "btree_insert_leaf n key val d =
     (let (exact, pos) = key_search (nkeys n) (entry_count n) key;
          n1 = (if exact then n\<lparr>slots := (slots n)[nat pos := val]\<rparr>
                else (leaf_insert_at n (cnt n) (nat pos) key val)
                       \<lparr>entry_count := entry_count n + 1\<rparr>)
      in if cnt n1 > YAFS_BTREE_MAX_KEYS
         then let r = leaf_right n1 in
           write_split (n1\<lparr>entry_count := of_nat (YAFS_BTREE_MAX_KEYS div 2)\<rparr>) r
             (nkeys r ! 0) (\<not> exact) d
         else write_whole n1 (\<not> exact) d)"

definition internal_right :: "yafs_node \<Rightarrow> yafs_node" where
  "internal_right n =
     (let mid = YAFS_BTREE_MAX_KEYS div 2; moved = cnt n - mid - 1; r = node_init 0 (level n)
      in r\<lparr>nkeys := array_copy (nkeys r) 0 (nkeys n) (mid + 1) moved,
           slots := array_copy (slots r) 0 (slots n) (mid + 1) (moved + 1),
           entry_count := entry_count n - of_nat mid - 1\<rparr>)"

definition btree_insert_internal :: "yafs_node \<Rightarrow> nat \<Rightarrow> ins_out \<Rightarrow> ydev \<Rightarrow> ins_out \<times> ydev" where
  "btree_insert_internal n ci co d =
     (let n1 = n\<lparr>slots := (slots n)[ci := io_lba co]\<rparr>;
          n2 = (if io_split_lba co \<noteq> 0
                then (internal_insert_at n1 (cnt n1) ci (io_split_key co) (io_split_lba co))
                       \<lparr>entry_count := entry_count n1 + 1\<rparr>
                else n1)
      in if cnt n2 > YAFS_BTREE_MAX_KEYS
         then write_split (n2\<lparr>entry_count := of_nat (YAFS_BTREE_MAX_KEYS div 2)\<rparr>)
                (internal_right n2) (nkeys n2 ! (YAFS_BTREE_MAX_KEYS div 2)) (io_inserted co) d
         else write_whole n2 (io_inserted co) d)"

fun btree_insert_node ::
  "nat \<Rightarrow> u64 \<Rightarrow> u64 \<Rightarrow> u64 \<Rightarrow> ydev \<Rightarrow> (ins_out \<times> ydev) option" where
  "btree_insert_node 0 lba key val d = None"
| "btree_insert_node (Suc fuel) lba key val d =
     (case mkrn_yafs_node_read lba d of
        None \<Rightarrow> Some (ins_fail, d)
      | Some n \<Rightarrow>
          if is_leaf n then Some (btree_insert_leaf n key val d)
          else let ci = child_index n key in
            (case btree_insert_node fuel (slots n ! ci) key val d of
               None \<Rightarrow> None
             | Some (co, d1) \<Rightarrow>
                 if io_lba co = 0 then Some (ins_fail, d1)
                 else Some (btree_insert_internal n ci co d1)))"

text \<open>The result of the exported insertion: status, the root after the call and
  the \<open>pInserted\<close> out parameter (\<open>None\<close> when it is not written).\<close>

record ins_res =
  ir_status :: int
  ir_root :: u64
  ir_inserted :: "bool option"

definition insert_empty :: "u64 \<Rightarrow> u64 \<Rightarrow> ydev \<Rightarrow> ins_res \<times> ydev" where
  "insert_empty key val d =
     (let r = node_init YAFS_NODE_LEAF 0;
          root = r\<lparr>nkeys := (nkeys r)[0 := key], slots := (slots r)[0 := val], entry_count := 1\<rparr>;
          (lba, d1) = mkrn_yafs_node_write root d
      in if lba = 0 then (\<lparr>ir_status = -1, ir_root = 0, ir_inserted = None\<rparr>, d1)
         else (\<lparr>ir_status = 0, ir_root = lba, ir_inserted = Some True\<rparr>, d1))"

definition grow_root :: "u64 \<Rightarrow> ins_out \<Rightarrow> ydev \<Rightarrow> ins_res \<times> ydev" where
  "grow_root root out d =
     (let r = node_init 0 1;
          nr = r\<lparr>slots := ((slots r)[0 := io_lba out])[1 := io_split_lba out],
                 nkeys := (nkeys r)[0 := io_split_key out], entry_count := 1\<rparr>;
          (sr, d1) = mkrn_yafs_node_write nr d
      in if sr = 0
         then (\<lparr>ir_status = -1, ir_root = root, ir_inserted = None\<rparr>,
               mkrn_yafs_dev_free_block (io_split_lba out)
                 (mkrn_yafs_dev_free_block (io_lba out) d1))
         else (\<lparr>ir_status = 0, ir_root = sr, ir_inserted = Some (io_inserted out)\<rparr>, d1))"

definition mkrn_yafs_btree_insert ::
  "nat \<Rightarrow> u64 \<Rightarrow> u64 \<Rightarrow> u64 \<Rightarrow> ydev \<Rightarrow> (ins_res \<times> ydev) option" where
  "mkrn_yafs_btree_insert fuel root key val d =
     (if root = 0 then Some (insert_empty key val d)
      else case btree_insert_node fuel root key val d of
        None \<Rightarrow> None
      | Some (out, d1) \<Rightarrow>
          if io_lba out = 0
          then Some (\<lparr>ir_status = -1, ir_root = root, ir_inserted = None\<rparr>, d1)
          else if io_split_lba out \<noteq> 0 then Some (grow_root root out d1)
          else Some (\<lparr>ir_status = 0, ir_root = io_lba out,
                      ir_inserted = Some (io_inserted out)\<rparr>, d1))"

section \<open>Lookup, leaf search\<close>

text \<open>\<open>seen\<close> holds the addresses visited so far, as in the source; the loop
  gives up on a repeated address or after 64 nodes.\<close>

function btree_lookup_loop :: "u64 list \<Rightarrow> u64 \<Rightarrow> u64 \<Rightarrow> ydev \<Rightarrow> u64 option" where
  "btree_lookup_loop seen cur key d =
     (if cur \<in> set seen \<or> length seen \<ge> 64 then None
      else case mkrn_yafs_node_read cur d of
        None \<Rightarrow> None
      | Some n \<Rightarrow>
          if is_leaf n
          then (let (exact, pos) = key_search (nkeys n) (entry_count n) key
                in if exact then Some (slots n ! nat pos) else None)
          else btree_lookup_loop (seen @ [cur]) (slots n ! child_index n key) key d)"
  by pat_completeness auto
termination
  by (relation "measure (\<lambda>(seen, cur, key, d). 64 - length seen)") auto

declare btree_lookup_loop.simps [simp del]

definition mkrn_yafs_btree_lookup :: "u64 \<Rightarrow> u64 \<Rightarrow> ydev \<Rightarrow> u64 option" where
  "mkrn_yafs_btree_lookup root key d = (if root = 0 then None else btree_lookup_loop [] root key d)"

text \<open>\<open>find_leaf\<close> has no bound on its descent: \<open>None\<close> is "does not return".\<close>

partial_function (option) find_leaf_loop :: "u64 \<Rightarrow> u64 \<Rightarrow> ydev \<Rightarrow> u64 option" where
  "find_leaf_loop cur key d =
     (case mkrn_yafs_node_read cur d of
        None \<Rightarrow> Some 0
      | Some n \<Rightarrow> if is_leaf n then Some cur
                  else find_leaf_loop (slots n ! child_index n key) key d)"

definition mkrn_yafs_btree_find_leaf :: "u64 \<Rightarrow> u64 \<Rightarrow> ydev \<Rightarrow> u64 option" where
  "mkrn_yafs_btree_find_leaf root key d = (if root = 0 then Some 0 else find_leaf_loop root key d)"

section \<open>Deletion\<close>

text \<open>The descent records the path (address and child slot of every internal
  node) and gives up at depth 32; the argument counts the remaining depth.\<close>

fun delete_descend ::
  "nat \<Rightarrow> (u64 \<times> nat) list \<Rightarrow> u64 \<Rightarrow> u64 \<Rightarrow> ydev \<Rightarrow> ((u64 \<times> nat) list \<times> u64) option" where
  "delete_descend 0 path cur key d = None"
| "delete_descend (Suc depth) path cur key d =
     (case mkrn_yafs_node_read cur d of
        None \<Rightarrow> None
      | Some n \<Rightarrow>
          if is_leaf n then Some (path, cur)
          else let ci = child_index n key in
            delete_descend depth (path @ [(cur, ci)]) (slots n ! ci) key d)"

definition leaf_remove_at :: "yafs_node \<Rightarrow> nat \<Rightarrow> yafs_node" where
  "leaf_remove_at n pos =
     n\<lparr>nkeys := shift_down pos (cnt n - 1 - pos) (nkeys n),
       slots := shift_down pos (cnt n - 1 - pos) (slots n),
       entry_count := entry_count n - 1\<rparr>"

text \<open>Rewriting the parents bottom-up; the list is the path from the leaf's
  parent to the root.\<close>

fun delete_rebuild :: "(u64 \<times> nat) list \<Rightarrow> u64 \<Rightarrow> ydev \<Rightarrow> (u64 option) \<times> ydev" where
  "delete_rebuild [] child d = (Some child, d)"
| "delete_rebuild ((lba, ci) # path) child d =
     (case mkrn_yafs_node_read lba d of
        None \<Rightarrow> (None, mkrn_yafs_dev_free_block child d)
      | Some p \<Rightarrow>
          let (nl, d1) = mkrn_yafs_node_write (p\<lparr>slots := (slots p)[ci := child]\<rparr>) d in
          if nl = 0 then (None, mkrn_yafs_dev_free_block child d1)
          else delete_rebuild path nl d1)"

record del_res =
  dr_status :: int
  dr_root :: u64
  dr_deleted :: bool

definition mkrn_yafs_btree_delete :: "u64 \<Rightarrow> u64 \<Rightarrow> ydev \<Rightarrow> del_res \<times> ydev" where
  "mkrn_yafs_btree_delete root key d =
     (let fail = \<lparr>dr_status = -1, dr_root = root, dr_deleted = False\<rparr> in
      if root = 0 then (fail, d)
      else case mkrn_yafs_node_read root d of
        None \<Rightarrow> (fail, d)
      | Some rn \<Rightarrow>
        (case delete_descend 32 [] root key d of
           None \<Rightarrow> (fail, d)
         | Some (path, leaf_lba) \<Rightarrow>
           (case mkrn_yafs_node_read leaf_lba d of
              None \<Rightarrow> (fail, d)
            | Some leaf \<Rightarrow>
              (let (exact, pos) = key_search (nkeys leaf) (entry_count leaf) key in
               if \<not> exact then (\<lparr>dr_status = 0, dr_root = root, dr_deleted = False\<rparr>, d)
               else let (nl, d1) = mkrn_yafs_node_write (leaf_remove_at leaf (nat pos)) d in
                 if nl = 0 then (fail, d1)
                 else case delete_rebuild (rev path) nl d1 of
                   (None, d2) \<Rightarrow> (fail, d2)
                 | (Some nr, d2) \<Rightarrow>
                     (\<lparr>dr_status = 0, dr_root = nr, dr_deleted = True\<rparr>, d2)))))"

section \<open>Range walk\<close>

text \<open>The callback takes the key, the value and its context and returns the
  new context and whether its C result is non-zero (stop). The walk returns
  \<open>(status, done, context)\<close>.\<close>

type_synonym 'c walk_cb = "u64 \<Rightarrow> u64 \<Rightarrow> 'c \<Rightarrow> bool \<times> 'c"

fun walk_leaf :: "u64 \<Rightarrow> u64 \<Rightarrow> 'c walk_cb \<Rightarrow> (u64 \<times> u64) list \<Rightarrow> 'c \<Rightarrow> bool \<times> 'c" where
  "walk_leaf lo hi cb [] ctx = (False, ctx)"
| "walk_leaf lo hi cb ((k, v) # kvs) ctx =
     (if k < lo then walk_leaf lo hi cb kvs ctx
      else if k \<ge> hi then (True, ctx)
      else let (stop, ctx1) = cb k v ctx in
        if stop then (True, ctx1) else walk_leaf lo hi cb kvs ctx1)"

text \<open>\<open>walk_children\<close> is the loop over the children of an internal node, from
  child \<open>i\<close> on; \<open>rec\<close> is the recursive call.\<close>

fun walk_children ::
  "(u64 \<Rightarrow> u64 \<Rightarrow> u64 \<Rightarrow> 'c \<Rightarrow> (int \<times> bool \<times> 'c) option) \<Rightarrow> yafs_node \<Rightarrow> u64 \<Rightarrow> u64 \<Rightarrow>
   nat \<Rightarrow> nat \<Rightarrow> 'c \<Rightarrow> (int \<times> bool \<times> 'c) option" where
  "walk_children rec n lo hi i 0 ctx = Some (0, False, ctx)"
| "walk_children rec n lo hi i (Suc left) ctx =
     (let clo = (if i > 0 then nkeys n ! (i - 1) else 0);
          chi = (if i < cnt n then nkeys n ! i else - 1)
      in if clo > hi then Some (0, False, ctx)
         else if chi \<le> lo then walk_children rec n lo hi (Suc i) left ctx
         else case rec (slots n ! i) lo (if chi < hi then chi else hi) ctx of
             None \<Rightarrow> None
           | Some (ret, done, ctx1) \<Rightarrow>
               if ret \<noteq> 0 \<or> done then Some (ret, done, ctx1)
               else walk_children rec n lo hi (Suc i) left ctx1)"

fun btree_walk_range_recursive ::
  "nat \<Rightarrow> u64 \<Rightarrow> u64 \<Rightarrow> u64 \<Rightarrow> 'c walk_cb \<Rightarrow> 'c \<Rightarrow> ydev \<Rightarrow> (int \<times> bool \<times> 'c) option" where
  "btree_walk_range_recursive 0 lba lo hi cb ctx d = None"
| "btree_walk_range_recursive (Suc fuel) lba lo hi cb ctx d =
     (if lba = 0 then Some (0, False, ctx)
      else case mkrn_yafs_node_read lba d of
        None \<Rightarrow> Some (-1, False, ctx)
      | Some n \<Rightarrow>
          if is_leaf n
          then (let (done, ctx1) = walk_leaf lo hi cb
                      (zip (take (cnt n) (nkeys n)) (take (cnt n) (slots n))) ctx
                in Some (0, done, ctx1))
          else walk_children
                 (\<lambda>c l h x. btree_walk_range_recursive fuel c l h cb x d)
                 n lo hi 0 (Suc (cnt n)) ctx)"

definition mkrn_yafs_btree_walk_range ::
  "nat \<Rightarrow> u64 \<Rightarrow> u64 \<Rightarrow> u64 \<Rightarrow> 'c walk_cb \<Rightarrow> 'c \<Rightarrow> ydev \<Rightarrow> (int \<times> 'c) option" where
  "mkrn_yafs_btree_walk_range fuel root lo hi cb ctx d =
     (if root = 0 then Some (0, ctx)
      else map_option (\<lambda>(r, done, c). (r, c)) (btree_walk_range_recursive fuel root lo hi cb ctx d))"

definition mkrn_yafs_btree_walk ::
  "nat \<Rightarrow> u64 \<Rightarrow> u64 \<Rightarrow> 'c walk_cb \<Rightarrow> 'c \<Rightarrow> ydev \<Rightarrow> (int \<times> 'c) option" where
  "mkrn_yafs_btree_walk fuel root start cb ctx d =
     (if root = 0 then Some (0, ctx)
      else map_option (\<lambda>(r, done, c). (r, c))
             (btree_walk_range_recursive fuel root start (- 1) cb ctx d))"

end
