(* ===== verification/BtreeRep.thy ===== *)
theory BtreeRep
  imports Btree
begin

text \<open>
  What the blocks of the device mean. The specification of the binary search,
  the device invariant and its copy-on-write extension order, the
  representation predicate \<open>tree_at\<close> of a subtree, and the effect of the
  node-level operations (leaf insertion, leaf split, internal split) on it.
\<close>

section \<open>Binary search\<close>

lemma key_search_loop_spec:
  assumes "sorted_wrt (<) (take c keys)" and "c \<le> length keys"
    and "0 \<le> lo" and "hi < int c" and "lo \<le> hi + 1"
    and "\<forall>i. i < nat lo \<longrightarrow> keys ! i < key"
    and "\<forall>i. int i > hi \<and> i < c \<longrightarrow> key < keys ! i"
  shows "case key_search_loop keys key lo hi of
      (True, p) \<Rightarrow> 0 \<le> p \<and> p < int c \<and> keys ! nat p = key
    | (False, p) \<Rightarrow> 0 \<le> p \<and> p \<le> int c \<and> (\<forall>i < nat p. keys ! i < key) \<and>
        (\<forall>i. nat p \<le> i \<and> i < c \<longrightarrow> key < keys ! i)"
  using assms
proof (induction keys key lo hi rule: key_search_loop.induct)
  case (1 keys key lo hi)
  let ?mid = "lo + (hi - lo) div 2"
  have mono: "keys ! i < keys ! j" if "i < j" "j < c" for i j
    using 1(3) that \<open>c \<le> length keys\<close> by (simp add: sorted_wrt_iff_nth_less)
  show ?case
  proof (cases "lo \<le> hi")
    case False
    then have "nat lo = nat (hi + 1)" and "lo = hi + 1" using 1 by auto
    with False 1 show ?thesis by (subst key_search_loop.simps) (auto; linarith)
  next
    case True
    then have m: "lo \<le> ?mid" "?mid \<le> hi" by auto
    then have mc: "nat ?mid < c" using 1 by linarith
    consider (eq) "keys ! nat ?mid = key" | (lt) "keys ! nat ?mid < key" | (gt) "key < keys ! nat ?mid"
      by fastforce
    then show ?thesis
    proof cases
      case eq
      then show ?thesis using True m mc 1(5) by (subst key_search_loop.simps) (simp add: Let_def)
    next
      case lt
      have "\<forall>i. i < nat (?mid + 1) \<longrightarrow> keys ! i < key"
      proof (intro allI impI)
        fix i assume "i < nat (?mid + 1)"
        then consider "i = nat ?mid" | "i < nat ?mid" using m 1(5) by linarith
        then show "keys ! i < key" using lt mono[OF _ mc] by cases (auto intro: less_trans)
      qed
      then show ?thesis
        using True lt m mc 1(3-9) 1(1)[OF True refl] by (subst key_search_loop.simps) (auto simp: Let_def)
    next
      case gt
      have "\<forall>i. int i > ?mid - 1 \<and> i < c \<longrightarrow> key < keys ! i"
      proof (intro allI impI)
        fix i assume i: "int i > ?mid - 1 \<and> i < c"
        then consider "i = nat ?mid" | "nat ?mid < i" using m 1(5) by linarith
        then show "key < keys ! i" using gt i mono[of "nat ?mid" i] by cases (auto intro: less_trans)
      qed
      moreover have "\<not> keys ! nat ?mid < key" "keys ! nat ?mid \<noteq> key" using gt by auto
      ultimately show ?thesis
        using True m mc 1(3-9) 1(2)[OF True refl] by (subst key_search_loop.simps) (auto simp: Let_def)
    qed
  qed
qed


lemma key_search_spec:
  assumes "sorted_wrt (<) (take (unat c) keys)" and "unat c \<le> length keys" and "unat c < 2147483648"
    and "key_search keys c key = (exact, p)"
  shows "if exact then 0 \<le> p \<and> nat p < unat c \<and> keys ! nat p = key
    else 0 \<le> p \<and> nat p \<le> unat c \<and> (\<forall>i < nat p. keys ! i < key) \<and>
        (\<forall>i. nat p \<le> i \<and> i < unat c \<longrightarrow> key < keys ! i)"
proof -
  define m where "m = unat c"
  have loop: "key_search_loop keys key 0 (int m - 1) = (exact, p)"
    using assms(3,4) by (simp add: key_search_def sint_small_u32 m_def del: of_nat_unat)
  have "case key_search_loop keys key 0 (int m - 1) of
      (True, p) \<Rightarrow> 0 \<le> p \<and> p < int m \<and> keys ! nat p = key
    | (False, p) \<Rightarrow> 0 \<le> p \<and> p \<le> int m \<and> (\<forall>i < nat p. keys ! i < key) \<and>
        (\<forall>i. nat p \<le> i \<and> i < m \<longrightarrow> key < keys ! i)"
    using assms(1,2) unfolding m_def[symmetric] by (intro key_search_loop_spec) auto
  then show ?thesis
    unfolding loop m_def[symmetric] by (cases exact) auto
qed

lemma child_index_spec:
  assumes "sorted_wrt (<) (take (cnt n) (nkeys n))" and "cnt n \<le> length (nkeys n)"
    and "cnt n < 2147483648"
  shows "child_index n key \<le> cnt n"
    and "i < child_index n key \<Longrightarrow> nkeys n ! i \<le> key"
    and "child_index n key \<le> i \<Longrightarrow> i < cnt n \<Longrightarrow> key < nkeys n ! i"
proof -
  obtain exact p where ks: "key_search (nkeys n) (entry_count n) key = (exact, p)" by fastforce
  note spec = key_search_spec[OF assms ks]
  have ci: "child_index n key = (if exact then Suc (nat p) else nat p)"
    using spec ks by (auto simp: child_index_def split: if_splits)
  have mono: "nkeys n ! i < nkeys n ! j" if "i < j" "j < cnt n" for i j
    using assms(1,2) that by (simp add: sorted_wrt_iff_nth_less)
  show "child_index n key \<le> cnt n" using spec by (auto simp: ci split: if_splits)
  show "nkeys n ! i \<le> key" if "i < child_index n key"
    using that spec mono[of i "nat p"] by (auto simp: ci less_Suc_eq intro: less_imp_le split: if_splits)
  show "key < nkeys n ! i" if "child_index n key \<le> i" "i < cnt n"
    using that spec mono[of "nat p" i] by (auto simp: ci Suc_le_eq split: if_splits)
qed

section \<open>The device\<close>

text \<open>\<open>D\<close> is the set of blocks in use for other purposes (inodes, file data) than
  tree nodes: they are allocated already, and a tree keeps off them.\<close>

definition dev_ok :: "u64 set \<Rightarrow> ydev \<Rightarrow> bool" where
  "dev_ok D d \<longleftrightarrow> 3 \<le> next_free_block d \<and> next_free_block d \<le> RAMDISK_BLOCKS \<and>
     (\<forall>b. length (ramdisk d b) = YAFS_BTREE_BLOCK_SIZE) \<and> (\<forall>b \<in> D. b < next_free_block d)"

definition dev_ext :: "ydev \<Rightarrow> ydev \<Rightarrow> bool" where
  "dev_ext d d' \<longleftrightarrow> next_free_block d \<le> next_free_block d' \<and>
     (\<forall>b < next_free_block d. ramdisk d' b = ramdisk d b)"

definition room :: "ydev \<Rightarrow> nat" where
  "room d = 4096 - unat (next_free_block d)"

lemma dev_ext_refl [simp]: "dev_ext d d"
  by (simp add: dev_ext_def)

lemma dev_ext_trans [trans]: "dev_ext d d' \<Longrightarrow> dev_ext d' d'' \<Longrightarrow> dev_ext d d''"
  by (auto simp: dev_ext_def intro: order_trans)

lemma free_block_simps [simp]:
  "ramdisk (mkrn_yafs_dev_free_block b d) = ramdisk d"
  "next_free_block (mkrn_yafs_dev_free_block b d) = next_free_block d"
  "dev_ok D (mkrn_yafs_dev_free_block b d) = dev_ok D d"
  "dev_ext d' (mkrn_yafs_dev_free_block b d) = dev_ext d' d"
  "room (mkrn_yafs_dev_free_block b d) = room d"
  by (simp_all add: mkrn_yafs_dev_free_block_def dev_ok_def dev_ext_def room_def)

lemma next_free_step:
  assumes "dev_ok D d" and "next_free_block d < RAMDISK_BLOCKS"
  shows "unat (next_free_block d + 1) = unat (next_free_block d) + 1"
    and "next_free_block d < next_free_block d + 1"
    and "next_free_block d + 1 \<le> RAMDISK_BLOCKS"
proof -
  have u: "unat (next_free_block d) < 4096"
    using assms(2) by (simp add: RAMDISK_BLOCKS_def word_less_nat_alt)
  then show s: "unat (next_free_block d + 1) = unat (next_free_block d) + 1"
    by (intro unat_plus_one) simp
  show "next_free_block d < next_free_block d + 1" by (simp add: word_less_nat_alt s)
  show "next_free_block d + 1 \<le> RAMDISK_BLOCKS"
    using u by (simp add: word_le_nat_alt s RAMDISK_BLOCKS_def)
qed

text \<open>A node write either fails on a full device and changes nothing, or appends
  a fresh block that reads back as the node.\<close>

lemma node_write_cases:
  assumes "dev_ok D d" and "node_shape n" and "mkrn_yafs_node_write n d = (lba, d')"
  obtains (full) "room d = 0" "lba = 0" "d' = d"
  | (ok) "0 < room d" "lba \<noteq> 0" "lba = next_free_block d" "dev_ok D d'" "dev_ext d d'"
      "room d = Suc (room d')" "lba < next_free_block d'"
      "mkrn_yafs_node_read lba d' = Some (n\<lparr>checksum := 0\<rparr>)"
proof (cases "next_free_block d \<ge> RAMDISK_BLOCKS")
  case True
  with assms show ?thesis
    by (intro full) (auto simp: mkrn_yafs_node_write_def mkrn_yafs_dev_alloc_block_def room_def
      RAMDISK_BLOCKS_def word_le_nat_alt)
next
  case False
  then have lt: "next_free_block d < RAMDISK_BLOCKS" by simp
  note step = next_free_step[OF assms(1) lt]
  have nz: "next_free_block d \<noteq> 0" using assms(1) by (auto simp: dev_ok_def)
  let ?w = "node_bytes (n\<lparr>checksum := 0\<rparr>)"
  have d': "d' = d\<lparr>next_free_block := next_free_block d + 1,
      ramdisk := (ramdisk d)(next_free_block d := ?w), total_allocated := total_allocated d + 1\<rparr>"
    and lba: "lba = next_free_block d"
    using assms(3) False nz
    by (auto simp: mkrn_yafs_node_write_def mkrn_yafs_dev_alloc_block_def mkrn_yafs_dev_write_def
      mkrn_yafs_node_checksum_def Let_def)
  have u: "unat (next_free_block d) < 4096"
    using lt by (simp add: RAMDISK_BLOCKS_def word_less_nat_alt)
  have "3 \<le> next_free_block d + 1"
    using assms(1) step(2) by (auto simp: dev_ok_def)
  then have "dev_ok D d'" using assms(1,2) step(2,3)
    by (auto simp: d' dev_ok_def length_node_bytes)
  moreover have "dev_ext d d'" using step(2) by (simp add: d' dev_ext_def)
  moreover have "room d = Suc (room d')" using u step(1) by (simp add: d' room_def)
  moreover have "mkrn_yafs_node_read lba d' = Some (n\<lparr>checksum := 0\<rparr>)"
    using lt assms(2)
    by (simp add: mkrn_yafs_node_read_def mkrn_yafs_dev_read_def d' lba node_of_bytes_node_bytes)
  ultimately show ?thesis
    using u nz step(2) by (intro ok) (auto simp: lba d' room_def)
qed

lemma node_read_ext:
  assumes "dev_ext d d'" and "lba < next_free_block d"
  shows "mkrn_yafs_node_read lba d' = mkrn_yafs_node_read lba d"
  using assms by (simp add: mkrn_yafs_node_read_def mkrn_yafs_dev_read_def dev_ext_def)


section \<open>Trees on disk\<close>

text \<open>
  \<open>tree_at h d lo hi lba kvs\<close>: block \<open>lba\<close> is the root of a
  well-formed subtree of height \<open>h\<close> whose keys lie in \<open>[lo, hi)\<close>
  (natural numbers, so that \<open>2 ^ 64\<close> is the bound of the whole tree) and
  whose leaves, read left to right, hold \<open>kvs\<close>. \<open>forest\<close> relates
  the bounds, the block addresses and the contents of a run of siblings.
\<close>

fun forest :: "(nat \<Rightarrow> nat \<Rightarrow> u64 \<Rightarrow> 'c \<Rightarrow> bool) \<Rightarrow> nat list \<Rightarrow> u64 list \<Rightarrow> 'c list \<Rightarrow> bool" where
  "forest P (b # bs) (l # ls) (c # cs) = (bs \<noteq> [] \<and> P b (hd bs) l c \<and> forest P bs ls cs)"
| "forest P [b] [] [] = True"
| "forest P _ _ _ = False"

definition leaf_rep :: "yafs_node \<Rightarrow> nat \<Rightarrow> nat \<Rightarrow> (u64 \<times> u64) list \<Rightarrow> bool" where
  "leaf_rep n lo hi kvs \<longleftrightarrow> is_leaf n \<and>
     kvs = zip (take (cnt n) (nkeys n)) (take (cnt n) (slots n)) \<and>
     sorted_wrt (<) (take (cnt n) (nkeys n)) \<and>
     (\<forall>k \<in> set (take (cnt n) (nkeys n)). lo \<le> unat k \<and> unat k < hi)"

definition bounds :: "nat \<Rightarrow> yafs_node \<Rightarrow> nat \<Rightarrow> nat list" where
  "bounds lo n hi = lo # map unat (take (cnt n) (nkeys n)) @ [hi]"

definition inner_rep ::
  "(nat \<Rightarrow> nat \<Rightarrow> u64 \<Rightarrow> (u64 \<times> u64) list \<Rightarrow> bool) \<Rightarrow> yafs_node \<Rightarrow> nat \<Rightarrow> nat \<Rightarrow> (u64 \<times> u64) list \<Rightarrow> bool" where
  "inner_rep P n lo hi kvs \<longleftrightarrow> \<not> is_leaf n \<and> sorted_wrt (<) (bounds lo n hi) \<and>
     (\<exists>kvss. forest P (bounds lo n hi) (take (Suc (cnt n)) (slots n)) kvss \<and> kvs = concat kvss)"

fun tree_at :: "u64 set \<Rightarrow> nat \<Rightarrow> ydev \<Rightarrow> nat \<Rightarrow> nat \<Rightarrow> u64 \<Rightarrow> (u64 \<times> u64) list \<Rightarrow> bool" where
  "tree_at D 0 d = (\<lambda>lo hi lba kvs. lba \<noteq> 0 \<and> lba < next_free_block d \<and> lba \<notin> D \<and>
     (\<exists>n. mkrn_yafs_node_read lba d = Some n \<and> node_shape n \<and> cnt n \<le> 248 \<and> leaf_rep n lo hi kvs))"
| "tree_at D (Suc h) d = (\<lambda>lo hi lba kvs. lba \<noteq> 0 \<and> lba < next_free_block d \<and> lba \<notin> D \<and>
     (\<exists>n. mkrn_yafs_node_read lba d = Some n \<and> node_shape n \<and> cnt n \<le> 248 \<and>
        inner_rep (tree_at D h d) n lo hi kvs))"

lemma forest_lengths: "forest P bs ls cs \<Longrightarrow> length bs = Suc (length ls) \<and> length cs = length ls"
  by (induction P bs ls cs rule: forest.induct) auto

lemma forest_mono: "forest P bs ls cs \<Longrightarrow> (\<And>a b l c. P a b l c \<Longrightarrow> Q a b l c) \<Longrightarrow> forest Q bs ls cs"
  by (induction P bs ls cs rule: forest.induct) auto

lemma forest_append:
  assumes "length as = length ls1" and "length cs1 = length ls1"
  shows "forest P (as @ b # bs) (ls1 @ ls2) (cs1 @ cs2) \<longleftrightarrow>
     forest P (as @ [b]) ls1 cs1 \<and> forest P (b # bs) ls2 cs2"
  using assms
proof (induction as ls1 arbitrary: cs1 rule: list_induct2)
  case Nil
  then show ?case by simp
next
  case (Cons a as l ls1)
  then obtain c cs where cs1: "cs1 = c # cs" by (cases cs1) auto
  have "as @ b # bs \<noteq> []" "hd (as @ b # bs) = hd (as @ [b])" by (cases as; simp)+
  with Cons cs1 show ?case by auto
qed

lemma forest_nth:
  "forest P bs ls cs \<Longrightarrow> i < length ls \<Longrightarrow> P (bs ! i) (bs ! Suc i) (ls ! i) (cs ! i)"
proof (induction P bs ls cs arbitrary: i rule: forest.induct)
  case (1 P b bs l ls c cs)
  then show ?case by (cases i) (auto simp: hd_conv_nth)
qed auto

lemma forest_all:
  assumes "forest P bs ls cs" and "c \<in> set cs"
  obtains i where "i < length ls" "c = cs ! i" "P (bs ! i) (bs ! Suc i) (ls ! i) c"
  using assms forest_nth[OF assms(1)] forest_lengths[OF assms(1)] by (metis in_set_conv_nth)

lemma tree_at_ext: "dev_ext d d' \<Longrightarrow> tree_at D h d lo hi lba kvs \<Longrightarrow> tree_at D h d' lo hi lba kvs"
proof (induction h arbitrary: lo hi lba kvs)
  case 0
  then have "lba < next_free_block d'" by (auto simp: dev_ext_def)
  with 0 show ?case by (auto simp: node_read_ext)
next
  case (Suc h)
  then have "lba < next_free_block d'" by (auto simp: dev_ext_def)
  moreover have "forest (tree_at D h d') bs ls cs" if "forest (tree_at D h d) bs ls cs" for bs ls cs
    using that Suc.IH[OF Suc.prems(1)] by (rule forest_mono)
  ultimately show ?case using Suc.prems by (auto simp: node_read_ext inner_rep_def) blast
qed


subsection \<open>Keys are sorted and within the bounds\<close>

definition kv_within :: "nat \<Rightarrow> nat \<Rightarrow> (u64 \<times> 'v) list \<Rightarrow> bool" where
  "kv_within lo hi kvs \<longleftrightarrow> kv_sorted kvs \<and> (\<forall>p \<in> set kvs. lo \<le> unat (fst p) \<and> unat (fst p) < hi)"

lemma kv_within_append:
  assumes "kv_within a b xs" and "kv_within b c ys" and "a \<le> b" and "b \<le> c"
  shows "kv_within a c (xs @ ys)"
proof -
  have "fst x < fst y" if "x \<in> set xs" "y \<in> set ys" for x y
    using assms that by (fastforce simp: kv_within_def word_less_nat_alt)
  then show ?thesis using assms by (fastforce simp: kv_within_def sorted_wrt_append)
qed

lemma forest_within:
  assumes "forest P bs ls cs" and "sorted_wrt (<) bs" and "\<And>a b l c. P a b l c \<Longrightarrow> kv_within a b c"
  shows "kv_within (hd bs) (last bs) (concat cs)"
  using assms
proof (induction P bs ls cs rule: forest.induct)
  case (1 P b bs l ls c cs)
  from 1(2) obtain b' bs' where bs: "bs = b' # bs'" by (cases bs) auto
  have "kv_within b b' c" using 1(2) 1(4)[of b b' l c] bs by simp
  moreover have "kv_within b' (last bs) (concat cs)" using 1 bs by simp
  moreover have "b \<le> b'" using 1(3) bs by simp
  moreover have "b' \<le> last bs" using 1(3) bs by (cases "bs' = []") (auto intro: less_imp_le)
  ultimately have "kv_within b (last bs) (c @ concat cs)" by (rule kv_within_append)
  then show ?case using bs by simp
qed (auto simp: kv_within_def)

lemma leaf_rep_within: "leaf_rep n lo hi kvs \<Longrightarrow> node_shape n \<Longrightarrow> cnt n \<le> 249 \<Longrightarrow> kv_within lo hi kvs"
  by (auto simp: leaf_rep_def kv_within_def node_shape_def dest: set_zip_leftD)

lemma tree_at_within: "tree_at D h d lo hi lba kvs \<Longrightarrow> kv_within lo hi kvs"
proof (induction h arbitrary: lo hi lba kvs)
  case 0
  then show ?case by (auto intro: leaf_rep_within)
next
  case (Suc h)
  then obtain n kvss where "sorted_wrt (<) (bounds lo n hi)" "kvs = concat kvss"
    "forest (tree_at D h d) (bounds lo n hi) (take (Suc (cnt n)) (slots n)) kvss"
    by (auto simp: inner_rep_def)
  with forest_within[OF this(3,1)] Suc.IH show ?case by (simp add: bounds_def)
qed

subsection \<open>Leaf insertion\<close>

lemma take_Suc_insert:
  assumes "p \<le> c" and "c < length xs"
  shows "take (Suc c) ((shift_up c p xs)[p := x]) = take p xs @ x # drop p (take c xs)"
  using assms by (simp add: shift_up_insert take_Cons' drop_take)

definition leaf_put :: "yafs_node \<Rightarrow> u64 \<Rightarrow> u64 \<Rightarrow> yafs_node" where
  "leaf_put n key val =
     (let (exact, pos) = key_search (nkeys n) (entry_count n) key
      in if exact then n\<lparr>slots := (slots n)[nat pos := val]\<rparr>
         else (leaf_insert_at n (cnt n) (nat pos) key val)\<lparr>entry_count := entry_count n + 1\<rparr>)"

lemma leaf_put_rep:
  assumes "node_shape n" and "cnt n \<le> 248" and "leaf_rep n lo hi kvs"
    and "lo \<le> unat key" and "unat key < hi"
  shows "node_shape (leaf_put n key val)" and "cnt (leaf_put n key val) \<le> 249"
    and "leaf_rep (leaf_put n key val) lo hi (kv_upd key val kvs)"
    and "fst (key_search (nkeys n) (entry_count n) key) = (key \<in> fst ` set kvs)"
proof -
  obtain exact pos where ks: "key_search (nkeys n) (entry_count n) key = (exact, pos)" by fastforce
  define p where "p = nat pos"
  let ?K = "take (cnt n) (nkeys n)" and ?V = "take (cnt n) (slots n)"
  have len: "length (nkeys n) = 249" "length (slots n) = 251"
    using assms(1) by (auto simp: node_shape_def)
  have kvs: "kvs = zip ?K ?V" and srt: "sorted_wrt (<) ?K" using assms(3) by (auto simp: leaf_rep_def)
  have spec: "if exact then p < cnt n \<and> nkeys n ! p = key
    else p \<le> cnt n \<and> (\<forall>i < p. nkeys n ! i < key) \<and> (\<forall>i. p \<le> i \<and> i < cnt n \<longrightarrow> key < nkeys n ! i)"
    using key_search_spec[OF srt _ _ ks] assms(2) len by (auto simp: p_def split: if_splits)
  have lk: "length kvs = cnt n" using kvs assms(2) len by simp
  have nthk: "fst (kvs ! i) = nkeys n ! i" if "i < cnt n" for i
    using that assms(2) len by (simp add: kvs)
  have mono: "nkeys n ! i < nkeys n ! j" if "i < j" "j < cnt n" for i j
    using srt that assms(2) len by (simp add: sorted_wrt_iff_nth_less)
  show "node_shape (leaf_put n key val)"
    using assms(1) by (simp add: leaf_put_def ks leaf_insert_at_def node_shape_def)
  have cnt1: "unat (entry_count n + 1) = cnt n + 1" using assms(2) by (intro unat_plus_one) simp
  then show "cnt (leaf_put n key val) \<le> 249"
    using assms(2) by (simp add: leaf_put_def ks leaf_insert_at_def)
  have ex: "exact = (key \<in> fst ` set kvs)"
  proof (cases exact)
    case True
    then have "kvs ! p \<in> set kvs" "fst (kvs ! p) = key" using spec lk nthk by auto
    then show ?thesis using True by force
  next
    case False
    have "fst (kvs ! i) \<noteq> key" if "i < cnt n" for i
      using False spec that nthk[OF that] by (metis not_less less_irrefl)
    then have "key \<notin> set (map fst kvs)" using lk by (simp add: in_set_conv_nth del: set_map)
    then show ?thesis using False by simp
  qed
  then show "fst (key_search (nkeys n) (entry_count n) key) = (key \<in> fst ` set kvs)"
    by (simp add: ks)
  have bK: "\<forall>x \<in> set (take p ?K). x < key"
    using spec len assms(2) mono by (auto simp: in_set_conv_nth split: if_splits)
  then have before: "\<forall>q \<in> set (take p kvs). fst q < key"
    by (force simp: kvs take_zip dest: set_zip_leftD)
  show "leaf_rep (leaf_put n key val) lo hi (kv_upd key val kvs)"
  proof (cases exact)
    case True
    then have p: "p < cnt n" "nkeys n ! p = key" using spec by auto
    have "kvs = take p kvs @ (key, snd (kvs ! p)) # drop (Suc p) kvs"
      using id_take_nth_drop[of p kvs] p lk nthk[OF p(1)] by (metis prod.collapse)
    then have "kv_upd key val kvs = take p kvs @ (key, val) # drop (Suc p) kvs"
      by (metis kv_upd_present[OF before])
    also have "\<dots> = kvs[p := (key, val)]" using p lk by (simp add: upd_conv_take_nth_drop)
    also have "\<dots> = zip (?K[p := key]) (?V[p := val])" by (simp add: kvs zip_update)
    also have "?K[p := key] = ?K" using p by (metis list_update_id nth_take)
    finally have "kv_upd key val kvs = zip ?K (take (cnt n) ((slots n)[p := val]))"
      by (simp add: take_update_swap)
    then show ?thesis using True assms(3) by (simp add: leaf_put_def ks leaf_rep_def p_def)
  next
    case False
    then have p: "p \<le> cnt n" and aK: "\<forall>x \<in> set (drop p ?K). key < x"
      using spec len assms(2) by (auto simp: in_set_conv_nth)
    then have "\<forall>q \<in> set (drop p kvs). key < fst q"
      by (force simp: kvs drop_zip dest: set_zip_leftD)
    then have upd: "kv_upd key val kvs = take p kvs @ (key, val) # drop p kvs"
      using kv_upd_absent[OF before, of "drop p kvs" val] by simp
    have K: "take (Suc (cnt n)) ((shift_up (cnt n) p (nkeys n))[p := key]) = take p ?K @ key # drop p ?K"
      and V: "take (Suc (cnt n)) ((shift_up (cnt n) p (slots n))[p := val]) = take p ?V @ val # drop p ?V"
      using p assms(2) len by (simp_all add: take_Suc_insert min_def)
    have put: "leaf_put n key val = (leaf_insert_at n (cnt n) p key val)\<lparr>entry_count := entry_count n + 1\<rparr>"
      using False by (simp add: leaf_put_def ks p_def)
    have "sorted_wrt (<) (take p ?K @ key # drop p ?K)"
    proof -
      have "sorted_wrt (<) (take p ?K @ drop p ?K)" using srt by (simp only: append_take_drop_id)
      then show ?thesis using bK aK by (auto simp: sorted_wrt_append simp del: append_take_drop_id)
    qed
    moreover have "\<forall>k \<in> set (take p ?K @ key # drop p ?K). lo \<le> unat k \<and> unat k < hi"
      using assms(3-5) set_take_subset[of p ?K] set_drop_subset[of p ?K]
      by (auto simp: leaf_rep_def simp del: take_take)
    moreover have "kv_upd key val kvs = zip (take p ?K @ key # drop p ?K) (take p ?V @ val # drop p ?V)"
      unfolding upd using p len assms(2) by (simp add: kvs take_zip drop_zip)
    ultimately show ?thesis
      using assms(3) by (simp add: put leaf_rep_def leaf_insert_at_def cnt1 K V)
  qed
qed


subsection \<open>Splitting\<close>

lemma leaf_split_rep:
  assumes "node_shape n" and "cnt n = 249" and "leaf_rep n lo hi kvs"
  defines "l \<equiv> n\<lparr>entry_count := 124\<rparr>" and "r \<equiv> leaf_right n"
  shows "node_shape l" "node_shape r" "cnt l = 124" "cnt r = 125"
    and "lo < unat (nkeys r ! 0)" and "unat (nkeys r ! 0) < hi"
    and "leaf_rep l lo (unat (nkeys r ! 0)) (take 124 kvs)"
    and "leaf_rep r (unat (nkeys r ! 0)) hi (drop 124 kvs)"
proof -
  let ?K = "nkeys n" and ?V = "slots n"
  have len: "length ?K = 249" "length ?V = 251" using assms(1) by (auto simp: node_shape_def)
  have ec: "entry_count n = 249" using assms(2) by (intro unsigned_word_eqI[where ?'a = nat]) simp
  have kvs: "kvs = zip ?K (take 249 ?V)" and srt: "sorted_wrt (<) ?K"
    and rng: "\<forall>k \<in> set ?K. lo \<le> unat k \<and> unat k < hi" and lf: "is_leaf n"
    using assms(3) len by (auto simp: leaf_rep_def ec)
  have r: "r = (node_init YAFS_NODE_LEAF 0)\<lparr>nkeys := drop 124 ?K @ replicate 124 0,
      slots := take 125 (drop 124 ?V) @ replicate 126 0, entry_count := 125\<rparr>"
    using len by (simp add: r_def leaf_right_def ec node_init_def YAFS_BTREE_MAX_KEYS_def array_copy_take)
  have r0: "nkeys r ! 0 = ?K ! 124" using len by (simp add: r nth_append)
  have mono: "?K ! i < ?K ! j" if "i < j" "j < 249" for i j
    using srt that len by (simp add: sorted_wrt_iff_nth_less)
  show "node_shape l" "cnt l = 124" using assms(1) by (simp_all add: l_def)
  show "node_shape r" using len by (simp add: r node_shape_def node_init_def)
  show "cnt r = 125" by (simp add: r)
  have "lo \<le> unat (?K ! 0)" using rng len nth_mem[of 0 ?K] by auto
  then show "lo < unat (nkeys r ! 0)" using mono[of 0 124] by (simp add: r0 word_less_nat_alt)
  show "unat (nkeys r ! 0) < hi" using rng len nth_mem[of 124 ?K] by (simp add: r0)
  have "\<forall>k \<in> set (take 124 ?K). unat k < unat (?K ! 124)"
    using len mono by (auto simp: in_set_conv_nth word_less_nat_alt)
  moreover have "sorted_wrt (<) (take 124 ?K)" using srt by (rule sorted_wrt_take)
  ultimately show "leaf_rep l lo (unat (nkeys r ! 0)) (take 124 kvs)"
    using rng lf by (auto simp: leaf_rep_def l_def r0 kvs take_zip dest: in_set_takeD)
  have "unat (?K ! 124) \<le> unat k" if "k \<in> set (drop 124 ?K)" for k
  proof -
    from that obtain i where "k = ?K ! (124 + i)" "i < 125" using len by (auto simp: in_set_conv_nth)
    then show ?thesis using mono[of 124 "124 + i"] by (cases "i = 0") (auto simp: word_less_nat_alt)
  qed
  moreover have "sorted_wrt (<) (drop 124 ?K)" using srt by (rule sorted_wrt_drop)
  ultimately show "leaf_rep r (unat (nkeys r ! 0)) hi (drop 124 kvs)"
    using rng len
    by (auto simp: leaf_rep_def r r0 kvs drop_zip drop_take node_init_def YAFS_NODE_LEAF_def nth_append
      dest: in_set_dropD)
qed

lemma inner_split_rep:
  assumes "node_shape n" and "cnt n = 249" and "inner_rep P n lo hi kvs"
  defines "l \<equiv> n\<lparr>entry_count := 124\<rparr>" and "r \<equiv> internal_right n" and "sk \<equiv> nkeys n ! 124"
  obtains L R where "node_shape l" "node_shape r" "cnt l = 124" "cnt r = 124"
    "lo < unat sk" "unat sk < hi" "kvs = L @ R" "inner_rep P l lo (unat sk) L" "inner_rep P r (unat sk) hi R"
proof -
  let ?K = "nkeys n" and ?V = "slots n"
  have len: "length ?K = 249" "length ?V = 251" using assms(1) by (auto simp: node_shape_def)
  have ec: "entry_count n = 249" using assms(2) by (intro unsigned_word_eqI[where ?'a = nat]) simp
  obtain kvss where F: "forest P (bounds lo n hi) (take 250 ?V) kvss" and kvs: "kvs = concat kvss"
    and srt: "sorted_wrt (<) (bounds lo n hi)" and nl: "\<not> is_leaf n"
    using assms(3) by (auto simp: inner_rep_def ec)
  have r: "r = (node_init 0 (level n))\<lparr>nkeys := drop 125 ?K @ replicate 125 0,
      slots := take 125 (drop 125 ?V) @ replicate 126 0, entry_count := 124\<rparr>"
    using len by (simp add: r_def internal_right_def ec node_init_def YAFS_BTREE_MAX_KEYS_def array_copy_take
      del: array_copy.simps)
  have K: "?K = take 124 ?K @ sk # drop 125 ?K"
    using id_take_nth_drop[of 124 ?K] len by (simp add: sk_def)
  define as where "as = lo # map unat (take 124 ?K)"
  define bs where "bs = map unat (drop 125 ?K) @ [hi]"
  have B: "bounds lo n hi = as @ unat sk # bs"
    using len by (simp add: bounds_def ec as_def bs_def) (metis K list.simps(9) map_append append.assoc append_Cons)
  have Bl: "bounds lo l (unat sk) = as @ [unat sk]" by (simp add: bounds_def l_def as_def)
  have Br: "bounds (unat sk) r hi = unat sk # bs" using len by (simp add: bounds_def r bs_def)
  have V: "take 250 ?V = take 125 ?V @ take 125 (drop 125 ?V)"
    using take_add[of 125 125 ?V] by simp
  have lc: "length kvss = 250" using forest_lengths[OF F] len by simp
  have "forest P (as @ unat sk # bs) (take 125 ?V @ take 125 (drop 125 ?V)) (take 125 kvss @ drop 125 kvss)"
    using F B V by simp
  then have F2: "forest P (as @ [unat sk]) (take 125 ?V) (take 125 kvss)"
    "forest P (unat sk # bs) (take 125 (drop 125 ?V)) (drop 125 kvss)"
    using len lc by (subst (asm) forest_append; simp add: as_def)+
  have s2: "sorted_wrt (<) (as @ [unat sk])" "sorted_wrt (<) (unat sk # bs)" "lo < unat sk" "unat sk < hi"
    using srt by (auto simp: B sorted_wrt_append as_def bs_def)
  show ?thesis
  proof (rule that)
    show "node_shape l" "cnt l = 124" using assms(1) by (simp_all add: l_def)
    show "node_shape r" using len by (simp add: r node_shape_def node_init_def)
    show "cnt r = 124" by (simp add: r)
    show "lo < unat sk" "unat sk < hi" using s2 by auto
    show "kvs = concat (take 125 kvss) @ concat (drop 125 kvss)"
      by (simp add: kvs flip: concat_append)
    have tl: "take (Suc (cnt l)) (slots l) = take 125 ?V" by (simp add: l_def)
    have tr: "take (Suc (cnt r)) (slots r) = take 125 (drop 125 ?V)" using len by (simp add: r)
    show "inner_rep P l lo (unat sk) (concat (take 125 kvss))"
      unfolding inner_rep_def Bl tl using s2 F2 nl by (auto simp: l_def)
    show "inner_rep P r (unat sk) hi (concat (drop 125 kvss))"
      unfolding inner_rep_def Br tr using s2 F2 by (auto simp: r node_init_def)
  qed
qed

end
