(* ===== verification/BtreeInsert.thy ===== *)
theory BtreeInsert
  imports BtreeRep
begin

text \<open>
  Functional correctness of B+tree insertion against the sorted association
  list that \<open>tree_at\<close> reads off the disk, and its copy-on-write: whatever
  the outcome, no block that was in use before the call is changed.
\<close>

section \<open>Writing subtrees\<close>

text \<open>\<open>node_tree\<close> is the content half of \<open>tree_at\<close>, for a node in memory.\<close>

fun node_tree :: "u64 set \<Rightarrow> nat \<Rightarrow> ydev \<Rightarrow> yafs_node \<Rightarrow> nat \<Rightarrow> nat \<Rightarrow> (u64 \<times> u64) list \<Rightarrow> bool" where
  "node_tree D 0 d n = leaf_rep n"
| "node_tree D (Suc h) d n = inner_rep (tree_at D h d) n"

lemma tree_at_node:
  "tree_at D h d lo hi lba kvs \<longleftrightarrow> lba \<noteq> 0 \<and> lba < next_free_block d \<and> lba \<notin> D \<and>
     (\<exists>n. mkrn_yafs_node_read lba d = Some n \<and> node_shape n \<and> cnt n \<le> 248 \<and> node_tree D h d n lo hi kvs)"
  by (cases h) auto

lemma bounds_checksum [simp]: "bounds lo (n\<lparr>checksum := c\<rparr>) hi = bounds lo n hi"
  by (simp add: bounds_def)

lemma node_tree_checksum [simp]: "node_tree D h d (n\<lparr>checksum := c\<rparr>) lo hi kvs = node_tree D h d n lo hi kvs"
  by (cases h) (simp_all add: leaf_rep_def inner_rep_def)

lemma inner_rep_mono:
  "inner_rep P n lo hi kvs \<Longrightarrow> (\<And>a b l c. P a b l c \<Longrightarrow> Q a b l c) \<Longrightarrow> inner_rep Q n lo hi kvs"
  unfolding inner_rep_def by (blast intro: forest_mono)

lemma node_tree_ext: "dev_ext d d' \<Longrightarrow> node_tree D h d n lo hi kvs \<Longrightarrow> node_tree D h d' n lo hi kvs"
  by (cases h) (auto elim: inner_rep_mono tree_at_ext)

lemma node_read_shape: "dev_ok D d \<Longrightarrow> mkrn_yafs_node_read lba d = Some n \<Longrightarrow> node_shape n"
  by (auto simp: mkrn_yafs_node_read_def mkrn_yafs_dev_read_def dev_ok_def split: if_splits)

lemma write_tree:
  assumes "dev_ok D d" "node_shape n" "cnt n \<le> 248" "node_tree D h d n lo hi kvs" "0 < room d"
    and "mkrn_yafs_node_write n d = (lba, d')"
  shows "lba \<noteq> 0" "dev_ok D d'" "dev_ext d d'" "room d = Suc (room d')" "tree_at D h d' lo hi lba kvs"
proof -
  have "lba \<noteq> 0 \<and> dev_ok D d' \<and> dev_ext d d' \<and> room d = Suc (room d') \<and> tree_at D h d' lo hi lba kvs"
    using assms(1,2,6)
  proof (cases rule: node_write_cases)
    case ok
    have "lba \<notin> D" using assms(1) ok(3) by (auto simp: dev_ok_def)
    with ok show ?thesis
      unfolding tree_at_node using assms(2-4) node_tree_ext[OF ok(5) assms(4)] by auto
  qed (use assms(5) in auto)
  then show "lba \<noteq> 0" "dev_ok D d'" "dev_ext d d'" "room d = Suc (room d')" "tree_at D h d' lo hi lba kvs"
    by auto
qed

lemma node_write_ext:
  assumes "dev_ok D d" "node_shape n" "mkrn_yafs_node_write n d = (lba, d')"
  shows "dev_ok D d'" "dev_ext d d'"
  using assms node_write_cases[OF assms, of "dev_ok D d' \<and> dev_ext d d'"] by auto

text \<open>What a successful recursive insertion leaves on the disk: one subtree or two.\<close>

definition out_tree :: "u64 set \<Rightarrow> nat \<Rightarrow> nat \<Rightarrow> nat \<Rightarrow> ydev \<Rightarrow> (u64 \<times> u64) list \<Rightarrow> ins_out \<Rightarrow> bool" where
  "out_tree D h lo hi d kvs out \<longleftrightarrow>
     (if io_split_lba out = 0 then tree_at D h d lo hi (io_lba out) kvs
      else \<exists>L R. kvs = L @ R \<and> lo < unat (io_split_key out) \<and> unat (io_split_key out) < hi \<and>
        tree_at D h d lo (unat (io_split_key out)) (io_lba out) L \<and>
        tree_at D h d (unat (io_split_key out)) hi (io_split_lba out) R)"

definition ins_ok ::
  "u64 set \<Rightarrow> nat \<Rightarrow> nat \<Rightarrow> nat \<Rightarrow> ydev \<Rightarrow> (u64 \<times> u64) list \<Rightarrow> bool \<Rightarrow> ins_out \<times> ydev \<Rightarrow> bool" where
  "ins_ok D h lo hi d kvs ins r = (case r of (out, d') \<Rightarrow>
     dev_ok D d' \<and> dev_ext d d' \<and> room d \<le> room d' + 2 * Suc h \<and> io_lba out \<noteq> 0 \<and> io_inserted out = ins \<and>
     out_tree D h lo hi d' kvs out)"

lemma write_whole_ok:
  assumes "dev_ok D d" "node_shape n" "cnt n \<le> 248" "node_tree D h d n lo hi kvs" "0 < room d"
  shows "ins_ok D h lo hi d kvs ins (write_whole n ins d)"
proof -
  obtain lba d' where w: "mkrn_yafs_node_write n d = (lba, d')" by fastforce
  from write_tree[OF assms w] w show ?thesis by (simp add: write_whole_def ins_ok_def out_tree_def)
qed

lemma write_split_ok:
  assumes "dev_ok D d" "node_shape l" "cnt l \<le> 248" "node_tree D h d l lo (unat sk) L"
    "node_shape r" "cnt r \<le> 248" "node_tree D h d r (unat sk) hi R" "2 \<le> room d"
    "lo < unat sk" "unat sk < hi"
  shows "ins_ok D h lo hi d (L @ R) ins (write_split l r sk ins d)"
proof -
  obtain rl d1 where w1: "mkrn_yafs_node_write r d = (rl, d1)" by fastforce
  obtain ll d2 where w2: "mkrn_yafs_node_write l d1 = (ll, d2)" by fastforce
  have t1: "rl \<noteq> 0" "dev_ok D d1" "dev_ext d d1" "room d = Suc (room d1)" "tree_at D h d1 (unat sk) hi rl R"
    using write_tree[OF assms(1,5-7) _ w1] assms(8) by auto
  have "node_tree D h d1 l lo (unat sk) L" using t1(3) assms(4) by (rule node_tree_ext)
  with t1 assms(8) have t2: "ll \<noteq> 0" "dev_ok D d2" "dev_ext d1 d2" "room d1 = Suc (room d2)"
    "tree_at D h d2 lo (unat sk) ll L"
    using write_tree[OF t1(2) assms(2,3) _ _ w2] by auto
  moreover have "tree_at D h d2 (unat sk) hi rl R" using t2(3) t1(5) by (rule tree_at_ext)
  moreover have "dev_ext d d2" using t1(3) t2(3) by (rule dev_ext_trans)
  ultimately show ?thesis using t1 assms(9,10) w1 w2 by (auto simp: write_split_def ins_ok_def out_tree_def)
qed

lemma write_whole_ext:
  "dev_ok D d \<Longrightarrow> node_shape n \<Longrightarrow> write_whole n ins d = (out, d') \<Longrightarrow> dev_ok D d' \<and> dev_ext d d'"
  using node_write_ext[of _ d n] by (fastforce simp: write_whole_def split: prod.splits if_splits)

lemma write_split_ext:
  assumes "dev_ok D d" "node_shape l" "node_shape r" "write_split l r sk ins d = (out, d')"
  shows "dev_ok D d' \<and> dev_ext d d'"
proof -
  obtain rl d1 where w1: "mkrn_yafs_node_write r d = (rl, d1)" by fastforce
  obtain ll d2 where w2: "mkrn_yafs_node_write l d1 = (ll, d2)" by fastforce
  note e1 = node_write_ext[OF assms(1,3) w1]
  note e2 = node_write_ext[OF e1(1) assms(2) w2]
  show ?thesis using assms(4) w1 w2 e1 e2 dev_ext_trans[OF e1(2) e2(2)]
    by (auto simp: write_split_def split: if_splits)
qed

section \<open>Insertion into a leaf\<close>

lemma btree_insert_leaf_put:
  "btree_insert_leaf n key val d =
     (let n1 = leaf_put n key val; ins = (\<not> fst (key_search (nkeys n) (entry_count n) key)) in
      if cnt n1 > 248 then let r = leaf_right n1 in
        write_split (n1\<lparr>entry_count := 124\<rparr>) r (nkeys r ! 0) ins d
      else write_whole n1 ins d)"
  by (simp add: btree_insert_leaf_def leaf_put_def YAFS_BTREE_MAX_KEYS_def Let_def split: prod.splits)

lemma btree_insert_leaf_ok:
  assumes "dev_ok D d" "node_shape n" "cnt n \<le> 248" "leaf_rep n lo hi kvs"
    "lo \<le> unat key" "unat key < hi" "2 \<le> room d"
  shows "ins_ok D 0 lo hi d (kv_upd key val kvs) (key \<notin> fst ` set kvs) (btree_insert_leaf n key val d)"
proof -
  define n1 where "n1 = leaf_put n key val"
  note put = leaf_put_rep(1-3)[OF assms(2-6), of val, folded n1_def] leaf_put_rep(4)[OF assms(2-6)]
  show ?thesis
  proof (cases "cnt n1 > 248")
    case True
    then have c: "cnt n1 = 249" using put(2) by simp
    define l where "l = n1\<lparr>entry_count := 124\<rparr>"
    define r where "r = leaf_right n1"
    note sp = leaf_split_rep[OF put(1) c put(3), folded l_def r_def]
    have "ins_ok D 0 lo hi d (take 124 (kv_upd key val kvs) @ drop 124 (kv_upd key val kvs))
        (key \<notin> fst ` set kvs) (write_split l r (nkeys r ! 0) (key \<notin> fst ` set kvs) d)"
      by (rule write_split_ok) (use sp assms(1,7) in auto)
    then show ?thesis using c put(4)
      by (simp add: btree_insert_leaf_put l_def r_def n1_def Let_def)
  next
    case False
    then have "ins_ok D 0 lo hi d (kv_upd key val kvs) (key \<notin> fst ` set kvs)
        (write_whole n1 (key \<notin> fst ` set kvs) d)"
      by (intro write_whole_ok) (use put assms(1,7) in auto)
    then show ?thesis using False put(4) by (simp add: btree_insert_leaf_put n1_def Let_def)
  qed
qed

section \<open>Insertion into an internal node\<close>

lemma forest_split_at:
  assumes "forest P (pre @ post) ls cs" "length pre = Suc i" "post \<noteq> []" "i < length ls"
  shows "forest P pre (take i ls) (take i cs)" "P (last pre) (hd post) (ls ! i) (cs ! i)"
    "forest P post (drop (Suc i) ls) (drop (Suc i) cs)"
proof -
  have pre: "pre = butlast pre @ [last pre]" using assms(2) by (metis append_butlast_last_id length_0_conv nat.simps(3))
  have lc: "length cs = length ls" using forest_lengths[OF assms(1)] by simp
  have ls: "ls = take i ls @ ls ! i # drop (Suc i) ls" using assms(4) by (rule id_take_nth_drop)
  have cs: "cs = take i cs @ cs ! i # drop (Suc i) cs" using assms(4) lc by (metis id_take_nth_drop)
  have "forest P (butlast pre @ last pre # post) (take i ls @ ls ! i # drop (Suc i) ls)
      (take i cs @ cs ! i # drop (Suc i) cs)"
    using assms(1) pre ls cs by (metis append.assoc append_Cons append_Nil)
  then have "forest P (butlast pre @ [last pre]) (take i ls) (take i cs) \<and>
      forest P (last pre # post) (ls ! i # drop (Suc i) ls) (cs ! i # drop (Suc i) cs)"
    using assms(2,4) lc by (subst (asm) forest_append) simp_all
  then show "forest P pre (take i ls) (take i cs)" "P (last pre) (hd post) (ls ! i) (cs ! i)"
    "forest P post (drop (Suc i) ls) (drop (Suc i) cs)"
    using pre assms(3) by auto
qed

lemma forest_join:
  assumes "forest P pre ls1 cs1" "P (last pre) (hd post) l c" "forest P post ls2 cs2"
  shows "forest P (pre @ post) (ls1 @ l # ls2) (cs1 @ c # cs2)"
proof -
  have ne: "pre \<noteq> []" "post \<noteq> []" using forest_lengths[OF assms(1)] forest_lengths[OF assms(3)] by auto
  then have pre: "pre = butlast pre @ [last pre]" by simp
  have "forest P (butlast pre @ last pre # post) (ls1 @ l # ls2) (cs1 @ c # cs2)"
    using forest_lengths[OF assms(1)] assms pre ne by (subst forest_append) auto
  then show ?thesis using pre by (metis append.assoc append_Cons append_Nil)
qed

text \<open>The run of bounds on either side of child \<open>i\<close>.\<close>

definition bounds_pre :: "nat \<Rightarrow> yafs_node \<Rightarrow> nat \<Rightarrow> nat list" where
  "bounds_pre lo n i = lo # map unat (take i (nkeys n))"

definition bounds_post :: "yafs_node \<Rightarrow> nat \<Rightarrow> nat \<Rightarrow> nat list" where
  "bounds_post n i hi = map unat (drop i (take (cnt n) (nkeys n))) @ [hi]"

lemma bounds_split: "i \<le> cnt n \<Longrightarrow> bounds lo n hi = bounds_pre lo n i @ bounds_post n i hi"
  unfolding bounds_def bounds_pre_def bounds_post_def
  by (simp add: min_def flip: map_append) (metis append_take_drop_id take_take min.absorb1)

lemma inner_keys_sorted: "inner_rep P n lo hi kvs \<Longrightarrow> sorted_wrt (<) (take (cnt n) (nkeys n))"
  by (auto simp: inner_rep_def bounds_def sorted_wrt_append sorted_wrt_map word_less_nat_alt
    elim: sorted_wrt_mono_rel[rotated])

lemma child_bounds:
  assumes "node_shape n" "cnt n \<le> 248" "sorted_wrt (<) (take (cnt n) (nkeys n))"
    "lo \<le> unat key" "unat key < hi"
  shows "child_index n key \<le> cnt n"
    "last (bounds_pre lo n (child_index n key)) \<le> unat key"
    "unat key < hd (bounds_post n (child_index n key) hi)"
proof -
  have len: "cnt n \<le> length (nkeys n)" using assms(1,2) by (simp add: node_shape_def)
  let ?i = "child_index n key"
  note spec = child_index_spec[OF assms(3) len]
  show i: "?i \<le> cnt n" using spec assms(2) by simp
  show "last (bounds_pre lo n ?i) \<le> unat key"
    using assms(2,4) len i spec(2)[of "?i - 1" key]
    by (cases "?i = 0") (auto simp: bounds_pre_def last_map last_conv_nth word_le_nat_alt)
  show "unat key < hd (bounds_post n ?i hi)"
    using assms(2,5) len i spec(3)[of key ?i]
    by (cases "?i = cnt n") (auto simp: bounds_post_def hd_append hd_map hd_drop_conv_nth word_less_nat_alt)
qed

lemma take_list_update_Suc:
  "i \<le> c \<Longrightarrow> c < length xs \<Longrightarrow> take (Suc c) (xs[i := x]) = take i xs @ x # drop (Suc i) (take (Suc c) xs)"
  by (subst take_update_swap) (simp add: upd_conv_take_nth_drop min_def)

definition internal_put :: "yafs_node \<Rightarrow> nat \<Rightarrow> ins_out \<Rightarrow> yafs_node" where
  "internal_put n ci co =
     (let n1 = n\<lparr>slots := (slots n)[ci := io_lba co]\<rparr>
      in if io_split_lba co \<noteq> 0
         then (internal_insert_at n1 (cnt n1) ci (io_split_key co) (io_split_lba co))
                \<lparr>entry_count := entry_count n1 + 1\<rparr>
         else n1)"

lemma internal_put_arrays:
  assumes "node_shape n" "cnt n \<le> 248" "i \<le> cnt n" "n1 = internal_put n i co"
  shows "node_shape n1" "is_leaf n1 = is_leaf n"
    "cnt n1 = (if io_split_lba co = 0 then cnt n else Suc (cnt n))"
    "bounds lo n1 hi = bounds_pre lo n i @
       (if io_split_lba co = 0 then [] else [unat (io_split_key co)]) @ bounds_post n i hi"
    "take (Suc (cnt n1)) (slots n1) = take i (slots n) @ io_lba co #
       (if io_split_lba co = 0 then [] else [io_split_lba co]) @ drop (Suc i) (take (Suc (cnt n)) (slots n))"
proof -
  have len: "length (nkeys n) = 249" "length (slots n) = 251" using assms(1) by (auto simp: node_shape_def)
  have cnt1: "unat (entry_count n + 1) = Suc (cnt n)"
    using assms(2) by (subst unat_plus_one) simp_all
  show "node_shape n1" "is_leaf n1 = is_leaf n"
    using assms(1) by (simp_all add: assms(4) internal_put_def internal_insert_at_def node_shape_def Let_def)
  show c1: "cnt n1 = (if io_split_lba co = 0 then cnt n else Suc (cnt n))"
    using cnt1 by (simp add: assms(4) internal_put_def internal_insert_at_def Let_def)
  show "bounds lo n1 hi = bounds_pre lo n i @
       (if io_split_lba co = 0 then [] else [unat (io_split_key co)]) @ bounds_post n i hi"
  proof (cases "io_split_lba co = 0")
    case True
    then have "bounds lo n1 hi = bounds lo n hi" by (simp add: bounds_def assms(4) internal_put_def)
    then show ?thesis using True bounds_split[OF assms(3)] by simp
  next
    case False
    have "take (Suc (cnt n)) ((shift_up (cnt n) i (nkeys n))[i := io_split_key co]) =
        take i (nkeys n) @ io_split_key co # drop i (take (cnt n) (nkeys n))"
      using assms(2,3) len by (intro take_Suc_insert) auto
    then show ?thesis using False cnt1
      by (simp add: bounds_def bounds_pre_def bounds_post_def assms(4) internal_put_def
        internal_insert_at_def Let_def)
  qed
  show "take (Suc (cnt n1)) (slots n1) = take i (slots n) @ io_lba co #
       (if io_split_lba co = 0 then [] else [io_split_lba co]) @ drop (Suc i) (take (Suc (cnt n)) (slots n))"
  proof (cases "io_split_lba co = 0")
    case True
    then show ?thesis using assms(2,3) len take_list_update_Suc[of i "cnt n" "slots n"]
      by (simp add: assms(4) internal_put_def)
  next
    case False
    let ?s = "(slots n)[i := io_lba co]"
    have "take (Suc (Suc (cnt n))) ((shift_up (Suc (cnt n)) (Suc i) ?s)[Suc i := io_split_lba co]) =
        take (Suc i) ?s @ io_split_lba co # drop (Suc i) (take (Suc (cnt n)) ?s)"
      using assms(2,3) len by (intro take_Suc_insert) auto
    also have "take (Suc i) ?s = take i (slots n) @ [io_lba co]"
      using assms(2,3) len by (simp add: take_Suc_conv_app_nth)
    also have "drop (Suc i) (take (Suc (cnt n)) ?s) = drop (Suc i) (take (Suc (cnt n)) (slots n))"
      by (simp add: take_update_swap)
    finally show ?thesis using False cnt1
      by (simp add: assms(4) internal_put_def internal_insert_at_def Let_def del: shift_up.simps)
  qed
qed

lemma sorted_wrt_less_insert:
  assumes "sorted_wrt (<) (xs @ ys)" "xs \<noteq> []" "ys \<noteq> []" "last xs < x" "x < hd (ys :: nat list)"
  shows "sorted_wrt (<) (xs @ x # ys)"
proof -
  have "y \<le> last xs" if "y \<in> set xs" for y
    using assms(1,2) that by (induction xs) (auto simp: sorted_wrt_append less_imp_le)
  moreover have "hd ys \<le> y" if "y \<in> set ys" for y
    using assms(1,3) that by (cases ys) (auto simp: sorted_wrt_append less_imp_le)
  ultimately show ?thesis using assms by (fastforce simp: sorted_wrt_append)
qed

lemma inner_decomp:
  assumes "node_shape n" "cnt n \<le> 248" "inner_rep (tree_at D h d) n lo hi kvs"
    "lo \<le> unat key" "unat key < hi" "i = child_index n key"
  obtains a b A cs C where "a \<le> unat key" "unat key < b" "tree_at D h d a b (slots n ! i) cs" "kvs = A @ cs @ C"
    "\<forall>p \<in> set A. fst p < key" "\<forall>p \<in> set C. key < fst p"
    "\<And>co d' X. dev_ext d d' \<Longrightarrow> out_tree D h a b d' X co \<Longrightarrow>
        inner_rep (tree_at D h d') (internal_put n i co) lo hi (A @ X @ C)"
proof -
  obtain kvss where F: "forest (tree_at D h d) (bounds lo n hi) (take (Suc (cnt n)) (slots n)) kvss"
    and kvs: "kvs = concat kvss" and srt: "sorted_wrt (<) (bounds lo n hi)" and nl: "\<not> is_leaf n"
    using assms(3) by (auto simp: inner_rep_def)
  define pre post where "pre = bounds_pre lo n i" and "post = bounds_post n i hi"
  note cb = child_bounds[OF assms(1,2) inner_keys_sorted[OF assms(3)] assms(4,5), folded assms(6)]
  have B: "bounds lo n hi = pre @ post" using bounds_split[OF cb(1)] by (simp add: pre_def post_def)
  let ?ls = "take (Suc (cnt n)) (slots n)"
  have len: "length (nkeys n) = 249" "length (slots n) = 251" using assms(1) by (auto simp: node_shape_def)
  have i: "i < length ?ls" "length pre = Suc i" "post \<noteq> []"
    using cb(1) len assms(2) by (auto simp: pre_def post_def bounds_pre_def bounds_post_def)
  note F3 = forest_split_at[OF F[unfolded B] i(2,3,1)]
  define A C where "A = concat (take i kvss)" and "C = concat (drop (Suc i) kvss)"
  have ne: "pre \<noteq> []" using i(2) by auto
  have srt': "sorted_wrt (<) pre" "sorted_wrt (<) post" "last pre < hd post"
    using srt last_in_set[OF ne] list.set_sel(1)[OF i(3)] by (auto simp: B sorted_wrt_append)
  have "kvss = take i kvss @ kvss ! i # drop (Suc i) kvss"
    using forest_lengths[OF F] i(1) by (metis id_take_nth_drop)
  then have "kvs = A @ kvss ! i @ C"
    unfolding kvs A_def C_def by (metis concat.simps(2) concat_append)
  moreover have "kv_within (hd pre) (last pre) A" "kv_within (hd post) (last post) C"
    unfolding A_def C_def using F3 srt' by (auto intro: forest_within tree_at_within)
  then have "\<forall>p \<in> set A. fst p < key" "\<forall>p \<in> set C. key < fst p"
    using cb(2,3) by (fastforce simp: kv_within_def word_less_nat_alt pre_def post_def)+
  moreover have "inner_rep (tree_at D h d') (internal_put n i co) lo hi (A @ X @ C)"
    if e: "dev_ext d d'" and o: "out_tree D h (last pre) (hd post) d' X co" for co d' X
  proof -
    define n1 where "n1 = internal_put n i co"
    note arr = internal_put_arrays(1-3,5)[OF assms(1,2) cb(1) n1_def]
      internal_put_arrays(4)[OF assms(1,2) cb(1) n1_def, of lo hi, folded pre_def post_def]
    have F1: "forest (tree_at D h d') pre (take i (slots n)) (take i kvss)"
      and F2: "forest (tree_at D h d') post (drop (Suc i) ?ls) (drop (Suc i) kvss)"
      using F3(1,3) cb(1) tree_at_ext[OF e] by (auto elim!: forest_mono simp: min_def)
    show ?thesis
    proof (cases "io_split_lba co = 0")
      case True
      then have "tree_at D h d' (last pre) (hd post) (io_lba co) X" using o by (simp add: out_tree_def)
      from forest_join[OF F1 this F2] show ?thesis
        using True arr srt nl B
        by (auto simp: inner_rep_def A_def C_def simp flip: n1_def
          intro!: exI[of _ "take i kvss @ X # drop (Suc i) kvss"])
    next
      case False
      then obtain L R where X: "X = L @ R" and sk: "last pre < unat (io_split_key co)" "unat (io_split_key co) < hd post"
        and tl: "tree_at D h d' (last pre) (unat (io_split_key co)) (io_lba co) L"
        and tr: "tree_at D h d' (unat (io_split_key co)) (hd post) (io_split_lba co) R"
        using o by (auto simp: out_tree_def)
      have "forest (tree_at D h d') (unat (io_split_key co) # post) (io_split_lba co # drop (Suc i) ?ls)
          (R # drop (Suc i) kvss)"
        using tr F2 i(3) by simp
      from forest_join[OF F1 _ this, of "io_lba co" L] tl
      have FF: "forest (tree_at D h d') (pre @ unat (io_split_key co) # post)
          (take i (slots n) @ io_lba co # io_split_lba co # drop (Suc i) ?ls)
          (take i kvss @ L # R # drop (Suc i) kvss)" by simp
      have "sorted_wrt (<) (pre @ unat (io_split_key co) # post)"
        using srt sk i by (intro sorted_wrt_less_insert) (auto simp: B)
      then show ?thesis
        using False arr FF nl
        by (auto simp: inner_rep_def A_def C_def X simp flip: n1_def
          intro!: exI[of _ "take i kvss @ L # R # drop (Suc i) kvss"])
    qed
  qed
  ultimately show ?thesis using F3(2) cb(2,3) i(1) by (intro that[of "last pre" "hd post" "kvss ! i" A C]) (auto simp: pre_def post_def)
qed

text \<open>Insertion into a whole subtree.\<close>

lemma btree_insert_internal_put:
  "btree_insert_internal n ci co d =
     (let n2 = internal_put n ci co in
      if cnt n2 > 248
      then write_split (n2\<lparr>entry_count := 124\<rparr>) (internal_right n2) (nkeys n2 ! 124) (io_inserted co) d
      else write_whole n2 (io_inserted co) d)"
  by (simp add: btree_insert_internal_def internal_put_def YAFS_BTREE_MAX_KEYS_def Let_def)

lemma ins_ok_step:
  assumes "ins_ok D h a b d X ins (co, d1)" "ins_ok D (Suc h) lo hi d1 Y (io_inserted co) r"
    "room d1 \<le> room (snd r) + 2"
  shows "ins_ok D (Suc h) lo hi d Y ins r"
  using assms by (auto simp: ins_ok_def dest: dev_ext_trans)

lemma write_room:
  assumes "dev_ok D d" "node_shape n" "mkrn_yafs_node_write n d = (lba, d')"
  shows "room d \<le> Suc (room d')"
  using assms by (cases rule: node_write_cases) auto

lemma write_whole_room:
  "dev_ok D d \<Longrightarrow> node_shape n \<Longrightarrow> room d \<le> room (snd (write_whole n ins d)) + 2"
  using write_room[of _ d n] by (fastforce simp: write_whole_def split: prod.splits)

lemma write_split_room:
  assumes "dev_ok D d" "node_shape l" "node_shape r"
  shows "room d \<le> room (snd (write_split l r sk ins d)) + 2"
proof -
  obtain rl d1 where w1: "mkrn_yafs_node_write r d = (rl, d1)" by fastforce
  obtain ll d2 where w2: "mkrn_yafs_node_write l d1 = (ll, d2)" by fastforce
  have "room d \<le> Suc (room d1)" "room d1 \<le> Suc (room d2)"
    using write_room[OF assms(1,3) w1] write_room[OF node_write_ext(1)[OF assms(1,3) w1] assms(2) w2] by auto
  then show ?thesis using w1 w2 by (simp add: write_split_def)
qed

lemma btree_insert_internal_ok:
  assumes "dev_ok D d" "node_shape n" "cnt n \<le> 248" "i \<le> cnt n"
    "inner_rep (tree_at D h d) (internal_put n i co) lo hi kvs" "2 \<le> room d"
  shows "ins_ok D (Suc h) lo hi d kvs (io_inserted co) (btree_insert_internal n i co d)"
    and "room d \<le> room (snd (btree_insert_internal n i co d)) + 2"
proof -
  define n2 where "n2 = internal_put n i co"
  note arr = internal_put_arrays[OF assms(2-4) n2_def]
  note rep = assms(5)[folded n2_def]
  have "ins_ok D (Suc h) lo hi d kvs (io_inserted co) (btree_insert_internal n i co d) \<and>
      room d \<le> room (snd (btree_insert_internal n i co d)) + 2"
  proof (cases "cnt n2 > 248")
    case True
    then have c: "cnt n2 = 249" using arr(3) assms(3) by (simp split: if_splits)
    obtain L R where sp: "node_shape (n2\<lparr>entry_count := 124\<rparr>)" "node_shape (internal_right n2)"
      "cnt (n2\<lparr>entry_count := 124\<rparr>) = 124" "cnt (internal_right n2) = 124"
      "lo < unat (nkeys n2 ! 124)" "unat (nkeys n2 ! 124) < hi" "kvs = L @ R"
      "inner_rep (tree_at D h d) (n2\<lparr>entry_count := 124\<rparr>) lo (unat (nkeys n2 ! 124)) L"
      "inner_rep (tree_at D h d) (internal_right n2) (unat (nkeys n2 ! 124)) hi R"
      by (rule inner_split_rep[OF arr(1) c rep])
    have "ins_ok D (Suc h) lo hi d (L @ R) (io_inserted co)
      (write_split (n2\<lparr>entry_count := 124\<rparr>) (internal_right n2) (nkeys n2 ! 124) (io_inserted co) d)"
      by (rule write_split_ok) (use sp assms in auto)
    then show ?thesis using c sp(1,2,7) write_split_room[OF assms(1) sp(1,2)]
      by (simp add: btree_insert_internal_put n2_def Let_def)
  next
    case False
    then have "ins_ok D (Suc h) lo hi d kvs (io_inserted co) (write_whole n2 (io_inserted co) d)"
      by (intro write_whole_ok) (use arr rep assms in auto)
    then show ?thesis using False write_whole_room[OF assms(1) arr(1)]
      by (simp add: btree_insert_internal_put n2_def Let_def)
  qed
  then show "ins_ok D (Suc h) lo hi d kvs (io_inserted co) (btree_insert_internal n i co d)"
    "room d \<le> room (snd (btree_insert_internal n i co d)) + 2" by auto
qed

theorem btree_insert_node_ok:
  assumes "dev_ok D d" "tree_at D h d lo hi lba kvs" "lo \<le> unat key" "unat key < hi" "h < fuel"
    "2 * Suc h \<le> room d"
  shows "\<exists>r. btree_insert_node fuel lba key val d = Some r \<and>
     ins_ok D h lo hi d (kv_upd key val kvs) (key \<notin> fst ` set kvs) r"
  using assms
proof (induction h arbitrary: lo hi lba kvs fuel)
  case 0
  then obtain f n where "fuel = Suc f" "mkrn_yafs_node_read lba d = Some n" "node_shape n" "cnt n \<le> 248"
    "leaf_rep n lo hi kvs" by (cases fuel) auto
  with 0 btree_insert_leaf_ok[of D d n lo hi kvs key val] show ?case
    by (auto simp: leaf_rep_def)
next
  case (Suc h)
  then obtain f n where fuel: "fuel = Suc f" and rd: "mkrn_yafs_node_read lba d = Some n"
    and n: "node_shape n" "cnt n \<le> 248" and rep: "inner_rep (tree_at D h d) n lo hi kvs"
    by (cases fuel) auto
  define i where "i = child_index n key"
  have i: "i \<le> cnt n" using child_bounds(1)[OF n inner_keys_sorted[OF rep]] Suc.prems by (simp add: i_def)
  obtain a b A cs C where ab: "a \<le> unat key" "unat key < b" and t: "tree_at D h d a b (slots n ! i) cs"
    and kvs: "kvs = A @ cs @ C" and AC: "\<forall>p \<in> set A. fst p < key" "\<forall>p \<in> set C. key < fst p"
    and put: "\<And>co d' X. dev_ext d d' \<Longrightarrow> out_tree D h a b d' X co \<Longrightarrow>
        inner_rep (tree_at D h d') (internal_put n i co) lo hi (A @ X @ C)"
    using inner_decomp[OF n rep Suc.prems(3,4) i_def] by metis
  have mem: "(key \<in> fst ` set kvs) = (key \<in> fst ` set cs)"
    using AC by (auto simp: kvs)
  obtain co d1 where rc: "btree_insert_node f (slots n ! i) key val d = Some (co, d1)"
    and ok: "ins_ok D h a b d (kv_upd key val cs) (key \<notin> fst ` set cs) (co, d1)"
    using Suc.IH[OF Suc.prems(1) t ab] Suc.prems(5,6) fuel by (metis Suc_less_SucD add_leD1 mult_Suc_right add.commute surj_pair)
  from ok have o: "dev_ok D d1" "dev_ext d d1" "out_tree D h a b d1 (kv_upd key val cs) co" "io_lba co \<noteq> 0"
    "room d \<le> room d1 + 2 * Suc h" by (auto simp: ins_ok_def)
  have rep2: "inner_rep (tree_at D h d1) (internal_put n i co) lo hi (kv_upd key val kvs)"
    using put[OF o(2,3)] kv_upd_middle[OF AC] by (simp add: kvs)
  have "2 \<le> room d1" using o(5) Suc.prems(6) by simp
  note step = btree_insert_internal_ok[OF o(1) n i rep2 this]
  from ins_ok_step[OF ok step] show ?case
    using rc rd o(4) rep mem by (simp add: fuel i_def inner_rep_def)
qed

text \<open>Copy on write: whatever the outcome, blocks in use before the call are
  unchanged.\<close>

lemma shape_put:
  "node_shape n \<Longrightarrow> node_shape (leaf_put n key val)"
  "node_shape n \<Longrightarrow> node_shape (internal_put n i co)"
  "node_shape (leaf_right n)"
  "node_shape (internal_right n)"
  by (simp_all add: leaf_put_def leaf_insert_at_def leaf_right_def internal_put_def internal_insert_at_def
    internal_right_def node_shape_def node_init_def Let_def split: prod.splits)

lemma btree_insert_leaf_ext:
  assumes "dev_ok D d" "node_shape n" "btree_insert_leaf n key val d = (out, d')"
  shows "dev_ok D d' \<and> dev_ext d d'"
proof (cases "cnt (leaf_put n key val) > 248")
  case True
  then show ?thesis using assms
    by (auto simp: btree_insert_leaf_put Let_def shape_put dest!: write_split_ext[OF assms(1), rotated 2])
next
  case False
  then show ?thesis using assms write_whole_ext[OF assms(1) shape_put(1)[OF assms(2)]]
    by (simp add: btree_insert_leaf_put Let_def)
qed

lemma btree_insert_internal_ext:
  assumes "dev_ok D d" "node_shape n" "btree_insert_internal n i co d = (out, d')"
  shows "dev_ok D d' \<and> dev_ext d d'"
proof (cases "cnt (internal_put n i co) > 248")
  case True
  then show ?thesis using assms
    by (auto simp: btree_insert_internal_put Let_def shape_put dest!: write_split_ext[OF assms(1), rotated 2])
next
  case False
  then show ?thesis using assms write_whole_ext[OF assms(1) shape_put(2)[OF assms(2)]]
    by (simp add: btree_insert_internal_put Let_def)
qed

lemma btree_insert_node_ext:
  "btree_insert_node fuel lba key val d = Some (out, d') \<Longrightarrow> dev_ok D d \<Longrightarrow> dev_ok D d' \<and> dev_ext d d'"
proof (induction fuel arbitrary: lba out d')
  case (Suc fuel)
  show ?case
  proof (cases "mkrn_yafs_node_read lba d")
    case None
    then show ?thesis using Suc.prems by auto
  next
    case (Some n)
    have sh: "node_shape n" using Suc.prems(2) Some by (rule node_read_shape)
    show ?thesis
    proof (cases "is_leaf n")
      case True
      then show ?thesis using Some Suc.prems btree_insert_leaf_ext[OF Suc.prems(2) sh] by simp
    next
      case False
      define i where "i = child_index n key"
      obtain co d1 where rc: "btree_insert_node fuel (slots n ! i) key val d = Some (co, d1)"
        using Suc.prems Some False by (auto simp: i_def Let_def split: option.splits)
      note e1 = Suc.IH[OF rc Suc.prems(2)]
      have "dev_ok D d'' \<and> dev_ext d d''" if "btree_insert_internal n i co d1 = (out, d'')" for d''
        using btree_insert_internal_ext[OF _ sh that] e1 dev_ext_trans[of d d1 d''] by blast
      then show ?thesis using Suc.prems(1) Some False rc e1 by (auto simp: Let_def simp flip: i_def split: if_splits)
    qed
  qed
qed simp

section \<open>The exported operations\<close>

definition btree_repr :: "u64 set \<Rightarrow> nat \<Rightarrow> ydev \<Rightarrow> u64 \<Rightarrow> (u64 \<times> u64) list \<Rightarrow> bool" where
  "btree_repr D h d root kvs \<longleftrightarrow> dev_ok D d \<and>
     (if root = 0 then kvs = [] else tree_at D h d 0 18446744073709551616 root kvs)"

lemma unat_u64_bound: "unat (k :: u64) < 18446744073709551616"
  using unsigned_less[of k, where ?'a = nat] by simp

lemma btree_repr_sorted: "btree_repr D h d root kvs \<Longrightarrow> kv_sorted kvs"
  using tree_at_within by (fastforce simp: btree_repr_def kv_within_def split: if_splits)

lemma btree_repr_ext: "btree_repr D h d root kvs \<Longrightarrow> dev_ext d d' \<Longrightarrow> dev_ok D d' \<Longrightarrow> btree_repr D h d' root kvs"
  by (auto simp: btree_repr_def intro: tree_at_ext split: if_splits)

subsection \<open>Height\<close>

text \<open>A root splits only when it is full, and the new root has one key: so
  \<open>248 * height + keys of the root\<close> grows by at most one with every insertion.\<close>

definition root_pot :: "nat \<Rightarrow> ydev \<Rightarrow> u64 \<Rightarrow> nat" where
  "root_pot h d root = (if root = 0 then 0
     else 248 * h + (case mkrn_yafs_node_read root d of None \<Rightarrow> 0 | Some n \<Rightarrow> cnt n))"

lemma write_read:
  assumes "dev_ok D d" "node_shape n" "mkrn_yafs_node_write n d = (lba, d')" "lba \<noteq> 0"
  shows "mkrn_yafs_node_read lba d' = Some (n\<lparr>checksum := 0\<rparr>)"
  using assms(1-3) by (cases rule: node_write_cases) (use assms(4) in auto)

lemma leaf_rep_cnt: "leaf_rep n lo hi kvs \<Longrightarrow> node_shape n \<Longrightarrow> cnt n \<le> 248 \<Longrightarrow> cnt n = length kvs"
  by (simp add: leaf_rep_def node_shape_def)

lemma write_whole_read:
  assumes "dev_ok D d" "node_shape n" "write_whole n ins d = (out, d')" "io_lba out \<noteq> 0"
  shows "io_split_lba out = 0" "mkrn_yafs_node_read (io_lba out) d' = Some (n\<lparr>checksum := 0\<rparr>)"
proof -
  obtain nl d1 where w: "mkrn_yafs_node_write n d = (nl, d1)" by fastforce
  have "nl \<noteq> 0" "d' = d1" "io_lba out = nl" "io_split_lba out = 0"
    using assms(3,4) w by (auto simp: write_whole_def ins_fail_def split: if_splits)
  with write_read[OF assms(1,2) w] show "io_split_lba out = 0" "mkrn_yafs_node_read (io_lba out) d' = Some (n\<lparr>checksum := 0\<rparr>)" by auto
qed

lemma write_split_lba: "write_split l r sk ins d = (out, d') \<Longrightarrow> io_lba out \<noteq> 0 \<Longrightarrow> io_split_lba out \<noteq> 0"
  by (auto simp: write_split_def ins_fail_def split: prod.splits if_splits)

lemma cnt_put:
  "cnt (leaf_put n key val) \<le> Suc (cnt n)"
  "cnt (internal_put n i co) \<le> Suc (cnt n)"
  using unat_plus_if'[of "entry_count n" 1]
  by (auto simp: leaf_put_def leaf_insert_at_def internal_put_def internal_insert_at_def Let_def split: prod.splits if_splits)

text \<open>The two ends of an insertion into one node, whole or split.\<close>

lemma insert_node_cnt:
  assumes "dev_ok D d" "mkrn_yafs_node_read lba d = Some n"
    "btree_insert_node fuel lba key val d = Some (out, d')" "io_lba out \<noteq> 0"
  shows "if io_split_lba out = 0
    then (\<exists>n'. mkrn_yafs_node_read (io_lba out) d' = Some n' \<and> cnt n' \<le> Suc (cnt n)) else 248 \<le> cnt n"
proof -
  obtain f where f: "fuel = Suc f" using assms(3) by (cases fuel) auto
  have sh: "node_shape n" using assms(1,2) by (rule node_read_shape)
  consider (leaf) "btree_insert_leaf n key val d = (out, d')"
    | (inner) co d1 where "dev_ok D d1" "btree_insert_internal n (child_index n key) co d1 = (out, d')"
    using assms btree_insert_node_ext[of f "slots n ! child_index n key" key val d _ _ D]
    by (auto simp: f ins_fail_def Let_def split: if_splits option.splits)
  then show ?thesis
  proof cases
    case leaf
    then show ?thesis
      using write_whole_read[OF assms(1) shape_put(1)[OF sh], of key val _ out d'] assms(4) cnt_put(1)[of n key val]
      by (cases "cnt (leaf_put n key val) > 248") (auto simp: btree_insert_leaf_put Let_def dest: write_split_lba)
  next
    case inner
    then show ?thesis
      using write_whole_read[OF inner(1) shape_put(2)[OF sh], of "child_index n key" co _ out d'] assms(4)
        cnt_put(2)[of n "child_index n key" co]
      by (cases "cnt (internal_put n (child_index n key) co) > 248")
        (auto simp: btree_insert_internal_put Let_def dest: write_split_lba)
  qed
qed

subsection \<open>Insertion\<close>

lemma insert_empty_ok:
  assumes "dev_ok D d" "0 < room d" "insert_empty key val d = (res, d')"
  shows "ir_status res = 0" "ir_inserted res = Some True" "dev_ext d d'" "ir_root res \<noteq> 0"
    "btree_repr D 0 d' (ir_root res) [(key, val)]" "room d \<le> Suc (room d')"
proof -
  define r where "r = (node_init YAFS_NODE_LEAF 0)\<lparr>nkeys := (nkeys (node_init YAFS_NODE_LEAF 0))[0 := key],
      slots := (slots (node_init YAFS_NODE_LEAF 0))[0 := val], entry_count := 1\<rparr>"
  obtain lba d1 where w: "mkrn_yafs_node_write r d = (lba, d1)" by fastforce
  have sh: "node_shape r" "cnt r \<le> 248" by (simp_all add: r_def node_shape_def node_init_def)
  have "replicate 249 (0::u64) = 0 # replicate 248 0" "replicate 251 (0::u64) = 0 # replicate 250 0"
    by (simp_all flip: replicate_Suc)
  then have "leaf_rep r 0 18446744073709551616 [(key, val)]"
    using unat_u64_bound[of key] by (simp add: leaf_rep_def r_def node_init_def YAFS_NODE_LEAF_def)
  then have "node_tree D 0 d r 0 18446744073709551616 [(key, val)]" by simp
  note t = write_tree[OF assms(1) sh this assms(2) w]
  have "res = \<lparr>ir_status = 0, ir_root = lba, ir_inserted = Some True\<rparr>" "d' = d1"
    using assms(3) w t(1) by (auto simp: insert_empty_def Let_def simp flip: r_def)
  with t show "ir_status res = 0" "ir_inserted res = Some True" "dev_ext d d'" "ir_root res \<noteq> 0"
    "btree_repr D 0 d' (ir_root res) [(key, val)]" "room d \<le> Suc (room d')" by (simp_all add: btree_repr_def)
qed

lemma grow_root_ok:
  assumes "dev_ok D d" "0 < room d" "tree_at D h d 0 (unat (io_split_key out)) (io_lba out) L"
    "tree_at D h d (unat (io_split_key out)) 18446744073709551616 (io_split_lba out) R"
    "0 < unat (io_split_key out)" "grow_root root out d = (res, d')"
  shows "ir_status res = 0" "ir_inserted res = Some (io_inserted out)" "dev_ext d d'" "ir_root res \<noteq> 0"
    "btree_repr D (Suc h) d' (ir_root res) (L @ R)" "room d \<le> Suc (room d')"
    "root_pot (Suc h) d' (ir_root res) = Suc (248 * Suc h)"
proof -
  define r where "r = (node_init 0 1)\<lparr>slots := ((slots (node_init 0 1))[0 := io_lba out])[1 := io_split_lba out],
      nkeys := (nkeys (node_init 0 1))[0 := io_split_key out], entry_count := 1\<rparr>"
  obtain lba d1 where w: "mkrn_yafs_node_write r d = (lba, d1)" by fastforce
  have sh: "node_shape r" "cnt r \<le> 248" by (simp_all add: r_def node_shape_def node_init_def)
  have "replicate 249 (0::u64) = 0 # replicate 248 0" "replicate 251 (0::u64) = 0 # 0 # replicate 249 0"
    by (simp_all flip: replicate_Suc)
  then have "take 2 (slots r) = [io_lba out, io_split_lba out]" "take 1 (nkeys r) = [io_split_key out]"
    "cnt r = 1" "nflags r = 0"
    by (simp_all add: r_def node_init_def)
  then have "inner_rep (tree_at D h d) r 0 18446744073709551616 (L @ R)"
    using assms(3-5) unat_u64_bound[of "io_split_key out"]
    by (auto simp: inner_rep_def bounds_def numeral_2_eq_2 intro!: exI[of _ "[L, R]"])
  then have "node_tree D (Suc h) d r 0 18446744073709551616 (L @ R)" by simp
  note t = write_tree[OF assms(1) sh this assms(2) w]
  have "res = \<lparr>ir_status = 0, ir_root = lba, ir_inserted = Some (io_inserted out)\<rparr>" "d' = d1"
    using assms(6) w t(1) unfolding grow_root_def Let_def r_def[symmetric] by auto
  moreover have "root_pot (Suc h) d1 lba = Suc (248 * Suc h)"
    using write_read[OF assms(1) sh(1) w] t(1) by (simp add: root_pot_def r_def)
  ultimately show "ir_status res = 0" "ir_inserted res = Some (io_inserted out)" "dev_ext d d'" "ir_root res \<noteq> 0"
    "btree_repr D (Suc h) d' (ir_root res) (L @ R)" "room d \<le> Suc (room d')"
    "root_pot (Suc h) d' (ir_root res) = Suc (248 * Suc h)" using t by (simp_all add: btree_repr_def)
qed

lemma btree_insert_repr:
  assumes "btree_repr D h d root kvs" "h < fuel" "2 * Suc h < room d"
  shows "\<exists>res d' h'. mkrn_yafs_btree_insert fuel root key val d = Some (res, d') \<and> ir_status res = 0 \<and>
    ir_inserted res = Some (key \<notin> fst ` set kvs) \<and> dev_ext d d' \<and> h' \<le> Suc h \<and> ir_root res \<noteq> 0 \<and>
    btree_repr D h' d' (ir_root res) (kv_upd key val kvs) \<and> room d \<le> room d' + Suc (2 * Suc h) \<and>
    root_pot h' d' (ir_root res) \<le> Suc (root_pot h d root)"
proof (cases "root = 0")
  case True
  obtain res d' where ie: "insert_empty key val d = (res, d')" by fastforce
  from insert_empty_ok[of D, OF _ _ this] assms True show ?thesis
    by (auto simp: mkrn_yafs_btree_insert_def btree_repr_def ie root_pot_def leaf_rep_cnt intro!: exI[of _ 0])
next
  case False
  then have t: "tree_at D h d 0 18446744073709551616 root kvs" and d: "dev_ok D d"
    using assms(1) by (auto simp: btree_repr_def)
  obtain out d1 where rc: "btree_insert_node fuel root key val d = Some (out, d1)"
    and ok: "ins_ok D h 0 18446744073709551616 d (kv_upd key val kvs) (key \<notin> fst ` set kvs) (out, d1)"
    using btree_insert_node_ok[OF d t _ unat_u64_bound[of key] assms(2)] assms(3) by (metis le0 less_imp_le surj_pair)
  from ok have o: "dev_ok D d1" "dev_ext d d1" "io_lba out \<noteq> 0" "room d \<le> room d1 + 2 * Suc h"
    "io_inserted out = (key \<notin> fst ` set kvs)" "out_tree D h 0 18446744073709551616 d1 (kv_upd key val kvs) out"
    by (auto simp: ins_ok_def)
  obtain n where n: "mkrn_yafs_node_read root d = Some n" using t by (auto simp: tree_at_node)
  note cn = insert_node_cnt[OF d n rc o(3)]
  show ?thesis
  proof (cases "io_split_lba out = 0")
    case True
    then have "root_pot h d1 (io_lba out) \<le> Suc (root_pot h d root)" using cn n o(3) False by (auto simp: root_pot_def)
    with True rc o False show ?thesis
      by (auto simp: mkrn_yafs_btree_insert_def btree_repr_def out_tree_def intro!: exI[of _ h])
  next
    case split: False
    then obtain L R where LR: "kv_upd key val kvs = L @ R" "0 < unat (io_split_key out)"
      "tree_at D h d1 0 (unat (io_split_key out)) (io_lba out) L"
      "tree_at D h d1 (unat (io_split_key out)) 18446744073709551616 (io_split_lba out) R"
      using o(6) by (auto simp: out_tree_def)
    obtain res d2 where g: "grow_root root out d1 = (res, d2)" by fastforce
    have "0 < room d1" using o(4) assms(3) by simp
    note gr = grow_root_ok[OF o(1) this LR(3,4,2) g]
    have "root_pot (Suc h) d2 (ir_root res) \<le> Suc (root_pot h d root)"
      using gr(7) cn split n False by (simp add: root_pot_def)
    then show ?thesis using rc o(3-5) gr LR(1) dev_ext_trans[OF o(2) gr(3)] split False
      by (auto simp: mkrn_yafs_btree_insert_def g intro!: exI[of _ "Suc h"])
  qed
qed

lemma btree_insert_ext:
  assumes "dev_ok D d" "mkrn_yafs_btree_insert fuel root key val d = Some (res, d')"
  shows "dev_ok D d' \<and> dev_ext d d' \<and> (ir_status res \<noteq> 0 \<longrightarrow> ir_root res = root)"
proof (cases "root = 0")
  case True
  have "node_shape ((node_init YAFS_NODE_LEAF 0)\<lparr>nkeys := (nkeys (node_init YAFS_NODE_LEAF 0))[0 := key],
      slots := (slots (node_init YAFS_NODE_LEAF 0))[0 := val], entry_count := 1\<rparr>)"
    by (simp add: node_shape_def node_init_def)
  from node_write_ext[OF assms(1) this] show ?thesis using assms(2) True
    by (auto simp: mkrn_yafs_btree_insert_def insert_empty_def Let_def split: prod.splits if_splits)
next
  case False
  then obtain out d1 where i: "btree_insert_node fuel root key val d = Some (out, d1)"
    using assms(2) by (auto simp: mkrn_yafs_btree_insert_def split: option.splits)
  note e = btree_insert_node_ext[OF i assms(1)]
  have "node_shape ((node_init 0 1)\<lparr>slots := ((slots (node_init 0 1))[0 := io_lba out])[1 := io_split_lba out],
      nkeys := (nkeys (node_init 0 1))[0 := io_split_key out], entry_count := 1\<rparr>)"
    by (simp add: node_shape_def node_init_def)
  note g = node_write_ext[OF _ this]
  have "dev_ok D d2 \<and> dev_ext d1 d2 \<and> (ir_status r \<noteq> 0 \<longrightarrow> ir_root r = root)" if "grow_root root out d1 = (r, d2)" for r d2
    using that e g unfolding grow_root_def Let_def by (auto split: prod.splits if_splits)
  then show ?thesis using assms(2) False i e dev_ext_trans[of d d1 d']
    by (auto simp: mkrn_yafs_btree_insert_def split: if_splits)
qed

end
