(* ===== verification/BtreeQuery.thy ===== *)
theory BtreeQuery
  imports BtreeInsert
begin

text \<open>
  Lookup, leaf search, deletion and range walk of the B+tree against the
  sorted association list that \<open>tree_at\<close> reads off the disk.
\<close>

section \<open>Lookup\<close>

lemma kv_map_of_middle:
  assumes "\<forall>p \<in> set A. fst p < (key :: 'a :: linorder)" "\<forall>p \<in> set C. key < fst p"
  shows "map_of (A @ cs @ C) key = map_of cs key"
proof -
  have "map_of A key = None" "map_of C key = None"
    using assms by (auto simp: map_of_eq_None_iff)
  then show ?thesis by (simp add: map_add_def split: option.splits)
qed

lemma leaf_search:
  assumes "node_shape n" "cnt n \<le> 248" "leaf_rep n lo hi kvs"
    "key_search (nkeys n) (entry_count n) key = (exact, pos)"
  shows "exact = (key \<in> fst ` set kvs)"
    "exact \<Longrightarrow> nat pos < cnt n \<and> nkeys n ! nat pos = key \<and> map_of kvs key = Some (slots n ! nat pos)"
proof -
  let ?K = "take (cnt n) (nkeys n)" and ?V = "take (cnt n) (slots n)"
  have len: "length (nkeys n) = 249" "length (slots n) = 251" using assms(1) by (auto simp: node_shape_def)
  have kvs: "kvs = zip ?K ?V" and srt: "sorted_wrt (<) ?K" using assms(3) by (auto simp: leaf_rep_def)
  note spec = key_search_spec[OF srt _ _ assms(4)]
  have K: "fst ` set kvs = set ?K" using len assms(2) by (simp add: kvs flip: set_map)
  have nin: "key \<notin> set ?K" if "\<not> exact"
    using spec that len assms(2) by (auto simp: in_set_conv_nth) (metis linorder_not_less order_less_irrefl)
  have ex: "nat pos < cnt n \<and> nkeys n ! nat pos = key" if "exact"
    using spec that len assms(2) by simp
  then have "key \<in> set ?K" if "exact" using that len assms(2) by (auto simp: in_set_conv_nth)
  with nin K show "exact = (key \<in> fst ` set kvs)" by auto
  show "nat pos < cnt n \<and> nkeys n ! nat pos = key \<and> map_of kvs key = Some (slots n ! nat pos)" if "exact"
  proof -
    have "distinct ?K" using srt strict_sorted_iff by blast
    moreover have "?K ! nat pos = key" "nat pos < length ?K" "length ?K = length ?V"
      using ex[OF that] len assms(2) by auto
    ultimately have "map_of (zip ?K ?V) key = Some (?V ! nat pos)"
      by (metis map_of_zip_nth)
    then show ?thesis using ex[OF that] by (simp add: kvs)
  qed
qed

text \<open>The height of a subtree is determined by its address, so a descent never
  meets an address twice.\<close>

lemma tree_at_height_unique:
  "tree_at D h d lo hi lba kvs \<Longrightarrow> tree_at D h' d lo' hi' lba kvs' \<Longrightarrow> h = h'"
proof (induction h arbitrary: h' lo hi lba kvs lo' hi' kvs')
  case 0
  then show ?case by (cases h') (auto simp: leaf_rep_def inner_rep_def)
next
  case (Suc h)
  then obtain g where h': "h' = Suc g" by (cases h') (auto simp: leaf_rep_def inner_rep_def)
  obtain n where n: "mkrn_yafs_node_read lba d = Some n" "node_shape n"
    "inner_rep (tree_at D h d) n lo hi kvs" "inner_rep (tree_at D g d) n lo' hi' kvs'"
    using Suc.prems h' by auto
  have "0 < length (take (Suc (cnt n)) (slots n))" using n(2) by (simp add: node_shape_def)
  then have "\<exists>a b c. tree_at D h d a b (take (Suc (cnt n)) (slots n) ! 0) c"
    "\<exists>a b c. tree_at D g d a b (take (Suc (cnt n)) (slots n) ! 0) c"
    using n(3,4) forest_nth by (fastforce simp: inner_rep_def)+
  then show ?case using Suc.IH h' by blast
qed

lemma btree_lookup_loop_ok:
  assumes "tree_at D h d lo hi lba kvs" "lo \<le> unat key" "unat key < hi" "length seen + h < 64"
    "\<forall>s \<in> set seen. \<exists>g a b c. h < g \<and> tree_at D g d a b s c"
  shows "btree_lookup_loop seen lba key d = map_of kvs key"
  using assms
proof (induction h arbitrary: seen lo hi lba kvs)
  case 0
  then have ns: "lba \<notin> set seen" using tree_at_height_unique by blast
  from 0 obtain n where n: "mkrn_yafs_node_read lba d = Some n" "node_shape n" "cnt n \<le> 248" "leaf_rep n lo hi kvs"
    by auto
  obtain ex p where ks: "key_search (nkeys n) (entry_count n) key = (ex, p)" by fastforce
  note ls = leaf_search[OF n(2-4) ks]
  have "\<not> ex \<Longrightarrow> map_of kvs key = None" using ls(1) by (simp add: map_of_eq_None_iff)
  with ls 0 ns n ks show ?case
    by (subst btree_lookup_loop.simps) (auto simp: leaf_rep_def)
next
  case (Suc h)
  from Suc.prems(1,5) have ns: "lba \<notin> set seen" by (metis less_irrefl tree_at_height_unique)
  from Suc obtain n where n: "mkrn_yafs_node_read lba d = Some n" "node_shape n" "cnt n \<le> 248"
    "inner_rep (tree_at D h d) n lo hi kvs" by auto
  define i where "i = child_index n key"
  obtain a b A cs C where ab: "a \<le> unat key" "unat key < b" and t: "tree_at D h d a b (slots n ! i) cs"
    and kvs: "kvs = A @ cs @ C" and AC: "\<forall>p \<in> set A. fst p < key" "\<forall>p \<in> set C. key < fst p"
    using inner_decomp[OF n(2-4) Suc.prems(2,3) i_def] by metis
  have "\<forall>s \<in> set (seen @ [lba]). \<exists>g a b c. h < g \<and> tree_at D g d a b s c"
    using Suc.prems(1,5) by (metis Suc_lessD lessI set_append Un_iff list.set(1) list.set(2) insert_iff empty_iff)
  then have "btree_lookup_loop (seen @ [lba]) (slots n ! i) key d = map_of cs key"
    using Suc.IH[OF t ab] Suc.prems(4) by simp
  then show ?case using ns n Suc.prems(4) kv_map_of_middle[OF AC, of cs]
    by (subst btree_lookup_loop.simps) (auto simp: inner_rep_def kvs i_def)
qed

lemma btree_lookup_repr:
  assumes "btree_repr D h d root kvs" "h < 64"
  shows "mkrn_yafs_btree_lookup root key d = map_of kvs key"
  using assms btree_lookup_loop_ok[of D h d 0 _ root kvs key "[]"] unat_u64_bound[of key]
  by (auto simp: btree_repr_def mkrn_yafs_btree_lookup_def split: if_splits)

text \<open>The leaf search returns, with the leaf whose range holds the key.\<close>

lemma find_leaf_loop_ok:
  assumes "tree_at D h d lo hi lba kvs" "lo \<le> unat key" "unat key < hi"
  shows "\<exists>leaf a b cs. find_leaf_loop lba key d = Some leaf \<and> tree_at D 0 d a b leaf cs \<and>
     a \<le> unat key \<and> unat key < b \<and> map_of cs key = map_of kvs key"
  using assms
proof (induction h arbitrary: lo hi lba kvs)
  case 0
  then have "find_leaf_loop lba key d = Some lba"
    by (subst find_leaf_loop.simps) (auto simp: leaf_rep_def)
  with 0 show ?case by blast
next
  case (Suc h)
  from Suc obtain n where n: "mkrn_yafs_node_read lba d = Some n" "node_shape n" "cnt n \<le> 248"
    "inner_rep (tree_at D h d) n lo hi kvs" by auto
  define i where "i = child_index n key"
  obtain a b A cs C where ab: "a \<le> unat key" "unat key < b" and t: "tree_at D h d a b (slots n ! i) cs"
    and kvs: "kvs = A @ cs @ C" and AC: "\<forall>p \<in> set A. fst p < key" "\<forall>p \<in> set C. key < fst p"
    using inner_decomp[OF n(2-4) Suc.prems(2,3) i_def] by metis
  from Suc.IH[OF t ab] n kv_map_of_middle[OF AC, of cs] show ?case
    by (subst find_leaf_loop.simps) (auto simp: inner_rep_def kvs i_def)
qed

section \<open>Deletion\<close>

lemma leaf_remove_rep:
  assumes "node_shape n" "cnt n \<le> 248" "leaf_rep n lo hi kvs" "p < cnt n" "nkeys n ! p = key"
  shows "node_shape (leaf_remove_at n p)" "cnt (leaf_remove_at n p) \<le> 248"
    "leaf_rep (leaf_remove_at n p) lo hi (kv_del key kvs)"
proof -
  let ?K = "take (cnt n) (nkeys n)" and ?V = "take (cnt n) (slots n)"
  have len: "length (nkeys n) = 249" "length (slots n) = 251" using assms(1) by (auto simp: node_shape_def)
  have kvs: "kvs = zip ?K ?V" and srt: "sorted_wrt (<) ?K" and lf: "is_leaf n"
    and rng: "\<forall>k \<in> set ?K. lo \<le> unat k \<and> unat k < hi" using assms(3) by (auto simp: leaf_rep_def)
  have c1: "cnt (leaf_remove_at n p) = cnt n - 1"
    using assms(4) by (simp add: leaf_remove_at_def unat_pred word_le_nat_alt)
  show "node_shape (leaf_remove_at n p)" using assms(1) by (simp add: leaf_remove_at_def node_shape_def)
  show "cnt (leaf_remove_at n p) \<le> 248" using c1 assms(2) by simp
  have td: "take (cnt n - 1) (shift_down p (cnt n - 1 - p) xs) = take p (take (cnt n) xs) @ drop (Suc p) (take (cnt n) xs)"
    if "cnt n < length xs" for xs :: "u64 list"
    using take_shift_down[of p "cnt n - 1 - p" xs] assms(4) that by (simp add: drop_take)
  have K': "take (cnt n - 1) (nkeys (leaf_remove_at n p)) = take p ?K @ drop (Suc p) ?K"
    and V': "take (cnt n - 1) (slots (leaf_remove_at n p)) = take p ?V @ drop (Suc p) ?V"
    using td len assms(2) by (simp_all add: leaf_remove_at_def)
  have lk: "p < length kvs" and kp: "fst (kvs ! p) = key" using assms(2,4,5) len by (simp_all add: kvs)
  have dec: "kvs = take p kvs @ kvs ! p # drop (Suc p) kvs" using lk by (rule id_take_nth_drop)
  have "sorted_wrt (<) (map fst (take p kvs @ kvs ! p # drop (Suc p) kvs))"
    using srt len assms(2) by (simp only: dec[symmetric]) (simp add: kvs)
  then have "key \<notin> fst ` set (take p kvs)" "key \<notin> fst ` set (drop (Suc p) kvs)"
    using kp by (fastforce simp: sorted_wrt_append)+
  note nin = this[THEN kv_del_notin, unfolded kv_del_def]
  have "kv_del key kvs = take p kvs @ drop (Suc p) kvs"
    using kp nin by (subst dec) (simp add: kv_del_def)
  also have "\<dots> = zip (take p ?K @ drop (Suc p) ?K) (take p ?V @ drop (Suc p) ?V)"
    using len assms(2,4) by (simp add: kvs take_zip drop_zip)
  finally have del: "kv_del key kvs = zip (take p ?K @ drop (Suc p) ?K) (take p ?V @ drop (Suc p) ?V)" .
  have "?K = take p ?K @ ?K ! p # drop (Suc p) ?K" using assms(2,4) len by (intro id_take_nth_drop) simp
  then have "sorted_wrt (<) (take p ?K @ ?K ! p # drop (Suc p) ?K)" using srt by simp
  then have "sorted_wrt (<) (take p ?K @ drop (Suc p) ?K)" by (simp add: sorted_wrt_append)
  moreover have "\<forall>k \<in> set (take p ?K @ drop (Suc p) ?K). lo \<le> unat k \<and> unat k < hi"
    using rng set_take_subset[of p ?K] set_drop_subset[of "Suc p" ?K] by (auto simp del: take_take)
  ultimately show "leaf_rep (leaf_remove_at n p) lo hi (kv_del key kvs)"
    unfolding leaf_rep_def c1 K' V' del using lf by (simp add: leaf_remove_at_def)
qed

lemma delete_rebuild_append:
  "delete_rebuild (p @ q) c d = (case delete_rebuild p c d of
     (None, d') \<Rightarrow> (None, d') | (Some c', d') \<Rightarrow> delete_rebuild q c' d')"
  by (induction p c d rule: delete_rebuild.induct) (auto split: option.splits prod.splits)

lemma delete_descend_ok:
  assumes "tree_at D h d lo hi lba kvs" "lo \<le> unat key" "unat key < hi" "h < depth"
  shows "\<exists>q leaf a b A cs C. delete_descend depth path lba key d = Some (path @ q, leaf) \<and>
     tree_at D 0 d a b leaf cs \<and> kvs = A @ cs @ C \<and>
     (\<forall>p \<in> set A. fst p < key) \<and> (\<forall>p \<in> set C. key < fst p) \<and>
     (\<forall>d' new X. dev_ext d d' \<longrightarrow> dev_ok D d' \<longrightarrow> tree_at D 0 d' a b new X \<longrightarrow> h \<le> room d' \<longrightarrow>
       (\<exists>r d''. delete_rebuild (rev q) new d' = (Some r, d'') \<and> dev_ok D d'' \<and> dev_ext d' d'' \<and>
          tree_at D h d'' lo hi r (A @ X @ C) \<and> room d' \<le> room d'' + h \<and>
          (0 < h \<longrightarrow> root_pot h d'' r = root_pot h d lba)))"
  using assms
proof (induction h arbitrary: lo hi lba kvs depth path)
  case 0
  then have "delete_descend depth path lba key d = Some (path @ [], lba)"
    by (cases depth) (auto simp: leaf_rep_def)
  moreover have "kvs = [] @ kvs @ []" by simp
  ultimately show ?case using 0
    by (intro exI[of _ "[]"] exI[of _ lba] exI[of _ lo] exI[of _ hi] exI[of _ kvs]) auto
next
  case (Suc h)
  from Suc obtain n where n: "mkrn_yafs_node_read lba d = Some n" "node_shape n" "cnt n \<le> 248"
    "inner_rep (tree_at D h d) n lo hi kvs" and lba: "lba < next_free_block d" "lba \<noteq> 0" by auto
  obtain dp where depth: "depth = Suc dp" "h < dp" using Suc.prems(4) by (cases depth) auto
  define i where "i = child_index n key"
  have i: "i \<le> cnt n"
    using child_bounds(1)[OF n(2,3) inner_keys_sorted[OF n(4)]] Suc.prems by (simp add: i_def)
  obtain a b A cs C where ab: "a \<le> unat key" "unat key < b" and t: "tree_at D h d a b (slots n ! i) cs"
    and kvs: "kvs = A @ cs @ C" and AC: "\<forall>p \<in> set A. fst p < key" "\<forall>p \<in> set C. key < fst p"
    and put: "\<And>co d' X. dev_ext d d' \<Longrightarrow> out_tree D h a b d' X co \<Longrightarrow>
        inner_rep (tree_at D h d') (internal_put n i co) lo hi (A @ X @ C)"
    using inner_decomp[OF n(2-4) Suc.prems(2,3) i_def] by metis
  obtain q leaf a' b' A' ls C' where desc: "delete_descend dp (path @ [(lba, i)]) (slots n ! i) key d =
      Some ((path @ [(lba, i)]) @ q, leaf)" and leaf: "tree_at D 0 d a' b' leaf ls" and cs: "cs = A' @ ls @ C'"
    and AC': "\<forall>p \<in> set A'. fst p < key" "\<forall>p \<in> set C'. key < fst p"
    and reb: "\<And>d' new X. dev_ext d d' \<Longrightarrow> dev_ok D d' \<Longrightarrow> tree_at D 0 d' a' b' new X \<Longrightarrow> h \<le> room d' \<Longrightarrow>
       \<exists>r d''. delete_rebuild (rev q) new d' = (Some r, d'') \<and> dev_ok D d'' \<and> dev_ext d' d'' \<and>
          tree_at D h d'' a b r (A' @ X @ C') \<and> room d' \<le> room d'' + h \<and>
          (0 < h \<longrightarrow> root_pot h d'' r = root_pot h d (slots n ! i))"
    using Suc.IH[OF t ab depth(2), of "path @ [(lba, i)]"] by metis
  have "\<exists>r d''. delete_rebuild (rev ((lba, i) # q)) new d' = (Some r, d'') \<and> dev_ok D d'' \<and> dev_ext d' d'' \<and>
      tree_at D (Suc h) d'' lo hi r ((A @ A') @ X @ (C' @ C)) \<and> room d' \<le> room d'' + Suc h \<and> root_pot (Suc h) d'' r = root_pot (Suc h) d lba"
    if h: "dev_ext d d'" "dev_ok D d'" "tree_at D 0 d' a' b' new X" "Suc h \<le> room d'" for d' new X
  proof -
    obtain r d1 where r: "delete_rebuild (rev q) new d' = (Some r, d1)" "dev_ok D d1" "dev_ext d' d1"
      "tree_at D h d1 a b r (A' @ X @ C')" "room d' \<le> room d1 + h"
      using reb[OF h(1-3)] h(4) by auto
    have e: "dev_ext d d1" using h(1) r(3) by (rule dev_ext_trans)
    define co where "co = \<lparr>io_lba = r, io_split_key = 0, io_split_lba = 0, io_inserted = False\<rparr>"
    have ip: "internal_put n i co = n\<lparr>slots := (slots n)[i := r]\<rparr>"
      by (simp add: internal_put_def co_def)
    have "out_tree D h a b d1 (A' @ X @ C') co" using r(4) by (simp add: out_tree_def co_def)
    from put[OF e this] have nt: "node_tree D (Suc h) d1 (n\<lparr>slots := (slots n)[i := r]\<rparr>) lo hi (A @ (A' @ X @ C') @ C)"
      by (simp add: ip)
    obtain nl d2 where w: "mkrn_yafs_node_write (n\<lparr>slots := (slots n)[i := r]\<rparr>) d1 = (nl, d2)" by fastforce
    have sh: "node_shape (n\<lparr>slots := (slots n)[i := r]\<rparr>)" "cnt (n\<lparr>slots := (slots n)[i := r]\<rparr>) \<le> 248"
      using n by (simp_all add: node_shape_def)
    have rm: "0 < room d1" using r(5) h(4) by simp
    note wt = write_tree[OF r(2) sh nt rm w]
    have "root_pot (Suc h) d2 nl = root_pot (Suc h) d lba"
      using write_read[OF r(2) sh(1) w wt(1)] wt(1) n(1) lba(2) by (simp add: root_pot_def)
    then show ?thesis using r w wt node_read_ext[OF e lba(1)] n(1) dev_ext_trans[OF r(3) wt(3)]
      by (simp add: delete_rebuild_append)
  qed
  then have reb': "\<forall>d' new X. dev_ext d d' \<longrightarrow> dev_ok D d' \<longrightarrow> tree_at D 0 d' a' b' new X \<longrightarrow> Suc h \<le> room d' \<longrightarrow>
       (\<exists>r d''. delete_rebuild (rev ((lba, i) # q)) new d' = (Some r, d'') \<and> dev_ok D d'' \<and> dev_ext d' d'' \<and>
          tree_at D (Suc h) d'' lo hi r ((A @ A') @ X @ (C' @ C)) \<and> room d' \<le> room d'' + Suc h \<and>
          (0 < Suc h \<longrightarrow> root_pot (Suc h) d'' r = root_pot (Suc h) d lba))" by blast
  have "delete_descend depth path lba key d = Some (path @ (lba, i) # q, leaf)"
    using desc n(1,4) by (simp add: depth i_def inner_rep_def Let_def)
  moreover have "kvs = (A @ A') @ ls @ (C' @ C)" by (simp add: kvs cs)
  moreover have "\<forall>p \<in> set (A @ A'). fst p < key" "\<forall>p \<in> set (C' @ C). key < fst p" using AC AC' by auto
  ultimately show ?case using leaf reb' by blast
qed

lemma kv_del_middle:
  assumes "\<forall>p \<in> set A. fst p < (key :: 'a :: linorder)" "\<forall>p \<in> set C. key < fst p"
  shows "kv_del key (A @ cs @ C) = A @ kv_del key cs @ C"
proof -
  have "key \<notin> fst ` set A" "key \<notin> fst ` set C" using assms by auto
  then show ?thesis by (simp add: kv_del_notin)
qed

lemma root_pot_leaf: "tree_at D 0 d lo hi lba kvs \<Longrightarrow> root_pot 0 d lba = length kvs"
  by (auto simp: root_pot_def dest: leaf_rep_cnt)

lemma btree_delete_repr:
  assumes "btree_repr D h d root kvs" "h < 32" "h < room d" "root \<noteq> 0"
  shows "\<exists>res d'. mkrn_yafs_btree_delete root key d = (res, d') \<and> dr_status res = 0 \<and>
    dr_deleted res = (key \<in> fst ` set kvs) \<and> dev_ext d d' \<and> dr_root res \<noteq> 0 \<and>
    btree_repr D h d' (dr_root res) (kv_del key kvs) \<and> room d \<le> room d' + Suc h \<and>
    root_pot h d' (dr_root res) \<le> root_pot h d root"
proof -
  have d: "dev_ok D d" and t: "tree_at D h d 0 18446744073709551616 root kvs"
    using assms(1,4) by (auto simp: btree_repr_def)
  obtain rn where rd: "mkrn_yafs_node_read root d = Some rn" using t unfolding tree_at_node by auto
  obtain q leaf a b A cs C where desc: "delete_descend 32 [] root key d = Some (q, leaf)"
    and lt: "tree_at D 0 d a b leaf cs" and kvs: "kvs = A @ cs @ C"
    and AC: "\<forall>p \<in> set A. fst p < key" "\<forall>p \<in> set C. key < fst p"
    and reb: "\<And>d' new X. dev_ext d d' \<Longrightarrow> dev_ok D d' \<Longrightarrow> tree_at D 0 d' a b new X \<Longrightarrow> h \<le> room d' \<Longrightarrow>
       \<exists>r d''. delete_rebuild (rev q) new d' = (Some r, d'') \<and> dev_ok D d'' \<and> dev_ext d' d'' \<and>
          tree_at D h d'' 0 18446744073709551616 r (A @ X @ C) \<and> room d' \<le> room d'' + h \<and>
          (0 < h \<longrightarrow> root_pot h d'' r = root_pot h d root)"
    using delete_descend_ok[OF t _ unat_u64_bound[of key] assms(2), of "[]"] by (metis append_Nil le0)
  obtain n where n: "mkrn_yafs_node_read leaf d = Some n" "node_shape n" "cnt n \<le> 248" "leaf_rep n a b cs"
    using lt by auto
  obtain ex pos where ks: "key_search (nkeys n) (entry_count n) key = (ex, pos)" by fastforce
  note ls = leaf_search[OF n(2-4) ks]
  have mem: "(key \<in> fst ` set kvs) = ex" using AC ls(1) by (auto simp: kvs)
  show ?thesis
  proof (cases ex)
    case False
    then have "kv_del key kvs = kvs" using mem kv_del_notin by metis
    then show ?thesis using False assms(1,4) rd desc n(1) ks mem
      by (simp add: mkrn_yafs_btree_delete_def)
  next
    case True
    then have p: "nat pos < cnt n" "nkeys n ! nat pos = key" using ls(2) by auto
    note rm = leaf_remove_rep[OF n(2-4) p]
    obtain nl d1 where w: "mkrn_yafs_node_write (leaf_remove_at n (nat pos)) d = (nl, d1)" by fastforce
    have nt: "node_tree D 0 d (leaf_remove_at n (nat pos)) a b (kv_del key cs)" using rm(3) by simp
    have pos: "0 < room d" using assms(3) by simp
    note wt = write_tree[OF d rm(1,2) nt pos w]
    have "h \<le> room d1" using wt(4) assms(3) by simp
    then obtain r d2 where r: "delete_rebuild (rev q) nl d1 = (Some r, d2)" "dev_ok D d2" "dev_ext d1 d2"
      "tree_at D h d2 0 18446744073709551616 r (A @ kv_del key cs @ C)" "room d1 \<le> room d2 + h"
      "0 < h \<longrightarrow> root_pot h d2 r = root_pot h d root"
      using reb[OF wt(3,2,5)] by blast
    have "r \<noteq> 0" using r(4) unfolding tree_at_node by simp
    moreover have kd: "kv_del key kvs = A @ kv_del key cs @ C" unfolding kvs by (rule kv_del_middle[OF AC])
    moreover have "root_pot h d2 r \<le> root_pot h d root"
    proof (cases h)
      case 0
      then have "root_pot h d2 r = length (kv_del key kvs)" "root_pot h d root = length kvs"
        using root_pot_leaf r(4) t unfolding kd by blast+
      then show ?thesis by (simp add: kv_del_def)
    qed (use r(6) in simp)
    ultimately show ?thesis
      using True r wt(1,4) w rd desc n(1) ks mem assms(4) dev_ext_trans[OF wt(3) r(3)]
      by (simp add: mkrn_yafs_btree_delete_def btree_repr_def)
  qed
qed

text \<open>Deletion never touches a block in use, also when it fails.\<close>

lemma delete_rebuild_ext:
  "dev_ok D d \<Longrightarrow> delete_rebuild path c d = (r, d') \<Longrightarrow> dev_ok D d' \<and> dev_ext d d'"
proof (induction path c d rule: delete_rebuild.induct)
  case (2 lba ci path child d)
  show ?case
  proof (cases "mkrn_yafs_node_read lba d")
    case None
    then show ?thesis using 2 by auto
  next
    case (Some p)
    let ?p = "p\<lparr>slots := (slots p)[ci := child]\<rparr>"
    obtain nl d1 where w: "mkrn_yafs_node_write ?p d = (nl, d1)" by fastforce
    have "node_shape ?p" using node_read_shape[OF 2(2) Some] by (simp add: node_shape_def)
    note e = node_write_ext[OF 2(2) this w]
    show ?thesis
    proof (cases "nl = 0")
      case True
      then show ?thesis using 2(3) Some w e by auto
    next
      case False
      then have "dev_ok D d' \<and> dev_ext d1 d'" using 2(1)[OF Some w[symmetric] refl False e(1)] 2(3) Some w by simp
      then show ?thesis using e dev_ext_trans by blast
    qed
  qed
qed auto

lemma btree_delete_ext:
  assumes "dev_ok D d" "mkrn_yafs_btree_delete root key d = (res, d')"
  shows "dev_ok D d' \<and> dev_ext d d' \<and> (dr_status res \<noteq> 0 \<longrightarrow> dr_root res = root)"
proof -
  have w: "dev_ok D d1 \<and> dev_ext d d1"
    if "mkrn_yafs_node_read l d = Some n" "mkrn_yafs_node_write (leaf_remove_at n p) d = (nl, d1)" for l n p nl d1
    using node_write_ext[OF assms(1) _ that(2)] node_read_shape[OF assms(1) that(1)]
    by (simp add: leaf_remove_at_def node_shape_def)
  then have "dev_ext d d2" if "mkrn_yafs_node_read l d = Some n"
    "mkrn_yafs_node_write (leaf_remove_at n p) d = (nl, d1)" "dev_ext d1 d2" for l n p nl d1 d2
    using that dev_ext_trans by blast
  with w show ?thesis using assms
    by (auto simp: mkrn_yafs_btree_delete_def Let_def split: if_splits option.splits prod.splits
      dest!: delete_rebuild_ext[rotated])
qed

section \<open>Range walk\<close>

text \<open>The reference: call the callback on each pair in turn until it asks to stop.\<close>

fun visit :: "'c walk_cb \<Rightarrow> (u64 \<times> u64) list \<Rightarrow> 'c \<Rightarrow> bool \<times> 'c" where
  "visit cb [] ctx = (False, ctx)"
| "visit cb ((k, v) # kvs) ctx = (let (stop, ctx1) = cb k v ctx in if stop then (True, ctx1) else visit cb kvs ctx1)"

definition in_range :: "u64 \<Rightarrow> u64 \<Rightarrow> (u64 \<times> u64) list \<Rightarrow> (u64 \<times> u64) list" where
  "in_range lo hi kvs = filter (\<lambda>p. lo \<le> fst p \<and> fst p < hi) kvs"

lemma visit_append:
  "visit cb (xs @ ys) ctx = (case visit cb xs ctx of (True, c) \<Rightarrow> (True, c) | (False, c) \<Rightarrow> visit cb ys c)"
  by (induction cb xs ctx rule: visit.induct) (auto split: prod.splits)

lemma in_range_append: "in_range lo hi (xs @ ys) = in_range lo hi xs @ in_range lo hi ys"
  by (simp add: in_range_def)

text \<open>The relation between what a walk returns and the reference: the same
  context, and \<open>done\<close> only after a stop or a key past the range.\<close>

definition walk_ok ::
  "u64 \<Rightarrow> u64 \<Rightarrow> 'c walk_cb \<Rightarrow> (u64 \<times> u64) list \<Rightarrow> 'c \<Rightarrow> bool \<times> 'c \<Rightarrow> bool" where
  "walk_ok lo hi cb kvs ctx r \<longleftrightarrow> (let (stop, ctx') = visit cb (in_range lo hi kvs) ctx in
     snd r = ctx' \<and> (stop \<longrightarrow> fst r) \<and> (fst r \<longrightarrow> stop \<or> (\<exists>p \<in> set kvs. hi \<le> fst p)))"

lemma walk_leaf_ok: "kv_sorted kvs \<Longrightarrow> walk_ok lo hi cb kvs ctx (walk_leaf lo hi cb kvs ctx)"
proof (induction lo hi cb kvs ctx rule: walk_leaf.induct)
  case (2 lo hi cb k v kvs ctx)
  consider "k < lo" | "lo \<le> k" "hi \<le> k" | "lo \<le> k" "k < hi" by fastforce
  then show ?case
  proof cases
    case 1
    then show ?thesis using 2 by (auto simp: walk_ok_def in_range_def Let_def split: prod.splits)
  next
    case c: 2
    then have "in_range lo hi kvs = []"
      using 2(3) by (fastforce simp: in_range_def filter_empty_conv)
    with c show ?thesis by (auto simp: walk_ok_def in_range_def)
  next
    case 3
    obtain stop c1 where cb: "cb k v ctx = (stop, c1)" by fastforce
    show ?thesis using 3 cb 2(2)[OF _ _ cb[symmetric] refl] 2(3)
      by (auto simp: walk_ok_def in_range_def Let_def not_less split: prod.splits)
  qed
qed (simp add: walk_ok_def in_range_def)

lemma in_range_cong:
  "(\<And>p. p \<in> set kvs \<Longrightarrow> (lo \<le> fst p \<and> fst p < hi) = (lo' \<le> fst p \<and> fst p < hi')) \<Longrightarrow>
   in_range lo hi kvs = in_range lo' hi' kvs"
  unfolding in_range_def by (rule filter_cong) auto

lemma in_range_Nil: "(\<And>p. p \<in> set kvs \<Longrightarrow> fst p < lo \<or> hi \<le> fst p) \<Longrightarrow> in_range lo hi kvs = []"
  unfolding in_range_def filter_empty_conv by (blast dest: leD)

lemma walk_ok_Nil: "walk_ok lo hi cb [] ctx (False, ctx)"
  by (simp add: walk_ok_def in_range_def)

lemma walk_ok_skip: "in_range lo hi xs = [] \<Longrightarrow> walk_ok lo hi cb ys ctx r \<Longrightarrow> walk_ok lo hi cb (xs @ ys) ctx r"
  by (auto simp: walk_ok_def in_range_append split: prod.splits)

lemma walk_ok_empty: "in_range lo hi xs = [] \<Longrightarrow> walk_ok lo hi cb xs ctx (False, ctx)"
  by (simp add: walk_ok_def)

lemma walk_ok_done:
  assumes "walk_ok lo hi cb xs ctx (True, c)" "kv_sorted (xs @ ys)"
  shows "walk_ok lo hi cb (xs @ ys) ctx (True, c)"
proof -
  have "in_range lo hi ys = []" if "p \<in> set xs" "hi \<le> fst p" for p
    using assms(2) that by (intro in_range_Nil) (force simp: sorted_wrt_append)
  then show ?thesis using assms(1) by (auto simp: walk_ok_def in_range_append visit_append split: prod.splits bool.splits)
qed

lemma walk_ok_append:
  assumes "walk_ok lo hi cb xs ctx (False, c)" "walk_ok lo hi cb ys c r"
  shows "walk_ok lo hi cb (xs @ ys) ctx r"
  using assms by (auto simp: walk_ok_def in_range_append visit_append split: prod.splits)

text \<open>The bounds that the loop reads for child \<open>i\<close>, against the bounds of the forest.\<close>

definition child_hi :: "yafs_node \<Rightarrow> nat \<Rightarrow> u64" where
  "child_hi n i = (if i < cnt n then nkeys n ! i else - 1)"

lemma walk_children_ok:
  assumes "\<And>j. j < Suc (cnt n) \<Longrightarrow> kvss ! j = [] \<or> (j < cnt n \<longrightarrow> (\<forall>p \<in> set (kvss ! j). fst p < nkeys n ! j))"
    "\<And>j. j < Suc (cnt n) \<Longrightarrow> 0 < j \<Longrightarrow> \<forall>p \<in> set (concat (drop j kvss)). nkeys n ! (j - 1) \<le> fst p"
    "length kvss = Suc (cnt n)" "kv_sorted (concat kvss)"
    "\<And>j hi' c. j < Suc (cnt n) \<Longrightarrow> \<exists>r. rec (slots n ! j) lo hi' c = Some (0, r) \<and> walk_ok lo hi' cb (kvss ! j) c r"
    "i + left = Suc (cnt n)"
  shows "\<exists>r. walk_children rec n lo hi i left ctx = Some (0, r) \<and> walk_ok lo hi cb (concat (drop i kvss)) ctx r"
  using assms(6)
proof (induction left arbitrary: i ctx)
  case 0
  then show ?case using assms(3) by (auto simp: walk_ok_Nil)
next
  case (Suc left)
  then have i: "i < Suc (cnt n)" by simp
  then have dr: "drop i kvss = kvss ! i # drop (Suc i) kvss" using assms(3) by (simp add: Cons_nth_drop_Suc)
  have "\<forall>c. \<exists>r. walk_children rec n lo hi (Suc i) left c = Some (0, r) \<and>
      walk_ok lo hi cb (concat (drop (Suc i) kvss)) c r"
    using Suc.IH[of "Suc i"] Suc.prems by simp
  then obtain r where IH: "walk_children rec n lo hi (Suc i) left c = Some (0, r c)"
      "walk_ok lo hi cb (concat (drop (Suc i) kvss)) c (r c)" for c by metis
  have srt: "kv_sorted (kvss ! i @ concat (drop (Suc i) kvss))"
  proof -
    have "concat kvss = concat (take i kvss) @ kvss ! i @ concat (drop (Suc i) kvss)"
      using dr by (metis append_take_drop_id concat_append concat.simps(2))
    then show ?thesis using assms(4) by (simp add: sorted_wrt_append)
  qed
  have lt: "p \<in> set (kvss ! i) \<Longrightarrow> i < cnt n \<Longrightarrow> fst p < nkeys n ! i" for p using assms(1)[OF i] by auto
  have ge: "p \<in> set (concat (drop i kvss)) \<Longrightarrow> 0 < i \<Longrightarrow> nkeys n ! (i - 1) \<le> fst p" for p
    using assms(2)[OF i] by blast
  let ?clo = "if i > 0 then nkeys n ! (i - 1) else 0" and ?chi = "child_hi n i"
  have step: "walk_children rec n lo hi i (Suc left) ctx =
     (if ?clo > hi then Some (0, False, ctx)
      else if ?chi \<le> lo then walk_children rec n lo hi (Suc i) left ctx
      else case rec (slots n ! i) lo (if ?chi < hi then ?chi else hi) ctx of
          None \<Rightarrow> None
        | Some (ret, done, ctx1) \<Rightarrow>
            if ret \<noteq> 0 \<or> done then Some (ret, done, ctx1)
            else walk_children rec n lo hi (Suc i) left ctx1)"
    by (simp add: child_hi_def Let_def)
  consider (past) "?clo > hi" | (skip) "\<not> ?clo > hi" "?chi \<le> lo" | (visit) "\<not> ?clo > hi" "\<not> ?chi \<le> lo" by blast
  then show ?case
  proof cases
    case past
    then have "in_range lo hi (concat (drop i kvss)) = []"
      using ge by (intro in_range_Nil) (fastforce split: if_splits)
    then show ?thesis unfolding step using past by (auto intro: walk_ok_empty)
  next
    case skip
    have "in_range lo hi (kvss ! i) = []"
    proof (rule in_range_Nil)
      fix p assume "p \<in> set (kvss ! i)"
      then show "fst p < lo \<or> hi \<le> fst p"
        using skip(2) lt[of p] order_less_le_trans[of "fst p" hi "- 1"]
        by (cases "i < cnt n") (auto simp: child_hi_def not_less word_order.extremum_unique not_le)
    qed
    then show ?thesis unfolding step dr using skip IH by (auto intro: walk_ok_skip)
  next
    case visit
    define hi' where "hi' = (if ?chi < hi then ?chi else hi)"
    obtain don c1 where rc: "rec (slots n ! i) lo hi' ctx = Some (0, don, c1)"
      and ok': "walk_ok lo hi' cb (kvss ! i) ctx (don, c1)"
      using assms(5)[OF i, of hi' ctx] by auto
    have same: "(fst p < hi') = (fst p < hi)" if "p \<in> set (kvss ! i)" for p
      using lt[OF that] by (cases "i < cnt n") (auto simp: hi'_def child_hi_def)
    then have "in_range lo hi' (kvss ! i) = in_range lo hi (kvss ! i)" by (intro in_range_cong) auto
    with ok' same have ok: "walk_ok lo hi cb (kvss ! i) ctx (don, c1)"
      by (auto simp: walk_ok_def not_less[symmetric] split: prod.splits)
    show ?thesis
    proof (cases don)
      case True
      then show ?thesis unfolding step hi'_def[symmetric] dr using visit rc walk_ok_done[OF _ srt] ok by simp
    next
      case False
      then show ?thesis unfolding step hi'_def[symmetric] dr using visit rc IH walk_ok_append[of lo hi cb "kvss ! i" ctx c1] ok by simp
    qed
  qed
qed

lemma kv_within_sorted_bounds:
  assumes "sorted_wrt (<) bs" "j < length bs" "i \<le> j"
  shows "bs ! i \<le> (bs ! j :: nat)"
  using assms by (cases "i = j") (auto simp: sorted_wrt_iff_nth_less less_imp_le)

lemma btree_walk_ok:
  assumes "tree_at D h d a b lba kvs" "h < fuel"
  shows "\<exists>r. btree_walk_range_recursive fuel lba lo hi cb ctx d = Some (0, r) \<and> walk_ok lo hi cb kvs ctx r"
  using assms
proof (induction h arbitrary: a b lba kvs fuel hi ctx)
  case 0
  then obtain f n where fn: "fuel = Suc f" "mkrn_yafs_node_read lba d = Some n" "leaf_rep n a b kvs" "lba \<noteq> 0"
    by (cases fuel) auto
  have "kv_sorted kvs" using tree_at_within[OF 0(1)] by (simp add: kv_within_def)
  from walk_leaf_ok[OF this, of lo hi cb ctx] fn show ?case
    by (auto simp: leaf_rep_def split: prod.splits)
next
  case (Suc h)
  then obtain f n where f: "fuel = Suc f" "h < f" and n: "mkrn_yafs_node_read lba d = Some n" "node_shape n"
    "cnt n \<le> 248" "inner_rep (tree_at D h d) n a b kvs" and lba: "lba \<noteq> 0" by (cases fuel) auto
  then obtain kvss where F: "forest (tree_at D h d) (bounds a n b) (take (Suc (cnt n)) (slots n)) kvss"
    and kvs: "kvs = concat kvss" and srt: "sorted_wrt (<) (bounds a n b)" and nl: "\<not> is_leaf n"
    by (auto simp: inner_rep_def)
  have len: "length (nkeys n) = 249" "length (slots n) = 251" using n(2) by (auto simp: node_shape_def)
  have lb: "length (bounds a n b) = Suc (Suc (cnt n))" and lk: "length kvss = Suc (cnt n)"
    using forest_lengths[OF F] len n(3) by simp_all
  have bn: "bounds a n b ! Suc j = unat (nkeys n ! j)" if "j < cnt n" for j
    using that len n(3) by (simp add: bounds_def nth_append)
  have child: "tree_at D h d (bounds a n b ! j) (bounds a n b ! Suc j) (slots n ! j) (kvss ! j)" if "j < Suc (cnt n)" for j
    using forest_nth[OF F, of j] that len n(3) by simp
  note cw = child[THEN tree_at_within]
  have "\<exists>r. walk_children (\<lambda>c l h x. btree_walk_range_recursive f c l h cb x d) n lo hi 0 (Suc (cnt n)) ctx =
      Some (0, r) \<and> walk_ok lo hi cb (concat (drop 0 kvss)) ctx r"
  proof (rule walk_children_ok)
    show "kvss ! j = [] \<or> (j < cnt n \<longrightarrow> (\<forall>p \<in> set (kvss ! j). fst p < nkeys n ! j))" if "j < Suc (cnt n)" for j
      using cw[OF that] bn by (auto simp: kv_within_def word_less_nat_alt)
    show "\<forall>p \<in> set (concat (drop j kvss)). nkeys n ! (j - 1) \<le> fst p" if j: "j < Suc (cnt n)" "0 < j" for j
    proof
      fix p assume "p \<in> set (concat (drop j kvss))"
      then obtain xs where xs: "xs \<in> set (drop j kvss)" "p \<in> set xs" by auto
      then obtain m where "m < length (drop j kvss)" "xs = drop j kvss ! m" by (auto simp: in_set_conv_nth)
      then have m: "j + m < Suc (cnt n)" "p \<in> set (kvss ! (j + m))" using lk xs(2) by auto
      then have "bounds a n b ! (j + m) \<le> unat (fst p)" using cw[OF m(1)] by (auto simp: kv_within_def)
      moreover have "bounds a n b ! j \<le> bounds a n b ! (j + m)"
        using srt m(1) lb by (intro kv_within_sorted_bounds) auto
      moreover have "bounds a n b ! j = unat (nkeys n ! (j - 1))" using bn[of "j - 1"] j by simp
      ultimately show "nkeys n ! (j - 1) \<le> fst p" by (simp add: word_le_nat_alt)
    qed
    show "length kvss = Suc (cnt n)" by (rule lk)
    show "kv_sorted (concat kvss)" using tree_at_within[OF Suc.prems(1)] kvs by (simp add: kv_within_def)
    show "\<exists>r. btree_walk_range_recursive f (slots n ! j) lo hi' cb c d = Some (0, r) \<and> walk_ok lo hi' cb (kvss ! j) c r"
      if "j < Suc (cnt n)" for j hi' c using Suc.IH[OF child[OF that] f(2)] .
  qed simp
  then show ?case using n(1) nl lba by (simp add: f kvs)
qed

lemma btree_walk_repr:
  assumes "btree_repr D h d root kvs" "h < fuel"
  shows "mkrn_yafs_btree_walk_range fuel root lo hi cb ctx d = Some (0, snd (visit cb (in_range lo hi kvs) ctx))"
proof (cases "root = 0")
  case True
  then show ?thesis using assms by (simp add: mkrn_yafs_btree_walk_range_def btree_repr_def in_range_def)
next
  case False
  then have "tree_at D h d 0 18446744073709551616 root kvs" using assms(1) by (simp add: btree_repr_def)
  from btree_walk_ok[OF this assms(2), of lo hi cb ctx] False show ?thesis
    by (auto simp: mkrn_yafs_btree_walk_range_def walk_ok_def Let_def case_prod_beta)
qed

end
