(* ===== verification/BtreeStore.thy ===== *)
theory BtreeStore
  imports BtreeQuery
begin

text \<open>
  The interface of the B+tree to its clients: the key and extent packing of
  \<open>yafs_btree.h\<close>, a locale for a finite-map store with a budget of
  operations, its interpretation on the B+tree of a ramdisk, and the
  properties of the tree.
\<close>

section \<open>Keys and extents\<close>

definition YAFS_EXTENT_LBA_MASK :: u64 where
  "YAFS_EXTENT_LBA_MASK = 0x0000FFFFFFFFFFFF"

definition YAFS_KS_VALUE_MASK :: u64 where
  "YAFS_KS_VALUE_MASK = 0x0FFFFFFFFFFFFFFF"

definition mkrn_yafs_extent_pack :: "u64 \<Rightarrow> u32 \<Rightarrow> u64" where
  "mkrn_yafs_extent_pack lba len =
     (lba AND YAFS_EXTENT_LBA_MASK) OR push_bit 48 (ucast (len AND 0xFFFF))"

definition mkrn_yafs_extent_lba :: "u64 \<Rightarrow> u64" where
  "mkrn_yafs_extent_lba e = e AND YAFS_EXTENT_LBA_MASK"

definition mkrn_yafs_extent_length :: "u64 \<Rightarrow> u32" where
  "mkrn_yafs_extent_length e = ucast (drop_bit 48 e AND 0xFFFF)"

definition mkrn_yafs_key_tag :: "u64 \<Rightarrow> u64" where
  "mkrn_yafs_key_tag key = drop_bit 60 key"

definition mkrn_yafs_key_value :: "u64 \<Rightarrow> u64" where
  "mkrn_yafs_key_value key = key AND YAFS_KS_VALUE_MASK"

definition mkrn_yafs_make_key :: "u64 \<Rightarrow> u64 \<Rightarrow> u64" where
  "mkrn_yafs_make_key tag val = push_bit 60 tag OR (val AND YAFS_KS_VALUE_MASK)"

lemma value_mask: "YAFS_KS_VALUE_MASK = mask 60" and lba_mask: "YAFS_EXTENT_LBA_MASK = mask 48"
  by (simp_all add: YAFS_KS_VALUE_MASK_def YAFS_EXTENT_LBA_MASK_def mask_eq_exp_minus_1)

lemma key_parts:
  "mkrn_yafs_key_tag (mkrn_yafs_make_key tag val) = tag AND 15"
  "mkrn_yafs_key_value (mkrn_yafs_make_key tag val) = val AND YAFS_KS_VALUE_MASK"
proof -
  have m: "15 = (mask 4 :: u64)" by (simp add: mask_eq_exp_minus_1)
  show "mkrn_yafs_key_tag (mkrn_yafs_make_key tag val) = tag AND 15"
    unfolding m mkrn_yafs_key_tag_def mkrn_yafs_make_key_def value_mask
    by (intro bit_word_eqI) (auto simp: bit_simps)
  show "mkrn_yafs_key_value (mkrn_yafs_make_key tag val) = val AND YAFS_KS_VALUE_MASK"
    by (intro bit_word_eqI)
      (auto simp: mkrn_yafs_key_value_def mkrn_yafs_make_key_def value_mask bit_simps)
qed

lemma extent_parts:
  "mkrn_yafs_extent_lba (mkrn_yafs_extent_pack lba len) = lba AND YAFS_EXTENT_LBA_MASK"
  "mkrn_yafs_extent_length (mkrn_yafs_extent_pack lba len) = len AND 0xFFFF"
proof -
  have m: "0xFFFF = (mask 16 :: u32)" "0xFFFF = (mask 16 :: u64)" by (simp_all add: mask_eq_exp_minus_1)
  show "mkrn_yafs_extent_lba (mkrn_yafs_extent_pack lba len) = lba AND YAFS_EXTENT_LBA_MASK"
    by (intro bit_word_eqI)
      (auto simp: mkrn_yafs_extent_lba_def mkrn_yafs_extent_pack_def lba_mask bit_simps)
  show "mkrn_yafs_extent_length (mkrn_yafs_extent_pack lba len) = len AND 0xFFFF"
    unfolding mkrn_yafs_extent_length_def mkrn_yafs_extent_pack_def lba_mask m
    by (intro bit_word_eqI) (auto simp: bit_simps)
qed

section \<open>Finite-map stores\<close>

text \<open>
  \<open>repr n s m\<close>: the store \<open>s\<close> holds the finite map \<open>m\<close> and has
  room for at least \<open>n\<close> further updates. A client's run of updates is a list
  of \<open>store_op\<close>s.
\<close>

datatype ('k, 'v) store_op = Put 'k 'v | Del 'k

text \<open>On the abstract map a \<open>Put\<close> answers whether the key was new, a \<open>Del\<close>
  whether it was there.\<close>

fun op_map :: "('k, 'v) store_op \<Rightarrow> ('k \<rightharpoonup> 'v) \<Rightarrow> ('k \<rightharpoonup> 'v)" where
  "op_map (Put k v) m = m(k \<mapsto> v)"
| "op_map (Del k) m = m(k := None)"

fun op_answer :: "('k, 'v) store_op \<Rightarrow> ('k \<rightharpoonup> 'v) \<Rightarrow> bool" where
  "op_answer (Put k v) m = (m k = None)"
| "op_answer (Del k) m = (m k \<noteq> None)"

fun run_answers :: "('k, 'v) store_op list \<Rightarrow> ('k \<rightharpoonup> 'v) \<Rightarrow> bool list" where
  "run_answers [] m = []"
| "run_answers (x # xs) m = op_answer x m # run_answers xs (op_map x m)"

fun step_op ::
  "('k \<Rightarrow> 'v \<Rightarrow> 's \<Rightarrow> (bool \<times> 's) option) \<Rightarrow> ('k \<Rightarrow> 's \<Rightarrow> (bool \<times> 's) option) \<Rightarrow>
   ('k, 'v) store_op \<Rightarrow> 's \<Rightarrow> (bool \<times> 's) option" where
  "step_op put del (Put k v) s = put k v s"
| "step_op put del (Del k) s = del k s"

fun run_ops ::
  "('k \<Rightarrow> 'v \<Rightarrow> 's \<Rightarrow> (bool \<times> 's) option) \<Rightarrow> ('k \<Rightarrow> 's \<Rightarrow> (bool \<times> 's) option) \<Rightarrow>
   ('k, 'v) store_op list \<Rightarrow> 's \<Rightarrow> (bool list \<times> 's) option" where
  "run_ops put del [] s = Some ([], s)"
| "run_ops put del (x # xs) s =
     (case step_op put del x s of
        None \<Rightarrow> None
      | Some (b, s1) \<Rightarrow> map_option (\<lambda>(bs, s2). (b # bs, s2)) (run_ops put del xs s1))"

locale map_store =
  fixes repr :: "nat \<Rightarrow> 's \<Rightarrow> ('k \<rightharpoonup> 'v) \<Rightarrow> bool"
    and get :: "'k \<Rightarrow> 's \<Rightarrow> 'v option"
    and put :: "'k \<Rightarrow> 'v \<Rightarrow> 's \<Rightarrow> (bool \<times> 's) option"
    and del :: "'k \<Rightarrow> 's \<Rightarrow> (bool \<times> 's) option"
  assumes repr_mono: "repr (Suc n) s m \<Longrightarrow> repr n s m"
    and get_law: "repr n s m \<Longrightarrow> get k s = m k"
    and put_law: "repr (Suc n) s m \<Longrightarrow>
      \<exists>s'. put k v s = Some (m k = None, s') \<and> repr n s' (m(k \<mapsto> v))"
    and del_law: "repr (Suc n) s m \<Longrightarrow>
      \<exists>s'. del k s = Some (m k \<noteq> None, s') \<and> repr n s' (m(k := None))"
begin

lemma step_op_refines:
  assumes "repr (Suc n) s m"
  shows "\<exists>s'. step_op put del x s = Some (op_answer x m, s') \<and> repr n s' (op_map x m)"
  using put_law[OF assms] del_law[OF assms] by (cases x) auto

lemma run_ops_refines:
  assumes "repr n s m" "length ops \<le> n"
  shows "\<exists>s'. run_ops put del ops s = Some (run_answers ops m, s') \<and>
    repr (n - length ops) s' (fold op_map ops m)"
  using assms
proof (induction ops arbitrary: n s m)
  case (Cons x xs)
  then obtain k where k: "n = Suc k" by (cases n) auto
  obtain s1 where "step_op put del x s = Some (op_answer x m, s1)" "repr k s1 (op_map x m)"
    using step_op_refines[OF Cons.prems(1)[unfolded k]] by auto
  with Cons.IH[of k s1 "op_map x m"] Cons.prems k show ?case by auto
qed simp

text \<open>After a run of updates every lookup answers from the abstract map.\<close>

lemma run_ops_get:
  assumes "repr n s m" "length ops \<le> n"
  shows "\<exists>s'. run_ops put del ops s = Some (run_answers ops m, s') \<and> (\<forall>k. get k s' = fold op_map ops m k)"
  using run_ops_refines[OF assms] get_law by blast

end

section \<open>The B+tree is a finite-map store\<close>

text \<open>The state is the root address and the device. An update of a tree of height
  \<open>h\<close> uses at most \<open>2 * (h + 1) + 1\<close> blocks. The root potential bounds the
  height: every insertion raises it by at most one and uses a block at least,
  so the 4096 blocks of the device never carry it past \<open>248 * 17\<close> and the height
  stays at most 16. With \<open>H\<close> a bound on the height for the next \<open>n\<close> updates, a
  budget of \<open>2 * H + 3\<close> blocks for each of them is enough, and so is fuel 64.
  \<open>D\<close> holds the blocks that belong to the clients.\<close>

type_synonym bt_state = "u64 \<times> ydev"

definition bt_get :: "u64 \<Rightarrow> bt_state \<Rightarrow> u64 option" where
  "bt_get k s = mkrn_yafs_btree_lookup (fst s) k (snd s)"

definition bt_put :: "u64 \<Rightarrow> u64 \<Rightarrow> bt_state \<Rightarrow> (bool \<times> bt_state) option" where
  "bt_put k v s = (case mkrn_yafs_btree_insert 64 (fst s) k v (snd s) of
     None \<Rightarrow> None
   | Some (res, d) \<Rightarrow>
       if ir_status res = 0 then Some (ir_inserted res = Some True, (ir_root res, d)) else None)"

text \<open>A deletion on the empty tree (root address 0) returns -1; every other one
  has to return 0, or the run stops.\<close>

definition bt_del :: "u64 \<Rightarrow> bt_state \<Rightarrow> (bool \<times> bt_state) option" where
  "bt_del k s = (case mkrn_yafs_btree_delete (fst s) k (snd s) of
     (res, d) \<Rightarrow> if dr_status res = (if fst s = 0 then -1 else 0)
                then Some (dr_deleted res, (dr_root res, d)) else None)"

definition bt_repr :: "u64 set \<Rightarrow> nat \<Rightarrow> bt_state \<Rightarrow> (u64 \<rightharpoonup> u64) \<Rightarrow> bool" where
  "bt_repr D n s m \<longleftrightarrow> (\<exists>h kvs H. btree_repr D h (snd s) (fst s) kvs \<and> m = map_of kvs \<and>
     h \<le> H \<and> H \<le> 16 \<and> root_pot h (snd s) (fst s) + n < 248 * Suc H \<and> (2 * H + 3) * n \<le> room (snd s))"

lemma root_pot_height:
  assumes "root_pot h d root < 248 * Suc H" "root \<noteq> 0"
  shows "h \<le> H"
proof -
  have "248 * h < 248 * Suc H" using assms by (simp add: root_pot_def)
  then show ?thesis by (simp only: mult_less_cancel1 less_Suc_eq_le)
qed

lemma bt_put_spec:
  assumes "bt_repr D (Suc n) s m"
  shows "\<exists>res d'. mkrn_yafs_btree_insert 64 (fst s) k v (snd s) = Some (res, d') \<and> ir_status res = 0 \<and>
    ir_inserted res = Some (m k = None) \<and> dev_ext (snd s) d' \<and> bt_repr D n (ir_root res, d') (m(k \<mapsto> v))"
proof -
  obtain h kvs H where r: "btree_repr D h (snd s) (fst s) kvs" "m = map_of kvs" "h \<le> H" "H \<le> 16"
    "root_pot h (snd s) (fst s) + Suc n < 248 * Suc H" "(2 * H + 3) * Suc n \<le> room (snd s)"
    using assms by (auto simp: bt_repr_def)
  have h: "h < 64" "2 * Suc h < room (snd s)" using r(3,4,6) by auto
  obtain res d' h' where ins: "mkrn_yafs_btree_insert 64 (fst s) k v (snd s) = Some (res, d')" "ir_status res = 0"
    "ir_inserted res = Some (k \<notin> fst ` set kvs)" "dev_ext (snd s) d'" "ir_root res \<noteq> 0"
    "btree_repr D h' d' (ir_root res) (kv_upd k v kvs)" "room (snd s) \<le> room d' + Suc (2 * Suc h)"
    "root_pot h' d' (ir_root res) \<le> Suc (root_pot h (snd s) (fst s))"
    using btree_insert_repr[OF r(1) h, of k v] by blast
  have "h' \<le> H" using root_pot_height[of h' d' "ir_root res" H] ins(5,8) r(5) by simp
  then have "bt_repr D n (ir_root res, d') (m(k \<mapsto> v))"
    unfolding bt_repr_def using ins(6-8) r(2-6)
    by (intro exI[of _ h'] exI[of _ "kv_upd k v kvs"] exI[of _ H]) simp
  moreover have "(m k = None) = (k \<notin> fst ` set kvs)" by (simp add: r(2) map_of_eq_None_iff)
  ultimately show ?thesis using ins(1-4) by simp
qed

lemma bt_del_spec:
  assumes "bt_repr D (Suc n) s m" "fst s \<noteq> 0"
  shows "\<exists>res d'. mkrn_yafs_btree_delete (fst s) k (snd s) = (res, d') \<and> dr_status res = 0 \<and>
    dr_deleted res = (m k \<noteq> None) \<and> dr_root res \<noteq> 0 \<and> dev_ext (snd s) d' \<and>
    bt_repr D n (dr_root res, d') (m(k := None))"
proof -
  obtain h kvs H where r: "btree_repr D h (snd s) (fst s) kvs" "m = map_of kvs" "h \<le> H" "H \<le> 16"
    "root_pot h (snd s) (fst s) + Suc n < 248 * Suc H" "(2 * H + 3) * Suc n \<le> room (snd s)"
    using assms(1) by (auto simp: bt_repr_def)
  have h: "h < 32" "h < room (snd s)" using r(3,4,6) by auto
  obtain res d' where dl: "mkrn_yafs_btree_delete (fst s) k (snd s) = (res, d')" "dr_status res = 0"
    "dr_deleted res = (k \<in> fst ` set kvs)" "dr_root res \<noteq> 0" "dev_ext (snd s) d'"
    "btree_repr D h d' (dr_root res) (kv_del k kvs)" "room (snd s) \<le> room d' + Suc h"
    "root_pot h d' (dr_root res) \<le> root_pot h (snd s) (fst s)"
    using btree_delete_repr[OF r(1) h assms(2), of k] by blast
  have "bt_repr D n (dr_root res, d') (m(k := None))"
    unfolding bt_repr_def using dl(6-8) r(2-6)
    by (intro exI[of _ h] exI[of _ "kv_del k kvs"] exI[of _ H]) simp
  moreover have "(m k \<noteq> None) = (k \<in> fst ` set kvs)" by (auto simp: r(2) map_of_eq_None_iff)
  ultimately show ?thesis using dl(1-5) by simp
qed

interpretation bt: map_store "bt_repr D" bt_get bt_put bt_del for D
proof (standard, goal_cases)
  case (1 n s m)
  then show ?case unfolding bt_repr_def by force
next
  case (2 n s m k)
  then show ?case using btree_lookup_repr by (force simp: bt_repr_def bt_get_def)
next
  case (3 n s m k v)
  from bt_put_spec[OF this, of k v] show ?case by (auto simp: bt_put_def)
next
  case (4 n s m k)
  show ?case
  proof (cases "fst s = 0")
    case True
    have "m = Map.empty" using 4 True by (auto simp: bt_repr_def btree_repr_def)
    moreover have "bt_repr D n s m" using 4 unfolding bt_repr_def by force
    ultimately show ?thesis
      using True by (cases s) (simp add: bt_del_def mkrn_yafs_btree_delete_def)
  next
    case False
    from bt_del_spec[OF 4 this, of k] show ?thesis using False by (auto simp: bt_del_def)
  qed
qed

section \<open>Properties\<close>

text \<open>The device at boot, with zeroed memory, and a one-entry tree on it, for the witnesses.\<close>

definition ydev_boot :: ydev where
  "ydev_boot = \<lparr>ramdisk = (\<lambda>_. replicate YAFS_BTREE_BLOCK_SIZE 0), next_free_block = 3, total_allocated = 0\<rparr>"

lemma ydev_boot_ok: "dev_ok {} ydev_boot" "room ydev_boot = 4093" "btree_repr {} 0 ydev_boot 0 []"
  by (simp_all add: ydev_boot_def dev_ok_def room_def btree_repr_def RAMDISK_BLOCKS_def YAFS_BTREE_BLOCK_SIZE_def)

lemma one_entry_tree: "\<exists>root d. root \<noteq> 0 \<and> btree_repr {} 0 d root [(5, 50)] \<and> 4092 \<le> room d"
proof -
  obtain res d where "insert_empty 5 50 ydev_boot = (res, d)" by fastforce
  from insert_empty_ok[OF ydev_boot_ok(1) _ this] ydev_boot_ok(2) show ?thesis by auto
qed

text \<open>C1. Insertion into a well-formed tree of height below the recursion bound,
  on a device with room for the copied path, its splits and a new root,
  returns success, reports through \<open>pInserted\<close> whether the key was new, and
  the tree under the new root holds exactly the old contents updated at the
  key; the height grows by at most one. The blocks \<open>D\<close> of inodes and file data
  stay outside the tree.\<close>

theorem btree_insert_correct:
  assumes "btree_repr D h d root kvs" "h < fuel" "2 * Suc h < room d"
  shows "\<exists>res d' h'. mkrn_yafs_btree_insert fuel root key val d = Some (res, d') \<and> ir_status res = 0 \<and>
    ir_inserted res = Some (key \<notin> fst ` set kvs) \<and> h' \<le> Suc h \<and>
    btree_repr D h' d' (ir_root res) (kv_upd key val kvs)"
  using btree_insert_repr[OF assms, of key val] by blast

theorem btree_insert_correct_witness:
  "\<exists>root d res d' h'. mkrn_yafs_btree_insert 4 root 5 51 d = Some (res, d') \<and> ir_status res = 0 \<and>
    ir_inserted res = Some False \<and> btree_repr {} h' d' (ir_root res) [(5, 51)]"
proof -
  obtain root d where "btree_repr {} 0 d root [(5, 50)]" "4092 \<le> room d" using one_entry_tree by blast
  with btree_insert_correct[of "{}" 0 d root "[(5, 50)]" 4 5 51] show ?thesis by fastforce
qed

text \<open>Lookup in a well-formed tree of height below 64 returns the value
  stored for the key, and fails exactly when the tree has no such key.\<close>

theorem btree_lookup_correct:
  assumes "btree_repr D h d root kvs" "h < 64"
  shows "mkrn_yafs_btree_lookup root key d = map_of kvs key"
  using assms by (rule btree_lookup_repr)

theorem btree_lookup_correct_witness:
  "\<exists>root d. mkrn_yafs_btree_lookup root 5 d = Some 50 \<and> mkrn_yafs_btree_lookup root 6 d = None"
proof -
  obtain root d where "btree_repr {} 0 d root [(5, 50)]" using one_entry_tree by blast
  with btree_lookup_correct[of "{}" 0 d root "[(5, 50)]" 5] btree_lookup_correct[of "{}" 0 d root "[(5, 50)]" 6]
  show ?thesis by fastforce
qed

text \<open>Deletion from a well-formed tree of height below its depth bound 32
  reports whether the key was present and leaves a tree of the same height
  that holds the old contents without the key.\<close>

theorem btree_delete_correct:
  assumes "btree_repr D h d root kvs" "root \<noteq> 0" "h < 32" "h < room d"
  shows "\<exists>res d'. mkrn_yafs_btree_delete root key d = (res, d') \<and> dr_status res = 0 \<and>
    dr_deleted res = (key \<in> fst ` set kvs) \<and> btree_repr D h d' (dr_root res) (kv_del key kvs)"
  using btree_delete_repr[OF assms(1,3,4,2), of key] by blast

theorem btree_delete_correct_witness:
  "\<exists>root d res d'. mkrn_yafs_btree_delete root 5 d = (res, d') \<and> dr_status res = 0 \<and> dr_deleted res \<and>
    btree_repr {} 0 d' (dr_root res) []"
proof -
  obtain root d where "btree_repr {} 0 d root [(5, 50)]" "root \<noteq> 0" "4092 \<le> room d" using one_entry_tree by blast
  with btree_delete_correct[of "{}" 0 d root "[(5, 50)]" 5] show ?thesis by (fastforce simp: kv_del_def)
qed

text \<open>C2. Copy on write: an insertion and a deletion, successful or not, with
  any key, leave the tree under the old root exactly as it was (an old root
  is a snapshot), and an operation that fails leaves the caller's root
  unchanged.\<close>

theorem btree_snapshot_stable:
  assumes "btree_repr D h d old kvs"
  shows "(\<forall>res d1. mkrn_yafs_btree_insert fuel root key val d = Some (res, d1) \<longrightarrow>
      btree_repr D h d1 old kvs \<and> (ir_status res \<noteq> 0 \<longrightarrow> ir_root res = root)) \<and>
    (\<forall>res d1. mkrn_yafs_btree_delete root key d = (res, d1) \<longrightarrow>
      btree_repr D h d1 old kvs \<and> (dr_status res \<noteq> 0 \<longrightarrow> dr_root res = root))"
proof -
  have "dev_ok D d" using assms by (simp add: btree_repr_def)
  then show ?thesis using btree_insert_ext btree_delete_ext btree_repr_ext[OF assms] by metis
qed

theorem btree_snapshot_stable_witness:
  "\<exists>old d res d1. mkrn_yafs_btree_insert 4 old 5 99 d = Some (res, d1) \<and> ir_status res = 0 \<and>
     btree_repr {} 0 d1 old [(5, 50)]"
proof -
  obtain old d where t: "btree_repr {} 0 d old [(5, 50)]" "4092 \<le> room d" using one_entry_tree by blast
  then obtain res d1 where i: "mkrn_yafs_btree_insert 4 old 5 99 d = Some (res, d1)" "ir_status res = 0"
    using btree_insert_repr[of "{}" 0 d old "[(5, 50)]" 4 5 99] by auto
  from btree_snapshot_stable[OF t(1)] i show ?thesis by blast
qed

text \<open>C3. A range walk calls the callback on exactly the entries with
  \<open>lo \<le> key < hi\<close>, in ascending key order, until the callback asks to
  stop, and returns 0 with the callback's final context.\<close>

theorem btree_walk_range_correct:
  assumes "btree_repr D h d root kvs" "h < fuel"
  shows "mkrn_yafs_btree_walk_range fuel root lo hi cb ctx d =
      Some (0, snd (visit cb (filter (\<lambda>p. lo \<le> fst p \<and> fst p < hi) kvs) ctx)) \<and> kv_sorted kvs"
  using btree_walk_repr[OF assms] btree_repr_sorted[OF assms(1)] by (simp_all add: in_range_def)

theorem btree_walk_range_correct_witness:
  "\<exists>root d. mkrn_yafs_btree_walk_range 3 root 2 9 (\<lambda>k v c. (False, (k, v) # c)) [] d = Some (0, [(5, 50)])"
proof -
  obtain root d where "btree_repr {} 0 d root [(5, 50)]" using one_entry_tree by blast
  from btree_walk_range_correct[OF this, of 3 2 9 "\<lambda>k v c. (False, (k, v) # c)" "[]"]
  show ?thesis by auto
qed

text \<open>C4. Any run of at most \<open>n\<close> insertions and deletions, of present and of
  absent keys, on a tree with budget \<open>n\<close> goes through: each insertion returns 0
  and reports whether its key was new, each deletion reports whether its key
  was there and returns 0, or -1 when it is called on the empty tree (root
  address 0), which it leaves as it is. Afterwards every lookup returns what
  the same run does to the finite map the tree held at the start. The budget
  is three free blocks for each update of a small tree.\<close>

theorem btree_run_refines_map:
  assumes "bt_repr D n s m" "length ops \<le> n"
  shows "\<exists>s'. run_ops bt_put bt_del ops s = Some (run_answers ops m, s') \<and>
    (\<forall>k. bt_get k s' = fold op_map ops m k)"
  using assms by (rule bt.run_ops_get)

theorem btree_run_refines_map_witness:
  "\<exists>s'. run_ops bt_put bt_del [Del 3, Put 7 70, Put 8 80, Del 9, Del 7, Put 8 81] (0, ydev_boot) =
      Some ([False, True, True, False, True, False], s') \<and>
     bt_get 7 s' = None \<and> bt_get 8 s' = Some 81"
proof -
  have "bt_repr {} 240 (0, ydev_boot) Map.empty"
    using ydev_boot_ok unfolding bt_repr_def by (intro exI[of _ 0] exI[of _ "[]"]) (auto simp: root_pot_def)
  from btree_run_refines_map[OF this, of "[Del 3, Put 7 70, Put 8 80, Del 9, Del 7, Put 8 81]"]
  show ?thesis by auto
qed

text \<open>The leaf search, whose loop has no bound of its own, returns on every
  well-formed tree, with a leaf whose entry for the key is the tree's.\<close>

theorem btree_find_leaf_returns:
  assumes "btree_repr D h d root kvs" "root \<noteq> 0"
  shows "\<exists>leaf a b cs. mkrn_yafs_btree_find_leaf root key d = Some leaf \<and> tree_at D 0 d a b leaf cs \<and>
    a \<le> unat key \<and> unat key < b \<and> map_of cs key = map_of kvs key"
  using find_leaf_loop_ok[of D h d 0 18446744073709551616 root kvs key] assms unat_u64_bound[of key]
  by (simp add: btree_repr_def mkrn_yafs_btree_find_leaf_def)

theorem btree_find_leaf_returns_witness:
  "\<exists>root d leaf. mkrn_yafs_btree_find_leaf root 5 d = Some leaf"
proof -
  obtain root d where "btree_repr {} 0 d root [(5, 50)]" "root \<noteq> 0" using one_entry_tree by blast
  from btree_find_leaf_returns[OF this, of 5] show ?thesis by blast
qed

text \<open>Writing a node and reading its block back gives the node (with the
  checksum field cleared), for every node whose arrays have their declared
  lengths, on every device with a free block; the block is fresh.\<close>

theorem node_write_read_roundtrip:
  assumes "dev_ok D d" "node_shape n" "0 < room d"
  shows "\<exists>lba d'. mkrn_yafs_node_write n d = (lba, d') \<and> lba = next_free_block d \<and> lba \<noteq> 0 \<and>
    mkrn_yafs_node_read lba d' = Some (n\<lparr>checksum := 0\<rparr>) \<and>
    (\<forall>b. b \<noteq> lba \<longrightarrow> b < RAMDISK_BLOCKS \<longrightarrow> mkrn_yafs_dev_read b d' = mkrn_yafs_dev_read b d)"
proof -
  obtain lba d' where w: "mkrn_yafs_node_write n d = (lba, d')" by fastforce
  have "ramdisk d' b = ramdisk d b" if "b \<noteq> lba" for b
    using w that by (auto simp: mkrn_yafs_node_write_def mkrn_yafs_dev_alloc_block_def mkrn_yafs_dev_write_def
      mkrn_yafs_dev_free_block_def Let_def split: if_splits)
  with assms(1,2) w show ?thesis
    by (cases rule: node_write_cases) (use assms(3) w in \<open>auto simp: mkrn_yafs_dev_read_def\<close>)
qed

theorem node_write_read_roundtrip_witness:
  "\<exists>lba d'. mkrn_yafs_node_write (node_init YAFS_NODE_LEAF 0) ydev_boot = (lba, d') \<and>
    mkrn_yafs_node_read lba d' = Some (node_init YAFS_NODE_LEAF 0)"
  using node_write_read_roundtrip[OF ydev_boot_ok(1) node_shape_init, of YAFS_NODE_LEAF 0] ydev_boot_ok(2)
  by (auto simp: node_init_def)

text \<open>Key and extent packing: the tag and the value of a made key, and the
  address and the length of a packed extent, are the low 4, 60, 48 and 16
  bits of what went in.\<close>

theorem yafs_pack_parts:
  "mkrn_yafs_key_tag (mkrn_yafs_make_key tag val) = tag AND 15 \<and>
   mkrn_yafs_key_value (mkrn_yafs_make_key tag val) = val AND YAFS_KS_VALUE_MASK \<and>
   mkrn_yafs_extent_lba (mkrn_yafs_extent_pack lba len) = lba AND YAFS_EXTENT_LBA_MASK \<and>
   mkrn_yafs_extent_length (mkrn_yafs_extent_pack lba len) = len AND 0xFFFF"
  by (simp only: key_parts extent_parts simp_thms)

end
