(* ===== verification/YafsVfs.thy ===== *)
theory YafsVfs
  imports BtreeStore Namespace "HOL-Library.Monad_Syntax"
begin

text \<open>
  Files and directories on the B+tree
  (\<open>sys/src/fs/yafs/core/yafs/yafs_vfs.c\<close>). The state is the pair of the root
  address (\<open>*pRoot\<close>, \<open>root_yafs_tree\<close>) and the device; inodes, directory
  entries and extents are entries of one tree under tagged keys. A C string is
  the list of its characters without the terminator, a null pointer is \<open>None\<close>.
  The outer \<open>None\<close> of a result is a recursion of the tree deeper than 64 levels,
  or a loop that does not return. The shared scratch buffers are locals: no call
  leaves anything in them for another. Console messages are left out.
\<close>

section \<open>Keys\<close>

definition YAFS_KS_INODE :: u64 where "YAFS_KS_INODE = 0"
definition YAFS_KS_DIR_ENTRY :: u64 where "YAFS_KS_DIR_ENTRY = 1"
definition YAFS_KS_EXTENT :: u64 where "YAFS_KS_EXTENT = 2"

definition YAFS_FT_REG_FILE :: u32 where "YAFS_FT_REG_FILE = 1"
definition YAFS_FT_DIR :: u32 where "YAFS_FT_DIR = 2"
definition YAFS_FT_SYMLINK :: u32 where "YAFS_FT_SYMLINK = 3"

definition YAFS_DATA_BLOCK_SIZE :: nat where "YAFS_DATA_BLOCK_SIZE = YAFS_BTREE_BLOCK_SIZE"
definition YAFS_MAX_FILE_BLOCKS :: u64 where "YAFS_MAX_FILE_BLOCKS = 0x10000"
definition YAFS_BLOCKS_PER_EXTENT :: u32 where "YAFS_BLOCKS_PER_EXTENT = 1"

definition mkrn_yafs_name_hash :: "u8 list \<Rightarrow> u64" where
  "mkrn_yafs_name_hash name = foldl (\<lambda>h c. (push_bit 5 h + h) + ucast c) 5381 name"

definition inode_key :: "u64 \<Rightarrow> u64" where
  "inode_key ino = mkrn_yafs_make_key YAFS_KS_INODE ino"

definition dir_key :: "u64 \<Rightarrow> u8 list \<Rightarrow> u64" where
  "dir_key parent name =
     mkrn_yafs_make_key YAFS_KS_DIR_ENTRY (push_bit 16 parent OR (mkrn_yafs_name_hash name AND 0xFFFF))"

definition extent_key :: "u64 \<Rightarrow> u64 \<Rightarrow> u64" where
  "extent_key ino blk = mkrn_yafs_make_key YAFS_KS_EXTENT (push_bit 16 ino OR (blk AND 0xFFFF))"

section \<open>Inode blocks\<close>

record yafs_inode_value =
  iv_size :: u64
  iv_blocks :: u64
  iv_ctime :: u64
  iv_mtime :: u64
  iv_uid :: u32
  iv_gid :: u32
  iv_mode :: u32
  iv_file_type :: u32
  iv_link_count :: u32
  iv_encryption_flags :: u32
  iv_name :: "u8 list"
  iv_pad :: "u8 list"

definition inode_bytes :: "yafs_inode_value \<Rightarrow> u8 list" where
  "inode_bytes iv =
     le_bytes 8 (iv_size iv) @ le_bytes 8 (iv_blocks iv) @ le_bytes 8 (iv_ctime iv) @ le_bytes 8 (iv_mtime iv) @
     le_bytes 4 (iv_uid iv) @ le_bytes 4 (iv_gid iv) @ le_bytes 4 (iv_mode iv) @ le_bytes 4 (iv_file_type iv) @
     le_bytes 4 (iv_link_count iv) @ le_bytes 4 (iv_encryption_flags iv) @ iv_name iv @ iv_pad iv"

definition inode_of_bytes :: "u8 list \<Rightarrow> yafs_inode_value" where
  "inode_of_bytes b =
     \<lparr>iv_size = le_word (take 8 b), iv_blocks = le_word (take 8 (drop 8 b)),
      iv_ctime = le_word (take 8 (drop 16 b)), iv_mtime = le_word (take 8 (drop 24 b)),
      iv_uid = le_word (take 4 (drop 32 b)), iv_gid = le_word (take 4 (drop 36 b)),
      iv_mode = le_word (take 4 (drop 40 b)), iv_file_type = le_word (take 4 (drop 44 b)),
      iv_link_count = le_word (take 4 (drop 48 b)), iv_encryption_flags = le_word (take 4 (drop 52 b)),
      iv_name = take 128 (drop 56 b), iv_pad = take 8 (drop 184 b)\<rparr>"

text \<open>Storing the struct over the head of a block.\<close>

definition put_inode :: "yafs_inode_value \<Rightarrow> u8 list \<Rightarrow> u8 list" where
  "put_inode iv b = inode_bytes iv @ drop 192 b"

definition set_name :: "u8 list \<Rightarrow> yafs_inode_value \<Rightarrow> yafs_inode_value" where
  "set_name name iv = iv\<lparr>iv_name := (strncpy_arr (iv_name iv) name 127)[127 := 0]\<rparr>"

definition inode_zero :: yafs_inode_value where
  "inode_zero =
     \<lparr>iv_size = 0, iv_blocks = 0, iv_ctime = 0, iv_mtime = 0, iv_uid = 0, iv_gid = 0, iv_mode = 0,
      iv_file_type = 0, iv_link_count = 0, iv_encryption_flags = 0,
      iv_name = replicate 128 0, iv_pad = replicate 8 0\<rparr>"

definition zero_block :: "u8 list" where
  "zero_block = replicate YAFS_DATA_BLOCK_SIZE 0"

section \<open>Creating inodes and links\<close>

text \<open>The tree operations on the state: the status, \<open>*pInserted\<close> or
  \<open>*pDeleted\<close>, and the root and device afterwards.\<close>

definition tree_insert :: "u64 \<Rightarrow> u64 \<Rightarrow> bt_state \<Rightarrow> (int \<times> bool \<times> bt_state) option" where
  "tree_insert k v s = map_option
     (\<lambda>(res, d). (ir_status res, ir_inserted res = Some True, (ir_root res, d)))
     (mkrn_yafs_btree_insert 64 (fst s) k v (snd s))"

definition tree_delete :: "u64 \<Rightarrow> bt_state \<Rightarrow> int \<times> bool \<times> bt_state" where
  "tree_delete k s = (case mkrn_yafs_btree_delete (fst s) k (snd s) of
     (res, d) \<Rightarrow> (dr_status res, dr_deleted res, (dr_root res, d)))"

definition create_inode :: "u64 \<Rightarrow> u32 \<Rightarrow> u8 list \<Rightarrow> bt_state \<Rightarrow> (int \<times> bt_state) option" where
  "create_inode nr ftype name s =
     (let buf = put_inode (set_name name (inode_zero\<lparr>iv_file_type := ftype, iv_link_count := 1\<rparr>)) zero_block;
          (lba, d1) = mkrn_yafs_dev_alloc_block (snd s)
      in if lba = 0 then Some (-1, (fst s, d1))
         else case mkrn_yafs_dev_write lba buf d1 of
           None \<Rightarrow> Some (-1, (fst s, mkrn_yafs_dev_free_block lba d1))
         | Some d2 \<Rightarrow> do {
             (st, ins, s3) \<leftarrow> tree_insert (inode_key nr) lba (fst s, d2);
             if st \<noteq> 0 then Some (-1, (fst s3, mkrn_yafs_dev_free_block lba (snd s3)))
             else Some (0, s3)
           })"

definition create_link :: "u64 \<Rightarrow> u8 list \<Rightarrow> u64 \<Rightarrow> bt_state \<Rightarrow> (int \<times> bt_state) option" where
  "create_link parent name child s = do {
     (st, ins, s1) \<leftarrow> tree_insert (dir_key parent name) child s;
     if st \<noteq> 0 then Some (-1, s1) else if \<not> ins then Some (-1, s1) else Some (0, s1)
   }"

section \<open>Path resolution\<close>

definition lookup_name :: "u64 \<Rightarrow> u8 list \<Rightarrow> bt_state \<Rightarrow> u64" where
  "lookup_name parent name s =
     (case mkrn_yafs_btree_lookup (fst s) (dir_key parent name) (snd s) of None \<Rightarrow> 0 | Some v \<Rightarrow> v)"

text \<open>The status and, when it is 0, what is stored to \<open>*pChildInode\<close>; the second
  argument tells whether that pointer is there.\<close>

definition mkrn_yafs_lookup_name :: "u64 \<Rightarrow> u8 list option \<Rightarrow> bool \<Rightarrow> bt_state \<Rightarrow> int \<times> u64 option" where
  "mkrn_yafs_lookup_name dir name out s =
     (case name of
        None \<Rightarrow> (-1, None)
      | Some nm \<Rightarrow>
          if \<not> out then (-1, None)
          else let ino = lookup_name dir nm s in if ino = 0 then (-1, None) else (0, Some ino))"

definition parent_cb :: "u64 \<Rightarrow> u64 walk_cb" where
  "parent_cb child key val parent =
     (if mkrn_yafs_key_tag key \<noteq> YAFS_KS_DIR_ENTRY then (False, parent)
      else if val = child then (True, drop_bit 16 (mkrn_yafs_key_value key))
      else (False, parent))"

definition lookup_parent :: "u64 \<Rightarrow> bt_state \<Rightarrow> u64 option" where
  "lookup_parent child s =
     (if child = 0 then Some 0
      else if child = 1 then Some 1
      else map_option snd (mkrn_yafs_btree_walk_range 64 (fst s)
             (mkrn_yafs_make_key YAFS_KS_DIR_ENTRY 0) (mkrn_yafs_make_key (YAFS_KS_DIR_ENTRY + 1) 0)
             (parent_cb child) 0 (snd s)))"

text \<open>\<open>strchr_y\<close> and \<open>strrchr_y\<close>: the index of the character instead of a pointer to it.\<close>

fun strchr_y :: "u8 list \<Rightarrow> u8 \<Rightarrow> nat option" where
  "strchr_y [] c = None"
| "strchr_y (x # xs) c = (if x = c then Some 0 else map_option Suc (strchr_y xs c))"

fun strrchr_y :: "u8 list \<Rightarrow> u8 \<Rightarrow> nat option" where
  "strrchr_y [] c = None"
| "strrchr_y (x # xs) c =
     (case strrchr_y xs c of Some i \<Rightarrow> Some (Suc i) | None \<Rightarrow> if x = c then Some 0 else None)"

lemma strchr_y_bound: "strchr_y s c = Some i \<Longrightarrow> i < length s"
  by (induction s arbitrary: i) (auto split: if_splits)

lemma strrchr_y_bound: "strrchr_y s c = Some i \<Longrightarrow> i < length s"
  by (induction s arbitrary: i) (auto split: if_splits option.splits)

text \<open>The loop of \<open>lookup_path\<close>; a component is cut to 255 characters.\<close>

function lookup_path_loop :: "u64 \<Rightarrow> u8 list \<Rightarrow> bt_state \<Rightarrow> u64 option" where
  "lookup_path_loop ino p s =
     (case strchr_y p 47 of
        Some plen \<Rightarrow>
          if plen = 0 then lookup_path_loop ino (drop 1 p) s
          else
            (let comp = take (min plen 255) p; rest = drop (Suc plen) p in
             if comp = [46] then lookup_path_loop ino rest s
             else if comp = [46, 46] then
               (case lookup_parent ino s of
                  None \<Rightarrow> None
                | Some up \<Rightarrow> if up = 0 then Some 0 else lookup_path_loop up rest s)
             else let sub = lookup_name ino comp s in
               if sub = 0 then Some 0 else lookup_path_loop sub rest s)
      | None \<Rightarrow>
          if p = [] then Some ino
          else if p = [46] then Some ino
          else if p = [46, 46] then lookup_parent ino s
          else Some (lookup_name ino p s))"
  by pat_completeness auto
termination
  by (relation "measure (\<lambda>(ino, p, s). length p)") (auto dest: strchr_y_bound)

declare lookup_path_loop.simps [simp del]

definition lookup_path :: "u8 list option \<Rightarrow> bt_state \<Rightarrow> u64 option" where
  "lookup_path path s =
     (case path of None \<Rightarrow> Some 1 | Some p \<Rightarrow> if p = [] then Some 1 else lookup_path_loop 1 p s)"

definition mkrn_yafs_lookup_path :: "u8 list option \<Rightarrow> bt_state \<Rightarrow> u64 option" where
  "mkrn_yafs_lookup_path path s = lookup_path path s"

section \<open>Directory updates\<close>

text \<open>A successful call stores the new inode number to \<open>*pNewInodeOut\<close>.\<close>

definition mkrn_yafs_mkdir :: "u64 \<Rightarrow> u8 list option \<Rightarrow> u64 \<Rightarrow> bt_state \<Rightarrow> (int \<times> bt_state) option" where
  "mkrn_yafs_mkdir parent name nr s =
     (case name of
        None \<Rightarrow> Some (-1, s)
      | Some nm \<Rightarrow> do {
          (st, s1) \<leftarrow> create_inode nr YAFS_FT_DIR nm s;
          if st \<noteq> 0 then Some (-1, s1)
          else do {
            (st2, s2) \<leftarrow> create_link parent nm nr s1;
            if st2 \<noteq> 0 then
              (let s3 = (case mkrn_yafs_btree_lookup (fst s2) (inode_key nr) (snd s2) of
                           None \<Rightarrow> s2
                         | Some lba \<Rightarrow> (fst s2, mkrn_yafs_dev_free_block lba (snd s2)));
                   (st3, del, s4) = tree_delete (inode_key nr) s3
               in Some (-1, s4))
            else Some (0, s2)
          }
        })"

definition mkrn_yafs_unlink :: "u64 \<Rightarrow> u8 list option \<Rightarrow> bt_state \<Rightarrow> int \<times> bt_state" where
  "mkrn_yafs_unlink parent name s =
     (case name of
        None \<Rightarrow> (-1, s)
      | Some nm \<Rightarrow>
          (case tree_delete (dir_key parent nm) s of
             (st, del, s1) \<Rightarrow> if st \<noteq> 0 then (-1, s1) else if del then (0, s1) else (-1, s1)))"

definition mkrn_yafs_rmdir :: "u64 \<Rightarrow> u8 list option \<Rightarrow> bt_state \<Rightarrow> int \<times> bt_state" where
  "mkrn_yafs_rmdir parent name s = mkrn_yafs_unlink parent name s"

text \<open>The rename's last step: the name kept in the inode follows; every failure
  here is ignored.\<close>

definition rename_inode :: "u64 \<Rightarrow> u8 list \<Rightarrow> bt_state \<Rightarrow> bt_state" where
  "rename_inode child name s =
     (case mkrn_yafs_btree_lookup (fst s) (inode_key child) (snd s) of
        None \<Rightarrow> s
      | Some lba \<Rightarrow>
          (case mkrn_yafs_dev_read lba (snd s) of
             None \<Rightarrow> s
           | Some b \<Rightarrow>
               (case mkrn_yafs_dev_write lba (put_inode (set_name name (inode_of_bytes b)) b) (snd s) of
                  None \<Rightarrow> s
                | Some d \<Rightarrow> (fst s, d))))"

definition mkrn_yafs_rename ::
  "u64 \<Rightarrow> u8 list option \<Rightarrow> u64 \<Rightarrow> u8 list option \<Rightarrow> bt_state \<Rightarrow> (int \<times> bt_state) option" where
  "mkrn_yafs_rename old_parent old_name new_parent new_name s =
     (case (old_name, new_name) of
        (Some onm, Some nnm) \<Rightarrow>
          (let child = lookup_name old_parent onm s in
           if child = 0 then Some (-1, s)
           else do {
             (st, ins, s1) \<leftarrow> tree_insert (dir_key new_parent nnm) child s;
             if st \<noteq> 0 then Some (-1, s1)
             else if \<not> ins then Some (-1, s1)
             else
               (let (st2, del, s2) = tree_delete (dir_key old_parent onm) s1 in
                if st2 \<noteq> 0 \<or> \<not> del then Some (-1, s2)
                else Some (0, rename_inode child nnm s2))
           })
      | _ \<Rightarrow> Some (-1, s))"

section \<open>Directory listing\<close>

text \<open>A directory entry as the caller receives it; \<open>d_name\<close> is the string stored
  in the array, up to its terminator.\<close>

record mkrn_vfs_dirent =
  d_inode :: u64
  d_type :: u32
  d_name :: "u8 list"
  d_size :: u64

definition chars :: "string \<Rightarrow> u8 list" where
  "chars s = map of_char s"

text \<open>The decimal digits of an inode number, least significant first.\<close>

fun dec_rev :: "nat \<Rightarrow> u8 list" where
  "dec_rev n = (48 + of_nat (n mod 10)) # (if n div 10 > 0 then dec_rev (n div 10) else [])"

declare dec_rev.simps [simp del]

definition dirent_of :: "u64 \<Rightarrow> bt_state \<Rightarrow> mkrn_vfs_dirent" where
  "dirent_of child s =
     (case Option.bind (mkrn_yafs_btree_lookup (fst s) (inode_key child) (snd s))
             (\<lambda>lba. mkrn_yafs_dev_read lba (snd s)) of
        Some b \<Rightarrow>
          (let iv = inode_of_bytes b; name = cstr (drop 56 b) in
           if iv_file_type iv = YAFS_FT_SYMLINK
           then \<lparr>d_inode = child, d_type = 3, d_name = [45, 62] @ take 253 name, d_size = iv_size iv\<rparr>
           else \<lparr>d_inode = child, d_type = (if iv_file_type iv = YAFS_FT_DIR then 2 else 1),
                 d_name = take 255 name, d_size = iv_size iv\<rparr>)
      | None \<Rightarrow>
          \<lparr>d_inode = child, d_type = 1, d_name = chars ''ino_'' @ rev (dec_rev (unat child)), d_size = 0\<rparr>)"

text \<open>The context of the callback is the list of the entries written so far.\<close>

definition readdir_cb :: "bt_state \<Rightarrow> u64 \<Rightarrow> u32 \<Rightarrow> mkrn_vfs_dirent list walk_cb" where
  "readdir_cb s dir maxn key val out =
     (if unat maxn \<le> length out then (True, out)
      else if mkrn_yafs_key_tag key \<noteq> YAFS_KS_DIR_ENTRY then (False, out)
      else if drop_bit 16 (mkrn_yafs_key_value key) \<noteq> dir then (False, out)
      else (False, out @ [dirent_of val s]))"

definition mkrn_yafs_readdir :: "u64 \<Rightarrow> bool \<Rightarrow> u32 \<Rightarrow> bt_state \<Rightarrow> (int \<times> mkrn_vfs_dirent list) option" where
  "mkrn_yafs_readdir dir buf maxn s =
     (if fst s = 0 \<or> \<not> buf then Some (-1, [])
      else if drop_bit 16 (- 1) \<le> dir then Some (-1, [])
      else map_option (\<lambda>(r, out). (int (length out), out))
        (mkrn_yafs_btree_walk_range 64 (fst s)
           (mkrn_yafs_make_key YAFS_KS_DIR_ENTRY (push_bit 16 dir))
           (mkrn_yafs_make_key YAFS_KS_DIR_ENTRY (push_bit 16 (dir + 1)))
           (readdir_cb s dir maxn) [] (snd s)))"

definition YAFS_RAMDISK_BLOCKS :: u32 where "YAFS_RAMDISK_BLOCKS = 1024"
definition YAFS_BLOCK_SIZE :: u32 where "YAFS_BLOCK_SIZE = 4096"

text \<open>Block size, total, free and used blocks, when all four pointers are there.\<close>

definition mkrn_yafs_fs_stats :: "bool \<Rightarrow> ydev \<Rightarrow> int \<times> (u32 \<times> u32 \<times> u32 \<times> u32) option" where
  "mkrn_yafs_fs_stats ptrs d =
     (if \<not> ptrs then (-1, None)
      else let used = ucast (total_allocated d) :: u32 in
        (0, Some (YAFS_BLOCK_SIZE, YAFS_RAMDISK_BLOCKS, YAFS_RAMDISK_BLOCKS - used, used)))"

section \<open>File data\<close>

text \<open>One pass of the inner loop of the read: blocks \<open>lba\<close>, \<open>lba + 1\<close>, \<dots> of
  an extent of \<open>n\<close> blocks, while bytes are asked for. The result is the status and
  the bytes, what is still asked for and the block index.\<close>

fun read_extent :: "nat \<Rightarrow> u64 \<Rightarrow> nat \<Rightarrow> nat \<Rightarrow> u64 \<Rightarrow> u8 list \<Rightarrow> ydev \<Rightarrow> int \<times> u8 list \<times> nat \<times> nat \<times> u64" where
  "read_extent 0 lba off rem blk out d = (0, out, off, rem, blk)"
| "read_extent (Suc n) lba off rem blk out d =
     (if rem = 0 then (0, out, off, rem, blk)
      else
        let copy = min (YAFS_DATA_BLOCK_SIZE - off) rem in
        (case mkrn_yafs_dev_read lba d of
           None \<Rightarrow> (-1, out, off, rem, blk)
         | Some b \<Rightarrow>
             read_extent n (lba + 1) 0 (rem - copy) (blk + 1) (out @ take copy (drop off b)) d))"

partial_function (option) read_loop ::
  "u64 \<Rightarrow> nat \<Rightarrow> nat \<Rightarrow> u64 \<Rightarrow> u8 list \<Rightarrow> bt_state \<Rightarrow> (int \<times> u8 list) option" where
  "read_loop ino off rem blk out s =
     (if rem = 0 then Some (0, out)
      else case mkrn_yafs_btree_lookup (fst s) (extent_key ino blk) (snd s) of
        None \<Rightarrow> Some (0, out)
      | Some ext \<Rightarrow>
          if mkrn_yafs_extent_length ext = 0 then Some (0, out)
          else
            (case read_extent (unat (mkrn_yafs_extent_length ext)) (mkrn_yafs_extent_lba ext) off rem blk out (snd s) of
               (st, out1, off1, rem1, blk1) \<Rightarrow>
                 if st \<noteq> 0 then Some (-1, out1) else read_loop ino off1 rem1 blk1 out1 s))"

text \<open>The status and the bytes put into the buffer, whose number is \<open>*pRead\<close>.\<close>

definition mkrn_yafs_read_file_data :: "u64 \<Rightarrow> bool \<Rightarrow> u64 \<Rightarrow> u32 \<Rightarrow> bt_state \<Rightarrow> (int \<times> u8 list) option" where
  "mkrn_yafs_read_file_data ino ptrs offset sz s =
     (if \<not> ptrs then Some (-1, [])
      else if sz = 0 then Some (0, [])
      else
        let blk = offset div of_nat YAFS_DATA_BLOCK_SIZE; off = unat (offset mod of_nat YAFS_DATA_BLOCK_SIZE)
        in if YAFS_MAX_FILE_BLOCKS \<le> blk then Some (0, [])
           else read_loop ino off (unat sz) blk [] s)"

definition blit :: "u8 list \<Rightarrow> nat \<Rightarrow> u8 list \<Rightarrow> u8 list" where
  "blit b off xs = take off b @ xs @ drop (off + length xs) b"

text \<open>The body of the write loop: the status and the state. A hole gets a fresh
  block, registered after its data is on the device.\<close>

definition write_hole :: "u64 \<Rightarrow> nat \<Rightarrow> u8 list \<Rightarrow> bt_state \<Rightarrow> (int \<times> bt_state) option" where
  "write_hole key off xs s =
     (let (lba, d1) = mkrn_yafs_dev_alloc_block (snd s) in
      if lba = 0 then Some (-1, (fst s, d1))
      else case mkrn_yafs_dev_write lba (blit zero_block off xs) d1 of
        None \<Rightarrow> Some (-1, (fst s, mkrn_yafs_dev_free_block lba d1))
      | Some d2 \<Rightarrow> do {
          (st, ins, s3) \<leftarrow> tree_insert key (mkrn_yafs_extent_pack lba YAFS_BLOCKS_PER_EXTENT) (fst s, d2);
          if st \<noteq> 0 then Some (-1, (fst s3, mkrn_yafs_dev_free_block lba (snd s3)))
          else Some (0, s3)
        })"

definition write_found :: "u64 \<Rightarrow> nat \<Rightarrow> u8 list \<Rightarrow> bt_state \<Rightarrow> int \<times> bt_state" where
  "write_found lba off xs s =
     (if off = 0 \<and> length xs = YAFS_DATA_BLOCK_SIZE
      then case mkrn_yafs_dev_write lba xs (snd s) of None \<Rightarrow> (-1, s) | Some d \<Rightarrow> (0, (fst s, d))
      else case mkrn_yafs_dev_read lba (snd s) of
        None \<Rightarrow> (-1, s)
      | Some b \<Rightarrow>
          (case mkrn_yafs_dev_write lba (blit b off xs) (snd s) of None \<Rightarrow> (-1, s) | Some d \<Rightarrow> (0, (fst s, d))))"

definition write_block :: "u64 \<Rightarrow> u64 \<Rightarrow> nat \<Rightarrow> u8 list \<Rightarrow> bt_state \<Rightarrow> (int \<times> bt_state) option" where
  "write_block ino blk off xs s =
     (case mkrn_yafs_btree_lookup (fst s) (extent_key ino blk) (snd s) of
        None \<Rightarrow> write_hole (extent_key ino blk) off xs s
      | Some ext \<Rightarrow>
          if mkrn_yafs_extent_length ext = 0 then write_hole (extent_key ino blk) off xs s
          else Some (write_found (mkrn_yafs_extent_lba ext) off xs s))"

text \<open>The loop: the status, \<open>*pWritten\<close> and the state.\<close>

partial_function (option) write_loop ::
  "u64 \<Rightarrow> u64 \<Rightarrow> nat \<Rightarrow> u8 list \<Rightarrow> nat \<Rightarrow> bt_state \<Rightarrow> (int \<times> nat \<times> bt_state) option" where
  "write_loop ino blk off inb written s =
     (if inb = [] then Some (0, written, s)
      else
        let copy = min (YAFS_DATA_BLOCK_SIZE - off) (length inb) in
        Option.bind (write_block ino blk off (take copy inb) s) (\<lambda>(st, s1).
          if st \<noteq> 0 then Some (-1, written, s1)
          else write_loop ino (blk + 1) 0 (drop copy inb) (written + copy) s1))"

definition grow_inode :: "u64 \<Rightarrow> u64 \<Rightarrow> nat \<Rightarrow> bt_state \<Rightarrow> bt_state" where
  "grow_inode ino offset written s =
     (case mkrn_yafs_btree_lookup (fst s) (inode_key ino) (snd s) of
        None \<Rightarrow> s
      | Some lba \<Rightarrow>
          (case mkrn_yafs_dev_read lba (snd s) of
             None \<Rightarrow> s
           | Some b \<Rightarrow>
               let iv = inode_of_bytes b;
                   new_size = offset + of_nat written;
                   needed = (new_size + of_nat YAFS_DATA_BLOCK_SIZE - 1) div of_nat YAFS_DATA_BLOCK_SIZE;
                   iv1 = (if iv_size iv < new_size then iv\<lparr>iv_size := new_size\<rparr> else iv);
                   iv2 = (if iv_blocks iv < needed then iv1\<lparr>iv_blocks := needed\<rparr> else iv1)
               in (case mkrn_yafs_dev_write lba (put_inode iv2 b) (snd s) of
                     None \<Rightarrow> s
                   | Some d \<Rightarrow> (fst s, d))))"

definition mkrn_yafs_write_file_data ::
  "u64 \<Rightarrow> u8 list option \<Rightarrow> u64 \<Rightarrow> bt_state \<Rightarrow> (int \<times> nat \<times> bt_state) option" where
  "mkrn_yafs_write_file_data ino buf offset s =
     (case buf of
        None \<Rightarrow> Some (-1, 0, s)
      | Some inb \<Rightarrow>
          if inb = [] then Some (0, 0, s)
          else
            let blk = offset div of_nat YAFS_DATA_BLOCK_SIZE; off = unat (offset mod of_nat YAFS_DATA_BLOCK_SIZE)
            in if YAFS_MAX_FILE_BLOCKS \<le> blk then Some (0, 0, s)
               else do {
                 (st, written, s1) \<leftarrow> write_loop ino blk off inb 0 s;
                 if st \<noteq> 0 then Some (-1, written, s1)
                 else Some (0, written, grow_inode ino offset written s1)
               })"

text \<open>The truncation's loop over the block indices \<open>b\<close>, \<open>b + 1\<close>, \<dots>, \<open>n\<close> of them.\<close>

fun truncate_loop :: "u64 \<Rightarrow> u64 \<Rightarrow> nat \<Rightarrow> bt_state \<Rightarrow> bt_state" where
  "truncate_loop ino b 0 s = s"
| "truncate_loop ino b (Suc n) s =
     (case mkrn_yafs_btree_lookup (fst s) (extent_key ino b) (snd s) of
        None \<Rightarrow> truncate_loop ino (b + 1) n s
      | Some ext \<Rightarrow>
          truncate_loop ino (b + 1) n
            (snd (snd (tree_delete (extent_key ino b)
              (fst s, mkrn_yafs_dev_free_block (mkrn_yafs_extent_lba ext) (snd s))))))"

definition mkrn_yafs_truncate_inode :: "u64 \<Rightarrow> bt_state \<Rightarrow> int \<times> bt_state" where
  "mkrn_yafs_truncate_inode ino s =
     (if ino = 0 then (-1, s)
      else case mkrn_yafs_btree_lookup (fst s) (inode_key ino) (snd s) of
        None \<Rightarrow> (-1, s)
      | Some lba \<Rightarrow>
          (case mkrn_yafs_dev_read lba (snd s) of
             None \<Rightarrow> (-1, s)
           | Some b \<Rightarrow>
               let iv = inode_of_bytes b in
               if iv_file_type iv \<noteq> YAFS_FT_REG_FILE then (-1, s)
               else
                 let s1 = truncate_loop ino 0 (unat (min (iv_blocks iv) YAFS_MAX_FILE_BLOCKS)) s in
                 (case mkrn_yafs_dev_write lba (put_inode (iv\<lparr>iv_size := 0, iv_blocks := 0\<rparr>) b) (snd s1) of
                    None \<Rightarrow> (-1, s1)
                  | Some d \<Rightarrow> (0, (fst s1, d)))))"

end
