(* ===== verification/YafsStore.thy ===== *)
theory YafsStore
  imports YafsVfs
begin

text \<open>
  The file system as a finite map. Every key of the tree stands for a directory
  entry (an inode number) or for a block (of an inode, of file data); \<open>fs_rep\<close>
  relates the root address and the device to that map. The lemmas of this theory
  are the laws the operations on files and directories rest on: overwriting a
  block in place, adding one, adding and deleting entries, each as an update of
  the map. They need the tree to keep off the blocks it points to.
\<close>

section \<open>Blocks outside the tree\<close>

definition set_block :: "u64 \<Rightarrow> u8 list \<Rightarrow> ydev \<Rightarrow> ydev" where
  "set_block b x d = d\<lparr>ramdisk := (ramdisk d)(b := x)\<rparr>"

lemma set_block_simps [simp]:
  "ramdisk (set_block b x d) = (ramdisk d)(b := x)"
  "next_free_block (set_block b x d) = next_free_block d"
  "room (set_block b x d) = room d"
  by (simp_all add: set_block_def room_def)

lemma tree_at_set_block:
  "b \<in> D \<Longrightarrow> tree_at D h d lo hi lba kvs \<Longrightarrow> tree_at D h (set_block b x d) lo hi lba kvs"
proof (induction h arbitrary: lo hi lba kvs)
  case 0
  then show ?case by (auto simp: mkrn_yafs_node_read_def mkrn_yafs_dev_read_def)
next
  case (Suc h)
  then obtain n where n: "lba \<noteq> 0" "lba < next_free_block d" "lba \<notin> D" "mkrn_yafs_node_read lba d = Some n" "node_shape n"
    "cnt n \<le> 248" "inner_rep (tree_at D h d) n lo hi kvs" by auto
  have "inner_rep (tree_at D h (set_block b x d)) n lo hi kvs"
    using n(7) Suc.IH[OF Suc.prems(1)] by (rule inner_rep_mono)
  moreover have "mkrn_yafs_node_read lba (set_block b x d) = Some n"
    using n(3,4) Suc.prems(1) by (auto simp: mkrn_yafs_node_read_def mkrn_yafs_dev_read_def)
  ultimately show ?case using n by auto
qed

lemma tree_at_more:
  assumes "\<forall>b \<in> E. next_free_block d \<le> b" "tree_at D h d lo hi lba kvs"
  shows "tree_at (D \<union> E) h d lo hi lba kvs"
  using assms(2)
proof (induction h arbitrary: lo hi lba kvs)
  case 0
  then show ?case using assms(1) by fastforce
next
  case (Suc h)
  then obtain n where n: "lba \<noteq> 0" "lba < next_free_block d" "lba \<notin> D" "mkrn_yafs_node_read lba d = Some n" "node_shape n"
    "cnt n \<le> 248" "inner_rep (tree_at D h d) n lo hi kvs" by auto
  have "inner_rep (tree_at (D \<union> E) h d) n lo hi kvs" using n(7) Suc.IH by (rule inner_rep_mono)
  moreover have "lba \<notin> E" using n(2) assms(1) by (auto simp: not_le[symmetric])
  ultimately show ?case using n by auto
qed

lemma bt_repr_overwrite:
  assumes "bt_repr D n (root, d) m" "b \<in> D" "length x = YAFS_BTREE_BLOCK_SIZE"
  shows "bt_repr D n (root, set_block b x d) m"
proof -
  obtain h kvs H where r: "btree_repr D h d root kvs" "m = map_of kvs" "h \<le> H" "H \<le> 16"
    "root_pot h d root + n < 248 * Suc H" "(2 * H + 3) * n \<le> room d"
    using assms(1) by (auto simp: bt_repr_def)
  have "btree_repr D h (set_block b x d) root kvs"
    using r(1) assms(2,3) by (auto simp: btree_repr_def dev_ok_def tree_at_set_block split: if_splits)
  moreover have "root_pot h (set_block b x d) root = root_pot h d root"
    using r(1) assms(2) unfolding btree_repr_def tree_at_node
    by (auto simp: root_pot_def mkrn_yafs_node_read_def mkrn_yafs_dev_read_def)
  ultimately show ?thesis using r(2-6) by (fastforce simp: bt_repr_def)
qed

lemma bt_repr_dev:
  assumes "bt_repr D n (root, d) m"
  shows "\<And>b. length (ramdisk d b) = YAFS_BTREE_BLOCK_SIZE" "next_free_block d \<le> RAMDISK_BLOCKS"
    "\<And>b. b \<in> D \<Longrightarrow> b < next_free_block d" "3 \<le> next_free_block d"
  using assms by (auto simp: bt_repr_def btree_repr_def dev_ok_def)

text \<open>An allocation hands out a fresh block and costs one unit of the budget.\<close>

lemma bt_repr_alloc:
  assumes "bt_repr D (Suc n) (root, d) m" "mkrn_yafs_dev_alloc_block d = (lba, d')"
  shows "lba \<noteq> 0" "lba < RAMDISK_BLOCKS" "lba = next_free_block d" "lba \<notin> D" "dev_ext d d'"
    "bt_repr (insert lba D) n (root, d') m"
proof -
  obtain h kvs H where r: "btree_repr D h d root kvs" "m = map_of kvs" "h \<le> H" "H \<le> 16"
    "root_pot h d root + Suc n < 248 * Suc H" "(2 * H + 3) * Suc n \<le> room d"
    using assms(1) by (auto simp: bt_repr_def)
  have ok: "dev_ok D d" using r(1) by (simp add: btree_repr_def)
  have lt: "next_free_block d < RAMDISK_BLOCKS"
    using r(6) by (simp add: room_def RAMDISK_BLOCKS_def word_less_nat_alt)
  note st = next_free_step[OF ok lt]
  have d': "lba = next_free_block d" "d' = d\<lparr>next_free_block := lba + 1,
      ramdisk := (ramdisk d)(lba := replicate YAFS_BTREE_BLOCK_SIZE 0), total_allocated := total_allocated d + 1\<rparr>"
    using assms(2) lt by (auto simp: mkrn_yafs_dev_alloc_block_def Let_def split: if_splits)
  show ext: "dev_ext d d'" using st(2) by (auto simp: d' dev_ext_def)
  show "lba \<noteq> 0" using ok d'(1) by (auto simp: dev_ok_def)
  show "lba < RAMDISK_BLOCKS" "lba = next_free_block d" using lt d'(1) by simp_all
  show "lba \<notin> D" using ok d'(1) by (auto simp: dev_ok_def)
  have ok': "dev_ok (insert lba D) d'"
    using ok st(2,3) by (auto simp: d' dev_ok_def intro: order_trans less_trans)
  have "btree_repr (insert lba D) h d' root kvs"
  proof (cases "root = 0")
    case False
    then have "tree_at (D \<union> {lba}) h d 0 18446744073709551616 root kvs"
      using r(1) by (intro tree_at_more) (auto simp: btree_repr_def d'(1))
    from tree_at_ext[OF ext this] show ?thesis using False ok' by (simp add: btree_repr_def)
  qed (use r(1) ok' in \<open>simp add: btree_repr_def\<close>)
  moreover have "root_pot h d' root = root_pot h d root"
    using r(1) node_read_ext[OF ext, of root] unfolding btree_repr_def tree_at_node by (auto simp: root_pot_def)
  moreover have "room d = Suc (room d')" using st(1) lt
    by (simp add: room_def d' RAMDISK_BLOCKS_def word_less_nat_alt)
  ultimately show "bt_repr (insert lba D) n (root, d') m"
    unfolding bt_repr_def using r(2-6) by (intro exI[of _ h] exI[of _ kvs] exI[of _ H]) simp
qed

lemma bt_lookup: "bt_repr D n s m \<Longrightarrow> mkrn_yafs_btree_lookup (fst s) k (snd s) = m k"
  using bt.get_law[of D n s m k] by (simp add: bt_get_def)

lemma bt_free_block [simp]: "bt_repr D n (root, mkrn_yafs_dev_free_block b d) m = bt_repr D n (root, d) m"
proof -
  have rd: "mkrn_yafs_node_read lba (mkrn_yafs_dev_free_block b d) = mkrn_yafs_node_read lba d" for lba
    by (simp add: mkrn_yafs_node_read_def mkrn_yafs_dev_read_def)
  have "tree_at D h (mkrn_yafs_dev_free_block b d) = tree_at D h d" for h
    by (induction h) (simp_all add: rd)
  then show ?thesis by (simp add: bt_repr_def btree_repr_def root_pot_def rd)
qed

section \<open>The map of entries and blocks\<close>

datatype fs_val = Entry u64 | Block "u8 list"

definition is_block_key :: "u64 \<Rightarrow> bool" where
  "is_block_key k \<longleftrightarrow> mkrn_yafs_key_tag k = YAFS_KS_INODE \<or> mkrn_yafs_key_tag k = YAFS_KS_EXTENT"

definition blk_of :: "u64 \<Rightarrow> u64 \<Rightarrow> u64" where
  "blk_of k v = (if mkrn_yafs_key_tag k = YAFS_KS_EXTENT then mkrn_yafs_extent_lba v else v)"

definition val_of :: "u64 \<Rightarrow> u64 \<Rightarrow> u64" where
  "val_of k lba = (if mkrn_yafs_key_tag k = YAFS_KS_EXTENT
     then mkrn_yafs_extent_pack lba YAFS_BLOCKS_PER_EXTENT else lba)"

definition fs_abs :: "(u64 \<rightharpoonup> u64) \<Rightarrow> ydev \<Rightarrow> u64 \<Rightarrow> fs_val option" where
  "fs_abs m d k = map_option (\<lambda>v. if is_block_key k then Block (ramdisk d (blk_of k v)) else Entry v) (m k)"

definition fs_inv :: "u64 set \<Rightarrow> (u64 \<rightharpoonup> u64) \<Rightarrow> bool" where
  "fs_inv D m \<longleftrightarrow>
     (\<forall>k v. m k = Some v \<longrightarrow> is_block_key k \<longrightarrow> blk_of k v \<in> D) \<and>
     (\<forall>k k' v v'. m k = Some v \<longrightarrow> m k' = Some v' \<longrightarrow> is_block_key k \<longrightarrow> is_block_key k' \<longrightarrow>
        blk_of k v = blk_of k' v' \<longrightarrow> k = k') \<and>
     (\<forall>k v. m k = Some v \<longrightarrow> mkrn_yafs_key_tag k = YAFS_KS_EXTENT \<longrightarrow> mkrn_yafs_extent_length v = 1)"

definition fs_rep :: "nat \<Rightarrow> bt_state \<Rightarrow> (u64 \<rightharpoonup> fs_val) \<Rightarrow> bool" where
  "fs_rep n s A \<longleftrightarrow> (\<exists>D m. bt_repr D n s m \<and> fs_inv D m \<and> A = fs_abs m (snd s))"

lemma fs_abs_None [simp]: "fs_abs m d k = None \<longleftrightarrow> m k = None"
  by (simp add: fs_abs_def)

text \<open>The tree operations leave the client's blocks alone.\<close>

lemma fs_abs_ext:
  assumes "bt_repr D n (root, d) m" "fs_inv D m'" "dev_ext d d'"
  shows "fs_abs m' d' = fs_abs m' d"
proof
  fix k
  have "ramdisk d' b = ramdisk d b" if "b \<in> D" for b
    using assms(3) bt_repr_dev(3)[OF assms(1) that] by (simp add: dev_ext_def)
  then show "fs_abs m' d' k = fs_abs m' d k" using assms(2) by (cases "m' k") (auto simp: fs_abs_def fs_inv_def)
qed

lemma fs_inv_del: "fs_inv D m \<Longrightarrow> fs_inv D (m(k := None))"
  by (simp add: fs_inv_def)

lemma fs_inv_entry: "fs_inv D m \<Longrightarrow> \<not> is_block_key k \<Longrightarrow> fs_inv D (m(k \<mapsto> v))"
  unfolding fs_inv_def is_block_key_def by simp

lemma fs_rep_lookup_None: "fs_rep n s A \<Longrightarrow> A k = None \<Longrightarrow> mkrn_yafs_btree_lookup (fst s) k (snd s) = None"
  by (auto simp: fs_rep_def bt_lookup)

lemma fs_rep_lookup_Entry:
  "fs_rep n s A \<Longrightarrow> \<not> is_block_key k \<Longrightarrow> A k = Some a \<Longrightarrow>
   \<exists>v. a = Entry v \<and> mkrn_yafs_btree_lookup (fst s) k (snd s) = Some v"
  by (auto simp: fs_rep_def bt_lookup fs_abs_def)

lemma fs_rep_lookup_Block:
  assumes "fs_rep n s A" "is_block_key k" "A k = Some a"
  obtains b v where "a = Block b" "length b = YAFS_BTREE_BLOCK_SIZE"
    "mkrn_yafs_btree_lookup (fst s) k (snd s) = Some v" "mkrn_yafs_dev_read (blk_of k v) (snd s) = Some b"
    "mkrn_yafs_key_tag k = YAFS_KS_EXTENT \<Longrightarrow> mkrn_yafs_extent_length v = 1"
    "\<And>x. mkrn_yafs_dev_write (blk_of k v) x (snd s) = Some (set_block (blk_of k v) x (snd s))"
    "\<And>x. length x = YAFS_BTREE_BLOCK_SIZE \<Longrightarrow> fs_rep n (fst s, set_block (blk_of k v) x (snd s)) (A(k \<mapsto> Block x))"
proof -
  obtain root d where s: "s = (root, d)" by (cases s)
  obtain D m where m: "bt_repr D n (root, d) m" "fs_inv D m" "A = fs_abs m d"
    using assms(1) by (auto simp: fs_rep_def s)
  obtain v where v: "m k = Some v" "a = Block (ramdisk d (blk_of k v))"
    using assms(2,3) by (auto simp: m(3) fs_abs_def)
  note dv = bt_repr_dev[OF m(1)]
  have D: "blk_of k v \<in> D" using m(2) v(1) assms(2) by (simp add: fs_inv_def)
  then have lt: "blk_of k v < RAMDISK_BLOCKS" using dv(2) dv(3) by (meson less_le_trans)
  have "fs_abs m (set_block (blk_of k v) x d) = (fs_abs m d)(k \<mapsto> Block x)" for x
  proof
    fix k'
    have "k' \<noteq> k \<Longrightarrow> m k' = Some v' \<Longrightarrow> is_block_key k' \<Longrightarrow> blk_of k' v' \<noteq> blk_of k v" for v'
      using m(2) v(1) assms(2) unfolding fs_inv_def by metis
    then show "fs_abs m (set_block (blk_of k v) x d) k' = ((fs_abs m d)(k \<mapsto> Block x)) k'"
      using v(1) assms(2) by (cases "m k'") (auto simp: fs_abs_def)
  qed
  then have "length x = YAFS_BTREE_BLOCK_SIZE \<Longrightarrow> fs_rep n (root, set_block (blk_of k v) x d) (A(k \<mapsto> Block x))" for x
    using bt_repr_overwrite[OF m(1) D] m(2,3) unfolding fs_rep_def by fastforce
  with v dv(1) lt m(2) show ?thesis
    by (intro that[of "ramdisk d (blk_of k v)" v])
      (auto simp: s bt_lookup[OF m(1), simplified] mkrn_yafs_dev_read_def mkrn_yafs_dev_write_def set_block_def fs_inv_def)
qed

lemma tree_insert_ok:
  assumes "bt_repr D (Suc n) s m"
  shows "\<exists>s'. tree_insert k v s = Some (0, m k = None, s') \<and> dev_ext (snd s) (snd s') \<and> bt_repr D n s' (m(k \<mapsto> v))"
  using bt_put_spec[OF assms, of k v] by (auto simp: tree_insert_def)

text \<open>A directory entry.\<close>

lemma fs_rep_put_entry:
  assumes "fs_rep (Suc n) s A" "\<not> is_block_key k"
  shows "\<exists>s'. tree_insert k v s = Some (0, A k = None, s') \<and> fs_rep n s' (A(k \<mapsto> Entry v))"
proof -
  obtain D m where m: "bt_repr D (Suc n) s m" "fs_inv D m" "A = fs_abs m (snd s)"
    using assms(1) by (auto simp: fs_rep_def)
  obtain s' where s': "tree_insert k v s = Some (0, m k = None, s')" "dev_ext (snd s) (snd s')" "bt_repr D n s' (m(k \<mapsto> v))"
    using tree_insert_ok[OF m(1)] by blast
  have inv: "fs_inv D (m(k \<mapsto> v))" using m(2) assms(2) by (rule fs_inv_entry)
  have "fs_abs (m(k \<mapsto> v)) (snd s') = A(k \<mapsto> Entry v)"
    using fs_abs_ext[of D "Suc n" "fst s" "snd s" m, OF _ inv s'(2)] m(1) assms(2) by (auto simp: m(3) fs_abs_def fun_eq_iff)
  with s' inv show ?thesis unfolding fs_rep_def m(3) by (fastforce simp: m(3))
qed

lemma fs_rep_delete:
  assumes "fs_rep (Suc n) s A"
  shows "\<exists>st s'. tree_delete k s = (st, A k \<noteq> None, s') \<and> (A k \<noteq> None \<longrightarrow> st = 0) \<and> fs_rep n s' (A(k := None)) \<and>
    (\<forall>j. j \<noteq> k \<longrightarrow> mkrn_yafs_btree_lookup (fst s') j (snd s') = mkrn_yafs_btree_lookup (fst s) j (snd s))"
proof -
  obtain D m where m: "bt_repr D (Suc n) s m" "fs_inv D m" "A = fs_abs m (snd s)"
    using assms(1) by (auto simp: fs_rep_def)
  show ?thesis
  proof (cases "fst s = 0")
    case True
    then have "m = Map.empty" using m(1) by (auto simp: bt_repr_def btree_repr_def)
    then have "A = Map.empty" by (auto simp: m(3) fs_abs_def)
    moreover have "fs_rep n s A" using m bt.repr_mono[OF m(1)] by (auto simp: fs_rep_def)
    moreover have "tree_delete k s = (-1, False, s)"
      using True by (cases s) (simp add: tree_delete_def mkrn_yafs_btree_delete_def)
    ultimately show ?thesis by auto
  next
    case False
    then obtain res d' where d: "mkrn_yafs_btree_delete (fst s) k (snd s) = (res, d')" "dr_status res = 0"
      "dr_deleted res = (m k \<noteq> None)" "dev_ext (snd s) d'" "bt_repr D n (dr_root res, d') (m(k := None))"
      using bt_del_spec[OF m(1)] by blast
    have inv: "fs_inv D (m(k := None))" using m(2) by (rule fs_inv_del)
    have "fs_abs (m(k := None)) d' = A(k := None)"
      using fs_abs_ext[of D "Suc n" "fst s" "snd s" m, OF _ inv d(4)] m(1) by (auto simp: m(3) fs_abs_def fun_eq_iff)
    moreover have "\<forall>j. j \<noteq> k \<longrightarrow> mkrn_yafs_btree_lookup (dr_root res) j d' = mkrn_yafs_btree_lookup (fst s) j (snd s)"
      using bt_lookup[OF d(5)] bt_lookup[OF m(1)] by simp
    ultimately show ?thesis using d inv
      by (auto simp: tree_delete_def m(3) fs_rep_def intro!: exI[of _ D] exI[of _ "m(k := None)"])
  qed
qed

text \<open>A block: allocate, fill, register.\<close>

lemma fs_inv_block:
  assumes "fs_inv D m" "lba \<notin> D" "lba < RAMDISK_BLOCKS" "is_block_key k"
  shows "fs_inv (insert lba D) (m(k \<mapsto> val_of k lba))" "blk_of k (val_of k lba) = lba"
proof -
  have "lba AND YAFS_EXTENT_LBA_MASK = lba"
  proof -
    have "unat lba < 2 ^ 48" using assms(3) by (simp add: RAMDISK_BLOCKS_def word_less_nat_alt)
    then have "take_bit 48 lba = lba" by (intro unsigned_word_eqI[where ?'a = nat]) (simp add: unsigned_take_bit_eq take_bit_nat_eq_self)
    then show ?thesis unfolding lba_mask by (simp add: take_bit_eq_mask)
  qed
  then show b: "blk_of k (val_of k lba) = lba" by (simp add: blk_of_def val_of_def extent_parts)
  have "mkrn_yafs_key_tag k = YAFS_KS_EXTENT \<Longrightarrow> mkrn_yafs_extent_length (val_of k lba) = 1"
    by (simp add: val_of_def extent_parts YAFS_BLOCKS_PER_EXTENT_def)
  then show "fs_inv (insert lba D) (m(k \<mapsto> val_of k lba))"
    using assms(1,2) b unfolding fs_inv_def by (auto split: if_splits)
qed

lemma fs_rep_add_block:
  assumes "fs_rep (Suc (Suc n)) s A" "is_block_key k" "length x = YAFS_BTREE_BLOCK_SIZE"
  shows "\<exists>lba d1 d2 s'. mkrn_yafs_dev_alloc_block (snd s) = (lba, d1) \<and> lba \<noteq> 0 \<and>
    mkrn_yafs_dev_write lba x d1 = Some d2 \<and>
    tree_insert k (val_of k lba) (fst s, d2) = Some (0, A k = None, s') \<and> fs_rep n s' (A(k \<mapsto> Block x))"
proof -
  obtain root d where s: "s = (root, d)" by (cases s)
  obtain D m where m: "bt_repr D (Suc (Suc n)) (root, d) m" "fs_inv D m" "A = fs_abs m d"
    using assms(1) by (auto simp: fs_rep_def s)
  obtain lba d1 where al: "mkrn_yafs_dev_alloc_block d = (lba, d1)" by fastforce
  note a = bt_repr_alloc[OF m(1) al]
  define d2 where "d2 = set_block lba x d1"
  have w: "mkrn_yafs_dev_write lba x d1 = Some d2" using a(2) by (simp add: mkrn_yafs_dev_write_def d2_def set_block_def)
  have r2: "bt_repr (insert lba D) (Suc n) (root, d2) m"
    unfolding d2_def using a(6) assms(3) by (intro bt_repr_overwrite) auto
  obtain s' where s': "tree_insert k (val_of k lba) (root, d2) = Some (0, m k = None, s')" "dev_ext d2 (snd s')"
    "bt_repr (insert lba D) n s' (m(k \<mapsto> val_of k lba))" using tree_insert_ok[OF r2, of k "val_of k lba"] by auto
  note inv = fs_inv_block[OF m(2) a(4,2) assms(2)]
  have "ramdisk d2 b = ramdisk d b" if "b \<in> D" for b
    using that a(4,5) bt_repr_dev(3)[OF m(1) that] by (auto simp: d2_def dev_ext_def)
  then have "fs_abs (m(k \<mapsto> val_of k lba)) d2 = A(k \<mapsto> Block x)"
    using m(2) assms(2) inv(2) by (auto simp: m(3) fs_abs_def fun_eq_iff fs_inv_def d2_def intro!: option.map_cong)
  moreover have "fs_abs (m(k \<mapsto> val_of k lba)) (snd s') = fs_abs (m(k \<mapsto> val_of k lba)) d2"
    using fs_abs_ext[OF r2 inv(1) s'(2)] .
  ultimately have "A(k \<mapsto> Block x) = fs_abs (m(k \<mapsto> val_of k lba)) (snd s')" by simp
  then have "fs_rep n s' (A(k \<mapsto> Block x))" unfolding fs_rep_def using s'(3) inv(1) by blast
  then show ?thesis using al a(1) w s'(1)
    by (intro exI[of _ lba] exI[of _ d1] exI[of _ d2] exI[of _ s']) (simp add: s m(3))
qed

lemma fs_rep_mono: "fs_rep (Suc n) s A \<Longrightarrow> fs_rep n s A"
  unfolding fs_rep_def using bt.repr_mono by blast

lemma fs_rep_le: "fs_rep n s A \<Longrightarrow> k \<le> n \<Longrightarrow> fs_rep k s A"
  by (induction n) (auto simp: le_Suc_eq dest: fs_rep_mono)

end
