(* ===== verification/YafsFile.thy ===== *)
theory YafsFile
  imports YafsStore
begin

text \<open>
  File data on YAFS against its reference: a file is a partial function from
  positions to bytes, read off the map of \<open>YafsStore\<close>. A write is one closed
  update of the map (\<open>fs_write\<close>), a read returns the longest run of present
  bytes (\<open>fs_read\<close>).
\<close>

section \<open>Keys of different kinds\<close>

lemma and_FFFF [simp]: "(b :: u64) AND 0xFFFF = take_bit 16 b"
proof -
  have "0xFFFF = (mask 16 :: u64)" by (simp add: mask_eq_exp_minus_1)
  then show ?thesis by (simp only: take_bit_eq_mask)
qed

lemma key_tags [simp]:
  "mkrn_yafs_key_tag (inode_key i) = YAFS_KS_INODE"
  "mkrn_yafs_key_tag (dir_key i nm) = YAFS_KS_DIR_ENTRY"
  "mkrn_yafs_key_tag (extent_key i b) = YAFS_KS_EXTENT"
  by (simp_all add: inode_key_def dir_key_def extent_key_def key_parts YAFS_KS_INODE_def YAFS_KS_DIR_ENTRY_def
    YAFS_KS_EXTENT_def)

lemma block_keys [simp]: "is_block_key (inode_key i)" "is_block_key (extent_key i b)" "\<not> is_block_key (dir_key i nm)"
  by (simp_all add: is_block_key_def) (simp add: YAFS_KS_INODE_def YAFS_KS_DIR_ENTRY_def YAFS_KS_EXTENT_def)

lemma tag_neq: "mkrn_yafs_key_tag a \<noteq> mkrn_yafs_key_tag b \<Longrightarrow> a \<noteq> b"
  by auto

lemma key_kinds_differ [simp]:
  "inode_key i \<noteq> dir_key j nm" "inode_key i \<noteq> extent_key j b" "dir_key j nm \<noteq> extent_key i b"
  "dir_key j nm \<noteq> inode_key i" "extent_key j b \<noteq> inode_key i" "extent_key i b \<noteq> dir_key j nm"
  by (rule tag_neq, simp add: YAFS_KS_INODE_def YAFS_KS_DIR_ENTRY_def YAFS_KS_EXTENT_def)+

lemma key_value_split:
  fixes hi lo :: u64
  shows "drop_bit 16 (mkrn_yafs_key_value (mkrn_yafs_make_key t (push_bit 16 hi OR take_bit 16 lo))) = take_bit 44 hi"
    and "take_bit 16 (mkrn_yafs_key_value (mkrn_yafs_make_key t (push_bit 16 hi OR take_bit 16 lo))) = take_bit 16 lo"
  unfolding key_parts(2) value_mask by (intro bit_word_eqI; auto simp: bit_simps)+

lemma take_bit_small: "unat (x :: u64) < 2 ^ n \<Longrightarrow> take_bit n x = x"
  by (intro unsigned_word_eqI[where ?'a = nat]) (simp add: unsigned_take_bit_eq take_bit_nat_eq_self)

abbreviation small_ino :: "u64 \<Rightarrow> bool" where
  "small_ino i \<equiv> unat i < 2 ^ 44"

lemma extent_key_index: "unat b < 65536 \<Longrightarrow> take_bit 16 (mkrn_yafs_key_value (extent_key i b)) = b"
  using take_bit_small[of b 16] key_value_split(2)[of YAFS_KS_EXTENT i b] by (simp add: extent_key_def)

lemma unat_index [simp]: "b < 65536 \<Longrightarrow> unat (of_nat b :: u64) = b"
  by (simp add: unsigned_of_nat take_bit_nat_eq_self)

lemma extent_key_inode: "small_ino i \<Longrightarrow> drop_bit 16 (mkrn_yafs_key_value (extent_key i b)) = i"
  using take_bit_small[of i 44] by (simp add: extent_key_def key_value_split)

lemma extent_key_inj:
  assumes "small_ino i" "small_ino j" "unat b < 65536" "unat c < 65536"
  shows "extent_key i b = extent_key j c \<longleftrightarrow> i = j \<and> b = c"
  using extent_key_index[OF assms(3), of i] extent_key_index[OF assms(4), of j]
    extent_key_inode[OF assms(1), of b] extent_key_inode[OF assms(2), of c] by metis

lemma inode_key_inj:
  assumes "small_ino i" "small_ino j"
  shows "inode_key i = inode_key j \<longleftrightarrow> i = j"
proof -
  have "mkrn_yafs_key_value (inode_key i) = i" if "small_ino i" for i
    using that take_bit_small[of i 60] by (simp add: inode_key_def key_parts value_mask take_bit_eq_mask)
  from this[OF assms(1)] this[OF assms(2)] show ?thesis by metis
qed

section \<open>The reference\<close>

abbreviation BS :: nat where "BS \<equiv> 4096"

lemma block_size [simp]: "YAFS_DATA_BLOCK_SIZE = BS" "YAFS_BTREE_BLOCK_SIZE = BS"
  by (simp_all add: YAFS_DATA_BLOCK_SIZE_def YAFS_BTREE_BLOCK_SIZE_def)

definition block_at :: "u64 \<Rightarrow> (u64 \<rightharpoonup> fs_val) \<Rightarrow> u8 list option" where
  "block_at k A = (case A k of Some (Block b) \<Rightarrow> Some b | _ \<Rightarrow> None)"

definition old_block :: "u64 \<Rightarrow> (u64 \<rightharpoonup> fs_val) \<Rightarrow> u8 list" where
  "old_block k A = (case block_at k A of None \<Rightarrow> zero_block | Some b \<Rightarrow> b)"

text \<open>The byte of a file at a position; \<open>None\<close> in a hole.\<close>

definition fs_byte :: "(u64 \<rightharpoonup> fs_val) \<Rightarrow> u64 \<Rightarrow> nat \<Rightarrow> u8 option" where
  "fs_byte A ino p = map_option (\<lambda>b. b ! (p mod BS)) (block_at (extent_key ino (of_nat (p div BS))) A)"

definition fs_read :: "(u64 \<rightharpoonup> fs_val) \<Rightarrow> u64 \<Rightarrow> nat \<Rightarrow> nat \<Rightarrow> u8 list" where
  "fs_read A ino pos n = map the (takeWhile (\<lambda>x. x \<noteq> None) (map (fs_byte A ino) [pos..<pos + n]))"

definition patch :: "nat \<Rightarrow> u8 list \<Rightarrow> nat \<Rightarrow> u8 list \<Rightarrow> u8 list" where
  "patch pos xs b old =
     map (\<lambda>j. if pos \<le> b * BS + j \<and> b * BS + j < pos + length xs then xs ! (b * BS + j - pos) else old ! j) [0..<BS]"

text \<open>Block \<open>b\<close> of the file is touched by a write of \<open>xs\<close> at \<open>pos\<close>.\<close>

definition touched :: "nat \<Rightarrow> u8 list \<Rightarrow> nat \<Rightarrow> bool" where
  "touched pos xs b \<longleftrightarrow> xs \<noteq> [] \<and> pos div BS \<le> b \<and> b * BS < pos + length xs"

definition fs_write :: "u64 \<Rightarrow> nat \<Rightarrow> u8 list \<Rightarrow> (u64 \<rightharpoonup> fs_val) \<Rightarrow> (u64 \<rightharpoonup> fs_val)" where
  "fs_write ino pos xs A k =
     (let b = unat (take_bit 16 (mkrn_yafs_key_value k)) in
      if k = extent_key ino (of_nat b) \<and> touched pos xs b
      then Some (Block (patch pos xs b (old_block k A))) else A k)"

lemma zero_block_length [simp]: "length zero_block = BS"
  by (simp add: zero_block_def)

lemma blit_patch:
  assumes "length old = BS" "off < BS" "c = min (BS - off) (length xs)"
  shows "blit old off (take c xs) = patch (b * BS + off) xs b old"
proof (rule nth_equalityI)
  show len: "length (blit old off (take c xs)) = length (patch (b * BS + off) xs b old)"
    using assms by (simp add: blit_def patch_def)
  fix i assume "i < length (blit old off (take c xs))"
  then have "i < BS" using len by (simp add: patch_def)
  then show "blit old off (take c xs) ! i = patch (b * BS + off) xs b old ! i"
    using assms by (auto simp: blit_def patch_def nth_append min_def)
qed

lemma patch_length [simp]: "length (patch pos xs b old) = BS"
  by (simp add: patch_def)

lemma touched_block: "xs \<noteq> [] \<Longrightarrow> off < BS \<Longrightarrow> touched (b * BS + off) xs b"
  by (cases xs) (auto simp: touched_def)

text \<open>The first block of a write, and the rest.\<close>

lemma fs_write_step:
  assumes "xs \<noteq> []" "off < BS" "c = min (BS - off) (length xs)" "b < 65536"
    "length (old_block (extent_key ino (of_nat b)) A) = BS"
  shows "fs_write ino (b * BS + off) xs A =
    fs_write ino (b * BS + off + c) (drop c xs)
      (A(extent_key ino (of_nat b) \<mapsto> Block (blit (old_block (extent_key ino (of_nat b)) A) off (take c xs))))"
    (is "?L = fs_write ino ?q ?ys ?A")
proof
  fix k
  define j where "j = unat (take_bit 16 (mkrn_yafs_key_value k))"
  let ?p = "b * BS + off"
  have full: "?q = Suc b * BS \<and> c \<le> length xs \<or> ?ys = []" using assms(2,3) by (auto simp: min_def)
  show "?L k = fs_write ino ?q ?ys ?A k"
  proof (cases "j = b")
    case True
    have nt: "\<not> touched ?q ?ys b" using full by (auto simp: touched_def)
    then show ?thesis
      using True blit_patch[OF assms(5,2,3)] touched_block[OF assms(1,2)]
      by (auto simp: fs_write_def Let_def simp flip: j_def)
  next
    case False
    have ne: "k \<noteq> extent_key ino (of_nat b)"
      using False assms(4) extent_key_index[of "of_nat b" ino] by (auto simp: j_def unat_index)
    have t: "touched ?p xs j = touched ?q ?ys j" using full False assms(1-3) by (auto simp: touched_def)
    have "touched ?q ?ys j \<Longrightarrow> patch ?p xs j old = patch ?q ?ys j old" for old
      using full False assms(1-3) by (auto simp: touched_def patch_def add.commute)
    then show ?thesis using ne t by (auto simp: fs_write_def Let_def old_block_def block_at_def simp flip: j_def)
  qed
qed

section \<open>Writing\<close>

text \<open>What a key of the map gives on the device: the block, and the right to overwrite it.\<close>

lemma extent_block:
  assumes "fs_rep n s A" "A (extent_key ino blk) = Some a"
  obtains b v where "a = Block b" "length b = BS" "mkrn_yafs_btree_lookup (fst s) (extent_key ino blk) (snd s) = Some v"
    "mkrn_yafs_dev_read (mkrn_yafs_extent_lba v) (snd s) = Some b" "mkrn_yafs_extent_length v = 1"
    "\<And>x. mkrn_yafs_dev_write (mkrn_yafs_extent_lba v) x (snd s) = Some (set_block (mkrn_yafs_extent_lba v) x (snd s))"
    "\<And>x. length x = BS \<Longrightarrow>
      fs_rep n (fst s, set_block (mkrn_yafs_extent_lba v) x (snd s)) (A(extent_key ino blk \<mapsto> Block x))"
  using fs_rep_lookup_Block[OF assms(1) block_keys(2) assms(2)] that by (auto simp: blk_of_def)

lemma inode_block:
  assumes "fs_rep n s A" "A (inode_key ino) = Some a"
  obtains b v where "a = Block b" "length b = BS" "mkrn_yafs_btree_lookup (fst s) (inode_key ino) (snd s) = Some v"
    "mkrn_yafs_dev_read v (snd s) = Some b"
    "\<And>x. mkrn_yafs_dev_write v x (snd s) = Some (set_block v x (snd s))"
    "\<And>x. length x = BS \<Longrightarrow> fs_rep n (fst s, set_block v x (snd s)) (A(inode_key ino \<mapsto> Block x))"
  using fs_rep_lookup_Block[OF assms(1) block_keys(1) assms(2)]
  by (auto simp: blk_of_def YAFS_KS_INODE_def YAFS_KS_EXTENT_def)

lemma write_block_ok:
  assumes "fs_rep (Suc (Suc n)) s A" "off + length xs \<le> BS"
  shows "\<exists>s'. write_block ino blk off xs s = Some (0, s') \<and>
    fs_rep n s' (A(extent_key ino blk \<mapsto> Block (blit (old_block (extent_key ino blk) A) off xs)))"
proof (cases "A (extent_key ino blk)")
  case None
  have "length (blit zero_block off xs) = YAFS_BTREE_BLOCK_SIZE" using assms(2) by (simp add: blit_def)
  from fs_rep_add_block[OF assms(1) block_keys(2)[of ino blk] this] None show ?thesis
    using fs_rep_lookup_None[OF assms(1) None]
    by (auto simp: write_block_def write_hole_def val_of_def old_block_def block_at_def)
next
  case (Some a)
  obtain b v where b: "a = Block b" "length b = BS"
    "mkrn_yafs_btree_lookup (fst s) (extent_key ino blk) (snd s) = Some v"
    "mkrn_yafs_dev_read (mkrn_yafs_extent_lba v) (snd s) = Some b" "mkrn_yafs_extent_length v = 1"
    and w: "\<And>x. mkrn_yafs_dev_write (mkrn_yafs_extent_lba v) x (snd s) = Some (set_block (mkrn_yafs_extent_lba v) x (snd s))"
    "\<And>x. length x = BS \<Longrightarrow> fs_rep (Suc (Suc n)) (fst s, set_block (mkrn_yafs_extent_lba v) x (snd s)) (A(extent_key ino blk \<mapsto> Block x))"
    using extent_block[OF assms(1) Some] by metis
  have "blit b off xs = xs" if "off = 0" "length xs = BS" using that b(2) by (simp add: blit_def)
  moreover have "length (blit b off xs) = BS" using b(2) assms(2) by (simp add: blit_def)
  ultimately show ?thesis
    using b w(1) w(2)[of "blit b off xs"] Some fs_rep_le[of "Suc (Suc n)" _ _ n]
    by (auto simp: write_block_def write_found_def old_block_def block_at_def)
qed

lemma fs_rep_block_length:
  "fs_rep n s A \<Longrightarrow> length (old_block (extent_key ino b) A) = BS"
  by (cases "A (extent_key ino b)")
    (auto simp: old_block_def block_at_def elim: fs_rep_lookup_Block[OF _ block_keys(2)])

text \<open>How many blocks a write spans.\<close>

definition span :: "nat \<Rightarrow> nat \<Rightarrow> nat" where
  "span off n = (off + n + (BS - 1)) div BS"

lemma span_step:
  assumes "off < BS" "0 < n" "c = min (BS - off) n"
  shows "span off n = Suc (span 0 (n - c))"
proof (cases "n \<le> BS - off")
  case True
  then have "off + n + 4095 < 2 * BS" "BS \<le> off + n + 4095" "c = n" using assms by auto
  then show ?thesis by (simp add: span_def)
next
  case False
  then have "off + n + 4095 = n - c + 4095 + BS" using assms by auto
  then show ?thesis by (simp add: span_def)
qed

lemma write_loop_ok:
  assumes "fs_rep (2 * span off (length xs) + n) s A" "off < BS" "unat blk + span off (length xs) \<le> 65536"
  shows "\<exists>s'. write_loop ino blk off xs w s = Some (0, w + length xs, s') \<and>
    fs_rep n s' (fs_write ino (unat blk * BS + off) xs A)"
  using assms
proof (induction "length xs" arbitrary: xs blk off w s A rule: less_induct)
  case less
  show ?case
  proof (cases "xs = []")
    case True
    have "fs_write ino p [] A = A" for p by (rule ext) (simp add: fs_write_def touched_def Let_def)
    then show ?thesis using True less.prems(1) fs_rep_le[OF less.prems(1), of n] by (simp add: write_loop.simps)
  next
    case False
    define c where "c = min (BS - off) (length xs)"
    have c: "0 < c" "c \<le> length xs" "off + c \<le> BS" using False less.prems(2) by (auto simp: c_def)
    have sp: "span off (length xs) = Suc (span 0 (length xs - c))"
      using span_step[OF less.prems(2) _ c_def] False by simp
    let ?k = "extent_key ino blk"
    have "fs_rep (Suc (Suc (2 * span 0 (length xs - c) + n))) s A" using less.prems(1) sp by simp
    then obtain s1 where s1: "write_block ino blk off (take c xs) s = Some (0, s1)"
      "fs_rep (2 * span 0 (length (drop c xs)) + n) s1 (A(?k \<mapsto> Block (blit (old_block ?k A) off (take c xs))))"
      using write_block_ok[of _ s A off "take c xs"] c by fastforce
    have bl: "unat blk < 65536" using less.prems(3) sp by simp
    then have u: "unat (blk + 1) = Suc (unat blk)"
      using unat_plus_if'[of blk 1] by simp
    have "length (drop c xs) < length xs" "unat (blk + 1) + span 0 (length (drop c xs)) \<le> 65536"
      using c False less.prems(3) sp u by auto
    from less.hyps[where w = "w + c", OF this(1) s1(2) _ this(2)] obtain s' where s':
      "write_loop ino (blk + 1) 0 (drop c xs) (w + c) s1 = Some (0, w + length xs, s')"
      "fs_rep n s' (fs_write ino (Suc (unat blk) * BS) (drop c xs) (A(?k \<mapsto> Block (blit (old_block ?k A) off (take c xs)))))"
      using c by (auto simp: u)
    have "fs_write ino (Suc (unat blk) * BS) (drop c xs) X = fs_write ino (unat blk * BS + off + c) (drop c xs) X" for X
      using c by (cases "c = length xs") (auto simp: c_def min_def fs_write_def touched_def Let_def fun_eq_iff add.commute split: if_splits)
    with s' fs_write_step[OF False less.prems(2) c_def bl fs_rep_block_length[OF less.prems(1)], of ino]
    show ?thesis using False s1(1) by (subst write_loop.simps) (simp add: Let_def c_def[symmetric])
  qed
qed

text \<open>The growth of the inode.\<close>

definition grown :: "u64 \<Rightarrow> nat \<Rightarrow> yafs_inode_value \<Rightarrow> yafs_inode_value" where
  "grown offset n iv =
     (let new = offset + of_nat n; needed = (4095 + new) div 4096 in
      iv\<lparr>iv_size := if iv_size iv < new then new else iv_size iv,
         iv_blocks := if iv_blocks iv < needed then needed else iv_blocks iv\<rparr>)"

definition fs_grow :: "u64 \<Rightarrow> u64 \<Rightarrow> nat \<Rightarrow> (u64 \<rightharpoonup> fs_val) \<Rightarrow> (u64 \<rightharpoonup> fs_val)" where
  "fs_grow ino offset n A = (case A (inode_key ino) of
     Some (Block b) \<Rightarrow> A(inode_key ino \<mapsto> Block (put_inode (grown offset n (inode_of_bytes b)) b))
   | _ \<Rightarrow> A)"

definition inode_shape :: "yafs_inode_value \<Rightarrow> bool" where
  "inode_shape iv \<longleftrightarrow> length (iv_name iv) = 128 \<and> length (iv_pad iv) = 8"

lemma inode_bytes_length [simp]: "inode_shape iv \<Longrightarrow> length (inode_bytes iv) = 192"
  by (simp add: inode_bytes_def inode_shape_def)

lemma put_inode_length [simp]: "inode_shape iv \<Longrightarrow> length b = BS \<Longrightarrow> length (put_inode iv b) = BS"
  by (simp add: put_inode_def)

lemma inode_shape_of_bytes [simp]: "length b = BS \<Longrightarrow> inode_shape (inode_of_bytes b)"
  by (simp add: inode_shape_def inode_of_bytes_def)

lemma inode_roundtrip [simp]: "inode_shape iv \<Longrightarrow> inode_of_bytes (put_inode iv b) = iv"
  by (simp add: inode_of_bytes_def put_inode_def inode_bytes_def inode_shape_def)

lemma inode_shape_upd [simp]:
  "inode_shape (iv\<lparr>iv_size := a\<rparr>) = inode_shape iv" "inode_shape (iv\<lparr>iv_blocks := a\<rparr>) = inode_shape iv"
  "inode_shape (iv\<lparr>iv_file_type := x\<rparr>) = inode_shape iv" "inode_shape (iv\<lparr>iv_link_count := x\<rparr>) = inode_shape iv"
  "inode_shape (iv\<lparr>iv_uid := x\<rparr>) = inode_shape iv" "inode_shape (iv\<lparr>iv_gid := x\<rparr>) = inode_shape iv"
  "inode_shape (iv\<lparr>iv_mode := x\<rparr>) = inode_shape iv" "inode_shape inode_zero"
  "inode_shape iv \<Longrightarrow> inode_shape (set_name nm iv)"
  by (simp_all add: inode_shape_def inode_zero_def set_name_def strncpy_arr_def)

lemma grow_inode_ok:
  assumes "fs_rep n s A"
  shows "fs_rep n (grow_inode ino offset w s) (fs_grow ino offset w A)"
proof (cases "A (inode_key ino)")
  case None
  then show ?thesis using assms fs_rep_lookup_None[OF assms None] by (simp add: grow_inode_def fs_grow_def)
next
  case (Some a)
  obtain b v where b: "a = Block b" "length b = BS"
    "mkrn_yafs_btree_lookup (fst s) (inode_key ino) (snd s) = Some v" "mkrn_yafs_dev_read v (snd s) = Some b"
    and w: "\<And>x. mkrn_yafs_dev_write v x (snd s) = Some (set_block v x (snd s))"
    "\<And>x. length x = BS \<Longrightarrow> fs_rep n (fst s, set_block v x (snd s)) (A(inode_key ino \<mapsto> Block x))"
    using inode_block[OF assms Some] by metis
  have g: "grow_inode ino offset w s = (fst s, set_block v (put_inode (grown offset w (inode_of_bytes b)) b) (snd s))"
    using b w(1) by (cases "inode_of_bytes b") (simp add: grow_inode_def grown_def Let_def)
  have "inode_shape (grown offset w (inode_of_bytes b))" using b(2) by (simp add: grown_def Let_def)
  then show ?thesis using w(2)[of "put_inode (grown offset w (inode_of_bytes b)) b"] b(1,2) Some
    by (simp add: g fs_grow_def)
qed

lemma span_bound:
  assumes "pos + n \<le> 2 ^ 28"
  shows "pos div BS + span (pos mod BS) n \<le> 65536"
proof -
  have "pos mod BS + n + 4095 + pos div BS * BS \<le> 2 ^ 28 + 4095"
    using assms div_mult_mod_eq[of pos BS] by linarith
  then have "(pos mod BS + n + 4095 + pos div BS * BS) div BS \<le> (2 ^ 28 + 4095) div BS" by (rule div_le_mono)
  moreover have "(r + n + 4095 + q * BS) div BS = q + (r + n + 4095) div BS" for q r by simp
  ultimately show ?thesis unfolding span_def by (simp only: diff_Suc_1) simp
qed

lemma unat_pos: "unat (offset div 4096 :: u64) = unat offset div BS" "unat (offset mod 4096 :: u64) = unat offset mod BS"
  by (simp_all add: unat_div unat_mod)

lemma file_write_ok:
  assumes "fs_rep (2 * span (unat offset mod BS) (length xs) + n) s A" "xs \<noteq> []" "unat offset + length xs \<le> 2 ^ 28"
  shows "\<exists>s'. mkrn_yafs_write_file_data ino (Some xs) offset s = Some (0, length xs, s') \<and>
    fs_rep n s' (fs_grow ino offset (length xs) (fs_write ino (unat offset) xs A))"
proof -
  have bl: "unat (offset div 4096) < 65536" using assms(2,3) by (cases xs) (simp_all add: unat_pos)
  have sb: "unat (offset div 4096) + span (unat offset mod BS) (length xs) \<le> 65536"
    using span_bound[OF assms(3)] by (simp add: unat_pos)
  obtain s1 where s1: "write_loop ino (offset div 4096) (unat offset mod BS) xs 0 s = Some (0, length xs, s1)"
    "fs_rep n s1 (fs_write ino (unat offset) xs A)"
    using write_loop_ok[OF assms(1) _ sb, of ino 0] by (auto simp: unat_pos)
  from grow_inode_ok[OF s1(2)] show ?thesis using s1(1) assms(2) bl
    by (auto simp: mkrn_yafs_write_file_data_def Let_def unat_pos YAFS_MAX_FILE_BLOCKS_def word_le_nat_alt)
qed

section \<open>Reading\<close>

lemma fs_read_step:
  assumes "block_at (extent_key ino (of_nat b)) A = Some x" "length x = BS" "off < BS" "c = min (BS - off) n"
  shows "fs_read A ino (b * BS + off) n = take c (drop off x) @ fs_read A ino (b * BS + off + c) (n - c)"
proof -
  let ?p = "b * BS + off"
  have byt: "fs_byte A ino (?p + i) = Some (x ! (off + i))" if "i < c" for i
  proof -
    have "off + i < BS" using that assms(4) by auto
    then have "(?p + i) div BS = b" "(?p + i) mod BS = off + i" by (simp_all add: add.assoc)
    then show ?thesis using assms(1) by (simp add: fs_byte_def)
  qed
  have pre: "map (fs_byte A ino) [?p..<?p + c] = map Some (take c (drop off x))"
    using byt assms(2-4) by (intro nth_equalityI) auto
  have "[?p..<?p + n] = [?p..<?p + c] @ [?p + c..<?p + c + (n - c)]"
    using assms(4) upt_add_eq_append[of ?p "?p + c" "n - c"] by (simp add: add.assoc)
  moreover have "takeWhile (\<lambda>x. x \<noteq> None) (map Some ys @ zs) = map Some ys @ takeWhile (\<lambda>x. x \<noteq> None) zs"
    for ys :: "u8 list" and zs by (induction ys) auto
  ultimately show ?thesis unfolding fs_read_def by (simp only: map_append pre) (simp add: comp_def)
qed

lemma fs_read_hole: "block_at (extent_key ino (of_nat b)) A = None \<Longrightarrow> off < BS \<Longrightarrow> fs_read A ino (b * BS + off) n = []"
  by (cases n) (simp_all add: fs_read_def fs_byte_def upt_conv_Cons del: upt_Suc)

lemma read_loop_ok:
  assumes "fs_rep k s A" "off < BS" "unat blk * BS + off + n \<le> 2 ^ 28"
  shows "read_loop ino off n blk out s = Some (0, out @ fs_read A ino (unat blk * BS + off) n)"
  using assms
proof (induction n arbitrary: off blk out rule: less_induct)
  case (less n)
  let ?k = "extent_key ino blk"
  show ?case
  proof (cases "n = 0 \<or> A ?k = None")
    case True
    then have "mkrn_yafs_btree_lookup (fst s) ?k (snd s) = None" if "n \<noteq> 0"
      using fs_rep_lookup_None[OF less.prems(1)] that by simp
    moreover have "fs_read A ino (unat blk * BS + off) n = []"
      using True fs_read_hole[of ino "unat blk" A off n] less.prems(2) by (auto simp: fs_read_def block_at_def)
    ultimately show ?thesis by (subst read_loop.simps) auto
  next
    case False
    then obtain a where a: "A ?k = Some a" by auto
    obtain x v where x: "a = Block x" "length x = BS" "mkrn_yafs_btree_lookup (fst s) ?k (snd s) = Some v"
      "mkrn_yafs_dev_read (mkrn_yafs_extent_lba v) (snd s) = Some x" "mkrn_yafs_extent_length v = 1"
      using extent_block[OF less.prems(1) a] by metis
    have bx: "block_at ?k A = Some x" using a x(1) by (simp add: block_at_def)
    define c where "c = min (BS - off) n"
    have c: "0 < c" "c \<le> n" using False less.prems(2) by (auto simp: c_def)
    have "unat blk < 65536" using less.prems(3) c by simp
    then have u: "unat (blk + 1) = Suc (unat blk)" using unat_plus_if'[of blk 1] by simp
    have nx: "n - c = 0 \<or> unat blk * BS + off + c = Suc (unat blk) * BS"
      using less.prems(2) by (auto simp: c_def min_def)
    have rest: "read_loop ino 0 (n - c) (blk + 1) o' s = Some (0, o' @ fs_read A ino (unat blk * BS + off + c) (n - c))" for o'
    proof (cases "n - c = 0")
      case True
      then show ?thesis by (subst read_loop.simps) (simp add: fs_read_def)
    next
      case False
      then have e: "unat blk * BS + off + c = Suc (unat blk) * BS" using nx by simp
      have "Suc (unat blk) * BS + (n - c) \<le> 2 ^ 28" using less.prems(3) e c(2) by linarith
      with less.IH[of "n - c" 0 "blk + 1" o'] c False less.prems(1) show ?thesis by (simp add: u e)
    qed
    have "fs_read A ino (unat blk * BS + off) n = take c (drop off x) @ fs_read A ino (unat blk * BS + off + c) (n - c)"
      using fs_read_step[of ino "unat blk" A x off c n] bx x(2) less.prems(2) by (simp add: c_def)
    with rest[of "out @ take c (drop off x)"] x(3-5) False show ?thesis
      by (subst read_loop.simps) (simp add: Let_def c_def[symmetric])
  qed
qed

lemma file_read_ok:
  assumes "fs_rep k s A" "unat offset + unat sz \<le> 2 ^ 28"
  shows "mkrn_yafs_read_file_data ino True offset sz s = Some (0, fs_read A ino (unat offset) (unat sz))"
proof (cases "sz = 0")
  case True
  then show ?thesis by (simp add: mkrn_yafs_read_file_data_def fs_read_def)
next
  case False
  then have "0 < unat sz" by (simp add: unat_gt_0)
  then have bl: "unat (offset div 4096) < 65536" using assms(2) by (simp add: unat_pos)
  from read_loop_ok[OF assms(1), of "unat offset mod BS" "offset div 4096" "unat sz" ino "[]"] assms(2) False bl
  show ?thesis
    by (simp add: mkrn_yafs_read_file_data_def Let_def unat_pos YAFS_MAX_FILE_BLOCKS_def word_le_nat_alt)
qed

section \<open>What a write changes\<close>

lemma fs_write_other [simp]: "fs_write ino pos xs A (inode_key j) = A (inode_key j)"
  "fs_write ino pos xs A (dir_key j nm) = A (dir_key j nm)"
  by (simp_all add: fs_write_def Let_def)

lemma fs_write_extent:
  assumes "small_ino ino" "small_ino j" "b < 65536"
  shows "fs_write ino pos xs A (extent_key j (of_nat b)) =
    (if j = ino \<and> touched pos xs b then Some (Block (patch pos xs b (old_block (extent_key j (of_nat b)) A)))
     else A (extent_key j (of_nat b)))"
  using assms by (simp add: fs_write_def Let_def extent_key_index extent_key_inj)

lemma fs_byte_write:
  assumes "small_ino ino" "p < 2 ^ 28"
  shows "fs_byte (fs_write ino pos xs A) ino p =
    (if pos \<le> p \<and> p < pos + length xs then Some (xs ! (p - pos))
     else if touched pos xs (p div BS) then Some (case fs_byte A ino p of None \<Rightarrow> 0 | Some c \<Rightarrow> c)
     else fs_byte A ino p)"
proof -
  let ?b = "p div BS" and ?j = "p mod BS"
  have b: "?b < 65536" using assms(2) by simp
  have pq: "?b * BS + ?j = p" and j: "?j < BS" by simp_all
  have "pos \<le> p \<Longrightarrow> p < pos + length xs \<Longrightarrow> touched pos xs ?b"
    by (auto simp: touched_def div_le_mono intro: le_less_trans[OF div_times_less_eq_dividend])
  moreover have "patch pos xs ?b old ! ?j = (if pos \<le> p \<and> p < pos + length xs then xs ! (p - pos) else old ! ?j)" for old
    using j by (simp add: patch_def pq)
  ultimately show ?thesis
    by (auto simp: fs_byte_def fs_write_extent[OF assms(1) assms(1) b] block_at_def old_block_def zero_block_def
      split: option.splits fs_val.splits)
qed

lemma fs_byte_write_other:
  assumes "small_ino ino" "small_ino j" "j \<noteq> ino" "p < 2 ^ 28"
  shows "fs_byte (fs_write ino pos xs A) j p = fs_byte A j p"
proof -
  have "p div BS < 65536" using assms(4) by simp
  then show ?thesis using assms(1-3) by (simp add: fs_byte_def fs_write_extent block_at_def)
qed

lemma fs_grow_other: "k \<noteq> inode_key ino \<Longrightarrow> fs_grow ino offset n A k = A k"
  by (simp add: fs_grow_def split: option.splits fs_val.splits)

lemma fs_byte_grow [simp]: "fs_byte (fs_grow ino offset n A) j p = fs_byte A j p"
  by (simp add: fs_byte_def block_at_def fs_grow_other)

lemma fs_read_cong:
  assumes "\<And>p. pos \<le> p \<Longrightarrow> p < pos + n \<Longrightarrow> fs_byte A ino p = fs_byte B ino p"
  shows "fs_read A ino pos n = fs_read B ino pos n"
  unfolding fs_read_def by (intro arg_cong[of _ _ "\<lambda>l. map the (takeWhile _ l)"] map_cong) (use assms in auto)

lemma fs_read_write:
  assumes "small_ino ino" "pos + length xs \<le> 2 ^ 28"
  shows "fs_read (fs_write ino pos xs A) ino pos (length xs) = xs"
proof -
  have "map (fs_byte (fs_write ino pos xs A) ino) [pos..<pos + length xs] = map Some xs"
    using assms fs_byte_write[OF assms(1), of _ pos xs A] by (intro nth_equalityI) auto
  moreover have "takeWhile (\<lambda>x. x \<noteq> None) (map Some ys) = map Some ys" for ys :: "u8 list" by (induction ys) auto
  ultimately show ?thesis unfolding fs_read_def by (simp only:) (simp add: comp_def)
qed

section \<open>Truncation\<close>

definition extents :: "u64 \<Rightarrow> nat \<Rightarrow> nat \<Rightarrow> (u64 \<rightharpoonup> fs_val) \<Rightarrow> nat list" where
  "extents ino b n A = filter (\<lambda>i. A (extent_key ino (of_nat i)) \<noteq> None) [b..<b + n]"

definition fs_cut :: "u64 \<Rightarrow> nat \<Rightarrow> nat \<Rightarrow> (u64 \<rightharpoonup> fs_val) \<Rightarrow> (u64 \<rightharpoonup> fs_val)" where
  "fs_cut ino b n A k =
     (let i = unat (take_bit 16 (mkrn_yafs_key_value k)) in
      if k = extent_key ino (of_nat i) \<and> b \<le> i \<and> i < b + n then None else A k)"

lemma fs_rep_free_block [simp]: "fs_rep n (root, mkrn_yafs_dev_free_block b d) A = fs_rep n (root, d) A"
proof -
  have "fs_abs m (mkrn_yafs_dev_free_block b d) = fs_abs m d" for m
    by (rule ext) (simp add: fs_abs_def cong: if_cong)
  then show ?thesis by (simp add: fs_rep_def)
qed

lemma bt_lookup_free [simp]:
  "mkrn_yafs_btree_lookup root k (mkrn_yafs_dev_free_block b d) = mkrn_yafs_btree_lookup root k d"
proof -
  have "mkrn_yafs_node_read lba (mkrn_yafs_dev_free_block b d) = mkrn_yafs_node_read lba d" for lba
    by (simp add: mkrn_yafs_node_read_def mkrn_yafs_dev_read_def)
  then have "btree_lookup_loop seen lba k (mkrn_yafs_dev_free_block b d) = btree_lookup_loop seen lba k d" for seen lba
    by (induction seen lba k d rule: btree_lookup_loop.induct)
      (subst (1 2) btree_lookup_loop.simps, auto split: option.splits)
  then show ?thesis by (simp add: mkrn_yafs_btree_lookup_def)
qed

lemma extent_key_unat: "b < 65536 \<Longrightarrow> unat (take_bit 16 (mkrn_yafs_key_value (extent_key i (of_nat b)))) = b"
  by (simp add: extent_key_index)

lemma fs_cut_Suc:
  assumes "b < 65536"
  shows "fs_cut ino b (Suc n) A = fs_cut ino (Suc b) n (A(extent_key ino (of_nat b) := None))"
proof
  fix k
  define i where "i = unat (take_bit 16 (mkrn_yafs_key_value k))"
  have "k = extent_key ino (of_nat b) \<Longrightarrow> i = b" using extent_key_unat[OF assms] by (simp add: i_def)
  then show "fs_cut ino b (Suc n) A k = fs_cut ino (Suc b) n (A(extent_key ino (of_nat b) := None)) k"
    by (cases "i = b") (auto simp: fs_cut_def Let_def simp flip: i_def)
qed

lemma extents_Suc:
  assumes "b + Suc n \<le> 65536" "small_ino ino"
  shows "extents ino b (Suc n) A = (if A (extent_key ino (of_nat b)) = None then [] else [b]) @
    extents ino (Suc b) n (A(extent_key ino (of_nat b) := None))"
proof -
  have "extents ino (Suc b) n (A(extent_key ino (of_nat b) := None)) = extents ino (Suc b) n A"
    unfolding extents_def using assms
    by (intro filter_cong refl)
      (auto simp: extent_key_unat simp del: upt_Suc dest!: arg_cong[of _ _ "\<lambda>k. unat (take_bit 16 (mkrn_yafs_key_value k))"])
  then show ?thesis by (simp add: extents_def upt_conv_Cons del: upt_Suc)
qed

lemma truncate_loop_ok:
  assumes "fs_rep (length (extents ino b n A) + m) s A" "b + n \<le> 65536" "small_ino ino"
  shows "fs_rep m (truncate_loop ino (of_nat b) n s) (fs_cut ino b n A) \<and>
    mkrn_yafs_btree_lookup (fst (truncate_loop ino (of_nat b) n s)) (inode_key j) (snd (truncate_loop ino (of_nat b) n s)) =
      mkrn_yafs_btree_lookup (fst s) (inode_key j) (snd s)"
  using assms
proof (induction n arbitrary: b s A)
  case 0
  have "fs_cut ino b 0 A = A" by (rule ext) (auto simp: fs_cut_def Let_def)
  then show ?case using 0 by (simp add: extents_def)
next
  case (Suc n)
  let ?k = "extent_key ino (of_nat b)"
  let ?B = "A(?k := None)"
  have b: "b < 65536" using Suc.prems(2) by simp
  note ex = extents_Suc[OF Suc.prems(2,3), of A]
  have nx: "of_nat b + 1 = (of_nat (Suc b) :: u64)" by (simp add: add.commute)
  show ?case
  proof (cases "A ?k")
    case None
    then have AB: "?B = A" by auto
    have "fs_rep (length (extents ino (Suc b) n A) + m) s A" using Suc.prems(1) ex None by (simp add: AB)
    from Suc.IH[OF this] Suc.prems(2,3) show ?thesis
      using fs_rep_lookup_None[OF Suc.prems(1) None] fs_cut_Suc[OF b, of ino n A] by (simp add: AB nx del: of_nat_Suc)
  next
    case (Some a)
    then obtain v where v: "mkrn_yafs_btree_lookup (fst s) ?k (snd s) = Some v"
      using extent_block[OF Suc.prems(1) Some] by metis
    have "fs_rep (Suc (length (extents ino (Suc b) n ?B) + m))
      (fst s, mkrn_yafs_dev_free_block (mkrn_yafs_extent_lba v) (snd s)) A"
      using Suc.prems(1) ex Some by simp
    from fs_rep_delete[OF this, of ?k] obtain s' where s':
      "snd (snd (tree_delete ?k (fst s, mkrn_yafs_dev_free_block (mkrn_yafs_extent_lba v) (snd s)))) = s'"
      "fs_rep (length (extents ino (Suc b) n ?B) + m) s' ?B"
      "mkrn_yafs_btree_lookup (fst s') (inode_key j) (snd s') = mkrn_yafs_btree_lookup (fst s) (inode_key j) (snd s)"
      by (metis bt_lookup_free fst_conv key_kinds_differ(2) snd_conv)
    have "Suc b + n \<le> 65536" using Suc.prems(2) by simp
    note ih = Suc.IH[OF s'(2) this Suc.prems(3)]
    show ?thesis unfolding fs_cut_Suc[OF b] using ih v s'(1,3) by (simp add: nx del: of_nat_Suc fun_upd_apply)
  qed
qed

text \<open>The file afterwards: no extent below the recorded number of blocks, size 0.\<close>

definition fs_truncate :: "u64 \<Rightarrow> (u64 \<rightharpoonup> fs_val) \<Rightarrow> (u64 \<rightharpoonup> fs_val)" where
  "fs_truncate ino A = (case A (inode_key ino) of
     Some (Block b) \<Rightarrow>
       (let iv = inode_of_bytes b in
        (fs_cut ino 0 (unat (min (iv_blocks iv) YAFS_MAX_FILE_BLOCKS)) A)
          (inode_key ino \<mapsto> Block (put_inode (iv\<lparr>iv_size := 0, iv_blocks := 0\<rparr>) b)))
   | _ \<Rightarrow> A)"

lemma fs_cut_other [simp]: "fs_cut ino b n A (inode_key j) = A (inode_key j)"
  "fs_cut ino b n A (dir_key j nm) = A (dir_key j nm)"
  by (simp_all add: fs_cut_def Let_def)

lemma truncate_ok:
  assumes "fs_rep (length (extents ino 0 65536 A) + m) s A" "small_ino ino" "ino \<noteq> 0"
    "A (inode_key ino) = Some (Block b)" "iv_file_type (inode_of_bytes b) = YAFS_FT_REG_FILE"
  shows "\<exists>s'. mkrn_yafs_truncate_inode ino s = (0, s') \<and> fs_rep m s' (fs_truncate ino A)"
proof -
  define iv where "iv = inode_of_bytes b"
  define n where "n = unat (min (iv_blocks iv) YAFS_MAX_FILE_BLOCKS)"
  have n: "n \<le> 65536"
    by (auto simp: n_def YAFS_MAX_FILE_BLOCKS_def min_def word_le_nat_alt)
  obtain v where v: "length b = BS" "mkrn_yafs_btree_lookup (fst s) (inode_key ino) (snd s) = Some v"
    "mkrn_yafs_dev_read v (snd s) = Some b"
    using inode_block[OF assms(1,4)] fs_val.inject(2) by metis
  have "extents ino 0 n A @ filter (\<lambda>i. A (extent_key ino (of_nat i)) \<noteq> None) [n..<65536] = extents ino 0 65536 A"
    using n upt_add_eq_append[of 0 n "65536 - n"] by (simp add: extents_def flip: filter_append)
  then have "length (extents ino 0 n A) \<le> length (extents ino 0 65536 A)" by (metis length_append le_add1)
  then have "fs_rep (length (extents ino 0 n A) + m) s A" using fs_rep_le[OF assms(1)] by simp
  from truncate_loop_ok[OF this, of ino] n assms(2)
  have t: "fs_rep m (truncate_loop ino 0 n s) (fs_cut ino 0 n A)"
    "mkrn_yafs_btree_lookup (fst (truncate_loop ino 0 n s)) (inode_key ino) (snd (truncate_loop ino 0 n s)) = Some v"
    using v(2) by simp_all
  have "fs_cut ino 0 n A (inode_key ino) = Some (Block b)" using assms(4) by simp
  from inode_block[OF t(1) this] t(2)
  have w: "\<And>x. mkrn_yafs_dev_write v x (snd (truncate_loop ino 0 n s)) = Some (set_block v x (snd (truncate_loop ino 0 n s)))"
    "\<And>x. length x = BS \<Longrightarrow> fs_rep m (fst (truncate_loop ino 0 n s), set_block v x (snd (truncate_loop ino 0 n s)))
      ((fs_cut ino 0 n A)(inode_key ino \<mapsto> Block x))" by (metis option.inject)+
  have "length (put_inode (iv\<lparr>iv_size := 0, iv_blocks := 0\<rparr>) b) = BS" using v(1) by (simp add: iv_def)
  from w(2)[OF this] show ?thesis
    using assms(3-5) v w(1) by (simp add: mkrn_yafs_truncate_inode_def fs_truncate_def Let_def iv_def n_def)
qed

section \<open>Creating inodes\<close>

definition inode_image :: "u32 \<Rightarrow> u8 list \<Rightarrow> u8 list" where
  "inode_image ftype name =
     put_inode (set_name name (inode_zero\<lparr>iv_file_type := ftype, iv_link_count := 1\<rparr>)) zero_block"

lemma inode_image_length [simp]: "length (inode_image ftype name) = BS"
  by (simp add: inode_image_def)

lemma inode_of_image [simp]:
  "inode_of_bytes (inode_image ftype name) = set_name name (inode_zero\<lparr>iv_file_type := ftype, iv_link_count := 1\<rparr>)"
  by (simp add: inode_image_def)

lemma create_inode_ok:
  assumes "fs_rep (Suc (Suc n)) s A"
  shows "\<exists>s'. create_inode nr ftype name s = Some (0, s') \<and>
    fs_rep n s' (A(inode_key nr \<mapsto> Block (inode_image ftype name)))"
  using fs_rep_add_block[OF assms block_keys(1)[of nr], of "inode_image ftype name"]
  by (auto simp: create_inode_def Let_def val_of_def YAFS_KS_INODE_def YAFS_KS_EXTENT_def simp flip: inode_image_def)

section \<open>Properties\<close>

text \<open>The empty file system at boot, for the witnesses.\<close>

lemma fs_rep_boot: "n < 248 \<Longrightarrow> fs_rep n (0, ydev_boot) Map.empty"
  using ydev_boot_ok unfolding fs_rep_def bt_repr_def
  by (intro exI[of _ "{}"] exI[of _ Map.empty])
    (auto simp: root_pot_def fs_inv_def fs_abs_def[abs_def] intro!: exI[of _ 0] exI[of _ "[]"])

text \<open>C19. Writing \<open>xs\<close> at an offset of a file, with two units of budget for each
  block it spans and within the 256 MB a file can address, returns success and
  the full count. Afterwards the file holds \<open>xs\<close> at the offset; the rest of a
  block that was a hole reads as zeros; every other byte of this and of every
  other file, and every directory entry, is as before; and the inode's size and
  block count have grown to cover the write.\<close>

theorem file_write_correct:
  assumes "fs_rep (2 * span (unat offset mod BS) (length xs) + n) s A" "xs \<noteq> []"
    "unat offset + length xs \<le> 2 ^ 28" "small_ino ino"
  shows "\<exists>s' A'. mkrn_yafs_write_file_data ino (Some xs) offset s = Some (0, length xs, s') \<and> fs_rep n s' A' \<and>
    (\<forall>p < 2 ^ 28. fs_byte A' ino p =
       (if unat offset \<le> p \<and> p < unat offset + length xs then Some (xs ! (p - unat offset))
        else if touched (unat offset) xs (p div BS) then Some (case fs_byte A ino p of None \<Rightarrow> 0 | Some c \<Rightarrow> c)
        else fs_byte A ino p)) \<and>
    (\<forall>j p. small_ino j \<and> j \<noteq> ino \<and> p < 2 ^ 28 \<longrightarrow> fs_byte A' j p = fs_byte A j p) \<and>
    (\<forall>j nm. A' (dir_key j nm) = A (dir_key j nm)) \<and>
    (\<forall>b. A (inode_key ino) = Some (Block b) \<longrightarrow> (\<exists>b'. A' (inode_key ino) = Some (Block b') \<and>
       inode_of_bytes b' = grown offset (length xs) (inode_of_bytes b)))"
proof -
  obtain s' where s': "mkrn_yafs_write_file_data ino (Some xs) offset s = Some (0, length xs, s')"
    "fs_rep n s' (fs_grow ino offset (length xs) (fs_write ino (unat offset) xs A))"
    using file_write_ok[OF assms(1-3)] by blast
  have "inode_shape (grown offset (length xs) (inode_of_bytes b))" if "A (inode_key ino) = Some (Block b)" for b
    using inode_block[OF assms(1) that] by (force simp: grown_def Let_def)
  then have "\<forall>b. A (inode_key ino) = Some (Block b) \<longrightarrow>
    (\<exists>b'. fs_grow ino offset (length xs) (fs_write ino (unat offset) xs A) (inode_key ino) = Some (Block b') \<and>
       inode_of_bytes b' = grown offset (length xs) (inode_of_bytes b))"
    by (simp add: fs_grow_def)
  then show ?thesis
    using s' fs_byte_write[OF assms(4)] fs_byte_write_other[OF assms(4)] fs_grow_other
    by (intro exI[of _ s'] exI[of _ "fs_grow ino offset (length xs) (fs_write ino (unat offset) xs A)"]) simp
qed

theorem file_write_correct_witness:
  "\<exists>s' A'. mkrn_yafs_write_file_data 5 (Some [104, 105]) 4095 (0, ydev_boot) = Some (0, 2, s') \<and>
     fs_byte A' 5 4095 = Some 104 \<and> fs_byte A' 5 4096 = Some 105 \<and> fs_byte A' 5 0 = Some 0 \<and>
     fs_byte A' 5 8192 = None \<and> fs_rep 2 s' A'"
proof -
  have h: "fs_rep (2 * span (unat (4095 :: u64) mod BS) (length [104, 105 :: u8]) + 2) (0, ydev_boot) Map.empty"
    by (simp add: span_def fs_rep_boot)
  obtain s' A' where w: "mkrn_yafs_write_file_data 5 (Some [104, 105]) 4095 (0, ydev_boot) = Some (0, 2, s')" "fs_rep 2 s' A'"
    and b: "\<And>p. p < 2 ^ 28 \<Longrightarrow> fs_byte A' 5 p = (if 4095 \<le> p \<and> p < 4097 then Some ([104, 105] ! (p - 4095))
      else if touched 4095 [104, 105] (p div BS) then Some (case fs_byte Map.empty 5 p of None \<Rightarrow> 0 | Some c \<Rightarrow> c)
      else fs_byte Map.empty 5 p)"
    using file_write_correct[OF h, of 5] by auto
  show ?thesis using w b[of 4095] b[of 4096] b[of 0] b[of 8192]
    by (intro exI[of _ s'] exI[of _ A']) (simp add: touched_def fs_byte_def block_at_def)
qed

text \<open>Reading back what was written: a read at the same offset and of the
  same length returns exactly the bytes written, and a read of any other file
  returns what it returned before the write.\<close>

theorem file_write_read_roundtrip:
  assumes "fs_rep (2 * span (unat offset mod BS) (length xs) + n) s A" "xs \<noteq> []"
    "unat offset + length xs \<le> 2 ^ 28" "small_ino ino"
  shows "\<exists>s'. mkrn_yafs_write_file_data ino (Some xs) offset s = Some (0, length xs, s') \<and>
    mkrn_yafs_read_file_data ino True offset (of_nat (length xs)) s' = Some (0, xs) \<and>
    (\<forall>j off sz. small_ino j \<and> j \<noteq> ino \<and> unat off + unat sz \<le> 2 ^ 28 \<longrightarrow>
       mkrn_yafs_read_file_data j True off sz s' = mkrn_yafs_read_file_data j True off sz s)"
proof -
  obtain s' where s': "mkrn_yafs_write_file_data ino (Some xs) offset s = Some (0, length xs, s')"
    "fs_rep n s' (fs_grow ino offset (length xs) (fs_write ino (unat offset) xs A))" (is "fs_rep n s' ?A")
    using file_write_ok[OF assms(1-3)] by blast
  have len: "unat (of_nat (length xs) :: u32) = length xs"
    using assms(3) by (simp add: unsigned_of_nat take_bit_nat_eq_self)
  have grow: "fs_read ?A j p k = fs_read (fs_write ino (unat offset) xs A) j p k" for j p k
    by (rule fs_read_cong) simp
  have "mkrn_yafs_read_file_data ino True offset (of_nat (length xs)) s' = Some (0, xs)"
    using file_read_ok[OF s'(2), of offset "of_nat (length xs)" ino] assms(3) fs_read_write[OF assms(4,3)]
    by (simp add: len grow)
  moreover have "mkrn_yafs_read_file_data j True off sz s' = mkrn_yafs_read_file_data j True off sz s"
    if "small_ino j" "j \<noteq> ino" "unat off + unat sz \<le> 2 ^ 28" for j off sz
  proof -
    have "fs_read (fs_write ino (unat offset) xs A) j (unat off) (unat sz) = fs_read A j (unat off) (unat sz)"
      using that assms(4) by (intro fs_read_cong fs_byte_write_other) auto
    then show ?thesis using file_read_ok[OF s'(2) that(3)] file_read_ok[OF assms(1) that(3)] by (simp add: grow)
  qed
  ultimately show ?thesis using s'(1) by blast
qed

theorem file_write_read_roundtrip_witness:
  "\<exists>s'. mkrn_yafs_write_file_data 5 (Some [104, 105]) 4095 (0, ydev_boot) = Some (0, 2, s') \<and>
     mkrn_yafs_read_file_data 5 True 4095 2 s' = Some (0, [104, 105])"
  using file_write_read_roundtrip[of 4095 "[104, 105]" 2 "(0, ydev_boot)" Map.empty 5]
  by (auto simp: span_def fs_rep_boot)

text \<open>Truncating a regular file to nothing, with one unit of budget for each
  of its extents, succeeds: its inode has size and block count 0, it has no
  block left below the count the inode recorded, so a read there returns nothing,
  and the files, entries and inodes of all others are as before.\<close>

theorem file_truncate_correct:
  assumes "fs_rep (length (extents ino 0 65536 A) + m) s A" "small_ino ino" "ino \<noteq> 0"
    "A (inode_key ino) = Some (Block b)" "iv_file_type (inode_of_bytes b) = YAFS_FT_REG_FILE"
  shows "\<exists>s' A' b'. mkrn_yafs_truncate_inode ino s = (0, s') \<and> fs_rep m s' A' \<and>
    A' (inode_key ino) = Some (Block b') \<and> inode_of_bytes b' = (inode_of_bytes b)\<lparr>iv_size := 0, iv_blocks := 0\<rparr> \<and>
    (\<forall>off sz. unat off div BS < unat (iv_blocks (inode_of_bytes b)) \<and> unat off + unat sz \<le> 2 ^ 28 \<longrightarrow>
       mkrn_yafs_read_file_data ino True off sz s' = Some (0, [])) \<and>
    (\<forall>j p. small_ino j \<and> j \<noteq> ino \<and> p < 2 ^ 28 \<longrightarrow> fs_byte A' j p = fs_byte A j p) \<and>
    (\<forall>j nm. A' (dir_key j nm) = A (dir_key j nm)) \<and>
    (\<forall>j. small_ino j \<and> j \<noteq> ino \<longrightarrow> A' (inode_key j) = A (inode_key j))"
proof -
  obtain s' where s': "mkrn_yafs_truncate_inode ino s = (0, s')" "fs_rep m s' (fs_truncate ino A)" (is "fs_rep m s' ?A")
    using truncate_ok[OF assms] by blast
  define N where "N = unat (min (iv_blocks (inode_of_bytes b)) YAFS_MAX_FILE_BLOCKS)"
  have shape: "inode_shape (inode_of_bytes b)"
    using inode_block[OF assms(1,4)] inode_shape_of_bytes fs_val.inject(2) by metis
  have A': "?A = (fs_cut ino 0 N A)(inode_key ino \<mapsto>
      Block (put_inode ((inode_of_bytes b)\<lparr>iv_size := 0, iv_blocks := 0\<rparr>) b))"
    using assms(4) by (simp add: fs_truncate_def N_def Let_def)
  have cut: "fs_cut ino 0 N A (extent_key j (of_nat i)) = (if j = ino \<and> i < N then None else A (extent_key j (of_nat i)))"
    if "small_ino j" "i < 65536" for i j
    using that assms(2) by (simp add: fs_cut_def Let_def extent_key_index extent_key_inj)
  have byte: "fs_byte ?A j p = (if j = ino \<and> p div BS < N then None else fs_byte A j p)"
    if "small_ino j" "p < 2 ^ 28" for j p
  proof -
    have "p div BS < 65536" using that(2) by simp
    then show ?thesis using that(1) by (simp add: A' fs_byte_def block_at_def cut)
  qed
  have "mkrn_yafs_read_file_data ino True off sz s' = Some (0, [])"
    if h: "unat off div BS < unat (iv_blocks (inode_of_bytes b))" "unat off + unat sz \<le> 2 ^ 28" for off sz
  proof (cases "unat off < 2 ^ 28")
    case True
    then have "unat off div BS < N" using h(1) by (auto simp: N_def YAFS_MAX_FILE_BLOCKS_def min_def)
    with byte[OF assms(2) True] have "fs_byte ?A ino (unat off) = None" by simp
    then have "fs_read ?A ino (unat off) (unat sz) = []"
      by (cases "unat sz") (simp_all add: fs_read_def upt_conv_Cons del: upt_Suc)
    then show ?thesis using file_read_ok[OF s'(2) h(2)] by simp
  next
    case False
    then have "unat sz = 0" using h(2) by simp
    then have "sz = 0" by (simp add: unsigned_eq_0_iff)
    then show ?thesis by (simp add: mkrn_yafs_read_file_data_def)
  qed
  moreover have "\<forall>j. small_ino j \<and> j \<noteq> ino \<longrightarrow> ?A (inode_key j) = A (inode_key j)"
    using assms(2) by (simp add: A' inode_key_inj)
  ultimately show ?thesis using s' byte shape
    by (intro exI[of _ s'] exI[of _ ?A] exI[of _ "put_inode ((inode_of_bytes b)\<lparr>iv_size := 0, iv_blocks := 0\<rparr>) b"])
      (simp add: A')
qed

theorem file_truncate_correct_witness:
  "\<exists>s s' A'. create_inode 5 YAFS_FT_REG_FILE [97] (0, ydev_boot) = Some (0, s) \<and>
     mkrn_yafs_truncate_inode 5 s = (0, s') \<and> fs_rep 7 s' A'"
proof -
  obtain s where c: "create_inode 5 YAFS_FT_REG_FILE [97] (0, ydev_boot) = Some (0, s)"
    "fs_rep 7 s [inode_key 5 \<mapsto> Block (inode_image YAFS_FT_REG_FILE [97])]"
    using create_inode_ok[of 7 "(0, ydev_boot)" Map.empty 5 YAFS_FT_REG_FILE "[97]"] fs_rep_boot[of 9] by auto
  have "extents 5 0 65536 [inode_key 5 \<mapsto> Block (inode_image YAFS_FT_REG_FILE [97])] = []"
    by (simp add: extents_def)
  then show ?thesis
    using file_truncate_correct[of 5 "[inode_key 5 \<mapsto> Block (inode_image YAFS_FT_REG_FILE [97])]" 7 s] c
    by (force simp: set_name_def)
qed

end
