(* ===== verification/YafsDir.thy ===== *)
theory YafsDir
  imports YafsFile
begin

text \<open>
  Directories on YAFS against their reference: names and paths resolve through the
  entries of the map, a listing shows exactly the entries of one directory, and
  the directory updates are updates of the map.
\<close>

section \<open>Names and parents\<close>

definition entry :: "(u64 \<rightharpoonup> fs_val) \<Rightarrow> u64 \<Rightarrow> u64" where
  "entry A k = (case A k of Some (Entry v) \<Rightarrow> v | _ \<Rightarrow> 0)"

lemma lookup_name_ok: "fs_rep n s A \<Longrightarrow> lookup_name p nm s = entry A (dir_key p nm)"
  using fs_rep_lookup_None[of n s A "dir_key p nm"] fs_rep_lookup_Entry[of n s A "dir_key p nm"]
  by (cases "A (dir_key p nm)") (auto simp: lookup_name_def entry_def)

text \<open>The directory part of the key of a directory entry.\<close>

definition key_dir :: "u64 \<Rightarrow> u64" where
  "key_dir k = drop_bit 16 (mkrn_yafs_key_value k)"

lemma key_dir_dir_key [simp]: "small_ino p \<Longrightarrow> key_dir (dir_key p nm) = p"
  using take_bit_small[of p 44] by (simp add: key_dir_def dir_key_def key_value_split)

definition links :: "(u64 \<rightharpoonup> fs_val) \<Rightarrow> u64 \<Rightarrow> u64 set" where
  "links A child = {k. mkrn_yafs_key_tag k = YAFS_KS_DIR_ENTRY \<and> A k = Some (Entry child)}"

definition parent_of :: "(u64 \<rightharpoonup> fs_val) \<Rightarrow> u64 \<Rightarrow> u64" where
  "parent_of A child =
     (if child = 0 then 0 else if child = 1 then 1
      else if links A child = {} then 0 else key_dir (Min (links A child)))"

text \<open>The walk over one tag sees the keys with that tag.\<close>

lemma tag_range:
  fixes k :: u64
  shows "mkrn_yafs_make_key YAFS_KS_DIR_ENTRY 0 \<le> k \<and> k < mkrn_yafs_make_key (YAFS_KS_DIR_ENTRY + 1) 0 \<longleftrightarrow>
    mkrn_yafs_key_tag k = YAFS_KS_DIR_ENTRY"
proof -
  have t: "unat (mkrn_yafs_key_tag k) = unat k div 2 ^ 60"
    by (simp add: mkrn_yafs_key_tag_def unsigned_drop_bit_eq drop_bit_eq_div unat_div)
  have "mkrn_yafs_key_tag k = YAFS_KS_DIR_ENTRY \<longleftrightarrow> unat (mkrn_yafs_key_tag k) = 1"
    by (metis YAFS_KS_DIR_ENTRY_def unsigned_1 unsigned_word_eqI)
  also have "\<dots> \<longleftrightarrow> 2 ^ 60 \<le> unat k \<and> unat k < 2 * 2 ^ 60" unfolding t by (simp add: div_nat_eqI) linarith
  finally show ?thesis
    by (simp add: mkrn_yafs_make_key_def YAFS_KS_DIR_ENTRY_def word_le_nat_alt word_less_nat_alt push_bit_eq_mult)
qed

lemma visit_parent:
  "snd (visit (parent_cb child) kvs p) =
     (case find (\<lambda>(k, v). mkrn_yafs_key_tag k = YAFS_KS_DIR_ENTRY \<and> v = child) kvs of
        None \<Rightarrow> p | Some (k, v) \<Rightarrow> key_dir k)"
proof (induction kvs)
  case (Cons x kvs)
  obtain k v where x: "x = (k, v)" by (cases x)
  show ?case using Cons.IH by (auto simp: x parent_cb_def[of child k v p] key_dir_def)
qed simp

lemma find_sorted:
  assumes "kv_sorted kvs"
  shows "find P kvs = None \<Longrightarrow> {x \<in> set kvs. P x} = {}"
    and "find P kvs = Some x \<Longrightarrow> x \<in> set kvs \<and> P x \<and> fst x = Min (fst ` {y \<in> set kvs. P y})"
proof -
  show "find P kvs = None \<Longrightarrow> {x \<in> set kvs. P x} = {}" by (auto simp: find_None_iff)
  show "x \<in> set kvs \<and> P x \<and> fst x = Min (fst ` {y \<in> set kvs. P y})" if f: "find P kvs = Some x"
  proof -
    obtain i where i: "i < length kvs" "P (kvs ! i)" "x = kvs ! i" "\<forall>j<i. \<not> P (kvs ! j)"
      using f unfolding find_Some_iff by blast
    have "fst x \<le> fst y" if y: "y \<in> set kvs" "P y" for y
    proof -
      obtain j where j: "j < length kvs" "y = kvs ! j" using y(1) by (auto simp: in_set_conv_nth)
      then have "i \<le> j" using i(4) y(2) by (meson not_le)
      then show ?thesis using assms i j
        by (cases "i = j") (auto simp: sorted_wrt_map sorted_wrt_iff_nth_less intro: less_imp_le)
    qed
    then have "fst x = Min (fst ` {y \<in> set kvs. P y})" using i by (intro Min_eqI[symmetric]) auto
    then show ?thesis using i by simp
  qed
qed

text \<open>What a walk over a key range shows of the map.\<close>

lemma fs_walk:
  assumes "fs_rep n s A"
  obtains kvs where "kv_sorted kvs"
    "\<And>lo hi cb ctx. mkrn_yafs_btree_walk_range 64 (fst s) lo hi cb ctx (snd s) =
       Some (0, snd (visit cb (filter (\<lambda>p. lo \<le> fst p \<and> fst p < hi) kvs) ctx))"
    "\<And>k v. (k, v) \<in> set kvs \<longleftrightarrow> mkrn_yafs_btree_lookup (fst s) k (snd s) = Some v"
    "\<And>k v. \<not> is_block_key k \<Longrightarrow> (k, v) \<in> set kvs \<longleftrightarrow> A k = Some (Entry v)"
proof -
  obtain D m where m: "bt_repr D n s m" "A = fs_abs m (snd s)" using assms by (auto simp: fs_rep_def)
  obtain h kvs where r: "btree_repr D h (snd s) (fst s) kvs" "m = map_of kvs" "h \<le> 16"
    using m(1) unfolding bt_repr_def by (metis le_trans)
  have srt: "kv_sorted kvs" by (rule btree_repr_sorted[OF r(1)])
  then have mem: "(k, v) \<in> set kvs \<longleftrightarrow> m k = Some v" for k v
    unfolding r(2) by (intro map_of_eq_Some_iff[symmetric]) (simp add: strict_sorted_iff)
  show thesis
  proof (rule that[OF srt])
    show "mkrn_yafs_btree_walk_range 64 (fst s) lo hi cb ctx (snd s) =
       Some (0, snd (visit cb (filter (\<lambda>p. lo \<le> fst p \<and> fst p < hi) kvs) ctx))" for lo hi cb and ctx :: 'c
      using btree_walk_repr[OF r(1), of 64 lo hi cb ctx] r(3) by (simp add: in_range_def)
    show "(k, v) \<in> set kvs \<longleftrightarrow> mkrn_yafs_btree_lookup (fst s) k (snd s) = Some v" for k v
      by (simp add: mem bt_lookup[OF m(1)])
    show "\<not> is_block_key k \<Longrightarrow> (k, v) \<in> set kvs \<longleftrightarrow> A k = Some (Entry v)" for k v
      by (auto simp: mem m(2) fs_abs_def)
  qed
qed

lemma lookup_parent_ok:
  assumes "fs_rep n s A"
  shows "lookup_parent child s = Some (parent_of A child)"
proof (cases "child = 0 \<or> child = 1")
  case False
  obtain kvs where srt: "kv_sorted kvs"
    and walk: "\<And>lo hi (cb :: u64 walk_cb) ctx. mkrn_yafs_btree_walk_range 64 (fst s) lo hi cb ctx (snd s) =
       Some (0, snd (visit cb (filter (\<lambda>p. lo \<le> fst p \<and> fst p < hi) kvs) ctx))"
    and mem: "\<And>k v. \<not> is_block_key k \<Longrightarrow> (k, v) \<in> set kvs \<longleftrightarrow> A k = Some (Entry v)"
    by (rule fs_walk[OF assms]) blast
  let ?P = "\<lambda>(k, v). mkrn_yafs_key_tag k = YAFS_KS_DIR_ENTRY \<and> v = child"
  let ?kvs = "filter (\<lambda>p. mkrn_yafs_key_tag (fst p) = YAFS_KS_DIR_ENTRY) kvs"
  have srt': "kv_sorted ?kvs" using srt unfolding sorted_wrt_map by (rule sorted_wrt_filter)
  have nb: "mkrn_yafs_key_tag k = YAFS_KS_DIR_ENTRY \<Longrightarrow> \<not> is_block_key k" for k
    by (simp add: is_block_key_def YAFS_KS_INODE_def YAFS_KS_DIR_ENTRY_def YAFS_KS_EXTENT_def)
  have L: "links A child = fst ` {x \<in> set ?kvs. ?P x}"
    using mem nb by (force simp: links_def image_iff)
  have "lookup_parent child s = Some (snd (visit (parent_cb child) ?kvs 0))"
    using False walk by (simp add: lookup_parent_def tag_range)
  also have "\<dots> = Some (parent_of A child)"
  proof (cases "find ?P ?kvs")
    case None
    then have "links A child = {}" using find_sorted(1)[OF srt' None] by (simp add: L)
    then show ?thesis using None False by (simp add: visit_parent parent_of_def)
  next
    case (Some x)
    from find_sorted(2)[OF srt' Some] have "fst x = Min (links A child)" "links A child \<noteq> {}"
      unfolding L by (simp, blast)
    then show ?thesis using Some False by (cases x) (simp add: visit_parent parent_of_def)
  qed
  finally show ?thesis .
qed (auto simp: lookup_parent_def parent_of_def)

section \<open>Paths\<close>

text \<open>The reference resolver works on the list of components.\<close>

fun split_path :: "u8 list \<Rightarrow> u8 list list" where
  "split_path [] = [[]]"
| "split_path (c # cs) =
     (if c = 47 then [] # split_path cs
      else case split_path cs of [] \<Rightarrow> [[c]] | w # ws \<Rightarrow> (c # w) # ws)"

definition step_into :: "(u64 \<rightharpoonup> fs_val) \<Rightarrow> u64 \<Rightarrow> u8 list \<Rightarrow> u64" where
  "step_into A ino w =
     (if ino = 0 then 0 else if w = [] \<or> w = [46] then ino
      else if w = [46, 46] then parent_of A ino else entry A (dir_key ino w))"

definition resolve :: "(u64 \<rightharpoonup> fs_val) \<Rightarrow> u64 \<Rightarrow> u8 list \<Rightarrow> u64" where
  "resolve A ino path = foldl (step_into A) ino (split_path path)"

lemma resolve_dead [simp]: "foldl (step_into A) 0 cs = 0"
  by (induction cs) (simp_all add: step_into_def)

lemma split_path_ne [simp]: "split_path p \<noteq> []"
  by (induction p) (auto split: list.splits)

lemma split_path_none: "strchr_y p 47 = None \<Longrightarrow> split_path p = [p]"
  by (induction p) (auto split: if_splits)

lemma split_path_some: "strchr_y p 47 = Some i \<Longrightarrow> split_path p = take i p # split_path (drop (Suc i) p)"
  by (induction p arbitrary: i) (auto split: if_splits)

lemma split_path_append: "split_path (p @ 47 # q) = split_path p @ split_path q"
  by (induction p) (auto split: list.splits)

lemma split_path_word: "47 \<notin> set w \<Longrightarrow> split_path w = [w]"
  by (induction w) auto

text \<open>The code cuts a component to 255 characters, except the last one.\<close>

definition short_path :: "u8 list \<Rightarrow> bool" where
  "short_path p \<longleftrightarrow> (\<forall>w \<in> set (split_path p). length w \<le> 255)"

lemma lookup_path_loop_ok:
  assumes "fs_rep n s A" "ino \<noteq> 0" "short_path p"
  shows "lookup_path_loop ino p s = Some (resolve A ino p)"
  using assms(2,3)
proof (induction "length p" arbitrary: ino p rule: less_induct)
  case less
  note name = lookup_name_ok[OF assms(1)] and par = lookup_parent_ok[OF assms(1)]
  show ?case
  proof (cases "strchr_y p 47")
    case None
    then show ?thesis using less.prems(1)
      by (subst lookup_path_loop.simps) (auto simp: resolve_def split_path_none step_into_def name par)
  next
    case (Some i)
    note sp = split_path_some[OF Some]
    have i: "i < length p" "length (take i p) \<le> 255" using strchr_y_bound[OF Some] less.prems(2) by (auto simp: short_path_def sp)
    have rest: "j \<noteq> 0 \<Longrightarrow> lookup_path_loop j (drop (Suc i) p) s = Some (resolve A j (drop (Suc i) p))" for j
      using less.prems(2) i(1) by (intro less.hyps) (auto simp: short_path_def sp)
    have res: "resolve A ino p = resolve A (step_into A ino (take i p)) (drop (Suc i) p)"
      by (simp add: resolve_def sp)
    have dead: "resolve A 0 q = 0" for q by (simp add: resolve_def)
    have "min i 255 = i" using i by (simp add: min_def)
    then show ?thesis using Some less.prems(1) rest res i(1)
      by (subst lookup_path_loop.simps) (auto simp: Let_def step_into_def name par dead)
  qed
qed

lemma lookup_path_ok:
  assumes "fs_rep n s A" "short_path p"
  shows "mkrn_yafs_lookup_path (Some p) s = Some (resolve A 1 p)"
  using lookup_path_loop_ok[OF assms(1) _ assms(2), of 1]
  by (auto simp: mkrn_yafs_lookup_path_def lookup_path_def resolve_def step_into_def)

section \<open>Listing\<close>

lemma unat_dir_key:
  fixes v :: u64
  shows "unat (mkrn_yafs_make_key YAFS_KS_DIR_ENTRY v) = 2 ^ 60 + unat v mod 2 ^ 60"
proof -
  have "push_bit 60 t AND take_bit 60 v = 0" for t :: u64 by (intro bit_word_eqI) (auto simp: bit_simps)
  from disjunctive_add_eq_or[OF this[of 1]]
  have "mkrn_yafs_make_key YAFS_KS_DIR_ENTRY v = push_bit 60 1 + take_bit 60 v"
    by (simp only: mkrn_yafs_make_key_def YAFS_KS_DIR_ENTRY_def value_mask take_bit_eq_mask)
  moreover have "unat (take_bit 60 v) = unat v mod 2 ^ 60" by (simp add: take_bit_eq_mod unat_mod)
  moreover have "unat v mod 2 ^ 60 < 2 ^ 60" by simp
  ultimately show ?thesis by (simp add: unat_plus_if')
qed

lemma unat_key_parts:
  fixes k :: u64
  shows "unat (mkrn_yafs_key_tag k) = unat k div 2 ^ 60" "unat (key_dir k) = unat k mod 2 ^ 60 div 65536"
proof -
  show "unat (mkrn_yafs_key_tag k) = unat k div 2 ^ 60"
    by (simp add: mkrn_yafs_key_tag_def unsigned_drop_bit_eq drop_bit_eq_div unat_div)
  have "key_dir k = drop_bit 16 (take_bit 60 k)"
    by (simp add: key_dir_def mkrn_yafs_key_value_def value_mask take_bit_eq_mask)
  then show "unat (key_dir k) = unat k mod 2 ^ 60 div 65536"
    by (simp add: drop_bit_eq_div unat_div unat_mod take_bit_eq_mod)
qed

lemma dir_range:
  fixes k dir :: u64
  assumes "unat dir < 2 ^ 44 - 1"
  shows "mkrn_yafs_make_key YAFS_KS_DIR_ENTRY (push_bit 16 dir) \<le> k \<and>
      k < mkrn_yafs_make_key YAFS_KS_DIR_ENTRY (push_bit 16 (dir + 1)) \<longleftrightarrow>
    mkrn_yafs_key_tag k = YAFS_KS_DIR_ENTRY \<and> key_dir k = dir"
proof -
  have u: "unat (dir + 1) = Suc (unat dir)" using assms by (simp add: unat_plus_if')
  have "unat (push_bit 16 d) = unat d * 65536" if "unat d < 2 ^ 44" for d :: u64
    using that by (simp add: push_bit_eq_mult unat_mult_lem[THEN iffD1] mult.commute)
  from this[of dir] this[of "dir + 1"] u assms
  have pb: "unat (push_bit 16 dir) = unat dir * 65536" "unat (push_bit 16 (dir + 1)) = Suc (unat dir) * 65536" by auto
  have lo: "unat (mkrn_yafs_make_key YAFS_KS_DIR_ENTRY (push_bit 16 dir)) = 2 ^ 60 + unat dir * 65536"
    "unat (mkrn_yafs_make_key YAFS_KS_DIR_ENTRY (push_bit 16 (dir + 1))) = 2 ^ 60 + Suc (unat dir) * 65536"
    using assms unfolding unat_dir_key pb by simp_all
  have ar: "2 ^ 60 + D * 65536 \<le> K \<and> K < 2 ^ 60 + Suc D * 65536 \<longleftrightarrow> K div 2 ^ 60 = 1 \<and> K mod 2 ^ 60 div 65536 = D"
    if D: "D < 2 ^ 44 - 1" for D K :: nat
  proof
    assume h: "2 ^ 60 + D * 65536 \<le> K \<and> K < 2 ^ 60 + Suc D * 65536"
    then have q: "K div 2 ^ 60 = 1" using D by (intro div_nat_eqI) auto
    then have "K = 2 ^ 60 + K mod 2 ^ 60" using div_mult_mod_eq[of K "2 ^ 60"] by simp
    then have "D * 65536 \<le> K mod 2 ^ 60" "K mod 2 ^ 60 < Suc D * 65536" using h by linarith+
    then have "K mod 2 ^ 60 div 65536 = D" by (intro div_nat_eqI) (simp_all add: mult.commute)
    with q show "K div 2 ^ 60 = 1 \<and> K mod 2 ^ 60 div 65536 = D" by simp
  next
    assume h: "K div 2 ^ 60 = 1 \<and> K mod 2 ^ 60 div 65536 = D"
    then have "K = 2 ^ 60 + K mod 2 ^ 60" using div_mult_mod_eq[of K "2 ^ 60"] by simp
    moreover have "D * 65536 \<le> K mod 2 ^ 60" using h div_times_less_eq_dividend[of "K mod 2 ^ 60" 65536] by simp
    moreover have "K mod 2 ^ 60 < Suc D * 65536" using h dividend_less_div_times[of 65536 "K mod 2 ^ 60"] by simp
    ultimately show "2 ^ 60 + D * 65536 \<le> K \<and> K < 2 ^ 60 + Suc D * 65536" by linarith
  qed
  have eq: "(x = y) = (unat x = unat y)" for x y :: u64 by (auto intro: unsigned_word_eqI)
  show ?thesis
    unfolding word_le_nat_alt word_less_nat_alt eq[of "mkrn_yafs_key_tag k"] eq[of "key_dir k"] lo unat_key_parts
    using ar[OF assms, of "unat k"] by (simp add: YAFS_KS_DIR_ENTRY_def)
qed

lemma visit_readdir:
  assumes "\<forall>p \<in> set kvs. mkrn_yafs_key_tag (fst p) = YAFS_KS_DIR_ENTRY \<and> key_dir (fst p) = dir"
  shows "snd (visit (readdir_cb s dir mx) kvs out) =
    out @ map (\<lambda>p. dirent_of (snd p) s) (take (unat mx - length out) kvs)"
  using assms
proof (induction kvs arbitrary: out)
  case (Cons x kvs)
  obtain k v where x: "x = (k, v)" by (cases x)
  have kd: "mkrn_yafs_key_tag k = YAFS_KS_DIR_ENTRY" "drop_bit 16 (mkrn_yafs_key_value k) = dir"
    using Cons.prems by (auto simp: x key_dir_def)
  show ?case
  proof (cases "unat mx \<le> length out")
    case False
    then obtain r where r: "unat mx - length out = Suc r" by (metis Suc_diff_Suc not_le)
    then have "unat mx - Suc (length out) = r" by simp
    then show ?thesis using False Cons.IH[of "out @ [dirent_of v s]"] Cons.prems kd r
      by (simp add: x readdir_cb_def[of s dir mx k v out])
  qed (simp add: x readdir_cb_def[of s dir mx k v out])
qed simp

lemma readdir_ok:
  assumes "fs_rep n s A" "fst s \<noteq> 0" "unat dir < 2 ^ 44 - 1"
  obtains kvs where "kv_sorted kvs"
    "set kvs = {(k, v). mkrn_yafs_key_tag k = YAFS_KS_DIR_ENTRY \<and> key_dir k = dir \<and> A k = Some (Entry v)}"
    "mkrn_yafs_readdir dir True mx s = Some (int (length (take (unat mx) kvs)),
       map (\<lambda>p. dirent_of (snd p) s) (take (unat mx) kvs))"
proof -
  obtain kvs where srt: "kv_sorted kvs"
    and walk: "\<And>lo hi (cb :: mkrn_vfs_dirent list walk_cb) ctx. mkrn_yafs_btree_walk_range 64 (fst s) lo hi cb ctx (snd s) =
       Some (0, snd (visit cb (filter (\<lambda>p. lo \<le> fst p \<and> fst p < hi) kvs) ctx))"
    and mem: "\<And>k v. \<not> is_block_key k \<Longrightarrow> (k, v) \<in> set kvs \<longleftrightarrow> A k = Some (Entry v)"
    by (rule fs_walk[OF assms(1)]) blast
  define ks where "ks = filter (\<lambda>p. mkrn_yafs_key_tag (fst p) = YAFS_KS_DIR_ENTRY \<and> key_dir (fst p) = dir) kvs"
  have nb: "mkrn_yafs_key_tag k = YAFS_KS_DIR_ENTRY \<Longrightarrow> \<not> is_block_key k" for k
    by (simp add: is_block_key_def YAFS_KS_INODE_def YAFS_KS_DIR_ENTRY_def YAFS_KS_EXTENT_def)
  have "\<not> drop_bit 16 (- 1) \<le> dir"
  proof -
    have "drop_bit 16 (- 1 :: u64) = 0xFFFFFFFFFFFF" by (simp add: mask_eq_exp_minus_1)
    then show ?thesis using assms(3) by (simp add: word_le_nat_alt)
  qed
  moreover have "snd (visit (readdir_cb s dir mx) ks []) = map (\<lambda>p. dirent_of (snd p) s) (take (unat mx) ks)"
    using visit_readdir[of ks dir s mx "[]"] by (simp add: ks_def)
  ultimately have "mkrn_yafs_readdir dir True mx s = Some (int (length (take (unat mx) ks)),
      map (\<lambda>p. dirent_of (snd p) s) (take (unat mx) ks))"
    using assms(2) walk by (simp add: mkrn_yafs_readdir_def dir_range[OF assms(3)] ks_def)
  moreover have "kv_sorted ks" unfolding ks_def using srt unfolding sorted_wrt_map by (rule sorted_wrt_filter)
  moreover have "set ks = {(k, v). mkrn_yafs_key_tag k = YAFS_KS_DIR_ENTRY \<and> key_dir k = dir \<and> A k = Some (Entry v)}"
    using mem nb by (auto simp: ks_def)
  ultimately show thesis using that by blast
qed

section \<open>Updates\<close>

lemma create_link_ok:
  assumes "fs_rep (Suc n) s A"
  shows "\<exists>s'. create_link p nm c s = Some (if A (dir_key p nm) = None then 0 else -1, s') \<and>
    fs_rep n s' (A(dir_key p nm \<mapsto> Entry c))"
  using fs_rep_put_entry[OF assms block_keys(3)[of p nm], of c] by (auto simp: create_link_def)

definition fs_mkdir :: "u64 \<Rightarrow> u8 list \<Rightarrow> u64 \<Rightarrow> (u64 \<rightharpoonup> fs_val) \<Rightarrow> (u64 \<rightharpoonup> fs_val)" where
  "fs_mkdir p nm nr A = A(inode_key nr \<mapsto> Block (inode_image YAFS_FT_DIR nm), dir_key p nm \<mapsto> Entry nr)"

lemma mkdir_ok:
  assumes "fs_rep (Suc (Suc (Suc n))) s A" "A (dir_key p nm) = None"
  shows "\<exists>s'. mkrn_yafs_mkdir p (Some nm) nr s = Some (0, s') \<and> fs_rep n s' (fs_mkdir p nm nr A)"
proof -
  obtain s1 where s1: "create_inode nr YAFS_FT_DIR nm s = Some (0, s1)"
    "fs_rep (Suc n) s1 (A(inode_key nr \<mapsto> Block (inode_image YAFS_FT_DIR nm)))"
    using create_inode_ok[OF assms(1)] by blast
  from create_link_ok[OF s1(2), of p nm nr] show ?thesis
    using s1(1) assms(2) by (auto simp: mkrn_yafs_mkdir_def fs_mkdir_def)
qed

lemma unlink_ok:
  assumes "fs_rep (Suc n) s A"
  shows "\<exists>s'. mkrn_yafs_unlink p (Some nm) s = (if A (dir_key p nm) = None then -1 else 0, s') \<and>
    fs_rep n s' (A(dir_key p nm := None))"
  using fs_rep_delete[OF assms, of "dir_key p nm"] by (auto simp: mkrn_yafs_unlink_def)

definition fs_rename_inode :: "u64 \<Rightarrow> u8 list \<Rightarrow> (u64 \<rightharpoonup> fs_val) \<Rightarrow> (u64 \<rightharpoonup> fs_val)" where
  "fs_rename_inode child nm A = (case A (inode_key child) of
     Some (Block b) \<Rightarrow> A(inode_key child \<mapsto> Block (put_inode (set_name nm (inode_of_bytes b)) b)) | _ \<Rightarrow> A)"

lemma rename_inode_ok:
  assumes "fs_rep n s A"
  shows "fs_rep n (rename_inode child nm s) (fs_rename_inode child nm A)"
proof (cases "A (inode_key child)")
  case None
  then show ?thesis using assms fs_rep_lookup_None[OF assms None] by (simp add: rename_inode_def fs_rename_inode_def)
next
  case (Some a)
  obtain b v where b: "a = Block b" "length b = BS"
    "mkrn_yafs_btree_lookup (fst s) (inode_key child) (snd s) = Some v" "mkrn_yafs_dev_read v (snd s) = Some b"
    and w: "\<And>x. mkrn_yafs_dev_write v x (snd s) = Some (set_block v x (snd s))"
    "\<And>x. length x = BS \<Longrightarrow> fs_rep n (fst s, set_block v x (snd s)) (A(inode_key child \<mapsto> Block x))"
    using inode_block[OF assms Some] by metis
  have "length (put_inode (set_name nm (inode_of_bytes b)) b) = BS" using b(2) by simp
  from w(2)[OF this] show ?thesis using b Some w(1) by (simp add: rename_inode_def fs_rename_inode_def)
qed

lemma rename_ok:
  assumes "fs_rep (Suc (Suc n)) s A" "entry A (dir_key op onm) = child" "child \<noteq> 0"
    "A (dir_key np nnm) = None"
  shows "\<exists>s'. mkrn_yafs_rename op (Some onm) np (Some nnm) s = Some (0, s') \<and>
    fs_rep n s' (fs_rename_inode child nnm (A(dir_key np nnm \<mapsto> Entry child, dir_key op onm := None)))"
proof -
  have old: "A (dir_key op onm) = Some (Entry child)"
    using assms(2,3) by (auto simp: entry_def split: option.splits fs_val.splits)
  then have ne: "dir_key np nnm \<noteq> dir_key op onm" using assms(4) by auto
  obtain s1 where s1: "tree_insert (dir_key np nnm) child s = Some (0, True, s1)"
    "fs_rep (Suc n) s1 (A(dir_key np nnm \<mapsto> Entry child))"
    using fs_rep_put_entry[OF assms(1) block_keys(3), of np nnm child] assms(4) by auto
  obtain s2 where s2: "tree_delete (dir_key op onm) s1 = (0, True, s2)"
    "fs_rep n s2 (A(dir_key np nnm \<mapsto> Entry child, dir_key op onm := None))"
    using fs_rep_delete[OF s1(2), of "dir_key op onm"] old ne by auto
  from rename_inode_ok[OF s2(2)] show ?thesis
    using s1(1) s2(1) assms(2,3) lookup_name_ok[OF assms(1), of op onm] by (auto simp: mkrn_yafs_rename_def Let_def)
qed

text \<open>Names that stand for themselves, and paths without parent steps.\<close>

definition plain_name :: "u8 list \<Rightarrow> bool" where
  "plain_name w \<longleftrightarrow> w \<noteq> [] \<and> w \<noteq> [46] \<and> w \<noteq> [46, 46] \<and> 47 \<notin> set w \<and> length w \<le> 255"

definition down_path :: "u8 list \<Rightarrow> bool" where
  "down_path p \<longleftrightarrow> short_path p \<and> [46, 46] \<notin> set (split_path p)"

lemma resolve_append:
  "plain_name w \<Longrightarrow> resolve A i (p @ 47 # w) = (if resolve A i p = 0 then 0 else entry A (dir_key (resolve A i p) w))"
  by (auto simp: resolve_def split_path_append split_path_word plain_name_def step_into_def)

lemma down_path_append: "down_path p \<Longrightarrow> plain_name w \<Longrightarrow> short_path (p @ 47 # w)"
  by (auto simp: down_path_def short_path_def split_path_append split_path_word plain_name_def)

text \<open>Entries that stay keep every path through them.\<close>

lemma resolve_mono:
  assumes "\<And>j w. entry A (dir_key j w) \<noteq> 0 \<Longrightarrow> entry B (dir_key j w) = entry A (dir_key j w)"
    and "[46, 46] \<notin> set (split_path p)" "resolve A i p \<noteq> 0"
  shows "resolve B i p = resolve A i p"
proof -
  have "[46, 46] \<notin> set ws \<Longrightarrow> foldl (step_into A) i ws \<noteq> 0 \<Longrightarrow> foldl (step_into B) i ws = foldl (step_into A) i ws" for ws
  proof (induction ws rule: rev_induct)
    case (snoc w ws)
    define a where "a = foldl (step_into A) i ws"
    have st: "step_into A a w \<noteq> 0" using snoc.prems(2) by (simp add: a_def)
    then have "a \<noteq> 0" by (auto simp: step_into_def[of A a w])
    then have "foldl (step_into B) i ws = a" using snoc a_def by simp
    moreover have "step_into B a w = step_into A a w"
      using st snoc.prems(1) assms(1) by (auto simp: step_into_def[of _ a w])
    ultimately show ?case by (simp add: a_def[symmetric])
  qed simp
  with assms(2,3) show ?thesis by (simp add: resolve_def)
qed

section \<open>Properties\<close>

text \<open>A directory with one entry, for the witnesses.\<close>

lemma one_link:
  "\<exists>s. create_link 1 [97] 7 (0, ydev_boot) = Some (0, s) \<and> fs_rep (Suc 6) s [dir_key 1 [97] \<mapsto> Entry 7]"
  using create_link_ok[OF fs_rep_boot[of "Suc (Suc 6)"], of 1 "[97]" 7] by auto

text \<open>C20. Path resolution agrees with the reference on the directory map: from the
  root, an empty component and \<open>.\<close> stay, \<open>..\<close> goes to the parent, a name goes to
  its entry, a missing entry ends in 0. The components have at most the 255
  characters the code keeps.\<close>

theorem lookup_path_correct:
  assumes "fs_rep n s A" "short_path p"
  shows "mkrn_yafs_lookup_path (Some p) s = Some (foldl (step_into A) 1 (split_path p))"
  using lookup_path_ok[OF assms] by (simp add: resolve_def)

theorem lookup_path_correct_witness:
  "\<exists>s. create_link 1 [97] 7 (0, ydev_boot) = Some (0, s) \<and> mkrn_yafs_lookup_path (Some [47, 97, 47, 46, 46, 47, 97]) s = Some 7"
proof -
  obtain s where s: "create_link 1 [97] 7 (0, ydev_boot) = Some (0, s)" "fs_rep 7 s [dir_key 1 [97] \<mapsto> Entry 7]"
    using one_link by auto
  have "links [dir_key 1 [97] \<mapsto> Entry 7] 7 = {dir_key 1 [97]}" by (auto simp: links_def split: if_splits)
  then have "foldl (step_into [dir_key 1 [97] \<mapsto> Entry 7]) 1 (split_path [47, 97, 47, 46, 46, 47, 97]) = 7"
    by (simp add: step_into_def entry_def parent_of_def)
  with lookup_path_correct[OF s(2), of "[47, 97, 47, 46, 46, 47, 97]"] s(1) show ?thesis by (simp add: short_path_def)
qed

text \<open>Making a directory under a name its parent does not have succeeds, and
  afterwards the parent's path followed by the name resolves to the new inode, a
  directory inode with that name; every path (without parent steps) that resolved
  before resolves to the same inode.\<close>

theorem mkdir_correct:
  assumes "fs_rep (n + 3) s A" "down_path p" "mkrn_yafs_lookup_path (Some p) s = Some par" "par \<noteq> 0"
    "plain_name nm" "A (dir_key par nm) = None" "nr \<noteq> 0"
  shows "\<exists>s' A'. mkrn_yafs_mkdir par (Some nm) nr s = Some (0, s') \<and> fs_rep n s' A' \<and>
    mkrn_yafs_lookup_path (Some (p @ 47 # nm)) s' = Some nr \<and>
    A' (inode_key nr) = Some (Block (inode_image YAFS_FT_DIR nm)) \<and>
    (\<forall>q j. down_path q \<and> mkrn_yafs_lookup_path (Some q) s = Some j \<and> j \<noteq> 0 \<longrightarrow>
       mkrn_yafs_lookup_path (Some q) s' = Some j)"
proof -
  have "fs_rep (Suc (Suc (Suc n))) s A" using assms(1) by (simp add: eval_nat_numeral)
  from mkdir_ok[OF this assms(6)] obtain s' where
    s': "mkrn_yafs_mkdir par (Some nm) nr s = Some (0, s')" "fs_rep n s' (fs_mkdir par nm nr A)" by blast
  have keep: "entry (fs_mkdir par nm nr A) (dir_key j w) = entry A (dir_key j w)" if "entry A (dir_key j w) \<noteq> 0" for j w
    using that assms(6) by (auto simp: fs_mkdir_def entry_def)
  have old: "resolve (fs_mkdir par nm nr A) 1 q = j"
    if "down_path q" "mkrn_yafs_lookup_path (Some q) s = Some j" "j \<noteq> 0" for q j
    using that lookup_path_ok[OF assms(1), of q] resolve_mono[OF keep, of q 1] by (simp add: down_path_def)
  have "resolve (fs_mkdir par nm nr A) 1 (p @ 47 # nm) = nr"
    using old[OF assms(2,3,4)] assms(4) resolve_append[OF assms(5)] by (simp add: fs_mkdir_def entry_def)
  with lookup_path_ok[OF s'(2) down_path_append[OF assms(2,5)]] s' old lookup_path_ok[OF s'(2)]
  show ?thesis by (intro exI[of _ s'] exI[of _ "fs_mkdir par nm nr A"]) (simp add: fs_mkdir_def down_path_def)
qed

theorem mkdir_correct_witness:
  "\<exists>s'. mkrn_yafs_mkdir 1 (Some [97, 98]) 9 (0, ydev_boot) = Some (0, s') \<and>
     mkrn_yafs_lookup_path (Some [47, 97, 98]) s' = Some 9"
proof -
  have "mkrn_yafs_lookup_path (Some []) (0, ydev_boot) = Some 1" by (simp add: mkrn_yafs_lookup_path_def lookup_path_def)
  with mkdir_correct[of 4 "(0, ydev_boot)" Map.empty "[]" 1 "[97, 98]" 9] fs_rep_boot[of 7] show ?thesis
    by (auto simp: down_path_def short_path_def plain_name_def)
qed

text \<open>C21. With two updates of budget, renaming an entry to a name that is free (no
  entry of the target directory has the name or the low 16 bits of its hash)
  moves it: the new name leads to the inode, the old one to nothing, and the
  name kept in the inode follows. Nothing else changes: every other entry of
  the tree, inode records and data blocks included, is as before, and a read
  of any file at any place within the 256 MB a file can address returns what
  it returned before. A rename onto a taken name is not covered: it fails after
  it has replaced the entry, as \<open>link_collision_overwrites\<close> shows.\<close>

theorem rename_correct:
  assumes "fs_rep (n + 2) s A" "A (dir_key op onm) = Some (Entry child)" "child \<noteq> 0" "A (dir_key np nnm) = None"
  shows "\<exists>s' A'. mkrn_yafs_rename op (Some onm) np (Some nnm) s = Some (0, s') \<and> fs_rep n s' A' \<and>
    lookup_name np nnm s' = child \<and> lookup_name op onm s' = 0 \<and>
    (\<forall>j w. dir_key j w \<noteq> dir_key op onm \<and> dir_key j w \<noteq> dir_key np nnm \<longrightarrow> lookup_name j w s' = lookup_name j w s) \<and>
    (\<forall>b. A (inode_key child) = Some (Block b) \<longrightarrow> (\<exists>b'. A' (inode_key child) = Some (Block b') \<and>
       inode_of_bytes b' = set_name nnm (inode_of_bytes b))) \<and>
    (\<forall>k. k \<notin> {dir_key op onm, dir_key np nnm, inode_key child} \<longrightarrow> A' k = A k) \<and>
    (\<forall>j off sz. unat off + unat sz \<le> 2 ^ 28 \<longrightarrow>
       mkrn_yafs_read_file_data j True off sz s' = mkrn_yafs_read_file_data j True off sz s)"
proof -
  let ?B = "A(dir_key np nnm \<mapsto> Entry child, dir_key op onm := None)"
  let ?A = "fs_rename_inode child nnm ?B"
  have "fs_rep (Suc (Suc n)) s A" using assms(1) by (simp add: eval_nat_numeral)
  from rename_ok[OF this _ assms(3,4), of op onm] assms(2) obtain s' where
    s': "mkrn_yafs_rename op (Some onm) np (Some nnm) s = Some (0, s')" "fs_rep n s' ?A"
    by (auto simp: entry_def)
  have other: "?A k = ?B k" if "k \<noteq> inode_key child" for k
    using that by (simp add: fs_rename_inode_def split: option.splits fs_val.splits)
  have ne: "dir_key np nnm \<noteq> dir_key op onm" using assms(2,4) by auto
  have names: "lookup_name j w s' = entry ?B (dir_key j w)" for j w
    using lookup_name_ok[OF s'(2)] other[of "dir_key j w"] by (simp add: entry_def)
  have "inode_shape (set_name nnm (inode_of_bytes b))" if "A (inode_key child) = Some (Block b)" for b
    using inode_block[OF assms(1) that] by force
  then have rec: "\<forall>b. A (inode_key child) = Some (Block b) \<longrightarrow> (\<exists>b'. ?A (inode_key child) = Some (Block b') \<and>
       inode_of_bytes b' = set_name nnm (inode_of_bytes b))"
    by (simp add: fs_rename_inode_def)
  have "fs_byte ?A j q = fs_byte A j q" for j q by (simp add: fs_byte_def block_at_def other)
  then have "fs_read ?A j q k = fs_read A j q k" for j q k by (intro fs_read_cong) simp
  then have data: "\<forall>j off sz. unat off + unat sz \<le> 2 ^ 28 \<longrightarrow>
       mkrn_yafs_read_file_data j True off sz s' = mkrn_yafs_read_file_data j True off sz s"
    using file_read_ok[OF s'(2)] file_read_ok[OF assms(1)] by simp
  show ?thesis
    using s' rec data other lookup_name_ok[OF assms(1)] ne
    by (intro exI[of _ s'] exI[of _ ?A]) (auto simp: names entry_def)
qed

theorem rename_correct_witness:
  "\<exists>s s'. create_link 1 [97] 7 (0, ydev_boot) = Some (0, s) \<and> mkrn_yafs_rename 1 (Some [97]) 1 (Some [98]) s = Some (0, s') \<and>
     lookup_name 1 [98] s' = 7 \<and> lookup_name 1 [97] s' = 0"
proof -
  obtain s where s: "create_link 1 [97] 7 (0, ydev_boot) = Some (0, s)" "fs_rep (5 + 2) s [dir_key 1 [97] \<mapsto> Entry 7]"
    using one_link by auto
  have "dir_key 1 [98] \<noteq> dir_key 1 [97]"
    by (simp add: dir_key_def mkrn_yafs_name_hash_def mkrn_yafs_make_key_def YAFS_KS_DIR_ENTRY_def YAFS_KS_VALUE_MASK_def)
  with rename_correct[OF s(2), of 1 "[97]" 7 1 "[98]"] s(1) show ?thesis by auto
qed

text \<open>A directory listing shows exactly the entries of the directory, each once,
  in the order of their keys, cut to the caller's maximum, and returns their number.\<close>

theorem readdir_exact:
  assumes "fs_rep n s A" "fst s \<noteq> 0" "unat dir < 2 ^ 44 - 1"
  shows "\<exists>kvs. kv_sorted kvs \<and>
    set kvs = {(k, v). mkrn_yafs_key_tag k = YAFS_KS_DIR_ENTRY \<and> key_dir k = dir \<and> A k = Some (Entry v)} \<and>
    mkrn_yafs_readdir dir True mx s = Some (int (min (unat mx) (length kvs)),
      map (\<lambda>p. dirent_of (snd p) s) (take (unat mx) kvs))"
  by (rule readdir_ok[OF assms, of mx]) (auto simp: min.commute)

theorem readdir_exact_witness:
  "\<exists>s e. create_link 1 [97] 7 (0, ydev_boot) = Some (0, s) \<and> mkrn_yafs_readdir 1 True 10 s = Some (1, [e]) \<and> d_inode e = 7"
proof -
  obtain s where s: "create_link 1 [97] 7 (0, ydev_boot) = Some (0, s)" "fs_rep 7 s [dir_key 1 [97] \<mapsto> Entry 7]"
    using one_link by auto
  have nz: "fst s \<noteq> 0" using fs_rep_lookup_Entry[OF s(2) block_keys(3), of 1 "[97]"]
    by (auto simp: mkrn_yafs_btree_lookup_def)
  obtain kvs where k: "kv_sorted kvs" "set kvs = {(k, v). mkrn_yafs_key_tag k = YAFS_KS_DIR_ENTRY \<and> key_dir k = 1 \<and>
      [dir_key 1 [97] \<mapsto> Entry 7] k = Some (Entry v)}"
    "mkrn_yafs_readdir 1 True 10 s = Some (int (min 10 (length kvs)), map (\<lambda>p. dirent_of (snd p) s) (take 10 kvs))"
    using readdir_exact[OF s(2) nz, of 1 10] by auto
  have "set kvs = {(dir_key 1 [97], 7)}" unfolding k(2) by (auto split: if_splits)
  moreover have "distinct kvs" using k(1) by (auto simp: strict_sorted_iff distinct_map)
  ultimately have "length kvs = 1" "set kvs = {(dir_key 1 [97], 7)}" using distinct_card[of kvs] by auto
  then have "kvs = [(dir_key 1 [97], 7)]" by (cases kvs) auto
  moreover have "d_inode (dirent_of 7 s) = 7" by (simp add: dirent_of_def Let_def split: option.splits)
  ultimately show ?thesis using s(1) k(3) by auto
qed

text \<open>A link or a rename whose name, or the low 16 bits of its hash, is taken
  reports failure, and yet the entry that was there has been replaced: the name
  now leads to the new inode and the old one has lost its entry.\<close>

theorem link_collision_overwrites:
  assumes "fs_rep (Suc n) s A" "A (dir_key p nm) = Some (Entry v)" "c \<noteq> v"
  shows "(\<exists>s'. create_link p nm c s = Some (-1, s') \<and> lookup_name p nm s = v \<and> lookup_name p nm s' = c) \<and>
    (\<forall>op onm. lookup_name op onm s = c \<and> c \<noteq> 0 \<longrightarrow>
      (\<exists>s'. mkrn_yafs_rename op (Some onm) p (Some nm) s = Some (-1, s') \<and> lookup_name p nm s' = c))"
proof (intro conjI allI impI)
  show "\<exists>s'. create_link p nm c s = Some (-1, s') \<and> lookup_name p nm s = v \<and> lookup_name p nm s' = c"
    using create_link_ok[OF assms(1), of p nm c] assms(2) lookup_name_ok lookup_name_ok[OF assms(1), of p nm]
    by (force simp: entry_def)
  show "\<exists>s'. mkrn_yafs_rename op (Some onm) p (Some nm) s = Some (-1, s') \<and> lookup_name p nm s' = c"
    if "lookup_name op onm s = c \<and> c \<noteq> 0" for op onm
    using fs_rep_put_entry[OF assms(1) block_keys(3), of p nm c] assms(2) that lookup_name_ok
    by (force simp: mkrn_yafs_rename_def entry_def)
qed

theorem link_collision_overwrites_witness:
  "\<exists>s s'. create_link 1 [97] 7 (0, ydev_boot) = Some (0, s) \<and> create_link 1 [97] 8 s = Some (-1, s') \<and>
     lookup_name 1 [97] s = 7 \<and> lookup_name 1 [97] s' = 8"
proof -
  obtain s where s: "create_link 1 [97] 7 (0, ydev_boot) = Some (0, s)" "fs_rep (Suc 6) s [dir_key 1 [97] \<mapsto> Entry 7]"
    using one_link by blast
  from link_collision_overwrites[OF s(2), of 1 "[97]" 7 8] s(1) show ?thesis by auto
qed

end
