(* ===== verification/YafsFhs.thy ===== *)
theory YafsFhs
  imports YafsDir
begin

text \<open>
  The file hierarchy created at boot (\<open>mkrn_yafs_create_fhs\<close> of
  \<open>sys/src/fs/yafs/core/yafs/yafs_vfs.c\<close>): the table of paths, and the loop that
  makes an inode and a link for each of them.
\<close>

section \<open>The table and the loop\<close>

definition fhs_tree :: "(string \<times> u32 \<times> string option) list" where
  "fhs_tree = [
    (''bin'', YAFS_FT_SYMLINK, Some ''/usr/bin''),
    (''boot'', YAFS_FT_SYMLINK, Some ''/sys/boot''),
    (''dev'', YAFS_FT_DIR, None),
    (''devices'', YAFS_FT_DIR, None),
    (''etc'', YAFS_FT_DIR, None),
    (''export'', YAFS_FT_DIR, None),
    (''home'', YAFS_FT_SYMLINK, Some ''/export/home''),
    (''lib'', YAFS_FT_DIR, None),
    (''mnt'', YAFS_FT_DIR, None),
    (''opt'', YAFS_FT_DIR, None),
    (''root'', YAFS_FT_SYMLINK, Some ''/export/root''),
    (''sbin'', YAFS_FT_DIR, None),
    (''sys'', YAFS_FT_DIR, None),
    (''tmp'', YAFS_FT_DIR, None),
    (''usr'', YAFS_FT_DIR, None),
    (''var'', YAFS_FT_DIR, None),
    (''dev/dsk'', YAFS_FT_DIR, None),
    (''dev/rdsk'', YAFS_FT_DIR, None),
    (''devices/fd'', YAFS_FT_DIR, None),
    (''export/cfg'', YAFS_FT_DIR, None),
    (''export/home'', YAFS_FT_DIR, None),
    (''export/PATH'', YAFS_FT_DIR, None),
    (''export/root'', YAFS_FT_DIR, None),
    (''mnt/media'', YAFS_FT_DIR, None),
    (''sys/proc'', YAFS_FT_DIR, None),
    (''sys/srv'', YAFS_FT_DIR, None),
    (''sys/boot'', YAFS_FT_DIR, None),
    (''sys/boot/kernel'', YAFS_FT_DIR, None),
    (''sys/boot/efi'', YAFS_FT_DIR, None),
    (''sys/boot/grub'', YAFS_FT_DIR, None),
    (''sys/boot/initrd'', YAFS_FT_DIR, None),
    (''sys/boot/firmware'', YAFS_FT_DIR, None),
    (''sys/boot/kernel/genunix'', YAFS_FT_REG_FILE, None),
    (''sys/boot/kernel/arch'', YAFS_FT_DIR, None),
    (''sys/boot/kernel/fs'', YAFS_FT_DIR, None),
    (''sys/boot/kernel/drv'', YAFS_FT_DIR, None),
    (''sys/boot/kernel/misc'', YAFS_FT_DIR, None),
    (''sys/boot/kernel/arch/amd64'', YAFS_FT_DIR, None),
    (''sys/boot/kernel/arch/i386'', YAFS_FT_DIR, None),
    (''sys/boot/kernel/fs/yafs.ko'', YAFS_FT_REG_FILE, None),
    (''sys/boot/kernel/fs/tmpfs.ko'', YAFS_FT_REG_FILE, None),
    (''sys/boot/kernel/drv/virtio_blk.ko'', YAFS_FT_REG_FILE, None),
    (''sys/boot/kernel/drv/e1000.ko'', YAFS_FT_REG_FILE, None),
    (''sys/boot/kernel/misc/aes_x86_64.ko'', YAFS_FT_REG_FILE, None),
    (''sys/boot/efi/bootx64.efi'', YAFS_FT_REG_FILE, None),
    (''sys/boot/efi/bootia32.efi'', YAFS_FT_REG_FILE, None),
    (''sys/boot/efi/fonts'', YAFS_FT_DIR, None),
    (''sys/boot/grub/grub.cfg'', YAFS_FT_REG_FILE, None),
    (''sys/boot/grub/locale'', YAFS_FT_DIR, None),
    (''sys/boot/grub/themes'', YAFS_FT_DIR, None),
    (''sys/boot/initrd/initrd.img'', YAFS_FT_REG_FILE, None),
    (''sys/boot/firmware/intel-ucode.img'', YAFS_FT_REG_FILE, None),
    (''usr/bin'', YAFS_FT_DIR, None),
    (''usr/include'', YAFS_FT_DIR, None),
    (''usr/lib'', YAFS_FT_DIR, None),
    (''usr/libexec'', YAFS_FT_DIR, None),
    (''usr/local'', YAFS_FT_DIR, None),
    (''usr/sbin'', YAFS_FT_DIR, None),
    (''usr/share'', YAFS_FT_DIR, None),
    (''var/run'', YAFS_FT_DIR, None),
    (''var/tmp'', YAFS_FT_DIR, None)]"

text \<open>The parent directory of a path and the name in it; \<open>Some 0\<close> is a parent that
  does not exist.\<close>

definition fhs_split :: "u8 list \<Rightarrow> bt_state \<Rightarrow> (u64 \<times> u8 list) option" where
  "fhs_split path s =
     (case strrchr_y path 47 of
        None \<Rightarrow> Some (1, path)
      | Some plen \<Rightarrow>
          if plen > 0
          then map_option (\<lambda>p. (p, drop (Suc plen) path)) (lookup_path (Some (take (min plen 255) path)) s)
          else Some (1, drop (Suc plen) path))"

fun fhs_loop :: "(string \<times> u32 \<times> string option) list \<Rightarrow> u64 \<Rightarrow> bt_state \<Rightarrow> (int \<times> bt_state) option" where
  "fhs_loop [] next_inode s = Some (0, s)"
| "fhs_loop ((path, ftype, target) # es) next_inode s = do {
     (parent, name) \<leftarrow> fhs_split (chars path) s;
     if parent = 0 then Some (-1, s)
     else do {
       (st, s1) \<leftarrow> create_inode next_inode ftype
         (if ftype = YAFS_FT_SYMLINK then (case target of Some t \<Rightarrow> chars t | None \<Rightarrow> name) else name) s;
       if st \<noteq> 0 then Some (-1, s1)
       else do {
         (st2, s2) \<leftarrow> create_link parent name next_inode s1;
         if st2 \<noteq> 0 then Some (-1, s2) else fhs_loop es (next_inode + 1) s2
       }
     }
   }"

text \<open>The tree grows under a local root, which the caller sees only on success.\<close>

definition mkrn_yafs_create_fhs :: "bt_state \<Rightarrow> (int \<times> bt_state) option" where
  "mkrn_yafs_create_fhs s = do {
     (st, s1) \<leftarrow> create_inode 1 YAFS_FT_DIR (chars ''/'') s;
     if st \<noteq> 0 then Some (-1, (fst s, snd s1))
     else do {
       (st2, s2) \<leftarrow> fhs_loop fhs_tree 2 s1;
       if st2 \<noteq> 0 then Some (-1, (fst s, snd s2)) else Some (0, s2)
     }
   }"

section \<open>The plan\<close>

text \<open>What the loop does to the directory entries, on integers: an entry is keyed by
  the inode of its directory and the 16 bits kept of the hash of its name.\<close>

definition h16 :: "string \<Rightarrow> int" where
  "h16 w = foldl (\<lambda>h c. (33 * h + of_char c) mod 65536) 5381 w"

fun words :: "string \<Rightarrow> string list" where
  "words [] = [[]]"
| "words (c # cs) =
     (if c = CHR ''/'' then [] # words cs
      else case words cs of [] \<Rightarrow> [[c]] | w # ws \<Rightarrow> (c # w) # ws)"

definition plan_step :: "((int \<times> int) \<times> int) list \<Rightarrow> int \<Rightarrow> string \<Rightarrow> int" where
  "plan_step kvs i w = (if i = 0 then 0 else case map_of kvs (i, h16 w) of None \<Rightarrow> 0 | Some v \<Rightarrow> v)"

fun fhs_plan :: "string list \<Rightarrow> int \<Rightarrow> ((int \<times> int) \<times> int) list \<Rightarrow> ((int \<times> int) \<times> int) list option" where
  "fhs_plan [] nx kvs = Some kvs"
| "fhs_plan (path # es) nx kvs =
     (let ws = words path; par = foldl (plan_step kvs) 1 (butlast ws); k = (par, h16 (last ws)) in
      if par \<noteq> 0 \<and> map_of kvs k = None then fhs_plan es (nx + 1) ((k, nx) # kvs) else None)"

definition plan_word :: "string \<Rightarrow> bool" where
  "plan_word w \<longleftrightarrow> w \<noteq> [] \<and> w \<noteq> ''.'' \<and> w \<noteq> ''..'' \<and> length w \<le> 255"

text \<open>The plan works for the whole table, and afterwards every path of the table
  leads to its own inode. In particular no two names of one directory collide.\<close>

fun leads_from :: "((int \<times> int) \<times> int) list \<Rightarrow> int \<Rightarrow> string list \<Rightarrow> bool" where
  "leads_from kvs i [] = True"
| "leads_from kvs i (p # ps) = (foldl (plan_step kvs) 1 (words p) = i \<and> leads_from kvs (i + 1) ps)"

definition fhs_check :: bool where
  "fhs_check = (case fhs_plan (map fst fhs_tree) 2 [] of
     None \<Rightarrow> False
   | Some kvs \<Rightarrow>
       leads_from kvs 2 (map fst fhs_tree) \<and>
       list_all (\<lambda>p. list_all plan_word (words p) \<and> length p \<le> 255) (map fst fhs_tree))"

lemma leads_from_nth: "leads_from kvs i ps \<Longrightarrow> j < length ps \<Longrightarrow> foldl (plan_step kvs) 1 (words (ps ! j)) = i + int j"
  by (induction ps arbitrary: i j) (auto simp: nth_Cons' of_nat_diff)

lemma fhs_check_holds: fhs_check
  by code_simp

section \<open>The plan and the keys\<close>

lemma uint_of_char [simp]: "uint (of_char c :: u8) = of_char c"
proof -
  have "uint (word_of_int (of_char c) :: u8) = of_char c mod 256"
    by (simp only: uint_word_of_int_eq) (simp add: take_bit_eq_mod)
  then show ?thesis by (simp add: of_int_of_char)
qed

lemma of_char_u8_eq [simp]: "(of_char c :: u8) = of_char d \<longleftrightarrow> c = d"
  by (metis uint_of_char of_char_eq_iff)

lemma slash_char [simp]: "(of_char c :: u8) = 47 \<longleftrightarrow> c = CHR ''/''"
proof -
  have "(47 :: u8) = of_char (CHR ''/'')" by simp
  then show ?thesis by (simp only: of_char_u8_eq)
qed

lemma split_path_chars: "split_path (chars p) = map chars (words p)"
  by (induction p) (auto simp: chars_def split: list.splits)

lemma chars_eq [simp]: "chars a = chars b \<longleftrightarrow> a = b"
  unfolding chars_def by (rule inj_map_eq_map) (simp add: inj_def)

lemma length_chars [simp]: "length (chars a) = length a"
  by (simp add: chars_def)

lemma plan_word_chars:
  assumes "plan_word w"
  shows "chars w \<noteq> []" "chars w \<noteq> [46]" "chars w \<noteq> [46, 46]" "length (chars w) \<le> 255"
proof -
  have dots: "chars ''.'' = [46]" "chars ''..'' = [46, 46]" by (simp_all add: chars_def)
  show "chars w \<noteq> []" "chars w \<noteq> [46]" "chars w \<noteq> [46, 46]" "length (chars w) \<le> 255"
    using assms chars_eq[of w "''.''"] chars_eq[of w "''..''"] unfolding plan_word_def dots
    by (simp_all del: chars_eq) (simp add: chars_def)
qed

lemma hash_mod:
  "uint (foldl (\<lambda>h c. (push_bit 5 h + h) + ucast c) (h :: u64) (chars w)) mod 65536 =
   foldl (\<lambda>h c. (33 * h + of_char c) mod 65536) (uint h mod 65536) w"
proof (induction w arbitrary: h)
  case (Cons c w)
  have "0 \<le> (of_char c :: int)" "(of_char c :: int) < 256"
    using pos_mod_sign[of 256 "of_char c :: int"] pos_mod_bound[of 256 "of_char c :: int"] by simp_all
  then have "take_bit 64 (of_char c :: int) = of_char c" by (intro take_bit_int_eq_self) simp_all
  then have "uint (ucast (of_char c :: u8) :: u64) = of_char c" by (simp add: unsigned_ucast_eq)
  then have "uint (push_bit 5 h + h + ucast (of_char c :: u8) :: u64) mod 65536 = (33 * (uint h mod 65536) + of_char c) mod 65536"
    using mod_add_left_eq[of "33 * (uint h mod 65536)" 65536 "of_char c"] mod_add_left_eq[of "33 * uint h" 65536 "of_char c"]
    by (simp add: push_bit_eq_mult uint_word_ariths mod_mod_cancel mod_simps)
  with Cons.IH[of "push_bit 5 h + h + ucast (of_char c :: u8)"] show ?case by (simp add: chars_def)
qed (simp add: chars_def)

lemma h16_range: "0 \<le> h16 w" "h16 w < 65536"
  unfolding h16_def by (induction w rule: rev_induct) simp_all

definition dkey :: "int \<times> int \<Rightarrow> u64" where
  "dkey k = mkrn_yafs_make_key YAFS_KS_DIR_ENTRY
     (push_bit 16 (word_of_int (fst k)) OR take_bit 16 (word_of_int (snd k)))"

definition in_plan :: "int \<times> int \<Rightarrow> bool" where
  "in_plan k \<longleftrightarrow> 0 \<le> fst k \<and> fst k < 2 ^ 44 \<and> 0 \<le> snd k \<and> snd k < 65536"

lemma dkey_h16: "dkey (i, h16 w) = dir_key (word_of_int i) (chars w)"
proof -
  have "uint (take_bit 16 (mkrn_yafs_name_hash (chars w))) = h16 w"
    unfolding unsigned_take_bit_eq using hash_mod[of 5381 w] by (simp add: mkrn_yafs_name_hash_def h16_def take_bit_eq_mod)
  then have t: "take_bit 16 (mkrn_yafs_name_hash (chars w)) = word_of_int (h16 w)" by (metis word_of_int_uint)
  have "take_bit 16 (word_of_int (h16 w) :: u64) = word_of_int (h16 w)"
    unfolding t[symmetric] by simp
  then show ?thesis using t by (simp add: dkey_def dir_key_def)
qed

lemma dkey_inj:
  assumes "in_plan a" "in_plan b"
  shows "dkey a = dkey b \<longleftrightarrow> a = b"
proof -
  have p: "uint (drop_bit 16 (mkrn_yafs_key_value (dkey k))) = fst k" "uint (take_bit 16 (mkrn_yafs_key_value (dkey k))) = snd k"
    if "in_plan k" for k
    using that unfolding dkey_def key_value_split in_plan_def unsigned_take_bit_eq uint_word_of_int_eq
    by (simp_all add: take_bit_eq_mod mod_mod_cancel)
  from p[OF assms(1)] p[OF assms(2)] show ?thesis by (auto intro: prod_eqI)
qed

lemma dkey_kind [simp]: "\<not> is_block_key (dkey k)" "mkrn_yafs_key_tag (dkey k) = YAFS_KS_DIR_ENTRY"
  by (simp_all add: dkey_def key_parts is_block_key_def YAFS_KS_INODE_def YAFS_KS_DIR_ENTRY_def YAFS_KS_EXTENT_def)

section \<open>The loop follows the plan\<close>

definition plan_rel :: "((int \<times> int) \<times> int) list \<Rightarrow> (u64 \<rightharpoonup> fs_val) \<Rightarrow> bool" where
  "plan_rel kvs A \<longleftrightarrow> (\<forall>(k, v) \<in> set kvs. 0 < v \<and> v < 2 ^ 44) \<and>
     (\<forall>k. in_plan k \<longrightarrow> A (dkey k) = map_option (\<lambda>v. Entry (word_of_int v)) (map_of kvs k))"

definition plan_ino :: "int \<Rightarrow> bool" where
  "plan_ino i \<longleftrightarrow> 0 \<le> i \<and> i < 2 ^ 44"

lemma plan_ino_zero: "plan_ino i \<Longrightarrow> (word_of_int i :: u64) = 0 \<longleftrightarrow> i = 0"
  by (auto simp: plan_ino_def word_of_int_eq_0_iff dest: zdvd_imp_le)

lemma plan_step_ok:
  assumes "plan_rel kvs A" "plan_ino i" "plan_word w"
  shows "step_into A (word_of_int i) (chars w) = word_of_int (plan_step kvs i w)" "plan_ino (plan_step kvs i w)"
proof -
  have ip: "in_plan (i, h16 w)" using assms(2) h16_range by (simp add: in_plan_def plan_ino_def)
  have A: "A (dir_key (word_of_int i) (chars w)) = map_option (\<lambda>v. Entry (word_of_int v)) (map_of kvs (i, h16 w))"
    using assms(1) ip by (simp add: plan_rel_def dkey_h16[symmetric])
  then show "step_into A (word_of_int i) (chars w) = word_of_int (plan_step kvs i w)"
    using plan_ino_zero[OF assms(2)] plan_word_chars[OF assms(3)]
    by (auto simp: step_into_def plan_step_def entry_def split: option.splits)
  show "plan_ino (plan_step kvs i w)"
    using assms(1) by (auto simp: plan_step_def plan_ino_def plan_rel_def dest!: map_of_SomeD split: option.splits)
qed

lemma plan_fold_ok:
  assumes "plan_rel kvs A" "plan_ino i" "list_all plan_word ws"
  shows "foldl (step_into A) (word_of_int i) (map chars ws) = word_of_int (foldl (plan_step kvs) i ws) \<and>
    plan_ino (foldl (plan_step kvs) i ws)"
  using assms(2,3) by (induction ws arbitrary: i) (use plan_step_ok[OF assms(1)] in auto)

lemma words_ne [simp]: "words p \<noteq> []"
  by (induction p) (auto split: list.splits)

lemma strrchr_y_split:
  "strrchr_y p c = None \<Longrightarrow> c \<notin> set p"
  "strrchr_y p c = Some i \<Longrightarrow> p = take i p @ c # drop (Suc i) p \<and> c \<notin> set (drop (Suc i) p)"
  by (induction p arbitrary: i) (auto split: option.splits if_splits)

lemma fhs_split_ok:
  assumes "fs_rep n s A" "plan_rel kvs A" "list_all plan_word (words path)" "length path \<le> 255"
  shows "fhs_split (chars path) s =
    Some (word_of_int (foldl (plan_step kvs) 1 (butlast (words path))), chars (last (words path)))"
proof (cases "strrchr_y (chars path) 47")
  case None
  then have "split_path (chars path) = [chars path]" using strrchr_y_split(1) split_path_word by blast
  then have "words path = [path]" unfolding split_path_chars by (cases "words path") auto
  then show ?thesis using None by (simp add: fhs_split_def)
next
  case (Some i)
  note sp = strrchr_y_split(2)[OF Some]
  let ?q = "take i (chars path)"
  have "split_path (chars path) = split_path ?q @ [drop (Suc i) (chars path)]"
    using sp split_path_append[of ?q "drop (Suc i) (chars path)"] split_path_word[of "drop (Suc i) (chars path)"] by simp
  then have q: "split_path ?q = map chars (butlast (words path))" "drop (Suc i) (chars path) = chars (last (words path))"
    unfolding split_path_chars by (metis butlast_snoc map_butlast, metis last_snoc last_map words_ne)
  have ws: "list_all plan_word (butlast (words path))" using assms(3) by (auto simp: list_all_iff dest: in_set_butlastD)
  have "?q \<noteq> []"
  proof
    assume "?q = []"
    then have "butlast (words path) = [[]]" using q(1) by (cases "butlast (words path)") (auto simp: chars_def)
    then show False using ws by (simp add: plan_word_def)
  qed
  then have i: "0 < i" by auto
  have short: "short_path ?q" using ws plan_word_chars(4) by (auto simp: short_path_def q(1) list_all_iff)
  have "lookup_path (Some ?q) s = Some (word_of_int (foldl (plan_step kvs) 1 (butlast (words path))))"
    using lookup_path_ok[OF assms(1) short] plan_fold_ok[OF assms(2) _ ws, of 1]
    by (simp add: mkrn_yafs_lookup_path_def resolve_def q(1) plan_ino_def)
  moreover have "min i 255 = i" using strrchr_y_bound[OF Some] assms(4) by simp
  ultimately show ?thesis using Some i q(2) by (simp add: fhs_split_def)
qed

lemma dkey_inode_key [simp]: "dkey k \<noteq> inode_key i" "inode_key i \<noteq> dkey k"
  by (rule tag_neq, simp add: YAFS_KS_INODE_def YAFS_KS_DIR_ENTRY_def)+

lemma plan_rel_link:
  assumes "plan_rel kvs A" "in_plan k" "plan_ino v" "v \<noteq> 0"
  shows "plan_rel ((k, v) # kvs) (A(inode_key i \<mapsto> b, dkey k \<mapsto> Entry (word_of_int v)))"
  using assms by (auto simp: plan_rel_def plan_ino_def dkey_inj)

lemma plan_ino_key:
  assumes "plan_ino i" "plan_ino j"
  shows "inode_key (word_of_int i) = inode_key (word_of_int j) \<longleftrightarrow> i = j"
proof -
  have u: "uint (word_of_int i :: u64) = i" if "plan_ino i" for i
    using that unfolding uint_word_of_int_eq by (simp add: plan_ino_def take_bit_eq_mod)
  have "unat (word_of_int i :: u64) = nat (uint (word_of_int i :: u64))" for i by simp
  then have sm: "small_ino (word_of_int i)" if "plan_ino i" for i
    using that by (simp only: u) (auto simp: plan_ino_def)
  show ?thesis using inode_key_inj[OF sm[OF assms(1)] sm[OF assms(2)]] u assms by metis
qed

definition made :: "(string \<times> u32 \<times> string option) list \<Rightarrow> int \<Rightarrow> (u64 \<rightharpoonup> fs_val) \<Rightarrow> bool" where
  "made es nx A \<longleftrightarrow> (\<forall>j < length es. \<exists>nm.
     A (inode_key (word_of_int (nx + int j))) = Some (Block (inode_image (fst (snd (es ! j))) nm)))"

lemma fhs_loop_ok:
  assumes "fs_rep (3 * length es + n) s A" "plan_rel kvs A" "fhs_plan (map fst es) nx kvs = Some kvs'"
    "list_all (\<lambda>p. list_all plan_word (words p) \<and> length p \<le> 255) (map fst es)" "0 < nx" "nx + int (length es) < 2 ^ 44"
  shows "\<exists>s' A'. fhs_loop es (word_of_int nx) s = Some (0, s') \<and> fs_rep n s' A' \<and> plan_rel kvs' A' \<and> made es nx A' \<and>
    (\<forall>i. plan_ino i \<and> i < nx \<longrightarrow> A' (inode_key (word_of_int i)) = A (inode_key (word_of_int i)))"
  using assms
proof (induction es arbitrary: nx kvs s A)
  case Nil
  then show ?case by (auto simp: made_def)
next
  case (Cons e es)
  obtain path ftype target where e: "e = (path, ftype, target)" by (cases e)
  define par where "par = foldl (plan_step kvs) 1 (butlast (words path))"
  define nm where "nm = last (words path)"
  define k where "k = (par, h16 nm)"
  define label where "label = (if ftype = YAFS_FT_SYMLINK then (case target of Some t \<Rightarrow> chars t | None \<Rightarrow> chars nm) else chars nm)"
  have good: "list_all plan_word (words path)" "length path \<le> 255" using Cons.prems(4) by (auto simp: e)
  have plan: "par \<noteq> 0" "map_of kvs k = None" "fhs_plan (map fst es) (nx + 1) ((k, nx) # kvs) = Some kvs'"
    using Cons.prems(3) by (auto simp: e Let_def par_def nm_def k_def split: if_splits)
  have pi: "plan_ino par" unfolding par_def
    using plan_fold_ok[OF Cons.prems(2), of 1 "butlast (words path)"] good(1)
    by (auto simp: plan_ino_def list_all_iff dest: in_set_butlastD)
  then have ik: "in_plan k" using h16_range by (simp add: k_def in_plan_def plan_ino_def)
  have nx: "plan_ino nx" "nx \<noteq> 0" using Cons.prems(5,6) by (auto simp: plan_ino_def)
  have dk: "dir_key (word_of_int par) (chars nm) = dkey k" by (simp add: k_def dkey_h16)
  have "fs_rep (Suc (Suc (Suc (3 * length es + n)))) s A" using Cons.prems(1) by (simp add: eval_nat_numeral)
  then obtain s1 where s1: "create_inode (word_of_int nx) ftype label s = Some (0, s1)"
    "fs_rep (Suc (3 * length es + n)) s1 (A(inode_key (word_of_int nx) \<mapsto> Block (inode_image ftype label)))"
    using create_inode_ok by blast
  let ?A = "A(inode_key (word_of_int nx) \<mapsto> Block (inode_image ftype label), dkey k \<mapsto> Entry (word_of_int nx))"
  have "\<forall>k. in_plan k \<longrightarrow> A (dkey k) = map_option (\<lambda>v. Entry (word_of_int v)) (map_of kvs k)"
    using Cons.prems(2) unfolding plan_rel_def by blast
  from this[rule_format, OF ik] plan(2) have "A (dkey k) = None" by simp
  then obtain s2 where s2: "create_link (word_of_int par) (chars nm) (word_of_int nx) s1 = Some (0, s2)"
    "fs_rep (3 * length es + n) s2 ?A"
    using create_link_ok[OF s1(2), of "word_of_int par" "chars nm" "word_of_int nx"] by (auto simp: dk)
  have rel: "plan_rel ((k, nx) # kvs) ?A" by (rule plan_rel_link[OF Cons.prems(2) ik nx])
  have "nx + 1 + int (length es) < 2 ^ 44" using Cons.prems(6) by simp
  from Cons.IH[OF s2(2) rel plan(3) _ _ this] Cons.prems(4,5)
  obtain s' A' where ih: "fhs_loop es (word_of_int (nx + 1)) s2 = Some (0, s')" "fs_rep n s' A'" "plan_rel kvs' A'"
    "made es (nx + 1) A'" "\<And>i. plan_ino i \<Longrightarrow> i < nx + 1 \<Longrightarrow> A' (inode_key (word_of_int i)) = ?A (inode_key (word_of_int i))"
    by auto
  have "fhs_loop (e # es) (word_of_int nx) s = Some (0, s')"
  proof -
    have fs: "fhs_split (chars path) s = Some (word_of_int par, chars nm)"
      unfolding par_def nm_def by (rule fhs_split_ok[OF Cons.prems(1,2) good])
    show ?thesis using s1(1) s2(1) ih(1) plan_ino_zero[OF pi] plan(1) by (simp add: e fs flip: label_def)
  qed
  moreover have "made (e # es) nx A'"
    unfolding made_def
  proof (intro allI impI)
    fix j assume j: "j < length (e # es)"
    show "\<exists>nm. A' (inode_key (word_of_int (nx + int j))) = Some (Block (inode_image (fst (snd ((e # es) ! j))) nm))"
      using j ih(4) ih(5)[OF nx(1)] by (cases j) (auto simp: made_def e add.assoc)
  qed
  moreover have "A' (inode_key (word_of_int i)) = A (inode_key (word_of_int i))" if "plan_ino i" "i < nx" for i
    using ih(5)[OF that(1)] that nx(1) plan_ino_key[OF that(1) nx(1)] by simp
  ultimately show ?case using ih(2,3) by blast
qed

section \<open>Property\<close>

text \<open>C22. On the empty ramdisk at boot the creation of the file hierarchy succeeds,
  and every one of the 61 paths of the table, from the root, resolves to its own
  inode, which has the type the table gives. The names are free of collisions of
  the 16 bits kept of their hashes.\<close>

theorem create_fhs_correct:
  "\<exists>s' A'. mkrn_yafs_create_fhs (0, ydev_boot) = Some (0, s') \<and> fs_rep 60 s' A' \<and>
     (\<forall>i < length fhs_tree. mkrn_yafs_lookup_path (Some (chars (fst (fhs_tree ! i)))) s' = Some (of_nat (i + 2)) \<and>
        (\<exists>b. A' (inode_key (of_nat (i + 2))) = Some (Block b) \<and>
           iv_file_type (inode_of_bytes b) = fst (snd (fhs_tree ! i))))"
proof -
  obtain kvs where plan: "fhs_plan (map fst fhs_tree) 2 [] = Some kvs"
    and paths: "leads_from kvs 2 (map fst fhs_tree)"
    and good: "list_all (\<lambda>p. list_all plan_word (words p) \<and> length p \<le> 255) (map fst fhs_tree)"
    using fhs_check_holds by (auto simp: fhs_check_def split: option.splits)
  have len: "length fhs_tree = 61" by (simp add: fhs_tree_def)
  obtain s1 where s1: "create_inode 1 YAFS_FT_DIR (chars ''/'') (0, ydev_boot) = Some (0, s1)"
    "fs_rep (3 * length fhs_tree + 60) s1 [inode_key 1 \<mapsto> Block (inode_image YAFS_FT_DIR (chars ''/''))]"
    using create_inode_ok[of 243 "(0, ydev_boot)" Map.empty 1 YAFS_FT_DIR "chars ''/''"] fs_rep_boot[of 245] by (auto simp: len)
  have rel: "plan_rel [] [inode_key 1 \<mapsto> Block (inode_image YAFS_FT_DIR (chars ''/''))]" by (simp add: plan_rel_def)
  obtain s' A' where l: "fhs_loop fhs_tree 2 s1 = Some (0, s')" "fs_rep 60 s' A'" "plan_rel kvs A'" "made fhs_tree 2 A'"
    using fhs_loop_ok[OF s1(2) rel plan good] by (auto simp: len)
  have "mkrn_yafs_lookup_path (Some (chars (fst (fhs_tree ! i)))) s' = Some (of_nat (i + 2))"
    if i: "i < length fhs_tree" for i
  proof -
    let ?p = "fst (fhs_tree ! i)"
    have w: "list_all plan_word (words ?p)" using good i by (simp add: list_all_length)
    have "short_path (chars ?p)" using w plan_word_chars(4) by (auto simp: short_path_def split_path_chars list_all_iff)
    moreover have "foldl (plan_step kvs) 1 (words ?p) = 2 + int i"
      using leads_from_nth[OF paths, of i] i by simp
    ultimately show ?thesis
      using lookup_path_ok[OF l(2)] plan_fold_ok[OF l(3) _ w, of 1]
      by (simp add: resolve_def split_path_chars plan_ino_def) 
  qed
  moreover have "\<exists>b. A' (inode_key (of_nat (i + 2))) = Some (Block b) \<and> iv_file_type (inode_of_bytes b) = fst (snd (fhs_tree ! i))"
    if i: "i < length fhs_tree" for i
  proof -
    obtain nm where "A' (inode_key (word_of_int (2 + int i))) = Some (Block (inode_image (fst (snd (fhs_tree ! i))) nm))"
      using l(4) i by (auto simp: made_def)
    then show ?thesis by (simp add: set_name_def add.commute)
  qed
  ultimately show ?thesis using s1(1) l(1,2)
    by (intro exI[of _ s'] exI[of _ A']) (simp add: mkrn_yafs_create_fhs_def)
qed

theorem create_fhs_correct_witness:
  "\<exists>s'. mkrn_yafs_create_fhs (0, ydev_boot) = Some (0, s') \<and>
     mkrn_yafs_lookup_path (Some (chars ''usr/bin'')) s' = Some 54"
proof -
  have t: "52 < length fhs_tree" "fst (fhs_tree ! 52) = ''usr/bin''" by (simp_all add: fhs_tree_def)
  obtain s' where s': "mkrn_yafs_create_fhs (0, ydev_boot) = Some (0, s')"
    and "\<forall>i < length fhs_tree. mkrn_yafs_lookup_path (Some (chars (fst (fhs_tree ! i)))) s' = Some (of_nat (i + 2))"
    using create_fhs_correct by blast
  from this(2)[rule_format, OF t(1)] show ?thesis using s' by (simp add: t(2))
qed

end
