(* ===== verification/Pipe.thy ===== *)
theory Pipe
  imports Queue YafsVfs
begin

text \<open>
  The pipe buffers of \<open>sys/src/fs/vfs.c\<close>: rings of 4096 bytes that are filled and
  drained in contiguous segments. The two copy loops stop by their own progress
  only, so each is a partial function: \<open>None\<close> is a loop that does not return. The
  locale \<open>byte_stream\<close> is the contract of a bounded stream; it gives the contract
  of a bounded queue, and the pipe satisfies it.
\<close>

section \<open>The ring and its loops\<close>

definition PIPE_BUF_SIZE :: nat where "PIPE_BUF_SIZE = 4096"
definition MAX_PIPES :: nat where "MAX_PIPES = 32"

record pipe_buffer =
  pb_data :: "u8 list"
  pb_read_pos :: nat
  pb_write_pos :: nat
  pb_bytes :: nat
  pb_in_use :: bool
  pb_read_closed :: bool
  pb_write_closed :: bool

definition pipe_zero :: pipe_buffer where
  "pipe_zero = \<lparr>pb_data = replicate PIPE_BUF_SIZE 0, pb_read_pos = 0, pb_write_pos = 0, pb_bytes = 0,
     pb_in_use = False, pb_read_closed = False, pb_write_closed = False\<rparr>"

text \<open>\<open>out\<close> holds the bytes read so far.\<close>

partial_function (option) pipe_read_loop :: "nat \<Rightarrow> u8 list \<Rightarrow> pipe_buffer \<Rightarrow> (u8 list \<times> pipe_buffer) option" where
  "pipe_read_loop want out pb =
     (if length out < want \<and> pb_bytes pb > 0
      then
        let seg = min (min (PIPE_BUF_SIZE - pb_read_pos pb) (pb_bytes pb)) (want - length out)
        in pipe_read_loop want (out @ take seg (drop (pb_read_pos pb) (pb_data pb)))
             (pb\<lparr>pb_read_pos := (pb_read_pos pb + seg) mod PIPE_BUF_SIZE, pb_bytes := pb_bytes pb - seg\<rparr>)
      else Some (out, pb))"

text \<open>\<open>written\<close> bytes of \<open>xs\<close> are in the ring.\<close>

partial_function (option) pipe_write_loop :: "u8 list \<Rightarrow> nat \<Rightarrow> pipe_buffer \<Rightarrow> (nat \<times> pipe_buffer) option" where
  "pipe_write_loop xs written pb =
     (if written < length xs \<and> pb_bytes pb < PIPE_BUF_SIZE
      then
        let seg = min (min (PIPE_BUF_SIZE - pb_write_pos pb) (PIPE_BUF_SIZE - pb_bytes pb)) (length xs - written)
        in pipe_write_loop xs (written + seg)
             (pb\<lparr>pb_data := blit (pb_data pb) (pb_write_pos pb) (take seg (drop written xs)),
                 pb_write_pos := (pb_write_pos pb + seg) mod PIPE_BUF_SIZE, pb_bytes := pb_bytes pb + seg\<rparr>)
      else Some (written, pb))"

section \<open>Bounded streams\<close>

datatype 'a sop = Send "'a list" | Receive nat

fun run_stream :: "('a list \<Rightarrow> 's \<Rightarrow> (nat \<times> 's) option) \<Rightarrow> (nat \<Rightarrow> 's \<Rightarrow> ('a list \<times> 's) option) \<Rightarrow> 'a sop list \<Rightarrow> 's \<Rightarrow>
    ('a list \<times> 'a list \<times> 's) option" where
  "run_stream put get [] s = Some ([], [], s)"
| "run_stream put get (Send xs # ops) s =
     (case put xs s of
        None \<Rightarrow> None
      | Some (n, s1) \<Rightarrow> map_option (\<lambda>(sent, got, s2). (take n xs @ sent, got, s2)) (run_stream put get ops s1))"
| "run_stream put get (Receive n # ops) s =
     (case get n s of
        None \<Rightarrow> None
      | Some (ys, s1) \<Rightarrow> map_option (\<lambda>(sent, got, s2). (sent, ys @ got, s2)) (run_stream put get ops s1))"

text \<open>The specification: a list of at most \<open>cap\<close> elements. It gives the elements
  accepted, the elements delivered and the list at the end.\<close>

fun fifo_run :: "nat \<Rightarrow> 'a sop list \<Rightarrow> 'a list \<Rightarrow> 'a list \<times> 'a list \<times> 'a list" where
  "fifo_run cap [] q = ([], [], q)"
| "fifo_run cap (Send xs # ops) q =
     (let acc = take (cap - length q) xs; (sent, got, r) = fifo_run cap ops (q @ acc) in (acc @ sent, got, r))"
| "fifo_run cap (Receive n # ops) q =
     (let (sent, got, r) = fifo_run cap ops (drop n q) in (sent, take n q @ got, r))"

text \<open>Nothing is lost, duplicated or reordered: what was received followed by what
  is still in the stream is what was there followed by what was accepted.\<close>

lemma fifo_run_conserves: "fifo_run cap ops q = (sent, got, r) \<Longrightarrow> q @ sent = got @ r"
proof (induction cap ops q arbitrary: sent got r rule: fifo_run.induct)
  case (3 cap n ops q)
  then show ?case by (auto simp: Let_def split: prod.splits) (metis append_take_drop_id append_assoc)
qed (auto simp: Let_def split: prod.splits)

locale byte_stream =
  fixes inv :: "'s \<Rightarrow> bool" and contents :: "'s \<Rightarrow> 'a list" and cap :: nat
    and put :: "'a list \<Rightarrow> 's \<Rightarrow> (nat \<times> 's) option" and get :: "nat \<Rightarrow> 's \<Rightarrow> ('a list \<times> 's) option"
  assumes stream_bounded: "inv s \<Longrightarrow> length (contents s) \<le> cap"
    and put_law: "inv s \<Longrightarrow> \<exists>s'. put xs s = Some (min (length xs) (cap - length (contents s)), s') \<and> inv s' \<and>
      contents s' = contents s @ take (cap - length (contents s)) xs"
    and get_law: "inv s \<Longrightarrow> \<exists>s'. get n s = Some (take n (contents s), s') \<and> inv s' \<and>
      contents s' = drop n (contents s)"
begin

lemma run_refines:
  assumes "inv s"
  shows "\<exists>sent got s'. run_stream put get ops s = Some (sent, got, s') \<and> inv s' \<and>
    fifo_run cap ops (contents s) = (sent, got, contents s')"
  using assms
proof (induction ops arbitrary: s)
  case (Cons x ops)
  show ?case
  proof (cases x)
    case (Send xs)
    obtain s1 where s1: "put xs s = Some (min (length xs) (cap - length (contents s)), s1)" "inv s1"
      "contents s1 = contents s @ take (cap - length (contents s)) xs" using put_law[OF Cons.prems] by blast
    from Cons.IH[OF s1(2)] obtain sent got s' where "run_stream put get ops s1 = Some (sent, got, s')" "inv s'"
      "fifo_run cap ops (contents s1) = (sent, got, contents s')" by blast
    then show ?thesis using s1 Send by (auto simp: min_def)
  next
    case (Receive n)
    obtain s1 where s1: "get n s = Some (take n (contents s), s1)" "inv s1" "contents s1 = drop n (contents s)"
      using get_law[OF Cons.prems] by blast
    from Cons.IH[OF s1(2)] obtain sent got s' where "run_stream put get ops s1 = Some (sent, got, s')" "inv s'"
      "fifo_run cap ops (contents s1) = (sent, got, contents s')" by blast
    then show ?thesis using s1 Receive by auto
  qed
qed simp

definition enq1 :: "'a \<Rightarrow> 's \<Rightarrow> 's option" where
  "enq1 x s = (case put [x] s of Some (Suc n, s') \<Rightarrow> Some s' | _ \<Rightarrow> None)"

definition deq1 :: "'s \<Rightarrow> ('a \<times> 's) option" where
  "deq1 s = (case get 1 s of Some (x # xs, s') \<Rightarrow> Some (x, s') | _ \<Rightarrow> None)"

end

text \<open>A stream used one element at a time is a bounded queue.\<close>

sublocale byte_stream \<subseteq> one: bounded_queue inv contents cap "\<lambda>_. True" enq1 deq1
proof (standard, goal_cases)
  case (1 s)
  then show ?case by (rule stream_bounded)
next
  case (2 s x)
  then show ?case using put_law[of s "[x]"] by (auto simp: enq1_def)
next
  case (3 s x)
  then obtain r where "cap - length (contents s) = Suc r" by (metis Suc_diff_Suc)
  then show ?case using put_law[OF 3(1), of "[x]"] by (auto simp: enq1_def)
next
  case (4 s)
  then show ?case using get_law[OF 4(1), of 1] by (auto simp: deq1_def)
next
  case (5 s x xs)
  then show ?case using get_law[OF 5(1), of 1] by (auto simp: deq1_def)
qed

section \<open>The ring is a bounded stream\<close>

definition pipe_inv :: "pipe_buffer \<Rightarrow> bool" where
  "pipe_inv pb \<longleftrightarrow> length (pb_data pb) = 4096 \<and> pb_read_pos pb < 4096 \<and> pb_bytes pb \<le> 4096 \<and>
     pb_write_pos pb = (pb_read_pos pb + pb_bytes pb) mod 4096"

definition pipe_contents :: "pipe_buffer \<Rightarrow> u8 list" where
  "pipe_contents pb = map (\<lambda>i. pb_data pb ! ((pb_read_pos pb + i) mod 4096)) [0..<pb_bytes pb]"

definition pipe_flags :: "pipe_buffer \<Rightarrow> bool \<times> bool \<times> bool" where
  "pipe_flags pb = (pb_in_use pb, pb_read_closed pb, pb_write_closed pb)"

lemma length_pipe_contents [simp]: "length (pipe_contents pb) = pb_bytes pb"
  by (simp add: pipe_contents_def)

lemma pipe_read_seg:
  assumes "pipe_inv pb" "seg \<le> 4096 - pb_read_pos pb" "seg \<le> pb_bytes pb"
    "pb' = pb\<lparr>pb_read_pos := (pb_read_pos pb + seg) mod 4096, pb_bytes := pb_bytes pb - seg\<rparr>"
  shows "pipe_inv pb'" "take seg (drop (pb_read_pos pb) (pb_data pb)) = take seg (pipe_contents pb)"
    "pipe_contents pb' = drop seg (pipe_contents pb)"
proof -
  have "(pb_read_pos pb + pb_bytes pb) mod 4096 = ((pb_read_pos pb + seg) mod 4096 + (pb_bytes pb - seg)) mod 4096"
    using assms(3) mod_add_left_eq[of "pb_read_pos pb + seg" 4096 "pb_bytes pb - seg"] by simp
  then show "pipe_inv pb'" using assms by (auto simp: pipe_inv_def)
  show "take seg (drop (pb_read_pos pb) (pb_data pb)) = take seg (pipe_contents pb)"
    using assms(1-3) by (intro nth_equalityI) (auto simp: pipe_contents_def pipe_inv_def)
  show "pipe_contents pb' = drop seg (pipe_contents pb)"
  proof (rule nth_equalityI)
    fix i assume "i < length (pipe_contents pb')"
    then have i: "seg + i < pb_bytes pb" using assms(3) by (simp add: assms(4))
    then show "pipe_contents pb' ! i = drop seg (pipe_contents pb) ! i"
      using assms(3) by (simp add: pipe_contents_def assms(4) mod_add_left_eq add.assoc)
  qed (simp add: assms(4))
qed

lemma pipe_read_ok:
  assumes "pipe_inv pb"
  shows "\<exists>pb'. pipe_read_loop want out pb = Some (out @ take (want - length out) (pipe_contents pb), pb') \<and>
    pipe_inv pb' \<and> pipe_contents pb' = drop (want - length out) (pipe_contents pb) \<and> pipe_flags pb' = pipe_flags pb"
  using assms
proof (induction "pb_bytes pb" arbitrary: pb out rule: less_induct)
  case less
  show ?case
  proof (cases "length out < want \<and> pb_bytes pb > 0")
    case False
    then have "take (want - length out) (pipe_contents pb) = [] \<and> drop (want - length out) (pipe_contents pb) = pipe_contents pb"
      by (auto simp: pipe_contents_def)
    then show ?thesis using False less.prems by (subst pipe_read_loop.simps) auto
  next
    case True
    define seg where "seg = min (min (4096 - pb_read_pos pb) (pb_bytes pb)) (want - length out)"
    define pb1 where "pb1 = pb\<lparr>pb_read_pos := (pb_read_pos pb + seg) mod 4096, pb_bytes := pb_bytes pb - seg\<rparr>"
    have seg: "0 < seg" "seg \<le> 4096 - pb_read_pos pb" "seg \<le> pb_bytes pb" "seg \<le> want - length out"
      using True less.prems by (auto simp: seg_def pipe_inv_def)
    note st = pipe_read_seg[OF less.prems seg(2,3) pb1_def]
    define out1 where "out1 = out @ take seg (pipe_contents pb)"
    have len: "length out1 = length out + seg" using seg(3) by (simp add: out1_def)
    have "pb_bytes pb1 < pb_bytes pb" using seg True by (simp add: pb1_def)
    from less.hyps[OF this st(1), of out1] obtain pb' where
      pb': "pipe_read_loop want out1 pb1 = Some (out1 @ take (want - length out1) (pipe_contents pb1), pb')" "pipe_inv pb'"
      "pipe_contents pb' = drop (want - length out1) (pipe_contents pb1)" "pipe_flags pb' = pipe_flags pb1" by blast
    have "pipe_read_loop want out pb = pipe_read_loop want out1 pb1"
      using True st(2) by (subst pipe_read_loop.simps) (simp add: PIPE_BUF_SIZE_def Let_def out1_def pb1_def flip: seg_def)
    moreover have "out1 @ take (want - length out1) (pipe_contents pb1) = out @ take (want - length out) (pipe_contents pb)"
    proof -
      have "seg + (want - length out1) = want - length out" using seg(4) len by simp
      then show ?thesis using take_add[of seg "want - length out1" "pipe_contents pb"] by (simp add: st(3)) (simp add: out1_def)
    qed
    moreover have "drop (want - length out1) (pipe_contents pb1) = drop (want - length out) (pipe_contents pb)"
    proof -
      have "want - length out1 + seg = want - length out" using seg(4) len by simp
      then show ?thesis by (simp add: st(3))
    qed
    moreover have "pipe_flags pb1 = pipe_flags pb" by (simp add: pipe_flags_def pb1_def)
    ultimately show ?thesis using pb' by simp
  qed
qed

lemma ring_index:
  fixes r b w i :: nat
  assumes "r < 4096" "b \<le> 4096" "w = (r + b) mod 4096"
  shows "i < b \<Longrightarrow> seg \<le> 4096 - b \<Longrightarrow> seg \<le> 4096 - w \<Longrightarrow> (r + i) mod 4096 < w \<or> w + seg \<le> (r + i) mod 4096"
    and "i < seg \<Longrightarrow> seg \<le> 4096 - w \<Longrightarrow> (r + (b + i)) mod 4096 = w + i"
proof -
  have w: "w = (if r + b < 4096 then r + b else r + b - 4096)" using assms by (simp add: mod_if)
  show "(r + i) mod 4096 < w \<or> w + seg \<le> (r + i) mod 4096" if "i < b" "seg \<le> 4096 - b" "seg \<le> 4096 - w"
    using that assms(1,2) by (auto simp: w mod_if)
  have "(r + (b + i)) mod 4096 = (w + i) mod 4096" using assms(3) by (simp add: mod_add_left_eq add.assoc[symmetric])
  then show "i < seg \<Longrightarrow> seg \<le> 4096 - w \<Longrightarrow> (r + (b + i)) mod 4096 = w + i" by simp
qed

lemma nth_blit:
  assumes "off + length xs \<le> length b" "i < length b"
  shows "blit b off xs ! i = (if off \<le> i \<and> i < off + length xs then xs ! (i - off) else b ! i)"
  using assms by (auto simp: blit_def nth_append)

lemma pipe_write_seg:
  assumes "pipe_inv pb" "length ys \<le> 4096 - pb_write_pos pb" "length ys \<le> 4096 - pb_bytes pb"
    "pb' = pb\<lparr>pb_data := blit (pb_data pb) (pb_write_pos pb) ys,
       pb_write_pos := (pb_write_pos pb + length ys) mod 4096, pb_bytes := pb_bytes pb + length ys\<rparr>"
  shows "pipe_inv pb'" "pipe_contents pb' = pipe_contents pb @ ys"
proof -
  let ?r = "pb_read_pos pb" and ?b = "pb_bytes pb" and ?w = "pb_write_pos pb"
  have inv: "length (pb_data pb) = 4096" "?r < 4096" "?b \<le> 4096" "?w = (?r + ?b) mod 4096"
    using assms(1) by (auto simp: pipe_inv_def)
  have w: "?w < 4096" by (simp add: inv(4))
  have len: "length (blit (pb_data pb) ?w ys) = 4096" using assms(2) inv(1) w by (simp add: blit_def)
  then show "pipe_inv pb'" using inv assms(3,4) mod_add_left_eq[of "?r + ?b" 4096 "length ys"]
    by (simp add: pipe_inv_def add.assoc)
  show "pipe_contents pb' = pipe_contents pb @ ys"
  proof (rule nth_equalityI)
    show "length (pipe_contents pb') = length (pipe_contents pb @ ys)" by (simp add: assms(4))
    fix i assume "i < length (pipe_contents pb')"
    then have i: "i < ?b + length ys" by (simp add: assms(4))
    have wl: "?w + length ys \<le> length (pb_data pb)" using assms(2) w inv(1) by simp
    have e: "pipe_contents pb' ! i = blit (pb_data pb) ?w ys ! ((?r + i) mod 4096)"
      using i by (simp add: pipe_contents_def assms(4))
    show "pipe_contents pb' ! i = (pipe_contents pb @ ys) ! i"
    proof (cases "i < ?b")
      case True
      then have "pipe_contents pb ! i = pb_data pb ! ((?r + i) mod 4096)" by (simp add: pipe_contents_def)
      then show ?thesis
        using True ring_index(1)[OF inv(2-4) True assms(3,2)] nth_blit[OF wl, of "(?r + i) mod 4096"] inv(1)
        by (auto simp: e nth_append)
    next
      case False
      then have j: "i - ?b < length ys" "?b + (i - ?b) = i" using i by auto
      then have "(?r + i) mod 4096 = ?w + (i - ?b)" using ring_index(2)[OF inv(2-4) j(1) assms(2)] by simp
      moreover have "blit (pb_data pb) ?w ys ! (?w + (i - ?b)) = ys ! (i - ?b)"
        using nth_blit[OF wl, of "?w + (i - ?b)"] j(1) wl by (simp only: add_diff_cancel_left') simp
      ultimately show ?thesis by (simp add: e nth_append False)
    qed
  qed
qed

lemma pipe_write_ok:
  assumes "pipe_inv pb" "written \<le> length xs"
  shows "\<exists>pb'. pipe_write_loop xs written pb = Some (min (length xs) (written + (4096 - pb_bytes pb)), pb') \<and> pipe_inv pb' \<and>
    pipe_contents pb' = pipe_contents pb @ take (4096 - pb_bytes pb) (drop written xs) \<and> pipe_flags pb' = pipe_flags pb"
  using assms
proof (induction "length xs - written" arbitrary: pb written rule: less_induct)
  case less
  show ?case
  proof (cases "written < length xs \<and> pb_bytes pb < 4096")
    case False
    have "written = length xs \<or> pb_bytes pb = 4096" using False less.prems by (auto simp: pipe_inv_def)
    then have "min (length xs) (written + (4096 - pb_bytes pb)) = written"
      "take (4096 - pb_bytes pb) (drop written xs) = []" using less.prems(2) by auto
    moreover have "pipe_write_loop xs written pb = Some (written, pb)"
      using False by (subst pipe_write_loop.simps) (simp only: PIPE_BUF_SIZE_def if_False)
    ultimately show ?thesis using less.prems(1) by simp
  next
    case True
    define seg where "seg = min (min (4096 - pb_write_pos pb) (4096 - pb_bytes pb)) (length xs - written)"
    define ys where "ys = take seg (drop written xs)"
    have "pb_write_pos pb < 4096" using less.prems(1) by (simp add: pipe_inv_def)
    then have seg: "0 < seg" "seg \<le> 4096 - pb_write_pos pb" "seg \<le> 4096 - pb_bytes pb" "seg \<le> length xs - written"
      using True by (auto simp: seg_def)
    have ys: "length ys = seg" using seg(4) by (simp add: ys_def)
    define pb1 where "pb1 = pb\<lparr>pb_data := blit (pb_data pb) (pb_write_pos pb) ys,
       pb_write_pos := (pb_write_pos pb + length ys) mod 4096, pb_bytes := pb_bytes pb + length ys\<rparr>"
    note st = pipe_write_seg[OF less.prems(1) seg(2,3)[folded ys] pb1_def]
    have "length xs - (written + seg) < length xs - written" "written + seg \<le> length xs" using seg True by auto
    from less.hyps[OF this(1) st(1) this(2)] obtain pb' where
      pb': "pipe_write_loop xs (written + seg) pb1 = Some (min (length xs) (written + seg + (4096 - pb_bytes pb1)), pb')" "pipe_inv pb'"
      "pipe_contents pb' = pipe_contents pb1 @ take (4096 - pb_bytes pb1) (drop (written + seg) xs)" "pipe_flags pb' = pipe_flags pb1"
      by blast
    have "pipe_write_loop xs written pb = pipe_write_loop xs (written + seg) pb1"
      using True ys by (subst pipe_write_loop.simps) (simp add: PIPE_BUF_SIZE_def Let_def pb1_def ys_def flip: seg_def)
    moreover have b: "seg + (4096 - pb_bytes pb1) = 4096 - pb_bytes pb" using seg(3) True ys by (simp add: pb1_def)
    moreover have "ys @ take (4096 - pb_bytes pb1) (drop (written + seg) xs) = take (4096 - pb_bytes pb) (drop written xs)"
      using take_add[of seg "4096 - pb_bytes pb1" "drop written xs"] b by (simp add: ys_def add.commute)
    moreover have "pipe_flags pb1 = pipe_flags pb" by (simp add: pipe_flags_def pb1_def)
    ultimately show ?thesis using pb' by (simp add: st(2) add.assoc)
  qed
qed

definition pipe_put :: "u8 list \<Rightarrow> pipe_buffer \<Rightarrow> (nat \<times> pipe_buffer) option" where
  "pipe_put xs pb = pipe_write_loop xs 0 pb"

definition pipe_get :: "nat \<Rightarrow> pipe_buffer \<Rightarrow> (u8 list \<times> pipe_buffer) option" where
  "pipe_get n pb = pipe_read_loop n [] pb"

interpretation pipe: byte_stream pipe_inv pipe_contents 4096 pipe_put pipe_get
proof (standard, goal_cases)
  case (1 s)
  then show ?case by (simp add: pipe_inv_def)
next
  case (2 s xs)
  then show ?case using pipe_write_ok[OF 2, of 0 xs] by (auto simp: pipe_put_def)
next
  case (3 s n)
  then show ?case using pipe_read_ok[OF 3, of n "[]"] by (auto simp: pipe_get_def)
qed

lemma pipe_zero_ok [simp]: "pipe_inv pipe_zero" "pipe_contents pipe_zero = []"
  by (simp_all add: pipe_inv_def pipe_zero_def pipe_contents_def PIPE_BUF_SIZE_def)

section \<open>Property\<close>

text \<open>C23. A pipe refines a bounded first-in first-out list: for every sequence of
  writes and reads of any sizes on a well-formed ring every copy loop returns; the
  bytes accepted, the bytes delivered and the bytes left are those of a list of at
  most 4096 bytes under the same operations, and the bytes delivered followed by the
  bytes left are the bytes that were there followed by the bytes accepted. Nothing is
  lost, duplicated or reordered, across every wrap of the ring.\<close>

theorem pipe_stream_fifo:
  assumes "pipe_inv pb"
  shows "\<exists>sent got pb'. run_stream (\<lambda>xs. pipe_write_loop xs 0) (\<lambda>n. pipe_read_loop n []) ops pb = Some (sent, got, pb') \<and>
    pipe_inv pb' \<and> fifo_run 4096 ops (pipe_contents pb) = (sent, got, pipe_contents pb') \<and>
    pipe_contents pb @ sent = got @ pipe_contents pb'"
proof -
  have "pipe_put = (\<lambda>xs. pipe_write_loop xs 0)" "pipe_get = (\<lambda>n. pipe_read_loop n [])"
    by (simp_all add: fun_eq_iff pipe_put_def pipe_get_def)
  then show ?thesis using pipe.run_refines[OF assms, of ops] fifo_run_conserves by fastforce
qed

theorem pipe_stream_fifo_witness:
  "\<exists>pb'. run_stream (\<lambda>xs. pipe_write_loop xs 0) (\<lambda>n. pipe_read_loop n [])
     [Send [1, 2, 3], Receive 2, Send [4], Receive 9] pipe_zero = Some ([1, 2, 3, 4], [1, 2, 3, 4], pb') \<and>
     pipe_contents pb' = []"
proof -
  have "fifo_run 4096 [Send [1, 2, 3], Receive 2, Send [4], Receive 9] (pipe_contents pipe_zero) =
    ([1, 2, 3, 4], [1, 2, 3, 4], [])" by (simp add: Let_def)
  then show ?thesis
    using pipe_stream_fifo[OF pipe_zero_ok(1), of "[Send [1, 2, 3], Receive 2, Send [4], Receive 9]"] by auto
qed

end
