(* ===== verification/Vfs.thy ===== *)
theory Vfs
  imports Pipe Process
begin

text \<open>
  The virtual filesystem layer (\<open>sys/src/fs/vfs.c\<close>, structs of
  \<open>sys/src/include/vfs.h\<close>) and the permission check
  (\<open>sys/src/kernel/vfs/mkrn_vfs_perms.c\<close>). The tables are lists of the lengths of
  the arrays; the \<open>file\<close> pointer of a descriptor is an index of \<open>file_table\<close>, a
  pipe descriptor points to entry 0 and keeps its pipe in \<open>offset\<close>. The current
  process is an argument. A C string is the list of its characters without the
  terminator, a null path is \<open>None\<close>. The buffers of the caller are not null, and a
  \<open>count\<close> is the length of the list. The outer \<open>None\<close> of a result is a loop that
  does not return, or a tree deeper than the recursion allows.

  The pseudo filesystems and the kernel heap are the record \<open>vfs_hooks\<close> of
  functions on a state of their own, which is the field \<open>v_env\<close>; of the heap the
  layer sees the address and the contents of a fresh buffer.
\<close>

section \<open>State\<close>

definition M4K_VFS_MAX_FILES :: nat where "M4K_VFS_MAX_FILES = 128"
definition M4K_VFS_MAX_FILENAME :: nat where "M4K_VFS_MAX_FILENAME = 128"
definition M4K_VFS_MAX_FDS :: nat where "M4K_VFS_MAX_FDS = 1024"
definition M4K_VFS_MAX_MOUNTS :: nat where "M4K_VFS_MAX_MOUNTS = 16"

definition M4K_O_RDONLY :: u32 where "M4K_O_RDONLY = 0x1"
definition M4K_O_WRONLY :: u32 where "M4K_O_WRONLY = 0x2"
definition M4K_O_CREAT :: u32 where "M4K_O_CREAT = 0x100"
definition M4K_O_TRUNC :: u32 where "M4K_O_TRUNC = 0x1000"
definition M4K_O_APPEND :: u32 where "M4K_O_APPEND = 0x2000"

datatype mkrn_file_type = M4K_FILE_NONE | M4K_FILE_REGULAR | M4K_FILE_DIR

text \<open>\<open>fe_data\<close> is the address of the buffer and the bytes there.\<close>

record mkrn_file_ent =
  fe_name :: "u8 list"
  fe_type :: mkrn_file_type
  fe_data :: "(u32 \<times> u8 list) option"
  fe_size :: u32
  fe_capacity :: u32
  fe_in_use :: bool

record mkrn_file_desc =
  fd_fd :: int
  fd_file :: "nat option"
  fd_offset :: u32
  fd_flags :: u32
  fd_used :: bool
  fd_inode :: u64

record mkrn_mount_ent =
  me_source :: "u8 list"
  me_target :: "u8 list"
  me_fstype :: "u8 list"
  me_mounted :: bool

definition file_zero :: mkrn_file_ent where
  "file_zero = \<lparr>fe_name = replicate M4K_VFS_MAX_FILENAME 0, fe_type = M4K_FILE_NONE, fe_data = None,
     fe_size = 0, fe_capacity = 0, fe_in_use = False\<rparr>"

definition fd_zero :: mkrn_file_desc where
  "fd_zero = \<lparr>fd_fd = 0, fd_file = None, fd_offset = 0, fd_flags = 0, fd_used = False, fd_inode = 0\<rparr>"

definition mount_zero :: mkrn_mount_ent where
  "mount_zero = \<lparr>me_source = replicate M4K_VFS_MAX_FILENAME 0, me_target = replicate M4K_VFS_MAX_FILENAME 0,
     me_fstype = replicate 32 0, me_mounted = False\<rparr>"

record 'h vfs =
  file_table :: "mkrn_file_ent list"
  fd_table :: "mkrn_file_desc list"
  pipe_buffers :: "pipe_buffer list"
  bVfsInitialized :: bool
  mount_table :: "mkrn_mount_ent list"
  mount_count :: int
  root_yafs :: bt_state
  u64VfsNextIno :: u64
  u32FdSearchStart :: nat
  v_env :: 'h

record 'h pseudo_fs =
  pf_open :: "u8 list \<Rightarrow> u32 \<Rightarrow> 'h \<Rightarrow> (int \<times> int) \<times> 'h"
  pf_is_fd :: "int \<Rightarrow> 'h \<Rightarrow> bool"
  pf_read :: "int \<Rightarrow> u32 \<Rightarrow> 'h \<Rightarrow> (int \<times> u8 list) \<times> 'h"
  pf_write :: "int \<Rightarrow> u8 list \<Rightarrow> 'h \<Rightarrow> int \<times> 'h"
  pf_close :: "int \<Rightarrow> 'h \<Rightarrow> int \<times> 'h"
  pf_lseek :: "int \<Rightarrow> int \<Rightarrow> int \<Rightarrow> 'h \<Rightarrow> int \<times> 'h"
  pf_getdents :: "int \<Rightarrow> u32 \<Rightarrow> 'h \<Rightarrow> (int \<times> mkrn_vfs_dirent list) \<times> 'h"

record 'h vfs_hooks =
  hk_procfs :: "'h pseudo_fs"
  hk_sessions :: "'h pseudo_fs"
  hk_device_tree :: "'h pseudo_fs"
  hk_devfs :: "'h pseudo_fs"
  hk_alloc :: "u32 \<Rightarrow> 'h \<Rightarrow> (u32 \<times> u8 list) option \<times> 'h"
  hk_free :: "u32 \<Rightarrow> 'h \<Rightarrow> 'h"

text \<open>The tables are zero before the first call; the initial tree and the state of
  the hooks are arguments.\<close>

definition vfs_bss :: "bt_state \<Rightarrow> 'h \<Rightarrow> 'h vfs" where
  "vfs_bss t h = \<lparr>file_table = replicate M4K_VFS_MAX_FILES file_zero, fd_table = replicate M4K_VFS_MAX_FDS fd_zero,
     pipe_buffers = replicate MAX_PIPES pipe_zero, bVfsInitialized = False,
     mount_table = replicate M4K_VFS_MAX_MOUNTS mount_zero, mount_count = 0,
     root_yafs = t, u64VfsNextIno = 1000, u32FdSearchStart = 0, v_env = h\<rparr>"

text \<open>A count returned as an \<open>int\<close>.\<close>

definition ret_count :: "nat \<Rightarrow> int" where
  "ret_count n = sint (of_nat n :: u32)"

section \<open>Descriptors and the table of files\<close>

definition vfs_alloc_fd :: "nat \<Rightarrow> 'h vfs \<Rightarrow> int \<times> 'h vfs" where
  "vfs_alloc_fd u32MinFd s =
     (case find (\<lambda>i. \<not> i < u32MinFd \<and> \<not> fd_used (fd_table s ! i))
             (map (\<lambda>n. (u32FdSearchStart s + n) mod M4K_VFS_MAX_FDS) [0..<M4K_VFS_MAX_FDS]) of
        None \<Rightarrow> (-1, s)
      | Some i \<Rightarrow> (int i, s\<lparr>u32FdSearchStart := (i + 1) mod M4K_VFS_MAX_FDS\<rparr>))"

definition mkrn_vfs_init :: "'h vfs \<Rightarrow> int \<times> 'h vfs" where
  "mkrn_vfs_init s =
     (if bVfsInitialized s then (0, s)
      else (0, s\<lparr>file_table := (replicate M4K_VFS_MAX_FILES file_zero)
                   [0 := file_zero\<lparr>fe_name := 47 # replicate (M4K_VFS_MAX_FILENAME - 1) 0,
                                   fe_type := M4K_FILE_DIR, fe_in_use := True\<rparr>],
                 fd_table := replicate M4K_VFS_MAX_FDS fd_zero,
                 mount_table := replicate M4K_VFS_MAX_MOUNTS mount_zero, mount_count := 0,
                 bVfsInitialized := True\<rparr>))"

text \<open>Only the root address is used later, not the mount it comes with.\<close>

definition mkrn_vfs_set_root_yafs :: "u64 \<Rightarrow> 'h vfs \<Rightarrow> 'h vfs" where
  "mkrn_vfs_set_root_yafs lba s = s\<lparr>root_yafs := (lba, snd (root_yafs s))\<rparr>"

definition skip_slash :: "u8 list \<Rightarrow> u8 list" where
  "skip_slash p = (case p of [] \<Rightarrow> [] | c # cs \<Rightarrow> if c = 47 then cs else p)"

definition mkrn_vfs_find_file :: "u8 list option \<Rightarrow> 'h vfs \<Rightarrow> nat option" where
  "mkrn_vfs_find_file name s =
     (case name of
        None \<Rightarrow> None
      | Some p \<Rightarrow>
          if \<not> bVfsInitialized s then None
          else find (\<lambda>i. fe_in_use (file_table s ! i) \<and> cstr (fe_name (file_table s ! i)) = skip_slash p)
                 [0..<M4K_VFS_MAX_FILES])"

definition mkrn_vfs_create_file :: "u8 list option \<Rightarrow> mkrn_file_type \<Rightarrow> 'h vfs \<Rightarrow> nat option \<times> 'h vfs" where
  "mkrn_vfs_create_file name ftype s =
     (case name of
        None \<Rightarrow> (None, s)
      | Some p0 \<Rightarrow>
          if \<not> bVfsInitialized s then (None, s)
          else
            let p = skip_slash p0 in
            if mkrn_vfs_find_file (Some p) s \<noteq> None then (None, s)
            else case find (\<lambda>i. \<not> fe_in_use (file_table s ! i)) [1..<M4K_VFS_MAX_FILES] of
              None \<Rightarrow> (None, s)
            | Some i \<Rightarrow>
                (Some i, s\<lparr>file_table := (file_table s)[i :=
                   \<lparr>fe_name = (strncpy_arr (fe_name (file_table s ! i)) p (M4K_VFS_MAX_FILENAME - 1))
                       [M4K_VFS_MAX_FILENAME - 1 := 0],
                    fe_type = ftype, fe_data = None, fe_size = 0, fe_capacity = 0, fe_in_use = True\<rparr>]\<rparr>))"

text \<open>Handing a buffer back to the heap.\<close>

definition free_data :: "'h vfs_hooks \<Rightarrow> mkrn_file_ent \<Rightarrow> 'h \<Rightarrow> 'h" where
  "free_data hk e h = (case fe_data e of None \<Rightarrow> h | Some (a, b) \<Rightarrow> hk_free hk a h)"

definition mkrn_vfs_delete_file :: "'h vfs_hooks \<Rightarrow> u8 list option \<Rightarrow> 'h vfs \<Rightarrow> int \<times> 'h vfs" where
  "mkrn_vfs_delete_file hk name s =
     (case mkrn_vfs_find_file name s of
        None \<Rightarrow> (-1, s)
      | Some i \<Rightarrow> (0, s\<lparr>v_env := free_data hk (file_table s ! i) (v_env s),
                        file_table := (file_table s)[i := file_zero]\<rparr>))"

definition bad_fd :: "int \<Rightarrow> bool" where
  "bad_fd n \<longleftrightarrow> n < 0 \<or> int M4K_VFS_MAX_FDS \<le> n"

definition mkrn_vfs_fd_in_use :: "int \<Rightarrow> 'h vfs \<Rightarrow> int" where
  "mkrn_vfs_fd_in_use n s = (if bad_fd n then 0 else if fd_used (fd_table s ! nat n) then 1 else 0)"

text \<open>What the two ends of a new pipe get.\<close>

definition pipe_end :: "nat \<Rightarrow> nat \<Rightarrow> u32 \<Rightarrow> mkrn_file_desc" where
  "pipe_end i pi flags = \<lparr>fd_fd = int i, fd_file = Some 0, fd_offset = of_nat pi, fd_flags = flags,
     fd_used = True, fd_inode = 0\<rparr>"

text \<open>The status, the two descriptors stored to the array, and the state.\<close>

definition mkrn_vfs_pipe :: "'h vfs \<Rightarrow> int \<times> (int \<times> int) option \<times> 'h vfs" where
  "mkrn_vfs_pipe s =
     (case find (\<lambda>i. \<not> pb_in_use (pipe_buffers s ! i)) [0..<MAX_PIPES] of
        None \<Rightarrow> (-1, None, s)
      | Some pi \<Rightarrow>
          let s1 = s\<lparr>pipe_buffers := (pipe_buffers s)[pi := pipe_zero\<lparr>pb_in_use := True\<rparr>]\<rparr>;
              (rfd, s2) = vfs_alloc_fd 3 s1;
              (wfd, s3) = (if 0 \<le> rfd then vfs_alloc_fd 3 s2 else (-1, s2))
          in if rfd < 0 \<or> wfd < 0
             then (-1, None, s3\<lparr>pipe_buffers := (pipe_buffers s3)[pi := (pipe_buffers s3 ! pi)\<lparr>pb_in_use := False\<rparr>]\<rparr>)
             else (0, Some (rfd, wfd), s3\<lparr>fd_table := (fd_table s3)
                     [nat rfd := pipe_end (nat rfd) pi M4K_O_RDONLY, nat wfd := pipe_end (nat wfd) pi M4K_O_WRONLY]\<rparr>))"

definition is_pipe_fd :: "mkrn_file_desc \<Rightarrow> bool" where
  "is_pipe_fd e \<longleftrightarrow> fd_file e = Some 0 \<and> fd_inode e = 0"

text \<open>The pipe a descriptor names, if its index is one of an open pipe.\<close>

definition pipe_of :: "mkrn_file_desc \<Rightarrow> 'h vfs \<Rightarrow> nat option" where
  "pipe_of e s =
     (let pi = sint (fd_offset e) in
      if pi < 0 \<or> int MAX_PIPES \<le> pi \<or> \<not> pb_in_use (pipe_buffers s ! nat pi) then None else Some (nat pi))"

definition close_pipe_end :: "mkrn_file_desc \<Rightarrow> pipe_buffer \<Rightarrow> pipe_buffer" where
  "close_pipe_end e pb =
     (let write_end = (fd_flags e AND M4K_O_WRONLY \<noteq> 0);
          pb1 = (if write_end then pb\<lparr>pb_write_closed := True\<rparr> else pb\<lparr>pb_read_closed := True\<rparr>)
      in if pb_read_closed pb1 \<and> pb_write_closed pb1 then pipe_zero else pb1)"

definition close_desc :: "nat \<Rightarrow> 'h vfs \<Rightarrow> 'h vfs" where
  "close_desc i s =
     (let e = fd_table s ! i;
          s1 = (if is_pipe_fd e
                then case pipe_of e s of
                       None \<Rightarrow> s
                     | Some pi \<Rightarrow> s\<lparr>pipe_buffers := (pipe_buffers s)[pi := close_pipe_end e (pipe_buffers s ! pi)]\<rparr>
                else s)
      in s1\<lparr>fd_table := (fd_table s1)[i := fd_zero]\<rparr>)"

text \<open>The pseudo filesystem that owns a descriptor, in the order of the tests.\<close>

definition fd_route :: "'h vfs_hooks \<Rightarrow> int \<Rightarrow> 'h \<Rightarrow> 'h pseudo_fs option" where
  "fd_route hk n h =
     (if pf_is_fd (hk_procfs hk) n h then Some (hk_procfs hk)
      else if pf_is_fd (hk_sessions hk) n h then Some (hk_sessions hk)
      else if pf_is_fd (hk_device_tree hk) n h then Some (hk_device_tree hk)
      else if pf_is_fd (hk_devfs hk) n h then Some (hk_devfs hk)
      else None)"

definition mkrn_vfs_close :: "'h vfs_hooks \<Rightarrow> int \<Rightarrow> 'h vfs \<Rightarrow> int \<times> 'h vfs" where
  "mkrn_vfs_close hk n s =
     (if bad_fd n \<or> \<not> bVfsInitialized s then (-1, s)
      else case fd_route hk n (v_env s) of
        Some fs \<Rightarrow> (case pf_close fs n (v_env s) of (r, h) \<Rightarrow> (r, s\<lparr>v_env := h\<rparr>))
      | None \<Rightarrow>
          if \<not> fd_used (fd_table s ! nat n) then (-1, s)
          else (0, close_desc (nat n) s))"

definition mkrn_vfs_dup2 :: "'h vfs_hooks \<Rightarrow> int \<Rightarrow> int \<Rightarrow> 'h vfs \<Rightarrow> int \<times> 'h vfs" where
  "mkrn_vfs_dup2 hk oldfd newfd s =
     (if bad_fd oldfd \<or> bad_fd newfd then (-1, s)
      else if \<not> fd_used (fd_table s ! nat oldfd) then (-1, s)
      else if oldfd = newfd then (newfd, s)
      else
        let s1 = (if fd_used (fd_table s ! nat newfd) then snd (mkrn_vfs_close hk newfd s) else s)
        in (newfd, s1\<lparr>fd_table := (fd_table s1)[nat newfd := (fd_table s1 ! nat oldfd)\<lparr>fd_fd := newfd\<rparr>]\<rparr>))"

section \<open>Names on YAFS\<close>

text \<open>Parent path and name; \<open>None\<close> is -1. \<open>psize\<close> is the size of the parent's buffer.\<close>

definition split_parent_name :: "u8 list \<Rightarrow> nat \<Rightarrow> (u8 list \<times> u8 list) option" where
  "split_parent_name p psize =
     (if p = [] then None
      else case strrchr_y p 47 of
        None \<Rightarrow> Some ([47], p)
      | Some plen \<Rightarrow>
          if plen = 0 then Some ([47], drop 1 p)
          else if psize \<le> plen then None
          else Some (take plen p, drop (Suc plen) p))"

definition with_tree :: "int \<times> bt_state \<Rightarrow> 'h vfs \<Rightarrow> int \<times> 'h vfs" where
  "with_tree r s = (fst r, s\<lparr>root_yafs := snd r\<rparr>)"

definition no_yafs :: "'h vfs \<Rightarrow> bool" where
  "no_yafs s \<longleftrightarrow> \<not> bVfsInitialized s \<or> fst (root_yafs s) = 0"

definition mkrn_vfs_mkdir :: "u8 list option \<Rightarrow> 'h vfs \<Rightarrow> (int \<times> 'h vfs) option" where
  "mkrn_vfs_mkdir path s =
     (case path of
        None \<Rightarrow> Some (-1, s)
      | Some p \<Rightarrow>
          if no_yafs s then Some (-1, s)
          else case split_parent_name p 256 of
            None \<Rightarrow> Some (-1, s)
          | Some (parent_path, name) \<Rightarrow> do {
              parent \<leftarrow> mkrn_yafs_lookup_path (Some parent_path) (root_yafs s);
              if parent = 0 then Some (-1, s)
              else if fst (mkrn_yafs_lookup_name parent (Some name) False (root_yafs s)) = 0 then Some (-1, s)
              else
                let ino = u64VfsNextIno s; s1 = s\<lparr>u64VfsNextIno := ino + 1\<rparr> in do {
                  r \<leftarrow> mkrn_yafs_mkdir parent (Some name) ino (root_yafs s1);
                  Some (if fst r < 0 then -1 else 0, s1\<lparr>root_yafs := snd r\<rparr>)
                }
            })"

definition mkrn_vfs_unlink :: "u8 list option \<Rightarrow> 'h vfs \<Rightarrow> (int \<times> 'h vfs) option" where
  "mkrn_vfs_unlink path s =
     (case path of
        None \<Rightarrow> Some (-1, s)
      | Some p \<Rightarrow>
          if no_yafs s then Some (-1, s)
          else case split_parent_name p 256 of
            None \<Rightarrow> Some (-1, s)
          | Some (parent_path, name) \<Rightarrow> do {
              parent \<leftarrow> mkrn_yafs_lookup_path (Some parent_path) (root_yafs s);
              if parent = 0 then Some (-1, s)
              else Some (with_tree (mkrn_yafs_unlink parent (Some name) (root_yafs s)) s)
            })"

definition mkrn_vfs_rmdir :: "u8 list option \<Rightarrow> 'h vfs \<Rightarrow> (int \<times> 'h vfs) option" where
  "mkrn_vfs_rmdir path s = mkrn_vfs_unlink path s"

definition mkrn_vfs_rename :: "u8 list option \<Rightarrow> u8 list option \<Rightarrow> 'h vfs \<Rightarrow> (int \<times> 'h vfs) option" where
  "mkrn_vfs_rename oldpath newpath s =
     (case (oldpath, newpath) of
        (Some op, Some np) \<Rightarrow>
          if no_yafs s then Some (-1, s)
          else (case (split_parent_name op 256, split_parent_name np 256) of
            (Some (old_parent, old_name), Some (new_parent, new_name)) \<Rightarrow> do {
              o_ino \<leftarrow> mkrn_yafs_lookup_path (Some old_parent) (root_yafs s);
              n_ino \<leftarrow> mkrn_yafs_lookup_path (Some new_parent) (root_yafs s);
              if o_ino = 0 \<or> n_ino = 0 then Some (-1, s)
              else do {
                r \<leftarrow> mkrn_yafs_rename o_ino (Some old_name) n_ino (Some new_name) (root_yafs s);
                Some (with_tree r s)
              }
            }
          | _ \<Rightarrow> Some (-1, s))
      | _ \<Rightarrow> Some (-1, s))"

definition new_file_inode :: "u8 list \<Rightarrow> yafs_inode_value" where
  "new_file_inode name = set_name name (inode_zero
     \<lparr>iv_file_type := YAFS_FT_REG_FILE, iv_link_count := 1, iv_uid := M4K_UID_ROOT, iv_gid := M4K_GID_ROOT,
      iv_mode := 0x100 OR 0x80 OR 0x20 OR 0x4\<rparr>)"

text \<open>The inode block, its key and the directory entry of a new file.\<close>

definition yafs_new_file :: "u64 \<Rightarrow> u8 list \<Rightarrow> u64 \<Rightarrow> bt_state \<Rightarrow> (int \<times> bt_state) option" where
  "yafs_new_file parent name ino t =
     (let (lba, d1) = mkrn_yafs_dev_alloc_block (snd t) in
      if lba = 0 then Some (-1, (fst t, d1))
      else case mkrn_yafs_dev_write lba (put_inode (new_file_inode name) zero_block) d1 of
        None \<Rightarrow> Some (-1, (fst t, d1))
      | Some d2 \<Rightarrow> do {
          (st, ins, t3) \<leftarrow> tree_insert (inode_key ino) lba (fst t, d2);
          if st \<noteq> 0 then Some (-1, (fst t3, mkrn_yafs_dev_free_block lba (snd t3)))
          else do {
            (st2, ins2, t4) \<leftarrow> tree_insert (dir_key parent name) ino t3;
            if st2 \<noteq> 0 \<or> \<not> ins2 then
              (let (st3, del, t5) = tree_delete (inode_key ino) t4
               in Some (-1, (fst t5, mkrn_yafs_dev_free_block lba (snd t5))))
            else Some (0, t4)
          }
        })"

definition mkrn_vfs_create_file_yafs :: "u8 list option \<Rightarrow> 'h vfs \<Rightarrow> (int \<times> 'h vfs) option" where
  "mkrn_vfs_create_file_yafs path s =
     (case path of
        None \<Rightarrow> Some (-1, s)
      | Some p \<Rightarrow>
          if no_yafs s then Some (-1, s)
          else case split_parent_name p 256 of
            None \<Rightarrow> Some (-1, s)
          | Some (parent_path, name) \<Rightarrow> do {
              parent \<leftarrow> mkrn_yafs_lookup_path (Some parent_path) (root_yafs s);
              if parent = 0 then Some (-1, s)
              else if fst (mkrn_yafs_lookup_name parent (Some name) True (root_yafs s)) = 0 then Some (-1, s)
              else
                let ino = u64VfsNextIno s; s1 = s\<lparr>u64VfsNextIno := ino + 1\<rparr> in do {
                  r \<leftarrow> yafs_new_file parent name ino (root_yafs s1);
                  Some (with_tree r s1)
                }
            })"

section \<open>Inodes read and written directly\<close>

definition read_inode_raw :: "u64 \<Rightarrow> bt_state \<Rightarrow> yafs_inode_value option" where
  "read_inode_raw ino t = do {
     lba \<leftarrow> mkrn_yafs_btree_lookup (fst t) (inode_key ino) (snd t);
     b \<leftarrow> mkrn_yafs_dev_read lba (snd t);
     Some (inode_of_bytes b)
   }"

definition write_inode_raw :: "u64 \<Rightarrow> yafs_inode_value \<Rightarrow> bt_state \<Rightarrow> int \<times> bt_state" where
  "write_inode_raw ino iv t =
     (case mkrn_yafs_btree_lookup (fst t) (inode_key ino) (snd t) of
        None \<Rightarrow> (-1, t)
      | Some lba \<Rightarrow>
          (case mkrn_yafs_dev_write lba (put_inode iv zero_block) (snd t) of
             None \<Rightarrow> (-1, t)
           | Some d \<Rightarrow> (0, (fst t, d))))"

section \<open>Opening\<close>

text \<open>\<open>strncmp (p, s, strlen s) == 0\<close>.\<close>

definition starts_with :: "string \<Rightarrow> u8 list \<Rightarrow> bool" where
  "starts_with pre p \<longleftrightarrow> take (length pre) p = chars pre"

definition open_denied :: "proc option \<Rightarrow> u8 list \<Rightarrow> bool" where
  "open_denied cur p \<longleftrightarrow>
     (case cur of
        None \<Rightarrow> False
      | Some c \<Rightarrow> euid c \<noteq> M4K_UID_ROOT \<and>
          (p = chars ''/sys'' \<or> starts_with ''/sys/'' p \<or> p = chars ''/boot'' \<or> starts_with ''/boot/'' p))"

text \<open>Handing an open over to a pseudo filesystem.\<close>

definition open_pseudo :: "'h pseudo_fs \<Rightarrow> u8 list \<Rightarrow> u32 \<Rightarrow> 'h vfs \<Rightarrow> int \<times> 'h vfs" where
  "open_pseudo fs p flags s =
     (case pf_open fs p flags (v_env s) of
        ((st, n), h) \<Rightarrow> (if st = 0 then n else -1, s\<lparr>v_env := h\<rparr>))"

text \<open>The pseudo filesystem a path is routed to, in the order of the tests.\<close>

definition open_route :: "'h vfs_hooks \<Rightarrow> u8 list \<Rightarrow> 'h pseudo_fs option" where
  "open_route hk p =
     (if starts_with ''/sys/proc'' p then Some (hk_procfs hk)
      else if starts_with ''/sys/sessions'' p then Some (hk_sessions hk)
      else if starts_with ''/device'' p then Some (hk_device_tree hk)
      else if starts_with ''/dev/'' p \<or> p = chars ''/dev'' then Some (hk_devfs hk)
      else None)"

text \<open>A descriptor for an inode or a file of the table.\<close>

definition open_desc :: "nat \<Rightarrow> u32 \<Rightarrow> u32 \<Rightarrow> u64 \<Rightarrow> 'h vfs \<Rightarrow> int \<times> 'h vfs" where
  "open_desc file offset flags ino s =
     (case vfs_alloc_fd 0 s of
        (i, s1) \<Rightarrow>
          if i < 0 then (-1, s1)
          else (i, s1\<lparr>fd_table := (fd_table s1)[nat i :=
                 \<lparr>fd_fd = i, fd_file = Some file, fd_offset = offset, fd_flags = flags, fd_used = True, fd_inode = ino\<rparr>]\<rparr>))"

text \<open>The inode of a path, made on demand; 0 stands for every failure.\<close>

definition find_or_create :: "u8 list \<Rightarrow> u32 \<Rightarrow> 'h vfs \<Rightarrow> (u64 \<times> 'h vfs) option" where
  "find_or_create p flags s = do {
     ino \<leftarrow> (if p = [47] then Some 1 else mkrn_yafs_lookup_path (Some p) (root_yafs s));
     if ino = 0 \<and> flags AND M4K_O_CREAT \<noteq> 0
     then do {
       (st, s1) \<leftarrow> mkrn_vfs_create_file_yafs (Some p) s;
       if st < 0 then Some (0, s1)
       else map_option (\<lambda>ino. (ino, s1)) (mkrn_yafs_lookup_path (Some p) (root_yafs s1))
     }
     else Some (ino, s)
   }"

definition open_inode :: "u64 \<Rightarrow> u32 \<Rightarrow> 'h vfs \<Rightarrow> int \<times> 'h vfs" where
  "open_inode ino flags s =
     (let (st, t) = (if flags AND M4K_O_TRUNC \<noteq> 0 then mkrn_yafs_truncate_inode ino (root_yafs s)
                     else (0, root_yafs s));
          s1 = s\<lparr>root_yafs := t\<rparr>
      in if st \<noteq> 0 then (-1, s1)
         else open_desc 0
           (if flags AND M4K_O_APPEND \<noteq> 0
            then case read_inode_raw ino t of None \<Rightarrow> 0 | Some iv \<Rightarrow> ucast (iv_size iv)
            else 0) flags ino s1)"

definition open_yafs :: "u8 list \<Rightarrow> u32 \<Rightarrow> 'h vfs \<Rightarrow> (int \<times> 'h vfs) option" where
  "open_yafs p flags s = do {
     (ino, s1) \<leftarrow> find_or_create p flags s;
     if ino = 0 then Some (-1, s1) else Some (open_inode ino flags s1)
   }"

definition open_ramfs :: "'h vfs_hooks \<Rightarrow> u8 list \<Rightarrow> u32 \<Rightarrow> 'h vfs \<Rightarrow> int \<times> 'h vfs" where
  "open_ramfs hk p flags s =
     (let (file, s1) =
            (case mkrn_vfs_find_file (Some p) s of
               Some i \<Rightarrow> (Some i, s)
             | None \<Rightarrow>
                 if flags AND M4K_O_CREAT \<noteq> 0 then mkrn_vfs_create_file (Some p) M4K_FILE_REGULAR s
                 else (None, s))
      in case file of
           None \<Rightarrow> (-1, s1)
         | Some i \<Rightarrow>
             let e = file_table s1 ! i;
                 s2 = (if flags AND M4K_O_TRUNC \<noteq> 0
                       then s1\<lparr>v_env := free_data hk e (v_env s1),
                               file_table := (file_table s1)[i := e\<lparr>fe_data := None, fe_size := 0, fe_capacity := 0\<rparr>]\<rparr>
                       else s1)
             in open_desc i (if flags AND M4K_O_APPEND \<noteq> 0 then fe_size (file_table s2 ! i) else 0) flags 0 s2)"

definition mkrn_vfs_open :: "'h vfs_hooks \<Rightarrow> proc option \<Rightarrow> u8 list option \<Rightarrow> u32 \<Rightarrow> 'h vfs \<Rightarrow> (int \<times> 'h vfs) option" where
  "mkrn_vfs_open hk cur path flags s =
     (case path of
        None \<Rightarrow> Some (-1, s)
      | Some p \<Rightarrow>
          if \<not> bVfsInitialized s then Some (-1, s)
          else if open_denied cur p then Some (-1, s)
          else case open_route hk p of
            Some fs \<Rightarrow> Some (open_pseudo fs p flags s)
          | None \<Rightarrow>
              if fst (root_yafs s) \<noteq> 0 then open_yafs p flags s
              else Some (open_ramfs hk p flags s))"

section \<open>Reading and writing\<close>

text \<open>Reads give the value returned and the bytes put into the caller's buffer.\<close>

definition read_pipe :: "mkrn_file_desc \<Rightarrow> nat \<Rightarrow> 'h vfs \<Rightarrow> ((int \<times> u8 list) \<times> 'h vfs) option" where
  "read_pipe e want s =
     (case pipe_of e s of
        None \<Rightarrow> Some ((-1, []), s)
      | Some pi \<Rightarrow>
          if pb_read_closed (pipe_buffers s ! pi) then Some ((-1, []), s)
          else do {
            (out, pb) \<leftarrow> pipe_read_loop want [] (pipe_buffers s ! pi);
            Some ((ret_count (length out), out), s\<lparr>pipe_buffers := (pipe_buffers s)[pi := pb]\<rparr>)
          })"

definition set_offset :: "nat \<Rightarrow> u32 \<Rightarrow> 'h vfs \<Rightarrow> 'h vfs" where
  "set_offset i off s = s\<lparr>fd_table := (fd_table s)[i := (fd_table s ! i)\<lparr>fd_offset := off\<rparr>]\<rparr>"

definition read_yafs :: "nat \<Rightarrow> u32 \<Rightarrow> 'h vfs \<Rightarrow> ((int \<times> u8 list) \<times> 'h vfs) option" where
  "read_yafs i want s =
     (let e = fd_table s ! i in do {
        (st, out) \<leftarrow> mkrn_yafs_read_file_data (fd_inode e) True (ucast (fd_offset e)) want (root_yafs s);
        Some (if st \<noteq> 0 then ((-1, out), s)
              else ((ret_count (length out), out), set_offset i (fd_offset e + of_nat (length out)) s))
      })"

definition read_ramfs :: "nat \<Rightarrow> nat \<Rightarrow> nat \<Rightarrow> 'h vfs \<Rightarrow> (int \<times> u8 list) \<times> 'h vfs" where
  "read_ramfs i f want s =
     (let e = fd_table s ! i; file = file_table s ! f in
      if fe_type file \<noteq> M4K_FILE_REGULAR then ((-1, []), s)
      else if fe_size file \<le> fd_offset e then ((0, []), s)
      else
        let n = min want (unat (fe_size file - fd_offset e));
            bytes = (case fe_data file of None \<Rightarrow> [] | Some (a, b) \<Rightarrow> take n (drop (unat (fd_offset e)) b))
        in ((ret_count n, bytes), set_offset i (fd_offset e + of_nat n) s))"

definition mkrn_vfs_read :: "'h vfs_hooks \<Rightarrow> int \<Rightarrow> u32 \<Rightarrow> 'h vfs \<Rightarrow> ((int \<times> u8 list) \<times> 'h vfs) option" where
  "mkrn_vfs_read hk n want s =
     (if bad_fd n \<or> \<not> bVfsInitialized s then Some ((-1, []), s)
      else case fd_route hk n (v_env s) of
        Some fs \<Rightarrow> (case pf_read fs n want (v_env s) of (r, h) \<Rightarrow> Some (r, s\<lparr>v_env := h\<rparr>))
      | None \<Rightarrow>
          let e = fd_table s ! nat n in
          if is_pipe_fd e then read_pipe e (unat want) s
          else if \<not> fd_used e then Some ((-1, []), s)
          else case fd_file e of
            None \<Rightarrow> Some ((-1, []), s)
          | Some f \<Rightarrow>
              if fd_inode e \<noteq> 0 \<and> fst (root_yafs s) \<noteq> 0 then read_yafs (nat n) want s
              else Some (read_ramfs (nat n) f (unat want) s))"

definition write_pipe :: "mkrn_file_desc \<Rightarrow> u8 list \<Rightarrow> 'h vfs \<Rightarrow> (int \<times> 'h vfs) option" where
  "write_pipe e buf s =
     (case pipe_of e s of
        None \<Rightarrow> Some (-1, s)
      | Some pi \<Rightarrow>
          if pb_write_closed (pipe_buffers s ! pi) then Some (-1, s)
          else do {
            (n, pb) \<leftarrow> pipe_write_loop buf 0 (pipe_buffers s ! pi);
            Some (ret_count n, s\<lparr>pipe_buffers := (pipe_buffers s)[pi := pb]\<rparr>)
          })"

definition write_yafs :: "nat \<Rightarrow> u8 list \<Rightarrow> 'h vfs \<Rightarrow> (int \<times> 'h vfs) option" where
  "write_yafs i buf s =
     (let e = fd_table s ! i in do {
        (st, n, t) \<leftarrow> mkrn_yafs_write_file_data (fd_inode e) (Some buf) (ucast (fd_offset e)) (root_yafs s);
        let s1 = s\<lparr>root_yafs := t\<rparr> in
        Some (if st \<noteq> 0 then (-1, s1) else (ret_count n, set_offset i (fd_offset e + of_nat n) s1))
      })"

text \<open>Doubling the capacity until the new size fits; \<open>None\<close> when it never does.\<close>

partial_function (option) grow_cap :: "u32 \<Rightarrow> u32 \<Rightarrow> u32 option" where
  "grow_cap new_size cap = (if cap < new_size then grow_cap new_size (cap * 2) else Some cap)"

text \<open>The buffer, its capacity and the state of the heap after the growth; a
  \<open>None\<close> inside is a failed allocation. The fresh buffer keeps its own bytes where
  neither copy nor clearing reaches.\<close>

definition grow_data :: "'h vfs_hooks \<Rightarrow> mkrn_file_ent \<Rightarrow> u32 \<Rightarrow> 'h \<Rightarrow> (mkrn_file_ent option \<times> 'h) option" where
  "grow_data hk file new_size h =
     (if fe_capacity file < new_size
      then do {
        cap \<leftarrow> grow_cap new_size (if fe_capacity file \<noteq> 0 then fe_capacity file * 2 else 4096);
        (case hk_alloc hk cap h of
           (None, h1) \<Rightarrow> Some (None, h1)
         | (Some (a, fresh), h1) \<Rightarrow>
             let n = unat (fe_size file);
                 (copied, h2) = (case fe_data file of
                     None \<Rightarrow> (fresh, h1)
                   | Some (b, old) \<Rightarrow> (blit fresh 0 (take n old), hk_free hk b h1));
                 data = blit copied n (replicate (unat (cap - fe_size file)) 0)
             in Some (Some (file\<lparr>fe_data := Some (a, data), fe_capacity := cap\<rparr>), h2))
      }
      else Some (Some file, h))"

definition store_bytes :: "mkrn_file_ent \<Rightarrow> nat \<Rightarrow> u8 list \<Rightarrow> mkrn_file_ent" where
  "store_bytes file off buf =
     (case fe_data file of None \<Rightarrow> file | Some (a, b) \<Rightarrow> file\<lparr>fe_data := Some (a, blit b off buf)\<rparr>)"

definition write_ramfs :: "'h vfs_hooks \<Rightarrow> nat \<Rightarrow> nat \<Rightarrow> u8 list \<Rightarrow> 'h vfs \<Rightarrow> (int \<times> 'h vfs) option" where
  "write_ramfs hk i f buf s =
     (let e = fd_table s ! i; file = file_table s ! f; len = of_nat (length buf) :: u32 in
      if fe_type file \<noteq> M4K_FILE_REGULAR then Some (-1, s)
      else if - 1 - len < fd_offset e then Some (-1, s)
      else do {
        (grown, h) \<leftarrow> grow_data hk file (fd_offset e + len) (v_env s);
        (case grown of
           None \<Rightarrow> Some (-1, s\<lparr>v_env := h\<rparr>)
         | Some file1 \<Rightarrow>
             let file2 = store_bytes file1 (unat (fd_offset e)) buf;
                 off = fd_offset e + len;
                 file3 = (if fe_size file2 < off then file2\<lparr>fe_size := off\<rparr> else file2)
             in Some (ret_count (length buf),
                  set_offset i off (s\<lparr>v_env := h, file_table := (file_table s)[f := file3]\<rparr>)))
      })"

definition mkrn_vfs_write :: "'h vfs_hooks \<Rightarrow> int \<Rightarrow> u8 list \<Rightarrow> 'h vfs \<Rightarrow> (int \<times> 'h vfs) option" where
  "mkrn_vfs_write hk n buf s =
     (if bad_fd n \<or> \<not> bVfsInitialized s then Some (-1, s)
      else case fd_route hk n (v_env s) of
        Some fs \<Rightarrow> (case pf_write fs n buf (v_env s) of (r, h) \<Rightarrow> Some (r, s\<lparr>v_env := h\<rparr>))
      | None \<Rightarrow>
          let e = fd_table s ! nat n in
          if is_pipe_fd e then write_pipe e buf s
          else if \<not> fd_used e then Some (-1, s)
          else case fd_file e of
            None \<Rightarrow> Some (-1, s)
          | Some f \<Rightarrow>
              if fd_inode e \<noteq> 0 \<and> fst (root_yafs s) \<noteq> 0 then write_yafs (nat n) buf s
              else write_ramfs hk (nat n) f buf s)"

section \<open>Seeking\<close>

definition M4K_SEEK_SET :: int where "M4K_SEEK_SET = 0"
definition M4K_SEEK_CUR :: int where "M4K_SEEK_CUR = 1"
definition M4K_SEEK_END :: int where "M4K_SEEK_END = 2"

text \<open>The base of a seek on an inode, as a signed 64-bit value.\<close>

definition yafs_seek_base :: "mkrn_file_desc \<Rightarrow> int \<Rightarrow> bt_state \<Rightarrow> int option" where
  "yafs_seek_base e whence t =
     (if whence = M4K_SEEK_SET then Some 0
      else if whence = M4K_SEEK_CUR then Some (uint (fd_offset e))
      else if whence = M4K_SEEK_END then map_option (\<lambda>iv. sint (iv_size iv)) (read_inode_raw (fd_inode e) t)
      else None)"

definition lseek_yafs :: "nat \<Rightarrow> int \<Rightarrow> int \<Rightarrow> 'h vfs \<Rightarrow> int \<times> 'h vfs" where
  "lseek_yafs i offset whence s =
     (case yafs_seek_base (fd_table s ! i) whence (root_yafs s) of
        None \<Rightarrow> (-1, s)
      | Some base \<Rightarrow>
          let new_off = (if base + offset < 0 then 0 else base + offset);
              off = of_int new_off :: u32
          in (sint off, set_offset i off s))"

text \<open>On a file of the table the sums are those of 32-bit integers.\<close>

definition lseek_ramfs :: "nat \<Rightarrow> nat \<Rightarrow> int \<Rightarrow> int \<Rightarrow> 'h vfs \<Rightarrow> int \<times> 'h vfs" where
  "lseek_ramfs i f offset whence s =
     (let e = fd_table s ! i; fsize = fe_size (file_table s ! f) in
      case (if whence = M4K_SEEK_SET then Some (of_int offset)
            else if whence = M4K_SEEK_CUR then Some (fd_offset e + of_int offset)
            else if whence = M4K_SEEK_END then Some (fsize + of_int offset)
            else None) of
        None \<Rightarrow> (-1, s)
      | Some w \<Rightarrow>
          let w1 = (if sint w < 0 then 0 else w); w2 = (if fsize < w1 then fsize else w1)
          in (sint w2, set_offset i w2 s))"

definition mkrn_vfs_lseek :: "'h vfs_hooks \<Rightarrow> int \<Rightarrow> int \<Rightarrow> int \<Rightarrow> 'h vfs \<Rightarrow> int \<times> 'h vfs" where
  "mkrn_vfs_lseek hk n offset whence s =
     (if bad_fd n \<or> \<not> bVfsInitialized s then (-1, s)
      else if pf_is_fd (hk_devfs hk) n (v_env s)
      then (case pf_lseek (hk_devfs hk) n offset whence (v_env s) of (r, h) \<Rightarrow> (r, s\<lparr>v_env := h\<rparr>))
      else
        let e = fd_table s ! nat n in
        if \<not> fd_used e then (-1, s)
        else case fd_file e of
          None \<Rightarrow> (-1, s)
        | Some f \<Rightarrow>
            if is_pipe_fd e then (-1, s)
            else if fd_inode e \<noteq> 0 \<and> fst (root_yafs s) \<noteq> 0 then lseek_yafs (nat n) offset whence s
            else lseek_ramfs (nat n) f offset whence s)"

section \<open>The table of mounts\<close>

definition copy_field :: "u8 list \<Rightarrow> u8 list \<Rightarrow> nat \<Rightarrow> u8 list" where
  "copy_field a p n = (strncpy_arr a p n)[n := 0]"

definition mkrn_vfs_mount :: "u8 list option \<Rightarrow> u8 list option \<Rightarrow> u8 list option \<Rightarrow> 'h vfs \<Rightarrow> int \<times> 'h vfs" where
  "mkrn_vfs_mount source target fstype s =
     (case (source, target, fstype) of
        (Some src, Some tgt, Some fty) \<Rightarrow>
          (case find (\<lambda>i. \<not> me_mounted (mount_table s ! i)) [0..<M4K_VFS_MAX_MOUNTS] of
             None \<Rightarrow> (-1, s)
           | Some i \<Rightarrow>
               let e = mount_table s ! i in
               (0, s\<lparr>mount_table := (mount_table s)[i :=
                       \<lparr>me_source = copy_field (me_source e) src (M4K_VFS_MAX_FILENAME - 1),
                        me_target = copy_field (me_target e) tgt (M4K_VFS_MAX_FILENAME - 1),
                        me_fstype = copy_field (me_fstype e) fty 31, me_mounted = True\<rparr>],
                     mount_count := mount_count s + 1\<rparr>))
      | _ \<Rightarrow> (-1, s))"

definition mkrn_vfs_umount :: "u8 list option \<Rightarrow> 'h vfs \<Rightarrow> int \<times> 'h vfs" where
  "mkrn_vfs_umount target s =
     (case target of
        None \<Rightarrow> (-1, s)
      | Some tgt \<Rightarrow>
          (case find (\<lambda>i. me_mounted (mount_table s ! i) \<and> cstr (me_target (mount_table s ! i)) = tgt)
                  [0..<M4K_VFS_MAX_MOUNTS] of
             None \<Rightarrow> (-1, s)
           | Some i \<Rightarrow> (0, s\<lparr>mount_table := (mount_table s)[i := mount_zero], mount_count := mount_count s - 1\<rparr>)))"

definition mkrn_vfs_get_mount_info :: "bool \<Rightarrow> int \<Rightarrow> 'h vfs \<Rightarrow> int \<times> mkrn_mount_ent list" where
  "mkrn_vfs_get_mount_info buf maxn s =
     (if \<not> buf \<or> maxn \<le> 0 then (0, [])
      else let out = take (nat maxn) (filter me_mounted (take M4K_VFS_MAX_MOUNTS (mount_table s)))
           in (int (length out), out))"

section \<open>Directory entries, modes and owners\<close>

definition mkrn_vfs_getdents :: "'h vfs_hooks \<Rightarrow> int \<Rightarrow> u32 \<Rightarrow> 'h vfs \<Rightarrow> ((int \<times> mkrn_vfs_dirent list) \<times> 'h vfs) option" where
  "mkrn_vfs_getdents hk n len s =
     (if bad_fd n \<or> \<not> bVfsInitialized s then Some ((-1, []), s)
      else case (if pf_is_fd (hk_procfs hk) n (v_env s) then Some (hk_procfs hk)
                 else if pf_is_fd (hk_device_tree hk) n (v_env s) then Some (hk_device_tree hk)
                 else if pf_is_fd (hk_devfs hk) n (v_env s) then Some (hk_devfs hk)
                 else None) of
        Some fs \<Rightarrow> (case pf_getdents fs n len (v_env s) of (r, h) \<Rightarrow> Some (r, s\<lparr>v_env := h\<rparr>))
      | None \<Rightarrow>
          if fst (root_yafs s) = 0 then Some ((-1, []), s)
          else if is_pipe_fd (fd_table s ! nat n) then Some ((-1, []), s)
          else
            let dir = fd_inode (fd_table s ! nat n) in
            map_option (\<lambda>r. (r, s)) (mkrn_yafs_readdir (if dir = 0 then 1 else dir) True len (root_yafs s)))"

definition M4K_EACCES :: int where "M4K_EACCES = 0x4D000006"

definition M4K_IRUSR :: u16 where "M4K_IRUSR = 0x100"
definition M4K_IWUSR :: u16 where "M4K_IWUSR = 0x80"
definition M4K_IXUSR :: u16 where "M4K_IXUSR = 0x40"
definition M4K_IRGRP :: u16 where "M4K_IRGRP = 0x20"
definition M4K_IWGRP :: u16 where "M4K_IWGRP = 0x10"
definition M4K_IXGRP :: u16 where "M4K_IXGRP = 0x8"
definition M4K_IROTH :: u16 where "M4K_IROTH = 0x4"
definition M4K_IWOTH :: u16 where "M4K_IWOTH = 0x2"
definition M4K_IXOTH :: u16 where "M4K_IXOTH = 0x1"

definition M4K_ACCESS_READ :: u32 where "M4K_ACCESS_READ = 1"
definition M4K_ACCESS_WRITE :: u32 where "M4K_ACCESS_WRITE = 2"
definition M4K_ACCESS_EXEC :: u32 where "M4K_ACCESS_EXEC = 4"

text \<open>The three tests of one class of users.\<close>

definition class_access :: "u16 \<Rightarrow> u32 \<Rightarrow> u16 \<Rightarrow> u16 \<Rightarrow> u16 \<Rightarrow> int" where
  "class_access perm mode r w x =
     (if mode AND M4K_ACCESS_READ \<noteq> 0 \<and> perm AND r = 0 then - M4K_EACCES
      else if mode AND M4K_ACCESS_WRITE \<noteq> 0 \<and> perm AND w = 0 then - M4K_EACCES
      else if mode AND M4K_ACCESS_EXEC \<noteq> 0 \<and> perm AND x = 0 then - M4K_EACCES
      else 0)"

definition mkrn_check_access :: "proc option \<Rightarrow> yafs_inode_value option \<Rightarrow> u32 \<Rightarrow> int" where
  "mkrn_check_access cur inode mode =
     (case (cur, inode) of
        (Some c, Some iv) \<Rightarrow>
          let perm = ucast (iv_mode iv) :: u16 in
          if euid c = M4K_UID_ROOT then
            (if mode AND M4K_ACCESS_EXEC \<noteq> 0
             then (if perm AND (M4K_IXUSR OR M4K_IXGRP OR M4K_IXOTH) \<noteq> 0 then 0 else - M4K_EACCES)
             else 0)
          else if euid c = iv_uid iv then class_access perm mode M4K_IRUSR M4K_IWUSR M4K_IXUSR
          else if list_ex (\<lambda>g. g = iv_gid iv) (take (unat (group_count c)) (group_list c))
          then class_access perm mode M4K_IRGRP M4K_IWGRP M4K_IXGRP
          else class_access perm mode M4K_IROTH M4K_IWOTH M4K_IXOTH
      | _ \<Rightarrow> - M4K_EACCES)"

definition mkrn_vfs_chmod :: "proc option \<Rightarrow> u8 list option \<Rightarrow> u32 \<Rightarrow> 'h vfs \<Rightarrow> (int \<times> 'h vfs) option" where
  "mkrn_vfs_chmod cur path mode s =
     (if path = None \<or> fst (root_yafs s) = 0 then Some (-1, s)
      else do {
        ino \<leftarrow> mkrn_yafs_lookup_path path (root_yafs s);
        if ino = 0 then Some (-1, s)
        else case read_inode_raw ino (root_yafs s) of
          None \<Rightarrow> Some (-1, s)
        | Some iv \<Rightarrow>
            if (case cur of None \<Rightarrow> False | Some c \<Rightarrow> euid c \<noteq> M4K_UID_ROOT \<and> euid c \<noteq> iv_uid iv) then Some (-1, s)
            else Some (with_tree (write_inode_raw ino
                   (iv\<lparr>iv_mode := (iv_mode iv AND NOT 0xFFFF) OR (mode AND 0xFFFF)\<rparr>) (root_yafs s)) s)
      })"

definition mkrn_vfs_chown :: "proc option \<Rightarrow> u8 list option \<Rightarrow> u32 \<Rightarrow> u32 \<Rightarrow> 'h vfs \<Rightarrow> (int \<times> 'h vfs) option" where
  "mkrn_vfs_chown cur path owner grp s =
     (if path = None \<or> fst (root_yafs s) = 0 then Some (-1, s)
      else do {
        ino \<leftarrow> mkrn_yafs_lookup_path path (root_yafs s);
        if ino = 0 then Some (-1, s)
        else if (case cur of None \<Rightarrow> False | Some c \<Rightarrow> euid c \<noteq> M4K_UID_ROOT) then Some (-1, s)
        else case read_inode_raw ino (root_yafs s) of
          None \<Rightarrow> Some (-1, s)
        | Some iv \<Rightarrow>
            Some (with_tree (write_inode_raw ino (iv\<lparr>iv_uid := owner, iv_gid := grp\<rparr>) (root_yafs s)) s)
      })"

definition mkrn_vfs_access :: "proc option \<Rightarrow> u8 list option \<Rightarrow> u32 \<Rightarrow> 'h vfs \<Rightarrow> int option" where
  "mkrn_vfs_access cur path mode s =
     (if path = None \<or> fst (root_yafs s) = 0 then Some (-1)
      else do {
        ino \<leftarrow> mkrn_yafs_lookup_path path (root_yafs s);
        if ino = 0 then Some (-1)
        else case read_inode_raw ino (root_yafs s) of
          None \<Rightarrow> Some (-1)
        | Some iv \<Rightarrow> Some (mkrn_check_access cur (Some iv) mode)
      })"

end
