(* ===== verification/VfsInv.thy ===== *)
theory VfsInv
  imports Vfs
begin

text \<open>
  What every operation of the virtual filesystem layer keeps: the tables keep their
  lengths, a buffer of a file is as long as its capacity and zero behind its size,
  every ring is well formed and a released one is empty, every open descriptor
  points into the table of files, and the number of mounts is the number of
  occupied entries. The operations are the steps of a transition relation; the
  invariant holds in every state it reaches.
\<close>

section \<open>The invariant\<close>

definition file_ok :: "mkrn_file_ent \<Rightarrow> bool" where
  "file_ok e \<longleftrightarrow> length (fe_name e) = 128 \<and>
     (case fe_data e of
        None \<Rightarrow> fe_size e = 0 \<and> fe_capacity e = 0
      | Some (a, b) \<Rightarrow> length b = unat (fe_capacity e) \<and> fe_size e \<le> fe_capacity e \<and>
          (\<forall>x \<in> set (drop (unat (fe_size e)) b). x = 0))"

definition pipe_ok :: "pipe_buffer \<Rightarrow> bool" where
  "pipe_ok pb \<longleftrightarrow> pipe_inv pb \<and> (pb_in_use pb \<or> pb = pipe_zero)"

definition fd_ok :: "mkrn_file_desc \<Rightarrow> bool" where
  "fd_ok e \<longleftrightarrow> (if fd_used e then \<exists>f < 128. fd_file e = Some f else e = fd_zero)"

definition mount_ok :: "mkrn_mount_ent \<Rightarrow> bool" where
  "mount_ok e \<longleftrightarrow> length (me_source e) = 128 \<and> length (me_target e) = 128 \<and> length (me_fstype e) = 32"

definition vfs_ok :: "'h vfs \<Rightarrow> bool" where
  "vfs_ok s \<longleftrightarrow> bVfsInitialized s \<and>
     length (file_table s) = 128 \<and> list_all file_ok (file_table s) \<and> fe_type (file_table s ! 0) \<noteq> M4K_FILE_REGULAR \<and>
     length (fd_table s) = 1024 \<and> list_all fd_ok (fd_table s) \<and>
     length (pipe_buffers s) = 32 \<and> list_all pipe_ok (pipe_buffers s) \<and>
     length (mount_table s) = 16 \<and> list_all mount_ok (mount_table s) \<and>
     mount_count s = int (length (filter me_mounted (mount_table s))) \<and> u32FdSearchStart s < 1024"

lemmas vfs_consts = M4K_VFS_MAX_FILES_def M4K_VFS_MAX_FILENAME_def M4K_VFS_MAX_FDS_def M4K_VFS_MAX_MOUNTS_def MAX_PIPES_def

text \<open>What the heap promises: a buffer of the size asked for.\<close>

definition alloc_ok :: "'h vfs_hooks \<Rightarrow> bool" where
  "alloc_ok hk \<longleftrightarrow> (\<forall>n h a b h'. hk_alloc hk n h = (Some (a, b), h') \<longrightarrow> length b = unat n)"

lemma vfs_okD:
  assumes "vfs_ok s"
  shows "bVfsInitialized s" "length (file_table s) = 128" "length (fd_table s) = 1024"
    "length (pipe_buffers s) = 32" "length (mount_table s) = 16" "u32FdSearchStart s < 1024"
    "i < 128 \<Longrightarrow> file_ok (file_table s ! i)" "i < 1024 \<Longrightarrow> fd_ok (fd_table s ! i)"
    "i < 32 \<Longrightarrow> pipe_ok (pipe_buffers s ! i)"
  using assms by (auto simp: vfs_ok_def list_all_length)

lemma fd_zero_ok [simp]: "fd_ok fd_zero" by (simp add: fd_ok_def fd_zero_def)
lemma file_zero_ok [simp]: "file_ok file_zero" "fe_type file_zero \<noteq> M4K_FILE_REGULAR"
  by (simp_all add: file_ok_def file_zero_def vfs_consts)
lemma pipe_zero_okI [simp]: "pipe_ok pipe_zero" by (simp add: pipe_ok_def)

lemma list_all_update: "list_all P xs \<Longrightarrow> P x \<Longrightarrow> list_all P (xs[i := x])"
  by (auto simp: list_all_iff dest: set_update_subset_insert[THEN subsetD])

text \<open>Updates of one component at a time.\<close>

lemma vfs_ok_env [simp]: "vfs_ok (s\<lparr>v_env := h\<rparr>) = vfs_ok s" by (simp add: vfs_ok_def)
lemma vfs_ok_tree [simp]: "vfs_ok (s\<lparr>root_yafs := t\<rparr>) = vfs_ok s" by (simp add: vfs_ok_def)
lemma vfs_ok_ino [simp]: "vfs_ok (s\<lparr>u64VfsNextIno := i\<rparr>) = vfs_ok s" by (simp add: vfs_ok_def)

lemma vfs_ok_cursor: "vfs_ok s \<Longrightarrow> c < 1024 \<Longrightarrow> vfs_ok (s\<lparr>u32FdSearchStart := c\<rparr>)" by (simp add: vfs_ok_def)

lemma vfs_ok_fd: "vfs_ok s \<Longrightarrow> fd_ok e \<Longrightarrow> vfs_ok (s\<lparr>fd_table := (fd_table s)[i := e]\<rparr>)"
  by (simp add: vfs_ok_def list_all_update)

lemma vfs_ok_pipe: "vfs_ok s \<Longrightarrow> pipe_ok pb \<Longrightarrow> vfs_ok (s\<lparr>pipe_buffers := (pipe_buffers s)[i := pb]\<rparr>)"
  by (simp add: vfs_ok_def list_all_update)

lemma vfs_ok_file:
  "vfs_ok s \<Longrightarrow> file_ok e \<Longrightarrow> i \<noteq> 0 \<or> fe_type e \<noteq> M4K_FILE_REGULAR \<Longrightarrow> vfs_ok (s\<lparr>file_table := (file_table s)[i := e]\<rparr>)"
  by (cases "i = 0") (auto simp: vfs_ok_def list_all_update)

lemma vfs_ok_file_env:
  "vfs_ok s \<Longrightarrow> file_ok e \<Longrightarrow> i \<noteq> 0 \<or> fe_type e \<noteq> M4K_FILE_REGULAR \<Longrightarrow>
   vfs_ok (s\<lparr>v_env := h, file_table := (file_table s)[i := e]\<rparr>)"
  using vfs_ok_file[of "s\<lparr>v_env := h\<rparr>"] by simp

lemma vfs_ok_pipe_fd:
  "vfs_ok s \<Longrightarrow> pipe_ok pb \<Longrightarrow> fd_ok e \<Longrightarrow>
   vfs_ok (s\<lparr>pipe_buffers := (pipe_buffers s)[j := pb], fd_table := (fd_table s)[i := e]\<rparr>)"
  using vfs_ok_fd[of "s\<lparr>pipe_buffers := (pipe_buffers s)[j := pb]\<rparr>"] by (simp add: vfs_ok_pipe)

lemmas vfs_ok_intros = vfs_ok_cursor vfs_ok_fd vfs_ok_pipe vfs_ok_file

section \<open>Descriptors\<close>

lemma alloc_fd_ok: "vfs_ok s \<Longrightarrow> vfs_alloc_fd m s = (n, s') \<Longrightarrow> vfs_ok s'"
  by (auto simp: vfs_alloc_fd_def vfs_consts split: option.splits intro: vfs_ok_cursor)

text \<open>The scan visits every descriptor, from the cursor round to it again.\<close>

lemma scan_all: "c < 1024 \<Longrightarrow> set (map (\<lambda>n. (c + n) mod M4K_VFS_MAX_FDS) [0..<M4K_VFS_MAX_FDS]) = {..<1024}"
proof (intro equalityI subsetI)
  fix i :: nat assume c: "c < 1024" and "i \<in> {..<1024}"
  then have "(c + (i + (1024 - c)) mod 1024) mod 1024 = i" by (simp add: mod_add_right_eq)
  then show "i \<in> set (map (\<lambda>n. (c + n) mod M4K_VFS_MAX_FDS) [0..<M4K_VFS_MAX_FDS])"
    by (force simp: vfs_consts image_iff intro: bexI[of _ "(i + (1024 - c)) mod 1024"])
qed (auto simp: vfs_consts)

lemma set_find: "find P xs = Some x \<Longrightarrow> x \<in> set xs \<and> P x"
  by (auto simp: find_Some_iff)

lemma alloc_fd_cases:
  assumes "u32FdSearchStart s < 1024"
  obtains (full) "vfs_alloc_fd m s = (-1, s)" "\<forall>i < 1024. m \<le> i \<longrightarrow> fd_used (fd_table s ! i)"
  | (slot) i where "vfs_alloc_fd m s = (int i, s\<lparr>u32FdSearchStart := (i + 1) mod 1024\<rparr>)"
      "m \<le> i" "i < 1024" "\<not> fd_used (fd_table s ! i)"
proof (cases "find (\<lambda>i. \<not> i < m \<and> \<not> fd_used (fd_table s ! i))
             (map (\<lambda>n. (u32FdSearchStart s + n) mod M4K_VFS_MAX_FDS) [0..<M4K_VFS_MAX_FDS])")
  case None
  then have "\<forall>i \<in> {..<1024}. \<not> (\<not> i < m \<and> \<not> fd_used (fd_table s ! i))"
    unfolding scan_all[OF assms, symmetric] find_None_iff by blast
  moreover have "vfs_alloc_fd m s = (-1, s)" by (simp only: vfs_alloc_fd_def None option.case)
  ultimately show ?thesis using full by (auto simp: not_less)
next
  case (Some i)
  then have "i \<in> {..<1024}" "m \<le> i" "\<not> fd_used (fd_table s ! i)"
    unfolding scan_all[OF assms, symmetric] using set_find[OF Some] by auto
  moreover have "vfs_alloc_fd m s = (int i, s\<lparr>u32FdSearchStart := (i + 1) mod 1024\<rparr>)"
    by (simp only: vfs_alloc_fd_def Some option.case) (simp add: vfs_consts)
  ultimately show ?thesis using slot[of i] by simp
qed

lemma find_file_bound: "mkrn_vfs_find_file nm s = Some i \<Longrightarrow> i < 128"
  by (auto simp: mkrn_vfs_find_file_def vfs_consts dest!: set_find split: option.splits if_splits)

lemma create_file_ok:
  assumes "vfs_ok s" "mkrn_vfs_create_file nm ft s = (r, s')"
  shows "vfs_ok s' \<and> (\<forall>i. r = Some i \<longrightarrow> i < 128 \<and> i \<noteq> 0 \<and> fd_table s' = fd_table s \<and>
    fe_type (file_table s' ! i) = ft \<and> fe_size (file_table s' ! i) = 0)"
proof (cases "\<exists>p. nm = Some p \<and> bVfsInitialized s \<and> mkrn_vfs_find_file (Some (skip_slash p)) s = None \<and>
    find (\<lambda>i. \<not> fe_in_use (file_table s ! i)) [1..<M4K_VFS_MAX_FILES] \<noteq> None")
  case True
  then obtain p i where i: "nm = Some p" "mkrn_vfs_find_file (Some (skip_slash p)) s = None"
    "find (\<lambda>i. \<not> fe_in_use (file_table s ! i)) [1..<M4K_VFS_MAX_FILES] = Some i" by blast
  have s': "r = Some i" "s' = s\<lparr>file_table := (file_table s)[i :=
                   \<lparr>fe_name = (strncpy_arr (fe_name (file_table s ! i)) (skip_slash p) (M4K_VFS_MAX_FILENAME - 1))
                       [M4K_VFS_MAX_FILENAME - 1 := 0],
                    fe_type = ft, fe_data = None, fe_size = 0, fe_capacity = 0, fe_in_use = True\<rparr>]\<rparr>"
    using assms(2) vfs_okD(1)[OF assms(1)] i by (simp_all add: mkrn_vfs_create_file_def Let_def)
  have b: "i < 128" "i \<noteq> 0" using set_find[OF i(3)] by (auto simp: M4K_VFS_MAX_FILES_def)
  have "length (fe_name (file_table s ! i)) = 128" using vfs_okD(7)[OF assms(1) b(1)] by (simp add: file_ok_def)
  then have "file_ok (file_table s' ! i)" using b vfs_okD(2)[OF assms(1)] by (simp add: s' file_ok_def strncpy_arr_def vfs_consts)
  then show ?thesis using vfs_ok_file[OF assms(1), of "file_table s' ! i" i] b vfs_okD(2)[OF assms(1)] by (simp add: s')
next
  case False
  then have "s' = s \<and> r = None"
    using assms(2) by (cases nm) (auto simp: mkrn_vfs_create_file_def Let_def split: if_splits)
  then show ?thesis using assms(1) by simp
qed

lemma delete_file_ok: "vfs_ok s \<Longrightarrow> mkrn_vfs_delete_file hk nm s = (r, s') \<Longrightarrow> vfs_ok s'"
  by (auto simp: mkrn_vfs_delete_file_def split: option.splits intro: vfs_ok_file_env)

lemma pipe_create_ok: "vfs_ok s \<Longrightarrow> mkrn_vfs_pipe s = (r, fds, s') \<Longrightarrow> vfs_ok s'"
proof -
  assume ok: "vfs_ok s" and r: "mkrn_vfs_pipe s = (r, fds, s')"
  have fresh: "pipe_ok (pipe_zero\<lparr>pb_in_use := True\<rparr>)" by (simp add: pipe_ok_def pipe_inv_def pipe_zero_def PIPE_BUF_SIZE_def)
  have desc: "fd_ok (pipe_end i pi fl)" for i pi fl by (simp add: fd_ok_def pipe_end_def)
  consider "s' = s" | pi s3 where "vfs_ok s3" "pipe_buffers s3 = (pipe_buffers s)[pi := pipe_zero\<lparr>pb_in_use := True\<rparr>]"
      "pi < 32" "s' = s3\<lparr>pipe_buffers := (pipe_buffers s3)[pi := (pipe_buffers s3 ! pi)\<lparr>pb_in_use := False\<rparr>]\<rparr>"
    | s3 rfd wfd pi where "vfs_ok s3" "s' = s3\<lparr>fd_table := (fd_table s3)
         [nat rfd := pipe_end (nat rfd) pi M4K_O_RDONLY, nat wfd := pipe_end (nat wfd) pi M4K_O_WRONLY]\<rparr>"
  proof (cases "find (\<lambda>i. \<not> pb_in_use (pipe_buffers s ! i)) [0..<MAX_PIPES]")
    case None
    then show ?thesis using r that(1) by (simp add: mkrn_vfs_pipe_def)
  next
    case (Some pi)
    define s1 where "s1 = s\<lparr>pipe_buffers := (pipe_buffers s)[pi := pipe_zero\<lparr>pb_in_use := True\<rparr>]\<rparr>"
    obtain rfd s2 where a: "vfs_alloc_fd 3 s1 = (rfd, s2)" by fastforce
    obtain wfd s3 where b: "(if 0 \<le> rfd then vfs_alloc_fd 3 s2 else (-1, s2)) = (wfd, s3)" by fastforce
    have "vfs_ok s1" using vfs_ok_pipe[OF ok fresh] by (simp add: s1_def)
    then have "vfs_ok s3" using a b by (auto dest: alloc_fd_ok split: if_splits)
    moreover have "pipe_buffers s3 = pipe_buffers s1"
      using a b by (auto simp: vfs_alloc_fd_def split: option.splits if_splits)
    moreover have "pi < 32" using set_find[OF Some] by (simp add: vfs_consts)
    ultimately show ?thesis using r Some a b that(2)[of s3 pi] that(3)[of s3 rfd pi wfd]
      by (auto simp: mkrn_vfs_pipe_def Let_def s1_def split: if_splits)
  qed
  then show "vfs_ok s'"
  proof cases
    case 2
    then have "pipe_ok ((pipe_buffers s3 ! pi)\<lparr>pb_in_use := False\<rparr>)"
      using vfs_okD(4)[OF ok] by (simp add: pipe_ok_def pipe_inv_def pipe_zero_def PIPE_BUF_SIZE_def)
    then show ?thesis using vfs_ok_pipe[OF 2(1)] 2(4) by simp
  next
    case 3
    then show ?thesis using vfs_ok_fd[OF vfs_ok_fd[OF 3(1) desc[of "nat rfd" pi M4K_O_RDONLY], of "nat rfd"]
      desc[of "nat wfd" pi M4K_O_WRONLY], of "nat wfd"] by simp
  qed (use ok in simp)
qed

lemma pipe_of_bound: "pipe_of e s = Some pi \<Longrightarrow> pi < 32 \<and> pb_in_use (pipe_buffers s ! pi)"
  by (auto simp: pipe_of_def Let_def vfs_consts split: if_splits)

lemma close_desc_ok: "vfs_ok s \<Longrightarrow> vfs_ok (close_desc i s)"
proof -
  assume ok: "vfs_ok s"
  have "pipe_ok (close_pipe_end (fd_table s ! i) (pipe_buffers s ! pi))" if "pipe_of (fd_table s ! i) s = Some pi" for pi
    using vfs_okD(9)[OF ok, of pi] pipe_of_bound[OF that]
    by (auto simp: close_pipe_end_def Let_def pipe_ok_def pipe_inv_def pipe_zero_def PIPE_BUF_SIZE_def)
  then show ?thesis
    using ok by (auto simp: close_desc_def Let_def vfs_ok_pipe_fd vfs_ok_fd split: option.splits)
qed

lemma close_desc_other: "j \<noteq> i \<Longrightarrow> fd_table (close_desc i s) ! j = fd_table s ! j"
  by (auto simp: close_desc_def Let_def split: option.splits)

lemma close_ok: "vfs_ok s \<Longrightarrow> mkrn_vfs_close hk n s = (r, s') \<Longrightarrow> vfs_ok s'"
  by (auto simp: mkrn_vfs_close_def close_desc_ok split: if_splits option.splits prod.splits)

lemma close_other:
  "j \<noteq> nat n \<Longrightarrow> fd_table (snd (mkrn_vfs_close hk n s)) ! j = fd_table s ! j"
  by (auto simp: mkrn_vfs_close_def close_desc_other split: if_splits option.splits prod.splits)

lemma dup2_ok: "vfs_ok s \<Longrightarrow> mkrn_vfs_dup2 hk a b s = (r, s') \<Longrightarrow> vfs_ok s'"
proof -
  assume ok: "vfs_ok s" and r: "mkrn_vfs_dup2 hk a b s = (r, s')"
  define s1 where "s1 = (if fd_used (fd_table s ! nat b) then snd (mkrn_vfs_close hk b s) else s)"
  have s1: "vfs_ok s1" using ok close_ok by (metis prod.collapse s1_def)
  have "fd_ok (e\<lparr>fd_fd := b\<rparr>)" if "fd_used e" "fd_ok e" for e using that by (simp add: fd_ok_def)
  moreover have "fd_table s1 ! nat a = fd_table s ! nat a" if "\<not> bad_fd a" "\<not> bad_fd b" "a \<noteq> b"
    using that close_other[of "nat a" b hk s] by (auto simp: s1_def bad_fd_def)
  moreover have "fd_ok (fd_table s ! nat a)" if "\<not> bad_fd a"
    using that vfs_okD(8)[OF ok, of "nat a"] by (simp add: bad_fd_def vfs_consts nat_less_iff)
  ultimately show ?thesis using r ok s1
    by (auto simp: mkrn_vfs_dup2_def Let_def simp flip: s1_def split: if_splits intro!: vfs_ok_fd)
qed

section \<open>Files of the table\<close>

definition file_bytes :: "mkrn_file_ent \<Rightarrow> u8 list" where
  "file_bytes e = (case fe_data e of None \<Rightarrow> [] | Some (a, b) \<Rightarrow> take (unat (fe_size e)) b)"

text \<open>Bytes stored at an offset of a file: the gap up to the offset is zero.\<close>

definition overwrite :: "u8 list \<Rightarrow> nat \<Rightarrow> u8 list \<Rightarrow> u8 list" where
  "overwrite old off buf = take off (old @ replicate (off - length old) 0) @ buf @ drop (off + length buf) old"

lemma grow_cap_ge: "grow_cap n c = Some c' \<Longrightarrow> n \<le> c'"
  by (erule grow_cap.raw_induct[rotated]) (auto split: if_splits)

lemma length_blit: "off + length xs \<le> length b \<Longrightarrow> length (blit b off xs) = length b"
  by (simp add: blit_def)

lemma file_okD:
  assumes "file_ok e" "fe_data e = Some (a, b)"
  shows "length b = unat (fe_capacity e)" "unat (fe_size e) \<le> length b" "drop (unat (fe_size e)) b = replicate (length b - unat (fe_size e)) 0"
  using assms by (auto simp: file_ok_def word_le_nat_alt intro!: replicate_eqI)

lemma grow_data_ok:
  assumes "alloc_ok hk" "file_ok e" "grow_data hk e n h = Some (Some e', h')"
  shows "file_ok e' \<and> n \<le> fe_capacity e' \<and> file_bytes e' = file_bytes e \<and>
    fe_size e' = fe_size e \<and> fe_type e' = fe_type e \<and> fe_name e' = fe_name e \<and> fe_in_use e' = fe_in_use e"
proof (cases "fe_capacity e < n")
  case False
  then show ?thesis using assms by (simp add: grow_data_def)
next
  case True
  then obtain cap where cap: "grow_cap n (if fe_capacity e \<noteq> 0 then fe_capacity e * 2 else 4096) = Some cap"
    using assms(3) by (auto simp: grow_data_def bind_eq_Some_conv simp del: not_None_eq)
  obtain a fresh h1 where al: "hk_alloc hk cap h = (Some (a, fresh), h1)"
    using assms(3) True cap by (cases "hk_alloc hk cap h") (auto simp: grow_data_def split: option.splits)
  define k where "k = unat (fe_size e)"
  define copied where "copied = (case fe_data e of None \<Rightarrow> fresh | Some (b, old) \<Rightarrow> blit fresh 0 (take k old))"
  define data where "data = blit copied k (replicate (unat (cap - fe_size e)) 0)"
  have e': "e' = e\<lparr>fe_data := Some (a, data), fe_capacity := cap\<rparr>"
    using assms(3) True cap al
    by (auto simp: grow_data_def Let_def data_def copied_def k_def split: option.splits prod.splits)
  have len: "length fresh = unat cap" using assms(1) al unfolding alloc_ok_def by blast
  have n: "n \<le> cap" by (rule grow_cap_ge[OF cap])
  have size_cap: "fe_size e \<le> fe_capacity e" using assms(2) by (auto simp: file_ok_def split: option.splits)
  then have le: "fe_size e \<le> cap" using n True by simp
  then have k: "k \<le> unat cap" "unat (cap - fe_size e) = unat cap - k" by (auto simp: k_def word_le_nat_alt unat_sub)
  have copied: "length copied = unat cap" "take k copied = file_bytes e"
    using assms(2) len k file_okD(2)[OF assms(2)]
    by (auto simp: copied_def file_bytes_def k_def file_ok_def blit_def split: option.splits)
  have data: "data = file_bytes e @ replicate (unat cap - k) 0"
    using copied k by (simp add: data_def blit_def)
  have "length (file_bytes e) = k"
    using assms(2) file_okD(2)[OF assms(2)] by (auto simp: file_bytes_def k_def file_ok_def split: option.splits)
  then show ?thesis using assms(2) n le k
    by (auto simp: e' file_ok_def file_bytes_def data simp flip: k_def)
qed

definition stored :: "mkrn_file_ent \<Rightarrow> u32 \<Rightarrow> u8 list \<Rightarrow> mkrn_file_ent" where
  "stored e off buf =
     (let e1 = store_bytes e (unat off) buf; new = off + of_nat (length buf)
      in if fe_size e1 < new then e1\<lparr>fe_size := new\<rparr> else e1)"

lemma stored_ok:
  assumes "file_ok e" "unat off + length buf \<le> unat (fe_capacity e)"
  shows "file_ok (stored e off buf) \<and> file_bytes (stored e off buf) = overwrite (file_bytes e) (unat off) buf \<and>
    fe_type (stored e off buf) = fe_type e \<and> fe_name (stored e off buf) = fe_name e \<and>
    fe_in_use (stored e off buf) = fe_in_use e"
proof (cases "fe_data e")
  case None
  then have z: "fe_size e = 0" "fe_capacity e = 0" using assms(1) by (auto simp: file_ok_def)
  then have "off = 0" "buf = []" using assms(2) by (auto simp: unsigned_eq_0_iff)
  then show ?thesis using None assms(1) z by (simp add: stored_def store_bytes_def file_bytes_def overwrite_def Let_def)
next
  case (Some ab)
  then obtain a b where ab: "fe_data e = Some (a, b)" by (cases ab) auto
  let ?o = "unat off" and ?k = "unat (fe_size e)"
  note b = file_okD[OF assms(1) ab]
  have fit: "?o + length buf \<le> length b" using assms(2) b(1) by simp
  have new: "unat (off + of_nat (length buf)) = ?o + length buf"
  proof -
    have "?o + length buf < 2 ^ 32" using assms(2) unsigned_less[of "fe_capacity e", where ?'a = nat] by simp
    then show ?thesis by (simp add: unat_plus_if' unsigned_of_nat take_bit_nat_eq_self)
  qed
  define m where "m = max ?k (?o + length buf)"
  have st: "stored e off buf = e\<lparr>fe_data := Some (a, blit b ?o buf), fe_size := of_nat m\<rparr>"
    using new by (auto simp: stored_def store_bytes_def ab Let_def m_def word_less_nat_alt max_def)
  have m: "m \<le> length b" "unat (of_nat m :: u32) = m"
  proof -
    show "m \<le> length b" using fit b(2) by (simp add: m_def)
    then have "m < 2 ^ 32" using b(1) unsigned_less[of "fe_capacity e", where ?'a = nat] by simp
    then show "unat (of_nat m :: u32) = m" by (simp add: unsigned_of_nat take_bit_nat_eq_self)
  qed
  have split: "b = file_bytes e @ replicate (length b - ?k) 0"
    using b(3) append_take_drop_id[of ?k b] by (simp add: file_bytes_def ab)
  have tail: "drop m (blit b ?o buf) = replicate (length b - m) 0"
  proof -
    have "drop m (blit b ?o buf) = drop m b" using fit by (simp add: blit_def m_def drop_append)
    also have "\<dots> = drop (m - ?k) (drop ?k b)" by (simp add: m_def)
    finally show ?thesis using b(3) by (simp add: m_def)
  qed
  have "file_ok (stored e off buf)"
    using assms(1) m tail b(1) fit
    by (auto simp: file_ok_def st ab length_blit word_le_nat_alt)
  moreover have "file_bytes (stored e off buf) = overwrite (file_bytes e) ?o buf"
  proof -
    have l: "length (file_bytes e) = ?k" using b(2) by (simp add: file_bytes_def ab)
    have "take ?o b = take ?o (file_bytes e @ replicate (?o - ?k) 0)"
      using arg_cong[OF split, of "take ?o"] fit l by (cases "?o \<le> ?k") (simp_all add: min_def)
    moreover have "take (m - (?o + length buf)) (drop (?o + length buf) b) = drop (?o + length buf) (file_bytes e)"
      using arg_cong[OF split, of "\<lambda>b. take (m - (?o + length buf)) (drop (?o + length buf) b)"] l
      by (auto simp: m_def max_def)
    moreover have "take m (blit b ?o buf) = take ?o b @ buf @ take (m - (?o + length buf)) (drop (?o + length buf) b)"
      using fit by (simp add: blit_def m_def)
    moreover have "file_bytes (stored e off buf) = take m (blit b ?o buf)" using m(2) by (simp add: file_bytes_def st)
    ultimately show ?thesis using l by (simp add: overwrite_def)
  qed
  ultimately show ?thesis by (simp add: st)
qed

lemma write_ramfs_cases:
  assumes "write_ramfs hk i f buf s = Some (r, s')"
  obtains (refused) "s' = s" "r = -1"
  | (no_memory) h where "s' = s\<lparr>v_env := h\<rparr>" "r = -1"
  | (written) e1 h where "fe_type (file_table s ! f) = M4K_FILE_REGULAR"
      "fd_offset (fd_table s ! i) \<le> - 1 - of_nat (length buf)"
      "grow_data hk (file_table s ! f) (fd_offset (fd_table s ! i) + of_nat (length buf)) (v_env s) = Some (Some e1, h)"
      "r = ret_count (length buf)"
      "s' = set_offset i (fd_offset (fd_table s ! i) + of_nat (length buf))
         (s\<lparr>v_env := h, file_table := (file_table s)[f := stored e1 (fd_offset (fd_table s ! i)) buf]\<rparr>)"
proof -
  let ?off = "fd_offset (fd_table s ! i)" and ?e = "file_table s ! f" and ?len = "of_nat (length buf)"
  consider "fe_type ?e \<noteq> M4K_FILE_REGULAR \<or> - 1 - ?len < ?off" | "fe_type ?e = M4K_FILE_REGULAR" "\<not> - 1 - ?len < ?off"
    by blast
  then show ?thesis
  proof cases
    case 1
    then have "write_ramfs hk i f buf s = Some (-1, s)" by (auto simp: write_ramfs_def Let_def)
    then show ?thesis using assms refused by simp
  next
    case 2
    obtain g h where g: "grow_data hk ?e (?off + ?len) (v_env s) = Some (g, h)"
    proof -
      have "grow_data hk ?e (?off + ?len) (v_env s) \<noteq> None"
      proof
        assume "grow_data hk ?e (?off + ?len) (v_env s) = None"
        then show False using assms 2 by (simp add: write_ramfs_def Let_def)
      qed
      then show ?thesis using that by force
    qed
    then show ?thesis
    proof (cases g)
      case None
      then show ?thesis using assms 2 g no_memory[of h] by (simp add: write_ramfs_def Let_def)
    next
      case (Some e1)
      then have "write_ramfs hk i f buf s = Some (ret_count (length buf), set_offset i (?off + ?len)
         (s\<lparr>v_env := h, file_table := (file_table s)[f := stored e1 ?off buf]\<rparr>))"
        using 2 g by (simp add: write_ramfs_def Let_def stored_def)
      then show ?thesis using assms 2 g Some written[of e1 h] by (simp add: not_less)
    qed
  qed
qed

lemma no_wrap:
  fixes off :: u32
  assumes "off \<le> - 1 - of_nat k" "k < 2 ^ 32"
  shows "unat off + k < 2 ^ 32" "unat (off + of_nat k) = unat off + k"
proof -
  have "unat (- 1 - of_nat k :: u32) = 2 ^ 32 - 1 - k"
    using assms(2) by (simp add: unat_sub word_le_nat_alt unsigned_of_nat take_bit_nat_eq_self unsigned_minus_1_eq_mask mask_eq_exp_minus_1)
  then show 1: "unat off + k < 2 ^ 32" using assms by (simp add: word_le_nat_alt)
  then show "unat (off + of_nat k) = unat off + k"
    using assms(2) by (simp add: unat_plus_if' unsigned_of_nat take_bit_nat_eq_self)
qed

lemma set_offset_ok: "vfs_ok s \<Longrightarrow> fd_used (fd_table s ! i) \<Longrightarrow> vfs_ok (set_offset i off s)"
proof (cases "i < 1024")
  case True
  assume "vfs_ok s" "fd_used (fd_table s ! i)"
  then show ?thesis using vfs_okD(8)[of s i] True by (auto simp: set_offset_def fd_ok_def intro!: vfs_ok_fd)
qed (auto simp: set_offset_def vfs_okD(3) list_update_beyond)

lemma write_ramfs_ok:
  assumes "alloc_ok hk" "vfs_ok s" "fd_used (fd_table s ! i)" "f < 128" "length buf < 2 ^ 32"
    "write_ramfs hk i f buf s = Some (r, s')"
  shows "vfs_ok s'"
  using assms(6)
proof (cases rule: write_ramfs_cases)
  case (written e1 h)
  have g: "file_ok e1" "fd_offset (fd_table s ! i) + of_nat (length buf) \<le> fe_capacity e1" "fe_type e1 = M4K_FILE_REGULAR"
    using grow_data_ok[OF assms(1) vfs_okD(7)[OF assms(2,4)] written(3)] written(1) by auto
  have "unat (fd_offset (fd_table s ! i)) + length buf \<le> unat (fe_capacity e1)"
    using g(2) no_wrap(2)[OF written(2) assms(5)] by (simp add: word_le_nat_alt)
  then have "file_ok (stored e1 (fd_offset (fd_table s ! i)) buf)" using stored_ok[OF g(1)] by simp
  moreover have "f \<noteq> 0" using written(1) assms(2) unfolding vfs_ok_def by metis
  ultimately show ?thesis unfolding written(5)
    using assms(2,3) by (intro set_offset_ok vfs_ok_file_env) simp_all
qed (use assms in simp_all)

section \<open>Every operation keeps the invariant\<close>

lemma fd_file_bound: "vfs_ok s \<Longrightarrow> i < 1024 \<Longrightarrow> fd_used (fd_table s ! i) \<Longrightarrow> fd_file (fd_table s ! i) = Some f \<Longrightarrow> f < 128"
  using vfs_okD(8)[of s i] by (auto simp: fd_ok_def)

lemma good_fd: "\<not> bad_fd n \<Longrightarrow> nat n < 1024"
  by (simp add: bad_fd_def vfs_consts nat_less_iff)

lemma pipe_flags_ok: "pipe_inv pb' \<Longrightarrow> pipe_flags pb' = pipe_flags pb \<Longrightarrow> pb_in_use pb \<Longrightarrow> pipe_ok pb'"
  by (simp add: pipe_ok_def pipe_flags_def)

lemma read_pipe_ok: "vfs_ok s \<Longrightarrow> read_pipe e n s = Some (r, s') \<Longrightarrow> vfs_ok s'"
proof -
  assume ok: "vfs_ok s" and r: "read_pipe e n s = Some (r, s')"
  show "vfs_ok s'"
  proof (cases "pipe_of e s")
    case (Some pi)
    have "pipe_inv (pipe_buffers s ! pi)" using vfs_okD(9)[OF ok] pipe_of_bound[OF Some] by (simp add: pipe_ok_def)
    from pipe_read_ok[OF this, of n "[]"] obtain pb' where pb': "pipe_read_loop n [] (pipe_buffers s ! pi) = Some (take n (pipe_contents (pipe_buffers s ! pi)), pb')"
      "pipe_inv pb'" "pipe_flags pb' = pipe_flags (pipe_buffers s ! pi)" by auto
    then have "pipe_ok pb'" using pipe_flags_ok pipe_of_bound[OF Some] by blast
    then show ?thesis using r Some pb'(1) ok vfs_ok_pipe by (auto simp: read_pipe_def split: if_splits)
  qed (use ok r in \<open>simp add: read_pipe_def\<close>)
qed

lemma write_pipe_ok: "vfs_ok s \<Longrightarrow> write_pipe e buf s = Some (r, s') \<Longrightarrow> vfs_ok s'"
proof -
  assume ok: "vfs_ok s" and r: "write_pipe e buf s = Some (r, s')"
  show "vfs_ok s'"
  proof (cases "pipe_of e s")
    case (Some pi)
    have "pipe_inv (pipe_buffers s ! pi)" using vfs_okD(9)[OF ok] pipe_of_bound[OF Some] by (simp add: pipe_ok_def)
    from pipe_write_ok[OF this, of 0 buf] obtain k pb' where pb': "pipe_write_loop buf 0 (pipe_buffers s ! pi) = Some (k, pb')"
      "pipe_inv pb'" "pipe_flags pb' = pipe_flags (pipe_buffers s ! pi)" by auto
    then have "pipe_ok pb'" using pipe_flags_ok pipe_of_bound[OF Some] by blast
    then show ?thesis using r Some pb'(1) ok vfs_ok_pipe by (auto simp: write_pipe_def split: if_splits)
  qed (use ok r in \<open>simp add: write_pipe_def\<close>)
qed

lemma read_ok:
  assumes "vfs_ok s" "mkrn_vfs_read hk n want s = Some (r, s')"
  shows "vfs_ok s'"
proof (cases "bad_fd n")
  case False
  let ?i = "nat n"
  have y: "vfs_ok s2" if "fd_used (fd_table s ! ?i)" "read_yafs ?i want s = Some (x, s2)" for x s2
    using that assms(1) by (auto simp: read_yafs_def Let_def bind_eq_Some_conv split: if_splits intro: set_offset_ok)
  have f: "vfs_ok s2" if "fd_used (fd_table s ! ?i)" "read_ramfs ?i g k s = (x, s2)" for g k x s2
    using that assms(1) by (auto simp: read_ramfs_def Let_def split: if_splits intro: set_offset_ok)
  show ?thesis
    using assms False
    by (auto simp: mkrn_vfs_read_def Let_def read_pipe_ok y f split: if_splits option.splits prod.splits)
qed (use assms in \<open>simp add: mkrn_vfs_read_def\<close>)

lemma write_ok:
  assumes "alloc_ok hk" "vfs_ok s" "length buf < 2 ^ 32" "mkrn_vfs_write hk n buf s = Some (r, s')"
  shows "vfs_ok s'"
proof (cases "bad_fd n")
  case False
  let ?i = "nat n"
  have y: "vfs_ok s2" if "fd_used (fd_table s ! ?i)" "write_yafs ?i buf s = Some (x, s2)" for x s2
    using that assms(2) by (auto simp: write_yafs_def Let_def bind_eq_Some_conv split: if_splits intro!: set_offset_ok)
  have f: "vfs_ok s2" if "fd_used (fd_table s ! ?i)" "fd_file (fd_table s ! ?i) = Some g" "write_ramfs hk ?i g buf s = Some (x, s2)" for g x s2
    using write_ramfs_ok[OF assms(1,2) that(1) fd_file_bound[OF assms(2) good_fd[OF False] that(1,2)] assms(3) that(3)] .
  show ?thesis
    using assms(2,4) False
    by (auto simp: mkrn_vfs_write_def Let_def write_pipe_ok y f split: if_splits option.splits prod.splits)
qed (use assms in \<open>simp add: mkrn_vfs_write_def\<close>)

lemma lseek_ok: "vfs_ok s \<Longrightarrow> mkrn_vfs_lseek hk n off wh s = (r, s') \<Longrightarrow> vfs_ok s'"
  by (auto simp: mkrn_vfs_lseek_def lseek_yafs_def lseek_ramfs_def Let_def
      split: if_splits option.splits prod.splits intro: set_offset_ok)

lemma open_desc_ok: "vfs_ok s \<Longrightarrow> f < 128 \<Longrightarrow> open_desc f off fl ino s = (r, s') \<Longrightarrow> vfs_ok s'"
  by (auto simp: open_desc_def fd_ok_def dest: alloc_fd_ok split: prod.splits if_splits intro!: vfs_ok_fd)

lemma create_file_yafs_ok: "vfs_ok s \<Longrightarrow> mkrn_vfs_create_file_yafs p s = Some (r, s') \<Longrightarrow> vfs_ok s'"
  by (auto simp: mkrn_vfs_create_file_yafs_def with_tree_def Let_def bind_eq_Some_conv split: option.splits if_splits prod.splits)

lemma vfs_mkdir_ok: "vfs_ok s \<Longrightarrow> mkrn_vfs_mkdir p s = Some (r, s') \<Longrightarrow> vfs_ok s'"
  by (auto simp: mkrn_vfs_mkdir_def Let_def bind_eq_Some_conv split: option.splits if_splits prod.splits)

lemma vfs_unlink_ok: "vfs_ok s \<Longrightarrow> mkrn_vfs_unlink p s = Some (r, s') \<Longrightarrow> vfs_ok s'"
  by (auto simp: mkrn_vfs_unlink_def with_tree_def bind_eq_Some_conv split: option.splits if_splits prod.splits)

lemma vfs_rename_ok: "vfs_ok s \<Longrightarrow> mkrn_vfs_rename p q s = Some (r, s') \<Longrightarrow> vfs_ok s'"
  by (auto simp: mkrn_vfs_rename_def with_tree_def bind_eq_Some_conv split: option.splits if_splits prod.splits)

lemma chmod_ok: "vfs_ok s \<Longrightarrow> mkrn_vfs_chmod cur p m s = Some (r, s') \<Longrightarrow> vfs_ok s'"
  by (cases "mkrn_yafs_lookup_path p (root_yafs s)"; cases "read_inode_raw (the (mkrn_yafs_lookup_path p (root_yafs s))) (root_yafs s)")
    (auto simp: mkrn_vfs_chmod_def with_tree_def split: if_splits)

lemma chown_ok: "vfs_ok s \<Longrightarrow> mkrn_vfs_chown cur p u g s = Some (r, s') \<Longrightarrow> vfs_ok s'"
  by (cases "mkrn_yafs_lookup_path p (root_yafs s)"; cases "read_inode_raw (the (mkrn_yafs_lookup_path p (root_yafs s))) (root_yafs s)")
    (auto simp: mkrn_vfs_chown_def with_tree_def split: if_splits)

lemma getdents_ok: "vfs_ok s \<Longrightarrow> mkrn_vfs_getdents hk n k s = Some (r, s') \<Longrightarrow> vfs_ok s'"
  by (auto simp: mkrn_vfs_getdents_def Let_def split: option.splits if_splits prod.splits)

lemma find_or_create_ok: "vfs_ok s \<Longrightarrow> find_or_create p fl s = Some (ino, s') \<Longrightarrow> vfs_ok s'"
  by (auto simp: find_or_create_def bind_eq_Some_conv dest: create_file_yafs_ok split: if_splits)

lemma open_inode_ok: "vfs_ok s \<Longrightarrow> open_inode ino fl s = (r, s') \<Longrightarrow> vfs_ok s'"
  by (auto simp: open_inode_def Let_def split: prod.splits if_splits dest!: open_desc_ok[rotated 2])

lemma open_yafs_ok: "vfs_ok s \<Longrightarrow> open_yafs p fl s = Some (r, s') \<Longrightarrow> vfs_ok s'"
  by (auto simp: open_yafs_def bind_eq_Some_conv dest: find_or_create_ok open_inode_ok[rotated] split: if_splits)

lemma open_ramfs_ok: "vfs_ok s \<Longrightarrow> open_ramfs hk p fl s = (r, s') \<Longrightarrow> vfs_ok s'"
proof -
  assume ok: "vfs_ok s" and r: "open_ramfs hk p fl s = (r, s')"
  define fs1 where "fs1 = (case mkrn_vfs_find_file (Some p) s of
               Some i \<Rightarrow> (Some i, s)
             | None \<Rightarrow>
                 if fl AND M4K_O_CREAT \<noteq> 0 then mkrn_vfs_create_file (Some p) M4K_FILE_REGULAR s
                 else (None, s))"
  obtain fi s1 where fs1: "fs1 = (fi, s1)" by fastforce
  have s1: "vfs_ok s1" "\<And>i. fi = Some i \<Longrightarrow> i < 128"
    using fs1 ok find_file_bound create_file_ok[OF ok] by (auto simp: fs1_def split: option.splits if_splits)
  show "vfs_ok s'"
  proof (cases fi)
    case None
    then show ?thesis using r s1 fs1 unfolding open_ramfs_def fs1_def[symmetric] by simp
  next
    case (Some i)
    let ?e = "(file_table s1 ! i)\<lparr>fe_data := None, fe_size := 0, fe_capacity := 0\<rparr>"
    define s2 where "s2 = (if fl AND M4K_O_TRUNC \<noteq> 0
                       then s1\<lparr>v_env := free_data hk (file_table s1 ! i) (v_env s1),
                               file_table := (file_table s1)[i := ?e]\<rparr>
                       else s1)"
    have i: "i < 128" by (rule s1(2)[OF Some])
    have "file_ok ?e" using vfs_okD(7)[OF s1(1) i] by (simp add: file_ok_def)
    moreover have "i \<noteq> 0 \<or> fe_type ?e \<noteq> M4K_FILE_REGULAR" using s1(1) by (auto simp: vfs_ok_def)
    ultimately have "vfs_ok s2" unfolding s2_def using s1(1) by (simp only: vfs_ok_file_env split: if_split) simp
    moreover have "\<exists>off. open_desc i off fl 0 s2 = (r, s')"
      using r Some unfolding open_ramfs_def fs1_def[symmetric] fs1 by (auto simp: Let_def simp flip: s2_def)
    ultimately show ?thesis using open_desc_ok[OF _ i] by blast
  qed
qed

lemma open_ok: "vfs_ok s \<Longrightarrow> mkrn_vfs_open hk cur p fl s = Some (r, s') \<Longrightarrow> vfs_ok s'"
  by (auto simp: mkrn_vfs_open_def open_pseudo_def split: option.splits if_splits prod.splits
      intro: open_yafs_ok open_ramfs_ok)

lemma filter_update:
  "i < length xs \<Longrightarrow> int (length (filter P (xs[i := x]))) = int (length (filter P xs)) - of_bool (P (xs ! i)) + of_bool (P x)"
  using arg_cong[OF id_take_nth_drop[of i xs], of "\<lambda>ys. int (length (filter P ys))"]
  by (simp add: upd_conv_take_nth_drop split: if_splits)

lemma vfs_ok_mount:
  "vfs_ok s \<Longrightarrow> mount_ok e \<Longrightarrow> i < 16 \<Longrightarrow>
   vfs_ok (s\<lparr>mount_table := (mount_table s)[i := e],
     mount_count := mount_count s - of_bool (me_mounted (mount_table s ! i)) + of_bool (me_mounted e)\<rparr>)"
  by (simp add: vfs_ok_def list_all_update filter_update)

lemma mount_zero_ok [simp]: "mount_ok mount_zero" "\<not> me_mounted mount_zero"
  by (simp_all add: mount_ok_def mount_zero_def vfs_consts)

lemma umount_ok: "vfs_ok s \<Longrightarrow> mkrn_vfs_umount tg s = (r, s') \<Longrightarrow> vfs_ok s'"
proof -
  assume ok: "vfs_ok s" and r: "mkrn_vfs_umount tg s = (r, s')"
  have "vfs_ok (s\<lparr>mount_table := (mount_table s)[i := mount_zero], mount_count := mount_count s - 1\<rparr>)"
    if "me_mounted (mount_table s ! i)" "i < 16" for i
    using vfs_ok_mount[OF ok _ that(2), of mount_zero] that(1) by simp
  then show "vfs_ok s'"
    using ok r by (auto simp: mkrn_vfs_umount_def M4K_VFS_MAX_MOUNTS_def split: option.splits dest!: set_find)
qed

lemma copy_field_length: "n < length a \<Longrightarrow> length (copy_field a p n) = length a"
  by (simp add: copy_field_def strncpy_arr_def)

lemma mount_ok_step:
  assumes "vfs_ok s" "mkrn_vfs_mount a b c s = (r, s')"
  shows "vfs_ok s'"
proof (cases "s' = s")
  case False
  then obtain src tgt fty i where i: "find (\<lambda>i. \<not> me_mounted (mount_table s ! i)) [0..<M4K_VFS_MAX_MOUNTS] = Some i"
    and s': "s' = s\<lparr>mount_table := (mount_table s)[i :=
                       \<lparr>me_source = copy_field (me_source (mount_table s ! i)) src (M4K_VFS_MAX_FILENAME - 1),
                        me_target = copy_field (me_target (mount_table s ! i)) tgt (M4K_VFS_MAX_FILENAME - 1),
                        me_fstype = copy_field (me_fstype (mount_table s ! i)) fty 31, me_mounted = True\<rparr>],
                     mount_count := mount_count s + 1\<rparr>"
    using assms(2) by (auto simp: mkrn_vfs_mount_def Let_def split: option.splits)
  have b: "i < 16" "\<not> me_mounted (mount_table s ! i)" using set_find[OF i] by (auto simp: M4K_VFS_MAX_MOUNTS_def)
  then have "mount_ok (mount_table s ! i)" using assms(1) by (simp add: vfs_ok_def list_all_length)
  then have "mount_ok (mount_table s' ! i)"
    using b(1) vfs_okD(5)[OF assms(1)] by (simp add: s' mount_ok_def copy_field_length vfs_consts)
  then show ?thesis
    using vfs_ok_mount[OF assms(1) _ b(1), of "mount_table s' ! i"] b vfs_okD(5)[OF assms(1)] by (simp add: s')
qed (use assms in simp)

section \<open>Reachable states\<close>

inductive vfs_step :: "'h vfs_hooks \<Rightarrow> 'h vfs \<Rightarrow> 'h vfs \<Rightarrow> bool" for hk where
  s_open: "mkrn_vfs_open hk cur p fl s = Some (r, s') \<Longrightarrow> vfs_step hk s s'"
| s_read: "mkrn_vfs_read hk n want s = Some (rd, s') \<Longrightarrow> vfs_step hk s s'"
| s_write: "mkrn_vfs_write hk n buf s = Some (r, s') \<Longrightarrow> length buf < 2 ^ 32 \<Longrightarrow> vfs_step hk s s'"
| s_close: "mkrn_vfs_close hk n s = (r, s') \<Longrightarrow> vfs_step hk s s'"
| s_lseek: "mkrn_vfs_lseek hk n off wh s = (r, s') \<Longrightarrow> vfs_step hk s s'"
| s_pipe: "mkrn_vfs_pipe s = (r, fds, s') \<Longrightarrow> vfs_step hk s s'"
| s_dup2: "mkrn_vfs_dup2 hk a b s = (r, s') \<Longrightarrow> vfs_step hk s s'"
| s_getdents: "mkrn_vfs_getdents hk n k s = Some (ds, s') \<Longrightarrow> vfs_step hk s s'"
| s_create: "mkrn_vfs_create_file nm ft s = (fi, s') \<Longrightarrow> vfs_step hk s s'"
| s_delete: "mkrn_vfs_delete_file hk nm s = (r, s') \<Longrightarrow> vfs_step hk s s'"
| s_create_yafs: "mkrn_vfs_create_file_yafs p s = Some (r, s') \<Longrightarrow> vfs_step hk s s'"
| s_mkdir: "mkrn_vfs_mkdir p s = Some (r, s') \<Longrightarrow> vfs_step hk s s'"
| s_unlink: "mkrn_vfs_unlink p s = Some (r, s') \<Longrightarrow> vfs_step hk s s'"
| s_rmdir: "mkrn_vfs_rmdir p s = Some (r, s') \<Longrightarrow> vfs_step hk s s'"
| s_rename: "mkrn_vfs_rename p q s = Some (r, s') \<Longrightarrow> vfs_step hk s s'"
| s_chmod: "mkrn_vfs_chmod cur p m s = Some (r, s') \<Longrightarrow> vfs_step hk s s'"
| s_chown: "mkrn_vfs_chown cur p u g s = Some (r, s') \<Longrightarrow> vfs_step hk s s'"
| s_mount: "mkrn_vfs_mount src tgt fty s = (r, s') \<Longrightarrow> vfs_step hk s s'"
| s_umount: "mkrn_vfs_umount tgt s = (r, s') \<Longrightarrow> vfs_step hk s s'"
| s_init: "mkrn_vfs_init s = (r, s') \<Longrightarrow> vfs_step hk s s'"
| s_set_root: "vfs_step hk s (mkrn_vfs_set_root_yafs lba s)"

inductive vfs_reach :: "'h vfs_hooks \<Rightarrow> 'h vfs \<Rightarrow> bool" for hk where
  reach_boot: "vfs_reach hk (snd (mkrn_vfs_init (vfs_bss t h)))"
| reach_step: "vfs_reach hk s \<Longrightarrow> vfs_step hk s s' \<Longrightarrow> vfs_reach hk s'"

lemma vfs_boot_ok: "vfs_ok (snd (mkrn_vfs_init (vfs_bss t h)))"
proof -
  have "file_ok (file_zero\<lparr>fe_name := 47 # replicate 127 0, fe_type := M4K_FILE_DIR, fe_in_use := True\<rparr>)"
    by (simp add: file_ok_def file_zero_def)
  then have "list_all file_ok ((replicate 128 file_zero)
      [0 := file_zero\<lparr>fe_name := 47 # replicate 127 0, fe_type := M4K_FILE_DIR, fe_in_use := True\<rparr>])"
    by (intro list_all_update) (simp_all add: list_all_iff)
  moreover have "filter me_mounted (replicate 16 mount_zero) = []" by (simp add: filter_empty_conv)
  ultimately show ?thesis
    by (simp add: mkrn_vfs_init_def vfs_bss_def vfs_ok_def vfs_consts list_all_iff)
qed

lemma init_ok: "vfs_ok s \<Longrightarrow> mkrn_vfs_init s = (r, s') \<Longrightarrow> vfs_ok s'"
  by (simp add: mkrn_vfs_init_def vfs_okD(1))

lemma vfs_step_ok:
  assumes "vfs_step hk s s'" "alloc_ok hk" "vfs_ok s"
  shows "vfs_ok s'"
  using assms(1)
proof cases
  case s_open
  then show ?thesis using open_ok assms(3) by blast
next
  case s_read
  then show ?thesis using read_ok assms(3) by blast
next
  case s_write
  then show ?thesis using write_ok assms(2) assms(3) by blast
next
  case s_close
  then show ?thesis using close_ok assms(3) by blast
next
  case s_lseek
  then show ?thesis using lseek_ok assms(3) by blast
next
  case s_pipe
  then show ?thesis using pipe_create_ok assms(3) by blast
next
  case s_dup2
  then show ?thesis using dup2_ok assms(3) by blast
next
  case s_getdents
  then show ?thesis using getdents_ok assms(3) by blast
next
  case s_create
  then show ?thesis using create_file_ok assms(3) by blast
next
  case s_delete
  then show ?thesis using delete_file_ok assms(3) by blast
next
  case s_create_yafs
  then show ?thesis using create_file_yafs_ok assms(3) by blast
next
  case s_mkdir
  then show ?thesis using vfs_mkdir_ok assms(3) by blast
next
  case s_unlink
  then show ?thesis using vfs_unlink_ok assms(3) by blast
next
  case s_rmdir
  then show ?thesis using vfs_unlink_ok[folded mkrn_vfs_rmdir_def] assms(3) by blast
next
  case s_rename
  then show ?thesis using vfs_rename_ok assms(3) by blast
next
  case s_chmod
  then show ?thesis using chmod_ok assms(3) by blast
next
  case s_chown
  then show ?thesis using chown_ok assms(3) by blast
next
  case s_mount
  then show ?thesis using mount_ok_step assms(3) by blast
next
  case s_umount
  then show ?thesis using umount_ok assms(3) by blast
next
  case s_init
  then show ?thesis using init_ok assms(3) by blast
next
  case s_set_root
  then show ?thesis using assms(3) by (simp add: mkrn_vfs_set_root_yafs_def)
qed

lemma vfs_reach_ok: "vfs_reach hk s \<Longrightarrow> alloc_ok hk \<Longrightarrow> vfs_ok s"
  by (induction rule: vfs_reach.induct) (auto intro: vfs_boot_ok vfs_step_ok)

end
