(* ===== verification/VfsSpec.thy ===== *)
theory VfsSpec
  imports VfsInv YafsDir
begin

text \<open>
  What the virtual filesystem layer promises its callers: the safety of every
  reachable state, the allocation of descriptors, the life of a pipe, files of the
  table and of YAFS read back as they were written, and the permission check
  against a table of rights.
\<close>

section \<open>Hooks for the witnesses\<close>

text \<open>A heap that always has memory, handing out zeroed buffers at increasing
  addresses, and pseudo filesystems that own no descriptor.\<close>

definition no_fs :: "u32 pseudo_fs" where
  "no_fs = \<lparr>pf_open = (\<lambda>_ _ h. ((-1, -1), h)), pf_is_fd = (\<lambda>_ _. False), pf_read = (\<lambda>_ _ h. ((-1, []), h)),
     pf_write = (\<lambda>_ _ h. (-1, h)), pf_close = (\<lambda>_ h. (-1, h)), pf_lseek = (\<lambda>_ _ _ h. (-1, h)),
     pf_getdents = (\<lambda>_ _ h. ((-1, []), h))\<rparr>"

definition plain_hooks :: "u32 vfs_hooks" where
  "plain_hooks = \<lparr>hk_procfs = no_fs, hk_sessions = no_fs, hk_device_tree = no_fs, hk_devfs = no_fs,
     hk_alloc = (\<lambda>n h. (Some (h, replicate (unat n) 0), h + n)), hk_free = (\<lambda>_ h. h)\<rparr>"

lemma plain_hooks_simps [simp]:
  "alloc_ok plain_hooks" "fd_route plain_hooks n h = None" "fst (hk_alloc plain_hooks k h) \<noteq> None"
  "pf_is_fd (hk_devfs plain_hooks) n h = False"
  by (simp_all add: alloc_ok_def fd_route_def plain_hooks_def no_fs_def)

definition vfs_boot :: "u32 vfs" where
  "vfs_boot = snd (mkrn_vfs_init (vfs_bss (0, ydev_boot) 0x1000))"

lemma vfs_boot_simps [simp]: "vfs_ok vfs_boot" "vfs_reach plain_hooks vfs_boot"
  unfolding vfs_boot_def by (rule vfs_boot_ok, rule reach_boot)

section \<open>Returned counts\<close>

lemma ret_count_small [simp]: "n < 2 ^ 31 \<Longrightarrow> ret_count n = int n"
  unfolding ret_count_def by (simp add: signed_of_nat signed_take_bit_int_eq_self)

section \<open>Permissions\<close>

text \<open>The rights of a class of users are three bits of the mode, at 6 for the owner,
  3 for the group and 0 for the others: read above write above execute, while a
  request has read at bit 0, write at 1 and execute at 2.\<close>

definition class_of :: "proc \<Rightarrow> yafs_inode_value \<Rightarrow> nat" where
  "class_of c iv =
     (if euid c = iv_uid iv then 2
      else if iv_gid iv \<in> set (take (unat (group_count c)) (group_list c)) then 1 else 0)"

definition permitted :: "proc \<Rightarrow> yafs_inode_value \<Rightarrow> u32 \<Rightarrow> bool" where
  "permitted c iv mode \<longleftrightarrow>
     (if euid c = M4K_UID_ROOT then bit mode 2 \<longrightarrow> (\<exists>k \<in> {0, 1, 2}. bit (iv_mode iv) (3 * k))
      else \<forall>q \<in> {0, 1, 2}. bit mode q \<longrightarrow> bit (iv_mode iv) (3 * class_of c iv + (2 - q)))"

lemma and_pow: "(w :: 'a :: len word) AND 2 ^ n = 0 \<longleftrightarrow> \<not> bit w n"
proof -
  have "w AND 2 ^ n = (if bit w n then 2 ^ n else 0)" by (rule bit_word_eqI) (auto simp: bit_simps)
  then show ?thesis by (auto dest: bit_imp_le_length simp: not_le)
qed

lemmas req_bits =
  and_pow[where ?'a = 32 and n = 0, simplified] and_pow[where ?'a = 32 and n = 1, simplified]
  and_pow[where ?'a = 32 and n = 2, simplified]

lemmas perm_bits =
  and_pow[where ?'a = 16 and n = 0, simplified] and_pow[where ?'a = 16 and n = 1, simplified]
  and_pow[where ?'a = 16 and n = 2, simplified] and_pow[where ?'a = 16 and n = 3, simplified]
  and_pow[where ?'a = 16 and n = 4, simplified] and_pow[where ?'a = 16 and n = 5, simplified]
  and_pow[where ?'a = 16 and n = 6, simplified] and_pow[where ?'a = 16 and n = 7, simplified]
  and_pow[where ?'a = 16 and n = 8, simplified]

lemma and_or_zero: "(w :: 'a :: len word) AND (a OR b) = 0 \<longleftrightarrow> w AND a = 0 \<and> w AND b = 0"
  by (simp add: bit.conj_disj_distrib or_eq_0_iff)

lemma class_access_bits:
  assumes "k < 3" "r = 2 ^ (3 * k + 2)" "w = 2 ^ (3 * k + 1)" "x = 2 ^ (3 * k)"
  shows "class_access (ucast (m :: u32)) mode r w x =
    (if \<forall>q \<in> {0, 1, 2}. bit mode q \<longrightarrow> bit m (3 * k + (2 - q)) then 0 else - M4K_EACCES)"
  using assms(1) unfolding class_access_def assms(2-4) and_pow
  by (auto simp: M4K_ACCESS_READ_def M4K_ACCESS_WRITE_def M4K_ACCESS_EXEC_def req_bits bit_simps numeral_2_eq_2)

section \<open>The life of a pipe\<close>

text \<open>After a descriptor was handed out the scan comes back to it last.\<close>

lemma alloc_fd_slot:
  assumes "u32FdSearchStart s < 1024" "j < 1024" "m \<le> j" "\<not> fd_used (fd_table s ! j)"
  obtains i where "vfs_alloc_fd m s = (int i, s\<lparr>u32FdSearchStart := (i + 1) mod 1024\<rparr>)"
    "m \<le> i" "i < 1024" "\<not> fd_used (fd_table s ! i)"
  using alloc_fd_cases[OF assms(1)] assms(2-4) by metis

lemma scan_last:
  assumes "r < 1024" "j < 1024" "j \<noteq> r" "m \<le> j" "\<not> fd_used (fd_table s ! j)" "u32FdSearchStart s = (r + 1) mod 1024"
  shows "\<exists>w s'. vfs_alloc_fd m s = (int w, s') \<and> s' = s\<lparr>u32FdSearchStart := (w + 1) mod 1024\<rparr> \<and>
    w \<noteq> r \<and> m \<le> w \<and> w < 1024 \<and> \<not> fd_used (fd_table s ! w)"
proof -
  let ?f = "\<lambda>n. (u32FdSearchStart s + n) mod M4K_VFS_MAX_FDS" and ?P = "\<lambda>i. \<not> i < m \<and> \<not> fd_used (fd_table s ! i)"
  have c: "u32FdSearchStart s < 1024" by (simp add: assms(6))
  obtain w where w: "vfs_alloc_fd m s = (int w, s\<lparr>u32FdSearchStart := (w + 1) mod 1024\<rparr>)"
    "m \<le> w" "w < 1024" "\<not> fd_used (fd_table s ! w)"
    by (rule alloc_fd_slot[OF c assms(2,4,5)])
  have "w \<noteq> r"
  proof
    assume "w = r"
    with w(1) have "find ?P (map ?f [0..<M4K_VFS_MAX_FDS]) = Some r"
      by (auto simp: vfs_alloc_fd_def split: option.splits)
    then obtain k where k: "k < 1024" "?f k = r" "\<forall>l < k. \<not> ?P (?f l)"
      unfolding find_Some_iff by (auto simp: M4K_VFS_MAX_FDS_def)
    define l where "l = (j + 1024 - (r + 1)) mod 1024"
    have l: "l < 1024" "?f l = j" using assms(1-3)
      by (auto simp: l_def assms(6) M4K_VFS_MAX_FDS_def mod_add_eq)
    have "k = 1023" using k(1,2) assms(1) by (auto simp: assms(6) M4K_VFS_MAX_FDS_def mod_if split: if_splits)
    moreover have "l \<noteq> 1023" using assms(1-3) by (auto simp: l_def mod_if split: if_splits)
    ultimately have "l < k" using l(1) by simp
    then have "\<not> ?P (?f l)" using k(3) by blast
    then show False unfolding l(2) using assms(4,5) by simp
  qed
  then show ?thesis using w by blast
qed

lemma pipe_created:
  assumes "vfs_ok s" "q < 32" "\<not> pb_in_use (pipe_buffers s ! q)"
    "i < 1024" "j < 1024" "i \<noteq> j" "3 \<le> i" "3 \<le> j" "\<not> fd_used (fd_table s ! i)" "\<not> fd_used (fd_table s ! j)"
  shows "\<exists>pi r w c. pi < 32 \<and> \<not> pb_in_use (pipe_buffers s ! pi) \<and> r < 1024 \<and> w < 1024 \<and> r \<noteq> w \<and>
    \<not> fd_used (fd_table s ! r) \<and> \<not> fd_used (fd_table s ! w) \<and>
    mkrn_vfs_pipe s = (0, Some (int r, int w), s\<lparr>pipe_buffers := (pipe_buffers s)[pi := pipe_zero\<lparr>pb_in_use := True\<rparr>],
      u32FdSearchStart := c, fd_table := (fd_table s)[r := pipe_end r pi M4K_O_RDONLY, w := pipe_end w pi M4K_O_WRONLY]\<rparr>)"
proof -
  obtain pi where f: "find (\<lambda>i. \<not> pb_in_use (pipe_buffers s ! i)) [0..<MAX_PIPES] = Some pi"
    using assms(2,3) by (cases "find (\<lambda>i. \<not> pb_in_use (pipe_buffers s ! i)) [0..<MAX_PIPES]")
      (auto simp: find_None_iff MAX_PIPES_def)
  have pi: "pi < 32" "\<not> pb_in_use (pipe_buffers s ! pi)" using set_find[OF f] by (auto simp: MAX_PIPES_def)
  define s1 where "s1 = s\<lparr>pipe_buffers := (pipe_buffers s)[pi := pipe_zero\<lparr>pb_in_use := True\<rparr>]\<rparr>"
  have c: "u32FdSearchStart s1 < 1024" "\<not> fd_used (fd_table s1 ! i)" using vfs_okD(6)[OF assms(1)] assms(9) by (simp_all add: s1_def)
  obtain r where r: "vfs_alloc_fd 3 s1 = (int r, s1\<lparr>u32FdSearchStart := (r + 1) mod 1024\<rparr>)"
    "3 \<le> r" "r < 1024" "\<not> fd_used (fd_table s1 ! r)"
    by (rule alloc_fd_slot[OF c(1) assms(4,7) c(2)])
  define s2 where "s2 = s1\<lparr>u32FdSearchStart := (r + 1) mod 1024\<rparr>"
  obtain k where k: "k < 1024" "k \<noteq> r" "3 \<le> k" "\<not> fd_used (fd_table s2 ! k)"
    using assms(4-10) by (cases "i = r") (auto simp: s1_def s2_def)
  obtain w s3 where w: "vfs_alloc_fd 3 s2 = (int w, s3)" "s3 = s2\<lparr>u32FdSearchStart := (w + 1) mod 1024\<rparr>"
    "w \<noteq> r" "w < 1024" "\<not> fd_used (fd_table s2 ! w)"
    using scan_last[OF r(3) k] by (auto simp: s2_def)
  have "mkrn_vfs_pipe s = (0, Some (int r, int w), s3\<lparr>fd_table := (fd_table s3)[r := pipe_end r pi M4K_O_RDONLY, w := pipe_end w pi M4K_O_WRONLY]\<rparr>)"
    using f r(1) w(1) by (simp add: mkrn_vfs_pipe_def Let_def s1_def s2_def)
  then show ?thesis using pi r(3,4) w
    by (intro exI[of _ pi] exI[of _ r] exI[of _ w] exI[of _ "(w + 1) mod 1024"]) (simp add: s1_def s2_def)
qed

lemma pipe_of_end: "pi < 32 \<Longrightarrow> pb_in_use (pipe_buffers s ! pi) \<Longrightarrow> pipe_of (pipe_end i pi fl) s = Some pi"
proof -
  assume "pi < 32" "pb_in_use (pipe_buffers s ! pi)"
  moreover from this have "sint (of_nat pi :: u32) = int pi" by (simp add: signed_of_nat signed_take_bit_int_eq_self)
  ultimately show ?thesis by (simp add: pipe_of_def pipe_end_def MAX_PIPES_def)
qed

lemma pipe_end_simps [simp]:
  "is_pipe_fd (pipe_end i pi fl)" "fd_used (pipe_end i pi fl)" "fd_flags (pipe_end i pi fl) = fl"
  by (simp_all add: is_pipe_fd_def pipe_end_def)

lemma not_bad_fd: "r < 1024 \<Longrightarrow> \<not> bad_fd (int r)"
  by (simp add: bad_fd_def M4K_VFS_MAX_FDS_def)

lemma pipe_fd_write:
  assumes "vfs_ok s" "w < 1024" "fd_table s ! w = pipe_end w pi fl" "pi < 32" "pb_in_use (pipe_buffers s ! pi)"
    "\<not> pb_write_closed (pipe_buffers s ! pi)" "fd_route hk (int w) (v_env s) = None"
    "pb_bytes (pipe_buffers s ! pi) + length xs \<le> 4096"
  shows "\<exists>pb'. mkrn_vfs_write hk (int w) xs s = Some (int (length xs), s\<lparr>pipe_buffers := (pipe_buffers s)[pi := pb']\<rparr>) \<and>
    pipe_inv pb' \<and> pipe_contents pb' = pipe_contents (pipe_buffers s ! pi) @ xs \<and> pipe_flags pb' = pipe_flags (pipe_buffers s ! pi)"
proof -
  let ?pb = "pipe_buffers s ! pi"
  have "pipe_inv ?pb" using vfs_okD(9)[OF assms(1,4)] by (simp add: pipe_ok_def)
  from pipe_write_ok[OF this, of 0 xs] assms(8)
  obtain pb' where "pipe_write_loop xs 0 ?pb = Some (length xs, pb')" "pipe_inv pb'"
    "pipe_contents pb' = pipe_contents ?pb @ xs" "pipe_flags pb' = pipe_flags ?pb" by (auto simp: min_def)
  then show ?thesis using assms pipe_of_end[OF assms(4,5)] not_bad_fd[OF assms(2)] vfs_okD(1)[OF assms(1)]
    by (intro exI[of _ pb']) (simp add: mkrn_vfs_write_def write_pipe_def)
qed

lemma pipe_fd_read:
  assumes "vfs_ok s" "r < 1024" "fd_table s ! r = pipe_end r pi fl" "pi < 32" "pb_in_use (pipe_buffers s ! pi)"
    "\<not> pb_read_closed (pipe_buffers s ! pi)" "fd_route hk (int r) (v_env s) = None"
    "ys = take (unat want) (pipe_contents (pipe_buffers s ! pi))"
  shows "\<exists>pb'. mkrn_vfs_read hk (int r) want s =
      Some ((int (length ys), ys), s\<lparr>pipe_buffers := (pipe_buffers s)[pi := pb']\<rparr>) \<and>
    pipe_inv pb' \<and> pipe_contents pb' = drop (unat want) (pipe_contents (pipe_buffers s ! pi)) \<and>
    pipe_flags pb' = pipe_flags (pipe_buffers s ! pi)"
proof -
  let ?pb = "pipe_buffers s ! pi"
  have inv: "pipe_inv ?pb" using vfs_okD(9)[OF assms(1,4)] by (simp add: pipe_ok_def)
  from pipe_read_ok[OF this, of "unat want" "[]"]
  obtain pb' where "pipe_read_loop (unat want) [] ?pb = Some (ys, pb')" "pipe_inv pb'"
    "pipe_contents pb' = drop (unat want) (pipe_contents ?pb)" "pipe_flags pb' = pipe_flags ?pb" using assms(8) by auto
  moreover have "length ys < 2 ^ 31" using inv assms(8) by (simp add: pipe_inv_def min_def)
  ultimately show ?thesis using assms pipe_of_end[OF assms(4,5)] not_bad_fd[OF assms(2)] vfs_okD(1)[OF assms(1)]
    by (intro exI[of _ pb']) (simp add: mkrn_vfs_read_def read_pipe_def del: length_take)
qed

lemma close_fd:
  "bVfsInitialized s \<Longrightarrow> r < 1024 \<Longrightarrow> fd_route hk (int r) (v_env s) = None \<Longrightarrow> fd_used (fd_table s ! r) \<Longrightarrow>
   mkrn_vfs_close hk (int r) s = (0, close_desc r s)"
  by (simp add: mkrn_vfs_close_def not_bad_fd)

lemma close_both_ends:
  assumes "length (fd_table s) = 1024" "length (pipe_buffers s) = 32" "r < 1024" "w < 1024" "r \<noteq> w" "pi < 32"
    "fd_table s ! r = pipe_end r pi M4K_O_RDONLY" "fd_table s ! w = pipe_end w pi M4K_O_WRONLY"
    "pb_in_use (pipe_buffers s ! pi)" "\<not> pb_read_closed (pipe_buffers s ! pi)" "\<not> pb_write_closed (pipe_buffers s ! pi)"
  shows "close_desc r s = s\<lparr>pipe_buffers := (pipe_buffers s)[pi := (pipe_buffers s ! pi)\<lparr>pb_read_closed := True\<rparr>],
      fd_table := (fd_table s)[r := fd_zero]\<rparr>" (is "_ = ?s1")
    and "close_desc w (close_desc r s) = s\<lparr>pipe_buffers := (pipe_buffers s)[pi := pipe_zero],
      fd_table := (fd_table s)[r := fd_zero, w := fd_zero]\<rparr>"
proof -
  have f: "M4K_O_RDONLY AND M4K_O_WRONLY = 0" "M4K_O_WRONLY AND M4K_O_WRONLY \<noteq> 0"
    by (simp_all add: M4K_O_RDONLY_def M4K_O_WRONLY_def)
  show 1: "close_desc r s = ?s1"
    using assms pipe_of_end[OF assms(6,9)] f by (simp add: close_desc_def close_pipe_end_def Let_def)
  have u: "pb_in_use (pipe_buffers ?s1 ! pi)" using assms(2,6,9) by simp
  show "close_desc w (close_desc r s) = s\<lparr>pipe_buffers := (pipe_buffers s)[pi := pipe_zero],
      fd_table := (fd_table s)[r := fd_zero, w := fd_zero]\<rparr>"
    unfolding 1 using assms(2-6,8) pipe_of_end[OF assms(6) u] f
    by (simp add: close_desc_def close_pipe_end_def Let_def)
qed

text \<open>The state after the creation of a pipe, relative to the state before.\<close>

definition piped :: "nat \<Rightarrow> nat \<Rightarrow> nat \<Rightarrow> nat \<Rightarrow> pipe_buffer \<Rightarrow> 'h vfs \<Rightarrow> 'h vfs" where
  "piped pi r w c pb s = s\<lparr>pipe_buffers := (pipe_buffers s)[pi := pb], u32FdSearchStart := c,
     fd_table := (fd_table s)[r := pipe_end r pi M4K_O_RDONLY, w := pipe_end w pi M4K_O_WRONLY]\<rparr>"

lemma piped_simps:
  assumes "vfs_ok s" "pi < 32" "r < 1024" "w < 1024" "r \<noteq> w"
  shows "fd_table (piped pi r w c pb s) ! r = pipe_end r pi M4K_O_RDONLY"
    "fd_table (piped pi r w c pb s) ! w = pipe_end w pi M4K_O_WRONLY"
    "pipe_buffers (piped pi r w c pb s) ! pi = pb" "v_env (piped pi r w c pb s) = v_env s"
    "(piped pi r w c pb s)\<lparr>pipe_buffers := (pipe_buffers (piped pi r w c pb s))[pi := pb']\<rparr> = piped pi r w c pb' s"
    "length (fd_table (piped pi r w c pb s)) = 1024" "length (pipe_buffers (piped pi r w c pb s)) = 32"
    "bVfsInitialized (piped pi r w c pb s)"
  using assms(2-5) vfs_okD(1,3,4)[OF assms(1)] by (simp_all add: piped_def)

lemma pipe_transfer:
  assumes ok: "vfs_ok s" and rw: "pi < 32" "r < 1024" "w < 1024" "r \<noteq> w" and st: "vfs_ok (piped pi r w c pb s)"
    and pb: "pb = pipe_zero\<lparr>pb_in_use := True\<rparr>" and route: "\<forall>n. fd_route hk n (v_env s) = None" and len: "length xs \<le> 4096"
  shows "\<exists>pb2 pb3. mkrn_vfs_write hk (int w) xs (piped pi r w c pb s) = Some (int (length xs), piped pi r w c pb2 s) \<and>
    mkrn_vfs_read hk (int r) (of_nat (length xs)) (piped pi r w c pb2 s) = Some ((int (length xs), xs), piped pi r w c pb3 s) \<and>
    pipe_flags pb3 = (True, False, False)"
proof -
  note t = piped_simps[OF ok rw]
  have z: "pb_in_use pb" "\<not> pb_write_closed pb" "pb_bytes pb = 0" "pipe_contents pb = []" "pipe_flags pb = (True, False, False)"
    by (simp_all add: pb pipe_zero_def pipe_contents_def pipe_flags_def)
  obtain pb2 where w2: "mkrn_vfs_write hk (int w) xs (piped pi r w c pb s) = Some (int (length xs), piped pi r w c pb2 s)"
    "pipe_inv pb2" "pipe_contents pb2 = xs" "pipe_flags pb2 = (True, False, False)"
    using pipe_fd_write[OF st rw(3) t(2) rw(1), of hk xs] z route len by (auto simp: t)
  then have pb2: "pipe_ok pb2" "pb_in_use pb2" "\<not> pb_read_closed pb2" by (auto simp: pipe_ok_def pipe_flags_def)
  have ok2: "vfs_ok (piped pi r w c pb2 s)" using vfs_ok_pipe[OF st pb2(1), of pi] by (simp add: t)
  have n: "unat (of_nat (length xs) :: u32) = length xs" using len by (simp add: unsigned_of_nat take_bit_nat_eq_self)
  obtain pb3 where "mkrn_vfs_read hk (int r) (of_nat (length xs)) (piped pi r w c pb2 s) = Some ((int (length xs), xs), piped pi r w c pb3 s)"
    "pipe_flags pb3 = (True, False, False)"
    using pipe_fd_read[OF ok2 rw(2) t(1) rw(1), of hk xs "of_nat (length xs)"] pb2 w2(3,4) route by (auto simp: t n)
  then show ?thesis using w2(1) by blast
qed

lemma pipe_teardown:
  assumes ok: "vfs_ok s" and rw: "pi < 32" "r < 1024" "w < 1024" "r \<noteq> w"
    and fr: "\<not> pb_in_use (pipe_buffers s ! pi)" "\<not> fd_used (fd_table s ! r)" "\<not> fd_used (fd_table s ! w)"
    and fl: "pipe_flags pb = (True, False, False)" and route: "\<forall>n. fd_route hk n (v_env s) = None"
  shows "\<exists>s4. mkrn_vfs_close hk (int r) (piped pi r w c pb s) = (0, s4) \<and>
    mkrn_vfs_close hk (int w) s4 = (0, s\<lparr>u32FdSearchStart := c\<rparr>)"
proof -
  note t = piped_simps[OF ok rw]
  let ?s3 = "piped pi r w c pb s"
  have pb: "pb_in_use (pipe_buffers ?s3 ! pi)" "\<not> pb_read_closed (pipe_buffers ?s3 ! pi)" "\<not> pb_write_closed (pipe_buffers ?s3 ! pi)"
    using fl by (simp_all add: t pipe_flags_def)
  note cl = close_both_ends[OF t(6,7) rw(2,3,4,1) t(1,2) pb]
  have before: "fd_table s ! r = fd_zero" "fd_table s ! w = fd_zero" "pipe_buffers s ! pi = pipe_zero"
    using vfs_okD(8,9)[OF ok] rw fr by (auto simp: fd_ok_def pipe_ok_def)
  have fds: "(fd_table ?s3)[r := fd_zero, w := fd_zero] = fd_table s"
    using vfs_okD(3)[OF ok] rw(2-4) before(1,2) by (intro nth_equalityI) (auto simp: piped_def nth_list_update)
  have pbs: "(pipe_buffers ?s3)[pi := pipe_zero] = pipe_buffers s"
    using list_update_id[of "pipe_buffers s" pi] before(3) by (simp add: piped_def)
  have 1: "mkrn_vfs_close hk (int r) ?s3 = (0, close_desc r ?s3)"
    using close_fd[of ?s3 r hk] rw(2) route by (simp add: t)
  have "mkrn_vfs_close hk (int w) (close_desc r ?s3) = (0, close_desc w (close_desc r ?s3))"
    using close_fd[of "close_desc r ?s3" w hk] rw route by (simp add: cl(1) t)
  moreover have "close_desc w (close_desc r ?s3) = s\<lparr>u32FdSearchStart := c\<rparr>"
    unfolding cl(2) fds pbs by (simp add: piped_def)
  ultimately show ?thesis using 1 by simp
qed

section \<open>Files of the table\<close>

text \<open>The doubling of the capacity ends for every size up to 2 GB.\<close>

lemma grow_cap_total: "0 < c \<Longrightarrow> n \<le> 2 ^ 31 \<Longrightarrow> \<exists>c'. grow_cap n c = Some c'"
proof (induction "unat n - unat c" arbitrary: c rule: less_induct)
  case less
  show ?case
  proof (cases "c < n")
    case True
    then have c: "0 < unat c" "unat c < unat n" "unat n \<le> 2 ^ 31"
      using less.prems by (auto simp: word_less_nat_alt word_le_nat_alt)
    then have d: "unat (c * 2) = 2 * unat c" by (simp add: unat_word_ariths)
    then have "0 < c * 2" using c(1) by (simp add: word_less_nat_alt)
    moreover have "unat n - unat (c * 2) < unat n - unat c" using c d by arith
    ultimately obtain c' where "grow_cap n (c * 2) = Some c'" using less.hyps[of "c * 2"] less.prems(2) by blast
    then show ?thesis using True by (subst grow_cap.simps) auto
  qed (subst grow_cap.simps, simp)
qed

lemma grow_data_total:
  assumes "\<forall>m h. fst (hk_alloc hk m h) \<noteq> None" "n \<le> 2 ^ 31"
  shows "\<exists>e' h'. grow_data hk e n h = Some (Some e', h')"
proof (cases "fe_capacity e < n")
  case True
  let ?c = "if fe_capacity e \<noteq> 0 then fe_capacity e * 2 else 4096"
  have "0 < ?c"
  proof -
    have "unat (fe_capacity e) < 2 ^ 31" using True assms(2) by (simp add: word_less_nat_alt word_le_nat_alt)
    then have "unat (fe_capacity e * 2) = 2 * unat (fe_capacity e)" by (simp add: unat_word_ariths)
    then show ?thesis using unsigned_eq_0_iff[of "fe_capacity e", where ?'a = nat] by (auto simp: word_less_nat_alt)
  qed
  then obtain cap where "grow_cap n ?c = Some cap" using grow_cap_total[OF _ assms(2)] by blast
  moreover obtain a b h1 where "hk_alloc hk cap h = (Some (a, b), h1)" using assms(1) by (metis not_None_eq prod.collapse)
  ultimately show ?thesis using True by (auto simp: grow_data_def Let_def split: prod.splits)
qed (simp add: grow_data_def)

lemma length_file_bytes: "file_ok e \<Longrightarrow> length (file_bytes e) = unat (fe_size e)"
  by (auto simp: file_bytes_def file_ok_def word_le_nat_alt split: option.splits)

definition plain_fd :: "'h vfs_hooks \<Rightarrow> nat \<Rightarrow> nat \<Rightarrow> 'h vfs \<Rightarrow> bool" where
  "plain_fd hk i f s \<longleftrightarrow> i < 1024 \<and> fd_used (fd_table s ! i) \<and> fd_file (fd_table s ! i) = Some f \<and>
     fd_inode (fd_table s ! i) = 0 \<and> fe_type (file_table s ! f) = M4K_FILE_REGULAR \<and>
     (\<forall>h. fd_route hk (int i) h = None)"

lemma plain_fdD:
  assumes "vfs_ok s" "plain_fd hk i f s"
  shows "i < 1024" "f < 128" "f \<noteq> 0" "\<not> is_pipe_fd (fd_table s ! i)" "file_ok (file_table s ! f)" "\<not> bad_fd (int i)"
    "pf_is_fd (hk_devfs hk) (int i) h = False"
proof -
  show "i < 1024" using assms(2) by (simp add: plain_fd_def)
  then show "\<not> bad_fd (int i)" by (rule not_bad_fd)
  show f: "f < 128" using fd_file_bound[OF assms(1)] assms(2) unfolding plain_fd_def by blast
  show z: "f \<noteq> 0" using assms unfolding vfs_ok_def plain_fd_def by metis
  then show "\<not> is_pipe_fd (fd_table s ! i)" using assms(2) by (simp add: is_pipe_fd_def plain_fd_def)
  show "file_ok (file_table s ! f)" by (rule vfs_okD(7)[OF assms(1) f])
  have "fd_route hk (int i) h = None" using assms(2) by (simp add: plain_fd_def)
  then show "pf_is_fd (hk_devfs hk) (int i) h = False" by (simp add: fd_route_def split: if_splits)
qed

lemma ramfs_write:
  assumes "alloc_ok hk" "\<forall>m h. fst (hk_alloc hk m h) \<noteq> None" "vfs_ok s" "plain_fd hk i f s"
    "unat (fd_offset (fd_table s ! i)) + length xs < 2 ^ 31"
  shows "\<exists>s1. mkrn_vfs_write hk (int i) xs s = Some (int (length xs), s1) \<and> vfs_ok s1 \<and> plain_fd hk i f s1 \<and>
    file_bytes (file_table s1 ! f) = overwrite (file_bytes (file_table s ! f)) (unat (fd_offset (fd_table s ! i))) xs \<and>
    (\<forall>g. g \<noteq> f \<longrightarrow> file_table s1 ! g = file_table s ! g) \<and>
    fd_table s1 = (fd_table s)[i := (fd_table s ! i)\<lparr>fd_offset := fd_offset (fd_table s ! i) + of_nat (length xs)\<rparr>]"
proof -
  note d = plain_fdD[OF assms(3,4)]
  let ?off = "fd_offset (fd_table s ! i)" and ?e = "file_table s ! f"
  have len: "length xs < 2 ^ 32" using assms(5) by simp
  have new: "unat (?off + of_nat (length xs)) = unat ?off + length xs"
    using assms(5) by (simp add: unat_plus_if' unsigned_of_nat take_bit_nat_eq_self)
  have le: "?off + of_nat (length xs) \<le> 2 ^ 31" using assms(5) new by (simp add: word_le_nat_alt)
  have no: "\<not> - 1 - of_nat (length xs) < ?off"
  proof -
    have "unat (- 1 - of_nat (length xs) :: u32) = 2 ^ 32 - 1 - length xs"
      using len by (simp add: unat_sub word_le_nat_alt unsigned_of_nat take_bit_nat_eq_self unsigned_minus_1_eq_mask mask_eq_exp_minus_1)
    then show ?thesis using assms(5) by (simp add: word_less_nat_alt)
  qed
  obtain e1 h where g: "grow_data hk ?e (?off + of_nat (length xs)) (v_env s) = Some (Some e1, h)"
    using grow_data_total[OF assms(2) le] by blast
  note e1 = grow_data_ok[OF assms(1) d(5) g]
  have st: "file_ok (stored e1 ?off xs)" "file_bytes (stored e1 ?off xs) = overwrite (file_bytes ?e) (unat ?off) xs"
    "fe_type (stored e1 ?off xs) = M4K_FILE_REGULAR"
    using stored_ok[of e1 ?off xs] e1 new assms(4) by (auto simp: word_le_nat_alt plain_fd_def)
  define s1 where "s1 = set_offset i (?off + of_nat (length xs))
      (s\<lparr>v_env := h, file_table := (file_table s)[f := stored e1 ?off xs]\<rparr>)"
  have r: "mkrn_vfs_write hk (int i) xs s = Some (int (length xs), s1)"
    using assms(4,5) d(4,6) no g vfs_okD(1)[OF assms(3)]
    by (simp add: mkrn_vfs_write_def plain_fd_def write_ramfs_def Let_def s1_def stored_def)
  have "vfs_ok s1" by (rule write_ok[OF assms(1,3) len r])
  moreover have "fd_table s1 = (fd_table s)[i := (fd_table s ! i)\<lparr>fd_offset := ?off + of_nat (length xs)\<rparr>]"
    by (simp add: s1_def set_offset_def)
  moreover have "file_table s1 ! f = stored e1 ?off xs" "\<forall>g. g \<noteq> f \<longrightarrow> file_table s1 ! g = file_table s ! g"
    using d(2) vfs_okD(2)[OF assms(3)] by (simp_all add: s1_def set_offset_def)
  ultimately show ?thesis using r st assms(4) vfs_okD(3)[OF assms(3)] by (simp add: plain_fd_def)
qed

lemma ramfs_read:
  assumes "vfs_ok s" "plain_fd hk i f s" "unat (fe_size (file_table s ! f)) < 2 ^ 31"
    "ys = take (unat want) (drop (unat (fd_offset (fd_table s ! i))) (file_bytes (file_table s ! f)))"
  shows "\<exists>s1. mkrn_vfs_read hk (int i) want s = Some ((int (length ys), ys), s1) \<and> file_table s1 = file_table s"
proof -
  note d = plain_fdD[OF assms(1,2)]
  let ?off = "fd_offset (fd_table s ! i)" and ?e = "file_table s ! f"
  note len = length_file_bytes[OF d(5)]
  have r: "mkrn_vfs_read hk (int i) want s = Some (read_ramfs i f (unat want) s)"
    using assms(2) d(4,6) vfs_okD(1)[OF assms(1)] by (simp add: mkrn_vfs_read_def plain_fd_def)
  show ?thesis
  proof (cases "fe_size ?e \<le> ?off")
    case True
    then have "ys = []" using assms(4) len by (simp add: word_le_nat_alt)
    then show ?thesis using r True assms(2) by (simp add: read_ramfs_def plain_fd_def)
  next
    case False
    then have lt: "unat ?off < unat (fe_size ?e)" by (simp add: word_le_nat_alt)
    then have sub: "unat (fe_size ?e - ?off) = unat (fe_size ?e) - unat ?off" by (simp add: unat_sub word_le_nat_alt)
    obtain a b where ab: "fe_data ?e = Some (a, b)" using lt d(5) by (cases "fe_data ?e") (auto simp: file_ok_def)
    define n where "n = min (unat want) (unat (fe_size ?e) - unat ?off)"
    have ys: "ys = take n (drop (unat ?off) b)" "length ys = n"
      using assms(4) file_okD(1,2)[OF d(5) ab] lt by (auto simp: file_bytes_def ab n_def drop_take min_def)
    have "ret_count n = int n" using assms(3) by (simp add: n_def)
    then have "read_ramfs i f (unat want) s = ((int (length ys), ys), set_offset i (?off + of_nat n) s)"
      using False assms(2) ab ys by (simp add: read_ramfs_def Let_def plain_fd_def sub flip: n_def)
    then show ?thesis using r by (simp add: set_offset_def)
  qed
qed

lemma ramfs_seek:
  assumes "vfs_ok s" "plain_fd hk i f s" "off \<le> unat (fe_size (file_table s ! f))" "off < 2 ^ 31"
  shows "mkrn_vfs_lseek hk (int i) (int off) M4K_SEEK_SET s = (int off, set_offset i (of_nat off) s)"
proof -
  note d = plain_fdD[OF assms(1,2)]
  have w: "sint (of_nat off :: u32) = int off" "unat (of_nat off :: u32) = off"
    using assms(4) by (simp_all add: signed_of_nat signed_take_bit_int_eq_self unsigned_of_nat take_bit_nat_eq_self)
  then have "\<not> fe_size (file_table s ! f) < of_nat off" using assms(3) by (simp add: word_less_nat_alt)
  then show ?thesis using assms(2) d(4,6,7) vfs_okD(1)[OF assms(1)] w
    by (simp add: mkrn_vfs_lseek_def plain_fd_def lseek_ramfs_def Let_def)
qed

section \<open>Properties\<close>

text \<open>C26. The access check is the table of rights: it grants a request exactly when
  root asks, and for execution some class may execute, or when the first class the
  caller belongs to (owner, one of its groups, others) has every right asked for;
  otherwise the answer is -EACCES.\<close>

theorem check_access_exact:
  "mkrn_check_access (Some c) (Some iv) mode = (if permitted c iv mode then 0 else - M4K_EACCES)"
proof (cases "euid c = M4K_UID_ROOT")
  case True
  have "(ucast (iv_mode iv) :: u16) AND (M4K_IXUSR OR M4K_IXGRP OR M4K_IXOTH) = 0 \<longleftrightarrow>
    \<not> (\<exists>k \<in> {0, 1, 2}. bit (iv_mode iv) (3 * k))"
    unfolding and_or_zero by (simp add: M4K_IXUSR_def M4K_IXGRP_def M4K_IXOTH_def perm_bits bit_simps) blast
  then show ?thesis using True
    by (simp add: mkrn_check_access_def permitted_def Let_def M4K_ACCESS_EXEC_def req_bits)
next
  case False
  have usr: "class_access (ucast (iv_mode iv)) mode M4K_IRUSR M4K_IWUSR M4K_IXUSR =
    (if \<forall>q \<in> {0, 1, 2}. bit mode q \<longrightarrow> bit (iv_mode iv) (3 * 2 + (2 - q)) then 0 else - M4K_EACCES)"
    by (rule class_access_bits) (simp_all add: M4K_IRUSR_def M4K_IWUSR_def M4K_IXUSR_def)
  have grp: "class_access (ucast (iv_mode iv)) mode M4K_IRGRP M4K_IWGRP M4K_IXGRP =
    (if \<forall>q \<in> {0, 1, 2}. bit mode q \<longrightarrow> bit (iv_mode iv) (3 * 1 + (2 - q)) then 0 else - M4K_EACCES)"
    by (rule class_access_bits) (simp_all add: M4K_IRGRP_def M4K_IWGRP_def M4K_IXGRP_def)
  have oth: "class_access (ucast (iv_mode iv)) mode M4K_IROTH M4K_IWOTH M4K_IXOTH =
    (if \<forall>q \<in> {0, 1, 2}. bit mode q \<longrightarrow> bit (iv_mode iv) (3 * 0 + (2 - q)) then 0 else - M4K_EACCES)"
    by (rule class_access_bits) (simp_all add: M4K_IROTH_def M4K_IWOTH_def M4K_IXOTH_def)
  have mem: "list_ex (\<lambda>g. g = iv_gid iv) gs \<longleftrightarrow> iv_gid iv \<in> set gs" for gs by (auto simp: list_ex_iff)
  show ?thesis using False unfolding mkrn_check_access_def permitted_def class_of_def
    by (simp only: prod.case option.case Let_def if_False usr grp oth mem split: if_split) simp
qed

text \<open>The life of a pipe: with a free ring and two free descriptors from 3 on,
  none of which a pseudo filesystem claims, a pipe gets two different descriptors;
  up to 4096 bytes written to the second are read back, in order and complete, from
  the first; and closing both ends gives everything back: the tables are those of
  before, only the search cursor may have moved.\<close>

theorem pipe_life_cycle:
  assumes "vfs_ok s" "\<exists>q < 32. \<not> pb_in_use (pipe_buffers s ! q)"
    "i < 1024" "j < 1024" "i \<noteq> j" "3 \<le> i" "3 \<le> j" "\<not> fd_used (fd_table s ! i)" "\<not> fd_used (fd_table s ! j)"
    "\<forall>n. fd_route hk n (v_env s) = None" "length xs \<le> 4096"
  shows "\<exists>r w s1 s2 s3 s4 s5. mkrn_vfs_pipe s = (0, Some (r, w), s1) \<and> r \<noteq> w \<and>
    mkrn_vfs_write hk w xs s1 = Some (int (length xs), s2) \<and>
    mkrn_vfs_read hk r (of_nat (length xs)) s2 = Some ((int (length xs), xs), s3) \<and>
    mkrn_vfs_close hk r s3 = (0, s4) \<and> mkrn_vfs_close hk w s4 = (0, s5) \<and>
    s5 = s\<lparr>u32FdSearchStart := u32FdSearchStart s5\<rparr>"
proof -
  obtain q where q: "q < 32" "\<not> pb_in_use (pipe_buffers s ! q)" using assms(2) by blast
  obtain pi r w c where pi: "pi < 32" "\<not> pb_in_use (pipe_buffers s ! pi)" and rw: "r < 1024" "w < 1024" "r \<noteq> w"
    "\<not> fd_used (fd_table s ! r)" "\<not> fd_used (fd_table s ! w)"
    and p: "mkrn_vfs_pipe s = (0, Some (int r, int w), piped pi r w c (pipe_zero\<lparr>pb_in_use := True\<rparr>) s)"
    using pipe_created[OF assms(1) q assms(3-9)] unfolding piped_def by blast
  obtain pb2 pb3 where t: "mkrn_vfs_write hk (int w) xs (piped pi r w c (pipe_zero\<lparr>pb_in_use := True\<rparr>) s) =
      Some (int (length xs), piped pi r w c pb2 s)"
    "mkrn_vfs_read hk (int r) (of_nat (length xs)) (piped pi r w c pb2 s) = Some ((int (length xs), xs), piped pi r w c pb3 s)"
    "pipe_flags pb3 = (True, False, False)"
    using pipe_transfer[OF assms(1) pi(1) rw(1-3) pipe_create_ok[OF assms(1) p] refl assms(10,11)] by blast
  obtain s4 where c: "mkrn_vfs_close hk (int r) (piped pi r w c pb3 s) = (0, s4)"
    "mkrn_vfs_close hk (int w) s4 = (0, s\<lparr>u32FdSearchStart := c\<rparr>)"
    using pipe_teardown[OF assms(1) pi(1) rw(1-3) pi(2) rw(4,5) t(3) assms(10)] by blast
  show ?thesis
    by (rule exI[of _ "int r"], rule exI[of _ "int w"], intro exI conjI, rule p, simp add: rw(3),
        rule t(1), rule t(2), rule c(1), rule c(2)) simp
qed

lemma boot_tables:
  "i < 1024 \<Longrightarrow> fd_table vfs_boot ! i = fd_zero" "q < 32 \<Longrightarrow> pipe_buffers vfs_boot ! q = pipe_zero"
  "root_yafs vfs_boot = (0, ydev_boot)" "bVfsInitialized vfs_boot"
  by (simp_all add: vfs_boot_def mkrn_vfs_init_def vfs_bss_def vfs_consts)

theorem pipe_life_cycle_witness:
  "\<exists>r w s1 s2 s3 s4 s5. mkrn_vfs_pipe vfs_boot = (0, Some (r, w), s1) \<and> r \<noteq> w \<and>
    mkrn_vfs_write plain_hooks w [104, 105] s1 = Some (2, s2) \<and>
    mkrn_vfs_read plain_hooks r 2 s2 = Some ((2, [104, 105]), s3) \<and>
    mkrn_vfs_close plain_hooks r s3 = (0, s4) \<and> mkrn_vfs_close plain_hooks w s4 = (0, s5)"
proof -
  have "\<exists>q < 32. \<not> pb_in_use (pipe_buffers vfs_boot ! q)"
    by (intro exI[of _ 0]) (simp add: boot_tables pipe_zero_def)
  moreover have "\<not> fd_used (fd_table vfs_boot ! 3)" "\<not> fd_used (fd_table vfs_boot ! 4)"
    by (simp_all add: boot_tables fd_zero_def)
  ultimately show ?thesis
    using pipe_life_cycle[OF vfs_boot_simps(1), of 3 4 plain_hooks "[104, 105]"] by simp blast
qed

text \<open>A file of the table keeps what is written to it: for a descriptor of a
  regular file, a heap that has memory and sizes below 2 GB, a write returns the full
  count, the file holds the old bytes overwritten at the offset, with zeros in a gap,
  and no other file changes; after seeking back the same number of bytes read gives
  exactly what was written.\<close>

theorem ramfs_write_read:
  assumes "alloc_ok hk" "\<forall>m h. fst (hk_alloc hk m h) \<noteq> None" "vfs_ok s" "plain_fd hk i f s"
    "off = unat (fd_offset (fd_table s ! i))" "off + length xs < 2 ^ 31" "length (file_bytes (file_table s ! f)) < 2 ^ 31"
  shows "\<exists>s1 s2 s3. mkrn_vfs_write hk (int i) xs s = Some (int (length xs), s1) \<and>
    file_bytes (file_table s1 ! f) = overwrite (file_bytes (file_table s ! f)) off xs \<and>
    (\<forall>g. g \<noteq> f \<longrightarrow> file_table s1 ! g = file_table s ! g) \<and>
    mkrn_vfs_lseek hk (int i) (int off) M4K_SEEK_SET s1 = (int off, s2) \<and>
    mkrn_vfs_read hk (int i) (of_nat (length xs)) s2 = Some ((int (length xs), xs), s3) \<and>
    file_table s3 = file_table s1"
proof -
  obtain s1 where s1: "mkrn_vfs_write hk (int i) xs s = Some (int (length xs), s1)" "vfs_ok s1" "plain_fd hk i f s1"
    "file_bytes (file_table s1 ! f) = overwrite (file_bytes (file_table s ! f)) off xs"
    "\<forall>g. g \<noteq> f \<longrightarrow> file_table s1 ! g = file_table s ! g"
    using ramfs_write[OF assms(1-4)] assms(5,6) by blast
  have size: "unat (fe_size (file_table s1 ! f)) = max (off + length xs) (length (file_bytes (file_table s ! f)))"
    using length_file_bytes[OF plain_fdD(5)[OF s1(2,3)]] unfolding s1(4) by (auto simp: overwrite_def max_def)
  define s2 where "s2 = set_offset i (of_nat off) s1"
  have sk: "mkrn_vfs_lseek hk (int i) (int off) M4K_SEEK_SET s1 = (int off, s2)"
    unfolding s2_def by (rule ramfs_seek[OF s1(2,3)]) (use size assms(6) in auto)
  have s2: "vfs_ok s2" "plain_fd hk i f s2" "file_table s2 = file_table s1" "fd_offset (fd_table s2 ! i) = of_nat off"
    using s1(2,3) vfs_okD(3)[OF s1(2)] by (auto simp: s2_def plain_fd_def set_offset_ok) (simp_all add: set_offset_def)
  have n: "unat (of_nat (length xs) :: u32) = length xs" "unat (of_nat off :: u32) = off"
    using assms(6) by (simp_all add: unsigned_of_nat take_bit_nat_eq_self)
  have "xs = take (unat (of_nat (length xs) :: u32)) (drop (unat (fd_offset (fd_table s2 ! i))) (file_bytes (file_table s2 ! f)))"
    by (simp add: n s2(3,4) s1(4) overwrite_def)
  from ramfs_read[OF s2(1,2) _ this] obtain s3 where
    "mkrn_vfs_read hk (int i) (of_nat (length xs)) s2 = Some ((int (length xs), xs), s3)" "file_table s3 = file_table s2"
    using size assms(6,7) s2(3) by auto
  then show ?thesis using s1(1,4,5) sk s2(3) by auto
qed

text \<open>A booted layer with one empty regular file, open as descriptor 0.\<close>

definition one_file :: "u32 vfs" where
  "one_file = (let s = vfs_boot\<lparr>file_table := (file_table vfs_boot)
       [1 := file_zero\<lparr>fe_name := 97 # replicate 127 0, fe_type := M4K_FILE_REGULAR, fe_in_use := True\<rparr>]\<rparr>
     in s\<lparr>fd_table := (fd_table s)[0 := fd_zero\<lparr>fd_file := Some 1, fd_used := True\<rparr>]\<rparr>)"

lemma one_file_ok: "vfs_ok one_file" "plain_fd plain_hooks 0 1 one_file"
  "fd_offset (fd_table one_file ! 0) = 0" "file_bytes (file_table one_file ! 1) = []"
proof -
  have "file_ok (file_zero\<lparr>fe_name := 97 # replicate 127 0, fe_type := M4K_FILE_REGULAR, fe_in_use := True\<rparr>)"
    by (simp add: file_ok_def file_zero_def)
  then show "vfs_ok one_file" unfolding one_file_def Let_def
    by (intro vfs_ok_fd vfs_ok_file) (simp_all add: fd_ok_def)
  have t: "fd_table one_file ! 0 = fd_zero\<lparr>fd_file := Some 1, fd_used := True\<rparr>"
    "file_table one_file ! 1 = file_zero\<lparr>fe_name := 97 # replicate 127 0, fe_type := M4K_FILE_REGULAR, fe_in_use := True\<rparr>"
    using vfs_okD(2,3)[OF vfs_boot_simps(1)] by (simp_all add: one_file_def)
  then show "plain_fd plain_hooks 0 1 one_file" by (simp add: plain_fd_def fd_zero_def)
  show "fd_offset (fd_table one_file ! 0) = 0" "file_bytes (file_table one_file ! 1) = []"
    unfolding t by (simp_all add: fd_zero_def file_zero_def file_bytes_def)
qed

theorem ramfs_write_read_witness:
  "\<exists>s1 s2 s3. mkrn_vfs_write plain_hooks 0 [104, 105] one_file = Some (2, s1) \<and>
    file_bytes (file_table s1 ! 1) = [104, 105] \<and> mkrn_vfs_lseek plain_hooks 0 0 M4K_SEEK_SET s1 = (0, s2) \<and>
    mkrn_vfs_read plain_hooks 0 2 s2 = Some ((2, [104, 105]), s3)"
proof -
  have "\<forall>m h. fst (hk_alloc plain_hooks m h) \<noteq> None" by simp
  from ramfs_write_read[OF plain_hooks_simps(1) this one_file_ok(1,2), of 0 "[104, 105]"] show ?thesis
    by (auto simp: one_file_ok(3) one_file_ok(4)[simplified] overwrite_def)
qed

text \<open>C24. The tables of the layer stay well formed: whatever sequence of calls is
  made after the initialisation (writes of fewer than \<open>2 ^ 32\<close> bytes), on any tree
  and with any pseudo filesystems and a heap that hands out buffers of the size
  asked for, the tables keep their sizes, an open descriptor's file is an index
  inside the table of files and the entry there is well formed, every buffer of a
  file is exactly as long as its capacity, at least as long as the file and zero
  behind it (so no access leaves it and no stale byte becomes visible), every
  ring is well formed, a released ring and a closed descriptor are blank, and
  the count of mounts is exact. Which file or ring a descriptor leads to is not
  part of this: the code keeps no reference counts, so the entry of an open
  descriptor may have been deleted (\<open>delete_leaves_descriptors\<close>) or reused, and the
  ring of a copied pipe descriptor released.\<close>

theorem vfs_reachable_safe:
  assumes "alloc_ok hk" "vfs_reach hk s"
  shows "vfs_ok s \<and>
    (\<forall>i < 1024. fd_used (fd_table s ! i) \<longrightarrow> (\<exists>f < 128. fd_file (fd_table s ! i) = Some f \<and> file_ok (file_table s ! f)))"
proof -
  have v: "vfs_ok s" using vfs_reach_ok[OF assms(2,1)] .
  then show ?thesis using vfs_okD(7,8)[OF v] by (fastforce simp: fd_ok_def)
qed

theorem vfs_reachable_safe_witness: "vfs_ok (snd (snd (mkrn_vfs_pipe vfs_boot)))"
proof -
  obtain r fds s' where "mkrn_vfs_pipe vfs_boot = (r, fds, s')" by (rule prod_cases3)
  then have "vfs_reach plain_hooks (snd (snd (mkrn_vfs_pipe vfs_boot)))"
    using reach_step[OF vfs_boot_simps(2) s_pipe] by simp
  then show ?thesis using vfs_reachable_safe[OF plain_hooks_simps(1)] by blast
qed

text \<open>Deleting a file blanks its entry and leaves every descriptor that was open
  on it as it was: the next file created in the entry is reached through them.\<close>

theorem delete_leaves_descriptors:
  assumes "vfs_ok s" "mkrn_vfs_find_file (Some nm) s = Some f" "mkrn_vfs_delete_file hk (Some nm) s = (r, s')"
  shows "r = 0 \<and> file_table s' ! f = file_zero \<and> fd_table s' = fd_table s"
proof -
  have "f < 128" using assms(2) by (auto simp: mkrn_vfs_find_file_def vfs_consts find_Some_iff split: if_splits)
  then show ?thesis using assms vfs_okD(2)[OF assms(1)] by (auto simp: mkrn_vfs_delete_file_def)
qed

theorem delete_leaves_descriptors_witness:
  "\<exists>s'. mkrn_vfs_delete_file plain_hooks (Some [97]) one_file = (0, s') \<and> fd_file (fd_table s' ! 0) = Some 1 \<and>
    fd_used (fd_table s' ! 0) \<and> file_table s' ! 1 = file_zero"
proof -
  have n: "length (file_table one_file) = 128" "length (fd_table one_file) = 1024"
    using vfs_okD(2,3)[OF one_file_ok(1)] by simp_all
  have t: "fd_table one_file ! 0 = fd_zero\<lparr>fd_file := Some 1, fd_used := True\<rparr>"
    "file_table one_file ! 1 = file_zero\<lparr>fe_name := 97 # replicate 127 0, fe_type := M4K_FILE_REGULAR, fe_in_use := True\<rparr>"
    "cstr (fe_name (file_table one_file ! 0)) = [47]"
    using vfs_okD(2,3)[OF vfs_boot_simps(1)] by (simp_all add: one_file_def vfs_boot_def mkrn_vfs_init_def vfs_bss_def vfs_consts cstr_def)
  have "mkrn_vfs_find_file (Some [97]) one_file = Some 1"
    using vfs_okD(1)[OF one_file_ok(1)] t
    by (simp add: mkrn_vfs_find_file_def vfs_consts upt_conv_Cons[of 0] upt_conv_Cons[of "Suc 0"] skip_slash_def cstr_def)
  moreover obtain r s' where "mkrn_vfs_delete_file plain_hooks (Some [97]) one_file = (r, s')" by fastforce
  ultimately show ?thesis using delete_leaves_descriptors[OF one_file_ok(1)] t(1) by fastforce
qed

text \<open>The search for a free descriptor is complete whatever the cursor: it
  fails, changing nothing, exactly when every descriptor from the minimum on is in
  use, and otherwise returns an unused one of them.\<close>

theorem alloc_fd_complete:
  assumes "vfs_ok s"
  shows "vfs_alloc_fd m s = (-1, s) \<and> (\<forall>i < 1024. m \<le> i \<longrightarrow> fd_used (fd_table s ! i)) \<or>
    (\<exists>i. vfs_alloc_fd m s = (int i, s\<lparr>u32FdSearchStart := (i + 1) mod 1024\<rparr>) \<and> m \<le> i \<and> i < 1024 \<and> \<not> fd_used (fd_table s ! i))"
  by (rule alloc_fd_cases[OF vfs_okD(6)[OF assms], of m]) auto

theorem alloc_fd_complete_witness: "\<exists>i \<ge> 3. vfs_alloc_fd 3 vfs_boot = (int i, vfs_boot\<lparr>u32FdSearchStart := (i + 1) mod 1024\<rparr>)"
proof -
  have "\<not> fd_used (fd_table vfs_boot ! 3)" by (simp add: boot_tables fd_zero_def)
  then show ?thesis using alloc_fd_complete[OF vfs_boot_simps(1), of 3] by force
qed

end
