(* ===== verification/Ata.thy ===== *)
theory Ata
  imports Prelude
begin

text \<open>
  The ATA disk driver (\<open>sys/src/kernel/drivers/ata.c\<close>, \<open>ata.h\<close>): polling,
  drive selection, \<open>IDENTIFY\<close>, reading and writing of sectors by programmed I/O in
  commands of up to 256 sectors, and the partition table of a disk. The controller
  is outside the program: the port instructions are the record \<open>ports\<close> of
  functions on a state of their own. \<open>p_insw\<close> gives the bytes stored by \<open>rep insw\<close>
  and \<open>p_outsw\<close> takes the bytes \<open>rep outsw\<close> loads. The messages on the console are
  left out; the caller's buffers are not null and are lists of bytes.
  The offset of a command in the buffer is computed in 32 bits by the code and would
  wrap at \<open>2 ^ 23\<close> sectors; a buffer of that size is the whole address space.

  What the driver relies on of a controller, and what it then does to the disk, is
  the subject of \<open>AtaSpec\<close>.
\<close>

unbundle bit_operations_syntax

section \<open>Ports and state\<close>

record 'd ports =
  p_inb :: "u16 \<Rightarrow> 'd \<Rightarrow> u8 \<times> 'd"
  p_outb :: "u16 \<Rightarrow> u8 \<Rightarrow> 'd \<Rightarrow> 'd"
  p_insw :: "u16 \<Rightarrow> nat \<Rightarrow> 'd \<Rightarrow> u8 list \<times> 'd"
  p_outsw :: "u16 \<Rightarrow> u8 list \<Rightarrow> 'd \<Rightarrow> 'd"

definition M4K_ATA_SECTOR_SIZE :: nat where "M4K_ATA_SECTOR_SIZE = 512"
definition M4K_ATA_MAX_DRIVES :: nat where "M4K_ATA_MAX_DRIVES = 2"
definition M4K_ATA_PRIMARY_DATA :: u16 where "M4K_ATA_PRIMARY_DATA = 0x1F0"
definition M4K_ATA_PRIMARY_SECCOUNT :: u16 where "M4K_ATA_PRIMARY_SECCOUNT = 0x1F2"
definition M4K_ATA_PRIMARY_LBA_LO :: u16 where "M4K_ATA_PRIMARY_LBA_LO = 0x1F3"
definition M4K_ATA_PRIMARY_LBA_MID :: u16 where "M4K_ATA_PRIMARY_LBA_MID = 0x1F4"
definition M4K_ATA_PRIMARY_LBA_HI :: u16 where "M4K_ATA_PRIMARY_LBA_HI = 0x1F5"
definition M4K_ATA_PRIMARY_DRIVE_HEAD :: u16 where "M4K_ATA_PRIMARY_DRIVE_HEAD = 0x1F6"
definition M4K_ATA_PRIMARY_STATUS :: u16 where "M4K_ATA_PRIMARY_STATUS = 0x1F7"
definition M4K_ATA_PRIMARY_COMMAND :: u16 where "M4K_ATA_PRIMARY_COMMAND = 0x1F7"
definition M4K_ATA_PRIMARY_ALTSTATUS :: u16 where "M4K_ATA_PRIMARY_ALTSTATUS = 0x3F6"
definition M4K_ATA_PRIMARY_CONTROL :: u16 where "M4K_ATA_PRIMARY_CONTROL = 0x3F6"
definition M4K_ATA_SR_ERR :: u8 where "M4K_ATA_SR_ERR = 0x01"
definition M4K_ATA_SR_DRQ :: u8 where "M4K_ATA_SR_DRQ = 0x08"
definition M4K_ATA_SR_DF :: u8 where "M4K_ATA_SR_DF = 0x20"
definition M4K_ATA_SR_BSY :: u8 where "M4K_ATA_SR_BSY = 0x80"
definition M4K_ATA_CMD_READ_PIO :: u8 where "M4K_ATA_CMD_READ_PIO = 0x20"
definition M4K_ATA_CMD_WRITE_PIO :: u8 where "M4K_ATA_CMD_WRITE_PIO = 0x30"
definition M4K_ATA_CMD_IDENTIFY :: u8 where "M4K_ATA_CMD_IDENTIFY = 0xEC"
definition M4K_MBR_SIGNATURE :: u16 where "M4K_MBR_SIGNATURE = 0xAA55"
definition M4K_MBR_PART_OFFSET :: nat where "M4K_MBR_PART_OFFSET = 446"
definition M4K_MBR_PART_SIZE :: nat where "M4K_MBR_PART_SIZE = 16"
definition M4K_MBR_MAX_PARTS :: nat where "M4K_MBR_MAX_PARTS = 4"

lemmas ata_ports = M4K_ATA_PRIMARY_DATA_def M4K_ATA_PRIMARY_SECCOUNT_def M4K_ATA_PRIMARY_LBA_LO_def
  M4K_ATA_PRIMARY_LBA_MID_def M4K_ATA_PRIMARY_LBA_HI_def M4K_ATA_PRIMARY_DRIVE_HEAD_def
  M4K_ATA_PRIMARY_STATUS_def M4K_ATA_PRIMARY_COMMAND_def M4K_ATA_PRIMARY_ALTSTATUS_def
  M4K_ATA_PRIMARY_CONTROL_def

record mkrn_ata_drive =
  ad_present :: bool
  ad_lba28 :: bool
  ad_index :: u8
  ad_sectors :: u64
  ad_model :: "u8 list"

record mkrn_mbr_partition =
  mp_status :: u8
  mp_type :: u8
  mp_lba_start :: u32
  mp_lba_count :: u32
  mp_valid :: bool

record 'd ata =
  ata_drives :: "mkrn_ata_drive list"
  ata_initialized :: bool
  ata_hw :: 'd

definition drive_zero :: mkrn_ata_drive where
  "drive_zero = \<lparr>ad_present = False, ad_lba28 = False, ad_index = 0, ad_sectors = 0, ad_model = replicate 41 0\<rparr>"

definition part_zero :: mkrn_mbr_partition where
  "part_zero = \<lparr>mp_status = 0, mp_type = 0, mp_lba_start = 0, mp_lba_count = 0, mp_valid = False\<rparr>"

section \<open>Polling\<close>

definition ata_read_status :: "'d ports \<Rightarrow> 'd \<Rightarrow> u8 \<times> 'd" where
  "ata_read_status io d = p_inb io M4K_ATA_PRIMARY_STATUS d"

definition ata_read_altstatus :: "'d ports \<Rightarrow> 'd \<Rightarrow> u8 \<times> 'd" where
  "ata_read_altstatus io d = p_inb io M4K_ATA_PRIMARY_ALTSTATUS d"

definition ata_delay_400ns :: "'d ports \<Rightarrow> 'd \<Rightarrow> 'd" where
  "ata_delay_400ns io d =
     snd (ata_read_altstatus io (snd (ata_read_altstatus io
       (snd (ata_read_altstatus io (snd (ata_read_altstatus io d)))))))"

fun wait_bsy_loop :: "'d ports \<Rightarrow> nat \<Rightarrow> 'd \<Rightarrow> int \<times> 'd" where
  "wait_bsy_loop io 0 d = (-1, d)"
| "wait_bsy_loop io (Suc n) d =
     (case ata_read_altstatus io d of
        (v, d') \<Rightarrow> if v AND M4K_ATA_SR_BSY = 0 then (0, d') else wait_bsy_loop io n d')"

definition mkrn_ata_wait_bsy :: "'d ports \<Rightarrow> u32 \<Rightarrow> 'd \<Rightarrow> int \<times> 'd" where
  "mkrn_ata_wait_bsy io u32Timeout d = wait_bsy_loop io (unat u32Timeout) d"

fun wait_drq_loop :: "'d ports \<Rightarrow> nat \<Rightarrow> 'd \<Rightarrow> int \<times> 'd" where
  "wait_drq_loop io 0 d = (-1, d)"
| "wait_drq_loop io (Suc n) d =
     (case ata_read_altstatus io d of
        (v, d') \<Rightarrow>
          if v AND M4K_ATA_SR_ERR \<noteq> 0 then (-1, d')
          else if v AND M4K_ATA_SR_DF \<noteq> 0 then (-1, d')
          else if v AND M4K_ATA_SR_BSY = 0 \<and> v AND M4K_ATA_SR_DRQ \<noteq> 0 then (0, d')
          else wait_drq_loop io n d')"

definition mkrn_ata_wait_drq :: "'d ports \<Rightarrow> u32 \<Rightarrow> 'd \<Rightarrow> int \<times> 'd" where
  "mkrn_ata_wait_drq io u32Timeout d = wait_drq_loop io (unat u32Timeout) d"

section \<open>Commands\<close>

definition ata_select_drive :: "'d ports \<Rightarrow> u8 \<Rightarrow> 'd \<Rightarrow> 'd" where
  "ata_select_drive io u8Drive d =
     ata_delay_400ns io (p_outb io M4K_ATA_PRIMARY_DRIVE_HEAD (0xA0 OR push_bit 4 (u8Drive AND 1)) d)"

text \<open>The addresses and the count of a command, and the command.\<close>

definition head_byte :: "u8 \<Rightarrow> u32 \<Rightarrow> u8" where
  "head_byte u8Drive u32Lba = 0xE0 OR push_bit 4 (u8Drive AND 1) OR ucast (drop_bit 24 u32Lba AND 0x0F)"

definition ata_command :: "'d ports \<Rightarrow> u8 \<Rightarrow> u32 \<Rightarrow> u8 \<Rightarrow> u8 \<Rightarrow> 'd \<Rightarrow> 'd" where
  "ata_command io u8Drive u32Lba cnt cmd d =
     (let d1 = p_outb io M4K_ATA_PRIMARY_SECCOUNT cnt d;
          d2 = p_outb io M4K_ATA_PRIMARY_LBA_LO (ucast (u32Lba AND 0xFF)) d1;
          d3 = p_outb io M4K_ATA_PRIMARY_LBA_MID (ucast (drop_bit 8 u32Lba AND 0xFF)) d2;
          d4 = p_outb io M4K_ATA_PRIMARY_LBA_HI (ucast (drop_bit 16 u32Lba AND 0xFF)) d3;
          d5 = p_outb io M4K_ATA_PRIMARY_DRIVE_HEAD (head_byte u8Drive u32Lba) d4
      in ata_delay_400ns io (p_outb io M4K_ATA_PRIMARY_COMMAND cmd d5))"

text \<open>The 256 words of an answer to \<open>IDENTIFY\<close>; the model string has its bytes
  swapped and its trailing blanks cut.\<close>

definition ident_word :: "u8 list \<Rightarrow> nat \<Rightarrow> u16" where
  "ident_word bs i = le_word (take 2 (drop (2 * i) bs))"

definition ident_model :: "u8 list \<Rightarrow> u8 list" where
  "ident_model bs =
     concat (map (\<lambda>i. [ucast (drop_bit 8 (ident_word bs (27 + i))), ucast (ident_word bs (27 + i) AND 0xFF)]) [0..<20])"

definition trim_model :: "u8 list \<Rightarrow> u8 list" where
  "trim_model m =
     (let keep = rev (dropWhile (\<lambda>c. c = 32 \<or> c = 0) (rev m))
      in keep @ replicate (length m - length keep) 0)"

definition ata_identify :: "'d ports \<Rightarrow> u8 \<Rightarrow> mkrn_ata_drive \<Rightarrow> 'd \<Rightarrow> int \<times> mkrn_ata_drive \<times> 'd" where
  "ata_identify io u8Drive dr d =
     (let d0 = ata_select_drive io u8Drive d;
          d1 = p_outb io M4K_ATA_PRIMARY_SECCOUNT 0 d0;
          d2 = p_outb io M4K_ATA_PRIMARY_LBA_LO 0 d1;
          d3 = p_outb io M4K_ATA_PRIMARY_LBA_MID 0 d2;
          d4 = p_outb io M4K_ATA_PRIMARY_LBA_HI 0 d3;
          d5 = ata_delay_400ns io (p_outb io M4K_ATA_PRIMARY_COMMAND M4K_ATA_CMD_IDENTIFY d4);
          (status, d6) = ata_read_status io d5
      in if status = 0 then (-1, dr, d6)
         else case mkrn_ata_wait_bsy io 100000 d6 of (w, d7) \<Rightarrow>
           if w \<noteq> 0 then (-1, dr, d7)
           else case p_inb io M4K_ATA_PRIMARY_LBA_MID d7 of (u8Mid, d8) \<Rightarrow>
             case p_inb io M4K_ATA_PRIMARY_LBA_HI d8 of (u8Hi, d9) \<Rightarrow>
               if u8Mid \<noteq> 0 \<or> u8Hi \<noteq> 0 then (-1, dr, d9)
               else case mkrn_ata_wait_drq io 100000 d9 of (q, d10) \<Rightarrow>
                 if q \<noteq> 0 then (-1, dr, d10)
                 else case p_insw io M4K_ATA_PRIMARY_DATA 256 d10 of (bs, d11) \<Rightarrow>
                   (0, \<lparr>ad_present = True, ad_lba28 = True, ad_index = u8Drive,
                        ad_sectors = ucast (ident_word bs 60) OR push_bit 16 (ucast (ident_word bs 61)),
                        ad_model = trim_model (ident_model bs) @ [0]\<rparr>, d11))"

section \<open>Sectors\<close>

text \<open>The sectors of one command as they become ready; a read gives the bytes put
  into the buffer.\<close>

fun read_batch :: "'d ports \<Rightarrow> nat \<Rightarrow> 'd \<Rightarrow> (int \<times> u8 list) \<times> 'd" where
  "read_batch io 0 d = ((0, []), d)"
| "read_batch io (Suc n) d =
     (case mkrn_ata_wait_drq io 100000 d of (w, d1) \<Rightarrow>
        if w \<noteq> 0 then ((-1, []), d1)
        else case p_insw io M4K_ATA_PRIMARY_DATA 256 d1 of (bs, d2) \<Rightarrow>
          case read_batch io n d2 of ((st, rest), d3) \<Rightarrow> ((st, bs @ rest), d3))"

fun write_batch :: "'d ports \<Rightarrow> nat \<Rightarrow> u8 list \<Rightarrow> 'd \<Rightarrow> int \<times> 'd" where
  "write_batch io 0 bs d = (0, d)"
| "write_batch io (Suc n) bs d =
     (case mkrn_ata_wait_drq io 100000 d of (w, d1) \<Rightarrow>
        if w \<noteq> 0 then (-1, d1)
        else write_batch io n (drop M4K_ATA_SECTOR_SIZE bs)
               (p_outsw io M4K_ATA_PRIMARY_DATA (take M4K_ATA_SECTOR_SIZE bs) d1))"

text \<open>The loops over the commands: \<open>left\<close> is \<open>u32Count - u32Done\<close> and \<open>lba\<close> is
  \<open>u32Lba + u32Done\<close>.\<close>

definition batch_count :: "nat \<Rightarrow> u8" where
  "batch_count batch = (if batch = 256 then 0 else of_nat batch)"

function ata_read_loop :: "'d ports \<Rightarrow> u8 \<Rightarrow> u32 \<Rightarrow> nat \<Rightarrow> 'd \<Rightarrow> (int \<times> u8 list) \<times> 'd" where
  "ata_read_loop io u8Drive lba left d =
     (if left = 0 then ((0, []), d)
      else let batch = min left 256 in
        case mkrn_ata_wait_bsy io 100000 d of (w, d1) \<Rightarrow>
          if w \<noteq> 0 then ((-1, []), d1)
          else case read_batch io batch
                 (ata_command io u8Drive lba (batch_count batch) M4K_ATA_CMD_READ_PIO d1) of ((st, bs), d2) \<Rightarrow>
            if st \<noteq> 0 then ((-1, bs), d2)
            else case ata_read_loop io u8Drive (lba + of_nat batch) (left - batch) d2 of ((st', rest), d3) \<Rightarrow>
              ((st', bs @ rest), d3))"
  by pat_completeness auto
termination by (relation "measure (\<lambda>(io, u8Drive, lba, left, d). left)") auto

function ata_write_loop :: "'d ports \<Rightarrow> u8 \<Rightarrow> u32 \<Rightarrow> nat \<Rightarrow> u8 list \<Rightarrow> 'd \<Rightarrow> int \<times> 'd" where
  "ata_write_loop io u8Drive lba left bs d =
     (if left = 0 then (0, d)
      else let batch = min left 256 in
        case mkrn_ata_wait_bsy io 100000 d of (w, d1) \<Rightarrow>
          if w \<noteq> 0 then (-1, d1)
          else case write_batch io batch bs
                 (ata_command io u8Drive lba (batch_count batch) M4K_ATA_CMD_WRITE_PIO d1) of (st, d2) \<Rightarrow>
            if st \<noteq> 0 then (-1, d2)
            else case mkrn_ata_wait_bsy io 100000 d2 of (w', d3) \<Rightarrow>
              if w' \<noteq> 0 then (-1, d3)
              else ata_write_loop io u8Drive (lba + of_nat batch) (left - batch)
                     (drop (batch * M4K_ATA_SECTOR_SIZE) bs) d3)"
  by pat_completeness auto
termination by (relation "measure (\<lambda>(io, u8Drive, lba, left, bs, d). left)") auto

declare ata_read_loop.simps [simp del] ata_write_loop.simps [simp del]

definition no_drive :: "u8 \<Rightarrow> 'd ata \<Rightarrow> bool" where
  "no_drive u8Drive s \<longleftrightarrow> M4K_ATA_MAX_DRIVES \<le> unat u8Drive \<or> \<not> ad_present (ata_drives s ! unat u8Drive)"

text \<open>Both transfers refuse an absent drive, no sectors, and addresses past 28 bits.\<close>

definition bad_transfer :: "u8 \<Rightarrow> u32 \<Rightarrow> u32 \<Rightarrow> 'd ata \<Rightarrow> bool" where
  "bad_transfer u8Drive u32Lba u32Count s \<longleftrightarrow>
     no_drive u8Drive s \<or> u32Count = 0 \<or> 0x0FFFFFFF < u32Lba \<or> 0x0FFFFFFF - u32Lba < u32Count"

definition mkrn_ata_read_sectors :: "'d ports \<Rightarrow> u8 \<Rightarrow> u32 \<Rightarrow> u32 \<Rightarrow> 'd ata \<Rightarrow> (int \<times> u8 list) \<times> 'd ata" where
  "mkrn_ata_read_sectors io u8Drive u32Lba u32Count s =
     (if bad_transfer u8Drive u32Lba u32Count s then ((-1, []), s)
      else if u32Count = 1 then
        case mkrn_ata_wait_bsy io 100000 (ata_hw s) of (w, d1) \<Rightarrow>
          if w \<noteq> 0 then ((-1, []), s\<lparr>ata_hw := d1\<rparr>)
          else case mkrn_ata_wait_drq io 100000
                 (ata_command io u8Drive u32Lba 1 M4K_ATA_CMD_READ_PIO d1) of (q, d2) \<Rightarrow>
            if q \<noteq> 0 then ((-1, []), s\<lparr>ata_hw := d2\<rparr>)
            else case p_insw io M4K_ATA_PRIMARY_DATA 256 d2 of (bs, d3) \<Rightarrow> ((0, bs), s\<lparr>ata_hw := d3\<rparr>)
      else case ata_read_loop io u8Drive u32Lba (unat u32Count) (ata_hw s) of (r, d) \<Rightarrow> (r, s\<lparr>ata_hw := d\<rparr>))"

definition mkrn_ata_write_sectors :: "'d ports \<Rightarrow> u8 \<Rightarrow> u32 \<Rightarrow> u32 \<Rightarrow> u8 list \<Rightarrow> 'd ata \<Rightarrow> int \<times> 'd ata" where
  "mkrn_ata_write_sectors io u8Drive u32Lba u32Count bs s =
     (if bad_transfer u8Drive u32Lba u32Count s then (-1, s)
      else case mkrn_ata_wait_bsy io 100000 (ata_hw s) of (w, d1) \<Rightarrow>
        if w \<noteq> 0 then (-1, s\<lparr>ata_hw := d1\<rparr>)
        else case ata_write_loop io u8Drive u32Lba (unat u32Count) bs d1 of (r, d) \<Rightarrow> (r, s\<lparr>ata_hw := d\<rparr>))"

definition mkrn_ata_get_drive :: "u8 \<Rightarrow> 'd ata \<Rightarrow> mkrn_ata_drive option" where
  "mkrn_ata_get_drive u8Drive s =
     (if M4K_ATA_MAX_DRIVES \<le> unat u8Drive then None else Some (ata_drives s ! unat u8Drive))"

definition mkrn_ata_get_sectors :: "u8 \<Rightarrow> 'd ata \<Rightarrow> u64" where
  "mkrn_ata_get_sectors u8Drive s = (if no_drive u8Drive s then 0 else ad_sectors (ata_drives s ! unat u8Drive))"

section \<open>The partition table\<close>

definition parse_part :: "u8 list \<Rightarrow> mkrn_mbr_partition" where
  "parse_part e =
     (if e ! 4 = 0 then part_zero
      else \<lparr>mp_status = e ! 0, mp_type = e ! 4,
            mp_lba_start = ucast (e ! 8) OR push_bit 8 (ucast (e ! 9)) OR push_bit 16 (ucast (e ! 10))
                           OR push_bit 24 (ucast (e ! 11)),
            mp_lba_count = ucast (e ! 12) OR push_bit 8 (ucast (e ! 13)) OR push_bit 16 (ucast (e ! 14))
                           OR push_bit 24 (ucast (e ! 15)),
            mp_valid = True\<rparr>)"

definition mkrn_ata_read_mbr :: "'d ports \<Rightarrow> u8 \<Rightarrow> 'd ata \<Rightarrow> (int \<times> mkrn_mbr_partition list) \<times> 'd ata" where
  "mkrn_ata_read_mbr io u8Drive s =
     (let none = replicate M4K_MBR_MAX_PARTS part_zero in
      case mkrn_ata_read_sectors io u8Drive 0 1 s of ((st, sector), s1) \<Rightarrow>
        if st \<noteq> 0 then ((-1, none), s1)
        else if ucast (sector ! 510) OR push_bit 8 (ucast (sector ! 511)) \<noteq> M4K_MBR_SIGNATURE then ((0, none), s1)
        else let parts = map (\<lambda>i. parse_part (drop (M4K_MBR_PART_OFFSET + i * M4K_MBR_PART_SIZE) sector))
                           [0..<M4K_MBR_MAX_PARTS]
             in ((int (length (filter mp_valid parts)), parts), s1))"

text \<open>Probing both drives; the partition table of the master is read to be printed.\<close>

fun probe_drives :: "'d ports \<Rightarrow> nat list \<Rightarrow> 'd ata \<Rightarrow> int \<times> 'd ata" where
  "probe_drives io [] s = (0, s)"
| "probe_drives io (i # is) s =
     (case ata_identify io (of_nat i) (ata_drives s ! i) (ata_hw s) of (st, dr, d) \<Rightarrow>
        case probe_drives io is (s\<lparr>ata_drives := (ata_drives s)[i := dr], ata_hw := d\<rparr>) of (n, s') \<Rightarrow>
          (if st = 0 then n + 1 else n, s'))"

definition mkrn_ata_init :: "'d ports \<Rightarrow> 'd ata \<Rightarrow> int \<times> 'd ata" where
  "mkrn_ata_init io s =
     (let s0 = s\<lparr>ata_drives := replicate M4K_ATA_MAX_DRIVES drive_zero,
                 ata_hw := ata_delay_400ns io (p_outb io M4K_ATA_PRIMARY_CONTROL 0x02 (ata_hw s))\<rparr>;
          (n, s1) = probe_drives io [0..<M4K_ATA_MAX_DRIVES] s0;
          s2 = (if ad_present (ata_drives s1 ! 0) then snd (mkrn_ata_read_mbr io 0 s1) else s1)
      in (n, s2\<lparr>ata_initialized := True\<rparr>))"

end
