(* ===== verification/AtaSpec.thy ===== *)
theory AtaSpec
  imports Ata
begin

text \<open>
  What the ATA driver does to a disk. \<open>ata_view\<close> is what the registers and the
  transfer in progress of a controller are to its documentation, \<open>ata_conforms\<close> how the
  port instructions act on it. On such a controller a read of sectors returns their
  contents, and a write changes them and nothing else, however many commands the
  driver splits it into.
\<close>

unbundle bit_operations_syntax

section \<open>A controller\<close>

datatype xfer = Idle | Sending nat nat nat | Taking nat nat nat

text \<open>\<open>av_busy\<close> is the number of times the alternate status is still read as busy,
  \<open>Sending dr l n\<close> and \<open>Taking dr l n\<close> are transfers of \<open>n\<close> more sectors from \<open>l\<close>.\<close>

record ata_view =
  av_count :: u8
  av_lo :: u8
  av_mid :: u8
  av_hi :: u8
  av_head :: u8
  av_busy :: nat
  av_error :: bool
  av_xfer :: xfer
  av_disk :: "nat \<Rightarrow> nat \<Rightarrow> u8 list"

definition sel_drive :: "ata_view \<Rightarrow> nat" where
  "sel_drive v = unat (drop_bit 4 (av_head v) AND 1)"

definition sel_lba :: "ata_view \<Rightarrow> nat" where
  "sel_lba v = unat (av_lo v) + 256 * unat (av_mid v) + 65536 * unat (av_hi v) + 16777216 * unat (av_head v AND 0x0F)"

definition sel_count :: "ata_view \<Rightarrow> nat" where
  "sel_count v = (if av_count v = 0 then 256 else unat (av_count v))"

definition sending :: "nat \<Rightarrow> nat \<Rightarrow> nat \<Rightarrow> xfer" where
  "sending dr l n = (if n = 0 then Idle else Sending dr l n)"

definition taking :: "nat \<Rightarrow> nat \<Rightarrow> nat \<Rightarrow> xfer" where
  "taking dr l n = (if n = 0 then Idle else Taking dr l n)"

definition put_sector :: "nat \<Rightarrow> nat \<Rightarrow> 'a \<Rightarrow> (nat \<Rightarrow> nat \<Rightarrow> 'a) \<Rightarrow> (nat \<Rightarrow> nat \<Rightarrow> 'a)" where
  "put_sector dr l bs disk = disk(dr := (disk dr)(l := bs))"

definition status_law :: "'d ports \<Rightarrow> ('d \<Rightarrow> ata_view) \<Rightarrow> bool" where
  "status_law io view \<longleftrightarrow>
     (\<forall>d. let (v, d') = p_inb io M4K_ATA_PRIMARY_ALTSTATUS d in
        view d' = (view d)\<lparr>av_busy := av_busy (view d) - 1\<rparr> \<and>
        (v AND M4K_ATA_SR_BSY = 0 \<longleftrightarrow> av_busy (view d) = 0) \<and>
        (\<not> av_error (view d) \<longrightarrow> v AND M4K_ATA_SR_ERR = 0 \<and> v AND M4K_ATA_SR_DF = 0) \<and>
        (av_busy (view d) = 0 \<longrightarrow> (v AND M4K_ATA_SR_DRQ \<noteq> 0 \<longleftrightarrow> av_xfer (view d) \<noteq> Idle)))"

definition register_law :: "'d ports \<Rightarrow> ('d \<Rightarrow> ata_view) \<Rightarrow> bool" where
  "register_law io view \<longleftrightarrow>
     (\<forall>d b. av_busy (view d) = 0 \<and> av_xfer (view d) = Idle \<longrightarrow>
        view (p_outb io M4K_ATA_PRIMARY_SECCOUNT b d) = (view d)\<lparr>av_count := b\<rparr> \<and>
        view (p_outb io M4K_ATA_PRIMARY_LBA_LO b d) = (view d)\<lparr>av_lo := b\<rparr> \<and>
        view (p_outb io M4K_ATA_PRIMARY_LBA_MID b d) = (view d)\<lparr>av_mid := b\<rparr> \<and>
        view (p_outb io M4K_ATA_PRIMARY_LBA_HI b d) = (view d)\<lparr>av_hi := b\<rparr> \<and>
        view (p_outb io M4K_ATA_PRIMARY_DRIVE_HEAD b d) = (view d)\<lparr>av_head := b\<rparr>)"

text \<open>A command for sectors the drive has, in the addressing mode the driver selects.\<close>

definition command_law :: "'d ports \<Rightarrow> ('d \<Rightarrow> ata_view) \<Rightarrow> (nat \<Rightarrow> nat) \<Rightarrow> bool" where
  "command_law io view cap \<longleftrightarrow>
     (\<forall>d. let v = view d in
        av_busy v = 0 \<and> av_xfer v = Idle \<and> bit (av_head v) 6 \<and> sel_lba v + sel_count v \<le> cap (sel_drive v) \<longrightarrow>
        (\<exists>b < 100000. view (p_outb io M4K_ATA_PRIMARY_COMMAND M4K_ATA_CMD_READ_PIO d) =
           v\<lparr>av_busy := b, av_error := False, av_xfer := Sending (sel_drive v) (sel_lba v) (sel_count v)\<rparr>) \<and>
        (\<exists>b < 100000. view (p_outb io M4K_ATA_PRIMARY_COMMAND M4K_ATA_CMD_WRITE_PIO d) =
           v\<lparr>av_busy := b, av_error := False, av_xfer := Taking (sel_drive v) (sel_lba v) (sel_count v)\<rparr>))"

definition data_law :: "'d ports \<Rightarrow> ('d \<Rightarrow> ata_view) \<Rightarrow> bool" where
  "data_law io view \<longleftrightarrow>
     (\<forall>d dr l n. av_busy (view d) = 0 \<longrightarrow>
        (av_xfer (view d) = Sending dr l (Suc n) \<longrightarrow>
           fst (p_insw io M4K_ATA_PRIMARY_DATA 256 d) = av_disk (view d) dr l \<and>
           (\<exists>b < 100000. view (snd (p_insw io M4K_ATA_PRIMARY_DATA 256 d)) =
              (view d)\<lparr>av_busy := b, av_xfer := sending dr (Suc l) n\<rparr>)) \<and>
        (av_xfer (view d) = Taking dr l (Suc n) \<longrightarrow>
           (\<forall>bs. length bs = 512 \<longrightarrow> (\<exists>b < 100000. view (p_outsw io M4K_ATA_PRIMARY_DATA bs d) =
              (view d)\<lparr>av_busy := b, av_xfer := taking dr (Suc l) n,
                       av_disk := put_sector dr l bs (av_disk (view d))\<rparr>))))"

definition ata_conforms :: "'d ports \<Rightarrow> ('d \<Rightarrow> ata_view) \<Rightarrow> (nat \<Rightarrow> nat) \<Rightarrow> bool" where
  "ata_conforms io view cap \<longleftrightarrow>
     status_law io view \<and> register_law io view \<and> command_law io view cap \<and> data_law io view"

text \<open>A controller that waits for a command and answers in time.\<close>

definition ata_idle :: "ata_view \<Rightarrow> bool" where
  "ata_idle v \<longleftrightarrow> av_xfer v = Idle \<and> av_busy v < 100000 \<and> \<not> av_error v"

section \<open>Polling and commands\<close>

lemma altstatus:
  assumes "ata_conforms io view cap"
  obtains v d' where "ata_read_altstatus io d = (v, d')"
    and "view d' = (view d)\<lparr>av_busy := av_busy (view d) - 1\<rparr>"
    and "v AND M4K_ATA_SR_BSY = 0 \<longleftrightarrow> av_busy (view d) = 0"
    and "\<not> av_error (view d) \<longrightarrow> v AND M4K_ATA_SR_ERR = 0 \<and> v AND M4K_ATA_SR_DF = 0"
    and "av_busy (view d) = 0 \<longrightarrow> (v AND M4K_ATA_SR_DRQ \<noteq> 0 \<longleftrightarrow> av_xfer (view d) \<noteq> Idle)"
proof -
  obtain v d' where "p_inb io M4K_ATA_PRIMARY_ALTSTATUS d = (v, d')" by fastforce
  with assms that show thesis
    by (auto simp: ata_conforms_def status_law_def ata_read_altstatus_def Let_def dest!: spec [of _ d])
qed

lemma view_altstatus:
  assumes "ata_conforms io view cap"
  shows "view (snd (ata_read_altstatus io d)) = (view d)\<lparr>av_busy := av_busy (view d) - 1\<rparr>"
  by (rule altstatus [OF assms, of d]) simp

lemma view_delay:
  assumes "ata_conforms io view cap"
  shows "view (ata_delay_400ns io d) = (view d)\<lparr>av_busy := av_busy (view d) - 4\<rparr>"
  by (simp add: ata_delay_400ns_def view_altstatus [OF assms])

lemma busy_4: "\<lbrakk>b < 100000; v = w\<lparr>av_busy := b, av_error := e, av_xfer := x\<rparr>\<rbrakk> \<Longrightarrow>
    \<exists>b' < 100000. v\<lparr>av_busy := av_busy v - 4\<rparr> = w\<lparr>av_busy := b', av_error := e, av_xfer := x\<rparr>"
  by (rule exI [of _ "b - 4"]) simp

lemma wait_bsy_ok:
  assumes c: "ata_conforms io view cap"
  shows "av_busy (view d) < n \<Longrightarrow>
    fst (wait_bsy_loop io n d) = 0 \<and> view (snd (wait_bsy_loop io n d)) = (view d)\<lparr>av_busy := 0\<rparr>"
proof (induction n arbitrary: d)
  case (Suc n)
  obtain v d' where a: "ata_read_altstatus io d = (v, d')"
    "view d' = (view d)\<lparr>av_busy := av_busy (view d) - 1\<rparr>" "v AND M4K_ATA_SR_BSY = 0 \<longleftrightarrow> av_busy (view d) = 0"
    by (rule altstatus [OF c, of d])
  then show ?case using Suc.IH [of d'] Suc.prems by (cases "av_busy (view d)") auto
qed simp

lemma wait_drq_ok:
  assumes c: "ata_conforms io view cap"
  shows "\<lbrakk>av_busy (view d) < n; \<not> av_error (view d); av_xfer (view d) \<noteq> Idle\<rbrakk> \<Longrightarrow>
    fst (wait_drq_loop io n d) = 0 \<and> view (snd (wait_drq_loop io n d)) = (view d)\<lparr>av_busy := 0\<rparr>"
proof (induction n arbitrary: d)
  case (Suc n)
  obtain v d' where a: "ata_read_altstatus io d = (v, d')"
    "view d' = (view d)\<lparr>av_busy := av_busy (view d) - 1\<rparr>" "v AND M4K_ATA_SR_BSY = 0 \<longleftrightarrow> av_busy (view d) = 0"
    "\<not> av_error (view d) \<longrightarrow> v AND M4K_ATA_SR_ERR = 0 \<and> v AND M4K_ATA_SR_DF = 0"
    "av_busy (view d) = 0 \<longrightarrow> (v AND M4K_ATA_SR_DRQ \<noteq> 0 \<longleftrightarrow> av_xfer (view d) \<noteq> Idle)"
    by (rule altstatus [OF c, of d])
  then show ?case using Suc.IH [of d'] Suc.prems by (cases "av_busy (view d)") auto
qed simp

lemma wait_bsy_call:
  assumes "ata_conforms io view cap" and "av_busy (view d) < 100000"
  obtains d' where "mkrn_ata_wait_bsy io 100000 d = (0, d')" and "view d' = (view d)\<lparr>av_busy := 0\<rparr>"
  using wait_bsy_ok [OF assms(1), of d 100000] assms(2) that
  by (cases "wait_bsy_loop io 100000 d") (auto simp: mkrn_ata_wait_bsy_def)

lemma wait_drq_call:
  assumes "ata_conforms io view cap" and "av_busy (view d) < 100000" and "\<not> av_error (view d)"
    and "av_xfer (view d) \<noteq> Idle"
  obtains d' where "mkrn_ata_wait_drq io 100000 d = (0, d')" and "view d' = (view d)\<lparr>av_busy := 0\<rparr>"
  using wait_drq_ok [OF assms(1), of d 100000] assms(2-) that
  by (cases "wait_drq_loop io 100000 d") (auto simp: mkrn_ata_wait_drq_def)

text \<open>The address bytes of a command are those of its sector.\<close>

lemma less_8_cases: "(n::nat) < 8 \<longleftrightarrow> n = 0 \<or> n = 1 \<or> n = 2 \<or> n = 3 \<or> n = 4 \<or> n = 5 \<or> n = 6 \<or> n = 7"
  by auto

lemma head_byte_low: "head_byte dr l AND 0x0F = ucast (drop_bit 24 l AND 0x0F)"
  by (rule bit_word_eqI) (auto simp: head_byte_def bit_simps less_8_cases)

lemma head_byte_drive: "drop_bit 4 (head_byte dr l) AND 1 = dr AND 1"
  by (rule bit_word_eqI) (auto simp: head_byte_def bit_simps less_8_cases)

lemma head_byte_lba: "bit (head_byte dr l) 6"
  by (simp add: head_byte_def bit_simps)

lemma u32_range: "unat (w :: u32) < 4294967296"
  using unsigned_less [of w] by simp

lemma lba_byte: "unat (ucast (drop_bit k (l :: u32) AND 0xFF) :: u8) = unat l div 2 ^ k mod 256"
proof -
  have "(ucast (drop_bit k l AND 0xFF) :: u8) = ucast (drop_bit k l)"
    by (rule bit_word_eqI) (auto simp: bit_simps less_8_cases)
  then show ?thesis using u32_range [of l] by (simp add: unsigned_ucast_eq unsigned_take_bit_eq unsigned_drop_bit_eq drop_bit_eq_div [where 'a = nat] take_bit_eq_mod [where 'a = nat])
qed

lemma head_nibble: "unat (head_byte dr l AND 0x0F) = unat l div 2 ^ 24 mod 16"
proof -
  have "head_byte dr l AND 0x0F = ucast (take_bit 4 (drop_bit 24 l))"
    unfolding head_byte_low by (rule bit_word_eqI) (auto simp: bit_simps less_8_cases)
  moreover have "unat (take_bit 4 (drop_bit 24 l)) < 2 ^ 8"
    by (simp add: unsigned_take_bit_eq take_bit_eq_mod [where 'a = nat])
  ultimately show ?thesis using u32_range [of l]
    by (simp add: unsigned_ucast_eq unsigned_take_bit_eq unsigned_drop_bit_eq take_bit_eq_mod [where 'a = nat] drop_bit_eq_div [where 'a = nat])
qed

lemma lba_digits: "n < 268435456 \<Longrightarrow>
  n mod 256 + 256 * (n div 2 ^ 8 mod 256) + 65536 * (n div 2 ^ 16 mod 256) + 16777216 * (n div 2 ^ 24 mod 16) = (n :: nat)"
proof -
  assume n: "n < 268435456"
  define a b c where "a = n div 256" and "b = a div 256" and "c = b div 256"
  have "n div 2 ^ 8 = a" "n div 2 ^ 16 = b" "n div 2 ^ 24 = c"
    by (simp_all add: a_def b_def c_def div_mult2_eq [symmetric])
  moreover have "c < 16" using n by (simp add: a_def b_def c_def)
  moreover have "n = 256 * a + n mod 256" "a = 256 * b + a mod 256" "b = 256 * c + b mod 256"
    by (simp_all add: a_def b_def c_def)
  ultimately show ?thesis by simp
qed

definition command_view :: "u8 \<Rightarrow> u32 \<Rightarrow> u8 \<Rightarrow> ata_view \<Rightarrow> ata_view" where
  "command_view dr l cnt v =
     v\<lparr>av_count := cnt, av_lo := ucast (l AND 0xFF), av_mid := ucast (drop_bit 8 l AND 0xFF),
       av_hi := ucast (drop_bit 16 l AND 0xFF), av_head := head_byte dr l\<rparr>"

lemma sel_command_view [simp]:
  assumes "unat l < 268435456" and "unat dr < 2"
  shows "sel_lba (command_view dr l cnt v) = unat l" and "sel_drive (command_view dr l cnt v) = unat dr"
    and "sel_count (command_view dr l cnt v) = (if cnt = 0 then 256 else unat cnt)"
proof -
  have "dr = 0 \<or> dr = 1" using assms(2) by (simp add: less_2_cases_iff word_unat_eq_iff)
  then show "sel_drive (command_view dr l cnt v) = unat dr"
    by (auto simp: sel_drive_def command_view_def head_byte_drive)
  show "sel_lba (command_view dr l cnt v) = unat l"
    using lba_byte [of 0 l] lba_byte [of 8 l] lba_byte [of 16 l] lba_digits [OF assms(1)]
    by (simp add: sel_lba_def command_view_def head_nibble)
qed (simp add: sel_count_def command_view_def)

text \<open>Issuing a command.\<close>

lemma ata_command_view:
  assumes c: "ata_conforms io view cap" and d: "av_busy (view d) = 0" "av_xfer (view d) = Idle"
    and l: "unat l < 268435456" and dr: "unat dr < 2"
    and r: "unat l + (if cnt = 0 then 256 else unat cnt) \<le> cap (unat dr)"
  shows "\<exists>b < 100000. view (ata_command io dr l cnt M4K_ATA_CMD_READ_PIO d) =
      (command_view dr l cnt (view d))\<lparr>av_busy := b, av_error := False,
        av_xfer := Sending (unat dr) (unat l) (if cnt = 0 then 256 else unat cnt)\<rparr>"
    and "\<exists>b < 100000. view (ata_command io dr l cnt M4K_ATA_CMD_WRITE_PIO d) =
      (command_view dr l cnt (view d))\<lparr>av_busy := b, av_error := False,
        av_xfer := Taking (unat dr) (unat l) (if cnt = 0 then 256 else unat cnt)\<rparr>"
proof -
  let ?v = "command_view dr l cnt (view d)"
  define d5 where "d5 = p_outb io M4K_ATA_PRIMARY_DRIVE_HEAD (head_byte dr l)
    (p_outb io M4K_ATA_PRIMARY_LBA_HI (ucast (drop_bit 16 l AND 0xFF))
    (p_outb io M4K_ATA_PRIMARY_LBA_MID (ucast (drop_bit 8 l AND 0xFF))
    (p_outb io M4K_ATA_PRIMARY_LBA_LO (ucast (l AND 0xFF)) (p_outb io M4K_ATA_PRIMARY_SECCOUNT cnt d))))"
  have "register_law io view" using c by (simp add: ata_conforms_def)
  then have v5: "view d5 = ?v" using d by (simp add: register_law_def d5_def command_view_def)
  have "av_busy ?v = 0" "av_xfer ?v = Idle" "bit (av_head ?v) 6"
    using d by (simp_all add: command_view_def head_byte_lba)
  with c v5 r have *:
    "\<exists>b < 100000. view (p_outb io M4K_ATA_PRIMARY_COMMAND M4K_ATA_CMD_READ_PIO d5) =
       ?v\<lparr>av_busy := b, av_error := False, av_xfer := Sending (unat dr) (unat l) (if cnt = 0 then 256 else unat cnt)\<rparr>"
    "\<exists>b < 100000. view (p_outb io M4K_ATA_PRIMARY_COMMAND M4K_ATA_CMD_WRITE_PIO d5) =
       ?v\<lparr>av_busy := b, av_error := False, av_xfer := Taking (unat dr) (unat l) (if cnt = 0 then 256 else unat cnt)\<rparr>"
    by (auto simp: ata_conforms_def command_law_def Let_def l dr dest!: spec [of _ d5])
  have cmd: "ata_command io dr l cnt cmd d = ata_delay_400ns io (p_outb io M4K_ATA_PRIMARY_COMMAND cmd d5)" for cmd
    by (simp add: ata_command_def d5_def)
  show "\<exists>b < 100000. view (ata_command io dr l cnt M4K_ATA_CMD_READ_PIO d) =
      ?v\<lparr>av_busy := b, av_error := False, av_xfer := Sending (unat dr) (unat l) (if cnt = 0 then 256 else unat cnt)\<rparr>"
    using *(1) unfolding cmd view_delay [OF c] by (elim exE conjE, intro busy_4)
  show "\<exists>b < 100000. view (ata_command io dr l cnt M4K_ATA_CMD_WRITE_PIO d) =
      ?v\<lparr>av_busy := b, av_error := False, av_xfer := Taking (unat dr) (unat l) (if cnt = 0 then 256 else unat cnt)\<rparr>"
    using *(2) unfolding cmd view_delay [OF c] by (elim exE conjE, intro busy_4)
qed

section \<open>Transfers\<close>

definition disk_bytes :: "(nat \<Rightarrow> 'a list) \<Rightarrow> nat \<Rightarrow> nat \<Rightarrow> 'a list" where
  "disk_bytes sec l n = concat (map sec [l..<l + n])"

lemma disk_bytes_0 [simp]: "disk_bytes sec l 0 = []"
  by (simp add: disk_bytes_def)

lemma disk_bytes_Suc: "disk_bytes sec l (Suc n) = sec l @ disk_bytes sec (Suc l) n"
  by (simp add: disk_bytes_def upt_conv_Cons del: upt_Suc)

lemma disk_bytes_add: "disk_bytes sec l (m + n) = disk_bytes sec l m @ disk_bytes sec (l + m) n"
  by (induction m arbitrary: l) (simp_all add: disk_bytes_Suc)

definition put_sectors :: "nat \<Rightarrow> nat \<Rightarrow> u8 list \<Rightarrow> nat \<Rightarrow> (nat \<Rightarrow> nat \<Rightarrow> u8 list) \<Rightarrow> (nat \<Rightarrow> nat \<Rightarrow> u8 list)" where
  "put_sectors dr l bs n disk =
     (\<lambda>dr' l'. if dr' = dr \<and> l \<le> l' \<and> l' < l + n then take 512 (drop (512 * (l' - l)) bs) else disk dr' l')"

lemma put_sectors_0 [simp]: "put_sectors dr l bs 0 disk = disk"
  by (auto simp: put_sectors_def fun_eq_iff)

lemma put_sectors_add:
  "put_sectors dr (l + m) (drop (512 * m) bs) n (put_sectors dr l bs m disk) = put_sectors dr l bs (m + n) disk"
  by (auto simp: put_sectors_def fun_eq_iff algebra_simps intro!: arg_cong [of _ _ "take 512"] arg_cong2 [of _ _ _ _ drop])

lemma put_sectors_1: "put_sectors dr l bs (Suc 0) disk = put_sector dr l (take 512 bs) disk"
  by (auto simp: put_sectors_def put_sector_def fun_eq_iff)

lemma disk_bytes_put:
  assumes "length bs = 512 * n"
  shows "disk_bytes (put_sectors dr l bs n disk dr) l n = bs"
proof -
  have "m \<le> n \<Longrightarrow> disk_bytes (put_sectors dr l bs n disk dr) l m = take (512 * m) bs" for m
  proof (induction m)
    case (Suc m)
    then show ?case using disk_bytes_add [of "put_sectors dr l bs n disk dr" l m 1] take_add [of "512 * m" 512 bs]
      by (simp add: disk_bytes_Suc put_sectors_def add.commute)
  qed simp
  from this [of n] assms show ?thesis by simp
qed

lemma read_batch_ok:
  assumes c: "ata_conforms io view cap"
  shows "\<lbrakk>av_xfer (view d) = sending dr l n; av_busy (view d) < 100000; \<not> av_error (view d)\<rbrakk> \<Longrightarrow>
    \<exists>d'. read_batch io n d = ((0, disk_bytes (av_disk (view d) dr) l n), d') \<and> ata_idle (view d') \<and>
         av_disk (view d') = av_disk (view d)"
proof (induction n arbitrary: d l)
  case (Suc n)
  then have "av_xfer (view d) = Sending dr l (Suc n)" by (simp add: sending_def)
  moreover obtain d1 where d1: "mkrn_ata_wait_drq io 100000 d = (0, d1)" "view d1 = (view d)\<lparr>av_busy := 0\<rparr>"
    using wait_drq_call [OF c, of d] Suc.prems by (auto simp: sending_def)
  moreover obtain bs d2 where d2: "p_insw io M4K_ATA_PRIMARY_DATA 256 d1 = (bs, d2)" by fastforce
  ultimately obtain b where "bs = av_disk (view d) dr l" "b < 100000"
    "view d2 = (view d)\<lparr>av_busy := b, av_xfer := sending dr (Suc l) n\<rparr>"
    using c by (auto simp: ata_conforms_def data_law_def dest!: spec [of _ d1])
  then show ?case using Suc.IH [of d2 "Suc l"] Suc.prems d1 d2 by (auto simp: disk_bytes_Suc)
qed (auto simp: sending_def ata_idle_def)

lemma outsw_view:
  assumes "ata_conforms io view cap" and "av_busy (view d) = 0" and "av_xfer (view d) = Taking dr l (Suc n)"
    and "length bs = 512"
  shows "\<exists>b < 100000. view (p_outsw io M4K_ATA_PRIMARY_DATA bs d) =
    (view d)\<lparr>av_busy := b, av_xfer := taking dr (Suc l) n, av_disk := put_sector dr l bs (av_disk (view d))\<rparr>"
  using assms unfolding ata_conforms_def data_law_def by blast

lemma write_batch_ok:
  assumes c: "ata_conforms io view cap"
  shows "\<lbrakk>av_xfer (view d) = taking dr l n; av_busy (view d) < 100000; \<not> av_error (view d); 512 * n \<le> length bs\<rbrakk> \<Longrightarrow>
    \<exists>d'. write_batch io n bs d = (0, d') \<and> ata_idle (view d') \<and>
         av_disk (view d') = put_sectors dr l bs n (av_disk (view d))"
proof (induction n arbitrary: d l bs)
  case (Suc n)
  then have "av_xfer (view d) = Taking dr l (Suc n)" by (simp add: taking_def)
  moreover obtain d1 where d1: "mkrn_ata_wait_drq io 100000 d = (0, d1)" "view d1 = (view d)\<lparr>av_busy := 0\<rparr>"
    using wait_drq_call [OF c, of d] Suc.prems by (auto simp: taking_def)
  moreover have "length (take 512 bs) = 512" using Suc.prems by simp
  ultimately obtain b where "b < 100000" "view (p_outsw io M4K_ATA_PRIMARY_DATA (take 512 bs) d1) =
      (view d)\<lparr>av_busy := b, av_xfer := taking dr (Suc l) n, av_disk := put_sector dr l (take 512 bs) (av_disk (view d))\<rparr>"
    using outsw_view [OF c, of d1 dr l n "take 512 bs"] by auto
  then show ?case using Suc.IH [of "p_outsw io M4K_ATA_PRIMARY_DATA (take 512 bs) d1" "Suc l" "drop 512 bs"] Suc.prems d1
    put_sectors_add [of dr l 1 bs n "av_disk (view d)"]
    by (auto simp: M4K_ATA_SECTOR_SIZE_def put_sectors_1)
qed (auto simp: taking_def ata_idle_def)

lemma batch_count_256: "\<lbrakk>0 < n; n \<le> 256\<rbrakk> \<Longrightarrow> (if batch_count n = 0 then 256 else unat (batch_count n)) = n"
  by (cases "n = 256") (auto simp: batch_count_def unat_of_nat_small word_unat_eq_iff)

lemma ata_read_loop_ok:
  assumes c: "ata_conforms io view cap" and dr: "unat dr < 2"
  shows "\<lbrakk>ata_idle (view d); unat l + left \<le> cap (unat dr); unat l + left < 268435456\<rbrakk> \<Longrightarrow>
    \<exists>d'. ata_read_loop io dr l left d = ((0, disk_bytes (av_disk (view d) (unat dr)) (unat l) left), d') \<and>
         ata_idle (view d') \<and> av_disk (view d') = av_disk (view d)"
proof (induction left arbitrary: l d rule: less_induct)
  case (less left)
  show ?case
  proof (cases "left = 0")
    case False
    define m where "m = min left 256"
    with False have m: "0 < m" "m \<le> 256" "m \<le> left" by auto
    obtain d1 where d1: "mkrn_ata_wait_bsy io 100000 d = (0, d1)" "view d1 = (view d)\<lparr>av_busy := 0\<rparr>"
      using wait_bsy_call [OF c, of d] less.prems by (auto simp: ata_idle_def)
    let ?d2 = "ata_command io dr l (batch_count m) M4K_ATA_CMD_READ_PIO d1"
    have "\<exists>b < 100000. view ?d2 = (command_view dr l (batch_count m) (view d1))\<lparr>av_busy := b, av_error := False,
        av_xfer := Sending (unat dr) (unat l) m\<rparr>"
      using ata_command_view(1) [OF c, of d1 l dr "batch_count m"] d1 less.prems m dr
      by (simp add: batch_count_256 ata_idle_def)
    then have v2: "av_xfer (view ?d2) = sending (unat dr) (unat l) m" "av_busy (view ?d2) < 100000"
      "\<not> av_error (view ?d2)" "av_disk (view ?d2) = av_disk (view d)"
      using m d1 by (auto simp: sending_def command_view_def)
    then obtain d3 where d3: "read_batch io m ?d2 = ((0, disk_bytes (av_disk (view d) (unat dr)) (unat l) m), d3)"
      "ata_idle (view d3)" "av_disk (view d3) = av_disk (view d)"
      using read_batch_ok [OF c, of ?d2 "unat dr" "unat l" m] by auto
    have l: "unat (l + of_nat m) = unat l + m" using less.prems m
      by (subst unat_plus_simple [THEN iffD1]) (auto simp: word_le_nat_alt unat_word_ariths unat_of_nat_small)
    with less.IH [of "left - m" d3 "l + of_nat m"] d3 m less.prems obtain d4 where
      "ata_read_loop io dr (l + of_nat m) (left - m) d3 =
         ((0, disk_bytes (av_disk (view d) (unat dr)) (unat l + m) (left - m)), d4)"
      "ata_idle (view d4)" "av_disk (view d4) = av_disk (view d)" by auto
    with d1 d3 m show ?thesis
      by (subst ata_read_loop.simps)
        (simp add: m_def [symmetric] disk_bytes_add [symmetric])
  qed (use less.prems in \<open>simp add: ata_read_loop.simps\<close>)
qed

lemma ata_write_loop_ok:
  assumes c: "ata_conforms io view cap" and dr: "unat dr < 2"
  shows "\<lbrakk>ata_idle (view d); unat l + left \<le> cap (unat dr); unat l + left < 268435456; 512 * left \<le> length bs\<rbrakk> \<Longrightarrow>
    \<exists>d'. ata_write_loop io dr l left bs d = (0, d') \<and> ata_idle (view d') \<and>
         av_disk (view d') = put_sectors (unat dr) (unat l) bs left (av_disk (view d))"
proof (induction left arbitrary: l d bs rule: less_induct)
  case (less left)
  show ?case
  proof (cases "left = 0")
    case False
    define m where "m = min left 256"
    with False have m: "0 < m" "m \<le> 256" "m \<le> left" by auto
    obtain d1 where d1: "mkrn_ata_wait_bsy io 100000 d = (0, d1)" "view d1 = (view d)\<lparr>av_busy := 0\<rparr>"
      using wait_bsy_call [OF c, of d] less.prems by (auto simp: ata_idle_def)
    let ?d2 = "ata_command io dr l (batch_count m) M4K_ATA_CMD_WRITE_PIO d1"
    have "\<exists>b < 100000. view ?d2 = (command_view dr l (batch_count m) (view d1))\<lparr>av_busy := b, av_error := False,
        av_xfer := Taking (unat dr) (unat l) m\<rparr>"
      using ata_command_view(2) [OF c, of d1 l dr "batch_count m"] d1 less.prems m dr
      by (simp add: batch_count_256 ata_idle_def)
    then have v2: "av_xfer (view ?d2) = taking (unat dr) (unat l) m" "av_busy (view ?d2) < 100000"
      "\<not> av_error (view ?d2)" "av_disk (view ?d2) = av_disk (view d)"
      using m d1 by (auto simp: taking_def command_view_def)
    then obtain d3 where d3: "write_batch io m bs ?d2 = (0, d3)" "ata_idle (view d3)"
      "av_disk (view d3) = put_sectors (unat dr) (unat l) bs m (av_disk (view d))"
      using write_batch_ok [OF c, of ?d2 "unat dr" "unat l" m bs] less.prems m by auto
    obtain d4 where d4: "mkrn_ata_wait_bsy io 100000 d3 = (0, d4)" "view d4 = (view d3)\<lparr>av_busy := 0\<rparr>"
      using wait_bsy_call [OF c, of d3] d3 by (auto simp: ata_idle_def)
    have l: "unat (l + of_nat m) = unat l + m" using less.prems m
      by (subst unat_plus_simple [THEN iffD1]) (auto simp: word_le_nat_alt unat_word_ariths unat_of_nat_small)
    moreover have "512 * (left - m) \<le> length (drop (512 * m) bs)" using less.prems by (simp add: diff_mult_distrib2)
    ultimately obtain d5 where
      "ata_write_loop io dr (l + of_nat m) (left - m) (drop (512 * m) bs) d4 = (0, d5)" "ata_idle (view d5)"
      "av_disk (view d5) = put_sectors (unat dr) (unat l + m) (drop (512 * m) bs) (left - m)
         (put_sectors (unat dr) (unat l) bs m (av_disk (view d)))"
      using less.IH [of "left - m" d4 "l + of_nat m" "drop (512 * m) bs"] d3 d4 m less.prems
      by (auto simp: ata_idle_def)
    with d1 d3 d4 m show ?thesis
      by (subst ata_write_loop.simps)
        (simp add: m_def [symmetric] put_sectors_add M4K_ATA_SECTOR_SIZE_def mult.commute [of m 512])
  qed (use less.prems in \<open>simp add: ata_write_loop.simps\<close>)
qed

text \<open>A drive the driver knows, on a controller ready for a command.\<close>

definition drive_ready :: "'d ports \<Rightarrow> ('d \<Rightarrow> ata_view) \<Rightarrow> (nat \<Rightarrow> nat) \<Rightarrow> u8 \<Rightarrow> 'd ata \<Rightarrow> bool" where
  "drive_ready io view cap dr s \<longleftrightarrow> ata_conforms io view cap \<and> \<not> no_drive dr s \<and> ata_idle (view (ata_hw s))"

definition sectors_of :: "('d \<Rightarrow> ata_view) \<Rightarrow> 'd ata \<Rightarrow> nat \<Rightarrow> nat \<Rightarrow> u8 list" where
  "sectors_of view s = av_disk (view (ata_hw s))"

text \<open>The path for a single sector is the loop run once.\<close>

lemma read_sectors_loop:
  "mkrn_ata_read_sectors io dr l n s =
     (if bad_transfer dr l n s then ((-1, []), s)
      else case ata_read_loop io dr l (unat n) (ata_hw s) of (r, d) \<Rightarrow> (r, s\<lparr>ata_hw := d\<rparr>))"
  by (cases "n = 1")
    (auto simp: mkrn_ata_read_sectors_def ata_read_loop.simps [of io dr l "Suc 0"] ata_read_loop.simps [of _ _ _ 0]
      batch_count_def split: prod.splits)

lemma good_transfer:
  assumes "drive_ready io view cap dr s" and "0 < unat n" and "unat l + unat n \<le> 0x0FFFFFFF"
  shows "\<not> bad_transfer dr l n s" and "unat dr < 2"
proof -
  have l: "l \<le> 0x0FFFFFFF" using assms(3) by (simp add: word_le_nat_alt)
  then have "unat (0x0FFFFFFF - l) = 0x0FFFFFFF - unat l" by (simp add: unat_sub)
  with l show "\<not> bad_transfer dr l n s"
    using assms by (auto simp: bad_transfer_def drive_ready_def word_less_nat_alt word_le_nat_alt)
  show "unat dr < 2" using assms by (simp add: drive_ready_def no_drive_def M4K_ATA_MAX_DRIVES_def)
qed

lemma ata_read_ok:
  assumes r: "drive_ready io view cap dr s" and n: "0 < unat n" and l: "unat l + unat n \<le> cap (unat dr)"
    and b: "unat l + unat n \<le> 0x0FFFFFFF"
  obtains d where "mkrn_ata_read_sectors io dr l n s =
      ((0, disk_bytes (sectors_of view s (unat dr)) (unat l) (unat n)), s\<lparr>ata_hw := d\<rparr>)"
    and "ata_idle (view d)" and "av_disk (view d) = sectors_of view s"
  using ata_read_loop_ok [of io view cap dr "ata_hw s" l "unat n"] good_transfer [OF r n b] assms that
  by (auto simp: read_sectors_loop drive_ready_def sectors_of_def)

lemma ata_write_ok:
  assumes r: "drive_ready io view cap dr s" and n: "0 < unat n" and l: "unat l + unat n \<le> cap (unat dr)"
    and b: "unat l + unat n \<le> 0x0FFFFFFF" and bs: "512 * unat n \<le> length bs"
  obtains d where "mkrn_ata_write_sectors io dr l n bs s = (0, s\<lparr>ata_hw := d\<rparr>)"
    and "ata_idle (view d)" and "av_disk (view d) = put_sectors (unat dr) (unat l) bs (unat n) (sectors_of view s)"
proof -
  obtain d1 where d1: "mkrn_ata_wait_bsy io 100000 (ata_hw s) = (0, d1)" "view d1 = (view (ata_hw s))\<lparr>av_busy := 0\<rparr>"
    using wait_bsy_call [of io view cap "ata_hw s"] r by (auto simp: ata_idle_def drive_ready_def)
  then show thesis
    using ata_write_loop_ok [of io view cap dr d1 l "unat n" bs] good_transfer [OF r n b] assms that
    by (auto simp: mkrn_ata_write_sectors_def drive_ready_def sectors_of_def ata_idle_def)
qed

text \<open>C28. On a controller that conforms to its documentation, for a drive the driver
  knows and sectors the drive has below address \<open>2 ^ 28 - 1\<close>: writing sectors succeeds, reading them afterwards
  returns the bytes written, however many commands of 256 sectors the transfers take,
  and every other sector of both drives keeps its contents.\<close>

theorem ata_write_read:
  assumes r: "drive_ready io view cap dr s" and n: "0 < unat n" and l: "unat l + unat n \<le> cap (unat dr)"
    and b: "unat l + unat n \<le> 0x0FFFFFFF" and bs: "length bs = 512 * unat n"
  shows "fst (mkrn_ata_write_sectors io dr l n bs s) = 0 \<and>
    fst (mkrn_ata_read_sectors io dr l n (snd (mkrn_ata_write_sectors io dr l n bs s))) = (0, bs) \<and>
    (\<forall>dr' l'. \<not> (dr' = unat dr \<and> unat l \<le> l' \<and> l' < unat l + unat n) \<longrightarrow>
       sectors_of view (snd (mkrn_ata_write_sectors io dr l n bs s)) dr' l' = sectors_of view s dr' l')"
proof -
  obtain d where d: "mkrn_ata_write_sectors io dr l n bs s = (0, s\<lparr>ata_hw := d\<rparr>)" "ata_idle (view d)"
    "av_disk (view d) = put_sectors (unat dr) (unat l) bs (unat n) (sectors_of view s)"
    using ata_write_ok [OF r n l b, of bs] bs by auto
  then have "drive_ready io view cap dr (s\<lparr>ata_hw := d\<rparr>)"
    using r by (simp add: drive_ready_def no_drive_def)
  from ata_read_ok [OF this n l b] obtain d' where
    "mkrn_ata_read_sectors io dr l n (s\<lparr>ata_hw := d\<rparr>) =
       ((0, disk_bytes (sectors_of view (s\<lparr>ata_hw := d\<rparr>) (unat dr)) (unat l) (unat n)), s\<lparr>ata_hw := d'\<rparr>)" by auto
  moreover have "sectors_of view (s\<lparr>ata_hw := d\<rparr>) = put_sectors (unat dr) (unat l) bs (unat n) (sectors_of view s)"
    using d(3) by (simp add: sectors_of_def)
  ultimately show ?thesis using d(1) disk_bytes_put [OF bs] by (auto simp: put_sectors_def)
qed

text \<open>A controller that conforms: it is busy for three polls after every command and
  every sector.\<close>

definition sim_out :: "u16 \<Rightarrow> u8 \<Rightarrow> ata_view \<Rightarrow> ata_view" where
  "sim_out port b v =
     (if port = M4K_ATA_PRIMARY_SECCOUNT then v\<lparr>av_count := b\<rparr>
      else if port = M4K_ATA_PRIMARY_LBA_LO then v\<lparr>av_lo := b\<rparr>
      else if port = M4K_ATA_PRIMARY_LBA_MID then v\<lparr>av_mid := b\<rparr>
      else if port = M4K_ATA_PRIMARY_LBA_HI then v\<lparr>av_hi := b\<rparr>
      else if port = M4K_ATA_PRIMARY_DRIVE_HEAD then v\<lparr>av_head := b\<rparr>
      else if port = M4K_ATA_PRIMARY_COMMAND then
        v\<lparr>av_busy := 3, av_error := False, av_xfer :=
            (if b = M4K_ATA_CMD_READ_PIO then Sending else Taking) (sel_drive v) (sel_lba v) (sel_count v)\<rparr>
      else v)"

definition sim_ports :: "ata_view ports" where
  "sim_ports =
     \<lparr>p_inb = (\<lambda>port v. (if 0 < av_busy v then M4K_ATA_SR_BSY else if av_xfer v = Idle then 0x40 else M4K_ATA_SR_DRQ,
                         v\<lparr>av_busy := av_busy v - 1\<rparr>)),
      p_outb = sim_out,
      p_insw = (\<lambda>port n v. case av_xfer v of
          Sending dr l m \<Rightarrow> (av_disk v dr l, v\<lparr>av_busy := 3, av_xfer := sending dr (Suc l) (m - 1)\<rparr>)
        | _ \<Rightarrow> ([], v)),
      p_outsw = (\<lambda>port bs v. case av_xfer v of
          Taking dr l m \<Rightarrow> v\<lparr>av_busy := 3, av_xfer := taking dr (Suc l) (m - 1),
                             av_disk := put_sector dr l bs (av_disk v)\<rparr>
        | _ \<Rightarrow> v)\<rparr>"

lemma sim_conforms: "ata_conforms sim_ports id cap"
proof -
  have "status_law sim_ports id"
    by (simp add: status_law_def sim_ports_def M4K_ATA_SR_BSY_def M4K_ATA_SR_ERR_def M4K_ATA_SR_DF_def M4K_ATA_SR_DRQ_def)
  moreover have "register_law sim_ports id"
    by (simp add: register_law_def sim_ports_def sim_out_def ata_ports)
  moreover have "command_law sim_ports id cap"
    by (simp add: command_law_def sim_ports_def sim_out_def ata_ports M4K_ATA_CMD_READ_PIO_def M4K_ATA_CMD_WRITE_PIO_def
      exI [of _ 3] Let_def)
  moreover have "data_law sim_ports id"
    by (simp add: data_law_def sim_ports_def exI [of _ 3])
  ultimately show ?thesis by (simp add: ata_conforms_def)
qed

definition sim_disk :: "(nat \<Rightarrow> nat \<Rightarrow> u8 list) \<Rightarrow> ata_view ata" where
  "sim_disk disk = \<lparr>ata_drives = [drive_zero\<lparr>ad_present := True, ad_sectors := 2048\<rparr>, drive_zero],
     ata_initialized = True,
     ata_hw = \<lparr>av_count = 0, av_lo = 0, av_mid = 0, av_hi = 0, av_head = 0, av_busy = 0, av_error = False,
               av_xfer = Idle, av_disk = disk\<rparr>\<rparr>"

lemma sim_ready: "drive_ready sim_ports id cap 0 (sim_disk disk)"
  by (simp add: drive_ready_def sim_conforms no_drive_def sim_disk_def ata_idle_def M4K_ATA_MAX_DRIVES_def)

lemma ata_write_read_witness:
  "fst (mkrn_ata_read_sectors sim_ports 0 7 300
     (snd (mkrn_ata_write_sectors sim_ports 0 7 300 (replicate (512 * 300) 1) (sim_disk (\<lambda>dr l. replicate 512 0))))) =
   (0, replicate (512 * 300) 1)"
  using ata_write_read [OF sim_ready, of 300 7 "\<lambda>_. 2048" "replicate (512 * 300) 1" "\<lambda>dr l. replicate 512 0"]
  by (simp del: replicate.simps)

text \<open>The last sector an address of 28 bits can name is refused, although the source
  calls it valid.\<close>

lemma ata_last_sector:
  "mkrn_ata_read_sectors io dr 0x0FFFFFFF n s = ((-1, []), s)"
  by (simp add: mkrn_ata_read_sectors_def bad_transfer_def word_neq_0_conv)

end
