(* ===== verification/Devfs.thy ===== *)
theory Devfs
  imports Ata Vfs
begin

text \<open>
  The device filesystem (\<open>sys/src/fs/devfs/mkrn_devfs.c\<close>): \<open>/dev/hda\<close>, \<open>/dev/hda1\<close>
  and so on, as byte streams over the sectors of a disk or of one of its partitions.
  \<open>dv_ata\<close> is the state of the disk driver. The effective user of the caller is an
  argument, a path is the list of its characters, and a read gives the value returned
  and the bytes put into the caller's buffer.
\<close>

unbundle bit_operations_syntax

definition DEVFS_MAX_FILES :: nat where "DEVFS_MAX_FILES = 64"
definition DEVFS_MAX_NAME :: nat where "DEVFS_MAX_NAME = 32"
definition DEVFS_FD_BASE :: int where "DEVFS_FD_BASE = 1000"
definition DEVFS_FD_LIMIT :: int where "DEVFS_FD_LIMIT = 1024"
definition DEVFS_MAX_DRIVES :: nat where "DEVFS_MAX_DRIVES = 2"
definition DEVFS_MAX_PARTS :: nat where "DEVFS_MAX_PARTS = 4"
definition M4K_O_RDWR :: u32 where "M4K_O_RDWR = 0x4"

record devfs_file =
  df_fd :: int
  df_name :: "u8 list"
  df_drive :: u8
  df_start_lba :: u64
  df_size_sectors :: u64
  df_offset :: u64
  df_is_dir :: bool
  df_in_use :: bool

record 'd devfs =
  devfs_files :: "devfs_file list"
  devfs_next_fd :: int
  devfs_parts :: "mkrn_mbr_partition list list"
  devfs_nparts :: "int list"
  devfs_initialized :: bool
  dv_ata :: "'d ata"

definition devfs_file_zero :: devfs_file where
  "devfs_file_zero = \<lparr>df_fd = 0, df_name = replicate DEVFS_MAX_NAME 0, df_drive = 0, df_start_lba = 0,
     df_size_sectors = 0, df_offset = 0, df_is_dir = False, df_in_use = False\<rparr>"

definition devfs_bss :: "'d ata \<Rightarrow> 'd devfs" where
  "devfs_bss a = \<lparr>devfs_files = replicate DEVFS_MAX_FILES devfs_file_zero, devfs_next_fd = DEVFS_FD_BASE,
     devfs_parts = replicate DEVFS_MAX_DRIVES (replicate DEVFS_MAX_PARTS part_zero),
     devfs_nparts = replicate DEVFS_MAX_DRIVES 0, devfs_initialized = False, dv_ata = a\<rparr>"

section \<open>Initialisation and the table of open files\<close>

fun read_tables :: "'d ports \<Rightarrow> nat list \<Rightarrow> 'd devfs \<Rightarrow> 'd devfs" where
  "read_tables io [] s = s"
| "read_tables io (d # ds) s =
     (if mkrn_ata_get_sectors (of_nat d) (dv_ata s) = 0 then read_tables io ds s
      else case mkrn_ata_read_mbr io (of_nat d) (dv_ata s) of ((n, parts), a) \<Rightarrow>
        read_tables io ds (s\<lparr>devfs_parts := (devfs_parts s)[d := parts],
                             devfs_nparts := (devfs_nparts s)[d := (if 0 < n then n else 0)], dv_ata := a\<rparr>))"

definition mkrn_devfs_init :: "'d ports \<Rightarrow> 'd devfs \<Rightarrow> 'd devfs" where
  "mkrn_devfs_init io s =
     (let s0 = s\<lparr>devfs_files := replicate DEVFS_MAX_FILES devfs_file_zero,
                 devfs_parts := replicate DEVFS_MAX_DRIVES (replicate DEVFS_MAX_PARTS part_zero),
                 devfs_nparts := replicate DEVFS_MAX_DRIVES 0\<rparr>
      in (read_tables io [0..<DEVFS_MAX_DRIVES] s0)\<lparr>devfs_initialized := True\<rparr>)"

definition devfs_alloc_file :: "'d devfs \<Rightarrow> (nat \<times> 'd devfs) option" where
  "devfs_alloc_file s =
     (case find (\<lambda>i. \<not> df_in_use (devfs_files s ! i)) [0..<DEVFS_MAX_FILES] of
        None \<Rightarrow> None
      | Some i \<Rightarrow>
          let nxt = devfs_next_fd s + 1 in
          Some (i, s\<lparr>devfs_files := (devfs_files s)[i := (devfs_files s ! i)
                        \<lparr>df_fd := devfs_next_fd s, df_in_use := True, df_offset := 0\<rparr>],
                     devfs_next_fd := (if DEVFS_FD_LIMIT \<le> nxt then DEVFS_FD_BASE else nxt)\<rparr>))"

definition devfs_find_by_fd :: "int \<Rightarrow> 'd devfs \<Rightarrow> nat option" where
  "devfs_find_by_fd n s =
     find (\<lambda>i. df_in_use (devfs_files s ! i) \<and> df_fd (devfs_files s ! i) = n) [0..<DEVFS_MAX_FILES]"

definition devfs_set :: "nat \<Rightarrow> (devfs_file \<Rightarrow> devfs_file) \<Rightarrow> 'd devfs \<Rightarrow> 'd devfs" where
  "devfs_set i f s = s\<lparr>devfs_files := (devfs_files s)[i := f (devfs_files s ! i)]\<rparr>"

section \<open>Opening and closing\<close>

definition skip_slashes :: "u8 list \<Rightarrow> u8 list" where
  "skip_slashes p = dropWhile (\<lambda>c. c = 47) p"

text \<open>The character at an index of a string, which is its terminator past the last.\<close>

definition char_at :: "u8 list \<Rightarrow> nat \<Rightarrow> u8" where
  "char_at p i = (if i < length p then p ! i else 0)"

text \<open>The drive and the partition; -1 is the raw disk.\<close>

definition devfs_parse_path :: "u8 list \<Rightarrow> (u8 \<times> int) option" where
  "devfs_parse_path path =
     (let p = skip_slashes path in
      if \<not> starts_with ''dev/'' p then None
      else let q = drop 4 p in
        if q = [] then None
        else if char_at q 0 \<noteq> of_char CHR ''h'' \<or> char_at q 1 \<noteq> of_char CHR ''d'' then None
        else if char_at q 2 \<noteq> of_char CHR ''a'' \<and> char_at q 2 \<noteq> of_char CHR ''b'' then None
        else let drive = (if char_at q 2 = of_char CHR ''a'' then 0 else 1) in
          if of_char CHR ''1'' \<le> char_at q 3 \<and> char_at q 3 \<le> of_char CHR ''4''
          then Some (drive, int (unat (char_at q 3)) - 49)
          else if char_at q 3 \<noteq> 0 then None
          else Some (drive, -1))"

text \<open>The result is the status and the descriptor stored to the caller.\<close>

definition open_entry :: "u8 list \<Rightarrow> (devfs_file \<Rightarrow> devfs_file) \<Rightarrow> 'd devfs \<Rightarrow> (int \<times> int) \<times> 'd devfs" where
  "open_entry path f s =
     (case devfs_alloc_file s of
        None \<Rightarrow> ((-1, 0), s)
      | Some (i, s1) \<Rightarrow>
          let s2 = devfs_set i (\<lambda>e. (f e)\<lparr>df_name := copy_field (df_name e) path (DEVFS_MAX_NAME - 1)\<rparr>) s1
          in ((0, df_fd (devfs_files s2 ! i)), s2))"

text \<open>The sectors of a node: those of the partition, cut off at the end of the disk.\<close>

definition node_range :: "u8 \<Rightarrow> int \<Rightarrow> 'd devfs \<Rightarrow> (u64 \<times> u64) option" where
  "node_range drive part s =
     (let drive_sectors = mkrn_ata_get_sectors drive (dv_ata s) in
      if drive_sectors = 0 then None
      else if part < 0 then Some (0, drive_sectors)
      else let e = devfs_parts s ! unat drive ! nat part in
        if devfs_nparts s ! unat drive \<le> part \<or> \<not> mp_valid e then None
        else let start_lba = ucast (mp_lba_start e); size_sectors = ucast (mp_lba_count e) in
          Some (start_lba, if drive_sectors < start_lba + size_sectors then drive_sectors - start_lba else size_sectors))"

definition mkrn_devfs_open :: "u32 \<Rightarrow> u8 list \<Rightarrow> u32 \<Rightarrow> 'd devfs \<Rightarrow> (int \<times> int) \<times> 'd devfs" where
  "mkrn_devfs_open eu path flags s =
     (let p = skip_slashes path in
      if p = chars ''dev'' \<or> p = chars ''dev/'' then
        open_entry path (\<lambda>e. e\<lparr>df_is_dir := True, df_drive := 0, df_start_lba := 0, df_size_sectors := 0\<rparr>) s
      else if flags AND (M4K_O_WRONLY OR M4K_O_RDWR) \<noteq> 0 \<and> eu \<noteq> M4K_UID_ROOT then ((-1, 0), s)
      else case devfs_parse_path path of
        None \<Rightarrow> ((-1, 0), s)
      | Some (drive, part) \<Rightarrow>
          (case node_range drive part s of
             None \<Rightarrow> ((-1, 0), s)
           | Some (start_lba, size_sectors) \<Rightarrow>
               open_entry path (\<lambda>e. e\<lparr>df_is_dir := False, df_drive := drive, df_start_lba := start_lba,
                                      df_size_sectors := size_sectors\<rparr>) s))"

definition mkrn_devfs_close :: "int \<Rightarrow> 'd devfs \<Rightarrow> int \<times> 'd devfs" where
  "mkrn_devfs_close n s =
     (case devfs_find_by_fd n s of
        None \<Rightarrow> (-1, s)
      | Some i \<Rightarrow> (0, devfs_set i (\<lambda>e. e\<lparr>df_in_use := False\<rparr>) s))"

definition mkrn_devfs_is_devfs_fd :: "int \<Rightarrow> 'd devfs \<Rightarrow> bool" where
  "mkrn_devfs_is_devfs_fd n s \<longleftrightarrow> devfs_find_by_fd n s \<noteq> None"

definition df_size_bytes :: "devfs_file \<Rightarrow> u64" where
  "df_size_bytes e = df_size_sectors e * of_nat M4K_ATA_SECTOR_SIZE"

text \<open>The new offset is an \<open>int64_t\<close>; it is returned as an \<open>int\<close>.\<close>

definition mkrn_devfs_lseek :: "int \<Rightarrow> int \<Rightarrow> int \<Rightarrow> 'd devfs \<Rightarrow> int \<times> 'd devfs" where
  "mkrn_devfs_lseek n offset whence s =
     (case devfs_find_by_fd n s of
        None \<Rightarrow> (-1, s)
      | Some i \<Rightarrow>
          let e = devfs_files s ! i; size_bytes = df_size_bytes e in
          if df_is_dir e \<or> whence \<notin> {M4K_SEEK_SET, M4K_SEEK_CUR, M4K_SEEK_END} then (-1, s)
          else
            let new_offset = sint (of_int offset + (if whence = M4K_SEEK_SET then 0 else if whence = M4K_SEEK_CUR
                                     then df_offset e else size_bytes) :: u64);
                pos = (if new_offset < 0 then 0 else new_offset);
                end_pos = (if size_bytes < of_int pos then sint size_bytes else pos)
            in (sint (of_int end_pos :: u32), devfs_set i (\<lambda>e. e\<lparr>df_offset := of_int end_pos\<rparr>) s))"

section \<open>Reading\<close>

text \<open>The sector and the place in it of the current byte; \<open>abs_byte\<close> wraps at 64 bits
  and the sector is cut to 32.\<close>

definition abs_byte :: "devfs_file \<Rightarrow> u64" where
  "abs_byte e = df_start_lba e * of_nat M4K_ATA_SECTOR_SIZE + df_offset e"

definition cur_sector :: "devfs_file \<Rightarrow> u32" where
  "cur_sector e = ucast (abs_byte e div of_nat M4K_ATA_SECTOR_SIZE)"

definition off_in_sec :: "devfs_file \<Rightarrow> nat" where
  "off_in_sec e = unat (abs_byte e mod of_nat M4K_ATA_SECTOR_SIZE)"

definition remain :: "devfs_file \<Rightarrow> nat" where
  "remain e = unat (df_size_bytes e - df_offset e)"

definition df_advance :: "nat \<Rightarrow> devfs_file \<Rightarrow> devfs_file" where
  "df_advance n e = e\<lparr>df_offset := df_offset e + of_nat n\<rparr>"

text \<open>The bytes of one turn of the loop for \<open>need = count - total\<close> more: whole sectors
  when the position is at the start of a sector and one is wanted and left, else a part
  of one sector.\<close>

definition read_batch_len :: "nat \<Rightarrow> devfs_file \<Rightarrow> nat" where
  "read_batch_len need e =
     (if off_in_sec e = 0 \<and> M4K_ATA_SECTOR_SIZE \<le> need
      then min (need div M4K_ATA_SECTOR_SIZE) (remain e div M4K_ATA_SECTOR_SIZE) else 0)"

definition chunk_len :: "nat \<Rightarrow> devfs_file \<Rightarrow> nat" where
  "chunk_len need e = min (min (M4K_ATA_SECTOR_SIZE - off_in_sec e) need) (remain e)"

definition turn_len :: "nat \<Rightarrow> devfs_file \<Rightarrow> nat" where
  "turn_len need e =
     (if 0 < read_batch_len need e then read_batch_len need e * M4K_ATA_SECTOR_SIZE else chunk_len need e)"

text \<open>A turn gives whether the command succeeded and the bytes it left in the buffer.\<close>

definition read_turn :: "'d ports \<Rightarrow> nat \<Rightarrow> devfs_file \<Rightarrow> 'd ata \<Rightarrow> (bool \<times> u8 list) \<times> 'd ata" where
  "read_turn io need e a =
     (if 0 < read_batch_len need e then
        (case mkrn_ata_read_sectors io (df_drive e) (cur_sector e) (of_nat (read_batch_len need e)) a of
           ((st, bs), a1) \<Rightarrow> ((st = 0, bs), a1))
      else
        (case mkrn_ata_read_sectors io (df_drive e) (cur_sector e) 1 a of
           ((st, bs), a1) \<Rightarrow> ((st = 0, if st = 0 then take (chunk_len need e) (drop (off_in_sec e) bs) else []), a1)))"

lemma chunk_len_pos:
  assumes "0 < need" and "df_offset e < df_size_bytes e"
  shows "0 < chunk_len need e"
proof -
  have "off_in_sec e < 512"
    using word_mod_less_divisor [of 512 "abs_byte e"]
    by (simp add: off_in_sec_def M4K_ATA_SECTOR_SIZE_def word_less_nat_alt)
  moreover have "0 < remain e"
    using assms(2) by (simp add: remain_def unat_sub less_imp_le word_less_nat_alt)
  ultimately show ?thesis using assms(1) by (simp add: chunk_len_def M4K_ATA_SECTOR_SIZE_def)
qed

lemma turn_len_pos:
  assumes "0 < need" and "df_offset e < df_size_bytes e"
  shows "0 < turn_len need e"
  using chunk_len_pos [OF assms] by (simp add: turn_len_def M4K_ATA_SECTOR_SIZE_def)

text \<open>The number of bytes read, what is in the buffer, the file and the disk.\<close>

function devfs_read_loop :: "'d ports \<Rightarrow> nat \<Rightarrow> devfs_file \<Rightarrow> 'd ata \<Rightarrow> (nat \<times> u8 list) \<times> devfs_file \<times> 'd ata" where
  "devfs_read_loop io need e a =
     (if need = 0 \<or> \<not> df_offset e < df_size_bytes e then ((0, []), e, a)
      else case read_turn io need e a of ((ok, bs), a1) \<Rightarrow>
        if \<not> ok then ((0, bs), e, a1)
        else let n = turn_len need e in
          case devfs_read_loop io (need - n) (df_advance n e) a1 of ((got, rest), e2, a2) \<Rightarrow>
            ((n + got, bs @ rest), e2, a2))"
  by pat_completeness auto
termination
  by (relation "measure (\<lambda>(io, need, e, a). need)") (auto simp: turn_len_pos)

declare devfs_read_loop.simps [simp del]

definition mkrn_devfs_read :: "'d ports \<Rightarrow> int \<Rightarrow> u32 \<Rightarrow> 'd devfs \<Rightarrow> (int \<times> u8 list) \<times> 'd devfs" where
  "mkrn_devfs_read io n want s =
     (case devfs_find_by_fd n s of
        None \<Rightarrow> ((-1, []), s)
      | Some i \<Rightarrow>
          let e = devfs_files s ! i in
          if df_is_dir e then ((-1, []), s)
          else if df_size_bytes e \<le> df_offset e then ((0, []), s)
          else case devfs_read_loop io (unat want) e (dv_ata s) of ((got, bs), e1, a1) \<Rightarrow>
            ((ret_count got, bs), (devfs_set i (\<lambda>_. e1) s)\<lparr>dv_ata := a1\<rparr>))"

section \<open>Writing\<close>

text \<open>One turn writes at most one sector, a part of one by reading it first.\<close>

definition write_turn :: "'d ports \<Rightarrow> nat \<Rightarrow> u8 list \<Rightarrow> devfs_file \<Rightarrow> 'd ata \<Rightarrow> bool \<times> 'd ata" where
  "write_turn io chunk bs e a =
     (if off_in_sec e = 0 \<and> M4K_ATA_SECTOR_SIZE \<le> chunk \<and> 0 < chunk - chunk mod M4K_ATA_SECTOR_SIZE then
        (case mkrn_ata_write_sectors io (df_drive e) (cur_sector e) (of_nat (chunk div M4K_ATA_SECTOR_SIZE)) bs a of
           (st, a1) \<Rightarrow> (st = 0, a1))
      else if off_in_sec e \<noteq> 0 \<or> chunk < M4K_ATA_SECTOR_SIZE then
        (case mkrn_ata_read_sectors io (df_drive e) (cur_sector e) 1 a of ((st, secbuf), a1) \<Rightarrow>
           if st \<noteq> 0 then (False, a1)
           else case mkrn_ata_write_sectors io (df_drive e) (cur_sector e) 1
                  (take (off_in_sec e) secbuf @ take chunk bs @ drop (off_in_sec e + chunk) secbuf) a1 of
             (st', a2) \<Rightarrow> (st' = 0, a2))
      else
        (case mkrn_ata_write_sectors io (df_drive e) (cur_sector e) 1 bs a of (st, a1) \<Rightarrow> (st = 0, a1)))"

function devfs_write_loop :: "'d ports \<Rightarrow> u8 list \<Rightarrow> devfs_file \<Rightarrow> 'd ata \<Rightarrow> nat \<times> devfs_file \<times> 'd ata" where
  "devfs_write_loop io bs e a =
     (if bs = [] \<or> \<not> df_offset e < df_size_bytes e then (0, e, a)
      else let n = chunk_len (length bs) e in
        case write_turn io n bs e a of (ok, a1) \<Rightarrow>
          if \<not> ok then (0, e, a1)
          else case devfs_write_loop io (drop n bs) (df_advance n e) a1 of (got, e2, a2) \<Rightarrow> (n + got, e2, a2))"
  by pat_completeness auto
termination
  by (relation "measure (\<lambda>(io, bs, e, a). length bs)") (auto simp: chunk_len_pos)

declare devfs_write_loop.simps [simp del]

definition mkrn_devfs_write :: "'d ports \<Rightarrow> int \<Rightarrow> u8 list \<Rightarrow> 'd devfs \<Rightarrow> int \<times> 'd devfs" where
  "mkrn_devfs_write io n bs s =
     (case devfs_find_by_fd n s of
        None \<Rightarrow> (-1, s)
      | Some i \<Rightarrow>
          let e = devfs_files s ! i in
          if df_is_dir e then (-1, s)
          else if df_size_bytes e \<le> df_offset e then (0, s)
          else case devfs_write_loop io bs e (dv_ata s) of (got, e1, a1) \<Rightarrow>
            (ret_count got, (devfs_set i (\<lambda>_. e1) s)\<lparr>dv_ata := a1\<rparr>))"

section \<open>Listing\<close>

text \<open>The entries written over those of the caller's array; their inode numbers are not
  touched. \<open>base\<close> is the name of a disk, and partition \<open>p\<close> adds a digit to it.\<close>

definition disk_name :: "nat \<Rightarrow> u8 list" where
  "disk_name d = chars ''hd'' @ [97 + of_nat d]"

definition devfs_entries :: "'d devfs \<Rightarrow> (u8 list \<times> u64) list" where
  "devfs_entries s =
     concat (map (\<lambda>d.
       if mkrn_ata_get_sectors (of_nat d) (dv_ata s) = 0 then []
       else (disk_name d, mkrn_ata_get_sectors (of_nat d) (dv_ata s) * of_nat M4K_ATA_SECTOR_SIZE) #
            map (\<lambda>p. (disk_name d @ [49 + of_nat p],
                      ucast (mp_lba_count (devfs_parts s ! d ! p) * of_nat M4K_ATA_SECTOR_SIZE)))
              (filter (\<lambda>p. mp_valid (devfs_parts s ! d ! p)) [0..<nat (devfs_nparts s ! d)]))
       [0..<DEVFS_MAX_DRIVES])"

definition mkrn_devfs_getdents :: "int \<Rightarrow> mkrn_vfs_dirent list \<Rightarrow> u32 \<Rightarrow> 'd devfs \<Rightarrow> int \<times> mkrn_vfs_dirent list" where
  "mkrn_devfs_getdents n buf lim s =
     (case devfs_find_by_fd n s of
        None \<Rightarrow> (0, [])
      | Some i \<Rightarrow>
          if lim = 0 \<or> \<not> df_is_dir (devfs_files s ! i) then (0, [])
          else let es = take (unat lim) (devfs_entries s) in
            (ret_count (length es),
             map2 (\<lambda>d (nm, sz). d\<lparr>d_name := nm, d_type := 0, d_size := sz\<rparr>) buf es))"

end
