(* ===== verification/DevfsSpec.thy ===== *)
theory DevfsSpec
  imports AtaSpec Devfs
begin

text \<open>
  The device nodes as byte streams. \<open>disk_byte\<close> reads the sectors of a drive as one
  sequence of bytes. A read of a node returns the bytes of its sectors from the offset
  on, a write replaces them and no byte outside the node, whatever the alignment and
  the number of commands. \<open>node_ok\<close> is the condition on the sectors of a node:
  they are on the disk and in reach of the driver. Opening a node establishes it, for
  a partition that starts on the disk.
\<close>

unbundle bit_operations_syntax

section \<open>Disks as sequences of bytes\<close>

definition sized :: "(nat \<Rightarrow> 'a list) \<Rightarrow> bool" where
  "sized sec \<longleftrightarrow> (\<forall>l. length (sec l) = 512)"

definition disk_byte :: "(nat \<Rightarrow> 'a list) \<Rightarrow> nat \<Rightarrow> 'a" where
  "disk_byte sec k = sec (k div 512) ! (k mod 512)"

definition disk_range :: "(nat \<Rightarrow> 'a list) \<Rightarrow> nat \<Rightarrow> nat \<Rightarrow> 'a list" where
  "disk_range sec k n = map (disk_byte sec) [k..<k + n]"

lemma length_disk_range [simp]: "length (disk_range sec k n) = n"
  by (simp add: disk_range_def)

lemma nth_disk_range [simp]: "i < n \<Longrightarrow> disk_range sec k n ! i = disk_byte sec (k + i)"
  by (simp add: disk_range_def)

lemma disk_range_add: "disk_range sec k (m + n) = disk_range sec k m @ disk_range sec (k + m) n"
  using upt_add_eq_append [of k "k + m" n] by (simp add: disk_range_def add.assoc)

lemma sector_disk_range: "sized sec \<Longrightarrow> sec l = disk_range sec (512 * l) 512"
  by (rule nth_equalityI) (auto simp: sized_def disk_byte_def)

lemma disk_bytes_range: "sized sec \<Longrightarrow> disk_bytes sec l n = disk_range sec (512 * l) (512 * n)"
proof (induction n arbitrary: l)
  case (Suc n)
  then show ?case
    using sector_disk_range [of sec l] disk_range_add [of sec "512 * l" 512 "512 * n"]
    by (simp add: disk_bytes_Suc add.commute)
qed (simp add: disk_range_def)

lemma drop_disk_range: "drop j (disk_range sec k n) = disk_range sec (k + j) (n - j)"
  by (cases "j \<le> n") (auto simp: disk_range_def drop_map)

lemma take_disk_range: "take j (disk_range sec k n) = disk_range sec k (min j n)"
  by (auto simp: disk_range_def take_map min_def)

definition overlay :: "nat \<Rightarrow> 'a list \<Rightarrow> (nat \<Rightarrow> 'a) \<Rightarrow> nat \<Rightarrow> 'a" where
  "overlay k bs f j = (if k \<le> j \<and> j < k + length bs then bs ! (j - k) else f j)"

lemma overlay_append: "overlay (k + length xs) ys (overlay k xs f) = overlay k (xs @ ys) f"
  by (auto simp: overlay_def fun_eq_iff nth_append)

lemma overlay_Nil [simp]: "overlay k [] f = f"
  by (auto simp: overlay_def fun_eq_iff)

section \<open>The sectors of a node\<close>

definition node_ok :: "(nat \<Rightarrow> nat) \<Rightarrow> devfs_file \<Rightarrow> bool" where
  "node_ok cap e \<longleftrightarrow>
     unat (df_start_lba e) + unat (df_size_sectors e) \<le> min (cap (unat (df_drive e))) 0x0FFFFFFF \<and>
     unat (df_offset e) \<le> 512 * unat (df_size_sectors e)"

definition node_start :: "devfs_file \<Rightarrow> nat" where
  "node_start e = 512 * unat (df_start_lba e)"

definition node_len :: "devfs_file \<Rightarrow> nat" where
  "node_len e = 512 * unat (df_size_sectors e)"

definition node_pos :: "devfs_file \<Rightarrow> nat" where
  "node_pos e = node_start e + unat (df_offset e)"

definition node_left :: "devfs_file \<Rightarrow> nat" where
  "node_left e = node_len e - unat (df_offset e)"

lemma unat_mult_512:
  fixes w :: u64
  assumes "unat w \<le> 0x0FFFFFFF"
  shows "unat (w * 512) = 512 * unat w"
  using assms by (subst unat_word_ariths) simp

lemma node_words:
  assumes "node_ok cap e"
  shows "unat (df_size_bytes e) = node_len e"
    and "remain e = node_left e"
    and "unat (abs_byte e) = node_pos e"
    and "unat (cur_sector e) = node_pos e div 512"
    and "off_in_sec e = node_pos e mod 512"
    and "df_offset e < df_size_bytes e \<longleftrightarrow> 0 < node_left e"
proof -
  have le: "unat (df_start_lba e) \<le> 0x0FFFFFFF" "unat (df_size_sectors e) \<le> 0x0FFFFFFF"
    using assms by (simp_all add: node_ok_def)
  note off = assms [unfolded node_ok_def]
  show len: "unat (df_size_bytes e) = node_len e"
    using unat_mult_512 [OF le(2)] by (simp add: df_size_bytes_def node_len_def M4K_ATA_SECTOR_SIZE_def)
  show "remain e = node_left e"
    using off len by (simp add: remain_def node_left_def unat_sub word_le_nat_alt node_len_def)
  show "df_offset e < df_size_bytes e \<longleftrightarrow> 0 < node_left e"
    using off len by (simp add: word_less_nat_alt node_left_def)
  have "unat (df_start_lba e * 512 + df_offset e) = 512 * unat (df_start_lba e) + unat (df_offset e)"
    using unat_mult_512 [OF le(1)] le off by (subst unat_word_ariths) simp
  then show pos: "unat (abs_byte e) = node_pos e"
    by (simp add: abs_byte_def node_pos_def node_start_def M4K_ATA_SECTOR_SIZE_def)
  show "off_in_sec e = node_pos e mod 512"
    by (simp add: off_in_sec_def unat_mod M4K_ATA_SECTOR_SIZE_def pos)
  have "node_pos e div 512 < 4294967296"
    using le off div_le_mono [of "unat (df_offset e)" "512 * unat (df_size_sectors e)" 512]
    by (simp add: node_pos_def node_start_def)
  then show "unat (cur_sector e) = node_pos e div 512"
    by (simp add: cur_sector_def unsigned_ucast_eq unat_div M4K_ATA_SECTOR_SIZE_def pos take_bit_nat_eq_self)
qed

section \<open>Reading a node\<close>

text \<open>A drive ready for commands whose sectors have their size.\<close>

definition disk_ready :: "'d ports \<Rightarrow> ('d \<Rightarrow> ata_view) \<Rightarrow> (nat \<Rightarrow> nat) \<Rightarrow> u8 \<Rightarrow> 'd ata \<Rightarrow> bool" where
  "disk_ready io view cap dr a \<longleftrightarrow> drive_ready io view cap dr a \<and> sized (sectors_of view a (unat dr))"

lemma disk_ready_step:
  assumes "disk_ready io view cap dr a" and "ata_idle (view d)" and "sized (av_disk (view d) (unat dr))"
  shows "disk_ready io view cap dr (a\<lparr>ata_hw := d\<rparr>)"
  using assms by (simp add: disk_ready_def drive_ready_def no_drive_def sectors_of_def)

lemma advance_node:
  assumes "node_ok cap e" and "n \<le> node_left e"
  shows "node_ok cap (df_advance n e)" and "node_pos (df_advance n e) = node_pos e + n"
    and "node_left (df_advance n e) = node_left e - n" and "df_drive (df_advance n e) = df_drive e"
    and "node_start (df_advance n e) = node_start e" and "node_len (df_advance n e) = node_len e"
proof -
  have b: "unat (df_offset e) + n \<le> 512 * 0x0FFFFFFF"
    using assms by (auto simp: node_ok_def node_left_def node_len_def)
  then have "unat (of_nat n :: u64) = n" by (intro unat_of_nat_small) simp
  with b have "unat (df_offset e + of_nat n) = unat (df_offset e) + n"
    by (subst unat_word_ariths) simp
  then show "node_ok cap (df_advance n e)" "node_pos (df_advance n e) = node_pos e + n"
    "node_left (df_advance n e) = node_left e - n" "df_drive (df_advance n e) = df_drive e"
    "node_start (df_advance n e) = node_start e" "node_len (df_advance n e) = node_len e"
    using assms by (auto simp: node_ok_def node_left_def node_len_def node_pos_def node_start_def df_advance_def)
qed

lemma turn_len_le:
  assumes "node_ok cap e"
  shows "turn_len need e \<le> need" and "turn_len need e \<le> node_left e"
proof -
  have "b \<le> x div 512 \<Longrightarrow> b * 512 \<le> x" for b x :: nat using div_times_less_eq_dividend [of x 512] mult_le_mono1 [of b "x div 512" 512] by linarith
  then show "turn_len need e \<le> need" "turn_len need e \<le> node_left e"
    using node_words [OF assms]
    by (auto simp: turn_len_def read_batch_len_def chunk_len_def M4K_ATA_SECTOR_SIZE_def)
qed

text \<open>The sectors that hold the next bytes are on the disk.\<close>

lemma node_sectors:
  assumes "node_ok cap e" and "n \<le> node_left e" and "node_pos e mod 512 + n \<le> 512 * m" and "512 * m < node_pos e mod 512 + n + 512"
  shows "node_pos e div 512 + m \<le> cap (unat (df_drive e))" and "node_pos e div 512 + m \<le> 0x0FFFFFFF"
proof -
  define q r where "q = unat (df_offset e) div 512" and "r = unat (df_offset e) mod 512"
  then have off: "unat (df_offset e) = 512 * q + r" by simp
  have pos: "node_pos e div 512 = unat (df_start_lba e) + q" "node_pos e mod 512 = r"
    by (simp_all add: node_pos_def node_start_def q_def r_def)
  have "512 * q + r + n \<le> 512 * unat (df_size_sectors e)"
    using assms(1,2) off by (auto simp: node_ok_def node_left_def node_len_def)
  with assms(4) pos have "node_pos e div 512 + m \<le> unat (df_start_lba e) + unat (df_size_sectors e)" by simp
  then show "node_pos e div 512 + m \<le> cap (unat (df_drive e))" "node_pos e div 512 + m \<le> 0x0FFFFFFF"
    using assms(1) by (simp_all add: node_ok_def)
qed

lemma read_turn_ok:
  assumes r: "disk_ready io view cap (df_drive e) a" and e: "node_ok cap e" and n: "0 < need" "0 < node_left e"
    and w: "need < 4294967296"
  obtains d where "read_turn io need e a =
      ((True, disk_range (sectors_of view a (unat (df_drive e))) (node_pos e) (turn_len need e)), a\<lparr>ata_hw := d\<rparr>)"
    and "ata_idle (view d)" and "av_disk (view d) = sectors_of view a"
proof -
  let ?sec = "sectors_of view a (unat (df_drive e))" and ?l = "cur_sector e" and ?b = "read_batch_len need e"
  note words = node_words [OF e]
  from r have r': "drive_ready io view cap (df_drive e) a" and sz: "sized ?sec" by (simp_all add: disk_ready_def)
  show thesis
  proof (cases "0 < ?b")
    case True
    then have b: "node_pos e mod 512 = 0" "?b \<le> need div 512" "?b \<le> node_left e div 512"
      using words by (auto simp: read_batch_len_def M4K_ATA_SECTOR_SIZE_def split: if_splits)
    then have ub: "unat (of_nat ?b :: u32) = ?b" using w by (intro unat_of_nat_small) (simp add: less_eq_div_iff_mult_less_eq)
    have bl: "512 * ?b \<le> node_left e" using b(3) by (simp add: less_eq_div_iff_mult_less_eq mult.commute)
    obtain d where "mkrn_ata_read_sectors io (df_drive e) ?l (of_nat ?b) a =
        ((0, disk_bytes ?sec (unat ?l) ?b), a\<lparr>ata_hw := d\<rparr>)" "ata_idle (view d)" "av_disk (view d) = sectors_of view a"
      using ata_read_ok [OF r', of "of_nat ?b" ?l] node_sectors [OF e bl, of ?b] words(4) b(1) ub True by auto
    moreover have "512 * (node_pos e div 512) = node_pos e" using b(1) by auto
    ultimately show thesis using True that
      by (simp add: read_turn_def turn_len_def disk_bytes_range [OF sz] words(4) M4K_ATA_SECTOR_SIZE_def mult.commute)
  next
    case False
    have c: "chunk_len need e \<le> 512 - node_pos e mod 512" "chunk_len need e \<le> node_left e" "0 < chunk_len need e"
      using words chunk_len_pos [OF n(1), of e] n(2) by (auto simp: chunk_len_def M4K_ATA_SECTOR_SIZE_def)
    then obtain d where "mkrn_ata_read_sectors io (df_drive e) ?l 1 a =
        ((0, disk_bytes ?sec (unat ?l) 1), a\<lparr>ata_hw := d\<rparr>)" "ata_idle (view d)" "av_disk (view d) = sectors_of view a"
      using ata_read_ok [OF r', of 1 ?l] node_sectors [OF e c(2), of 1] words(4) by auto
    then show thesis using False that c
      by (simp add: read_turn_def turn_len_def disk_bytes_range [OF sz] words drop_disk_range take_disk_range
        M4K_ATA_SECTOR_SIZE_def mult.commute [of 512 "_ div _"])
  qed
qed

lemma devfs_read_loop_ok:
  assumes "disk_ready io view cap (df_drive e) a" and "node_ok cap e" and "need < 4294967296"
  shows "\<exists>d. devfs_read_loop io need e a =
      ((min need (node_left e), disk_range (sectors_of view a (unat (df_drive e))) (node_pos e) (min need (node_left e))),
       df_advance (min need (node_left e)) e, a\<lparr>ata_hw := d\<rparr>) \<and>
      ata_idle (view d) \<and> av_disk (view d) = sectors_of view a"
  using assms
proof (induction io need e a rule: devfs_read_loop.induct)
  case (1 io need e a)
  note words = node_words [OF \<open>node_ok cap e\<close>]
  show ?case
  proof (cases "need = 0 \<or> node_left e = 0")
    case True
    then show ?thesis using 1(2) words(6)
      by (subst devfs_read_loop.simps)
        (auto simp: disk_range_def df_advance_def disk_ready_def drive_ready_def sectors_of_def intro: exI [of _ "ata_hw a"])
  next
    case False
    let ?n = "turn_len need e" and ?sec = "sectors_of view a (unat (df_drive e))"
    obtain d where d: "read_turn io need e a = ((True, disk_range ?sec (node_pos e) ?n), a\<lparr>ata_hw := d\<rparr>)"
      "ata_idle (view d)" "av_disk (view d) = sectors_of view a"
      using read_turn_ok [OF 1(2,3) _ _ 1(4)] False by auto
    have n: "?n \<le> need" "?n \<le> node_left e" using turn_len_le [OF 1(3)] by auto
    note adv = advance_node [OF 1(3) n(2)]
    have "disk_ready io view cap (df_drive (df_advance ?n e)) (a\<lparr>ata_hw := d\<rparr>)"
      using disk_ready_step [OF 1(2) d(2)] 1(2) d(3) adv(4) by (simp add: disk_ready_def [of io view cap _ a])
    then have IH: "\<exists>d'. devfs_read_loop io (need - ?n) (df_advance ?n e) (a\<lparr>ata_hw := d\<rparr>) =
      ((min (need - ?n) (node_left e - ?n), disk_range ?sec (node_pos e + ?n) (min (need - ?n) (node_left e - ?n))),
       df_advance (min (need - ?n) (node_left e - ?n)) (df_advance ?n e), a\<lparr>ata_hw := d'\<rparr>) \<and>
      ata_idle (view d') \<and> av_disk (view d') = sectors_of view a"
      using 1(1) [OF _ d(1) [symmetric] refl _ refl] 1(4) False adv d(3) words(6) by (simp add: sectors_of_def)
    have m: "?n + min (need - ?n) (node_left e - ?n) = min need (node_left e)" using n by auto
    have a2: "df_advance k (df_advance ?n e) = df_advance (?n + k) e" for k by (simp add: df_advance_def add.assoc)
    show ?thesis using IH d False words(6)
      by (subst devfs_read_loop.simps)
        (auto simp: Let_def m a2 disk_range_add [symmetric])
  qed
qed

section \<open>Writing a node\<close>

lemma disk_byte_put:
  assumes "length bs = 512"
  shows "disk_byte (put_sector dr l bs disk dr) = overlay (512 * l) bs (disk_byte (disk dr))"
proof
  fix k
  have "k div 512 = l \<longleftrightarrow> 512 * l \<le> k \<and> k < 512 * l + 512" by auto
  moreover have "k mod 512 = k - 512 * l" if "k div 512 = l" using that by (simp add: modulo_nat_def mult.commute)
  ultimately show "disk_byte (put_sector dr l bs disk dr) k = overlay (512 * l) bs (disk_byte (disk dr)) k"
    using assms by (auto simp: disk_byte_def put_sector_def overlay_def)
qed

lemma overlay_middle:
  assumes "off + length ys \<le> n"
  shows "overlay k (take off (disk_range sec k n) @ ys @ drop (off + length ys) (disk_range sec k n)) (disk_byte sec) =
    overlay (k + off) ys (disk_byte sec)"
  using assms by (auto simp: overlay_def fun_eq_iff nth_append take_disk_range drop_disk_range min_def)

text \<open>What a write of \<open>bs\<close> at byte \<open>k\<close> of a drive leaves.\<close>

definition wrote :: "('d \<Rightarrow> ata_view) \<Rightarrow> u8 \<Rightarrow> nat \<Rightarrow> u8 list \<Rightarrow> 'd ata \<Rightarrow> 'd \<Rightarrow> bool" where
  "wrote view dr k bs a d \<longleftrightarrow>
     ata_idle (view d) \<and> sized (av_disk (view d) (unat dr)) \<and>
     disk_byte (av_disk (view d) (unat dr)) = overlay k bs (disk_byte (sectors_of view a (unat dr))) \<and>
     (\<forall>dr'. dr' \<noteq> unat dr \<longrightarrow> av_disk (view d) dr' = sectors_of view a dr')"

lemma wrote_sector:
  assumes "disk_ready io view cap dr a" and "length bs = 512" and "ata_idle (view d)"
    and "av_disk (view d) = put_sectors (unat dr) l bs 1 (sectors_of view a)"
  shows "wrote view dr (512 * l) bs a d"
  using assms disk_byte_put [OF assms(2), of "unat dr" l "sectors_of view a"]
  by (auto simp: wrote_def put_sectors_1 put_sector_def disk_ready_def sized_def)

lemma write_turn_ok:
  assumes r: "disk_ready io view cap (df_drive e) a" and e: "node_ok cap e" and n: "bs \<noteq> []" "0 < node_left e"
  obtains d where "write_turn io (chunk_len (length bs) e) bs e a = (True, a\<lparr>ata_hw := d\<rparr>)"
    and "wrote view (df_drive e) (node_pos e) (take (chunk_len (length bs) e) bs) a d"
proof -
  let ?sec = "sectors_of view a (unat (df_drive e))" and ?l = "cur_sector e"
  define c where "c = chunk_len (length bs) e"
  note words = node_words [OF e]
  from r have r': "drive_ready io view cap (df_drive e) a" and sz: "sized ?sec" by (simp_all add: disk_ready_def)
  have c: "c \<le> 512 - node_pos e mod 512" "c \<le> node_left e" "0 < c" "c \<le> length bs"
    using words chunk_len_pos [of "length bs" e] n by (auto simp: chunk_len_def M4K_ATA_SECTOR_SIZE_def c_def)
  have range: "unat ?l + 1 \<le> cap (unat (df_drive e))" "unat ?l + 1 \<le> 0x0FFFFFFF"
    using node_sectors [OF e c(2), of 1] words(4) c by auto
  have tc: "length (take c bs) = c" using c by simp
  have pos: "512 * unat ?l + node_pos e mod 512 = node_pos e" by (simp add: words(4))
  show thesis
  proof (cases "node_pos e mod 512 = 0 \<and> c = 512")
    case True
    obtain d where d: "mkrn_ata_write_sectors io (df_drive e) ?l 1 bs a = (0, a\<lparr>ata_hw := d\<rparr>)"
      "ata_idle (view d)" "av_disk (view d) = put_sectors (unat (df_drive e)) (unat ?l) bs 1 (sectors_of view a)"
      using ata_write_ok [OF r', of 1 ?l bs] range c True by auto
    then have "wrote view (df_drive e) (512 * unat ?l) (take 512 bs) a d"
      using wrote_sector [OF r, of "take 512 bs" d "unat ?l"] tc True by (simp add: put_sectors_1)
    moreover have "write_turn io c bs e a = (True, a\<lparr>ata_hw := d\<rparr>)"
      using d(1) True words(5) by (simp add: write_turn_def M4K_ATA_SECTOR_SIZE_def)
    ultimately show thesis using that pos True by (simp add: c_def)
  next
    case False
    then have f: "\<not> (off_in_sec e = 0 \<and> 512 \<le> c)" "off_in_sec e \<noteq> 0 \<or> c < 512" using words(5) c by auto
    obtain d1 where d1: "mkrn_ata_read_sectors io (df_drive e) ?l 1 a =
        ((0, disk_bytes ?sec (unat ?l) 1), a\<lparr>ata_hw := d1\<rparr>)" "ata_idle (view d1)" "av_disk (view d1) = sectors_of view a"
      using ata_read_ok [OF r', of 1 ?l] range by auto
    let ?buf = "disk_range ?sec (512 * unat ?l) 512" and ?off = "node_pos e mod 512"
    let ?new = "take ?off ?buf @ take c bs @ drop (?off + c) ?buf"
    have a1: "drive_ready io view cap (df_drive e) (a\<lparr>ata_hw := d1\<rparr>)" "disk_ready io view cap (df_drive e) (a\<lparr>ata_hw := d1\<rparr>)"
      "sectors_of view (a\<lparr>ata_hw := d1\<rparr>) = sectors_of view a"
      using disk_ready_step [OF r d1(2)] sz d1(3) by (simp_all add: disk_ready_def sectors_of_def)
    have len: "length ?new = 512" using c by simp
    obtain d where d: "mkrn_ata_write_sectors io (df_drive e) ?l 1 ?new (a\<lparr>ata_hw := d1\<rparr>) = (0, a\<lparr>ata_hw := d\<rparr>)"
      "ata_idle (view d)" "av_disk (view d) = put_sectors (unat (df_drive e)) (unat ?l) ?new 1 (sectors_of view a)"
      using ata_write_ok [OF a1(1), of 1 ?l ?new] range len a1(3) by auto
    have "wrote view (df_drive e) (512 * unat ?l) ?new (a\<lparr>ata_hw := d1\<rparr>) d"
      using wrote_sector [OF a1(2) len d(2)] d(3) a1(3) by simp
    moreover have "overlay (512 * unat ?l) ?new (disk_byte ?sec) = overlay (node_pos e) (take c bs) (disk_byte ?sec)"
      using overlay_middle [of ?off "take c bs" 512 "512 * unat ?l" ?sec, unfolded tc] c pos by simp
    ultimately have "wrote view (df_drive e) (node_pos e) (take c bs) a d" by (simp add: wrote_def a1(3))
    moreover have "write_turn io c bs e a = (True, a\<lparr>ata_hw := d\<rparr>)"
      using f d1(1) d(1) by (auto simp: write_turn_def M4K_ATA_SECTOR_SIZE_def disk_bytes_range [OF sz] words(5))
    ultimately show thesis using that by (simp add: c_def)
  qed
qed

lemma wrote_append:
  assumes "wrote view dr k xs a d" and "wrote view dr (k + length xs) ys (a\<lparr>ata_hw := d\<rparr>) d'"
  shows "wrote view dr k (xs @ ys) a d'"
  using assms by (simp add: wrote_def sectors_of_def overlay_append)

lemma devfs_write_loop_ok:
  assumes "disk_ready io view cap (df_drive e) a" and "node_ok cap e"
  shows "\<exists>d. devfs_write_loop io bs e a =
      (min (length bs) (node_left e), df_advance (min (length bs) (node_left e)) e, a\<lparr>ata_hw := d\<rparr>) \<and>
      wrote view (df_drive e) (node_pos e) (take (node_left e) bs) a d"
  using assms
proof (induction io bs e a rule: devfs_write_loop.induct)
  case (1 io bs e a)
  note words = node_words [OF \<open>node_ok cap e\<close>]
  show ?case
  proof (cases "bs = [] \<or> node_left e = 0")
    case True
    then show ?thesis using 1(2) words(6)
      by (subst devfs_write_loop.simps)
        (auto simp: df_advance_def wrote_def disk_ready_def drive_ready_def sectors_of_def intro: exI [of _ "ata_hw a"])
  next
    case False
    define n where "n = chunk_len (length bs) e"
    obtain d where d: "write_turn io n bs e a = (True, a\<lparr>ata_hw := d\<rparr>)"
      "wrote view (df_drive e) (node_pos e) (take n bs) a d"
      using write_turn_ok [OF 1(2,3), of bs] False by (auto simp: n_def)
    have n: "n \<le> length bs" "n \<le> node_left e" using words by (auto simp: n_def chunk_len_def)
    note adv = advance_node [OF 1(3) n(2)]
    have "disk_ready io view cap (df_drive (df_advance n e)) (a\<lparr>ata_hw := d\<rparr>)"
      using disk_ready_step [OF 1(2)] d(2) adv(4) by (simp add: wrote_def)
    then obtain d' where IH: "devfs_write_loop io (drop n bs) (df_advance n e) (a\<lparr>ata_hw := d\<rparr>) =
      (min (length bs - n) (node_left e - n), df_advance (min (length bs - n) (node_left e - n)) (df_advance n e), a\<lparr>ata_hw := d'\<rparr>)"
      "wrote view (df_drive e) (node_pos e + n) (take (node_left e - n) (drop n bs)) (a\<lparr>ata_hw := d\<rparr>) d'"
      using 1(1) [OF _ n_def d(1) [symmetric]] False adv words(6) by auto
    have m: "n + min (length bs - n) (node_left e - n) = min (length bs) (node_left e)" using n by auto
    have a2: "df_advance k (df_advance n e) = df_advance (n + k) e" for k by (simp add: df_advance_def add.assoc)
    have t: "take n bs @ take (node_left e - n) (drop n bs) = take (node_left e) bs"
      using n by (simp add: take_add [symmetric])
    from wrote_append [OF d(2)] IH(2) n have "wrote view (df_drive e) (node_pos e) (take (node_left e) bs) a d'"
      by (simp flip: t)
    with IH(1) d(1) False words(6) show ?thesis
      by (intro exI [of _ d'], subst devfs_write_loop.simps) (auto simp: Let_def n_def [symmetric] m a2)
  qed
qed

section \<open>Open nodes\<close>

definition open_node :: "'d ports \<Rightarrow> ('d \<Rightarrow> ata_view) \<Rightarrow> (nat \<Rightarrow> nat) \<Rightarrow> int \<Rightarrow> nat \<Rightarrow> 'd devfs \<Rightarrow> bool" where
  "open_node io view cap n i s \<longleftrightarrow>
     devfs_find_by_fd n s = Some i \<and> length (devfs_files s) = DEVFS_MAX_FILES \<and> \<not> df_is_dir (devfs_files s ! i) \<and>
     node_ok cap (devfs_files s ! i) \<and> disk_ready io view cap (df_drive (devfs_files s ! i)) (dv_ata s)"

definition node_sec :: "('d \<Rightarrow> ata_view) \<Rightarrow> nat \<Rightarrow> 'd devfs \<Rightarrow> nat \<Rightarrow> u8 list" where
  "node_sec view i s = sectors_of view (dv_ata s) (unat (df_drive (devfs_files s ! i)))"

lemma find_upt_Some:
  "find P [0..<n] = Some i \<Longrightarrow> i < n \<and> P i \<and> (\<forall>j < i. \<not> P j)"
  by (auto simp: find_Some_iff)

lemma find_upt_cong:
  assumes "\<And>i. i < n \<Longrightarrow> P i \<longleftrightarrow> Q i"
  shows "find P [0..<n] = find Q [0..<n]"
  by (rule find_cong) (use assms in auto)

text \<open>A new offset leaves the descriptor where it is.\<close>

lemma find_by_fd_update:
  assumes "length (devfs_files s) = DEVFS_MAX_FILES" and "df_fd e = df_fd (devfs_files s ! i)"
    and "df_in_use e = df_in_use (devfs_files s ! i)"
  shows "devfs_find_by_fd n ((devfs_set i (\<lambda>_. e) s)\<lparr>dv_ata := a\<rparr>) = devfs_find_by_fd n s"
  unfolding devfs_find_by_fd_def
proof (rule find_upt_cong)
  fix j assume "j < DEVFS_MAX_FILES"
  then show "(df_in_use (devfs_files ((devfs_set i (\<lambda>_. e) s)\<lparr>dv_ata := a\<rparr>) ! j) \<and>
      df_fd (devfs_files ((devfs_set i (\<lambda>_. e) s)\<lparr>dv_ata := a\<rparr>) ! j) = n) \<longleftrightarrow>
    (df_in_use (devfs_files s ! j) \<and> df_fd (devfs_files s ! j) = n)"
    using assms by (cases "j = i") (simp_all add: devfs_set_def)
qed

lemma open_node_update:
  assumes s: "open_node io view cap n i s" and m: "m \<le> node_left (devfs_files s ! i)"
    and d: "ata_idle (view d)" "sized (av_disk (view d) (unat (df_drive (devfs_files s ! i))))"
  shows "open_node io view cap n i ((devfs_set i (\<lambda>_. df_advance m (devfs_files s ! i)) s)\<lparr>dv_ata := (dv_ata s)\<lparr>ata_hw := d\<rparr>\<rparr>)"
proof -
  let ?e = "devfs_files s ! i"
  have i: "i < length (devfs_files s)" using s by (auto simp: open_node_def devfs_find_by_fd_def dest: find_upt_Some)
  note adv = advance_node [of cap ?e m]
  have "devfs_find_by_fd n ((devfs_set i (\<lambda>_. df_advance m ?e) s)\<lparr>dv_ata := (dv_ata s)\<lparr>ata_hw := d\<rparr>\<rparr>) = Some i"
    using s by (subst find_by_fd_update) (auto simp: open_node_def df_advance_def)
  moreover have "disk_ready io view cap (df_drive ?e) ((dv_ata s)\<lparr>ata_hw := d\<rparr>)"
    using s d by (intro disk_ready_step) (auto simp: open_node_def)
  ultimately show ?thesis using s m i adv by (simp add: open_node_def devfs_set_def df_advance_def)
qed

lemma devfs_read_ok:
  fixes want :: u32
  assumes s: "open_node io view cap n i s"
  defines "e \<equiv> devfs_files s ! i" and "m \<equiv> min (unat want) (node_left (devfs_files s ! i))"
  obtains s' where "mkrn_devfs_read io n want s = ((ret_count m, disk_range (node_sec view i s) (node_pos e) m), s')"
    and "open_node io view cap n i s'" and "devfs_files s' ! i = df_advance m e"
    and "sectors_of view (dv_ata s') = sectors_of view (dv_ata s)"
proof (cases "df_size_bytes e \<le> df_offset e")
  case True
  then have "m = 0" using node_words(6) [of cap e] s by (auto simp: open_node_def e_def m_def)
  then show thesis using that [of s] s True
    by (simp add: mkrn_devfs_read_def open_node_def e_def [symmetric] ret_count_def df_advance_def disk_range_def)
next
  case False
  have i: "i < length (devfs_files s)" using s by (auto simp: open_node_def devfs_find_by_fd_def dest: find_upt_Some)
  have r: "disk_ready io view cap (df_drive e) (dv_ata s)" "node_ok cap e" using s by (simp_all add: open_node_def e_def)
  obtain d where d: "devfs_read_loop io (unat want) e (dv_ata s) =
      ((m, disk_range (node_sec view i s) (node_pos e) m), df_advance m e, (dv_ata s)\<lparr>ata_hw := d\<rparr>)"
    "ata_idle (view d)" "av_disk (view d) = sectors_of view (dv_ata s)"
    using devfs_read_loop_ok [OF r, of "unat want"] u32_range [of want] by (auto simp: m_def e_def node_sec_def)
  let ?s = "(devfs_set i (\<lambda>_. df_advance m e) s)\<lparr>dv_ata := (dv_ata s)\<lparr>ata_hw := d\<rparr>\<rparr>"
  have "open_node io view cap n i ?s"
    using open_node_update [OF s, of m d] d r(1) by (simp add: m_def e_def disk_ready_def)
  moreover have "mkrn_devfs_read io n want s = ((ret_count m, disk_range (node_sec view i s) (node_pos e) m), ?s)"
    using s d(1) False by (simp add: mkrn_devfs_read_def open_node_def e_def [symmetric])
  ultimately show thesis using that [of ?s] d(3) i by (simp add: devfs_set_def sectors_of_def)
qed

lemma devfs_write_ok:
  fixes bs :: "u8 list"
  assumes s: "open_node io view cap n i s"
  defines "e \<equiv> devfs_files s ! i" and "m \<equiv> min (length bs) (node_left (devfs_files s ! i))"
  obtains s' where "mkrn_devfs_write io n bs s = (ret_count m, s')"
    and "open_node io view cap n i s'" and "devfs_files s' ! i = df_advance m e"
    and "disk_byte (node_sec view i s') = overlay (node_pos e) (take m bs) (disk_byte (node_sec view i s))"
    and "\<And>dr. dr \<noteq> unat (df_drive e) \<Longrightarrow> sectors_of view (dv_ata s') dr = sectors_of view (dv_ata s) dr"
proof (cases "df_size_bytes e \<le> df_offset e")
  case True
  then have "m = 0" using node_words(6) [of cap e] s by (auto simp: open_node_def e_def m_def)
  then show thesis using that [of s] s True
    by (simp add: mkrn_devfs_write_def open_node_def e_def [symmetric] ret_count_def df_advance_def)
next
  case False
  have i: "i < length (devfs_files s)" using s by (auto simp: open_node_def devfs_find_by_fd_def dest: find_upt_Some)
  have r: "disk_ready io view cap (df_drive e) (dv_ata s)" "node_ok cap e" using s by (simp_all add: open_node_def e_def)
  have t: "take (node_left e) bs = take m bs" by (simp add: m_def e_def min_def)
  obtain d where d: "devfs_write_loop io bs e (dv_ata s) = (m, df_advance m e, (dv_ata s)\<lparr>ata_hw := d\<rparr>)"
    "wrote view (df_drive e) (node_pos e) (take m bs) (dv_ata s) d"
    using devfs_write_loop_ok [OF r, of bs] t by (auto simp: m_def e_def)
  let ?s = "(devfs_set i (\<lambda>_. df_advance m e) s)\<lparr>dv_ata := (dv_ata s)\<lparr>ata_hw := d\<rparr>\<rparr>"
  have "open_node io view cap n i ?s"
    using open_node_update [OF s, of m d] d(2) by (simp add: m_def e_def wrote_def)
  moreover have "mkrn_devfs_write io n bs s = (ret_count m, ?s)"
    using s d(1) False by (simp add: mkrn_devfs_write_def open_node_def e_def [symmetric])
  moreover have "devfs_files ?s ! i = df_advance m e" using i by (simp add: devfs_set_def)
  ultimately show thesis using that [of ?s] d(2)
    by (simp add: wrote_def node_sec_def sectors_of_def df_advance_def e_def)
qed

lemma devfs_seek_ok:
  fixes p :: nat
  assumes s: "open_node io view cap n i s" and p: "p \<le> node_len (devfs_files s ! i)" "p < 2147483648"
  obtains s' where "mkrn_devfs_lseek n (int p) M4K_SEEK_SET s = (int p, s')" and "open_node io view cap n i s'"
    and "devfs_files s' ! i = (devfs_files s ! i)\<lparr>df_offset := of_nat p\<rparr>" and "dv_ata s' = dv_ata s"
proof -
  let ?e = "devfs_files s ! i" and ?s = "devfs_set i (\<lambda>e. e\<lparr>df_offset := of_nat p\<rparr>) s"
  have i: "i < length (devfs_files s)" using s by (auto simp: open_node_def devfs_find_by_fd_def dest: find_upt_Some)
  have u: "unat (of_nat p :: u64) = p" using p by (intro unat_of_nat_small) simp
  have sp: "sint (of_nat p :: u64) = int p" "sint (of_nat p :: u32) = int p"
    using p by (simp_all add: signed_of_nat signed_take_bit_int_eq_self)
  have e: "node_ok cap ?e" "\<not> df_is_dir ?e" using s by (simp_all add: open_node_def)
  then have "\<not> df_size_bytes ?e < of_nat p"
    using node_words(1) [OF e(1)] p u by (simp add: word_less_nat_alt)
  then have "mkrn_devfs_lseek n (int p) M4K_SEEK_SET s = (int p, ?s)"
    using s e p sp by (simp add: mkrn_devfs_lseek_def open_node_def Let_def)
  moreover have "open_node io view cap n i ?s"
    using s e p u i find_by_fd_update [of s "?e\<lparr>df_offset := of_nat p\<rparr>" i n "dv_ata s"]
    by (auto simp: open_node_def devfs_set_def node_ok_def node_len_def)
  ultimately show thesis using that [of ?s] i by (simp add: devfs_set_def)
qed

text \<open>Writing, seeking back and reading.\<close>

lemma devfs_write_read:
  assumes s: "open_node io view cap n i s" and e: "e = devfs_files s ! i"
    and bs: "length bs \<le> node_left e" "length bs < 2147483648" "unat (df_offset e) < 2147483648"
  obtains s1 s2 s3 where "mkrn_devfs_write io n bs s = (int (length bs), s1)" and "open_node io view cap n i s1"
    and "mkrn_devfs_lseek n (int (unat (df_offset e))) M4K_SEEK_SET s1 = (int (unat (df_offset e)), s2)"
    and "open_node io view cap n i s2"
    and "mkrn_devfs_read io n (of_nat (length bs)) s2 = ((int (length bs), bs), s3)"
    and "disk_byte (node_sec view i s3) = overlay (node_pos e) bs (disk_byte (node_sec view i s))"
    and "\<And>dr. dr \<noteq> unat (df_drive e) \<Longrightarrow> sectors_of view (dv_ata s3) dr = sectors_of view (dv_ata s) dr"
proof -
  let ?m = "length bs" and ?off = "int (unat (df_offset e))"
  have m: "min ?m (node_left e) = ?m" using bs by simp
  have rc: "ret_count ?m = int ?m" using bs by (simp add: ret_count_def sint_small_u32 unat_of_nat_small)
  have ok: "node_ok cap e" using s e by (simp add: open_node_def)
  note adv = advance_node [OF ok, of ?m]
  obtain s1 where w: "mkrn_devfs_write io n bs s = (int ?m, s1)" "open_node io view cap n i s1" "devfs_files s1 ! i = df_advance ?m e"
    "disk_byte (node_sec view i s1) = overlay (node_pos e) bs (disk_byte (node_sec view i s))"
    "\<And>dr. dr \<noteq> unat (df_drive e) \<Longrightarrow> sectors_of view (dv_ata s1) dr = sectors_of view (dv_ata s) dr"
    using devfs_write_ok [OF s, of bs] m rc unfolding e [symmetric] by (metis order_refl take_all)
  obtain s2 where l: "mkrn_devfs_lseek n ?off M4K_SEEK_SET s1 = (?off, s2)" "open_node io view cap n i s2"
    "devfs_files s2 ! i = (devfs_files s1 ! i)\<lparr>df_offset := of_nat (unat (df_offset e))\<rparr>" "dv_ata s2 = dv_ata s1"
    using devfs_seek_ok [OF w(2), of "unat (df_offset e)"] w(3) adv(6) bs ok by (auto simp: node_ok_def node_len_def)
  then have e2: "devfs_files s2 ! i = e" using w(3) by (simp add: df_advance_def)
  have sec: "node_sec view i s2 = node_sec view i s1" using l(4) w(3) e2 by (simp add: node_sec_def df_advance_def)
  have u: "unat (of_nat ?m :: u32) = ?m" using bs by (simp add: unat_of_nat_small)
  obtain s3 where r: "mkrn_devfs_read io n (of_nat ?m) s2 = ((int ?m, disk_range (node_sec view i s2) (node_pos e) ?m), s3)"
    "devfs_files s3 ! i = df_advance ?m e" "sectors_of view (dv_ata s3) = sectors_of view (dv_ata s2)"
    using devfs_read_ok [OF l(2), of "of_nat ?m"] e2 m rc u by metis
  have "disk_range (node_sec view i s2) (node_pos e) ?m = bs"
    by (rule nth_equalityI) (simp_all add: sec w(4) overlay_def)
  moreover have "node_sec view i s3 = node_sec view i s2"
    using r(2,3) e2 by (simp add: node_sec_def df_advance_def)
  ultimately show thesis using that [OF w(1,2) l(1,2)] r(1,3) w(4,5) sec l(4) by simp
qed

section \<open>Opening a node\<close>

lemma u64_of_u32: "unat (ucast (w :: u32) :: u64) = unat w"
  using u32_range [of w] by (simp add: unsigned_ucast_eq take_bit_nat_eq_self)

lemma node_range_fits:
  assumes "node_range dr part s = Some (st, sz)" and "st \<le> mkrn_ata_get_sectors dr (dv_ata s)"
  shows "unat st + unat sz \<le> unat (mkrn_ata_get_sectors dr (dv_ata s))"
proof (cases "part < 0")
  case True
  then show ?thesis using assms by (auto simp: node_range_def Let_def split: if_splits)
next
  case False
  define e where "e = devfs_parts s ! unat dr ! nat part"
  let ?n = "mkrn_ata_get_sectors dr (dv_ata s)" and ?st = "ucast (mp_lba_start e) :: u64" and ?c = "ucast (mp_lba_count e) :: u64"
  have sum: "unat (?st + ?c) = unat ?st + unat ?c"
    using u32_range [of "mp_lba_start e"] u32_range [of "mp_lba_count e"] by (subst unat_word_ariths) (simp add: u64_of_u32)
  have "st = ?st" "sz = (if ?n < ?st + ?c then ?n - ?st else ?c)"
    using assms(1) False by (auto simp: node_range_def e_def Let_def split: if_splits)
  then show ?thesis using assms(2) sum by (auto simp: word_less_nat_alt word_le_nat_alt unat_sub not_less)
qed

lemma find_first:
  assumes "i < n" and "P i" and "\<And>j. j < n \<Longrightarrow> j \<noteq> i \<Longrightarrow> \<not> P j"
  shows "find P [0..<n] = Some i"
  using assms by (auto simp: find_Some_iff intro!: exI [of _ i])

text \<open>Opening \<open>/dev/hda\<close>, \<open>/dev/hda1\<close> and so on, by root or without a request to
  write, when an entry of the table is free and the next descriptor is not held by an
  open file: the descriptor is that of a node at offset 0, whose sectors are those of
  the disk or of the partition, on the disk and in reach of the driver. A partition has
  to start on the disk.\<close>

theorem devfs_open_correct:
  assumes p: "devfs_parse_path path = Some (dr, part)"
    and fl: "flags AND (M4K_O_WRONLY OR M4K_O_RDWR) = 0 \<or> eu = M4K_UID_ROOT"
    and r: "node_range dr part s = Some (st, sz)" "st \<le> mkrn_ata_get_sectors dr (dv_ata s)"
    and c: "unat (mkrn_ata_get_sectors dr (dv_ata s)) \<le> min (cap (unat dr)) 0x0FFFFFFF"
    and d: "disk_ready io view cap dr (dv_ata s)" and n: "length (devfs_files s) = DEVFS_MAX_FILES"
    and i: "find (\<lambda>i. \<not> df_in_use (devfs_files s ! i)) [0..<DEVFS_MAX_FILES] = Some i"
    and f: "\<And>j. j < DEVFS_MAX_FILES \<Longrightarrow> df_in_use (devfs_files s ! j) \<Longrightarrow> df_fd (devfs_files s ! j) \<noteq> devfs_next_fd s"
  shows "fst (mkrn_devfs_open eu path flags s) = (0, devfs_next_fd s) \<and>
    open_node io view cap (devfs_next_fd s) i (snd (mkrn_devfs_open eu path flags s)) \<and>
    (\<exists>e. e = devfs_files (snd (mkrn_devfs_open eu path flags s)) ! i \<and> df_drive e = dr \<and>
         node_start e = 512 * unat st \<and> node_len e = 512 * unat sz \<and> df_offset e = 0) \<and>
    dv_ata (snd (mkrn_devfs_open eu path flags s)) = dv_ata s"
proof -
  let ?p = "skip_slashes path"
  have "starts_with ''dev/'' ?p" "drop 4 ?p \<noteq> []"
    using p by (auto simp: devfs_parse_path_def Let_def split: if_splits)
  then have nd: "\<not> (?p = chars ''dev'' \<or> ?p = chars ''dev/'')"
    by (auto simp: chars_def)
  have i': "i < DEVFS_MAX_FILES" "\<not> df_in_use (devfs_files s ! i)" using find_upt_Some [OF i] by auto
  define e where "e = (devfs_files s ! i)\<lparr>df_fd := devfs_next_fd s, df_in_use := True, df_offset := 0, df_is_dir := False,
    df_drive := dr, df_start_lba := st, df_size_sectors := sz,
    df_name := copy_field (df_name (devfs_files s ! i)) path (DEVFS_MAX_NAME - 1)\<rparr>"
  define s' where "s' = s\<lparr>devfs_files := (devfs_files s)[i := e],
    devfs_next_fd := (if DEVFS_FD_LIMIT \<le> devfs_next_fd s + 1 then DEVFS_FD_BASE else devfs_next_fd s + 1)\<rparr>"
  have o: "mkrn_devfs_open eu path flags s = ((0, devfs_next_fd s), s')"
    using nd fl p r(1) i i' n
    by (auto simp: mkrn_devfs_open_def Let_def open_entry_def devfs_alloc_file_def devfs_set_def s'_def e_def)
  have files: "devfs_files s' = (devfs_files s)[i := e]" "dv_ata s' = dv_ata s" by (simp_all add: s'_def)
  have "node_ok cap e"
    using node_range_fits [OF r] c by (simp add: node_ok_def e_def)
  moreover have "devfs_find_by_fd (devfs_next_fd s) s' = Some i"
    unfolding devfs_find_by_fd_def files(1)
    by (rule find_first) (use i' n f in \<open>auto simp: e_def\<close>)
  ultimately have "open_node io view cap (devfs_next_fd s) i s'"
    using d n i' files by (simp add: open_node_def e_def)
  then show ?thesis
    using o files n i' by (simp add: node_start_def node_len_def e_def)
qed

section \<open>Limits of the tables\<close>

text \<open>The number of partitions kept is the number of used entries of the table, but it is
  compared with the index of an entry: a partition behind a gap cannot be opened.\<close>

lemma mbr_count:
  assumes "mkrn_ata_read_mbr io dr a = ((n, parts), a')"
  shows "(if 0 < n then n else 0) = int (length (filter mp_valid parts))"
  using assms by (auto simp: mkrn_ata_read_mbr_def Let_def part_zero_def M4K_MBR_MAX_PARTS_def filter_map
      split: prod.splits if_splits)

definition counted :: "'d devfs \<Rightarrow> nat \<Rightarrow> bool" where
  "counted s d \<longleftrightarrow> devfs_nparts s ! d = int (length (filter mp_valid (devfs_parts s ! d)))"

lemma read_tables_counted:
  assumes "length (devfs_nparts s) = DEVFS_MAX_DRIVES" and "length (devfs_parts s) = DEVFS_MAX_DRIVES"
    and "set ds \<subseteq> {0..<DEVFS_MAX_DRIVES}" and "counted s d"
  shows "counted (read_tables io ds s) d"
  using assms
proof (induction ds arbitrary: s)
  case (Cons x ds)
  obtain n parts a where m: "mkrn_ata_read_mbr io (of_nat x) (dv_ata s) = ((n, parts), a)" by (metis prod.exhaust)
  show ?case using Cons mbr_count [OF m] m by (cases "x = d") (auto simp: counted_def)
qed simp

lemma devfs_init_counted:
  "d < DEVFS_MAX_DRIVES \<Longrightarrow> counted (mkrn_devfs_init io s) d"
  using read_tables_counted [of "s\<lparr>devfs_files := replicate DEVFS_MAX_FILES devfs_file_zero,
      devfs_parts := replicate DEVFS_MAX_DRIVES (replicate DEVFS_MAX_PARTS part_zero),
      devfs_nparts := replicate DEVFS_MAX_DRIVES 0\<rparr>" "[0..<DEVFS_MAX_DRIVES]" d io]
  by (simp add: mkrn_devfs_init_def counted_def part_zero_def)

lemma devfs_sparse_partition:
  assumes "devfs_parts s ! unat dr = [part_zero, e, part_zero, part_zero]" and "mp_valid e"
    and "counted s (unat dr)"
  shows "node_range dr 1 s = None"
  using assms by (simp add: node_range_def counted_def part_zero_def Let_def)

text \<open>A partition that starts past the end of the disk can be opened, and its size is
  negative, that is, above \<open>2\<^sup>63\<close> sectors.\<close>

lemma devfs_partition_past_end:
  assumes "\<not> no_drive dr (dv_ata s)" and "devfs_parts s ! unat dr ! 0 = \<lparr>mp_status = 0, mp_type = 0x83, mp_lba_start = 4000, mp_lba_count = 8, mp_valid = True\<rparr>"
    and "0 < devfs_nparts s ! unat dr" and "ad_sectors (ata_drives (dv_ata s) ! unat dr) = 2048"
  shows "node_range dr 0 s = Some (4000, - 1952)"
  using assms by (simp add: node_range_def mkrn_ata_get_sectors_def Let_def)

section \<open>Examples\<close>

definition sim_node :: devfs_file where
  "sim_node = devfs_file_zero\<lparr>df_fd := 1000, df_in_use := True, df_start_lba := 63, df_size_sectors := 100, df_offset := 1000\<rparr>"

definition sim_devfs :: "devfs_file \<Rightarrow> ata_view devfs" where
  "sim_devfs e = (devfs_bss (sim_disk (\<lambda>dr l. replicate 512 0)))
     \<lparr>devfs_files := (replicate DEVFS_MAX_FILES devfs_file_zero)[0 := e]\<rparr>"

lemma sim_disk_ready: "disk_ready sim_ports id cap 0 (sim_disk (\<lambda>dr l. replicate 512 0))"
  using sim_ready [of cap "\<lambda>dr l. replicate 512 0"] by (simp add: disk_ready_def sized_def sectors_of_def sim_disk_def)

lemma sim_open_node: "open_node sim_ports id (\<lambda>_. 2048) 1000 0 (sim_devfs sim_node)"
proof -
  have "devfs_find_by_fd 1000 (sim_devfs sim_node) = Some 0"
    unfolding devfs_find_by_fd_def
    by (rule find_first) (auto simp: sim_devfs_def sim_node_def devfs_file_zero_def DEVFS_MAX_FILES_def)
  then show ?thesis using sim_disk_ready
    by (simp add: open_node_def sim_devfs_def sim_node_def devfs_file_zero_def node_ok_def devfs_bss_def DEVFS_MAX_FILES_def)
qed

lemma devfs_open_correct_witness:
  "fst (mkrn_devfs_open 5 (chars ''/dev/hda'') M4K_O_RDONLY (sim_devfs devfs_file_zero)) = (0, 1000)"
proof -
  let ?s = "sim_devfs devfs_file_zero"
  have f: "devfs_files ?s = replicate DEVFS_MAX_FILES devfs_file_zero" "devfs_next_fd ?s = 1000"
    "dv_ata ?s = sim_disk (\<lambda>dr l. replicate 512 0)"
    by (simp_all add: sim_devfs_def devfs_bss_def DEVFS_MAX_FILES_def DEVFS_FD_BASE_def numeral_eq_Suc)
  have sec: "mkrn_ata_get_sectors 0 (dv_ata ?s) = 2048"
    by (simp add: f mkrn_ata_get_sectors_def no_drive_def sim_disk_def M4K_ATA_MAX_DRIVES_def)
  have "find (\<lambda>i. \<not> df_in_use (devfs_files ?s ! i)) [0..<DEVFS_MAX_FILES] = Some 0"
    unfolding f(1) by (auto simp: find_Some_iff devfs_file_zero_def DEVFS_MAX_FILES_def intro!: exI [of _ 0])
  moreover have "devfs_parse_path (chars ''/dev/hda'') = Some (0, -1)"
    by (simp add: devfs_parse_path_def skip_slashes_def chars_def starts_with_def char_at_def)
  moreover have "node_range 0 (-1) ?s = Some (0, 2048)" using sec by (simp add: node_range_def)
  ultimately show ?thesis
    using devfs_open_correct [of "chars ''/dev/hda''" 0 "-1" M4K_O_RDONLY 5 ?s 0 2048 "\<lambda>_. 2048" sim_ports id 0]
      sim_disk_ready sec f
    by (simp add: M4K_O_RDONLY_def M4K_O_WRONLY_def M4K_O_RDWR_def devfs_file_zero_def)
qed

end
