(* ===== verification/Sessions.thy ===== *)
theory Sessions
  imports Devfs
begin

text \<open>
  Login sessions and their files under \<open>/sys/sessions\<close>
  (\<open>sys/src/fs/sessions/mkrn_sessions.c\<close>). The caller's process is an argument. A read
  copies at most \<open>count\<close> bytes of a text built in a local buffer: \<open>copy_out\<close>. The count
  is compared as an \<open>int\<close>; from \<open>2\<^sup>31\<close> on the code copies past its buffer, where the
  model gives the negative length and no bytes.
\<close>

unbundle bit_operations_syntax

definition MAX_SESSIONS :: nat where "MAX_SESSIONS = 16"
definition SESSIONS_MAX_NAME :: nat where "SESSIONS_MAX_NAME = 64"
definition SESSIONS_MAX_FILES :: nat where "SESSIONS_MAX_FILES = 32"
definition SESSIONS_FD_BASE :: int where "SESSIONS_FD_BASE = 2000"
definition SESSIONS_FD_LIMIT :: int where "SESSIONS_FD_LIMIT = 3000"

record session_entry =
  se_tty :: "u8 list"
  se_uid :: u32
  se_pid :: u32
  se_login_time :: u32
  se_username :: "u8 list"
  se_in_use :: bool

record session_file =
  sf_path :: "u8 list"
  sf_session_idx :: int
  sf_fd :: int
  sf_in_use :: bool

record sessions_state =
  sessions :: "session_entry list"
  session_files :: "session_file list"
  sessions_next_fd :: int

definition session_zero :: session_entry where
  "session_zero = \<lparr>se_tty = replicate 32 0, se_uid = 0, se_pid = 0, se_login_time = 0,
     se_username = replicate 64 0, se_in_use = False\<rparr>"

definition session_file_zero :: session_file where
  "session_file_zero = \<lparr>sf_path = replicate SESSIONS_MAX_NAME 0, sf_session_idx = 0, sf_fd = 0, sf_in_use = False\<rparr>"

definition sessions_bss :: sessions_state where
  "sessions_bss = \<lparr>sessions = replicate MAX_SESSIONS session_zero,
     session_files = replicate SESSIONS_MAX_FILES session_file_zero, sessions_next_fd = SESSIONS_FD_BASE\<rparr>"

definition mkrn_sessions_init :: "sessions_state \<Rightarrow> sessions_state" where
  "mkrn_sessions_init s = s\<lparr>sessions := replicate MAX_SESSIONS session_zero,
     session_files := replicate SESSIONS_MAX_FILES session_file_zero\<rparr>"

section \<open>Sessions\<close>

definition mkrn_session_create :: "u32 \<Rightarrow> u8 list \<Rightarrow> u32 \<Rightarrow> u8 list \<Rightarrow> sessions_state \<Rightarrow> int \<times> sessions_state" where
  "mkrn_session_create cur_pid tty u username s =
     (case find (\<lambda>i. \<not> se_in_use (sessions s ! i)) [0..<MAX_SESSIONS] of
        None \<Rightarrow> (-1, s)
      | Some i \<Rightarrow>
          let e = sessions s ! i in
          (int i, s\<lparr>sessions := (sessions s)[i := \<lparr>se_tty = copy_field (se_tty e) tty 31, se_uid = u, se_pid = cur_pid,
             se_login_time = 1721124309, se_username = copy_field (se_username e) username 63, se_in_use = True\<rparr>]\<rparr>))"

definition find_session :: "u8 list \<Rightarrow> sessions_state \<Rightarrow> nat option" where
  "find_session tty s =
     find (\<lambda>i. se_in_use (sessions s ! i) \<and> cstr (se_tty (sessions s ! i)) = tty) [0..<MAX_SESSIONS]"

definition mkrn_session_destroy :: "u8 list \<Rightarrow> sessions_state \<Rightarrow> int \<times> sessions_state" where
  "mkrn_session_destroy tty s =
     (case find_session tty s of
        None \<Rightarrow> (-1, s)
      | Some i \<Rightarrow> (0, s\<lparr>sessions := (sessions s)[i := (sessions s ! i)\<lparr>se_in_use := False\<rparr>]\<rparr>))"

definition mkrn_sessions_get_all :: "int \<Rightarrow> sessions_state \<Rightarrow> int \<times> session_entry list" where
  "mkrn_sessions_get_all lim s =
     (let out = take (nat lim) (filter se_in_use (take MAX_SESSIONS (sessions s))) in (int (length out), out))"

section \<open>Files\<close>

text \<open>The thousands of an index are the kind of the file, and -2 is the directory.\<close>

definition get_session_idx_from_path :: "u8 list \<Rightarrow> sessions_state \<Rightarrow> int" where
  "get_session_idx_from_path path s =
     (let p = skip_slashes path in
      if \<not> starts_with ''sys/sessions/'' p then -1
      else let q = drop 13 p in
        if q = [] then -2
        else
          let tty = take 31 (takeWhile (\<lambda>c. c \<noteq> 47) q);
              rest = drop (length tty) q
          in case find_session tty s of
               None \<Rightarrow> -1
             | Some i \<Rightarrow>
                 if rest \<noteq> [] \<and> hd rest = 47 then
                   (if tl rest = chars ''uid'' then 1000 + int i
                    else if tl rest = chars ''pid'' then 2000 + int i
                    else if tl rest = chars ''login_time'' then 3000 + int i
                    else if tl rest = chars ''username'' then 4000 + int i
                    else -1)
                 else -1)"

definition mkrn_sessions_open :: "u8 list \<Rightarrow> u32 \<Rightarrow> sessions_state \<Rightarrow> (int \<times> int) \<times> sessions_state" where
  "mkrn_sessions_open path flags s =
     (let idx = get_session_idx_from_path path s in
      if idx < 0 \<and> idx \<noteq> -2 then ((-1, 0), s)
      else case find (\<lambda>i. \<not> sf_in_use (session_files s ! i)) [0..<SESSIONS_MAX_FILES] of
        None \<Rightarrow> ((-1, 0), s)
      | Some i \<Rightarrow>
          let nxt = sessions_next_fd s + 1 in
          ((0, sessions_next_fd s),
           s\<lparr>session_files := (session_files s)[i := \<lparr>sf_path = copy_field (sf_path (session_files s ! i)) path (SESSIONS_MAX_NAME - 1),
                sf_session_idx = idx, sf_fd = sessions_next_fd s, sf_in_use = True\<rparr>],
             sessions_next_fd := (if SESSIONS_FD_LIMIT \<le> nxt then SESSIONS_FD_BASE else nxt)\<rparr>))"

definition sessions_find_by_fd :: "int \<Rightarrow> sessions_state \<Rightarrow> nat option" where
  "sessions_find_by_fd n s =
     find (\<lambda>i. sf_in_use (session_files s ! i) \<and> sf_fd (session_files s ! i) = n) [0..<SESSIONS_MAX_FILES]"

definition mkrn_sessions_close :: "int \<Rightarrow> sessions_state \<Rightarrow> int \<times> sessions_state" where
  "mkrn_sessions_close n s =
     (case sessions_find_by_fd n s of
        None \<Rightarrow> (-1, s)
      | Some i \<Rightarrow> (0, s\<lparr>session_files := (session_files s)[i := (session_files s ! i)\<lparr>sf_in_use := False\<rparr>]\<rparr>))"

definition mkrn_sessions_is_sessions_fd :: "int \<Rightarrow> sessions_state \<Rightarrow> bool" where
  "mkrn_sessions_is_sessions_fd n s \<longleftrightarrow> sessions_find_by_fd n s \<noteq> None"

section \<open>Reading\<close>

text \<open>Decimal digits as the loops of the pseudo filesystems write them.\<close>

definition dec_text :: "u32 \<Rightarrow> u8 list" where
  "dec_text n = rev (dec_rev (unat n))"

definition copy_out :: "u8 list \<Rightarrow> u32 \<Rightarrow> int \<times> u8 list" where
  "copy_out tmp want =
     (let len = (if sint want < int (length tmp) then sint want else int (length tmp)) in (len, take (nat len) tmp))"

text \<open>The names of the sessions, each with a newline, as long as there is room for two
  more characters.\<close>

fun list_ttys :: "int \<Rightarrow> session_entry list \<Rightarrow> u8 list \<Rightarrow> u8 list" where
  "list_ttys cap [] tmp = tmp"
| "list_ttys cap (e # es) tmp =
     (if \<not> int (length tmp) < cap - 2 then tmp
      else if se_in_use e
      then list_ttys cap es (tmp @ take (nat (cap - 2) - length tmp) (cstr (se_tty e)) @ [10])
      else list_ttys cap es tmp)"

definition session_text :: "int \<Rightarrow> session_entry \<Rightarrow> u8 list" where
  "session_text sub_type e =
     (if sub_type = 0 then dec_text (se_uid e) @ [10]
      else if sub_type = 1 then dec_text (se_pid e) @ [10]
      else if sub_type = 2 then dec_text (se_login_time e) @ [10]
      else take 62 (cstr (se_username e)) @ [10])"

definition mkrn_sessions_read :: "int \<Rightarrow> u32 \<Rightarrow> sessions_state \<Rightarrow> int \<times> u8 list" where
  "mkrn_sessions_read n want s =
     (case sessions_find_by_fd n s of
        None \<Rightarrow> (-1, [])
      | Some k \<Rightarrow>
          let idx = sf_session_idx (session_files s ! k) in
          if idx = -2 then
            (let out = list_ttys (min (sint want) 128) (take MAX_SESSIONS (sessions s)) []
             in copy_out (if out = [] then [10] else out) want)
          else if idx < 1000 \<or> 5000 \<le> idx then (-1, [])
          else
            let session_idx = idx mod 1000; sub_type = idx div 1000 - 1 in
            if int MAX_SESSIONS \<le> session_idx \<or> \<not> se_in_use (sessions s ! nat session_idx) then (-1, [])
            else copy_out (session_text sub_type (sessions s ! nat session_idx)) want)"

text \<open>A session file cannot be written, and its directory has no entries.\<close>

definition mkrn_sessions_write :: "int \<Rightarrow> u8 list \<Rightarrow> int" where
  "mkrn_sessions_write n bs = -1"

definition mkrn_sessions_getdents :: "int \<Rightarrow> u32 \<Rightarrow> int \<times> mkrn_vfs_dirent list" where
  "mkrn_sessions_getdents n lim = (0, [])"

end
