(* ===== verification/DeviceTree.thy ===== *)
theory DeviceTree
  imports Sessions
begin

text \<open>
  The table of devices under \<open>/device\<close> (\<open>sys/src/fs/device_tree/mkrn_device_tree.c\<close>). A
  read gives the description of a device once per open file; the text is built in a
  buffer of 256 bytes with a bound on the strings but none on numbers and newlines.
\<close>

definition DT_MAX_FILES :: nat where "DT_MAX_FILES = 32"
definition DT_MAX_NAME :: nat where "DT_MAX_NAME = 64"
definition DT_FD_BASE :: int where "DT_FD_BASE = 3000"
definition DT_FD_LIMIT :: int where "DT_FD_LIMIT = 4000"

record m4k_device =
  dv_name :: string
  dv_type :: string
  dv_io_base :: u32
  dv_irq :: u32
  dv_desc :: string
  dv_present :: bool

record dt_file =
  dt_fd :: int
  dt_name :: "u8 list"
  dt_in_use :: bool
  dt_device_idx :: int
  dt_read_offset :: int

record dt_state =
  dt_devices :: "m4k_device list"
  dt_files :: "dt_file list"
  dt_next_fd :: int

definition dt_file_zero :: dt_file where
  "dt_file_zero = \<lparr>dt_fd = 0, dt_name = replicate DT_MAX_NAME 0, dt_in_use = False, dt_device_idx = 0, dt_read_offset = 0\<rparr>"

definition dt_bss :: dt_state where
  "dt_bss = \<lparr>dt_devices = [], dt_files = replicate DT_MAX_FILES dt_file_zero, dt_next_fd = DT_FD_BASE\<rparr>"

text \<open>The list holds the first \<open>dt_num_devices\<close> entries of the array.\<close>

definition boot_devices :: "m4k_device list" where
  "boot_devices =
    [\<lparr>dv_name = ''serial'', dv_type = ''serial'', dv_io_base = 0x3F8, dv_irq = 4,
      dv_desc = ''NS16550A-compatible serial port (COM1)'', dv_present = True\<rparr>,
     \<lparr>dv_name = ''rtc'', dv_type = ''rtc'', dv_io_base = 0x70, dv_irq = 8,
      dv_desc = ''MC146818 RTC/CMOS'', dv_present = True\<rparr>,
     \<lparr>dv_name = ''timer'', dv_type = ''timer'', dv_io_base = 0x40, dv_irq = 0,
      dv_desc = ''Intel 8253 PIT (Programmable Interval Timer)'', dv_present = True\<rparr>,
     \<lparr>dv_name = ''pic'', dv_type = ''pic'', dv_io_base = 0x20, dv_irq = 2,
      dv_desc = ''Intel 8259A PIC (Programmable Interrupt Controller)'', dv_present = True\<rparr>,
     \<lparr>dv_name = ''keyboard'', dv_type = ''input'', dv_io_base = 0x60, dv_irq = 1,
      dv_desc = ''i8042 PS/2 keyboard controller'', dv_present = False\<rparr>]"

definition mkrn_device_tree_init :: "dt_state \<Rightarrow> dt_state" where
  "mkrn_device_tree_init s = s\<lparr>dt_files := replicate DT_MAX_FILES dt_file_zero, dt_devices := boot_devices\<rparr>"

definition dt_find_device_by_name :: "u8 list \<Rightarrow> dt_state \<Rightarrow> nat option" where
  "dt_find_device_by_name name s =
     find (\<lambda>i. chars (dv_name (dt_devices s ! i)) = name) [0..<length (dt_devices s)]"

definition dt_alloc_file :: "dt_state \<Rightarrow> (nat \<times> dt_state) option" where
  "dt_alloc_file s =
     (case find (\<lambda>i. \<not> dt_in_use (dt_files s ! i)) [0..<DT_MAX_FILES] of
        None \<Rightarrow> None
      | Some i \<Rightarrow>
          let nxt = dt_next_fd s + 1 in
          Some (i, s\<lparr>dt_files := (dt_files s)[i := (dt_files s ! i)
                        \<lparr>dt_fd := dt_next_fd s, dt_in_use := True, dt_read_offset := 0, dt_device_idx := -1\<rparr>],
                     dt_next_fd := (if DT_FD_LIMIT \<le> nxt then DT_FD_BASE else nxt)\<rparr>))"

definition dt_find_by_fd :: "int \<Rightarrow> dt_state \<Rightarrow> nat option" where
  "dt_find_by_fd n s = find (\<lambda>i. dt_in_use (dt_files s ! i) \<and> dt_fd (dt_files s ! i) = n) [0..<DT_MAX_FILES]"

definition dt_set :: "nat \<Rightarrow> (dt_file \<Rightarrow> dt_file) \<Rightarrow> dt_state \<Rightarrow> dt_state" where
  "dt_set i f s = s\<lparr>dt_files := (dt_files s)[i := f (dt_files s ! i)]\<rparr>"

definition dt_open_entry :: "u8 list \<Rightarrow> int \<Rightarrow> dt_state \<Rightarrow> (int \<times> int) \<times> dt_state" where
  "dt_open_entry path idx s =
     (case dt_alloc_file s of
        None \<Rightarrow> ((-1, 0), s)
      | Some (i, s1) \<Rightarrow>
          let s2 = dt_set i (\<lambda>f. f\<lparr>dt_name := copy_field (dt_name f) path (DT_MAX_NAME - 1), dt_device_idx := idx\<rparr>) s1
          in ((0, dt_fd (dt_files s2 ! i)), s2))"

definition mkrn_device_tree_open :: "u8 list \<Rightarrow> u32 \<Rightarrow> dt_state \<Rightarrow> (int \<times> int) \<times> dt_state" where
  "mkrn_device_tree_open path flags s =
     (let p = skip_slashes path in
      if p = chars ''device'' \<or> p = chars ''device/'' then dt_open_entry path (-1) s
      else if starts_with ''device/'' p then
        (case dt_find_device_by_name (drop 7 p) s of
           None \<Rightarrow> ((-1, 0), s)
         | Some idx \<Rightarrow> dt_open_entry path (int idx) s)
      else ((-1, 0), s))"

definition mkrn_device_tree_close :: "int \<Rightarrow> dt_state \<Rightarrow> int \<times> dt_state" where
  "mkrn_device_tree_close n s =
     (case dt_find_by_fd n s of
        None \<Rightarrow> (-1, s)
      | Some i \<Rightarrow> (0, dt_set i (\<lambda>f. f\<lparr>dt_in_use := False\<rparr>) s))"

text \<open>\<open>ADD\<close> and \<open>ADD_HEX\<close>.\<close>

definition dt_add :: "u8 list \<Rightarrow> u8 list \<Rightarrow> u8 list" where
  "dt_add str tmp = tmp @ take (250 - length tmp) str"

fun hex_rev :: "nat \<Rightarrow> u8 list" where
  "hex_rev n = (if n mod 16 < 10 then 48 + of_nat (n mod 16) else 87 + of_nat (n mod 16)) #
     (if n div 16 > 0 then hex_rev (n div 16) else [])"

declare hex_rev.simps [simp del]

definition hex_text :: "u32 \<Rightarrow> u8 list" where
  "hex_text n = rev (hex_rev (unat n))"

definition device_text :: "m4k_device \<Rightarrow> u8 list" where
  "device_text d =
     (let t1 = dt_add (chars (dv_name d)) (dt_add (chars ''name: '') []) @ [10];
          t2 = dt_add (chars (dv_type d)) (dt_add (chars ''type: '') t1) @ [10];
          t3 = dt_add (chars ''io_base: 0x'') t2 @ hex_text (dv_io_base d) @ [10];
          t4 = dt_add (chars ''irq: '') t3 @ dec_text (dv_irq d) @ [10];
          t5 = dt_add (chars (if dv_present d then ''yes'' else ''no'')) (dt_add (chars ''present: '') t4) @ [10]
      in dt_add (chars (dv_desc d)) (dt_add (chars ''desc: '') t5) @ [10])"

definition mkrn_device_tree_read :: "int \<Rightarrow> u32 \<Rightarrow> dt_state \<Rightarrow> (int \<times> u8 list) \<times> dt_state" where
  "mkrn_device_tree_read n want s =
     (case dt_find_by_fd n s of
        None \<Rightarrow> ((-1, []), s)
      | Some i \<Rightarrow>
          let f = dt_files s ! i in
          if 0 < dt_read_offset f then ((0, []), s)
          else if dt_device_idx f < 0 then ((0, []), s)
          else let r = copy_out (device_text (dt_devices s ! nat (dt_device_idx f))) want
               in (r, dt_set i (\<lambda>f. f\<lparr>dt_read_offset := fst r\<rparr>) s))"

definition mkrn_device_tree_write :: "int \<Rightarrow> u8 list \<Rightarrow> int" where
  "mkrn_device_tree_write n bs = -1"

definition mkrn_device_tree_getdents :: "int \<Rightarrow> u32 \<Rightarrow> dt_state \<Rightarrow> int \<times> mkrn_vfs_dirent list" where
  "mkrn_device_tree_getdents n lim s =
     (if dt_find_by_fd n s = None \<or> lim = 0 then (0, [])
      else let ds = take (unat lim) (dt_devices s) in
        (ret_count (length ds),
         map (\<lambda>d. \<lparr>d_inode = 0, d_type = 0, d_name = take (M4K_VFS_MAX_FILENAME - 1) (chars (dv_name d)), d_size = 0\<rparr>) ds))"

definition mkrn_device_tree_is_dt_fd :: "int \<Rightarrow> dt_state \<Rightarrow> bool" where
  "mkrn_device_tree_is_dt_fd n s \<longleftrightarrow> dt_find_by_fd n s \<noteq> None"

end
