(* ===== verification/Procfs.thy ===== *)
theory Procfs
  imports Sessions Fork
begin

text \<open>
  The process filesystem under \<open>/sys/proc\<close> (\<open>sys/src/fs/procfs/mkrn_procfs.c\<close>). Its
  functions act on the table of open files and, for the control files, on the processes
  of the kernel. The argument vector and the environment of a process are arrays of
  pointers to strings in the memory \<open>ram\<close>; the address of the argument vector of a
  process, which is not a field of the process record, is an argument, and so is the address
  \<open>mkrn_alloc\<close> returns to \<open>setenv\<close>, 0 when the heap is full.
\<close>

unbundle bit_operations_syntax

definition PROCFS_MAX_FILES :: nat where "PROCFS_MAX_FILES = 64"
definition PROCFS_FD_BASE :: int where "PROCFS_FD_BASE = 1000"
definition PROCFS_FD_LIMIT :: int where "PROCFS_FD_LIMIT = 2000"
definition PROCFS_MAX_NAME :: nat where "PROCFS_MAX_NAME = 64"

definition M4K_WAIT_FS :: u64 where "M4K_WAIT_FS = 0x00000100"
definition M4K_WAIT_PIPE :: u64 where "M4K_WAIT_PIPE = 0x00000200"
definition M4K_WAIT_IPC :: u64 where "M4K_WAIT_IPC = 0x00000800"
definition M4K_WAIT_CHILD :: u64 where "M4K_WAIT_CHILD = 0x00001000"
definition M4K_WAIT_LOCK :: u64 where "M4K_WAIT_LOCK = 0x00002000"
definition M4K_WAIT_TERMINAL :: u64 where "M4K_WAIT_TERMINAL = 0x00004000"
definition M4K_TRACED :: u64 where "M4K_TRACED = 0x00010000"

text \<open>The kinds of files; \<open>FT_ROOT\<close> is the -1 of the directory itself.\<close>

datatype procfs_type = FT_ROOT | FT_STATUS | FT_CMDLINE | FT_ENVIRON | FT_CWD | FT_NS | FT_CTL

record procfs_file =
  pr_fd :: int
  pr_name :: "u8 list"
  pr_pid :: u32
  pr_in_use :: bool
  pr_type :: procfs_type
  pr_ns_index :: int
  pr_read_offset :: int

record procfs =
  procfs_files :: "procfs_file list"
  procfs_next_fd :: int

definition procfs_file_zero :: procfs_file where
  "procfs_file_zero = \<lparr>pr_fd = 0, pr_name = replicate PROCFS_MAX_NAME 0, pr_pid = 0, pr_in_use = False,
     pr_type = FT_STATUS, pr_ns_index = 0, pr_read_offset = 0\<rparr>"

definition procfs_bss :: procfs where
  "procfs_bss = \<lparr>procfs_files = replicate PROCFS_MAX_FILES procfs_file_zero, procfs_next_fd = PROCFS_FD_BASE\<rparr>"

definition mkrn_procfs_init :: "procfs \<Rightarrow> procfs" where
  "mkrn_procfs_init s = s\<lparr>procfs_files := replicate PROCFS_MAX_FILES procfs_file_zero\<rparr>"

section \<open>State tags as text\<close>

definition tag_names :: "(u64 \<times> string) list" where
  "tag_names =
    [(M4K_SCHED_READY, ''SCHED_READY''), (M4K_SCHED_RUNNING, ''SCHED_RUNNING''), (M4K_SCHED_SLEEPING, ''SCHED_SLEEPING''),
     (M4K_WAIT_FS, ''WAIT_FS''), (M4K_WAIT_PIPE, ''WAIT_PIPE''), (M4K_WAIT_TIMER, ''WAIT_TIMER''), (M4K_WAIT_IPC, ''WAIT_IPC''),
     (M4K_WAIT_CHILD, ''WAIT_CHILD''), (M4K_WAIT_LOCK, ''WAIT_LOCK''), (M4K_WAIT_TERMINAL, ''WAIT_TERMINAL''),
     (M4K_TRACED, ''TRACED''), (M4K_STOPPED, ''STOPPED''), (M4K_ZOMBIE, ''ZOMBIE''), (M4K_IDLE, ''IDLE'')]"

text \<open>The characters written so far, from index 0; the bracket stored there first is
  overwritten.\<close>

fun add_tags :: "u64 \<Rightarrow> (u64 \<times> string) list \<Rightarrow> bool \<Rightarrow> u8 list \<Rightarrow> bool \<times> u8 list" where
  "add_tags t [] first buf = (first, buf)"
| "add_tags t ((m, name) # ms) first buf =
     (if \<not> has t m then add_tags t ms first buf
      else if first then add_tags t ms False (buf @ take (126 - length buf) (chars name))
      else if 126 \<le> length buf + 1 then (False, buf @ chars '','')
      else let buf1 = buf @ chars '', '' in add_tags t ms False (buf1 @ take (126 - length buf1) (chars name)))"

definition format_state_tags :: "u64 \<Rightarrow> u8 list" where
  "format_state_tags t =
     (case add_tags t tag_names True [] of (first, buf) \<Rightarrow> (if first then buf @ chars ''NONE'' else buf) @ chars '']'')"

section \<open>Open files\<close>

fun skip_taken :: "nat \<Rightarrow> int \<Rightarrow> procfs_file list \<Rightarrow> int" where
  "skip_taken 0 n fs = n"
| "skip_taken (Suc guard) n fs =
     (if \<not> list_ex (\<lambda>f. pr_in_use f \<and> pr_fd f = n) (take PROCFS_MAX_FILES fs) then n
      else skip_taken guard (if PROCFS_FD_LIMIT \<le> n + 1 then PROCFS_FD_BASE else n + 1) fs)"

definition procfs_alloc_file :: "procfs \<Rightarrow> (nat \<times> procfs) option" where
  "procfs_alloc_file s =
     (case find (\<lambda>i. \<not> pr_in_use (procfs_files s ! i)) [0..<PROCFS_MAX_FILES] of
        None \<Rightarrow> None
      | Some i \<Rightarrow>
          let n = skip_taken (nat (PROCFS_FD_LIMIT - PROCFS_FD_BASE)) (procfs_next_fd s) (procfs_files s);
              nxt = procfs_next_fd s + 1
          in Some (i, s\<lparr>procfs_files := (procfs_files s)[i := (procfs_files s ! i)
                          \<lparr>pr_fd := n, pr_in_use := True, pr_read_offset := 0\<rparr>],
                        procfs_next_fd := (if PROCFS_FD_LIMIT \<le> nxt then PROCFS_FD_BASE else nxt)\<rparr>))"

definition procfs_set :: "nat \<Rightarrow> (procfs_file \<Rightarrow> procfs_file) \<Rightarrow> procfs \<Rightarrow> procfs" where
  "procfs_set i f s = s\<lparr>procfs_files := (procfs_files s)[i := f (procfs_files s ! i)]\<rparr>"

definition parse_or_0 :: "u8 list \<Rightarrow> u32" where
  "parse_or_0 p = (case mkrn_kstrtouint p 10 of Inl _ \<Rightarrow> 0 | Inr v \<Rightarrow> v)"

definition procfs_getpid_from_path :: "u8 list \<Rightarrow> int" where
  "procfs_getpid_from_path path =
     (let p = skip_slashes path in
      if \<not> starts_with ''sys/proc/'' p then -1 else sint (parse_or_0 (drop 9 p)))"

text \<open>The indices of the slashes; the last component, and whether the one before it is
  the directory of the namespace.\<close>

definition slashes :: "u8 list \<Rightarrow> nat list" where
  "slashes path = filter (\<lambda>i. path ! i = 47) [0..<length path]"

definition last_name :: "u8 list \<Rightarrow> u8 list" where
  "last_name path = (if slashes path = [] then path else drop (last (slashes path) + 1) path)"

definition in_ns_dir :: "u8 list \<Rightarrow> bool" where
  "in_ns_dir path \<longleftrightarrow>
     (let sl = slashes path in
      2 \<le> length sl \<and>
      (let q = drop (sl ! (length sl - 2)) path in
       starts_with ''ns'' (drop 1 q) \<and> (char_at q 3 = 47 \<or> char_at q 3 = 0)))"

definition file_kind :: "u8 list \<Rightarrow> procfs_type" where
  "file_kind path =
     (let name = last_name path in
      if in_ns_dir path then FT_NS
      else if name = chars ''ctl'' then FT_CTL
      else if name = chars ''cmdline'' then FT_CMDLINE
      else if name = chars ''environ'' then FT_ENVIRON
      else if name = chars ''cwd'' then FT_CWD
      else FT_STATUS)"

definition ns_index_of :: "u8 list \<Rightarrow> int" where
  "ns_index_of path =
     (let name = last_name path in
      if in_ns_dir path \<and> 48 \<le> char_at name 0 \<and> char_at name 0 \<le> 57 then sint (parse_or_0 name) else -1)"

definition procfs_open_entry :: "u8 list \<Rightarrow> (procfs_file \<Rightarrow> procfs_file) \<Rightarrow> procfs \<Rightarrow> (int \<times> int) \<times> procfs" where
  "procfs_open_entry path f s =
     (case procfs_alloc_file s of
        None \<Rightarrow> ((-1, 0), s)
      | Some (i, s1) \<Rightarrow>
          let s2 = procfs_set i (\<lambda>e. (f e)\<lparr>pr_name := copy_field (pr_name e) path (PROCFS_MAX_NAME - 1)\<rparr>) s1
          in ((0, pr_fd (procfs_files s2 ! i)), s2))"

definition mkrn_procfs_open :: "kproc \<Rightarrow> u8 list \<Rightarrow> u32 \<Rightarrow> procfs \<Rightarrow> (int \<times> int) \<times> procfs" where
  "mkrn_procfs_open k path flags s =
     (let p = skip_slashes path in
      if p = chars ''sys/proc'' \<or> p = chars ''sys/proc/''
      then procfs_open_entry path (\<lambda>e. e\<lparr>pr_pid := 0, pr_type := FT_ROOT\<rparr>) s
      else let pid = procfs_getpid_from_path path in
        if pid < 0 then ((-1, 0), s)
        else if mkrn_process_find (of_int pid) k = 0 then ((-1, 0), s)
        else procfs_open_entry path (\<lambda>e. e\<lparr>pr_pid := of_int pid, pr_type := file_kind path, pr_ns_index := ns_index_of path\<rparr>) s)"

definition procfs_find_by_fd :: "int \<Rightarrow> procfs \<Rightarrow> nat option" where
  "procfs_find_by_fd n s =
     find (\<lambda>i. pr_in_use (procfs_files s ! i) \<and> pr_fd (procfs_files s ! i) = n) [0..<PROCFS_MAX_FILES]"

definition mkrn_procfs_close :: "int \<Rightarrow> procfs \<Rightarrow> int \<times> procfs" where
  "mkrn_procfs_close n s =
     (case procfs_find_by_fd n s of
        None \<Rightarrow> (-1, s)
      | Some i \<Rightarrow> (0, procfs_set i (\<lambda>e. e\<lparr>pr_in_use := False\<rparr>) s))"

definition mkrn_procfs_is_procfs_fd :: "int \<Rightarrow> procfs \<Rightarrow> bool" where
  "mkrn_procfs_is_procfs_fd n s \<longleftrightarrow> procfs_find_by_fd n s \<noteq> None"

section \<open>Reading\<close>

text \<open>The insertion sort of the process numbers.\<close>

definition sort_pids :: "u32 list \<Rightarrow> u32 list" where
  "sort_pids ps = foldl (\<lambda>out key. insort key out) [] ps"

fun list_pids :: "int \<Rightarrow> u32 list \<Rightarrow> u8 list \<Rightarrow> u8 list" where
  "list_pids cap [] tmp = tmp"
| "list_pids cap (p # ps) tmp =
     (if int (length tmp) < 500 \<and> int (length tmp) < cap - 12
      then list_pids cap ps (tmp @ take (511 - length tmp) (dec_text p) @ [10]) else tmp)"

fun take_str :: "mem \<Rightarrow> u32 \<Rightarrow> nat \<Rightarrow> u8 list" where
  "take_str m a 0 = []"
| "take_str m a (Suc space) = (if m a = 0 then [] else m a # take_str m (a + 1) space)"

lemma length_take_str: "length (take_str m a space) \<le> space"
  by (induction m a space rule: take_str.induct) auto

text \<open>The strings of a vector, each with its terminator; \<open>space\<close> is \<open>508 - len\<close>.\<close>

function copy_strs :: "mem \<Rightarrow> u32 \<Rightarrow> nat \<Rightarrow> u8 list" where
  "copy_strs m a space =
     (if space = 0 \<or> load32 a m = 0 then []
      else let str = take_str m (load32 a m) space in str @ [0] @ copy_strs m (a + 4) (space - length str - 1))"
  by pat_completeness auto
termination by (relation "measure (\<lambda>(m, a, space). space)") auto

declare copy_strs.simps [simp del]

definition vec_text :: "mem \<Rightarrow> u32 \<Rightarrow> u8 list" where
  "vec_text m a = (if a = 0 then [] else copy_strs m a 508)"

definition ns_entry_text :: "ns_entry \<Rightarrow> u8 list" where
  "ns_entry_text e =
     (let t = take 100 (cstr (mnt_path e)) @ chars '' -> '' in t @ take (500 - length t) (cstr (target_path e)) @ [10])"

fun list_ns :: "int \<Rightarrow> ns_entry list \<Rightarrow> u8 list \<Rightarrow> u8 list" where
  "list_ns cap [] tmp = tmp"
| "list_ns cap (e # es) tmp =
     (if \<not> int (length tmp) < cap - 50 then tmp
      else let t1 = tmp @ take (500 - length tmp) (cstr (mnt_path e)) @ chars '' -> ''
           in list_ns cap es (t1 @ take (500 - length t1) (cstr (target_path e)) @ [10]))"

definition ns_text :: "int \<Rightarrow> int \<Rightarrow> namespace \<Rightarrow> u8 list" where
  "ns_text cap idx ns =
     (if 0 \<le> idx \<and> idx < int (entry_count ns) then ns_entry_text (entries ns ! nat idx)
      else let t = list_ns cap (take (entry_count ns) (entries ns)) [] in if t = [] then [10] else t)"

definition status_text :: "proc \<Rightarrow> u8 list" where
  "status_text p =
     chars ''PID: '' @ dec_text (pid p) @ [10] @ chars ''PPID: '' @ dec_text (ppid p) @ [10] @
     chars ''UID: '' @ dec_text (uid p) @ [10] @ chars ''GID: '' @ dec_text (gid p) @ [10] @
     chars ''EUID: '' @ dec_text (euid p) @ [10] @ chars ''EGID: '' @ dec_text (egid p) @ [10] @
     chars ''State: '' @ take 60 (format_state_tags (state_tags p)) @ [10] @
     chars ''CMD: '' @ take 60 (cstr (proc_name p)) @ [10]"

text \<open>The text of a file; a control file has none.\<close>

definition procfs_text :: "u32 \<Rightarrow> u32 \<Rightarrow> procfs_file \<Rightarrow> proc \<Rightarrow> mem \<Rightarrow> u8 list option" where
  "procfs_text argv want f p m =
     (case pr_type f of
        FT_CTL \<Rightarrow> None
      | FT_CWD \<Rightarrow> Some (take 508 (cstr (proc_cwd p)) @ [10])
      | FT_NS \<Rightarrow> Some (ns_text (sint want) (pr_ns_index f) (proc_ns p))
      | FT_CMDLINE \<Rightarrow> Some (vec_text m argv)
      | FT_ENVIRON \<Rightarrow> Some (vec_text m (envp p))
      | _ \<Rightarrow> Some (status_text p))"

definition pid_listing :: "u32 \<Rightarrow> kproc \<Rightarrow> u8 list" where
  "pid_listing want k =
     (let t = list_pids (sint want) (sort_pids (mkrn_process_get_pids 128 k)) [] in if t = [] then [10] else t)"

definition mkrn_procfs_read :: "(u32 \<Rightarrow> u32) \<Rightarrow> kproc \<Rightarrow> int \<Rightarrow> u32 \<Rightarrow> procfs \<Rightarrow> (int \<times> u8 list) \<times> procfs" where
  "mkrn_procfs_read argv k n want s =
     (case procfs_find_by_fd n s of
        None \<Rightarrow> ((-1, []), s)
      | Some i \<Rightarrow>
          let f = procfs_files s ! i;
              give = (\<lambda>t. let r = copy_out t want in (r, procfs_set i (\<lambda>e. e\<lparr>pr_read_offset := fst r\<rparr>) s))
          in if 0 < pr_read_offset f then ((0, []), s)
             else if pr_type f = FT_ROOT then give (pid_listing want k)
             else let p = mkrn_process_find (pr_pid f) k in
               if p = 0 then ((-1, []), s)
               else case procfs_text (argv p) want f (procs k p) (ram k) of
                 None \<Rightarrow> ((0, []), s)
               | Some t \<Rightarrow> give t)"

section \<open>Control files\<close>

text \<open>The line of a control file: at most 127 bytes, without the newlines at its end, as a
  string.\<close>

definition ctl_line :: "u8 list \<Rightarrow> u8 list" where
  "ctl_line bs = cstr (rev (dropWhile (\<lambda>c. c = 10 \<or> c = 13) (rev (take 127 bs))))"

definition ctl_tags :: "(string \<times> u64) list" where
  "ctl_tags =
    [(''SCHED_READY'', M4K_SCHED_READY), (''SCHED_SLEEPING'', M4K_SCHED_SLEEPING), (''WAIT_FS'', M4K_WAIT_FS),
     (''WAIT_PIPE'', M4K_WAIT_PIPE), (''WAIT_TIMER'', M4K_WAIT_TIMER), (''WAIT_IPC'', M4K_WAIT_IPC),
     (''WAIT_CHILD'', M4K_WAIT_CHILD), (''WAIT_LOCK'', M4K_WAIT_LOCK), (''WAIT_TERMINAL'', M4K_WAIT_TERMINAL),
     (''TRACED'', M4K_TRACED), (''STOPPED'', M4K_STOPPED)]"

definition ctl_tag :: "u8 list \<Rightarrow> u64 option" where
  "ctl_tag name = map_option snd (find (\<lambda>(n, m). chars n = name) ctl_tags)"

text \<open>The characters of a string in memory up to a length are those given.\<close>

definition str_prefix :: "mem \<Rightarrow> u32 \<Rightarrow> u8 list \<Rightarrow> bool" where
  "str_prefix m a bs \<longleftrightarrow> list_all (\<lambda>i. m (a + of_nat i) = bs ! i) [0..<length bs]"

definition env_entry :: "mem \<Rightarrow> u32 \<Rightarrow> nat \<Rightarrow> u32" where
  "env_entry m a i = load32 (a + 4 * of_nat i) m"

definition env_match :: "mem \<Rightarrow> u32 \<Rightarrow> u8 list \<Rightarrow> nat \<Rightarrow> bool" where
  "env_match m a key i \<longleftrightarrow>
     str_prefix m (env_entry m a i) key \<and> m (env_entry m a i + of_nat (length key)) = 61"

text \<open>The entries the loops visit: up to the first null pointer, and 63 at most.\<close>

definition env_slots :: "mem \<Rightarrow> u32 \<Rightarrow> nat list" where
  "env_slots m a = takeWhile (\<lambda>i. env_entry m a i \<noteq> 0) [0..<63]"

text \<open>The slot of \<open>setenv\<close>: that of the variable, else the first empty string.\<close>

definition env_slot :: "mem \<Rightarrow> u32 \<Rightarrow> u8 list \<Rightarrow> nat option" where
  "env_slot m a key =
     (case find (env_match m a key) (env_slots m a) of
        Some i \<Rightarrow> Some i
      | None \<Rightarrow> find (\<lambda>i. m (env_entry m a i) = 0) (env_slots m a))"

fun store_bytes_at :: "u32 \<Rightarrow> u8 list \<Rightarrow> mem \<Rightarrow> mem" where
  "store_bytes_at a [] m = m"
| "store_bytes_at a (b # bs) m = store_bytes_at (a + 1) bs (m(a := b))"

definition ctl_setenv :: "u32 \<Rightarrow> u32 \<Rightarrow> u8 list \<Rightarrow> kproc \<Rightarrow> kproc" where
  "ctl_setenv fresh p ev k =
     (let key = takeWhile (\<lambda>c. c \<noteq> 61) ev; a = envp (procs k p) in
      if length key = length ev \<or> a = 0 then k
      else case env_slot (ram k) a key of
        None \<Rightarrow> k
      | Some i \<Rightarrow>
          if fresh = 0 then k
          else
            let m1 = store_bytes_at fresh (take 127 ev @ [0]) (ram k);
                old = env_entry m1 a i;
                k1 = (if old \<noteq> 0 then mkrn_free_at old (k\<lparr>ram := m1\<rparr>) else k\<lparr>ram := m1\<rparr>)
            in k1\<lparr>ram := store32 (a + 4 * of_nat i) fresh (ram k1)\<rparr>)"

definition ctl_unsetenv :: "u32 \<Rightarrow> u8 list \<Rightarrow> kproc \<Rightarrow> kproc" where
  "ctl_unsetenv p key k =
     (let a = envp (procs k p) in
      if a = 0 then k
      else case find (env_match (ram k) a key) (env_slots (ram k) a) of
        None \<Rightarrow> k
      | Some i \<Rightarrow> k\<lparr>ram := (ram k)(env_entry (ram k) a i := 0)\<rparr>)"

text \<open>A command of a control file on the process at \<open>p\<close>; \<open>None\<close> where the line is not
  one.\<close>

definition ctl_command :: "u32 \<Rightarrow> u32 \<Rightarrow> u32 \<Rightarrow> u8 list \<Rightarrow> kproc \<Rightarrow> kproc option" where
  "ctl_command fresh x p line k =
     (if starts_with ''suspend'' line then Some (upd_tags p (clr M4K_SCHED_READY \<circ> put M4K_STOPPED) k)
      else if line = chars ''resume'' then Some (upd_tags p (put M4K_SCHED_READY \<circ> clr M4K_STOPPED) k)
      else if starts_with ''kill '' line then
        (let sig = sint (parse_or_0 (drop 5 line)) in Some (if 0 < sig then snd (mkrn_kill x sig k) else k))
      else if starts_with ''state +'' line then
        Some (case ctl_tag (drop 7 line) of None \<Rightarrow> k | Some m \<Rightarrow> upd_tags p (put m) k)
      else if starts_with ''state -'' line then
        Some (case ctl_tag (drop 7 line) of None \<Rightarrow> k | Some m \<Rightarrow> upd_tags p (clr m) k)
      else if starts_with ''state ='' line then
        Some (case ctl_tag (drop 7 line) of None \<Rightarrow> upd_tags p (\<lambda>_. 0) k | Some m \<Rightarrow> upd_tags p (\<lambda>_. m) k)
      else if starts_with ''niceness '' line then Some k
      else if starts_with ''chdir '' line then
        Some (upd p (\<lambda>r. r\<lparr>proc_cwd := copy_field (proc_cwd r) (drop 6 line) 255\<rparr>) k)
      else if starts_with ''chroot '' line then Some k
      else if starts_with ''setenv '' line then Some (ctl_setenv fresh p (drop 7 line) k)
      else if starts_with ''unsetenv '' line then Some (ctl_unsetenv p (drop 9 line) k)
      else None)"

definition mkrn_procfs_write :: "u32 \<Rightarrow> int \<Rightarrow> u8 list \<Rightarrow> procfs \<Rightarrow> kproc \<Rightarrow> int \<times> kproc" where
  "mkrn_procfs_write fresh n bs s k =
     (case procfs_find_by_fd n s of
        None \<Rightarrow> (-1, k)
      | Some i \<Rightarrow>
          let f = procfs_files s ! i; p = mkrn_process_find (pr_pid f) k in
          if pr_type f \<noteq> FT_CTL then (-1, k)
          else if p = 0 then (-1, k)
          else case ctl_command fresh (pr_pid f) p (ctl_line bs) k of
            None \<Rightarrow> (-1, k)
          | Some k' \<Rightarrow> (ret_count (length bs), k'))"

section \<open>Listing\<close>

text \<open>Names and types written over the entries of the caller's array.\<close>

definition procfs_entries :: "procfs_file \<Rightarrow> kproc \<Rightarrow> (u8 list \<times> u32) list" where
  "procfs_entries f k =
     (if pr_type f = FT_ROOT then map (\<lambda>p. (dec_text p, 1)) (sort_pids (mkrn_process_get_pids 128 k))
      else if mkrn_process_find (pr_pid f) k = 0 then []
      else [(chars ''status'', 0), (chars ''cmdline'', 0), (chars ''environ'', 0), (chars ''cwd'', 0),
            (chars ''ctl'', 0), (chars ''ns'', 1)])"

definition mkrn_procfs_getdents :: "kproc \<Rightarrow> int \<Rightarrow> mkrn_vfs_dirent list \<Rightarrow> u32 \<Rightarrow> procfs \<Rightarrow> int \<times> mkrn_vfs_dirent list" where
  "mkrn_procfs_getdents k n buf lim s =
     (case procfs_find_by_fd n s of
        None \<Rightarrow> (0, [])
      | Some i \<Rightarrow>
          let es = take (unat lim) (procfs_entries (procfs_files s ! i) k) in
          (ret_count (length es), map2 (\<lambda>d (nm, ty). d\<lparr>d_name := nm, d_type := ty\<rparr>) buf es))"

end
