(* ===== verification/PseudoFs.thy ===== *)
theory PseudoFs
  imports DevfsSpec DeviceTree Procfs
begin

text \<open>
  What the four pseudo filesystems promise to the virtual filesystem layer, as the locale
  \<open>pseudo_module\<close>: a table of open files with descriptors of a range, in which opening
  takes a free entry and closing gives one back. \<open>fresh_module\<close> adds that a descriptor
  handed out is not in use. The functions of the modules, put together as the hooks of
  the layer, are interpretations: the process filesystem of \<open>fresh_module\<close>, the others
  of \<open>pseudo_module\<close> only, since they hand out their descriptors in turn without looking
  for open files.
\<close>

section \<open>The contract\<close>

definition fd_in_range :: "int \<Rightarrow> int \<Rightarrow> (bool \<times> int) list \<Rightarrow> bool" where
  "fd_in_range lo hi t \<longleftrightarrow> (\<forall>n. (True, n) \<in> set t \<longrightarrow> lo \<le> n \<and> n < hi)"

definition open_count :: "(bool \<times> int) list \<Rightarrow> nat" where
  "open_count t = length (filter fst t)"

definition distinct_fds :: "(bool \<times> int) list \<Rightarrow> bool" where
  "distinct_fds t \<longleftrightarrow> (\<forall>i < length t. \<forall>j < length t. t ! i = t ! j \<and> fst (t ! i) \<longrightarrow> i = j)"

lemma open_count_update:
  assumes "i < length t"
  shows "open_count (t[i := e]) + (if fst (t ! i) then 1 else 0) = open_count t + (if fst e then 1 else 0)"
  using assms
proof (induction t arbitrary: i)
  case (Cons x t)
  then show ?case by (cases i) (auto simp: open_count_def)
qed simp

lemma in_range_update: "\<lbrakk>fd_in_range lo hi t; fst e \<longrightarrow> lo \<le> snd e \<and> snd e < hi\<rbrakk> \<Longrightarrow> fd_in_range lo hi (t[i := e])"
  using set_update_subset_insert [of t i e] by (force simp: fd_in_range_def)

locale pseudo_module =
  fixes fs :: "'h pseudo_fs" and tab :: "'h \<Rightarrow> (bool \<times> int) list" and wf :: "'h \<Rightarrow> bool" and lo hi :: int
  assumes is_fd: "wf h \<Longrightarrow> pf_is_fd fs n h \<longleftrightarrow> (True, n) \<in> set (tab h)"
    and open_ok: "\<lbrakk>wf h; pf_open fs p fl h = ((0, n), h')\<rbrakk> \<Longrightarrow>
      \<exists>i < length (tab h). \<not> fst (tab h ! i) \<and> tab h' = (tab h)[i := (True, n)] \<and> lo \<le> n \<and> n < hi"
    and open_other: "\<lbrakk>wf h; pf_open fs p fl h = ((st, n), h'); st \<noteq> 0\<rbrakk> \<Longrightarrow> tab h' = tab h"
    and open_wf: "wf h \<Longrightarrow> wf (snd (pf_open fs p fl h))"
    and close_ok: "\<lbrakk>wf h; (True, n) \<in> set (tab h)\<rbrakk> \<Longrightarrow>
      \<exists>i < length (tab h). tab h ! i = (True, n) \<and> fst (pf_close fs n h) = 0 \<and> tab (snd (pf_close fs n h)) = (tab h)[i := (False, n)]"
    and close_other: "\<lbrakk>wf h; (True, n) \<notin> set (tab h)\<rbrakk> \<Longrightarrow> pf_close fs n h = (-1, h)"
    and close_wf: "wf h \<Longrightarrow> wf (snd (pf_close fs n h))"
    and read_tab: "wf h \<Longrightarrow> tab (snd (pf_read fs n want h)) = tab h \<and> wf (snd (pf_read fs n want h))"
    and write_tab: "wf h \<Longrightarrow> tab (snd (pf_write fs n bs h)) = tab h \<and> wf (snd (pf_write fs n bs h))"
begin

lemma open_in_range:
  assumes "wf h" and "fd_in_range lo hi (tab h)"
  shows "fd_in_range lo hi (tab (snd (pf_open fs p fl h)))"
proof (cases "pf_open fs p fl h")
  case (Pair r h')
  obtain st n where r: "r = (st, n)" by fastforce
  show ?thesis
  proof (cases "st = 0")
    case True
    with open_ok [OF assms(1), of p fl n h'] Pair r assms(2) show ?thesis by (auto intro!: in_range_update)
  next
    case False
    with open_other [OF assms(1), of p fl st n h'] Pair r assms(2) show ?thesis by simp
  qed
qed

lemma close_in_range:
  assumes "wf h" and "fd_in_range lo hi (tab h)"
  shows "fd_in_range lo hi (tab (snd (pf_close fs n h)))"
  using assms close_ok [OF assms(1), of n] close_other [OF assms(1), of n]
  by (cases "(True, n) \<in> set (tab h)") (auto intro!: in_range_update)

lemma is_fd_range: "\<lbrakk>wf h; fd_in_range lo hi (tab h); pf_is_fd fs n h\<rbrakk> \<Longrightarrow> lo \<le> n \<and> n < hi"
  by (auto simp: is_fd fd_in_range_def)

lemma open_is_fd:
  assumes "wf h" and "pf_open fs p fl h = ((0, n), h')"
  shows "pf_is_fd fs n h'"
proof -
  have "wf h'" using open_wf [OF assms(1), of p fl] assms(2) by simp
  with open_ok [OF assms] show ?thesis by (auto simp: is_fd intro: set_update_memI)
qed

text \<open>An open file takes one entry, and a full table refuses.\<close>

lemma open_takes_one:
  assumes "wf h" and "pf_open fs p fl h = ((0, n), h')"
  shows "open_count (tab h') = Suc (open_count (tab h))"
  using open_ok [OF assms] open_count_update [of _ "tab h" "(True, n)"] by fastforce

lemma close_gives_one:
  assumes "wf h" and "pf_is_fd fs n h"
  shows "fst (pf_close fs n h) = 0" and "Suc (open_count (tab (snd (pf_close fs n h)))) = open_count (tab h)"
  using close_ok [OF assms(1), of n] assms is_fd open_count_update [of _ "tab h" "(False, n)"] by fastforce+

lemma full_refuses:
  assumes "wf h" and "open_count (tab h) = length (tab h)"
  shows "fst (fst (pf_open fs p fl h)) \<noteq> 0"
proof
  assume "fst (fst (pf_open fs p fl h)) = 0"
  then obtain n h' where o: "pf_open fs p fl h = ((0, n), h')" by (metis prod.exhaust_sel)
  have "\<forall>e \<in> set (tab h). fst e" using assms(2) unfolding open_count_def
    by (metis filter_id_conv length_filter_less less_irrefl)
  with open_ok [OF assms(1) o] show False by auto
qed

end

locale fresh_module = pseudo_module +
  assumes open_fresh: "\<lbrakk>wf h; fd_in_range lo hi (tab h); pf_open fs p fl h = ((0, n), h')\<rbrakk> \<Longrightarrow> (True, n) \<notin> set (tab h)"
begin

lemma open_distinct:
  assumes "wf h" and "fd_in_range lo hi (tab h)" and "distinct_fds (tab h)" and "pf_open fs p fl h = ((0, n), h')"
  shows "distinct_fds (tab h')"
proof -
  obtain i where i: "i < length (tab h)" "tab h' = (tab h)[i := (True, n)]" using open_ok [OF assms(1,4)] by auto
  moreover have "tab h ! j \<noteq> (True, n) \<and> (True, n) \<noteq> tab h ! j" if "j < length (tab h)" for j
    using open_fresh [OF assms(1,2,4)] that nth_mem by fastforce
  ultimately show ?thesis using assms(3) by (auto simp: distinct_fds_def nth_list_update)
qed

text \<open>A closed descriptor is no longer one.\<close>

lemma close_gone:
  assumes "wf h" and "distinct_fds (tab h)" and "pf_is_fd fs n h"
  shows "\<not> pf_is_fd fs n (snd (pf_close fs n h))"
proof -
  obtain i where i: "i < length (tab h)" "tab h ! i = (True, n)" "tab (snd (pf_close fs n h)) = (tab h)[i := (False, n)]"
    using close_ok [OF assms(1)] is_fd [OF assms(1)] assms(3) by blast
  then have "(True, n) \<notin> set ((tab h)[i := (False, n)])"
    using assms(2) by (auto simp: distinct_fds_def in_set_conv_nth nth_list_update)
  then show ?thesis using i(3) by (simp add: is_fd close_wf assms(1))
qed

end

section \<open>The hooks\<close>

text \<open>The state behind the hooks: the processes and the four modules. The buffers of
  directory entries are zero.\<close>

record 'd penv =
  pe_kproc :: kproc
  pe_procfs :: procfs
  pe_sessions :: sessions_state
  pe_dt :: dt_state
  pe_devfs :: "'d devfs"

definition dirent_zero :: mkrn_vfs_dirent where
  "dirent_zero = \<lparr>d_inode = 0, d_type = 0, d_name = [], d_size = 0\<rparr>"

definition procfs_hooks :: "(u32 \<Rightarrow> u32) \<Rightarrow> (kproc \<Rightarrow> u32) \<Rightarrow> 'd penv pseudo_fs" where
  "procfs_hooks argv fresh =
     \<lparr>pf_open = (\<lambda>p fl h. case mkrn_procfs_open (pe_kproc h) p fl (pe_procfs h) of (r, s) \<Rightarrow> (r, h\<lparr>pe_procfs := s\<rparr>)),
      pf_is_fd = (\<lambda>n h. mkrn_procfs_is_procfs_fd n (pe_procfs h)),
      pf_read = (\<lambda>n want h. case mkrn_procfs_read argv (pe_kproc h) n want (pe_procfs h) of (r, s) \<Rightarrow> (r, h\<lparr>pe_procfs := s\<rparr>)),
      pf_write = (\<lambda>n bs h. case mkrn_procfs_write (fresh (pe_kproc h)) n bs (pe_procfs h) (pe_kproc h) of
                    (r, k) \<Rightarrow> (r, h\<lparr>pe_kproc := k\<rparr>)),
      pf_close = (\<lambda>n h. case mkrn_procfs_close n (pe_procfs h) of (r, s) \<Rightarrow> (r, h\<lparr>pe_procfs := s\<rparr>)),
      pf_lseek = (\<lambda>n off wh h. (-1, h)),
      pf_getdents = (\<lambda>n lim h. (mkrn_procfs_getdents (pe_kproc h) n (replicate (unat lim) dirent_zero) lim (pe_procfs h), h))\<rparr>"

definition sessions_hooks :: "'d penv pseudo_fs" where
  "sessions_hooks =
     \<lparr>pf_open = (\<lambda>p fl h. case mkrn_sessions_open p fl (pe_sessions h) of (r, s) \<Rightarrow> (r, h\<lparr>pe_sessions := s\<rparr>)),
      pf_is_fd = (\<lambda>n h. mkrn_sessions_is_sessions_fd n (pe_sessions h)),
      pf_read = (\<lambda>n want h. (mkrn_sessions_read n want (pe_sessions h), h)),
      pf_write = (\<lambda>n bs h. (mkrn_sessions_write n bs, h)),
      pf_close = (\<lambda>n h. case mkrn_sessions_close n (pe_sessions h) of (r, s) \<Rightarrow> (r, h\<lparr>pe_sessions := s\<rparr>)),
      pf_lseek = (\<lambda>n off wh h. (-1, h)),
      pf_getdents = (\<lambda>n lim h. (mkrn_sessions_getdents n lim, h))\<rparr>"

definition dt_hooks :: "'d penv pseudo_fs" where
  "dt_hooks =
     \<lparr>pf_open = (\<lambda>p fl h. case mkrn_device_tree_open p fl (pe_dt h) of (r, s) \<Rightarrow> (r, h\<lparr>pe_dt := s\<rparr>)),
      pf_is_fd = (\<lambda>n h. mkrn_device_tree_is_dt_fd n (pe_dt h)),
      pf_read = (\<lambda>n want h. case mkrn_device_tree_read n want (pe_dt h) of (r, s) \<Rightarrow> (r, h\<lparr>pe_dt := s\<rparr>)),
      pf_write = (\<lambda>n bs h. (mkrn_device_tree_write n bs, h)),
      pf_close = (\<lambda>n h. case mkrn_device_tree_close n (pe_dt h) of (r, s) \<Rightarrow> (r, h\<lparr>pe_dt := s\<rparr>)),
      pf_lseek = (\<lambda>n off wh h. (-1, h)),
      pf_getdents = (\<lambda>n lim h. (mkrn_device_tree_getdents n lim (pe_dt h), h))\<rparr>"

definition devfs_hooks :: "'d ports \<Rightarrow> 'd penv pseudo_fs" where
  "devfs_hooks io =
     \<lparr>pf_open = (\<lambda>p fl h. case mkrn_devfs_open (mkrn_process_get_euid (pe_kproc h)) p fl (pe_devfs h) of
                   (r, s) \<Rightarrow> (r, h\<lparr>pe_devfs := s\<rparr>)),
      pf_is_fd = (\<lambda>n h. mkrn_devfs_is_devfs_fd n (pe_devfs h)),
      pf_read = (\<lambda>n want h. case mkrn_devfs_read io n want (pe_devfs h) of (r, s) \<Rightarrow> (r, h\<lparr>pe_devfs := s\<rparr>)),
      pf_write = (\<lambda>n bs h. case mkrn_devfs_write io n bs (pe_devfs h) of (r, s) \<Rightarrow> (r, h\<lparr>pe_devfs := s\<rparr>)),
      pf_close = (\<lambda>n h. case mkrn_devfs_close n (pe_devfs h) of (r, s) \<Rightarrow> (r, h\<lparr>pe_devfs := s\<rparr>)),
      pf_lseek = (\<lambda>n off wh h. case mkrn_devfs_lseek n off wh (pe_devfs h) of (r, s) \<Rightarrow> (r, h\<lparr>pe_devfs := s\<rparr>)),
      pf_getdents = (\<lambda>n lim h. (mkrn_devfs_getdents n (replicate (unat lim) dirent_zero) lim (pe_devfs h), h))\<rparr>"

text \<open>The hooks of the layer over them, for any kernel heap.\<close>

definition kernel_hooks :: "'d ports \<Rightarrow> (u32 \<Rightarrow> u32) \<Rightarrow> (kproc \<Rightarrow> u32) \<Rightarrow>
    (u32 \<Rightarrow> 'd penv \<Rightarrow> (u32 \<times> u8 list) option \<times> 'd penv) \<Rightarrow> (u32 \<Rightarrow> 'd penv \<Rightarrow> 'd penv) \<Rightarrow> 'd penv vfs_hooks" where
  "kernel_hooks io argv fresh al fr =
     \<lparr>hk_procfs = procfs_hooks argv fresh, hk_sessions = sessions_hooks, hk_device_tree = dt_hooks,
      hk_devfs = devfs_hooks io, hk_alloc = al, hk_free = fr\<rparr>"

section \<open>The modules keep the contract\<close>

text \<open>Lemmas on a table seen through the use and the descriptor of its entries.\<close>

definition seen :: "('f \<Rightarrow> bool) \<Rightarrow> ('f \<Rightarrow> int) \<Rightarrow> 'f list \<Rightarrow> (bool \<times> int) list" where
  "seen use fd fs = map (\<lambda>f. (use f, fd f)) fs"

lemma length_seen [simp]: "length (seen use fd fs) = length fs"
  by (simp add: seen_def)

lemma nth_seen [simp]: "i < length fs \<Longrightarrow> seen use fd fs ! i = (use (fs ! i), fd (fs ! i))"
  by (simp add: seen_def)

lemma seen_update: "seen use fd (fs[i := f]) = (seen use fd fs)[i := (use f, fd f)]"
  by (simp add: seen_def map_update)

lemma seen_update_same:
  "\<lbrakk>use f = use (fs ! i); fd f = fd (fs ! i)\<rbrakk> \<Longrightarrow> seen use fd (fs[i := f]) = seen use fd fs"
  by (cases "i < length fs") (simp_all add: seen_update list_update_same_conv list_update_beyond)

lemma find_seen:
  assumes "length fs = n"
  shows "find (\<lambda>i. use (fs ! i) \<and> fd (fs ! i) = x) [0..<n] \<noteq> None \<longleftrightarrow> (True, x) \<in> set (seen use fd fs)"
  using assms by (auto simp: find_None_iff in_set_conv_nth)

lemma find_seen_Some:
  assumes "find (\<lambda>i. use (fs ! i) \<and> fd (fs ! i) = x) [0..<n] = Some i" and "length fs = n"
  shows "i < length fs" and "seen use fd fs ! i = (True, x)"
  using find_upt_Some [OF assms(1)] assms(2) by auto

definition wrap_ok :: "int \<Rightarrow> int \<Rightarrow> int \<Rightarrow> bool" where
  "wrap_ok lo hi n \<longleftrightarrow> lo \<le> n \<and> n < hi"

definition sessions_tab :: "'d penv \<Rightarrow> (bool \<times> int) list" where
  "sessions_tab h = seen sf_in_use sf_fd (session_files (pe_sessions h))"

definition sessions_wf :: "'d penv \<Rightarrow> bool" where
  "sessions_wf h \<longleftrightarrow> length (session_files (pe_sessions h)) = SESSIONS_MAX_FILES \<and>
     wrap_ok SESSIONS_FD_BASE SESSIONS_FD_LIMIT (sessions_next_fd (pe_sessions h))"

interpretation sessions_mod: pseudo_module "sessions_hooks :: 'd penv pseudo_fs" sessions_tab sessions_wf SESSIONS_FD_BASE SESSIONS_FD_LIMIT
proof unfold_locales
  fix h :: "'d penv" and n p fl h' st want bs
  note defs = sessions_hooks_def sessions_tab_def sessions_wf_def
  show "sessions_wf h \<Longrightarrow> pf_is_fd sessions_hooks n h \<longleftrightarrow> (True, n) \<in> set (sessions_tab h)"
    by (simp add: defs mkrn_sessions_is_sessions_fd_def sessions_find_by_fd_def find_seen del: not_None_eq)
  show "\<lbrakk>sessions_wf h; pf_open sessions_hooks p fl h = ((0, n), h')\<rbrakk> \<Longrightarrow>
      \<exists>i < length (sessions_tab h). \<not> fst (sessions_tab h ! i) \<and> sessions_tab h' = (sessions_tab h)[i := (True, n)] \<and>
        SESSIONS_FD_BASE \<le> n \<and> n < SESSIONS_FD_LIMIT"
    by (auto simp: defs mkrn_sessions_open_def Let_def wrap_ok_def seen_update dest!: find_upt_Some
      split: option.splits prod.splits if_splits)
  show "\<lbrakk>sessions_wf h; pf_open sessions_hooks p fl h = ((st, n), h'); st \<noteq> 0\<rbrakk> \<Longrightarrow> sessions_tab h' = sessions_tab h"
    by (auto simp: defs mkrn_sessions_open_def Let_def split: option.splits prod.splits if_splits)
  show "sessions_wf h \<Longrightarrow> sessions_wf (snd (pf_open sessions_hooks p fl h))"
    by (auto simp: defs mkrn_sessions_open_def Let_def wrap_ok_def SESSIONS_FD_BASE_def SESSIONS_FD_LIMIT_def
      split: option.splits prod.splits if_splits)
  show "\<lbrakk>sessions_wf h; (True, n) \<in> set (sessions_tab h)\<rbrakk> \<Longrightarrow>
      \<exists>i < length (sessions_tab h). sessions_tab h ! i = (True, n) \<and> fst (pf_close sessions_hooks n h) = 0 \<and>
        sessions_tab (snd (pf_close sessions_hooks n h)) = (sessions_tab h)[i := (False, n)]"
    using find_seen [of "session_files (pe_sessions h)" SESSIONS_MAX_FILES sf_in_use sf_fd n]
    by (auto simp: defs mkrn_sessions_close_def sessions_find_by_fd_def seen_update dest!: find_upt_Some
      split: option.splits)
  show "\<lbrakk>sessions_wf h; (True, n) \<notin> set (sessions_tab h)\<rbrakk> \<Longrightarrow> pf_close sessions_hooks n h = (-1, h)"
    using find_seen [of "session_files (pe_sessions h)" SESSIONS_MAX_FILES sf_in_use sf_fd n]
    by (auto simp: defs mkrn_sessions_close_def sessions_find_by_fd_def split: option.splits)
  show "sessions_wf h \<Longrightarrow> sessions_wf (snd (pf_close sessions_hooks n h))"
    by (auto simp: defs mkrn_sessions_close_def split: option.splits)
qed (simp_all add: sessions_hooks_def)

definition dt_tab :: "'d penv \<Rightarrow> (bool \<times> int) list" where
  "dt_tab h = seen dt_in_use dt_fd (dt_files (pe_dt h))"

definition dt_wf :: "'d penv \<Rightarrow> bool" where
  "dt_wf h \<longleftrightarrow> length (dt_files (pe_dt h)) = DT_MAX_FILES \<and> wrap_ok DT_FD_BASE DT_FD_LIMIT (dt_next_fd (pe_dt h))"

lemma dt_open_entry_tab:
  assumes "length (dt_files s) = DT_MAX_FILES" and "wrap_ok DT_FD_BASE DT_FD_LIMIT (dt_next_fd s)"
    and "dt_open_entry path idx s = ((st, n), s')"
  shows "st = 0 \<Longrightarrow> \<exists>i < length (seen dt_in_use dt_fd (dt_files s)). \<not> fst (seen dt_in_use dt_fd (dt_files s) ! i) \<and>
      seen dt_in_use dt_fd (dt_files s') = (seen dt_in_use dt_fd (dt_files s))[i := (True, n)] \<and> n = dt_next_fd s"
    and "st \<noteq> 0 \<Longrightarrow> dt_files s' = dt_files s"
    and "length (dt_files s') = DT_MAX_FILES" and "wrap_ok DT_FD_BASE DT_FD_LIMIT (dt_next_fd s')"
  using assms
  by (auto simp: dt_open_entry_def dt_alloc_file_def dt_set_def Let_def seen_update wrap_ok_def DT_FD_BASE_def DT_FD_LIMIT_def
    dest!: find_upt_Some split: option.splits prod.splits if_splits)

lemma dt_open_cases:
  "mkrn_device_tree_open p fl s = ((-1, 0), s) \<or> (\<exists>idx. mkrn_device_tree_open p fl s = dt_open_entry p idx s)"
  by (auto simp: mkrn_device_tree_open_def Let_def split: option.splits)

lemma dt_open_tab:
  assumes l: "length (dt_files s) = DT_MAX_FILES" "wrap_ok DT_FD_BASE DT_FD_LIMIT (dt_next_fd s)"
    and o: "mkrn_device_tree_open p fl s = ((st, n), s')"
  shows "st = 0 \<Longrightarrow> \<exists>i < length (seen dt_in_use dt_fd (dt_files s)). \<not> fst (seen dt_in_use dt_fd (dt_files s) ! i) \<and>
      seen dt_in_use dt_fd (dt_files s') = (seen dt_in_use dt_fd (dt_files s))[i := (True, n)] \<and> n = dt_next_fd s"
    and "st \<noteq> 0 \<Longrightarrow> dt_files s' = dt_files s"
    and "length (dt_files s') = DT_MAX_FILES" and "wrap_ok DT_FD_BASE DT_FD_LIMIT (dt_next_fd s')"
  using dt_open_cases [of p fl s] o l dt_open_entry_tab [OF l, of p _ st n s'] by force+

interpretation dt_mod: pseudo_module "dt_hooks :: 'd penv pseudo_fs" dt_tab dt_wf DT_FD_BASE DT_FD_LIMIT
proof unfold_locales
  fix h :: "'d penv" and n p fl h' st want bs
  note defs = dt_hooks_def dt_tab_def dt_wf_def
  show "dt_wf h \<Longrightarrow> pf_is_fd dt_hooks n h \<longleftrightarrow> (True, n) \<in> set (dt_tab h)"
    by (simp add: defs mkrn_device_tree_is_dt_fd_def dt_find_by_fd_def find_seen del: not_None_eq)
  show "\<lbrakk>dt_wf h; pf_open dt_hooks p fl h = ((0, n), h')\<rbrakk> \<Longrightarrow>
      \<exists>i < length (dt_tab h). \<not> fst (dt_tab h ! i) \<and> dt_tab h' = (dt_tab h)[i := (True, n)] \<and> DT_FD_BASE \<le> n \<and> n < DT_FD_LIMIT"
    using dt_open_tab(1) [of "pe_dt h" p fl 0 n]
    by (auto simp: defs wrap_ok_def simp del: length_seen nth_seen split: prod.splits)
  show "\<lbrakk>dt_wf h; pf_open dt_hooks p fl h = ((st, n), h'); st \<noteq> 0\<rbrakk> \<Longrightarrow> dt_tab h' = dt_tab h"
    using dt_open_tab(2) [of "pe_dt h" p fl st n] by (auto simp: defs split: prod.splits)
  show "dt_wf h \<Longrightarrow> dt_wf (snd (pf_open dt_hooks p fl h))"
    using dt_open_tab(3,4) [of "pe_dt h" p fl] by (auto simp: defs split: prod.splits)
  show "\<lbrakk>dt_wf h; (True, n) \<in> set (dt_tab h)\<rbrakk> \<Longrightarrow>
      \<exists>i < length (dt_tab h). dt_tab h ! i = (True, n) \<and> fst (pf_close dt_hooks n h) = 0 \<and>
        dt_tab (snd (pf_close dt_hooks n h)) = (dt_tab h)[i := (False, n)]"
    using find_seen [of "dt_files (pe_dt h)" DT_MAX_FILES dt_in_use dt_fd n]
    by (auto simp: defs mkrn_device_tree_close_def dt_find_by_fd_def dt_set_def seen_update dest!: find_upt_Some
      split: option.splits)
  show "\<lbrakk>dt_wf h; (True, n) \<notin> set (dt_tab h)\<rbrakk> \<Longrightarrow> pf_close dt_hooks n h = (-1, h)"
    using find_seen [of "dt_files (pe_dt h)" DT_MAX_FILES dt_in_use dt_fd n]
    by (auto simp: defs mkrn_device_tree_close_def dt_find_by_fd_def split: option.splits)
  show "dt_wf h \<Longrightarrow> dt_wf (snd (pf_close dt_hooks n h))"
    by (auto simp: defs mkrn_device_tree_close_def dt_set_def split: option.splits)
  show "dt_wf h \<Longrightarrow> dt_tab (snd (pf_read dt_hooks n want h)) = dt_tab h \<and> dt_wf (snd (pf_read dt_hooks n want h))"
    by (auto simp: defs mkrn_device_tree_read_def dt_set_def Let_def seen_update_same split: option.splits prod.splits)
qed (simp_all add: dt_hooks_def)

definition devfs_tab :: "'d penv \<Rightarrow> (bool \<times> int) list" where
  "devfs_tab h = seen df_in_use df_fd (devfs_files (pe_devfs h))"

definition devfs_wf :: "'d penv \<Rightarrow> bool" where
  "devfs_wf h \<longleftrightarrow> length (devfs_files (pe_devfs h)) = DEVFS_MAX_FILES \<and>
     wrap_ok DEVFS_FD_BASE DEVFS_FD_LIMIT (devfs_next_fd (pe_devfs h))"

lemma open_entry_tab:
  assumes "length (devfs_files s) = DEVFS_MAX_FILES" and "wrap_ok DEVFS_FD_BASE DEVFS_FD_LIMIT (devfs_next_fd s)"
    and "\<And>e. df_in_use (f e) = df_in_use e" and "\<And>e. df_fd (f e) = df_fd e"
    and "open_entry path f s = ((st, n), s')"
  shows "st = 0 \<Longrightarrow> \<exists>i < length (seen df_in_use df_fd (devfs_files s)). \<not> fst (seen df_in_use df_fd (devfs_files s) ! i) \<and>
      seen df_in_use df_fd (devfs_files s') = (seen df_in_use df_fd (devfs_files s))[i := (True, n)] \<and> n = devfs_next_fd s"
    and "st \<noteq> 0 \<Longrightarrow> devfs_files s' = devfs_files s"
    and "length (devfs_files s') = DEVFS_MAX_FILES" and "wrap_ok DEVFS_FD_BASE DEVFS_FD_LIMIT (devfs_next_fd s')"
  using assms
  by (auto simp: open_entry_def devfs_alloc_file_def devfs_set_def Let_def seen_update wrap_ok_def DEVFS_FD_BASE_def
    DEVFS_FD_LIMIT_def dest!: find_upt_Some split: option.splits prod.splits if_splits)

lemma devfs_open_cases:
  "mkrn_devfs_open eu p fl s = ((-1, 0), s) \<or>
   (\<exists>f. mkrn_devfs_open eu p fl s = open_entry p f s \<and> (\<forall>e. df_in_use (f e) = df_in_use e) \<and> (\<forall>e. df_fd (f e) = df_fd e))"
proof -
  define f1 :: "devfs_file \<Rightarrow> devfs_file" where "f1 = (\<lambda>e. e\<lparr>df_is_dir := True, df_drive := 0, df_start_lba := 0, df_size_sectors := 0\<rparr>)"
  define f2 :: "u8 \<Rightarrow> u64 \<Rightarrow> u64 \<Rightarrow> devfs_file \<Rightarrow> devfs_file" where "f2 = (\<lambda>dr st sz e. e\<lparr>df_is_dir := False, df_drive := dr, df_start_lba := st, df_size_sectors := sz\<rparr>)"
  have "(\<forall>e. df_in_use (f1 e) = df_in_use e) \<and> (\<forall>e. df_fd (f1 e) = df_fd e)"
    "(\<forall>e. df_in_use (f2 dr st sz e) = df_in_use e) \<and> (\<forall>e. df_fd (f2 dr st sz e) = df_fd e)" for dr st sz
    by (simp_all add: f1_def f2_def)
  moreover have "mkrn_devfs_open eu p fl s \<in> {((-1, 0), s), open_entry p f1 s} \<or>
      (\<exists>dr st sz. mkrn_devfs_open eu p fl s = open_entry p (f2 dr st sz) s)"
    unfolding mkrn_devfs_open_def Let_def f1_def [symmetric] f2_def [symmetric]
    by (auto simp: f2_def split: option.splits prod.splits)
  ultimately show ?thesis by blast
qed

lemma read_loop_same:
  "df_in_use (fst (snd (devfs_read_loop io need e a))) = df_in_use e \<and> df_fd (fst (snd (devfs_read_loop io need e a))) = df_fd e"
proof (induction io need e a rule: devfs_read_loop.induct)
  case (1 io need e a)
  show ?case using 1 by (subst (1 2) devfs_read_loop.simps) (auto simp: Let_def df_advance_def split: prod.splits)
qed

lemma write_loop_same:
  "df_in_use (fst (snd (devfs_write_loop io bs e a))) = df_in_use e \<and> df_fd (fst (snd (devfs_write_loop io bs e a))) = df_fd e"
proof (induction io bs e a rule: devfs_write_loop.induct)
  case (1 io bs e a)
  show ?case using 1 by (subst (1 2) devfs_write_loop.simps) (auto simp: Let_def df_advance_def split: prod.splits)
qed

lemma devfs_rw_tab:
  shows "seen df_in_use df_fd (devfs_files (snd (mkrn_devfs_read io n want s))) = seen df_in_use df_fd (devfs_files s)"
    and "seen df_in_use df_fd (devfs_files (snd (mkrn_devfs_write io n bs s))) = seen df_in_use df_fd (devfs_files s)"
    and "devfs_next_fd (snd (mkrn_devfs_read io n want s)) = devfs_next_fd s"
    and "devfs_next_fd (snd (mkrn_devfs_write io n bs s)) = devfs_next_fd s"
proof -
  show "seen df_in_use df_fd (devfs_files (snd (mkrn_devfs_read io n want s))) = seen df_in_use df_fd (devfs_files s)"
    using read_loop_same [of io "unat want" _ "dv_ata s"]
    by (force simp: mkrn_devfs_read_def devfs_set_def Let_def split: option.splits prod.splits intro: seen_update_same)
  show "seen df_in_use df_fd (devfs_files (snd (mkrn_devfs_write io n bs s))) = seen df_in_use df_fd (devfs_files s)"
    using write_loop_same [of io bs _ "dv_ata s"]
    by (force simp: mkrn_devfs_write_def devfs_set_def Let_def split: option.splits prod.splits intro: seen_update_same)
qed (auto simp: mkrn_devfs_read_def mkrn_devfs_write_def devfs_set_def Let_def split: option.splits prod.splits)

lemma devfs_open_tab:
  assumes l: "length (devfs_files s) = DEVFS_MAX_FILES" "wrap_ok DEVFS_FD_BASE DEVFS_FD_LIMIT (devfs_next_fd s)"
    and o: "mkrn_devfs_open eu p fl s = ((st, n), s')"
  shows "st = 0 \<Longrightarrow> \<exists>i < length (seen df_in_use df_fd (devfs_files s)). \<not> fst (seen df_in_use df_fd (devfs_files s) ! i) \<and>
      seen df_in_use df_fd (devfs_files s') = (seen df_in_use df_fd (devfs_files s))[i := (True, n)] \<and> n = devfs_next_fd s"
    and "st \<noteq> 0 \<Longrightarrow> devfs_files s' = devfs_files s"
    and "length (devfs_files s') = DEVFS_MAX_FILES" and "wrap_ok DEVFS_FD_BASE DEVFS_FD_LIMIT (devfs_next_fd s')"
proof -
  consider "st = -1" "s' = s"
    | f where "open_entry p f s = ((st, n), s')" "\<And>e. df_in_use (f e) = df_in_use e" "\<And>e. df_fd (f e) = df_fd e"
    using devfs_open_cases [of eu p fl s] o by auto
  then have "(st = 0 \<longrightarrow> (\<exists>i < length (seen df_in_use df_fd (devfs_files s)). \<not> fst (seen df_in_use df_fd (devfs_files s) ! i) \<and>
      seen df_in_use df_fd (devfs_files s') = (seen df_in_use df_fd (devfs_files s))[i := (True, n)] \<and> n = devfs_next_fd s)) \<and>
    (st \<noteq> 0 \<longrightarrow> devfs_files s' = devfs_files s) \<and>
    length (devfs_files s') = DEVFS_MAX_FILES \<and> wrap_ok DEVFS_FD_BASE DEVFS_FD_LIMIT (devfs_next_fd s')"
  proof cases
    case 1
    then show ?thesis using l by simp
  next
    case 2
    with open_entry_tab [OF l 2(2,3,1)] show ?thesis by blast
  qed
  then show "st = 0 \<Longrightarrow> \<exists>i < length (seen df_in_use df_fd (devfs_files s)). \<not> fst (seen df_in_use df_fd (devfs_files s) ! i) \<and>
      seen df_in_use df_fd (devfs_files s') = (seen df_in_use df_fd (devfs_files s))[i := (True, n)] \<and> n = devfs_next_fd s"
    "st \<noteq> 0 \<Longrightarrow> devfs_files s' = devfs_files s"
    "length (devfs_files s') = DEVFS_MAX_FILES" "wrap_ok DEVFS_FD_BASE DEVFS_FD_LIMIT (devfs_next_fd s')"
    by blast+
qed

interpretation devfs_mod: pseudo_module "devfs_hooks io :: 'd penv pseudo_fs" devfs_tab devfs_wf DEVFS_FD_BASE DEVFS_FD_LIMIT
proof unfold_locales
  fix h :: "'d penv" and n p fl h' st want bs
  note defs = devfs_hooks_def devfs_tab_def devfs_wf_def
  show "devfs_wf h \<Longrightarrow> pf_is_fd (devfs_hooks io) n h \<longleftrightarrow> (True, n) \<in> set (devfs_tab h)"
    by (simp add: defs mkrn_devfs_is_devfs_fd_def devfs_find_by_fd_def find_seen del: not_None_eq)
  show "\<lbrakk>devfs_wf h; pf_open (devfs_hooks io) p fl h = ((0, n), h')\<rbrakk> \<Longrightarrow>
      \<exists>i < length (devfs_tab h). \<not> fst (devfs_tab h ! i) \<and> devfs_tab h' = (devfs_tab h)[i := (True, n)] \<and>
        DEVFS_FD_BASE \<le> n \<and> n < DEVFS_FD_LIMIT"
    using devfs_open_tab(1) [of "pe_devfs h" "mkrn_process_get_euid (pe_kproc h)" p fl 0 n]
    by (auto simp: defs wrap_ok_def simp del: length_seen nth_seen split: prod.splits)
  show "\<lbrakk>devfs_wf h; pf_open (devfs_hooks io) p fl h = ((st, n), h'); st \<noteq> 0\<rbrakk> \<Longrightarrow> devfs_tab h' = devfs_tab h"
    using devfs_open_tab(2) [of "pe_devfs h" "mkrn_process_get_euid (pe_kproc h)" p fl st n] by (auto simp: defs split: prod.splits)
  show "devfs_wf h \<Longrightarrow> devfs_wf (snd (pf_open (devfs_hooks io) p fl h))"
    using devfs_open_tab(3,4) [of "pe_devfs h" "mkrn_process_get_euid (pe_kproc h)" p fl] by (auto simp: defs split: prod.splits)
  show "\<lbrakk>devfs_wf h; (True, n) \<in> set (devfs_tab h)\<rbrakk> \<Longrightarrow>
      \<exists>i < length (devfs_tab h). devfs_tab h ! i = (True, n) \<and> fst (pf_close (devfs_hooks io) n h) = 0 \<and>
        devfs_tab (snd (pf_close (devfs_hooks io) n h)) = (devfs_tab h)[i := (False, n)]"
    using find_seen [of "devfs_files (pe_devfs h)" DEVFS_MAX_FILES df_in_use df_fd n]
    by (auto simp: defs mkrn_devfs_close_def devfs_find_by_fd_def devfs_set_def seen_update dest!: find_upt_Some
      split: option.splits)
  show "\<lbrakk>devfs_wf h; (True, n) \<notin> set (devfs_tab h)\<rbrakk> \<Longrightarrow> pf_close (devfs_hooks io) n h = (-1, h)"
    using find_seen [of "devfs_files (pe_devfs h)" DEVFS_MAX_FILES df_in_use df_fd n]
    by (auto simp: defs mkrn_devfs_close_def devfs_find_by_fd_def split: option.splits)
  show "devfs_wf h \<Longrightarrow> devfs_wf (snd (pf_close (devfs_hooks io) n h))"
    by (auto simp: defs mkrn_devfs_close_def devfs_set_def split: option.splits)
  have len: "length (devfs_files (snd (mkrn_devfs_read io n want s))) = length (devfs_files s)"
    "length (devfs_files (snd (mkrn_devfs_write io n bs s))) = length (devfs_files s)" for s :: "'d devfs"
    using devfs_rw_tab(1,2) length_seen by metis+
  show "devfs_wf h \<Longrightarrow> devfs_tab (snd (pf_read (devfs_hooks io) n want h)) = devfs_tab h \<and> devfs_wf (snd (pf_read (devfs_hooks io) n want h))"
    by (simp add: defs split_beta devfs_rw_tab len)
  show "devfs_wf h \<Longrightarrow> devfs_tab (snd (pf_write (devfs_hooks io) n bs h)) = devfs_tab h \<and> devfs_wf (snd (pf_write (devfs_hooks io) n bs h))"
    by (simp add: defs split_beta devfs_rw_tab len)
qed

section \<open>Free descriptors of the process filesystem\<close>

definition next_fd :: "int \<Rightarrow> int" where
  "next_fd n = (if PROCFS_FD_LIMIT \<le> n + 1 then PROCFS_FD_BASE else n + 1)"

definition taken :: "procfs_file list \<Rightarrow> int \<Rightarrow> bool" where
  "taken fs n \<longleftrightarrow> (True, n) \<in> set (seen pr_in_use pr_fd fs)"

lemma skip_taken_Suc:
  assumes "length fs = PROCFS_MAX_FILES"
  shows "skip_taken (Suc g) n fs = (if taken fs n then skip_taken g (next_fd n) fs else n)"
  using assms by (auto simp: taken_def seen_def next_fd_def list_ex_iff image_iff)

lemma skip_taken_range:
  "wrap_ok PROCFS_FD_BASE PROCFS_FD_LIMIT n \<Longrightarrow> wrap_ok PROCFS_FD_BASE PROCFS_FD_LIMIT (skip_taken g n fs)"
  by (induction g n fs rule: skip_taken.induct) (auto simp: wrap_ok_def PROCFS_FD_BASE_def PROCFS_FD_LIMIT_def)

lemma skip_taken_search:
  assumes "length fs = PROCFS_MAX_FILES"
  shows "taken fs (skip_taken g n fs) \<Longrightarrow> j < g \<Longrightarrow> taken fs ((next_fd ^^ j) n)"
proof (induction g arbitrary: n j)
  case (Suc g)
  then show ?case using skip_taken_Suc [OF assms, of g n]
    by (cases j) (auto simp: funpow_swap1 split: if_splits)
qed simp

lemma mod_1000: "\<lbrakk>1000 \<le> n; n < 2000\<rbrakk> \<Longrightarrow> 1000 + n mod 1000 = (n :: int)"
  by presburger

lemma next_fd_iter:
  assumes "wrap_ok PROCFS_FD_BASE PROCFS_FD_LIMIT n"
  shows "(next_fd ^^ j) n = 1000 + (n - 1000 + int j) mod 1000"
proof (induction j)
  case 0
  then show ?case using assms by (simp add: wrap_ok_def PROCFS_FD_BASE_def PROCFS_FD_LIMIT_def mod_1000)
next
  case (Suc j)
  define x where "x = (n - 1000 + int j) mod 1000"
  have "0 \<le> x" "x < 1000" by (simp_all add: x_def)
  moreover have "(n - 1000 + int (Suc j)) mod 1000 = (x + 1) mod 1000"
    unfolding x_def mod_add_left_eq by (simp add: add.assoc add.commute [of 1])
  moreover have "(x + 1) mod 1000 = (if x = 999 then 0 else x + 1)" using calculation by auto
  ultimately show ?case using Suc by (simp add: next_fd_def x_def [symmetric] PROCFS_FD_BASE_def PROCFS_FD_LIMIT_def)
qed

text \<open>Of a thousand numbers, at most 64 are taken.\<close>

lemma skip_taken_free:
  assumes l: "length fs = PROCFS_MAX_FILES" and n: "wrap_ok PROCFS_FD_BASE PROCFS_FD_LIMIT n"
  shows "\<not> taken fs (skip_taken (nat (PROCFS_FD_LIMIT - PROCFS_FD_BASE)) n fs)"
proof
  assume t: "taken fs (skip_taken (nat (PROCFS_FD_LIMIT - PROCFS_FD_BASE)) n fs)"
  have "{1000..<2000} \<subseteq> pr_fd ` set fs"
  proof
    fix m :: int assume m: "m \<in> {1000..<2000}"
    define j where "j = nat ((m - n) mod 1000)"
    have "(n - 1000 + int j) mod 1000 = (m - 1000) mod 1000" by (simp add: j_def mod_simps)
    then have "(next_fd ^^ j) n = m" using next_fd_iter [OF n, of j] m by (simp add: mod_1000)
    moreover have "j < nat (PROCFS_FD_LIMIT - PROCFS_FD_BASE)"
      by (simp add: j_def PROCFS_FD_LIMIT_def PROCFS_FD_BASE_def nat_less_iff)
    ultimately show "m \<in> pr_fd ` set fs" using skip_taken_search [OF l t, of j] by (auto simp: taken_def seen_def)
  qed
  then have "card {1000..<2000 :: int} \<le> card (pr_fd ` set fs)" by (intro card_mono) auto
  also have "\<dots> \<le> length fs" by (meson card_image_le card_length finite_set le_trans)
  finally show False using l by (simp add: PROCFS_MAX_FILES_def)
qed

definition procfs_tab :: "'d penv \<Rightarrow> (bool \<times> int) list" where
  "procfs_tab h = seen pr_in_use pr_fd (procfs_files (pe_procfs h))"

definition procfs_wf :: "'d penv \<Rightarrow> bool" where
  "procfs_wf h \<longleftrightarrow> length (procfs_files (pe_procfs h)) = PROCFS_MAX_FILES \<and>
     wrap_ok PROCFS_FD_BASE PROCFS_FD_LIMIT (procfs_next_fd (pe_procfs h))"

definition procfs_gives :: "procfs \<Rightarrow> int \<Rightarrow> procfs \<Rightarrow> bool" where
  "procfs_gives s n s' \<longleftrightarrow>
     (\<exists>i < length (seen pr_in_use pr_fd (procfs_files s)). \<not> fst (seen pr_in_use pr_fd (procfs_files s) ! i) \<and>
       seen pr_in_use pr_fd (procfs_files s') = (seen pr_in_use pr_fd (procfs_files s))[i := (True, n)]) \<and>
     wrap_ok PROCFS_FD_BASE PROCFS_FD_LIMIT n \<and> \<not> taken (procfs_files s) n"

lemma procfs_open_entry_tab:
  assumes l: "length (procfs_files s) = PROCFS_MAX_FILES" "wrap_ok PROCFS_FD_BASE PROCFS_FD_LIMIT (procfs_next_fd s)"
    and f: "\<And>e. pr_in_use (f e) = pr_in_use e" "\<And>e. pr_fd (f e) = pr_fd e"
    and o: "procfs_open_entry path f s = ((st, n), s')"
  shows "(st = 0 \<longrightarrow> procfs_gives s n s') \<and> (st \<noteq> 0 \<longrightarrow> procfs_files s' = procfs_files s) \<and>
    length (procfs_files s') = PROCFS_MAX_FILES \<and> wrap_ok PROCFS_FD_BASE PROCFS_FD_LIMIT (procfs_next_fd s')"
proof (cases "find (\<lambda>i. \<not> pr_in_use (procfs_files s ! i)) [0..<PROCFS_MAX_FILES]")
  case None
  then show ?thesis using l o by (simp add: procfs_open_entry_def procfs_alloc_file_def)
next
  case (Some i)
  define m where "m = skip_taken (nat (PROCFS_FD_LIMIT - PROCFS_FD_BASE)) (procfs_next_fd s) (procfs_files s)"
  have i: "i < PROCFS_MAX_FILES" "\<not> pr_in_use (procfs_files s ! i)" using find_upt_Some [OF Some] by auto
  have m: "wrap_ok PROCFS_FD_BASE PROCFS_FD_LIMIT m" "\<not> taken (procfs_files s) m"
    using skip_taken_range [OF l(2)] skip_taken_free [OF l] by (simp_all add: m_def)
  have "st = 0" "n = m" "length (procfs_files s') = PROCFS_MAX_FILES"
    "seen pr_in_use pr_fd (procfs_files s') = (seen pr_in_use pr_fd (procfs_files s))[i := (True, m)]"
    "procfs_next_fd s' = next_fd (procfs_next_fd s)"
    using Some o i l(1) f
    by (auto simp: procfs_open_entry_def procfs_alloc_file_def procfs_set_def Let_def seen_update m_def [symmetric] next_fd_def)
  moreover have "wrap_ok PROCFS_FD_BASE PROCFS_FD_LIMIT (next_fd (procfs_next_fd s))"
    using l(2) by (simp add: wrap_ok_def next_fd_def PROCFS_FD_BASE_def PROCFS_FD_LIMIT_def)
  ultimately show ?thesis using i m l by (auto simp: procfs_gives_def)
qed

lemma procfs_open_tab:
  assumes l: "length (procfs_files s) = PROCFS_MAX_FILES" "wrap_ok PROCFS_FD_BASE PROCFS_FD_LIMIT (procfs_next_fd s)"
    and o: "mkrn_procfs_open k p fl s = ((st, n), s')"
  shows "st = 0 \<Longrightarrow> procfs_gives s n s'" and "st \<noteq> 0 \<Longrightarrow> procfs_files s' = procfs_files s"
    and "length (procfs_files s') = PROCFS_MAX_FILES" and "wrap_ok PROCFS_FD_BASE PROCFS_FD_LIMIT (procfs_next_fd s')"
proof -
  have "(st = 0 \<longrightarrow> procfs_gives s n s') \<and> (st \<noteq> 0 \<longrightarrow> procfs_files s' = procfs_files s) \<and>
    length (procfs_files s') = PROCFS_MAX_FILES \<and> wrap_ok PROCFS_FD_BASE PROCFS_FD_LIMIT (procfs_next_fd s')"
    using o l unfolding mkrn_procfs_open_def Let_def
    by (simp split: if_splits) (rule procfs_open_entry_tab [OF l]; simp)+
  then show "st = 0 \<Longrightarrow> procfs_gives s n s'" "st \<noteq> 0 \<Longrightarrow> procfs_files s' = procfs_files s"
    "length (procfs_files s') = PROCFS_MAX_FILES" "wrap_ok PROCFS_FD_BASE PROCFS_FD_LIMIT (procfs_next_fd s')"
    by blast+
qed

interpretation procfs_mod: fresh_module "procfs_hooks argv fresh :: 'd penv pseudo_fs" procfs_tab procfs_wf PROCFS_FD_BASE PROCFS_FD_LIMIT
proof unfold_locales
  fix h :: "'d penv" and n p fl h' st want bs
  note defs = procfs_hooks_def procfs_tab_def procfs_wf_def
  show "procfs_wf h \<Longrightarrow> pf_is_fd (procfs_hooks argv fresh) n h \<longleftrightarrow> (True, n) \<in> set (procfs_tab h)"
    by (simp add: defs mkrn_procfs_is_procfs_fd_def procfs_find_by_fd_def find_seen del: not_None_eq)
  have gives: "procfs_gives (pe_procfs h) n (pe_procfs h')"
    if "procfs_wf h" "pf_open (procfs_hooks argv fresh) p fl h = ((0, n), h')"
    using procfs_open_tab(1) [of "pe_procfs h" "pe_kproc h" p fl 0 n] that by (auto simp: defs split: prod.splits)
  then show "\<lbrakk>procfs_wf h; pf_open (procfs_hooks argv fresh) p fl h = ((0, n), h')\<rbrakk> \<Longrightarrow>
      \<exists>i < length (procfs_tab h). \<not> fst (procfs_tab h ! i) \<and> procfs_tab h' = (procfs_tab h)[i := (True, n)] \<and>
        PROCFS_FD_BASE \<le> n \<and> n < PROCFS_FD_LIMIT"
    by (auto simp: procfs_gives_def procfs_tab_def wrap_ok_def simp del: length_seen nth_seen)
  from gives show "\<lbrakk>procfs_wf h; fd_in_range PROCFS_FD_BASE PROCFS_FD_LIMIT (procfs_tab h);
      pf_open (procfs_hooks argv fresh) p fl h = ((0, n), h')\<rbrakk> \<Longrightarrow> (True, n) \<notin> set (procfs_tab h)"
    by (simp add: procfs_gives_def taken_def procfs_tab_def)
  show "\<lbrakk>procfs_wf h; pf_open (procfs_hooks argv fresh) p fl h = ((st, n), h'); st \<noteq> 0\<rbrakk> \<Longrightarrow> procfs_tab h' = procfs_tab h"
    using procfs_open_tab(2) [of "pe_procfs h" "pe_kproc h" p fl st n] by (auto simp: defs split: prod.splits)
  show "procfs_wf h \<Longrightarrow> procfs_wf (snd (pf_open (procfs_hooks argv fresh) p fl h))"
    using procfs_open_tab(3,4) [of "pe_procfs h" "pe_kproc h" p fl] by (auto simp: defs split: prod.splits)
  show "\<lbrakk>procfs_wf h; (True, n) \<in> set (procfs_tab h)\<rbrakk> \<Longrightarrow>
      \<exists>i < length (procfs_tab h). procfs_tab h ! i = (True, n) \<and> fst (pf_close (procfs_hooks argv fresh) n h) = 0 \<and>
        procfs_tab (snd (pf_close (procfs_hooks argv fresh) n h)) = (procfs_tab h)[i := (False, n)]"
    using find_seen [of "procfs_files (pe_procfs h)" PROCFS_MAX_FILES pr_in_use pr_fd n]
    by (auto simp: defs mkrn_procfs_close_def procfs_find_by_fd_def procfs_set_def seen_update dest!: find_upt_Some
      split: option.splits)
  show "\<lbrakk>procfs_wf h; (True, n) \<notin> set (procfs_tab h)\<rbrakk> \<Longrightarrow> pf_close (procfs_hooks argv fresh) n h = (-1, h)"
    using find_seen [of "procfs_files (pe_procfs h)" PROCFS_MAX_FILES pr_in_use pr_fd n]
    by (auto simp: defs mkrn_procfs_close_def procfs_find_by_fd_def split: option.splits)
  show "procfs_wf h \<Longrightarrow> procfs_wf (snd (pf_close (procfs_hooks argv fresh) n h))"
    by (auto simp: defs mkrn_procfs_close_def procfs_set_def split: option.splits)
  show "procfs_wf h \<Longrightarrow> procfs_tab (snd (pf_read (procfs_hooks argv fresh) n want h)) = procfs_tab h \<and>
      procfs_wf (snd (pf_read (procfs_hooks argv fresh) n want h))"
    by (auto simp: defs mkrn_procfs_read_def procfs_set_def Let_def seen_update_same split: option.splits prod.splits)
  show "procfs_wf h \<Longrightarrow> procfs_tab (snd (pf_write (procfs_hooks argv fresh) n bs h)) = procfs_tab h \<and>
      procfs_wf (snd (pf_write (procfs_hooks argv fresh) n bs h))"
    by (simp add: defs split_beta)
qed

end
