(* ===== verification/PseudoSpec.thy ===== *)
theory PseudoSpec
  imports PseudoFs SchedInv
begin

text \<open>
  The virtual filesystem layer over the pseudo filesystems: which of their files can be
  used through it, disk nodes through the layer, and the texts of the process files.
\<close>

unbundle bit_operations_syntax

section \<open>Sequences of calls\<close>

datatype pseudo_op = POpen "u8 list" u32 | PClose int | PRead int u32 | PWrite int "u8 list"

fun pseudo_step :: "'h pseudo_fs \<Rightarrow> pseudo_op \<Rightarrow> 'h \<Rightarrow> 'h" where
  "pseudo_step fs (POpen p fl) h = snd (pf_open fs p fl h)"
| "pseudo_step fs (PClose n) h = snd (pf_close fs n h)"
| "pseudo_step fs (PRead n want) h = snd (pf_read fs n want h)"
| "pseudo_step fs (PWrite n bs) h = snd (pf_write fs n bs h)"

lemma distinct_fds_free:
  assumes "distinct_fds t" and "\<not> fst e"
  shows "distinct_fds (t[i := e])"
proof -
  have "j = l" if "j < length t" "l < length t" "t[i := e] ! j = t[i := e] ! l" "fst (t[i := e] ! j)" for j l
    using assms that by (cases "j = i"; cases "l = i") (auto simp: distinct_fds_def)
  then show ?thesis unfolding distinct_fds_def length_list_update by blast
qed

lemma no_open_fds: "(\<And>e. e \<in> set t \<Longrightarrow> \<not> fst e) \<Longrightarrow> fd_in_range lo hi t \<and> distinct_fds t"
  unfolding fd_in_range_def distinct_fds_def by (metis fst_conv nth_mem)

context pseudo_module
begin

lemma step_in_range:
  assumes "wf h" and "fd_in_range lo hi (tab h)"
  shows "wf (pseudo_step fs x h) \<and> fd_in_range lo hi (tab (pseudo_step fs x h))"
  using assms open_in_range close_in_range open_wf close_wf read_tab write_tab by (cases x) simp_all

lemma run_in_range:
  assumes "wf h" and "fd_in_range lo hi (tab h)"
  shows "wf (fold (pseudo_step fs) xs h) \<and> fd_in_range lo hi (tab (fold (pseudo_step fs) xs h))"
  using assms by (induction xs arbitrary: h) (simp_all add: step_in_range)

end

context fresh_module
begin

lemma close_distinct:
  assumes "wf h" and "distinct_fds (tab h)"
  shows "distinct_fds (tab (snd (pf_close fs n h)))"
proof (cases "(True, n) \<in> set (tab h)")
  case True
  then show ?thesis using close_ok [OF assms(1), of n] distinct_fds_free [OF assms(2), of "(False, n)"] by force
qed (use assms close_other in auto)

lemma step_distinct:
  assumes "wf h" and "fd_in_range lo hi (tab h)" and "distinct_fds (tab h)"
  shows "distinct_fds (tab (pseudo_step fs x h))"
proof (cases x)
  case (POpen p fl)
  obtain st n h' where o: "pf_open fs p fl h = ((st, n), h')" by (metis prod.exhaust)
  then show ?thesis using POpen open_distinct [OF assms, of p fl n h'] open_other [OF assms(1) o] assms(3)
    by (cases "st = 0") auto
qed (use assms close_distinct read_tab write_tab in auto)

lemma run_distinct:
  assumes "wf h" and "fd_in_range lo hi (tab h)" and "distinct_fds (tab h)"
  shows "distinct_fds (tab (fold (pseudo_step fs) xs h))"
  using assms
proof (induction xs arbitrary: h)
  case (Cons x xs)
  then show ?case using step_in_range [OF Cons.prems(1,2), of x] step_distinct [OF Cons.prems, of x] by simp
qed simp

end

text \<open>The state of the modules before the first call.\<close>

definition penv_boot :: "kproc \<Rightarrow> 'd devfs \<Rightarrow> 'd penv" where
  "penv_boot k d = \<lparr>pe_kproc = k, pe_procfs = procfs_bss, pe_sessions = mkrn_sessions_init sessions_bss,
     pe_dt = mkrn_device_tree_init dt_bss, pe_devfs = d\<rparr>"

lemma boot_wf [simp]: "procfs_wf (penv_boot k d)" "sessions_wf (penv_boot k d)" "dt_wf (penv_boot k d)"
  by (simp_all add: procfs_wf_def sessions_wf_def dt_wf_def penv_boot_def procfs_bss_def sessions_bss_def dt_bss_def
    mkrn_sessions_init_def mkrn_device_tree_init_def wrap_ok_def PROCFS_FD_BASE_def PROCFS_FD_LIMIT_def
    SESSIONS_FD_BASE_def SESSIONS_FD_LIMIT_def DT_FD_BASE_def DT_FD_LIMIT_def)

lemma boot_empty: "\<not> fst e" if "e \<in> set (procfs_tab (penv_boot k d)) \<union> set (sessions_tab (penv_boot k d))"
  using that by (auto simp: procfs_tab_def sessions_tab_def seen_def penv_boot_def procfs_bss_def sessions_bss_def
    mkrn_sessions_init_def procfs_file_zero_def session_file_zero_def)

text \<open>C29. Descriptors of the process filesystem: after any sequence of opens, closes, reads
  and writes from boot, the open files have different descriptors between 1000 and 1999,
  and closing an open one succeeds and leaves no file with this descriptor, so that a
  number can be handed out again only then. The numbers recycle after 1000 opens, past
  files that are still open.\<close>

theorem procfs_descriptors:
  assumes h: "h = fold (pseudo_step (procfs_hooks argv fresh)) xs (penv_boot k d)"
  shows "fd_in_range 1000 2000 (procfs_tab h) \<and> distinct_fds (procfs_tab h) \<and>
    (mkrn_procfs_is_procfs_fd n (pe_procfs h) \<longrightarrow>
       fst (mkrn_procfs_close n (pe_procfs h)) = 0 \<and>
       \<not> mkrn_procfs_is_procfs_fd n (snd (mkrn_procfs_close n (pe_procfs h))))"
proof -
  let ?fs = "procfs_hooks argv fresh" and ?b = "penv_boot k d"
  have b: "fd_in_range PROCFS_FD_BASE PROCFS_FD_LIMIT (procfs_tab ?b)" "distinct_fds (procfs_tab ?b)"
    using no_open_fds [of "procfs_tab ?b"] boot_empty [of _ k d] by blast+
  have wf: "procfs_wf h" and r: "fd_in_range PROCFS_FD_BASE PROCFS_FD_LIMIT (procfs_tab h)" and di: "distinct_fds (procfs_tab h)"
    using procfs_mod.run_in_range [OF boot_wf(1) b(1)] procfs_mod.run_distinct [OF boot_wf(1) b] by (auto simp: h)
  have "fst (mkrn_procfs_close n (pe_procfs h)) = 0 \<and> \<not> mkrn_procfs_is_procfs_fd n (snd (mkrn_procfs_close n (pe_procfs h)))"
    if "mkrn_procfs_is_procfs_fd n (pe_procfs h)"
    using procfs_mod.close_gone [OF wf di, of argv fresh n] procfs_mod.close_gives_one(1) [OF wf, of argv fresh n] that
    by (simp add: procfs_hooks_def split_beta)
  with r di show ?thesis by (simp add: PROCFS_FD_BASE_def PROCFS_FD_LIMIT_def)
qed

section \<open>Files the layer cannot use\<close>

lemma open_pseudo_ok:
  assumes "open_pseudo fs p fl s = (n, s')" and "n \<noteq> -1"
  shows "pf_open fs p fl (v_env s) = ((0, n), v_env s')" and "s' = s\<lparr>v_env := v_env s'\<rparr>"
  using assms by (auto simp: open_pseudo_def split: prod.splits if_splits)

lemma bad_fd_calls:
  assumes "bad_fd n"
  shows "mkrn_vfs_read hk n want s = Some ((-1, []), s)" and "mkrn_vfs_write hk n bs s = Some (-1, s)"
    and "mkrn_vfs_close hk n s = (-1, s)" and "mkrn_vfs_lseek hk n off wh s = (-1, s)"
    and "mkrn_vfs_getdents hk n len s = Some ((-1, []), s)"
  using assms
  by (simp_all add: mkrn_vfs_read_def mkrn_vfs_write_def mkrn_vfs_close_def mkrn_vfs_lseek_def mkrn_vfs_getdents_def)

lemma starts_with_nth: "\<lbrakk>starts_with pre p; i < length pre\<rbrakk> \<Longrightarrow> p ! i = of_char (pre ! i)"
  unfolding starts_with_def chars_def by (metis nth_map nth_take)

lemma route_upper:
  assumes "starts_with ''/sys/sessions'' p \<or> starts_with ''/device'' p"
  shows "open_route (kernel_hooks io argv fresh al fr) p \<in> {Some sessions_hooks, Some dt_hooks}"
proof -
  have "\<not> starts_with ''/sys/proc'' p"
    using assms starts_with_nth [of "''/sys/proc''" p 5] starts_with_nth [of "''/sys/sessions''" p 5]
      starts_with_nth [of "''/sys/proc''" p 1] starts_with_nth [of "''/device''" p 1] by auto
  then show ?thesis using assms by (auto simp: open_route_def kernel_hooks_def)
qed

text \<open>The files of the sessions and of the device tree can be opened but not used: their
  descriptors start at 2000 and 3000, and every call of the layer refuses descriptors from
  1024 on, so that reading, writing, seeking, listing and closing them all fail and leave
  the state unchanged.\<close>

theorem upper_descriptors_unusable:
  assumes hk: "hk = kernel_hooks io argv fresh al fr" and wf: "sessions_wf (v_env s)" "dt_wf (v_env s)"
    and o: "mkrn_vfs_open hk cur (Some p) fl s = Some (n, s')" and n: "n \<noteq> -1"
    and p: "starts_with ''/sys/sessions'' p \<or> starts_with ''/device'' p"
  shows "2000 \<le> n \<and> mkrn_vfs_read hk n want s' = Some ((-1, []), s') \<and> mkrn_vfs_write hk n bs s' = Some (-1, s') \<and>
    mkrn_vfs_close hk n s' = (-1, s') \<and> mkrn_vfs_lseek hk n off wh s' = (-1, s') \<and>
    mkrn_vfs_getdents hk n len s' = Some ((-1, []), s')"
proof -
  have "open_pseudo sessions_hooks p fl s = (n, s') \<or> open_pseudo dt_hooks p fl s = (n, s')"
    using o n route_upper [OF p, of io argv fresh al fr] by (auto simp: mkrn_vfs_open_def hk split: if_splits)
  then have "2000 \<le> n"
  proof
    assume "open_pseudo sessions_hooks p fl s = (n, s')"
    from sessions_mod.open_ok [OF wf(1) open_pseudo_ok(1) [OF this n]] show ?thesis by (auto simp: SESSIONS_FD_BASE_def)
  next
    assume "open_pseudo dt_hooks p fl s = (n, s')"
    from dt_mod.open_ok [OF wf(2) open_pseudo_ok(1) [OF this n]] show ?thesis by (auto simp: DT_FD_BASE_def)
  qed
  moreover from this have "bad_fd n" by (simp add: bad_fd_def M4K_VFS_MAX_FDS_def)
  ultimately show ?thesis by (simp add: bad_fd_calls)
qed

text \<open>Opening the directory of the sessions and closing what was returned, again and
  again, as root.\<close>

fun use_sessions :: "'d penv vfs_hooks \<Rightarrow> nat \<Rightarrow> 'd penv vfs \<Rightarrow> 'd penv vfs" where
  "use_sessions hk 0 s = s"
| "use_sessions hk (Suc k) s =
     (case mkrn_vfs_open hk None (Some (chars ''/sys/sessions/'')) M4K_O_RDONLY s of
        None \<Rightarrow> s
      | Some (n, s1) \<Rightarrow> use_sessions hk k (snd (mkrn_vfs_close hk n s1)))"

lemma sessions_dir_open:
  assumes "bVfsInitialized s"
  shows "mkrn_vfs_open (kernel_hooks io argv fresh al fr) None (Some (chars ''/sys/sessions/'')) fl s =
    Some (open_pseudo sessions_hooks (chars ''/sys/sessions/'') fl s)"
proof -
  have "open_route (kernel_hooks io argv fresh al fr) (chars ''/sys/sessions/'') = Some sessions_hooks"
    by (simp add: open_route_def starts_with_def chars_def kernel_hooks_def)
  then show ?thesis using assms by (simp add: mkrn_vfs_open_def open_denied_def)
qed

lemma sessions_dir_idx: "get_session_idx_from_path (chars ''/sys/sessions/'') s = -2"
  by (simp add: get_session_idx_from_path_def skip_slashes_def chars_def starts_with_def)

lemma sessions_dir_pf_open:
  assumes wf: "sessions_wf h" and n: "open_count (sessions_tab h) \<noteq> 32"
  obtains m h' where "pf_open sessions_hooks (chars ''/sys/sessions/'') fl h = ((0, m), h')"
proof -
  have "\<not> (\<forall>e \<in> set (sessions_tab h). fst e)"
  proof
    assume "\<forall>e \<in> set (sessions_tab h). fst e"
    then have "open_count (sessions_tab h) = length (sessions_tab h)" by (simp add: open_count_def filter_True)
    with n wf show False by (simp add: sessions_wf_def sessions_tab_def SESSIONS_MAX_FILES_def)
  qed
  then obtain j where "j < length (sessions_tab h)" "\<not> fst (sessions_tab h ! j)" by (metis in_set_conv_nth)
  then have "find (\<lambda>i. \<not> sf_in_use (session_files (pe_sessions h) ! i)) [0..<SESSIONS_MAX_FILES] \<noteq> None"
    using wf by (auto simp: find_None_iff sessions_tab_def sessions_wf_def)
  then show thesis using that
    by (auto simp: sessions_hooks_def mkrn_sessions_open_def sessions_dir_idx Let_def)
qed

lemma sessions_dir_step:
  fixes s :: "'d penv vfs" and fl
  defines "r \<equiv> open_pseudo sessions_hooks (chars ''/sys/sessions/'') fl s"
  assumes wf: "sessions_wf (v_env s)"
  shows "sessions_wf (v_env (snd r))" and "fst r = -1 \<longleftrightarrow> open_count (sessions_tab (v_env s)) = 32"
    and "fst r = -1 \<or> bad_fd (fst r)"
    and "open_count (sessions_tab (v_env (snd r))) = (if open_count (sessions_tab (v_env s)) = 32 then 32
           else Suc (open_count (sessions_tab (v_env s))))"
proof -
  let ?p = "chars ''/sys/sessions/''"
  show "sessions_wf (v_env (snd r))"
    using sessions_mod.open_wf [OF wf, of ?p fl] by (auto simp: r_def open_pseudo_def split: prod.splits)
  have "(fst r = -1 \<longleftrightarrow> open_count (sessions_tab (v_env s)) = 32) \<and> (fst r = -1 \<or> bad_fd (fst r)) \<and>
    open_count (sessions_tab (v_env (snd r))) = (if open_count (sessions_tab (v_env s)) = 32 then 32
           else Suc (open_count (sessions_tab (v_env s))))"
  proof (cases "open_count (sessions_tab (v_env s)) = 32")
    case True
    moreover have "length (sessions_tab (v_env s)) = 32"
      using wf by (simp add: sessions_tab_def sessions_wf_def SESSIONS_MAX_FILES_def)
    moreover obtain st n h' where o: "pf_open sessions_hooks ?p fl (v_env s) = ((st, n), h')" by (metis prod.exhaust)
    ultimately show ?thesis using sessions_mod.full_refuses [OF wf, of ?p fl] sessions_mod.open_other [OF wf o]
      by (simp add: r_def open_pseudo_def o)
  next
    case False
    then obtain n h' where o: "pf_open sessions_hooks ?p fl (v_env s) = ((0, n), h')"
      using sessions_dir_pf_open [OF wf] by metis
    then have "2000 \<le> n" using sessions_mod.open_ok [OF wf o] by (auto simp: SESSIONS_FD_BASE_def)
    with False sessions_mod.open_takes_one [OF wf o] show ?thesis
      by (simp add: r_def open_pseudo_def o bad_fd_def M4K_VFS_MAX_FDS_def)
  qed
  then show "fst r = -1 \<longleftrightarrow> open_count (sessions_tab (v_env s)) = 32" "fst r = -1 \<or> bad_fd (fst r)"
    "open_count (sessions_tab (v_env (snd r))) = (if open_count (sessions_tab (v_env s)) = 32 then 32
       else Suc (open_count (sessions_tab (v_env s))))" by blast+
qed

lemma use_sessions_count:
  assumes hk: "hk = kernel_hooks io argv fresh al fr"
  shows "\<lbrakk>bVfsInitialized s; sessions_wf (v_env s); open_count (sessions_tab (v_env s)) \<le> 32\<rbrakk> \<Longrightarrow>
    bVfsInitialized (use_sessions hk k s) \<and> sessions_wf (v_env (use_sessions hk k s)) \<and>
    open_count (sessions_tab (v_env (use_sessions hk k s))) = min 32 (open_count (sessions_tab (v_env s)) + k)"
proof (induction k arbitrary: s)
  case (Suc k)
  let ?r = "open_pseudo sessions_hooks (chars ''/sys/sessions/'') M4K_O_RDONLY s"
  obtain n s1 where r: "?r = (n, s1)" by fastforce
  note step = sessions_dir_step [OF Suc.prems(2), of M4K_O_RDONLY, unfolded r fst_conv snd_conv]
  have "bad_fd n" using step(3) by (auto simp: bad_fd_def)
  then have "use_sessions hk (Suc k) s = use_sessions hk k s1"
    using Suc.prems(1) r by (simp add: hk sessions_dir_open bad_fd_calls)
  moreover have "bVfsInitialized s1" using r Suc.prems(1) by (auto simp: open_pseudo_def split: prod.splits)
  ultimately show ?case using Suc.IH [of s1] step(1,4) Suc.prems(3) by (auto simp: min_def)
qed simp

text \<open>A leak: opening the directory of the sessions and closing the descriptor that was
  returned works 32 times from boot; after that every open of it fails for good, since
  none of the closes reached the module.\<close>

theorem sessions_exhausted:
  assumes hk: "hk = kernel_hooks io argv fresh al fr" and s: "bVfsInitialized s" "v_env s = penv_boot k0 d"
  shows "(\<exists>s'. mkrn_vfs_open hk None (Some (chars ''/sys/sessions/'')) M4K_O_RDONLY (use_sessions hk k s) = Some (-1, s')) \<longleftrightarrow> 32 \<le> k"
proof -
  have "filter fst (sessions_tab (penv_boot k0 d)) = []"
    using boot_empty [of _ k0 d] by (auto simp: filter_empty_conv)
  then have z: "open_count (sessions_tab (penv_boot k0 d)) = 0" by (simp add: open_count_def)
  let ?s = "use_sessions hk k s"
  have u: "bVfsInitialized ?s" "sessions_wf (v_env ?s)" "open_count (sessions_tab (v_env ?s)) = min 32 k"
    using use_sessions_count [OF hk s(1), of k] s(2) z by simp_all
  have "mkrn_vfs_open hk None (Some (chars ''/sys/sessions/'')) M4K_O_RDONLY ?s =
      Some (open_pseudo sessions_hooks (chars ''/sys/sessions/'') M4K_O_RDONLY ?s)"
    using sessions_dir_open [OF u(1)] by (simp add: hk)
  moreover have "fst (open_pseudo sessions_hooks (chars ''/sys/sessions/'') M4K_O_RDONLY ?s) = -1 \<longleftrightarrow> 32 \<le> k"
    using sessions_dir_step(2) [OF u(2)] u(3) by (auto simp: min_def)
  ultimately show ?thesis by (metis fst_conv option.inject prod.exhaust_sel)
qed

section \<open>Disks through the layer\<close>

definition other_fd :: "int \<Rightarrow> 'd penv \<Rightarrow> bool" where
  "other_fd n h \<longleftrightarrow> mkrn_procfs_is_procfs_fd n (pe_procfs h) \<or> mkrn_sessions_is_sessions_fd n (pe_sessions h) \<or>
     mkrn_device_tree_is_dt_fd n (pe_dt h)"

lemma devfs_route:
  assumes "hk = kernel_hooks io argv fresh al fr" and "\<not> other_fd n h" and "mkrn_devfs_is_devfs_fd n (pe_devfs h)"
  shows "fd_route hk n h = Some (devfs_hooks io)" and "pf_is_fd (hk_devfs hk) n h" and "hk_devfs hk = devfs_hooks io"
  using assms by (simp_all add: fd_route_def kernel_hooks_def other_fd_def procfs_hooks_def sessions_hooks_def dt_hooks_def devfs_hooks_def)

text \<open>C27. A disk through the virtual filesystem layer: with a descriptor of a disk or a
  partition that no other pseudo filesystem holds, writing bytes that fit into the rest
  of the node, seeking back and reading as many returns them, whatever their place is to
  the sectors and however many commands the driver needs; no other byte of this disk has
  changed, in particular none outside the partition, and no byte of the other disk.\<close>

theorem vfs_disk_write_read:
  assumes hk: "hk = kernel_hooks io argv fresh al fr" and init: "bVfsInitialized s" and n: "0 \<le> n" "n < 1024"
    and o: "\<not> other_fd n (v_env s)" and s: "open_node io view cap n i (pe_devfs (v_env s))"
    and e: "e = devfs_files (pe_devfs (v_env s)) ! i"
    and bs: "length bs \<le> node_left e" "length bs < 2147483648" "unat (df_offset e) < 2147483648"
  shows "\<exists>s1 s2 s3. mkrn_vfs_write hk n bs s = Some (int (length bs), s1) \<and>
    mkrn_vfs_lseek hk n (int (unat (df_offset e))) M4K_SEEK_SET s1 = (int (unat (df_offset e)), s2) \<and>
    mkrn_vfs_read hk n (of_nat (length bs)) s2 = Some ((int (length bs), bs), s3) \<and>
    (\<forall>k. disk_byte (node_sec view i (pe_devfs (v_env s3))) k =
       (if node_pos e \<le> k \<and> k < node_pos e + length bs then bs ! (k - node_pos e)
        else disk_byte (node_sec view i (pe_devfs (v_env s))) k)) \<and>
    node_start e \<le> node_pos e \<and> node_pos e + length bs \<le> node_start e + node_len e \<and>
    (\<forall>dr. dr \<noteq> unat (df_drive e) \<longrightarrow>
       sectors_of view (dv_ata (pe_devfs (v_env s3))) dr = sectors_of view (dv_ata (pe_devfs (v_env s))) dr)"
proof -
  let ?h = "v_env s" and ?off = "int (unat (df_offset e))"
  obtain d1 d2 d3 where d: "mkrn_devfs_write io n bs (pe_devfs ?h) = (int (length bs), d1)" "open_node io view cap n i d1"
    "mkrn_devfs_lseek n ?off M4K_SEEK_SET d1 = (?off, d2)" "open_node io view cap n i d2"
    "mkrn_devfs_read io n (of_nat (length bs)) d2 = ((int (length bs), bs), d3)"
    "disk_byte (node_sec view i d3) = overlay (node_pos e) bs (disk_byte (node_sec view i (pe_devfs ?h)))"
    "\<And>dr. dr \<noteq> unat (df_drive e) \<Longrightarrow> sectors_of view (dv_ata d3) dr = sectors_of view (dv_ata (pe_devfs ?h)) dr"
    using devfs_write_read [OF s e bs] by metis
  have fd: "mkrn_devfs_is_devfs_fd n d" if "open_node io view cap n i d" for d
    using that by (simp add: mkrn_devfs_is_devfs_fd_def open_node_def)
  have other: "\<not> other_fd n (?h\<lparr>pe_devfs := d\<rparr>)" for d using o by (simp add: other_fd_def)
  have good: "\<not> bad_fd n" using n by (simp add: bad_fd_def M4K_VFS_MAX_FDS_def)
  let ?s = "\<lambda>d. s\<lparr>v_env := ?h\<lparr>pe_devfs := d\<rparr>\<rparr>"
  have "mkrn_vfs_write hk n bs s = Some (int (length bs), ?s d1)"
    using good init devfs_route [OF hk o fd [OF s]] d(1) by (simp add: mkrn_vfs_write_def devfs_hooks_def)
  moreover have "mkrn_vfs_lseek hk n ?off M4K_SEEK_SET (?s d1) = (?off, ?s d2)"
    using good init devfs_route [OF hk other, of d1] fd [OF d(2)] d(3) by (simp add: mkrn_vfs_lseek_def devfs_hooks_def)
  moreover have "mkrn_vfs_read hk n (of_nat (length bs)) (?s d2) = Some ((int (length bs), bs), ?s d3)"
    using good init devfs_route [OF hk other, of d2] fd [OF d(4)] d(5) by (simp add: mkrn_vfs_read_def devfs_hooks_def)
  moreover have "node_start e \<le> node_pos e" "node_pos e + length bs \<le> node_start e + node_len e"
    using s bs e by (auto simp: open_node_def node_pos_def node_left_def node_ok_def node_len_def)
  ultimately show ?thesis using d(6,7)
    by (intro exI [of _ "?s d1"] exI [of _ "?s d2"] exI [of _ "?s d3"]) (simp add: overlay_def)
qed

section \<open>Paths of processes\<close>

lemma digits_keep_slash: "47 \<in> set s \<Longrightarrow> 47 \<in> set (drop (length (digits s 10)) s)"
proof (induction s)
  case (Cons c s)
  have "digit_val 47 10 = None" by (simp add: digit_val_def m4k_tolower_def Let_def)
  then show ?case using Cons by (cases "c = 47") (auto split: option.splits)
qed simp

lemma not_end_ok: "\<lbrakk>47 \<in> set t; is_cstr t\<rbrakk> \<Longrightarrow> \<not> end_ok t"
  by (cases t; cases "tl t") (auto simp: end_ok_def peek_def is_cstr_def)

lemma parse_slash:
  assumes "47 \<in> set q" and "is_cstr q" and "length q < 2147483648"
  shows "parse_or_0 q = 0"
proof -
  have "mkrn_fixup_radix q 10 = (q, 10)" by (simp add: mkrn_fixup_radix_def)
  then have "mkrn_kstrtoull_impl q 10 = map_sum id of_nat (parse_ref q 10)"
    using kstrtoull_impl_ref [of q 10 q 10] assms(3) by simp
  moreover have "\<not> end_ok (drop (length (digits q 10)) q)"
    using assms by (intro not_end_ok digits_keep_slash) simp_all
  ultimately show ?thesis by (simp add: parse_or_0_def mkrn_kstrtouint_def parse_ref_def Let_def)
qed

lemma parse_dec: "n < 4294967296 \<Longrightarrow> parse_or_0 (dec_digits n) = of_nat n"
proof -
  assume n: "n < 4294967296"
  have "mkrn_kstrtoull_impl (dec_digits n) 10 = Inr (of_nat n)"
    using kstrtoull_impl_dec [of n "[]"] n by simp
  moreover have c: "ucast (of_nat n :: u64) = (of_nat n :: u32)" "ucast (of_nat n :: u32) = (of_nat n :: u64)"
    using n by (simp_all add: word_unat_eq_iff unsigned_ucast_eq unat_of_nat_small take_bit_nat_eq_self)
  ultimately show ?thesis by (simp add: parse_or_0_def mkrn_kstrtouint_def c)
qed

text \<open>The number of a process in a path is lost as soon as something follows it: the
  rest of the path is parsed as one number, which fails at the slash, and the process
  becomes number 0. A bare \<open>/sys/proc/\<close>\<open>n\<close> names process \<open>n\<close>. So \<open>cmdline\<close>, \<open>environ\<close>,
  \<open>cwd\<close>, \<open>ns\<close> and \<open>ctl\<close> of every process are those of process 0.\<close>

theorem procfs_pid_of_path:
  assumes "length q < 2147483648" and "is_cstr q"
  shows "(47 \<in> set q \<longrightarrow> procfs_getpid_from_path (chars ''/sys/proc/'' @ q) = 0) \<and>
    (n < 2147483648 \<longrightarrow> procfs_getpid_from_path (chars ''/sys/proc/'' @ dec_digits n) = int n)"
proof -
  have path: "procfs_getpid_from_path (chars ''/sys/proc/'' @ r) = sint (parse_or_0 r)" for r
    by (simp add: procfs_getpid_from_path_def skip_slashes_def starts_with_def chars_def)
  have "sint (of_nat n :: u32) = int n" if "n < 2147483648"
    using that by (simp add: sint_small_u32 unat_of_nat_small)
  then show ?thesis using assms by (simp add: path parse_slash parse_dec)
qed

section \<open>Texts of processes\<close>

lemma length_dec_rev: "n < 10 ^ Suc k \<Longrightarrow> length (dec_rev n) \<le> Suc k"
proof (induction k arbitrary: n)
  case 0
  then show ?case by (subst dec_rev.simps) simp
next
  case (Suc k)
  then have "n div 10 < 10 ^ Suc k" by (simp add: div_less_iff_less_mult mult.commute)
  from Suc.IH [OF this] show ?case by (subst dec_rev.simps) simp
qed

lemma length_dec_text: "length (dec_text n) \<le> 10"
  using length_dec_rev [of "unat n" 9] u32_range [of n] by (simp add: dec_text_def)

lemma length_status_text: "length (status_text p) \<le> 233"
proof -
  note d = length_dec_text [of "pid p"] length_dec_text [of "ppid p"] length_dec_text [of "uid p"]
    length_dec_text [of "gid p"] length_dec_text [of "euid p"] length_dec_text [of "egid p"]
  show ?thesis using d by (simp add: status_text_def chars_def)
qed

lemma length_copy_strs: "length (copy_strs m a r) \<le> (if r = 0 then 0 else r + 1)"
proof (induction m a r rule: copy_strs.induct)
  case (1 m a r)
  then show ?case using length_take_str [of m "load32 a m" r]
    by (subst copy_strs.simps) (auto simp: Let_def split: if_splits)
qed

lemma length_list_pids: "length tmp \<le> 512 \<Longrightarrow> length (list_pids cap ps tmp) \<le> 512"
proof (induction ps arbitrary: tmp)
  case (Cons p ps)
  have "length (tmp @ take (511 - length tmp) (dec_text p) @ [10]) \<le> 512" if "length tmp < 500"
    using that length_dec_text [of p] by simp
  then show ?case using Cons by simp
qed simp

text \<open>C30. The texts of the process files are built in a buffer of 512 bytes: the list of
  processes, the status, the working directory, the command line, the environment and a
  single entry of the namespace always fit into it, whatever the process.\<close>

theorem procfs_texts_fit:
  shows "length (pid_listing want k) \<le> 512 \<and>
    (procfs_text argv want f p m = Some t \<and>
     (pr_type f = FT_NS \<longrightarrow> 0 \<le> pr_ns_index f \<and> pr_ns_index f < int (entry_count (proc_ns p))) \<longrightarrow> length t \<le> 512)"
proof -
  have "length (pid_listing want k) \<le> 512"
    using length_list_pids [of "[]"] by (simp add: pid_listing_def Let_def)
  moreover have "length t \<le> 512" if "procfs_text argv want f p m = Some t"
    "pr_type f = FT_NS \<longrightarrow> 0 \<le> pr_ns_index f \<and> pr_ns_index f < int (entry_count (proc_ns p))"
  proof (cases "pr_type f")
    case FT_NS
    then show ?thesis using that by (auto simp: procfs_text_def ns_text_def ns_entry_text_def Let_def chars_def min_def)
  next
    case FT_CMDLINE
    then show ?thesis using that length_copy_strs [of m argv 508] by (auto simp: procfs_text_def vec_text_def)
  next
    case FT_ENVIRON
    then show ?thesis using that length_copy_strs [of m "envp p" 508] by (auto simp: procfs_text_def vec_text_def)
  qed (use that length_status_text [of p] in \<open>auto simp: procfs_text_def\<close>)
  ultimately show ?thesis by blast
qed

text \<open>The list of a namespace does not fit: with 16 long entries the text of 576 bytes
  runs over the buffer, since the bound on its length is the count of the caller and the
  separators are stored without a check.\<close>

lemma list_ns_full:
  assumes "500 \<le> length tmp" and "int (length tmp + 5 * k) < cap - 45"
  shows "length (list_ns cap (replicate k e) tmp) = length tmp + 5 * k"
  using assms
proof (induction k arbitrary: tmp)
  case (Suc k)
  then show ?case using Suc.IH [of "tmp @ chars '' -> '' @ [10]"] by (simp add: Let_def chars_def)
qed simp

lemma procfs_ns_overflow:
  assumes "length (cstr (mnt_path e)) = 255" and "length (cstr (target_path e)) = 255"
  shows "length (ns_text 4096 (-1) \<lparr>entries = replicate 16 e, entry_count = 16\<rparr>) = 576"
proof -
  define t where "t = cstr (mnt_path e) @ chars '' -> '' @ take 241 (cstr (target_path e)) @ [10]"
  have t: "length t = 501" using assms by (simp add: t_def chars_def)
  have "list_ns 4096 (replicate 16 e) [] = list_ns 4096 (replicate 15 e) t"
    using assms replicate_Suc [of 15 e] by (simp add: t_def chars_def)
  moreover have "length (list_ns 4096 (replicate 15 e) t) = 576" using list_ns_full [of t 15 4096 e] t by simp
  ultimately show ?thesis by (auto simp: ns_text_def Let_def)
qed

text \<open>The buffer of the state tags has 128 bytes, the last for the terminator; with these
  tags the text alone has 128.\<close>

lemma format_state_tags_overflow:
  "length (format_state_tags (foldr (OR) (map fst (butlast tag_names)) 0)) = 128"
  by (simp add: format_state_tags_def tag_names_def has_def chars_def M4K_SCHED_READY_def M4K_SCHED_RUNNING_def
    M4K_SCHED_SLEEPING_def M4K_WAIT_FS_def M4K_WAIT_PIPE_def M4K_WAIT_TIMER_def M4K_WAIT_IPC_def M4K_WAIT_CHILD_def
    M4K_WAIT_LOCK_def M4K_WAIT_TERMINAL_def M4K_TRACED_def M4K_STOPPED_def M4K_ZOMBIE_def M4K_IDLE_def)

text \<open>The texts of the devices registered at boot fit into their buffer of 256 bytes.\<close>

lemma length_dt_add: "length (dt_add str tmp) \<le> length tmp + length str"
  by (simp add: dt_add_def)

lemma length_hex_rev: "n < 16 ^ Suc k \<Longrightarrow> length (hex_rev n) \<le> Suc k"
proof (induction k arbitrary: n)
  case 0
  then show ?case by (subst hex_rev.simps) simp
next
  case (Suc k)
  then have "n div 16 < 16 ^ Suc k" by (simp add: div_less_iff_less_mult mult.commute)
  from Suc.IH [OF this] show ?case by (subst hex_rev.simps) simp
qed

lemma length_hex_text: "length (hex_text n) \<le> 8"
  using length_hex_rev [of "unat n" 7] u32_range [of n] by (simp add: hex_text_def)

lemma length_device_text: "length (device_text d) \<le> length (dv_name d) + length (dv_type d) + length (dv_desc d) + 80"
proof -
  have c: "length (chars x) = length x" for x by (simp add: chars_def)
  define t1 where "t1 = dt_add (chars (dv_name d)) (dt_add (chars ''name: '') []) @ [10]"
  define t2 where "t2 = dt_add (chars (dv_type d)) (dt_add (chars ''type: '') t1) @ [10]"
  define t3 where "t3 = dt_add (chars ''io_base: 0x'') t2 @ hex_text (dv_io_base d) @ [10]"
  define t4 where "t4 = dt_add (chars ''irq: '') t3 @ dec_text (dv_irq d) @ [10]"
  define t5 where "t5 = dt_add (chars (if dv_present d then ''yes'' else ''no'')) (dt_add (chars ''present: '') t4) @ [10]"
  have "length t1 \<le> length (dv_name d) + 7"
    using length_dt_add [of "chars (dv_name d)" "dt_add (chars ''name: '') []"] length_dt_add [of "chars ''name: ''" "[]"]
    by (simp add: t1_def c)
  moreover have "length t2 \<le> length t1 + length (dv_type d) + 7"
    using length_dt_add [of "chars (dv_type d)" "dt_add (chars ''type: '') t1"] length_dt_add [of "chars ''type: ''" t1]
    by (simp add: t2_def c)
  moreover have "length t3 \<le> length t2 + 20"
    using length_dt_add [of "chars ''io_base: 0x''" t2] length_hex_text [of "dv_io_base d"] by (simp add: t3_def c)
  moreover have "length t4 \<le> length t3 + 16"
    using length_dt_add [of "chars ''irq: ''" t3] length_dec_text [of "dv_irq d"] by (simp add: t4_def c)
  moreover have "length t5 \<le> length t4 + 13"
    using length_dt_add [of "chars (if dv_present d then ''yes'' else ''no'')" "dt_add (chars ''present: '') t4"]
      length_dt_add [of "chars ''present: ''" t4] by (simp add: t5_def c split: if_splits)
  moreover have "length (device_text d) \<le> length t5 + length (dv_desc d) + 7"
    using length_dt_add [of "chars (dv_desc d)" "dt_add (chars ''desc: '') t5"] length_dt_add [of "chars ''desc: ''" t5]
    by (simp add: device_text_def t1_def [symmetric] t2_def [symmetric] t3_def [symmetric] t4_def [symmetric] t5_def [symmetric] c)
  ultimately show ?thesis by simp
qed

lemma device_texts_fit: "d \<in> set boot_devices \<Longrightarrow> length (device_text d) \<le> 256"
  using length_device_text [of d] by (auto simp: boot_devices_def)

section \<open>Descriptors of two filesystems\<close>

lemma find_first_entry: "\<lbrakk>0 < n; P (x ! 0)\<rbrakk> \<Longrightarrow> find (\<lambda>i. P (x ! i)) [0..<n] = Some 0"
  by (auto simp: find_Some_iff intro!: exI [of _ 0])

lemma procfs_first_open:
  "fst (mkrn_procfs_open k (chars ''/sys/proc'') fl procfs_bss) = (0, 1000)"
  "mkrn_procfs_is_procfs_fd 1000 (snd (mkrn_procfs_open k (chars ''/sys/proc'') fl procfs_bss))"
proof -
  have p: "skip_slashes (chars ''/sys/proc'') = chars ''sys/proc''" by (simp add: skip_slashes_def chars_def)
  have f: "find (\<lambda>i. \<not> pr_in_use (procfs_files procfs_bss ! i)) [0..<PROCFS_MAX_FILES] = Some 0"
    by (rule find_first_entry) (simp_all add: procfs_bss_def procfs_file_zero_def PROCFS_MAX_FILES_def)
  have "\<not> taken (procfs_files procfs_bss) 1000" by (simp add: taken_def seen_def procfs_bss_def procfs_file_zero_def)
  then have t: "skip_taken (nat (PROCFS_FD_LIMIT - PROCFS_FD_BASE)) 1000 (procfs_files procfs_bss) = 1000"
    using skip_taken_Suc [of "procfs_files procfs_bss" 999 1000]
    by (simp add: PROCFS_FD_LIMIT_def PROCFS_FD_BASE_def procfs_bss_def)
  have n: "procfs_next_fd procfs_bss = 1000" "0 < length (procfs_files procfs_bss)"
    by (simp_all add: procfs_bss_def PROCFS_FD_BASE_def PROCFS_MAX_FILES_def)
  show "fst (mkrn_procfs_open k (chars ''/sys/proc'') fl procfs_bss) = (0, 1000)"
    using p f t n by (simp add: mkrn_procfs_open_def procfs_open_entry_def procfs_alloc_file_def procfs_set_def Let_def)
  have "mkrn_procfs_is_procfs_fd 1000 (snd (mkrn_procfs_open k (chars ''/sys/proc'') fl procfs_bss)) \<longleftrightarrow>
      pf_is_fd (procfs_hooks argv fresh) 1000 (snd (pf_open (procfs_hooks argv fresh) (chars ''/sys/proc'') fl (penv_boot k d)))"
    for argv fresh and d :: "'d devfs"
    by (simp add: procfs_hooks_def penv_boot_def split_beta)
  moreover have "pf_open (procfs_hooks argv fresh) (chars ''/sys/proc'') fl (penv_boot k d) =
      ((0, 1000), snd (pf_open (procfs_hooks argv fresh) (chars ''/sys/proc'') fl (penv_boot k d)))"
    for argv fresh and d :: "'d devfs"
    using \<open>fst (mkrn_procfs_open k (chars ''/sys/proc'') fl procfs_bss) = (0, 1000)\<close>
    by (simp add: procfs_hooks_def penv_boot_def split_beta)
  ultimately show "mkrn_procfs_is_procfs_fd 1000 (snd (mkrn_procfs_open k (chars ''/sys/proc'') fl procfs_bss))"
    using procfs_mod.open_is_fd [OF boot_wf(1)] by blast
qed

lemma devfs_first_open:
  "fst (mkrn_devfs_open eu (chars ''/dev'') fl (devfs_bss a)) = (0, 1000)"
proof -
  have "skip_slashes (chars ''/dev'') = chars ''dev''" by (simp add: skip_slashes_def chars_def)
  moreover have "find (\<lambda>i. \<not> df_in_use (devfs_files (devfs_bss a) ! i)) [0..<DEVFS_MAX_FILES] = Some 0"
    by (rule find_first_entry) (simp_all add: devfs_bss_def devfs_file_zero_def DEVFS_MAX_FILES_def)
  moreover have "devfs_next_fd (devfs_bss a) = 1000" "0 < length (devfs_files (devfs_bss a))"
    by (simp_all add: devfs_bss_def DEVFS_FD_BASE_def DEVFS_MAX_FILES_def)
  ultimately show ?thesis by (simp add: mkrn_devfs_open_def open_entry_def devfs_alloc_file_def devfs_set_def Let_def)
qed

lemma vfs_open_routed:
  assumes "bVfsInitialized s" and "open_route hk p = Some fs"
  shows "mkrn_vfs_open hk None (Some p) fl s = Some (open_pseudo fs p fl s)"
  using assms by (simp add: mkrn_vfs_open_def open_denied_def)

text \<open>Two filesystems share descriptors: the ranges of the process filesystem and of the
  devices both start at 1000. After boot, opening \<open>/sys/proc\<close> and then \<open>/dev\<close> returns
  1000 twice, and every later call with 1000 goes to the process filesystem: closing it
  closes \<open>/sys/proc\<close>, and the file of the devices stays open.\<close>

theorem descriptor_clash:
  assumes hk: "hk = kernel_hooks io argv fresh al fr" and s: "bVfsInitialized s" "v_env s = penv_boot k (devfs_bss a)"
  shows "\<exists>s1 s2 s3. mkrn_vfs_open hk None (Some (chars ''/sys/proc'')) M4K_O_RDONLY s = Some (1000, s1) \<and>
    mkrn_vfs_open hk None (Some (chars ''/dev'')) M4K_O_RDONLY s1 = Some (1000, s2) \<and>
    fd_route hk 1000 (v_env s2) = Some (procfs_hooks argv fresh) \<and>
    mkrn_vfs_close hk 1000 s2 = (0, s3) \<and> pe_devfs (v_env s3) = pe_devfs (v_env s2) \<and>
    mkrn_devfs_is_devfs_fd 1000 (pe_devfs (v_env s3))"
proof -
  let ?o = "mkrn_procfs_open k (chars ''/sys/proc'') M4K_O_RDONLY procfs_bss"
  obtain ps where o: "?o = ((0, 1000), ps)" using procfs_first_open(1) by (metis prod.collapse)
  define h1 where "h1 = (penv_boot k (devfs_bss a))\<lparr>pe_procfs := ps\<rparr>"
  let ?d = "mkrn_devfs_open (mkrn_process_get_euid k) (chars ''/dev'') M4K_O_RDONLY (devfs_bss a)"
  obtain ds where d: "?d = ((0, 1000), ds)" using devfs_first_open by (metis prod.collapse)
  define h2 where "h2 = h1\<lparr>pe_devfs := ds\<rparr>"
  have r1: "open_route hk (chars ''/sys/proc'') = Some (procfs_hooks argv fresh)" "open_route hk (chars ''/dev'') = Some (devfs_hooks io)"
    by (simp_all add: hk open_route_def starts_with_def chars_def kernel_hooks_def)
  have o1: "mkrn_vfs_open hk None (Some (chars ''/sys/proc'')) M4K_O_RDONLY s = Some (1000, s\<lparr>v_env := h1\<rparr>)"
    using s o by (simp add: vfs_open_routed [OF _ r1(1)] open_pseudo_def procfs_hooks_def penv_boot_def h1_def)
  have o2: "mkrn_vfs_open hk None (Some (chars ''/dev'')) M4K_O_RDONLY (s\<lparr>v_env := h1\<rparr>) = Some (1000, s\<lparr>v_env := h2\<rparr>)"
    using s d by (simp add: vfs_open_routed [OF _ r1(2)] open_pseudo_def devfs_hooks_def penv_boot_def h1_def h2_def)
  have fd: "mkrn_procfs_is_procfs_fd 1000 (pe_procfs h2)"
    using procfs_first_open(2) [of k M4K_O_RDONLY] o by (simp add: h2_def h1_def)
  then have route: "fd_route hk 1000 h2 = Some (procfs_hooks argv fresh)"
    by (simp add: hk fd_route_def kernel_hooks_def procfs_hooks_def)
  obtain ps' where "mkrn_procfs_close 1000 (pe_procfs h2) = (0, ps')"
    using fd by (auto simp: mkrn_procfs_close_def mkrn_procfs_is_procfs_fd_def)
  then have c: "mkrn_vfs_close hk 1000 (s\<lparr>v_env := h2\<rparr>) = (0, s\<lparr>v_env := h2\<lparr>pe_procfs := ps'\<rparr>\<rparr>)"
    using s route by (simp add: mkrn_vfs_close_def bad_fd_def M4K_VFS_MAX_FDS_def procfs_hooks_def)
  have "devfs_wf h1"
    by (simp add: devfs_wf_def h1_def penv_boot_def devfs_bss_def wrap_ok_def DEVFS_FD_BASE_def DEVFS_FD_LIMIT_def)
  moreover have "pf_open (devfs_hooks io) (chars ''/dev'') M4K_O_RDONLY h1 = ((0, 1000), h2)"
    using d by (simp add: devfs_hooks_def h2_def h1_def penv_boot_def)
  ultimately have "mkrn_devfs_is_devfs_fd 1000 (pe_devfs h2)"
    using devfs_mod.open_is_fd [of h1 io] by (fastforce simp: devfs_hooks_def)
  then show ?thesis using o1 o2 route c
    by (intro exI [of _ "s\<lparr>v_env := h1\<rparr>"] exI [of _ "s\<lparr>v_env := h2\<rparr>"] exI [of _ "s\<lparr>v_env := h2\<lparr>pe_procfs := ps'\<rparr>\<rparr>"]) simp
qed

section \<open>Examples\<close>

definition demo_hooks :: "ata_view penv vfs_hooks" where
  "demo_hooks = kernel_hooks sim_ports (\<lambda>_. 0) (\<lambda>_. 0) (\<lambda>_ h. (None, h)) (\<lambda>_ h. h)"

definition demo_vfs :: "ata_view devfs \<Rightarrow> ata_view penv vfs" where
  "demo_vfs d = (vfs_bss (0, ydev_boot) (penv_boot kproc0 d))\<lparr>bVfsInitialized := True\<rparr>"

lemma demo_vfs_simps [simp]: "bVfsInitialized (demo_vfs d)" "v_env (demo_vfs d) = penv_boot kproc0 d"
  by (simp_all add: demo_vfs_def vfs_bss_def)

lemma procfs_descriptors_witness:
  "fst (mkrn_procfs_close 1000 (snd (mkrn_procfs_open kproc0 (chars ''/sys/proc'') 1 procfs_bss))) = 0"
  using procfs_descriptors [OF refl, of "\<lambda>_. 0" "\<lambda>_. 0" "[POpen (chars ''/sys/proc'') 1]" kproc0 "sim_devfs sim_node" 1000]
    procfs_first_open(2) [of kproc0 1]
  by (simp add: procfs_hooks_def penv_boot_def split_beta)

lemma upper_descriptors_unusable_witness:
  "\<exists>n s'. mkrn_vfs_open demo_hooks None (Some (chars ''/sys/sessions/'')) M4K_O_RDONLY (demo_vfs (sim_devfs sim_node)) = Some (n, s') \<and>
     2000 \<le> n \<and> mkrn_vfs_close demo_hooks n s' = (-1, s')"
proof -
  let ?s = "demo_vfs (sim_devfs sim_node)"
  obtain n s' where r: "open_pseudo sessions_hooks (chars ''/sys/sessions/'') M4K_O_RDONLY ?s = (n, s')" by fastforce
  then have o: "mkrn_vfs_open demo_hooks None (Some (chars ''/sys/sessions/'')) M4K_O_RDONLY ?s = Some (n, s')"
    by (simp add: demo_hooks_def sessions_dir_open)
  have "filter fst (sessions_tab (penv_boot kproc0 (sim_devfs sim_node))) = []"
    using boot_empty [of _ kproc0 "sim_devfs sim_node"] by (auto simp: filter_empty_conv)
  then have "n \<noteq> -1" using sessions_dir_step(2) [of ?s M4K_O_RDONLY] r by (simp add: open_count_def)
  moreover have "starts_with ''/sys/sessions'' (chars ''/sys/sessions/'')" by (simp add: starts_with_def chars_def)
  ultimately show ?thesis
    using upper_descriptors_unusable [OF demo_hooks_def _ _ o] o by auto
qed

lemma sessions_exhausted_witness:
  "\<exists>s'. mkrn_vfs_open demo_hooks None (Some (chars ''/sys/sessions/'')) M4K_O_RDONLY
     (use_sessions demo_hooks 32 (demo_vfs (sim_devfs sim_node))) = Some (-1, s')"
  using sessions_exhausted [OF demo_hooks_def, of "demo_vfs (sim_devfs sim_node)" kproc0 "sim_devfs sim_node" 32] by simp

lemma demo_no_other: "\<not> other_fd n (penv_boot k d)"
  using boot_empty [of "(True, n)" k d] procfs_mod.is_fd [OF boot_wf(1), of "\<lambda>_. 0" "\<lambda>_. 0" n k d]
    sessions_mod.is_fd [OF boot_wf(2), of n k d] dt_mod.is_fd [OF boot_wf(3), of n k d]
  by (auto simp: other_fd_def procfs_hooks_def sessions_hooks_def dt_hooks_def penv_boot_def dt_tab_def seen_def dt_bss_def
    mkrn_device_tree_init_def dt_file_zero_def)

lemma vfs_disk_write_read_witness:
  "\<exists>s1 s2 s3. mkrn_vfs_write demo_hooks 1000 (replicate 600 7) (demo_vfs (sim_devfs sim_node)) = Some (600, s1) \<and>
    mkrn_vfs_lseek demo_hooks 1000 1000 M4K_SEEK_SET s1 = (1000, s2) \<and>
    mkrn_vfs_read demo_hooks 1000 600 s2 = Some ((600, replicate 600 7), s3)"
proof -
  have n: "devfs_files (sim_devfs sim_node) ! 0 = sim_node" by (simp add: sim_devfs_def DEVFS_MAX_FILES_def)
  have l: "unat (df_offset sim_node) = 1000" "node_left sim_node = 50200"
    by (simp_all add: sim_node_def node_left_def node_len_def)
  have d: "pe_devfs (v_env (demo_vfs (sim_devfs sim_node))) = sim_devfs sim_node" by (simp add: penv_boot_def)
  show ?thesis
    using vfs_disk_write_read [OF demo_hooks_def, of "demo_vfs (sim_devfs sim_node)" 1000 id "\<lambda>_. 2048" 0 sim_node "replicate 600 7"]
      sim_open_node n l d demo_no_other [of 1000 kproc0 "sim_devfs sim_node"]
    by (auto simp del: replicate.simps)
qed

lemma procfs_pid_of_path_witness:
  "procfs_getpid_from_path (chars ''/sys/proc/1/ctl'') = 0 \<and> procfs_getpid_from_path (chars ''/sys/proc/'' @ dec_digits 1) = 1"
  using procfs_pid_of_path [of "chars ''1/ctl''" 1] by (simp add: chars_def is_cstr_def)

lemma procfs_texts_fit_witness:
  "length (status_text (procs kproc0 0)) \<le> 512"
  using procfs_texts_fit [of 0 kproc0 0 procfs_file_zero "procs kproc0 0" "ram kproc0" "status_text (procs kproc0 0)"]
  by (simp add: procfs_text_def procfs_file_zero_def)

lemma descriptor_clash_witness:
  "\<exists>s1 s2. mkrn_vfs_open demo_hooks None (Some (chars ''/sys/proc'')) M4K_O_RDONLY
      (demo_vfs (devfs_bss (sim_disk (\<lambda>dr l. replicate 512 0)))) = Some (1000, s1) \<and>
    mkrn_vfs_open demo_hooks None (Some (chars ''/dev'')) M4K_O_RDONLY s1 = Some (1000, s2)"
  using descriptor_clash [OF demo_hooks_def, of "demo_vfs (devfs_bss (sim_disk (\<lambda>dr l. replicate 512 0)))" kproc0
    "sim_disk (\<lambda>dr l. replicate 512 0)"] by auto

end
