(* ===== verification/VfsYafs.thy ===== *)
theory VfsYafs
  imports VfsSpec PseudoSpec
begin

text \<open>
  The virtual filesystem layer on top of YAFS: creating a file through its path,
  writing to the descriptor and reading it back. The laws of the filesystem come from
  the map of entries and blocks (\<open>fs_rep\<close>), those of the descriptors from the
  invariant of the layer.
\<close>

section \<open>Paths\<close>

lemma strrchr_y_none: "c \<notin> set s \<Longrightarrow> strrchr_y s c = None"
  by (induction s) auto

lemma strrchr_y_last: "c \<notin> set w \<Longrightarrow> strrchr_y (p @ c # w) c = Some (length p)"
  by (induction p) (auto simp: strrchr_y_none)

lemma split_parent_name_append:
  "47 \<notin> set w \<Longrightarrow> length p < n \<Longrightarrow> split_parent_name (p @ 47 # w) n = Some (if p = [] then [47] else p, w)"
  by (auto simp: split_parent_name_def strrchr_y_last)

lemma fs_rep_root: "fs_rep n t A \<Longrightarrow> A k \<noteq> None \<Longrightarrow> fst t \<noteq> 0"
  by (auto simp: fs_rep_def bt_repr_def btree_repr_def fs_abs_def)

section \<open>A new file\<close>

definition file_image :: "u8 list \<Rightarrow> u8 list" where
  "file_image nm = put_inode (new_file_inode nm) zero_block"

definition fs_new_file :: "u64 \<Rightarrow> u8 list \<Rightarrow> u64 \<Rightarrow> (u64 \<rightharpoonup> fs_val) \<Rightarrow> (u64 \<rightharpoonup> fs_val)" where
  "fs_new_file par nm ino A = A(inode_key ino \<mapsto> Block (file_image nm), dir_key par nm \<mapsto> Entry ino)"

lemma file_image_length: "length (file_image nm) = BS"
  by (simp add: file_image_def new_file_inode_def)

lemma new_file_ok:
  assumes "fs_rep (Suc (Suc (Suc n))) t A" "A (dir_key par nm) = None"
  shows "\<exists>t'. yafs_new_file par nm ino t = Some (0, t') \<and> fs_rep n t' (fs_new_file par nm ino A)"
proof -
  obtain lba d1 d2 t1 where a: "mkrn_yafs_dev_alloc_block (snd t) = (lba, d1)" "lba \<noteq> 0"
    "mkrn_yafs_dev_write lba (file_image nm) d1 = Some d2"
    "tree_insert (inode_key ino) (val_of (inode_key ino) lba) (fst t, d2) = Some (0, A (inode_key ino) = None, t1)"
    "fs_rep (Suc n) t1 (A(inode_key ino \<mapsto> Block (file_image nm)))"
    using fs_rep_add_block[OF assms(1) block_keys(1)[of ino], of "file_image nm"] file_image_length by auto
  have v: "val_of (inode_key ino) lba = lba" by (simp add: val_of_def YAFS_KS_INODE_def YAFS_KS_EXTENT_def)
  obtain t2 where "tree_insert (dir_key par nm) ino t1 = Some (0, True, t2)" "fs_rep n t2 (fs_new_file par nm ino A)"
    using fs_rep_put_entry[OF a(5) block_keys(3)[of par nm], of ino] assms(2) by (auto simp: fs_new_file_def)
  then show ?thesis using a by (auto simp: yafs_new_file_def v simp flip: file_image_def)
qed

text \<open>Where a new file goes: a path without parent steps to a directory, and a name
  that the directory does not have.\<close>

definition free_place :: "(u64 \<rightharpoonup> fs_val) \<Rightarrow> u8 list \<Rightarrow> u8 list \<Rightarrow> u64 \<Rightarrow> bool" where
  "free_place A p nm par \<longleftrightarrow> down_path p \<and> length p < 256 \<and> resolve A 1 p = par \<and> par \<noteq> 0 \<and>
     plain_name nm \<and> A (dir_key par nm) = None"

lemma free_place_lookup:
  assumes "fs_rep n t A" "free_place A p nm par"
  shows "mkrn_yafs_lookup_path (Some (p @ 47 # nm)) t = Some 0"
    "mkrn_yafs_lookup_path (Some (if p = [] then [47] else p)) t = Some par"
    "lookup_name par nm t = 0"
proof -
  have p: "down_path p" "plain_name nm" "resolve A 1 p = par" "par \<noteq> 0" "A (dir_key par nm) = None" "short_path p"
    using assms(2) by (auto simp: free_place_def down_path_def)
  have e: "entry A (dir_key par nm) = 0" using p(5) by (simp add: entry_def)
  show "mkrn_yafs_lookup_path (Some (p @ 47 # nm)) t = Some 0"
    using lookup_path_ok[OF assms(1) down_path_append[OF p(1,2)]] resolve_append[OF p(2)] p(3,4) e by simp
  have "resolve A 1 (if p = [] then [47] else p) = par" using p(3) by (auto simp: resolve_def step_into_def)
  then show "mkrn_yafs_lookup_path (Some (if p = [] then [47] else p)) t = Some par"
    using lookup_path_ok[OF assms(1), of "if p = [] then [47] else p"] p(6) by (auto simp: short_path_def)
  show "lookup_name par nm t = 0" using lookup_name_ok[OF assms(1)] e by simp
qed

lemma new_file_resolves:
  assumes "free_place A p nm par"
  shows "resolve (fs_new_file par nm ino A) 1 (p @ 47 # nm) = ino"
proof -
  have keep: "entry (fs_new_file par nm ino A) (dir_key j w) = entry A (dir_key j w)" if "entry A (dir_key j w) \<noteq> 0" for j w
    using that assms by (auto simp: fs_new_file_def entry_def free_place_def)
  have "resolve (fs_new_file par nm ino A) 1 p = par"
    using resolve_mono[OF keep, of p 1] assms by (simp add: free_place_def down_path_def)
  then show ?thesis using assms resolve_append[of nm] by (simp add: free_place_def fs_new_file_def entry_def)
qed

lemma create_file_yafs_creates:
  assumes "bVfsInitialized s" "fst (root_yafs s) \<noteq> 0" "fs_rep (Suc (Suc (Suc n))) (root_yafs s) A" "free_place A p nm par"
  shows "\<exists>t'. mkrn_vfs_create_file_yafs (Some (p @ 47 # nm)) s =
      Some (0, s\<lparr>u64VfsNextIno := u64VfsNextIno s + 1, root_yafs := t'\<rparr>) \<and>
    fs_rep n t' (fs_new_file par nm (u64VfsNextIno s) A)"
proof -
  note l = free_place_lookup[OF assms(3,4)]
  have f: "47 \<notin> set nm" "length p < 256" "par \<noteq> 0" "A (dir_key par nm) = None"
    using assms(4) by (auto simp: free_place_def plain_name_def)
  obtain t' where t': "yafs_new_file par nm (u64VfsNextIno s) (root_yafs s) = Some (0, t')"
    "fs_rep n t' (fs_new_file par nm (u64VfsNextIno s) A)"
    using new_file_ok[OF assms(3) f(4)] by blast
  have "mkrn_vfs_create_file_yafs (Some (p @ 47 # nm)) s =
      Some (0, s\<lparr>u64VfsNextIno := u64VfsNextIno s + 1, root_yafs := t'\<rparr>)"
    using assms(1,2) f(3) t'(1) l(2,3)
    by (simp add: mkrn_vfs_create_file_yafs_def no_yafs_def split_parent_name_append[OF f(1,2)]
        mkrn_yafs_lookup_name_def with_tree_def Let_def)
  then show ?thesis using t'(2) by blast
qed

section \<open>Descriptors of inodes\<close>

lemma unat_ucast_32: "unat (ucast (w :: u32) :: u64) = unat w"
  using unsigned_less[of w, where ?'a = nat] by (simp add: unsigned_ucast_eq take_bit_nat_eq_self)

definition yafs_fd :: "'h vfs_hooks \<Rightarrow> nat \<Rightarrow> u64 \<Rightarrow> u32 \<Rightarrow> 'h vfs \<Rightarrow> bool" where
  "yafs_fd hk i ino off s \<longleftrightarrow> i < 1024 \<and> length (fd_table s) = 1024 \<and> bVfsInitialized s \<and> fd_used (fd_table s ! i) \<and>
     fd_file (fd_table s ! i) = Some 0 \<and> fd_inode (fd_table s ! i) = ino \<and> ino \<noteq> 0 \<and>
     fd_offset (fd_table s ! i) = off \<and> fst (root_yafs s) \<noteq> 0 \<and> fd_route hk (int i) (v_env s) = None"

lemma yafs_fd_simps:
  assumes "yafs_fd hk i ino off s"
  shows "\<not> bad_fd (int i)" "\<not> is_pipe_fd (fd_table s ! i)" "\<not> pf_is_fd (hk_devfs hk) (int i) (v_env s)"
    "yafs_fd hk i ino off2 (set_offset i off2 s)" "fst t \<noteq> 0 \<Longrightarrow> yafs_fd hk i ino off (s\<lparr>root_yafs := t\<rparr>)"
proof -
  show "\<not> bad_fd (int i)" "\<not> is_pipe_fd (fd_table s ! i)" "yafs_fd hk i ino off2 (set_offset i off2 s)"
    "fst t \<noteq> 0 \<Longrightarrow> yafs_fd hk i ino off (s\<lparr>root_yafs := t\<rparr>)"
    using assms not_bad_fd by (auto simp: yafs_fd_def is_pipe_fd_def set_offset_def)
  have "fd_route hk (int i) (v_env s) = None" using assms by (simp add: yafs_fd_def)
  then show "\<not> pf_is_fd (hk_devfs hk) (int i) (v_env s)" by (simp add: fd_route_def split: if_splits)
qed

lemma yafs_fd_write:
  assumes "yafs_fd hk i ino off s" "xs \<noteq> []" "unat off + length xs \<le> 2 ^ 28" "small_ino ino"
    "fs_rep (2 * span (unat off mod BS) (length xs) + n) (root_yafs s) A"
  shows "\<exists>t. mkrn_vfs_write hk (int i) xs s =
      Some (int (length xs), set_offset i (off + of_nat (length xs)) (s\<lparr>root_yafs := t\<rparr>)) \<and>
    fs_rep n t (fs_grow ino (ucast off) (length xs) (fs_write ino (unat off) xs A)) \<and> fst t \<noteq> 0"
proof -
  note u = unat_ucast_32[of off]
  obtain t where t: "mkrn_yafs_write_file_data ino (Some xs) (ucast off) (root_yafs s) = Some (0, length xs, t)"
    "fs_rep n t (fs_grow ino (ucast off) (length xs) (fs_write ino (unat off) xs A))"
    using file_write_ok[of "ucast off" xs n "root_yafs s" A ino] assms by (auto simp: u)
  have "fs_byte (fs_grow ino (ucast off) (length xs) (fs_write ino (unat off) xs A)) ino (unat off) \<noteq> None"
    using fs_byte_write[OF assms(4), of "unat off" "unat off" xs A] assms(2,3) by (simp add: Suc_le_eq flip: length_greater_0_conv)
  then have "fst t \<noteq> 0"
    using fs_rep_root[OF t(2)] by (metis (no_types, lifting) block_at_def fs_byte_def option.simps(4) option.map(1))
  then show ?thesis using t assms(1,3) yafs_fd_simps(1,2)[OF assms(1)]
    by (intro exI[of _ t]) (auto simp: mkrn_vfs_write_def write_yafs_def yafs_fd_def Let_def)
qed

lemma yafs_fd_seek:
  assumes "yafs_fd hk i ino off s" "to < 2 ^ 31"
  shows "mkrn_vfs_lseek hk (int i) (int to) M4K_SEEK_SET s = (int to, set_offset i (of_nat to) s)"
proof -
  have "sint (of_nat to :: u32) = int to" using assms(2) by (simp add: signed_of_nat signed_take_bit_int_eq_self)
  then show ?thesis using assms(1) yafs_fd_simps(1-3)[OF assms(1)]
    by (simp add: mkrn_vfs_lseek_def lseek_yafs_def yafs_seek_base_def yafs_fd_def Let_def)
qed

lemma yafs_fd_read:
  assumes "yafs_fd hk i ino off s" "fs_rep n (root_yafs s) A" "unat off + unat want \<le> 2 ^ 28"
    "ys = fs_read A ino (unat off) (unat want)" "length ys < 2 ^ 31"
  shows "mkrn_vfs_read hk (int i) want s = Some ((int (length ys), ys), set_offset i (off + of_nat (length ys)) s)"
proof -
  note u = unat_ucast_32[of off]
  have "mkrn_yafs_read_file_data ino True (ucast off) want (root_yafs s) = Some (0, ys)"
    using file_read_ok[OF assms(2), of "ucast off" want ino] assms(3,4) by (simp add: u)
  then show ?thesis using assms(1,5) yafs_fd_simps(1,2)[OF assms(1)]
    by (simp add: mkrn_vfs_read_def read_yafs_def yafs_fd_def Let_def)
qed

lemma alloc_fd_cong:
  assumes "fd_table s' = fd_table s" "u32FdSearchStart s' = u32FdSearchStart s"
  shows "fst (vfs_alloc_fd m s') = fst (vfs_alloc_fd m s)"
  by (simp add: vfs_alloc_fd_def assms split: option.splits)

lemma open_creates:
  assumes "vfs_ok s" "fst (root_yafs s) \<noteq> 0" "fs_rep (Suc (Suc (Suc n))) (root_yafs s) A" "free_place A p nm par"
    "u64VfsNextIno s \<noteq> 0" "\<not> open_denied cur (p @ 47 # nm)" "open_route hk (p @ 47 # nm) = None"
    "fst (vfs_alloc_fd 0 s) = int i" "fd_route hk (int i) (v_env s) = None"
  shows "\<exists>s1. mkrn_vfs_open hk cur (Some (p @ 47 # nm)) M4K_O_CREAT s = Some (int i, s1) \<and>
    yafs_fd hk i (u64VfsNextIno s) 0 s1 \<and> fs_rep n (root_yafs s1) (fs_new_file par nm (u64VfsNextIno s) A)"
proof -
  let ?path = "p @ 47 # nm" and ?ino = "u64VfsNextIno s"
  note ok = vfs_okD(1,3,6)[OF assms(1)]
  obtain t where t: "mkrn_vfs_create_file_yafs (Some ?path) s = Some (0, s\<lparr>u64VfsNextIno := ?ino + 1, root_yafs := t\<rparr>)"
    "fs_rep n t (fs_new_file par nm ?ino A)"
    using create_file_yafs_creates[OF ok(1) assms(2-4)] by blast
  define s1 where "s1 = s\<lparr>u64VfsNextIno := ?ino + 1, root_yafs := t\<rparr>"
  have pl: "down_path p" "plain_name nm" using assms(4) by (auto simp: free_place_def)
  then have look: "mkrn_yafs_lookup_path (Some ?path) t = Some ?ino"
    using lookup_path_ok[OF t(2) down_path_append] new_file_resolves[OF assms(4)] by simp
  have "?path \<noteq> [47]" using pl(2) by (auto simp: plain_name_def append_eq_Cons_conv)
  then have f: "find_or_create ?path M4K_O_CREAT s = Some (?ino, s1)"
    using t(1) look free_place_lookup(1)[OF assms(3,4)] by (simp add: find_or_create_def s1_def M4K_O_CREAT_def)
  have fl: "M4K_O_CREAT AND M4K_O_TRUNC = 0" "M4K_O_CREAT AND M4K_O_APPEND = 0"
    by (simp_all add: M4K_O_CREAT_def M4K_O_TRUNC_def M4K_O_APPEND_def)
  have "fst (vfs_alloc_fd 0 s1) = int i" 
    using assms(8) alloc_fd_cong[of s1 s 0] by (simp add: s1_def)
  moreover have "u32FdSearchStart s1 < 1024" using ok(3) by (simp add: s1_def)
  ultimately have i: "vfs_alloc_fd 0 s1 = (int i, s1\<lparr>u32FdSearchStart := (i + 1) mod 1024\<rparr>)" "i < 1024"
    by (auto elim!: alloc_fd_cases[of s1 0])
  have root: "fst t \<noteq> 0" using fs_rep_root[OF t(2), of "dir_key par nm"] by (simp add: fs_new_file_def)
  define s2 where "s2 = snd (open_inode ?ino M4K_O_CREAT s1)"
  have "open_inode ?ino M4K_O_CREAT s1 = (int i, s2)" "yafs_fd hk i ?ino 0 s2" "root_yafs s2 = t"
    using i fl ok(1,2) root assms(5,9) by (auto simp: s2_def open_inode_def open_desc_def yafs_fd_def s1_def)
  then show ?thesis using f t(2) ok(1) assms(2,5-7) by (auto simp: mkrn_vfs_open_def open_yafs_def)
qed

section \<open>Property\<close>

text \<open>The pseudo filesystems of the kernel hold no descriptor after boot.\<close>

lemma kernel_boot_unrouted:
  assumes "hk = kernel_hooks io argv fresh al fr"
  shows "fd_route hk n (penv_boot k (devfs_bss a)) = None"
proof -
  have "\<not> mkrn_devfs_is_devfs_fd n (devfs_bss a)"
    by (auto simp: mkrn_devfs_is_devfs_fd_def devfs_find_by_fd_def find_Some_iff devfs_bss_def devfs_file_zero_def)
  then show ?thesis using demo_no_other[of n k "devfs_bss a"]
    by (simp add: assms fd_route_def kernel_hooks_def other_fd_def procfs_hooks_def sessions_hooks_def dt_hooks_def
        devfs_hooks_def penv_boot_def)
qed

text \<open>C25. Creating, writing and reading a file through the layer: on a root
  filesystem with room (three updates of budget and two more for each block of the
  data), opening a path of fewer than 256 characters before its last name, without
  \<open>..\<close>, whose directory exists and whose last name is free, which the caller
  may open and which belongs to no pseudo filesystem, with O_CREAT, while the search for a
  descriptor finds a number that no pseudo filesystem has open and the counter of
  inode numbers is not 0 and below \<open>2 ^ 44\<close>, gives that descriptor; the path then resolves to the next inode number; a write of at most
  256 MB returns the full count; and after seeking to the start a read of the same
  length returns exactly the bytes written. The condition on the number is
  needed: the pseudo filesystems number their files from 1000 on without looking
  at the table of the layer. The witness runs on the kernel's own pseudo
  filesystems, where it holds for every number after boot.\<close>

theorem vfs_create_write_read:
  assumes "vfs_ok s" "fst (root_yafs s) \<noteq> 0" "fs_rep (2 * span 0 (length xs) + n + 3) (root_yafs s) A"
    "free_place A p nm par" "u64VfsNextIno s \<noteq> 0" "unat (u64VfsNextIno s) < 2 ^ 44"
    "\<not> open_denied cur (p @ 47 # nm)" "open_route hk (p @ 47 # nm) = None"
    "fst (vfs_alloc_fd 0 s) = int i" "fd_route hk (int i) (v_env s) = None" "xs \<noteq> []" "length xs \<le> 2 ^ 28"
  shows "\<exists>s1 s2 s3 s4. mkrn_vfs_open hk cur (Some (p @ 47 # nm)) M4K_O_CREAT s = Some (int i, s1) \<and>
    mkrn_yafs_lookup_path (Some (p @ 47 # nm)) (root_yafs s1) = Some (u64VfsNextIno s) \<and>
    mkrn_vfs_write hk (int i) xs s1 = Some (int (length xs), s2) \<and>
    mkrn_vfs_lseek hk (int i) 0 M4K_SEEK_SET s2 = (0, s3) \<and>
    mkrn_vfs_read hk (int i) (of_nat (length xs)) s3 = Some ((int (length xs), xs), s4)"
proof -
  let ?ino = "u64VfsNextIno s"
  have rep: "fs_rep (Suc (Suc (Suc (2 * span 0 (length xs) + n)))) (root_yafs s) A"
    using assms(3) by (simp add: eval_nat_numeral)
  obtain s1 where s1: "mkrn_vfs_open hk cur (Some (p @ 47 # nm)) M4K_O_CREAT s = Some (int i, s1)"
    "yafs_fd hk i ?ino 0 s1" "fs_rep (2 * span 0 (length xs) + n) (root_yafs s1) (fs_new_file par nm ?ino A)"
    using open_creates[OF assms(1,2) rep assms(4,5,7-10)] by blast
  let ?A = "fs_new_file par nm ?ino A"
  have look: "mkrn_yafs_lookup_path (Some (p @ 47 # nm)) (root_yafs s1) = Some ?ino"
    using lookup_path_ok[OF s1(3) down_path_append] new_file_resolves[OF assms(4)] assms(4) by (simp add: free_place_def)
  have len: "unat (of_nat (length xs) :: u32) = length xs" "length xs < 2 ^ 31"
    using assms(12) by (simp_all add: unsigned_of_nat take_bit_nat_eq_self)
  obtain t where t: "mkrn_vfs_write hk (int i) xs s1 = Some (int (length xs), set_offset i (0 + of_nat (length xs)) (s1\<lparr>root_yafs := t\<rparr>))"
    "fs_rep n t (fs_grow ?ino (ucast (0 :: u32)) (length xs) (fs_write ?ino 0 xs ?A))" "fst t \<noteq> 0"
    using yafs_fd_write[OF s1(2) assms(11) _ assms(6), of n ?A] s1(3) assms(12) by auto
  define s2 where "s2 = set_offset i (0 + of_nat (length xs)) (s1\<lparr>root_yafs := t\<rparr>)"
  have fd2: "yafs_fd hk i ?ino (0 + of_nat (length xs)) s2"
    unfolding s2_def by (rule yafs_fd_simps(4)[OF yafs_fd_simps(5)[OF s1(2) t(3)]])
  have sk: "mkrn_vfs_lseek hk (int i) 0 M4K_SEEK_SET s2 = (0, set_offset i 0 s2)"
    using yafs_fd_seek[OF fd2, of 0] by simp
  define B where "B = fs_grow ?ino (ucast (0 :: u32)) (length xs) (fs_write ?ino 0 xs ?A)"
  have "fs_rep n (root_yafs (set_offset i 0 s2)) B" using t(2) by (simp add: B_def s2_def set_offset_def)
  moreover have "xs = fs_read B ?ino (unat (0 :: u32)) (unat (of_nat (length xs) :: u32))"
    using fs_read_write[OF assms(6), of 0 xs ?A] assms(12) fs_read_cong[of 0 "length xs" B ?ino "fs_write ?ino 0 xs ?A"]
    by (simp add: B_def len)
  ultimately obtain s4 where s4: "mkrn_vfs_read hk (int i) (of_nat (length xs)) (set_offset i 0 s2) = Some ((int (length xs), xs), s4)"
    using yafs_fd_read[OF yafs_fd_simps(4)[OF fd2, of 0], of n B "of_nat (length xs)" xs] len assms(12) by simp
  show ?thesis
    by (intro exI conjI, rule s1(1), rule look, rule t(1)[folded s2_def], rule sk, rule s4)
qed

theorem vfs_create_write_read_witness:
  "\<exists>t s s1 s2 s3 s4. create_inode 1 YAFS_FT_DIR [47] (0, ydev_boot) = Some (0, t) \<and>
    s = snd (mkrn_vfs_init (vfs_bss t (penv_boot kproc0 (devfs_bss (sim_disk (\<lambda>dr l. replicate 512 0)))))) \<and>
    mkrn_vfs_open demo_hooks None (Some [47, 97]) M4K_O_CREAT s = Some (0, s1) \<and>
    mkrn_vfs_write demo_hooks 0 [104, 105] s1 = Some (2, s2) \<and>
    mkrn_vfs_lseek demo_hooks 0 0 M4K_SEEK_SET s2 = (0, s3) \<and>
    mkrn_vfs_read demo_hooks 0 2 s3 = Some ((2, [104, 105]), s4)"
proof -
  define A where "A = [inode_key 1 \<mapsto> Block (inode_image YAFS_FT_DIR [47])]"
  define h where "h = penv_boot kproc0 (devfs_bss (sim_disk (\<lambda>dr l. replicate 512 0)))"
  obtain t where t: "create_inode 1 YAFS_FT_DIR [47] (0, ydev_boot) = Some (0, t)" "fs_rep 9 t A"
    using create_inode_ok[of 9 "(0, ydev_boot)" Map.empty 1 YAFS_FT_DIR "[47]"] fs_rep_boot[of 11] by (auto simp: A_def)
  define s where "s = snd (mkrn_vfs_init (vfs_bss t h))"
  have v: "root_yafs s = t" "u64VfsNextIno s = 1000" "v_env s = h" "u32FdSearchStart s = 0" "\<not> fd_used (fd_table s ! 0)"
    by (simp_all add: s_def mkrn_vfs_init_def vfs_bss_def vfs_consts fd_zero_def)
  have root: "fst (root_yafs s) \<noteq> 0" using fs_rep_root[OF t(2), of "inode_key 1"] by (simp add: A_def v)
  have fp: "free_place A [] [97] 1"
    by (simp add: free_place_def A_def down_path_def short_path_def plain_name_def resolve_def step_into_def)
  have rep: "fs_rep (2 * span 0 (length [104, 105 :: u8]) + 4 + 3) (root_yafs s) A" using t(2) by (simp add: span_def v)
  have rt: "open_route demo_hooks ([] @ 47 # [97]) = None" "\<not> open_denied None ([] @ 47 # [97])"
    by (simp_all add: open_route_def starts_with_def chars_def open_denied_def)
  have fd: "fst (vfs_alloc_fd 0 s) = int 0"
    using v(4,5) by (simp add: vfs_alloc_fd_def vfs_consts upt_conv_Cons[of 0])
  have un: "fd_route demo_hooks (int 0) (v_env s) = None"
    unfolding v(3) h_def by (rule kernel_boot_unrouted[OF demo_hooks_def])
  have "vfs_ok s" unfolding s_def by (rule vfs_boot_ok)
  from vfs_create_write_read[OF this root rep fp _ _ rt(2,1) fd un] obtain s1 s2 s3 s4 where
    "mkrn_vfs_open demo_hooks None (Some [47, 97]) M4K_O_CREAT s = Some (0, s1)"
    "mkrn_vfs_write demo_hooks 0 [104, 105] s1 = Some (2, s2)"
    "mkrn_vfs_lseek demo_hooks 0 0 M4K_SEEK_SET s2 = (0, s3)"
    "mkrn_vfs_read demo_hooks 0 2 s3 = Some ((2, [104, 105]), s4)" by (auto simp: v(2))
  then show ?thesis using t(1) s_def[unfolded h_def] by blast
qed

end
