(* ===== verification/NetBase.thy ===== *)
theory NetBase
  imports Prelude
begin

text \<open>
  Helpers of the network stack: byte order (\<^verbatim>\<open>src/sys/src/net/net_impl.h\<close>), the
  Internet checksum and the textual form of addresses (\<^verbatim>\<open>src/sys/src/net/net.c\<close>).
  A packet being built is the list of its bytes; a packet being parsed is the
  memory at its pointer, a function from offsets to bytes. Words are stored in
  memory little-endian, as the machine does.
\<close>

section \<open>Byte order\<close>

definition htons :: "u16 \<Rightarrow> u16" where
  "htons v = push_bit 8 v OR drop_bit 8 v"

definition ntohs :: "u16 \<Rightarrow> u16" where
  "ntohs v = push_bit 8 v OR drop_bit 8 v"

definition htonl :: "u32 \<Rightarrow> u32" where
  "htonl v = push_bit 24 (v AND 0xFF) OR push_bit 8 (v AND 0xFF00) OR (drop_bit 8 v AND 0xFF00) OR drop_bit 24 v"

definition ntohl :: "u32 \<Rightarrow> u32" where
  "ntohl v = push_bit 24 (v AND 0xFF) OR push_bit 8 (v AND 0xFF00) OR (drop_bit 8 v AND 0xFF00) OR drop_bit 24 v"

type_synonym buf = "nat \<Rightarrow> u8"

abbreviation get16 :: "buf \<Rightarrow> nat \<Rightarrow> u16" where
  "get16 b i \<equiv> le_word [b i, b (i + 1)]"

abbreviation get32 :: "buf \<Rightarrow> nat \<Rightarrow> u32" where
  "get32 b i \<equiv> le_word [b i, b (i + 1), b (i + 2), b (i + 3)]"

abbreviation at :: "buf \<Rightarrow> nat \<Rightarrow> buf" where
  "at b off \<equiv> \<lambda>i. b (off + i)"

abbreviation bytes :: "buf \<Rightarrow> nat \<Rightarrow> nat \<Rightarrow> u8 list" where
  "bytes b i n \<equiv> map (\<lambda>k. b (i + k)) [0..<n]"


section \<open>The Internet checksum\<close>

fun sum_words :: "u32 \<Rightarrow> u8 list \<Rightarrow> u32" where
  "sum_words acc (a # b # data) = sum_words (acc + ucast (le_word [a, b] :: u16)) data"
| "sum_words acc [a] = acc + ucast a"
| "sum_words acc [] = acc"

function fold_sum :: "u32 \<Rightarrow> u32" where
  "fold_sum acc = (if drop_bit 16 acc \<noteq> 0 then fold_sum ((acc AND 0xFFFF) + drop_bit 16 acc) else acc)"
  by pat_completeness auto

lemma fold_sum_step:
  fixes s :: u32
  shows "unat ((s AND 0xFFFF) + drop_bit 16 s) = unat s mod 65536 + unat s div 65536"
proof -
  have "(s AND 0xFFFF) = take_bit 16 s" by (simp add: take_bit_eq_mask mask_eq_decr_exp)
  then have a: "unat (s AND 0xFFFF) = unat s mod 65536"
    by (simp add: take_bit_eq_mod unat_mod)
  have b: "unat (drop_bit 16 s) = unat s div 65536"
    by (simp only: unat_drop_bit_eq) (simp add: drop_bit_eq_div)
  have "unat s < 4294967296" using unsigned_less[of s, where ?'a = nat] by simp
  then have "unat s mod 65536 + unat s div 65536 < 4294967296" by linarith
  then show ?thesis by (simp add: unat_word_ariths a b)
qed

lemma fold_sum_guard: "drop_bit 16 (s :: u32) \<noteq> 0 \<longleftrightarrow> 65536 \<le> unat s"
proof -
  have "unat (drop_bit 16 s) = unat s div 65536"
    by (simp only: unat_drop_bit_eq) (simp add: drop_bit_eq_div)
  then show ?thesis by (metis div_greater_zero_iff gr0I unat_0 unat_eq_zero zero_less_numeral not_less_iff_gr_or_eq)
qed

lemma fold_sum_less: "65536 \<le> n \<Longrightarrow> n mod 65536 + n div 65536 < (n :: nat)"
  using div_mult_mod_eq[of n 65536] div_le_mono[of 65536 n 65536] by linarith

termination fold_sum
proof (relation "measure unat")
  fix s :: u32
  assume "drop_bit 16 s \<noteq> 0"
  then have "65536 \<le> unat s" by (simp only: fold_sum_guard)
  then have "unat s mod 65536 + unat s div 65536 < unat s" by (rule fold_sum_less)
  then show "((s AND 0xFFFF) + drop_bit 16 s, s) \<in> measure unat" by (simp add: fold_sum_step)
qed simp

declare fold_sum.simps [simp del]

definition mkrn_net_checksum :: "u8 list \<Rightarrow> u16" where
  "mkrn_net_checksum data = ucast (NOT (fold_sum (sum_words 0 data)))"


section \<open>Addresses as text\<close>

definition octet_text :: "nat \<Rightarrow> u8 list" where
  "octet_text o' =
     (let (hundreds, v) = (if o' \<ge> 100 then ([of_nat (48 + o' div 100)], o' mod 100) else ([], o'));
          tens = (if v \<ge> 10 \<or> o' \<ge> 100 then [of_nat (48 + v div 10)] else [])
      in hundreds @ tens @ [of_nat (48 + v mod 10)])"

text \<open>The text written to the buffer in front of the terminator, from the most
  significant octet down; the function returns its length.\<close>

definition mkrn_net_ip_to_string :: "u32 \<Rightarrow> u8 list" where
  "mkrn_net_ip_to_string ip =
     (let oct = (\<lambda>i. unat (ucast (drop_bit (8 * i) ip) :: u8))
      in concat (map (\<lambda>i. octet_text (oct i) @ (if i > 0 then [46] else [])) [3, 2, 1, 0]))"

fun parse_octet :: "u8 list \<Rightarrow> nat \<Rightarrow> nat \<Rightarrow> (nat \<times> nat \<times> u8 list) option" where
  "parse_octet (c # s) v digits =
     (if 48 \<le> c \<and> c \<le> 57
      then if digits + 1 > 3 then None else parse_octet s (v * 10 + (unat c - 48)) (digits + 1)
      else Some (v, digits, c # s))"
| "parse_octet [] v digits = Some (v, digits, [])"

function parse_parts :: "nat \<Rightarrow> u8 list \<Rightarrow> u32 \<Rightarrow> u32" where
  "parse_parts parts s ip =
     (if parts < 4 then
        case parse_octet s 0 0 of
          None \<Rightarrow> 0
        | Some (v, digits, s1) \<Rightarrow>
            if v > 255 \<or> digits = 0 then 0
            else let ip1 = push_bit 8 ip OR of_nat v in
              if parts + 1 < 4
              then (case s1 of [] \<Rightarrow> 0 | c # s2 \<Rightarrow> if c \<noteq> 46 then 0 else parse_parts (parts + 1) s2 ip1)
              else parse_parts (parts + 1) s1 ip1
      else if s \<noteq> [] then 0 else ip)"
  by pat_completeness auto
termination
  by (relation "measure (\<lambda>(parts, s, ip). 4 - parts)") auto

definition mkrn_net_string_to_ip :: "u8 list \<Rightarrow> u32" where
  "mkrn_net_string_to_ip s = parse_parts 0 s 0"

declare parse_parts.simps [simp del]


section \<open>Lemmas\<close>

lemma ntohs_htons [simp]: "ntohs (htons v) = v"
  by (rule bit_word_eqI) (auto simp: htons_def ntohs_def bit_simps)

lemma htonl_bit:
  "bit (htonl v) n \<longleftrightarrow> n < 8 \<and> bit v (24 + n) \<or> 8 \<le> n \<and> n < 16 \<and> bit v (n + 8) \<or>
     16 \<le> n \<and> n < 24 \<and> bit v (n - 8) \<or> 24 \<le> n \<and> n < 32 \<and> bit v (n - 24)"
proof -
  have m: "(0xFF :: u32) = mask 8" "(0xFF00 :: u32) = push_bit 8 (mask 8)"
    by (simp_all add: mask_eq_decr_exp push_bit_eq_mult)
  have b: "\<not> bit v k" if "32 \<le> k" for k using bit_imp_le_length[of v k] that by auto
  consider "n < 8" | "8 \<le> n" "n < 16" | "16 \<le> n" "n < 24" | "24 \<le> n" "n < 32" | "32 \<le> n" by linarith
  then show ?thesis unfolding htonl_def m by cases (simp_all add: bit_simps b, auto simp: add.commute)
qed

lemma ntohl_htonl [simp]: "ntohl (htonl v) = v"
proof -
  have "ntohl = htonl" by (simp add: fun_eq_iff ntohl_def htonl_def)
  show ?thesis unfolding \<open>ntohl = htonl\<close>
  proof (rule bit_word_eqI)
    fix n
    assume "n < LENGTH(32)"
    then consider "n < 8" | "8 \<le> n" "n < 16" | "16 \<le> n" "n < 24" | "24 \<le> n" "n < 32" by fastforce
    then show "bit (htonl (htonl v)) n = bit v n" by cases (simp_all add: htonl_bit, auto)
  qed
qed

text \<open>The closed form of the folding loop.\<close>

lemma fold_sum_closed:
  "unat (fold_sum s) = (if unat s = 0 then 0 else if unat s mod 65535 = 0 then 65535 else unat s mod 65535)"
proof (induction s rule: fold_sum.induct)
  case (1 s)
  show ?case
  proof (cases "drop_bit 16 s \<noteq> 0")
    case True
    then have big: "65536 \<le> unat s" by (simp only: fold_sum_guard)
    let ?n = "unat s mod 65536 + unat s div 65536"
    have "?n + 65535 * (unat s div 65536) = unat s" using div_mult_mod_eq[of "unat s" 65536] by linarith
    then have "?n mod 65535 = unat s mod 65535" by (metis mod_mult_self2)
    moreover have "0 < ?n" using big div_le_mono[of 65536 "unat s" 65536] by linarith
    moreover have "fold_sum s = fold_sum ((s AND 0xFFFF) + drop_bit 16 s)" using True by (subst fold_sum.simps) simp
    ultimately show ?thesis using 1[OF True] big unfolding fold_sum_step by auto
  next
    case False
    then have "fold_sum s = s" "unat s < 65536" using fold_sum_guard[of s] by (auto simp: fold_sum.simps)
    then show ?thesis by (cases "unat s = 65535") auto
  qed
qed

fun wsum :: "u8 list \<Rightarrow> nat" where
  "wsum (a # b # data) = unat a + 256 * unat b + wsum data"
| "wsum [a] = unat a"
| "wsum [] = 0"

lemma u8_bound: "unat (b :: u8) < 256"
  using unsigned_less[of b, where ?'a = nat] by simp

lemma wsum_bound: "wsum data \<le> 32768 * length data"
proof (induction data rule: wsum.induct)
  case (1 a b data)
  then show ?case using u8_bound[of a] u8_bound[of b] by simp
next
  case (2 a)
  then show ?case using u8_bound[of a] by simp
qed simp

lemma wsum_append: "even (length xs) \<Longrightarrow> wsum (xs @ ys) = wsum xs + wsum ys"
  by (induction xs rule: wsum.induct) auto

lemma unat_ucast_up: "LENGTH('a::len) \<le> LENGTH('b::len) \<Longrightarrow> unat (ucast (w :: 'a word) :: 'b word) = unat w"
proof -
  assume le: "LENGTH('a) \<le> LENGTH('b)"
  have "unat w < 2 ^ LENGTH('a)" by (rule unsigned_less)
  also have "\<dots> \<le> (2 :: nat) ^ LENGTH('b)" using le by (rule power_increasing) simp
  finally show ?thesis by (simp add: unsigned_ucast_eq take_bit_nat_eq_self)
qed

lemma unat_le_word2: "unat (le_word [a, b] :: u16) = unat a + 256 * unat b"
proof -
  have "le_word [a, b] = (ucast a + push_bit 8 (ucast b) :: u16)"
    by (simp, rule disjunctive_add[symmetric]) (auto simp: bit_simps dest: bit_imp_le_length)
  then show ?thesis using u8_bound[of a] u8_bound[of b]
    by (simp add: push_bit_eq_mult unat_word_ariths unat_ucast_up)
qed

lemma unat_sum_words:
  "unat acc + 32768 * length data < 4294967296 \<Longrightarrow> unat (sum_words acc data) = unat acc + wsum data"
proof (induction acc data rule: sum_words.induct)
  case (1 acc a b data)
  have u: "unat (ucast (le_word [a, b] :: u16) :: u32) = unat a + 256 * unat b"
    using unat_le_word2[of a b] u8_bound[of a] u8_bound[of b] by (simp add: unat_ucast_up del: le_word.simps)
  moreover have "unat (acc + ucast (le_word [a, b] :: u16)) = unat acc + (unat a + 256 * unat b)"
    using 1(2) u u8_bound[of a] u8_bound[of b] by (simp add: unat_word_ariths del: le_word.simps)
  ultimately show ?case using 1 u8_bound[of a] u8_bound[of b] by (simp del: le_word.simps)
next
  case (2 acc a)
  then show ?case using u8_bound[of a] by (simp add: unat_word_ariths unat_ucast_up)
qed simp

text \<open>The one's complement sum of a byte string of at most \<open>2 ^ 16\<close> bytes.\<close>

definition ones_sum :: "u8 list \<Rightarrow> nat" where
  "ones_sum data = (if wsum data = 0 then 0 else if wsum data mod 65535 = 0 then 65535 else wsum data mod 65535)"

lemma ones_sum_le: "ones_sum data \<le> 65535"
  by (simp add: ones_sum_def)

lemma unat_checksum:
  assumes "length data \<le> 65536"
  shows "unat (mkrn_net_checksum data) = 65535 - ones_sum data"
proof -
  have f: "unat (fold_sum (sum_words 0 data)) = ones_sum data"
    using assms by (simp add: fold_sum_closed unat_sum_words ones_sum_def)
  then have "unat (ucast (fold_sum (sum_words 0 data)) :: u16) = ones_sum data"
    using ones_sum_le[of data] by (simp add: unsigned_ucast_eq unsigned_take_bit_eq take_bit_nat_eq_self)
  moreover have "mkrn_net_checksum data = - 1 - ucast (fold_sum (sum_words 0 data))"
  proof -
    have "mkrn_net_checksum data = NOT (ucast (fold_sum (sum_words 0 data)))"
      unfolding mkrn_net_checksum_def by (rule bit_word_eqI) (simp add: bit_simps)
    then show ?thesis by (simp add: not_eq_complement)
  qed
  ultimately show ?thesis by (simp add: unat_sub word_n1_ge unsigned_minus_1_eq_mask mask_eq_exp_minus_1)
qed

lemma wsum_le_bytes2: "wsum (le_bytes 2 (c :: u16)) = unat c"
proof -
  have "le_word (le_bytes 2 c) = c" by simp
  moreover have "le_bytes 2 c = [ucast c, ucast (drop_bit 8 c)]" by (simp add: numeral_2_eq_2)
  ultimately show ?thesis using unat_le_word2[of "ucast c" "ucast (drop_bit 8 c)"] by (simp del: le_word.simps)
qed

lemma ones_sum_max: "ones_sum data = 65535 \<longleftrightarrow> wsum data \<noteq> 0 \<and> wsum data mod 65535 = 0"
  by (auto simp: ones_sum_def)

lemma checksum_zero:
  assumes "length data \<le> 65536"
  shows "mkrn_net_checksum data = 0 \<longleftrightarrow> wsum data \<noteq> 0 \<and> wsum data mod 65535 = 0"
  using unat_checksum[OF assms] ones_sum_le[of data] ones_sum_max[of data] by (simp add: unat_eq_0 [symmetric])

text \<open>Storing the checksum over the zeroed field makes the sum of the whole a multiple of
  \<open>2 ^ 16 - 1\<close>.\<close>

lemma checksum_insert:
  assumes "even (length xs)" "length xs + 2 + length ys \<le> 65536"
  defines "c \<equiv> mkrn_net_checksum (xs @ [0, 0] @ ys)"
  shows "wsum (xs @ le_bytes 2 c @ ys) \<noteq> 0 \<and> wsum (xs @ le_bytes 2 c @ ys) mod 65535 = 0"
proof -
  let ?z = "xs @ [0, 0] @ ys"
  have "unat c = 65535 - ones_sum ?z" using assms unat_checksum[of ?z] by simp
  moreover have "wsum (xs @ le_bytes 2 c @ ys) = wsum ?z + unat c"
    using assms(1) wsum_append[of "le_bytes 2 c" ys] by (simp add: wsum_append wsum_le_bytes2)
  moreover obtain k where "wsum ?z = ones_sum ?z + 65535 * k"
  proof (cases "wsum ?z = 0 \<or> wsum ?z mod 65535 \<noteq> 0")
    case True
    then show thesis using that[of "wsum ?z div 65535"] by (auto simp: ones_sum_def)
  next
    case False
    then have "wsum ?z = 65535 * (wsum ?z div 65535)" "0 < wsum ?z div 65535" by auto
    then show thesis using that[of "wsum ?z div 65535 - 1"] False by (auto simp: ones_sum_def diff_mult_distrib2)
  qed
  ultimately have "wsum (xs @ le_bytes 2 c @ ys) = 65535 * Suc k" using ones_sum_le[of ?z] by simp
  then show ?thesis by simp
qed

text \<open>Changing one byte changes the sum by at most 65280 and at least 1.\<close>

lemma wsum_update:
  "i < length xs \<Longrightarrow> int (wsum (xs[i := b])) - int (wsum xs) = (int (unat b) - int (unat (xs ! i))) * (if even i then 1 else 256)"
proof (induction xs arbitrary: i rule: wsum.induct)
  case (1 a c data)
  consider "i = 0" | "i = 1" | j where "i = Suc (Suc j)" by (metis One_nat_def not0_implies_Suc)
  then show ?case using 1 by cases (auto simp: algebra_simps)
qed auto

lemma wsum_change:
  assumes "i < length xs" "b \<noteq> xs ! i"
  shows "\<not> (wsum (xs[i := b]) mod 65535 = 0 \<and> wsum xs mod 65535 = 0)"
proof
  assume "wsum (xs[i := b]) mod 65535 = 0 \<and> wsum xs mod 65535 = 0"
  then have "65535 dvd int (wsum (xs[i := b]))" "65535 dvd int (wsum xs)"
    using int_dvd_int_iff[of 65535] by (auto simp: mod_eq_0_iff_dvd)
  then have d: "65535 dvd (int (unat b) - int (unat (xs ! i))) * (if even i then 1 else 256)"
    using wsum_update[OF assms(1), of b] by (metis dvd_diff)
  define x y where "x = int (unat b)" and "y = int (unat (xs ! i))"
  have "unat b \<noteq> unat (xs ! i)" using assms(2) unsigned_word_eqI by blast
  then have xy: "\<bar>x - y\<bar> < 256" "x - y \<noteq> 0"
    using u8_bound[of b] u8_bound[of "xs ! i"] unfolding x_def y_def by linarith+
  then have "0 < \<bar>(x - y) * (if even i then 1 else 256)\<bar>" "\<bar>(x - y) * (if even i then 1 else 256)\<bar> < 65535"
    by (auto simp: abs_mult)
  moreover have "65535 dvd \<bar>(x - y) * (if even i then 1 else 256)\<bar>" using d unfolding x_def y_def by simp
  ultimately show False using zdvd_not_zless by blast
qed

text \<open>Reading back the text of an octet.\<close>

abbreviation is_digit :: "u8 \<Rightarrow> bool" where
  "is_digit c \<equiv> 48 \<le> c \<and> c \<le> 57"

lemma parse_octet_digits:
  "list_all is_digit ds \<Longrightarrow> digits + length ds \<le> 3 \<Longrightarrow> (rest = [] \<or> \<not> is_digit (hd rest)) \<Longrightarrow>
   parse_octet (ds @ rest) v digits = Some (foldl (\<lambda>v c. v * 10 + (unat c - 48)) v ds, digits + length ds, rest)"
proof (induction ds arbitrary: v digits)
  case Nil
  then show ?case by (cases rest) auto
qed auto

lemma digit_of_nat: "d < 10 \<Longrightarrow> is_digit (of_nat (48 + d)) \<and> unat (of_nat (48 + d) :: u8) = 48 + d"
  by (simp add: word_le_nat_alt unat_of_nat del: of_nat_add)

lemma octet_text_digits:
  assumes "v < 256"
  shows "list_all is_digit (octet_text v)" "length (octet_text v) \<le> 3" "octet_text v \<noteq> []"
    "foldl (\<lambda>v c. v * 10 + (unat c - 48)) 0 (octet_text v) = v"
proof -
  have "v div 100 < 10" "v mod 100 div 10 < 10" "v mod 100 mod 10 < 10" "v < 100 \<Longrightarrow> v div 10 < 10" "v mod 10 < 10"
    using assms by auto
  note D = this[THEN digit_of_nat]
  show "list_all is_digit (octet_text v)"
    using D unfolding octet_text_def Let_def by (auto simp del: of_nat_add)
  show "length (octet_text v) \<le> 3" "octet_text v \<noteq> []" by (simp_all add: octet_text_def Let_def)
  have "v div 100 * 100 + (v mod 100 div 10 * 10 + v mod 100 mod 10) = v" "v div 10 * 10 + v mod 10 = v"
    by presburger+
  then show "foldl (\<lambda>v c. v * 10 + (unat c - 48)) 0 (octet_text v) = v"
    using D unfolding octet_text_def Let_def by (auto simp del: of_nat_add)
qed

lemma parse_octet_text:
  "v < 256 \<Longrightarrow> rest = [] \<or> \<not> is_digit (hd rest) \<Longrightarrow>
   parse_octet (octet_text v @ rest) 0 0 = Some (v, length (octet_text v), rest)"
  using octet_text_digits[of v] parse_octet_digits[of "octet_text v" 0 rest 0] by simp

lemma parse_parts_dot:
  assumes "parts + 1 < 4" "v < 256"
  shows "parse_parts parts (octet_text v @ 46 # rest) ip = parse_parts (Suc parts) rest (push_bit 8 ip OR of_nat v)"
  using parse_octet_text[of v "46 # rest"] assms octet_text_digits(3)[of v]
  by (subst parse_parts.simps) (simp add: Let_def)

lemma parse_parts_last:
  assumes "v < 256"
  shows "parse_parts (Suc (Suc (Suc 0))) (octet_text v) ip = push_bit 8 ip OR of_nat v"
  using parse_octet_text[of v "[]"] assms octet_text_digits(3)[of v]
  by (subst parse_parts.simps) (simp add: Let_def parse_parts.simps[of "Suc (Suc (Suc (Suc 0)))"])


section \<open>Properties\<close>

text \<open>The checksum stored in a packet verifies: a receiver that sums the
  whole packet gets the value that stands for ``intact''. A packet in which one
  byte was changed is always detected.\<close>

theorem checksum_correct:
  assumes "even (length xs)" "length xs + 2 + length ys \<le> 65536"
    and "packet = xs @ le_bytes 2 (mkrn_net_checksum (xs @ [0, 0] @ ys)) @ ys"
  shows "mkrn_net_checksum packet = 0 \<and>
    (\<forall>i b. i < length packet \<longrightarrow> b \<noteq> packet ! i \<longrightarrow> mkrn_net_checksum (packet[i := b]) \<noteq> 0)"
proof -
  have l: "length packet \<le> 65536" using assms by simp
  have w: "wsum packet \<noteq> 0" "wsum packet mod 65535 = 0" using checksum_insert[OF assms(1,2)] assms(3) by auto
  have "mkrn_net_checksum (packet[i := b]) \<noteq> 0" if i: "i < length packet" and b: "b \<noteq> packet ! i" for i b
  proof
    assume "mkrn_net_checksum (packet[i := b]) = 0"
    then have "wsum (packet[i := b]) mod 65535 = 0" using l by (simp add: checksum_zero)
    then show False using wsum_change[OF i b] w(2) by simp
  qed
  then show ?thesis using w l by (simp add: checksum_zero)
qed

theorem checksum_correct_witness:
  "mkrn_net_checksum ([0x45, 0] @ le_bytes 2 (mkrn_net_checksum ([0x45, 0] @ [0, 0] @ [10, 1])) @ [10, 1]) = 0"
  using checksum_correct[of "[0x45, 0]" "[10, 1]"
    "[0x45, 0] @ le_bytes 2 (mkrn_net_checksum ([0x45, 0] @ [0, 0] @ [10, 1])) @ [10, 1]"] by simp

text \<open>Every address is read back from its dotted text.\<close>

theorem ip_text_roundtrip: "mkrn_net_string_to_ip (mkrn_net_ip_to_string ip) = ip"
proof -
  let ?o = "\<lambda>i. unat (ucast (drop_bit (8 * i) ip) :: u8)"
  have "mkrn_net_ip_to_string ip = octet_text (?o 3) @ 46 # octet_text (?o 2) @ 46 # octet_text (?o 1) @ 46 # octet_text (?o 0)"
    unfolding mkrn_net_ip_to_string_def Let_def by simp
  then have "mkrn_net_string_to_ip (mkrn_net_ip_to_string ip) =
    push_bit 8 (push_bit 8 (push_bit 8 (push_bit 8 0 OR of_nat (?o 3)) OR of_nat (?o 2)) OR of_nat (?o 1)) OR of_nat (?o 0)"
    unfolding mkrn_net_string_to_ip_def
    by (simp add: parse_parts_dot u8_bound parse_parts_last numeral_2_eq_2 numeral_3_eq_3)
  also have "\<dots> = ip"
  proof (rule bit_word_eqI)
    fix n
    assume "n < LENGTH(32)"
    then consider "n < 8" | "8 \<le> n" "n < 16" | "16 \<le> n" "n < 24" | "24 \<le> n" "n < 32" by fastforce
    then show "bit (push_bit 8 (push_bit 8 (push_bit 8 (push_bit 8 0 OR of_nat (?o 3)) OR of_nat (?o 2)) OR of_nat (?o 1)) OR of_nat (?o 0) :: u32) n = bit ip n"
      by cases (auto simp: bit_simps)
  qed
  finally show ?thesis .
qed

end
