(* ===== verification/Net.thy ===== *)
theory Net
  imports NetBase
begin

text \<open>
  The network stack of \<^verbatim>\<open>src/sys/src/net\<close>: the device registry, Ethernet, IP and ICMP
  output of \<^verbatim>\<open>net.c\<close> and the whole of \<^verbatim>\<open>arp.c\<close>. The static variables of the translation
  units are one record. Devices are named by their addresses (0 is \<^verbatim>\<open>NULL\<close>); the
  transmit function of a device is a parameter that acts on the state of the
  hardware. The buffers the sources fill from their first to their last byte before
  use are plain lists.
\<close>

section \<open>State\<close>

definition NET_MAX_DEVS :: nat where "NET_MAX_DEVS = 4"
definition ARP_CACHE_SIZE :: nat where "ARP_CACHE_SIZE = 16"
definition TCP_MAX_CONNS :: nat where "TCP_MAX_CONNS = 4"
definition TCP_RX_BUF :: nat where "TCP_RX_BUF = 4096"
definition M4K_ETH_TYPE_IP :: u16 where "M4K_ETH_TYPE_IP = 0x0800"
definition M4K_ETH_TYPE_ARP :: u16 where "M4K_ETH_TYPE_ARP = 0x0806"
definition M4K_IP_PROTOCOL_ICMP :: u8 where "M4K_IP_PROTOCOL_ICMP = 1"
definition M4K_IP_PROTOCOL_TCP :: u8 where "M4K_IP_PROTOCOL_TCP = 6"
definition M4K_IP_PROTOCOL_UDP :: u8 where "M4K_IP_PROTOCOL_UDP = 17"
definition ARP_HTYPE_ETH :: u16 where "ARP_HTYPE_ETH = 1"
definition ARP_OP_REQUEST :: u16 where "ARP_OP_REQUEST = 1"
definition ARP_OP_REPLY :: u16 where "ARP_OP_REPLY = 2"

lemmas net_consts = NET_MAX_DEVS_def ARP_CACHE_SIZE_def TCP_MAX_CONNS_def TCP_RX_BUF_def M4K_ETH_TYPE_IP_def
  M4K_ETH_TYPE_ARP_def M4K_IP_PROTOCOL_ICMP_def M4K_IP_PROTOCOL_TCP_def M4K_IP_PROTOCOL_UDP_def ARP_HTYPE_ETH_def
  ARP_OP_REQUEST_def ARP_OP_REPLY_def

record mkrn_net_device =
  dv_name :: string
  dv_mac_addr :: "u8 list"
  dv_up :: bool

record arp_entry =
  ae_ip :: u32
  ae_mac :: "u8 list"
  ae_valid :: bool

datatype tcp_state = TS_CLOSED | TS_SYN_SENT | TS_ESTABLISHED | TS_FIN_WAIT | TS_CLOSE_WAIT

record tcp_conn =
  tc_used :: bool
  tc_state :: tcp_state
  tc_remote_ip :: u32
  tc_local_port :: u16
  tc_remote_port :: u16
  tc_snd_nxt :: u32
  tc_rcv_nxt :: u32
  tc_rbuf :: "u8 list"
  tc_rlen :: u16

record 'd net =
  net_devs :: "nat list"
  dev_tab :: "nat \<Rightarrow> mkrn_net_device"
  net_default_dev :: nat
  net_local_ip :: u32
  net_netmask :: u32
  net_gateway :: u32
  net_ip_id :: u16
  arp_cache :: "arp_entry list"
  arp_cache_count :: nat
  tcp_conns :: "tcp_conn list"
  tcp_next_port :: u16
  ping_got_reply :: bool
  ping_from_ip :: u32
  hw :: 'd

type_synonym 'd transmit = "nat \<Rightarrow> u8 list \<Rightarrow> 'd \<Rightarrow> int \<times> 'd"

definition mkrn_net_set_ip :: "u32 \<Rightarrow> u32 \<Rightarrow> u32 \<Rightarrow> 'd net \<Rightarrow> 'd net" where
  "mkrn_net_set_ip ip msk gw s = s\<lparr>net_local_ip := ip, net_netmask := msk, net_gateway := gw\<rparr>"


section \<open>Devices and Ethernet\<close>

definition mkrn_net_device_register :: "nat \<Rightarrow> 'd net \<Rightarrow> int \<times> 'd net" where
  "mkrn_net_device_register dev s =
     (if dev = 0 \<or> length (net_devs s) \<ge> NET_MAX_DEVS then (-1, s)
      else let s1 = s\<lparr>net_devs := net_devs s @ [dev]\<rparr>
           in (0, if net_default_dev s1 = 0 then s1\<lparr>net_default_dev := dev\<rparr> else s1))"

fun same_name :: "string \<Rightarrow> string \<Rightarrow> bool" where
  "same_name (a # as) (b # bs) = (a = b \<and> same_name as bs)"
| "same_name [] [] = True"
| "same_name _ _ = False"

fun find_dev :: "(nat \<Rightarrow> mkrn_net_device) \<Rightarrow> string \<Rightarrow> nat list \<Rightarrow> nat" where
  "find_dev tab name [] = 0"
| "find_dev tab name (d # ds) = (if same_name name (dv_name (tab d)) then d else find_dev tab name ds)"

definition mkrn_net_device_find :: "string \<Rightarrow> 'd net \<Rightarrow> nat" where
  "mkrn_net_device_find name s = find_dev (dev_tab s) name (net_devs s)"

definition mkrn_net_send_ethernet :: "'d transmit \<Rightarrow> u8 list \<Rightarrow> u16 \<Rightarrow> u8 list \<Rightarrow> 'd net \<Rightarrow> int \<times> 'd net" where
  "mkrn_net_send_ethernet tx dst_mac type data s =
     (let dev = net_default_dev s in
      if dev = 0 \<or> \<not> dv_up (dev_tab s dev) \<or> length data > 1500 - 14 then (-1, s)
      else let (r, h) = tx dev (dst_mac @ dv_mac_addr (dev_tab s dev) @ le_bytes 2 (htons type) @ data) (hw s)
           in (r, s\<lparr>hw := h\<rparr>))"


section \<open>ARP\<close>

definition mkrn_arp_init :: "'d net \<Rightarrow> 'd net" where
  "mkrn_arp_init s = s\<lparr>arp_cache := map (ae_valid_update (\<lambda>_. False)) (arp_cache s), arp_cache_count := 0\<rparr>"

fun arp_find :: "u32 \<Rightarrow> nat \<Rightarrow> arp_entry list \<Rightarrow> nat option" where
  "arp_find ip i [] = None"
| "arp_find ip i (e # es) = (if ae_valid e \<and> ae_ip e = ip then Some i else arp_find ip (i + 1) es)"

definition arp_cache_update :: "u32 \<Rightarrow> u8 list \<Rightarrow> 'd net \<Rightarrow> 'd net" where
  "arp_cache_update ip mac s =
     (case arp_find ip 0 (arp_cache s) of
        Some i \<Rightarrow> s\<lparr>arp_cache := (arp_cache s)[i := (arp_cache s ! i)\<lparr>ae_mac := mac\<rparr>]\<rparr>
      | None \<Rightarrow>
          let full = (arp_cache_count s \<ge> ARP_CACHE_SIZE);
              slot = (if full then 0 else arp_cache_count s);
              s1 = (if full then s else s\<lparr>arp_cache_count := arp_cache_count s + 1\<rparr>)
          in s1\<lparr>arp_cache := (arp_cache s1)[slot := \<lparr>ae_ip = ip, ae_mac = mac, ae_valid = True\<rparr>]\<rparr>)"

definition mkrn_arp_resolve :: "u32 \<Rightarrow> 'd net \<Rightarrow> u8 list option" where
  "mkrn_arp_resolve ip s = map_option (\<lambda>i. ae_mac (arp_cache s ! i)) (arp_find ip 0 (arp_cache s))"

definition arp_packet :: "u16 \<Rightarrow> u8 list \<Rightarrow> u32 \<Rightarrow> u8 list \<Rightarrow> u32 \<Rightarrow> u8 list" where
  "arp_packet op smac sip tmac tip =
     le_bytes 2 (htons ARP_HTYPE_ETH) @ le_bytes 2 (htons M4K_ETH_TYPE_IP) @ [6, 4] @ le_bytes 2 (htons op) @
     smac @ le_bytes 4 (htonl sip) @ tmac @ le_bytes 4 (htonl tip)"

definition mkrn_arp_send_request :: "'d transmit \<Rightarrow> u32 \<Rightarrow> 'd net \<Rightarrow> int \<times> 'd net" where
  "mkrn_arp_send_request tx target_ip s =
     (let dev = mkrn_net_device_find ''eth0'' s in
      if dev = 0 \<or> \<not> dv_up (dev_tab s dev) then (-1, s)
      else mkrn_net_send_ethernet tx (replicate 6 0xFF) M4K_ETH_TYPE_ARP
             (arp_packet ARP_OP_REQUEST (dv_mac_addr (dev_tab s dev)) (net_local_ip s) (replicate 6 0) target_ip) s)"

definition arp_send_reply :: "'d transmit \<Rightarrow> u32 \<Rightarrow> u8 list \<Rightarrow> 'd net \<Rightarrow> int \<times> 'd net" where
  "arp_send_reply tx dst_ip dst_mac s =
     (let dev = mkrn_net_device_find ''eth0'' s in
      if dev = 0 \<or> \<not> dv_up (dev_tab s dev) then (-1, s)
      else mkrn_net_send_ethernet tx dst_mac M4K_ETH_TYPE_ARP
             (arp_packet ARP_OP_REPLY (dv_mac_addr (dev_tab s dev)) (net_local_ip s) dst_mac dst_ip) s)"

definition mkrn_arp_handle_packet :: "'d transmit \<Rightarrow> buf \<Rightarrow> nat \<Rightarrow> 'd net \<Rightarrow> 'd net" where
  "mkrn_arp_handle_packet tx packet len s =
     (if len < 28 then s
      else if ntohs (get16 packet 0) \<noteq> ARP_HTYPE_ETH then s
      else if ntohs (get16 packet 2) \<noteq> M4K_ETH_TYPE_IP then s
      else if packet 4 \<noteq> 6 \<or> packet 5 \<noteq> 4 then s
      else
        let sender_mac = bytes packet 8 6;
            sender_ip = ntohl (get32 packet 14);
            s1 = arp_cache_update sender_ip sender_mac s;
            op = ntohs (get16 packet 6)
        in if op = ARP_OP_REQUEST \<and> ntohl (get32 packet 24) = net_local_ip s1
           then snd (arp_send_reply tx sender_ip sender_mac s1) else s1)"


section \<open>IP output\<close>

definition net_send_ip_eth :: "'d transmit \<Rightarrow> u32 \<Rightarrow> u8 list \<Rightarrow> 'd net \<Rightarrow> int \<times> 'd net" where
  "net_send_ip_eth tx dst_ip pkt s =
     (let dev = net_default_dev s in
      if dev = 0 \<or> \<not> dv_up (dev_tab s dev) then (-1, s)
      else
        let next_hop = (if dst_ip AND net_netmask s = net_local_ip s AND net_netmask s then dst_ip else net_gateway s)
        in case mkrn_arp_resolve next_hop s of
             None \<Rightarrow> (-1, snd (mkrn_arp_send_request tx next_hop s))
           | Some dst_mac \<Rightarrow> mkrn_net_send_ethernet tx dst_mac M4K_ETH_TYPE_IP pkt s)"

definition ip_head :: "nat \<Rightarrow> u16 \<Rightarrow> u8 \<Rightarrow> u8 list" where
  "ip_head len id' protocol =
     [0x45, 0] @ le_bytes 2 (htons (of_nat len + 20)) @ le_bytes 2 (htons id') @ [0, 0] @ [64, protocol]"

definition ip_addrs :: "u32 \<Rightarrow> u32 \<Rightarrow> u8 list" where
  "ip_addrs src dst = le_bytes 4 (htonl src) @ le_bytes 4 (htonl dst)"

definition mkrn_net_send_packet :: "'d transmit \<Rightarrow> u32 \<Rightarrow> u8 \<Rightarrow> u8 list \<Rightarrow> 'd net \<Rightarrow> int \<times> 'd net" where
  "mkrn_net_send_packet tx dst_ip protocol data s =
     (if length data > 1500 - 20 then (-1, s)
      else
        let h = ip_head (length data) (net_ip_id s) protocol;
            a = ip_addrs (net_local_ip s) dst_ip;
            s1 = s\<lparr>net_ip_id := net_ip_id s + 1\<rparr>;
            checksum = mkrn_net_checksum (h @ [0, 0] @ a)
        in net_send_ip_eth tx dst_ip (h @ le_bytes 2 checksum @ a @ data) s1)"


section \<open>ICMP and UDP\<close>

definition icmp_echo :: "u8 \<Rightarrow> u8 list \<Rightarrow> u8 list" where
  "icmp_echo type rest = [type, 0] @ le_bytes 2 (mkrn_net_checksum ([type, 0] @ [0, 0] @ rest)) @ rest"

definition mkrn_icmp_send_echo_request :: "'d transmit \<Rightarrow> u32 \<Rightarrow> u16 \<Rightarrow> u16 \<Rightarrow> 'd net \<Rightarrow> int \<times> 'd net" where
  "mkrn_icmp_send_echo_request tx dst_ip id' seq s =
     mkrn_net_send_packet tx dst_ip M4K_IP_PROTOCOL_ICMP
       (icmp_echo 8 (le_bytes 4 (push_bit 16 (ucast id' :: u32) OR ucast seq))) s"

definition mkrn_ping_on_reply :: "u32 \<Rightarrow> 'd net \<Rightarrow> 'd net" where
  "mkrn_ping_on_reply src_ip s = s\<lparr>ping_from_ip := src_ip, ping_got_reply := True\<rparr>"

definition mkrn_icmp_handle_packet :: "'d transmit \<Rightarrow> buf \<Rightarrow> nat \<Rightarrow> u32 \<Rightarrow> 'd net \<Rightarrow> 'd net" where
  "mkrn_icmp_handle_packet tx packet len src_ip s =
     (if len < 8 then s
      else if packet 0 = 8 \<and> packet 1 = 0
      then let rlen = (if len > 64 then 64 else len)
           in snd (mkrn_net_send_packet tx src_ip M4K_IP_PROTOCOL_ICMP (icmp_echo 0 (bytes packet 4 (rlen - 4))) s)
      else if packet 0 = 0 then mkrn_ping_on_reply src_ip s
      else s)"

definition mkrn_udp_handle_packet :: "buf \<Rightarrow> nat \<Rightarrow> u32 \<Rightarrow> u32 \<Rightarrow> 'd net \<Rightarrow> 'd net" where
  "mkrn_udp_handle_packet packet len src_ip dst_ip s = s"

end
