(* ===== verification/Tcp.thy ===== *)
theory Tcp
  imports Net
begin

text \<open>
  The TCP client of \<^verbatim>\<open>src/sys/src/net/tcp.c\<close>: connection table, segment output with the
  pseudo-header checksum, the API and the input handler.
\<close>

section \<open>Segments\<close>

definition TCP_FIN :: u8 where "TCP_FIN = 0x01"
definition TCP_SYN :: u8 where "TCP_SYN = 0x02"
definition TCP_RST :: u8 where "TCP_RST = 0x04"
definition TCP_PSH :: u8 where "TCP_PSH = 0x08"
definition TCP_ACK :: u8 where "TCP_ACK = 0x10"

lemmas tcp_flags = TCP_FIN_def TCP_SYN_def TCP_RST_def TCP_PSH_def TCP_ACK_def

definition mkrn_tcp_init :: "'d net \<Rightarrow> 'd net" where
  "mkrn_tcp_init s = s\<lparr>tcp_conns := map (tc_used_update (\<lambda>_. False)) (tcp_conns s), tcp_next_port := 1024\<rparr>"

definition tcp_checksum :: "u32 \<Rightarrow> u32 \<Rightarrow> u8 list \<Rightarrow> u16" where
  "tcp_checksum src dst payload =
     (let len = of_nat (length payload) :: u32;
          acc = sum_words 0 payload + (drop_bit 16 src AND 0xFFFF) + (src AND 0xFFFF)
                + (drop_bit 16 dst AND 0xFFFF) + (dst AND 0xFFFF) + push_bit 8 6 + push_bit 8 len
      in ucast (NOT (fold_sum acc)))"

definition tcp_head :: "tcp_conn \<Rightarrow> u8 \<Rightarrow> u8 list" where
  "tcp_head c flags =
     le_bytes 2 (htons (tc_local_port c)) @ le_bytes 2 (htons (tc_remote_port c)) @
     le_bytes 4 (htonl (tc_snd_nxt c)) @ le_bytes 4 (htonl (tc_rcv_nxt c)) @ [push_bit 4 5, flags] @
     le_bytes 2 (htons (of_nat TCP_RX_BUF))"

definition tcp_segment :: "u32 \<Rightarrow> tcp_conn \<Rightarrow> u8 \<Rightarrow> u8 list \<Rightarrow> u8 list" where
  "tcp_segment ip c flags data =
     tcp_head c flags @
     le_bytes 2 (tcp_checksum (htonl ip) (htonl (tc_remote_ip c)) (tcp_head c flags @ [0, 0] @ [0, 0] @ data)) @
     [0, 0] @ data"

definition advance :: "u8 \<Rightarrow> nat \<Rightarrow> tcp_conn \<Rightarrow> tcp_conn" where
  "advance flags len c =
     (let c1 = (if flags AND TCP_SYN \<noteq> 0 then c\<lparr>tc_snd_nxt := tc_snd_nxt c + 1\<rparr> else c);
          c2 = c1\<lparr>tc_snd_nxt := tc_snd_nxt c1 + of_nat len\<rparr>
      in if flags AND TCP_FIN \<noteq> 0 then c2\<lparr>tc_snd_nxt := tc_snd_nxt c2 + 1\<rparr> else c2)"

abbreviation conn :: "'d net \<Rightarrow> nat \<Rightarrow> tcp_conn" where
  "conn s i \<equiv> tcp_conns s ! i"

abbreviation upd_conn :: "nat \<Rightarrow> (tcp_conn \<Rightarrow> tcp_conn) \<Rightarrow> 'd net \<Rightarrow> 'd net" where
  "upd_conn i f s \<equiv> s\<lparr>tcp_conns := (tcp_conns s)[i := f (tcp_conns s ! i)]\<rparr>"

definition tcp_emit :: "'d transmit \<Rightarrow> nat \<Rightarrow> u8 \<Rightarrow> u8 list \<Rightarrow> 'd net \<Rightarrow> int \<times> 'd net" where
  "tcp_emit tx i flags data s =
     (if (20 + of_nat (length data) :: u16) > of_nat (TCP_RX_BUF + 64) then (-1, s)
      else let pkt = tcp_segment (net_local_ip s) (conn s i) flags data;
               s1 = upd_conn i (advance flags (length data)) s
           in mkrn_net_send_packet tx (tc_remote_ip (conn s i)) M4K_IP_PROTOCOL_TCP pkt s1)"


section \<open>The client interface\<close>

fun free_conn :: "nat \<Rightarrow> tcp_conn list \<Rightarrow> nat option" where
  "free_conn i [] = None"
| "free_conn i (c # cs) = (if \<not> tc_used c then Some i else free_conn (i + 1) cs)"

definition mkrn_tcp_connect :: "'d transmit \<Rightarrow> u32 \<Rightarrow> u16 \<Rightarrow> 'd net \<Rightarrow> int \<times> 'd net" where
  "mkrn_tcp_connect tx remote_ip remote_port s =
     (case free_conn 0 (tcp_conns s) of
        None \<Rightarrow> (-1, s)
      | Some i \<Rightarrow>
          let s1 = upd_conn i (\<lambda>c. c\<lparr>tc_used := True, tc_state := TS_SYN_SENT, tc_remote_ip := remote_ip,
                                     tc_remote_port := remote_port, tc_local_port := tcp_next_port s,
                                     tc_snd_nxt := 0x1000, tc_rcv_nxt := 0, tc_rlen := 0\<rparr>)
                     (s\<lparr>tcp_next_port := tcp_next_port s + 1\<rparr>);
              (r, s2) = tcp_emit tx i TCP_SYN [] s1
          in if r < 0 then (-1, upd_conn i (tc_used_update (\<lambda>_. False)) s2) else (int i, s2))"

abbreviation bad_id :: "int \<Rightarrow> bool" where
  "bad_id id' \<equiv> id' < 0 \<or> id' \<ge> int TCP_MAX_CONNS"

function send_loop :: "'d transmit \<Rightarrow> nat \<Rightarrow> u8 list \<Rightarrow> 'd net \<Rightarrow> bool \<times> 'd net" where
  "send_loop tx i data s =
     (if data = [] then (True, s)
      else let chunk = (if length data > 1000 then 1000 else length data);
               (r, s1) = tcp_emit tx i (TCP_ACK OR TCP_PSH) (take chunk data) s
           in if r < 0 then (False, s1) else send_loop tx i (drop chunk data) s1)"
  by pat_completeness auto
termination
  by (relation "measure (\<lambda>(tx, i, data, s). length data)") (auto split: if_splits)

definition mkrn_tcp_send :: "'d transmit \<Rightarrow> int \<Rightarrow> u8 list \<Rightarrow> 'd net \<Rightarrow> int \<times> 'd net" where
  "mkrn_tcp_send tx id' data s =
     (if bad_id id' then (-1, s)
      else let c = conn s (nat id') in
        if \<not> tc_used c \<or> tc_state c \<noteq> TS_ESTABLISHED then (-1, s)
        else case send_loop tx (nat id') data s of
               (True, s1) \<Rightarrow> (int (length data), s1)
             | (False, s1) \<Rightarrow> (-1, s1))"

text \<open>The loop that moves the rest of the buffer down, in place.\<close>

fun move_down :: "nat \<Rightarrow> nat \<Rightarrow> nat \<Rightarrow> u8 list \<Rightarrow> u8 list" where
  "move_down n i 0 xs = xs"
| "move_down n i (Suc k) xs = move_down n (i + 1) k (xs[i - n := xs ! i])"

text \<open>The requested length is signed and not checked; a negative one ends up in
  the fill level. None is an access outside the receive buffer.\<close>

definition mkrn_tcp_recv :: "int \<Rightarrow> int \<Rightarrow> 'd net \<Rightarrow> ((int \<times> u8 list) \<times> 'd net) option" where
  "mkrn_tcp_recv id' maxlen s =
     (if bad_id id' then Some ((-1, []), s)
      else let c = conn s (nat id') in
        if \<not> tc_used c then Some ((-1, []), s)
        else if tc_rlen c = 0 then Some ((0, []), s)
        else
          let rlen = uint (tc_rlen c);
              n = (if rlen > maxlen then maxlen else rlen);
              i = unat (of_int n :: u16)
          in if n > int TCP_RX_BUF then None
             else if rlen > n \<and> i < nat rlen \<and> (n < 0 \<or> rlen > int TCP_RX_BUF) then None
             else let buf' = (if rlen > n then move_down (nat n) i (nat rlen - i) (tc_rbuf c) else tc_rbuf c)
                  in Some ((n, take (nat n) (tc_rbuf c)),
                       upd_conn (nat id') (\<lambda>c. c\<lparr>tc_rbuf := buf', tc_rlen := tc_rlen c - of_int n\<rparr>) s))"

definition tcp_state_code :: "tcp_state \<Rightarrow> int" where
  "tcp_state_code st =
     (case st of TS_CLOSED \<Rightarrow> 0 | TS_SYN_SENT \<Rightarrow> 1 | TS_ESTABLISHED \<Rightarrow> 2 | TS_FIN_WAIT \<Rightarrow> 3 | TS_CLOSE_WAIT \<Rightarrow> 4)"

definition mkrn_tcp_state :: "int \<Rightarrow> 'd net \<Rightarrow> int" where
  "mkrn_tcp_state id' s =
     (if bad_id id' \<or> \<not> tc_used (conn s (nat id')) then -1 else tcp_state_code (tc_state (conn s (nat id'))))"

definition mkrn_tcp_close :: "'d transmit \<Rightarrow> int \<Rightarrow> 'd net \<Rightarrow> int \<times> 'd net" where
  "mkrn_tcp_close tx id' s =
     (if bad_id id' \<or> \<not> tc_used (conn s (nat id')) then (-1, s)
      else if tc_state (conn s (nat id')) = TS_ESTABLISHED
      then (0, upd_conn (nat id') (tc_state_update (\<lambda>_. TS_FIN_WAIT)) (snd (tcp_emit tx (nat id') (TCP_FIN OR TCP_ACK) [] s)))
      else (0, upd_conn (nat id') (tc_used_update (\<lambda>_. False)) s))"


section \<open>Input\<close>

definition accept_data :: "'d transmit \<Rightarrow> nat \<Rightarrow> buf \<Rightarrow> nat \<Rightarrow> nat \<Rightarrow> 'd net \<Rightarrow> 'd net" where
  "accept_data tx i packet hdrlen dlen s =
     (if dlen > 0
      then let c = conn s i; seq = ntohl (get32 packet 4) in
        if seq = tc_rcv_nxt c
        then let space = unat (of_nat TCP_RX_BUF - tc_rlen c);
                 n = (if dlen > space then space else dlen);
                 s1 = upd_conn i (\<lambda>c. c\<lparr>tc_rbuf := array_copy (tc_rbuf c) (unat (tc_rlen c)) (bytes packet hdrlen n) 0 n,
                                         tc_rlen := tc_rlen c + of_nat n, tc_rcv_nxt := seq + of_nat n\<rparr>) s
             in snd (tcp_emit tx i TCP_ACK [] s1)
        else snd (tcp_emit tx i TCP_ACK [] s)
      else s)"

definition accept_fin :: "'d transmit \<Rightarrow> nat \<Rightarrow> u8 \<Rightarrow> 'd net \<Rightarrow> 'd net" where
  "accept_fin tx i flags s =
     (if flags AND TCP_FIN \<noteq> 0
      then let s1 = upd_conn i (\<lambda>c. c\<lparr>tc_rcv_nxt := tc_rcv_nxt c + 1\<rparr>) s;
               s2 = snd (tcp_emit tx i TCP_ACK [] s1)
           in if tc_state (conn s2 i) = TS_ESTABLISHED then upd_conn i (tc_state_update (\<lambda>_. TS_CLOSE_WAIT)) s2 else s2
      else s)"

function handle_conns :: "'d transmit \<Rightarrow> buf \<Rightarrow> nat \<Rightarrow> nat \<Rightarrow> u32 \<Rightarrow> nat \<Rightarrow> 'd net \<Rightarrow> 'd net" where
  "handle_conns tx packet len hdrlen src_ip i s =
     (if i < TCP_MAX_CONNS
      then
        let c = conn s i;
            next = handle_conns tx packet len hdrlen src_ip (i + 1);
            src_port = ntohs (get16 packet 0);
            flags = packet 13
        in
        if \<not> tc_used c \<or> tc_remote_ip c \<noteq> src_ip then next s
        else if ntohs (get16 packet 2) \<noteq> tc_local_port c then next s
        else if tc_state c \<noteq> TS_SYN_SENT \<and> src_port \<noteq> tc_remote_port c then next s
        else
          let s1 = (if tc_state c = TS_SYN_SENT \<and> src_port \<noteq> tc_remote_port c
                    then upd_conn i (\<lambda>c. c\<lparr>tc_remote_port := src_port\<rparr>) s else s)
          in if tc_state c = TS_SYN_SENT \<and> flags AND TCP_SYN \<noteq> 0 \<and> flags AND TCP_ACK \<noteq> 0
             then let s2 = upd_conn i (\<lambda>c. c\<lparr>tc_rcv_nxt := ntohl (get32 packet 4) + 1\<rparr>) s1;
                      s3 = snd (tcp_emit tx i TCP_ACK [] s2)
                  in upd_conn i (tc_state_update (\<lambda>_. TS_ESTABLISHED)) s3
             else if flags AND TCP_RST \<noteq> 0
             then upd_conn i (\<lambda>c. c\<lparr>tc_state := TS_CLOSED, tc_used := False\<rparr>) s1
             else if tc_state c \<in> {TS_ESTABLISHED, TS_FIN_WAIT, TS_CLOSE_WAIT}
             then accept_fin tx i flags (accept_data tx i packet hdrlen (len - hdrlen) s1)
             else next s1
      else s)"
  by pat_completeness auto
termination
  by (relation "measure (\<lambda>(tx, packet, len, hdrlen, src_ip, i, s). TCP_MAX_CONNS - i)") auto

declare handle_conns.simps [simp del] send_loop.simps [simp del]

definition mkrn_tcp_handle_packet :: "'d transmit \<Rightarrow> buf \<Rightarrow> nat \<Rightarrow> u32 \<Rightarrow> 'd net \<Rightarrow> 'd net" where
  "mkrn_tcp_handle_packet tx packet len src_ip s =
     (if len < 20 then s
      else let hdrlen = unat (drop_bit 4 (packet 12)) * 4 in
        if hdrlen < 20 \<or> hdrlen > len then s
        else handle_conns tx packet len hdrlen src_ip 0 s)"

end
