(* ===== verification/NetIn.thy ===== *)
theory NetIn
  imports Tcp
begin

text \<open>
  Frame input, start-up and polling of \<^verbatim>\<open>src/sys/src/net/net.c\<close>, and the contents of frames:
  what the parsers read from a buffer that holds a frame built by the senders.
\<close>

section \<open>Ingress, start-up and polling\<close>

definition mkrn_net_receive_frame :: "'d transmit \<Rightarrow> buf \<Rightarrow> nat \<Rightarrow> 'd net \<Rightarrow> 'd net" where
  "mkrn_net_receive_frame tx frame len s =
     (if len < 14 then s
      else let etype = ntohs (get16 frame 12) in
        if etype = M4K_ETH_TYPE_ARP then mkrn_arp_handle_packet tx (at frame 14) (len - 14) s
        else if etype \<noteq> M4K_ETH_TYPE_IP then s
        else let pkt = at frame 14 in
          if len < 34 then s
          else if drop_bit 4 (pkt 0) \<noteq> 4 then s
          else
            let ihl = unat (pkt 0 AND 0x0F) * 4;
                total_len = unat (ntohs (get16 pkt 2))
            in if ihl < 20 \<or> total_len < ihl then s
               else
                 let payload = at pkt ihl;
                     plen = total_len - ihl;
                     src_host = ntohl (get32 pkt 12);
                     dst_host = ntohl (get32 pkt 16);
                     protocol = pkt 9
                 in if protocol = M4K_IP_PROTOCOL_ICMP then mkrn_icmp_handle_packet tx payload plen src_host s
                    else if protocol = M4K_IP_PROTOCOL_TCP then mkrn_tcp_handle_packet tx payload plen src_host s
                    else if protocol = M4K_IP_PROTOCOL_UDP then mkrn_udp_handle_packet payload plen src_host (net_local_ip s) s
                    else s)"

text \<open>The poll functions of the devices are a parameter; None is a null pointer.\<close>

definition mkrn_net_poll :: "(nat \<Rightarrow> ('d net \<Rightarrow> 'd net) option) \<Rightarrow> 'd net \<Rightarrow> 'd net" where
  "mkrn_net_poll poll s = fold (\<lambda>d s. case poll d of Some f \<Rightarrow> f s | None \<Rightarrow> s) (net_devs s) s"

text \<open>The address of the one static device; its driver's \<open>init\<close> and \<open>get_mac\<close> are parameters.\<close>

definition e1000_dev :: nat where "e1000_dev = 1"

definition mkrn_net_init :: "('d net \<Rightarrow> int \<times> 'd net) \<Rightarrow> ('d net \<Rightarrow> u8 list) \<Rightarrow> 'd net \<Rightarrow> int \<times> 'd net" where
  "mkrn_net_init dev_init get_mac s =
     (let s1 = mkrn_arp_init (s\<lparr>net_devs := [], net_default_dev := 0, net_ip_id := 1\<rparr>);
          (_, s2) = mkrn_net_device_register e1000_dev s1;
          (r, s3) = dev_init s2
      in if r = 0
         then (0, s3\<lparr>dev_tab := (dev_tab s3)(net_default_dev s3 :=
                       (dev_tab s3 (net_default_dev s3))\<lparr>dv_up := True, dv_mac_addr := get_mac s3\<rparr>)\<rparr>)
         else (-1, s3\<lparr>net_default_dev := 0\<rparr>))"

text \<open>The static variables before \<open>mkrn_net_init\<close>.\<close>

definition net_zero :: "'d \<Rightarrow> 'd net" where
  "net_zero d = \<lparr>net_devs = [], dev_tab = (\<lambda>_. \<lparr>dv_name = ''eth0'', dv_mac_addr = replicate 6 0, dv_up = False\<rparr>),
     net_default_dev = 0, net_local_ip = 0x0A00020F, net_netmask = 0xFFFFFF00, net_gateway = 0x0A000202, net_ip_id = 1,
     arp_cache = replicate ARP_CACHE_SIZE \<lparr>ae_ip = 0, ae_mac = replicate 6 0, ae_valid = False\<rparr>, arp_cache_count = 0,
     tcp_conns = replicate TCP_MAX_CONNS \<lparr>tc_used = False, tc_state = TS_CLOSED, tc_remote_ip = 0, tc_local_port = 0,
       tc_remote_port = 0, tc_snd_nxt = 0, tc_rcv_nxt = 0, tc_rbuf = replicate TCP_RX_BUF 0, tc_rlen = 0\<rparr>,
     tcp_next_port = 1024, ping_got_reply = False, ping_from_ip = 0, hw = d\<rparr>"


section \<open>Buffers that hold a frame\<close>

definition holds :: "buf \<Rightarrow> u8 list \<Rightarrow> bool" where
  "holds b xs \<longleftrightarrow> (\<forall>i < length xs. b i = xs ! i)"

lemma holds_Nil [simp]: "holds b []"
  by (simp add: holds_def)

lemma holds_Cons [simp]: "holds b (x # xs) \<longleftrightarrow> b 0 = x \<and> holds (at b 1) xs"
  by (auto simp: holds_def nth_Cons split: nat.splits)

lemma holds_append [simp]: "holds b (xs @ ys) \<longleftrightarrow> holds b xs \<and> holds (at b (length xs)) ys"
  by (auto simp: holds_def nth_append) (metis add.commute le_add_diff_inverse2 add_less_cancel_right not_less)

lemma holds_bytes: "holds b xs \<Longrightarrow> length xs = n \<Longrightarrow> map b [0..<n] = xs"
  by (auto simp: holds_def intro: nth_equalityI)

lemma holds_take: "holds b xs \<Longrightarrow> n \<le> length xs \<Longrightarrow> map b [0..<n] = take n xs"
  by (auto simp: holds_def intro!: nth_equalityI)

lemma le_bytes_2: "le_bytes 2 w = [ucast w, ucast (drop_bit 8 w)]"
  by (simp add: numeral_2_eq_2)

lemma le_bytes_4: "le_bytes 4 w = [ucast w, ucast (drop_bit 8 w), ucast (drop_bit 16 w), ucast (drop_bit 24 w)]"
  by (simp add: numeral_eq_Suc drop_bit_drop_bit)

lemma le_word_2 [simp]: "le_word [ucast w, ucast (drop_bit 8 w)] = (w :: u16)"
  using le_word_le_bytes[of 2 w] unfolding le_bytes_2 by simp

lemma le_word_4 [simp]:
  "le_word [ucast w, ucast (drop_bit 8 w), ucast (drop_bit 16 w), ucast (drop_bit 24 w)] = (w :: u32)"
  using le_word_le_bytes[of 4 w] unfolding le_bytes_4 by simp

declare le_word.simps [simp del]

lemmas wire_simps = le_bytes_2 le_bytes_4 net_consts

end
