(* ===== verification/NetSpec.thy ===== *)
theory NetSpec
  imports NetIn
begin

text \<open>
  Exchanges between hosts: address resolution, delivery of IP packets and echo
  requests, over network cards that record the frames handed to them.
\<close>

section \<open>Hosts on a recording card\<close>

text \<open>The card records every frame and accepts it. The transmit routine of the driver can
  also fail, when its ring is full or the link is down; it is an argument of the
  operations, and the exchanges below are about a card that does not.\<close>

definition log_tx :: "u8 list list transmit" where
  "log_tx dev fr h = (int (length fr), h @ [fr])"

abbreviation mac_of :: "'d net \<Rightarrow> u8 list" where
  "mac_of s \<equiv> dv_mac_addr (dev_tab s (net_default_dev s))"

definition host_ok :: "'d net \<Rightarrow> bool" where
  "host_ok s \<longleftrightarrow> net_default_dev s \<noteq> 0 \<and> mkrn_net_device_find ''eth0'' s = net_default_dev s \<and>
     dv_up (dev_tab s (net_default_dev s)) \<and> length (mac_of s) = 6 \<and> length (arp_cache s) = ARP_CACHE_SIZE \<and>
     arp_cache_count s \<le> ARP_CACHE_SIZE"

lemma send_ethernet_log:
  "host_ok s \<Longrightarrow> length data \<le> 1486 \<Longrightarrow>
   mkrn_net_send_ethernet log_tx dst type data s =
     (int (length dst + 8 + length data), s\<lparr>hw := hw s @ [dst @ mac_of s @ le_bytes 2 (htons type) @ data]\<rparr>)"
  by (simp add: mkrn_net_send_ethernet_def host_ok_def log_tx_def Let_def)

text \<open>A host after a successful start-up.\<close>

lemma net_init_host_ok:
  assumes "\<And>s. \<exists>h. dev_init s = (0, s\<lparr>hw := h\<rparr>)" "\<And>s. length (get_mac s) = 6"
  shows "\<exists>s. mkrn_net_init dev_init get_mac (net_zero d) = (0, s) \<and> host_ok s \<and> net_local_ip s = 0x0A00020F"
proof -
  let ?s = "snd (mkrn_net_device_register e1000_dev (mkrn_arp_init ((net_zero d)\<lparr>net_devs := [], net_default_dev := 0, net_ip_id := 1\<rparr>)))"
  obtain h where "dev_init ?s = (0, ?s\<lparr>hw := h\<rparr>)" using assms(1) by blast
  then show ?thesis using assms(2)
    by (simp add: mkrn_net_init_def host_ok_def mkrn_net_device_find_def mkrn_net_device_register_def mkrn_arp_init_def
        net_zero_def net_consts e1000_dev_def split_beta)
qed

definition demo_host :: "u32 \<Rightarrow> u8 list \<Rightarrow> u8 list list net" where
  "demo_host ip mac = mkrn_net_set_ip ip 0xFFFFFF00 0x0A000202 (snd (mkrn_net_init (\<lambda>s. (0, s)) (\<lambda>_. mac) (net_zero [])))"

lemma demo_host_ok:
  assumes "length mac = 6"
  shows "host_ok (demo_host ip mac)" "net_local_ip (demo_host ip mac) = ip" "hw (demo_host ip mac) = []"
    "net_netmask (demo_host ip mac) = 0xFFFFFF00" "mac_of (demo_host ip mac) = mac" "tcp_next_port (demo_host ip mac) = 1024"
    "tcp_conns (demo_host ip mac) = tcp_conns (net_zero ([] :: u8 list list))" "length (arp_cache (demo_host ip mac)) = ARP_CACHE_SIZE"
  using assms
  by (simp_all add: demo_host_def mkrn_net_set_ip_def mkrn_net_init_def host_ok_def mkrn_net_device_find_def
      mkrn_net_device_register_def mkrn_arp_init_def net_zero_def e1000_dev_def net_consts)

abbreviation host_a :: "u8 list list net" where "host_a \<equiv> demo_host 0x0A00020F [2, 0, 0, 0, 0, 1]"
abbreviation host_b :: "u8 list list net" where "host_b \<equiv> demo_host 0x0A000210 [2, 0, 0, 0, 0, 2]"


section \<open>The ARP cache\<close>

lemma arp_find_offset: "arp_find ip i es = map_option (\<lambda>k. i + k) (arp_find ip 0 es)"
proof (induction es arbitrary: i)
  case (Cons e es)
  show ?case using Cons[of "Suc i"] Cons[of "Suc 0"] by (auto simp: option.map_comp comp_def)
qed simp

lemma arp_find_Some:
  "arp_find ip 0 es = Some k \<Longrightarrow> k < length es \<and> ae_valid (es ! k) \<and> ae_ip (es ! k) = ip"
proof (induction es arbitrary: k)
  case (Cons e es)
  then show ?case using arp_find_offset[of ip 1 es] by (auto split: if_splits)
qed simp

lemma arp_find_update:
  "i < length es \<Longrightarrow> arp_find ip 0 es = None \<Longrightarrow> ae_valid e \<Longrightarrow> ae_ip e = ip \<Longrightarrow> arp_find ip 0 (es[i := e]) = Some i"
proof (induction es arbitrary: i)
  case (Cons a es)
  then show ?case using arp_find_offset[of ip 1 es] arp_find_offset[of ip 1 "es[i - 1 := e]"]
    by (auto simp: nth_Cons split: nat.splits if_splits)
qed simp

lemma arp_find_refresh:
  "arp_find ip 0 es = Some i \<Longrightarrow> arp_find ip 0 (es[i := (es ! i)\<lparr>ae_mac := m\<rparr>]) = Some i"
proof (induction es arbitrary: i)
  case (Cons a es)
  show ?case
  proof (cases i)
    case 0
    then show ?thesis using Cons.prems arp_find_Some[OF Cons.prems] by auto
  next
    case (Suc j)
    then show ?thesis using Cons arp_find_offset[of ip 1 es] arp_find_offset[of ip 1 "es[j := (es ! j)\<lparr>ae_mac := m\<rparr>]"]
      by (auto split: if_splits)
  qed
qed simp

lemma arp_resolve_update:
  assumes "length (arp_cache s) = ARP_CACHE_SIZE"
  shows "mkrn_arp_resolve ip (arp_cache_update ip mac s) = Some mac"
proof (cases "arp_find ip 0 (arp_cache s)")
  case None
  let ?i = "if arp_cache_count s \<ge> ARP_CACHE_SIZE then 0 else arp_cache_count s"
  have "?i < length (arp_cache s)" using assms by (auto simp: net_consts)
  then show ?thesis using None arp_find_update[of ?i "arp_cache s" ip "\<lparr>ae_ip = ip, ae_mac = mac, ae_valid = True\<rparr>"]
    by (auto simp: arp_cache_update_def mkrn_arp_resolve_def Let_def)
next
  case (Some i)
  then show ?thesis using arp_find_Some[OF Some] arp_find_refresh[OF Some]
    by (simp add: arp_cache_update_def mkrn_arp_resolve_def)
qed

lemma arp_update_frame [simp]:
  "net_default_dev (arp_cache_update ip mac s) = net_default_dev s" "dev_tab (arp_cache_update ip mac s) = dev_tab s"
  "net_local_ip (arp_cache_update ip mac s) = net_local_ip s" "hw (arp_cache_update ip mac s) = hw s"
  "net_devs (arp_cache_update ip mac s) = net_devs s" "length (arp_cache (arp_cache_update ip mac s)) = length (arp_cache s)"
  by (auto simp: arp_cache_update_def Let_def split: option.splits)

lemma host_ok_update: "host_ok s \<Longrightarrow> host_ok (arp_cache_update ip mac s)"
  by (auto simp: host_ok_def mkrn_net_device_find_def) (auto simp: arp_cache_update_def net_consts Let_def split: option.splits)

lemma host_ok_hw [simp]: "host_ok (s\<lparr>hw := h\<rparr>) = host_ok s" "host_ok (s\<lparr>net_ip_id := n\<rparr>) = host_ok s"
  "mkrn_arp_resolve ip (s\<lparr>hw := h\<rparr>) = mkrn_arp_resolve ip s" "mkrn_arp_resolve ip (s\<lparr>net_ip_id := n\<rparr>) = mkrn_arp_resolve ip s"
  by (simp_all add: host_ok_def mkrn_net_device_find_def mkrn_arp_resolve_def)


section \<open>What a host does with an ARP frame\<close>

definition arp_frame :: "u8 list \<Rightarrow> u16 \<Rightarrow> u8 list \<Rightarrow> u32 \<Rightarrow> u8 list \<Rightarrow> u32 \<Rightarrow> u8 list" where
  "arp_frame dst op smac sip tmac tip = dst @ smac @ le_bytes 2 (htons M4K_ETH_TYPE_ARP) @ arp_packet op smac sip tmac tip"

lemma receive_arp_frame:
  assumes h: "holds b (arp_frame dst op smac sip tmac tip)" and l: "length dst = 6" "length smac = 6" "length tmac = 6"
  shows "mkrn_net_receive_frame tx b (length (arp_frame dst op smac sip tmac tip)) s =
    (let s1 = arp_cache_update sip smac s
     in if op = ARP_OP_REQUEST \<and> tip = net_local_ip s then snd (arp_send_reply tx sip smac s1) else s1)"
proof -
  have len: "length (arp_frame dst op smac sip tmac tip) = 42" using l by (simp add: arp_frame_def arp_packet_def)
  have "holds (at b 22) smac" using h l by (simp add: arp_frame_def arp_packet_def wire_simps add.assoc)
  from holds_bytes[OF this l(2)] have m: "map (\<lambda>k. b (22 + k)) [0..<6] = smac" .
  show ?thesis unfolding len using h l m
    by (simp add: mkrn_net_receive_frame_def mkrn_arp_handle_packet_def arp_frame_def arp_packet_def wire_simps Let_def)
qed


section \<open>What a host does with an IP frame\<close>

definition ip_packet :: "u16 \<Rightarrow> u8 \<Rightarrow> u32 \<Rightarrow> u32 \<Rightarrow> u8 list \<Rightarrow> u8 list" where
  "ip_packet id' protocol src dst data =
     (let h = ip_head (length data) id' protocol; a = ip_addrs src dst
      in h @ le_bytes 2 (mkrn_net_checksum (h @ [0, 0] @ a)) @ a @ data)"

definition next_hop :: "u32 \<Rightarrow> 'd net \<Rightarrow> u32" where
  "next_hop dst s = (if dst AND net_netmask s = net_local_ip s AND net_netmask s then dst else net_gateway s)"

lemma length_ip_packet [simp]: "length (ip_packet id' protocol src dst data) = 20 + length data"
  by (simp add: ip_packet_def ip_head_def ip_addrs_def Let_def)

lemma send_packet_log:
  assumes "host_ok s" "mkrn_arp_resolve (next_hop dst s) s = Some mac" "length data \<le> 1466"
  shows "mkrn_net_send_packet log_tx dst protocol data s =
     (int (length mac + 28 + length data), s\<lparr>net_ip_id := net_ip_id s + 1,
        hw := hw s @ [mac @ mac_of s @ le_bytes 2 (htons M4K_ETH_TYPE_IP) @ ip_packet (net_ip_id s) protocol (net_local_ip s) dst data]\<rparr>)"
proof -
  let ?s = "s\<lparr>net_ip_id := net_ip_id s + 1\<rparr>"
  have hop: "(if dst AND net_netmask ?s = net_local_ip ?s AND net_netmask ?s then dst else net_gateway ?s) = next_hop dst s"
    by (simp add: next_hop_def)
  have "net_send_ip_eth log_tx dst pkt ?s = mkrn_net_send_ethernet log_tx mac M4K_ETH_TYPE_IP pkt ?s" for pkt
    unfolding net_send_ip_eth_def Let_def hop using assms by (simp add: host_ok_def)
  then have "mkrn_net_send_packet log_tx dst protocol data s =
      mkrn_net_send_ethernet log_tx mac M4K_ETH_TYPE_IP (ip_packet (net_ip_id s) protocol (net_local_ip s) dst data) ?s"
    using assms(3) by (simp add: mkrn_net_send_packet_def ip_packet_def Let_def)
  then show ?thesis using assms send_ethernet_log[of ?s] by simp
qed

text \<open>Payloads of 1467 to 1480 bytes pass the test of the IP layer and fail in the Ethernet layer.\<close>

lemma send_packet_too_long:
  assumes "host_ok s" "mkrn_arp_resolve (next_hop dst s) s = Some mac" "1466 < length data"
  shows "mkrn_net_send_packet tx dst protocol data s =
     (-1, if length data \<le> 1480 then s\<lparr>net_ip_id := net_ip_id s + 1\<rparr> else s)"
proof -
  let ?s = "s\<lparr>net_ip_id := net_ip_id s + 1\<rparr>"
  have hop: "(if dst AND net_netmask ?s = net_local_ip ?s AND net_netmask ?s then dst else net_gateway ?s) = next_hop dst s"
    by (simp add: next_hop_def)
  have "net_send_ip_eth tx dst pkt ?s = (-1, ?s)" if "1486 < length pkt" for pkt
    unfolding net_send_ip_eth_def Let_def hop using assms that by (simp add: host_ok_def mkrn_net_send_ethernet_def)
  then show ?thesis using assms(3)
    by (simp add: mkrn_net_send_packet_def ip_head_def ip_addrs_def Let_def)
qed

lemma receive_ip_frame:
  assumes h: "holds b (dmac @ smac @ le_bytes 2 (htons M4K_ETH_TYPE_IP) @ ip_packet id' protocol src dst data)"
    and l: "length dmac = 6" "length smac = 6" "length data < 65516"
  shows "mkrn_net_receive_frame tx b (34 + length data) s =
    (if protocol = M4K_IP_PROTOCOL_ICMP then mkrn_icmp_handle_packet tx (at b 34) (length data) src s
     else if protocol = M4K_IP_PROTOCOL_TCP then mkrn_tcp_handle_packet tx (at b 34) (length data) src s
     else s)" (is ?eq)
    and "holds (at b 34) data"
proof -
  have u: "unat (of_nat (length data) + 20 :: u16) = length data + 20"
    using l(3) by (simp add: unat_word_ariths unat_of_nat)
  have v: "drop_bit 4 (0x45 :: u8) = 4" "(0x45 :: u8) AND 0x0F = 5" by (simp_all add: drop_bit_eq_div)
  show ?eq using h l u v
    by (simp add: mkrn_net_receive_frame_def ip_packet_def ip_head_def ip_addrs_def mkrn_udp_handle_packet_def wire_simps Let_def)
  show "holds (at b 34) data"
    using h l by (simp add: ip_packet_def ip_head_def ip_addrs_def wire_simps Let_def)
qed


section \<open>Properties\<close>

text \<open>C38. Address resolution between two hosts, over cards that accept every frame: the request of \<open>a\<close> makes \<open>b\<close> learn
  the address of \<open>a\<close> and answer, and the answer makes \<open>a\<close> learn the address of \<open>b\<close>;
  no further frame is sent.\<close>

theorem arp_exchange:
  assumes "host_ok a" "host_ok b"
  shows "\<exists>F G a1 b1. mkrn_arp_send_request log_tx (net_local_ip b) a = (int (length F), a1) \<and> hw a1 = hw a @ [F] \<and>
    (\<forall>bf. holds bf F \<longrightarrow> mkrn_net_receive_frame log_tx bf (length F) b = b1) \<and> hw b1 = hw b @ [G] \<and>
    mkrn_arp_resolve (net_local_ip a) b1 = Some (mac_of a) \<and>
    (\<forall>bg. holds bg G \<longrightarrow> (\<exists>a2. mkrn_net_receive_frame log_tx bg (length G) a1 = a2 \<and>
       mkrn_arp_resolve (net_local_ip b) a2 = Some (mac_of b) \<and> hw a2 = hw a1))"
proof -
  define F where "F = arp_frame (replicate 6 0xFF) ARP_OP_REQUEST (mac_of a) (net_local_ip a) (replicate 6 0) (net_local_ip b)"
  define G where "G = arp_frame (mac_of a) ARP_OP_REPLY (mac_of b) (net_local_ip b) (mac_of a) (net_local_ip a)"
  define b0 where "b0 = arp_cache_update (net_local_ip a) (mac_of a) b"
  let ?a1 = "a\<lparr>hw := hw a @ [F]\<rparr>" and ?b1 = "b0\<lparr>hw := hw b @ [G]\<rparr>"
  have m: "length (mac_of a) = 6" "length (mac_of b) = 6" using assms by (simp_all add: host_ok_def)
  have lf: "length F = 42" using m by (simp add: F_def arp_frame_def arp_packet_def)
  have pl: "length (arp_packet op smac sip tmac tip) = 16 + length smac + length tmac" for op smac sip tmac tip
    by (simp add: arp_packet_def)
  have 1: "mkrn_arp_send_request log_tx (net_local_ip b) a = (int (length F), ?a1)"
    using assms(1) m send_ethernet_log[OF assms(1)]
    by (simp add: mkrn_arp_send_request_def host_ok_def Let_def pl lf F_def arp_frame_def)
  have ok: "host_ok b0" using host_ok_update[OF assms(2)] by (simp add: b0_def)
  have "arp_send_reply log_tx (net_local_ip a) (mac_of a) b0 = (int (length G), ?b1)"
    using ok m send_ethernet_log[OF ok] unfolding G_def
    by (simp add: arp_send_reply_def host_ok_def Let_def pl arp_frame_def b0_def)
  then have 2: "mkrn_net_receive_frame log_tx bf (length F) b = ?b1" if "holds bf F" for bf
    using receive_arp_frame[of bf "replicate 6 0xFF" ARP_OP_REQUEST "mac_of a" "net_local_ip a" "replicate 6 0" "net_local_ip b" log_tx b]
      that m by (simp add: F_def Let_def b0_def)
  have 3: "mkrn_arp_resolve (net_local_ip a) ?b1 = Some (mac_of a)"
    using arp_resolve_update[of b] assms(2) by (simp add: host_ok_def b0_def)
  have 4: "mkrn_net_receive_frame log_tx bg (length G) ?a1 = arp_cache_update (net_local_ip b) (mac_of b) ?a1" if "holds bg G" for bg
    using receive_arp_frame[of bg "mac_of a" ARP_OP_REPLY "mac_of b" "net_local_ip b" "mac_of a" "net_local_ip a" log_tx ?a1]
      that m by (simp add: G_def Let_def ARP_OP_REPLY_def ARP_OP_REQUEST_def)
  have "mkrn_arp_resolve (net_local_ip b) (arp_cache_update (net_local_ip b) (mac_of b) ?a1) = Some (mac_of b)"
    using arp_resolve_update[of ?a1] assms(1) by (simp add: host_ok_def)
  then show ?thesis using 1 2 3 4
    by (intro exI[of _ F] exI[of _ G] exI[of _ ?a1] exI[of _ ?b1]) auto
qed

text \<open>C37. Delivery, over a card that accepts every frame: a packet of at most 1466 bytes of
  payload whose next hop is resolved leaves the card as one frame with a valid header
  checksum, and any host that finds this frame in its receive buffer hands exactly the
  payload, its length and the sender's address to the protocol. A longer payload is
  refused with -1 and nothing leaves the card; up to 1480 bytes, which the
  IP layer accepts, the refusal comes from the Ethernet layer and an identification
  number is used up.\<close>

theorem ip_delivery:
  assumes "host_ok s" "mkrn_arp_resolve (next_hop dst s) s = Some mac" "length mac = 6"
  shows "if length data \<le> 1466 then
    \<exists>F s1. mkrn_net_send_packet log_tx dst protocol data s = (int (length F), s1) \<and> hw s1 = hw s @ [F] \<and>
    length F = 34 + length data \<and> mkrn_net_checksum (take 20 (drop 14 F)) = 0 \<and>
    (\<forall>b tx t. holds b F \<longrightarrow> bytes b 34 (length data) = data \<and>
       mkrn_net_receive_frame tx b (length F) t =
         (if protocol = M4K_IP_PROTOCOL_ICMP then mkrn_icmp_handle_packet tx (at b 34) (length data) (net_local_ip s) t
          else if protocol = M4K_IP_PROTOCOL_TCP then mkrn_tcp_handle_packet tx (at b 34) (length data) (net_local_ip s) t
          else t))
    else mkrn_net_send_packet log_tx dst protocol data s =
      (-1, if length data \<le> 1480 then s\<lparr>net_ip_id := net_ip_id s + 1\<rparr> else s)"
proof (cases "length data \<le> 1466")
  case len: True
  let ?p = "ip_packet (net_ip_id s) protocol (net_local_ip s) dst data"
  define F where "F = mac @ mac_of s @ le_bytes 2 (htons M4K_ETH_TYPE_IP) @ ?p"
  have m: "length (mac_of s) = 6" using assms(1) by (simp add: host_ok_def)
  have t: "take 20 (drop 14 F) = ip_head (length data) (net_ip_id s) protocol @
      le_bytes 2 (mkrn_net_checksum (ip_head (length data) (net_ip_id s) protocol @ [0, 0] @ ip_addrs (net_local_ip s) dst)) @
      ip_addrs (net_local_ip s) dst"
    using m assms(3) by (simp add: F_def ip_packet_def ip_head_def ip_addrs_def Let_def)
  have w: "wsum (take 20 (drop 14 F)) \<noteq> 0 \<and> wsum (take 20 (drop 14 F)) mod 65535 = 0"
    unfolding t by (rule checksum_insert) (simp_all add: ip_head_def ip_addrs_def)
  have "length (take 20 (drop 14 F)) \<le> 65536" by simp
  from checksum_zero[OF this] have c: "mkrn_net_checksum (take 20 (drop 14 F)) = 0" using w by (rule iffD2)
  have d: "bytes b 34 (length data) = data \<and> mkrn_net_receive_frame tx b (length F) t =
         (if protocol = M4K_IP_PROTOCOL_ICMP then mkrn_icmp_handle_packet tx (at b 34) (length data) (net_local_ip s) t
          else if protocol = M4K_IP_PROTOCOL_TCP then mkrn_tcp_handle_packet tx (at b 34) (length data) (net_local_ip s) t
          else t)" if "holds b F" for b tx t
    using receive_ip_frame(1)[of b mac "mac_of s" "net_ip_id s" protocol "net_local_ip s" dst data tx t]
      receive_ip_frame(2)[of b mac "mac_of s" "net_ip_id s" protocol "net_local_ip s" dst data] that assms len m holds_bytes[of "at b 34" data]
    by (simp add: F_def)
  have lf: "length F = 34 + length data" using m assms(3) by (simp add: F_def)
  have "mkrn_net_send_packet log_tx dst protocol data s = (int (length F), s\<lparr>net_ip_id := net_ip_id s + 1, hw := hw s @ [F]\<rparr>)"
    using send_packet_log[OF assms(1,2) len, of protocol] assms(3) m by (simp add: F_def)
  moreover have "hw (s\<lparr>net_ip_id := net_ip_id s + 1, hw := hw s @ [F]\<rparr>) = hw s @ [F]" by simp
  ultimately show ?thesis unfolding if_P[OF len] using c d lf by blast
next
  case False
  then show ?thesis using send_packet_too_long[OF assms(1,2), of data log_tx protocol] by auto
qed

text \<open>Ping: when both hosts know each other's hardware address, an echo request makes the
  other host answer with the same identifier and sequence number, and the answer
  releases the waiter with the address of the other host.\<close>

theorem ping_exchange:
  assumes "host_ok a" "mkrn_arp_resolve (next_hop (net_local_ip b) a) a = Some mb" "length mb = 6"
    and "host_ok b" "mkrn_arp_resolve (next_hop (net_local_ip a) b) b = Some ma" "length ma = 6"
  shows "\<exists>F G a1 b1. mkrn_icmp_send_echo_request log_tx (net_local_ip b) id' seq a = (int (length F), a1) \<and> hw a1 = hw a @ [F] \<and>
    (\<forall>bf. holds bf F \<longrightarrow> mkrn_net_receive_frame log_tx bf (length F) b = b1) \<and> hw b1 = hw b @ [G] \<and> drop 38 G = drop 38 F \<and>
    (\<forall>bg tx. holds bg G \<longrightarrow> mkrn_net_receive_frame tx bg (length G) a1 =
       a1\<lparr>ping_from_ip := net_local_ip b, ping_got_reply := True\<rparr>)"
proof -
  define r where "r = le_bytes 4 (push_bit 16 (ucast id' :: u32) OR ucast seq)"
  have lr: "length r = 4" by (simp add: r_def)
  have le: "length (icmp_echo t r) = 8" for t by (simp add: icmp_echo_def lr)
  have ma: "length (mac_of a) = 6" "length (mac_of b) = 6" using assms by (simp_all add: host_ok_def)
  define F where "F = mb @ mac_of a @ le_bytes 2 (htons M4K_ETH_TYPE_IP) @
    ip_packet (net_ip_id a) M4K_IP_PROTOCOL_ICMP (net_local_ip a) (net_local_ip b) (icmp_echo 8 r)"
  define G where "G = ma @ mac_of b @ le_bytes 2 (htons M4K_ETH_TYPE_IP) @
    ip_packet (net_ip_id b) M4K_IP_PROTOCOL_ICMP (net_local_ip b) (net_local_ip a) (icmp_echo 0 r)"
  let ?a1 = "a\<lparr>net_ip_id := net_ip_id a + 1, hw := hw a @ [F]\<rparr>" and ?b1 = "b\<lparr>net_ip_id := net_ip_id b + 1, hw := hw b @ [G]\<rparr>"
  have lf: "length F = 42" "length G = 42" using assms ma le by (simp_all add: F_def G_def)
  have 1: "mkrn_icmp_send_echo_request log_tx (net_local_ip b) id' seq a = (int (length F), ?a1)"
    using send_packet_log[OF assms(1,2), of "icmp_echo 8 r" M4K_IP_PROTOCOL_ICMP] assms(3) lf le
    by (simp add: mkrn_icmp_send_echo_request_def F_def r_def)
  have 2: "mkrn_net_receive_frame log_tx bf (length F) b = ?b1" if "holds bf F" for bf
  proof -
    have "holds (at bf 34) (icmp_echo 8 r)"
      and e: "mkrn_net_receive_frame log_tx bf 42 b = mkrn_icmp_handle_packet log_tx (at bf 34) 8 (net_local_ip a) b"
      using receive_ip_frame(1)[OF that[unfolded F_def] assms(3) ma(1), of log_tx b]
        receive_ip_frame(2)[OF that[unfolded F_def] assms(3) ma(1)] le by simp_all
    then have "holds (at bf 38) r" "bf 34 = 8" "bf 35 = 0" by (simp_all add: icmp_echo_def le_bytes_2)
    moreover from this(1) have "map (\<lambda>k. bf (38 + k)) [0..<4] = r" using lr by (intro holds_bytes) simp_all
    ultimately show ?thesis
      using e lf send_packet_log[OF assms(4,5), of "icmp_echo 0 r" M4K_IP_PROTOCOL_ICMP] le
      by (simp add: mkrn_icmp_handle_packet_def Let_def G_def)
  qed
  have 3: "mkrn_net_receive_frame tx bg (length G) t = mkrn_ping_on_reply (net_local_ip b) t" if "holds bg G" for bg tx t
  proof -
    have "holds (at bg 34) (icmp_echo 0 r)"
      and e: "mkrn_net_receive_frame tx bg 42 t = mkrn_icmp_handle_packet tx (at bg 34) 8 (net_local_ip b) t"
      using receive_ip_frame(1)[OF that[unfolded G_def] assms(6) ma(2), of tx t]
        receive_ip_frame(2)[OF that[unfolded G_def] assms(6) ma(2)] le by simp_all
    then have "bg 34 = 0" "bg 35 = 0" by (simp_all add: icmp_echo_def le_bytes_2)
    then show ?thesis using e lf by (simp add: mkrn_icmp_handle_packet_def)
  qed
  have 4: "drop 38 G = drop 38 F" using assms ma
    by (simp add: F_def G_def ip_packet_def ip_head_def ip_addrs_def icmp_echo_def Let_def)
  show ?thesis
    using 1 2 3 4 by (intro exI[of _ F] exI[of _ G] exI[of _ ?a1] exI[of _ ?b1]) (auto simp: mkrn_ping_on_reply_def)
qed


section \<open>Witnesses\<close>

theorem arp_exchange_witness:
  "\<exists>F a1. mkrn_arp_send_request log_tx 0x0A000210 host_a = (int (length F), a1) \<and> hw a1 = [F]"
  using arp_exchange[of host_a host_b] by (auto simp: demo_host_ok)

definition knows :: "u32 \<Rightarrow> u8 list \<Rightarrow> u8 list list net \<Rightarrow> u8 list list net" where
  "knows ip mac s = arp_cache_update ip mac s"

lemma knows_ok:
  assumes "host_ok s" "ip AND net_netmask s = net_local_ip s AND net_netmask s"
  shows "host_ok (knows ip mac s)" "mkrn_arp_resolve (next_hop ip (knows ip mac s)) (knows ip mac s) = Some mac"
    "hw (knows ip mac s) = hw s" "net_local_ip (knows ip mac s) = net_local_ip s"
    "tcp_conns (knows ip mac s) = tcp_conns s" "tcp_next_port (knows ip mac s) = tcp_next_port s"
proof -
  have "net_netmask (arp_cache_update ip mac s) = net_netmask s" "tcp_conns (arp_cache_update ip mac s) = tcp_conns s"
    "tcp_next_port (arp_cache_update ip mac s) = tcp_next_port s"
    by (auto simp: arp_cache_update_def Let_def split: option.splits)
  then show "host_ok (knows ip mac s)" "mkrn_arp_resolve (next_hop ip (knows ip mac s)) (knows ip mac s) = Some mac"
    "hw (knows ip mac s) = hw s" "net_local_ip (knows ip mac s) = net_local_ip s"
    "tcp_conns (knows ip mac s) = tcp_conns s" "tcp_next_port (knows ip mac s) = tcp_next_port s"
    using assms host_ok_update[OF assms(1)] arp_resolve_update[of s]
    by (simp_all add: knows_def next_hop_def host_ok_def)
qed

abbreviation peer_a :: "u8 list list net" where "peer_a \<equiv> knows 0x0A000210 [2, 0, 0, 0, 0, 2] host_a"
abbreviation peer_b :: "u8 list list net" where "peer_b \<equiv> knows 0x0A00020F [2, 0, 0, 0, 0, 1] host_b"

lemma peers_ok:
  "host_ok peer_a" "mkrn_arp_resolve (next_hop 0x0A000210 peer_a) peer_a = Some [2, 0, 0, 0, 0, 2]" "net_local_ip peer_a = 0x0A00020F"
  "host_ok peer_b" "mkrn_arp_resolve (next_hop 0x0A00020F peer_b) peer_b = Some [2, 0, 0, 0, 0, 1]" "net_local_ip peer_b = 0x0A000210"
  "hw peer_a = []" "hw peer_b = []"
  by (simp_all add: knows_ok demo_host_ok)

theorem ip_delivery_witness:
  "\<exists>F s1. mkrn_net_send_packet log_tx 0x0A000210 M4K_IP_PROTOCOL_TCP [1, 2, 3] peer_a = (int (length F), s1) \<and> length F = 37 \<and> hw s1 = [F]"
  using ip_delivery[OF peers_ok(1,2), of "[1, 2, 3]" M4K_IP_PROTOCOL_TCP] by (auto simp: peers_ok(7))

theorem ping_exchange_witness:
  "\<exists>F a1. mkrn_icmp_send_echo_request log_tx 0x0A000210 0x1234 1 peer_a = (int (length F), a1) \<and> hw a1 = [F]"
  using ping_exchange[of peer_a peer_b "[2, 0, 0, 0, 0, 2]" "[2, 0, 0, 0, 0, 1]" "0x1234" 1] peers_ok by auto

end
