(* ===== verification/TcpSpec.thy ===== *)
theory TcpSpec
  imports NetSpec
begin

text \<open>
  Properties of the TCP client: the checksum against the definition of the protocol,
  the handshake, the segmentation of outgoing data and the order of incoming data.
\<close>

section \<open>What output changes\<close>

lemma send_ethernet_conns [simp]:
  "tcp_conns (snd (mkrn_net_send_ethernet tx d t data s)) = tcp_conns s"
  "tcp_next_port (snd (mkrn_net_send_ethernet tx d t data s)) = tcp_next_port s"
  by (simp_all add: mkrn_net_send_ethernet_def Let_def split: prod.splits)

lemma arp_request_conns [simp]:
  "tcp_conns (snd (mkrn_arp_send_request tx ip s)) = tcp_conns s"
  "tcp_next_port (snd (mkrn_arp_send_request tx ip s)) = tcp_next_port s"
  by (simp_all add: mkrn_arp_send_request_def Let_def)

lemma send_packet_conns [simp]:
  "tcp_conns (snd (mkrn_net_send_packet tx dst p data s)) = tcp_conns s"
  "tcp_next_port (snd (mkrn_net_send_packet tx dst p data s)) = tcp_next_port s"
  by (auto simp: mkrn_net_send_packet_def net_send_ip_eth_def Let_def split: option.splits)

text \<open>A segment changes nothing but the send position of its own connection.\<close>

lemma tcp_emit_conns:
  "tcp_conns (snd (tcp_emit tx i flags data s)) =
     (if (20 + of_nat (length data) :: u16) > of_nat (TCP_RX_BUF + 64) then tcp_conns s
      else (tcp_conns s)[i := advance flags (length data) (conn s i)])"
  by (simp add: tcp_emit_def Let_def)

lemma tcp_ack_conns [simp]:
  "tcp_conns (snd (tcp_emit tx i TCP_ACK [] s)) = tcp_conns s"
proof -
  have "advance TCP_ACK 0 c = c" for c by (simp add: advance_def tcp_flags)
  then show ?thesis by (simp add: tcp_emit_conns)
qed


section \<open>The checksum of a segment\<close>

definition ones_of :: "nat \<Rightarrow> nat" where
  "ones_of n = (if n = 0 then 0 else if n mod 65535 = 0 then 65535 else n mod 65535)"

lemma ones_of_le: "ones_of n \<le> 65535"
  by (simp add: ones_of_def)

lemma ones_of_compl: "(n + (65535 - ones_of n)) mod 65535 = 0"
proof (cases "n = 0 \<or> n mod 65535 = 0")
  case False
  then have "ones_of n = n mod 65535" by (simp add: ones_of_def)
  then have "n + (65535 - ones_of n) = 65535 * (n div 65535) + 65535"
    using div_mult_mod_eq[of n 65535] ones_of_le[of n] by linarith
  then show ?thesis by simp
qed (auto simp: ones_of_def)

lemma unat_halves: "unat (drop_bit 16 (w :: u32) AND 0xFFFF) = unat w div 65536" "unat (w AND 0xFFFF) = unat w mod 65536"
proof -
  have "w AND 0xFFFF = take_bit 16 w" by (simp add: take_bit_eq_mask mask_eq_decr_exp)
  then show "unat (w AND 0xFFFF) = unat w mod 65536" by (simp add: take_bit_eq_mod unat_mod)
  have "drop_bit 16 w AND 0xFFFF = drop_bit 16 w"
  proof -
    have "drop_bit 16 w AND 0xFFFF = take_bit 16 (drop_bit 16 w)" by (simp add: take_bit_eq_mask mask_eq_decr_exp)
    also have "\<dots> = drop_bit 16 w" by (rule bit_word_eqI) (auto simp: bit_simps dest: bit_imp_le_length)
    finally show ?thesis .
  qed
  then show "unat (drop_bit 16 w AND 0xFFFF) = unat w div 65536"
    by (simp only: unat_drop_bit_eq) (simp add: drop_bit_eq_div)
qed

lemma wsum_le_bytes4: "wsum (le_bytes 4 (w :: u32)) = unat w mod 65536 + unat w div 65536"
proof -
  have "le_bytes 4 w = le_bytes 2 (ucast w :: u16) @ le_bytes 2 (ucast (drop_bit 16 w) :: u16)"
    unfolding le_bytes_4 le_bytes_2 by (simp, intro conjI; rule bit_word_eqI) (auto simp: bit_simps)
  then have "wsum (le_bytes 4 w) = unat (ucast w :: u16) + unat (ucast (drop_bit 16 w) :: u16)"
    by (simp add: wsum_append wsum_le_bytes2)
  moreover have "unat (ucast w :: u16) = unat w mod 65536"
    by (simp add: unsigned_ucast_eq take_bit_eq_mod unat_mod)
  moreover have "unat (ucast (drop_bit 16 w) :: u16) = unat w div 65536"
  proof -
    have "unat (drop_bit 16 w) = unat w div 65536" by (simp only: unat_drop_bit_eq) (simp add: drop_bit_eq_div)
    moreover have "unat w div 65536 < 65536" using unsigned_less[of w, where ?'a = nat] by (simp add: less_mult_imp_div_less)
    ultimately show ?thesis by (simp add: unsigned_ucast_eq unsigned_take_bit_eq take_bit_nat_eq_self)
  qed
  ultimately show ?thesis by simp
qed

lemma unat_htons: "unat (htons v) = 256 * (unat v mod 256) + unat v div 256"
proof -
  have "htons v = le_word [ucast (drop_bit 8 v), ucast v]"
    unfolding htons_def by (rule bit_word_eqI) (auto simp: le_word.simps bit_simps dest: bit_imp_le_length)
  moreover have "unat (ucast (drop_bit 8 v) :: u8) = unat v div 256" "unat (ucast v :: u8) = unat v mod 256"
  proof -
    have "unat (drop_bit 8 v) = unat v div 256" by (simp only: unat_drop_bit_eq) (simp add: drop_bit_eq_div)
    moreover have "unat v div 256 < 256" using unsigned_less[of v, where ?'a = nat] by (simp add: less_mult_imp_div_less)
    ultimately show "unat (ucast (drop_bit 8 v) :: u8) = unat v div 256"
      by (simp add: unsigned_ucast_eq unsigned_take_bit_eq take_bit_nat_eq_self)
    show "unat (ucast v :: u8) = unat v mod 256" by (simp add: unsigned_ucast_eq take_bit_eq_mod unat_mod)
  qed
  ultimately show ?thesis by (simp add: unat_le_word2)
qed

lemma unat_tcp_checksum:
  assumes "length payload < 65536"
  shows "unat (tcp_checksum src dst payload) =
    65535 - ones_of (wsum payload + wsum (le_bytes 4 src) + wsum (le_bytes 4 dst) + 1536 + 256 * length payload)"
proof -
  define T where "T = wsum payload + wsum (le_bytes 4 src) + wsum (le_bytes 4 dst) + 1536 + 256 * length payload"
  define a b c d where "a = drop_bit 16 src AND 0xFFFF" and "b = src AND 0xFFFF"
    and "c = drop_bit 16 dst AND 0xFFFF" and "d = dst AND 0xFFFF"
  define acc where "acc = sum_words 0 payload + a + b + c + d + push_bit 8 6 + push_bit 8 (of_nat (length payload) :: u32)"
  have H: "unat a = unat src div 65536" "unat b = unat src mod 65536" "unat c = unat dst div 65536" "unat d = unat dst mod 65536"
    unfolding a_def b_def c_def d_def by (rule unat_halves)+
  have B: "unat src div 65536 < 65536" "unat dst div 65536 < 65536"
    using unsigned_less[of src, where ?'a = nat] unsigned_less[of dst, where ?'a = nat] by (simp_all add: less_mult_imp_div_less)
  have "unat (sum_words 0 payload) = wsum payload" using assms by (simp add: unat_sum_words)
  moreover have "unat (push_bit 8 (of_nat (length payload) :: u32)) = 256 * length payload"
    using assms by (simp add: push_bit_eq_mult unat_word_ariths unat_of_nat)
  moreover have "wsum payload \<le> 32768 * 65535" using wsum_bound[of payload] assms by simp
  moreover have "unat src mod 65536 < 65536" "unat dst mod 65536 < 65536" by simp_all
  ultimately have "unat acc = T"
    using B assms unfolding acc_def T_def wsum_le_bytes4
    by (simp add: unat_word_ariths H push_bit_eq_mult)
  then have "unat (fold_sum acc) = ones_of T" by (simp add: fold_sum_closed ones_of_def)
  then have "unat (ucast (fold_sum acc) :: u16) = ones_of T"
    using ones_of_le[of T] by (simp add: unsigned_ucast_eq unsigned_take_bit_eq take_bit_nat_eq_self)
  moreover have "tcp_checksum src dst payload = - 1 - ucast (fold_sum acc)"
  proof -
    have "tcp_checksum src dst payload = NOT (ucast (fold_sum acc))"
      unfolding tcp_checksum_def Let_def acc_def a_def b_def c_def d_def by (rule bit_word_eqI) (simp add: bit_simps)
    then show ?thesis by (simp add: not_eq_complement)
  qed
  ultimately show ?thesis
    unfolding T_def by (simp add: unat_sub word_n1_ge unsigned_minus_1_eq_mask mask_eq_exp_minus_1)
qed

text \<open>The pseudo header of the protocol definition: addresses, a zero byte, the protocol
  number and the length of the segment, in network byte order.\<close>

definition pseudo_header :: "u32 \<Rightarrow> u32 \<Rightarrow> nat \<Rightarrow> u8 list" where
  "pseudo_header src dst len =
     le_bytes 4 (htonl src) @ le_bytes 4 (htonl dst) @ [0, M4K_IP_PROTOCOL_TCP] @ le_bytes 2 (htons (of_nat len))"

lemma htons_congruent: "n < 65536 \<Longrightarrow> unat (htons (of_nat n)) mod 65535 = (256 * n) mod 65535"
proof -
  assume n: "n < 65536"
  then have "unat (of_nat n :: u16) = n" by (simp add: unat_of_nat take_bit_nat_eq_self)
  then have "unat (htons (of_nat n)) + 65535 * (n div 256) = 256 * n"
    using div_mult_mod_eq[of n 256] unfolding unat_htons by (simp only:)
  then show ?thesis by (metis mod_mult_self2)
qed

lemma length_tcp_head [simp]: "length (tcp_head c flags) = 16"
  by (simp add: tcp_head_def)

text \<open>The checksum of every segment verifies at a receiver that follows the protocol definition:
  pseudo header and segment together sum to zero, although the code adds the
  pseudo header in a byte-swapped form.\<close>

theorem tcp_segment_checksum:
  assumes "length data < 65504"
  shows "mkrn_net_checksum (pseudo_header ip (tc_remote_ip c) (20 + length data) @ tcp_segment ip c flags data) = 0"
proof -
  define z where "z = tcp_head c flags @ [0, 0] @ [0, 0] @ data"
  define src dst where "src = htonl ip" and "dst = htonl (tc_remote_ip c)"
  define T where "T = wsum z + wsum (le_bytes 4 src) + wsum (le_bytes 4 dst) + 1536 + 256 * length z"
  define cs where "cs = tcp_checksum src dst z"
  let ?P = "pseudo_header ip (tc_remote_ip c) (20 + length data)" and ?S = "tcp_segment ip c flags data"
  have lz: "length z = 20 + length data" by (simp add: z_def)
  have cs: "unat cs = 65535 - ones_of T" unfolding cs_def T_def by (rule unat_tcp_checksum) (use lz assms in simp)
  have "wsum (le_bytes 2 cs @ [0, 0] @ data) = unat cs + wsum data"
    using wsum_append[of "le_bytes 2 cs" "[0, 0] @ data"] by (simp add: wsum_le_bytes2)
  then have S: "wsum ?S = wsum z + unat cs"
    by (simp add: tcp_segment_def z_def wsum_append cs_def src_def dst_def)
  have P: "wsum ?P = wsum (le_bytes 4 src) + wsum (le_bytes 4 dst) + 1536 + unat (htons (of_nat (length z)))"
    by (simp add: pseudo_header_def wsum_append wsum_le_bytes2 net_consts lz src_def dst_def)
  have "even (length ?P)" by (simp add: pseudo_header_def)
  then have W: "wsum (?P @ ?S) = wsum z + wsum (le_bytes 4 src) + wsum (le_bytes 4 dst) + 1536 + (65535 - ones_of T) + unat (htons (of_nat (length z)))"
    using wsum_append[of ?P ?S] S P cs by simp
  have "(wsum z + wsum (le_bytes 4 src) + wsum (le_bytes 4 dst) + 1536 + (65535 - ones_of T) + unat (htons (of_nat (length z)))) mod 65535
      = (wsum z + wsum (le_bytes 4 src) + wsum (le_bytes 4 dst) + 1536 + (65535 - ones_of T) + 256 * length z) mod 65535"
    by (rule mod_add_cong) (use htons_congruent[of "length z"] lz assms in simp_all)
  also have "\<dots> = (T + (65535 - ones_of T)) mod 65535" by (simp add: T_def add_ac)
  also have "\<dots> = 0" by (rule ones_of_compl)
  finally have "wsum (?P @ ?S) mod 65535 = 0" using W by simp
  moreover have "wsum (?P @ ?S) \<noteq> 0" using W by simp
  moreover have l: "length (?P @ ?S) \<le> 65536" using assms by (simp add: pseudo_header_def tcp_segment_def)
  ultimately show ?thesis by (simp only: checksum_zero[OF l]) simp
qed


section \<open>The effect of a segment on one connection\<close>

definition data_in :: "buf \<Rightarrow> nat \<Rightarrow> nat \<Rightarrow> tcp_conn \<Rightarrow> tcp_conn" where
  "data_in b hdrlen dlen c =
     (let seq = ntohl (get32 b 4);
          n = min dlen (unat (of_nat TCP_RX_BUF - tc_rlen c))
      in if dlen > 0 \<and> seq = tc_rcv_nxt c
         then c\<lparr>tc_rbuf := array_copy (tc_rbuf c) (unat (tc_rlen c)) (bytes b hdrlen n) 0 n,
                tc_rlen := tc_rlen c + of_nat n, tc_rcv_nxt := seq + of_nat n\<rparr>
         else c)"

definition fin_in :: "u8 \<Rightarrow> tcp_conn \<Rightarrow> tcp_conn" where
  "fin_in flags c =
     (if flags AND TCP_FIN \<noteq> 0
      then c\<lparr>tc_rcv_nxt := tc_rcv_nxt c + 1,
             tc_state := (if tc_state c = TS_ESTABLISHED then TS_CLOSE_WAIT else tc_state c)\<rparr>
      else c)"

lemma accept_data_conns:
  assumes "i < length (tcp_conns s)"
  shows "tcp_conns (accept_data tx i b hdrlen dlen s) = (tcp_conns s)[i := data_in b hdrlen dlen (conn s i)]"
  using assms by (simp add: accept_data_def data_in_def Let_def min_def)

lemma accept_fin_conns:
  assumes "i < length (tcp_conns s)"
  shows "tcp_conns (accept_fin tx i flags s) = (tcp_conns s)[i := fin_in flags (conn s i)]"
  using assms by (simp add: accept_fin_def fin_in_def Let_def)

definition matches :: "tcp_conn \<Rightarrow> buf \<Rightarrow> u32 \<Rightarrow> bool" where
  "matches c b src \<longleftrightarrow> tc_used c \<and> tc_remote_ip c = src \<and> ntohs (get16 b 2) = tc_local_port c \<and>
     ntohs (get16 b 0) = tc_remote_port c"

definition segment_in :: "buf \<Rightarrow> nat \<Rightarrow> nat \<Rightarrow> tcp_conn \<Rightarrow> tcp_conn" where
  "segment_in b hdrlen len c =
     (if b 13 AND TCP_RST \<noteq> 0 then c\<lparr>tc_state := TS_CLOSED, tc_used := False\<rparr>
      else fin_in (b 13) (data_in b hdrlen (len - hdrlen) c))"

text \<open>An input segment reaches an established connection unchanged in every other
  respect: either it is not for this connection, or the connection takes it in.\<close>

lemma handle_conns_conn:
  assumes "length (tcp_conns s) = TCP_MAX_CONNS" "k < TCP_MAX_CONNS" "tc_state (conn s k) = TS_ESTABLISHED"
  shows "length (tcp_conns (handle_conns tx b len hdrlen src i s)) = TCP_MAX_CONNS \<and>
    (conn (handle_conns tx b len hdrlen src i s) k = conn s k \<or>
     matches (conn s k) b src \<and> conn (handle_conns tx b len hdrlen src i s) k = segment_in b hdrlen len (conn s k))"
  using assms
proof (induction "TCP_MAX_CONNS - i" arbitrary: i s)
  case 0
  then show ?case by (simp add: handle_conns.simps)
next
  case (Suc m)
  have i: "i < TCP_MAX_CONNS" using Suc.hyps(2) by simp
  have IH: "length (tcp_conns (handle_conns tx b len hdrlen src (i + 1) t)) = TCP_MAX_CONNS \<and>
    (conn (handle_conns tx b len hdrlen src (i + 1) t) k = conn s k \<or>
     matches (conn s k) b src \<and> conn (handle_conns tx b len hdrlen src (i + 1) t) k = segment_in b hdrlen len (conn s k))"
    if "length (tcp_conns t) = TCP_MAX_CONNS" "conn t k = conn s k" for t
    using Suc.hyps(1)[of "i + 1" t] Suc.hyps(2) Suc.prems that by simp
  show ?case
  proof (cases "i = k")
    case True
    then show ?thesis using IH[of s] Suc.prems i
      by (subst (1 2 3) handle_conns.simps)
        (auto simp: Let_def matches_def segment_in_def accept_data_conns accept_fin_conns)
  next
    case False
    then show ?thesis using IH[of s] IH[of "upd_conn i (\<lambda>c. c\<lparr>tc_remote_port := ntohs (get16 b 0)\<rparr>) s"] Suc.prems i
      by (subst (1 2 3) handle_conns.simps)
        (simp add: Let_def accept_data_conns accept_fin_conns)
  qed
qed


section \<open>Incoming data as a stream\<close>

datatype tcp_op = Segment buf nat u32 | Read int

fun tcp_run :: "'d transmit \<Rightarrow> nat \<Rightarrow> tcp_op list \<Rightarrow> u8 list \<times> 'd net \<Rightarrow> (u8 list \<times> 'd net) option" where
  "tcp_run tx k [] r = Some r"
| "tcp_run tx k (Segment b len src # ops) (got, s) = tcp_run tx k ops (got, mkrn_tcp_handle_packet tx b len src s)"
| "tcp_run tx k (Read n # ops) (got, s) =
     (case mkrn_tcp_recv (int k) n s of
        None \<Rightarrow> None
      | Some ((m, out), s1) \<Rightarrow> tcp_run tx k ops (got @ out, s1))"

text \<open>The peer's stream is \<open>str\<close>, of \<open>tot\<close> bytes, its first byte numbered \<open>irs\<close>. A segment is
  honest if, when it is addressed to the connection, it carries a piece of the stream under
  the right number and neither FIN nor RST; segments may be lost, repeated and reordered. A
  read is honest if the length it asks for is not negative. The code accepts the other
  cases too: \<open>tcp_recv_negative\<close> and \<open>tcp_early_fin\<close> show what they do.\<close>

definition honest :: "(nat \<Rightarrow> u8) \<Rightarrow> nat \<Rightarrow> u32 \<Rightarrow> tcp_conn \<Rightarrow> tcp_op \<Rightarrow> bool" where
  "honest str tot irs c p =
     (case p of
        Read n \<Rightarrow> n \<ge> 0
      | Segment b len src \<Rightarrow>
          let hdrlen = unat (drop_bit 4 (b 12)) * 4 in
          matches c b src \<longrightarrow> b 13 AND (TCP_FIN OR TCP_RST) = 0 \<and>
            (\<exists>i. ntohl (get32 b 4) = irs + of_nat i \<and> i + (len - hdrlen) \<le> tot \<and>
               (\<forall>j < len - hdrlen. b (hdrlen + j) = str (i + j))))"

text \<open>The invariant of the run: what the application got and what waits in the buffer is
  the beginning of the stream.\<close>

definition stream_inv :: "(nat \<Rightarrow> u8) \<Rightarrow> nat \<Rightarrow> u32 \<Rightarrow> tcp_conn \<Rightarrow> u8 list \<Rightarrow> tcp_conn \<Rightarrow> bool" where
  "stream_inv str tot irs c0 got c \<longleftrightarrow>
     tc_used c \<and> tc_state c = TS_ESTABLISHED \<and> tc_remote_ip c = tc_remote_ip c0 \<and> tc_remote_port c = tc_remote_port c0 \<and>
     tc_local_port c = tc_local_port c0 \<and> length (tc_rbuf c) = TCP_RX_BUF \<and> unat (tc_rlen c) \<le> TCP_RX_BUF \<and>
     (\<exists>n \<le> tot. tc_rcv_nxt c = irs + of_nat n \<and> got @ take (unat (tc_rlen c)) (tc_rbuf c) = map str [0..<n])"

lemma stream_data_in:
  assumes inv: "stream_inv str tot irs c0 got c" and lim: "tot < 4294967296"
    and h: "ntohl (get32 b 4) = irs + of_nat i" "i + dlen \<le> tot" "\<And>j. j < dlen \<Longrightarrow> b (hdrlen + j) = str (i + j)"
  shows "stream_inv str tot irs c0 got (data_in b hdrlen dlen c)"
proof (cases "dlen > 0 \<and> ntohl (get32 b 4) = tc_rcv_nxt c")
  case False
  then show ?thesis using inv by (auto simp: data_in_def)
next
  case True
  obtain n where n: "n \<le> tot" "tc_rcv_nxt c = irs + of_nat n" "got @ take (unat (tc_rlen c)) (tc_rbuf c) = map str [0..<n]"
    and r: "length (tc_rbuf c) = 4096" "unat (tc_rlen c) \<le> 4096"
    using inv by (auto simp: stream_inv_def net_consts)
  have "of_nat i = (of_nat n :: u32)" using True h(1) n(2) by simp
  then have "unat (of_nat i :: u32) = unat (of_nat n :: u32)" by (rule arg_cong)
  then have i: "i = n" using h(2) n(1) lim by (simp add: unat_of_nat take_bit_nat_eq_self)
  have sp: "unat (of_nat TCP_RX_BUF - tc_rlen c) = 4096 - unat (tc_rlen c)"
    using r(2) by (simp add: net_consts unat_sub word_le_nat_alt)
  define m where "m = min dlen (4096 - unat (tc_rlen c))"
  have m: "m \<le> dlen" "unat (tc_rlen c) + m \<le> 4096" using r(2) by (auto simp: m_def)
  have rl: "unat (tc_rlen c + of_nat m) = unat (tc_rlen c) + m"
    using m(2) by (simp add: unat_word_ariths unat_of_nat take_bit_nat_eq_self)
  have "bytes b hdrlen m = map str [n..<n + m]"
    using h(3) m(1) i by (auto intro!: nth_equalityI)
  then have "take (unat (tc_rlen c) + m) (array_copy (tc_rbuf c) (unat (tc_rlen c)) (bytes b hdrlen m) 0 m) =
      take (unat (tc_rlen c)) (tc_rbuf c) @ map str [n..<n + m]"
    using m(2) r(1) by (auto intro!: nth_equalityI simp: nth_array_copy nth_append)
  then have "got @ take (unat (tc_rlen c) + m) (array_copy (tc_rbuf c) (unat (tc_rlen c)) (bytes b hdrlen m) 0 m) = map str [0..<n + m]"
    using n(3) by (simp add: upt_add_eq_append[of 0 n m] flip: append_assoc)
  moreover have "data_in b hdrlen dlen c = c\<lparr>tc_rbuf := array_copy (tc_rbuf c) (unat (tc_rlen c)) (bytes b hdrlen m) 0 m,
      tc_rlen := tc_rlen c + of_nat m, tc_rcv_nxt := irs + of_nat n + of_nat m\<rparr>"
    using True n(2) by (simp add: data_in_def Let_def sp m_def)
  moreover have "n + m \<le> tot" using m(1) h(2) i by simp
  ultimately show ?thesis using inv m rl r
    by (auto simp: stream_inv_def TCP_RX_BUF_def intro!: exI[of _ "n + m"])
qed

lemma nth_move_down:
  "n \<le> i \<Longrightarrow> i + k \<le> length xs \<Longrightarrow> j < length xs \<Longrightarrow>
   move_down n i k xs ! j = (if i - n \<le> j \<and> j < i - n + k then xs ! (j + n) else xs ! j)"
proof (induction k arbitrary: i xs)
  case (Suc k)
  have "move_down n (i + 1) k (xs[i - n := xs ! i]) ! j =
     (if i + 1 - n \<le> j \<and> j < i + 1 - n + k then xs[i - n := xs ! i] ! (j + n) else xs[i - n := xs ! i] ! j)"
    using Suc.prems by (intro Suc.IH) auto
  then show ?case using Suc.prems by (auto simp: nth_list_update)
qed auto

lemma length_move_down [simp]: "length (move_down n i k xs) = length xs"
  by (induction k arbitrary: i xs) auto

lemma stream_recv:
  assumes inv: "stream_inv str tot irs c0 got (conn s k)" and k: "k < TCP_MAX_CONNS" "length (tcp_conns s) = TCP_MAX_CONNS"
    and n: "n \<ge> 0"
  shows "\<exists>m out s1. mkrn_tcp_recv (int k) n s = Some ((m, out), s1) \<and> stream_inv str tot irs c0 (got @ out) (conn s1 k) \<and>
    length (tcp_conns s1) = TCP_MAX_CONNS"
proof (cases "tc_rlen (conn s k) = 0")
  case True
  then show ?thesis using inv k by (auto simp: mkrn_tcp_recv_def stream_inv_def Let_def)
next
  case False
  let ?c = "conn s k"
  define rl where "rl = unat (tc_rlen ?c)"
  have r: "length (tc_rbuf ?c) = 4096" "rl \<le> 4096" "tc_used ?c" using inv by (auto simp: stream_inv_def net_consts rl_def)
  define m where "m = min rl (nat n)"
  have ur: "uint (tc_rlen ?c) = int rl" by (simp add: rl_def)
  have mm: "(if int rl > n then n else int rl) = int m" using n by (auto simp: m_def)
  have um: "unat (of_int (int m) :: u16) = m" using r(2) by (simp add: m_def unat_of_nat take_bit_nat_eq_self)
  have mle: "m \<le> 4096" "m \<le> rl" using r(2) by (simp_all add: m_def)
  define buf' where "buf' = (if int rl > int m then move_down m m (rl - m) (tc_rbuf ?c) else tc_rbuf ?c)"
  have "mkrn_tcp_recv (int k) n s = Some ((int m, take m (tc_rbuf ?c)),
      upd_conn k (\<lambda>c. c\<lparr>tc_rbuf := buf', tc_rlen := tc_rlen c - of_int (int m)\<rparr>) s)"
  proof -
    have "\<not> bad_id (int k)" "\<not> int m > int TCP_RX_BUF"
      "\<not> (int rl > int m \<and> m < rl \<and> (int m < 0 \<or> int rl > int TCP_RX_BUF))"
      using k mle r(2) by (simp_all add: TCP_RX_BUF_def)
    then show ?thesis
      unfolding mkrn_tcp_recv_def Let_def nat_int ur mm um buf'_def
      by (simp only: if_False False r(3) not_True_eq_False)
  qed
  moreover have "take (rl - m) buf' = drop m (take rl (tc_rbuf ?c))"
    using r mle by (auto simp: buf'_def nth_move_down add.commute intro!: nth_equalityI)
  then have "take m (tc_rbuf ?c) @ take (rl - m) buf' = take rl (tc_rbuf ?c)"
    using append_take_drop_id[of m "take rl (tc_rbuf ?c)"] mle by simp
  moreover have "unat (tc_rlen ?c - of_int (int m)) = rl - m"
    using um mle by (simp add: unat_sub word_le_nat_alt rl_def[symmetric])
  ultimately show ?thesis using inv k r
    by (auto simp: stream_inv_def net_consts rl_def[symmetric] buf'_def)
qed

lemma stream_segment:
  assumes inv: "stream_inv str tot irs c0 got (conn s k)" and k: "k < TCP_MAX_CONNS" "length (tcp_conns s) = TCP_MAX_CONNS"
    and tot: "tot < 4294967296" and h: "honest str tot irs c0 (Segment b len src)" "tc_used c0"
  shows "stream_inv str tot irs c0 got (conn (mkrn_tcp_handle_packet tx b len src s) k) \<and>
    length (tcp_conns (mkrn_tcp_handle_packet tx b len src s)) = TCP_MAX_CONNS"
proof -
  let ?hl = "unat (drop_bit 4 (b 12)) * 4" and ?s = "mkrn_tcp_handle_packet tx b len src s"
  have est: "tc_state (conn s k) = TS_ESTABLISHED" using inv by (simp add: stream_inv_def)
  consider "?s = s" | "?s = handle_conns tx b len ?hl src 0 s"
    unfolding mkrn_tcp_handle_packet_def Let_def by presburger
  then show ?thesis
  proof cases
    case 1
    then show ?thesis using inv k by simp
  next
    case 2
    note H = handle_conns_conn[OF k(2,1) est, of tx b len ?hl src 0]
    show ?thesis
    proof (cases "conn ?s k = conn s k")
      case True
      then show ?thesis using H inv 2 by simp
    next
      case False
      then have m: "matches (conn s k) b src" and c: "conn ?s k = segment_in b ?hl len (conn s k)" using H 2 by auto
      then have "matches c0 b src" using inv h(2) by (simp add: matches_def stream_inv_def)
      then obtain i where f: "b 13 AND (TCP_FIN OR TCP_RST) = 0" and
        i: "ntohl (get32 b 4) = irs + of_nat i" "i + (len - ?hl) \<le> tot" "\<And>j. j < len - ?hl \<Longrightarrow> b (?hl + j) = str (i + j)"
        using h(1) by (auto simp: honest_def Let_def)
      have "b 13 AND TCP_FIN = 0" "b 13 AND TCP_RST = 0"
        using f by (simp_all add: bit.conj_disj_distrib or_eq_0_iff)
      then have "conn ?s k = data_in b ?hl (len - ?hl) (conn s k)" using c by (simp add: segment_in_def fin_in_def)
      then show ?thesis using stream_data_in[OF inv tot i] H 2 by simp
    qed
  qed
qed

text \<open>C39. As long as the connection has received no segment with FIN or RST and no
  read has asked for a negative length, the data an application reads from an
  established connection that starts with an empty buffer is always the beginning of the
  stream (of fewer than \<open>2 ^ 32\<close> bytes) the peer sent, without gaps, repetitions or
  reordering, whatever the network loses, repeats or reorders and whatever the
  other connections receive; what waits in the buffer continues it and fits into the
  buffer. Both conditions are needed: a read of a negative length makes the
  buffer claim more bytes than it has (\<open>tcp_recv_negative\<close>), and a FIN that
  overtakes data skips a byte of the stream (\<open>tcp_early_fin\<close>).\<close>

theorem tcp_stream_in_order:
  assumes "k < TCP_MAX_CONNS" "length (tcp_conns s) = TCP_MAX_CONNS" "tc_used (conn s k)" "tc_state (conn s k) = TS_ESTABLISHED"
    and "tc_rlen (conn s k) = 0" "length (tc_rbuf (conn s k)) = TCP_RX_BUF"
    and "tot < 4294967296" "\<forall>p\<in>set ops. honest str tot (tc_rcv_nxt (conn s k)) (conn s k) p"
  shows "\<exists>got s1 n. tcp_run tx k ops ([], s) = Some (got, s1) \<and> n \<le> tot \<and>
    got @ take (unat (tc_rlen (conn s1 k))) (tc_rbuf (conn s1 k)) = map str [0..<n] \<and>
    tc_rcv_nxt (conn s1 k) = tc_rcv_nxt (conn s k) + of_nat n \<and> unat (tc_rlen (conn s1 k)) \<le> TCP_RX_BUF"
proof -
  let ?irs = "tc_rcv_nxt (conn s k)" and ?c0 = "conn s k"
  have "stream_inv str tot ?irs ?c0 [] ?c0"
    using assms by (auto simp: stream_inv_def)
  moreover have "\<exists>g s1. tcp_run tx k ops (got, t) = Some (g, s1) \<and> stream_inv str tot ?irs ?c0 g (conn s1 k)"
    if "stream_inv str tot ?irs ?c0 got (conn t k)" "length (tcp_conns t) = TCP_MAX_CONNS"
      "\<forall>p\<in>set ops. honest str tot ?irs ?c0 p" for got t ops
    using that
  proof (induction ops arbitrary: got t)
    case (Cons p ops)
    show ?case
    proof (cases p)
      case (Segment b len src)
      then show ?thesis
        using Cons.IH stream_segment[OF Cons.prems(1) assms(1) Cons.prems(2) assms(7), of b len src tx] Cons.prems(3) assms(3) by simp
    next
      case (Read n)
      then have "n \<ge> 0" using Cons.prems(3) by (simp add: honest_def)
      from stream_recv[OF Cons.prems(1) assms(1) Cons.prems(2) this] obtain m out t1 where
        "mkrn_tcp_recv (int k) n t = Some ((m, out), t1)" "stream_inv str tot ?irs ?c0 (got @ out) (conn t1 k)"
        "length (tcp_conns t1) = TCP_MAX_CONNS" by blast
      then show ?thesis using Cons.IH[of "got @ out" t1] Cons.prems(3) Read by simp
    qed
  qed simp
  ultimately obtain g s1 where "tcp_run tx k ops ([], s) = Some (g, s1)" "stream_inv str tot ?irs ?c0 g (conn s1 k)"
    using assms(2,8) by blast
  then show ?thesis by (auto simp: stream_inv_def)
qed


section \<open>Outgoing segments\<close>

lemma host_ok_conns [simp]:
  "host_ok (s\<lparr>tcp_conns := cs\<rparr>) = host_ok s" "mkrn_arp_resolve ip (s\<lparr>tcp_conns := cs\<rparr>) = mkrn_arp_resolve ip s"
  "next_hop ip (s\<lparr>tcp_conns := cs\<rparr>) = next_hop ip s" "next_hop ip (s\<lparr>hw := h\<rparr>) = next_hop ip s"
  "next_hop ip (s\<lparr>net_ip_id := n\<rparr>) = next_hop ip s" "next_hop ip (s\<lparr>tcp_next_port := p\<rparr>) = next_hop ip s"
  "host_ok (s\<lparr>tcp_next_port := p\<rparr>) = host_ok s" "mkrn_arp_resolve ip (s\<lparr>tcp_next_port := p\<rparr>) = mkrn_arp_resolve ip s"
  by (simp_all add: host_ok_def mkrn_net_device_find_def mkrn_arp_resolve_def next_hop_def)

definition tcp_frame :: "u8 list \<Rightarrow> 'd net \<Rightarrow> tcp_conn \<Rightarrow> u8 \<Rightarrow> u8 list \<Rightarrow> u8 list" where
  "tcp_frame mac s c flags data =
     mac @ mac_of s @ le_bytes 2 (htons M4K_ETH_TYPE_IP) @
     ip_packet (net_ip_id s) M4K_IP_PROTOCOL_TCP (net_local_ip s) (tc_remote_ip c) (tcp_segment (net_local_ip s) c flags data)"

lemma length_tcp_segment [simp]: "length (tcp_segment ip c flags data) = 20 + length data"
  by (simp add: tcp_segment_def)

lemma tcp_emit_log:
  assumes "host_ok s" "mkrn_arp_resolve (next_hop (tc_remote_ip (conn s i)) s) s = Some mac" "length data \<le> 1446"
  shows "tcp_emit log_tx i flags data s = (int (length mac + 48 + length data),
    s\<lparr>tcp_conns := (tcp_conns s)[i := advance flags (length data) (conn s i)], net_ip_id := net_ip_id s + 1,
      hw := hw s @ [tcp_frame mac s (conn s i) flags data]\<rparr>)"
proof -
  have "unat (20 + of_nat (length data) :: u16) = 20 + length data"
    using assms(3) by (simp add: unat_word_ariths unat_of_nat take_bit_nat_eq_self)
  then have "\<not> (20 + of_nat (length data) :: u16) > of_nat (TCP_RX_BUF + 64)"
    using assms(3) by (simp add: TCP_RX_BUF_def word_less_nat_alt)
  then show ?thesis unfolding tcp_emit_def
    using assms send_packet_log[of "s\<lparr>tcp_conns := (tcp_conns s)[i := advance flags (length data) (conn s i)]\<rparr>"
        "tc_remote_ip (conn s i)" mac "tcp_segment (net_local_ip s) (conn s i) flags data" M4K_IP_PROTOCOL_TCP]
    by (simp add: Let_def tcp_frame_def)
qed

text \<open>The fields a receiver reads from a frame.\<close>

lemma frame_fields:
  assumes "holds b (tcp_frame mac s c flags data)" "length mac = 6" "host_ok s"
  shows "ntohs (get16 b 34) = tc_local_port c" "ntohs (get16 b 36) = tc_remote_port c" "ntohl (get32 b 38) = tc_snd_nxt c"
    "ntohl (get32 b 42) = tc_rcv_nxt c" "b 47 = flags"
proof -
  have "holds (at b 34) (tcp_segment (net_local_ip s) c flags data)"
    using assms by (simp add: tcp_frame_def ip_packet_def ip_head_def ip_addrs_def wire_simps host_ok_def Let_def)
  then show "ntohs (get16 b 34) = tc_local_port c" "ntohs (get16 b 36) = tc_remote_port c"
    "ntohl (get32 b 38) = tc_snd_nxt c" "ntohl (get32 b 42) = tc_rcv_nxt c" "b 47 = flags"
    by (simp_all add: tcp_segment_def tcp_head_def le_bytes_2 le_bytes_4)
qed

lemma drop_tcp_frame: "length mac = 6 \<Longrightarrow> host_ok s \<Longrightarrow> drop 54 (tcp_frame mac s c flags data) = data"
  by (simp add: tcp_frame_def ip_packet_def ip_head_def ip_addrs_def host_ok_def tcp_segment_def Let_def)

lemma length_tcp_frame: "length mac = 6 \<Longrightarrow> host_ok s \<Longrightarrow> length (tcp_frame mac s c flags data) = 54 + length data"
  by (simp add: tcp_frame_def host_ok_def)

text \<open>Outgoing data leaves in segments of at most 1000 bytes with consecutive numbers; their
  payloads together are the data.\<close>

lemma send_loop_log:
  assumes "host_ok s" "mkrn_arp_resolve (next_hop (tc_remote_ip (conn s k)) s) s = Some mac" "length mac = 6"
    "k < length (tcp_conns s)"
  shows "\<exists>frames s1. send_loop log_tx k data s = (True, s1) \<and> hw s1 = hw s @ frames \<and> concat (map (drop 54) frames) = data \<and>
    (\<forall>j < length frames. length (frames ! j) \<le> 1054 \<and> (\<forall>b. holds b (frames ! j) \<longrightarrow>
       ntohl (get32 b 38) = tc_snd_nxt (conn s k) + of_nat (1000 * j) \<and> b 47 = TCP_ACK OR TCP_PSH)) \<and>
    conn s1 k = (conn s k)\<lparr>tc_snd_nxt := tc_snd_nxt (conn s k) + of_nat (length data)\<rparr>"
  using assms
proof (induction "length data" arbitrary: data s rule: less_induct)
  case less
  show ?case
  proof (cases "data = []")
    case True
    then show ?thesis by (subst send_loop.simps) simp
  next
    case False
    define n where "n = (if length data > 1000 then 1000 else length data)"
    have n: "n \<le> 1000" "n \<le> length data" "0 < n" using False by (auto simp: n_def)
    define c where "c = conn s k"
    define t where "t = s\<lparr>tcp_conns := (tcp_conns s)[k := advance (TCP_ACK OR TCP_PSH) n c], net_ip_id := net_ip_id s + 1,
      hw := hw s @ [tcp_frame mac s c (TCP_ACK OR TCP_PSH) (take n data)]\<rparr>"
    have adv: "advance (TCP_ACK OR TCP_PSH) n c = c\<lparr>tc_snd_nxt := tc_snd_nxt c + of_nat n\<rparr>"
      by (simp add: advance_def tcp_flags)
    have "tcp_emit log_tx k (TCP_ACK OR TCP_PSH) (take n data) s = (int (length mac + 48 + n), t)"
      using tcp_emit_log[OF less.prems(1,2), of "take n data" "TCP_ACK OR TCP_PSH"] n by (simp add: t_def c_def)
    then have e: "send_loop log_tx k data s = send_loop log_tx k (drop n data) t"
      using False by (subst send_loop.simps) (simp add: n_def[symmetric] Let_def)
    have ck: "conn t k = c\<lparr>tc_snd_nxt := tc_snd_nxt c + of_nat n\<rparr>" using less.prems(4) by (simp add: t_def adv)
    have "length (drop n data) < length data" using n by simp
    moreover have "host_ok t" "mkrn_arp_resolve (next_hop (tc_remote_ip (conn t k)) t) t = Some mac" "k < length (tcp_conns t)"
      using less.prems unfolding ck by (simp_all add: t_def c_def)
    ultimately obtain fs s1 where I: "send_loop log_tx k (drop n data) t = (True, s1)" "hw s1 = hw t @ fs"
      "concat (map (drop 54) fs) = drop n data"
      "\<forall>j < length fs. length (fs ! j) \<le> 1054 \<and> (\<forall>b. holds b (fs ! j) \<longrightarrow>
         ntohl (get32 b 38) = tc_snd_nxt (conn t k) + of_nat (1000 * j) \<and> b 47 = TCP_ACK OR TCP_PSH)"
      "conn s1 k = (conn t k)\<lparr>tc_snd_nxt := tc_snd_nxt (conn t k) + of_nat (length (drop n data))\<rparr>"
      using less.hyps less.prems(3) by blast
    let ?F = "tcp_frame mac s c (TCP_ACK OR TCP_PSH) (take n data)"
    have F: "length ?F \<le> 1054" "drop 54 ?F = take n data" "\<forall>b. holds b ?F \<longrightarrow> ntohl (get32 b 38) = tc_snd_nxt c \<and> b 47 = TCP_ACK OR TCP_PSH"
      using length_tcp_frame drop_tcp_frame frame_fields less.prems n by (auto simp: length_tcp_frame)
    have full: "n = 1000" if "fs \<noteq> []"
    proof (rule ccontr)
      assume "n \<noteq> 1000"
      then have d: "drop n data = []" by (auto simp: n_def split: if_splits)
      then have "hw s1 = hw t" using I(1) by (simp add: send_loop.simps)
      then show False using I(2) that by simp
    qed
    then have full': "of_nat n = (1000 :: u32)" if "i < length fs" for i using that by (cases fs) auto
    have all: "\<forall>j < length (?F # fs). length ((?F # fs) ! j) \<le> 1054 \<and> (\<forall>b. holds b ((?F # fs) ! j) \<longrightarrow>
         ntohl (get32 b 38) = tc_snd_nxt c + of_nat (1000 * j) \<and> b 47 = TCP_ACK OR TCP_PSH)"
    proof (intro allI impI)
      fix j assume "j < length (?F # fs)"
      then show "length ((?F # fs) ! j) \<le> 1054 \<and> (\<forall>b. holds b ((?F # fs) ! j) \<longrightarrow>
         ntohl (get32 b 38) = tc_snd_nxt c + of_nat (1000 * j) \<and> b 47 = TCP_ACK OR TCP_PSH)"
        using F I(4) full' by (cases j) (auto simp: ck algebra_simps)
    qed
    show ?thesis
      using e I(1,2,3,5) F(2) all n
      by (intro exI[of _ "?F # fs"] exI[of _ s1]) (simp add: t_def[THEN arg_cong, of hw] ck c_def[symmetric] of_nat_diff)
  qed
qed

text \<open>C40. A send on an established connection whose next hop is resolved, over a card that
  accepts every frame, returns the length of the data and leaves it on the wire in order: the payloads of the frames put together
  are the data, no frame carries more than 1000 bytes, the frames carry consecutive sequence
  numbers, and the send position ends behind the last byte.\<close>

theorem tcp_send_correct:
  assumes "host_ok s" "mkrn_arp_resolve (next_hop (tc_remote_ip (conn s k)) s) s = Some mac" "length mac = 6"
    "length (tcp_conns s) = TCP_MAX_CONNS" "k < TCP_MAX_CONNS" "tc_used (conn s k)" "tc_state (conn s k) = TS_ESTABLISHED"
  shows "\<exists>frames s1. mkrn_tcp_send log_tx (int k) data s = (int (length data), s1) \<and> hw s1 = hw s @ frames \<and>
    concat (map (drop 54) frames) = data \<and>
    (\<forall>j < length frames. length (frames ! j) \<le> 1054 \<and> (\<forall>b. holds b (frames ! j) \<longrightarrow>
       ntohl (get32 b 38) = tc_snd_nxt (conn s k) + of_nat (1000 * j))) \<and>
    tc_snd_nxt (conn s1 k) = tc_snd_nxt (conn s k) + of_nat (length data)"
proof -
  have "k < length (tcp_conns s)" using assms by simp
  from send_loop_log[OF assms(1-3) this, of data] obtain frames s1 where
    "send_loop log_tx k data s = (True, s1)" "hw s1 = hw s @ frames" "concat (map (drop 54) frames) = data"
    "\<forall>j < length frames. length (frames ! j) \<le> 1054 \<and> (\<forall>b. holds b (frames ! j) \<longrightarrow>
       ntohl (get32 b 38) = tc_snd_nxt (conn s k) + of_nat (1000 * j) \<and> b 47 = TCP_ACK OR TCP_PSH)"
    "conn s1 k = (conn s k)\<lparr>tc_snd_nxt := tc_snd_nxt (conn s k) + of_nat (length data)\<rparr>" by blast
  then show ?thesis using assms(5-7)
    by (intro exI[of _ frames] exI[of _ s1]) (simp add: mkrn_tcp_send_def Let_def)
qed


section \<open>The handshake\<close>

lemma free_conn_Some: "free_conn i cs = Some k \<Longrightarrow> i \<le> k \<and> k < i + length cs \<and> \<not> tc_used (cs ! (k - i))"
proof (induction cs arbitrary: i)
  case (Cons c cs)
  show ?case
  proof (cases "tc_used c")
    case True
    then have "Suc i \<le> k \<and> k < Suc i + length cs \<and> \<not> tc_used (cs ! (k - Suc i))"
      using Cons.IH[of "Suc i"] Cons.prems by simp
    moreover from this have "k - i = Suc (k - Suc i)" by linarith
    ultimately show ?thesis by simp
  qed (use Cons.prems in simp)
qed simp

lemma handle_conns_skip:
  assumes "\<And>j. i0 \<le> j \<Longrightarrow> j < i \<Longrightarrow> \<not> tc_used (conn s j) \<or> tc_remote_ip (conn s j) \<noteq> src \<or> ntohs (get16 b 2) \<noteq> tc_local_port (conn s j)"
    "i0 \<le> i" "i \<le> TCP_MAX_CONNS"
  shows "handle_conns tx b len hdrlen src i0 s = handle_conns tx b len hdrlen src i s"
  using assms
proof (induction "i - i0" arbitrary: i0)
  case (Suc m)
  then have "handle_conns tx b len hdrlen src (i0 + 1) s = handle_conns tx b len hdrlen src i s" by simp
  moreover have "handle_conns tx b len hdrlen src i0 s = handle_conns tx b len hdrlen src (i0 + 1) s"
    using Suc.prems(1)[of i0] Suc.hyps(2) Suc.prems(3) by (subst handle_conns.simps) (auto simp: Let_def)
  ultimately show ?case by simp
qed simp

text \<open>A connection attempt sends a SYN; a SYN-ACK of the peer to the local port
  establishes the connection, whatever port it comes from, and is acknowledged.\<close>

theorem tcp_handshake:
  assumes "host_ok s" "mkrn_arp_resolve (next_hop rip s) s = Some mac" "length mac = 6" "length (tcp_conns s) = TCP_MAX_CONNS"
    and "free_conn 0 (tcp_conns s) = Some i"
    and "\<And>j. j < TCP_MAX_CONNS \<Longrightarrow> tc_used (conn s j) \<Longrightarrow> tc_local_port (conn s j) \<noteq> tcp_next_port s"
  shows "\<exists>F s1. mkrn_tcp_connect log_tx rip rport s = (int i, s1) \<and> hw s1 = hw s @ [F] \<and> mkrn_tcp_state (int i) s1 = 1 \<and>
    (\<forall>b. holds b F \<longrightarrow> b 47 = TCP_SYN \<and> ntohs (get16 b 34) = tcp_next_port s \<and> ntohs (get16 b 36) = rport \<and>
       ntohl (get32 b 38) = 0x1000) \<and>
    (\<forall>p len. 20 \<le> len \<longrightarrow> unat (drop_bit 4 (p 12)) * 4 \<in> {20..len} \<longrightarrow> ntohs (get16 p 2) = tcp_next_port s \<longrightarrow>
       p 13 AND TCP_SYN \<noteq> 0 \<longrightarrow> p 13 AND TCP_ACK \<noteq> 0 \<longrightarrow>
       (\<exists>G s2. mkrn_tcp_handle_packet log_tx p len rip s1 = s2 \<and> hw s2 = hw s1 @ [G] \<and> mkrn_tcp_state (int i) s2 = 2 \<and>
          tc_remote_port (conn s2 i) = ntohs (get16 p 0) \<and> tc_rcv_nxt (conn s2 i) = ntohl (get32 p 4) + 1 \<and>
          (\<forall>b. holds b G \<longrightarrow> b 47 = TCP_ACK \<and> ntohl (get32 b 38) = 0x1001 \<and> ntohl (get32 b 42) = ntohl (get32 p 4) + 1)))"
proof -
  have i: "i < length (tcp_conns s)" "i < TCP_MAX_CONNS" using free_conn_Some[OF assms(5)] assms(4) by auto
  define c where "c = (conn s i)\<lparr>tc_used := True, tc_state := TS_SYN_SENT, tc_remote_ip := rip, tc_remote_port := rport,
     tc_local_port := tcp_next_port s, tc_snd_nxt := 0x1000, tc_rcv_nxt := 0, tc_rlen := 0\<rparr>"
  define t where "t = s\<lparr>tcp_next_port := tcp_next_port s + 1, tcp_conns := (tcp_conns s)[i := c]\<rparr>"
  have t: "conn t i = c" "host_ok t" "mkrn_arp_resolve (next_hop (tc_remote_ip (conn t i)) t) t = Some mac" "hw t = hw s"
    using i assms by (simp_all add: t_def c_def)
  define F where "F = tcp_frame mac t c TCP_SYN []"
  define s1 where "s1 = t\<lparr>tcp_conns := (tcp_conns t)[i := advance TCP_SYN 0 c], net_ip_id := net_ip_id t + 1, hw := hw t @ [F]\<rparr>"
  have "tcp_emit log_tx i TCP_SYN [] t = (54, s1)"
    using tcp_emit_log[OF t(2,3), of "[]" TCP_SYN] assms(3) by (simp add: t(1) s1_def F_def)
  then have 1: "mkrn_tcp_connect log_tx rip rport s = (int i, s1)"
    using assms(5) by (simp add: mkrn_tcp_connect_def Let_def t_def c_def)
  have s1: "conn s1 i = c\<lparr>tc_snd_nxt := 0x1001\<rparr>" "host_ok s1" "hw s1 = hw s @ [F]" "tcp_conns s1 = (tcp_conns s)[i := c\<lparr>tc_snd_nxt := 0x1001\<rparr>]"
    "mkrn_arp_resolve (next_hop rip s1) s1 = Some mac"
    using i t assms(2) by (simp_all add: s1_def t_def advance_def tcp_flags c_def)
  have 2: "b 47 = TCP_SYN \<and> ntohs (get16 b 34) = tcp_next_port s \<and> ntohs (get16 b 36) = rport \<and> ntohl (get32 b 38) = 0x1000"
    if "holds b F" for b using frame_fields[OF that[unfolded F_def] assms(3) t(2)] by (simp add: c_def)
  have 3: "\<exists>G s2. mkrn_tcp_handle_packet log_tx p len rip s1 = s2 \<and> hw s2 = hw s1 @ [G] \<and> mkrn_tcp_state (int i) s2 = 2 \<and>
          tc_remote_port (conn s2 i) = ntohs (get16 p 0) \<and> tc_rcv_nxt (conn s2 i) = ntohl (get32 p 4) + 1 \<and>
          (\<forall>b. holds b G \<longrightarrow> b 47 = TCP_ACK \<and> ntohl (get32 b 38) = 0x1001 \<and> ntohl (get32 b 42) = ntohl (get32 p 4) + 1)"
    if p: "20 \<le> len" "unat (drop_bit 4 (p 12)) * 4 \<in> {20..len}" "ntohs (get16 p 2) = tcp_next_port s"
      "p 13 AND TCP_SYN \<noteq> 0" "p 13 AND TCP_ACK \<noteq> 0" for p len
  proof -
    define d where "d = c\<lparr>tc_snd_nxt := 0x1001, tc_remote_port := ntohs (get16 p 0), tc_rcv_nxt := ntohl (get32 p 4) + 1\<rparr>"
    define u where "u = s1\<lparr>tcp_conns := (tcp_conns s)[i := d]\<rparr>"
    have u: "conn u i = d" "host_ok u" "mkrn_arp_resolve (next_hop (tc_remote_ip (conn u i)) u) u = Some mac" "hw u = hw s1"
      using i s1 by (simp_all add: u_def d_def c_def)
    let ?G = "tcp_frame mac u d TCP_ACK []"
    have "advance TCP_ACK 0 d = d" by (simp add: advance_def tcp_flags)
    then have emit: "snd (tcp_emit log_tx i TCP_ACK [] u) = u\<lparr>net_ip_id := net_ip_id u + 1, hw := hw u @ [?G]\<rparr>"
      using tcp_emit_log[OF u(2,3), of "[]" TCP_ACK] i by (simp add: u(1)) (simp add: u_def)
    let ?h = "unat (drop_bit 4 (p 12)) * 4"
    have "mkrn_tcp_handle_packet log_tx p len rip s1 = handle_conns log_tx p len ?h rip 0 s1"
      using p by (auto simp: mkrn_tcp_handle_packet_def Let_def)
    also have "\<dots> = handle_conns log_tx p len ?h rip i s1"
    proof (rule handle_conns_skip)
      fix j assume "j < i"
      then show "\<not> tc_used (conn s1 j) \<or> tc_remote_ip (conn s1 j) \<noteq> rip \<or> ntohs (get16 p 2) \<noteq> tc_local_port (conn s1 j)"
        using assms(6)[of j] i p(3) by (auto simp: s1(4))
    qed (use i in simp_all)
    also have "\<dots> = upd_conn i (tc_state_update (\<lambda>_. TS_ESTABLISHED)) (snd (tcp_emit log_tx i TCP_ACK [] u))"
    proof -
      have c1: "tc_used (conn s1 i)" "tc_remote_ip (conn s1 i) = rip" "tc_local_port (conn s1 i) = tcp_next_port s"
        "tc_state (conn s1 i) = TS_SYN_SENT" by (simp_all add: s1(1) c_def)
      have "upd_conn i (\<lambda>c. c\<lparr>tc_rcv_nxt := ntohl (get32 p 4) + 1\<rparr>)
         (if ntohs (get16 p 0) \<noteq> tc_remote_port (conn s1 i) then upd_conn i (\<lambda>c. c\<lparr>tc_remote_port := ntohs (get16 p 0)\<rparr>) s1 else s1) = u"
        using i by (auto simp: u_def s1(4) d_def)
      then show ?thesis using i p(3-5) c1 by (subst handle_conns.simps) (simp add: Let_def cong: if_cong, auto simp: u_def s1(4) d_def)
    qed
    finally have e: "mkrn_tcp_handle_packet log_tx p len rip s1 =
      upd_conn i (tc_state_update (\<lambda>_. TS_ESTABLISHED)) (u\<lparr>net_ip_id := net_ip_id u + 1, hw := hw u @ [?G]\<rparr>)" using emit by simp
    have "b 47 = TCP_ACK \<and> ntohl (get32 b 38) = 0x1001 \<and> ntohl (get32 b 42) = ntohl (get32 p 4) + 1" if "holds b ?G" for b
      using frame_fields[OF that assms(3) u(2)] by (simp add: d_def)
    then show ?thesis using i u unfolding e
      by (intro exI[of _ ?G] exI conjI) (auto simp: u_def d_def c_def mkrn_tcp_state_def tcp_state_code_def)
  qed
  show ?thesis using 1 2 3 s1 i
    by (intro exI[of _ F] exI[of _ s1]) (auto simp: mkrn_tcp_state_def tcp_state_code_def c_def)
qed


section \<open>Weak points\<close>

text \<open>A refused connection never shows as \<open>TS_CLOSED\<close>: a reset releases the slot, and the state of
  a released slot is -1. The connect call waits for 0 and so polls until its limit.\<close>

theorem tcp_reset_state:
  assumes "k < TCP_MAX_CONNS" "length (tcp_conns s) = TCP_MAX_CONNS" "tc_state (conn s k) = TS_SYN_SENT" "b 13 AND TCP_SYN = 0"
    "\<And>j. j < k \<Longrightarrow> \<not> tc_used (conn s j) \<or> tc_local_port (conn s j) \<noteq> ntohs (get16 b 2)"
    "matches (conn s k) b src" "b 13 AND TCP_RST \<noteq> 0" "20 \<le> len" "unat (drop_bit 4 (b 12)) * 4 \<in> {20..len}"
  shows "mkrn_tcp_state (int k) (mkrn_tcp_handle_packet tx b len src s) = - 1"
proof -
  let ?h = "unat (drop_bit 4 (b 12)) * 4"
  have "mkrn_tcp_handle_packet tx b len src s = handle_conns tx b len ?h src 0 s"
    using assms(8,9) by (auto simp: mkrn_tcp_handle_packet_def Let_def)
  also have "\<dots> = handle_conns tx b len ?h src k s"
    using assms(1,5) by (intro handle_conns_skip) fastforce+
  also have "\<dots> = upd_conn k (\<lambda>c. c\<lparr>tc_state := TS_CLOSED, tc_used := False\<rparr>) s"
    using assms by (subst handle_conns.simps) (simp add: Let_def matches_def)
  finally show ?thesis using assms(1,2) by (simp add: mkrn_tcp_state_def)
qed

text \<open>A negative length in a read raises the fill level: the buffer then claims more
  bytes than it has.\<close>

theorem tcp_recv_negative:
  assumes "k < TCP_MAX_CONNS" "length (tcp_conns s) = TCP_MAX_CONNS" "tc_used (conn s k)" "tc_rlen (conn s k) = 1"
  shows "\<exists>s1. mkrn_tcp_recv (int k) (- 4096) s = Some ((- 4096, []), s1) \<and> unat (tc_rlen (conn s1 k)) = 4097 \<and>
    unat (tc_rlen (conn s1 k)) > TCP_RX_BUF"
proof -
  have "unat (of_int (- 4096) :: u16) = 61440" by simp
  then show ?thesis using assms by (simp add: mkrn_tcp_recv_def Let_def TCP_RX_BUF_def)
qed

text \<open>A FIN is taken at its arrival even when data before it is missing; the number of the
  missing data no longer matches and the data is lost.\<close>

theorem tcp_early_fin:
  assumes "b 13 = TCP_FIN OR TCP_ACK" "ntohl (get32 b 4) \<noteq> tc_rcv_nxt c" "tc_state c = TS_ESTABLISHED"
  shows "tc_rcv_nxt (segment_in b hdrlen len c) = tc_rcv_nxt c + 1"
    and "ntohl (get32 p 4) = tc_rcv_nxt c \<Longrightarrow> data_in p h n (segment_in b hdrlen len c) = segment_in b hdrlen len c"
  using assms by (simp_all add: segment_in_def fin_in_def data_in_def tcp_flags Let_def)


section \<open>Witnesses\<close>

theorem tcp_segment_checksum_witness:
  "mkrn_net_checksum (pseudo_header 0x0A00020F (tc_remote_ip (conn (net_zero ()) 0)) 21 @
     tcp_segment 0x0A00020F (conn (net_zero ()) 0) TCP_SYN [7]) = 0"
  using tcp_segment_checksum[of "[7]" "0x0A00020F" "conn (net_zero ()) 0" TCP_SYN] by simp

theorem tcp_handshake_witness:
  "\<exists>F s1. mkrn_tcp_connect log_tx 0x0A000210 80 peer_a = (0, s1) \<and> hw s1 = [F] \<and> mkrn_tcp_state 0 s1 = 1"
proof -
  have c: "tcp_conns peer_a = tcp_conns (net_zero ([] :: u8 list list))" by (simp add: knows_ok demo_host_ok)
  have f: "free_conn 0 (replicate 4 d) = Some 0" if "\<not> tc_used d" for d using that by (simp add: numeral_eq_Suc)
  have "length (tcp_conns peer_a) = TCP_MAX_CONNS" "free_conn 0 (tcp_conns peer_a) = Some 0"
    "\<And>j. j < TCP_MAX_CONNS \<Longrightarrow> tc_used (conn peer_a j) \<Longrightarrow> tc_local_port (conn peer_a j) \<noteq> tcp_next_port peer_a"
    by (simp_all add: c net_zero_def TCP_MAX_CONNS_def f)
  from tcp_handshake[OF peers_ok(1,2) _ this, of 80] show ?thesis by (auto simp: peers_ok(7))
qed

text \<open>An established connection of \<open>peer_a\<close> to port 80 of the other host.\<close>

definition open_conn :: tcp_conn where
  "open_conn = \<lparr>tc_used = True, tc_state = TS_ESTABLISHED, tc_remote_ip = 0x0A000210, tc_local_port = 1024,
     tc_remote_port = 80, tc_snd_nxt = 0x1001, tc_rcv_nxt = 7, tc_rbuf = replicate TCP_RX_BUF 0, tc_rlen = 0\<rparr>"

definition open_peer :: "u8 list list net" where
  "open_peer = upd_conn 0 (\<lambda>_. open_conn) peer_a"

lemma open_peer_ok: "length (tcp_conns open_peer) = TCP_MAX_CONNS" "conn open_peer 0 = open_conn" "host_ok open_peer"
  "mkrn_arp_resolve (next_hop 0x0A000210 open_peer) open_peer = Some [2, 0, 0, 0, 0, 2]" "hw open_peer = []"
  using peers_ok by (simp_all add: open_peer_def knows_ok demo_host_ok net_zero_def TCP_MAX_CONNS_def)

theorem tcp_send_correct_witness:
  "\<exists>frames s1. mkrn_tcp_send log_tx 0 [71, 69, 84] open_peer = (3, s1) \<and> hw s1 = frames \<and> concat (map (drop 54) frames) = [71, 69, 84]"
  using tcp_send_correct[of open_peer 0 "[2, 0, 0, 0, 0, 2]" "[71, 69, 84]"] open_peer_ok
  by (auto simp: open_conn_def TCP_MAX_CONNS_def)

definition hello :: buf where
  "hello i = (if i < 22 then [0, 80, 4, 0, 0, 0, 0, 7, 0, 0, 16, 1, 0x50, 0x10, 0, 0, 0, 0, 0, 0, 104, 105] ! i else 0)"

theorem tcp_stream_in_order_witness:
  "\<exists>got s1 n. tcp_run log_tx 0 [Segment hello 22 0x0A000210, Read 10, Segment hello 22 0x0A000210] ([], open_peer) = Some (got, s1) \<and>
     n \<le> 2 \<and> got @ take (unat (tc_rlen (conn s1 0))) (tc_rbuf (conn s1 0)) = map (\<lambda>i. [104, 105] ! i) [0..<n]"
proof -
  have h: "honest (\<lambda>i. [104, 105] ! i) 2 7 open_conn (Segment hello 22 0x0A000210)"
  proof -
    have "ntohl (get32 hello 4) = 7" "hello 13 = 0x10" "unat (drop_bit 4 (hello 12)) * 4 = 20" by code_simp+
    moreover have "hello 20 = 104" "hello 21 = 105" by code_simp+
    ultimately show ?thesis
      by (auto simp: honest_def Let_def tcp_flags less_2_cases_iff intro!: exI[of _ 0])
  qed
  show ?thesis
    using tcp_stream_in_order[of 0 open_peer 2 "[Segment hello 22 0x0A000210, Read 10, Segment hello 22 0x0A000210]" "\<lambda>i. [104, 105] ! i" log_tx]
      h open_peer_ok by (force simp: open_conn_def TCP_MAX_CONNS_def honest_def)
qed

end
