(* ===== verification/SyscallTable.thy ===== *)
theory SyscallTable
  imports Prelude
begin

text \<open>
  The two tables of system calls (\<open>sys/src/kernel/syscall.c\<close> for the gate \<open>0x80\<close>,
  \<open>sys/src/kernel/syscall_m4k.c\<close> for the gate \<open>0x4D\<close>) with their permissions and counters.
  A handler is a value of the type \<open>'f\<close>; \<open>run\<close> says what calling it does to the rest \<open>'s\<close>
  of the kernel, and \<open>cur\<close> whether there is a current process. Saving the registers, the
  interrupt gates and messages on the console are left out. The laws both tables share
  are the locale \<open>call_table\<close>.
\<close>

unbundle bit_operations_syntax

record 'f mkrn_syscall_entry =
  ent_handler :: "'f option"
  ent_permission_mask :: u32
  ent_name :: "string option"
  ent_registered :: bool

record 'f syscalls =
  g_syscall_table :: "'f mkrn_syscall_entry list"
  total_calls :: u32
  failed_calls :: u32
  permission_denied :: u32

text \<open>What a call does: it returns a value, it leaves the processor to the process at an address
  (0 when none is ready), or it waits for another process.\<close>

datatype sc_result = Ret u32 | Leaves u32 | Waits

type_synonym sc_args = "u32 \<times> u32 \<times> u32 \<times> u32 \<times> u32"

definition PERM_LEVEL_KERNEL :: u32 where "PERM_LEVEL_KERNEL = 0xFFFFFFFF"
definition PERM_LEVEL_USER :: u32 where "PERM_LEVEL_USER = 0x00000001"
definition M4K_SC_ERROR :: u32 where "M4K_SC_ERROR = -1"
definition M4K_SC_SUCCESS :: u32 where "M4K_SC_SUCCESS = 0"

definition entry_zero :: "'f mkrn_syscall_entry" where
  "entry_zero = \<lparr>ent_handler = None, ent_permission_mask = 0, ent_name = None, ent_registered = False\<rparr>"

definition entry_of :: "u32 \<Rightarrow> 'f syscalls \<Rightarrow> 'f mkrn_syscall_entry" where
  "entry_of n t = g_syscall_table t ! unat n"

definition set_entry :: "u32 \<Rightarrow> ('f mkrn_syscall_entry \<Rightarrow> 'f mkrn_syscall_entry) \<Rightarrow> 'f syscalls \<Rightarrow> 'f syscalls" where
  "set_entry n f t = t\<lparr>g_syscall_table := (g_syscall_table t)[unat n := f (entry_of n t)]\<rparr>"

section \<open>The gate 0x80\<close>

definition mkrn_syscall_table_init :: "'f syscalls \<Rightarrow> 'f syscalls" where
  "mkrn_syscall_table_init t =
     t\<lparr>g_syscall_table := replicate 256 entry_zero, total_calls := 0, failed_calls := 0, permission_denied := 0\<rparr>"

definition mkrn_syscall_check_permission :: "u32 \<Rightarrow> u32 \<Rightarrow> 'f syscalls \<Rightarrow> bool" where
  "mkrn_syscall_check_permission uNum uCurPerm t =
     (if uNum \<ge> 256 \<or> \<not> ent_registered (entry_of uNum t) then False
      else if uCurPerm = PERM_LEVEL_KERNEL then True
      else uCurPerm AND ent_permission_mask (entry_of uNum t) \<noteq> 0)"

text \<open>\<open>None\<close> is a handler that loops for ever.\<close>

definition mkrn_syscall_handler ::
    "('f \<Rightarrow> sc_args \<Rightarrow> 's \<Rightarrow> (sc_result \<times> 's) option) \<Rightarrow> ('s \<Rightarrow> bool) \<Rightarrow> u32 \<Rightarrow> sc_args \<Rightarrow> 'f syscalls \<times> 's \<Rightarrow> (sc_result \<times> 'f syscalls \<times> 's) option" where
  "mkrn_syscall_handler run cur uSyscallNum args ts =
     (case ts of (t0, s) \<Rightarrow>
      let t = t0\<lparr>total_calls := total_calls t0 + 1\<rparr> in
      if uSyscallNum \<ge> 256 then Some (Ret M4K_SC_ERROR, t\<lparr>failed_calls := failed_calls t + 1\<rparr>, s)
      else if \<not> ent_registered (entry_of uSyscallNum t) then Some (Ret M4K_SC_ERROR, t\<lparr>failed_calls := failed_calls t + 1\<rparr>, s)
      else let uCurPerm = (if cur s then PERM_LEVEL_USER else PERM_LEVEL_KERNEL) in
        if \<not> mkrn_syscall_check_permission uSyscallNum uCurPerm t
        then Some (Ret M4K_SC_ERROR, t\<lparr>permission_denied := permission_denied t + 1\<rparr>, s)
        else case ent_handler (entry_of uSyscallNum t) of
          Some h \<Rightarrow> map_option (\<lambda>(r, s'). (r, t, s')) (run h args s)
        | None \<Rightarrow> Some (Ret M4K_SC_ERROR, t\<lparr>failed_calls := failed_calls t + 1\<rparr>, s))"

definition mkrn_syscall_get_name :: "u32 \<Rightarrow> string" where
  "mkrn_syscall_get_name uNum =
     (case map_of [(0x01, ''exit''), (0x02, ''fork''), (0x03, ''read''), (0x04, ''write''), (0x05, ''open''), (0x06, ''close''),
        (0x07, ''waitpid''), (0x08, ''execve''), (0x09, ''getpid''), (0x0A, ''getppid''), (0x0B, ''brk''), (0x10, ''getcwd''),
        (0x11, ''chdir''), (0x12, ''mkdir''), (0x13, ''rmdir''), (0x15, ''unlink''), (0x16, ''rename''), (0x1E, ''time''),
        (0x28, ''pipe''), (0x2A, ''dup2''), (0x47, ''getdents''), (0x64, ''kill''), (0x6D, ''reboot''), (0x73, ''uname''),
        (0x84, ''sysinfo''), (0x85, ''getprocs''), (0x86, ''statfs''), (0x87, ''mount''), (0x88, ''umount''), (0x89, ''mountinfo''),
        (0x20, ''getuid''), (0x21, ''getgid''), (0x22, ''setuid''), (0x23, ''setgid''), (0x24, ''geteuid''), (0x5D, ''settimeofday''),
        (0x8C, ''uptime''), (0x8D, ''rtcread''), (0x8E, ''rtcwrite''), (0x8F, ''timerlist''), (0x25, ''getegid''), (0x26, ''seteuid''),
        (0x27, ''setegid''), (0x1B, ''chmod''), (0x1C, ''chown''), (0x1A, ''access''), (0x8A, ''getgroups''), (0x8B, ''setgroups'')]
        uNum of Some s \<Rightarrow> s | None \<Rightarrow> ''unknown'')"

text \<open>A null handler is \<open>None\<close>.\<close>

definition mkrn_syscall_register :: "u32 \<Rightarrow> 'f option \<Rightarrow> 'f syscalls \<Rightarrow> 'f syscalls" where
  "mkrn_syscall_register uNum pHandler t =
     (if uNum \<ge> 256 then t
      else if pHandler = None then t
      else set_entry uNum (\<lambda>_. \<lparr>ent_handler = pHandler, ent_permission_mask = PERM_LEVEL_USER,
                               ent_name = Some (mkrn_syscall_get_name uNum), ent_registered = True\<rparr>) t)"

definition mkrn_syscall_unregister :: "u32 \<Rightarrow> 'f syscalls \<Rightarrow> 'f syscalls" where
  "mkrn_syscall_unregister uNum t =
     (if uNum \<ge> 256 then t
      else if \<not> ent_registered (entry_of uNum t) then t
      else set_entry uNum (\<lambda>_. \<lparr>ent_handler = None, ent_permission_mask = 0, ent_name = None, ent_registered = False\<rparr>) t)"

definition mkrn_syscall_set_permission :: "u32 \<Rightarrow> u32 \<Rightarrow> 'f syscalls \<Rightarrow> 'f syscalls" where
  "mkrn_syscall_set_permission uNum uPermMask t =
     (if uNum \<ge> 256 then t else set_entry uNum (\<lambda>e. e\<lparr>ent_permission_mask := uPermMask\<rparr>) t)"

definition mkrn_syscall_is_registered :: "u32 \<Rightarrow> 'f syscalls \<Rightarrow> bool" where
  "mkrn_syscall_is_registered uNum t \<longleftrightarrow> uNum < 256 \<and> ent_registered (entry_of uNum t)"

definition mkrn_syscall_get_handler :: "u32 \<Rightarrow> 'f syscalls \<Rightarrow> 'f option" where
  "mkrn_syscall_get_handler uNum t =
     (if uNum \<ge> 256 \<or> \<not> ent_registered (entry_of uNum t) then None else ent_handler (entry_of uNum t))"

definition mkrn_syscall_get_stats :: "'f syscalls \<Rightarrow> u32 \<times> u32 \<times> u32" where
  "mkrn_syscall_get_stats t = (total_calls t, failed_calls t, permission_denied t)"

definition mkrn_syscall_execute ::
    "('f \<Rightarrow> sc_args \<Rightarrow> 's \<Rightarrow> (sc_result \<times> 's) option) \<Rightarrow> ('s \<Rightarrow> bool) \<Rightarrow> u32 \<Rightarrow> sc_args \<Rightarrow> 'f syscalls \<times> 's \<Rightarrow> (sc_result \<times> 'f syscalls \<times> 's) option" where
  "mkrn_syscall_execute run cur uNum args ts =
     (if uNum \<ge> 256 \<or> \<not> ent_registered (entry_of uNum (fst ts)) then Some (Ret M4K_SC_ERROR, ts)
      else mkrn_syscall_handler run cur uNum args ts)"

section \<open>The gate 0x4D\<close>

definition m4k_syscall_table_init :: "'f syscalls \<Rightarrow> 'f syscalls" where
  "m4k_syscall_table_init t =
     t\<lparr>g_syscall_table := replicate 256 entry_zero, total_calls := 0, failed_calls := 0, permission_denied := 0\<rparr>"

definition m4k_syscall_check_permission :: "u32 \<Rightarrow> u32 \<Rightarrow> 'f syscalls \<Rightarrow> bool" where
  "m4k_syscall_check_permission syscall_num current_permission t =
     (if syscall_num \<ge> 256 \<or> \<not> ent_registered (entry_of syscall_num t) then False
      else if current_permission = PERM_LEVEL_KERNEL then True
      else current_permission AND ent_permission_mask (entry_of syscall_num t) \<noteq> 0)"

definition m4k_syscall_handler ::
    "('f \<Rightarrow> sc_args \<Rightarrow> 's \<Rightarrow> (sc_result \<times> 's) option) \<Rightarrow> ('s \<Rightarrow> bool) \<Rightarrow> u32 \<Rightarrow> sc_args \<Rightarrow> 'f syscalls \<times> 's \<Rightarrow> (sc_result \<times> 'f syscalls \<times> 's) option" where
  "m4k_syscall_handler run cur syscall_num args ts =
     (case ts of (t0, s) \<Rightarrow>
      let t = t0\<lparr>total_calls := total_calls t0 + 1\<rparr>; idx = syscall_num AND 0xFF in
      if idx \<ge> 256 \<or> \<not> ent_registered (entry_of idx t) then Some (Ret 0x4D000000, t\<lparr>failed_calls := failed_calls t + 1\<rparr>, s)
      else let current_permission = (if cur s then PERM_LEVEL_USER else PERM_LEVEL_KERNEL) in
        if \<not> m4k_syscall_check_permission idx current_permission t
        then Some (Ret 0x4D000001, t\<lparr>permission_denied := permission_denied t + 1\<rparr>, s)
        else case ent_handler (entry_of idx t) of
          Some h \<Rightarrow> map_option (\<lambda>(r, s'). (r, t, s')) (run h args s)
        | None \<Rightarrow> Some (Ret 0x4D000002, t\<lparr>failed_calls := failed_calls t + 1\<rparr>, s))"

definition m4k_syscall_get_name :: "u32 \<Rightarrow> string" where
  "m4k_syscall_get_name num =
     (case map_of [(0x4D000001, ''m4k_exit''), (0x4D000002, ''m4k_spawn''), (0x4D000009, ''m4k_read''), (0x4D00000A, ''m4k_write''),
        (0x4D00000B, ''m4k_open''), (0x4D00000C, ''m4k_close''), (0x4D00000D, ''m4k_exec''), (0x4D00000E, ''m4k_mmap''),
        (0x4D00000F, ''m4k_munmap''), (0x4D000011, ''m4k_ioctl''), (0x4D000012, ''m4k_fcntl''), (0x4D000013, ''m4k_select''),
        (0x4D000014, ''m4k_poll''), (0x4D000015, ''m4k_epoll''), (0x4D000007, ''m4k_fork_status''), (0x4D000003, ''m4k_waitpid''),
        (0x4D000005, ''m4k_kill''), (0x4D000006, ''m4k_getppid''), (0x4D000008, ''m4k_setns''), (0x4D000004, ''m4k_getpid''),
        (0x4D000016, ''m4k_getprocs''), (0x4D000020, ''m4k_getuid''), (0x4D000021, ''m4k_geteuid''), (0x4D000022, ''m4k_getgid''),
        (0x4D000023, ''m4k_getegid''), (0x4D000024, ''m4k_setuid''), (0x4D000025, ''m4k_setgid''), (0x4D000026, ''m4k_getgroups''),
        (0x4D000027, ''m4k_setgroups''), (0x4D000028, ''m4k_chmod''), (0x4D000029, ''m4k_chown''), (0x4D00002A, ''m4k_access''),
        (0x4D000030, ''m4k_setrlimit''), (0x4D000031, ''m4k_getrlimit''), (0x4D000040, ''m4k_brk''), (0x4D000041, ''m4k_register_session''),
        (0x4D000042, ''m4k_get_session_list''), (0x4D000043, ''m4k_yield''), (0x4D000050, ''m4k_get_framebuffer_info''),
        (0x4D000051, ''m4k_draw_test_pattern''), (0x4D000052, ''m4k_get_mouse_event''), (0x4D000053, ''m4k_flip''),
        (0x4D000054, ''m4k_draw_rect''), (0x4D000055, ''m4k_draw_text''), (0x4D000056, ''m4k_get_keyboard_event''),
        (0x4D000057, ''m4k_gfx_blit''), (0x4D00005F, ''m4k_gfx_blit_stride''), (0x4D00005D, ''m4k_fill_gradient''), (0x4D00005A, ''m4k_beep''),
        (0x4D00005E, ''m4k_play_pcm''), (0x4D00005B, ''m4k_sleep'')]
        num of Some s \<Rightarrow> s | None \<Rightarrow> ''unknown'')"

definition m4k_syscall_register :: "u32 \<Rightarrow> 'f option \<Rightarrow> 'f syscalls \<Rightarrow> 'f syscalls" where
  "m4k_syscall_register num handler t =
     (let idx = num AND 0xFF in
      if idx \<ge> 256 then t
      else if handler = None then t
      else set_entry idx (\<lambda>_. \<lparr>ent_handler = handler, ent_permission_mask = PERM_LEVEL_USER,
                              ent_name = Some (m4k_syscall_get_name num), ent_registered = True\<rparr>) t)"

section \<open>The contract of a gate\<close>

definition table_wf :: "'f syscalls \<Rightarrow> bool" where
  "table_wf t \<longleftrightarrow> length (g_syscall_table t) = 256 \<and> (\<forall>e \<in> set (g_syscall_table t). ent_registered e \<longrightarrow> ent_handler e \<noteq> None)"

text \<open>The handler that a call with a number below 256 reaches; processes need the user bit.\<close>

definition reached :: "bool \<Rightarrow> u32 \<Rightarrow> 'f syscalls \<Rightarrow> 'f option" where
  "reached user n t =
     (if n < 256 \<and> ent_registered (entry_of n t) \<and> (user \<longrightarrow> bit (ent_permission_mask (entry_of n t)) 0)
      then ent_handler (entry_of n t) else None)"

definition refusals :: "'f syscalls \<Rightarrow> u32" where
  "refusals t = failed_calls t + permission_denied t"

lemma entry_wf: "\<lbrakk>table_wf t; n < 256; ent_registered (entry_of n t)\<rbrakk> \<Longrightarrow> \<exists>h. ent_handler (entry_of n t) = Some h"
  by (auto simp: table_wf_def entry_of_def word_less_nat_alt)

lemma user_bit: "(PERM_LEVEL_USER AND m \<noteq> 0) = bit (m :: u32) 0"
  unfolding PERM_LEVEL_USER_def and.commute [of 1] and_one_eq bit_0 by (simp add: odd_iff_mod_2_eq_one)

lemma user_not_kernel: "PERM_LEVEL_USER \<noteq> PERM_LEVEL_KERNEL"
  by (simp add: PERM_LEVEL_USER_def PERM_LEVEL_KERNEL_def)

text \<open>A sequence of calls of a gate, and the handlers they reach.\<close>

type_synonym ('f, 's) gate = "('f \<Rightarrow> sc_args \<Rightarrow> 's \<Rightarrow> (sc_result \<times> 's) option) \<Rightarrow> ('s \<Rightarrow> bool) \<Rightarrow> u32 \<Rightarrow> sc_args \<Rightarrow>
  'f syscalls \<times> 's \<Rightarrow> (sc_result \<times> 'f syscalls \<times> 's) option"

fun gate_calls :: "('f, 's) gate \<Rightarrow> (u32 \<Rightarrow> u32) \<Rightarrow> ('f \<Rightarrow> sc_args \<Rightarrow> 's \<Rightarrow> (sc_result \<times> 's) option) \<Rightarrow> ('s \<Rightarrow> bool) \<Rightarrow>
    (u32 \<times> sc_args) list \<Rightarrow> 'f syscalls \<times> 's \<Rightarrow> ('f list \<times> 'f syscalls \<times> 's) option" where
  "gate_calls call slot run cur [] ts = Some ([], ts)"
| "gate_calls call slot run cur ((n, a) # cs) ts =
     (case call run cur n a ts of None \<Rightarrow> None
      | Some (r, ts') \<Rightarrow> map_option (\<lambda>(hs, e). (case reached (cur (snd ts)) (slot n) (fst ts) of None \<Rightarrow> hs | Some h \<Rightarrow> h # hs, e))
          (gate_calls call slot run cur cs ts'))"

locale call_table =
  fixes call :: "('f, 's) gate"
    and slot :: "u32 \<Rightarrow> u32" and refusal :: "u32 set"
  assumes call_reached: "\<lbrakk>table_wf t; reached (cur s) (slot n) t = Some h\<rbrakk> \<Longrightarrow>
      call run cur n a (t, s) = map_option (\<lambda>(r, s'). (r, t\<lparr>total_calls := total_calls t + 1\<rparr>, s')) (run h a s)"
    and call_refused: "\<lbrakk>table_wf t; reached (cur s) (slot n) t = None\<rbrakk> \<Longrightarrow>
      \<exists>r t'. call run cur n a (t, s) = Some (Ret r, t', s) \<and> r \<in> refusal \<and> g_syscall_table t' = g_syscall_table t \<and>
        total_calls t' = total_calls t + 1 \<and> refusals t' = refusals t + 1"
begin

lemma call_keeps_table:
  assumes "table_wf t" and "call run cur n a (t, s) = Some (r, t', s')"
  shows "g_syscall_table t' = g_syscall_table t" and "total_calls t' = total_calls t + 1"
    and "refusals t' = refusals t + (if reached (cur s) (slot n) t = None then 1 else 0)"
proof -
  have "g_syscall_table t' = g_syscall_table t \<and> total_calls t' = total_calls t + 1 \<and>
    refusals t' = refusals t + (if reached (cur s) (slot n) t = None then 1 else 0)"
  proof (cases "reached (cur s) (slot n) t")
    case None
    with call_refused [where run = run and a = a, of t cur s n] assms show ?thesis by auto
  next
    case (Some h)
    with call_reached [where run = run and a = a, of t cur s n h] assms show ?thesis
      by (cases "run h a s") (auto simp: refusals_def)
  qed
  then show "g_syscall_table t' = g_syscall_table t" and "total_calls t' = total_calls t + 1"
    and "refusals t' = refusals t + (if reached (cur s) (slot n) t = None then 1 else 0)" by simp_all
qed

text \<open>The counters account for every call: each one either reached a handler or was refused.\<close>

lemma counters_exact:
  assumes "table_wf t" and "gate_calls call slot run cur cs (t, s) = Some (hs, t', s')"
  shows "g_syscall_table t' = g_syscall_table t \<and> total_calls t' = total_calls t + of_nat (length cs) \<and>
    length hs \<le> length cs \<and> refusals t' = refusals t + of_nat (length cs - length hs)"
  using assms
proof (induction cs arbitrary: t s hs)
  case (Cons c cs)
  obtain n a where c: "c = (n, a)" by (cases c)
  obtain r t1 s1 where 1: "call run cur n a (t, s) = Some (r, t1, s1)" using Cons.prems c by (auto split: option.splits)
  note k = call_keeps_table [OF Cons.prems(1) 1]
  obtain hs1 where 2: "gate_calls call slot run cur cs (t1, s1) = Some (hs1, t', s')"
    "hs = (case reached (cur s) (slot n) t of None \<Rightarrow> hs1 | Some h \<Rightarrow> h # hs1)"
    using Cons.prems(2) c 1 by auto
  have "table_wf t1" using Cons.prems(1) k(1) by (simp add: table_wf_def)
  from Cons.IH [OF this 2(1)] k 2(2) show ?case
    by (cases "reached (cur s) (slot n) t") (auto simp: Suc_diff_le algebra_simps)
qed simp

end

lemma handler80:
  assumes "table_wf t"
  shows "mkrn_syscall_handler run cur n a (t, s) =
    (case reached (cur s) n t of
       Some h \<Rightarrow> map_option (\<lambda>(r, s'). (r, t\<lparr>total_calls := total_calls t + 1\<rparr>, s')) (run h a s)
     | None \<Rightarrow> Some (Ret M4K_SC_ERROR,
         (if n < 256 \<and> ent_registered (entry_of n t)
          then t\<lparr>total_calls := total_calls t + 1, permission_denied := permission_denied t + 1\<rparr>
          else t\<lparr>total_calls := total_calls t + 1, failed_calls := failed_calls t + 1\<rparr>), s))"
proof (cases "n < 256 \<and> ent_registered (entry_of n t)")
  case True
  then obtain h where "ent_handler (entry_of n t) = Some h" using entry_wf [OF assms] by blast
  then show ?thesis using True
    by (cases "cur s") (auto simp: mkrn_syscall_handler_def mkrn_syscall_check_permission_def reached_def Let_def user_bit user_not_kernel not_le entry_of_def)
next
  case False
  then show ?thesis by (auto simp: mkrn_syscall_handler_def reached_def Let_def not_le entry_of_def)
qed

lemma slot_bound: "(n :: u32) AND 0xFF < 256"
proof -
  have "n AND 0xFF \<le> 0xFF" by (rule word_and_le1)
  then show ?thesis by (rule le_less_trans) simp
qed

lemma handler4D:
  assumes "table_wf t"
  shows "m4k_syscall_handler run cur n a (t, s) =
    (case reached (cur s) (n AND 0xFF) t of
       Some h \<Rightarrow> map_option (\<lambda>(r, s'). (r, t\<lparr>total_calls := total_calls t + 1\<rparr>, s')) (run h a s)
     | None \<Rightarrow> (if ent_registered (entry_of (n AND 0xFF) t)
          then Some (Ret 0x4D000001, t\<lparr>total_calls := total_calls t + 1, permission_denied := permission_denied t + 1\<rparr>, s)
          else Some (Ret 0x4D000000, t\<lparr>total_calls := total_calls t + 1, failed_calls := failed_calls t + 1\<rparr>, s)))"
proof -
  define i where "i = n AND 0xFF"
  have i: "i < 256" "\<not> 256 \<le> i" using slot_bound [of n] by (simp_all add: i_def not_le)
  show ?thesis
  proof (cases "ent_registered (entry_of i t)")
    case True
    then obtain h where "ent_handler (entry_of i t) = Some h" using entry_wf [OF assms i(1)] by blast
    then show ?thesis using True i unfolding i_def [symmetric]
      by (cases "cur s") (auto simp: m4k_syscall_handler_def m4k_syscall_check_permission_def reached_def Let_def user_bit user_not_kernel entry_of_def i_def [symmetric])
  next
    case False
    then show ?thesis using i unfolding i_def [symmetric]
      by (auto simp: m4k_syscall_handler_def reached_def Let_def entry_of_def i_def [symmetric])
  qed
qed

interpretation sc80: call_table mkrn_syscall_handler id "{M4K_SC_ERROR}"
  by unfold_locales (auto simp: handler80 refusals_def)

interpretation sc4D: call_table m4k_syscall_handler "\<lambda>n. n AND 0xFF" "{0x4D000000, 0x4D000001}"
  by unfold_locales (auto simp: handler4D refusals_def)

section \<open>Changing the table\<close>

lemma set_entry_wf: "\<lbrakk>table_wf t; ent_registered (f (entry_of n t)) \<longrightarrow> ent_handler (f (entry_of n t)) \<noteq> None\<rbrakk> \<Longrightarrow> table_wf (set_entry n f t)"
  by (auto simp: table_wf_def set_entry_def dest!: set_update_subset_insert [THEN subsetD])

lemma entry_of_set_entry:
  "\<lbrakk>table_wf t; n < 256; m < 256\<rbrakk> \<Longrightarrow> entry_of m (set_entry n f t) = (if m = n then f (entry_of n t) else entry_of m t)"
  by (simp add: table_wf_def entry_of_def set_entry_def nth_list_update word_less_nat_alt word_unat_eq_iff)

lemma table_init_wf [simp]: "table_wf (mkrn_syscall_table_init t)" "table_wf (m4k_syscall_table_init t)"
  by (simp_all add: table_wf_def mkrn_syscall_table_init_def m4k_syscall_table_init_def entry_zero_def)

lemma table_init_reached [simp]: "reached u n (mkrn_syscall_table_init t) = None" "reached u n (m4k_syscall_table_init t) = None"
  by (simp_all add: reached_def entry_of_def mkrn_syscall_table_init_def m4k_syscall_table_init_def entry_zero_def word_less_nat_alt)

lemma register_wf [simp]: "table_wf t \<Longrightarrow> table_wf (mkrn_syscall_register n h t)"
  by (simp add: mkrn_syscall_register_def set_entry_wf)

lemma unregister_wf [simp]: "table_wf t \<Longrightarrow> table_wf (mkrn_syscall_unregister n t)"
  by (simp add: mkrn_syscall_unregister_def set_entry_wf)

lemma set_permission_wf [simp]: "table_wf t \<Longrightarrow> table_wf (mkrn_syscall_set_permission n m t)"
  using entry_wf [of t n] by (auto simp: mkrn_syscall_set_permission_def not_le intro!: set_entry_wf)

lemma m4k_register_wf [simp]: "table_wf t \<Longrightarrow> table_wf (m4k_syscall_register n h t)"
  by (simp add: m4k_syscall_register_def Let_def set_entry_wf)

lemma user_mask [simp]: "bit PERM_LEVEL_USER 0"
  by (simp add: PERM_LEVEL_USER_def)

lemma register_reached:
  "table_wf t \<Longrightarrow> reached u m (mkrn_syscall_register n (Some h) t) = (if m = n \<and> n < 256 then Some h else reached u m t)"
  by (auto simp: mkrn_syscall_register_def reached_def entry_of_set_entry not_le)

lemma m4k_register_reached:
  "\<lbrakk>table_wf t; m < 256\<rbrakk> \<Longrightarrow> reached u m (m4k_syscall_register n (Some h) t) = (if m = n AND 0xFF then Some h else reached u m t)"
  using slot_bound [of n] by (auto simp: m4k_syscall_register_def reached_def entry_of_set_entry not_le [symmetric] Let_def)

lemma unregister_reached:
  "table_wf t \<Longrightarrow> reached u m (mkrn_syscall_unregister n t) = (if m = n then None else reached u m t)"
  by (auto simp: mkrn_syscall_unregister_def reached_def entry_of_set_entry not_le)

lemma set_permission_reached:
  "table_wf t \<Longrightarrow> reached u m (mkrn_syscall_set_permission n p t) =
     (if m = n \<and> u then (if bit p 0 then reached False m t else None) else reached u m t)"
  by (auto simp: mkrn_syscall_set_permission_def reached_def entry_of_set_entry not_le)

text \<open>Registering a list of calls with different numbers gives the table of the list.\<close>

lemma register_all:
  assumes "table_wf t" and "\<forall>(n, h) \<in> set cs. n < 256"
  shows "table_wf (fold (\<lambda>(n, h). mkrn_syscall_register n (Some h)) cs t) \<and>
    (distinct (map fst cs) \<longrightarrow> reached u m (fold (\<lambda>(n, h). mkrn_syscall_register n (Some h)) cs t) =
      (case map_of cs m of None \<Rightarrow> reached u m t | Some h \<Rightarrow> Some h))"
  using assms
proof (induction cs arbitrary: t)
  case (Cons c cs)
  obtain n h where c: "c = (n, h)" by (cases c)
  have "m \<notin> fst ` set cs \<Longrightarrow> map_of cs m = None" by (simp add: map_of_eq_None_iff)
  with Cons.IH [of "mkrn_syscall_register n (Some h) t"] Cons.prems c show ?case
    by (auto simp: register_reached split: option.split)
qed simp

lemma m4k_register_all:
  assumes "table_wf t" and "m < 256"
  shows "table_wf (fold (\<lambda>(n, h). m4k_syscall_register n (Some h)) cs t) \<and>
    (distinct (map (\<lambda>(n, h). n AND 0xFF) cs) \<longrightarrow> reached u m (fold (\<lambda>(n, h). m4k_syscall_register n (Some h)) cs t) =
      (case map_of (map (\<lambda>(n, h). (n AND 0xFF, h)) cs) m of None \<Rightarrow> reached u m t | Some h \<Rightarrow> Some h))"
  using assms
proof (induction cs arbitrary: t)
  case (Cons c cs)
  obtain n h where c: "c = (n, h)" by (cases c)
  have "m \<notin> (\<lambda>(n, h). n AND 0xFF) ` set cs \<Longrightarrow> map_of (map (\<lambda>(n, h). (n AND 0xFF, h)) cs) m = None"
    by (auto simp: map_of_eq_None_iff)
  with Cons.IH [of "m4k_syscall_register n (Some h) t"] Cons.prems c show ?case
    by (auto simp: m4k_register_reached split: option.split)
qed simp

end
