(* ===== verification/PathRes.thy ===== *)
theory PathRes
  imports Vfs
begin

text \<open>
  Path resolution of the system calls (\<open>mkrn_resolve_path\<close> of
  \<open>sys/src/kernel/syscall.c\<close>): a path is put behind the working directory unless it is
  absolute, and the components \<open>.\<close> and \<open>..\<close> are removed. Paths are lists of characters
  without terminator; the result is what stands in the output buffer before its
  terminator. \<open>resolve_correct\<close> compares it with a reference that splits the path at its
  slashes.
\<close>

section \<open>The code\<close>

text \<open>Appending to the temporary buffer; the flag says that it is full.\<close>

fun tmp_append :: "u8 list \<Rightarrow> u8 list \<Rightarrow> bool \<times> u8 list" where
  "tmp_append [] tmp = (False, tmp)"
| "tmp_append (c # cs) tmp = (if 510 \<le> length tmp then (True, tmp) else tmp_append cs (tmp @ [c]))"

definition tmp_path :: "u8 list \<Rightarrow> u8 list \<Rightarrow> bool \<times> u8 list" where
  "tmp_path pCwd pIn =
     (if hd pIn = 47 then tmp_append pIn []
      else case tmp_append pCwd [] of (tr, t1) \<Rightarrow>
        let t2 = (if \<not> tr \<and> t1 \<noteq> [] \<and> last t1 \<noteq> 47 \<and> length t1 < 510 then t1 @ [47] else t1)
        in case tmp_append pIn t2 of (tr', t3) \<Rightarrow> (tr \<or> tr', t3))"

lemma dropWhile_shorter:
  assumes "q = dropWhile (\<lambda>c. c = 47) p" and "q \<noteq> []"
  shows "length (dropWhile (\<lambda>c. c \<noteq> (47 :: u8)) q) < length p"
proof -
  have "hd q \<noteq> 47" using assms hd_dropWhile [of "\<lambda>c. c = 47" p] by simp
  then have "length (dropWhile (\<lambda>c. c \<noteq> 47) q) < length q"
    using assms(2) by (cases q) (auto simp: less_Suc_eq_le length_dropWhile_le)
  then show ?thesis using length_dropWhile_le [of "\<lambda>c. c = 47" p] assms(1) by simp
qed

text \<open>The components kept so far; \<open>None\<close> when there are more than 64.\<close>

function path_parts :: "u8 list \<Rightarrow> u8 list list \<Rightarrow> u8 list list option" where
  "path_parts p parts =
     (let q = dropWhile (\<lambda>c. c = 47) p in
      if q = [] then Some parts
      else let c = takeWhile (\<lambda>c. c \<noteq> 47) q; rest = dropWhile (\<lambda>c. c \<noteq> 47) q in
        if c = chars ''.'' then path_parts rest parts
        else if c = chars ''..'' then path_parts rest (butlast parts)
        else if length parts < 64 then path_parts rest (parts @ [c])
        else None)"
  by pat_completeness auto
termination
proof (relation "measure (\<lambda>(p, parts). length p)", goal_cases)
  case (2 p parts q c rest)
  then show ?case using dropWhile_shorter [OF refl, of p] by simp
next
  case (3 p parts q c rest)
  then show ?case using dropWhile_shorter [OF refl, of p] by simp
next
  case (4 p parts q c rest)
  then show ?case using dropWhile_shorter [OF refl, of p] by simp
qed simp

declare path_parts.simps [simp del]

fun put_parts :: "nat \<Rightarrow> u8 list list \<Rightarrow> u8 list \<Rightarrow> u8 list" where
  "put_parts lim [] out = out"
| "put_parts lim (c # cs) out =
     (if \<not> length out < lim then out
      else let out1 = out @ take (lim - length out) c
           in put_parts lim cs (if cs \<noteq> [] \<and> length out1 < lim then out1 @ [47] else out1))"

definition mkrn_resolve_path :: "u8 list \<Rightarrow> u8 list option \<Rightarrow> nat \<Rightarrow> u8 list" where
  "mkrn_resolve_path pCwd pIn iOSize =
     (if pIn = None \<or> pIn = Some [] then take (iOSize - 1) pCwd
      else case tmp_path pCwd (the pIn) of (truncated, tmp) \<Rightarrow>
        if truncated then []
        else case path_parts tmp [] of
          None \<Rightarrow> []
        | Some parts \<Rightarrow> put_parts (iOSize - 1) parts [47])"


section \<open>The reference\<close>

fun pieces :: "u8 list \<Rightarrow> u8 list list" where
  "pieces [] = [[]]"
| "pieces (c # cs) =
     (case pieces cs of [] \<Rightarrow> [[c]] | p # ps \<Rightarrow> if c = 47 then [] # p # ps else (c # p) # ps)"

definition path_step :: "u8 list list \<Rightarrow> u8 list \<Rightarrow> u8 list list" where
  "path_step stack c =
     (if c = [] \<or> c = chars ''.'' then stack else if c = chars ''..'' then butlast stack else stack @ [c])"

definition canon :: "u8 list \<Rightarrow> u8 list list" where
  "canon p = foldl path_step [] (pieces p)"

fun join :: "u8 list list \<Rightarrow> u8 list" where
  "join [] = []"
| "join [c] = c"
| "join (c # cs) = c @ 47 # join cs"

definition render :: "u8 list list \<Rightarrow> u8 list" where
  "render cs = 47 # join cs"

definition special :: "u8 list \<Rightarrow> bool" where
  "special c \<longleftrightarrow> c = [] \<or> c = chars ''.'' \<or> c = chars ''..''"

definition named :: "u8 list list \<Rightarrow> nat" where
  "named cs = length (filter (\<lambda>c. \<not> special c) cs)"

definition plain :: "u8 list \<Rightarrow> bool" where
  "plain c \<longleftrightarrow> \<not> special c \<and> 47 \<notin> set c"

lemma pieces_not_Nil [simp]: "pieces p \<noteq> []"
  by (cases p) (auto split: list.split)

lemma pieces_Cons [simp]:
  "pieces (c # cs) = (if c = 47 then [] # pieces cs else (c # hd (pieces cs)) # tl (pieces cs))"
  using pieces_not_Nil [of cs] by (cases "pieces cs") auto

declare pieces.simps(2) [simp del]

lemma step_special: "path_step s [] = s" "path_step s (chars ''.'') = s" "path_step s (chars ''..'') = butlast s"
    "\<not> special c \<Longrightarrow> path_step s c = s @ [c]"
  by (simp_all add: path_step_def special_def chars_def)

lemma pieces_append: "pieces (xs @ 47 # ys) = pieces xs @ pieces ys"
  by (induction xs) auto

lemma pieces_plain: "47 \<notin> set xs \<Longrightarrow> pieces xs = [xs]"
  by (induction xs) auto

lemma pieces_cut:
  "pieces q = takeWhile (\<lambda>c. c \<noteq> 47) q # tl (pieces (dropWhile (\<lambda>c. c \<noteq> 47) q))"
  "pieces (dropWhile (\<lambda>c. c \<noteq> 47) q) = [] # tl (pieces (dropWhile (\<lambda>c. c \<noteq> 47) q))"
  by (induction q) auto

lemma pieces_split:
  "foldl path_step s (pieces q) = foldl path_step (path_step s (takeWhile (\<lambda>c. c \<noteq> 47) q)) (pieces (dropWhile (\<lambda>c. c \<noteq> 47) q))"
  "named (pieces q) = (if special (takeWhile (\<lambda>c. c \<noteq> 47) q) then 0 else 1) + named (pieces (dropWhile (\<lambda>c. c \<noteq> 47) q))"
proof -
  define r where "r = tl (pieces (dropWhile (\<lambda>c. c \<noteq> 47) q))"
  have c: "pieces q = takeWhile (\<lambda>c. c \<noteq> 47) q # r" "pieces (dropWhile (\<lambda>c. c \<noteq> 47) q) = [] # r"
    using pieces_cut [of q] by (simp_all add: r_def)
  show "foldl path_step s (pieces q) = foldl path_step (path_step s (takeWhile (\<lambda>c. c \<noteq> 47) q)) (pieces (dropWhile (\<lambda>c. c \<noteq> 47) q))"
    "named (pieces q) = (if special (takeWhile (\<lambda>c. c \<noteq> 47) q) then 0 else 1) + named (pieces (dropWhile (\<lambda>c. c \<noteq> 47) q))"
    unfolding c by (simp_all add: step_special named_def special_def)
qed

lemma pieces_skip:
  "foldl path_step s (pieces (dropWhile (\<lambda>c. c = 47) p)) = foldl path_step s (pieces p)"
  "named (pieces (dropWhile (\<lambda>c. c = 47) p)) = named (pieces p)"
  by (induction p) (auto simp: step_special named_def special_def)

lemma first_part:
  assumes "q = dropWhile (\<lambda>c. c = 47) p" and "q \<noteq> []"
  shows "takeWhile (\<lambda>c. c \<noteq> 47) q \<noteq> []"
proof -
  have "hd q \<noteq> 47" using assms hd_dropWhile [of "\<lambda>c. c = 47" p] by simp
  then show ?thesis using assms(2) by (cases q) auto
qed

lemma path_parts_ref:
  "length parts + named (pieces p) \<le> 64 \<Longrightarrow> path_parts p parts = Some (foldl path_step parts (pieces p))"
proof (induction p parts rule: path_parts.induct)
  case (1 p parts)
  define q where "q = dropWhile (\<lambda>c. c = 47) p"
  define c where "c = takeWhile (\<lambda>c. c \<noteq> 47) q"
  define rest where "rest = dropWhile (\<lambda>c. c \<noteq> 47) q"
  have ref: "foldl path_step parts (pieces p) = foldl path_step (path_step parts c) (pieces rest)"
    "named (pieces p) = (if special c then 0 else 1) + named (pieces rest)"
    using pieces_skip(1) [of parts p] pieces_skip(2) [of p] pieces_split(1) [of parts q] pieces_split(2) [of q]
    by (simp_all add: q_def c_def rest_def)
  show ?case
  proof (cases "q = []")
    case True
    then have "foldl path_step parts (pieces p) = parts"
      using pieces_skip(1) [of parts p] by (simp only: q_def [symmetric] pieces.simps foldl.simps step_special)
    then show ?thesis using True by (subst path_parts.simps) (simp add: q_def)
  next
    case False
    note IH = 1(1-3) [OF q_def False c_def rest_def] and prem = 1(4)
    have "c \<noteq> []" unfolding c_def by (rule first_part [OF q_def False])
    have u: "path_parts p parts = (if c = chars ''.'' then path_parts rest parts
        else if c = chars ''..'' then path_parts rest (butlast parts)
        else if length parts < 64 then path_parts rest (parts @ [c]) else None)"
      unfolding path_parts.simps [of p] Let_def c_def rest_def unfolding q_def [symmetric] by (simp only: False if_False)
    have d: "chars ''..'' \<noteq> chars ''.''" by (simp add: chars_def)
    consider "c = chars ''.''" | "c = chars ''..''" | "c \<noteq> chars ''.''" "c \<noteq> chars ''..''" "\<not> special c"
      using \<open>c \<noteq> []\<close> special_def by blast
    then show ?thesis
    proof cases
      case 1
      then have "path_parts p parts = path_parts rest parts" "path_step parts c = parts" "special c"
        using u by (simp_all add: step_special special_def)
      then show ?thesis using IH(1) [OF 1] ref prem by (metis add_0)
    next
      case 2
      then have s: "path_parts p parts = path_parts rest (butlast parts)" "path_step parts c = butlast parts" "special c"
        using u d by (simp_all add: step_special special_def)
      then have "length (butlast parts) + named (pieces rest) \<le> 64" using ref(2) prem by simp
      moreover have "c \<noteq> chars ''.''" using 2 d by simp
      ultimately show ?thesis using IH(2) [OF _ 2] s ref(1) by simp
    next
      case 3
      then have "length parts < 64" "length (parts @ [c]) + named (pieces rest) \<le> 64" using ref(2) prem by simp_all
      then show ?thesis using u ref(1) IH(3) 3 step_special(4) by metis
    qed
  qed
qed

lemma put_parts_ref:
  "\<lbrakk>list_all (\<lambda>c. c \<noteq> []) cs; length out + length (join cs) \<le> lim\<rbrakk> \<Longrightarrow> put_parts lim cs out = out @ join cs"
proof (induction cs arbitrary: out rule: join.induct)
  case (2 c)
  then have "0 < length c" by simp
  moreover have "length out + length c \<le> lim" using 2 by simp
  ultimately have "length out < lim" by linarith
  then show ?case using 2 by simp
next
  case (3 c d cs)
  have l: "length out + length c + 1 + length (join (d # cs)) \<le> lim" using 3(3) by (simp only: join.simps length_append length_Cons)
  have "put_parts lim (c # d # cs) out = put_parts lim (d # cs) (out @ c @ [47])"
    using l by (simp add: put_parts.simps(2) [of lim c] del: put_parts.simps(2) join.simps)
  also have "\<dots> = (out @ c @ [47]) @ join (d # cs)" using 3(1) 3(2) l by (simp del: put_parts.simps(2) join.simps)
  finally show ?case by simp
qed simp

lemma tmp_append_ref: "length tmp + length cs \<le> 510 \<Longrightarrow> tmp_append cs tmp = (False, tmp @ cs)"
  by (induction cs arbitrary: tmp) auto

lemma path_step_plain:
  assumes "list_all plain s" and "47 \<notin> set c"
  shows "list_all plain (path_step s c)" and "length (path_step s c) + named cs \<le> length s + named (c # cs)"
proof -
  consider "c = [] \<or> c = chars ''.''" | "c = chars ''..''" | "\<not> special c" using special_def by blast
  then have "list_all plain (path_step s c) \<and> length (path_step s c) + named cs \<le> length s + named (c # cs)"
  proof cases
    case 1
    then have "path_step s c = s" by (auto simp: path_step_def)
    then show ?thesis using assms(1) by (simp add: named_def)
  next
    case 2
    then have "path_step s c = butlast s" by (simp add: step_special)
    then show ?thesis using assms(1) by (auto simp: named_def list_all_iff dest: in_set_butlastD)
  next
    case 3
    then show ?thesis using assms by (simp add: step_special named_def plain_def)
  qed
  then show "list_all plain (path_step s c)" and "length (path_step s c) + named cs \<le> length s + named (c # cs)" by simp_all
qed

lemma canon_plain:
  assumes "list_all plain s" and "list_all (\<lambda>c. 47 \<notin> set c) cs"
  shows "list_all plain (foldl path_step s cs) \<and> length (foldl path_step s cs) \<le> length s + named cs"
  using assms
proof (induction cs arbitrary: s)
  case (Cons c cs)
  have "list_all plain (path_step s c)" "length (path_step s c) + named cs \<le> length s + named (c # cs)"
    using path_step_plain [of s c] Cons.prems by simp_all
  then show ?case using Cons.IH [of "path_step s c"] Cons.prems(2) by simp
qed (simp add: named_def)

lemma pieces_no_slash: "list_all (\<lambda>c. 47 \<notin> set c) (pieces p)"
  by (induction p) (auto simp: list_all_iff, (metis list.set_sel pieces_not_Nil)+)

lemma pieces_join: "\<lbrakk>list_all plain cs; cs \<noteq> []\<rbrakk> \<Longrightarrow> pieces (join cs) = cs"
proof (induction cs rule: join.induct)
  case (2 c)
  then show ?case by (simp add: plain_def pieces_plain)
next
  case (3 c d cs)
  then show ?case by (simp add: pieces_append plain_def pieces_plain)
qed simp

lemma foldl_plain: "list_all plain cs \<Longrightarrow> foldl path_step s cs = s @ cs"
  by (induction cs arbitrary: s) (auto simp: plain_def step_special)

lemma canon_render:
  assumes "list_all plain cs"
  shows "canon (render cs) = cs" and "named (pieces (render cs)) = length cs"
proof -
  have "canon (render cs) = cs \<and> named (pieces (render cs)) = length cs"
  proof (cases "cs = []")
    case False
    have "filter (\<lambda>c. \<not> special c) cs = cs" using assms by (auto simp: list_all_iff plain_def filter_id_conv)
    then show ?thesis using assms False
      by (simp add: canon_def render_def pieces_join foldl_plain step_special) (simp add: named_def special_def)
  qed (simp add: canon_def render_def step_special named_def special_def)
  then show "canon (render cs) = cs" and "named (pieces (render cs)) = length cs" by simp_all
qed

lemma canon_slash: "canon (47 # p) = canon p" "named (pieces (47 # p)) = named (pieces p)"
  by (simp_all add: canon_def step_special named_def special_def)

lemma canon_double_slash: "canon (xs @ 47 # 47 # ys) = canon (xs @ 47 # ys)"
    "named (pieces (xs @ 47 # 47 # ys)) = named (pieces (xs @ 47 # ys))"
  by (simp_all add: canon_def pieces_append step_special named_def special_def)

text \<open>The temporary buffer holds a path with the components of the whole path.\<close>

lemma tmp_path_ref:
  assumes "pin \<noteq> []" and "full = (if hd pin = 47 then pin else pCwd @ 47 # pin)" and "length full \<le> 510"
  obtains tmp where "tmp_path pCwd pin = (False, tmp)" and "canon tmp = canon full" and "named (pieces tmp) = named (pieces full)"
proof (cases "hd pin = 47")
  case True
  then show ?thesis using that assms tmp_append_ref [of "[]" pin] by (simp add: tmp_path_def)
next
  case False
  have f: "full = pCwd @ 47 # pin" using assms False by simp
  have t1: "tmp_append pCwd [] = (False, pCwd)" using tmp_append_ref [of "[]" pCwd] assms(3) f by simp
  show ?thesis
  proof (cases "pCwd \<noteq> [] \<and> last pCwd \<noteq> 47")
    case True
    then have "tmp_path pCwd pin = (False, full)"
      using False t1 tmp_append_ref [of "pCwd @ [47]" pin] assms(3) f by (simp add: tmp_path_def)
    then show ?thesis using that by blast
  next
    case no: False
    then have "tmp_path pCwd pin = (False, pCwd @ pin)"
      using False t1 tmp_append_ref [of pCwd pin] assms(3) f by (auto simp: tmp_path_def Let_def)
    moreover have "canon (pCwd @ pin) = canon full \<and> named (pieces (pCwd @ pin)) = named (pieces full)"
    proof (cases "pCwd = []")
      case True
      then have "full = 47 # pin" "pCwd @ pin = pin" by (simp_all add: f)
      then show ?thesis using canon_slash [of pin] by metis
    next
      case ne: False
      then have "pCwd = butlast pCwd @ [47]" using no by (metis append_butlast_last_id)
      then show ?thesis unfolding f using canon_double_slash [of "butlast pCwd" pin]
        by (metis append.assoc append_Cons append_Nil)
    qed
    ultimately show ?thesis using that by blast
  qed
qed

lemma resolve_ref:
  assumes "pin \<noteq> []" and "full = (if hd pin = 47 then pin else pCwd @ 47 # pin)" and "length full \<le> 510"
    and "named (pieces full) \<le> 64" and "length (render (canon full)) < n"
  shows "mkrn_resolve_path pCwd (Some pin) n = render (canon full)"
proof -
  obtain tmp where tmp: "tmp_path pCwd pin = (False, tmp)" "canon tmp = canon full" "named (pieces tmp) = named (pieces full)"
    using tmp_path_ref [OF assms(1-3)] .
  have "path_parts tmp [] = Some (canon full)" using path_parts_ref [of "[]" tmp] tmp assms(4) by (simp add: canon_def)
  moreover have "list_all (\<lambda>c. c \<noteq> []) (canon full)"
    using canon_plain [of "[]" "pieces full"] pieces_no_slash by (auto simp: canon_def list_all_iff plain_def special_def)
  ultimately show ?thesis
    using assms(1,5) tmp(1) put_parts_ref [of "canon full" "[47]" "n - 1"] by (simp add: mkrn_resolve_path_def render_def)
qed

text \<open>Resolving a path: within the limits of the code, 510 characters, 64 named components
  and the size of the result, the result is the absolute path of the components that are
  left when \<open>.\<close> and empty components are dropped and \<open>..\<close> drops the component before it,
  never going above the root. It has none of these components any more, and resolving it
  again from any directory gives it back.\<close>

theorem resolve_correct:
  assumes "pin \<noteq> []" and "full = (if hd pin = 47 then pin else pCwd @ 47 # pin)" and "length full \<le> 510"
    and "named (pieces full) \<le> 64" and "length (render (canon full)) < n" and "n \<le> 511"
  shows "mkrn_resolve_path pCwd (Some pin) n = render (canon full) \<and> list_all plain (canon full) \<and>
    mkrn_resolve_path other (Some (render (canon full))) n = render (canon full)"
proof -
  have p: "list_all plain (canon full)" "length (canon full) \<le> 64"
    using canon_plain [of "[]" "pieces full"] pieces_no_slash assms(4) by (simp_all add: canon_def)
  have "mkrn_resolve_path other (Some (render (canon full))) n = render (canon (render (canon full)))"
    using assms(5,6) canon_render [OF p(1)] p(2) by (intro resolve_ref) (auto simp: render_def)
  then show ?thesis using resolve_ref [OF assms(1-5)] p canon_render [OF p(1)] by simp
qed

lemma resolve_correct_witness:
  "mkrn_resolve_path (chars ''/usr/src'') (Some (chars ''../../..//lib/./m4k'')) 256 = chars ''/lib/m4k''"
proof -
  let ?f = "chars ''/usr/src'' @ 47 # chars ''../../..//lib/./m4k''"
  have "chars ''../../..//lib/./m4k'' \<noteq> []" "hd (chars ''../../..//lib/./m4k'') \<noteq> 47" "length ?f = 28"
    by (simp_all add: chars_def)
  moreover have "canon ?f = [chars ''lib'', chars ''m4k'']" "named (pieces ?f) = 4" by code_simp+
  moreover have "render [chars ''lib'', chars ''m4k''] = chars ''/lib/m4k''" "length (chars ''/lib/m4k'') = 8"
    by (simp_all add: render_def chars_def)
  ultimately show ?thesis
    using resolve_correct [of "chars ''../../..//lib/./m4k''" ?f "chars ''/usr/src''" 256] by simp
qed

text \<open>A path whose result is longer than the output buffer is cut off, not refused.\<close>

lemma resolve_cuts_off:
  "mkrn_resolve_path [] (Some (chars ''/src/lib'')) 8 = chars ''/src/li''"
  by code_simp

end
