(* ===== verification/Calendar.thy ===== *)
theory Calendar
  imports Prelude
begin

text \<open>
  The calendar of the time calls (\<open>sys/src/kernel/syscall.c\<close>): leap years, the days of
  the months, and the conversions between a date and the seconds since 1970. Days and
  seconds are 32-bit words; the year counter of the loops is an \<open>int\<close>.
\<close>

record mkrn_time =
  t_second :: u8
  t_minute :: u8
  t_hour :: u8
  t_day :: u8
  t_month :: u8
  t_year :: u32

definition sc_is_leap :: "int \<Rightarrow> bool" where
  "sc_is_leap y \<longleftrightarrow> (y mod 4 = 0 \<and> y mod 100 \<noteq> 0) \<or> y mod 400 = 0"

definition sc_month_days :: "int \<Rightarrow> int \<Rightarrow> int" where
  "sc_month_days y m =
     (if m < 1 \<or> 12 < m then 0
      else let d = [31, 28, 31, 30, 31, 30, 31, 31, 30, 31, 30, 31] ! nat (m - 1) in
        if m = 2 \<and> sc_is_leap y then d + 1 else d)"

definition year_days :: "int \<Rightarrow> u32" where
  "year_days y = (if sc_is_leap y then 366 else 365)"

section \<open>From a date to seconds\<close>

function add_years :: "int \<Rightarrow> int \<Rightarrow> u32 \<Rightarrow> u32" where
  "add_years yr year days = (if yr < year then add_years (yr + 1) year (days + year_days yr) else days)"
  by pat_completeness auto
termination by (relation "measure (\<lambda>(yr, year, days). nat (year - yr))") auto

function add_months :: "int \<Rightarrow> int \<Rightarrow> int \<Rightarrow> u32 \<Rightarrow> u32" where
  "add_months y mo month days =
     (if mo < month then add_months y (mo + 1) month (days + of_int (sc_month_days y mo)) else days)"
  by pat_completeness auto
termination by (relation "measure (\<lambda>(y, mo, month, days). nat (month - mo))") auto

declare add_years.simps [simp del] add_months.simps [simp del]

definition rtc_to_epoch :: "mkrn_time \<Rightarrow> u32" where
  "rtc_to_epoch t =
     (let y = sint (t_year t);
          days = add_months y 1 (uint (t_month t)) (add_years 1970 y 0) + (ucast (t_day t) - 1)
      in days * 86400 + ucast (t_hour t) * 3600 + ucast (t_minute t) * 60 + ucast (t_second t))"

section \<open>From seconds to a date\<close>

function split_years :: "u32 \<Rightarrow> int \<Rightarrow> u32 \<times> int" where
  "split_years days yr = (if days < year_days yr then (days, yr) else split_years (days - year_days yr) (yr + 1))"
  by pat_completeness auto
termination
proof (relation "measure (\<lambda>(days, yr). unat days)")
  fix days yr assume "\<not> days < year_days yr"
  then show "((days - year_days yr, yr + 1), days, yr) \<in> measure (\<lambda>(days, yr). unat days)"
    by (auto simp: not_less unat_sub word_le_nat_alt year_days_def)
qed simp

function split_months :: "int \<Rightarrow> u32 \<Rightarrow> int \<Rightarrow> u32 \<times> int" where
  "split_months y days mo =
     (if mo \<le> 12 then
        let md = of_int (sc_month_days y mo) in
        if days < md then (days, mo) else split_months y (days - md) (mo + 1)
      else (days, mo))"
  by pat_completeness auto
termination by (relation "measure (\<lambda>(y, days, mo). nat (13 - mo))") auto

declare split_years.simps [simp del] split_months.simps [simp del]

definition epoch_to_rtc :: "u32 \<Rightarrow> mkrn_time" where
  "epoch_to_rtc epoch =
     (let e1 = epoch div 60; e2 = e1 div 60;
          (d1, yr) = split_years (e2 div 24) 1970;
          (d2, mo) = split_months yr d1 1
      in \<lparr>t_second = ucast (epoch mod 60), t_minute = ucast (e1 mod 60), t_hour = ucast (e2 mod 24),
          t_day = ucast (d2 + 1), t_month = of_int mo, t_year = of_int yr\<rparr>)"

section \<open>The conversions agree\<close>

lemma add_years_acc: "add_years yr year (d + x) = add_years yr year d + x"
proof (induction yr year d rule: add_years.induct)
  case (1 yr year d)
  then show ?case by (subst (1 2) add_years.simps) (simp add: algebra_simps)
qed

lemma add_years_next: "yr \<le> year \<Longrightarrow> add_years yr (year + 1) d = add_years yr year d + year_days year"
proof (induction yr year d rule: add_years.induct)
  case (1 yr year d)
  show ?case
  proof (cases "yr < year")
    case True
    then show ?thesis using 1 by (subst (1 2) add_years.simps) simp
  next
    case False
    then have "yr = year" using 1 by simp
    then show ?thesis by (subst (1 2) add_years.simps) (simp add: add_years.simps)
  qed
qed

lemma add_months_acc: "add_months y mo month (d + x) = add_months y mo month d + x"
proof (induction y mo month d rule: add_months.induct)
  case (1 y mo month d)
  then show ?case by (subst (1 2) add_months.simps) (simp add: algebra_simps)
qed

lemma add_months_next: "mo \<le> month \<Longrightarrow> add_months y mo (month + 1) d = add_months y mo month d + of_int (sc_month_days y month)"
proof (induction y mo month d rule: add_months.induct)
  case (1 y mo month d)
  show ?case
  proof (cases "mo < month")
    case True
    then show ?thesis using 1 by (subst (1 2) add_months.simps) simp
  next
    case False
    then have "mo = month" using 1 by simp
    then show ?thesis by (subst (1 2) add_months.simps) (simp add: add_months.simps)
  qed
qed

lemma add_same [simp]: "add_years y y d = d" "add_months y m m d = d"
  by (simp_all add: add_years.simps add_months.simps)

lemma split_years_ok:
  "\<lbrakk>split_years days yr = (r, y); 1970 \<le> yr\<rbrakk> \<Longrightarrow>
   add_years 1970 yr 0 + days = add_years 1970 y 0 + r \<and> r < year_days y \<and> yr \<le> y \<and> y \<le> yr + uint days"
proof (induction days yr rule: split_years.induct)
  case (1 days yr)
  show ?case
  proof (cases "days < year_days yr")
    case True
    then show ?thesis using 1(2) by (subst (asm) split_years.simps) auto
  next
    case False
    have "split_years (days - year_days yr) (yr + 1) = (r, y)" using 1(2) False by (subst (asm) split_years.simps) simp
    from 1(1) [OF False this] 1(3)
    have ih: "add_years 1970 (yr + 1) 0 + (days - year_days yr) = add_years 1970 y 0 + r" "r < year_days y" "yr + 1 \<le> y"
      "y \<le> yr + 1 + uint (days - year_days yr)" by simp_all
    have "days - year_days yr < days"
      using False by (auto simp: not_less unat_sub word_le_nat_alt word_less_nat_alt year_days_def)
    then have "uint (days - year_days yr) < uint days" by (simp add: word_less_def)
    with ih add_years_next [OF 1(3), of 0] show ?thesis by (auto simp: algebra_simps)
  qed
qed

lemma months: "{1..12} = {1::int, 2, 3, 4, 5, 6, 7, 8, 9, 10, 11, 12}"
  by (simp add: simp_from_to)

lemma month_days_range: "1 \<le> m \<Longrightarrow> m \<le> 12 \<Longrightarrow> 28 \<le> sc_month_days y m \<and> sc_month_days y m \<le> 31"
proof -
  assume "1 \<le> m" "m \<le> 12"
  then have "m \<in> {1..12}" by simp
  then show ?thesis unfolding months by (auto simp: sc_month_days_def)
qed

lemma year_months: "(\<Sum>m \<in> {1..12}. nat (sc_month_days y m)) = unat (year_days y)"
  unfolding months by (simp add: sc_month_days_def year_days_def)

lemma split_months_ok:
  "\<lbrakk>split_months y days mo = (r, m); 1 \<le> mo; mo \<le> 12; unat days < (\<Sum>k \<in> {mo..12}. nat (sc_month_days y k))\<rbrakk> \<Longrightarrow>
   add_months y 1 mo 0 + days = add_months y 1 m 0 + r \<and> uint r < sc_month_days y m \<and> mo \<le> m \<and> m \<le> 12"
proof (induction y days mo rule: split_months.induct)
  case (1 y days mo)
  let ?md = "of_int (sc_month_days y mo) :: u32"
  have umd: "uint ?md = sc_month_days y mo"
    using month_days_range [of mo y] 1(3,4) by (simp add: unsigned_of_int take_bit_int_eq_self)
  then have md: "unat ?md = nat (sc_month_days y mo)" by (simp add: unat_eq_nat_uint)
  show ?case
  proof (cases "days < ?md")
    case True
    then have "uint days < sc_month_days y mo" using umd by (simp add: word_less_def)
    moreover have "(r, m) = (days, mo)" using 1(2,4) True by (subst (asm) split_months.simps) (simp add: Let_def)
    ultimately show ?thesis using 1(4) by simp
  next
    case False
    have s: "split_months y (days - ?md) (mo + 1) = (r, m)"
      using 1(2,4) False by (subst (asm) split_months.simps) (simp add: Let_def)
    have "{mo..12} = insert mo {mo + 1..12}" using 1(4) by auto
    then have less: "unat (days - ?md) < (\<Sum>k \<in> {mo + 1..12}. nat (sc_month_days y k))"
      using 1(5) False md by (simp add: not_less unat_sub word_le_nat_alt)
    then have "mo + 1 \<le> 12" by (rule contrapos_pp) simp
    from 1(1) [OF 1(4) refl False s] this less 1(3)
    have "add_months y 1 (mo + 1) 0 + (days - ?md) = add_months y 1 m 0 + r"
      "uint r < sc_month_days y m" "mo + 1 \<le> m" "m \<le> 12" by simp_all
    then show ?thesis using add_months_next [OF 1(3), of y 0] by (auto simp: algebra_simps)
  qed
qed

lemma unat_small_byte: "unat (x :: u32) < 256 \<Longrightarrow> unat (ucast x :: u8) = unat x"
  by (simp add: unsigned_ucast_eq unsigned_take_bit_eq take_bit_nat_eq_self)

lemma small_byte: "unat (x :: u32) < 256 \<Longrightarrow> ucast (ucast x :: u8) = x"
  by (simp add: unsigned_ucast_eq word_unat_eq_iff unsigned_take_bit_eq take_bit_nat_eq_self)


text \<open>The conversions are inverse: the date of any number of seconds since 1970 converts
  back to this number, and it is a date of the calendar.\<close>

theorem epoch_rtc_roundtrip:
  "let t = epoch_to_rtc e in rtc_to_epoch t = e \<and> unat (t_second t) < 60 \<and> unat (t_minute t) < 60 \<and> unat (t_hour t) < 24 \<and>
    1 \<le> uint (t_month t) \<and> uint (t_month t) \<le> 12 \<and> 1970 \<le> uint (t_year t) \<and>
    1 \<le> uint (t_day t) \<and> uint (t_day t) \<le> sc_month_days (uint (t_year t)) (uint (t_month t))"
proof -
  define t where "t = epoch_to_rtc e"
  define e1 e2 where "e1 = e div 60" and "e2 = e1 div 60"
  obtain d1 yr where y: "split_years (e2 div 24) 1970 = (d1, yr)" by fastforce
  obtain d2 mo where m: "split_months yr d1 1 = (d2, mo)" by fastforce
  have yr: "e2 div 24 = add_years 1970 yr 0 + d1" "d1 < year_days yr" "1970 \<le> yr" "yr \<le> 1970 + uint (e2 div 24)"
    using split_years_ok [OF y] unfolding add_same add_0_left by blast+
  from split_months_ok [OF m] yr(2) have mo: "d1 = add_months yr 1 mo 0 + d2" "uint d2 < sc_month_days yr mo" "1 \<le> mo" "mo \<le> 12"
    by (simp_all add: year_months word_less_nat_alt)
  have "unat (e2 div 24) < 50000"
    using unsigned_less [of e, where ?'a = nat] by (simp add: e1_def e2_def unat_div_distrib)
  then have "int (unat (e2 div 24)) < 50000" by linarith
  then have "uint (e2 div 24) < 50000" by simp
  then have y32: "sint (of_int yr :: u32) = yr" "uint (of_int yr :: u32) = yr"
    using yr(3,4) by (simp_all add: signed_of_int unsigned_of_int take_bit_int_eq_self signed_take_bit_int_eq_self)
  have m8: "uint (of_int mo :: u8) = mo" using mo(3,4) by (simp add: unsigned_of_int take_bit_int_eq_self)
  have "int (unat d2) < 31" using mo(2-4) month_days_range [of mo yr] by simp
  then have d2: "unat d2 < 31" by linarith
  then have d8: "unat (d2 + 1) = unat d2 + 1" by (intro unat_plus_one) simp
  have small: "unat (e mod 60) < 60" "unat (e1 mod 60) < 60" "unat (e2 mod 24) < 24"
    by (simp_all add: unat_mod_distrib)
  have t: "t = \<lparr>t_second = ucast (e mod 60), t_minute = ucast (e1 mod 60), t_hour = ucast (e2 mod 24),
      t_day = ucast (d2 + 1), t_month = of_int mo, t_year = of_int yr\<rparr>"
    using y m by (simp add: t_def epoch_to_rtc_def Let_def e1_def e2_def)
  have bk: "ucast (ucast (e mod 60) :: u8) = e mod 60" "ucast (ucast (e1 mod 60) :: u8) = e1 mod 60"
    "ucast (ucast (e2 mod 24) :: u8) = e2 mod 24" "ucast (ucast (d2 + 1) :: u8) = d2 + 1"
    using small d2 d8 by (simp_all add: small_byte)
  have "add_months yr 1 mo (add_years 1970 yr 0) = add_months yr 1 mo 0 + add_years 1970 yr 0"
    using add_months_acc [of yr 1 mo 0 "add_years 1970 yr 0"] by simp
  then have "rtc_to_epoch t = (e2 div 24) * 86400 + e2 mod 24 * 3600 + e1 mod 60 * 60 + e mod 60"
    using yr(1) mo(1) by (simp add: rtc_to_epoch_def t Let_def y32 m8 bk)
  also have "\<dots> = ((e2 div 24 * 24 + e2 mod 24) * 60 + e1 mod 60) * 60 + e mod 60" by (simp add: algebra_simps)
  also have "\<dots> = e" unfolding e2_def e1_def by (simp add: div_mult_mod_eq)
  finally have e: "rtc_to_epoch t = e" .
  have "int (unat (ucast (d2 + 1) :: u8)) = int (unat d2) + 1" using d2 d8 by (simp add: unat_small_byte)
  then have day: "uint (ucast (d2 + 1) :: u8) = uint d2 + 1" by simp
  have "unat (ucast (e mod 60) :: u8) < 60" "unat (ucast (e1 mod 60) :: u8) < 60" "unat (ucast (e2 mod 24) :: u8) < 24"
    using small by (simp_all add: unat_small_byte)
  with e day mo(2-4) yr(3) show ?thesis by (simp add: t y32 m8 flip: t_def)
qed

end
