(* ===== verification/Timer.thy ===== *)
theory Timer
  imports Calendar Ata
begin

text \<open>
  The timer (\<open>sys/src/arch/m4kk1/timer.c\<close>): the clock chip behind the ports \<open>0x70\<close> and
  \<open>0x71\<close>, the tick counters of the interrupt handler, and the table of alarms. The port
  instructions are the record \<open>ports\<close>; waiting for the clock chip is a loop that need not
  end. A callback is the address of a function; what it does is the argument \<open>call\<close>. The
  interrupt handler ends with the wakeups of the scheduler and the poll of the network,
  two functions on the rest \<open>tm_env\<close> of the kernel. Dividing by a frequency of 0 faults in
  the code; the frequency is not 0 once the timer is started.
\<close>

unbundle bit_operations_syntax

definition M4K_RTC_SECONDS :: u8 where "M4K_RTC_SECONDS = 0x00"
definition M4K_RTC_MINUTES :: u8 where "M4K_RTC_MINUTES = 0x02"
definition M4K_RTC_HOURS :: u8 where "M4K_RTC_HOURS = 0x04"
definition M4K_RTC_DAY :: u8 where "M4K_RTC_DAY = 0x07"
definition M4K_RTC_MONTH :: u8 where "M4K_RTC_MONTH = 0x08"
definition M4K_RTC_YEAR :: u8 where "M4K_RTC_YEAR = 0x09"
definition M4K_RTC_STATUS_A :: u8 where "M4K_RTC_STATUS_A = 0x0A"
definition M4K_RTC_STATUS_B :: u8 where "M4K_RTC_STATUS_B = 0x0B"
definition M4K_RTC_BINARY_MODE :: u8 where "M4K_RTC_BINARY_MODE = 0x04"
definition M4K_TIMER_FREQ :: u32 where "M4K_TIMER_FREQ = 1193180"
definition M4K_PIT_CHANNEL_0 :: u16 where "M4K_PIT_CHANNEL_0 = 0x40"
definition M4K_PIT_COMMAND :: u16 where "M4K_PIT_COMMAND = 0x43"
definition M4K_PIT_SC0 :: u8 where "M4K_PIT_SC0 = 0x00"
definition M4K_PIT_BOTH :: u8 where "M4K_PIT_BOTH = 0x30"
definition M4K_PIT_MODE_3 :: u8 where "M4K_PIT_MODE_3 = 0x06"
definition M4K_PIT_BINARY :: u8 where "M4K_PIT_BINARY = 0x00"
definition MAX_ALARMS :: nat where "MAX_ALARMS = 256"

lemmas rtc_regs = M4K_RTC_SECONDS_def M4K_RTC_MINUTES_def M4K_RTC_HOURS_def M4K_RTC_DAY_def M4K_RTC_MONTH_def
  M4K_RTC_YEAR_def M4K_RTC_STATUS_A_def M4K_RTC_STATUS_B_def

section \<open>The clock chip\<close>

definition cmos_read :: "'d ports \<Rightarrow> u8 \<Rightarrow> 'd \<Rightarrow> u8 \<times> 'd" where
  "cmos_read io u8Reg d = p_inb io 0x71 (p_outb io 0x70 u8Reg d)"

definition cmos_write :: "'d ports \<Rightarrow> u8 \<Rightarrow> u8 \<Rightarrow> 'd \<Rightarrow> 'd" where
  "cmos_write io u8Reg u8Value d = p_outb io 0x71 u8Value (p_outb io 0x70 u8Reg d)"

partial_function (option) rtc_wait :: "'d ports \<Rightarrow> 'd \<Rightarrow> 'd option" where
  "rtc_wait io d =
     (case cmos_read io M4K_RTC_STATUS_A d of (v, d') \<Rightarrow> if v AND 0x80 \<noteq> 0 then rtc_wait io d' else Some d')"

definition from_bcd :: "u8 \<Rightarrow> u8" where
  "from_bcd v = drop_bit 4 v * 10 + (v AND 0x0F)"

definition to_bcd :: "u8 \<Rightarrow> u8" where
  "to_bcd v = push_bit 4 (v div 10) OR (v mod 10)"

definition mkrn_timer_read_rtc :: "'d ports \<Rightarrow> 'd \<Rightarrow> (mkrn_time \<times> 'd) option" where
  "mkrn_timer_read_rtc io d =
     (case cmos_read io M4K_RTC_STATUS_B d of (u8StatusB, d1) \<Rightarrow>
      case rtc_wait io d1 of None \<Rightarrow> None | Some d2 \<Rightarrow>
      case cmos_read io M4K_RTC_SECONDS d2 of (s, d3) \<Rightarrow>
      case cmos_read io M4K_RTC_MINUTES d3 of (m, d4) \<Rightarrow>
      case cmos_read io M4K_RTC_HOURS d4 of (h, d5) \<Rightarrow>
      case cmos_read io M4K_RTC_DAY d5 of (dy, d6) \<Rightarrow>
      case cmos_read io M4K_RTC_MONTH d6 of (mo, d7) \<Rightarrow>
      case cmos_read io M4K_RTC_YEAR d7 of (y, d8) \<Rightarrow>
        let f = (if u8StatusB AND M4K_RTC_BINARY_MODE = 0 then from_bcd else id)
        in Some (\<lparr>t_second = f s, t_minute = f m, t_hour = f h, t_day = f dy, t_month = f mo,
                  t_year = (if u8StatusB AND M4K_RTC_BINARY_MODE = 0
                            then drop_bit 4 (ucast y) * 10 + (ucast y AND 0x0F) else ucast y) + 2000\<rparr>, d8))"

definition mkrn_timer_set_rtc :: "'d ports \<Rightarrow> mkrn_time \<Rightarrow> 'd \<Rightarrow> 'd option" where
  "mkrn_timer_set_rtc io t d =
     (case cmos_read io M4K_RTC_STATUS_B d of (u8StatusB, d1) \<Rightarrow>
      case rtc_wait io d1 of None \<Rightarrow> None | Some d2 \<Rightarrow>
        let f = (if u8StatusB AND M4K_RTC_BINARY_MODE = 0 then to_bcd else id);
            y = (if u8StatusB AND M4K_RTC_BINARY_MODE = 0
                 then push_bit 4 ((t_year t mod 100) div 10) OR (t_year t mod 10) else t_year t mod 100);
            d3 = cmos_write io M4K_RTC_SECONDS (f (t_second t)) d2;
            d4 = cmos_write io M4K_RTC_MINUTES (f (t_minute t)) d3;
            d5 = cmos_write io M4K_RTC_HOURS (f (t_hour t)) d4;
            d6 = cmos_write io M4K_RTC_DAY (f (t_day t)) d5;
            d7 = cmos_write io M4K_RTC_MONTH (f (t_month t)) d6
        in Some (cmos_write io M4K_RTC_YEAR (ucast y) d7))"

section \<open>Ticks and alarms\<close>

record mkrn_timer_alarm =
  al_id :: u32
  al_interval_ms :: u32
  al_remaining_ms :: u32
  al_active :: bool
  al_callback :: u32

record 'e timer =
  u32TimerTicks :: u32
  u32TimerFrequency :: u32
  u64TimerNanoseconds :: u64
  pfnTimerCallback :: u32
  alarms :: "mkrn_timer_alarm list"
  u32NextAlarmId :: u32
  u32ActiveAlarms :: u32
  u32AlarmHwm :: nat
  u32CpuFrequencyMhz :: u32
  tm_env :: 'e

definition alarm_zero :: mkrn_timer_alarm where
  "alarm_zero = \<lparr>al_id = 0, al_interval_ms = 0, al_remaining_ms = 0, al_active = False, al_callback = 0\<rparr>"

definition timer_bss :: "'e \<Rightarrow> 'e timer" where
  "timer_bss e = \<lparr>u32TimerTicks = 0, u32TimerFrequency = 1000, u64TimerNanoseconds = 0, pfnTimerCallback = 0,
     alarms = replicate MAX_ALARMS alarm_zero, u32NextAlarmId = 1, u32ActiveAlarms = 0, u32AlarmHwm = 0,
     u32CpuFrequencyMhz = 0, tm_env = e\<rparr>"

text \<open>The divisor of the interval timer, low byte first.\<close>

definition pit_program :: "'d ports \<Rightarrow> u32 \<Rightarrow> 'd \<Rightarrow> 'd" where
  "pit_program io u32Frequency d =
     (let u32Divisor = M4K_TIMER_FREQ div u32Frequency;
          d1 = p_outb io M4K_PIT_COMMAND (M4K_PIT_SC0 OR M4K_PIT_BOTH OR M4K_PIT_MODE_3 OR M4K_PIT_BINARY) d;
          d2 = p_outb io M4K_PIT_CHANNEL_0 (ucast (u32Divisor AND 0xFF)) d1
      in p_outb io M4K_PIT_CHANNEL_0 (ucast (drop_bit 8 u32Divisor AND 0xFF)) d2)"

definition mkrn_timer_init :: "'d ports \<Rightarrow> u32 \<Rightarrow> 'e timer \<Rightarrow> 'd \<Rightarrow> 'e timer \<times> 'd" where
  "mkrn_timer_init io u32Frequency t d =
     (t\<lparr>u32TimerFrequency := u32Frequency, alarms := replicate MAX_ALARMS alarm_zero\<rparr>,
      p_outb io 0x21 0x00 (pit_program io u32Frequency d))"

definition mkrn_timer_set_frequency :: "'d ports \<Rightarrow> u32 \<Rightarrow> 'e timer \<Rightarrow> 'd \<Rightarrow> 'e timer \<times> 'd" where
  "mkrn_timer_set_frequency io u32Frequency t d = (t\<lparr>u32TimerFrequency := u32Frequency\<rparr>, pit_program io u32Frequency d)"

definition mkrn_timer_get_ticks :: "'e timer \<Rightarrow> u32" where "mkrn_timer_get_ticks t = u32TimerTicks t"
definition mkrn_timer_get_frequency :: "'e timer \<Rightarrow> u32" where "mkrn_timer_get_frequency t = u32TimerFrequency t"
definition mkrn_timer_get_cpu_frequency :: "'e timer \<Rightarrow> u32" where "mkrn_timer_get_cpu_frequency t = u32CpuFrequencyMhz t"
definition mkrn_timer_get_nanoseconds :: "'e timer \<Rightarrow> u64" where "mkrn_timer_get_nanoseconds t = u64TimerNanoseconds t"
definition mkrn_timer_get_active_count :: "'e timer \<Rightarrow> u32" where "mkrn_timer_get_active_count t = u32ActiveAlarms t"

definition mkrn_timer_get_uptime :: "'e timer \<Rightarrow> u32" where
  "mkrn_timer_get_uptime t = u32TimerTicks t * 1000 div u32TimerFrequency t"

definition mkrn_timer_register_handler :: "u32 \<Rightarrow> 'e timer \<Rightarrow> 'e timer" where
  "mkrn_timer_register_handler h t = t\<lparr>pfnTimerCallback := h\<rparr>"

text \<open>The scan window ends behind the last active alarm.\<close>

fun shrink_hwm :: "nat \<Rightarrow> mkrn_timer_alarm list \<Rightarrow> nat" where
  "shrink_hwm 0 as = 0"
| "shrink_hwm (Suc n) as = (if al_active (as ! n) then Suc n else shrink_hwm n as)"

definition set_alarm :: "nat \<Rightarrow> (mkrn_timer_alarm \<Rightarrow> mkrn_timer_alarm) \<Rightarrow> 'e timer \<Rightarrow> 'e timer" where
  "set_alarm i f t = t\<lparr>alarms := (alarms t)[i := f (alarms t ! i)]\<rparr>"

definition mkrn_timer_create_alarm :: "u32 \<Rightarrow> u32 \<Rightarrow> 'e timer \<Rightarrow> u32 \<times> 'e timer" where
  "mkrn_timer_create_alarm u32IntervalMs pCallback t =
     (if pCallback = 0 \<or> u32IntervalMs = 0 then (0, t)
      else case find (\<lambda>i. \<not> al_active (alarms t ! i)) [0..<MAX_ALARMS] of
        None \<Rightarrow> (0, t)
      | Some i \<Rightarrow>
          (u32NextAlarmId t,
           (set_alarm i (\<lambda>_. \<lparr>al_id = u32NextAlarmId t, al_interval_ms = u32IntervalMs, al_remaining_ms = u32IntervalMs,
                             al_active = True, al_callback = pCallback\<rparr>) t)
             \<lparr>u32NextAlarmId := u32NextAlarmId t + 1, u32ActiveAlarms := u32ActiveAlarms t + 1,
              u32AlarmHwm := max (u32AlarmHwm t) (i + 1)\<rparr>))"

definition mkrn_timer_destroy_alarm :: "u32 \<Rightarrow> 'e timer \<Rightarrow> int \<times> 'e timer" where
  "mkrn_timer_destroy_alarm u32AlarmId t =
     (case find (\<lambda>i. al_active (alarms t ! i) \<and> al_id (alarms t ! i) = u32AlarmId) [0..<MAX_ALARMS] of
        None \<Rightarrow> (-1, t)
      | Some i \<Rightarrow>
          let t1 = (set_alarm i (\<lambda>a. a\<lparr>al_active := False, al_callback := 0\<rparr>) t)\<lparr>u32ActiveAlarms := u32ActiveAlarms t - 1\<rparr>
          in (0, t1\<lparr>u32AlarmHwm := shrink_hwm (u32AlarmHwm t1) (alarms t1)\<rparr>))"

text \<open>One alarm at a tick, and the scan over the window, whose end is read again on
  every turn; an index past the table cannot be reached.\<close>

definition alarm_tick :: "(u32 \<Rightarrow> 'e timer \<Rightarrow> 'e timer) \<Rightarrow> nat \<Rightarrow> 'e timer \<Rightarrow> 'e timer" where
  "alarm_tick call i t =
     (if \<not> (al_active (alarms t ! i) \<and> al_callback (alarms t ! i) \<noteq> 0) then t
      else let t1 = set_alarm i (\<lambda>a. a\<lparr>al_remaining_ms := al_remaining_ms a - 1\<rparr>) t in
        if al_remaining_ms (alarms t1 ! i) \<noteq> 0 then t1
        else let t2 = call (al_callback (alarms t1 ! i)) t1 in
          if 0 < al_interval_ms (alarms t2 ! i)
          then set_alarm i (\<lambda>a. a\<lparr>al_remaining_ms := al_interval_ms a\<rparr>) t2
          else let t3 = (set_alarm i (\<lambda>a. a\<lparr>al_active := False\<rparr>) t2)\<lparr>u32ActiveAlarms := u32ActiveAlarms t2 - 1\<rparr>
               in t3\<lparr>u32AlarmHwm := shrink_hwm (u32AlarmHwm t3) (alarms t3)\<rparr>)"

function alarm_scan :: "(u32 \<Rightarrow> 'e timer \<Rightarrow> 'e timer) \<Rightarrow> nat \<Rightarrow> 'e timer \<Rightarrow> 'e timer" where
  "alarm_scan call i t =
     (if i < min (u32AlarmHwm t) MAX_ALARMS then alarm_scan call (Suc i) (alarm_tick call i t) else t)"
  by pat_completeness auto
termination by (relation "measure (\<lambda>(call, i, t). MAX_ALARMS - i)") auto

declare alarm_scan.simps [simp del]

definition mkrn_timer_handler :: "(u32 \<Rightarrow> 'e timer \<Rightarrow> 'e timer) \<Rightarrow> ('e \<Rightarrow> 'e) \<Rightarrow> ('e \<Rightarrow> 'e) \<Rightarrow> 'e timer \<Rightarrow> 'e timer" where
  "mkrn_timer_handler call process_tick net_poll t =
     (let t1 = t\<lparr>u32TimerTicks := u32TimerTicks t + 1,
                 u64TimerNanoseconds := u64TimerNanoseconds t + 1000000000 div ucast (u32TimerFrequency t)\<rparr>;
          t2 = (if 0 < u32ActiveAlarms t1 then alarm_scan call 0 t1 else t1);
          t3 = (if pfnTimerCallback t2 \<noteq> 0 then call (pfnTimerCallback t2) t2 else t2)
      in t3\<lparr>tm_env := net_poll (process_tick (tm_env t3))\<rparr>)"

text \<open>Waiting with \<open>hlt\<close>: each turn ends with the next interrupt, \<open>tick\<close>.\<close>

definition ms_ticks :: "u32 \<Rightarrow> 'e timer \<Rightarrow> u32" where
  "ms_ticks ms t = (ms div 1000) * u32TimerFrequency t + (ms mod 1000) * u32TimerFrequency t div 1000"

partial_function (option) wait_ticks :: "('e timer \<Rightarrow> 'e timer) \<Rightarrow> u32 \<Rightarrow> u32 \<Rightarrow> 'e timer \<Rightarrow> 'e timer option" where
  "wait_ticks tick u32Start n t = (if u32TimerTicks t - u32Start < n then wait_ticks tick u32Start n (tick t) else Some t)"

definition mkrn_timer_wait :: "('e timer \<Rightarrow> 'e timer) \<Rightarrow> u32 \<Rightarrow> 'e timer \<Rightarrow> 'e timer option" where
  "mkrn_timer_wait tick u32Milliseconds t = wait_ticks tick (u32TimerTicks t) (ms_ticks u32Milliseconds t) t"

definition mkrn_timer_sleep :: "('e timer \<Rightarrow> 'e timer) \<Rightarrow> u32 \<Rightarrow> 'e timer \<Rightarrow> 'e timer option" where
  "mkrn_timer_sleep tick u32Seconds t = mkrn_timer_wait tick (u32Seconds * 1000) t"

partial_function (option) wait_ns :: "('e timer \<Rightarrow> 'e timer) \<Rightarrow> u64 \<Rightarrow> u64 \<Rightarrow> 'e timer \<Rightarrow> 'e timer option" where
  "wait_ns tick u64Start n t = (if u64TimerNanoseconds t - u64Start < n then wait_ns tick u64Start n (tick t) else Some t)"

definition mkrn_timer_nsleep :: "('e timer \<Rightarrow> 'e timer) \<Rightarrow> u64 \<Rightarrow> 'e timer \<Rightarrow> 'e timer option" where
  "mkrn_timer_nsleep tick u64Nanoseconds t = wait_ns tick (u64TimerNanoseconds t) u64Nanoseconds t"

definition mkrn_timer_usleep :: "('e timer \<Rightarrow> 'e timer) \<Rightarrow> u32 \<Rightarrow> 'e timer \<Rightarrow> 'e timer option" where
  "mkrn_timer_usleep tick u32Microseconds t = wait_ns tick (u64TimerNanoseconds t) (ucast u32Microseconds * 1000) t"

text \<open>Calibration takes the values of the cycle counter before and after the wait.\<close>

definition mkrn_timer_calibrate :: "('e timer \<Rightarrow> 'e timer) \<Rightarrow> u64 \<Rightarrow> u64 \<Rightarrow> 'e timer \<Rightarrow> 'e timer option" where
  "mkrn_timer_calibrate tick u64StartTsc u64EndTsc t =
     (case mkrn_timer_wait tick 100 t of
        None \<Rightarrow> None
      | Some t1 \<Rightarrow>
          let u32TimeMs = (u32TimerTicks t1 - u32TimerTicks t) * 1000 div u32TimerFrequency t1;
              u32TscDiff32 = ucast (u64EndTsc - u64StartTsc) :: u32
          in Some (t1\<lparr>u32CpuFrequencyMhz :=
               (if 0 < u32TimeMs \<and> 0 < u32TscDiff32 then u32TscDiff32 div u32TimeMs else 1000)\<rparr>))"

end
