(* ===== verification/Syscall.thy ===== *)
theory Syscall
  imports SyscallTable PathRes PseudoFs Fork Timer
begin

text \<open>
  The handlers of the two gates (\<open>sys/src/kernel/syscall.c\<close>, \<open>syscall_m4k.c\<close>,
  \<open>session.c\<close>) on the whole kernel: the timer, the files with the processes and the pseudo
  filesystems behind them, and what was put on the console. User pointers are addresses
  of the memory \<open>ram\<close>, which the kernel shares with the processes. What the handlers find
  around them is the record \<open>sc_env\<close>: the ports, the hooks of the file layer, the address
  the heap gives for a new process, the entry of a forked process and the stack pointer of
  the caller. Handlers that only start a device, or fill an array of a structure whose
  layout is left open here, are the argument \<open>rest\<close>.
\<close>

unbundle bit_operations_syntax

section \<open>The kernel\<close>

record 'd kernel =
  k_timer :: "unit timer"
  k_vfs :: "'d penv vfs"
  k_console :: "u8 list"

record 'd sc_env =
  e_io :: "'d ports"
  e_hooks :: "'d penv vfs_hooks"
  e_pcb :: "'d kernel \<Rightarrow> u32"
  e_tramp :: u32
  e_esp :: u32

definition kp :: "'d kernel \<Rightarrow> kproc" where
  "kp k = pe_kproc (v_env (k_vfs k))"

definition set_kp :: "kproc \<Rightarrow> 'd kernel \<Rightarrow> 'd kernel" where
  "set_kp s k = k\<lparr>k_vfs := (k_vfs k)\<lparr>v_env := (v_env (k_vfs k))\<lparr>pe_kproc := s\<rparr>\<rparr>\<rparr>"

definition kram :: "'d kernel \<Rightarrow> mem" where
  "kram k = ram (kp k)"

definition upd_ram :: "(mem \<Rightarrow> mem) \<Rightarrow> 'd kernel \<Rightarrow> 'd kernel" where
  "upd_ram f k = set_kp ((kp k)\<lparr>ram := f (kram k)\<rparr>) k"

definition hw :: "'d kernel \<Rightarrow> 'd" where
  "hw k = ata_hw (dv_ata (pe_devfs (v_env (k_vfs k))))"

definition set_hw :: "'d \<Rightarrow> 'd kernel \<Rightarrow> 'd kernel" where
  "set_hw d k = k\<lparr>k_vfs := (k_vfs k)\<lparr>v_env := (v_env (k_vfs k))\<lparr>pe_devfs := (pe_devfs (v_env (k_vfs k)))
     \<lparr>dv_ata := (dv_ata (pe_devfs (v_env (k_vfs k))))\<lparr>ata_hw := d\<rparr>\<rparr>\<rparr>\<rparr>\<rparr>"

definition cur_proc :: "'d kernel \<Rightarrow> proc option" where
  "cur_proc k = (if current (kp k) = 0 then None else Some (procs (kp k) (current (kp k))))"

definition now_ms :: "'d kernel \<Rightarrow> u32" where
  "now_ms k = mkrn_timer_get_uptime (k_timer k)"

type_synonym 'd handler = "'d sc_env \<Rightarrow> sc_args \<Rightarrow> 'd kernel \<Rightarrow> (sc_result \<times> 'd kernel) option"

text \<open>Values passed back, and user pointers: a string at an address, \<open>None\<close> when it has no end.\<close>

definition ret :: "u32 \<Rightarrow> 'd kernel \<Rightarrow> (sc_result \<times> 'd kernel) option" where
  "ret r k = Some (Ret r, k)"

definition zero_ok :: "int \<Rightarrow> u32" where
  "zero_ok r = (if r = 0 then M4K_SC_SUCCESS else M4K_SC_ERROR)"

definition nonneg :: "int \<Rightarrow> u32" where
  "nonneg r = (if 0 \<le> r then word_of_int r else M4K_SC_ERROR)"

definition mem_bytes :: "u32 \<Rightarrow> nat \<Rightarrow> mem \<Rightarrow> u8 list" where
  "mem_bytes p n m = map (\<lambda>i. m (p + of_nat i)) [0..<n]"

definition c_string :: "u32 \<Rightarrow> mem \<Rightarrow> u8 list option" where
  "c_string p m = map_option (\<lambda>n. mem_bytes p (unat n) m) (mkrn_strlen p m)"

definition with_str :: "u32 \<Rightarrow> (u8 list option \<Rightarrow> 'd kernel \<Rightarrow> 'r option) \<Rightarrow> 'd kernel \<Rightarrow> 'r option" where
  "with_str p f k =
     (if p = 0 then f None k else case c_string p (kram k) of None \<Rightarrow> None | Some s \<Rightarrow> f (Some s) k)"

definition on_vfs :: "(int \<Rightarrow> u32) \<Rightarrow> ('d penv vfs \<Rightarrow> (int \<times> 'd penv vfs) option) \<Rightarrow> 'd kernel \<Rightarrow> (sc_result \<times> 'd kernel) option" where
  "on_vfs conv f k = map_option (\<lambda>(r, v). (Ret (conv r), k\<lparr>k_vfs := v\<rparr>)) (f (k_vfs k))"

definition on_kp :: "(int \<Rightarrow> u32) \<Rightarrow> (kproc \<Rightarrow> int \<times> kproc) \<Rightarrow> 'd kernel \<Rightarrow> (sc_result \<times> 'd kernel) option" where
  "on_kp conv f k = (case f (kp k) of (r, s) \<Rightarrow> ret (conv r) (set_kp s k))"

fun store_words :: "u32 \<Rightarrow> u32 list \<Rightarrow> mem \<Rightarrow> mem" where
  "store_words a [] m = m"
| "store_words a (w # ws) m = store_words (a + 4) ws (store32 a w m)"

definition load64 :: "u32 \<Rightarrow> mem \<Rightarrow> u64" where
  "load64 a m = ucast (load32 a m) OR push_bit 32 (ucast (load32 (a + 4) m))"

section \<open>Processes\<close>

definition RFFDG :: u32 where "RFFDG = 0x0002"
definition M4K_EBUSY :: int where "M4K_EBUSY = 0x4D000008"

definition mkrn_syscall_exit_impl :: "'d handler" where
  "mkrn_syscall_exit_impl e args k =
     (case args of (uArg1, _) \<Rightarrow>
      if current (kp k) = 0 then ret 0 k
      else case mkrn_process_exit (sint uArg1) (kp k) of (nxt, s) \<Rightarrow> Some (Leaves nxt, set_kp s k))"

definition mkrn_syscall_fork_impl :: "'d handler" where
  "mkrn_syscall_fork_impl e args k =
     (case mkrn_fork_status (e_pcb e k) (e_tramp e) 0 (RFPROC OR RFFDG OR RFNAMEG OR RFENVG) (kp k) of
        None \<Rightarrow> None
      | Some (r, s) \<Rightarrow> ret (nonneg r) (set_kp s k))"

definition mkrn_syscall_getpid_impl :: "'d handler" where
  "mkrn_syscall_getpid_impl e args k = ret (mkrn_process_get_pid (kp k)) k"

definition mkrn_syscall_getppid_impl :: "'d handler" where
  "mkrn_syscall_getppid_impl e args k = ret (case cur_proc k of None \<Rightarrow> 0 | Some c \<Rightarrow> ppid c) k"

definition mkrn_syscall_getuid_impl :: "'d handler" where
  "mkrn_syscall_getuid_impl e args k = ret (mkrn_process_get_uid (kp k)) k"

definition mkrn_syscall_geteuid_impl :: "'d handler" where
  "mkrn_syscall_geteuid_impl e args k = ret (mkrn_process_get_euid (kp k)) k"

definition mkrn_syscall_getgid_impl :: "'d handler" where
  "mkrn_syscall_getgid_impl e args k = ret (mkrn_process_get_gid (kp k)) k"

definition mkrn_syscall_getegid_impl :: "'d handler" where
  "mkrn_syscall_getegid_impl e args k = ret (mkrn_process_get_egid (kp k)) k"

definition mkrn_syscall_setuid_impl :: "'d handler" where
  "mkrn_syscall_setuid_impl e args k = (case args of (uArg1, _) \<Rightarrow> on_kp zero_ok (mkrn_process_set_uid uArg1) k)"

definition mkrn_syscall_setgid_impl :: "'d handler" where
  "mkrn_syscall_setgid_impl e args k = (case args of (uArg1, _) \<Rightarrow> on_kp zero_ok (mkrn_process_set_gid uArg1) k)"

definition mkrn_syscall_getgroups_impl :: "'d handler" where
  "mkrn_syscall_getgroups_impl e args k =
     (case args of (uArg1, uArg2, _) \<Rightarrow>
      case mkrn_process_get_groups (uArg2 \<noteq> 0) (sint uArg1) (kp k) of (r, gs) \<Rightarrow>
        ret (nonneg r) (upd_ram (store_words uArg2 gs) k))"

definition groups_at :: "u32 \<Rightarrow> 'd kernel \<Rightarrow> u32 list" where
  "groups_at p k = map (\<lambda>i. load32 (p + 4 * of_nat i) (kram k)) [0..<16]"

definition mkrn_syscall_setgroups_impl :: "'d handler" where
  "mkrn_syscall_setgroups_impl e args k =
     (case args of (uArg1, uArg2, _) \<Rightarrow> on_kp zero_ok (mkrn_process_set_groups (sint uArg1) (groups_at uArg2 k)) k)"

definition store_status :: "u32 \<Rightarrow> u32 option \<Rightarrow> 'd kernel \<Rightarrow> 'd kernel" where
  "store_status p v k = (case v of None \<Rightarrow> k | Some w \<Rightarrow> upd_ram (store32 p w) k)"

definition mkrn_syscall_waitpid_impl :: "'d handler" where
  "mkrn_syscall_waitpid_impl e args k =
     (case args of (uArg1, uArg2, uArg3, _) \<Rightarrow>
      case mkrn_waitpid uArg1 (uArg2 \<noteq> 0) uArg3 (kp k) of
        (Yields, s) \<Rightarrow> Some (Waits, set_kp s k)
      | (Returned r st, s) \<Rightarrow> ret (nonneg r) (store_status uArg2 st (set_kp s k)))"

definition mkrn_syscall_kill_impl :: "'d handler" where
  "mkrn_syscall_kill_impl e args k = (case args of (uArg1, uArg2, _) \<Rightarrow> on_kp zero_ok (mkrn_kill uArg1 (sint uArg2)) k)"

definition mkrn_syscall_execve_impl :: "'d handler" where
  "mkrn_syscall_execve_impl e args k = ret M4K_SC_ERROR k"

definition mkrn_syscall_brk_impl :: "'d handler" where
  "mkrn_syscall_brk_impl e args k = ret M4K_SC_ERROR k"

definition enc_info :: "procinfo \<Rightarrow> u8 list" where
  "enc_info i = le_bytes 4 (info_pid i) @ le_bytes 4 (info_ppid i) @ le_bytes 4 (info_state i) @ le_bytes 4 (info_mem_kb i) @ info_name i"

definition mkrn_syscall_getprocs_impl :: "'d handler" where
  "mkrn_syscall_getprocs_impl e args k =
     (case args of (uArg1, uMax, _) \<Rightarrow>
      if uArg1 = 0 \<or> uMax = 0 then ret M4K_SC_ERROR k
      else let is = mkrn_process_fill_info True (unat uMax) (kp k)
           in ret (of_nat (length is)) (upd_ram (store_bytes_at uArg1 (concat (map enc_info is))) k))"

definition mkrn_memory_get_total :: "mstate \<Rightarrow> u32" where "mkrn_memory_get_total m = total_mem m"
definition mkrn_memory_get_free :: "mstate \<Rightarrow> u32" where "mkrn_memory_get_free m = free_mem m"
definition mkrn_memory_get_used :: "mstate \<Rightarrow> u32" where "mkrn_memory_get_used m = used_mem m"
definition mkrn_process_get_count :: "kproc \<Rightarrow> u32" where "mkrn_process_get_count s = process_count s"
definition mkrn_process_timer_waiter_count :: "kproc \<Rightarrow> u32" where "mkrn_process_timer_waiter_count s = u32TimerWaiters s"

definition mkrn_syscall_sysinfo_impl :: "'d handler" where
  "mkrn_syscall_sysinfo_impl e args k =
     (case args of (uArg1, _) \<Rightarrow>
      if uArg1 = 0 then ret M4K_SC_ERROR k
      else let m = pmem (kp k) in
        ret M4K_SC_SUCCESS (upd_ram (store_words uArg1 [mkrn_memory_get_total m, mkrn_memory_get_free m, mkrn_memory_get_used m,
          mkrn_process_get_count (kp k), mkrn_process_timer_waiter_count (kp k)]) k))"

definition mkrn_syscall_uname_impl :: "'d handler" where
  "mkrn_syscall_uname_impl e args k =
     (case args of (uArg1, _) \<Rightarrow>
      if uArg1 = 0 then ret M4K_SC_ERROR k
      else ret M4K_SC_SUCCESS (upd_ram (fold (\<lambda>(off, s). store_bytes_at (uArg1 + off) (chars s @ [0]))
        [(0, ''M4KK1''), (65, ''m4kk1''), (130, ''1.0.0''), (195, ''M4KK1-Y4KU''), (260, ''i386'')]) k))"

section \<open>The working directory\<close>

definition mkrn_syscall_getcwd_impl :: "'d handler" where
  "mkrn_syscall_getcwd_impl e args k =
     (case args of (pBuf, uSize, _) \<Rightarrow>
      case cur_proc k of
        None \<Rightarrow> ret M4K_SC_ERROR k
      | Some c \<Rightarrow>
          if pBuf = 0 \<or> uSize = 0 then ret M4K_SC_ERROR k
          else let s = take (nat (sint (uSize - 1))) (cstr (proc_cwd c))
               in ret (of_nat (length s)) (upd_ram (store_bytes_at pBuf (s @ [0])) k))"

text \<open>The new working directory is copied over the old one, up to its terminator.\<close>

definition put_cwd :: "u8 list \<Rightarrow> u8 list \<Rightarrow> u8 list" where
  "put_cwd a s = take 254 s @ 0 # drop (length (take 254 s) + 1) a"

definition mkrn_syscall_chdir_impl :: "'d handler" where
  "mkrn_syscall_chdir_impl e args k =
     (case args of (pPath, _) \<Rightarrow>
      case cur_proc k of
        None \<Rightarrow> ret M4K_SC_ERROR k
      | Some c \<Rightarrow>
          if pPath = 0 then ret M4K_SC_ERROR k
          else if fst (root_yafs (k_vfs k)) = 0 then ret M4K_SC_ERROR k
          else with_str pPath (\<lambda>path k.
            let resolved = mkrn_resolve_path (cstr (proc_cwd c)) path 256
            in case mkrn_yafs_lookup_path (Some resolved) (root_yafs (k_vfs k)) of
                 None \<Rightarrow> None
               | Some uInode \<Rightarrow>
                   if uInode = 0 then ret M4K_SC_ERROR k
                   else ret M4K_SC_SUCCESS
                     (set_kp (upd (current (kp k)) (\<lambda>r. r\<lparr>proc_cwd := put_cwd (proc_cwd r) resolved\<rparr>) (kp k)) k)) k)"

section \<open>Files\<close>

definition COM1_DATA :: u16 where "COM1_DATA = 0x3F8"
definition COM1_LSR :: u16 where "COM1_LSR = 0x3FD"
definition LSR_DR :: u8 where "LSR_DR = 0x01"

partial_function (option) com1_wait :: "'d ports \<Rightarrow> 'd \<Rightarrow> 'd option" where
  "com1_wait io d = (case p_inb io COM1_LSR d of (v, d1) \<Rightarrow> if v AND LSR_DR = 0 then com1_wait io d1 else Some d1)"

fun com1_read :: "'d ports \<Rightarrow> nat \<Rightarrow> 'd \<Rightarrow> (u8 list \<times> 'd) option" where
  "com1_read io 0 d = Some ([], d)"
| "com1_read io (Suc n) d =
     (case com1_wait io d of None \<Rightarrow> None
      | Some d1 \<Rightarrow> (case p_inb io COM1_DATA d1 of (b, d2) \<Rightarrow> map_option (\<lambda>(bs, d3). (b # bs, d3)) (com1_read io n d2)))"

definition mkrn_syscall_read_impl :: "'d handler" where
  "mkrn_syscall_read_impl e args k =
     (case args of (uFd, pBuf, uCount, _) \<Rightarrow>
      if uFd = 0 \<and> pBuf \<noteq> 0 \<and> uCount > 0 \<and> mkrn_vfs_fd_in_use 0 (k_vfs k) = 0
      then (case com1_read (e_io e) (unat uCount) (hw k) of None \<Rightarrow> None
            | Some (bs, d) \<Rightarrow> ret uCount (upd_ram (store_bytes_at pBuf bs) (set_hw d k)))
      else if pBuf \<noteq> 0 \<and> uCount > 0
      then (case mkrn_vfs_read (e_hooks e) (sint uFd) uCount (k_vfs k) of None \<Rightarrow> None
            | Some ((r, bs), v) \<Rightarrow> ret (word_of_int r) (upd_ram (store_bytes_at pBuf bs) (k\<lparr>k_vfs := v\<rparr>)))
      else ret M4K_SC_ERROR k)"

definition mkrn_syscall_write_impl :: "'d handler" where
  "mkrn_syscall_write_impl e args k =
     (case args of (uFd, pBuf, uCount, _) \<Rightarrow>
      if uFd = 1 \<and> pBuf \<noteq> 0 \<and> mkrn_vfs_fd_in_use 1 (k_vfs k) = 0
      then let s = take_str (kram k) pBuf (unat uCount) in ret (of_nat (length s)) (k\<lparr>k_console := k_console k @ s\<rparr>)
      else if pBuf \<noteq> 0 \<and> uCount > 0
      then on_vfs word_of_int (mkrn_vfs_write (e_hooks e) (sint uFd) (mem_bytes pBuf (unat uCount) (kram k))) k
      else ret M4K_SC_ERROR k)"

definition mkrn_syscall_open_impl :: "'d handler" where
  "mkrn_syscall_open_impl e args k =
     (case args of (pPath, iFlags, _) \<Rightarrow>
      with_str pPath (\<lambda>path k. on_vfs nonneg (mkrn_vfs_open (e_hooks e) (cur_proc k) path iFlags) k) k)"

definition mkrn_syscall_close_impl :: "'d handler" where
  "mkrn_syscall_close_impl e args k =
     (case args of (iFd, _) \<Rightarrow> on_vfs zero_ok (\<lambda>v. Some (mkrn_vfs_close (e_hooks e) (sint iFd) v)) k)"

definition mkrn_syscall_mkdir_impl :: "'d handler" where
  "mkrn_syscall_mkdir_impl e args k =
     (case args of (pPath, _) \<Rightarrow> with_str pPath (\<lambda>path. on_vfs zero_ok (mkrn_vfs_mkdir path)) k)"

definition mkrn_syscall_unlink_impl :: "'d handler" where
  "mkrn_syscall_unlink_impl e args k =
     (case args of (pPath, _) \<Rightarrow> with_str pPath (\<lambda>path. on_vfs zero_ok (mkrn_vfs_unlink path)) k)"

definition mkrn_syscall_rmdir_impl :: "'d handler" where
  "mkrn_syscall_rmdir_impl e args k =
     (case args of (pPath, _) \<Rightarrow> with_str pPath (\<lambda>path. on_vfs zero_ok (mkrn_vfs_rmdir path)) k)"

definition mkrn_syscall_rename_impl :: "'d handler" where
  "mkrn_syscall_rename_impl e args k =
     (case args of (pOld, pNew, _) \<Rightarrow>
      with_str pOld (\<lambda>old. with_str pNew (\<lambda>new. on_vfs zero_ok (mkrn_vfs_rename old new))) k)"

definition mkrn_syscall_pipe_impl :: "'d handler" where
  "mkrn_syscall_pipe_impl e args k =
     (case args of (piFds, _) \<Rightarrow>
      if piFds = 0 then ret M4K_SC_ERROR k
      else case mkrn_vfs_pipe (k_vfs k) of (r, fds, v) \<Rightarrow>
        if r \<noteq> 0 then ret M4K_SC_ERROR (k\<lparr>k_vfs := v\<rparr>)
        else ret M4K_SC_SUCCESS (case fds of None \<Rightarrow> k\<lparr>k_vfs := v\<rparr>
          | Some (a, b) \<Rightarrow> upd_ram (store_words piFds [word_of_int a, word_of_int b]) (k\<lparr>k_vfs := v\<rparr>)))"

definition mkrn_syscall_dup2_impl :: "'d handler" where
  "mkrn_syscall_dup2_impl e args k =
     (case args of (iOldfd, iNewfd, _) \<Rightarrow>
      on_vfs nonneg (\<lambda>v. Some (mkrn_vfs_dup2 (e_hooks e) (sint iOldfd) (sint iNewfd) v)) k)"

definition mkrn_syscall_chmod_impl :: "'d handler" where
  "mkrn_syscall_chmod_impl e args k =
     (case args of (path, mode, _) \<Rightarrow> with_str path (\<lambda>p k. on_vfs zero_ok (mkrn_vfs_chmod (cur_proc k) p mode) k) k)"

definition mkrn_syscall_chown_impl :: "'d handler" where
  "mkrn_syscall_chown_impl e args k =
     (case args of (path, u, g, _) \<Rightarrow> with_str path (\<lambda>p k. on_vfs zero_ok (mkrn_vfs_chown (cur_proc k) p u g) k) k)"

definition mkrn_syscall_access_impl :: "'d handler" where
  "mkrn_syscall_access_impl e args k =
     (case args of (path, mode, _) \<Rightarrow>
      with_str path (\<lambda>p k. map_option (\<lambda>r. (Ret (zero_ok r), k)) (mkrn_vfs_access (cur_proc k) p mode (k_vfs k))) k)"

definition mkrn_syscall_mount_impl :: "'d handler" where
  "mkrn_syscall_mount_impl e args k =
     (case args of (pSource, pTarget, pFstype, _) \<Rightarrow>
      if pSource = 0 \<or> pTarget = 0 \<or> pFstype = 0 then ret M4K_SC_ERROR k
      else with_str pSource (\<lambda>s. with_str pTarget (\<lambda>t. with_str pFstype (\<lambda>f.
        on_vfs zero_ok (\<lambda>v. Some (mkrn_vfs_mount s t f v))))) k)"

definition mkrn_syscall_umount_impl :: "'d handler" where
  "mkrn_syscall_umount_impl e args k =
     (case args of (pTarget, _) \<Rightarrow>
      if pTarget = 0 then ret M4K_SC_ERROR k
      else with_str pTarget (\<lambda>t. on_vfs zero_ok (\<lambda>v. Some (mkrn_vfs_umount t v))) k)"

definition mkrn_syscall_statfs_impl :: "'d handler" where
  "mkrn_syscall_statfs_impl e args k =
     (case args of (pBuf, _) \<Rightarrow>
      if pBuf = 0 then ret M4K_SC_ERROR k
      else case mkrn_yafs_fs_stats True (snd (root_yafs (k_vfs k))) of
        (r, Some (uBs, uTb, uFb, uUb)) \<Rightarrow>
          if r \<noteq> 0 then ret M4K_SC_ERROR k else ret M4K_SC_SUCCESS (upd_ram (store_words pBuf [uBs, uTb, uFb, uUb]) k)
      | _ \<Rightarrow> ret M4K_SC_ERROR k)"

section \<open>The clock\<close>

definition mkrn_syscall_time_impl :: "'d handler" where
  "mkrn_syscall_time_impl e args k =
     (case args of (pTloc, _) \<Rightarrow>
      case mkrn_timer_read_rtc (e_io e) (hw k) of None \<Rightarrow> None
      | Some (rtc, d) \<Rightarrow>
          let uCurTime = rtc_to_epoch rtc; k1 = set_hw d k
          in ret uCurTime (if pTloc \<noteq> 0 then upd_ram (store32 pTloc uCurTime) k1 else k1))"

definition not_root :: "'d kernel \<Rightarrow> bool" where
  "not_root k = (case cur_proc k of None \<Rightarrow> False | Some c \<Rightarrow> euid c \<noteq> 0)"

definition mkrn_syscall_settimeofday_impl :: "'d handler" where
  "mkrn_syscall_settimeofday_impl e args k =
     (case args of (pTv, _) \<Rightarrow>
      if pTv = 0 then ret M4K_SC_ERROR k
      else if not_root k then ret M4K_SC_ERROR k
      else map_option (\<lambda>d. (Ret 0, set_hw d k))
             (mkrn_timer_set_rtc (e_io e) (epoch_to_rtc (load32 pTv (kram k))) (hw k)))"

definition mkrn_syscall_uptime_impl :: "'d handler" where
  "mkrn_syscall_uptime_impl e args k = ret (mkrn_timer_get_uptime (k_timer k)) k"

definition mkrn_syscall_rtcread_impl :: "'d handler" where
  "mkrn_syscall_rtcread_impl e args k =
     (case args of (pBuf, _) \<Rightarrow>
      if pBuf = 0 then ret M4K_SC_ERROR k
      else case mkrn_timer_read_rtc (e_io e) (hw k) of None \<Rightarrow> None
        | Some (rtc, d) \<Rightarrow>
            ret 0 (upd_ram (store_words pBuf [t_year rtc, ucast (t_month rtc), ucast (t_day rtc), ucast (t_hour rtc),
              ucast (t_minute rtc), ucast (t_second rtc)]) (set_hw d k)))"

text \<open>The fields are put into the structure first, the narrow ones in eight bits.\<close>

definition rtc_fields :: "u32 \<Rightarrow> mem \<Rightarrow> mkrn_time" where
  "rtc_fields p m =
     \<lparr>t_second = ucast (load32 (p + 20) m), t_minute = ucast (load32 (p + 16) m), t_hour = ucast (load32 (p + 12) m),
      t_day = ucast (load32 (p + 8) m), t_month = ucast (load32 (p + 4) m), t_year = load32 p m\<rparr>"

definition rtc_in_range :: "mkrn_time \<Rightarrow> bool" where
  "rtc_in_range t \<longleftrightarrow> \<not> (t_month t < 1 \<or> t_month t > 12 \<or> t_day t < 1 \<or> t_day t > 31 \<or> t_hour t > 23 \<or> t_minute t > 59 \<or>
     t_second t > 59 \<or> t_year t < 2000 \<or> t_year t > 2099)"

definition mkrn_syscall_rtcwrite_impl :: "'d handler" where
  "mkrn_syscall_rtcwrite_impl e args k =
     (case args of (pBuf, _) \<Rightarrow>
      if pBuf = 0 then ret M4K_SC_ERROR k
      else if not_root k then ret M4K_SC_ERROR k
      else let rtc = rtc_fields pBuf (kram k) in
        if \<not> rtc_in_range rtc then ret M4K_SC_ERROR k
        else map_option (\<lambda>d. (Ret 0, set_hw d k)) (mkrn_timer_set_rtc (e_io e) rtc (hw k)))"

definition mkrn_syscall_timerlist_impl :: "'d handler" where
  "mkrn_syscall_timerlist_impl e args k = ret (mkrn_timer_get_active_count (k_timer k)) k"

section \<open>The table of the gate 0x80\<close>

datatype sc_handler =
  H_exit | H_fork | H_read | H_write | H_open | H_close | H_waitpid | H_execve | H_getpid | H_getppid | H_brk
| H_getcwd | H_chdir | H_mkdir | H_unlink | H_rmdir | H_rename | H_time | H_uname | H_reboot | H_getdents
| H_sysinfo | H_getprocs | H_kill | H_statfs | H_pipe | H_dup2 | H_mount | H_umount | H_mountinfo
| H_getuid | H_geteuid | H_getgid | H_getegid | H_setuid | H_setgid | H_chmod | H_chown | H_access
| H_getgroups | H_setgroups | H_settimeofday | H_uptime | H_rtcread | H_rtcwrite | H_timerlist
| H_netinfo | H_ping | H_tcp_connect | H_tcp_send | H_tcp_recv | H_tcp_close

definition sc_calls :: "(u32 \<times> sc_handler) list" where
  "sc_calls = [(0x01, H_exit), (0x02, H_fork), (0x03, H_read), (0x04, H_write), (0x05, H_open), (0x06, H_close),
     (0x07, H_waitpid), (0x08, H_execve), (0x09, H_getpid), (0x0A, H_getppid), (0x0B, H_brk), (0x10, H_getcwd),
     (0x11, H_chdir), (0x12, H_mkdir), (0x15, H_unlink), (0x13, H_rmdir), (0x16, H_rename), (0x1E, H_time),
     (0x73, H_uname), (0x6D, H_reboot), (0x47, H_getdents), (0x84, H_sysinfo), (0x85, H_getprocs), (0x64, H_kill),
     (0x86, H_statfs), (0x28, H_pipe), (0x2A, H_dup2), (0x87, H_mount), (0x88, H_umount), (0x89, H_mountinfo),
     (0x20, H_getuid), (0x24, H_geteuid), (0x21, H_getgid), (0x25, H_getegid), (0x22, H_setuid), (0x23, H_setgid),
     (0x1B, H_chmod), (0x1C, H_chown), (0x1A, H_access), (0x8A, H_getgroups), (0x8B, H_setgroups),
     (0x5D, H_settimeofday), (0x8C, H_uptime), (0x8D, H_rtcread), (0x8E, H_rtcwrite), (0x8F, H_timerlist)]"

definition sc_net_calls :: "(u32 \<times> sc_handler) list" where
  "sc_net_calls = [(0x90, H_netinfo), (0x91, H_ping), (0x92, H_tcp_connect), (0x93, H_tcp_send), (0x94, H_tcp_recv), (0x95, H_tcp_close)]"

definition mkrn_syscall_net_init :: "sc_handler syscalls \<Rightarrow> sc_handler syscalls" where
  "mkrn_syscall_net_init t = fold (\<lambda>(n, h). mkrn_syscall_register n (Some h)) sc_net_calls t"

definition mkrn_syscall_init_handlers :: "sc_handler syscalls \<Rightarrow> sc_handler syscalls" where
  "mkrn_syscall_init_handlers t = mkrn_syscall_net_init (fold (\<lambda>(n, h). mkrn_syscall_register n (Some h)) sc_calls t)"

definition mkrn_syscall_init :: "sc_handler syscalls \<Rightarrow> sc_handler syscalls" where
  "mkrn_syscall_init t = mkrn_syscall_init_handlers (mkrn_syscall_table_init t)"

definition run80 :: "'d sc_env \<Rightarrow> (sc_handler \<Rightarrow> 'd handler) \<Rightarrow> sc_handler \<Rightarrow> sc_args \<Rightarrow> 'd kernel \<Rightarrow> (sc_result \<times> 'd kernel) option" where
  "run80 e rest h =
     (case h of
        H_exit \<Rightarrow> mkrn_syscall_exit_impl e | H_fork \<Rightarrow> mkrn_syscall_fork_impl e
      | H_read \<Rightarrow> mkrn_syscall_read_impl e | H_write \<Rightarrow> mkrn_syscall_write_impl e
      | H_open \<Rightarrow> mkrn_syscall_open_impl e | H_close \<Rightarrow> mkrn_syscall_close_impl e
      | H_waitpid \<Rightarrow> mkrn_syscall_waitpid_impl e | H_execve \<Rightarrow> mkrn_syscall_execve_impl e
      | H_getpid \<Rightarrow> mkrn_syscall_getpid_impl e | H_getppid \<Rightarrow> mkrn_syscall_getppid_impl e
      | H_brk \<Rightarrow> mkrn_syscall_brk_impl e | H_getcwd \<Rightarrow> mkrn_syscall_getcwd_impl e
      | H_chdir \<Rightarrow> mkrn_syscall_chdir_impl e | H_mkdir \<Rightarrow> mkrn_syscall_mkdir_impl e
      | H_unlink \<Rightarrow> mkrn_syscall_unlink_impl e | H_rmdir \<Rightarrow> mkrn_syscall_rmdir_impl e
      | H_rename \<Rightarrow> mkrn_syscall_rename_impl e | H_time \<Rightarrow> mkrn_syscall_time_impl e
      | H_uname \<Rightarrow> mkrn_syscall_uname_impl e | H_sysinfo \<Rightarrow> mkrn_syscall_sysinfo_impl e
      | H_getprocs \<Rightarrow> mkrn_syscall_getprocs_impl e | H_kill \<Rightarrow> mkrn_syscall_kill_impl e
      | H_statfs \<Rightarrow> mkrn_syscall_statfs_impl e | H_pipe \<Rightarrow> mkrn_syscall_pipe_impl e
      | H_dup2 \<Rightarrow> mkrn_syscall_dup2_impl e | H_mount \<Rightarrow> mkrn_syscall_mount_impl e
      | H_umount \<Rightarrow> mkrn_syscall_umount_impl e | H_getuid \<Rightarrow> mkrn_syscall_getuid_impl e
      | H_geteuid \<Rightarrow> mkrn_syscall_geteuid_impl e | H_getgid \<Rightarrow> mkrn_syscall_getgid_impl e
      | H_getegid \<Rightarrow> mkrn_syscall_getegid_impl e | H_setuid \<Rightarrow> mkrn_syscall_setuid_impl e
      | H_setgid \<Rightarrow> mkrn_syscall_setgid_impl e | H_chmod \<Rightarrow> mkrn_syscall_chmod_impl e
      | H_chown \<Rightarrow> mkrn_syscall_chown_impl e | H_access \<Rightarrow> mkrn_syscall_access_impl e
      | H_getgroups \<Rightarrow> mkrn_syscall_getgroups_impl e | H_setgroups \<Rightarrow> mkrn_syscall_setgroups_impl e
      | H_settimeofday \<Rightarrow> mkrn_syscall_settimeofday_impl e | H_uptime \<Rightarrow> mkrn_syscall_uptime_impl e
      | H_rtcread \<Rightarrow> mkrn_syscall_rtcread_impl e | H_rtcwrite \<Rightarrow> mkrn_syscall_rtcwrite_impl e
      | H_timerlist \<Rightarrow> mkrn_syscall_timerlist_impl e | _ \<Rightarrow> rest h e)"

section \<open>The handlers and the table of the gate 0x4D\<close>

definition m4k_syscall_exit_impl :: "'d handler" where
  "m4k_syscall_exit_impl e args k =
     (case args of (status, _) \<Rightarrow>
      if current (kp k) = 0 then ret 0 k
      else case mkrn_process_exit (sint status) (kp k) of (nxt, s) \<Rightarrow> Some (Leaves nxt, set_kp s k))"

definition m4k_syscall_read_impl :: "'d handler" where
  "m4k_syscall_read_impl e args k = (case args of (fd, buf, _) \<Rightarrow> if fd = 0 \<and> buf \<noteq> 0 then ret 0 k else ret 0x4D000003 k)"

definition m4k_syscall_write_impl :: "'d handler" where
  "m4k_syscall_write_impl e args k =
     (case args of (fd, buf, uCount, _) \<Rightarrow>
      if fd = 1 \<and> buf \<noteq> 0 then ret uCount (k\<lparr>k_console := k_console k @ take_str (kram k) buf (unat uCount)\<rparr>)
      else ret 0x4D000003 k)"

definition m4k_syscall_fork_st_impl :: "'d handler" where
  "m4k_syscall_fork_st_impl e args k =
     (case args of (arg1, arg2, _) \<Rightarrow>
      let inherit_mask = push_bit 32 (ucast arg2) OR ucast arg1; flags = arg2
      in case mkrn_fork_status (e_pcb e k) (e_tramp e) inherit_mask flags (kp k) of
           None \<Rightarrow> None | Some (r, s) \<Rightarrow> ret (word_of_int r) (set_kp s k))"

definition m4k_syscall_wait_impl :: "'d handler" where
  "m4k_syscall_wait_impl e args k =
     (case args of (arg1, arg2, arg3, _) \<Rightarrow>
      case mkrn_waitpid arg1 (arg2 \<noteq> 0) arg3 (kp k) of
        (Yields, s) \<Rightarrow> Some (Waits, set_kp s k)
      | (Returned r st, s) \<Rightarrow> ret (word_of_int r) (store_status arg2 st (set_kp s k)))"

definition m4k_syscall_kill_impl :: "'d handler" where
  "m4k_syscall_kill_impl e args k = (case args of (arg1, arg2, _) \<Rightarrow> on_kp word_of_int (mkrn_kill arg1 (sint arg2)) k)"

definition m4k_syscall_getppid_impl :: "'d handler" where
  "m4k_syscall_getppid_impl e args k = ret (mkrn_process_get_ppid (kp k)) k"

definition m4k_syscall_getpid_impl :: "'d handler" where
  "m4k_syscall_getpid_impl e args k = ret (mkrn_process_get_pid (kp k)) k"

definition m4k_syscall_yield_impl :: "'d handler" where
  "m4k_syscall_yield_impl e args k = ret 0 k"

definition m4k_syscall_sleep_impl :: "'d handler" where
  "m4k_syscall_sleep_impl e args k =
     (case args of (ms, _) \<Rightarrow>
      case mkrn_process_sleep (mkrn_timer_get_frequency (k_timer k)) (e_esp e) (now_ms k) ms (kp k) of (nxt, s) \<Rightarrow>
        Some (if nxt = 0 then Ret 0 else Leaves nxt, set_kp s k))"

definition m4k_syscall_setns_impl :: "'d handler" where
  "m4k_syscall_setns_impl e args k =
     (case args of (path, target, flags, _) \<Rightarrow>
      with_str path (\<lambda>p. with_str target (\<lambda>t. on_kp word_of_int (mkrn_setns p t flags))) k)"

definition m4k_syscall_getprocs_impl :: "'d handler" where
  "m4k_syscall_getprocs_impl e args k =
     (case args of (buf, mx, _) \<Rightarrow>
      if buf = 0 \<or> mx = 0 then ret (-1) k
      else let is = mkrn_process_fill_info True (unat mx) (kp k)
           in ret (of_nat (length is)) (upd_ram (store_bytes_at buf (concat (map enc_info is))) k))"

definition m4k_syscall_brk_impl :: "'d handler" where
  "m4k_syscall_brk_impl e args k = ret (-1) k"

definition m4k_syscall_getuid_impl :: "'d handler" where
  "m4k_syscall_getuid_impl e args k = ret (mkrn_process_get_uid (kp k)) k"

definition m4k_syscall_geteuid_impl :: "'d handler" where
  "m4k_syscall_geteuid_impl e args k = ret (mkrn_process_get_euid (kp k)) k"

definition m4k_syscall_getgid_impl :: "'d handler" where
  "m4k_syscall_getgid_impl e args k = ret (mkrn_process_get_gid (kp k)) k"

definition m4k_syscall_getegid_impl :: "'d handler" where
  "m4k_syscall_getegid_impl e args k = ret (mkrn_process_get_egid (kp k)) k"

definition m4k_syscall_setuid_impl :: "'d handler" where
  "m4k_syscall_setuid_impl e args k = (case args of (u, _) \<Rightarrow> on_kp word_of_int (mkrn_process_set_uid u) k)"

definition m4k_syscall_setgid_impl :: "'d handler" where
  "m4k_syscall_setgid_impl e args k = (case args of (arg1, _) \<Rightarrow> on_kp word_of_int (mkrn_process_set_gid arg1) k)"

definition m4k_syscall_getgroups_impl :: "'d handler" where
  "m4k_syscall_getgroups_impl e args k =
     (case args of (sz, lst, _) \<Rightarrow>
      case mkrn_process_get_groups (lst \<noteq> 0) (sint sz) (kp k) of (r, gs) \<Rightarrow>
        ret (word_of_int r) (upd_ram (store_words lst gs) k))"

definition m4k_syscall_setgroups_impl :: "'d handler" where
  "m4k_syscall_setgroups_impl e args k =
     (case args of (sz, lst, _) \<Rightarrow> on_kp word_of_int (mkrn_process_set_groups (sint sz) (groups_at lst k)) k)"

definition m4k_syscall_chmod_impl :: "'d handler" where
  "m4k_syscall_chmod_impl e args k =
     (case args of (path, mode, _) \<Rightarrow> with_str path (\<lambda>p k. on_vfs word_of_int (mkrn_vfs_chmod (cur_proc k) p mode) k) k)"

definition m4k_syscall_chown_impl :: "'d handler" where
  "m4k_syscall_chown_impl e args k =
     (case args of (path, u, g, _) \<Rightarrow> with_str path (\<lambda>p k. on_vfs word_of_int (mkrn_vfs_chown (cur_proc k) p u g) k) k)"

definition m4k_syscall_access_impl :: "'d handler" where
  "m4k_syscall_access_impl e args k =
     (case args of (path, mode, _) \<Rightarrow>
      with_str path (\<lambda>p k. map_option (\<lambda>r. (Ret (word_of_int r), k)) (mkrn_vfs_access (cur_proc k) p mode (k_vfs k))) k)"

definition m4k_syscall_setrlimit_impl :: "'d handler" where
  "m4k_syscall_setrlimit_impl e args k =
     (case args of (resource, rlp, _) \<Rightarrow>
      if rlp = 0 then ret (word_of_int (- M4K_EINVAL)) k
      else on_kp word_of_int (mkrn_process_set_rlimit (sint resource)
             (Some \<lparr>rlim_cur = load64 rlp (kram k), rlim_max = load64 (rlp + 8) (kram k)\<rparr>)) k)"

definition m4k_syscall_getrlimit_impl :: "'d handler" where
  "m4k_syscall_getrlimit_impl e args k =
     (case args of (resource, rlp, _) \<Rightarrow>
      if rlp = 0 then ret (word_of_int (- M4K_EINVAL)) k
      else case mkrn_process_get_rlimit (sint resource) True (kp k) of (r, l) \<Rightarrow>
        ret (word_of_int r) (case l of None \<Rightarrow> k
          | Some v \<Rightarrow> upd_ram (store_bytes_at rlp (le_bytes 8 (rlim_cur v) @ le_bytes 8 (rlim_max v))) k))"

definition m4k_syscall_register_session_impl :: "'d handler" where
  "m4k_syscall_register_session_impl e args k =
     (case args of (tty_ptr, _, username_ptr, _) \<Rightarrow>
      let tty_buf = (if tty_ptr = 0 then [] else take_str (kram k) tty_ptr 31);
          user_buf = (if username_ptr = 0 then [] else take_str (kram k) username_ptr 63)
      in if tty_buf = [] \<or> user_buf = [] then ret (word_of_int (- M4K_EINVAL)) k
         else case mkrn_session_create (mkrn_process_get_pid (kp k)) tty_buf (mkrn_process_get_uid (kp k)) user_buf
                     (pe_sessions (v_env (k_vfs k))) of (r, ss) \<Rightarrow>
           if r < 0 then ret (word_of_int (- M4K_EBUSY)) k
           else ret 0 (k\<lparr>k_vfs := (k_vfs k)\<lparr>v_env := (v_env (k_vfs k))\<lparr>pe_sessions := ss\<rparr>\<rparr>\<rparr>))"

datatype m4k_handler =
  M_spawn | M_exit | M_read | M_write | M_fork_st | M_wait | M_kill | M_getppid | M_getpid | M_yield | M_setns
| M_getprocs | M_getuid | M_geteuid | M_getgid | M_getegid | M_setuid | M_setgid | M_getgroups | M_setgroups
| M_chmod | M_chown | M_access | M_setrlimit | M_getrlimit | M_brk | M_register_session | M_get_session_list
| M_mouse_event | M_mouse_pos | M_keyboard_event | M_beep | M_play_pcm | M_sleep
| M_framebuffer_info | M_draw_test_pattern | M_flip | M_flip_rect | M_update_cursor | M_draw_rect | M_draw_text
| M_gfx_blit | M_gfx_blit_stride | M_fill_gradient

text \<open>\<open>full\<close> is the build option \<open>M4K_FULL\<close>.\<close>

definition m4k_calls :: "bool \<Rightarrow> (u32 \<times> m4k_handler) list" where
  "m4k_calls full = [(0x4D000002, M_spawn), (0x4D000001, M_exit), (0x4D000009, M_read), (0x4D00000A, M_write),
     (0x4D000007, M_fork_st), (0x4D000003, M_wait), (0x4D000005, M_kill), (0x4D000006, M_getppid), (0x4D000004, M_getpid),
     (0x4D000043, M_yield), (0x4D000008, M_setns), (0x4D000016, M_getprocs), (0x4D000020, M_getuid), (0x4D000021, M_geteuid),
     (0x4D000022, M_getgid), (0x4D000023, M_getegid), (0x4D000024, M_setuid), (0x4D000025, M_setgid), (0x4D000026, M_getgroups),
     (0x4D000027, M_setgroups), (0x4D000028, M_chmod), (0x4D000029, M_chown), (0x4D00002A, M_access), (0x4D000030, M_setrlimit),
     (0x4D000031, M_getrlimit), (0x4D000040, M_brk), (0x4D000041, M_register_session), (0x4D000042, M_get_session_list)] @
     (if full then [(0x4D000050, M_framebuffer_info), (0x4D000051, M_draw_test_pattern), (0x4D000053, M_flip),
        (0x4D000058, M_flip_rect), (0x4D000059, M_update_cursor), (0x4D000054, M_draw_rect), (0x4D000055, M_draw_text),
        (0x4D000057, M_gfx_blit), (0x4D00005F, M_gfx_blit_stride), (0x4D00005D, M_fill_gradient)] else []) @
     [(0x4D000052, M_mouse_event), (0x4D00005C, M_mouse_pos), (0x4D000056, M_keyboard_event), (0x4D00005A, M_beep),
      (0x4D00005E, M_play_pcm), (0x4D00005B, M_sleep)]"

definition m4k_syscall_init_handlers :: "bool \<Rightarrow> m4k_handler syscalls \<Rightarrow> m4k_handler syscalls" where
  "m4k_syscall_init_handlers full t = fold (\<lambda>(n, h). m4k_syscall_register n (Some h)) (m4k_calls full) t"

definition m4k_syscall_init :: "bool \<Rightarrow> m4k_handler syscalls \<Rightarrow> m4k_handler syscalls" where
  "m4k_syscall_init full t = m4k_syscall_init_handlers full (m4k_syscall_table_init t)"

definition run4D :: "'d sc_env \<Rightarrow> (m4k_handler \<Rightarrow> 'd handler) \<Rightarrow> m4k_handler \<Rightarrow> sc_args \<Rightarrow> 'd kernel \<Rightarrow> (sc_result \<times> 'd kernel) option" where
  "run4D e rest h =
     (case h of
        M_exit \<Rightarrow> m4k_syscall_exit_impl e | M_read \<Rightarrow> m4k_syscall_read_impl e | M_write \<Rightarrow> m4k_syscall_write_impl e
      | M_fork_st \<Rightarrow> m4k_syscall_fork_st_impl e | M_wait \<Rightarrow> m4k_syscall_wait_impl e | M_kill \<Rightarrow> m4k_syscall_kill_impl e
      | M_getppid \<Rightarrow> m4k_syscall_getppid_impl e | M_getpid \<Rightarrow> m4k_syscall_getpid_impl e | M_yield \<Rightarrow> m4k_syscall_yield_impl e
      | M_setns \<Rightarrow> m4k_syscall_setns_impl e | M_getprocs \<Rightarrow> m4k_syscall_getprocs_impl e | M_getuid \<Rightarrow> m4k_syscall_getuid_impl e
      | M_geteuid \<Rightarrow> m4k_syscall_geteuid_impl e | M_getgid \<Rightarrow> m4k_syscall_getgid_impl e | M_getegid \<Rightarrow> m4k_syscall_getegid_impl e
      | M_setuid \<Rightarrow> m4k_syscall_setuid_impl e | M_setgid \<Rightarrow> m4k_syscall_setgid_impl e | M_getgroups \<Rightarrow> m4k_syscall_getgroups_impl e
      | M_setgroups \<Rightarrow> m4k_syscall_setgroups_impl e | M_chmod \<Rightarrow> m4k_syscall_chmod_impl e | M_chown \<Rightarrow> m4k_syscall_chown_impl e
      | M_access \<Rightarrow> m4k_syscall_access_impl e | M_setrlimit \<Rightarrow> m4k_syscall_setrlimit_impl e | M_getrlimit \<Rightarrow> m4k_syscall_getrlimit_impl e
      | M_brk \<Rightarrow> m4k_syscall_brk_impl e | M_register_session \<Rightarrow> m4k_syscall_register_session_impl e | M_sleep \<Rightarrow> m4k_syscall_sleep_impl e
      | _ \<Rightarrow> rest h e)"

section \<open>The dispatcher of identities\<close>

text \<open>\<open>sys/src/kernel/syscall/mkrn_syscall.c\<close>, a third way to the credentials.\<close>

definition set_cur :: "(proc \<Rightarrow> proc) \<Rightarrow> 'd kernel \<Rightarrow> 'd kernel" where
  "set_cur f k = set_kp (upd (current (kp k)) f (kp k)) k"

definition mkrn_syscall_identity :: "u32 \<Rightarrow> u32 \<Rightarrow> u32 \<Rightarrow> 'd kernel \<Rightarrow> int \<times> 'd kernel" where
  "mkrn_syscall_identity num arg1 arg2 k =
     (if num = 0x4D000020 then (sint (mkrn_process_get_uid (kp k)), k)
      else if num = 0x4D000021 then (sint (mkrn_process_get_euid (kp k)), k)
      else if num = 0x4D000024 then
        (case cur_proc k of
           None \<Rightarrow> (- M4K_EPERM, k)
         | Some cur \<Rightarrow>
             if euid cur = M4K_UID_ROOT then (0, set_cur (\<lambda>r. r\<lparr>uid := arg1, euid := arg1\<rparr>) k)
             else if arg1 = uid cur \<or> arg1 = euid cur then (0, set_cur (\<lambda>r. r\<lparr>euid := arg1\<rparr>) k)
             else (- M4K_EPERM, k))
      else if num = 0x4D000022 then (sint (mkrn_process_get_gid (kp k)), k)
      else if num = 0x4D000023 then (sint (mkrn_process_get_egid (kp k)), k)
      else if num = 0x4D000025 then
        (case cur_proc k of
           None \<Rightarrow> (- M4K_EPERM, k)
         | Some cur \<Rightarrow>
             if euid cur = M4K_UID_ROOT then (0, set_cur (\<lambda>r. r\<lparr>gid := arg1, egid := arg1\<rparr>) k)
             else if arg1 = gid cur \<or> arg1 = egid cur then (0, set_cur (\<lambda>r. r\<lparr>egid := arg1\<rparr>) k)
             else (- M4K_EPERM, k))
      else if num = 0x4D000026 then
        (case mkrn_process_get_groups (arg2 \<noteq> 0) (sint arg1) (kp k) of (r, gs) \<Rightarrow> (r, upd_ram (store_words arg2 gs) k))
      else if num = 0x4D000027 then
        (case mkrn_process_set_groups (sint arg1) (groups_at arg2 k) (kp k) of (r, s) \<Rightarrow> (r, set_kp s k))
      else (- M4K_EINVAL, k))"

definition mkrn_syscall_fork_st :: "'d sc_env \<Rightarrow> u32 \<Rightarrow> u32 \<Rightarrow> 'd kernel \<Rightarrow> (int \<times> 'd kernel) option" where
  "mkrn_syscall_fork_st e arg1 arg2 k =
     (let inherit_mask = push_bit 32 (ucast arg2) OR ucast arg1; flags = arg2 in
      if flags AND RFPROC = 0 then Some (- M4K_EINVAL, k)
      else if inherit_mask AND (M4K_ZOMBIE OR M4K_IDLE) \<noteq> 0 then Some (- M4K_EINVAL, k)
      else if cur_proc k = None then Some (- M4K_EPERM, k)
      else map_option (\<lambda>(r, s). (r, set_kp s k)) (mkrn_fork_status (e_pcb e k) (e_tramp e) inherit_mask flags (kp k)))"

definition mkrn_syscall_dispatch :: "'d sc_env \<Rightarrow> u32 \<Rightarrow> u32 \<Rightarrow> u32 \<Rightarrow> 'd kernel \<Rightarrow> (int \<times> 'd kernel) option" where
  "mkrn_syscall_dispatch e num arg1 arg2 k =
     (if num \<in> {0x4D000020, 0x4D000021, 0x4D000024, 0x4D000022, 0x4D000023, 0x4D000025, 0x4D000026, 0x4D000027}
      then Some (mkrn_syscall_identity num arg1 arg2 k)
      else if num = 0x4D000007 then mkrn_syscall_fork_st e arg1 arg2 k
      else Some (- M4K_EINVAL, k))"

end
