(* ===== verification/TimerSpec.thy ===== *)
theory TimerSpec
  imports Timer
begin

text \<open>
  What the timer does: on a clock chip that conforms to its documentation a time that is
  set is read back; the table of alarms keeps its counters exact, and an alarm calls its
  function every so many ticks.
\<close>

unbundle bit_operations_syntax

section \<open>Setting the clock\<close>

text \<open>The chip: the selected register, its registers, and how often the update flag is
  still read as set. It is observed between two seconds, so that it does not advance.\<close>

record cmos =
  cm_index :: u8
  cm_reg :: "u8 \<Rightarrow> u8"
  cm_busy :: nat

definition cmos_conforms :: "'d ports \<Rightarrow> ('d \<Rightarrow> cmos) \<Rightarrow> bool" where
  "cmos_conforms io view \<longleftrightarrow>
     (\<forall>d r. view (p_outb io 0x70 r d) = (view d)\<lparr>cm_index := r\<rparr>) \<and>
     (\<forall>d v. cm_index (view d) < 10 \<longrightarrow>
        view (p_outb io 0x71 v d) = (view d)\<lparr>cm_reg := (cm_reg (view d))(cm_index (view d) := v)\<rparr>) \<and>
     (\<forall>d. cm_index (view d) \<noteq> M4K_RTC_STATUS_A \<longrightarrow>
        fst (p_inb io 0x71 d) = cm_reg (view d) (cm_index (view d)) \<and> view (snd (p_inb io 0x71 d)) = view d) \<and>
     (\<forall>d. cm_index (view d) = M4K_RTC_STATUS_A \<longrightarrow>
        (fst (p_inb io 0x71 d) AND 0x80 = 0 \<longleftrightarrow> cm_busy (view d) = 0) \<and>
        view (snd (p_inb io 0x71 d)) = (view d)\<lparr>cm_busy := cm_busy (view d) - 1\<rparr>)"

lemma cmos_read_ok:
  assumes "cmos_conforms io view" and "r \<noteq> M4K_RTC_STATUS_A"
  shows "fst (cmos_read io r d) = cm_reg (view d) r" and "view (snd (cmos_read io r d)) = (view d)\<lparr>cm_index := r\<rparr>"
  using assms by (simp_all add: cmos_conforms_def cmos_read_def)

lemma cmos_write_ok:
  assumes "cmos_conforms io view" and "r < 10"
  shows "view (cmos_write io r v d) = (view d)\<lparr>cm_index := r, cm_reg := (cm_reg (view d))(r := v)\<rparr>"
  using assms by (simp add: cmos_conforms_def cmos_write_def)

lemma cmos_status_ok:
  assumes "cmos_conforms io view"
  shows "fst (cmos_read io M4K_RTC_STATUS_A d) AND 0x80 = 0 \<longleftrightarrow> cm_busy (view d) = 0"
    and "view (snd (cmos_read io M4K_RTC_STATUS_A d)) = (view d)\<lparr>cm_index := M4K_RTC_STATUS_A, cm_busy := cm_busy (view d) - 1\<rparr>"
  using assms by (simp_all add: cmos_conforms_def cmos_read_def)

lemma rtc_wait_ok:
  assumes "cmos_conforms io view"
  shows "\<exists>d'. rtc_wait io d = Some d' \<and> cm_reg (view d') = cm_reg (view d)"
proof (induction "cm_busy (view d)" arbitrary: d rule: less_induct)
  case less
  obtain v d1 where r: "cmos_read io M4K_RTC_STATUS_A d = (v, d1)" by fastforce
  have v: "v AND 0x80 = 0 \<longleftrightarrow> cm_busy (view d) = 0"
    "view d1 = (view d)\<lparr>cm_index := M4K_RTC_STATUS_A, cm_busy := cm_busy (view d) - 1\<rparr>"
    using cmos_status_ok [OF assms, of d] r by simp_all
  show ?case
  proof (cases "v AND 0x80 = 0")
    case True
    then show ?thesis using r v by (subst rtc_wait.simps) simp
  next
    case False
    then have "cm_busy (view d1) < cm_busy (view d)" using v by simp
    from less [OF this] False r v(2) show ?thesis by (subst rtc_wait.simps) simp
  qed
qed

lemma bcd_inverse:
  assumes "unat (v :: u8) < 100"
  shows "from_bcd (to_bcd v) = v"
proof -
  have "list_all (\<lambda>n. from_bcd (to_bcd (of_nat n)) = (of_nat n :: u8)) [0..<100]" by code_simp
  then show ?thesis using assms by (auto simp: list_all_iff dest: bspec [of _ _ "unat v"])
qed

text \<open>The time the registers hold, and the registers after a time is set.\<close>

definition rtc_decode :: "(u8 \<Rightarrow> u8) \<Rightarrow> mkrn_time" where
  "rtc_decode g =
     (let bcd = (g M4K_RTC_STATUS_B AND M4K_RTC_BINARY_MODE = 0); f = (if bcd then from_bcd else id); y = ucast (g M4K_RTC_YEAR)
      in \<lparr>t_second = f (g M4K_RTC_SECONDS), t_minute = f (g M4K_RTC_MINUTES), t_hour = f (g M4K_RTC_HOURS),
          t_day = f (g M4K_RTC_DAY), t_month = f (g M4K_RTC_MONTH),
          t_year = (if bcd then drop_bit 4 y * 10 + (y AND 0x0F) else y) + 2000\<rparr>)"

definition rtc_encode :: "mkrn_time \<Rightarrow> (u8 \<Rightarrow> u8) \<Rightarrow> u8 \<Rightarrow> u8" where
  "rtc_encode t g =
     (let bcd = (g M4K_RTC_STATUS_B AND M4K_RTC_BINARY_MODE = 0); f = (if bcd then to_bcd else id)
      in g(M4K_RTC_SECONDS := f (t_second t), M4K_RTC_MINUTES := f (t_minute t), M4K_RTC_HOURS := f (t_hour t),
           M4K_RTC_DAY := f (t_day t), M4K_RTC_MONTH := f (t_month t),
           M4K_RTC_YEAR := ucast (if bcd then push_bit 4 ((t_year t mod 100) div 10) OR (t_year t mod 10) else t_year t mod 100)))"

lemma read_rtc_ok:
  assumes "cmos_conforms io view"
  shows "\<exists>d'. mkrn_timer_read_rtc io d = Some (rtc_decode (cm_reg (view d)), d') \<and> cm_reg (view d') = cm_reg (view d)"
proof -
  note rd = cmos_read_ok [OF assms]
  obtain d2 where w: "rtc_wait io (snd (cmos_read io M4K_RTC_STATUS_B d)) = Some d2" "cm_reg (view d2) = cm_reg (view d)"
    using rtc_wait_ok [OF assms, of "snd (cmos_read io M4K_RTC_STATUS_B d)"] rd(2) [of M4K_RTC_STATUS_B d] by (auto simp: rtc_regs)
  then show ?thesis
    by (simp add: mkrn_timer_read_rtc_def rtc_decode_def split_beta Let_def rd rtc_regs)
qed

lemma set_rtc_ok:
  assumes "cmos_conforms io view"
  shows "\<exists>d'. mkrn_timer_set_rtc io t d = Some d' \<and> cm_reg (view d') = rtc_encode t (cm_reg (view d))"
proof -
  note rd = cmos_read_ok [OF assms] cmos_write_ok [OF assms]
  obtain d2 where w: "rtc_wait io (snd (cmos_read io M4K_RTC_STATUS_B d)) = Some d2" "cm_reg (view d2) = cm_reg (view d)"
    using rtc_wait_ok [OF assms, of "snd (cmos_read io M4K_RTC_STATUS_B d)"] rd(2) [of M4K_RTC_STATUS_B d] by (auto simp: rtc_regs)
  then show ?thesis
    by (simp add: mkrn_timer_set_rtc_def rtc_encode_def split_beta Let_def rd rtc_regs)
qed

lemma year_inverse:
  assumes "2000 \<le> unat y" and "unat y < 2100"
  shows "(ucast (ucast (y mod 100) :: u8) :: u32) + 2000 = y"
    and "(let v = ucast (ucast (push_bit 4 ((y mod 100) div 10) OR (y mod 10)) :: u8) :: u32
          in drop_bit 4 v * 10 + (v AND 0x0F) + 2000) = y"
proof -
  have all: "list_all (\<lambda>n. let y = 2000 + of_nat n :: u32 in (ucast (ucast (y mod 100) :: u8) :: u32) + 2000 = y \<and>
      (let v = ucast (ucast (push_bit 4 ((y mod 100) div 10) OR (y mod 10)) :: u8) :: u32
       in drop_bit 4 v * 10 + (v AND 0x0F) + 2000) = y) [0..<100]" by code_simp
  have y: "2000 + of_nat (unat y - 2000) = y"
    using assms of_nat_add [of 2000 "unat y - 2000", where ?'a = u32] by simp
  from all [unfolded list_all_iff, THEN bspec [of _ _ "unat y - 2000"]] assms
  show "(ucast (ucast (y mod 100) :: u8) :: u32) + 2000 = y"
    and "(let v = ucast (ucast (push_bit 4 ((y mod 100) div 10) OR (y mod 10)) :: u8) :: u32
          in drop_bit 4 v * 10 + (v AND 0x0F) + 2000) = y" unfolding y by (simp_all add: Let_def)
qed

definition rtc_valid :: "mkrn_time \<Rightarrow> bool" where
  "rtc_valid t \<longleftrightarrow> unat (t_second t) < 100 \<and> unat (t_minute t) < 100 \<and> unat (t_hour t) < 100 \<and> unat (t_day t) < 100 \<and>
     unat (t_month t) < 100 \<and> 2000 \<le> unat (t_year t) \<and> unat (t_year t) < 2100"

lemma rtc_decode_encode: "rtc_valid t \<Longrightarrow> rtc_decode (rtc_encode t g) = t"
  using year_inverse [of "t_year t"]
  by (cases t) (simp add: rtc_valid_def rtc_decode_def rtc_encode_def Let_def rtc_regs bcd_inverse)



text \<open>The years the chip can hold, as seconds since 1970.\<close>

definition days_between :: "int \<Rightarrow> int \<Rightarrow> nat" where
  "days_between y z = (\<Sum>k \<in> {y..<z}. unat (year_days k))"

lemma split_years_days:
  "split_years days yr = (r, y) \<Longrightarrow> unat days = days_between yr y + unat r \<and> r < year_days y \<and> yr \<le> y"
proof (induction days yr rule: split_years.induct)
  case (1 days yr)
  show ?case
  proof (cases "days < year_days yr")
    case True
    then show ?thesis using 1(2) by (subst (asm) split_years.simps) (auto simp: days_between_def)
  next
    case False
    have "split_years (days - year_days yr) (yr + 1) = (r, y)" using 1(2) False by (subst (asm) split_years.simps) simp
    from 1(1) [OF False this] have ih: "unat (days - year_days yr) = days_between (yr + 1) y + unat r" "r < year_days y" "yr + 1 \<le> y"
      by simp_all
    have "{yr..<y} = insert yr {yr + 1..<y}" using ih(3) by auto
    then have "days_between yr y = unat (year_days yr) + days_between (yr + 1) y" by (simp add: days_between_def)
    with ih False show ?thesis by (simp add: not_less unat_sub word_le_nat_alt)
  qed
qed

lemma days_between_mono: "y \<le> z \<Longrightarrow> days_between x y \<le> days_between x z"
  unfolding days_between_def by (rule sum_mono2) auto

lemma days_between_upto: "days_between y z = sum_list (map (\<lambda>k. unat (year_days k)) [y..z - 1])"
proof -
  have "{y..<z} = set [y..z - 1]" by auto
  then show ?thesis unfolding days_between_def by (simp add: sum_list_distinct_conv_sum_set del: set_upto)
qed

lemma days_to_2000: "days_between 1970 2000 = 10957" and days_to_2100: "days_between 1970 2100 = 47482"
  by (simp_all add: days_between_upto upto.simps year_days_def sc_is_leap_def)


lemma epoch_year:
  assumes "946684800 \<le> e" and "e < 4102444800"
  shows "2000 \<le> uint (t_year (epoch_to_rtc e)) \<and> uint (t_year (epoch_to_rtc e)) < 2100"
proof -
  let ?d = "e div 60 div 60 div 24"
  obtain r y where s: "split_years ?d 1970 = (r, y)" by fastforce
  have d: "unat ?d = unat e div 86400" by (simp add: unat_div_distrib flip: div_mult2_eq)
  then have "10957 \<le> unat ?d" "unat ?d < 47482"
    using assms div_le_mono [of 946684800 "unat e" 86400] by (simp_all add: word_le_nat_alt word_less_nat_alt less_mult_imp_div_less)
  moreover have eq: "unat ?d = days_between 1970 y + unat r" "r < year_days y" "1970 \<le> y" using split_years_days [OF s] by blast+
  moreover have "days_between 1970 y + unat (year_days y) = days_between 1970 (y + 1)"
  proof -
    have "{1970..<y + 1} = insert y {1970..<y}" using eq(3) by auto
    then show ?thesis by (simp add: days_between_def)
  qed
  ultimately have "\<not> y + 1 \<le> 2000" "\<not> 2100 \<le> y"
    using days_between_mono [of "y + 1" 2000 1970] days_between_mono [of 2100 y 1970] days_to_2000 days_to_2100
    by (auto simp: word_less_nat_alt)
  then have "2000 \<le> y" "y < 2100" by simp_all
  moreover from this have "uint (of_int y :: u32) = y" by (simp add: unsigned_of_int take_bit_int_eq_self)
  moreover have "t_year (epoch_to_rtc e) = of_int y" using s by (simp add: epoch_to_rtc_def Let_def split_beta)
  ultimately show ?thesis by simp
qed

text \<open>The clock: the date of any number of seconds since 1970 converts back to it, and on
  a clock chip that conforms to its documentation, in decimal or binary mode, a time
  between 2000 and 2099 that is set is the time read afterwards. Neither operation waits
  for ever.\<close>

theorem clock_set_get:
  assumes "cmos_conforms io view"
  shows "rtc_to_epoch (epoch_to_rtc e) = e \<and>
    (946684800 \<le> e \<and> e < 4102444800 \<longrightarrow>
      (\<exists>d1 t d2. mkrn_timer_set_rtc io (epoch_to_rtc e) d = Some d1 \<and> mkrn_timer_read_rtc io d1 = Some (t, d2) \<and>
         rtc_to_epoch t = e))"
proof -
  let ?t = "epoch_to_rtc e"
  have b: "rtc_to_epoch ?t = e" "unat (t_second ?t) < 60" "unat (t_minute ?t) < 60" "unat (t_hour ?t) < 24"
    "uint (t_month ?t) \<le> 12" "uint (t_day ?t) \<le> 31"
    using epoch_rtc_roundtrip [of e] month_days_range [of "uint (t_month ?t)" "uint (t_year ?t)"] by (auto simp: Let_def)
  have "rtc_valid ?t" if "946684800 \<le> e" "e < 4102444800"
  proof -
    have "int (unat (t_month ?t)) \<le> 12" "int (unat (t_day ?t)) \<le> 31" "2000 \<le> int (unat (t_year ?t))" "int (unat (t_year ?t)) < 2100"
      using b(5,6) epoch_year [OF that] by simp_all
    with b(2-4) show ?thesis unfolding rtc_valid_def by linarith
  qed
  moreover obtain d1 where "mkrn_timer_set_rtc io ?t d = Some d1" "cm_reg (view d1) = rtc_encode ?t (cm_reg (view d))"
    using set_rtc_ok [OF assms] by blast
  moreover obtain d2 where "mkrn_timer_read_rtc io d1 = Some (rtc_decode (cm_reg (view d1)), d2)"
    using read_rtc_ok [OF assms] by blast
  ultimately show ?thesis using b(1) by (auto simp: rtc_decode_encode)
qed

text \<open>A chip that conforms.\<close>

definition sim_cmos :: "cmos ports" where
  "sim_cmos =
     \<lparr>p_inb = (\<lambda>p c. if cm_index c = M4K_RTC_STATUS_A then (if cm_busy c = 0 then 0 else 0x80, c\<lparr>cm_busy := cm_busy c - 1\<rparr>)
                    else (cm_reg c (cm_index c), c)),
      p_outb = (\<lambda>p v c. if p = 0x70 then c\<lparr>cm_index := v\<rparr> else c\<lparr>cm_reg := (cm_reg c)(cm_index c := v)\<rparr>),
      p_insw = (\<lambda>p n c. ([], c)), p_outsw = (\<lambda>p bs c. c)\<rparr>"

lemma sim_cmos_conforms: "cmos_conforms sim_cmos id"
  by (simp add: cmos_conforms_def sim_cmos_def)

lemma clock_set_get_witness:
  "\<exists>d1 t d2. mkrn_timer_set_rtc sim_cmos (epoch_to_rtc 1721124309) \<lparr>cm_index = 0, cm_reg = \<lambda>_. 0, cm_busy = 5\<rparr> = Some d1 \<and>
     mkrn_timer_read_rtc sim_cmos d1 = Some (t, d2) \<and> rtc_to_epoch t = 1721124309"
  using clock_set_get [OF sim_cmos_conforms, of 1721124309] by simp

text \<open>Before 2000 and from 2100 on the chip loses the century: the start of 2100 reads as
  the start of 2000.\<close>

lemma epoch_2100: "epoch_to_rtc 4102444800 = \<lparr>t_second = 0, t_minute = 0, t_hour = 0, t_day = 1, t_month = 1, t_year = 2100\<rparr>"
  by (simp add: epoch_to_rtc_def split_years.simps split_months.simps year_days_def sc_is_leap_def sc_month_days_def)

lemma clock_loses_century:
  assumes "cmos_conforms io view"
  shows "\<exists>d1 t d2. mkrn_timer_set_rtc io (epoch_to_rtc 4102444800) d = Some d1 \<and> mkrn_timer_read_rtc io d1 = Some (t, d2) \<and>
    t = \<lparr>t_second = 0, t_minute = 0, t_hour = 0, t_day = 1, t_month = 1, t_year = 2000\<rparr>"
proof -
  let ?t = "epoch_to_rtc 4102444800"
  obtain d1 where 1: "mkrn_timer_set_rtc io ?t d = Some d1" "cm_reg (view d1) = rtc_encode ?t (cm_reg (view d))"
    using set_rtc_ok [OF assms] by blast
  obtain d2 where "mkrn_timer_read_rtc io d1 = Some (rtc_decode (cm_reg (view d1)), d2)"
    using read_rtc_ok [OF assms] by blast
  with 1 show ?thesis by (simp add: epoch_2100 rtc_decode_def rtc_encode_def Let_def rtc_regs to_bcd_def from_bcd_def)
qed


section \<open>Alarms\<close>

text \<open>The counters of the table are exact: the number of active alarms, and the end of the
  scan window, which is just behind the last of them.\<close>

definition alarms_ok :: "'e timer \<Rightarrow> bool" where
  "alarms_ok t \<longleftrightarrow> length (alarms t) = MAX_ALARMS \<and>
     u32ActiveAlarms t = of_nat (length (filter al_active (alarms t))) \<and> u32AlarmHwm t \<le> MAX_ALARMS \<and>
     (\<forall>i < MAX_ALARMS. al_active (alarms t ! i) \<longrightarrow> i < u32AlarmHwm t \<and>
        al_callback (alarms t ! i) \<noteq> 0 \<and> 0 < al_interval_ms (alarms t ! i) \<and> 0 < al_remaining_ms (alarms t ! i)) \<and>
     (0 < u32AlarmHwm t \<longrightarrow> al_active (alarms t ! (u32AlarmHwm t - 1)))"

definition tick_alarm :: "mkrn_timer_alarm \<Rightarrow> mkrn_timer_alarm" where
  "tick_alarm a = (if al_active a then a\<lparr>al_remaining_ms :=
     (if al_remaining_ms a = 1 then al_interval_ms a else al_remaining_ms a - 1)\<rparr> else a)"

definition is_due :: "mkrn_timer_alarm \<Rightarrow> bool" where
  "is_due a \<longleftrightarrow> al_active a \<and> al_remaining_ms a = 1"

definition due :: "'e timer \<Rightarrow> u32 list" where
  "due t = map al_callback (filter is_due (alarms t))"

text \<open>Callbacks that act on the rest of the kernel only.\<close>

definition env_call :: "(u32 \<Rightarrow> 'e \<Rightarrow> 'e) \<Rightarrow> u32 \<Rightarrow> 'e timer \<Rightarrow> 'e timer" where
  "env_call f a t = t\<lparr>tm_env := f a (tm_env t)\<rparr>"

lemma tick_alarm_simps [simp]: "al_active (tick_alarm a) = al_active a" "al_callback (tick_alarm a) = al_callback a"
    "al_interval_ms (tick_alarm a) = al_interval_ms a"
  by (simp_all add: tick_alarm_def)

lemma tick_alarm_pos: "\<lbrakk>0 < al_interval_ms a; 0 < al_remaining_ms a\<rbrakk> \<Longrightarrow> 0 < al_remaining_ms (tick_alarm a)"
  by (auto simp: tick_alarm_def word_gt_0)

lemma count_active: "length (filter al_active as) = length (filter id (map al_active as))"
  by (simp add: filter_map comp_def)

lemma alarms_ok_cong:
  assumes ok: "alarms_ok t" and same: "u32ActiveAlarms t' = u32ActiveAlarms t" "u32AlarmHwm t' = u32AlarmHwm t" "length (alarms t') = MAX_ALARMS"
    and as: "\<And>j. j < MAX_ALARMS \<Longrightarrow> alarms t' ! j = alarms t ! j \<or> alarms t' ! j = tick_alarm (alarms t ! j)"
  shows "alarms_ok t'"
proof -
  have len: "length (alarms t) = MAX_ALARMS" using ok by (simp add: alarms_ok_def)
  have a: "al_active (alarms t' ! j) = al_active (alarms t ! j)" if "j < MAX_ALARMS" for j using as [OF that] by auto
  have "map al_active (alarms t') = map al_active (alarms t)"
  proof (rule nth_equalityI)
    fix j assume "j < length (map al_active (alarms t'))"
    then show "map al_active (alarms t') ! j = map al_active (alarms t) ! j" using a [of j] same(3) len by simp
  qed (use same(3) len in simp)
  then have "length (filter al_active (alarms t')) = length (filter al_active (alarms t))" by (metis count_active)
  moreover have "i < u32AlarmHwm t \<and> al_callback (alarms t' ! i) \<noteq> 0 \<and> 0 < al_interval_ms (alarms t' ! i) \<and> 0 < al_remaining_ms (alarms t' ! i)"
    if "i < MAX_ALARMS" "al_active (alarms t' ! i)" for i
    using as [OF that(1)] that ok tick_alarm_pos by (auto simp: alarms_ok_def)
  moreover have "al_active (alarms t' ! (u32AlarmHwm t - 1))" if "0 < u32AlarmHwm t"
    using a [of "u32AlarmHwm t - 1"] that ok by (auto simp: alarms_ok_def)
  ultimately show ?thesis using ok same by (auto simp: alarms_ok_def)
qed

lemma alarms_ok_tick:
  assumes "alarms_ok t" and "i < MAX_ALARMS"
  shows "alarms_ok (t\<lparr>alarms := (alarms t)[i := tick_alarm (alarms t ! i)], tm_env := e\<rparr>)"
  using assms by (intro alarms_ok_cong [OF assms(1)]) (auto simp: alarms_ok_def nth_list_update)

lemma alarm_tick_ok:
  assumes "alarms_ok t" and "i < MAX_ALARMS"
  shows "alarm_tick (env_call f) i t = t\<lparr>alarms := (alarms t)[i := tick_alarm (alarms t ! i)],
    tm_env := (if is_due (alarms t ! i) then f (al_callback (alarms t ! i)) else id) (tm_env t)\<rparr>"
  using assms by (auto simp: alarm_tick_def alarms_ok_def Let_def set_alarm_def env_call_def is_due_def tick_alarm_def list_update_id)

lemma tick_inactive: "(\<And>a. a \<in> set as \<Longrightarrow> \<not> al_active a) \<Longrightarrow> map tick_alarm as = as \<and> filter is_due as = []"
  by (induction as) (auto simp: tick_alarm_def is_due_def)

lemma alarm_scan_ok:
  assumes "alarms_ok t" and "i \<le> MAX_ALARMS"
  shows "alarm_scan (env_call f) i t = t\<lparr>alarms := take i (alarms t) @ map tick_alarm (drop i (alarms t)),
    tm_env := fold f (map al_callback (filter is_due (drop i (alarms t)))) (tm_env t)\<rparr>"
  using assms
proof (induction "MAX_ALARMS - i" arbitrary: i t rule: less_induct)
  case less
  have len: "length (alarms t) = MAX_ALARMS" using less.prems(1) by (simp add: alarms_ok_def)
  show ?case
  proof (cases "i < u32AlarmHwm t")
    case True
    then have i: "i < MAX_ALARMS" using less.prems(1) by (simp add: alarms_ok_def)
    define t' where "t' = t\<lparr>alarms := (alarms t)[i := tick_alarm (alarms t ! i)],
      tm_env := (if is_due (alarms t ! i) then f (al_callback (alarms t ! i)) else id) (tm_env t)\<rparr>"
    have "alarm_scan (env_call f) i t = alarm_scan (env_call f) (Suc i) t'"
      using True i alarm_tick_ok [OF less.prems(1) i, of f] by (subst alarm_scan.simps) (simp add: t'_def)
    also have "\<dots> = t'\<lparr>alarms := take (Suc i) (alarms t') @ map tick_alarm (drop (Suc i) (alarms t')),
        tm_env := fold f (map al_callback (filter is_due (drop (Suc i) (alarms t')))) (tm_env t')\<rparr>"
      using less.hyps [of "Suc i" t'] alarms_ok_tick [OF less.prems(1) i] i by (simp add: t'_def)
    also have "\<dots> = t\<lparr>alarms := take i (alarms t) @ map tick_alarm (drop i (alarms t)),
        tm_env := fold f (map al_callback (filter is_due (drop i (alarms t)))) (tm_env t)\<rparr>"
      using i len by (simp add: t'_def take_Suc_conv_app_nth flip: Cons_nth_drop_Suc)
    finally show ?thesis .
  next
    case False
    have "\<not> al_active a" if a: "a \<in> set (drop i (alarms t))" for a
    proof -
      obtain k where "k < length (alarms t) - i" "a = alarms t ! (i + k)" using a len less.prems(2) by (auto simp: in_set_conv_nth)
      then have "i + k < MAX_ALARMS" "a = alarms t ! (i + k)" "\<not> i + k < u32AlarmHwm t" using False len by auto
      then show ?thesis using less.prems(1) by (auto simp: alarms_ok_def)
    qed
    then show ?thesis using False tick_inactive [of "drop i (alarms t)"] by (subst alarm_scan.simps) simp
  qed
qed


text \<open>One tick: every active alarm counts down, those at their end call their functions in
  the order of the table and start again.\<close>

lemma timer_handler_ok:
  assumes "alarms_ok t"
  shows "mkrn_timer_handler (env_call f) process_tick net_poll t =
    t\<lparr>u32TimerTicks := u32TimerTicks t + 1,
      u64TimerNanoseconds := u64TimerNanoseconds t + 1000000000 div ucast (u32TimerFrequency t),
      alarms := map tick_alarm (alarms t),
      tm_env := net_poll (process_tick ((if pfnTimerCallback t \<noteq> 0 then f (pfnTimerCallback t) else id)
                  (fold f (due t) (tm_env t))))\<rparr>"
proof -
  let ?t1 = "t\<lparr>u32TimerTicks := u32TimerTicks t + 1,
      u64TimerNanoseconds := u64TimerNanoseconds t + 1000000000 div ucast (u32TimerFrequency t)\<rparr>"
  have ok: "alarms_ok ?t1" using assms by (simp add: alarms_ok_def)
  show ?thesis
  proof (cases "0 < u32ActiveAlarms t")
    case True
    then show ?thesis using alarm_scan_ok [OF ok, of 0 f] by (simp add: mkrn_timer_handler_def Let_def due_def env_call_def)
  next
    case False
    have "length (filter al_active (alarms t)) \<le> MAX_ALARMS"
      using assms length_filter_le [of al_active "alarms t"] by (simp add: alarms_ok_def)
    then have "unat (u32ActiveAlarms t) = length (filter al_active (alarms t))"
      using assms by (simp add: alarms_ok_def MAX_ALARMS_def unat_of_nat_small)
    then have "filter al_active (alarms t) = []" using False by (simp add: word_gt_0)
    then have "map tick_alarm (alarms t) = alarms t \<and> filter is_due (alarms t) = []"
      by (intro tick_inactive) (simp add: filter_empty_conv)
    then show ?thesis using False by (simp add: mkrn_timer_handler_def Let_def due_def env_call_def)
  qed
qed

lemma alarms_handler: "alarms_ok t \<Longrightarrow> alarms (mkrn_timer_handler (env_call f) process_tick net_poll t) = map tick_alarm (alarms t)"
  by (simp add: timer_handler_ok)

lemma alarms_ok_handler:
  assumes "alarms_ok t"
  shows "alarms_ok (mkrn_timer_handler (env_call f) process_tick net_poll t)"
  using assms unfolding timer_handler_ok [OF assms] by (intro alarms_ok_cong [OF assms]) (auto simp: alarms_ok_def)

lemma shrink_hwm_le: "shrink_hwm n as \<le> n"
  by (induction n) auto

lemma shrink_hwm_active: "\<lbrakk>al_active (as ! i); i < n\<rbrakk> \<Longrightarrow> i < shrink_hwm n as"
  by (induction n) (auto simp: less_Suc_eq)

lemma shrink_hwm_last: "0 < shrink_hwm n as \<Longrightarrow> al_active (as ! (shrink_hwm n as - 1))"
  by (induction n) auto

lemma filter_alarm_update:
  assumes "i < length as"
  shows "length (filter P (as[i := b])) + (if P (as ! i) then 1 else 0) = length (filter P as) + (if P b then 1 else 0)"
  using assms
proof (induction as arbitrary: i)
  case (Cons a as)
  then show ?case using Cons.IH [of "i - 1"] by (cases i) auto
qed simp

lemma alarms_ok_create:
  assumes "alarms_ok t"
  shows "alarms_ok (snd (mkrn_timer_create_alarm n cb t))"
proof (cases "cb = 0 \<or> n = 0 \<or> find (\<lambda>i. \<not> al_active (alarms t ! i)) [0..<MAX_ALARMS] = None")
  case False
  then obtain i where i: "find (\<lambda>i. \<not> al_active (alarms t ! i)) [0..<MAX_ALARMS] = Some i" by auto
  then have "i < MAX_ALARMS" "\<not> al_active (alarms t ! i)" by (auto simp: find_Some_iff)
  then show ?thesis using assms False i filter_alarm_update [of i "alarms t" al_active]
    by (auto simp: alarms_ok_def mkrn_timer_create_alarm_def set_alarm_def nth_list_update word_gt_0 max_def)
qed (use assms in \<open>auto simp: mkrn_timer_create_alarm_def\<close>)


lemma alarms_ok_destroy:
  assumes "alarms_ok t"
  shows "alarms_ok (snd (mkrn_timer_destroy_alarm x t))"
proof (cases "find (\<lambda>i. al_active (alarms t ! i) \<and> al_id (alarms t ! i) = x) [0..<MAX_ALARMS]")
  case (Some i)
  then have i: "i < MAX_ALARMS" "al_active (alarms t ! i)" by (auto simp: find_Some_iff)
  let ?as = "(alarms t)[i := (alarms t ! i)\<lparr>al_active := False, al_callback := 0\<rparr>]"
  have len: "length (alarms t) = MAX_ALARMS" using assms by (simp add: alarms_ok_def)
  have s: "length (filter al_active (alarms t)) = Suc (length (filter al_active ?as))"
    using filter_alarm_update [of i "alarms t" al_active "(alarms t ! i)\<lparr>al_active := False, al_callback := 0\<rparr>"] i len by simp
  have "u32ActiveAlarms t = of_nat (length (filter al_active (alarms t)))" using assms by (simp add: alarms_ok_def)
  then have "of_nat (length (filter al_active ?as)) = u32ActiveAlarms t - 1" by (simp add: s)
  moreover have "j < shrink_hwm (u32AlarmHwm t) ?as \<and> al_callback (?as ! j) \<noteq> 0 \<and> 0 < al_interval_ms (?as ! j) \<and> 0 < al_remaining_ms (?as ! j)"
    if "j < MAX_ALARMS" "al_active (?as ! j)" for j
    using that assms i len shrink_hwm_active [of ?as j "u32AlarmHwm t"] by (cases "j = i") (auto simp: alarms_ok_def nth_list_update)
  moreover have "shrink_hwm (u32AlarmHwm t) ?as \<le> MAX_ALARMS"
    using shrink_hwm_le [of "u32AlarmHwm t" ?as] assms by (simp add: alarms_ok_def)
  ultimately show ?thesis using Some len shrink_hwm_last [of "u32AlarmHwm t" ?as]
    by (simp add: mkrn_timer_destroy_alarm_def set_alarm_def Let_def alarms_ok_def)
qed (use assms in \<open>simp add: mkrn_timer_destroy_alarm_def\<close>)

datatype alarm_op = ACreate u32 u32 | ADestroy u32 | ATick

fun alarm_step :: "(u32 \<Rightarrow> 'e \<Rightarrow> 'e) \<Rightarrow> ('e \<Rightarrow> 'e) \<Rightarrow> ('e \<Rightarrow> 'e) \<Rightarrow> alarm_op \<Rightarrow> 'e timer \<Rightarrow> 'e timer" where
  "alarm_step f pt np (ACreate n cb) t = snd (mkrn_timer_create_alarm n cb t)"
| "alarm_step f pt np (ADestroy x) t = snd (mkrn_timer_destroy_alarm x t)"
| "alarm_step f pt np ATick t = mkrn_timer_handler (env_call f) pt np t"

lemma alarms_ok_run:
  assumes "alarms_ok t"
  shows "alarms_ok (fold (alarm_step f pt np) ops t)"
  using assms
proof (induction ops arbitrary: t)
  case (Cons x ops)
  then show ?case by (cases x) (simp_all add: alarms_ok_create alarms_ok_destroy alarms_ok_handler)
qed simp

lemma alarms_ok_bss: "alarms_ok (timer_bss e)"
  by (simp add: alarms_ok_def timer_bss_def alarm_zero_def)

text \<open>C34. The table of alarms: after any sequence of creations, destructions and ticks, the
  count is the number of active alarms, the scan window ends just behind the last of them,
  and the next tick calls exactly the functions of the alarms that are due, in the order
  of the table, and restarts them; the optimisations of the handler skip nothing.\<close>

theorem alarm_table_exact:
  fixes e :: 'e
  assumes t: "t = fold (alarm_step f pt np) ops (timer_bss e)" and n: "t' = mkrn_timer_handler (env_call f) pt np t"
  shows "unat (mkrn_timer_get_active_count t) = length (filter al_active (alarms t)) \<and>
    (\<forall>i < 256. al_active (alarms t ! i) \<longrightarrow> i < u32AlarmHwm t) \<and>
    alarms t' = map tick_alarm (alarms t) \<and>
    tm_env t' = np (pt ((if pfnTimerCallback t \<noteq> 0 then f (pfnTimerCallback t) else id) (fold f (due t) (tm_env t))))"
proof -
  have ok: "alarms_ok t" unfolding t by (intro alarms_ok_run alarms_ok_bss)
  have "length (filter al_active (alarms t)) \<le> MAX_ALARMS"
    using ok length_filter_le [of al_active "alarms t"] by (simp add: alarms_ok_def)
  then have "unat (u32ActiveAlarms t) = length (filter al_active (alarms t))"
    using ok by (simp add: alarms_ok_def MAX_ALARMS_def unat_of_nat_small)
  with ok show ?thesis
    by (simp add: n timer_handler_ok mkrn_timer_get_active_count_def) (simp add: alarms_ok_def MAX_ALARMS_def)
qed


lemma tick_alarm_countdown:
  assumes "al_active a" and "al_interval_ms a = n" and "0 < n" and "unat (al_remaining_ms a) = unat n - k mod unat n"
  shows "unat (al_remaining_ms (tick_alarm a)) = unat n - Suc k mod unat n"
proof -
  have pos: "0 < unat n" using assms(3) by (simp add: word_gt_0 unat_gt_0)
  then have k: "k mod unat n < unat n" by simp
  show ?thesis
  proof (cases "al_remaining_ms a = 1")
    case True
    then have "Suc (k mod unat n) = unat n" using assms(4) k by simp
    then show ?thesis using True assms(1,2) by (simp add: tick_alarm_def mod_Suc)
  next
    case False
    moreover have "al_remaining_ms a \<noteq> 0" using assms(4) k by (auto simp: unat_eq_0)
    ultimately have "1 < unat (al_remaining_ms a)"
      by (metis less_one linorder_neqE_nat unat_1 unat_eq_0 word_unat_eq_iff)
    then show ?thesis using False assms(1,4) k by (simp add: tick_alarm_def mod_Suc unat_pred)
  qed
qed

lemma alarm_ticks:
  assumes "alarms_ok t" and "i < MAX_ALARMS" and "al_active (alarms t ! i)" and "unat (al_remaining_ms (alarms t ! i)) = unat (al_interval_ms (alarms t ! i))"
  shows "alarms_ok ((mkrn_timer_handler (env_call f) pt np ^^ k) t) \<and>
    (let a = alarms ((mkrn_timer_handler (env_call f) pt np ^^ k) t) ! i; b = alarms t ! i in
       al_active a \<and> al_callback a = al_callback b \<and> al_interval_ms a = al_interval_ms b \<and>
       unat (al_remaining_ms a) = unat (al_interval_ms b) - k mod unat (al_interval_ms b))"
proof (induction k)
  case 0
  then show ?case using assms by simp
next
  case (Suc k)
  let ?t = "(mkrn_timer_handler (env_call f) pt np ^^ k) t" and ?b = "alarms t ! i"
  have ok: "alarms_ok ?t" using Suc by simp
  have len: "length (alarms ?t) = MAX_ALARMS" using ok by (simp add: alarms_ok_def)
  have "0 < al_interval_ms ?b" using assms by (auto simp: alarms_ok_def)
  then show ?case
    using Suc ok len assms(2) tick_alarm_countdown [of "alarms ?t ! i" "al_interval_ms ?b" k]
    by (simp add: alarms_handler alarms_ok_handler Let_def)
qed

text \<open>C35. An alarm keeps its period: in any state the table can reach, an alarm of interval
  \<open>n\<close> that is created while a slot is free is due at the ticks \<open>n\<close>, \<open>2 * n\<close>, \<open>3 * n\<close> and so on
  after its creation, and at no other, as long as nothing but ticks happens; its function
  is then among those the tick calls.\<close>

theorem alarm_period:
  fixes e :: 'e
  assumes t: "t = fold (alarm_step f pt np) ops (timer_bss e)" and a: "n \<noteq> 0" "cb \<noteq> 0"
    and free: "length (filter al_active (alarms t)) < 256"
  shows "\<exists>i < 256. \<forall>k. (let t' = (mkrn_timer_handler (env_call f) pt np ^^ k) (snd (mkrn_timer_create_alarm n cb t)) in
    al_active (alarms t' ! i) \<and> al_callback (alarms t' ! i) = cb \<and> (is_due (alarms t' ! i) \<longleftrightarrow> unat n dvd Suc k) \<and>
    (unat n dvd Suc k \<longrightarrow> cb \<in> set (due t')))"
proof -
  have ok: "alarms_ok t" unfolding t by (intro alarms_ok_run alarms_ok_bss)
  then have len: "length (alarms t) = 256" by (simp add: alarms_ok_def MAX_ALARMS_def)
  then have "\<exists>j < MAX_ALARMS. \<not> al_active (alarms t ! j)"
    using free by (metis MAX_ALARMS_def filter_True in_set_conv_nth less_irrefl)
  then obtain i where i: "find (\<lambda>i. \<not> al_active (alarms t ! i)) [0..<MAX_ALARMS] = Some i"
    by (cases "find (\<lambda>i. \<not> al_active (alarms t ! i)) [0..<MAX_ALARMS]") (auto simp: find_None_iff)
  then have "i < 256" by (auto simp: find_Some_iff MAX_ALARMS_def)
  let ?t = "snd (mkrn_timer_create_alarm n cb t)"
  have new: "alarms ?t ! i = \<lparr>al_id = u32NextAlarmId t, al_interval_ms = n, al_remaining_ms = n, al_active = True, al_callback = cb\<rparr>"
    using a i len \<open>i < 256\<close> by (simp add: mkrn_timer_create_alarm_def set_alarm_def)
  have "let t' = (mkrn_timer_handler (env_call f) pt np ^^ k) ?t in
      al_active (alarms t' ! i) \<and> al_callback (alarms t' ! i) = cb \<and> (is_due (alarms t' ! i) \<longleftrightarrow> unat n dvd Suc k) \<and>
      (unat n dvd Suc k \<longrightarrow> cb \<in> set (due t'))" for k
  proof -
    define t' where "t' = (mkrn_timer_handler (env_call f) pt np ^^ k) ?t"
    have r: "alarms_ok t'" "al_active (alarms t' ! i)" "al_callback (alarms t' ! i) = cb"
      "unat (al_remaining_ms (alarms t' ! i)) = unat n - k mod unat n"
      using alarm_ticks [OF alarms_ok_create [OF ok], where i = i and f = f and pt = pt and np = np and k = k] new \<open>i < 256\<close> unfolding t'_def MAX_ALARMS_def by (simp_all add: Let_def)
    have "k mod unat n < unat n" using a by (simp add: unat_gt_0)
    then have "unat (al_remaining_ms (alarms t' ! i)) = 1 \<longleftrightarrow> unat n dvd Suc k"
      unfolding r(4) dvd_eq_mod_eq_0 mod_Suc by auto
    then have d: "is_due (alarms t' ! i) \<longleftrightarrow> unat n dvd Suc k"
      using r(2) by (simp add: is_due_def word_unat_eq_iff)
    have "alarms t' ! i \<in> set (alarms t')" using r(1) \<open>i < 256\<close> by (simp add: alarms_ok_def MAX_ALARMS_def)
    then have "cb \<in> set (due t')" if "unat n dvd Suc k" using d that r(3) by (auto simp: due_def)
    with r d show ?thesis unfolding t'_def [symmetric] by (simp add: Let_def)
  qed
  with \<open>i < 256\<close> show ?thesis by blast
qed


lemma alarm_table_exact_witness:
  "unat (mkrn_timer_get_active_count (fold (alarm_step (\<lambda>a e. a # e) id id) [ACreate 2 77, ATick] (timer_bss []))) =
     length (filter al_active (alarms (fold (alarm_step (\<lambda>a e. a # e) id id) [ACreate 2 77, ATick] (timer_bss []))))"
  using alarm_table_exact [OF refl refl, of "\<lambda>a e. a # e" id id "[ACreate 2 77, ATick]" "[]"] by blast

lemma alarm_period_witness:
  "\<exists>i < 256. is_due (alarms ((mkrn_timer_handler (env_call (\<lambda>a (e :: u32 list). a # e)) id id ^^ 2)
     (snd (mkrn_timer_create_alarm 3 77 (timer_bss [])))) ! i)"
proof -
  have "length (filter al_active (alarms (timer_bss []))) < 256" by (simp add: timer_bss_def alarm_zero_def)
  with alarm_period [OF refl, of 3 77 "\<lambda>a e. a # e" id id "[]" "[]"] obtain i where
    "i < 256" "\<And>k. let t' = (mkrn_timer_handler (env_call (\<lambda>a e. a # e)) id id ^^ k) (snd (mkrn_timer_create_alarm 3 77 (timer_bss []))) in
      is_due (alarms t' ! i) \<longleftrightarrow> unat (3 :: u32) dvd Suc k" by (auto simp: Let_def)
  from this(1) this(2) [of 2] show ?thesis by (auto simp: Let_def)
qed

text \<open>The uptime is computed in 32 bits: at 1000 ticks a second it is 0 again after
  4294968 milliseconds.\<close>

lemma uptime_wraps: "mkrn_timer_get_uptime ((timer_bss e)\<lparr>u32TimerTicks := 4294968\<rparr>) = 0"
  by (simp add: mkrn_timer_get_uptime_def timer_bss_def)

end
