(* ===== verification/SyscallSpec.thy ===== *)
theory SyscallSpec
  imports Syscall TimerSpec ForkSpec PseudoSpec
begin

text \<open>
  The system calls as a whole: what each number of the two gates does after the start of
  the kernel, the working directory over several calls, the clock calls, and the fork
  call of the gate \<open>0x4D\<close>.
\<close>

unbundle bit_operations_syntax

section \<open>The gates after the start\<close>

definition all_calls :: "(u32 \<times> sc_handler) list" where
  "all_calls = sc_calls @ sc_net_calls"

definition m4k_slots :: "bool \<Rightarrow> (u32 \<times> m4k_handler) list" where
  "m4k_slots full = map (\<lambda>(n, h). (n AND 0xFF, h)) (m4k_calls full)"

lemma init80: "table_wf (mkrn_syscall_init t)" "reached u n (mkrn_syscall_init t) = map_of all_calls n"
proof -
  have d: "distinct (map fst all_calls)" "\<forall>(n, h) \<in> set all_calls. n < 256"
    by (simp_all add: all_calls_def sc_calls_def sc_net_calls_def)
  have "mkrn_syscall_init t = fold (\<lambda>(n, h). mkrn_syscall_register n (Some h)) all_calls (mkrn_syscall_table_init t)"
    by (simp add: mkrn_syscall_init_def mkrn_syscall_init_handlers_def mkrn_syscall_net_init_def all_calls_def)
  with register_all [OF table_init_wf(1) d(2), of t u n] d(1)
  show "table_wf (mkrn_syscall_init t)" "reached u n (mkrn_syscall_init t) = map_of all_calls n" by (simp_all split: option.split)
qed

lemma init4D: "table_wf (m4k_syscall_init full t)" "reached u (n AND 0xFF) (m4k_syscall_init full t) = map_of (m4k_slots full) (n AND 0xFF)"
proof -
  have d: "distinct (map (\<lambda>(n, h). n AND 0xFF) (m4k_calls full))" by (cases full) (simp_all add: m4k_calls_def)
  have "m4k_syscall_init full t = fold (\<lambda>(n, h). m4k_syscall_register n (Some h)) (m4k_calls full) (m4k_syscall_table_init t)"
    by (simp add: m4k_syscall_init_def m4k_syscall_init_handlers_def)
  with m4k_register_all [OF table_init_wf(2) [of t] slot_bound [of n], where cs = "m4k_calls full" and u = u] d
  show "table_wf (m4k_syscall_init full t)" "reached u (n AND 0xFF) (m4k_syscall_init full t) = map_of (m4k_slots full) (n AND 0xFF)"
    by (simp_all add: m4k_slots_def split: option.split)
qed

lemma same_table:
  assumes "g_syscall_table t' = g_syscall_table t"
  shows "table_wf t' = table_wf t" and "entry_of n t' = entry_of n t" and "reached u n t' = reached u n t"
  using assms by (simp_all add: table_wf_def entry_of_def reached_def cong: if_cong)

text \<open>Where the permission bit is set for every call, a refused call is one that is not registered.\<close>

lemma refused_unregistered:
  assumes "table_wf t" and "n < 256" and "reached True n t = reached False n t" and "reached False n t = None"
  shows "\<not> ent_registered (entry_of n t)"
  using entry_wf [OF assms(1,2)] assms by (auto simp: reached_def split: if_splits)

lemma gate80_call:
  assumes "g_syscall_table t = g_syscall_table (mkrn_syscall_init t0)"
  shows "mkrn_syscall_handler run cur n a (t, s) =
    (case map_of all_calls n of
       Some h \<Rightarrow> map_option (\<lambda>(r, s'). (r, t\<lparr>total_calls := total_calls t + 1\<rparr>, s')) (run h a s)
     | None \<Rightarrow> Some (Ret M4K_SC_ERROR, t\<lparr>total_calls := total_calls t + 1, failed_calls := failed_calls t + 1\<rparr>, s))"
proof -
  have t: "table_wf t" "reached u m t = map_of all_calls m" for u m using same_table [OF assms] init80 by metis+
  have "map_of all_calls n = None \<Longrightarrow> \<not> (n < 256 \<and> ent_registered (entry_of n t))"
    using refused_unregistered [OF t(1), of n] t(2) by metis
  then show ?thesis unfolding handler80 [OF t(1)] t(2) by (auto split: option.split)
qed

lemma gate4D_call:
  assumes "g_syscall_table t = g_syscall_table (m4k_syscall_init full t0)"
  shows "m4k_syscall_handler run cur n a (t, s) =
    (case map_of (m4k_slots full) (n AND 0xFF) of
       Some h \<Rightarrow> map_option (\<lambda>(r, s'). (r, t\<lparr>total_calls := total_calls t + 1\<rparr>, s')) (run h a s)
     | None \<Rightarrow> Some (Ret 0x4D000000, t\<lparr>total_calls := total_calls t + 1, failed_calls := failed_calls t + 1\<rparr>, s))"
proof -
  have t: "table_wf t" "reached u (m AND 0xFF) t = map_of (m4k_slots full) (m AND 0xFF)" for u m
    using same_table [OF assms] init4D by metis+
  have "map_of (m4k_slots full) (n AND 0xFF) = None \<Longrightarrow> \<not> ent_registered (entry_of (n AND 0xFF) t)"
    using refused_unregistered [OF t(1) slot_bound] t(2) by metis
  then show ?thesis unfolding handler4D [OF t(1)] t(2) by (auto split: option.split)
qed

lemma init_counters:
  "total_calls (mkrn_syscall_init t) = 0" "refusals (mkrn_syscall_init t) = 0"
  "total_calls (m4k_syscall_init full u) = 0" "refusals (m4k_syscall_init full u) = 0"
proof -
  have r: "total_calls (fold (\<lambda>(n, h). mkrn_syscall_register n (Some h)) cs x) = total_calls x \<and>
    refusals (fold (\<lambda>(n, h). mkrn_syscall_register n (Some h)) cs x) = refusals x" for cs and x :: "'f syscalls"
    by (induction cs arbitrary: x) (auto simp: mkrn_syscall_register_def set_entry_def refusals_def split_beta)
  have m: "total_calls (fold (\<lambda>(n, h). m4k_syscall_register n (Some h)) cs x) = total_calls x \<and>
    refusals (fold (\<lambda>(n, h). m4k_syscall_register n (Some h)) cs x) = refusals x" for cs and x :: "'f syscalls"
    by (induction cs arbitrary: x) (auto simp: m4k_syscall_register_def set_entry_def refusals_def split_beta Let_def)
  show "total_calls (mkrn_syscall_init t) = 0" "refusals (mkrn_syscall_init t) = 0"
    by (simp_all add: mkrn_syscall_init_def mkrn_syscall_init_handlers_def mkrn_syscall_net_init_def r)
       (simp_all add: mkrn_syscall_table_init_def refusals_def)
  show "total_calls (m4k_syscall_init full u) = 0" "refusals (m4k_syscall_init full u) = 0"
    by (simp_all add: m4k_syscall_init_def m4k_syscall_init_handlers_def m) (simp_all add: m4k_syscall_table_init_def refusals_def)
qed

text \<open>The slot of a number is its low byte; the calls of the gate have different slots.\<close>

lemma m4k_slot_of:
  shows "(m, h) \<in> set (m4k_calls full) \<Longrightarrow> m AND 0xFF = n AND 0xFF \<Longrightarrow> map_of (m4k_slots full) (n AND 0xFF) = Some h"
    and "\<forall>(m, h) \<in> set (m4k_calls full). m AND 0xFF \<noteq> n AND 0xFF \<Longrightarrow> map_of (m4k_slots full) (n AND 0xFF) = None"
proof -
  have d: "distinct (map fst (m4k_slots full))" by (cases full) (simp_all add: m4k_slots_def m4k_calls_def)
  show "map_of (m4k_slots full) (n AND 0xFF) = Some h" if "(m, h) \<in> set (m4k_calls full)" "m AND 0xFF = n AND 0xFF"
    using map_of_is_SomeI [OF d, of "m AND 0xFF" h] that by (force simp: m4k_slots_def)
  show "map_of (m4k_slots full) (n AND 0xFF) = None" if "\<forall>(m, h) \<in> set (m4k_calls full). m AND 0xFF \<noteq> n AND 0xFF"
    using that by (force simp: map_of_eq_None_iff m4k_slots_def)
qed

text \<open>C31. The gates, after the start of the kernel and any number of calls. A call of the
  gate \<open>0x80\<close> runs exactly the handler registered for its number with the caller's
  arguments, whatever process makes it, and a number without a handler is refused
  with the gate's error code and changes nothing but the counters. The gate
  \<open>0x4D\<close> looks at the low byte of the number only: a call runs exactly the handler of
  the registered number with the same low byte, so that numbers outside the
  documented form \<open>0x4D00XXXX\<close> run the handler of the number they share the byte
  with, and only a number whose low byte belongs to no registered call is
  refused. The counters are exact: every call is counted once, and the refused and
  denied ones are those that reached no handler.\<close>

theorem gates_correct:
  assumes "gate_calls mkrn_syscall_handler id (run80 e rest) cur cs (mkrn_syscall_init t0, k) = Some (hs, t, k')"
    and "gate_calls m4k_syscall_handler (\<lambda>n. n AND 0xFF) (run4D e rest') cur cs' (m4k_syscall_init full u0, k') = Some (hs', u, k'')"
  shows "mkrn_syscall_handler (run80 e rest) cur n a (t, s) =
      (case map_of all_calls n of
         Some h \<Rightarrow> map_option (\<lambda>(r, s'). (r, t\<lparr>total_calls := total_calls t + 1\<rparr>, s')) (run80 e rest h a s)
       | None \<Rightarrow> Some (Ret M4K_SC_ERROR, t\<lparr>total_calls := total_calls t + 1, failed_calls := failed_calls t + 1\<rparr>, s)) \<and>
    (\<forall>m h. (m, h) \<in> set (m4k_calls full) \<longrightarrow> m AND 0xFF = n AND 0xFF \<longrightarrow>
       m4k_syscall_handler (run4D e rest') cur n a (u, s) =
         map_option (\<lambda>(r, s'). (r, u\<lparr>total_calls := total_calls u + 1\<rparr>, s')) (run4D e rest' h a s)) \<and>
    ((\<forall>(m, h) \<in> set (m4k_calls full). m AND 0xFF \<noteq> n AND 0xFF) \<longrightarrow>
       m4k_syscall_handler (run4D e rest') cur n a (u, s) =
         Some (Ret 0x4D000000, u\<lparr>total_calls := total_calls u + 1, failed_calls := failed_calls u + 1\<rparr>, s)) \<and>
    total_calls t = of_nat (length cs) \<and> refusals t = of_nat (length cs - length hs) \<and> length hs \<le> length cs \<and>
    total_calls u = of_nat (length cs') \<and> refusals u = of_nat (length cs' - length hs') \<and> length hs' \<le> length cs'"
proof -
  note c = sc80.counters_exact [OF init80(1) assms(1)] and d = sc4D.counters_exact [OF init4D(1) assms(2)]
  show ?thesis using c d gate80_call [of t t0 "run80 e rest" cur n a s] gate4D_call [of u full u0 "run4D e rest'" cur n a s]
    m4k_slot_of(1) [of _ _ full n] m4k_slot_of(2) [of full n] by (auto simp: init_counters)
qed

text \<open>Numbers outside the documented form reach the handlers: \<open>4\<close>, \<open>0x4D000104\<close> and
  \<open>0xFFFFFF04\<close> all ask for the process number, as \<open>0x4D000004\<close> does.\<close>

theorem m4k_number_aliases:
  assumes "n \<in> {4, 0x4D000104, 0xFFFFFF04, 0x4D000004}"
  shows "m4k_syscall_handler run cur n a (m4k_syscall_init full u, s) =
    map_option (\<lambda>(r, s'). (r, (m4k_syscall_init full u)\<lparr>total_calls := 1\<rparr>, s')) (run M_getpid a s)"
proof -
  have "(0x4D000004, M_getpid) \<in> set (m4k_calls full)" by (simp add: m4k_calls_def)
  moreover have "0x4D000004 AND 0xFF = n AND 0xFF" using assms by auto
  ultimately show ?thesis
    using gate4D_call [of "m4k_syscall_init full u" full u run cur n a s] m4k_slot_of(1) [of "0x4D000004" M_getpid full n] by (simp add: init_counters)
qed

theorem m4k_number_aliases_witness:
  "m4k_syscall_handler (\<lambda>h a s. Some (Ret 7, s)) cur 4 a (m4k_syscall_init full u, s) =
    Some (Ret 7, (m4k_syscall_init full u)\<lparr>total_calls := 1\<rparr>, s)"
  using m4k_number_aliases [of 4 "\<lambda>h a s. Some (Ret 7, s)" cur a full u s] by simp

section \<open>The fork call of the gate 0x4D\<close>

lemma set_kp_same [simp]: "set_kp (kp k) k = k"
  by (simp add: set_kp_def kp_def)

text \<open>C36. The fork call of the gate \<open>0x4D\<close> takes the upper half of the inherited tags from the
  same argument as the flags. The flag it requires is then a reserved tag, so that the call
  fails for all arguments, in every state, without an effect.\<close>

theorem m4k_fork_fails: "m4k_syscall_fork_st_impl e args k = Some (Ret (-1), k)"
proof -
  obtain a1 a2 r where args: "args = (a1, a2, r)" by (cases args)
  define mask :: u64 where "mask = push_bit 32 (ucast a2) OR ucast a1"
  have "has mask (M4K_ZOMBIE OR M4K_IDLE OR M4K_STATE_RESERVED)" if "a2 AND RFPROC \<noteq> 0"
  proof -
    have "bit a2 0"
    proof (rule ccontr)
      assume "\<not> bit a2 0"
      then have "a2 AND 1 = 0" by (simp add: and_one_eq bit_0 even_iff_mod_2_eq_zero)
      with that show False by (simp add: RFPROC_def)
    qed
    then have m: "bit mask 32" by (simp add: mask_def bit_simps)
    have "bit (M4K_ZOMBIE OR M4K_IDLE OR M4K_STATE_RESERVED) 32"
      by (simp add: M4K_ZOMBIE_def M4K_IDLE_def M4K_STATE_RESERVED_def)
    with m have "bit (mask AND (M4K_ZOMBIE OR M4K_IDLE OR M4K_STATE_RESERVED)) 32" by (simp only: bit_and_iff)
    then show ?thesis unfolding has_def by (metis bit_0_eq bot_apply bot_bool_def)
  qed
  then have "mkrn_fork_status p x mask a2 s = Some (-1, s)" for p x s
    unfolding mkrn_fork_status_def by (cases "a2 AND RFPROC = 0") simp_all
  then show ?thesis by (simp add: m4k_syscall_fork_st_impl_def args Let_def ret_def flip: mask_def)
qed

section \<open>The dispatcher of identities\<close>

text \<open>It changes the user as the gates do, but without the right of the prime group.\<close>

lemma dispatch_setuid:
  assumes "\<not> is_prime_member (kp k)"
  shows "mkrn_syscall_dispatch e 0x4D000024 u x k = (case mkrn_process_set_uid u (kp k) of (r, s) \<Rightarrow> Some (r, set_kp s k))"
  using assms by (auto simp: mkrn_syscall_dispatch_def mkrn_syscall_identity_def mkrn_process_set_uid_def cur_proc_def set_cur_def
    Let_def set_kp_def kp_def)

text \<open>The group is changed under another rule: here root may take any group, on the gates only a
  process whose group is root's.\<close>

lemma dispatch_setgid_differs:
  assumes "cur_proc k = Some c" and "euid c = M4K_UID_ROOT" and "egid c \<noteq> M4K_GID_ROOT" and "g \<notin> {gid c, egid c}"
  shows "fst (the (mkrn_syscall_dispatch e 0x4D000025 g x k)) = 0 \<and> mkrn_process_set_gid g (kp k) = (- M4K_EPERM, kp k)"
  using assms by (auto simp: mkrn_syscall_dispatch_def mkrn_syscall_identity_def mkrn_process_set_gid_def cur_proc_def Let_def split: if_splits)

section \<open>Looking at the kernel\<close>

lemma kernel_simps [simp]:
  "kp (set_kp s k) = s" "k_vfs (set_kp s k) = (k_vfs k)\<lparr>v_env := (v_env (k_vfs k))\<lparr>pe_kproc := s\<rparr>\<rparr>"
  "kp (set_hw d k) = kp k" "hw (set_hw d k) = d" "hw (set_kp s k) = hw k" "kram (set_hw d k) = kram k"
  "kram (upd_ram f k) = f (kram k)" "hw (upd_ram f k) = hw k" "kp (upd_ram f k) = (kp k)\<lparr>ram := f (kram k)\<rparr>"
  by (simp_all add: kp_def set_kp_def hw_def set_hw_def kram_def upd_ram_def)

lemma c_string_str: "\<lbrakk>str_at m p cs; length cs < 2 ^ 32\<rbrakk> \<Longrightarrow> c_string p m = Some cs"
  using strlen_str [of m p cs 0]
  by (auto simp: c_string_def mkrn_strlen_def mem_bytes_def unat_of_nat str_at_def intro!: nth_equalityI)

lemma store_bytes_other:
  "\<lbrakk>\<forall>i < length bs. a + of_nat i \<noteq> x\<rbrakk> \<Longrightarrow> store_bytes_at a bs m x = m x"
proof (induction bs arbitrary: a m)
  case (Cons b bs)
  have "\<forall>i < length bs. a + 1 + of_nat i \<noteq> x"
  proof (intro allI impI)
    fix i assume "i < length bs"
    then show "a + 1 + of_nat i \<noteq> x" using Cons.prems [rule_format, of "Suc i"] by (simp add: add.assoc)
  qed
  moreover have "a \<noteq> x" using Cons.prems [rule_format, of 0] by simp
  ultimately show ?case using Cons.IH by simp
qed simp

lemma store_bytes_nth:
  "\<lbrakk>i < length bs; length bs \<le> 2 ^ 32\<rbrakk> \<Longrightarrow> store_bytes_at a bs m (a + of_nat i) = bs ! i"
proof (induction bs arbitrary: a m i)
  case (Cons b bs)
  show ?case
  proof (cases i)
    case 0
    have "a + 1 + of_nat j \<noteq> a" if "j < length bs" for j
    proof
      assume "a + 1 + of_nat j = a"
      then have "of_nat (Suc j) = (0 :: u32)" by (metis add.assoc add_cancel_right_right of_nat_Suc)
      then have "(2 :: nat) ^ LENGTH(32) dvd Suc j" by (rule iffD1 [OF word_of_nat_eq_0_iff])
      then show False using that Cons.prems by (auto dest: dvd_imp_le)
    qed
    then show ?thesis using 0 by (simp add: store_bytes_other)
  next
    case (Suc j)
    then show ?thesis using Cons.IH [of j "a + 1"] Cons.prems by (simp add: add.assoc)
  qed
qed simp

lemma store_string: "\<lbrakk>0 \<notin> set cs; length cs < 2 ^ 32\<rbrakk> \<Longrightarrow> str_at (store_bytes_at p (cs @ [0]) m) p cs"
  using store_bytes_nth [of _ "cs @ [0]" p m] by (auto simp: str_at_def nth_append in_set_conv_nth)

section \<open>The working directory\<close>

lemma join_set: "set (join cs) \<subseteq> insert 47 (\<Union> (set ` set cs))"
  by (induction cs rule: join.induct) auto

lemma pieces_set: "\<Union> (set ` set (pieces p)) \<subseteq> set p"
proof (induction p)
  case (Cons c p)
  have "set (hd (pieces p)) \<subseteq> \<Union> (set ` set (pieces p))" "set (tl (pieces p)) \<subseteq> set (pieces p)"
    by (simp_all add: hd_in_set UN_upper list.set_sel(2) subsetI)
  with Cons show ?case by auto blast+
qed simp

lemma path_steps_set: "\<Union> (set ` set (foldl path_step s cs)) \<subseteq> \<Union> (set ` set s) \<union> \<Union> (set ` set cs)"
proof (induction cs arbitrary: s)
  case (Cons c cs)
  have "\<Union> (set ` set (path_step s c)) \<subseteq> \<Union> (set ` set s) \<union> set c"
    by (auto simp: path_step_def dest: in_set_butlastD)
  with Cons.IH [of "path_step s c"] show ?case by auto
qed simp

lemma render_set: "set (render (canon p)) \<subseteq> insert 47 (set p)"
  using join_set [of "canon p"] path_steps_set [of "[]" "pieces p"] pieces_set [of p]
  by (auto simp: render_def canon_def)

lemma cstr_no_zero: "0 \<notin> set (cstr a)"
  by (auto simp: cstr_def dest: set_takeWhileD)

lemma str_at_no_zero: "str_at m p cs \<Longrightarrow> 0 \<notin> set cs"
  by (auto simp: str_at_def in_set_conv_nth)

lemma cstr_put_cwd: "\<lbrakk>0 \<notin> set s; length s \<le> 254\<rbrakk> \<Longrightarrow> cstr (put_cwd a s) = s"
  by (auto simp: cstr_def put_cwd_def takeWhile_append)

definition enter_dir :: "u8 list \<Rightarrow> 'd kernel \<Rightarrow> 'd kernel" where
  "enter_dir dir k = set_kp (upd (current (kp k)) (\<lambda>r. r\<lparr>proc_cwd := put_cwd (proc_cwd r) dir\<rparr>) (kp k)) k"

lemma chdir_exact:
  assumes "cur_proc k = Some c" and "fst (root_yafs (k_vfs k)) \<noteq> 0" and "p \<noteq> 0"
    and "str_at (kram k) p path" and "length path < 2 ^ 32"
    and "mkrn_yafs_lookup_path (Some (mkrn_resolve_path (cstr (proc_cwd c)) (Some path) 256)) (root_yafs (k_vfs k)) = Some ino"
  shows "mkrn_syscall_chdir_impl e (p, x) k = Some (if ino = 0 then (Ret M4K_SC_ERROR, k)
    else (Ret M4K_SC_SUCCESS, enter_dir (mkrn_resolve_path (cstr (proc_cwd c)) (Some path) 256) k))"
  using assms c_string_str [OF assms(4,5)]
  by (simp add: mkrn_syscall_chdir_impl_def with_str_def ret_def enter_dir_def Let_def)

lemma cur_proc_enter: "cur_proc k = Some c \<Longrightarrow> cur_proc (enter_dir dir k) = Some (c\<lparr>proc_cwd := put_cwd (proc_cwd c) dir\<rparr>)"
  by (auto simp: cur_proc_def enter_dir_def upd_def split: if_splits)

text \<open>A path too long for the buffer resolves to the empty path, which the lookup takes for the
  root: the call succeeds and leaves an empty working directory.\<close>

lemma tmp_append_full: "\<lbrakk>length tmp \<le> 510; 510 < length tmp + length cs\<rbrakk> \<Longrightarrow> fst (tmp_append cs tmp)"
  by (induction cs arbitrary: tmp) auto

lemma chdir_overlong:
  assumes "cur_proc k = Some c" and "fst (root_yafs (k_vfs k)) \<noteq> 0" and "p \<noteq> 0" and "str_at (kram k) p path"
    and "hd path = 47" and "510 < length path" and "length path < 2 ^ 32"
  shows "mkrn_syscall_chdir_impl e (p, x) k = Some (Ret M4K_SC_SUCCESS, enter_dir [] k)"
proof -
  have "path \<noteq> []" using assms(6) by auto
  have "mkrn_resolve_path (cstr (proc_cwd c)) (Some path) 256 = []"
    using tmp_append_full [of "[]" path] assms(5,6) \<open>path \<noteq> []\<close>
    by (auto simp: mkrn_resolve_path_def tmp_path_def split: prod.split)
  then show ?thesis using chdir_exact [OF assms(1-4,7), of 1 e x] by (simp add: mkrn_yafs_lookup_path_def lookup_path_def)
qed

text \<open>C32. The working directory, for a caller that passes a string and a buffer of at least
  255 bytes. Within the limits of the code (510 characters and 64 names for the path put
  behind the working directory, 254 characters for the result), changing to a path that
  exists, written absolutely or from the working directory, changes nothing but the
  working directory of the caller, and asking for it afterwards gives the absolute
  path of the components that are left when \<open>.\<close> and \<open>..\<close> are carried out; a path that
  does not exist is refused without an effect. Beyond the limits this fails: an absolute
  path of more than 510 characters is accepted, whether it exists or not, and empties
  the working directory.\<close>

theorem chdir_getcwd:
  assumes "cur_proc k = Some c" and "fst (root_yafs (k_vfs k)) \<noteq> 0" and "p \<noteq> 0" and "str_at (kram k) p path" and "path \<noteq> []"
    and "full = (if hd path = 47 then path else cstr (proc_cwd c) @ 47 # path)" and "dir = render (canon full)"
    and "length path < 2 ^ 32" and "buf \<noteq> 0" and "255 \<le> sint sz"
  shows "(length full \<le> 510 \<and> named (pieces full) \<le> 64 \<and> length dir \<le> 254 \<and>
        mkrn_yafs_lookup_path (Some dir) (root_yafs (k_vfs k)) = Some ino \<longrightarrow>
      mkrn_syscall_chdir_impl e (p, x) k = Some (if ino = 0 then (Ret M4K_SC_ERROR, k) else (Ret M4K_SC_SUCCESS, enter_dir dir k)) \<and>
      list_all plain (canon full) \<and>
      (\<exists>k'. mkrn_syscall_getcwd_impl e (buf, sz, y) (enter_dir dir k) = Some (Ret (of_nat (length dir)), k') \<and> str_at (kram k') buf dir)) \<and>
    (hd path = 47 \<and> 510 < length path \<longrightarrow>
      mkrn_syscall_chdir_impl e (p, x) k = Some (Ret M4K_SC_SUCCESS, enter_dir [] k))"
proof (intro conjI impI; (elim conjE)?)
  assume lim: "length full \<le> 510" "named (pieces full) \<le> 64" "length dir \<le> 254"
    and ino: "mkrn_yafs_lookup_path (Some dir) (root_yafs (k_vfs k)) = Some ino"
  have "mkrn_resolve_path (cstr (proc_cwd c)) (Some path) 256 = dir"
    using resolve_ref [OF assms(5,6) lim(1,2), of 256] assms(7) lim(3) by simp
  then show "mkrn_syscall_chdir_impl e (p, x) k = Some (if ino = 0 then (Ret M4K_SC_ERROR, k) else (Ret M4K_SC_SUCCESS, enter_dir dir k))"
    using chdir_exact [OF assms(1-4,8), of ino e x] ino by simp
  show "list_all plain (canon full)" using canon_plain [of "[]" "pieces full"] pieces_no_slash by (simp add: canon_def)
  have z: "0 \<notin> set dir"
    using render_set [of full] str_at_no_zero [OF assms(4)] cstr_no_zero [of "proc_cwd c"] assms(6,7) by (auto split: if_splits)
  have "sint (sz - 1) = sint sz - 1"
    using assms(10) sint_lt [of sz] by (simp add: sint_word_ariths signed_take_bit_int_eq_self)
  then have t: "take (nat (sint (sz - 1))) dir = dir" using assms(10) lim(3) by simp
  have "sz \<noteq> 0" using assms(10) by auto
  then have g: "mkrn_syscall_getcwd_impl e (buf, sz, y) (enter_dir dir k) =
      Some (Ret (of_nat (length dir)), upd_ram (store_bytes_at buf (dir @ [0])) (enter_dir dir k))"
    using cur_proc_enter [OF assms(1), of dir] assms(9) cstr_put_cwd [OF z lim(3)]
    by (simp add: mkrn_syscall_getcwd_impl_def ret_def t)
  show "\<exists>k'. mkrn_syscall_getcwd_impl e (buf, sz, y) (enter_dir dir k) = Some (Ret (of_nat (length dir)), k') \<and> str_at (kram k') buf dir"
    using g store_string [OF z, of buf] lim(3) by simp
next
  assume "hd path = 47" "510 < length path"
  then show "mkrn_syscall_chdir_impl e (p, x) k = Some (Ret M4K_SC_SUCCESS, enter_dir [] k)"
    by (intro chdir_overlong [OF assms(1-4)]) (use assms(8) in simp_all)
qed

section \<open>The clock calls\<close>

lemma load32_apart:
  assumes "4 \<le> unat (b - a)" and "unat (b - a) \<le> 2 ^ 32 - 4"
  shows "load32 a (store32 b w m) = load32 a m"
proof (rule load_cong)
  fix j :: nat assume j: "j < 4"
  have "unat (of_nat j :: u32) = j" using j by (intro unat_of_nat_small) simp
  then have "4 \<le> unat (of_nat j - (b - a))" using assms j by (simp add: unat_sub_if')
  moreover have e: "a + of_nat j - b = of_nat j - (b - a)" by simp
  ultimately have "4 \<le> unat (a + of_nat j - b)" by (simp only: e)
  then show "store32 b w m (a + of_nat j) = m (a + of_nat j)" by (rule store_other)
qed

lemma in_range_valid: "rtc_in_range t \<Longrightarrow> rtc_valid t"
  by (auto simp: rtc_in_range_def rtc_valid_def not_less word_le_nat_alt)

text \<open>The six words of a date in memory: year, month, day, hour, minute, second.\<close>

definition rtc_words :: "u32 \<Rightarrow> mem \<Rightarrow> u32 list" where
  "rtc_words p m = map (\<lambda>j. load32 (p + j) m) [0, 4, 8, 12, 16, 20]"

definition cut8 :: "u32 list \<Rightarrow> u32 list" where
  "cut8 ws = hd ws # map (\<lambda>w. w AND 0xFF) (tl ws)"

lemma ucast_u8: "ucast (ucast (w :: u32) :: u8) = w AND 0xFF"
proof -
  have "ucast (ucast w :: u8) = take_bit 8 w" by (rule bit_eqI) (auto simp: bit_simps)
  then show ?thesis by (simp add: take_bit_eq_mask mask_eq_exp_minus_1)
qed

lemma words_stored:
  "t = rtc_fields p m \<Longrightarrow>
   rtc_words q (store_words q [t_year t, ucast (t_month t), ucast (t_day t), ucast (t_hour t), ucast (t_minute t), ucast (t_second t)] m') =
     cut8 (rtc_words p m)"
  by (simp add: rtc_words_def cut8_def rtc_fields_def add.assoc load32_apart load_store_same ucast_u8)

text \<open>C33. The clock calls, on a clock chip that conforms. Root sets the time by the seconds since
  1970, and for the seconds of the years 2000 to 2099 the time call gives them back (other
  values are not covered: they come back in another century, as \<open>clock_loses_century\<close>
  shows). A date written by its six words is taken with the month, the day, the hour, the minute and
  the second cut to eight bits, so that month 257 counts as January: when the cut date
  is in range (years 2000 to 2099, months 1 to 12, days 1 to 31, hours to 23, minutes and
  seconds to 59) the date read back is the cut one, and otherwise the call is refused
  without an effect. Every caller other than root is refused without an effect.\<close>

theorem clock_calls:
  assumes "cmos_conforms (e_io e) view" and "p \<noteq> 0" and "q \<noteq> 0"
  shows "if not_root k then mkrn_syscall_settimeofday_impl e (p, x) k = Some (Ret M4K_SC_ERROR, k) \<and>
        mkrn_syscall_rtcwrite_impl e (p, x) k = Some (Ret M4K_SC_ERROR, k)
     else (946684800 \<le> load32 p (kram k) \<and> load32 p (kram k) < 4102444800 \<longrightarrow>
        (\<exists>k1 k2. mkrn_syscall_settimeofday_impl e (p, x) k = Some (Ret 0, k1) \<and>
           mkrn_syscall_time_impl e (0, y) k1 = Some (Ret (load32 p (kram k)), k2))) \<and>
      (if rtc_in_range (rtc_fields p (kram k))
       then \<exists>k1 k2. mkrn_syscall_rtcwrite_impl e (p, x) k = Some (Ret 0, k1) \<and>
           mkrn_syscall_rtcread_impl e (q, y) k1 = Some (Ret 0, k2) \<and> rtc_words q (kram k2) = cut8 (rtc_words p (kram k))
       else mkrn_syscall_rtcwrite_impl e (p, x) k = Some (Ret M4K_SC_ERROR, k))"
proof (cases "not_root k")
  case True
  then show ?thesis using assms by (simp add: mkrn_syscall_settimeofday_impl_def mkrn_syscall_rtcwrite_impl_def ret_def)
next
  case False
  let ?t = "load32 p (kram k)" and ?r = "rtc_fields p (kram k)"
  have st: "\<exists>k1 k2. mkrn_syscall_settimeofday_impl e (p, x) k = Some (Ret 0, k1) \<and> mkrn_syscall_time_impl e (0, y) k1 = Some (Ret ?t, k2)"
    if years: "946684800 \<le> ?t \<and> ?t < 4102444800"
  proof -
    obtain d1 t d2 where "mkrn_timer_set_rtc (e_io e) (epoch_to_rtc ?t) (hw k) = Some d1"
      "mkrn_timer_read_rtc (e_io e) d1 = Some (t, d2)" "rtc_to_epoch t = ?t"
      using clock_set_get [OF assms(1), of ?t "hw k"] years by blast
    then show ?thesis using False assms(2)
      by (simp add: mkrn_syscall_settimeofday_impl_def mkrn_syscall_time_impl_def ret_def Let_def)
  qed
  have wr: "\<exists>k1 k2. mkrn_syscall_rtcwrite_impl e (p, x) k = Some (Ret 0, k1) \<and>
      mkrn_syscall_rtcread_impl e (q, y) k1 = Some (Ret 0, k2) \<and> rtc_words q (kram k2) = cut8 (rtc_words p (kram k))" if "rtc_in_range ?r"
  proof -
    obtain d1 where 1: "mkrn_timer_set_rtc (e_io e) ?r (hw k) = Some d1" "cm_reg (view d1) = rtc_encode ?r (cm_reg (view (hw k)))"
      using set_rtc_ok [OF assms(1)] by blast
    obtain d2 where "mkrn_timer_read_rtc (e_io e) d1 = Some (rtc_decode (cm_reg (view d1)), d2)"
      using read_rtc_ok [OF assms(1)] by blast
    then have "mkrn_timer_read_rtc (e_io e) d1 = Some (?r, d2)" using 1(2) rtc_decode_encode [OF in_range_valid [OF that]] by simp
    then show ?thesis using False assms(2,3) that 1(1)
      by (simp add: mkrn_syscall_rtcwrite_impl_def mkrn_syscall_rtcread_impl_def ret_def Let_def words_stored del: store_words.simps)
  qed
  show ?thesis using False st wr assms(2) by (simp add: mkrn_syscall_rtcwrite_impl_def ret_def Let_def)
qed

text \<open>The fields are cut to eight bits before their range is tested, so that month 257 is taken
  for January.\<close>

lemma rtcwrite_wraps_fields:
  assumes "load32 (p + 4) m = 257" and "m' = store32 (p + 4) 1 m"
  shows "t_month (rtc_fields p m) = t_month (rtc_fields p m')"
  using assms by (simp add: rtc_fields_def load_store_same)

section \<open>Examples\<close>

text \<open>A kernel with a process of root in \<open>/usr\<close> and a clock chip; the string \<open>./..\<close> and a number of
  seconds stand in memory.\<close>

definition demo_proc :: kproc where
  "demo_proc = kproc0\<lparr>current := 0x1000, procs := \<lambda>_. proc0\<lparr>proc_cwd := put_cwd (replicate 256 0) (chars ''/usr'')\<rparr>,
     ram := store32 0x7000 1721124309 (store_bytes_at 0x5000 (chars ''./..'') (\<lambda>_. 0))\<rparr>"

definition demo_kernel :: "cmos kernel" where
  "demo_kernel = \<lparr>k_timer = timer_bss (),
     k_vfs = vfs_bss (1, ydev_boot) (penv_boot demo_proc (devfs_bss \<lparr>ata_drives = [], ata_initialized = False,
       ata_hw = \<lparr>cm_index = 0, cm_reg = \<lambda>_. 0, cm_busy = 5\<rparr>\<rparr>)), k_console = []\<rparr>"

definition demo_env :: "cmos sc_env" where
  "demo_env = \<lparr>e_io = sim_cmos, e_hooks = kernel_hooks sim_cmos (\<lambda>_. 0) (\<lambda>_. 0) (\<lambda>_ h. (None, h)) (\<lambda>_ h. h),
     e_pcb = \<lambda>_. 0, e_tramp = 0, e_esp = 0\<rparr>"

definition sc_bss :: "'f syscalls" where
  "sc_bss = \<lparr>g_syscall_table = [], total_calls = 0, failed_calls = 0, permission_denied = 0\<rparr>"

lemma demo_simps:
  "kp demo_kernel = demo_proc" "kram demo_kernel = store32 0x7000 1721124309 (store_bytes_at 0x5000 (chars ''./..'') (\<lambda>_. 0))"
  "cur_proc demo_kernel = Some (proc0\<lparr>proc_cwd := put_cwd (replicate 256 0) (chars ''/usr'')\<rparr>)"
  "root_yafs (k_vfs demo_kernel) = (1, ydev_boot)" "e_io demo_env = sim_cmos"
  by (simp_all add: demo_kernel_def demo_proc_def kp_def kram_def cur_proc_def penv_boot_def vfs_bss_def kproc0_def demo_env_def)

lemma gates_correct_witness:
  "\<exists>t u. gate_calls mkrn_syscall_handler id (run80 demo_env (\<lambda>_ _ _ k. Some (Ret 0, k))) (\<lambda>_. True) [(9, 0, 0, 0, 0, 0), (255, 0, 0, 0, 0, 0)]
        (mkrn_syscall_init sc_bss, demo_kernel) = Some ([H_getpid], t, demo_kernel) \<and>
     gate_calls m4k_syscall_handler (\<lambda>n. n AND 0xFF) (run4D demo_env (\<lambda>_ _ _ k. Some (Ret 0, k))) (\<lambda>_. True) [(0x4D000004, 0, 0, 0, 0, 0)]
        (m4k_syscall_init False sc_bss, demo_kernel) = Some ([M_getpid], u, demo_kernel) \<and>
     total_calls t = 2 \<and> refusals t = 1 \<and> total_calls u = 1 \<and> refusals u = 0 \<and>
     mkrn_syscall_handler (run80 demo_env (\<lambda>_ _ _ k. Some (Ret 0, k))) (\<lambda>_. True) 0x0C (0, 0, 0, 0, 0) (t, demo_kernel) =
       Some (Ret M4K_SC_ERROR, t\<lparr>total_calls := 3, failed_calls := failed_calls t + 1\<rparr>, demo_kernel)"
proof -
  let ?run = "run80 demo_env (\<lambda>_ _ _ k. Some (Ret 0, k))" and ?run' = "run4D demo_env (\<lambda>_ _ _ k. Some (Ret 0, k))"
  let ?t = "mkrn_syscall_init sc_bss" and ?u = "m4k_syscall_init False sc_bss"
  have m: "map_of all_calls 9 = Some H_getpid" "map_of all_calls 255 = None" "map_of all_calls 0x0C = None"
    "map_of (m4k_slots False) (0x4D000004 AND 0xFF) = Some M_getpid"
    by (simp_all add: all_calls_def sc_calls_def sc_net_calls_def m4k_slots_def m4k_calls_def)
  have r: "?run H_getpid a k = Some (Ret (mkrn_process_get_pid (kp k)), k)" "?run' M_getpid a k = Some (Ret (mkrn_process_get_pid (kp k)), k)" for a k
    by (simp_all add: run80_def run4D_def mkrn_syscall_getpid_impl_def m4k_syscall_getpid_impl_def ret_def)
  define t1 where "t1 = ?t\<lparr>total_calls := total_calls ?t + 1\<rparr>"
  have c1: "mkrn_syscall_handler ?run (\<lambda>_. True) 9 (0, 0, 0, 0, 0) (?t, demo_kernel) = Some (Ret (mkrn_process_get_pid (kp demo_kernel)), t1, demo_kernel)"
    using gate80_call [of ?t sc_bss ?run "\<lambda>_. True" 9] by (simp add: m r t1_def)
  obtain t where c2: "mkrn_syscall_handler ?run (\<lambda>_. True) 255 (0, 0, 0, 0, 0) (t1, demo_kernel) = Some (Ret M4K_SC_ERROR, t, demo_kernel)"
    using gate80_call [of t1 sc_bss ?run "\<lambda>_. True" 255] by (simp add: m t1_def)
  have "reached True 9 ?t = Some H_getpid" "reached True 255 t1 = None"
    using init80(2) [of True _ sc_bss] same_table(3) [of t1 ?t] by (simp_all add: m t1_def)
  then have g1: "gate_calls mkrn_syscall_handler id ?run (\<lambda>_. True) [(9, 0, 0, 0, 0, 0), (255, 0, 0, 0, 0, 0)] (?t, demo_kernel) = Some ([H_getpid], t, demo_kernel)"
    using c1 c2 by simp
  obtain u where "m4k_syscall_handler ?run' (\<lambda>_. True) 0x4D000004 (0, 0, 0, 0, 0) (?u, demo_kernel) = Some (Ret (mkrn_process_get_pid (kp demo_kernel)), u, demo_kernel)"
    using gate4D_call [of ?u False sc_bss ?run' "\<lambda>_. True" "0x4D000004" "(0, 0, 0, 0, 0)" demo_kernel]
    by (simp only: m option.case) (simp add: r)
  then have g2: "gate_calls m4k_syscall_handler (\<lambda>n. n AND 0xFF) ?run' (\<lambda>_. True) [(0x4D000004, 0, 0, 0, 0, 0)] (?u, demo_kernel) = Some ([M_getpid], u, demo_kernel)"
    using init4D(2) [of True "0x4D000004" False sc_bss] m(4) by simp
  show ?thesis using gates_correct [OF g1 g2, of "0x0C" "(0, 0, 0, 0, 0)" demo_kernel] g1 g2 m by (intro exI [of _ t] exI [of _ u]) simp
qed

lemma chdir_getcwd_witness:
  "mkrn_syscall_chdir_impl demo_env (0x5000, 0, 0, 0, 0) demo_kernel = Some (Ret M4K_SC_SUCCESS, enter_dir (chars ''/'') demo_kernel) \<and>
   (\<exists>k. mkrn_syscall_getcwd_impl demo_env (0x6000, 256, 0, 0, 0) (enter_dir (chars ''/'') demo_kernel) = Some (Ret 1, k) \<and>
      str_at (kram k) 0x6000 (chars ''/''))"
proof -
  let ?f = "chars ''/usr'' @ 47 # chars ''./..''"
  have c: "canon ?f = []" "named (pieces ?f) = 1" by code_simp+
  have s: "str_at (kram demo_kernel) 0x5000 (chars ''./..'')"
    by (simp add: demo_simps str_at_simps chars_def store32_def)
  have w: "cstr (put_cwd (replicate 256 0) (chars ''/usr'')) = chars ''/usr''" by (intro cstr_put_cwd) (simp_all add: chars_def)
  have l: "mkrn_yafs_lookup_path (Some (chars ''/'')) (root_yafs (k_vfs demo_kernel)) = Some 1"
    by (simp add: mkrn_yafs_lookup_path_def lookup_path_def chars_def lookup_path_loop.simps [of _ "[47]"] lookup_path_loop.simps [of _ "[]"])
  have r: "chars ''/'' = render (canon ?f)" unfolding c by (simp add: render_def chars_def)
  show ?thesis
    using chdir_getcwd [OF demo_simps(3) _ _ s _ _ r, of "0x6000" 256 1 demo_env "(0, 0, 0, 0)" "(0, 0, 0)"] l w c(2)
    by (simp add: demo_simps chars_def)
qed

lemma clock_calls_witness:
  "\<exists>k1 k2. mkrn_syscall_settimeofday_impl demo_env (0x7000, 0, 0, 0, 0) demo_kernel = Some (Ret 0, k1) \<and>
     mkrn_syscall_time_impl demo_env (0, 0, 0, 0, 0) k1 = Some (Ret 1721124309, k2)"
proof -
  have "cmos_conforms (e_io demo_env) id" using sim_cmos_conforms by (simp add: demo_simps)
  moreover have "\<not> not_root demo_kernel" by (simp add: not_root_def demo_simps proc0_def)
  moreover have "load32 0x7000 (kram demo_kernel) = 1721124309" by (simp add: demo_simps load_store_same)
  ultimately show ?thesis
    using clock_calls [of demo_env id "0x7000" 1 demo_kernel "(0, 0, 0, 0)" "(0, 0, 0, 0)"] by simp
qed

end
