(* ===== verification/Spec2Isabelle.thy ===== *)
theory Spec2Isabelle
  imports Kstring Kstrtox Heap SchedSpec ForkSpec YafsFhs VfsYafs TcpSpec PseudoSpec SyscallSpec
begin

text \<open>
  A verification library for the kernel core of the M4KK1 operating system, a
  monolithic 32-bit kernel in C under \<^verbatim>\<open>sys/src/\<close>.

  \<^bold>\<open>The program.\<close> At boot the kernel builds a map of the physical memory and a
  buddy allocator over it, formats a RAM disk with the YAFS filesystem, creates the
  standard directory tree, and starts a scheduler. Processes are scheduled round
  robin from a ring of ready tasks, driven by a timer tick; they fork, exit, wait,
  sleep, send signals, and see the file system through a virtual filesystem layer
  with descriptors, pipes, a table of in-memory files, the YAFS tree, the disks of an ATA
  controller and three filesystems of text about processes, sessions and devices; a small
  network stack with ARP, IP, ICMP and a TCP client runs over one card. YAFS keeps
  inodes, directory entries and file extents as entries of one copy-on-write B+tree
  of 4096-byte blocks.

  \<^bold>\<open>Theories and the code they model.\<close>

  \<^item> \<open>Prelude\<close>: word types, byte-addressed memory, little-endian byte lists, generic
    lemmas on lists and words.

  \<^item> \<open>YafsDev\<close>: the RAM disk of \<^verbatim>\<open>fs/yafs/core/yafs/yafs_test.c\<close> (\<open>ramdisk\<close>,
    \<open>next_free_block\<close>) with its bump allocator; blocks are byte lists.

  \<^item> \<open>Btree\<close>: every function of \<^verbatim>\<open>btree.c\<close>: node codec, insertion with splits, lookup,
    deletion, range walk, leaf search. The recursion of the code is bounded by fuel;
    64 levels are used and \<open>root_pot\<close> bounds the height by 16, so the fuel never runs
    out for trees that the device can hold. \<open>BtreeRep\<close> states what it means that a
    block holds a tree with given contents, \<open>BtreeInsert\<close> and \<open>BtreeQuery\<close> prove the
    operations against it, \<open>BtreeStore\<close> derives the locale \<open>map_store\<close>: the tree is a
    finite map (C1 to C4), deletions of absent keys and on the empty tree included.

  \<^item> \<open>Kstring\<close>, \<open>Kstrtox\<close>: \<^verbatim>\<open>lib/string.c\<close> over a 32-bit byte memory, and the integer
    parsers of \<^verbatim>\<open>lib/kstrtox.c\<close> against a reference on characters and natural
    numbers with its own digits and prefixes (C5, C6).

  \<^item> \<open>Buddy\<close>, \<open>PageAlloc\<close>: the page allocator of \<^verbatim>\<open>mm/memory.c\<close>. \<open>Buddy\<close> holds the zone
    with its linked free lists and the invariant, and \<open>fully_merged\<close>, that no free block stands
    beside its free buddy, which all operations keep; \<open>PageAlloc\<close> the regions, the
    boot-time seeding and the page interface (C7, C8).

  \<^item> \<open>Heap\<close>: the kernel heap of \<^verbatim>\<open>mm/memory.c\<close> (\<open>mkrn_alloc\<close>, \<open>mkrn_free\<close>) over its doubly
    linked block list, and \<open>mkrn_strdup\<close>. The headers are a store indexed by their
    addresses; \<open>heap_ok\<close> says that the list is well linked, the blocks are disjoint and no two
    free blocks are neighbours (C9, C10). Freeing is proved for blocks whose free list
    neighbours are neighbours in memory; \<open>heap_merge_overlaps\<close> shows that without this the
    code hands out overlapping blocks. Sizes near \<open>2 ^ 32\<close> wrap (\<open>heap_alloc_wraps\<close>).

  \<^item> \<open>Queue\<close>: the ring of ready tasks of \<^verbatim>\<open>kernel/process.c\<close>, an instance of the locale
    \<open>bounded_queue\<close> (C11). \<open>Namespace\<close>: \<^verbatim>\<open>kernel/namespace.c\<close>, the
    bindings of a process.

  \<^item> \<open>Process\<close>, \<open>Fork\<close>: control blocks, registry, credentials, scheduling, timer, exit,
    wait, signals (\<^verbatim>\<open>kernel/process.c\<close>, \<^verbatim>\<open>kernel/signal.c\<close>), and fork with the copied and
    relocated stacks. \<open>SchedInv\<close> states the scheduler as a transition system and proves
    its safety in every reachable state (C12); three calls that the code accepts and
    that break it are not steps, and \<open>kill_zombie_dangles\<close> shows one of them at work; \<open>SchedSpec\<close> and \<open>ForkSpec\<close> prove what
    each operation does, that yields and sleeps make progress, and that no sequence of
    credential calls raises privileges (C13 to C18).

  \<^item> \<open>YafsVfs\<close>, \<open>YafsFhs\<close>: every function of \<^verbatim>\<open>fs/yafs/core/yafs/yafs_vfs.c\<close>: inodes, path
    lookup, directory updates and listing, file data, truncation, and the creation of
    the standard tree. \<open>YafsStore\<close> turns the tree into a map of entries and blocks;
    \<open>YafsFile\<close> and \<open>YafsDir\<close> prove the operations on that map (C19 to C22). A budget
    counts the blocks an operation may use; the device is a bump allocator that never
    reuses blocks, so a bound of this kind is needed.

  \<^item> \<open>Pipe\<close>, \<open>Vfs\<close>: \<^verbatim>\<open>fs/vfs.c\<close> and \<^verbatim>\<open>kernel/vfs/mkrn_vfs_perms.c\<close>. A pipe refines a
    bounded list of bytes through the locale \<open>byte_stream\<close> (C23). \<open>VfsInv\<close> makes the
    calls of the layer the steps of a transition relation and proves its invariant;
    \<open>VfsSpec\<close> states that the tables are well formed in every reachable state, the life of a pipe, files of
    the table written and read back, the permission table and the search for
    descriptors; \<open>VfsYafs\<close> composes the layer with YAFS: a file created through its
    path, written and read back, with the pseudo filesystems of the kernel in place
    (C24 to C26).

  \<^item> \<open>Ata\<close>, \<open>AtaSpec\<close>: the disk driver \<^verbatim>\<open>kernel/drivers/ata.c\<close>. The port instructions are
    parameters; \<open>ata_conforms\<close> is what the driver relies on of a controller: the status,
    the address registers, the data of a command sector by sector. \<open>sim_ports\<close> is a
    controller that conforms (C28). \<open>Devfs\<close>, \<open>DevfsSpec\<close>: \<^verbatim>\<open>fs/devfs/mkrn_devfs.c\<close>,
    disks and partitions as streams of bytes over the driver.

  \<^item> \<open>Sessions\<close>, \<open>DeviceTree\<close>, \<open>Procfs\<close>: \<^verbatim>\<open>fs/sessions/mkrn_sessions.c\<close>,
    \<^verbatim>\<open>fs/device_tree/mkrn_device_tree.c\<close> and \<^verbatim>\<open>fs/procfs/mkrn_procfs.c\<close>, with the texts of
    their files and the control commands of processes. \<open>PseudoFs\<close> states what a pseudo
    filesystem promises to the layer as the locales \<open>pseudo_module\<close> and \<open>fresh_module\<close>,
    interpreted for the four of them, and puts their functions together as the hooks of
    the layer. \<open>PseudoSpec\<close> composes them with the layer: a disk written and read back
    through its descriptor, the descriptors of the process filesystem after any run, the
    size of the texts, and which descriptors the layer cannot use (C27, C29, C30).

  \<^item> \<open>NetBase\<close>, \<open>Net\<close>, \<open>Tcp\<close>, \<open>NetIn\<close>: the network stack of \<^verbatim>\<open>net/net.c\<close>, \<^verbatim>\<open>net/arp.c\<close> and
    \<^verbatim>\<open>net/tcp.c\<close>. \<open>NetBase\<close> holds byte order, the Internet checksum and the text of
    addresses; \<open>Net\<close> the state of the stack, Ethernet, ARP, IP output and ICMP; \<open>Tcp\<close> the
    TCP client; \<open>NetIn\<close> frame input, start-up and polling. A packet being built is a list of
    bytes, a packet being parsed the memory at its pointer; the functions of the
    network card are parameters on a state of its own. \<open>NetSpec\<close> lets two hosts exchange
    frames over cards that accept every frame (\<open>log_tx\<close>): ARP, IP delivery and ping (C37, C38). \<open>TcpSpec\<close> proves the handshake, the
    segmentation of outgoing data, the checksum against the pseudo header of the
    protocol and that incoming data is the stream of the peer in order, up to the first FIN or RST
    (C39, C40).

  \<^item> \<open>Calendar\<close>, \<open>Timer\<close>: the conversion of dates in \<^verbatim>\<open>kernel/syscall.c\<close> and
    \<^verbatim>\<open>arch/m4kk1/timer.c\<close>: the clock chip behind its ports, the tick, and the table of
    alarms. \<open>TimerSpec\<close> states what is relied on of the chip as \<open>cmos_conforms\<close> and proves the
    table and the period of the alarms (C34, C35).

  \<^item> \<open>PathRes\<close>: the resolution of paths in \<^verbatim>\<open>kernel/syscall.c\<close> against a reference that splits
    a path at its slashes. \<open>SyscallTable\<close>: the tables of the two gates, \<^verbatim>\<open>int 0x80\<close> and
    \<^verbatim>\<open>int 0x4D\<close>, with permissions and counters; the locale \<open>call_table\<close> is what both promise.
    \<open>Syscall\<close>: the handlers of \<^verbatim>\<open>kernel/syscall.c\<close>, \<^verbatim>\<open>kernel/syscall_m4k.c\<close>,
    \<^verbatim>\<open>kernel/session.c\<close> and \<^verbatim>\<open>kernel/syscall/mkrn_syscall.c\<close> on the whole kernel, a record
    of the timer and the file layer with the processes behind it. \<open>SyscallSpec\<close> proves what
    the gates do, and the calls for the working directory, the clock and fork
    (C31 to C33, C36).

  \<^bold>\<open>Conventions.\<close> Machine integers are words of their width; counters that the code
  keeps below a bound are natural numbers where this is noted. An outer \<open>None\<close> of a
  result is a loop that does not return or a recursion that runs out of fuel; the
  properties that say a call succeeds exclude it. Errors are the negative return values of the
  code. Static scratch buffers are local values, because no call leaves anything in
  them for another.

  \<^bold>\<open>Not modelled.\<close> Program loading and the dynamic linker, swap, the network card, the
  handlers of the network, graphics, sound and input calls (an argument of the tables), the
  other drivers, console and start-up code, which
  are device I/O or glue around the operations modelled here; user programs, embedded
  binaries and vendored tools. In the layer, the heap is a pair of functions of the record
  \<open>vfs_hooks\<close>.
\<close>

end
